(* ===== verification/Prelude.thy ===== *)
theory Prelude
  imports Complex_Main
    "HOL-Library.AList" "HOL-Library.Char_ord" "HOL-Library.List_Lexorder"
    "HOL-Library.Product_Lexorder" "HOL-Library.Sublist"
begin

text \<open>
  The vocabulary the components share. It holds the Python idioms that recur across the
  repository (first-seen deduplication, splitting a time-ordered sequence at gaps, the
  truthiness of optional strings, insertion-ordered dictionaries, \<open>max\<close> with a key) as
  executable functions, with the lemmas that the component theories rest on.

  Types. A timezone-aware \<^verbatim>\<open>datetime\<close> is an integer number of microseconds and a
  \<^verbatim>\<open>timedelta\<close> a difference of such; both have exactly this resolution in Python.
  A Python \<^verbatim>\<open>dict\<close> whose order matters is an association list in insertion order.
\<close>

named_theorems dedup_facts \<open>what first-seen deduplication keeps\<close>
named_theorems gap_facts \<open>what splitting at gaps keeps\<close>
named_theorems dict_facts \<open>insertion-ordered dictionaries\<close>

type_synonym time = int
type_synonym duration = int
type_synonym ('k, 'v) dict = "('k \<times> 'v) list"


section \<open>Truthiness of optional strings\<close>

text \<open>\<^verbatim>\<open>if value:\<close> is false for \<^verbatim>\<open>None\<close> and for the empty string alike.\<close>

fun truthy :: "'a list option \<Rightarrow> bool" where
  "truthy None = False"
| "truthy (Some s) = (s \<noteq> [])"

text \<open>\<^verbatim>\<open>a or b\<close> on optional strings, and \<^verbatim>\<open>a or ""\<close>.\<close>

definition or_else :: "'a list option \<Rightarrow> 'a list option \<Rightarrow> 'a list option" where
  "or_else a b = (if truthy a then a else b)"

definition or_empty :: "'a list option \<Rightarrow> 'a list" where
  "or_empty a = (case a of None \<Rightarrow> [] | Some s \<Rightarrow> s)"

lemma truthy_iff: "truthy a \<longleftrightarrow> (\<exists>x xs. a = Some (x # xs))"
  by (cases a) (auto simp: neq_Nil_conv)

lemma truthy_the: "truthy a \<Longrightarrow> the a \<noteq> [] \<and> a = Some (the a)"
  by (cases a) auto


section \<open>First-seen deduplication\<close>

text \<open>
  The loop \<^verbatim>\<open>for x in xs: if key(x) in seen: continue; seen.add(key(x)); out.append(x)\<close>.
\<close>

fun dedup_by :: "('a \<Rightarrow> 'k) \<Rightarrow> 'k list \<Rightarrow> 'a list \<Rightarrow> 'a list" where
  "dedup_by key seen [] = []"
| "dedup_by key seen (x # xs) =
     (if key x \<in> set seen then dedup_by key seen xs
      else x # dedup_by key (key x # seen) xs)"

lemma dedup_by_keys [dedup_facts]:
  "key ` set (dedup_by key seen xs) = key ` set xs - set seen"
  by (induction xs arbitrary: seen) auto

lemma dedup_by_distinct [dedup_facts]: "distinct (map key (dedup_by key seen xs))"
  by (induction xs arbitrary: seen) (auto simp: dedup_by_keys)

lemma dedup_by_subseq [dedup_facts]: "subseq (dedup_by key seen xs) xs"
  by (induction xs arbitrary: seen) auto

lemma dedup_by_subset [dedup_facts]: "set (dedup_by key seen xs) \<subseteq> set xs"
  by (induction xs arbitrary: seen) auto

lemma dedup_by_length: "length (dedup_by key seen xs) \<le> length xs"
  using dedup_by_subseq by (rule list_emb_length)

text \<open>Every element is represented by the first element with its key.\<close>

lemma dedup_by_first [dedup_facts]:
  assumes "xs = as @ x # bs" and "key x \<notin> key ` set as" and "key x \<notin> set seen"
  shows "x \<in> set (dedup_by key seen xs)"
  using assms
proof (induction as arbitrary: xs seen)
  case Nil
  then show ?case by simp
next
  case (Cons a as)
  let ?seen = "if key a \<in> set seen then seen else key a # seen"
  have "x \<in> set (dedup_by key ?seen (as @ x # bs))"
    by (rule Cons.IH[OF refl]) (use Cons.prems in auto)
  with Cons.prems show ?case by (auto split: if_splits)
qed

lemma dedup_by_idem:
  "distinct (map key xs) \<Longrightarrow> key ` set xs \<inter> set seen = {} \<Longrightarrow> dedup_by key seen xs = xs"
  by (induction xs arbitrary: seen) auto

text \<open>Equal keys in one call are equal elements of the result.\<close>

lemma dedup_by_inj: "inj_on key (set (dedup_by key seen xs))"
  using dedup_by_distinct[of key seen xs] by (simp add: distinct_map)

abbreviation unique :: "'a list \<Rightarrow> 'a list" where
  "unique \<equiv> dedup_by (\<lambda>x. x) []"

lemma set_unique [simp]: "set (unique xs) = set xs"
  using dedup_by_keys[of "\<lambda>x. x" "[]" xs] by simp

lemma distinct_unique [simp]: "distinct (unique xs)"
  using dedup_by_distinct[of "\<lambda>x. x" "[]" xs] by simp

lemma length_unique: "length (unique xs) = card (set xs)"
  by (metis distinct_card distinct_unique set_unique)

text \<open>\<^verbatim>\<open>sorted(set(xs))\<close>.\<close>

definition sorted_set :: "'a::linorder list \<Rightarrow> 'a list" where
  "sorted_set xs = sort (unique xs)"

lemma sorted_set_facts [simp]: "set (sorted_set xs) = set xs" "distinct (sorted_set xs)" "sorted (sorted_set xs)"
  by (simp_all add: sorted_set_def)



section \<open>Splitting a sequence at gaps\<close>

text \<open>
  The loop shared by \<^verbatim>\<open>_split_by_gap\<close> and \<^verbatim>\<open>_bursts\<close>: \<open>cur\<close> is the episode being
  collected, closed whenever the next element lies more than \<open>w\<close> after its last one.
\<close>

fun gap_split :: "('a \<Rightarrow> time) \<Rightarrow> duration \<Rightarrow> 'a list \<Rightarrow> 'a list \<Rightarrow> 'a list list" where
  "gap_split t w cur [] = (if cur = [] then [] else [cur])"
| "gap_split t w cur (x # xs) =
     (if cur \<noteq> [] \<and> t x - t (last cur) > w
      then cur # gap_split t w [x] xs
      else gap_split t w (cur @ [x]) xs)"

fun close_knit :: "('a \<Rightarrow> time) \<Rightarrow> duration \<Rightarrow> 'a list \<Rightarrow> bool" where
  "close_knit t w [] = True"
| "close_knit t w [x] = True"
| "close_knit t w (x # y # ys) = (t y - t x \<le> w \<and> close_knit t w (y # ys))"

lemma close_knit_snoc:
  "close_knit t w (xs @ [x]) \<longleftrightarrow> close_knit t w xs \<and> (xs \<noteq> [] \<longrightarrow> t x - t (last xs) \<le> w)"
  by (induction t w xs rule: close_knit.induct) auto

lemma gap_split_concat [gap_facts]: "concat (gap_split t w cur xs) = cur @ xs"
  by (induction xs arbitrary: cur) auto

lemma gap_split_nonempty [gap_facts]: "ep \<in> set (gap_split t w cur xs) \<Longrightarrow> ep \<noteq> []"
  by (induction xs arbitrary: cur) (auto split: if_splits)

lemma gap_split_close_knit [gap_facts]:
  "close_knit t w cur \<Longrightarrow> ep \<in> set (gap_split t w cur xs) \<Longrightarrow> close_knit t w ep"
proof (induction xs arbitrary: cur)
  case Nil
  then show ?case by (auto split: if_splits)
next
  case (Cons x xs)
  show ?case
  proof (cases "cur \<noteq> [] \<and> t x - t (last cur) > w")
    case True
    with Cons.prems have "ep = cur \<or> ep \<in> set (gap_split t w [x] xs)" by auto
    then show ?thesis using Cons.prems(1) Cons.IH[of "[x]"] by auto
  next
    case False
    then have "close_knit t w (cur @ [x])" using Cons.prems(1) by (auto simp: close_knit_snoc)
    moreover have "ep \<in> set (gap_split t w (cur @ [x]) xs)" using False Cons.prems(2) by auto
    ultimately show ?thesis by (rule Cons.IH)
  qed
qed

text \<open>Neighbouring episodes are more than the window apart.\<close>

fun far_apart :: "('a \<Rightarrow> time) \<Rightarrow> duration \<Rightarrow> 'a list list \<Rightarrow> bool" where
  "far_apart t w (a # b # eps) = (t (hd b) - t (last a) > w \<and> far_apart t w (b # eps))"
| "far_apart t w _ = True"

lemma gap_split_hd:
  "cur @ xs \<noteq> [] \<Longrightarrow> \<exists>ep eps. gap_split t w cur xs = ep # eps \<and> hd ep = hd (cur @ xs)"
proof (induction xs arbitrary: cur)
  case Nil
  then show ?case by simp
next
  case (Cons x xs)
  show ?case
  proof (cases "cur \<noteq> [] \<and> t x - t (last cur) > w")
    case True
    then show ?thesis by simp
  next
    case False
    from Cons.IH[of "cur @ [x]"] False show ?thesis by auto
  qed
qed

lemma gap_split_far_apart [gap_facts]: "far_apart t w (gap_split t w cur xs)"
proof (induction xs arbitrary: cur)
  case Nil
  then show ?case by simp
next
  case (Cons x xs)
  show ?case
  proof (cases "cur \<noteq> [] \<and> t x - t (last cur) > w")
    case True
    obtain ep eps where "gap_split t w [x] xs = ep # eps" "hd ep = x"
      using gap_split_hd[of "[x]" xs t w] by auto
    with True Cons.IH[of "[x]"] show ?thesis by simp
  next
    case False
    with Cons.IH[of "cur @ [x]"] show ?thesis by auto
  qed
qed

lemma gap_split_subset: "ep \<in> set (gap_split t w cur xs) \<Longrightarrow> set ep \<subseteq> set cur \<union> set xs"
  using gap_split_concat[of t w cur xs]
  by (metis UN_upper set_append set_concat)


section \<open>Insertion-ordered dictionaries\<close>

text \<open>
  \<^verbatim>\<open>d[k] = v\<close> replaces in place or appends at the end, which is \<^const>\<open>AList.update\<close>;
  \<^verbatim>\<open>d.get(k)\<close> is \<^const>\<open>map_of\<close>. \<open>dict_append\<close> is \<^verbatim>\<open>d.setdefault(k, []).append(v)\<close>, the
  grouping idiom of every bucket loop.
\<close>

fun dict_append :: "'k \<Rightarrow> 'v \<Rightarrow> ('k, 'v list) dict \<Rightarrow> ('k, 'v list) dict" where
  "dict_append k v [] = [(k, [v])]"
| "dict_append k v ((k', vs) # d) =
     (if k = k' then (k', vs @ [v]) # d else (k', vs) # dict_append k v d)"

definition dict_group :: "('k \<times> 'v) list \<Rightarrow> ('k, 'v list) dict" where
  "dict_group kvs = fold (\<lambda>(k, v). dict_append k v) kvs []"

definition values_for :: "'k \<Rightarrow> ('k \<times> 'v) list \<Rightarrow> 'v list" where
  "values_for k kvs = map snd (filter (\<lambda>(k', _). k' = k) kvs)"

lemma dict_append_keys [dict_facts]:
  "fst ` set (dict_append k v d) = insert k (fst ` set d)"
proof (induction d)
  case Nil
  then show ?case by simp
next
  case (Cons a d)
  then show ?case by (cases a) auto
qed

lemma dict_append_distinct [dict_facts]:
  "distinct (map fst d) \<Longrightarrow> distinct (map fst (dict_append k v d))"
proof (induction d)
  case Nil
  then show ?case by simp
next
  case (Cons a d)
  obtain k' vs where a: "a = (k', vs)" by (cases a)
  have "k' \<noteq> k \<Longrightarrow> k' \<notin> fst ` set (dict_append k v d)"
    using Cons.prems a by (simp add: dict_append_keys)
  with Cons a show ?case by auto
qed

lemma dict_append_lookup [dict_facts]:
  "map_of (dict_append k v d) k' =
     (if k' = k then Some ((case map_of d k of None \<Rightarrow> [] | Some vs \<Rightarrow> vs) @ [v])
      else map_of d k')"
  by (induction d) auto

lemma dict_group_lookup_gen:
  "map_of (fold (\<lambda>(k, v). dict_append k v) kvs d) k =
     (if values_for k kvs = [] then map_of d k
      else Some ((case map_of d k of None \<Rightarrow> [] | Some vs \<Rightarrow> vs) @ values_for k kvs))"
proof (induction kvs arbitrary: d)
  case Nil
  then show ?case by (simp add: values_for_def)
next
  case (Cons kv kvs)
  obtain k' v where "kv = (k', v)" by (cases kv)
  with Cons.IH[of "dict_append k' v d"] show ?case
    by (auto simp: values_for_def dict_append_lookup split: option.splits)
qed

lemma dict_group_lookup [dict_facts]:
  "map_of (dict_group kvs) k =
     (if values_for k kvs = [] then None else Some (values_for k kvs))"
  by (simp add: dict_group_def dict_group_lookup_gen)

lemma dict_group_distinct [dict_facts]: "distinct (map fst (dict_group kvs))"
proof -
  have "distinct (map fst d) \<Longrightarrow> distinct (map fst (fold (\<lambda>(k, v). dict_append k v) kvs d))" for d
    by (induction kvs arbitrary: d) (auto simp: dict_append_distinct)
  then show ?thesis by (simp add: dict_group_def)
qed

lemma dict_group_member:
  "(k, vs) \<in> set (dict_group kvs) \<longleftrightarrow> vs = values_for k kvs \<and> vs \<noteq> []"
proof -
  have "(k, vs) \<in> set (dict_group kvs) \<longleftrightarrow> map_of (dict_group kvs) k = Some vs"
    using dict_group_distinct by (metis map_of_eq_Some_iff)
  then show ?thesis by (auto simp: dict_group_lookup)
qed

lemma values_for_set: "set (values_for k kvs) = {v. (k, v) \<in> set kvs}"
  by (force simp: values_for_def)


text \<open>\<^verbatim>\<open>d[key] = value\<close>: in place when the key is bound, at the end otherwise.\<close>

fun dict_set :: "'k \<Rightarrow> 'v \<Rightarrow> ('k, 'v) dict \<Rightarrow> ('k, 'v) dict" where
  "dict_set k v [] = [(k, v)]"
| "dict_set k v ((k', v') # d) = (if k = k' then (k', v) # d else (k', v') # dict_set k v d)"

lemma dict_set_lookup [dict_facts]: "map_of (dict_set k v d) k' = (if k' = k then Some v else map_of d k')"
  by (induction d) auto

lemma dict_set_keys [dict_facts]: "fst ` set (dict_set k v d) = insert k (fst ` set d)"
proof (induction d)
  case Nil
  then show ?case by simp
next
  case (Cons a d)
  then show ?case by (cases a) auto
qed

lemma dict_set_distinct [dict_facts]: "distinct (map fst d) \<Longrightarrow> distinct (map fst (dict_set k v d))"
proof (induction d)
  case Nil
  then show ?case by simp
next
  case (Cons a d)
  then show ?case using dict_set_keys[of k v d] by (cases a) (auto simp: image_iff)
qed

text \<open>\<^verbatim>\<open>d.pop(key, None)\<close>.\<close>

definition dict_del :: "'k \<Rightarrow> ('k, 'v) dict \<Rightarrow> ('k, 'v) dict" where
  "dict_del k d = filter (\<lambda>(k', _). k' \<noteq> k) d"

lemma dict_del_lookup [dict_facts]: "map_of (dict_del k d) k' = (if k' = k then None else map_of d k')"
  by (induction d) (auto simp: dict_del_def)

lemma dict_del_distinct [dict_facts]: "distinct (map fst d) \<Longrightarrow> distinct (map fst (dict_del k d))"
  by (simp add: dict_del_def distinct_map_filter)


section \<open>Maximum with a key\<close>

text \<open>\<^verbatim>\<open>max(xs, key=f)\<close>: the first element with the greatest key (no value on an empty list).\<close>

fun max_by :: "('a \<Rightarrow> 'b::linorder) \<Rightarrow> 'a \<Rightarrow> 'a list \<Rightarrow> 'a" where
  "max_by f best [] = best"
| "max_by f best (x # xs) = max_by f (if f best < f x then x else best) xs"

lemma max_by_mem: "max_by f b xs \<in> set (b # xs)"
proof (induction xs arbitrary: b)
  case Nil
  then show ?case by simp
next
  case (Cons y ys)
  from Cons.IH[of "if f b < f y then y else b"] show ?case by (auto split: if_splits)
qed

lemma max_by_ge: "x \<in> set (b # xs) \<Longrightarrow> f x \<le> f (max_by f b xs)"
proof (induction xs arbitrary: b x)
  case Nil
  then show ?case by simp
next
  case (Cons y ys)
  let ?b = "if f b < f y then y else b"
  have bound: "f ?b \<le> f (max_by f ?b ys)" by (rule Cons.IH) simp
  show ?case
  proof (cases "x \<in> set ys")
    case True
    then show ?thesis using Cons.IH[of x ?b] by simp
  next
    case False
    with Cons.prems have "f x \<le> f ?b" by auto
    then show ?thesis using bound by simp
  qed
qed

lemma max_by_first:
  assumes "max_by f b xs \<noteq> b" shows "f b < f (max_by f b xs)"
  using assms
proof (induction xs arbitrary: b)
  case Nil
  then show ?case by simp
next
  case (Cons y ys)
  show ?case
  proof (cases "f b < f y")
    case True
    have "f y \<le> f (max_by f y ys)" by (rule max_by_ge) simp
    with True show ?thesis by simp
  next
    case False
    with Cons show ?thesis by simp
  qed
qed


section \<open>Sorted output\<close>

lemma sort_key_ties: "[x \<leftarrow> sort_key f xs. f x = k] = [x \<leftarrow> xs. f x = k]"
  by (rule sort_key_stable)

lemma take_sorted_le:
  assumes "sorted (map f xs)" and "x \<in> set (take n xs)" and "y \<in> set (drop n xs)"
  shows "f x \<le> f y"
proof -
  have "sorted (map f (take n xs) @ map f (drop n xs))"
    using assms(1) by (simp flip: map_append)
  with assms(2,3) show ?thesis by (auto simp: sorted_append)
qed

end
