(* ===== verification/Float64.thy ===== *)
theory Float64
  imports Prelude "HOL-Library.Log_Nat"
begin

text \<open>
  Python's \<^verbatim>\<open>float\<close>: IEEE binary64 with round-to-nearest, ties to even. A finite float is
  modelled by its exact rational value, and an arithmetic operation by the correctly rounded
  exact result: \<open>a + b\<close> in the source is \<open>rnd (a + b)\<close> here, and a literal such as
  \<^verbatim>\<open>0.85\<close> is \<open>rnd (85 / 100)\<close>. \<open>rnd\<close> has the 53-bit significand and the smallest exponent
  of binary64; overflow to infinity, NaN and the sign of zero are not represented (no value of
  the modelled code leaves the finite range: the scores are bounded, which is proved). Everything
  is executable, so a concrete score evaluates inside the kernel.

  The facts that carry the component proofs are monotonicity of rounding and that integers below
  \<open>2^53\<close> are exact; with them a bound on a float computation follows from the bound on
  the exact one.
\<close>

type_synonym pyfloat = rat

named_theorems fl_simps \<open>rounding of values that are exactly representable\<close>
named_theorems fl_bounds \<open>order facts about rounded values\<close>


section \<open>Round half to even on integers\<close>

definition rhe :: "rat \<Rightarrow> int" where
  "rhe x = (let f = \<lfloor>x\<rfloor>; r = x - of_int f in
     if r < 1/2 then f else if 1/2 < r then f + 1 else if even f then f else f + 1)"

lemma rhe_of_int [simp]: "rhe (of_int n) = n"
  by (simp add: rhe_def)

lemma rhe_numeral [simp]: "rhe (numeral n) = numeral n" "rhe 0 = 0" "rhe 1 = 1"
  using rhe_of_int[of "numeral n"] rhe_of_int[of 0] rhe_of_int[of 1] by simp_all

lemma rhe_floor: "\<lfloor>x\<rfloor> \<le> rhe x" "rhe x \<le> \<lfloor>x\<rfloor> + 1"
  by (simp_all add: rhe_def Let_def)

lemma rhe_mono:
  assumes "x \<le> y" shows "rhe x \<le> rhe y"
proof (cases "\<lfloor>x\<rfloor> = \<lfloor>y\<rfloor>")
  case True
  with assms show ?thesis by (auto simp: rhe_def Let_def)
next
  case False
  then have "\<lfloor>x\<rfloor> + 1 \<le> \<lfloor>y\<rfloor>" using floor_mono[OF assms] by linarith
  then show ?thesis using rhe_floor[of x] rhe_floor[of y] by linarith
qed

lemma rhe_nonneg: "0 \<le> x \<Longrightarrow> 0 \<le> rhe x"
  using rhe_mono[of 0 x] by simp

lemma rhe_le_int: "x \<le> of_int n \<Longrightarrow> rhe x \<le> n"
  using rhe_mono[of x "of_int n"] by simp

lemma rhe_ge_int: "of_int n \<le> x \<Longrightarrow> n \<le> rhe x"
  using rhe_mono[of "of_int n" x] by simp

lemma rhe_error: "\<bar>of_int (rhe x) - x\<bar> \<le> 1/2"
proof -
  have "of_int \<lfloor>x\<rfloor> \<le> x" "x < of_int \<lfloor>x\<rfloor> + 1" by linarith+
  then show ?thesis
    unfolding rhe_def Let_def abs_le_iff by (simp split: if_split) linarith
qed

lemma rhe_minus: "rhe (- x) = - rhe x"
proof (cases "x = of_int \<lfloor>x\<rfloor>")
  case True
  then show ?thesis by (metis of_int_minus rhe_of_int)
next
  case False
  then have "\<lfloor>- x\<rfloor> = - \<lfloor>x\<rfloor> - 1"
    by (smt (verit) floor_minus ceiling_altdef minus_add_distrib uminus_add_conv_diff)
  then show ?thesis using False by (auto simp: rhe_def Let_def)
qed


section \<open>Rounding to binary64\<close>

text \<open>\<open>fl_exp x\<close> is the binary exponent of a positive \<open>x\<close>: \<open>2^e \<le> x < 2^(e+1)\<close>.\<close>

definition fl_exp :: "rat \<Rightarrow> int" where
  "fl_exp x = (case quotient_of x of (p, q) \<Rightarrow>
     let e = bitlen p - bitlen q in if 2 powi e \<le> x then e else e - 1)"

text \<open>The weight of the last significand bit, bounded below by the subnormal spacing.\<close>

definition fl_grid :: "rat \<Rightarrow> int" where
  "fl_grid x = max (fl_exp \<bar>x\<bar> - 52) (-1074)"

definition rnd :: "rat \<Rightarrow> pyfloat" where
  "rnd x = (if x = 0 then 0 else of_int (rhe (x / 2 powi fl_grid x)) * 2 powi fl_grid x)"

lemma bitlen_powi:
  assumes "(0::int) < p"
  shows "2 powi (bitlen p - 1) \<le> (of_int p :: rat)" "(of_int p :: rat) < 2 powi (bitlen p)"
proof -
  have b: "2 ^ nat (bitlen p - 1) \<le> p" "p < 2 ^ nat (bitlen p)"
    using bitlen_bounds[OF assms] by auto
  have n: "0 \<le> bitlen p - 1" "0 \<le> bitlen p"
    using assms by (simp_all add: bitlen_nonneg bitlen_le_iff_power)
      (metis bitlen_eq_zero_iff bitlen_nonneg assms int_one_le_iff_zero_less le_less not_le)
  have "(of_int (2 ^ nat (bitlen p - 1)) :: rat) \<le> of_int p" using b(1) by (simp only: of_int_le_iff)
  then show "2 powi (bitlen p - 1) \<le> (of_int p :: rat)" using n by (simp add: power_int_def)
  have "(of_int p :: rat) < of_int (2 ^ nat (bitlen p))" using b(2) by (simp only: of_int_less_iff)
  then show "(of_int p :: rat) < 2 powi (bitlen p)" using n by (simp add: power_int_def)
qed

lemma fl_exp_bounds:
  assumes "0 < x"
  shows "2 powi fl_exp x \<le> x" "x < 2 powi (fl_exp x + 1)"
proof -
  obtain p q where pq: "quotient_of x = (p, q)" by (cases "quotient_of x")
  have q: "0 < q" using quotient_of_denom_pos[OF pq] .
  have x: "x = of_int p / of_int q" using quotient_of_div[OF pq] .
  have p: "0 < p" using assms q x by (simp add: zero_less_divide_iff)
  define e where "e = bitlen p - bitlen q"
  have "of_int p / of_int q < (2 powi (bitlen p) / 2 powi (bitlen q - 1) :: rat)"
    by (rule frac_less) (use bitlen_powi[OF p] bitlen_powi[OF q] p in auto)
  then have up: "x < 2 powi (e + 1)"
    unfolding x e_def by (simp add: power_int_diff power_int_add algebra_simps)
  have "(2 powi (bitlen p - 1) / 2 powi (bitlen q) :: rat) < of_int p / of_int q"
    by (rule frac_less2) (use bitlen_powi[OF p] bitlen_powi[OF q] q in auto)
  then have lo: "2 powi (e - 1) < x"
    unfolding x e_def by (simp add: power_int_diff power_int_add algebra_simps)
  show "2 powi fl_exp x \<le> x" "x < 2 powi (fl_exp x + 1)"
    using up lo by (auto simp: fl_exp_def pq Let_def simp flip: e_def)
qed

lemma powi_less_iff: "(2 powi a :: rat) < 2 powi b \<longleftrightarrow> a < b"
  by (metis less_le_not_le linorder_less_linear one_less_numeral_iff power_int_strict_increasing
      semiring_norm(76))

lemma fl_exp_mono:
  assumes "0 < x" "x \<le> y" shows "fl_exp x \<le> fl_exp y"
proof -
  have "2 powi fl_exp x < (2 powi (fl_exp y + 1) :: rat)"
    using fl_exp_bounds(1)[OF assms(1)] fl_exp_bounds(2)[of y] assms by linarith
  then show ?thesis by (simp only: powi_less_iff)
qed

lemma fl_grid_mono: "0 < x \<Longrightarrow> x \<le> y \<Longrightarrow> fl_grid x \<le> fl_grid y"
  using fl_exp_mono[of x y] by (simp add: fl_grid_def max_def)

lemma rnd_0 [simp, fl_simps]: "rnd 0 = 0"
  by (simp add: rnd_def)

lemma rnd_minus: "rnd (- x) = - rnd x"
  by (simp add: rnd_def fl_grid_def rhe_minus)

text \<open>A value on a grid at least as coarse as its own is a fixed point of rounding.\<close>

lemma powi_split: "g \<le> k \<Longrightarrow> (2 powi k :: rat) / 2 powi g = of_int (2 ^ nat (k - g))"
  by (simp flip: power_int_diff) (simp add: power_int_def)

lemma rnd_on_grid:
  assumes "fl_grid x \<le> k" and "x = of_int m * 2 powi k"
  shows "rnd x = x"
proof (cases "x = 0")
  case False
  have "x / 2 powi fl_grid x = of_int (m * 2 ^ nat (k - fl_grid x))" (is "_ = of_int ?n")
    using powi_split[OF assms(1)] assms(2) by (simp add: field_simps)
  then have "of_int (rhe (x / 2 powi fl_grid x)) = x / 2 powi fl_grid x"
    by (simp only: rhe_of_int)
  then show ?thesis using False by (simp add: rnd_def)
qed simp

lemma rnd_representable:
  assumes "\<bar>m\<bar> < 2 ^ 53" and "-1074 \<le> k"
  shows "rnd (of_int m * 2 powi k) = of_int m * 2 powi k"
proof (cases "m = 0")
  case False
  let ?x = "of_int m * 2 powi k :: rat"
  have "\<bar>?x\<bar> < 2 ^ 53 * 2 powi k"
  proof -
    have "(of_int \<bar>m\<bar> :: rat) < of_int (2 ^ 53)" using assms(1) by (simp only: of_int_less_iff)
    then show ?thesis by (simp add: abs_mult)
  qed
  then have "2 powi fl_exp \<bar>?x\<bar> < (2 powi (53 + k) :: rat)"
    using fl_exp_bounds(1)[of "\<bar>?x\<bar>"] False by (simp add: power_int_add)
  then have "fl_grid ?x \<le> k" using assms(2) by (simp add: fl_grid_def powi_less_iff)
  then show ?thesis by (rule rnd_on_grid) simp
qed simp

lemma rnd_of_int [fl_simps]: "\<bar>n\<bar> < 2 ^ 53 \<Longrightarrow> rnd (of_int n) = of_int n"
  using rnd_representable[of n 0] by simp

lemma rnd_numeral [fl_simps]:
  "(numeral n :: int) < 2 ^ 53 \<Longrightarrow> rnd (numeral n) = numeral n" "rnd 1 = 1"
  using rnd_of_int[of "numeral n"] rnd_of_int[of 1] by simp_all

lemma rnd_half [fl_simps]: "\<bar>n\<bar> < 2 ^ 53 \<Longrightarrow> rnd (of_int n / 2) = of_int n / 2"
  using rnd_representable[of n "-1"] by (simp add: field_simps power_int_def)

text \<open>Rounding is idempotent: its results are representable.\<close>

lemma rnd_significand:
  assumes "x \<noteq> 0" shows "\<bar>rhe (x / 2 powi fl_grid x)\<bar> \<le> 2 ^ 53"
proof -
  let ?g = "fl_grid x"
  have "\<bar>x\<bar> < 2 powi (fl_exp \<bar>x\<bar> + 1)" using fl_exp_bounds(2)[of "\<bar>x\<bar>"] assms by simp
  also have "\<dots> \<le> 2 powi (53 + ?g)" by (rule power_int_increasing) (simp_all add: fl_grid_def)
  finally have "\<bar>x\<bar> < 2 ^ 53 * 2 powi ?g" by (simp add: power_int_add)
  then have "x \<le> 2 ^ 53 * 2 powi ?g" "- x \<le> 2 ^ 53 * 2 powi ?g" by linarith+
  then have "x / 2 powi ?g \<le> of_int (2 ^ 53)" "of_int (- (2 ^ 53)) \<le> x / 2 powi ?g"
    by (simp_all add: field_simps)
  then have "rhe (x / 2 powi ?g) \<le> 2 ^ 53" "- (2 ^ 53) \<le> rhe (x / 2 powi ?g)"
    by (blast intro: rhe_le_int, blast intro: rhe_ge_int)
  then show ?thesis by (simp add: abs_le_iff)
qed

lemma rnd_idem [simp]: "rnd (rnd x) = rnd x"
proof (cases "x = 0")
  case False
  let ?g = "fl_grid x" and ?m = "rhe (x / 2 powi fl_grid x)"
  have x: "rnd x = of_int ?m * 2 powi ?g" using False by (simp add: rnd_def)
  have g: "-1074 \<le> ?g" by (simp add: fl_grid_def)
  show ?thesis
  proof (cases "\<bar>?m\<bar> < 2 ^ 53")
    case True
    then show ?thesis using rnd_representable[OF True g] x by simp
  next
    case False
    then have "\<bar>?m\<bar> = 2 ^ 53" using rnd_significand[OF \<open>x \<noteq> 0\<close>] by simp
    then have "?m = sgn ?m * 2 ^ 53" by (metis sgn_mult_abs)
    then obtain s where s: "?m = s * 2 ^ 53" "\<bar>s\<bar> \<le> 1" by (metis abs_sgn_eq order_refl zero_le_one)
    then have "rnd x = of_int s * 2 powi (?g + 53)"
      using x by (simp add: power_int_add)
    moreover have "\<bar>s\<bar> < 2 ^ 53" using s(2) by simp
    ultimately show ?thesis using rnd_representable[of s "?g + 53"] g by simp
  qed
qed simp


section \<open>Evaluation\<close>

text \<open>An equation for evaluation that stays in the integers until the final quotient.\<close>

definition rhe_div :: "int \<Rightarrow> int \<Rightarrow> int" where
  "rhe_div p q = (let d = p div q; r = p mod q in
     if 2 * r < q then d else if q < 2 * r then d + 1 else if even d then d else d + 1)"

lemma rhe_div:
  assumes "0 < q" shows "rhe (of_int p / of_int q) = rhe_div p q"
proof -
  have fl: "\<lfloor>(of_int p / of_int q :: rat)\<rfloor> = p div q" by (simp add: floor_divide_of_int_eq)
  have "(of_int p / of_int q :: rat) - of_int (p div q) = of_int (p mod q) / of_int q"
  proof -
    have "(of_int p :: rat) = of_int (p div q * q + p mod q)" by simp
    also have "\<dots> = of_int (p div q) * of_int q + of_int (p mod q)" by (simp only: of_int_add of_int_mult)
    finally show ?thesis using assms by (simp add: field_simps)
  qed
  moreover have "(of_int r / of_int q < (1 / 2 :: rat)) \<longleftrightarrow> 2 * r < q"
    and "((1 / 2 :: rat) < of_int r / of_int q) \<longleftrightarrow> q < 2 * r" for r
  proof -
    have "(of_int r / of_int q < (1 / 2 :: rat)) \<longleftrightarrow> of_int (2 * r) < (of_int q :: rat)"
      and "((1 / 2 :: rat) < of_int r / of_int q) \<longleftrightarrow> (of_int q :: rat) < of_int (2 * r)"
      using assms by (simp_all add: field_simps)
    then show "(of_int r / of_int q < (1 / 2 :: rat)) \<longleftrightarrow> 2 * r < q"
      and "((1 / 2 :: rat) < of_int r / of_int q) \<longleftrightarrow> q < 2 * r"
      by (simp_all only: of_int_less_iff)
  qed
  ultimately show ?thesis unfolding rhe_def rhe_div_def fl Let_def by (simp only:)
qed

lemma powi_as_int:
  "0 \<le> e \<Longrightarrow> (2 powi e :: rat) = of_int (2 ^ nat e)"
  "e < 0 \<Longrightarrow> (2 powi e :: rat) = 1 / of_int (2 ^ nat (- e))"
  by (simp_all add: power_int_def field_simps)

lemma rnd_code [code]:
  "rnd x = (let (p, q) = quotient_of x in
     if p = 0 then 0
     else let e = bitlen \<bar>p\<bar> - bitlen q;
              fits = (if 0 \<le> e then q * 2 ^ nat e \<le> \<bar>p\<bar> else q \<le> \<bar>p\<bar> * 2 ^ nat (- e));
              g = max ((if fits then e else e - 1) - 52) (-1074)
          in if 0 \<le> g then of_int (rhe_div p (q * 2 ^ nat g) * 2 ^ nat g)
             else of_int (rhe_div (p * 2 ^ nat (- g)) q) / of_int (2 ^ nat (- g)))"
proof -
  obtain p q where pq: "quotient_of x = (p, q)" by (cases "quotient_of x")
  have q: "0 < q" using quotient_of_denom_pos[OF pq] .
  have x: "x = of_int p / of_int q" using quotient_of_div[OF pq] .
  define e where "e = bitlen \<bar>p\<bar> - bitlen q"
  define fits where "fits = (if 0 \<le> e then q * 2 ^ nat e \<le> \<bar>p\<bar> else q \<le> \<bar>p\<bar> * 2 ^ nat (- e))"
  define g where "g = max ((if fits then e else e - 1) - 52) (-1074)"
  have ax: "\<bar>x\<bar> = of_int \<bar>p\<bar> / of_int q" using q by (simp add: x)
  have "2 powi e \<le> \<bar>x\<bar> \<longleftrightarrow> fits"
  proof (cases "0 \<le> e")
    case True
    have "2 powi e \<le> \<bar>x\<bar> \<longleftrightarrow> (of_int (q * 2 ^ nat e) :: rat) \<le> of_int \<bar>p\<bar>"
      using q True by (simp add: ax powi_as_int(1) field_simps)
    then show ?thesis using True by (simp only: fits_def of_int_le_iff if_True)
  next
    case False
    have "2 powi e \<le> \<bar>x\<bar> \<longleftrightarrow> (of_int q :: rat) \<le> of_int (\<bar>p\<bar> * 2 ^ nat (- e))"
    proof -
      have "(2 powi e :: rat) = 1 / of_int (2 ^ nat (- e))" using False by (simp add: powi_as_int(2))
      then show ?thesis using q unfolding ax by (simp only:) (simp add: field_simps)
    qed
    then show ?thesis using False by (simp only: fits_def of_int_le_iff if_False)
  qed
  then have grid: "fl_grid x = g"
    by (simp add: fl_grid_def fl_exp_def rat_abs_code pq Let_def g_def e_def)
  have "p \<noteq> 0 \<Longrightarrow> rnd x = (if 0 \<le> g then of_int (rhe_div p (q * 2 ^ nat g) * 2 ^ nat g)
      else of_int (rhe_div (p * 2 ^ nat (- g)) q) / of_int (2 ^ nat (- g)))"
  proof (cases "0 \<le> g")
    case True
    assume "p \<noteq> 0"
    have "x / 2 powi g = of_int p / of_int (q * 2 ^ nat g)"
      using True by (simp add: x powi_as_int(1))
    moreover have "0 < q * 2 ^ nat g" using q by simp
    ultimately have "rhe (x / 2 powi g) = rhe_div p (q * 2 ^ nat g)" by (simp only: rhe_div)
    then show ?thesis using True \<open>p \<noteq> 0\<close> q
      by (simp add: rnd_def grid powi_as_int(1)) (simp add: x)
  next
    case False
    assume "p \<noteq> 0"
    have "x / 2 powi g = of_int (p * 2 ^ nat (- g)) / of_int q"
      using False powi_as_int(2)[of g] by (simp add: x)
    then have "rhe (x / 2 powi g) = rhe_div (p * 2 ^ nat (- g)) q" using q by (simp only: rhe_div)
    then show ?thesis using False \<open>p \<noteq> 0\<close> q powi_as_int(2)[of g]
      by (simp add: rnd_def grid) (simp add: x)
  qed
  moreover have "p = 0 \<Longrightarrow> rnd x = 0" by (simp add: x)
  ultimately show ?thesis by (simp add: pq Let_def flip: e_def fits_def g_def)
qed


section \<open>Monotonicity\<close>

lemma rnd_le_grid_point:
  assumes "0 < x" "x \<le> of_int m * 2 powi k" "fl_grid x \<le> k"
  shows "rnd x \<le> of_int m * 2 powi k"
proof -
  let ?g = "fl_grid x"
  have "x / 2 powi ?g \<le> of_int (m * 2 ^ nat (k - ?g))"
    using assms(2) powi_split[OF assms(3)] by (simp add: field_simps)
  then have "rhe (x / 2 powi ?g) \<le> m * 2 ^ nat (k - ?g)" by (rule rhe_le_int)
  then have "of_int (rhe (x / 2 powi ?g)) \<le> (of_int (m * 2 ^ nat (k - ?g)) :: rat)"
    by (simp only: of_int_le_iff)
  then show ?thesis
    using assms(1) powi_split[OF assms(3)] by (simp add: rnd_def field_simps)
qed

lemma rnd_ge_grid_point:
  assumes "0 < x" "of_int m * 2 powi k \<le> x" "fl_grid x \<le> k"
  shows "of_int m * 2 powi k \<le> rnd x"
proof -
  let ?g = "fl_grid x"
  have "of_int (m * 2 ^ nat (k - ?g)) \<le> x / 2 powi ?g"
    using assms(2) powi_split[OF assms(3)] by (simp add: field_simps)
  then have "m * 2 ^ nat (k - ?g) \<le> rhe (x / 2 powi ?g)" by (rule rhe_ge_int)
  then have "(of_int (m * 2 ^ nat (k - ?g)) :: rat) \<le> of_int (rhe (x / 2 powi ?g))"
    by (simp only: of_int_le_iff)
  then show ?thesis
    using assms(1) powi_split[OF assms(3)] by (simp add: rnd_def field_simps)
qed

lemma rnd_nonneg [fl_bounds]: "0 \<le> x \<Longrightarrow> 0 \<le> rnd x"
  by (simp add: rnd_def rhe_nonneg)

lemma rnd_mono_pos:
  assumes "0 < x" "x \<le> y" shows "rnd x \<le> rnd y"
proof (cases "fl_grid x = fl_grid y")
  case True
  have "rhe (x / 2 powi fl_grid y) \<le> rhe (y / 2 powi fl_grid y)"
    by (rule rhe_mono) (use assms in \<open>simp add: divide_right_mono\<close>)
  with True assms show ?thesis by (simp add: rnd_def)
next
  case False
  let ?e = "fl_exp y"
  have g: "fl_grid x < fl_grid y" using fl_grid_mono[OF assms] False by simp
  then have gy: "fl_grid y = ?e - 52" using assms by (auto simp: fl_grid_def)
  have "fl_exp x < ?e"
    using g fl_exp_mono[OF assms] assms by (auto simp: fl_grid_def)
  have "x < 2 powi (fl_exp x + 1)" by (rule fl_exp_bounds(2)[OF assms(1)])
  also have "\<dots> \<le> 2 powi ?e" using \<open>fl_exp x < ?e\<close> by (simp add: power_int_increasing)
  finally have "rnd x \<le> 2 powi ?e"
    using rnd_le_grid_point[of x 1 ?e] assms g gy by simp
  also have "\<dots> \<le> rnd y"
    using rnd_ge_grid_point[of y 1 ?e] fl_exp_bounds(1)[of y] assms gy by simp
  finally show ?thesis .
qed

lemma rnd_mono: "x \<le> y \<Longrightarrow> rnd x \<le> rnd y"
proof -
  assume le: "x \<le> y"
  consider "0 < x" | "x \<le> 0" "0 \<le> y" | "y < 0" by linarith
  then show ?thesis
  proof cases
    case 1 then show ?thesis using le by (rule rnd_mono_pos)
  next
    case 2
    then have "rnd x \<le> 0" using rnd_nonneg[of "- x"] by (simp add: rnd_minus)
    with 2 rnd_nonneg[of y] show ?thesis by simp
  next
    case 3
    then have "rnd (- y) \<le> rnd (- x)" using le by (intro rnd_mono_pos) auto
    then show ?thesis by (simp add: rnd_minus)
  qed
qed

text \<open>Against a float, rounding never crosses over.\<close>

lemma rnd_le_float: "x \<le> y \<Longrightarrow> rnd y = y \<Longrightarrow> rnd x \<le> y"
  using rnd_mono[of x y] by simp

lemma rnd_ge_float: "y \<le> x \<Longrightarrow> rnd y = y \<Longrightarrow> y \<le> rnd x"
  using rnd_mono[of y x] by simp

lemma rnd_le_int [fl_bounds]: "x \<le> of_int n \<Longrightarrow> \<bar>n\<bar> < 2 ^ 53 \<Longrightarrow> rnd x \<le> of_int n"
  using rnd_mono[of x "of_int n"] by (simp add: rnd_of_int)

lemma rnd_ge_int [fl_bounds]: "of_int n \<le> x \<Longrightarrow> \<bar>n\<bar> < 2 ^ 53 \<Longrightarrow> of_int n \<le> rnd x"
  using rnd_mono[of "of_int n" x] by (simp add: rnd_of_int)

lemma rnd_le_numeral [fl_bounds]:
  "x \<le> numeral n \<Longrightarrow> (numeral n :: int) < 2 ^ 53 \<Longrightarrow> rnd x \<le> numeral n"
  using rnd_le_int[of x "numeral n"] by simp

lemma rnd_ge_numeral [fl_bounds]:
  "numeral n \<le> x \<Longrightarrow> (numeral n :: int) < 2 ^ 53 \<Longrightarrow> numeral n \<le> rnd x"
  using rnd_ge_int[of "numeral n" x] by simp

lemma rnd_le_1 [fl_bounds]: "x \<le> 1 \<Longrightarrow> rnd x \<le> 1"
  using rnd_le_int[of x 1] by simp

lemma rnd_pos_mono_mult: "0 \<le> a \<Longrightarrow> a \<le> 1 \<Longrightarrow> 0 \<le> b \<Longrightarrow> b \<le> 1 \<Longrightarrow> rnd (a * b) \<le> 1"
  by (intro rnd_le_1 mult_le_one) auto

text \<open>The rounding error is at most half a unit in the last place.\<close>

lemma rnd_error: "\<bar>rnd x - x\<bar> \<le> 2 powi (fl_grid x - 1)"
proof (cases "x = 0")
  case False
  let ?g = "2 powi fl_grid x :: rat"
  have "\<bar>of_int (rhe (x / ?g)) - x / ?g\<bar> * ?g \<le> 1 / 2 * ?g"
    by (rule mult_right_mono[OF rhe_error]) simp
  moreover have "\<bar>of_int (rhe (x / ?g)) - x / ?g\<bar> * ?g = \<bar>rnd x - x\<bar>"
  proof -
    have "\<bar>of_int (rhe (x / ?g)) - x / ?g\<bar> * ?g = \<bar>(of_int (rhe (x / ?g)) - x / ?g) * ?g\<bar>"
      by (simp add: abs_mult)
    also have "(of_int (rhe (x / ?g)) - x / ?g) * ?g = rnd x - x"
      using False by (simp add: rnd_def left_diff_distrib)
    finally show ?thesis .
  qed
  ultimately show ?thesis by (simp add: power_int_diff)
qed simp

lemma rnd_error_below:
  assumes "0 \<le> x" "x < 2 ^ n" "n \<le> 50" shows "\<bar>rnd x - x\<bar> \<le> 1 / 2 ^ (54 - n)"
proof (cases "x = 0")
  case False
  then have "0 < x" using assms(1) by simp
  then have "2 powi fl_exp x < (2 powi int n :: rat)"
    using fl_exp_bounds(1)[of x] assms(2) by (simp add: power_int_def)
  then have "fl_exp x < int n" by (simp only: powi_less_iff)
  then have "fl_grid x - 1 \<le> int n - 54" using \<open>0 < x\<close> by (simp add: fl_grid_def)
  then have "(2 powi (fl_grid x - 1) :: rat) \<le> 2 powi (int n - 54)" by (rule power_int_increasing) simp
  also have "(2 powi (int n - 54) :: rat) = 1 / 2 ^ (54 - n)"
  proof -
    have "int n - 54 = - int (54 - n)" using assms(3) by simp
    then show ?thesis by (simp only: power_int_minus power_int_of_nat) (simp add: field_simps)
  qed
  finally show ?thesis using rnd_error[of x] by simp
qed simp


section \<open>Decimal rounding\<close>

text \<open>
  \<^verbatim>\<open>round(x, n)\<close> rounds the exact value to \<open>n\<close> decimals, ties to even, and returns the nearest
  float; \<^verbatim>\<open>round(x)\<close> is \<^const>\<open>rhe\<close>.
\<close>

definition py_round :: "nat \<Rightarrow> pyfloat \<Rightarrow> pyfloat" where
  "py_round n x = rnd (of_int (rhe (x * 10 ^ n)) / 10 ^ n)"

lemma py_round_mono: "x \<le> y \<Longrightarrow> py_round n x \<le> py_round n y"
  unfolding py_round_def
  by (intro rnd_mono divide_right_mono) (simp_all add: rhe_mono)

lemma py_round_of_int:
  assumes "\<bar>m\<bar> < 2 ^ 53" shows "py_round n (of_int m) = of_int m"
proof -
  have "rhe (of_int m * 10 ^ n) = m * 10 ^ n"
    using rhe_of_int[of "m * 10 ^ n"] by simp
  then show ?thesis using assms by (simp add: py_round_def rnd_of_int)
qed

lemma py_round_le_int [fl_bounds]: "x \<le> of_int m \<Longrightarrow> \<bar>m\<bar> < 2 ^ 53 \<Longrightarrow> py_round n x \<le> of_int m"
  using py_round_mono[of x "of_int m" n] by (simp add: py_round_of_int)

lemma py_round_nonneg [fl_bounds]: "0 \<le> x \<Longrightarrow> 0 \<le> py_round n x"
  using py_round_mono[of 0 x n] py_round_of_int[of 0 n] by simp

lemma py_round_le_1 [fl_bounds]: "x \<le> 1 \<Longrightarrow> py_round n x \<le> 1"
  using py_round_le_int[of x 1 n] by simp

lemma py_round_le_10 [fl_bounds]: "x \<le> 10 \<Longrightarrow> py_round n x \<le> 10"
  using py_round_le_int[of x 10 n] by simp

text \<open>\<^verbatim>\<open>min(hi, max(lo, x))\<close> followed by rounding stays within integral bounds.\<close>

lemma py_round_clamp:
  "0 \<le> py_round n (min 10 (max 0 x)) \<and> py_round n (min 10 (max 0 x)) \<le> 10"
  by (intro conjI py_round_nonneg py_round_le_10) auto


section \<open>Sums\<close>

text \<open>\<^verbatim>\<open>sum(xs)\<close> on floats, adding from the left as CPython 3.11 (the version the build pins) does.\<close>

definition py_sum :: "pyfloat list \<Rightarrow> pyfloat" where
  "py_sum xs = foldl (\<lambda>acc x. rnd (acc + x)) 0 xs"

lemma foldl_sum_nonneg: "0 \<le> a \<Longrightarrow> \<forall>x \<in> set xs. 0 \<le> x \<Longrightarrow> 0 \<le> foldl (\<lambda>acc x. rnd (acc + x)) a xs"
  by (induction xs arbitrary: a) (simp_all add: rnd_nonneg)

lemma py_sum_nonneg [fl_bounds]: "\<forall>x \<in> set xs. 0 \<le> x \<Longrightarrow> 0 \<le> py_sum xs"
  by (simp add: py_sum_def foldl_sum_nonneg)

lemma rnd_mult_mono: "0 \<le> a \<Longrightarrow> a \<le> b \<Longrightarrow> 0 \<le> c \<Longrightarrow> c \<le> d \<Longrightarrow> rnd (a * c) \<le> rnd (b * d)"
  by (intro rnd_mono mult_mono) auto

text \<open>\<^verbatim>\<open>round(min(1.0, max(0.0, x)), n)\<close>.\<close>

definition unit_round :: "nat \<Rightarrow> pyfloat \<Rightarrow> pyfloat" where
  "unit_round n x = py_round n (min 1 (max 0 x))"

lemma unit_round_bounds [fl_bounds]: "0 \<le> unit_round n x" "unit_round n x \<le> 1"
  by (auto simp: unit_round_def intro!: py_round_nonneg py_round_le_1)

lemma unit_round_mono: "x \<le> y \<Longrightarrow> unit_round n x \<le> unit_round n y"
  unfolding unit_round_def by (intro py_round_mono min.mono max.mono order_refl)

end
