(* ===== verification/Py_Text.thy ===== *)
theory Py_Text
  imports Prelude
begin

text \<open>
  Python text as character lists. A \<^typ>\<open>char\<close> is a code point below 256, so the model is exact
  on Latin-1 text (case mapping, white space and digit classification below follow Python's
  tables for that range); code points above are outside the model.
\<close>

named_theorems text_simps \<open>length and membership facts about text operations\<close>

abbreviation cp :: "char \<Rightarrow> nat" where
  "cp c \<equiv> of_char c"


section \<open>Characters\<close>

definition lower_char :: "char \<Rightarrow> char" where
  "lower_char c = (let n = cp c in
     if (65 \<le> n \<and> n \<le> 90) \<or> (192 \<le> n \<and> n \<le> 222 \<and> n \<noteq> 215) then char_of (n + 32) else c)"

text \<open>\<^verbatim>\<open>str.upper\<close>, for the ASCII identifiers it is applied to.\<close>

definition upper_char :: "char \<Rightarrow> char" where
  "upper_char c = (let n = cp c in if 97 \<le> n \<and> n \<le> 122 then char_of (n - 32) else c)"

definition is_space :: "char \<Rightarrow> bool" where
  "is_space c = (let n = cp c in
     (9 \<le> n \<and> n \<le> 13) \<or> (28 \<le> n \<and> n \<le> 32) \<or> n = 133 \<or> n = 160)"

definition is_digit :: "char \<Rightarrow> bool" where
  "is_digit c = (let n = cp c in 48 \<le> n \<and> n \<le> 57)"

definition is_lower_az :: "char \<Rightarrow> bool" where
  "is_lower_az c = (let n = cp c in 97 \<le> n \<and> n \<le> 122)"

definition is_upper_az :: "char \<Rightarrow> bool" where
  "is_upper_az c = (let n = cp c in 65 \<le> n \<and> n \<le> 90)"

text \<open>A word character of a regular expression (\<^verbatim>\<open>\w\<close>): letters, numbers and the underscore of Latin-1.\<close>

definition is_word :: "char \<Rightarrow> bool" where
  "is_word c = (let n = cp c in (48 \<le> n \<and> n \<le> 57) \<or> (65 \<le> n \<and> n \<le> 90) \<or> n = 95 \<or> (97 \<le> n \<and> n \<le> 122)
     \<or> n \<in> {170, 178, 179, 181, 185, 186, 188, 189, 190} \<or> (192 \<le> n \<and> n \<noteq> 215 \<and> n \<noteq> 247))"

definition lower :: "string \<Rightarrow> string" where
  "lower = map lower_char"

definition upper :: "string \<Rightarrow> string" where
  "upper = map upper_char"

lemma of_char_of [simp]: "n < 256 \<Longrightarrow> of_char (char_of n :: char) = (n :: nat)"
  by simp

lemma lower_char_idem [simp]: "lower_char (lower_char c) = lower_char c"
  by (simp add: lower_char_def Let_def)

lemma lower_idem [simp]: "lower (lower s) = lower s"
  by (simp add: lower_def)

lemma length_lower [text_simps]: "length (lower s) = length s"
  by (simp add: lower_def)

lemma lower_Nil [simp]: "lower [] = []" "lower s = [] \<longleftrightarrow> s = []"
  by (simp_all add: lower_def)


section \<open>Stripping, splitting, joining\<close>

definition lstrip :: "string \<Rightarrow> string" where
  "lstrip s = dropWhile is_space s"

definition strip_by :: "(char \<Rightarrow> bool) \<Rightarrow> string \<Rightarrow> string" where
  "strip_by p s = rev (dropWhile p (rev (dropWhile p s)))"

abbreviation strip :: "string \<Rightarrow> string" where
  "strip \<equiv> strip_by is_space"

lemma strip_by_set: "set (strip_by p s) \<subseteq> set s"
  unfolding strip_by_def by (auto dest!: set_dropWhileD)

lemma strip_by_length: "length (strip_by p s) \<le> length s"
  unfolding strip_by_def
  using length_dropWhile_le[of p "rev (dropWhile p s)"] length_dropWhile_le[of p s] by simp

lemma dropWhile_id: "s = [] \<or> \<not> p (hd s) \<Longrightarrow> dropWhile p s = s"
  by (cases s) auto

lemma dropWhile_hd: "dropWhile p s = [] \<or> \<not> p (hd (dropWhile p s))"
  by (induction s) auto

lemma strip_by_ends:
  "strip_by p s \<noteq> [] \<Longrightarrow> \<not> p (hd (strip_by p s)) \<and> \<not> p (last (strip_by p s))"
proof -
  assume ne: "strip_by p s \<noteq> []"
  let ?d = "dropWhile p s"
  let ?r = "dropWhile p (rev ?d)"
  have r: "?r \<noteq> []" using ne unfolding strip_by_def by (metis rev.simps(1))
  then have l: "\<not> p (hd ?r)" using dropWhile_hd[of p "rev ?d"] by metis
  obtain ys where "rev ?d = ys @ ?r" by (metis takeWhile_dropWhile_id)
  then have d: "?d = rev ?r @ rev ys" by (metis rev_append rev_rev_ident)
  then have "hd (rev ?r) = hd ?d" and "?d \<noteq> []"
    using r by (metis hd_append2 rev_is_Nil_conv, metis append_is_Nil_conv rev_is_Nil_conv)
  then have h: "\<not> p (hd (rev ?r))" using dropWhile_hd[of p s] by metis
  have "last (rev ?r) = hd ?r" using r by (simp only: last_rev)
  with l h show ?thesis unfolding strip_by_def by simp
qed

lemma strip_by_idem [simp]: "strip_by p (strip_by p s) = strip_by p s"
proof (cases "strip_by p s = []")
  case True
  have "strip_by p [] = []" by (simp add: strip_by_def)
  with True show ?thesis by (simp only:)
next
  case False
  note e = strip_by_ends[OF False]
  have "dropWhile p (strip_by p s) = strip_by p s" using e by (simp add: dropWhile_id)
  moreover have "dropWhile p (rev (strip_by p s)) = rev (strip_by p s)"
    using e False by (simp add: dropWhile_id hd_rev)
  ultimately show ?thesis unfolding strip_by_def[of p "strip_by p s"] by simp
qed

text \<open>\<^verbatim>\<open>re.split\<close> on a one-character class: empty pieces are kept.\<close>

fun split_at :: "(char \<Rightarrow> bool) \<Rightarrow> string \<Rightarrow> string list" where
  "split_at p [] = [[]]"
| "split_at p (c # cs) =
     (if p c then [] # split_at p cs
      else case split_at p cs of [] \<Rightarrow> [[c]] | w # ws \<Rightarrow> (c # w) # ws)"

lemma split_at_nonempty [simp]: "split_at p s \<noteq> []"
  by (induction s) (auto split: list.splits)

lemma split_at_pieces: "w \<in> set (split_at p s) \<Longrightarrow> c \<in> set w \<Longrightarrow> \<not> p c \<and> c \<in> set s"
proof (induction s arbitrary: w)
  case Nil
  then show ?case by simp
next
  case (Cons x xs)
  obtain v vs where "split_at p xs = v # vs" by (cases "split_at p xs") auto
  then have parts: "w' = v \<or> w' \<in> set vs \<Longrightarrow> c \<in> set w' \<Longrightarrow> \<not> p c \<and> c \<in> set xs" for w'
    using Cons.IH[of w'] Cons.prems by auto
  with Cons.prems \<open>split_at p xs = v # vs\<close> parts[of v] parts[of w] show ?case
    by (cases "p x") auto
qed

fun join :: "string \<Rightarrow> string list \<Rightarrow> string" where
  "join sep [] = []"
| "join sep [w] = w"
| "join sep (w # v # ws) = w @ sep @ join sep (v # ws)"

lemma join_set: "set (join sep ws) \<subseteq> set sep \<union> \<Union> (set ` set ws)"
  by (induction sep ws rule: join.induct) auto

lemma split_join:
  assumes "\<forall>w \<in> set ws. \<forall>c \<in> set w. \<not> p c" and "p d" and "ws \<noteq> []"
  shows "split_at p (join [d] ws) = ws"
proof -
  have app: "\<forall>c \<in> set w. \<not> p c \<Longrightarrow> split_at p (w @ d # r) = w # split_at p r" for w r
    using assms(2) by (induction w) auto
  have single: "\<forall>c \<in> set w. \<not> p c \<Longrightarrow> split_at p w = [w]" for w
    by (induction w) auto
  show ?thesis using assms(1,3)
    by (induction "[d]" ws rule: join.induct) (auto simp: app single)
qed


section \<open>Substrings\<close>

fun py_in :: "string \<Rightarrow> string \<Rightarrow> bool" where
  "py_in needle [] = (needle = [])"
| "py_in needle (c # cs) = (prefix needle (c # cs) \<or> py_in needle cs)"

lemma py_in_sublist: "py_in needle s \<longleftrightarrow> sublist needle s"
proof (induction s)
  case Nil
  then show ?case by simp
next
  case (Cons c cs)
  then show ?case by (auto simp: sublist_Cons_right)
qed

lemma py_in_refl [simp]: "py_in s s"
  by (simp add: py_in_sublist)

definition removeprefix :: "string \<Rightarrow> string \<Rightarrow> string" where
  "removeprefix pre s = (if prefix pre s then drop (length pre) s else s)"


section \<open>Decimal numerals\<close>

fun show_nat :: "nat \<Rightarrow> string" where
  "show_nat n = (if n < 10 then [char_of (48 + n)]
     else show_nat (n div 10) @ [char_of (48 + n mod 10)])"

declare show_nat.simps [simp del]

definition show_int :: "int \<Rightarrow> string" where
  "show_int i = (if i < 0 then ''-'' @ show_nat (nat (- i)) else show_nat (nat i))"

text \<open>\<^verbatim>\<open>int(digits)\<close> on a non-empty run of ASCII digits.\<close>

definition int_of_digits :: "string \<Rightarrow> int" where
  "int_of_digits ds = foldl (\<lambda>acc c. 10 * acc + (int (cp c) - 48)) 0 ds"

lemma show_nat_digits: "\<forall>c \<in> set (show_nat n). is_digit c"
proof (induction n rule: show_nat.induct)
  case (1 n)
  then show ?case by (subst show_nat.simps) (auto simp: is_digit_def Let_def)
qed

lemma show_nat_nonempty [simp]: "show_nat n \<noteq> []"
  by (subst show_nat.simps) simp

lemma int_of_show_nat: "int_of_digits (show_nat n) = int n"
proof (induction n rule: show_nat.induct)
  case (1 n)
  show ?case
  proof (cases "n < 10")
    case True
    then show ?thesis by (subst show_nat.simps) (simp add: int_of_digits_def)
  next
    case False
    with 1 have "int_of_digits (show_nat (n div 10)) = int (n div 10)" by simp
    with False show ?thesis
      by (subst show_nat.simps) (simp add: int_of_digits_def, simp add: zmod_int zdiv_int)
  qed
qed

lemma show_nat_inj: "show_nat m = show_nat n \<Longrightarrow> m = n"
  by (metis int_of_show_nat of_nat_eq_iff)

end
