(* ===== verification/Py_Format.thy ===== *)
theory Py_Format
  imports Float64 Py_Text
begin

text \<open>
  The parts of Python's string formatting that the repository's messages use: fixed-point
  formatting of floats, the shortest decimal that reads back as the same float (what \<^verbatim>\<open>str\<close> prints
  for a float), and \<^verbatim>\<open>repr\<close> of a string.
\<close>

section \<open>Floats\<close>

definition pad0 :: "nat \<Rightarrow> string \<Rightarrow> string" where
  "pad0 n s = replicate (n - length s) CHR ''0'' @ s"

text \<open>\<^verbatim>\<open>f"{x:.df}"\<close> for \<open>d > 0\<close>: the exact value rounded half to even at \<open>d\<close> decimals.\<close>

definition fmt_fixed :: "nat \<Rightarrow> pyfloat \<Rightarrow> string" where
  "fmt_fixed d x = (let m = nat \<bar>rhe (x * 10 ^ d)\<bar> in
     (if x < 0 then ''-'' else []) @ show_nat (m div 10 ^ d) @ ''.'' @ pad0 d (show_nat (m mod 10 ^ d)))"

text \<open>
  \<^verbatim>\<open>str(x)\<close>: the least number of decimals (at least one, at most 17) whose rounding reads back as
  \<open>x\<close>. This is Python's output for zero and for magnitudes from \<open>10^-4\<close> below \<open>10^15\<close>, which
  every score, weight and confidence of the code is.
\<close>

fun float_decimals :: "nat \<Rightarrow> nat \<Rightarrow> pyfloat \<Rightarrow> nat" where
  "float_decimals 0 k x = k"
| "float_decimals (Suc n) k x = (if py_round k x = x then k else float_decimals n (Suc k) x)"

definition float_str :: "pyfloat \<Rightarrow> string" where
  "float_str x = fmt_fixed (float_decimals 16 1 x) x"

lemma length_pad0 [text_simps]: "length (pad0 n s) = max n (length s)"
  by (simp add: pad0_def)


section \<open>repr of a string\<close>

definition hex_digit :: "nat \<Rightarrow> char" where
  "hex_digit n = (if n < 10 then char_of (48 + n) else char_of (87 + n))"

definition repr_char :: "char \<Rightarrow> char \<Rightarrow> string" where
  "repr_char q c = (let n = cp c in
     if c = CHR 0x5C \<or> c = q then [CHR 0x5C, c]
     else if n = 10 then [CHR 0x5C, CHR ''n'']
     else if n = 13 then [CHR 0x5C, CHR ''r'']
     else if n = 9 then [CHR 0x5C, CHR ''t'']
     else if n < 32 \<or> (127 \<le> n \<and> n \<le> 160) \<or> n = 173
       then [CHR 0x5C, CHR ''x'', hex_digit (n div 16), hex_digit (n mod 16)]
     else [c])"

definition repr_str :: "string \<Rightarrow> string" where
  "repr_str s = (let q = (if CHR 0x27 \<in> set s \<and> CHR 0x22 \<notin> set s then CHR 0x22 else CHR 0x27)
     in [q] @ concat (map (repr_char q) s) @ [q])"

text \<open>A quoted string contains no raw line break, whatever the text it quotes.\<close>

lemma repr_str_no_breaks: "c \<in> set (repr_str s) \<Longrightarrow> cp c \<noteq> 10 \<and> cp c \<noteq> 13"
proof -
  have hex: "k < 16 \<Longrightarrow> cp (hex_digit k) \<noteq> 10 \<and> cp (hex_digit k) \<noteq> 13" for k
    by (simp add: hex_digit_def)
  have ch: "x \<in> set (repr_char q d) \<Longrightarrow> cp q \<noteq> 10 \<and> cp q \<noteq> 13 \<Longrightarrow> cp x \<noteq> 10 \<and> cp x \<noteq> 13" for x q d
  proof -
    have "cp d div 16 < 16" using nat_of_char_less_256[of d] by linarith
    moreover assume "x \<in> set (repr_char q d)" "cp q \<noteq> 10 \<and> cp q \<noteq> 13"
    ultimately show ?thesis using hex[of "cp d div 16"] hex[of "cp d mod 16"]
    by (auto simp: repr_char_def Let_def split: if_splits)
  qed
  assume "c \<in> set (repr_str s)"
  then show ?thesis by (auto simp: repr_str_def Let_def split: if_splits dest!: ch)
qed

end
