(* ===== verification/Domain.thy ===== *)
theory Domain
  imports Py_Format
begin

text \<open>
  The shared vocabulary of \<^verbatim>\<open>models/\<close>: the enumerations with their wire values
  (\<^verbatim>\<open>models/enums.py\<close> and the enumerations of \<^verbatim>\<open>models/logs.py\<close>, \<^verbatim>\<open>models/threat.py\<close>,
  \<^verbatim>\<open>models/vulnerability.py\<close>) and the records that pass between components. A record field keeps
  the name of the model's field, prefixed where two models share one.
\<close>

section \<open>Enumerations\<close>

datatype severity = Sev_Info | Sev_Low | Sev_Medium | Sev_High | Sev_Critical

fun severity_value :: "severity \<Rightarrow> string" where
  "severity_value Sev_Info = ''info''"
| "severity_value Sev_Low = ''low''"
| "severity_value Sev_Medium = ''medium''"
| "severity_value Sev_High = ''high''"
| "severity_value Sev_Critical = ''critical''"

text \<open>\<^verbatim>\<open>str.title\<close> on the one-word severity values.\<close>

fun severity_title :: "severity \<Rightarrow> string" where
  "severity_title Sev_Info = ''Info''"
| "severity_title Sev_Low = ''Low''"
| "severity_title Sev_Medium = ''Medium''"
| "severity_title Sev_High = ''High''"
| "severity_title Sev_Critical = ''Critical''"

datatype triage_priority = Prio_Low | Prio_Medium | Prio_High | Prio_Urgent

fun priority_value :: "triage_priority \<Rightarrow> string" where
  "priority_value Prio_Low = ''low''"
| "priority_value Prio_Medium = ''medium''"
| "priority_value Prio_High = ''high''"
| "priority_value Prio_Urgent = ''urgent''"

datatype verdict = Benign | Suspicious | Malicious

fun verdict_value :: "verdict \<Rightarrow> string" where
  "verdict_value Benign = ''benign''"
| "verdict_value Suspicious = ''suspicious''"
| "verdict_value Malicious = ''malicious''"

datatype decision_type = Approve | Edit | Reject | Redirect

fun decision_value :: "decision_type \<Rightarrow> string" where
  "decision_value Approve = ''approve''"
| "decision_value Edit = ''edit''"
| "decision_value Reject = ''reject''"
| "decision_value Redirect = ''redirect''"

datatype investigation_status = St_Open | St_In_Progress | St_Awaiting_Approval | St_Closed | St_Archived

fun status_value :: "investigation_status \<Rightarrow> string" where
  "status_value St_Open = ''open''"
| "status_value St_In_Progress = ''in_progress''"
| "status_value St_Awaiting_Approval = ''awaiting_approval''"
| "status_value St_Closed = ''closed''"
| "status_value St_Archived = ''archived''"

datatype user_role = Analyst | Senior_Analyst | Manager | Admin | Auditor

datatype notification_channel = Slack | Email | Webhook

fun channel_value :: "notification_channel \<Rightarrow> string" where
  "channel_value Slack = ''slack''"
| "channel_value Email = ''email''"
| "channel_value Webhook = ''webhook''"

datatype notification_status = Ns_Pending | Ns_Sent | Ns_Failed | Ns_Dead_Letter

datatype cve_applicability = Confirmed | Candidate | Not_Applicable

datatype source_trust_tier = Authoritative | Vendor | Community | Internal

datatype log_format = Json | Syslog_Rfc3164 | Syslog_Rfc5424 | Windows_Event | Cef | Key_Value | Unknown_Format

datatype log_source_kind = Kind_File | Kind_Syslog | Kind_Windows_Event_Log | Kind_Siem

datatype event_type = Auth_Success | Auth_Failure | Privilege_Change | Process_Start
  | Network_Connection | File_Access | Service_Control | Account_Change
  | Configuration_Change | Ev_Other

datatype entity_type = En_Host | En_User | En_Ip | En_Domain | En_Url | En_File_Hash
  | En_File_Path | En_Process

fun entity_type_value :: "entity_type \<Rightarrow> string" where
  "entity_type_value En_Host = ''host''"
| "entity_type_value En_User = ''user''"
| "entity_type_value En_Ip = ''ip''"
| "entity_type_value En_Domain = ''domain''"
| "entity_type_value En_Url = ''url''"
| "entity_type_value En_File_Hash = ''file_hash''"
| "entity_type_value En_File_Path = ''file_path''"
| "entity_type_value En_Process = ''process''"

datatype correlation_kind = Shared_Host | Shared_Actor | Shared_Address | Shared_Process

fun correlation_value :: "correlation_kind \<Rightarrow> string" where
  "correlation_value Shared_Host = ''shared_host''"
| "correlation_value Shared_Actor = ''shared_actor''"
| "correlation_value Shared_Address = ''shared_address''"
| "correlation_value Shared_Process = ''shared_process''"

datatype ioc_reputation = Rep_Malicious | Rep_Suspicious | Rep_Harmless | Rep_Unknown

datatype ioc_type = Ioc_Ip | Ioc_Domain | Ioc_Url | Ioc_File_Hash | Ioc_File_Path | Ioc_Process

fun ioc_type_value :: "ioc_type \<Rightarrow> string" where
  "ioc_type_value Ioc_Ip = ''ip''"
| "ioc_type_value Ioc_Domain = ''domain''"
| "ioc_type_value Ioc_Url = ''url''"
| "ioc_type_value Ioc_File_Hash = ''file_hash''"
| "ioc_type_value Ioc_File_Path = ''file_path''"
| "ioc_type_value Ioc_Process = ''process''"

lemma severity_value_inj: "severity_value a = severity_value b \<Longrightarrow> a = b"
  by (cases a; cases b) simp_all

lemma correlation_value_inj: "correlation_value a = correlation_value b \<Longrightarrow> a = b"
  by (cases a; cases b) simp_all

lemma decision_value_inj: "decision_value a = decision_value b \<Longrightarrow> a = b"
  by (cases a; cases b) simp_all

lemma entity_type_value_inj: "entity_type_value a = entity_type_value b \<Longrightarrow> a = b"
  by (cases a; cases b) simp_all

text \<open>The severity scale is ordered as it is listed, from informational to critical.\<close>

fun severity_rank :: "severity \<Rightarrow> nat" where
  "severity_rank Sev_Info = 0"
| "severity_rank Sev_Low = 1"
| "severity_rank Sev_Medium = 2"
| "severity_rank Sev_High = 3"
| "severity_rank Sev_Critical = 4"

lemma severity_rank_inj: "severity_rank a = severity_rank b \<Longrightarrow> a = b"
  by (cases a; cases b) simp_all

instantiation severity :: linorder
begin

definition less_eq_severity :: "severity \<Rightarrow> severity \<Rightarrow> bool" where
  "a \<le> b \<longleftrightarrow> severity_rank a \<le> severity_rank b"

definition less_severity :: "severity \<Rightarrow> severity \<Rightarrow> bool" where
  "a < b \<longleftrightarrow> severity_rank a < severity_rank b"

instance
  by standard (auto simp: less_eq_severity_def less_severity_def severity_rank_inj)

end


section \<open>Evidence and assessments\<close>

record entity =
  en_type :: entity_type
  en_value :: string

text \<open>
  \<^verbatim>\<open>NormalizedEvent\<close>. \<open>ev_fields\<close> carries the values of the \<^verbatim>\<open>fields\<close> mapping as the text that
  \<^verbatim>\<open>str(value)\<close> gives, the only way the modelled code reads them.
\<close>

record normalized_event =
  event_id :: string
  record_id :: string
  source_id :: string
  ev_source_kind :: log_source_kind
  ev_log_format :: log_format
  event_time :: time
  ev_type :: event_type
  host :: "string option"
  actor :: "string option"
  action :: "string option"
  outcome :: "string option"
  message :: string
  entities :: "entity list"
  ev_fields :: "(string, string) dict"
  raw_ref :: "string option"
  notability :: pyfloat
  confidence :: pyfloat

record ioc_indicator =
  ioc_kind :: ioc_type
  ioc_value :: string
  ioc_defanged :: string
  ioc_event_ids :: "string list"
  first_seen :: "time option"
  last_seen :: "time option"
  observation_count :: nat
  ioc_internal :: bool
  reputation :: ioc_reputation
  reputation_source :: "string option"
  reputation_detail :: "string option"
  enriched :: bool

definition is_hostile :: "ioc_indicator \<Rightarrow> bool" where
  "is_hostile i = (enriched i \<and> reputation i \<in> {Rep_Malicious, Rep_Suspicious})"

record detection_signal =
  rule_id :: string
  sig_name :: string
  sig_description :: string
  weight :: pyfloat
  sig_event_ids :: "string list"
  sig_technique_ids :: "string list"
  sig_detail :: string

text \<open>The range the model's field constraint \<^verbatim>\<open>Field(ge=0.0, le=10.0)\<close> admits.\<close>

definition signal_ok :: "detection_signal \<Rightarrow> bool" where
  "signal_ok s = (0 \<le> weight s \<and> weight s \<le> 10)"

record severity_assessment =
  sa_score :: pyfloat
  sa_level :: severity
  sa_rationale :: string
  sa_factors :: "string list"

record citation =
  cit_source_id :: string
  cit_source :: string
  cit_url :: "string option"
  cit_chunk_id :: "string option"
  cit_title :: "string option"
  cit_trust_tier :: "source_trust_tier option"
  cit_published_at :: "time option"

end
