(* ===== verification/Correlation.thy ===== *)
theory Correlation
  imports Domain
begin

text \<open>
  Time-window correlation and notability (\<^verbatim>\<open>tools/correlation.py\<close>). \<open>isoformat\<close> is the textual form of a time
  stamp (\<^verbatim>\<open>datetime.isoformat\<close>), which depends on the zone the stamp carries. Shown: notability lies between 0
  and 1 and grows with the parse confidence; a correlation lists distinct events of one key, at least the
  required number, with no gap above the window; and a chain of events that share an identifier, each within
  the window of the next, is reported in one correlation.
\<close>

section \<open>Notability\<close>

fun type_notability :: "event_type \<Rightarrow> pyfloat" where
  "type_notability Auth_Failure = rnd (6/10)"
| "type_notability Privilege_Change = rnd (7/10)"
| "type_notability Account_Change = rnd (6/10)"
| "type_notability Process_Start = rnd (5/10)"
| "type_notability Service_Control = rnd (5/10)"
| "type_notability Network_Connection = rnd (4/10)"
| "type_notability Configuration_Change = rnd (4/10)"
| "type_notability File_Access = rnd (3/10)"
| "type_notability Auth_Success = rnd (2/10)"
| "type_notability Ev_Other = rnd (1/10)"

fun entity_bonus :: "entity_type \<Rightarrow> pyfloat" where
  "entity_bonus En_File_Hash = rnd (15/100)"
| "entity_bonus En_Ip = rnd (1/10)"
| "entity_bonus En_Url = rnd (1/10)"
| "entity_bonus En_Domain = rnd (5/100)"
| "entity_bonus En_Process = rnd (5/100)"
| "entity_bonus _ = 0"

text \<open>Every entity type adds its bonus once, in the order of first appearance.\<close>

definition add_bonuses :: "entity list \<Rightarrow> pyfloat \<Rightarrow> pyfloat" where
  "add_bonuses es score = fold (\<lambda>t s. rnd (s + entity_bonus t)) (unique (map en_type es)) score"

definition score_notability :: "normalized_event \<Rightarrow> pyfloat" where
  "score_notability e =
     (let score = add_bonuses (entities e) (type_notability (ev_type e));
          score = (if outcome e = Some ''failure'' then rnd (score + rnd (1/10)) else score)
      in py_round 4 (rnd (min 1 (max 0 score) * confidence e)))"


section \<open>Correlation\<close>

record correlation =
  correlation_id :: string
  co_kind :: correlation_kind
  co_key :: string
  co_event_ids :: "string list"
  window_start :: time
  window_end :: time
  co_rationale :: string

definition correlation_entities :: "(correlation_kind \<times> entity_type) list" where
  "correlation_entities = [(Shared_Address, En_Ip), (Shared_Process, En_Process)]"

text \<open>The buckets an event is put into, in the order the loop visits them.\<close>

definition bucket_keys :: "normalized_event \<Rightarrow> (correlation_kind \<times> string) list" where
  "bucket_keys e =
     (if truthy (host e) then [(Shared_Host, lower (the (host e)))] else [])
     @ (if truthy (actor e) then [(Shared_Actor, lower (the (actor e)))] else [])
     @ [(kind, lower (en_value x)). (kind, ty) \<leftarrow> correlation_entities, x \<leftarrow> entities e, en_type x = ty]"

definition buckets :: "normalized_event list \<Rightarrow> (correlation_kind \<times> string, normalized_event list) dict" where
  "buckets events = dict_group [(k, e). e \<leftarrow> events, k \<leftarrow> bucket_keys e]"

definition py_int :: "pyfloat \<Rightarrow> int" where
  "py_int x = (if x \<ge> 0 then \<lfloor>x\<rfloor> else \<lceil>x\<rceil>)"

definition humanize :: "duration \<Rightarrow> string" where
  "humanize window =
     (let seconds = py_int (rnd (of_int window / 1000000)); minutes = seconds div 60; hours = minutes div 60 in
      if seconds < 60 then show_int seconds @ ''s''
      else if minutes < 60 then show_int minutes @ ''m''
      else if hours < 24 then show_int hours @ ''h'' else show_int (hours div 24) @ ''d'')"

definition split_by_gap :: "normalized_event list \<Rightarrow> duration \<Rightarrow> normalized_event list list" where
  "split_by_gap events window = gap_split event_time window [] events"

definition unique_event_ids :: "normalized_event list \<Rightarrow> string list" where
  "unique_event_ids events = unique (map event_id events)"

definition make_correlation ::
  "(time \<Rightarrow> string) \<Rightarrow> duration \<Rightarrow> correlation_kind \<Rightarrow> string \<Rightarrow> normalized_event list \<Rightarrow> correlation" where
  "make_correlation isoformat window kind key episode =
     (let ids = unique_event_ids episode in
      \<lparr>correlation_id = correlation_value kind @ '':'' @ key @ '':'' @ isoformat (event_time (hd episode)),
       co_kind = kind, co_key = key, co_event_ids = ids,
       window_start = event_time (hd episode), window_end = event_time (last episode),
       co_rationale = show_nat (length ids) @ '' events share '' @ removeprefix ''shared_'' (correlation_value kind)
         @ '' '' @ repr_str key @ '' within '' @ humanize window\<rparr>)"

definition by_time :: "normalized_event list \<Rightarrow> normalized_event list" where
  "by_time events = sort_key (\<lambda>e. (event_time e, event_id e)) events"

definition correlate_events ::
  "(time \<Rightarrow> string) \<Rightarrow> normalized_event list \<Rightarrow> duration \<Rightarrow> nat \<Rightarrow> correlation list" where
  "correlate_events isoformat events window minimum_events =
     [make_correlation isoformat window kind key episode.
        ((kind, key), bucket) \<leftarrow> sort_key (\<lambda>((kind, key), _). (correlation_value kind, key)) (buckets events),
        episode \<leftarrow> split_by_gap (by_time bucket) window,
        length (unique_event_ids episode) \<ge> minimum_events]"


section \<open>Facts\<close>

lemma type_notability_pos: "0 \<le> type_notability t"
  by (cases t) (simp_all add: rnd_nonneg)

lemma entity_bonus_nonneg: "0 \<le> entity_bonus t"
  by (cases t) (simp_all add: rnd_nonneg)

lemma buckets_member:
  "((kind, key), bucket) \<in> set (buckets events) \<longleftrightarrow>
   bucket = values_for (kind, key) [(k, e). e \<leftarrow> events, k \<leftarrow> bucket_keys e] \<and> bucket \<noteq> []"
  unfolding buckets_def by (rule dict_group_member)

lemma bucket_events:
  "set (values_for (kind, key) [(k, e). e \<leftarrow> events, k \<leftarrow> bucket_keys e]) =
   {e \<in> set events. (kind, key) \<in> set (bucket_keys e)}"
  by (auto simp: values_for_set)

lemma by_time_sorted: "sorted (map event_time (by_time events))"
proof -
  have "sorted (map (\<lambda>e. (event_time e, event_id e)) (by_time events))" unfolding by_time_def by simp
  then show ?thesis
    by (simp add: sorted_map) (rule sorted_wrt_mono_rel, auto simp: less_eq_prod_def less_le_not_le)
qed

lemma by_time_set [simp]: "set (by_time events) = set events"
  by (simp add: by_time_def)

text \<open>A correlation comes from one episode of one bucket.\<close>

lemma correlate_iff:
  "c \<in> set (correlate_events isoformat events window m) \<longleftrightarrow>
   (\<exists>kind key bucket episode. ((kind, key), bucket) \<in> set (buckets events) \<and>
      episode \<in> set (split_by_gap (by_time bucket) window) \<and> m \<le> length (unique_event_ids episode) \<and>
      c = make_correlation isoformat window kind key episode)"
  unfolding correlate_events_def by force

lemma episode_facts:
  assumes "episode \<in> set (split_by_gap (by_time bucket) window)"
  shows "episode \<noteq> []" "close_knit event_time window episode" "set episode \<subseteq> set bucket" "sorted (map event_time episode)"
proof -
  show "episode \<noteq> []" using assms gap_split_nonempty unfolding split_by_gap_def by blast
  show "close_knit event_time window episode"
    using assms gap_split_close_knit[of event_time window "[]"] unfolding split_by_gap_def by auto
  show "set episode \<subseteq> set bucket" using assms gap_split_subset[of episode event_time window "[]"] unfolding split_by_gap_def by fastforce
  have "concat (split_by_gap (by_time bucket) window) = by_time bucket"
    unfolding split_by_gap_def by (simp add: gap_split_concat)
  then obtain as bs where "by_time bucket = as @ episode @ bs"
    using assms by (metis concat.simps(2) concat_append split_list)
  then show "sorted (map event_time episode)" using by_time_sorted[of bucket] by (simp add: sorted_append)
qed


text \<open>Elements of different episodes of a sorted sequence are more than the window apart.\<close>

lemma far_apart_tail: "far_apart f w (e # eps) \<Longrightarrow> far_apart f w eps"
  by (cases eps) auto

lemma sorted_le_last: "sorted (map f a) \<Longrightarrow> x \<in> set a \<Longrightarrow> f x \<le> f (last a)"
  by (induction a) auto

lemma sorted_hd_le: "sorted (map f a) \<Longrightarrow> x \<in> set a \<Longrightarrow> f (hd a) \<le> f x"
  by (cases a) auto

lemma far_apart_pairs:
  assumes "far_apart f w eps" "sorted (map f (concat eps))" "\<forall>ep \<in> set eps. ep \<noteq> []"
    and "eps = xs @ a # ys @ b # zs" "x \<in> set a" "y \<in> set b"
  shows "f y - f x > (w :: int)"
  using assms
proof (induction xs arbitrary: eps)
  case (Cons e xs)
  obtain eps' where eps: "eps = e # eps'" "eps' = xs @ a # ys @ b # zs" using Cons.prems(4) by simp
  have "far_apart f w eps'" using Cons.prems(1) eps(1) far_apart_tail by blast
  moreover have "sorted (map f (concat eps'))" using Cons.prems(2) eps(1) by (simp add: sorted_append)
  ultimately show ?case using Cons.IH[OF _ _ _ eps(2)] Cons.prems(3,5,6) eps(1) by auto
next
  case Nil
  then obtain c cs where c: "ys @ b # zs = c # cs" by (cases ys) auto
  then have gap: "f (hd c) - f (last a) > w" using Nil.prems(1,4) by simp
  have sorted: "sorted (map f a)" "sorted (map f (concat (c # cs)))"
    using Nil.prems(2,4) c by (simp_all add: sorted_append)
  have "c \<in> set eps" using Nil.prems(4) c by (metis append_Nil list.set_intros)
  then have "hd (concat (c # cs)) = hd c" using Nil.prems(3) by simp
  moreover have "y \<in> set (concat (c # cs))" using Nil.prems(6) unfolding c[symmetric] by simp
  ultimately have "f (hd c) \<le> f y" using sorted_hd_le[OF sorted(2)] by metis
  then show ?case using gap sorted_le_last[OF sorted(1) Nil.prems(5)] by linarith
qed

lemma split_cases:
  assumes "x \<in> set (concat eps)" "y \<in> set (concat eps)"
  obtains (same) ep where "ep \<in> set eps" "x \<in> set ep" "y \<in> set ep"
  | (before) xs a ys b zs where "eps = xs @ a # ys @ b # zs" "x \<in> set a" "y \<in> set b"
  | (after) xs a ys b zs where "eps = xs @ a # ys @ b # zs" "y \<in> set a" "x \<in> set b"
proof -
  obtain a b where ab: "a \<in> set eps" "x \<in> set a" "b \<in> set eps" "y \<in> set b" using assms by auto
  show ?thesis
  proof (cases "a = b")
    case True
    then show ?thesis using ab same by blast
  next
    case False
    obtain xs r where r: "eps = xs @ a # r" using ab(1) by (meson split_list)
    then have "b \<in> set xs \<or> b \<in> set r" using ab(3) False by auto
    then show ?thesis
    proof
      assume "b \<in> set r"
      then obtain ys zs where "r = ys @ b # zs" by (meson split_list)
      then show ?thesis using before[of xs a ys b zs] r ab by simp
    next
      assume "b \<in> set xs"
      then obtain ys zs where "xs = ys @ b # zs" by (meson split_list)
      then show ?thesis using after[of ys b zs a r] r ab by simp
    qed
  qed
qed


text \<open>A chain of events, each within the window of the next, lies in one episode: the episodes of a sorted sequence are
  disjoint in time, so neighbours fix the episode.\<close>

lemma episode_of:
  assumes "sorted (map event_time es)" "ep \<in> set (gap_split event_time window [] es)" "x \<in> set ep" "y \<in> set es"
    "event_time x \<le> event_time y" "event_time y - event_time x \<le> window"
  shows "y \<in> set ep"
proof -
  let ?eps = "gap_split event_time window [] es"
  have c: "concat ?eps = es" by (simp add: gap_split_concat)
  have far: "far_apart event_time window ?eps" by (rule gap_split_far_apart)
  have ne: "\<forall>ep \<in> set ?eps. ep \<noteq> []" using gap_split_nonempty by blast
  have srt: "sorted (map event_time (concat ?eps))" using assms(1) c by simp
  obtain ep' where ep': "ep' \<in> set ?eps" "y \<in> set ep'" using assms(4) c by (metis concat_eq_concat_iff in_set_conv_nth set_concat UN_E)
  show ?thesis
  proof (cases "ep = ep'")
    case False
    obtain xs r where r: "?eps = xs @ ep # r" using assms(2) by (meson split_list)
    then have "ep' \<in> set xs \<or> ep' \<in> set r" using ep'(1) False by auto
    then show ?thesis
    proof
      assume "ep' \<in> set r"
      then obtain ys zs where "r = ys @ ep' # zs" by (meson split_list)
      then have "event_time y - event_time x > window" using far_apart_pairs[OF far srt ne _ assms(3) ep'(2)] r by simp
      then show ?thesis using assms(6) by simp
    next
      assume "ep' \<in> set xs"
      then obtain ys zs where "xs = ys @ ep' # zs" by (meson split_list)
      then have "event_time x - event_time y > window" using far_apart_pairs[OF far srt ne _ ep'(2) assms(3)] r by simp
      then show ?thesis using assms(5,6) by linarith
    qed
  qed (use ep'(2) in simp)
qed

lemma chain_in_episode:
  assumes "sorted (map event_time es)" "set xs \<subseteq> set es" "xs \<noteq> []" "sorted (map event_time xs)" "close_knit event_time window xs"
    "ep \<in> set (gap_split event_time window [] es)" "hd xs \<in> set ep"
  shows "set xs \<subseteq> set ep"
  using assms
proof (induction xs rule: induct_list012)
  case (3 x y zs)
  have "y \<in> set ep" using episode_of[OF 3(3) 3(8), of x y] 3(4-9) by simp
  then show ?case using 3(2)[OF 3(3)] 3(4-9) by simp
qed auto


section \<open>What a correlation is\<close>

text \<open>An event carries an identifier: the host or actor it names, when it names one, or an address or process among its entities, case put aside.\<close>

fun carries :: "correlation_kind \<Rightarrow> string \<Rightarrow> normalized_event \<Rightarrow> bool" where
  "carries Shared_Host key e = (case host e of None \<Rightarrow> False | Some h \<Rightarrow> h \<noteq> [] \<and> lower h = key)"
| "carries Shared_Actor key e = (case actor e of None \<Rightarrow> False | Some a \<Rightarrow> a \<noteq> [] \<and> lower a = key)"
| "carries Shared_Address key e = (\<exists>x \<in> set (entities e). en_type x = En_Ip \<and> lower (en_value x) = key)"
| "carries Shared_Process key e = (\<exists>x \<in> set (entities e). en_type x = En_Process \<and> lower (en_value x) = key)"

lemma carries_iff: "(kind, key) \<in> set (bucket_keys e) \<longleftrightarrow> carries kind key e"
  by (cases kind; auto simp: bucket_keys_def correlation_entities_def split: option.splits)

text \<open>A chain: events of the input that all carry the identifier, in order of time, each within the window of the one before.\<close>

definition shared_chain :: "normalized_event list \<Rightarrow> duration \<Rightarrow> correlation_kind \<Rightarrow> string \<Rightarrow> normalized_event list \<Rightarrow> bool" where
  "shared_chain events window kind key xs \<longleftrightarrow> xs \<noteq> [] \<and> set xs \<subseteq> set events \<and> list_all (carries kind key) xs
     \<and> sorted (map event_time xs) \<and> close_knit event_time window xs"


section \<open>Properties\<close>

text \<open>Notability lies between 0 and 1, and for the same content a less confidently parsed event never scores
  higher.\<close>

theorem notability_bounds:
  assumes "0 \<le> confidence e" "confidence e \<le> c" "c \<le> 1"
  shows "0 \<le> score_notability e \<and> score_notability e \<le> score_notability (e\<lparr>confidence := c\<rparr>) \<and>
    score_notability (e\<lparr>confidence := c\<rparr>) \<le> 1"
proof -
  define x where "x = (let score = add_bonuses (entities e) (type_notability (ev_type e)) in
      min 1 (max 0 (if outcome e = Some ''failure'' then rnd (score + rnd (1/10)) else score)))"
  have x: "0 \<le> x" "x \<le> 1" by (auto simp: x_def Let_def)
  have eqs: "score_notability e = py_round 4 (rnd (x * confidence e))"
    "score_notability (e\<lparr>confidence := c\<rparr>) = py_round 4 (rnd (x * c))"
    by (simp_all add: score_notability_def x_def Let_def)
  have "x * confidence e \<le> x * c" using x assms by (simp add: mult_left_mono)
  moreover have "x * c \<le> 1" using x assms by (intro mult_le_one) auto
  moreover have "0 \<le> x * confidence e" using x assms by simp
  ultimately show ?thesis unfolding eqs
    by (intro conjI py_round_nonneg py_round_le_1 py_round_mono rnd_mono rnd_nonneg rnd_le_1)
qed

text \<open>Every correlation is supported: its event ids are distinct and at least the required number, and they are
  the ids of a run of events that all carry the correlation's key, ordered in time with no gap above the window,
  which starts and ends where the correlation says.\<close>

theorem correlation_sound:
  assumes "c \<in> set (correlate_events isoformat events window m)"
  shows "distinct (co_event_ids c) \<and> m \<le> length (co_event_ids c) \<and>
    (\<exists>episode. episode \<noteq> [] \<and> co_event_ids c = unique (map event_id episode) \<and> sorted (map event_time episode) \<and>
      close_knit event_time window episode \<and> window_start c = event_time (hd episode) \<and> window_end c = event_time (last episode) \<and>
      list_all (\<lambda>e. e \<in> set events \<and> (co_kind c, co_key c) \<in> set (bucket_keys e)) episode)"
proof -
  obtain kind key bucket episode where c: "((kind, key), bucket) \<in> set (buckets events)"
    "episode \<in> set (split_by_gap (by_time bucket) window)" "m \<le> length (unique_event_ids episode)"
    "c = make_correlation isoformat window kind key episode"
    using assms unfolding correlate_iff by blast
  note f = episode_facts[OF c(2)]
  have "bucket = values_for (kind, key) [(k, e). e \<leftarrow> events, k \<leftarrow> bucket_keys e]"
    using c(1) unfolding buckets_member by (rule conjunct1)
  then have "set bucket = {e \<in> set events. (kind, key) \<in> set (bucket_keys e)}" by (simp only: bucket_events)
  then have "list_all (\<lambda>e. e \<in> set events \<and> (kind, key) \<in> set (bucket_keys e)) episode"
    using f(3) by (auto simp: list_all_iff)
  then show ?thesis using f c(3) unfolding c(4)
    by (auto simp: make_correlation_def unique_event_ids_def Let_def intro!: exI[of _ episode])
qed

text \<open>C33: Correlation reports exactly the chains. A chain is a run of input events that carry one identifier, the same host, account, address or process up to case,
  each within the window of the one before. Every correlation lists the distinct ids of such a chain, spans its time, and has at least the minimum number of events asked for; and
  for every chain with at least that many distinct events, whatever the minimum, one correlation of its kind and key lists all of them.\<close>

theorem correlations_are_chains:
  "(\<forall>c \<in> set (correlate_events isoformat events window minimum_events). \<exists>xs. shared_chain events window (co_kind c) (co_key c) xs
      \<and> distinct (co_event_ids c) \<and> set (co_event_ids c) = event_id ` set xs \<and> minimum_events \<le> card (event_id ` set xs)
      \<and> window_start c = event_time (hd xs) \<and> window_end c = event_time (last xs))
   \<and> (\<forall>kind key xs. shared_chain events window kind key xs \<and> minimum_events \<le> card (event_id ` set xs) \<longrightarrow>
      (\<exists>c \<in> set (correlate_events isoformat events window minimum_events). co_kind c = kind \<and> co_key c = key \<and> event_id ` set xs \<subseteq> set (co_event_ids c)))"
proof (intro conjI ballI allI impI)
  fix c assume "c \<in> set (correlate_events isoformat events window minimum_events)"
  from correlation_sound[OF this] obtain ep where ep: "ep \<noteq> []" "co_event_ids c = unique (map event_id ep)" "sorted (map event_time ep)"
    "close_knit event_time window ep" "window_start c = event_time (hd ep)" "window_end c = event_time (last ep)"
    "list_all (\<lambda>e. e \<in> set events \<and> carries (co_kind c) (co_key c) e) ep" "minimum_events \<le> length (co_event_ids c)" "distinct (co_event_ids c)"
    unfolding carries_iff by blast
  then show "\<exists>xs. shared_chain events window (co_kind c) (co_key c) xs \<and> distinct (co_event_ids c) \<and> set (co_event_ids c) = event_id ` set xs
      \<and> minimum_events \<le> card (event_id ` set xs) \<and> window_start c = event_time (hd xs) \<and> window_end c = event_time (last xs)"
    by (intro exI[of _ ep]) (auto simp: shared_chain_def list_all_iff length_unique)
next
  fix kind key xs assume "shared_chain events window kind key xs \<and> minimum_events \<le> card (event_id ` set xs)"
  then have xs: "xs \<noteq> []" "set xs \<subseteq> set events" "\<forall>e \<in> set xs. (kind, key) \<in> set (bucket_keys e)" "sorted (map event_time xs)" "close_knit event_time window xs"
    and m: "minimum_events \<le> card (event_id ` set xs)" by (auto simp: shared_chain_def list_all_iff carries_iff)
  define bucket where "bucket = values_for (kind, key) [(k, e). e \<leftarrow> events, k \<leftarrow> bucket_keys e]"
  have sub: "set xs \<subseteq> set bucket" unfolding bucket_def bucket_events using xs(2,3) by auto
  then have b: "((kind, key), bucket) \<in> set (buckets events)" unfolding buckets_member bucket_def using xs(1) by auto
  let ?eps = "gap_split event_time window [] (by_time bucket)"
  have sub': "set xs \<subseteq> set (by_time bucket)" using sub by simp
  have "concat ?eps = by_time bucket" by (simp add: gap_split_concat)
  moreover have "hd xs \<in> set xs" using xs(1) by simp
  ultimately have "hd xs \<in> set (concat ?eps)" using sub' by auto
  then obtain ep where ep: "ep \<in> set ?eps" "hd xs \<in> set ep" by auto
  have all: "set xs \<subseteq> set ep" by (rule chain_in_episode[OF by_time_sorted sub' xs(1,4,5) ep])
  let ?c = "make_correlation isoformat window kind key ep"
  have "card (event_id ` set xs) \<le> card (event_id ` set ep)" using all by (intro card_mono image_mono) simp_all
  then have "minimum_events \<le> length (unique_event_ids ep)" using m by (simp add: unique_event_ids_def length_unique)
  then have "?c \<in> set (correlate_events isoformat events window minimum_events)" unfolding correlate_iff split_by_gap_def using b ep(1) by blast
  moreover have "event_id ` set xs \<subseteq> set (co_event_ids ?c)" using all by (auto simp: make_correlation_def unique_event_ids_def Let_def)
  ultimately show "\<exists>c \<in> set (correlate_events isoformat events window minimum_events). co_kind c = kind \<and> co_key c = key \<and> event_id ` set xs \<subseteq> set (co_event_ids c)"
    by (intro bexI[of _ ?c]) (simp_all add: make_correlation_def Let_def)
qed


section \<open>Witnesses\<close>

definition sample_event :: "string \<Rightarrow> time \<Rightarrow> normalized_event" where
  "sample_event i tm = \<lparr>event_id = i, record_id = i, source_id = ''s'', ev_source_kind = Kind_File, ev_log_format = Json, event_time = tm, ev_type = Auth_Failure, host = Some ''WEB-1'',
     actor = None, action = None, outcome = Some ''failure'', message = [], entities = [], ev_fields = [],
     raw_ref = None, notability = 0, confidence = 1 / 2\<rparr>"

theorem notability_bounds_witness:
  "0 \<le> score_notability (sample_event ''e1'' 0) \<and> score_notability (sample_event ''e1'' 0) \<le> 1"
  using notability_bounds[of "sample_event ''e1'' 0" "1 / 2"] by (simp add: sample_event_def)

lemma sample_keys_host: "(Shared_Host, ''web-1'') \<in> set (bucket_keys (sample_event i tm))"
proof -
  have "lower ''WEB-1'' = ''web-1''" by code_simp
  then show ?thesis by (simp add: bucket_keys_def sample_event_def)
qed

theorem correlations_are_chains_witness:
  "\<exists>c \<in> set (correlate_events show_int [sample_event ''e1'' 0, sample_event ''e2'' 5, sample_event ''e3'' 12] 10 3).
     co_kind c = Shared_Host \<and> co_key c = ''web-1'' \<and> {''e1'', ''e2'', ''e3''} \<subseteq> set (co_event_ids c)"
proof -
  let ?es = "[sample_event ''e1'' 0, sample_event ''e2'' 5, sample_event ''e3'' 12]"
  have "shared_chain ?es 10 Shared_Host ''web-1'' ?es"
    using sample_keys_host unfolding carries_iff by (simp add: shared_chain_def) (simp add: sample_event_def)
  moreover have ids: "event_id ` set ?es = {''e1'', ''e2'', ''e3''}" by (simp add: sample_event_def)
  moreover have "3 \<le> card {''e1'', ''e2'', ''e3''}" by simp
  ultimately show ?thesis using correlations_are_chains[of show_int ?es 10 3] by metis
qed

theorem correlation_sound_witness:
  "\<exists>c. c \<in> set (correlate_events show_int [sample_event ''e1'' 0, sample_event ''e1'' 0] 10 1) \<and>
     distinct (co_event_ids c) \<and> 1 \<le> length (co_event_ids c)"
proof -
  let ?ep = "[sample_event ''e1'' 0, sample_event ''e1'' 0]"
  define bucket where "bucket = values_for (Shared_Host, ''web-1'') [(k, e). e \<leftarrow> ?ep, k \<leftarrow> bucket_keys e]"
  have "sample_event ''e1'' 0 \<in> set bucket" unfolding bucket_def bucket_events using sample_keys_host by simp
  then have b: "((Shared_Host, ''web-1''), bucket) \<in> set (buckets ?ep)" unfolding buckets_member bucket_def by auto
  then have "bucket \<noteq> []" unfolding buckets_member by blast
  then have "concat (split_by_gap (by_time bucket) 10) \<noteq> []"
    unfolding split_by_gap_def gap_split_concat by (metis append_Nil by_time_set set_empty)
  then obtain ep where ep: "ep \<in> set (split_by_gap (by_time bucket) 10)" by (cases "split_by_gap (by_time bucket) 10") auto
  have "1 \<le> length (unique_event_ids ep)"
    using episode_facts(1)[OF ep] by (cases ep) (simp_all add: unique_event_ids_def)
  then have c: "make_correlation show_int 10 Shared_Host ''web-1'' ep \<in> set (correlate_events show_int ?ep 10 1)"
    unfolding correlate_iff using b ep by blast
  show ?thesis using correlation_sound[OF c] c by blast
qed

end
