(* ===== verification/Regex.thy ===== *)
theory Regex
  imports Py_Text
begin

text \<open>
  Regular expressions as Python's \<^verbatim>\<open>re\<close> matches them: character classes, sequence, alternative, greedy
  repetition and assertions about a position. \<open>ends r s i\<close> lists the positions where a match starting at \<open>i\<close> can
  end, in the order in which the backtracking matcher tries them; as a set it agrees with the declarative relation
  \<open>matches\<close>. \<open>search\<close> answers yes or no, \<open>first_match\<close> gives the pieces of the first match of a sequence (what
  capturing groups read) and \<open>find_all\<close> the matches that do not overlap, from left to right.
\<close>

section \<open>Expressions and matching\<close>

datatype rx = Eps | Cls "char \<Rightarrow> bool" | Cat rx rx | Alt rx rx | Star rx | At "string \<Rightarrow> nat \<Rightarrow> bool"

text \<open>\<^verbatim>\<open>\b\<close>: exactly one side of the position is a word character.\<close>

definition boundary :: "string \<Rightarrow> nat \<Rightarrow> bool" where
  "boundary s i = ((0 < i \<and> i \<le> length s \<and> is_word (s ! (i - 1))) \<noteq> (i < length s \<and> is_word (s ! i)))"

abbreviation Bound :: rx where "Bound \<equiv> At boundary"

inductive matches :: "rx \<Rightarrow> string \<Rightarrow> nat \<Rightarrow> nat \<Rightarrow> bool" where
  m_eps: "matches Eps s i i"
| m_cls: "i < length s \<Longrightarrow> p (s ! i) \<Longrightarrow> matches (Cls p) s i (Suc i)"
| m_cat: "matches a s i k \<Longrightarrow> matches b s k j \<Longrightarrow> matches (Cat a b) s i j"
| m_alt1: "matches a s i j \<Longrightarrow> matches (Alt a b) s i j"
| m_alt2: "matches b s i j \<Longrightarrow> matches (Alt a b) s i j"
| m_stop: "matches (Star a) s i i"
| m_more: "matches a s i k \<Longrightarrow> matches (Star a) s k j \<Longrightarrow> matches (Star a) s i j"
| m_at: "p s i \<Longrightarrow> matches (At p) s i i"

inductive_cases matches_elims: "matches Eps s i j" "matches (Cls p) s i j" "matches (Cat a b) s i j"
  "matches (Alt a b) s i j" "matches (At p) s i j"

fun star_ends :: "nat \<Rightarrow> (nat \<Rightarrow> nat list) \<Rightarrow> nat \<Rightarrow> nat list" where
  "star_ends 0 f i = [i]"
| "star_ends (Suc n) f i = concat (map (star_ends n f) (filter (\<lambda>j. i < j) (f i))) @ [i]"

fun ends :: "rx \<Rightarrow> string \<Rightarrow> nat \<Rightarrow> nat list" where
  "ends Eps s i = [i]"
| "ends (Cls p) s i = (if i < length s \<and> p (s ! i) then [Suc i] else [])"
| "ends (Cat a b) s i = concat (map (ends b s) (ends a s i))"
| "ends (Alt a b) s i = ends a s i @ ends b s i"
| "ends (Star a) s i = star_ends (length s - i) (ends a s) i"
| "ends (At p) s i = (if p s i then [i] else [])"

text \<open>\<^verbatim>\<open>pattern.search(text) is not None\<close>.\<close>

definition search :: "rx \<Rightarrow> string \<Rightarrow> bool" where
  "search r s = list_ex (\<lambda>i. ends r s i \<noteq> []) [0..<Suc (length s)]"

text \<open>Building blocks: a literal ignoring case, an option, one or more, a choice of several.\<close>

definition ci :: "char \<Rightarrow> rx" where
  "ci c = Cls (\<lambda>d. lower_char d = lower_char c)"

definition lit :: "string \<Rightarrow> rx" where
  "lit s = foldr (\<lambda>c r. Cat (ci c) r) s Eps"

definition opt :: "rx \<Rightarrow> rx" where
  "opt r = Alt r Eps"

definition plus :: "rx \<Rightarrow> rx" where
  "plus r = Cat r (Star r)"

definition choice :: "rx list \<Rightarrow> rx" where
  "choice rs = foldr Alt (butlast rs) (last rs)"

definition seq :: "rx list \<Rightarrow> rx" where
  "seq rs = foldr Cat rs Eps"

abbreviation spaces :: rx where "spaces \<equiv> Star (Cls is_space)"
abbreviation spaces1 :: rx where "spaces1 \<equiv> plus (Cls is_space)"


section \<open>The computed ends are the declared ones\<close>

lemma matches_range: "matches r s i j \<Longrightarrow> i \<le> j \<and> (i \<le> length s \<longrightarrow> j \<le> length s)"
  by (induction rule: matches.induct) auto

lemma star_ends_sound:
  assumes "\<And>i j. j \<in> set (f i) \<Longrightarrow> matches a s i j"
  shows "j \<in> set (star_ends n f i) \<Longrightarrow> matches (Star a) s i j"
proof (induction n arbitrary: i j)
  case 0
  then show ?case by (simp add: m_stop)
next
  case (Suc n)
  then have "j = i \<or> (\<exists>k \<in> set (f i). j \<in> set (star_ends n f k))" by auto
  then show ?case using Suc.IH assms m_stop m_more by metis
qed

lemma ends_sound: "j \<in> set (ends r s i) \<Longrightarrow> matches r s i j"
proof (induction r arbitrary: i j)
  case (Cat a b)
  then obtain k where "k \<in> set (ends a s i)" "j \<in> set (ends b s k)" by auto
  then show ?case using Cat.IH m_cat by blast
next
  case (Star r)
  have "j \<in> set (star_ends (length s - i) (ends r s) i)" using Star.prems by simp
  then show ?case by (rule star_ends_sound[rotated]) (rule Star.IH)
qed (auto intro: matches.intros split: if_splits)

lemma star_ends_complete:
  "matches (Star a) s i j \<Longrightarrow> (\<forall>i j. i \<le> length s \<longrightarrow> matches a s i j \<longrightarrow> j \<in> set (f i)) \<Longrightarrow>
   i \<le> length s \<Longrightarrow> length s - i \<le> n \<Longrightarrow> j \<in> set (star_ends n f i)"
proof (induction "Star a" s i j arbitrary: n rule: matches.induct)
  case (m_stop s i)
  then show ?case by (cases n) auto
next
  case (m_more s i k j)
  show ?case
  proof (cases "i < k")
    case False
    then have "k = i" using matches_range[OF m_more(1)] by simp
    then show ?thesis using m_more by blast
  next
    case True
    have k: "k \<le> length s" using matches_range[OF m_more(1)] m_more(6) by simp
    then obtain n' where n: "n = Suc n'" "length s - k \<le> n'" using True m_more(7) by (cases n) auto
    have "j \<in> set (star_ends n' f k)" using m_more(4)[OF m_more(5) k n(2)] .
    moreover have "k \<in> set (f i)" using m_more(1,5,6) by blast
    ultimately show ?thesis using n(1) True by auto
  qed
qed

lemma ends_complete: "matches r s i j \<Longrightarrow> i \<le> length s \<Longrightarrow> j \<in> set (ends r s i)"
proof (induction r arbitrary: i j)
  case (Cat a b)
  then obtain k where k: "matches a s i k" "matches b s k j" by (auto elim: matches_elims)
  then have "k \<le> length s" using matches_range Cat.prems(2) by blast
  then show ?case using Cat.IH(1)[OF k(1) Cat.prems(2)] Cat.IH(2)[OF k(2)] by auto
next
  case (Star r)
  then show ?case using star_ends_complete[OF Star.prems(1), of "ends r s"] by simp
qed (auto elim: matches_elims)

text \<open>A search succeeds exactly when the expression matches somewhere in the text.\<close>

lemma search_iff: "search r s \<longleftrightarrow> (\<exists>i j. i \<le> length s \<and> matches r s i j)"
proof -
  have "search r s \<longleftrightarrow> (\<exists>i. i \<le> length s \<and> ends r s i \<noteq> [])"
    unfolding search_def list_ex_iff by (metis atLeast0LessThan lessThan_iff less_Suc_eq_le set_upt)
  also have "\<dots> \<longleftrightarrow> (\<exists>i j. i \<le> length s \<and> j \<in> set (ends r s i))"
    by (metis list.set_intros(1) neq_Nil_conv set_empty empty_iff)
  also have "\<dots> \<longleftrightarrow> (\<exists>i j. i \<le> length s \<and> matches r s i j)" using ends_sound ends_complete by blast
  finally show ?thesis .
qed

section \<open>The first match and its pieces\<close>

fun first_some :: "('a \<Rightarrow> 'b option) \<Rightarrow> 'a list \<Rightarrow> 'b option" where
  "first_some f [] = None"
| "first_some f (x # xs) = (case f x of Some y \<Rightarrow> Some y | None \<Rightarrow> first_some f xs)"

lemma first_some_Some: "first_some f xs = Some y \<Longrightarrow> \<exists>x \<in> set xs. f x = Some y"
  by (induction xs) (auto split: option.splits)

lemma first_some_None: "first_some f xs = None \<longleftrightarrow> (\<forall>x \<in> set xs. f x = None)"
  by (induction xs) (auto split: option.splits)

text \<open>
  A pattern with capturing groups is the list of its consecutive pieces; the first match, in the order of the backtracking
  matcher, is given by the positions between the pieces.
\<close>

fun first_match :: "rx list \<Rightarrow> string \<Rightarrow> nat \<Rightarrow> nat list option" where
  "first_match [] s i = Some [i]"
| "first_match (r # rs) s i = first_some (\<lambda>j. map_option (Cons i) (first_match rs s j)) (ends r s i)"

definition slice :: "string \<Rightarrow> nat \<Rightarrow> nat \<Rightarrow> string" where
  "slice s i j = take (j - i) (drop i s)"

definition piece :: "string \<Rightarrow> nat list \<Rightarrow> nat \<Rightarrow> string" where
  "piece s ps k = slice s (ps ! k) (ps ! Suc k)"

text \<open>\<^verbatim>\<open>pattern.search\<close> from a position on.\<close>

definition search_from :: "rx list \<Rightarrow> string \<Rightarrow> nat \<Rightarrow> nat list option" where
  "search_from rs s i = first_some (first_match rs s) [i..<Suc (length s)]"

lemma first_match_sound:
  "first_match rs s i = Some ps \<Longrightarrow> length ps = Suc (length rs) \<and> ps ! 0 = i \<and> (\<forall>k < length rs. matches (rs ! k) s (ps ! k) (ps ! Suc k))"
proof (induction rs arbitrary: i ps)
  case (Cons r rs)
  then obtain j qs where j: "j \<in> set (ends r s i)" "first_match rs s j = Some qs" "ps = i # qs"
    by (auto dest!: first_some_Some)
  from Cons.IH[OF j(2)] ends_sound[OF j(1)] show ?case
    unfolding j(3) by (auto simp: less_Suc_eq_0_disj)
qed simp

lemma piece_range:
  assumes "first_match rs s i = Some ps" "i \<le> length s" "k \<le> length rs"
  shows "i \<le> ps ! k" "ps ! k \<le> length s"
proof -
  have "i \<le> ps ! k \<and> ps ! k \<le> length s" using assms(3)
  proof (induction k)
    case 0
    then show ?case using first_match_sound[OF assms(1)] assms(2) by simp
  next
    case (Suc k)
    then have "matches (rs ! k) s (ps ! k) (ps ! Suc k)" using first_match_sound[OF assms(1)] by simp
    from matches_range[OF this] Suc show ?case by simp
  qed
  then show "i \<le> ps ! k" "ps ! k \<le> length s" by simp_all
qed

lemma search_from_Some:
  assumes "search_from rs s i = Some ps"
  shows "first_match rs s (ps ! 0) = Some ps" "i \<le> ps ! 0" "ps ! 0 \<le> length s" "ps ! 0 \<le> ps ! length rs" "ps ! length rs \<le> length s"
proof -
  from first_some_Some[OF assms[unfolded search_from_def]] obtain k where k: "k \<in> set [i..<Suc (length s)]" "first_match rs s k = Some ps" by blast
  then have h: "ps ! 0 = k" using first_match_sound by blast
  with k show "first_match rs s (ps ! 0) = Some ps" "i \<le> ps ! 0" "ps ! 0 \<le> length s" by auto
  with k h piece_range[of rs s k ps "length rs"] show "ps ! 0 \<le> ps ! length rs" "ps ! length rs \<le> length s" by simp_all
qed

text \<open>
  \<^verbatim>\<open>pattern.finditer\<close> and \<^verbatim>\<open>pattern.sub\<close>, for patterns that match at least one character: the matches that do not overlap, from left to right.
\<close>

function find_from :: "rx list \<Rightarrow> string \<Rightarrow> nat \<Rightarrow> nat list list" where
  "find_from rs s i = (case search_from rs s i of None \<Rightarrow> []
     | Some ps \<Rightarrow> ps # (if i < ps ! length rs then find_from rs s (ps ! length rs) else []))"
  by pat_completeness auto
termination
proof (relation "measure (\<lambda>(rs, s, i). length s - i)")
  fix rs s i ps
  assume "search_from rs s i = Some ps" "i < ps ! length rs"
  then show "((rs, s, ps ! length rs), rs, s, i) \<in> measure (\<lambda>(rs, s, i). length s - i)"
    using search_from_Some(5)[of rs s i ps] by simp
qed simp

declare find_from.simps [simp del]

abbreviation find_all :: "rx list \<Rightarrow> string \<Rightarrow> nat list list" where
  "find_all rs s \<equiv> find_from rs s 0"

fun splice :: "string \<Rightarrow> string \<Rightarrow> nat \<Rightarrow> nat list list \<Rightarrow> string" where
  "splice filler s i [] = drop i s"
| "splice filler s i (ps # pss) = slice s i (hd ps) @ filler @ splice filler s (last ps) pss"

definition re_sub :: "rx list \<Rightarrow> string \<Rightarrow> string \<Rightarrow> string" where
  "re_sub rs filler s = splice filler s 0 (find_all rs s)"

lemma find_from_sound: "ps \<in> set (find_from rs s i) \<Longrightarrow> first_match rs s (ps ! 0) = Some ps \<and> i \<le> ps ! 0 \<and> ps ! 0 \<le> length s"
proof (induction rs s i rule: find_from.induct)
  case (1 rs s i)
  then show ?case
  proof (cases "search_from rs s i")
    case (Some qs)
    note q = search_from_Some[OF Some]
    from 1(2) consider "ps = qs" | "i < qs ! length rs" "ps \<in> set (find_from rs s (qs ! length rs))"
      by (subst (asm) find_from.simps) (auto simp: Some split: if_splits)
    then show ?thesis
    proof cases
      case 2
      then have "first_match rs s (ps ! 0) = Some ps \<and> qs ! length rs \<le> ps ! 0 \<and> ps ! 0 \<le> length s" using 1(1)[OF Some] by simp
      with 2 show ?thesis by auto
    qed (use q in auto)
  qed (subst (asm) find_from.simps, simp)
qed


section \<open>The characters of a match\<close>

text \<open>Every character that a match consumes satisfies \<open>P\<close> when every class of the expression does.\<close>

fun only :: "(char \<Rightarrow> bool) \<Rightarrow> rx \<Rightarrow> bool" where
  "only P Eps = True"
| "only P (Cls p) = (\<forall>c. p c \<longrightarrow> P c)"
| "only P (Cat a b) = (only P a \<and> only P b)"
| "only P (Alt a b) = (only P a \<and> only P b)"
| "only P (Star a) = only P a"
| "only P (At p) = True"

lemma matches_only: "matches r s i j \<Longrightarrow> only P r \<Longrightarrow> i \<le> k \<Longrightarrow> k < j \<Longrightarrow> P (s ! k)"
proof (induction arbitrary: k rule: matches.induct)
  case (m_cls i s p)
  then have "k = i" by simp
  with m_cls show ?case by simp
next
  case (m_cat a s i l b j)
  then show ?case by (cases "k < l") auto
next
  case (m_more a s i l j)
  then show ?case by (cases "k < l") auto
qed auto

lemma slice_mem: "c \<in> set (slice s i j) \<Longrightarrow> \<exists>k. i \<le> k \<and> k < j \<and> k < length s \<and> c = s ! k"
proof -
  assume "c \<in> set (slice s i j)"
  then obtain m where m: "m < length (slice s i j)" "slice s i j ! m = c" by (auto simp: in_set_conv_nth)
  then have "m < j - i" "i + m < length s" by (auto simp: slice_def)
  with m show ?thesis by (intro exI[of _ "i + m"]) (auto simp: slice_def)
qed

lemma piece_only:
  assumes "first_match rs s i = Some ps" "k < length rs" "only P (rs ! k)"
  shows "\<forall>c \<in> set (piece s ps k). P c"
proof
  fix c assume "c \<in> set (piece s ps k)"
  then obtain m where "ps ! k \<le> m" "m < ps ! Suc k" "c = s ! m" unfolding piece_def by (blast dest: slice_mem)
  moreover have "matches (rs ! k) s (ps ! k) (ps ! Suc k)" using first_match_sound[OF assms(1)] assms(2) by blast
  ultimately show "P c" using matches_only assms(3) by blast
qed

lemma only_seq [simp]: "only P (seq rs) = list_all (only P) rs" "only P (opt r) = only P r" "only P (plus r) = only P r"
  by (induction rs) (simp_all add: seq_def opt_def plus_def)

lemma sublist_slice: "sublist (slice s i j) s"
  unfolding slice_def by (metis append_take_drop_id sublist_appendI sublist_append_leftI sublist_append_rightI)

end
