(* ===== verification/Ip_Address.thy ===== *)
theory Ip_Address
  imports Py_Format
begin

text \<open>
  The part of Python's \<^verbatim>\<open>ipaddress\<close> module that \<^verbatim>\<open>tools/iocs.py\<close> uses, as of Python 3.11 (the version the
  repository targets): reading an IPv4 or IPv6 address, reading a network with \<^verbatim>\<open>strict=False\<close>, and membership.
  An address is its version and its integer value, a network its version, address value and prefix length.
\<close>

section \<open>Addresses\<close>

datatype ip_version = V4 | V6

type_synonym ip_address = "ip_version \<times> nat"
type_synonym ip_network = "ip_version \<times> nat \<times> nat"

fun width :: "ip_version \<Rightarrow> nat" where
  "width V4 = 32"
| "width V6 = 128"

definition parse_octet :: "string \<Rightarrow> nat option" where
  "parse_octet s =
     (if s = [] \<or> \<not> list_all is_digit s \<or> length s > 3 \<or> (s \<noteq> ''0'' \<and> hd s = CHR ''0'') then None
      else let n = nat (int_of_digits s) in if n > 255 then None else Some n)"

definition parse_v4 :: "string \<Rightarrow> nat option" where
  "parse_v4 s = (case map parse_octet (split_at (\<lambda>c. c = CHR ''.'') s) of
     [Some a, Some b, Some c, Some d] \<Rightarrow> Some (((a * 256 + b) * 256 + c) * 256 + d)
   | _ \<Rightarrow> None)"

definition hex_value :: "char \<Rightarrow> nat option" where
  "hex_value c = (let n = cp c in
     if 48 \<le> n \<and> n \<le> 57 then Some (n - 48)
     else if 97 \<le> n \<and> n \<le> 102 then Some (n - 87)
     else if 65 \<le> n \<and> n \<le> 70 then Some (n - 55) else None)"

definition parse_hextet :: "string \<Rightarrow> nat option" where
  "parse_hextet s =
     (if s = [] \<or> length s > 4 \<or> list_ex (\<lambda>c. hex_value c = None) s then None
      else Some (foldl (\<lambda>acc c. 16 * acc + the (hex_value c)) 0 s))"

text \<open>A dotted tail is replaced by its two hextets. They are kept as numbers, so a part is text or a number.\<close>

definition v6_parts :: "string \<Rightarrow> (string + nat) list option" where
  "v6_parts s =
     (let parts = split_at (\<lambda>c. c = CHR '':'') s in
      if length parts < 3 then None
      else if CHR ''.'' \<in> set (last parts) then
        map_option (\<lambda>n. map Inl (butlast parts) @ [Inr (n div 65536), Inr (n mod 65536)]) (parse_v4 (last parts))
      else Some (map Inl parts))"

fun hextet :: "string + nat \<Rightarrow> nat option" where
  "hextet (Inl s) = parse_hextet s"
| "hextet (Inr n) = Some n"

fun blank :: "string + nat \<Rightarrow> bool" where
  "blank (Inl s) = (s = [])"
| "blank (Inr n) = False"

text \<open>
  The parts before and after the elided run with the length of the run; a \<^verbatim>\<open>::\<close> may be used once, and a part
  may be empty at an end only as part of it.
\<close>

definition v6_layout :: "(string + nat) list \<Rightarrow> ((string + nat) list \<times> nat \<times> (string + nat) list) option" where
  "v6_layout parts =
     (let skips = filter (\<lambda>i. blank (parts ! i)) [1..<length parts - 1] in
      if length parts > 9 \<or> length skips > 1 then None
      else if skips = [] then
        (if length parts \<noteq> 8 \<or> blank (hd parts) \<or> blank (last parts) then None else Some (parts, 0, []))
      else let k = hd skips;
               hi = (if blank (hd parts) then k - 1 else k);
               lo = (if blank (last parts) then length parts - k - 2 else length parts - k - 1) in
        if (blank (hd parts) \<and> hi \<noteq> 0) \<or> (blank (last parts) \<and> lo \<noteq> 0) \<or> hi + lo \<ge> 8 then None
        else Some (take hi parts, 8 - (hi + lo), drop (length parts - lo) parts))"

definition shift_in :: "nat \<Rightarrow> nat list \<Rightarrow> nat" where
  "shift_in = foldl (\<lambda>acc h. acc * 65536 + h)"

definition parse_v6_digits :: "string \<Rightarrow> nat option" where
  "parse_v6_digits s = (case Option.bind (v6_parts s) v6_layout of None \<Rightarrow> None
   | Some (hi, skipped, lo) \<Rightarrow>
      if list_ex (\<lambda>x. hextet x = None) (hi @ lo) then None
      else Some (shift_in (shift_in 0 (map (the \<circ> hextet) hi) * 65536 ^ skipped) (map (the \<circ> hextet) lo)))"

text \<open>A scope identifier after \<^verbatim>\<open>%\<close> is dropped; it must be non-empty and free of a second \<^verbatim>\<open>%\<close>.\<close>

definition parse_v6 :: "string \<Rightarrow> nat option" where
  "parse_v6 s = (case split_at (\<lambda>c. c = CHR ''%'') s of
     [a] \<Rightarrow> parse_v6_digits a
   | [a, scope] \<Rightarrow> if scope = [] then None else parse_v6_digits a
   | _ \<Rightarrow> None)"

definition ip_address :: "string \<Rightarrow> ip_address option" where
  "ip_address s = (if CHR ''/'' \<in> set s then None
     else case parse_v4 s of Some n \<Rightarrow> Some (V4, n) | None \<Rightarrow> map_option (Pair V6) (parse_v6 s))"


section \<open>Networks\<close>

definition prefix_of_text :: "ip_version \<Rightarrow> string \<Rightarrow> nat option" where
  "prefix_of_text v s =
     (if s = [] \<or> \<not> list_all is_digit s \<or> int_of_digits s > int (width v) then None
      else Some (nat (int_of_digits s)))"

text \<open>The prefix length of a netmask, then of a host mask.\<close>

definition prefix_of_mask :: "nat \<Rightarrow> nat option" where
  "prefix_of_mask m = (case find (\<lambda>p. m = (2 ^ p - 1) * 2 ^ (32 - p)) [0..<33] of
     Some p \<Rightarrow> Some p | None \<Rightarrow> find (\<lambda>p. 2 ^ 32 - 1 - m = (2 ^ p - 1) * 2 ^ (32 - p)) [0..<33])"

fun make_netmask :: "ip_version \<Rightarrow> string \<Rightarrow> nat option" where
  "make_netmask V4 s = (case prefix_of_text V4 s of Some p \<Rightarrow> Some p | None \<Rightarrow> Option.bind (parse_v4 s) prefix_of_mask)"
| "make_netmask V6 s = prefix_of_text V6 s"

definition network_of :: "ip_version \<Rightarrow> (string \<Rightarrow> nat option) \<Rightarrow> string \<Rightarrow> string option \<Rightarrow> ip_network option" where
  "network_of v parse addr msk = (case parse addr of None \<Rightarrow> None
   | Some n \<Rightarrow> (case (case msk of None \<Rightarrow> Some (width v) | Some m \<Rightarrow> make_netmask v m) of None \<Rightarrow> None
      | Some p \<Rightarrow> Some (v, n div 2 ^ (width v - p) * 2 ^ (width v - p), p)))"

definition ip_network :: "string \<Rightarrow> ip_network option" where
  "ip_network s =
     (let read = (\<lambda>addr msk. case network_of V4 parse_v4 addr msk of Some n \<Rightarrow> Some n
                              | None \<Rightarrow> network_of V6 parse_v6 addr msk) in
      case split_at (\<lambda>c. c = CHR ''/'') s of
        [addr] \<Rightarrow> read addr None | [addr, msk] \<Rightarrow> read addr (Some msk) | _ \<Rightarrow> None)"

definition in_network :: "ip_address \<Rightarrow> ip_network \<Rightarrow> bool" where
  "in_network a n = (case (a, n) of ((v, ip), (w, net, p)) \<Rightarrow>
     v = w \<and> ip div 2 ^ (width v - p) * 2 ^ (width v - p) = net)"

definition is_loopback :: "ip_address \<Rightarrow> bool" where
  "is_loopback a = (case a of (V4, n) \<Rightarrow> n div 2 ^ 24 = 127 | (V6, n) \<Rightarrow> n = 1)"

definition is_link_local :: "ip_address \<Rightarrow> bool" where
  "is_link_local a = (case a of (V4, n) \<Rightarrow> n div 2 ^ 16 = 169 * 256 + 254 | (V6, n) \<Rightarrow> n div 2 ^ 118 = 1018)"


section \<open>Facts\<close>

lemma show_nat_digit: "a < 10 \<Longrightarrow> show_nat a = [char_of (48 + a)]"
  by (simp add: show_nat.simps)

lemma show_nat_step: "10 \<le> a \<Longrightarrow> show_nat a = show_nat (a div 10) @ [char_of (48 + a mod 10)]"
  by (subst show_nat.simps) simp

lemma digit_char_zero: "a < 10 \<Longrightarrow> char_of (48 + a) = CHR ''0'' \<longleftrightarrow> a = (0 :: nat)"
proof -
  assume "a < 10"
  then have "cp (char_of (48 + a)) = 48 + a" by simp
  moreover have "cp CHR ''0'' = 48" by simp
  ultimately show ?thesis by (metis add_cancel_right_right char_of_char)
qed

text \<open>A number has no leading zero, and one below 1000 has at most three digits.\<close>

lemma show_nat_hd: "0 < a \<Longrightarrow> hd (show_nat a) \<noteq> CHR ''0''"
proof (induction a rule: show_nat.induct)
  case (1 a)
  then show ?case
    by (cases "a < 10") (simp_all add: show_nat_digit show_nat_step digit_char_zero)
qed

lemma show_nat_length: "a < 1000 \<Longrightarrow> length (show_nat a) \<le> 3"
  by (cases "a < 10"; cases "a < 100") (simp_all add: show_nat_digit show_nat_step)

lemma parse_octet_show: "a < 256 \<Longrightarrow> parse_octet (show_nat a) = Some a"
proof (cases "a = 0")
  case True
  have "parse_octet (show_nat 0) = Some 0" by code_simp
  with True show ?thesis by simp
next
  case False
  assume "a < 256"
  with False show ?thesis
    using show_nat_digits[of a] show_nat_length[of a] show_nat_hd[of a]
    by (auto simp: parse_octet_def list_all_iff Let_def int_of_show_nat)
qed

text \<open>Reading a dotted quad gives the octets it was written from.\<close>

lemma parse_v4_dotted:
  assumes "a < 256" "b < 256" "c < 256" "d < 256"
  shows "parse_v4 (join ''.'' [show_nat a, show_nat b, show_nat c, show_nat d]) =
    Some (((a * 256 + b) * 256 + c) * 256 + d)"
proof -
  have "\<forall>w \<in> set [show_nat a, show_nat b, show_nat c, show_nat d]. \<forall>x \<in> set w. \<not> x = CHR ''.''"
    using show_nat_digits by (fastforce simp: is_digit_def Let_def)
  then have "split_at (\<lambda>x. x = CHR ''.'') (join ''.'' [show_nat a, show_nat b, show_nat c, show_nat d]) =
    [show_nat a, show_nat b, show_nat c, show_nat d]"
    by (rule split_join) simp_all
  then show ?thesis using assms by (simp add: parse_v4_def parse_octet_show)
qed

text \<open>The definitions that reading a literal address or network unfolds.\<close>

lemmas read_simps = ip_network_def network_of_def parse_v4_def parse_octet_def prefix_of_text_def int_of_digits_def
  is_digit_def Let_def

lemma parse_v4_bound: "parse_v4 s = Some n \<Longrightarrow> n < 2 ^ 32"
proof -
  have octet: "parse_octet w = Some k \<Longrightarrow> k < 256" for w k
    by (auto simp: parse_octet_def Let_def split: if_splits)
  assume "parse_v4 s = Some n"
  then obtain a b c d where "map parse_octet (split_at (\<lambda>c. c = CHR ''.'') s) = [Some a, Some b, Some c, Some d]"
    and n: "n = ((a * 256 + b) * 256 + c) * 256 + d"
    unfolding parse_v4_def by (auto split: list.splits option.splits)
  then have "a < 256" "b < 256" "c < 256" "d < 256" using octet by auto
  then show ?thesis unfolding n by simp
qed

end
