(* ===== verification/Iocs.thy ===== *)
theory Iocs
  imports Domain Ip_Address
begin

text \<open>
  Indicator extraction (\<^verbatim>\<open>tools/iocs.py\<close>). Shown: exactly which IPv4 addresses are internal to the estate, what one
  indicator records of its sightings, and that only external indicators of the permitted kinds are ever submitted to
  a third party.
\<close>

section \<open>Definitions\<close>

fun entity_to_ioc :: "entity_type \<Rightarrow> ioc_type option" where
  "entity_to_ioc En_Ip = Some Ioc_Ip"
| "entity_to_ioc En_Domain = Some Ioc_Domain"
| "entity_to_ioc En_Url = Some Ioc_Url"
| "entity_to_ioc En_File_Hash = Some Ioc_File_Hash"
| "entity_to_ioc En_File_Path = Some Ioc_File_Path"
| "entity_to_ioc En_Process = Some Ioc_Process"
| "entity_to_ioc _ = None"

definition ENRICHABLE_TYPES :: "ioc_type list" where
  "ENRICHABLE_TYPES = [Ioc_Ip, Ioc_Domain, Ioc_Url, Ioc_File_Hash]"

definition internal_suffixes :: "string list" where
  "internal_suffixes = [''.local'', ''.internal'', ''.lan'', ''.corp'', ''.home.arpa'']"

definition private_cidrs :: "string list" where
  "private_cidrs = [''10.0.0.0/8'', ''172.16.0.0/12'', ''192.168.0.0/16'', ''100.64.0.0/10'', ''fc00::/7'']"

definition private_networks :: "ip_network list" where
  "private_networks = map (\<lambda>s. the (ip_network s)) private_cidrs"

text \<open>\<^verbatim>\<open>str.replace\<close>: every non-overlapping occurrence, from the left (the old text is not empty).\<close>

function py_replace :: "string \<Rightarrow> string \<Rightarrow> string \<Rightarrow> string" where
  "py_replace old new s =
     (if s = [] \<or> old = [] then s
      else if prefix old s then new @ py_replace old new (drop (length old) s)
      else hd s # py_replace old new (tl s))"
  by pat_completeness auto
termination by (relation "measure (\<lambda>(_, _, s). length s)") (auto simp: length_greater_0_conv[symmetric] simp del: length_greater_0_conv)

declare py_replace.simps [simp del]

definition defang_ioc :: "string \<Rightarrow> string" where
  "defang_ioc v = py_replace ''@'' ''[at]'' (py_replace ''.'' ''[.]'' (py_replace ''ftp://'' ''fxp://''
     (py_replace ''https://'' ''hxxps://'' (py_replace ''http://'' ''hxxp://'' v))))"

definition parse_networks :: "string list \<Rightarrow> ip_network list" where
  "parse_networks cidrs = List.map_filter ip_network cidrs"

definition is_internal_address :: "string \<Rightarrow> string list \<Rightarrow> bool" where
  "is_internal_address v internal_networks =
     (if list_ex (\<lambda>e. suffix e (lower v)) internal_suffixes then True
      else case ip_address v of None \<Rightarrow> False
      | Some a \<Rightarrow> is_loopback a \<or> is_link_local a \<or>
          list_ex (in_network a) (private_networks @ parse_networks internal_networks))"

definition is_internal_ioc :: "ioc_type \<Rightarrow> string \<Rightarrow> string list \<Rightarrow> bool" where
  "is_internal_ioc ty v internal_networks = (ty \<in> {Ioc_Ip, Ioc_Domain} \<and> is_internal_address v internal_networks)"

definition append_unique :: "string list \<Rightarrow> string \<Rightarrow> string list" where
  "append_unique vs v = (if v \<in> set vs then vs else vs @ [v])"

definition earliest :: "time option \<Rightarrow> time option \<Rightarrow> time option" where
  "earliest a b = (case (a, b) of (Some x, Some y) \<Rightarrow> Some (min x y) | (Some x, None) \<Rightarrow> Some x | (None, _) \<Rightarrow> b)"

definition latest :: "time option \<Rightarrow> time option \<Rightarrow> time option" where
  "latest a b = (case (a, b) of (Some x, Some y) \<Rightarrow> Some (max x y) | (Some x, None) \<Rightarrow> Some x | (None, _) \<Rightarrow> b)"

type_synonym ioc_key = "ioc_type \<times> string"

definition new_ioc :: "string list \<Rightarrow> ioc_type \<Rightarrow> entity \<Rightarrow> normalized_event \<Rightarrow> ioc_indicator" where
  "new_ioc internal_networks ty x e =
     \<lparr>ioc_kind = ty, ioc_value = en_value x, ioc_defanged = defang_ioc (en_value x), ioc_event_ids = [event_id e],
      first_seen = Some (event_time e), last_seen = Some (event_time e), observation_count = 1,
      ioc_internal = is_internal_ioc ty (en_value x) internal_networks, reputation = Rep_Unknown,
      reputation_source = None, reputation_detail = None, enriched = False\<rparr>"

definition seen_again :: "normalized_event \<Rightarrow> ioc_indicator \<Rightarrow> ioc_indicator" where
  "seen_again e i = i\<lparr>ioc_event_ids := append_unique (ioc_event_ids i) (event_id e),
     first_seen := earliest (first_seen i) (Some (event_time e)),
     last_seen := latest (last_seen i) (Some (event_time e)), observation_count := observation_count i + 1\<rparr>"

definition collect_ioc ::
  "string list \<Rightarrow> normalized_event \<times> entity \<Rightarrow> (ioc_key, ioc_indicator) dict \<Rightarrow> (ioc_key, ioc_indicator) dict" where
  "collect_ioc internal_networks ex d = (case ex of (e, x) \<Rightarrow>
     (case entity_to_ioc (en_type x) of None \<Rightarrow> d
      | Some ty \<Rightarrow> let key = (ty, lower (en_value x)) in
          dict_set key (case map_of d key of None \<Rightarrow> new_ioc internal_networks ty x e | Some i \<Rightarrow> seen_again e i) d))"

definition sightings :: "normalized_event list \<Rightarrow> (normalized_event \<times> entity) list" where
  "sightings events = [(e, x). e \<leftarrow> events, x \<leftarrow> entities e]"

definition extract_iocs :: "string list \<Rightarrow> normalized_event list \<Rightarrow> ioc_indicator list" where
  "extract_iocs internal_networks events =
     sort_key (\<lambda>i. (- int (observation_count i), ioc_type_value (ioc_kind i), lower (ioc_value i)))
       (map snd (fold (collect_ioc internal_networks) (sightings events) []))"

definition enrichable :: "ioc_indicator list \<Rightarrow> ioc_indicator list" where
  "enrichable iocs = filter (\<lambda>i. ioc_kind i \<in> set ENRICHABLE_TYPES \<and> \<not> ioc_internal i) iocs"


section \<open>Which addresses are internal\<close>

lemma private_v4:
  "ip_network ''10.0.0.0/8'' = Some (V4, 10 * 2 ^ 24, 8)"
  "ip_network ''172.16.0.0/12'' = Some (V4, 2753 * 2 ^ 20, 12)"
  "ip_network ''192.168.0.0/16'' = Some (V4, 49320 * 2 ^ 16, 16)"
  "ip_network ''100.64.0.0/10'' = Some (V4, 401 * 2 ^ 22, 10)"
  by (simp_all add: read_simps)

lemma private_v6: "ip_network ''fc00::/7'' = Some (V6, 64512 * 2 ^ 112, 7)"
  by (simp add: read_simps parse_v6_def parse_v6_digits_def v6_parts_def v6_layout_def parse_hextet_def hex_value_def
      shift_in_def upt_rec)

lemma private_networks_eval:
  "private_networks = [(V4, 10 * 2 ^ 24, 8), (V4, 2753 * 2 ^ 20, 12), (V4, 49320 * 2 ^ 16, 16),
     (V4, 401 * 2 ^ 22, 10), (V6, 64512 * 2 ^ 112, 7)]"
  unfolding private_networks_def private_cidrs_def by (simp only: list.map private_v4 private_v6 option.sel)

lemma v4_in_network:
  "in_network (V4, n) (V4, m * 2 ^ 24, 8) \<longleftrightarrow> n div 2 ^ 24 = m"
  "in_network (V4, n) (V4, m * 2 ^ 20, 12) \<longleftrightarrow> n div 2 ^ 20 = m"
  "in_network (V4, n) (V4, m * 2 ^ 16, 16) \<longleftrightarrow> n div 2 ^ 16 = m"
  "in_network (V4, n) (V4, m * 2 ^ 22, 10) \<longleftrightarrow> n div 2 ^ 22 = m"
  by (simp_all add: in_network_def)

lemma not_named_internal:
  assumes "s \<noteq> []" "is_digit (last s)"
  shows "\<not> list_ex (\<lambda>e. suffix e (lower s)) internal_suffixes"
proof -
  have "lower_char (last s) = last s" using assms(2) by (simp add: lower_char_def is_digit_def Let_def)
  then have "last (lower s) = last s" using assms(1) by (simp add: lower_def last_map)
  then have "is_digit (last (lower s))" using assms(2) by simp
  moreover have "suffix e (lower s) \<Longrightarrow> e \<noteq> [] \<Longrightarrow> last (lower s) = last e" for e
    by (auto simp: suffix_def)
  ultimately show ?thesis by (auto simp: internal_suffixes_def is_digit_def)
qed

lemma dotted_last:
  "join ''.'' [show_nat a, show_nat b, show_nat c, show_nat d] \<noteq> []"
  "is_digit (last (join ''.'' [show_nat a, show_nat b, show_nat c, show_nat d]))"
proof -
  have "last (show_nat d) \<in> set (show_nat d)" by simp
  then have "is_digit (last (show_nat d))" using show_nat_digits by blast
  then show "is_digit (last (join ''.'' [show_nat a, show_nat b, show_nat c, show_nat d]))" by simp
qed simp

lemma dotted_ip_address:
  assumes "a < 256" "b < 256" "c < 256" "d < 256"
  shows "ip_address (join ''.'' [show_nat a, show_nat b, show_nat c, show_nat d]) =
    Some (V4, ((a * 256 + b) * 256 + c) * 256 + d)"
proof -
  have "CHR ''/'' \<notin> set (show_nat n)" for n using show_nat_digits by (fastforce simp: is_digit_def Let_def)
  then have "CHR ''/'' \<notin> set (join ''.'' [show_nat a, show_nat b, show_nat c, show_nat d])" by simp
  then show ?thesis by (simp only: ip_address_def parse_v4_dotted[OF assms] option.case if_False)
qed

text \<open>For a dotted IPv4 address, internal means exactly the loopback, link-local, RFC 1918 and carrier-grade NAT
  ranges, plus the networks the deployment names; the documentation ranges, for example, stay external.\<close>

theorem internal_v4_exact:
  assumes "a < 256" "b < 256" "c < 256" "d < 256"
  shows "is_internal_address (join ''.'' [show_nat a, show_nat b, show_nat c, show_nat d]) nets \<longleftrightarrow>
    a = 127 \<or> a = 169 \<and> b = 254 \<or> a = 10 \<or> a = 172 \<and> 16 \<le> b \<and> b < 32 \<or> a = 192 \<and> b = 168 \<or>
    a = 100 \<and> 64 \<le> b \<and> b < 128 \<or>
    list_ex (in_network (V4, ((a * 256 + b) * 256 + c) * 256 + d)) (parse_networks nets)"
proof -
  let ?n = "((a * 256 + b) * 256 + c) * 256 + d"
  have d: "?n div 2 ^ 24 = a" "?n div 2 ^ 16 = a * 256 + b" "?n div 2 ^ 20 = a * 16 + b div 16"
    "?n div 2 ^ 22 = a * 4 + b div 64" using assms by simp_all
  have pair: "x * k + y = x' * k + y' \<longleftrightarrow> x = x' \<and> y = y'" if "y < k" "y' < k" for x y x' y' k :: nat
    using that by (metis add.commute add_left_cancel div_mult_self3 div_less add_0 mult.commute less_nat_zero_code)
  have digit: "b div k = 1 \<longleftrightarrow> k \<le> b \<and> b < 2 * k" if "0 < k" for k
    using that by (metis One_nat_def Suc_1 div_nat_eqI div_times_less_eq_dividend dividend_less_times_div mult.commute mult.right_neutral mult_Suc mult_Suc_right nat_mult_1)
  have "is_loopback (V4, ?n) \<longleftrightarrow> a = 127" "is_link_local (V4, ?n) \<longleftrightarrow> a = 169 \<and> b = 254"
    unfolding is_loopback_def is_link_local_def prod.case ip_version.case d using assms(2) pair[of b 256 254 a 169] by simp_all
  moreover have "in_network (V4, ?n) (V4, 10 * 2 ^ 24, 8) \<longleftrightarrow> a = 10"
    "in_network (V4, ?n) (V4, 49320 * 2 ^ 16, 16) \<longleftrightarrow> a * 256 + b = 192 * 256 + 168"
    "in_network (V4, ?n) (V4, 2753 * 2 ^ 20, 12) \<longleftrightarrow> a * 16 + b div 16 = 2753"
    "in_network (V4, ?n) (V4, 401 * 2 ^ 22, 10) \<longleftrightarrow> a * 4 + b div 64 = 401"
    unfolding v4_in_network d by simp_all
  moreover have "a * 16 + b div 16 = 2753 \<longleftrightarrow> a = 172 \<and> 16 \<le> b \<and> b < 32"
    using assms(2) pair[of "b div 16" 16 1 a 172] digit[of 16] by simp
  moreover have "a * 4 + b div 64 = 401 \<longleftrightarrow> a = 100 \<and> 64 \<le> b \<and> b < 128"
    using assms(2) pair[of "b div 64" 4 1 a 100] digit[of 64] by simp
  moreover have "\<not> in_network (V4, ?n) (V6, 64512 * 2 ^ 112, 7)" by (simp add: in_network_def)
  moreover have "a * 256 + b = 192 * 256 + 168 \<longleftrightarrow> a = 192 \<and> b = 168" using assms(2) pair[of b 256 168 a 192] by simp
  ultimately show ?thesis
    unfolding is_internal_address_def dotted_ip_address[OF assms] private_networks_eval if_not_P[OF not_named_internal[OF dotted_last]]
    by (simp only: option.case list_ex_iff set_append list.set bex_Un bex_simps) blast
qed

theorem internal_v4_exact_witness:
  "is_internal_address ''172.20.1.9'' [] \<and> \<not> is_internal_address ''203.0.113.7'' []"
proof -
  have "join ''.'' [show_nat 172, show_nat 20, show_nat 1, show_nat 9] = ''172.20.1.9''"
    "join ''.'' [show_nat 203, show_nat 0, show_nat 113, show_nat 7] = ''203.0.113.7''" by code_simp+
  then show ?thesis using internal_v4_exact[of 172 20 1 9 "[]"] internal_v4_exact[of 203 0 113 7 "[]"]
    by (simp add: parse_networks_def List.map_filter_def)
qed


section \<open>What an indicator records\<close>

text \<open>The key a sighting falls under, and the sightings of one key.\<close>

definition key_of :: "entity \<Rightarrow> ioc_key option" where
  "key_of x = map_option (\<lambda>ty. (ty, lower (en_value x))) (entity_to_ioc (en_type x))"

definition hits :: "ioc_key \<Rightarrow> (normalized_event \<times> entity) list \<Rightarrow> (normalized_event \<times> entity) list" where
  "hits k xs = filter (\<lambda>(e, x). key_of x = Some k) xs"

text \<open>
  The indicator of one key, read off its sightings alone: the spelling of the first one, each event once in the order first seen, the
  earliest and the latest time, and how many sightings there are. Nothing is asserted about its reputation.
\<close>

definition summary :: "string list \<Rightarrow> ioc_type \<Rightarrow> (normalized_event \<times> entity) list \<Rightarrow> ioc_indicator option" where
  "summary nets ty xs = (case xs of [] \<Rightarrow> None
     | (e, x) # _ \<Rightarrow> Some \<lparr>ioc_kind = ty, ioc_value = en_value x, ioc_defanged = defang_ioc (en_value x),
         ioc_event_ids = rev (remdups (rev (map (\<lambda>(e, _). event_id e) xs))),
         first_seen = Some (Min (set (map (\<lambda>(e, _). event_time e) xs))), last_seen = Some (Max (set (map (\<lambda>(e, _). event_time e) xs))),
         observation_count = length xs, ioc_internal = ((ty = Ioc_Ip \<or> ty = Ioc_Domain) \<and> is_internal_address (en_value x) nets),
         reputation = Rep_Unknown, reputation_source = None, reputation_detail = None, enriched = False\<rparr>)"

lemma summary_one: "summary nets ty [(e, x)] = Some (new_ioc nets ty x e)"
  by (simp add: summary_def new_ioc_def is_internal_ioc_def)

lemma summary_more:
  assumes "summary nets ty xs = Some i"
  shows "summary nets ty (xs @ [(e, x)]) = Some (seen_again e i)"
proof -
  obtain a y r where xs: "xs = (a, y) # r" using assms by (cases xs) (auto simp: summary_def)
  have ids: "rev (remdups (rev (map f (zs @ [z])))) = append_unique (rev (remdups (rev (map f zs)))) (f z)" for f :: "normalized_event \<times> entity \<Rightarrow> string" and zs z
    by (simp add: append_unique_def)
  have ends: "Min (set (map f (zs @ [z]))) = min (Min (set (map f zs))) (f z)" "Max (set (map f (zs @ [z]))) = max (Max (set (map f zs))) (f z)"
    if "zs \<noteq> []" for f :: "normalized_event \<times> entity \<Rightarrow> time" and zs z
    using that by (simp_all add: min.commute max.commute)
  have i: "i = \<lparr>ioc_kind = ty, ioc_value = en_value y, ioc_defanged = defang_ioc (en_value y),
         ioc_event_ids = rev (remdups (rev (map (\<lambda>(e, _). event_id e) xs))),
         first_seen = Some (Min (set (map (\<lambda>(e, _). event_time e) xs))), last_seen = Some (Max (set (map (\<lambda>(e, _). event_time e) xs))),
         observation_count = length xs, ioc_internal = ((ty = Ioc_Ip \<or> ty = Ioc_Domain) \<and> is_internal_address (en_value y) nets),
         reputation = Rep_Unknown, reputation_source = None, reputation_detail = None, enriched = False\<rparr>"
    using assms unfolding summary_def xs by simp
  have "xs \<noteq> []" by (simp add: xs)
  have "summary nets ty (xs @ [(e, x)]) = Some \<lparr>ioc_kind = ty, ioc_value = en_value y, ioc_defanged = defang_ioc (en_value y),
         ioc_event_ids = rev (remdups (rev (map (\<lambda>(e, _). event_id e) (xs @ [(e, x)])))),
         first_seen = Some (Min (set (map (\<lambda>(e, _). event_time e) (xs @ [(e, x)])))), last_seen = Some (Max (set (map (\<lambda>(e, _). event_time e) (xs @ [(e, x)])))),
         observation_count = length (xs @ [(e, x)]), ioc_internal = ((ty = Ioc_Ip \<or> ty = Ioc_Domain) \<and> is_internal_address (en_value y) nets),
         reputation = Rep_Unknown, reputation_source = None, reputation_detail = None, enriched = False\<rparr>"
    by (simp add: summary_def xs)
  also have "\<dots> = Some (seen_again e i)"
    unfolding ids ends[OF \<open>xs \<noteq> []\<close>] i by (simp add: seen_again_def earliest_def latest_def)
  finally show ?thesis .
qed

lemma summary_snoc:
  "summary nets ty (xs @ [(e, x)]) =
     Some (case summary nets ty xs of None \<Rightarrow> new_ioc nets ty x e | Some i \<Rightarrow> seen_again e i)"
proof (cases "summary nets ty xs")
  case None
  then have "xs = []" by (auto simp: summary_def split: list.splits)
  then show ?thesis using None summary_one by simp
next
  case (Some i)
  then show ?thesis using summary_more by simp
qed

lemma hits_snoc: "hits k (xs @ [(e, x)]) = hits k xs @ (if key_of x = Some k then [(e, x)] else [])"
  by (simp add: hits_def)

lemma collect_lookup:
  "distinct (map fst (fold (collect_ioc nets) xs [])) \<and>
   map_of (fold (collect_ioc nets) xs []) k = summary nets (fst k) (hits k xs)"
proof (induction xs arbitrary: k rule: rev_induct)
  case Nil
  show ?case by (simp add: hits_def summary_def)
next
  case (snoc ex xs)
  obtain e x where ex: "ex = (e, x)" by (cases ex)
  note IH = snoc.IH
  show ?case
  proof (cases "entity_to_ioc (en_type x)")
    case None
    then show ?thesis using IH[of k] by (simp add: ex hits_snoc key_of_def collect_ioc_def)
  next
    case (Some ty)
    let ?d = "fold (collect_ioc nets) xs []" and ?key = "(ty, lower (en_value x))"
    have step: "fold (collect_ioc nets) (xs @ [ex]) [] = dict_set ?key
        (case map_of ?d ?key of None \<Rightarrow> new_ioc nets ty x e | Some i \<Rightarrow> seen_again e i) ?d"
      by (simp add: ex collect_ioc_def Some Let_def)
    have hk: "hits k (xs @ [ex]) = hits k xs @ (if k = ?key then [(e, x)] else [])"
      by (simp add: ex hits_snoc key_of_def Some eq_commute)
    show ?thesis
      unfolding step dict_set_lookup hk using IH[of k] IH[of ?key]
      by (auto simp: dict_set_distinct summary_snoc)
  qed
qed

lemma summary_facts:
  assumes "summary nets (fst k) (hits k xs) = Some i"
  shows "hits k xs \<noteq> []" "(ioc_kind i, lower (ioc_value i)) = k" "observation_count i = length (hits k xs)"
    "distinct (ioc_event_ids i)" "set (ioc_event_ids i) = (event_id \<circ> fst) ` set (hits k xs)"
    "first_seen i = Some (Min ((event_time \<circ> fst) ` set (hits k xs)))"
    "last_seen i = Some (Max ((event_time \<circ> fst) ` set (hits k xs)))"
    "ioc_defanged i = defang_ioc (ioc_value i)" "ioc_internal i = is_internal_ioc (ioc_kind i) (ioc_value i) nets"
    "\<not> enriched i" "reputation i = Rep_Unknown"
proof -
  let ?xs = "hits k xs"
  obtain e x r where h: "?xs = (e, x) # r" using assms by (cases ?xs) (auto simp: summary_def)
  then have "(e, x) \<in> set ?xs" by simp
  then have k: "lower (en_value x) = snd k" by (auto simp: hits_def key_of_def)
  have eqs: "(\<lambda>(e, _). event_id e) = event_id \<circ> fst" "(\<lambda>(e, _). event_time e) = event_time \<circ> fst" by auto
  have i: "i = \<lparr>ioc_kind = fst k, ioc_value = en_value x, ioc_defanged = defang_ioc (en_value x),
         ioc_event_ids = rev (remdups (rev (map (event_id \<circ> fst) ?xs))),
         first_seen = Some (Min ((event_time \<circ> fst) ` set ?xs)), last_seen = Some (Max ((event_time \<circ> fst) ` set ?xs)),
         observation_count = length ?xs, ioc_internal = ((fst k = Ioc_Ip \<or> fst k = Ioc_Domain) \<and> is_internal_address (en_value x) nets),
         reputation = Rep_Unknown, reputation_source = None, reputation_detail = None, enriched = False\<rparr>"
    using assms unfolding summary_def h eqs by simp
  have ids: "set (rev (remdups (rev ys))) = set ys" "distinct (rev (remdups (rev ys)))" for ys :: "string list" by simp_all
  show "?xs \<noteq> []" using h by simp
  show "(ioc_kind i, lower (ioc_value i)) = k" using k by (simp add: i prod_eq_iff)
  show "observation_count i = length ?xs" "first_seen i = Some (Min ((event_time \<circ> fst) ` set ?xs))"
    "last_seen i = Some (Max ((event_time \<circ> fst) ` set ?xs))" "ioc_defanged i = defang_ioc (ioc_value i)" "\<not> enriched i" "reputation i = Rep_Unknown"
    unfolding i by simp_all
  show "distinct (ioc_event_ids i)" using ids(2) by (simp add: i)
  show "set (ioc_event_ids i) = (event_id \<circ> fst) ` set ?xs" unfolding i by (simp add: ids(1))
  show "ioc_internal i = is_internal_ioc (ioc_kind i) (ioc_value i) nets" by (simp add: i is_internal_ioc_def)
qed

lemma option_ext: "(\<And>i. x = Some i \<longleftrightarrow> y = Some i) \<Longrightarrow> x = y"
  by (cases x; cases y) auto

abbreviation ioc_key_of :: "ioc_indicator \<Rightarrow> ioc_key" where
  "ioc_key_of i \<equiv> (ioc_kind i, lower (ioc_value i))"

lemma extract_iff: "i \<in> set (extract_iocs nets events) \<longleftrightarrow> (\<exists>k. summary nets (fst k) (hits k (sightings events)) = Some i)"
proof -
  let ?d = "fold (collect_ioc nets) (sightings events) []"
  have d: "distinct (map fst ?d)" using collect_lookup by blast
  have "i \<in> set (extract_iocs nets events) \<longleftrightarrow> i \<in> snd ` set ?d" unfolding extract_iocs_def by simp
  also have "\<dots> \<longleftrightarrow> (\<exists>k. (k, i) \<in> set ?d)" by (metis (no_types) image_iff prod.collapse snd_conv)
  also have "\<dots> \<longleftrightarrow> (\<exists>k. map_of ?d k = Some i)" using map_of_eq_Some_iff[OF d] by simp
  finally show ?thesis using collect_lookup by simp
qed

lemma extracted_from:
  assumes "i \<in> set (extract_iocs nets events)"
  shows "\<exists>e \<in> set events. \<exists>x \<in> set (entities e). en_value x = ioc_value i \<and> entity_to_ioc (en_type x) = Some (ioc_kind i)"
proof -
  obtain k where k: "summary nets (fst k) (hits k (sightings events)) = Some i" using assms extract_iff by blast
  then obtain e x r where h: "hits k (sightings events) = (e, x) # r" by (cases "hits k (sightings events)") (auto simp: summary_def)
  then have "(e, x) \<in> set (hits k (sightings events))" by simp
  then have "e \<in> set events" "x \<in> set (entities e)" "entity_to_ioc (en_type x) = Some (fst k)"
    by (auto simp: hits_def sightings_def key_of_def)
  moreover have "ioc_value i = en_value x" "ioc_kind i = fst k" using k unfolding h summary_def by auto
  ultimately show ?thesis by auto
qed

lemma extract_distinct: "distinct (map ioc_key_of (extract_iocs nets events))"
proof -
  let ?d = "fold (collect_ioc nets) (sightings events) []"
  have d: "distinct (map fst ?d)" using collect_lookup by blast
  have "ioc_key_of i = k" if "(k, i) \<in> set ?d" for k i
    using that map_of_eq_Some_iff[OF d] collect_lookup summary_facts(2) by metis
  then have eq: "map ioc_key_of (map snd ?d) = map fst ?d" by (auto simp: map_eq_conv)
  have "distinct (map ioc_key_of (map snd ?d))" unfolding eq by (rule d)
  then show ?thesis unfolding extract_iocs_def by (simp only: distinct_map set_sort distinct_sort)
qed


section \<open>Properties\<close>

text \<open>C19: Extraction implements its specification: looking a key up among the extracted indicators gives the summary
  of exactly the sightings of that key (none when there is none), that is its first spelling, each of its events once in the order first
  seen, the first and the last time and the number of sightings; no key has two indicators; and the most observed come first, then by
  type and value.\<close>

theorem extract_iocs_refines:
  "map_of (map (\<lambda>i. (ioc_key_of i, i)) (extract_iocs nets events)) k =
     summary nets (fst k) (hits k (sightings events)) \<and>
   distinct (map ioc_key_of (extract_iocs nets events)) \<and>
   sorted (map (\<lambda>i. (- int (observation_count i), ioc_type_value (ioc_kind i), lower (ioc_value i))) (extract_iocs nets events))"
proof -
  let ?m = "map (\<lambda>i. (ioc_key_of i, i)) (extract_iocs nets events)"
  have fst: "map fst ?m = map ioc_key_of (extract_iocs nets events)" by simp
  have d: "distinct (map fst ?m)" unfolding fst by (rule extract_distinct)
  have "map_of ?m k = Some i \<longleftrightarrow> summary nets (fst k) (hits k (sightings events)) = Some i" for i
  proof -
    have "map_of ?m k = Some i \<longleftrightarrow> i \<in> set (extract_iocs nets events) \<and> ioc_key_of i = k"
      unfolding map_of_eq_Some_iff[OF d] by auto
    moreover have "i \<in> set (extract_iocs nets events) \<and> ioc_key_of i = k" if "summary nets (fst k) (hits k (sightings events)) = Some i"
      using that extract_iff summary_facts(2)[OF that] by blast
    moreover have "summary nets (fst k) (hits k (sightings events)) = Some i" if "i \<in> set (extract_iocs nets events)" "ioc_key_of i = k"
    proof -
      from that(1) have "\<exists>k'. summary nets (fst k') (hits k' (sightings events)) = Some i" unfolding extract_iff .
      then show ?thesis using summary_facts(2) that(2) by blast
    qed
    ultimately show ?thesis by blast
  qed
  then have "map_of ?m k = summary nets (fst k) (hits k (sightings events))" by (rule option_ext)
  moreover have "sorted (map (\<lambda>i. (- int (observation_count i), ioc_type_value (ioc_kind i), lower (ioc_value i))) (extract_iocs nets events))"
    unfolding extract_iocs_def by (rule sorted_sort_key)
  ultimately show ?thesis using extract_distinct by blast
qed

text \<open>An extracted indicator reports its own sightings: how often its value (in any letter case) was observed, in
  which events, from the first to the last of their times; and it is never marked as enriched or given a
  reputation.\<close>

theorem indicator_reports_sightings:
  assumes "i \<in> set (extract_iocs nets events)"
  shows "let h = hits (ioc_key_of i) (sightings events) in
    h \<noteq> [] \<and> observation_count i = length h \<and> distinct (ioc_event_ids i) \<and>
    set (ioc_event_ids i) = (event_id \<circ> fst) ` set h \<and> first_seen i = Some (Min ((event_time \<circ> fst) ` set h)) \<and>
    last_seen i = Some (Max ((event_time \<circ> fst) ` set h)) \<and> \<not> enriched i \<and> reputation i = Rep_Unknown"
proof -
  obtain k where k: "summary nets (fst k) (hits k (sightings events)) = Some i" using assms extract_iff by blast
  note f = summary_facts[OF k]
  show ?thesis unfolding f(2) Let_def using f by blast
qed

text \<open>What is submitted to a third party is an address, a domain, a URL or a file hash, never a file path or a
  process name, and an address or domain only when it is not internal to the estate.\<close>

theorem submitted_is_external:
  assumes "i \<in> set (enrichable (extract_iocs nets events))"
  shows "ioc_kind i \<noteq> Ioc_File_Path \<and> ioc_kind i \<noteq> Ioc_Process \<and>
    (ioc_kind i = Ioc_Ip \<or> ioc_kind i = Ioc_Domain \<longrightarrow> \<not> is_internal_address (ioc_value i) nets)"
proof -
  have i: "i \<in> set (extract_iocs nets events)" "ioc_kind i \<in> set ENRICHABLE_TYPES" "\<not> ioc_internal i"
    using assms by (auto simp: enrichable_def)
  obtain k where k: "summary nets (fst k) (hits k (sightings events)) = Some i" using i(1) extract_iff by blast
  show ?thesis using i(2,3) summary_facts(9)[OF k] by (auto simp: ENRICHABLE_TYPES_def is_internal_ioc_def)
qed

text \<open>The internal check looks only at address and domain indicators, and at addresses as they are spelled: every
  URL indicator is submitted, whatever host it names, and an IPv4-mapped spelling of a private address counts as
  external.\<close>

theorem internal_host_escapes:
  "filter (\<lambda>i. ioc_kind i = Ioc_Url) (enrichable (extract_iocs nets events)) =
     filter (\<lambda>i. ioc_kind i = Ioc_Url) (extract_iocs nets events) \<and>
   is_internal_address ''10.0.0.5'' [] \<and> \<not> is_internal_address ''::ffff:10.0.0.5'' []"
proof -
  have "\<not> ioc_internal i" if url: "i \<in> set (extract_iocs nets events)" "ioc_kind i = Ioc_Url" for i
  proof -
    obtain k where "summary nets (fst k) (hits k (sightings events)) = Some i" using url(1) extract_iff by blast
    from summary_facts(9)[OF this] url(2) show ?thesis by (simp add: is_internal_ioc_def)
  qed
  then have "filter (\<lambda>i. ioc_kind i = Ioc_Url) (enrichable (extract_iocs nets events)) =
     filter (\<lambda>i. ioc_kind i = Ioc_Url) (extract_iocs nets events)"
    unfolding enrichable_def ENRICHABLE_TYPES_def by (auto intro: filter_cong)
  moreover have "is_internal_address ''10.0.0.5'' []"
    by (simp add: is_internal_address_def not_named_internal is_digit_def ip_address_def read_simps private_networks_eval in_network_def)
  moreover have "ip_address ''::ffff:10.0.0.5'' = Some (V6, 65535 * 2 ^ 32 + 167772165)"
    by (simp add: ip_address_def read_simps parse_v6_def parse_v6_digits_def v6_parts_def v6_layout_def parse_hextet_def
        hex_value_def shift_in_def upt_rec)
  then have "\<not> is_internal_address ''::ffff:10.0.0.5'' []"
    unfolding is_internal_address_def private_networks_eval
    by (simp add: not_named_internal is_digit_def in_network_def is_loopback_def is_link_local_def parse_networks_def List.map_filter_def)
  ultimately show ?thesis by blast
qed



section \<open>Witnesses\<close>

definition sample_entity :: entity where
  "sample_entity = \<lparr>en_type = En_File_Hash, en_value = ''AB''\<rparr>"

definition sample_sighting :: "string \<Rightarrow> time \<Rightarrow> normalized_event" where
  "sample_sighting i tm = \<lparr>event_id = i, record_id = i, source_id = ''s'', ev_source_kind = Kind_File, ev_log_format = Json, event_time = tm, ev_type = Process_Start, host = None,
     actor = None, action = None, outcome = None, message = [], entities = [sample_entity], ev_fields = [],
     raw_ref = None, notability = 0, confidence = 1\<rparr>"

lemma sample_key: "key_of sample_entity = Some (Ioc_File_Hash, lower ''AB'')"
  by (simp add: key_of_def sample_entity_def)

lemma sample_hits: "hits (Ioc_File_Hash, lower ''AB'') (sightings [sample_sighting i a, sample_sighting j b]) =
    [(sample_sighting i a, sample_entity), (sample_sighting j b, sample_entity)]"
  using sample_key by (simp add: hits_def sightings_def sample_sighting_def)

lemma sample_extract:
  "seen_again (sample_sighting j b) (new_ioc [] Ioc_File_Hash sample_entity (sample_sighting i a))
     \<in> set (extract_iocs [] [sample_sighting i a, sample_sighting j b])"
  unfolding extract_iff
  by (rule exI[of _ "(Ioc_File_Hash, lower ''AB'')"]) (use summary_more[OF summary_one] in \<open>simp add: sample_hits\<close>)

theorem indicator_reports_sightings_witness:
  "\<exists>i \<in> set (extract_iocs [] [sample_sighting ''e1'' 5, sample_sighting ''e2'' 3]).
     observation_count i = 2 \<and> first_seen i = Some 3 \<and> last_seen i = Some 5"
proof -
  let ?i = "seen_again (sample_sighting ''e2'' 3) (new_ioc [] Ioc_File_Hash sample_entity (sample_sighting ''e1'' 5))"
  have key: "ioc_key_of ?i = (Ioc_File_Hash, lower ''AB'')" by (simp add: seen_again_def new_ioc_def sample_entity_def)
  have "observation_count ?i = 2 \<and> first_seen ?i = Some 3 \<and> last_seen ?i = Some 5"
    using indicator_reports_sightings[OF sample_extract[of "''e2''" 3 "''e1''" 5]] unfolding key sample_hits Let_def
    by (simp add: sample_sighting_def)
  then show ?thesis using sample_extract by blast
qed

theorem submitted_is_external_witness:
  "\<exists>i \<in> set (enrichable (extract_iocs [] [sample_sighting ''e1'' 5, sample_sighting ''e2'' 3])).
     ioc_kind i \<noteq> Ioc_Process"
proof -
  let ?i = "seen_again (sample_sighting ''e2'' 3) (new_ioc [] Ioc_File_Hash sample_entity (sample_sighting ''e1'' 5))"
  have i: "?i \<in> set (enrichable (extract_iocs [] [sample_sighting ''e1'' 5, sample_sighting ''e2'' 3]))"
    using sample_extract by (simp add: enrichable_def ENRICHABLE_TYPES_def seen_again_def new_ioc_def is_internal_ioc_def)
  show ?thesis using submitted_is_external[OF i] i by blast
qed

end
