(* ===== verification/Detection.thy ===== *)
theory Detection
  imports Correlation Regex Iocs
begin

text \<open>
  The detection rules (\<^verbatim>\<open>tools/detection.py\<close>): the pattern vocabulary as regular expressions, the rule builders, the
  three behavioural detectors and the catalogue. A dash outside Latin-1 in a rule's description is written \<open>--\<close>.
  Shown: the engine gives one signal per match, strongest first; a brute-force or breakthrough signal of the
  catalogue cites exactly the run of authentications that justifies it, and no such attack within one window is missed; and confirmed hostile indicators are
  the only way an external assertion becomes a signal.
\<close>

section \<open>Thresholds and patterns\<close>

definition BRUTE_FORCE_THRESHOLD :: nat where "BRUTE_FORCE_THRESHOLD = 5"
definition BREAKTHROUGH_THRESHOLD :: nat where "BREAKTHROUGH_THRESHOLD = 3"
definition BEACONING_THRESHOLD :: nat where "BEACONING_THRESHOLD = 3"

definition ENCODED_COMMAND :: rx where
  "ENCODED_COMMAND = choice
     [seq [lit ''-enc'', opt (lit ''odedcommand''), Bound], lit ''frombase64string'', seq [lit ''-nop'', Bound],
      seq [lit ''-noprofile'', Bound], seq [lit ''-w'', spaces1, lit ''hidden'', Bound],
      seq [lit ''-windowstyle'', spaces1, lit ''hidden'', Bound], lit ''invoke-expression'',
      seq [Bound, lit ''iex'', spaces, lit ''(''], lit ''downloadstring'']"

definition INTERPRETER :: rx where
  "INTERPRETER = seq [Bound, choice
     [seq [lit ''powershell'', opt (lit ''.exe'')], lit ''pwsh'', lit ''cmd.exe'', lit ''wscript.exe'', lit ''cscript.exe'',
      lit ''bash'', lit ''sh'', seq [lit ''python'', Star (Cls (\<lambda>c. is_digit c \<or> c = CHR ''.''))]], Bound]"

definition PROXY_BINARY :: rx where
  "PROXY_BINARY = seq [Bound, choice (map lit [''certutil'', ''mshta'', ''rundll32'', ''regsvr32'', ''msiexec'', ''bitsadmin'',
      ''wmic'', ''installutil'']), opt (lit ''.exe''), Bound]"

definition TOOL_TRANSFER :: rx where
  "TOOL_TRANSFER = choice
     [seq [Bound, lit ''curl'', Bound], seq [Bound, lit ''wget'', Bound], lit ''invoke-webrequest'', lit ''downloadfile'',
      lit ''-urlcache'', seq [Bound, lit ''scp'', Bound], seq [lit ''bitsadmin'', spaces1, lit ''/transfer'']]"

definition SERVICE_CREATE :: rx where
  "SERVICE_CREATE = choice
     [seq [Bound, lit ''sc'', opt (lit ''.exe''), spaces1, lit ''create'', Bound], lit ''service was installed'',
      lit ''new-service'', seq [lit ''systemctl'', spaces1, lit ''enable''],
      seq [lit ''installed'', spaces1, lit ''a'', spaces1, lit ''service'']]"

definition SCHEDULED_TASK :: rx where
  "SCHEDULED_TASK = choice
     [seq [lit ''schtasks'', opt (lit ''.exe''), spaces, lit ''/create''], lit ''register-scheduledtask'',
      seq [Bound, lit ''crontab'', spaces1, lit ''-e'', Bound], seq [Bound, lit ''at.exe'', Bound],
      seq [lit ''scheduled task '', opt (lit ''was ''), lit ''created'']]"

definition LOG_CLEARED :: rx where
  "LOG_CLEARED = choice
     [lit ''audit log was cleared'', lit ''event log was cleared'', lit ''clear-eventlog'',
      seq [lit ''wevtutil'', spaces1, lit ''cl'', Bound],
      seq [Bound, lit ''log'', opt (lit ''s''), spaces1, lit ''cleared'', Bound],
      seq [lit ''rm'', spaces1, lit ''-r'', opt (lit ''f''), spaces1, lit ''/var/log'']]"

definition DEFENSE_DISABLED :: rx where
  "DEFENSE_DISABLED = choice
     [lit ''disablerealtimemonitoring'', seq [lit ''set-mppreference'', spaces1, lit ''-disable''],
      seq [lit ''defender'', spaces1, opt (seq [lit ''was'', spaces1]), lit ''disabled''],
      seq [lit ''systemctl'', spaces1, lit ''stop'', spaces1, choice (map lit [''auditd'', ''falcon-sensor'', ''osqueryd''])],
      seq [lit ''firewall'', spaces1, opt (seq [lit ''was'', spaces1]), lit ''disabled''],
      seq [lit ''setenforce'', spaces1, lit ''0'']]"

definition ACCOUNT_CREATED :: rx where
  "ACCOUNT_CREATED = choice
     [lit ''user account was created'', seq [lit ''useradd'', Bound], lit ''new-localuser'', seq [lit ''adduser'', Bound],
      seq [lit ''account'', spaces1, lit ''created'']]"

definition ACCOUNT_ELEVATED :: rx where
  "ACCOUNT_ELEVATED = choice
     [seq [lit ''added to '', opt (choice (map lit [''a '', ''an '', ''the ''])), opt (lit ''security-enabled ''),
        opt (choice (map lit [''local '', ''global '', ''universal ''])), lit ''group''],
      seq [lit ''usermod'', spaces1, lit ''-'', opt (lit ''a''), lit ''G'', Bound], lit ''add-localgroupmember'',
      seq [Bound, lit ''sudoers'', Bound], seq [lit ''granted'', spaces1, lit ''admin'']]"

definition REMOTE_SERVICE :: rx where
  "REMOTE_SERVICE = choice
     [seq [Bound, lit ''psexec'', Bound], seq [Bound, lit ''winrm'', Bound], seq [Bound, lit ''rdp'', Bound], lit ''remote desktop'',
      seq [Bound, lit ''port'', spaces, choice (map lit [''3389'', ''5985'', ''5986'']), Bound]]"


section \<open>The engine\<close>

record detection_context =
  dc_events :: "normalized_event list"
  dc_window :: duration
  dc_internal_networks :: "string list"

record rule_match =
  rm_event_ids :: "string list"
  rm_detail :: string

record detection_rule =
  dr_rule_id :: string
  dr_name :: string
  dr_description :: string
  dr_weight :: pyfloat
  dr_technique_ids :: "string list"
  dr_evaluate :: "detection_context \<Rightarrow> rule_match list"

definition signal_of :: "detection_rule \<Rightarrow> rule_match \<Rightarrow> detection_signal" where
  "signal_of r m = \<lparr>rule_id = dr_rule_id r, sig_name = dr_name r, sig_description = dr_description r, weight = dr_weight r,
     sig_event_ids = rm_event_ids m, sig_technique_ids = dr_technique_ids r, sig_detail = rm_detail m\<rparr>"

definition evaluate_rules :: "detection_rule list \<Rightarrow> detection_context \<Rightarrow> detection_signal list" where
  "evaluate_rules rules ctx =
     sort_key (\<lambda>s. (- weight s, rule_id s, sig_detail s)) [signal_of r m. r \<leftarrow> rules, m \<leftarrow> dr_evaluate r ctx]"

definition signal_from_hostile_indicators :: "ioc_indicator list \<Rightarrow> detection_signal option" where
  "signal_from_hostile_indicators iocs =
     (let hostile = filter is_hostile iocs in
      if hostile = [] then None
      else let malicious = filter (\<lambda>i. reputation i = Rep_Malicious) hostile;
               graded = (if malicious = [] then hostile else malicious);
               sources = sorted_set [the (reputation_source i). i \<leftarrow> graded, truthy (reputation_source i)];
               names = join '', '' sources in
        Some \<lparr>rule_id = ''hostile_indicator_confirmed'', sig_name = ''Indicator flagged by threat intelligence'',
          sig_description = ''One or more observed indicators were reported as malicious or suspicious by an external threat-intelligence source.'',
          weight = (if malicious = [] then 6 else 85 / 10),
          sig_event_ids = unique (concat (map ioc_event_ids graded)), sig_technique_ids = [],
          sig_detail = show_nat (length graded) @ '' indicator(s) flagged by ''
            @ (if names = [] then ''threat intelligence'' else names) @ '': '' @ join '', '' (map ioc_defanged (take 5 graded))\<rparr>)"


section \<open>Rule builders\<close>

definition searchable :: "normalized_event \<Rightarrow> string" where
  "searchable e = lower (join '' '' ([message e, or_empty (action e), or_empty (outcome e)] @ map snd (ev_fields e)))"

definition describe :: "normalized_event list \<Rightarrow> string" where
  "describe events =
     (let hosts = sorted_set [the (host e). e \<leftarrow> events, truthy (host e)];
          actors = sorted_set [the (actor e). e \<leftarrow> events, truthy (actor e)] in
      show_nat (length events) @ '' event(s)'' @ (if hosts = [] then [] else '' on '' @ join '', '' hosts)
        @ (if actors = [] then [] else '' by '' @ join '', '' actors))"

definition single_match :: "normalized_event list \<Rightarrow> rule_match list" where
  "single_match events =
     (if events = [] then [] else [\<lparr>rm_event_ids = map event_id events, rm_detail = describe events\<rparr>])"

definition pattern_rule :: "rx \<Rightarrow> event_type list option \<Rightarrow> detection_context \<Rightarrow> rule_match list" where
  "pattern_rule pattern types ctx = single_match (filter (\<lambda>e.
     (case types of None \<Rightarrow> True | Some ts \<Rightarrow> ev_type e \<in> set ts) \<and> search pattern (searchable e)) (dc_events ctx))"

definition type_rule :: "event_type list \<Rightarrow> detection_context \<Rightarrow> rule_match list" where
  "type_rule types ctx = single_match (filter (\<lambda>e. ev_type e \<in> set types) (dc_events ctx))"

definition principal :: "normalized_event \<Rightarrow> string option" where
  "principal e = (let p = lower (or_empty (or_else (actor e) (host e))) in if p = [] then None else Some p)"

definition group_by_principal :: "normalized_event list \<Rightarrow> event_type list \<Rightarrow> (string, normalized_event list) dict" where
  "group_by_principal events types =
     map (\<lambda>(k, es). (k, by_time es)) (sort_key fst
       (dict_group [(the (principal e), e). e \<leftarrow> events, ev_type e \<in> set types, principal e \<noteq> None]))"

definition bursts :: "normalized_event list \<Rightarrow> duration \<Rightarrow> normalized_event list list" where
  "bursts events window = gap_split event_time window [] events"

definition brute_force_match :: "(time \<Rightarrow> string) \<Rightarrow> string \<Rightarrow> normalized_event list \<Rightarrow> rule_match" where
  "brute_force_match isoformat p burst = \<lparr>rm_event_ids = map event_id burst,
     rm_detail = show_nat (length burst) @ '' failed authentications for '' @ repr_str p @ '' between ''
       @ isoformat (event_time (hd burst)) @ '' and '' @ isoformat (event_time (last burst))\<rparr>"

definition detect_brute_force :: "(time \<Rightarrow> string) \<Rightarrow> detection_context \<Rightarrow> rule_match list" where
  "detect_brute_force isoformat ctx =
     [brute_force_match isoformat p burst. (p, events) \<leftarrow> group_by_principal (dc_events ctx) [Auth_Failure],
        burst \<leftarrow> bursts events (dc_window ctx), \<not> length burst < BRUTE_FORCE_THRESHOLD]"

definition breakthrough_match :: "(time \<Rightarrow> string) \<Rightarrow> string \<Rightarrow> normalized_event list \<Rightarrow> normalized_event \<Rightarrow> rule_match" where
  "breakthrough_match isoformat p run e = \<lparr>rm_event_ids = map event_id (run @ [e]),
     rm_detail = show_nat (length run) @ '' failed authentications for '' @ repr_str p @ '' followed by a success at ''
       @ isoformat (event_time e)\<rparr>"

fun breakthroughs ::
  "(time \<Rightarrow> string) \<Rightarrow> duration \<Rightarrow> string \<Rightarrow> normalized_event list \<Rightarrow> normalized_event list \<Rightarrow> rule_match list" where
  "breakthroughs isoformat window p run [] = []"
| "breakthroughs isoformat window p run (e # es) =
     (if ev_type e = Auth_Failure then
        breakthroughs isoformat window p
          ((if run \<noteq> [] \<and> event_time e - event_time (last run) > window then [] else run) @ [e]) es
      else (if length run \<ge> BREAKTHROUGH_THRESHOLD \<and> event_time e - event_time (last run) \<le> window
            then [breakthrough_match isoformat p run e] else [])
        @ breakthroughs isoformat window p [] es)"

definition detect_breakthrough :: "(time \<Rightarrow> string) \<Rightarrow> detection_context \<Rightarrow> rule_match list" where
  "detect_breakthrough isoformat ctx =
     [m. (p, events) \<leftarrow> group_by_principal (dc_events ctx) [Auth_Failure, Auth_Success],
         m \<leftarrow> breakthroughs isoformat (dc_window ctx) p [] events]"

definition beacon_destinations :: "detection_context \<Rightarrow> (string, normalized_event list) dict" where
  "beacon_destinations ctx = dict_group [(lower (en_value x), e). e \<leftarrow> dc_events ctx, ev_type e = Network_Connection,
     x \<leftarrow> entities e, en_type x = En_Ip \<or> en_type x = En_Domain,
     \<not> is_internal_address (en_value x) (dc_internal_networks ctx)]"

definition detect_beaconing :: "detection_context \<Rightarrow> rule_match list" where
  "detect_beaconing ctx =
     [\<lparr>rm_event_ids = ids, rm_detail = show_nat (length ids) @ '' connections to external destination '' @ repr_str dest\<rparr>.
        (dest, events) \<leftarrow> sort_key fst (beacon_destinations ctx), ids \<leftarrow> [unique (map event_id (by_time events))],
        \<not> length ids < BEACONING_THRESHOLD]"


section \<open>The catalogue\<close>

definition rule ::
  "string \<Rightarrow> string \<Rightarrow> string \<Rightarrow> pyfloat \<Rightarrow> string list \<Rightarrow> (detection_context \<Rightarrow> rule_match list) \<Rightarrow> detection_rule" where
  "rule i n d w ts f = \<lparr>dr_rule_id = i, dr_name = n, dr_description = d, dr_weight = w, dr_technique_ids = ts, dr_evaluate = f\<rparr>"

definition DEFAULT_RULES :: "(time \<Rightarrow> string) \<Rightarrow> detection_rule list" where
  "DEFAULT_RULES isoformat =
     [rule ''brute_force_authentication'' ''Repeated authentication failures''
        ''At least 5 failed authentications for one principal within the correlation window.''
        (55/10) [''T1110''] (detect_brute_force isoformat),
      rule ''authentication_breakthrough'' ''Successful authentication after repeated failures''
        ''A successful authentication preceded by at least 3 failures for the same principal -- the pattern of a guess landing.''
        (75/10) [''T1110'', ''T1078''] (detect_breakthrough isoformat),
      rule ''privilege_change_observed'' ''Privilege change''
        ''A privilege level was altered.''
        (6) [''T1068'', ''T1548''] (type_rule [Privilege_Change]),
      rule ''account_created'' ''Account creation''
        ''A new account was created.''
        (5) [''T1136''] (pattern_rule ACCOUNT_CREATED None),
      rule ''account_elevated'' ''Account granted elevated group membership''
        ''An account was added to a privileged group or granted administrative rights.''
        (65/10) [''T1098'', ''T1078''] (pattern_rule ACCOUNT_ELEVATED None),
      rule ''script_interpreter_execution'' ''Script interpreter execution''
        ''A command or scripting interpreter was launched. Routine on its own -- weighted low so it contributes context rather than alarm.''
        (25/10) [''T1059''] (pattern_rule INTERPRETER (Some [Process_Start])),
      rule ''encoded_command_execution'' ''Obfuscated or hidden command execution''
        ''An interpreter was invoked with encoding, hidden-window, or in-memory execution flags -- deliberate concealment, not ordinary administration.''
        (75/10) [''T1027'', ''T1059.001''] (pattern_rule ENCODED_COMMAND None),
      rule ''proxy_binary_execution'' ''Signed binary proxy execution''
        ''A trusted system binary commonly abused to run other code was invoked.''
        (6) [''T1218''] (pattern_rule PROXY_BINARY None),
      rule ''ingress_tool_transfer'' ''File transferred into the environment''
        ''A download or file-transfer utility was used to pull content onto a host.''
        (6) [''T1105''] (pattern_rule TOOL_TRANSFER None),
      rule ''service_installed'' ''Service installed''
        ''A new system service was created or installed -- a common persistence route.''
        (55/10) [''T1543'', ''T1569''] (pattern_rule SERVICE_CREATE None),
      rule ''scheduled_task_created'' ''Scheduled task created''
        ''A scheduled task or cron entry was created -- persistence or timed execution.''
        (55/10) [''T1053''] (pattern_rule SCHEDULED_TASK None),
      rule ''audit_log_cleared'' ''Audit log cleared''
        ''Event or audit logs were cleared. Destroying the record of activity is rarely accidental and directly attacks the evidence this platform rests on.''
        (8) [''T1070'', ''T1070.001''] (pattern_rule LOG_CLEARED None),
      rule ''security_tooling_disabled'' ''Security tooling disabled''
        ''Endpoint protection, auditing, or the host firewall was turned off.''
        (75/10) [''T1562''] (pattern_rule DEFENSE_DISABLED None),
      rule ''remote_service_activity'' ''Remote administration service used''
        ''Remote execution or remote desktop tooling appears in the evidence.''
        (35/10) [''T1021''] (pattern_rule REMOTE_SERVICE None),
      rule ''external_beaconing'' ''Repeated contact with an external destination''
        ''At least 3 connections to the same external address or domain -- the shape of command-and-control, though also of ordinary polling.''
        (45/10) [''T1071''] (detect_beaconing)]"


section \<open>Facts\<close>

lemma group_member:
  assumes "(p, es) \<in> set (group_by_principal events types)"
  shows "set es = {e \<in> set events. ev_type e \<in> set types \<and> principal e = Some p}" "\<exists>b. es = by_time b"
proof -
  obtain b where b: "es = by_time b"
    "(p, b) \<in> set (dict_group [(the (principal e), e). e \<leftarrow> events, ev_type e \<in> set types, principal e \<noteq> None])"
    using assms by (auto simp: group_by_principal_def)
  then have "b = values_for p [(the (principal e), e). e \<leftarrow> events, ev_type e \<in> set types, principal e \<noteq> None]"
    by (simp only: dict_group_member)
  then have "set b = {e. (p, e) \<in> set [(the (principal e), e). e \<leftarrow> events, ev_type e \<in> set types, principal e \<noteq> None]}"
    by (simp only: values_for_set)
  also have "\<dots> = {e \<in> set events. ev_type e \<in> set types \<and> principal e = Some p}" by auto
  finally show "set es = {e \<in> set events. ev_type e \<in> set types \<and> principal e = Some p}" using b(1) by simp
  show "\<exists>b. es = by_time b" using b(1) by blast
qed

lemma group_exists:
  assumes "e \<in> set events" "ev_type e \<in> set types" "principal e = Some p"
  shows "\<exists>es. (p, es) \<in> set (group_by_principal events types)"
proof -
  let ?kvs = "[(the (principal e), e). e \<leftarrow> events, ev_type e \<in> set types, principal e \<noteq> None]"
  have "(p, e) \<in> set ?kvs" using assms by force
  then have "values_for p ?kvs \<noteq> []" using values_for_set[of p ?kvs] by force
  then have "(p, values_for p ?kvs) \<in> set (dict_group ?kvs)" by (simp only: dict_group_member simp_thms)
  then have "(p, by_time (values_for p ?kvs)) \<in> set (group_by_principal events types)"
    unfolding group_by_principal_def by force
  then show ?thesis by blast
qed

text \<open>A burst is an episode of the principal's events.\<close>

lemma burst_facts:
  assumes "(p, es) \<in> set (group_by_principal events types)" "b \<in> set (bursts es window)"
  shows "b \<noteq> []" "close_knit event_time window b" "set b \<subseteq> set es" "sorted (map event_time b)"
proof -
  obtain raw where "es = by_time raw" using group_member(2)[OF assms(1)] by blast
  then have "b \<in> set (split_by_gap (by_time raw) window)" using assms(2) by (simp add: bursts_def split_by_gap_def)
  from episode_facts[OF this] \<open>es = by_time raw\<close>
  show "b \<noteq> []" "close_knit event_time window b" "set b \<subseteq> set es" "sorted (map event_time b)" by simp_all
qed

lemma brute_force_iff:
  "m \<in> set (detect_brute_force isoformat ctx) \<longleftrightarrow>
   (\<exists>p es b. (p, es) \<in> set (group_by_principal (dc_events ctx) [Auth_Failure]) \<and> b \<in> set (bursts es (dc_window ctx)) \<and>
      BRUTE_FORCE_THRESHOLD \<le> length b \<and> m = brute_force_match isoformat p b)"
  unfolding detect_brute_force_def by force

lemma chain_in_burst:
  "sorted (map event_time es) \<Longrightarrow> set xs \<subseteq> set es \<Longrightarrow> xs \<noteq> [] \<Longrightarrow> sorted (map event_time xs) \<Longrightarrow> close_knit event_time window xs \<Longrightarrow>
   b \<in> set (bursts es window) \<Longrightarrow> hd xs \<in> set b \<Longrightarrow> set xs \<subseteq> set b"
  unfolding bursts_def by (rule chain_in_episode)

lemma breakthroughs_sound:
  assumes "m \<in> set (breakthroughs isoformat window p run es)" "close_knit event_time window run"
    "list_all (\<lambda>e. ev_type e = Auth_Failure) run"
  shows "\<exists>pre r e post. run @ es = pre @ r @ e # post \<and> list_all (\<lambda>e. ev_type e = Auth_Failure) r \<and>
    BREAKTHROUGH_THRESHOLD \<le> length r \<and> ev_type e \<noteq> Auth_Failure \<and> close_knit event_time window (r @ [e]) \<and>
    m = breakthrough_match isoformat p r e"
  using assms
proof (induction es arbitrary: run)
  case (Cons e es)
  show ?case
  proof (cases "ev_type e = Auth_Failure")
    case True
    let ?run = "if run \<noteq> [] \<and> event_time e - event_time (last run) > window then [] else run"
    have "close_knit event_time window (?run @ [e])" using Cons.prems(2) by (auto simp: close_knit_snoc)
    moreover have "list_all (\<lambda>e. ev_type e = Auth_Failure) (?run @ [e])" using Cons.prems(3) True by simp
    moreover have "m \<in> set (breakthroughs isoformat window p (?run @ [e]) es)" using Cons.prems(1) True by simp
    ultimately obtain pre r e' post where d: "(?run @ [e]) @ es = pre @ r @ e' # post"
      "list_all (\<lambda>e. ev_type e = Auth_Failure) r" "BREAKTHROUGH_THRESHOLD \<le> length r" "ev_type e' \<noteq> Auth_Failure"
      "close_knit event_time window (r @ [e'])" "m = breakthrough_match isoformat p r e'" using Cons.IH by blast
    have "\<exists>pre. run @ e # es = pre @ r @ e' # post" 
    proof (cases "?run = run")
      case True
      then show ?thesis using d(1) by simp
    next
      case False
      then have "?run = []" by (simp split: if_splits)
      then have "run @ e # es = (run @ pre) @ r @ e' # post" using d(1) by simp
      then show ?thesis by blast
    qed
    then show ?thesis using d by blast
  next
    case False
    then consider (now) "BREAKTHROUGH_THRESHOLD \<le> length run" "event_time e - event_time (last run) \<le> window"
        "m = breakthrough_match isoformat p run e"
      | (later) "m \<in> set (breakthroughs isoformat window p [] es)"
      using Cons.prems(1) by (auto split: if_splits)
    then show ?thesis
    proof cases
      case now
      then have "close_knit event_time window (run @ [e])" using Cons.prems(2) by (simp add: close_knit_snoc)
      then show ?thesis using now Cons.prems(3) False by (metis append_Nil)
    next
      case later
      then obtain pre r e' post where d: "es = pre @ r @ e' # post"
        "list_all (\<lambda>e. ev_type e = Auth_Failure) r \<and> BREAKTHROUGH_THRESHOLD \<le> length r \<and> ev_type e' \<noteq> Auth_Failure \<and>
          close_knit event_time window (r @ [e']) \<and> m = breakthrough_match isoformat p r e'"
        using Cons.IH[of "[]"] by auto
      then have "run @ e # es = (run @ e # pre) @ r @ e' # post" by simp
      then show ?thesis using d(2) by blast
    qed
  qed
qed simp

lemma close_knit_mid: "close_knit t w (xs @ y # ys) \<Longrightarrow> xs \<noteq> [] \<Longrightarrow> t y - t (last xs) \<le> w"
  by (induction t w xs rule: close_knit.induct) auto

lemma breakthroughs_complete:
  assumes "run @ es1 = pre @ r" "list_all (\<lambda>e. ev_type e = Auth_Failure) r" "BREAKTHROUGH_THRESHOLD \<le> length r"
    "ev_type e \<noteq> Auth_Failure" "close_knit event_time window (r @ [e])"
  shows "\<exists>r'. suffix r r' \<and>
    breakthrough_match isoformat p r' e \<in> set (breakthroughs isoformat window p run (es1 @ e # post))"
  using assms(1)
proof (induction es1 arbitrary: run pre)
  case Nil
  have "r \<noteq> []" using assms(3) by (auto simp: BREAKTHROUGH_THRESHOLD_def)
  then have "event_time e - event_time (last run) \<le> window" "BREAKTHROUGH_THRESHOLD \<le> length run"
    using Nil assms(3) close_knit_mid[OF assms(5)] by auto
  then show ?case using Nil assms(4) by (auto simp: suffix_def)
next
  case (Cons x es2)
  have split: "(\<exists>us. us \<noteq> [] \<and> run = pre @ us \<and> r = us @ x # es2) \<or> (\<exists>us. pre = run @ us \<and> x # es2 = us @ r)"
    using Cons.prems by (auto simp: append_eq_append_conv2)
  show ?case
  proof (cases "ev_type x = Auth_Failure \<and> \<not> (run \<noteq> [] \<and> event_time x - event_time (last run) > window)")
    case True
    have "(run @ [x]) @ es2 = pre @ r" using Cons.prems by simp
    from Cons.IH[OF this] True show ?thesis by auto
  next
    case False
    have "us = []" if "run = pre @ us" "r = us @ x # es2" for us
    proof (rule ccontr)
      assume "us \<noteq> []"
      then have "event_time x - event_time (last run) \<le> window" using assms(5) that close_knit_mid[of event_time window us x] by simp
      moreover have "ev_type x = Auth_Failure" using assms(2) that by simp
      ultimately show False using False by simp
    qed
    then obtain us where us: "pre = run @ us" "x # es2 = us @ r" using split by blast
    show ?thesis
    proof (cases "ev_type x = Auth_Failure")
      case True
      have "[x] @ es2 = us @ r" using us(2) by simp
      from Cons.IH[OF this] True False show ?thesis by auto
    next
      case nf: False
      then have "us \<noteq> []" using us(2) assms(2,3) by (cases r) (auto simp: BREAKTHROUGH_THRESHOLD_def)
      then have "[] @ es2 = tl us @ r" using us(2) by (cases us) auto
      from Cons.IH[OF this] nf show ?thesis by auto
    qed
  qed
qed

lemma breakthrough_iff:
  "m \<in> set (detect_breakthrough isoformat ctx) \<longleftrightarrow>
   (\<exists>p es. (p, es) \<in> set (group_by_principal (dc_events ctx) [Auth_Failure, Auth_Success]) \<and>
      m \<in> set (breakthroughs isoformat (dc_window ctx) p [] es))"
  unfolding detect_breakthrough_def by force



section \<open>What an attack on an account looks like\<close>

text \<open>The principal of an event: the actor it names, or else the host it names, case put aside.\<close>

definition acts_as :: "string \<Rightarrow> normalized_event \<Rightarrow> bool" where
  "acts_as p e = (case actor e of Some (c # cs) \<Rightarrow> p = lower (c # cs)
     | _ \<Rightarrow> (case host e of Some (c # cs) \<Rightarrow> p = lower (c # cs) | _ \<Rightarrow> False))"

text \<open>The events of a principal with the given types, in order of time.\<close>

definition timeline :: "event_type set \<Rightarrow> string \<Rightarrow> normalized_event list \<Rightarrow> normalized_event list" where
  "timeline types p events = sort_key (\<lambda>e. (event_time e, event_id e)) (filter (\<lambda>e. ev_type e \<in> types \<and> acts_as p e) events)"

text \<open>The signals a rule of the catalogue gives.\<close>

definition signals_for :: "string \<Rightarrow> (time \<Rightarrow> string) \<Rightarrow> detection_context \<Rightarrow> detection_signal list" where
  "signals_for i isoformat ctx = filter (\<lambda>s. rule_id s = i) (evaluate_rules (DEFAULT_RULES isoformat) ctx)"

lemma acts_as_iff: "principal e = Some p \<longleftrightarrow> acts_as p e"
  by (auto simp: principal_def acts_as_def or_else_def or_empty_def lower_def split: option.splits list.splits)

lemma group_timeline:
  assumes "(p, es) \<in> set (group_by_principal events types)"
  shows "es = timeline (set types) p events"
proof -
  obtain b where b: "es = by_time b" "(p, b) \<in> set (dict_group [(the (principal e), e). e \<leftarrow> events, ev_type e \<in> set types, principal e \<noteq> None])"
    using assms by (auto simp: group_by_principal_def)
  then have "b = values_for p [(the (principal e), e). e \<leftarrow> events, ev_type e \<in> set types, principal e \<noteq> None]" by (simp only: dict_group_member)
  also have "\<dots> = filter (\<lambda>e. ev_type e \<in> set types \<and> principal e = Some p) events"
    by (induction events) (auto simp: values_for_def)
  finally show ?thesis using b(1) by (simp add: timeline_def by_time_def acts_as_iff)
qed

lemma timeline_sorted: "sorted (map event_time (timeline types p events))"
  using by_time_sorted by (simp add: timeline_def by_time_def)

lemma timeline_set: "set (timeline types p events) = {e \<in> set events. ev_type e \<in> types \<and> acts_as p e}"
  by (auto simp: timeline_def)

lemma close_knit_within: "sorted (map t xs) \<Longrightarrow> (\<And>x y. x \<in> set xs \<Longrightarrow> y \<in> set xs \<Longrightarrow> t y - t x \<le> w) \<Longrightarrow> close_knit t w xs"
  by (induction t w xs rule: close_knit.induct) simp_all

lemma default_rule_ids: "distinct (map dr_rule_id (DEFAULT_RULES isoformat))"
  by (simp add: DEFAULT_RULES_def rule_def)

text \<open>The signals of a rule are its matches, with the weight and techniques of the catalogue.\<close>

lemma signals_for_rule:
  assumes "r \<in> set (DEFAULT_RULES isoformat)"
  shows "s \<in> set (signals_for (dr_rule_id r) isoformat ctx) \<longleftrightarrow> (\<exists>m \<in> set (dr_evaluate r ctx). s = signal_of r m)"
proof -
  have "r' = r" if "r' \<in> set (DEFAULT_RULES isoformat)" "dr_rule_id r' = dr_rule_id r" for r'
    using default_rule_ids[of isoformat] assms that by (auto simp: distinct_map dest: inj_onD)
  moreover have "rule_id (signal_of r' m) = dr_rule_id r'" for r' m by (simp add: signal_of_def)
  moreover have "s \<in> set (signals_for (dr_rule_id r) isoformat ctx) \<longleftrightarrow>
      (\<exists>r' \<in> set (DEFAULT_RULES isoformat). \<exists>m \<in> set (dr_evaluate r' ctx). s = signal_of r' m \<and> rule_id s = dr_rule_id r)"
    by (auto simp: signals_for_def evaluate_rules_def)
  ultimately show ?thesis using assms by metis
qed

abbreviation brute_force_rule :: "(time \<Rightarrow> string) \<Rightarrow> detection_rule" where
  "brute_force_rule isoformat \<equiv> DEFAULT_RULES isoformat ! 0"

abbreviation breakthrough_rule :: "(time \<Rightarrow> string) \<Rightarrow> detection_rule" where
  "breakthrough_rule isoformat \<equiv> DEFAULT_RULES isoformat ! 1"

lemma brute_force_rule_facts:
  "brute_force_rule isoformat \<in> set (DEFAULT_RULES isoformat)" "dr_rule_id (brute_force_rule isoformat) = ''brute_force_authentication''"
  "dr_weight (brute_force_rule isoformat) = 55 / 10" "dr_technique_ids (brute_force_rule isoformat) = [''T1110'']"
  "dr_evaluate (brute_force_rule isoformat) = detect_brute_force isoformat"
  by (simp_all add: DEFAULT_RULES_def rule_def)

lemma breakthrough_rule_facts:
  "breakthrough_rule isoformat \<in> set (DEFAULT_RULES isoformat)" "dr_rule_id (breakthrough_rule isoformat) = ''authentication_breakthrough''"
  "dr_weight (breakthrough_rule isoformat) = 75 / 10" "dr_technique_ids (breakthrough_rule isoformat) = [''T1110'', ''T1078'']"
  "dr_evaluate (breakthrough_rule isoformat) = detect_breakthrough isoformat"
  by (simp_all add: DEFAULT_RULES_def rule_def)

lemmas brute_force_signals_iff = signals_for_rule[OF brute_force_rule_facts(1), unfolded brute_force_rule_facts]
lemmas breakthrough_signals_iff = signals_for_rule[OF breakthrough_rule_facts(1), unfolded breakthrough_rule_facts]


section \<open>Properties\<close>

text \<open>The engine gives exactly one signal per match of each rule and nothing else, strongest first.\<close>

theorem engine_signals_matches:
  "set (evaluate_rules rules ctx) = {signal_of r m | r m. r \<in> set rules \<and> m \<in> set (dr_evaluate r ctx)} \<and>
   length (evaluate_rules rules ctx) = sum_list (map (\<lambda>r. length (dr_evaluate r ctx)) rules) \<and>
   sorted_wrt (\<lambda>a b. weight b \<le> weight a) (evaluate_rules rules ctx)"
proof -
  have "length (concat (map (\<lambda>r. map (signal_of r) (dr_evaluate r ctx)) rules)) =
      sum_list (map (\<lambda>r. length (dr_evaluate r ctx)) rules)"
    by (simp add: length_concat o_def)
  moreover have "sorted (map (\<lambda>s. (- weight s, rule_id s, sig_detail s)) (evaluate_rules rules ctx))"
    by (simp add: evaluate_rules_def)
  then have "sorted_wrt (\<lambda>a b. weight b \<le> weight a) (evaluate_rules rules ctx)"
    unfolding sorted_map by (rule sorted_wrt_mono_rel[rotated]) (auto simp: less_eq_prod_def)
  ultimately show ?thesis by (auto simp: evaluate_rules_def)
qed

text \<open>A pattern rule cites exactly the events of its types in whose text its expression matches somewhere: the computed search agrees with
  the declarative meaning of the expression.\<close>

lemma pattern_rule_declarative:
  "pattern_rule pattern types ctx = single_match (filter (\<lambda>e.
     (case types of None \<Rightarrow> True | Some ts \<Rightarrow> ev_type e \<in> set ts) \<and>
     (\<exists>i j. i \<le> length (searchable e) \<and> matches pattern (searchable e) i j)) (dc_events ctx))"
  unfolding pattern_rule_def search_iff ..

text \<open>Brute force is detected exactly on evidence. Every chain of at least five failed authentications of one
  principal, each within the window of the next, is reported in one match; and every match cites five or more
  failures of one principal, in order of time with no gap above the window. (The whole chain may be longer than the
  window.)\<close>

theorem brute_force_exact:
  assumes "list_all (\<lambda>e. e \<in> set (dc_events ctx) \<and> ev_type e = Auth_Failure \<and> principal e = Some p) xs"
    "distinct xs" "5 \<le> length xs" "sorted (map event_time xs)" "close_knit event_time (dc_window ctx) xs"
  shows "(\<exists>m \<in> set (detect_brute_force isoformat ctx). event_id ` set xs \<subseteq> set (rm_event_ids m)) \<and>
    list_all (\<lambda>m. \<exists>q b. rm_event_ids m = map event_id b \<and> 5 \<le> length b \<and> sorted (map event_time b) \<and>
      close_knit event_time (dc_window ctx) b \<and>
      list_all (\<lambda>e. e \<in> set (dc_events ctx) \<and> ev_type e = Auth_Failure \<and> principal e = Some q) b)
      (detect_brute_force isoformat ctx)"
proof
  have "xs \<noteq> []" using assms(3) by auto
  then have hd: "hd xs \<in> set (dc_events ctx)" "ev_type (hd xs) \<in> set [Auth_Failure]" "principal (hd xs) = Some p"
    using assms(1) by (auto simp: list_all_iff)
  obtain es where es: "(p, es) \<in> set (group_by_principal (dc_events ctx) [Auth_Failure])" using group_exists[OF hd] by blast
  have sub: "set xs \<subseteq> set es" using assms(1) group_member(1)[OF es] by (auto simp: list_all_iff)
  have srt: "sorted (map event_time es)" using group_member(2)[OF es] by_time_sorted by auto
  have "hd xs \<in> set es" using sub \<open>xs \<noteq> []\<close> by auto
  then have "hd xs \<in> set (concat (bursts es (dc_window ctx)))" by (simp add: bursts_def gap_split_concat)
  then obtain b where b: "b \<in> set (bursts es (dc_window ctx))" "hd xs \<in> set b" by auto
  have xb: "set xs \<subseteq> set b" by (rule chain_in_burst[OF srt sub \<open>xs \<noteq> []\<close> assms(4,5) b])
  have "length xs \<le> length b"
    using distinct_card[OF assms(2)] card_mono[OF finite_set xb] card_length[of b] by linarith
  then have "BRUTE_FORCE_THRESHOLD \<le> length b" using assms(3) by (simp add: BRUTE_FORCE_THRESHOLD_def)
  then have "brute_force_match isoformat p b \<in> set (detect_brute_force isoformat ctx)"
    unfolding brute_force_iff using es b(1) by blast
  moreover have "event_id ` set xs \<subseteq> set (rm_event_ids (brute_force_match isoformat p b))"
    using xb by (auto simp: brute_force_match_def)
  ultimately show "\<exists>m \<in> set (detect_brute_force isoformat ctx). event_id ` set xs \<subseteq> set (rm_event_ids m)" by blast
next
  have "\<exists>q b. rm_event_ids m = map event_id b \<and> 5 \<le> length b \<and> sorted (map event_time b) \<and>
      close_knit event_time (dc_window ctx) b \<and>
      list_all (\<lambda>e. e \<in> set (dc_events ctx) \<and> ev_type e = Auth_Failure \<and> principal e = Some q) b"
    if m: "m \<in> set (detect_brute_force isoformat ctx)" for m
  proof -
    obtain q es b where d: "(q, es) \<in> set (group_by_principal (dc_events ctx) [Auth_Failure])"
      "b \<in> set (bursts es (dc_window ctx))" "BRUTE_FORCE_THRESHOLD \<le> length b" "m = brute_force_match isoformat q b"
      using m unfolding brute_force_iff by blast
    show ?thesis
      using burst_facts[OF d(1,2)] group_member(1)[OF d(1)] d(3,4)
      by (intro exI[of _ q] exI[of _ b]) (auto simp: brute_force_match_def BRUTE_FORCE_THRESHOLD_def list_all_iff)
  qed
  then show "list_all (\<lambda>m. \<exists>q b. rm_event_ids m = map event_id b \<and> 5 \<le> length b \<and> sorted (map event_time b) \<and>
      close_knit event_time (dc_window ctx) b \<and>
      list_all (\<lambda>e. e \<in> set (dc_events ctx) \<and> ev_type e = Auth_Failure \<and> principal e = Some q) b)
      (detect_brute_force isoformat ctx)"
    by (simp add: list_all_iff)
qed

text \<open>Every breakthrough match is a success that directly follows, in the time order of one principal's
  authentications, at least three failures with no gap above the window, success included; and whenever such a run
  stands in that order, a match citing the success and the whole run is reported.\<close>

theorem breakthrough_exact:
  "(m \<in> set (detect_breakthrough isoformat ctx) \<longrightarrow>
     (\<exists>q es pre r e post. (q, es) \<in> set (group_by_principal (dc_events ctx) [Auth_Failure, Auth_Success]) \<and>
        es = pre @ r @ e # post \<and> list_all (\<lambda>x. ev_type x = Auth_Failure) r \<and> 3 \<le> length r \<and> ev_type e = Auth_Success \<and>
        close_knit event_time (dc_window ctx) (r @ [e]) \<and> rm_event_ids m = map event_id (r @ [e]))) \<and>
   ((p, es) \<in> set (group_by_principal (dc_events ctx) [Auth_Failure, Auth_Success]) \<and> es = pre @ r @ e # post \<and>
      list_all (\<lambda>x. ev_type x = Auth_Failure) r \<and> 3 \<le> length r \<and> ev_type e = Auth_Success \<and>
      close_knit event_time (dc_window ctx) (r @ [e]) \<longrightarrow>
     (\<exists>m' \<in> set (detect_breakthrough isoformat ctx). suffix (map event_id (r @ [e])) (rm_event_ids m')))"
proof (intro conjI impI)
  assume "m \<in> set (detect_breakthrough isoformat ctx)"
  then obtain q es where q: "(q, es) \<in> set (group_by_principal (dc_events ctx) [Auth_Failure, Auth_Success])"
    "m \<in> set (breakthroughs isoformat (dc_window ctx) q [] es)" unfolding breakthrough_iff by blast
  obtain pre r e post where d: "es = pre @ r @ e # post" "list_all (\<lambda>x. ev_type x = Auth_Failure) r"
    "BREAKTHROUGH_THRESHOLD \<le> length r" "ev_type e \<noteq> Auth_Failure" "close_knit event_time (dc_window ctx) (r @ [e])"
    "m = breakthrough_match isoformat q r e" using breakthroughs_sound[OF q(2)] by auto
  have "e \<in> set es" using d(1) by simp
  then have "ev_type e = Auth_Success" using group_member(1)[OF q(1)] d(4) by auto
  then show "\<exists>q es pre r e post. (q, es) \<in> set (group_by_principal (dc_events ctx) [Auth_Failure, Auth_Success]) \<and>
        es = pre @ r @ e # post \<and> list_all (\<lambda>x. ev_type x = Auth_Failure) r \<and> 3 \<le> length r \<and> ev_type e = Auth_Success \<and>
        close_knit event_time (dc_window ctx) (r @ [e]) \<and> rm_event_ids m = map event_id (r @ [e])"
    using q(1) d by (intro exI conjI) (auto simp: breakthrough_match_def BREAKTHROUGH_THRESHOLD_def)
next
  assume a: "(p, es) \<in> set (group_by_principal (dc_events ctx) [Auth_Failure, Auth_Success]) \<and> es = pre @ r @ e # post \<and>
      list_all (\<lambda>x. ev_type x = Auth_Failure) r \<and> 3 \<le> length r \<and> ev_type e = Auth_Success \<and>
      close_knit event_time (dc_window ctx) (r @ [e])"
  then have "[] @ (pre @ r) = pre @ r" "BREAKTHROUGH_THRESHOLD \<le> length r" "ev_type e \<noteq> Auth_Failure"
    by (simp_all add: BREAKTHROUGH_THRESHOLD_def)
  from breakthroughs_complete[OF this(1) _ this(2,3), of "dc_window ctx" isoformat p post] a
  obtain r' where r': "suffix r r'"
    "breakthrough_match isoformat p r' e \<in> set (breakthroughs isoformat (dc_window ctx) p [] es)" by auto
  have "suffix (map event_id (r @ [e])) (rm_event_ids (breakthrough_match isoformat p r' e))"
    using r'(1) by (auto simp: breakthrough_match_def suffix_def)
  then show "\<exists>m' \<in> set (detect_breakthrough isoformat ctx). suffix (map event_id (r @ [e])) (rm_event_ids m')"
    using r'(2) a breakthrough_iff by blast
qed

text \<open>C34: The catalogue reports a password attack when there is one. Every \<^verbatim>\<open>brute_force_authentication\<close> signal cites, in order, at least five
  consecutive failed authentications of one principal's timeline, each within the window of the one before, with the weight and technique of the rule; and whenever five or
  more distinct failed authentications of one principal lie within one window, some such signal cites all of them. The principal is the actor, or else the host, case put aside.\<close>

theorem brute_force_signals:
  "(\<forall>s \<in> set (signals_for ''brute_force_authentication'' isoformat ctx). weight s = 55 / 10 \<and> sig_technique_ids s = [''T1110'']
      \<and> (\<exists>p pre xs post. timeline {Auth_Failure} p (dc_events ctx) = pre @ xs @ post \<and> 5 \<le> length xs
          \<and> close_knit event_time (dc_window ctx) xs \<and> sig_event_ids s = map event_id xs))
   \<and> (\<forall>p xs. distinct xs \<and> 5 \<le> length xs \<and> set xs \<subseteq> {e \<in> set (dc_events ctx). ev_type e = Auth_Failure \<and> acts_as p e}
        \<and> (\<forall>x \<in> set xs. \<forall>y \<in> set xs. event_time y - event_time x \<le> dc_window ctx) \<longrightarrow>
      (\<exists>s \<in> set (signals_for ''brute_force_authentication'' isoformat ctx). event_id ` set xs \<subseteq> set (sig_event_ids s)))"
proof (rule conjI; intro ballI allI impI)
  fix s assume "s \<in> set (signals_for ''brute_force_authentication'' isoformat ctx)"
  then obtain m where m: "m \<in> set (detect_brute_force isoformat ctx)" "s = signal_of (brute_force_rule isoformat) m" unfolding brute_force_signals_iff by blast
  then obtain p es b where d: "(p, es) \<in> set (group_by_principal (dc_events ctx) [Auth_Failure])" "b \<in> set (bursts es (dc_window ctx))"
    "BRUTE_FORCE_THRESHOLD \<le> length b" "m = brute_force_match isoformat p b" unfolding brute_force_iff by blast
  have "concat (bursts es (dc_window ctx)) = timeline {Auth_Failure} p (dc_events ctx)"
    using group_timeline[OF d(1)] by (simp add: bursts_def gap_split_concat)
  moreover obtain us vs where "bursts es (dc_window ctx) = us @ b # vs" using d(2) by (meson split_list)
  ultimately have "timeline {Auth_Failure} p (dc_events ctx) = concat us @ b @ concat vs" by simp
  moreover have "sig_event_ids s = map event_id b" by (simp add: m(2) d(4) signal_of_def brute_force_match_def)
  moreover have "weight s = 55 / 10" "sig_technique_ids s = [''T1110'']" using brute_force_rule_facts by (simp_all add: m(2) signal_of_def)
  ultimately show "weight s = 55 / 10 \<and> sig_technique_ids s = [''T1110''] \<and> (\<exists>p pre xs post. timeline {Auth_Failure} p (dc_events ctx) = pre @ xs @ post
      \<and> 5 \<le> length xs \<and> close_knit event_time (dc_window ctx) xs \<and> sig_event_ids s = map event_id xs)"
    using burst_facts(2)[OF d(1,2)] d(3) unfolding BRUTE_FORCE_THRESHOLD_def by blast
next
  fix p xs assume "distinct xs \<and> 5 \<le> length xs \<and> set xs \<subseteq> {e \<in> set (dc_events ctx). ev_type e = Auth_Failure \<and> acts_as p e}
        \<and> (\<forall>x \<in> set xs. \<forall>y \<in> set xs. event_time y - event_time x \<le> dc_window ctx)"
  then have xs: "distinct xs" "5 \<le> length xs" "set xs \<subseteq> {e \<in> set (dc_events ctx). ev_type e = Auth_Failure \<and> acts_as p e}"
    "\<And>x y. x \<in> set xs \<Longrightarrow> y \<in> set xs \<Longrightarrow> event_time y - event_time x \<le> dc_window ctx" by auto
  let ?ys = "sort_key event_time xs"
  have "list_all (\<lambda>e. e \<in> set (dc_events ctx) \<and> ev_type e = Auth_Failure \<and> principal e = Some p) ?ys" using xs(3) by (auto simp: list_all_iff acts_as_iff)
  moreover have "close_knit event_time (dc_window ctx) ?ys" by (rule close_knit_within) (use xs(4) in simp_all)
  ultimately obtain m where m: "m \<in> set (detect_brute_force isoformat ctx)" "event_id ` set ?ys \<subseteq> set (rm_event_ids m)"
    using brute_force_exact[of ctx p ?ys isoformat] xs(1,2) by auto
  then show "\<exists>s \<in> set (signals_for ''brute_force_authentication'' isoformat ctx). event_id ` set xs \<subseteq> set (sig_event_ids s)"
    by (intro bexI[of _ "signal_of (brute_force_rule isoformat) m"]) (auto simp: brute_force_signals_iff signal_of_def)
qed

text \<open>C40: The catalogue reports a guessed password when there is one. Every \<^verbatim>\<open>authentication_breakthrough\<close> signal cites a success of one principal and at
  least three failures that directly precede it in the principal's timeline, each event within the window of the one before, with the weight and techniques of the rule; and
  whenever a success directly follows three or more failures of its principal that lie, with it, within one window, some such signal cites that success last and all those
  failures just before it.\<close>

theorem breakthrough_signals:
  "(\<forall>s \<in> set (signals_for ''authentication_breakthrough'' isoformat ctx). weight s = 75 / 10 \<and> sig_technique_ids s = [''T1110'', ''T1078'']
      \<and> (\<exists>p pre r e post. timeline {Auth_Failure, Auth_Success} p (dc_events ctx) = pre @ r @ e # post \<and> 3 \<le> length r
          \<and> list_all (\<lambda>x. ev_type x = Auth_Failure) r \<and> ev_type e = Auth_Success
          \<and> close_knit event_time (dc_window ctx) (r @ [e]) \<and> sig_event_ids s = map event_id (r @ [e])))
   \<and> (\<forall>p pre r e post. timeline {Auth_Failure, Auth_Success} p (dc_events ctx) = pre @ r @ e # post \<and> 3 \<le> length r
          \<and> list_all (\<lambda>x. ev_type x = Auth_Failure) r \<and> ev_type e = Auth_Success \<and> event_time e - event_time (hd r) \<le> dc_window ctx \<longrightarrow>
      (\<exists>s \<in> set (signals_for ''authentication_breakthrough'' isoformat ctx). suffix (map event_id (r @ [e])) (sig_event_ids s)))"
proof (rule conjI; intro ballI allI impI)
  fix s assume "s \<in> set (signals_for ''authentication_breakthrough'' isoformat ctx)"
  then obtain m where m: "m \<in> set (detect_breakthrough isoformat ctx)" "s = signal_of (breakthrough_rule isoformat) m" unfolding breakthrough_signals_iff by blast
  obtain p es pre r e post where d: "(p, es) \<in> set (group_by_principal (dc_events ctx) [Auth_Failure, Auth_Success])"
    "es = pre @ r @ e # post" "list_all (\<lambda>x. ev_type x = Auth_Failure) r" "3 \<le> length r" "ev_type e = Auth_Success"
    "close_knit event_time (dc_window ctx) (r @ [e])" "rm_event_ids m = map event_id (r @ [e])"
    using conjunct1[OF breakthrough_exact[of m isoformat ctx]] m(1) by (elim impE) blast+
  have "timeline {Auth_Failure, Auth_Success} p (dc_events ctx) = pre @ r @ e # post" using group_timeline[OF d(1)] d(2) by simp
  moreover have "sig_event_ids s = map event_id (r @ [e])" using d(7) by (simp add: m(2) signal_of_def)
  moreover have "weight s = 75 / 10" "sig_technique_ids s = [''T1110'', ''T1078'']" using breakthrough_rule_facts by (simp_all add: m(2) signal_of_def)
  ultimately show "weight s = 75 / 10 \<and> sig_technique_ids s = [''T1110'', ''T1078''] \<and> (\<exists>p pre r e post.
      timeline {Auth_Failure, Auth_Success} p (dc_events ctx) = pre @ r @ e # post \<and> 3 \<le> length r \<and> list_all (\<lambda>x. ev_type x = Auth_Failure) r
      \<and> ev_type e = Auth_Success \<and> close_knit event_time (dc_window ctx) (r @ [e]) \<and> sig_event_ids s = map event_id (r @ [e]))"
    using d(3-6) by blast
next
  fix p pre r e post assume a: "timeline {Auth_Failure, Auth_Success} p (dc_events ctx) = pre @ r @ e # post \<and> 3 \<le> length r
      \<and> list_all (\<lambda>x. ev_type x = Auth_Failure) r \<and> ev_type e = Auth_Success \<and> event_time e - event_time (hd r) \<le> dc_window ctx"
  have "e \<in> set (timeline {Auth_Failure, Auth_Success} p (dc_events ctx))" using a by simp
  then have "e \<in> set (dc_events ctx)" "ev_type e \<in> set [Auth_Failure, Auth_Success]" "principal e = Some p" unfolding timeline_set acts_as_iff by simp_all
  then obtain es where es: "(p, es) \<in> set (group_by_principal (dc_events ctx) [Auth_Failure, Auth_Success])" using group_exists by blast
  have tl: "es = pre @ r @ e # post" using group_timeline[OF es] a by simp
  have "sorted (map event_time (pre @ r @ e # post))" using timeline_sorted[of "{Auth_Failure, Auth_Success}" p "dc_events ctx"] a by simp
  then have srt: "sorted (map event_time (r @ [e]))" by (simp add: sorted_append)
  have "r \<noteq> []" using a by auto
  then have "event_time y - event_time x \<le> dc_window ctx" if "x \<in> set (r @ [e])" "y \<in> set (r @ [e])" for x y
    using sorted_hd_le[OF srt that(1)] sorted_le_last[OF srt that(2)] a by simp
  then have "close_knit event_time (dc_window ctx) (r @ [e])" using srt close_knit_within by blast
  then obtain m where "m \<in> set (detect_breakthrough isoformat ctx)" "suffix (map event_id (r @ [e])) (rm_event_ids m)"
    using conjunct2[OF breakthrough_exact[of undefined isoformat ctx p es pre r e post]] es tl a by blast
  then show "\<exists>s \<in> set (signals_for ''authentication_breakthrough'' isoformat ctx). suffix (map event_id (r @ [e])) (sig_event_ids s)"
    by (intro bexI[of _ "signal_of (breakthrough_rule isoformat) m"]) (auto simp: breakthrough_signals_iff signal_of_def)
qed

text \<open>An external assertion becomes a signal only through an indicator that an intelligence source was asked about
  and called malicious or suspicious; the signal has the higher weight exactly when some such answer was
  malicious, and it never names a technique.\<close>

theorem hostile_signal_iff:
  "(signal_from_hostile_indicators iocs = None \<longleftrightarrow>
      list_all (\<lambda>i. enriched i = False \<or> reputation i = Rep_Harmless \<or> reputation i = Rep_Unknown) iocs) \<and>
   (case signal_from_hostile_indicators iocs of None \<Rightarrow> True
    | Some s \<Rightarrow> signal_ok s \<and> sig_technique_ids s = [] \<and>
       (weight s = 85 / 10 \<longleftrightarrow> list_ex (\<lambda>i. enriched i \<and> reputation i = Rep_Malicious) iocs) \<and>
       list_all (\<lambda>x. list_ex (\<lambda>i. is_hostile i \<and> x \<in> set (ioc_event_ids i)) iocs) (sig_event_ids s))"
proof -
  have none: "is_hostile i \<longleftrightarrow> \<not> (enriched i = False \<or> reputation i = Rep_Harmless \<or> reputation i = Rep_Unknown)" for i
    by (cases "reputation i") (auto simp: is_hostile_def)
  have "filter is_hostile iocs = [] \<longleftrightarrow>
      list_all (\<lambda>i. enriched i = False \<or> reputation i = Rep_Harmless \<or> reputation i = Rep_Unknown) iocs"
    unfolding filter_empty_conv list_all_iff none by blast
  moreover have "filter (\<lambda>i. reputation i = Rep_Malicious) (filter is_hostile iocs) = [] \<longleftrightarrow>
      \<not> list_ex (\<lambda>i. enriched i \<and> reputation i = Rep_Malicious) iocs"
    by (auto simp: filter_empty_conv list_ex_iff is_hostile_def)
  ultimately show ?thesis
    unfolding signal_from_hostile_indicators_def Let_def
    by (auto simp: signal_ok_def list_all_iff list_ex_iff)
qed


text \<open>The catalogue is well formed: rule identifiers are unique, and whatever the evidence, every signal of the
  default rules has a weight within the model's range and at least one technique.\<close>

theorem default_rules_well_formed:
  "distinct (map dr_rule_id (DEFAULT_RULES isoformat)) \<and>
   list_all (\<lambda>s. signal_ok s \<and> 0 < length (sig_technique_ids s)) (evaluate_rules (DEFAULT_RULES isoformat) ctx)"
proof -
  have "map dr_rule_id (DEFAULT_RULES isoformat) = [''brute_force_authentication'', ''authentication_breakthrough'',
    ''privilege_change_observed'', ''account_created'', ''account_elevated'', ''script_interpreter_execution'',
    ''encoded_command_execution'', ''proxy_binary_execution'', ''ingress_tool_transfer'', ''service_installed'',
    ''scheduled_task_created'', ''audit_log_cleared'', ''security_tooling_disabled'', ''remote_service_activity'',
    ''external_beaconing'']" by (simp add: DEFAULT_RULES_def rule_def)
  moreover have "list_all (\<lambda>r. 0 \<le> dr_weight r \<and> dr_weight r \<le> 10 \<and> dr_technique_ids r \<noteq> []) (DEFAULT_RULES isoformat)"
    by (simp add: DEFAULT_RULES_def rule_def)
  then have "list_all (\<lambda>s. signal_ok s \<and> 0 < length (sig_technique_ids s)) (evaluate_rules (DEFAULT_RULES isoformat) ctx)"
    by (auto simp: list_all_iff evaluate_rules_def signal_of_def signal_ok_def)
  ultimately show ?thesis by simp
qed


section \<open>Witnesses\<close>

definition sample_auth :: "event_type \<Rightarrow> string \<Rightarrow> time \<Rightarrow> normalized_event" where
  "sample_auth ty i tm = (sample_event i tm)\<lparr>ev_type := ty, actor := Some ''eve''\<rparr>"

definition sample_context :: "normalized_event list \<Rightarrow> detection_context" where
  "sample_context es = \<lparr>dc_events = es, dc_window = 10, dc_internal_networks = []\<rparr>"

lemma sample_auth_simps:
  "ev_type (sample_auth ty i tm) = ty" "event_id (sample_auth ty i tm) = i" "event_time (sample_auth ty i tm) = tm"
  "principal (sample_auth ty i tm) = Some (lower ''eve'')"
  by (simp_all add: sample_auth_def sample_event_def principal_def or_else_def or_empty_def)

theorem brute_force_exact_witness:
  "\<exists>m \<in> set (detect_brute_force show_int (sample_context
      (map (\<lambda>k. sample_auth Auth_Failure (show_nat k) (10 * int k)) [0..<5]))). ''0'' \<in> set (rm_event_ids m)"
proof -
  let ?xs = "map (\<lambda>k. sample_auth Auth_Failure (show_nat k) (10 * int k)) [0..<5]"
  have five: "[0..<5] = [0, 1, 2, 3, 4 :: nat]" by (simp add: upt_rec)
  have "distinct (map event_time ?xs)" by (simp add: five sample_auth_simps)
  then have "distinct ?xs" unfolding distinct_map[of event_time] by blast
  moreover have "list_all (\<lambda>e. e \<in> set (dc_events (sample_context ?xs)) \<and> ev_type e = Auth_Failure \<and> principal e = Some (lower ''eve'')) ?xs"
    by (auto simp: list_all_iff sample_auth_simps sample_context_def)
  moreover have "sorted (map event_time ?xs)" "close_knit event_time (dc_window (sample_context ?xs)) ?xs" "5 \<le> length ?xs"
    by (simp_all add: five sample_auth_simps sample_context_def)
  ultimately obtain m where "m \<in> set (detect_brute_force show_int (sample_context ?xs))" "event_id ` set ?xs \<subseteq> set (rm_event_ids m)"
    using brute_force_exact[of "sample_context ?xs" "lower ''eve''" ?xs show_int] by blast
  moreover have "show_nat 0 = ''0''" by code_simp
  then have "''0'' \<in> event_id ` set ?xs" by (simp add: five sample_auth_simps)
  ultimately show ?thesis by blast
qed

lemma sample_acts_as: "acts_as (lower ''eve'') (sample_auth ty i tm)"
  unfolding acts_as_iff[symmetric] by (rule sample_auth_simps)

lemma brute_force_signals_witness:
  "\<exists>s \<in> set (signals_for ''brute_force_authentication'' show_int (sample_context (map (\<lambda>k. sample_auth Auth_Failure (show_nat k) (2 * int k)) [0..<5]))).
     ''0'' \<in> set (sig_event_ids s)"
proof -
  let ?xs = "map (\<lambda>k. sample_auth Auth_Failure (show_nat k) (2 * int k)) [0..<5]"
  have five: "[0..<5] = [0, 1, 2, 3, 4 :: nat]" by (simp add: upt_rec)
  have "distinct (map event_time ?xs)" by (simp add: five sample_auth_simps)
  then have "distinct ?xs" unfolding distinct_map[of event_time] by blast
  moreover have "set ?xs \<subseteq> {e \<in> set (dc_events (sample_context ?xs)). ev_type e = Auth_Failure \<and> acts_as (lower ''eve'') e}"
    by (auto simp: sample_auth_simps sample_acts_as sample_context_def)
  moreover have "\<forall>x \<in> set ?xs. \<forall>y \<in> set ?xs. event_time y - event_time x \<le> dc_window (sample_context ?xs)" "5 \<le> length ?xs"
    by (simp_all add: five sample_auth_simps sample_context_def)
  ultimately obtain s where "s \<in> set (signals_for ''brute_force_authentication'' show_int (sample_context ?xs))" "event_id ` set ?xs \<subseteq> set (sig_event_ids s)"
    using brute_force_signals[of show_int "sample_context ?xs"] by blast
  moreover have "show_nat 0 = ''0''" by code_simp
  then have "''0'' \<in> event_id ` set ?xs" by (simp add: five sample_auth_simps)
  ultimately show ?thesis by blast
qed

lemma breakthrough_signals_witness:
  "\<exists>s \<in> set (signals_for ''authentication_breakthrough'' show_int (sample_context [sample_auth Auth_Failure ''a'' 0, sample_auth Auth_Failure ''b'' 1,
      sample_auth Auth_Failure ''c'' 2, sample_auth Auth_Success ''d'' 3])). suffix [''a'', ''b'', ''c'', ''d''] (sig_event_ids s)"
proof -
  let ?r = "[sample_auth Auth_Failure ''a'' 0, sample_auth Auth_Failure ''b'' 1, sample_auth Auth_Failure ''c'' 2]"
  let ?e = "sample_auth Auth_Success ''d'' 3"
  have "timeline {Auth_Failure, Auth_Success} (lower ''eve'') (?r @ [?e]) = sort_key (\<lambda>e. (event_time e, event_id e)) (?r @ [?e])"
    by (simp add: timeline_def sample_auth_simps sample_acts_as)
  also have "\<dots> = ?r @ [?e]" by (rule sort_key_id_if_sorted) (simp add: sample_auth_simps)
  finally have "timeline {Auth_Failure, Auth_Success} (lower ''eve'') (dc_events (sample_context (?r @ [?e]))) = [] @ ?r @ ?e # []" by (simp add: sample_context_def)
  moreover have "3 \<le> length ?r" "list_all (\<lambda>x. ev_type x = Auth_Failure) ?r" "ev_type ?e = Auth_Success"
    "event_time ?e - event_time (hd ?r) \<le> dc_window (sample_context (?r @ [?e]))" by (simp_all add: sample_auth_simps sample_context_def)
  ultimately have "\<exists>s \<in> set (signals_for ''authentication_breakthrough'' show_int (sample_context (?r @ [?e]))). suffix (map event_id (?r @ [?e])) (sig_event_ids s)"
    using conjunct2[OF breakthrough_signals[of show_int "sample_context (?r @ [?e])"]] by blast
  then show ?thesis by (simp add: sample_auth_simps)
qed

theorem breakthrough_exact_witness:
  "\<exists>m \<in> set (detect_breakthrough show_int (sample_context [sample_auth Auth_Failure ''a'' 0, sample_auth Auth_Failure ''b'' 1,
      sample_auth Auth_Failure ''c'' 2, sample_auth Auth_Success ''d'' 3])). suffix [''a'', ''b'', ''c'', ''d''] (rm_event_ids m)"
proof -
  let ?r = "[sample_auth Auth_Failure ''a'' 0, sample_auth Auth_Failure ''b'' 1, sample_auth Auth_Failure ''c'' 2]"
  let ?e = "sample_auth Auth_Success ''d'' 3"
  let ?types = "[Auth_Failure, Auth_Success]"
  have eq: "[(the (principal e), e). e \<leftarrow> ?r @ [?e], ev_type e \<in> set ?types, principal e \<noteq> None] =
      map (Pair (lower ''eve'')) (?r @ [?e])" by (simp add: sample_auth_simps)
  have "by_time (?r @ [?e]) = ?r @ [?e]"
    unfolding by_time_def by (rule sort_key_id_if_sorted) (simp add: sample_auth_simps)
  then have g: "(lower ''eve'', [] @ ?r @ ?e # []) \<in> set (group_by_principal (dc_events (sample_context (?r @ [?e]))) ?types)"
    unfolding group_by_principal_def sample_context_def detection_context.simps eq
    by (simp add: dict_group_def)
  show ?thesis
    using breakthrough_exact[of undefined show_int "sample_context (?r @ [?e])" "lower ''eve''" "?r @ [?e]" "[]" ?r ?e "[]"] g
    by (simp add: sample_auth_simps sample_context_def)
qed

end
