(* ===== verification/Attack.thy ===== *)
theory Attack
  imports Detection
begin

text \<open>
  The technique catalogue and mapper (\<^verbatim>\<open>tools/attack.py\<close>). Shown: a mapping is made exactly for the catalogued
  techniques the signals name, in any letter case, described from the catalogue alone and supported by the events of
  the signals that name it, with a confidence short of certainty; and the default rules name catalogued techniques
  only. The dash in a citation's title is written \<open>--\<close>.
\<close>

section \<open>Catalogue\<close>

record technique_definition =
  td_id :: string
  td_name :: string
  td_tactics :: "string list"

definition technique_url :: "technique_definition \<Rightarrow> string" where
  "technique_url t =
     (let base = takeWhile (\<lambda>c. c \<noteq> CHR ''.'') (td_id t); sub = drop (length base + 1) (td_id t) in
      if sub = [] then ''https://attack.mitre.org/techniques/'' @ base @ ''/''
      else ''https://attack.mitre.org/techniques/'' @ base @ ''/'' @ sub @ ''/'')"

definition technique_citation :: "technique_definition \<Rightarrow> citation" where
  "technique_citation t = \<lparr>cit_source_id = ''mitre_attack'', cit_source = ''MITRE ATT&CK'', cit_url = Some (technique_url t),
     cit_chunk_id = None, cit_title = Some (td_id t @ '' -- '' @ td_name t), cit_trust_tier = Some Authoritative,
     cit_published_at = None\<rparr>"

definition CATALOGUE :: "technique_definition list" where
  "CATALOGUE = map (\<lambda>(i, n, ts). \<lparr>td_id = i, td_name = n, td_tactics = ts\<rparr>)
     [(''T1021'', ''Remote Services'', [''Lateral Movement'']),
      (''T1027'', ''Obfuscated Files or Information'', [''Defense Evasion'']),
      (''T1041'', ''Exfiltration Over C2 Channel'', [''Exfiltration'']),
      (''T1053'', ''Scheduled Task/Job'', [''Execution'', ''Persistence'', ''Privilege Escalation'']),
      (''T1059'', ''Command and Scripting Interpreter'', [''Execution'']),
      (''T1059.001'', ''Command and Scripting Interpreter: PowerShell'', [''Execution'']),
      (''T1068'', ''Exploitation for Privilege Escalation'', [''Privilege Escalation'']),
      (''T1070'', ''Indicator Removal'', [''Defense Evasion'']),
      (''T1070.001'', ''Indicator Removal: Clear Windows Event Logs'', [''Defense Evasion'']),
      (''T1071'', ''Application Layer Protocol'', [''Command and Control'']),
      (''T1078'', ''Valid Accounts'', [''Defense Evasion'', ''Persistence'', ''Privilege Escalation'', ''Initial Access'']),
      (''T1098'', ''Account Manipulation'', [''Persistence'', ''Privilege Escalation'']),
      (''T1105'', ''Ingress Tool Transfer'', [''Command and Control'']),
      (''T1110'', ''Brute Force'', [''Credential Access'']),
      (''T1136'', ''Create Account'', [''Persistence'']),
      (''T1218'', ''System Binary Proxy Execution'', [''Defense Evasion'']),
      (''T1543'', ''Create or Modify System Process'', [''Persistence'', ''Privilege Escalation'']),
      (''T1548'', ''Abuse Elevation Control Mechanism'', [''Privilege Escalation'', ''Defense Evasion'']),
      (''T1562'', ''Impair Defenses'', [''Defense Evasion'']),
      (''T1569'', ''System Services'', [''Execution''])]"

definition TECHNIQUES :: "(string, technique_definition) dict" where
  "TECHNIQUES = map (\<lambda>t. (td_id t, t)) CATALOGUE"

definition known_technique :: "string \<Rightarrow> technique_definition option" where
  "known_technique technique_id = map_of TECHNIQUES (upper technique_id)"


section \<open>Mapping\<close>

record technique_mapping =
  tm_technique_id :: string
  tm_name :: string
  tm_tactics :: "string list"
  tm_rationale :: string
  tm_event_ids :: "string list"
  tm_confidence :: pyfloat
  tm_citations :: "citation list"

definition attack_confidence :: "detection_signal list \<Rightarrow> pyfloat" where
  "attack_confidence signals =
     (let strongest = Max (set (map weight signals));
          corroboration = rnd (rnd (12/100) * of_nat (length signals - 1)) in
      py_round 4 (min (rnd (95/100)) (rnd (rnd (rnd (40/100) + rnd (strongest / 20)) + corroboration))))"

definition attack_event_ids :: "detection_signal list \<Rightarrow> string list" where
  "attack_event_ids signals = unique (concat (map sig_event_ids signals))"

definition technique_pairs :: "detection_signal list \<Rightarrow> (string \<times> detection_signal) list" where
  "technique_pairs signals =
     [(td_id (the (known_technique t)), s). s \<leftarrow> signals, t \<leftarrow> sig_technique_ids s, known_technique t \<noteq> None]"

definition grouped_techniques :: "detection_signal list \<Rightarrow> (string, detection_signal list) dict" where
  "grouped_techniques signals = dict_group (technique_pairs signals)"

definition make_mapping :: "string \<Rightarrow> detection_signal list \<Rightarrow> technique_mapping" where
  "make_mapping technique_id contributing =
     (let t = the (map_of TECHNIQUES technique_id) in
      \<lparr>tm_technique_id = technique_id, tm_name = td_name t, tm_tactics = td_tactics t,
       tm_rationale = join ''; '' (map sig_name contributing), tm_event_ids = attack_event_ids contributing,
       tm_confidence = attack_confidence contributing, tm_citations = [technique_citation t]\<rparr>)"

definition map_techniques :: "detection_signal list \<Rightarrow> technique_mapping list" where
  "map_techniques signals =
     map (\<lambda>(technique_id, contributing). make_mapping technique_id contributing) (sort_key fst (grouped_techniques signals))"


section \<open>Facts\<close>

lemma known_technique_id: "known_technique i = Some t \<Longrightarrow> td_id t = upper i \<and> t \<in> set CATALOGUE"
  unfolding known_technique_def TECHNIQUES_def by (auto dest!: map_of_SomeD)

lemma techniques_lookup: "t \<in> set CATALOGUE \<Longrightarrow> map_of TECHNIQUES (td_id t) = Some t"
proof -
  have "distinct (map td_id CATALOGUE)" by (simp add: CATALOGUE_def)
  then have "distinct (map fst TECHNIQUES)" by (simp add: TECHNIQUES_def o_def)
  then show "t \<in> set CATALOGUE \<Longrightarrow> map_of TECHNIQUES (td_id t) = Some t"
    by (simp add: map_of_eq_Some_iff) (auto simp: TECHNIQUES_def)
qed

text \<open>A signal supports a technique when it names it, in any letter case.\<close>

definition supports :: "string \<Rightarrow> detection_signal \<Rightarrow> bool" where
  "supports k s = list_ex (\<lambda>t. upper t = k) (sig_technique_ids s)"

lemma technique_pairs_mem:
  "(k, s) \<in> set (technique_pairs signals) \<longleftrightarrow> s \<in> set signals \<and> supports k s \<and> k \<in> td_id ` set CATALOGUE"
proof -
  have "(k, s) \<in> set (technique_pairs signals) \<longleftrightarrow>
      s \<in> set signals \<and> (\<exists>t d. t \<in> set (sig_technique_ids s) \<and> known_technique t = Some d \<and> td_id d = k)"
    unfolding technique_pairs_def by force
  moreover have "(\<exists>d. known_technique t = Some d \<and> td_id d = k) \<longleftrightarrow> upper t = k \<and> k \<in> td_id ` set CATALOGUE" for t
    using known_technique_id[of t] techniques_lookup by (auto simp: known_technique_def)
  ultimately show ?thesis by (auto simp: supports_def list_ex_iff)
qed

lemma grouped_member:
  "(k, ss) \<in> set (grouped_techniques signals) \<longleftrightarrow> ss = values_for k (technique_pairs signals) \<and> ss \<noteq> []"
  unfolding grouped_techniques_def by (rule dict_group_member)

lemma grouped_set:
  assumes "(k, ss) \<in> set (grouped_techniques signals)"
  shows "set ss = {s \<in> set signals. supports k s}" "k \<in> td_id ` set CATALOGUE" "ss \<noteq> []"
proof -
  have ne: "ss \<noteq> []" and "ss = values_for k (technique_pairs signals)" using assms unfolding grouped_member by blast+
  then have s: "set ss = {s. (k, s) \<in> set (technique_pairs signals)}" by (simp add: values_for_set)
  show "ss \<noteq> []" by (rule ne)
  then show "k \<in> td_id ` set CATALOGUE" using s technique_pairs_mem by (cases ss) auto
  then show "set ss = {s \<in> set signals. supports k s}" using s technique_pairs_mem by auto
qed

lemma grouped_exists:
  assumes "s \<in> set signals" "supports k s" "k \<in> td_id ` set CATALOGUE"
  shows "\<exists>ss. (k, ss) \<in> set (grouped_techniques signals)"
proof -
  have "(k, s) \<in> set (technique_pairs signals)" using assms technique_pairs_mem by blast
  then have "s \<in> set (values_for k (technique_pairs signals))" by (simp add: values_for_set)
  then show ?thesis unfolding grouped_member by (cases "values_for k (technique_pairs signals)") auto
qed

lemma map_techniques_iff:
  "m \<in> set (map_techniques signals) \<longleftrightarrow> (\<exists>k ss. (k, ss) \<in> set (grouped_techniques signals) \<and> m = make_mapping k ss)"
  unfolding map_techniques_def by force

lemma confidence_bounds:
  assumes "ss \<noteq> []" "\<forall>s \<in> set ss. signal_ok s"
  shows "0 \<le> attack_confidence ss" "attack_confidence ss \<le> py_round 4 (rnd (95/100))"
proof -
  have "Max (weight ` set ss) \<in> weight ` set ss" using assms(1) by (intro Max_in) auto
  then have "0 \<le> Max (weight ` set ss)" using assms(2) by (auto simp: signal_ok_def)
  then have "0 \<le> rnd (rnd (rnd (40/100) + rnd (Max (weight ` set ss) / 20)) + rnd (rnd (12/100) * of_nat (length ss - 1)))"
    by (intro rnd_nonneg add_nonneg_nonneg mult_nonneg_nonneg) auto
  then show "0 \<le> attack_confidence ss"
    unfolding attack_confidence_def Let_def set_map by (intro py_round_nonneg) (simp add: rnd_nonneg)
  show "attack_confidence ss \<le> py_round 4 (rnd (95/100))"
    unfolding attack_confidence_def Let_def by (intro py_round_mono) simp
qed



lemma mapped_ids: "map tm_technique_id (map_techniques signals) = map fst (sort_key fst (grouped_techniques signals))"
  by (simp add: map_techniques_def o_def make_mapping_def Let_def split_beta)

lemma mapped_set:
  "set (map tm_technique_id (map_techniques signals)) = {k. k \<in> td_id ` set CATALOGUE \<and> list_ex (supports k) signals}"
    (is "?L = ?R")
proof (intro equalityI subsetI)
  fix k assume "k \<in> ?L"
  then obtain ss where "(k, ss) \<in> set (grouped_techniques signals)" unfolding mapped_ids by auto
  from grouped_set[OF this] show "k \<in> ?R" by (cases ss) (auto simp: list_ex_iff)
next
  fix k assume "k \<in> ?R"
  then obtain s where "s \<in> set signals" "supports k s" "k \<in> td_id ` set CATALOGUE" by (auto simp: list_ex_iff)
  from grouped_exists[OF this] show "k \<in> ?L" unfolding mapped_ids by force
qed


section \<open>Properties\<close>

text \<open>A technique is mapped exactly when it is catalogued and some signal names it, once, in the order of the
  identifiers. An identifier outside the catalogue never appears.\<close>

theorem mapped_iff_catalogued:
  "set (map tm_technique_id (map_techniques signals)) =
     {k. k \<in> td_id ` set CATALOGUE \<and> list_ex (supports k) signals} \<and>
   sorted_wrt (<) (map tm_technique_id (map_techniques signals))"
proof
  have "sorted (map fst (sort_key fst (grouped_techniques signals)))" by simp
  moreover have "distinct (map fst (grouped_techniques signals))" unfolding grouped_techniques_def by (rule dict_group_distinct)
  then have "distinct (map fst (sort_key fst (grouped_techniques signals)))" by (simp only: distinct_map set_sort distinct_sort)
  ultimately show "sorted_wrt (<) (map tm_technique_id (map_techniques signals))" unfolding mapped_ids by (simp add: strict_sorted_iff)
qed (rule mapped_set)

text \<open>A mapping is described from the catalogue and cites it, names exactly the events of the signals that name its
  technique, each once, and is never certain: its confidence lies between 0 and 0.95.\<close>

theorem mapping_supported:
  assumes "m \<in> set (map_techniques signals)" "list_all signal_ok signals"
  shows "(\<exists>t \<in> set CATALOGUE. tm_technique_id m = td_id t \<and> tm_name m = td_name t \<and> tm_tactics m = td_tactics t \<and>
      tm_citations m = [technique_citation t]) \<and>
    distinct (tm_event_ids m) \<and>
    set (tm_event_ids m) = \<Union> (set ` sig_event_ids ` {s \<in> set signals. supports (tm_technique_id m) s}) \<and>
    0 \<le> tm_confidence m \<and> tm_confidence m \<le> py_round 4 (rnd (95/100))"
proof -
  obtain k ss where g: "(k, ss) \<in> set (grouped_techniques signals)" and m: "m = make_mapping k ss"
    using assms(1) map_techniques_iff by blast
  note f = grouped_set[OF g]
  obtain t where t: "t \<in> set CATALOGUE" "td_id t = k" using f(2) by blast
  have lookup: "map_of TECHNIQUES k = Some t" using techniques_lookup[OF t(1)] t(2) by simp
  have ok: "\<forall>s \<in> set ss. signal_ok s" using assms(2) f(1) by (auto simp: list_all_iff)
  have id: "tm_technique_id m = k" by (simp add: m make_mapping_def Let_def)
  have "set (tm_event_ids m) = \<Union> (set ` sig_event_ids ` set ss)" "distinct (tm_event_ids m)"
    by (auto simp: m make_mapping_def Let_def attack_event_ids_def)
  moreover have "0 \<le> tm_confidence m" "tm_confidence m \<le> py_round 4 (rnd (95/100))"
    using confidence_bounds[OF f(3) ok] by (simp_all add: m make_mapping_def Let_def)
  ultimately show ?thesis using t lookup unfolding id f(1)
    by (auto simp: m make_mapping_def Let_def intro!: bexI[of _ t])
qed

text \<open>The rules and the catalogue fit together: whatever the evidence, no technique a default rule names is
  dropped for want of a catalogue entry.\<close>

theorem default_rules_catalogued:
  "list_all (\<lambda>s. list_all (\<lambda>t. t \<in> set (map tm_technique_id (map_techniques (evaluate_rules (DEFAULT_RULES isoformat) ctx))))
     (sig_technique_ids s)) (evaluate_rules (DEFAULT_RULES isoformat) ctx)"
proof -
  have "list_all (\<lambda>r. list_all (\<lambda>t. t \<in> set (map td_id CATALOGUE)) (dr_technique_ids r)) (DEFAULT_RULES isoformat)"
    by (simp add: DEFAULT_RULES_def rule_def CATALOGUE_def)
  moreover have "list_all (\<lambda>r. list_all (\<lambda>t. upper t = t) (dr_technique_ids r)) (DEFAULT_RULES isoformat)"
    by (simp add: DEFAULT_RULES_def rule_def upper_def upper_char_def Let_def)
  ultimately have "t \<in> td_id ` set CATALOGUE \<and> supports t s"
    if "s \<in> set (evaluate_rules (DEFAULT_RULES isoformat) ctx)" "t \<in> set (sig_technique_ids s)" for s t
    using that by (auto simp: evaluate_rules_def signal_of_def supports_def list_ex_iff list_all_iff)
  then show ?thesis unfolding mapped_set by (auto simp: list_all_iff list_ex_iff)
qed

theorem mapping_supported_witness:
  "\<exists>m \<in> set (map_techniques [\<lparr>rule_id = ''r'', sig_name = ''n'', sig_description = [], weight = 5, sig_event_ids = [''e''],
       sig_technique_ids = [''t1110''], sig_detail = []\<rparr>]). tm_name m = ''Brute Force'' \<and> set (tm_event_ids m) = {''e''}"
proof -
  let ?s = "\<lparr>rule_id = ''r'', sig_name = ''n'', sig_description = [], weight = 5, sig_event_ids = [''e''],
       sig_technique_ids = [''t1110''], sig_detail = []\<rparr>"
  have up: "upper ''t1110'' = ''T1110''" by code_simp
  then have sup: "supports ''T1110'' ?s" by (simp add: supports_def)
  have cat: "''T1110'' \<in> td_id ` set CATALOGUE" by (simp add: CATALOGUE_def)
  obtain ss where "(''T1110'', ss) \<in> set (grouped_techniques [?s])" using grouped_exists[OF _ sup cat, of "[?s]"] by auto
  then have m: "make_mapping ''T1110'' ss \<in> set (map_techniques [?s])" using map_techniques_iff by blast
  have id: "tm_technique_id (make_mapping ''T1110'' ss) = ''T1110''" by (simp add: make_mapping_def Let_def)
  have "map_of TECHNIQUES ''T1110'' = Some \<lparr>td_id = ''T1110'', td_name = ''Brute Force'', td_tactics = [''Credential Access'']\<rparr>"
    by (simp add: TECHNIQUES_def CATALOGUE_def)
  then have name: "td_name t = ''Brute Force''" if "t \<in> set CATALOGUE" "''T1110'' = td_id t" for t
    using techniques_lookup[OF that(1)] unfolding that(2)[symmetric] by (metis option.inject technique_definition.select_convs(2))
  have ok: "list_all signal_ok [?s]" by (simp add: signal_ok_def)
  note p = mapping_supported[OF m ok, unfolded id]
  obtain t where t: "t \<in> set CATALOGUE" "''T1110'' = td_id t" "tm_name (make_mapping ''T1110'' ss) = td_name t" using p by blast
  have "tm_name (make_mapping ''T1110'' ss) = ''Brute Force''" unfolding t(3) by (rule name[OF t(1,2)])
  moreover have "{s \<in> set [?s]. supports ''T1110'' s} = {?s}" using sup by auto
  then have "set (tm_event_ids (make_mapping ''T1110'' ss)) = {''e''}" using p by simp
  ultimately show ?thesis using m by blast
qed

end
