(* ===== verification/Severity.thy ===== *)
theory Severity
  imports Domain
begin

text \<open>
  Severity scoring, verdict, triage priority and escalation (\<^verbatim>\<open>tools/severity.py\<close>), and the
  risk prioritisation that shares its bands (\<^verbatim>\<open>services/risk.py\<close>). All arithmetic is the code's
  float arithmetic. A set of rule identifiers is its list of first occurrences.
\<close>

section \<open>Severity\<close>

definition CORROBORATION_MIN_WEIGHT :: pyfloat where "CORROBORATION_MIN_WEIGHT = 4"
definition MALICIOUS_RULE_COUNT :: nat where "MALICIOUS_RULE_COUNT = 2"
definition MALICIOUS_SCORE :: pyfloat where "MALICIOUS_SCORE = 7"
definition AMBIGUITY_CONFIDENCE :: pyfloat where "AMBIGUITY_CONFIDENCE = rnd (6 / 10)"

definition severity_bands :: "(pyfloat \<times> severity) list" where
  "severity_bands = [(9, Sev_Critical), (7, Sev_High), (4, Sev_Medium), (rnd (1 / 10), Sev_Low)]"

fun first_band :: "pyfloat \<Rightarrow> (pyfloat \<times> severity) list \<Rightarrow> severity" where
  "first_band score [] = Sev_Info"
| "first_band score ((threshold, level) # bands) =
     (if score \<ge> threshold then level else first_band score bands)"

definition severity_level :: "pyfloat \<Rightarrow> severity" where
  "severity_level score = first_band score severity_bands"

definition corroborating_rules :: "detection_signal list \<Rightarrow> string list" where
  "corroborating_rules signals =
     unique (map rule_id (filter (\<lambda>s. weight s \<ge> CORROBORATION_MIN_WEIGHT) signals))"

definition score_severity :: "detection_signal list \<Rightarrow> string list \<Rightarrow> severity_assessment" where
  "score_severity signals critical_assets_involved = (case signals of
     [] \<Rightarrow> \<lparr>sa_score = 0, sa_level = Sev_Info,
            sa_rationale = ''No detection heuristic matched the available evidence.'',
            sa_factors = [''no signals fired'']\<rparr>
   | s # rest \<Rightarrow>
     let strongest = max_by weight s rest;
         corroborating = corroborating_rules signals;
         corroboration = max 0 (min 2 (rnd ((1 / 2) * of_int (int (length corroborating) - 1))));
         context_only = filter (\<lambda>r. r \<notin> set corroborating) (unique (map rule_id signals));
         asset_bonus = (if critical_assets_involved \<noteq> [] then 1 else 0);
         factors =
           [''strongest signal '' @ repr_str (rule_id strongest) @ '' contributes ''
              @ fmt_fixed 1 (weight strongest)]
           @ (if corroboration \<noteq> 0
              then [show_nat (length corroborating) @ '' substantive rules corroborate, adding ''
                    @ fmt_fixed 1 corroboration] else [])
           @ (if context_only \<noteq> []
              then [show_nat (length context_only)
                    @ '' context-only rule(s) recorded without affecting the score: ''
                    @ join '', '' (sort context_only)] else [])
           @ (if asset_bonus \<noteq> 0
              then [''critical asset(s) '' @ join '', '' (sort critical_assets_involved)
                    @ '' involved, adding '' @ fmt_fixed 1 asset_bonus] else []);
         score = py_round 1 (min 10 (rnd (rnd (weight strongest + corroboration) + asset_bonus)));
         level = severity_level score
     in \<lparr>sa_score = score, sa_level = level,
         sa_rationale = severity_title level @ '' ('' @ float_str score @ ''/10): ''
           @ lower (sig_name strongest) @ '' with '' @ show_nat (length corroborating)
           @ '' substantive detection(s) across ''
           @ show_nat (length (unique (concat (map sig_event_ids signals)))) @ '' event(s).'',
         sa_factors = factors\<rparr>)"

definition derive_verdict ::
  "severity_assessment \<Rightarrow> detection_signal list \<Rightarrow> ioc_indicator list \<Rightarrow> verdict" where
  "derive_verdict severity signals iocs =
     (if signals = [] then Benign
      else if list_ex is_hostile iocs then Malicious
      else if sa_score severity \<ge> MALICIOUS_SCORE
              \<and> length (corroborating_rules signals) \<ge> MALICIOUS_RULE_COUNT then Malicious
      else Suspicious)"

definition derive_priority :: "verdict \<Rightarrow> severity_assessment \<Rightarrow> bool \<Rightarrow> triage_priority" where
  "derive_priority verdict severity critical_asset_involved =
     (if verdict = Benign then Prio_Low
      else if sa_level severity = Sev_Critical
              \<or> (critical_asset_involved \<and> verdict = Malicious) then Prio_Urgent
      else if sa_level severity = Sev_High \<or> critical_asset_involved then Prio_High
      else if sa_level severity = Sev_Medium then Prio_Medium
      else Prio_Low)"

definition assess_escalation ::
  "verdict \<Rightarrow> severity_assessment \<Rightarrow> pyfloat \<Rightarrow> bool \<Rightarrow> string list \<Rightarrow> bool \<times> string option" where
  "assess_escalation verdict severity conf critical_asset_involved coverage_gaps =
     (let high_impact = sa_level severity \<in> {Sev_High, Sev_Critical} \<or> critical_asset_involved;
          lvl = severity_value (sa_level severity)
      in if \<not> high_impact \<or> verdict = Benign then (False, None)
         else if conf < AMBIGUITY_CONFIDENCE then
           (True, Some (lvl @ '' severity assessed with low confidence ('' @ fmt_fixed 2 conf
             @ ''); the evidence is not conclusive enough to route routinely.''))
         else if coverage_gaps \<noteq> [] then
           (True, Some (lvl @ '' severity assessed with '' @ show_nat (length coverage_gaps)
             @ '' coverage gap(s); part of the evidence picture is missing.''))
         else if verdict = Suspicious then
           (True, Some (lvl @ '' severity but the verdict is suspicious rather than ''
             @ ''conclusive; a human should decide before anything follows from it.''))
         else (False, None))"


section \<open>Risk\<close>

record risk_factor =
  rf_name :: string
  rf_weight :: pyfloat
  rf_detail :: string

record risk_score =
  rs_score :: pyfloat
  rs_level :: severity
  rs_rationale :: string
  rs_factors :: "risk_factor list"

record risk_inputs =
  ri_severity_score :: pyfloat
  ri_applicability_confirmed :: bool
  ri_exploitation_observed :: bool
  ri_internet_reachable :: bool
  ri_asset_critical :: bool
  ri_subject :: string

definition EXPLOITATION_WEIGHT :: pyfloat where "EXPLOITATION_WEIGHT = 3 / 2"
definition INTERNET_REACHABLE_WEIGHT :: pyfloat where "INTERNET_REACHABLE_WEIGHT = 1"
definition CRITICAL_ASSET_WEIGHT :: pyfloat where "CRITICAL_ASSET_WEIGHT = 1"
definition UNCONFIRMED_DISCOUNT :: pyfloat where "UNCONFIRMED_DISCOUNT = rnd (6 / 10)"

text \<open>The score before clamping: the additive factors in order, then the discount.\<close>

definition raised_score :: "risk_inputs \<Rightarrow> pyfloat" where
  "raised_score i =
     (let s0 = ri_severity_score i;
          s1 = (if ri_exploitation_observed i then rnd (s0 + EXPLOITATION_WEIGHT) else s0);
          s2 = (if ri_internet_reachable i then rnd (s1 + INTERNET_REACHABLE_WEIGHT) else s1)
      in (if ri_asset_critical i then rnd (s2 + CRITICAL_ASSET_WEIGHT) else s2))"

definition risk_name_text :: "string \<Rightarrow> string" where
  "risk_name_text = map (\<lambda>c. if c = CHR ''_'' then CHR '' '' else c)"

definition score_risk :: "risk_inputs \<Rightarrow> risk_score" where
  "score_risk i =
     (let raised = raised_score i;
          discounted = rnd (raised * UNCONFIRMED_DISCOUNT);
          factors =
            [\<lparr>rf_name = ''severity'', rf_weight = py_round 2 (ri_severity_score i),
              rf_detail = ''base severity of '' @ ri_subject i\<rparr>]
            @ (if ri_exploitation_observed i
               then [\<lparr>rf_name = ''exploitation_observed'', rf_weight = EXPLOITATION_WEIGHT,
                      rf_detail = ''the investigation tied observed activity to this finding''\<rparr>]
               else [])
            @ (if ri_internet_reachable i
               then [\<lparr>rf_name = ''internet_reachable'', rf_weight = INTERNET_REACHABLE_WEIGHT,
                      rf_detail = ''exploitable over the network without credentials or user interaction''\<rparr>]
               else [])
            @ (if ri_asset_critical i
               then [\<lparr>rf_name = ''critical_asset'', rf_weight = CRITICAL_ASSET_WEIGHT,
                      rf_detail = ''a business-critical asset is affected''\<rparr>]
               else [])
            @ (if \<not> ri_applicability_confirmed i
               then [\<lparr>rf_name = ''unconfirmed_applicability'',
                      rf_weight = - py_round 2 (rnd (raised - discounted)),
                      rf_detail = ''applicability was not confirmed against the asset inventory''\<rparr>]
               else []);
          score = (if \<not> ri_applicability_confirmed i then discounted else raised);
          final = py_round 1 (min 10 (max 0 score));
          level = severity_level final
      in \<lparr>rs_score = final, rs_level = level,
          rs_rationale = severity_title level @ '' risk ('' @ float_str final @ ''/10) for ''
            @ ri_subject i @ '': '' @ join '', '' (map (risk_name_text \<circ> rf_name) factors) @ ''.'',
          rs_factors = factors\<rparr>)"

definition derive_risk_priority :: "risk_score \<Rightarrow> bool \<Rightarrow> triage_priority" where
  "derive_risk_priority risk exploitation_observed =
     (if exploitation_observed then Prio_Urgent
      else if rs_score risk \<ge> 9 then Prio_Urgent
      else if rs_score risk \<ge> 7 then Prio_High
      else if rs_score risk \<ge> 4 then Prio_Medium
      else Prio_Low)"

definition combine_risk :: "risk_score list \<Rightarrow> string \<Rightarrow> risk_score" where
  "combine_risk scores subject = (case scores of
     [] \<Rightarrow> \<lparr>rs_score = 0, rs_level = severity_level 0,
            rs_rationale = ''No remediable finding was identified for '' @ subject @ ''.'',
            rs_factors = []\<rparr>
   | r # rest \<Rightarrow> (let worst = max_by rs_score r rest in
       \<lparr>rs_score = rs_score worst, rs_level = rs_level worst,
        rs_rationale = severity_title (rs_level worst) @ '' overall risk ('' @ float_str (rs_score worst)
          @ ''/10) for '' @ subject @ '', set by its most serious of '' @ show_nat (length scores)
          @ '' finding(s): '' @ rs_rationale worst,
        rs_factors = rs_factors worst\<rparr>))"

fun verdict_severity_floor :: "verdict \<Rightarrow> pyfloat" where
  "verdict_severity_floor Malicious = 7"
| "verdict_severity_floor Suspicious = 4"
| "verdict_severity_floor Benign = 0"


section \<open>Facts\<close>

lemma severity_level_mono: "a \<le> b \<Longrightarrow> severity_level a \<le> severity_level b"
proof -
  have t: "rnd (1 / 10) \<le> 1" by (rule rnd_le_1) simp
  assume "a \<le> b"
  with t show ?thesis by (auto simp: severity_level_def severity_bands_def less_eq_severity_def)
qed

lemma raised_score_ge:
  assumes "rnd (ri_severity_score i) = ri_severity_score i"
  shows "ri_severity_score i \<le> raised_score i" and "rnd (raised_score i) = raised_score i"
proof -
  have up: "rnd a = a \<Longrightarrow> 0 \<le> d \<Longrightarrow> a \<le> rnd (a + d)" for a d
    by (rule rnd_ge_float) auto
  have "ri_severity_score i \<le> rnd (rnd (ri_severity_score i + 3 / 2) + 1)"
    using up[of "ri_severity_score i" "3 / 2"] up[of "rnd (ri_severity_score i + 3 / 2)" 1] assms
    by simp
  moreover have "ri_severity_score i \<le> rnd (rnd (ri_severity_score i + 1) + 1)"
    using up[of "ri_severity_score i" 1] up[of "rnd (ri_severity_score i + 1)" 1] assms by simp
  moreover have "rnd (rnd (ri_severity_score i + 3 / 2) + 1)
      \<le> rnd (rnd (rnd (ri_severity_score i + 3 / 2) + 1) + 1)"
    by (rule up) auto
  ultimately show "ri_severity_score i \<le> raised_score i"
    using up[of "ri_severity_score i" "3 / 2"] up[of "ri_severity_score i" 1] assms
    by (auto simp: raised_score_def Let_def EXPLOITATION_WEIGHT_def
        INTERNET_REACHABLE_WEIGHT_def CRITICAL_ASSET_WEIGHT_def)
  show "rnd (raised_score i) = raised_score i"
    using assms by (simp add: raised_score_def Let_def)
qed

text \<open>Switching a factor on never lowers the raised score.\<close>

definition risk_inputs_le :: "risk_inputs \<Rightarrow> risk_inputs \<Rightarrow> bool" where
  "risk_inputs_le i j \<longleftrightarrow> ri_severity_score i \<le> ri_severity_score j
     \<and> (ri_exploitation_observed i \<longrightarrow> ri_exploitation_observed j)
     \<and> (ri_internet_reachable i \<longrightarrow> ri_internet_reachable j)
     \<and> (ri_asset_critical i \<longrightarrow> ri_asset_critical j)
     \<and> (ri_applicability_confirmed i \<longrightarrow> ri_applicability_confirmed j)"

lemma bump_mono:
  "a \<le> b \<Longrightarrow> (p \<longrightarrow> q) \<Longrightarrow> rnd b = b \<Longrightarrow> 0 \<le> d \<Longrightarrow>
   (if p then rnd (a + d) else a) \<le> (if q then rnd (b + d) else b)"
  using rnd_mono[of "a + d" "b + d"] rnd_mono[of b "b + d"] by (auto intro: order_trans)

lemma bump_float: "rnd b = b \<Longrightarrow> rnd (if q then rnd (b + d) else b) = (if q then rnd (b + d) else b)"
  by simp

lemma raised_score_mono:
  assumes "risk_inputs_le i j" and "rnd (ri_severity_score j) = ri_severity_score j"
  shows "raised_score i \<le> raised_score j"
  unfolding raised_score_def Let_def EXPLOITATION_WEIGHT_def INTERNET_REACHABLE_WEIGHT_def
    CRITICAL_ASSET_WEIGHT_def
  by (intro bump_mono bump_float) (use assms in \<open>auto simp: risk_inputs_le_def\<close>)

lemma discount_le:
  assumes "0 \<le> x" "rnd x = x" shows "rnd (x * UNCONFIRMED_DISCOUNT) \<le> x"
proof -
  have "0 \<le> UNCONFIRMED_DISCOUNT" "UNCONFIRMED_DISCOUNT \<le> 1"
    unfolding UNCONFIRMED_DISCOUNT_def by (auto intro: rnd_nonneg rnd_le_1)
  then have "x * UNCONFIRMED_DISCOUNT \<le> x" using assms(1) by (simp add: mult_left_le)
  then show ?thesis using assms(2) by (rule rnd_le_float)
qed

lemma discount_mono: "0 \<le> x \<Longrightarrow> x \<le> y \<Longrightarrow> rnd (x * UNCONFIRMED_DISCOUNT) \<le> rnd (y * UNCONFIRMED_DISCOUNT)"
  by (intro rnd_mono mult_right_mono) (auto simp: UNCONFIRMED_DISCOUNT_def intro: rnd_nonneg)

lemma score_risk_score:
  "rs_score (score_risk i) = py_round 1 (min 10 (max 0
     (if ri_applicability_confirmed i then raised_score i
      else rnd (raised_score i * UNCONFIRMED_DISCOUNT))))"
  "rs_level (score_risk i) = severity_level (rs_score (score_risk i))"
  by (simp_all add: score_risk_def Let_def)

lemma score_severity_Cons:
  "sa_score (score_severity (s # rest) assets) =
     (let c = max 0 (min 2 (rnd ((1 / 2) * of_int (int (length (corroborating_rules (s # rest))) - 1))))
      in py_round 1 (min 10 (rnd (rnd (weight (max_by weight s rest) + c)
           + (if assets \<noteq> [] then 1 else 0)))))"
  "sa_level (score_severity (s # rest) assets) =
     severity_level (sa_score (score_severity (s # rest) assets))"
  by (simp_all add: score_severity_def Let_def)

lemma corroborating_rules_mem:
  "r \<in> set (corroborating_rules signals) \<longleftrightarrow>
     (\<exists>s \<in> set signals. rule_id s = r \<and> CORROBORATION_MIN_WEIGHT \<le> weight s)"
  by (auto simp: corroborating_rules_def)

lemma corroborating_rules_length:
  "length (corroborating_rules signals) =
     card {rule_id s | s. s \<in> set signals \<and> CORROBORATION_MIN_WEIGHT \<le> weight s}"
  unfolding corroborating_rules_def length_unique by (rule arg_cong[of _ _ card]) auto


section \<open>Properties\<close>

text \<open>For signals whose weights are within the model's range, the severity score lies between
  the (rounded) weight of the strongest signal and 10, and the level is the band of the score. So
  missing context never lowers a score and no volume of signals leaves the scale.\<close>

theorem score_severity_bounds:
  assumes "\<forall>s \<in> set signals. signal_ok s" and "s \<in> set signals" and "rnd (weight s) = weight s"
  shows "py_round 1 (weight s) \<le> sa_score (score_severity signals assets) \<and>
    0 \<le> sa_score (score_severity signals assets) \<and>
    sa_score (score_severity signals assets) \<le> 10 \<and>
    sa_level (score_severity signals assets) = severity_level (sa_score (score_severity signals assets))"
proof -
  obtain a rest where sig: "signals = a # rest" using assms(2) by (cases signals) auto
  define m where "m = max_by weight a rest"
  define c :: rat where "c = max 0 (min 2 (rnd ((1 / 2) * of_int (int (length (corroborating_rules signals)) - 1))))"
  define d :: rat where "d = (if assets \<noteq> [] then 1 else 0)"
  have m: "m \<in> set signals" unfolding m_def sig by (rule max_by_mem)
  have ws: "weight s \<le> weight m" using max_by_ge[of s a rest weight] assms(2) by (simp add: m_def sig)
  have w: "0 \<le> weight m" "weight s \<le> 10" "0 \<le> weight s"
    using m assms(1,2) by (auto simp: signal_ok_def)
  have cd: "0 \<le> c" "0 \<le> d" by (simp_all add: c_def d_def)
  have "weight s \<le> rnd (weight m + c)" using assms(3) ws cd by (intro rnd_ge_float) auto
  then have "weight s \<le> rnd (rnd (weight m + c) + d)" using assms(3) cd by (intro rnd_ge_float) auto
  moreover have score: "sa_score (score_severity signals assets)
      = py_round 1 (min 10 (rnd (rnd (weight m + c) + d)))"
    unfolding sig score_severity_Cons Let_def m_def c_def d_def ..
  ultimately have "py_round 1 (weight s) \<le> sa_score (score_severity signals assets)"
    using w by (auto intro: py_round_mono)
  moreover have "sa_score (score_severity signals assets) \<le> 10"
    unfolding score by (rule py_round_le_10) simp
  moreover have "0 \<le> py_round 1 (weight s)" using w by (intro py_round_nonneg)
  ultimately show ?thesis by (simp add: sig score_severity_Cons(2))
qed

theorem score_severity_bounds_witness:
  "let s = \<lparr>rule_id = ''audit_log_cleared'', sig_name = ''Audit log cleared'',
     sig_description = [], weight = 8, sig_event_ids = [''e1''], sig_technique_ids = [],
     sig_detail = []\<rparr>
   in py_round 1 (weight s) \<le> sa_score (score_severity [s] [''dc01'']) \<and>
      sa_score (score_severity [s] [''dc01'']) \<le> 10"
  using score_severity_bounds[of "[\<lparr>rule_id = ''audit_log_cleared'', sig_name = ''Audit log cleared'',
     sig_description = [], weight = 8, sig_event_ids = [''e1''], sig_technique_ids = [],
     sig_detail = []\<rparr>]" _ "[''dc01'']"]
  by (simp add: signal_ok_def fl_simps Let_def)

text \<open>A context rule (weight below the corroboration threshold) that is not the strongest
  signal is recorded without moving the score, the level or the verdict.\<close>

theorem context_rule_inert:
  assumes "weight x < CORROBORATION_MIN_WEIGHT" and "\<exists>s \<in> set signals. weight x \<le> weight s"
  shows "sa_score (score_severity (signals @ [x]) assets) = sa_score (score_severity signals assets) \<and>
    sa_level (score_severity (signals @ [x]) assets) = sa_level (score_severity signals assets) \<and>
    derive_verdict (score_severity (signals @ [x]) assets) (signals @ [x]) iocs
      = derive_verdict (score_severity signals assets) signals iocs"
proof -
  obtain a rest where sig: "signals = a # rest" using assms(2) by (cases signals) auto
  have rules: "corroborating_rules (signals @ [x]) = corroborating_rules signals"
    using assms(1) by (simp add: corroborating_rules_def)
  have snoc: "max_by f b (xs @ [y]) = (if f (max_by f b xs) < f y then y else max_by f b xs)"
    for f :: "detection_signal \<Rightarrow> rat" and b xs y
    by (induction xs arbitrary: b) auto
  have "weight x \<le> weight (max_by weight a rest)"
    using assms(2) max_by_ge[of _ a rest weight] by (fastforce simp: sig)
  then have best: "max_by weight a (rest @ [x]) = max_by weight a rest" by (simp add: snoc)
  have score: "sa_score (score_severity (signals @ [x]) assets) = sa_score (score_severity signals assets)"
    using rules best by (simp add: sig score_severity_Cons(1))
  then have "sa_level (score_severity (signals @ [x]) assets) = sa_level (score_severity signals assets)"
    by (simp add: sig score_severity_Cons(2))
  with score rules show ?thesis by (simp add: derive_verdict_def sig)
qed

theorem context_rule_inert_witness:
  "let s = \<lparr>rule_id = ''encoded_command_execution'', sig_name = ''n'', sig_description = [],
        weight = 15/2, sig_event_ids = [''e1''], sig_technique_ids = [], sig_detail = []\<rparr>;
       x = s\<lparr>rule_id := ''script_interpreter_execution'', weight := 5/2\<rparr>
   in sa_score (score_severity ([s] @ [x]) []) = sa_score (score_severity [s] [])"
  using context_rule_inert[of
      "\<lparr>rule_id = ''script_interpreter_execution'', sig_name = ''n'', sig_description = [],
        weight = 5/2, sig_event_ids = [''e1''], sig_technique_ids = [], sig_detail = []\<rparr>"
      "[\<lparr>rule_id = ''encoded_command_execution'', sig_name = ''n'', sig_description = [],
        weight = 15/2, sig_event_ids = [''e1''], sig_technique_ids = [], sig_detail = []\<rparr>]" "[]"]
  by (simp add: CORROBORATION_MIN_WEIGHT_def)

text \<open>C35: the verdict is malicious exactly when signals fired and either an indicator was confirmed
  hostile by an enrichment source or the score is at least 7 with two distinct substantive rules;
  in particular one rule alone, however often it fires, is never malicious on its own.\<close>

theorem verdict_malicious_iff:
  "(derive_verdict sev signals iocs = Malicious \<longleftrightarrow>
      signals \<noteq> [] \<and>
      ((\<exists>i \<in> set iocs. enriched i \<and> reputation i \<in> {Rep_Malicious, Rep_Suspicious}) \<or>
       7 \<le> sa_score sev \<and>
         (\<exists>s \<in> set signals. \<exists>t \<in> set signals. 4 \<le> weight s \<and> 4 \<le> weight t \<and> rule_id s \<noteq> rule_id t))) \<and>
   (derive_verdict sev signals iocs = Benign \<longleftrightarrow> signals = [])"
proof -
  let ?R = "set (corroborating_rules signals)"
  have "2 \<le> card ?R \<longleftrightarrow> (\<exists>a \<in> ?R. \<exists>b \<in> ?R. a \<noteq> b)"
    by (metis (no_types, opaque_lifting) List.finite_set card_le_Suc0_iff_eq not_less_eq_eq
        numeral_2_eq_2)
  moreover have "length (corroborating_rules signals) = card ?R"
    by (simp add: corroborating_rules_def length_unique)
  moreover have "(\<exists>a \<in> ?R. \<exists>b \<in> ?R. a \<noteq> b) \<longleftrightarrow>
      (\<exists>s \<in> set signals. \<exists>t \<in> set signals. 4 \<le> weight s \<and> 4 \<le> weight t \<and> rule_id s \<noteq> rule_id t)"
    unfolding Bex_def corroborating_rules_mem CORROBORATION_MIN_WEIGHT_def by blast
  ultimately have two: "2 \<le> length (corroborating_rules signals) \<longleftrightarrow>
      (\<exists>s \<in> set signals. \<exists>t \<in> set signals. 4 \<le> weight s \<and> 4 \<le> weight t \<and> rule_id s \<noteq> rule_id t)"
    by simp
  have hostile: "list_ex is_hostile iocs \<longleftrightarrow>
      (\<exists>i \<in> set iocs. enriched i \<and> reputation i \<in> {Rep_Malicious, Rep_Suspicious})"
    by (simp add: list_ex_iff is_hostile_def)
  show ?thesis
    unfolding derive_verdict_def MALICIOUS_SCORE_def MALICIOUS_RULE_COUNT_def
      two[symmetric] hostile[symmetric]
    by (simp only: split: if_split) simp
qed

text \<open>A case is escalated exactly when it is not benign, its impact is high (a high or critical
  level, or a critical asset) and the picture is ambiguous: confidence below the threshold, a
  recorded coverage gap, or a verdict that is only suspicious. A reason is given exactly then.\<close>

theorem escalation_iff:
  "(fst (assess_escalation v sev conf crit gaps) \<longleftrightarrow>
     v \<noteq> Benign \<and> (Sev_High \<le> sa_level sev \<or> crit) \<and>
     (conf < AMBIGUITY_CONFIDENCE \<or> 0 < length gaps \<or> v = Suspicious)) \<and>
   (snd (assess_escalation v sev conf crit gaps) = None \<longleftrightarrow>
     \<not> fst (assess_escalation v sev conf crit gaps))"
proof -
  have high: "sa_level sev \<in> {Sev_High, Sev_Critical} \<longleftrightarrow> Sev_High \<le> sa_level sev"
    by (cases "sa_level sev") (simp_all add: less_eq_severity_def)
  show ?thesis
    unfolding assess_escalation_def Let_def high
    by (simp only: split: if_split) auto
qed

text \<open>The risk score of a float severity is on the 0-10 scale; observing exploitation, exposure
  to the internet, a critical asset, confirming applicability or a higher base severity never
  lowers it.\<close>

theorem score_risk_monotone:
  assumes "risk_inputs_le i j" and "0 \<le> ri_severity_score i"
    and "rnd (ri_severity_score i) = ri_severity_score i"
    and "rnd (ri_severity_score j) = ri_severity_score j"
  shows "0 \<le> rs_score (score_risk i) \<and> rs_score (score_risk j) \<le> 10 \<and>
    rs_score (score_risk i) \<le> rs_score (score_risk j) \<and>
    rs_level (score_risk i) \<le> rs_level (score_risk j)"
proof -
  have ri: "0 \<le> raised_score i" using raised_score_ge(1)[OF assms(3)] assms(2) by simp
  have le: "raised_score i \<le> raised_score j" by (rule raised_score_mono[OF assms(1,4)])
  let ?s = "\<lambda>k. if ri_applicability_confirmed k then raised_score k
      else rnd (raised_score k * UNCONFIRMED_DISCOUNT)"
  have "?s i \<le> ?s j"
  proof (cases "ri_applicability_confirmed j")
    case True
    then show ?thesis
      using discount_le[OF ri raised_score_ge(2)[OF assms(3)]] le by auto
  next
    case False
    then have "\<not> ri_applicability_confirmed i" using assms(1) by (simp add: risk_inputs_le_def)
    then show ?thesis using False discount_mono[OF ri le] by simp
  qed
  then have "rs_score (score_risk i) \<le> rs_score (score_risk j)"
    unfolding score_risk_score(1) by (intro py_round_mono min.mono max.mono) auto
  then show ?thesis
    using py_round_clamp unfolding score_risk_score(2)
    by (auto simp: score_risk_score(1) intro: severity_level_mono)
qed

theorem score_risk_monotone_witness:
  "let i = \<lparr>ri_severity_score = 15/2, ri_applicability_confirmed = False,
      ri_exploitation_observed = False, ri_internet_reachable = False,
      ri_asset_critical = False, ri_subject = ''x''\<rparr>;
      j = i\<lparr>ri_applicability_confirmed := True, ri_exploitation_observed := True\<rparr>
   in rs_score (score_risk i) \<le> rs_score (score_risk j)"
  using score_risk_monotone[of
    "\<lparr>ri_severity_score = 15/2, ri_applicability_confirmed = False,
      ri_exploitation_observed = False, ri_internet_reachable = False,
      ri_asset_critical = False, ri_subject = ''x''\<rparr>"
    "\<lparr>ri_severity_score = 15/2, ri_applicability_confirmed = True,
      ri_exploitation_observed = True, ri_internet_reachable = False,
      ri_asset_critical = False, ri_subject = ''x''\<rparr>"]
    rnd_half[of 15]
  by (simp add: risk_inputs_le_def)

text \<open>The combined risk of a plan is its worst finding: the score is attained by a finding,
  no finding exceeds it, and level and factors are that finding's own.\<close>

theorem combine_risk_worst:
  assumes "scores \<noteq> []"
  shows "\<exists>w \<in> set scores. rs_score (combine_risk scores subject) = rs_score w \<and>
    rs_level (combine_risk scores subject) = rs_level w \<and>
    rs_factors (combine_risk scores subject) = rs_factors w \<and>
    (\<forall>r \<in> set scores. rs_score r \<le> rs_score w)"
proof -
  obtain r rest where s: "scores = r # rest" using assms by (cases scores) auto
  let ?w = "max_by rs_score r rest"
  have "?w \<in> set scores" unfolding s by (rule max_by_mem)
  moreover have "\<forall>q \<in> set scores. rs_score q \<le> rs_score ?w"
    unfolding s using max_by_ge[of _ r rest rs_score] by blast
  ultimately show ?thesis by (auto simp: combine_risk_def s Let_def)
qed

theorem combine_risk_worst_witness:
  "\<exists>w \<in> set [\<lparr>rs_score = 4, rs_level = Sev_Medium, rs_rationale = [], rs_factors = []\<rparr>].
     \<forall>r \<in> set [\<lparr>rs_score = 4, rs_level = Sev_Medium, rs_rationale = [], rs_factors = []\<rparr>].
       rs_score r \<le> rs_score w"
  using combine_risk_worst[of "[\<lparr>rs_score = 4, rs_level = Sev_Medium, rs_rationale = [], rs_factors = []\<rparr>]"]
  by blast

end
