(* ===== verification/Resilience.thy ===== *)
theory Resilience
  imports Float64
begin

text \<open>
  The resilience primitives every external adapter is built from
  (\<^verbatim>\<open>integrations/resilience.py\<close>): the expiring LRU cache, the token bucket and the circuit
  breaker. The injected monotonic clock is the \<open>now\<close> argument of each operation, a float number
  of seconds; differences and sums of clock readings are rounded as the code rounds them.

  Shown: the cache never exceeds its bound, keeps the value just stored until its expiry and
  serves it as stale afterwards; the bucket stays within its capacity and grants exactly its
  capacity in one instant; the breaker refuses while open, lets exactly one probe through per
  recovery attempt, and trips exactly at its threshold.
\<close>

section \<open>The expiring cache\<close>

record 'v cache_entry =
  ce_value :: 'v
  ce_expires_at :: pyfloat

record 'v ttl_cache =
  tc_ttl :: pyfloat
  tc_max_entries :: int
  tc_entries :: "(string, 'v cache_entry) dict"

datatype cache_error = Cache_KeyError

definition ttl_cache_init :: "pyfloat \<Rightarrow> int \<Rightarrow> 'v ttl_cache" where
  "ttl_cache_init ttl max_entries = \<lparr>tc_ttl = ttl, tc_max_entries = max_entries, tc_entries = []\<rparr>"

text \<open>\<^verbatim>\<open>OrderedDict.move_to_end\<close> on a key that is present.\<close>

definition move_to_end :: "'k \<Rightarrow> ('k, 'v) dict \<Rightarrow> ('k, 'v) dict" where
  "move_to_end k d = (case map_of d k of None \<Rightarrow> d
     | Some v \<Rightarrow> filter (\<lambda>(k', _). k' \<noteq> k) d @ [(k, v)])"

definition cache_get :: "pyfloat \<Rightarrow> string \<Rightarrow> 'v ttl_cache \<Rightarrow> 'v option \<times> 'v ttl_cache" where
  "cache_get now key c = (case map_of (tc_entries c) key of
     None \<Rightarrow> (None, c)
   | Some e \<Rightarrow> if now \<ge> ce_expires_at e then (None, c)
       else (Some (ce_value e), c\<lparr>tc_entries := move_to_end key (tc_entries c)\<rparr>))"

definition cache_get_stale :: "string \<Rightarrow> 'v ttl_cache \<Rightarrow> 'v option" where
  "cache_get_stale key c = map_option ce_value (map_of (tc_entries c) key)"

text \<open>The eviction loop; \<^verbatim>\<open>popitem\<close> raises on an empty dictionary.\<close>

fun evict :: "int \<Rightarrow> ('k, 'v) dict \<Rightarrow> cache_error + ('k, 'v) dict" where
  "evict m [] = (if 0 > m then Inl Cache_KeyError else Inr [])"
| "evict m (kv # d) = (if int (length (kv # d)) > m then evict m d else Inr (kv # d))"

definition cache_set :: "pyfloat \<Rightarrow> string \<Rightarrow> 'v \<Rightarrow> 'v ttl_cache \<Rightarrow> cache_error + 'v ttl_cache" where
  "cache_set now key v c =
     (if tc_ttl c \<le> 0 then Inr c
      else let entry = \<lparr>ce_value = v, ce_expires_at = rnd (now + tc_ttl c)\<rparr>;
               d = move_to_end key (AList.update key entry (tc_entries c))
           in case evict (tc_max_entries c) d of
                Inl e \<Rightarrow> Inl e
              | Inr d' \<Rightarrow> Inr (c\<lparr>tc_entries := d'\<rparr>))"

definition cache_clear :: "'v ttl_cache \<Rightarrow> 'v ttl_cache" where
  "cache_clear c = c\<lparr>tc_entries := []\<rparr>"

definition cache_len :: "'v ttl_cache \<Rightarrow> nat" where
  "cache_len c = length (tc_entries c)"

text \<open>Well-formedness: keys are unique and the bound is respected.\<close>

definition cache_wf :: "'v ttl_cache \<Rightarrow> bool" where
  "cache_wf c \<longleftrightarrow> distinct (map fst (tc_entries c)) \<and>
     int (length (tc_entries c)) \<le> tc_max_entries c"

lemma move_to_end_update:
  "move_to_end k (AList.update k v d) = filter (\<lambda>(k', _). k' \<noteq> k) d @ [(k, v)]"
proof -
  have "filter (\<lambda>(k', _). k' \<noteq> k) (AList.update k v d) = filter (\<lambda>(k', _). k' \<noteq> k) d"
    by (induction d) auto
  then show ?thesis by (simp add: move_to_end_def update_conv)
qed

lemma map_of_filter_neq:
  "map_of (filter (\<lambda>(k', _). k' \<noteq> k) d) k' = (if k' = k then None else map_of d k')"
  by (induction d) auto

lemma distinct_filter_snoc:
  "distinct (map fst d) \<Longrightarrow> distinct (map fst (filter (\<lambda>(k', _). k' \<noteq> k) d @ [(k, v)]))"
  by (induction d) auto

lemma move_to_end_lookup: "map_of (move_to_end k d) k' = map_of d k'"
  by (auto simp: move_to_end_def map_add_def map_of_filter_neq split: option.splits)

lemma move_to_end_distinct:
  "distinct (map fst d) \<Longrightarrow> distinct (map fst (move_to_end k d))"
  by (simp add: move_to_end_def distinct_filter_snoc del: map_append split: option.splits)

lemma move_to_end_length:
  assumes "distinct (map fst d)" shows "length (move_to_end k d) = length d"
proof (cases "map_of d k")
  case (Some v)
  have "set (map fst (move_to_end k d)) = set (map fst d)"
    using move_to_end_lookup[of k d] by (metis dom_map_of_conv_image_fst ext list.set_map)
  then show ?thesis
    using distinct_card[OF assms] distinct_card[OF move_to_end_distinct[OF assms, of k]] by simp
qed (simp add: move_to_end_def)

text \<open>Eviction drops the oldest entries, and only as many as the bound requires.\<close>

lemma evict_eq: "0 \<le> m \<Longrightarrow> evict m d = Inr (drop (length d - nat m) d)"
proof (induction d)
  case (Cons kv d)
  show ?case
  proof (cases "int (length (kv # d)) > m")
    case True
    then have "length (kv # d) - nat m = Suc (length d - nat m)" using Cons.prems by auto
    with True Cons show ?thesis by simp
  next
    case False
    then have "length (kv # d) - nat m = 0" by auto
    with False show ?thesis by simp
  qed
qed simp

lemma cache_set_eq:
  assumes "0 \<le> tc_max_entries c" "0 < tc_ttl c"
  shows "cache_set now key v c = Inr (c\<lparr>tc_entries :=
    (let d = filter (\<lambda>(k', _). k' \<noteq> key) (tc_entries c) @
               [(key, \<lparr>ce_value = v, ce_expires_at = rnd (now + tc_ttl c)\<rparr>)]
     in drop (length d - nat (tc_max_entries c)) d)\<rparr>)"
  using assms by (simp add: cache_set_def move_to_end_update evict_eq Let_def)

lemma cache_set_entry:
  assumes "1 \<le> tc_max_entries c" "0 < tc_ttl c" "distinct (map fst (tc_entries c))"
    and "cache_set now key v c = Inr c'"
  shows "map_of (tc_entries c') key = Some \<lparr>ce_value = v, ce_expires_at = rnd (now + tc_ttl c)\<rparr>"
    and "distinct (map fst (tc_entries c'))"
    and "int (length (tc_entries c')) \<le> tc_max_entries c'"
    and "tc_ttl c' = tc_ttl c" and "tc_max_entries c' = tc_max_entries c"
proof -
  let ?f = "filter (\<lambda>(k', _). k' \<noteq> key) (tc_entries c)"
  let ?e = "\<lparr>ce_value = v, ce_expires_at = rnd (now + tc_ttl c)\<rparr>"
  let ?n = "length (?f @ [(key, ?e)]) - nat (tc_max_entries c)"
  have c': "c' = c\<lparr>tc_entries := drop ?n (?f @ [(key, ?e)])\<rparr>"
    using assms(4) cache_set_eq[of c now key v] assms(1,2) by (simp add: Let_def)
  have "?n \<le> length ?f" using assms(1) by auto
  then have d: "tc_entries c' = drop ?n ?f @ [(key, ?e)]" using c' by simp
  have dist: "distinct (map fst (?f @ [(key, ?e)]))"
    by (rule distinct_filter_snoc[OF assms(3)])
  then have "distinct (map fst (drop ?n (?f @ [(key, ?e)])))"
    by (simp only: drop_map[symmetric] distinct_drop)
  then show dist': "distinct (map fst (tc_entries c'))" using c' by simp
  show "map_of (tc_entries c') key = Some ?e"
  proof -
    have "key \<notin> fst ` set (drop ?n ?f)" using set_drop_subset[of ?n ?f] by auto
    then have "map_of (drop ?n ?f) key = None" by (simp add: map_of_eq_None_iff)
    then show ?thesis unfolding d by (simp add: map_add_def)
  qed
  show "int (length (tc_entries c')) \<le> tc_max_entries c'"
    unfolding c' using assms(1) by simp
  show "tc_ttl c' = tc_ttl c" "tc_max_entries c' = tc_max_entries c" using c' by simp_all
qed

lemma cache_set_wf:
  "cache_wf c \<Longrightarrow> 1 \<le> tc_max_entries c \<Longrightarrow> cache_set now k v c = Inr c' \<Longrightarrow> cache_wf c'"
proof (cases "tc_ttl c \<le> 0")
  case True
  then show "cache_wf c \<Longrightarrow> cache_set now k v c = Inr c' \<Longrightarrow> cache_wf c'"
    by (simp add: cache_set_def)
next
  case False
  then show "cache_wf c \<Longrightarrow> 1 \<le> tc_max_entries c \<Longrightarrow> cache_set now k v c = Inr c' \<Longrightarrow> cache_wf c'"
    using cache_set_entry(2,3)[of c now k v c'] by (simp add: cache_wf_def)
qed

lemma cache_get_wf: "cache_wf c \<Longrightarrow> cache_wf (snd (cache_get now k c))"
  by (auto simp: cache_wf_def cache_get_def move_to_end_distinct move_to_end_length
      split: option.splits)

lemma cache_set_total: "0 \<le> tc_max_entries c \<Longrightarrow> \<exists>c'. cache_set now k v c = Inr c'"
  by (cases "tc_ttl c \<le> 0") (auto simp: cache_set_eq, simp add: cache_set_def)


section \<open>The store contract adapters rely on\<close>

text \<open>
  What a caller may assume of an expiring store: a value just stored is served until its expiry,
  not after it, and can still be read as stale. \<open>ok\<close> is the store's own invariant.
\<close>

locale expiring_store =
  fixes put :: "'t::linorder \<Rightarrow> 'k \<Rightarrow> 'v \<Rightarrow> 's \<Rightarrow> 's"
    and fetch :: "'t \<Rightarrow> 'k \<Rightarrow> 's \<Rightarrow> 'v option"
    and fetch_stale :: "'k \<Rightarrow> 's \<Rightarrow> 'v option"
    and expiry :: "'t \<Rightarrow> 's \<Rightarrow> 't"
    and ok :: "'s \<Rightarrow> bool"
  assumes put_ok: "ok s \<Longrightarrow> ok (put now k v s)"
    and fetch_put: "ok s \<Longrightarrow> t < expiry now s \<Longrightarrow> fetch t k (put now k v s) = Some v"
    and fetch_put_expired: "ok s \<Longrightarrow> expiry now s \<le> t \<Longrightarrow> fetch t k (put now k v s) = None"
    and stale_put: "ok s \<Longrightarrow> fetch_stale k (put now k v s) = Some v"
    and fetch_stale_fetch: "ok s \<Longrightarrow> fetch t k s = Some v \<Longrightarrow> fetch_stale k s = Some v"
begin

text \<open>The last write wins, whatever the store held before.\<close>

lemma put_put:
  "ok s \<Longrightarrow> t < expiry now' (put now k v s) \<Longrightarrow>
   fetch t k (put now' k v' (put now k v s)) = Some v'"
  by (rule fetch_put[OF put_ok])

text \<open>
  The degradation ladder of the adapters: a live answer if there is one, otherwise what the
  upstream call returns (which is stored), otherwise the last known answer flagged as stale.
\<close>

definition degrade :: "'t \<Rightarrow> 'k \<Rightarrow> ('v option) \<Rightarrow> 's \<Rightarrow> ('v \<times> bool) option \<times> 's" where
  "degrade now k upstream s = (case fetch now k s of
     Some v \<Rightarrow> (Some (v, False), s)
   | None \<Rightarrow> (case upstream of
       Some v \<Rightarrow> (Some (v, False), put now k v s)
     | None \<Rightarrow> (map_option (\<lambda>v. (v, True)) (fetch_stale k s), s)))"

lemma degrade_never_loses:
  assumes "ok s" and "fetch_stale k s = Some v"
  shows "\<exists>w st. fst (degrade now k upstream s) = Some (w, st) \<and>
           (upstream = None \<longrightarrow> w = v \<and> (st \<longleftrightarrow> fetch now k s = None))"
  using assms fetch_stale_fetch[of s now k]
  by (cases "fetch now k s"; cases upstream) (auto simp: degrade_def)

lemma degrade_ok: "ok s \<Longrightarrow> ok (snd (degrade now k upstream s))"
  by (auto simp: degrade_def put_ok split: option.splits)

lemma degrade_remembers:
  assumes "ok s" and "fetch now k s = None"
  shows "fetch_stale k (snd (degrade now k (Some v) s)) = Some v"
  using assms by (simp add: degrade_def stale_put)

end

text \<open>\<^verbatim>\<open>TtlCache\<close> provides the contract once it can hold an entry at all.\<close>

definition cache_put :: "pyfloat \<Rightarrow> string \<Rightarrow> 'v \<Rightarrow> 'v ttl_cache \<Rightarrow> 'v ttl_cache" where
  "cache_put now k v c = (case cache_set now k v c of Inl _ \<Rightarrow> c | Inr c' \<Rightarrow> c')"

definition cache_live :: "'v ttl_cache \<Rightarrow> bool" where
  "cache_live c \<longleftrightarrow> cache_wf c \<and> 1 \<le> tc_max_entries c \<and> 0 < tc_ttl c"

lemma cache_put_entry:
  assumes "cache_live c"
  shows "map_of (tc_entries (cache_put now k v c)) k =
           Some \<lparr>ce_value = v, ce_expires_at = rnd (now + tc_ttl c)\<rparr>"
    and "cache_live (cache_put now k v c)" and "tc_ttl (cache_put now k v c) = tc_ttl c"
proof -
  obtain c' where c': "cache_set now k v c = Inr c'"
    using cache_set_total[of c now k v] assms by (auto simp: cache_live_def)
  have e: "cache_put now k v c = c'" by (simp add: cache_put_def c')
  note f = cache_set_entry[OF _ _ _ c'] and w = cache_set_wf[OF _ _ c']
  show "map_of (tc_entries (cache_put now k v c)) k =
          Some \<lparr>ce_value = v, ce_expires_at = rnd (now + tc_ttl c)\<rparr>"
    and "tc_ttl (cache_put now k v c) = tc_ttl c"
    using f(1,4) assms by (auto simp: e cache_live_def cache_wf_def)
  show "cache_live (cache_put now k v c)"
    using f(4,5) w assms by (auto simp: e cache_live_def cache_wf_def)
qed

interpretation ttl: expiring_store cache_put "\<lambda>now k c. fst (cache_get now k c)"
  cache_get_stale "\<lambda>now c. rnd (now + tc_ttl c)" cache_live
  by unfold_locales
     (auto simp: cache_put_entry cache_get_def cache_get_stale_def split: option.splits if_splits)


section \<open>The token bucket\<close>

record rate_limiter =
  rl_capacity :: pyfloat
  rl_per_second :: pyfloat
  rl_tokens :: pyfloat
  rl_updated_at :: pyfloat

datatype limiter_error = Limiter_ValueError

definition rate_limiter_init :: "int \<Rightarrow> pyfloat \<Rightarrow> pyfloat \<Rightarrow> limiter_error + rate_limiter" where
  "rate_limiter_init capacity per_second now =
     (if capacity < 1 then Inl Limiter_ValueError
      else Inr \<lparr>rl_capacity = rnd (of_int capacity), rl_per_second = per_second,
                rl_tokens = rnd (of_int capacity), rl_updated_at = now\<rparr>)"

definition refill :: "pyfloat \<Rightarrow> rate_limiter \<Rightarrow> rate_limiter" where
  "refill now l = (let elapsed = max 0 (rnd (now - rl_updated_at l)) in
     l\<lparr>rl_updated_at := now,
       rl_tokens := min (rl_capacity l) (rnd (rl_tokens l + rnd (elapsed * rl_per_second l)))\<rparr>)"

definition limiter_available :: "pyfloat \<Rightarrow> rate_limiter \<Rightarrow> pyfloat \<times> rate_limiter" where
  "limiter_available now l = (let l' = refill now l in (rl_tokens l', l'))"

definition try_acquire :: "pyfloat \<Rightarrow> pyfloat \<Rightarrow> rate_limiter \<Rightarrow> bool \<times> rate_limiter" where
  "try_acquire now tokens l = (let l' = refill now l in
     if rl_tokens l' < tokens then (False, l')
     else (True, l'\<lparr>rl_tokens := rnd (rl_tokens l' - tokens)\<rparr>))"

definition limiter_wf :: "rate_limiter \<Rightarrow> bool" where
  "limiter_wf l \<longleftrightarrow> 0 \<le> rl_tokens l \<and> rl_tokens l \<le> rl_capacity l \<and> 0 \<le> rl_per_second l
     \<and> rnd (rl_capacity l) = rl_capacity l"

lemma limiter_init_wf:
  "rate_limiter_init capacity rate now = Inr l \<Longrightarrow> capacity < 2 ^ 53 \<Longrightarrow> 0 \<le> rate \<Longrightarrow> limiter_wf l"
  by (auto simp: rate_limiter_init_def limiter_wf_def rnd_of_int split: if_splits)

lemma refill_wf: "limiter_wf l \<Longrightarrow> limiter_wf (refill now l)"
  by (auto simp: limiter_wf_def refill_def Let_def intro!: rnd_nonneg add_nonneg_nonneg
      mult_nonneg_nonneg)

lemma refill_static [simp]:
  "rl_capacity (refill now l) = rl_capacity l" "rl_per_second (refill now l) = rl_per_second l"
  by (simp_all add: refill_def Let_def)

lemma try_acquire_wf:
  assumes "limiter_wf l" "0 \<le> n" shows "limiter_wf (snd (try_acquire now n l))"
proof -
  let ?l = "refill now l"
  have w: "limiter_wf ?l" by (rule refill_wf[OF assms(1)])
  have "rnd (rl_tokens ?l - n) \<le> rnd (rl_capacity ?l)"
    using w assms(2) by (intro rnd_mono) (simp add: limiter_wf_def)
  with w show ?thesis
    by (auto simp: try_acquire_def Let_def limiter_wf_def intro!: rnd_nonneg)
qed

text \<open>Repeated requests of one token at one clock reading.\<close>

fun acquire_burst :: "pyfloat \<Rightarrow> nat \<Rightarrow> rate_limiter \<Rightarrow> bool list \<times> rate_limiter" where
  "acquire_burst now 0 l = ([], l)"
| "acquire_burst now (Suc n) l = (let (b, l') = try_acquire now 1 l;
     (bs, l'') = acquire_burst now n l' in (b # bs, l''))"

lemma refill_same_instant:
  assumes "rl_updated_at l = now" "rl_tokens l = of_int t" "rl_capacity l = of_int cap"
    and "0 \<le> t" "t \<le> cap" "cap < 2 ^ 53"
  shows "refill now l = l"
  using assms by (simp add: refill_def rnd_of_int)

lemma acquire_burst_grants:
  assumes "rl_updated_at l = now" "rl_tokens l = of_int t" "rl_capacity l = of_int cap"
    and "0 \<le> t" "t \<le> cap" "cap < 2 ^ 53"
  shows "fst (acquire_burst now n l) = replicate (min n (nat t)) True @ replicate (n - nat t) False"
  using assms
proof (induction n arbitrary: l t)
  case 0
  then show ?case by simp
next
  case (Suc n)
  note same = refill_same_instant[OF Suc.prems]
  show ?case
  proof (cases "t = 0")
    case True
    then have "try_acquire now 1 l = (False, l)"
      using same Suc.prems by (simp add: try_acquire_def)
    with True Suc.IH[OF Suc.prems] show ?thesis by (simp add: split_beta)
  next
    case False
    let ?l = "l\<lparr>rl_tokens := of_int (t - 1)\<rparr>"
    have r: "rnd (of_int (t - 1)) = of_int (t - 1)" using Suc.prems by (intro rnd_of_int) auto
    have "try_acquire now 1 l = (True, ?l)"
      using same Suc.prems False r by (simp add: try_acquire_def)
    moreover have "fst (acquire_burst now n ?l) =
        replicate (min n (nat (t - 1))) True @ replicate (n - nat (t - 1)) False"
      by (rule Suc.IH) (use Suc.prems False in auto)
    moreover have "nat t = Suc (nat (t - 1))" using Suc.prems False by auto
    ultimately show ?thesis by (simp add: split_beta)
  qed
qed


section \<open>The circuit breaker\<close>

datatype breaker_state = Closed | Open | Half_Open

record circuit_breaker =
  cb_failure_threshold :: int
  cb_reset_seconds :: pyfloat
  cb_failures :: int
  cb_opened_at :: "pyfloat option"
  cb_half_open :: bool

datatype breaker_error = Breaker_ValueError

definition circuit_breaker_init :: "int \<Rightarrow> pyfloat \<Rightarrow> breaker_error + circuit_breaker" where
  "circuit_breaker_init threshold reset =
     (if threshold < 1 then Inl Breaker_ValueError
      else Inr \<lparr>cb_failure_threshold = threshold, cb_reset_seconds = reset, cb_failures = 0,
                cb_opened_at = None, cb_half_open = False\<rparr>)"

definition breaker_state :: "pyfloat \<Rightarrow> circuit_breaker \<Rightarrow> breaker_state" where
  "breaker_state now b = (case cb_opened_at b of
     None \<Rightarrow> Closed
   | Some t \<Rightarrow> if rnd (now - t) \<ge> cb_reset_seconds b then Half_Open else Open)"

definition breaker_allow :: "pyfloat \<Rightarrow> circuit_breaker \<Rightarrow> bool \<times> circuit_breaker" where
  "breaker_allow now b = (case breaker_state now b of
     Closed \<Rightarrow> (True, b)
   | Open \<Rightarrow> (False, b)
   | Half_Open \<Rightarrow> if cb_half_open b then (False, b) else (True, b\<lparr>cb_half_open := True\<rparr>))"

definition record_success :: "circuit_breaker \<Rightarrow> circuit_breaker" where
  "record_success b = b\<lparr>cb_failures := 0, cb_opened_at := None, cb_half_open := False\<rparr>"

definition record_failure :: "pyfloat \<Rightarrow> circuit_breaker \<Rightarrow> circuit_breaker" where
  "record_failure now b =
     (if cb_half_open b then b\<lparr>cb_opened_at := Some now, cb_half_open := False\<rparr>
      else let b' = b\<lparr>cb_failures := cb_failures b + 1\<rparr> in
        if cb_failures b' \<ge> cb_failure_threshold b' \<and> cb_opened_at b' = None
        then b'\<lparr>cb_opened_at := Some now\<rparr> else b')"

text \<open>What the fields agree on between calls.\<close>

definition breaker_wf :: "circuit_breaker \<Rightarrow> bool" where
  "breaker_wf b \<longleftrightarrow> 1 \<le> cb_failure_threshold b \<and> 0 \<le> cb_failures b
     \<and> (cb_half_open b \<longrightarrow> cb_opened_at b \<noteq> None)
     \<and> (cb_opened_at b = None \<longleftrightarrow> cb_failures b < cb_failure_threshold b)"

text \<open>One call on the breaker, at a clock reading.\<close>

datatype breaker_call = Allow pyfloat | Success | Failure pyfloat

fun breaker_step :: "circuit_breaker \<Rightarrow> breaker_call \<Rightarrow> circuit_breaker" where
  "breaker_step b (Allow now) = snd (breaker_allow now b)"
| "breaker_step b Success = record_success b"
| "breaker_step b (Failure now) = record_failure now b"

lemma breaker_init_wf: "circuit_breaker_init threshold reset = Inr b \<Longrightarrow> breaker_wf b"
  by (auto simp: circuit_breaker_init_def breaker_wf_def split: if_splits)

lemma breaker_allow_fields:
  "cb_opened_at (snd (breaker_allow now b)) = cb_opened_at b"
  "cb_failures (snd (breaker_allow now b)) = cb_failures b"
  "cb_failure_threshold (snd (breaker_allow now b)) = cb_failure_threshold b"
  "cb_half_open (snd (breaker_allow now b)) \<longleftrightarrow>
     cb_half_open b \<or> breaker_state now b = Half_Open"
  by (simp_all add: breaker_allow_def split: breaker_state.splits)

lemma breaker_state_half_open: "breaker_state now b = Half_Open \<Longrightarrow> cb_opened_at b \<noteq> None"
  by (auto simp: breaker_state_def split: option.splits)

lemma breaker_step_wf: "breaker_wf b \<Longrightarrow> breaker_wf (breaker_step b call)"
proof (cases call)
  case (Allow now)
  then show "breaker_wf b \<Longrightarrow> ?thesis"
    using breaker_state_half_open[of now b] by (auto simp: breaker_wf_def breaker_allow_fields)
next
  case Success
  then show "breaker_wf b \<Longrightarrow> ?thesis" by (simp add: breaker_wf_def record_success_def)
next
  case (Failure now)
  then show "breaker_wf b \<Longrightarrow> ?thesis"
    by (auto simp: breaker_wf_def record_failure_def Let_def)
qed

text \<open>Once a probe is out, no call is admitted until it reports back.\<close>

lemma breaker_allow_probing:
  assumes "breaker_wf b" "cb_half_open b"
  shows "breaker_allow now b = (False, b)"
proof -
  have "breaker_state now b \<noteq> Closed" using assms
    by (auto simp: breaker_wf_def breaker_state_def split: if_splits)
  then show ?thesis using assms(2) by (auto simp: breaker_allow_def split: breaker_state.splits)
qed

definition allow_run :: "circuit_breaker \<Rightarrow> pyfloat list \<Rightarrow> bool list \<times> circuit_breaker" where
  "allow_run b ts = foldl (\<lambda>(gs, b) t. let (g, b') = breaker_allow t b in (gs @ [g], b')) ([], b) ts"

lemma foldl_allow_probing:
  assumes "breaker_wf b" "cb_half_open b"
  shows "foldl (\<lambda>(gs, b) t. let (g, b') = breaker_allow t b in (gs @ [g], b')) (gs, b) ts
         = (gs @ replicate (length ts) False, b)"
  using assms
  by (induction ts arbitrary: gs) (simp_all add: breaker_allow_probing replicate_app_Cons_same)

text \<open>A run of failures on a closed breaker.\<close>

fun fail_run :: "circuit_breaker \<Rightarrow> pyfloat list \<Rightarrow> circuit_breaker" where
  "fail_run b [] = b"
| "fail_run b (t # ts) = fail_run (record_failure t b) ts"

lemma fail_run_closed:
  assumes "cb_opened_at b = None" "\<not> cb_half_open b"
    and "cb_failures b + int (length ts) < cb_failure_threshold b"
  shows "fail_run b ts = b\<lparr>cb_failures := cb_failures b + int (length ts)\<rparr>"
  using assms
proof (induction ts arbitrary: b)
  case Nil
  then show ?case by simp
next
  case (Cons t ts)
  then show ?case by (simp add: record_failure_def Let_def)
qed

lemma breaker_run_wf:
  "circuit_breaker_init threshold reset = Inr b \<Longrightarrow> breaker_wf (foldl breaker_step b calls)"
proof (induction calls rule: rev_induct)
  case Nil
  then show ?case by (simp add: breaker_init_wf)
next
  case (snoc call calls)
  then show ?case by (simp add: breaker_step_wf)
qed

definition limiter_run :: "rate_limiter \<Rightarrow> (pyfloat \<times> pyfloat) list \<Rightarrow> rate_limiter" where
  "limiter_run l reqs = foldl (\<lambda>l (now, n). snd (try_acquire now n l)) l reqs"

lemma limiter_run_wf:
  "limiter_wf l \<Longrightarrow> \<forall>(now, n) \<in> set reqs. 0 \<le> n \<Longrightarrow> limiter_wf (limiter_run l reqs)"
  unfolding limiter_run_def
  by (induction reqs arbitrary: l) (auto simp: try_acquire_wf)

lemma limiter_run_capacity: "rl_capacity (limiter_run l reqs) = rl_capacity l"
  unfolding limiter_run_def
  by (induction reqs arbitrary: l) (auto simp: try_acquire_def Let_def split: if_splits)


section \<open>Properties\<close>

text \<open>C17: after any history of calls on a breaker that was constructed successfully, when its
  recovery time has elapsed and no probe is out, the next call is admitted as the probe and every
  further call, whenever it comes, is refused until the probe reports success or failure.\<close>

theorem breaker_single_probe:
  assumes "circuit_breaker_init threshold reset = Inr b0"
    and "b = foldl breaker_step b0 calls"
    and "breaker_state now b = Half_Open" and "\<not> cb_half_open b"
  shows "fst (allow_run b (now # later)) = True # replicate (length later) False"
proof -
  let ?b = "b\<lparr>cb_half_open := True\<rparr>"
  have step: "breaker_allow now b = (True, ?b)" using assms(3,4) by (simp add: breaker_allow_def)
  have "breaker_wf b" using breaker_run_wf assms(1,2) by blast
  then have "breaker_wf (breaker_step b (Allow now))" by (rule breaker_step_wf)
  then have "breaker_wf ?b" by (simp add: step)
  then show ?thesis
    unfolding allow_run_def using foldl_allow_probing[of ?b "[True]" later] by (simp add: step)
qed

theorem breaker_single_probe_witness:
  "fst (allow_run (foldl breaker_step
      \<lparr>cb_failure_threshold = 1, cb_reset_seconds = 60, cb_failures = 0, cb_opened_at = None,
       cb_half_open = False\<rparr> [Failure 0]) [60, 61, 99]) = [True, False, False]"
  using breaker_single_probe[of 1 60 _ _ "[Failure 0]" 60 "[61, 99]", OF _ refl]
  by (simp add: circuit_breaker_init_def record_failure_def breaker_state_def fl_simps
      numeral_2_eq_2)

text \<open>The breaker trips exactly at its threshold: fewer failures than the threshold leave a
  new breaker closed and admitting calls; the failure that reaches it opens the breaker, which
  then refuses every call whose (rounded) distance from that failure is below the reset time.\<close>

theorem breaker_trips_at_threshold:
  assumes "circuit_breaker_init threshold reset = Inr b" and "int (length ts) < threshold"
  shows "fst (breaker_allow now (fail_run b ts)) \<and>
    (int (length ts) + 1 = threshold \<and> rnd (now - t) < reset \<longrightarrow>
       breaker_allow now (fail_run b (ts @ [t])) = (False, fail_run b (ts @ [t])))"
proof -
  have b: "b = \<lparr>cb_failure_threshold = threshold, cb_reset_seconds = reset, cb_failures = 0,
                cb_opened_at = None, cb_half_open = False\<rparr>"
    using assms(1) by (simp add: circuit_breaker_init_def split: if_splits)
  have run: "fail_run b ts = b\<lparr>cb_failures := int (length ts)\<rparr>"
    using fail_run_closed[of b ts] assms(2) by (simp add: b)
  have snoc: "fail_run b (ts @ [t]) = record_failure t (fail_run b ts)"
    by (induction ts arbitrary: b) auto
  show ?thesis
    unfolding snoc run
    by (simp add: b record_failure_def breaker_allow_def breaker_state_def)
qed

theorem breaker_trips_at_threshold_witness:
  "let b = \<lparr>cb_failure_threshold = 2, cb_reset_seconds = 60, cb_failures = 0,
            cb_opened_at = None, cb_half_open = False\<rparr>
   in fst (breaker_allow 4 (fail_run b [0])) \<and>
      breaker_allow 4 (fail_run b ([0] @ [3])) = (False, fail_run b ([0] @ [3]))"
  using breaker_trips_at_threshold[of 2 60 _ "[0]" 4 3]
  by (simp add: circuit_breaker_init_def fl_simps)

text \<open>The token bucket never holds a negative amount nor more than its capacity, whatever
  the sequence of (non-negative) requests and clock readings; and at one clock reading a full
  bucket of capacity \<open>cap\<close> grants exactly the first \<open>cap\<close> single-token requests.\<close>

theorem rate_limiter_bounds:
  assumes "rate_limiter_init cap rate t0 = Inr l" and "cap < 2 ^ 53" and "0 \<le> rate"
    and "\<forall>(now, n) \<in> set reqs. 0 \<le> n"
  shows "0 \<le> rl_tokens (limiter_run l reqs) \<and> rl_tokens (limiter_run l reqs) \<le> of_int cap \<and>
    fst (acquire_burst t0 n l) = replicate (min n (nat cap)) True @ replicate (n - nat cap) False"
proof -
  have l: "l = \<lparr>rl_capacity = of_int cap, rl_per_second = rate, rl_tokens = of_int cap,
                rl_updated_at = t0\<rparr>" and cap: "1 \<le> cap"
    using assms(1,2) by (auto simp: rate_limiter_init_def rnd_of_int split: if_splits)
  have "fst (acquire_burst t0 n l) = replicate (min n (nat cap)) True @ replicate (n - nat cap) False"
    by (rule acquire_burst_grants[of _ _ cap cap]) (use cap assms(2) in \<open>simp_all add: l\<close>)
  then show ?thesis
    using limiter_run_wf[OF limiter_init_wf[OF assms(1-3)] assms(4)] limiter_run_capacity[of l reqs]
    by (simp add: limiter_wf_def l)
qed

theorem rate_limiter_bounds_witness:
  "let l = \<lparr>rl_capacity = 2, rl_per_second = 1, rl_tokens = 2, rl_updated_at = 7\<rparr> in
     0 \<le> rl_tokens (limiter_run l [(8, 1)]) \<and> rl_tokens (limiter_run l [(8, 1)]) \<le> 2 \<and>
     fst (acquire_burst 7 3 l) = [True, True, False]"
  using rate_limiter_bounds[of 2 1 7 _ "[(8, 1)]" 3]
  by (simp add: rate_limiter_init_def fl_simps numeral_3_eq_3 numeral_2_eq_2)

text \<open>Storing under a key in a well-formed cache that can hold an entry succeeds, keeps the
  cache within its bound, serves the stored value at every instant before its expiry and not from
  then on, and still hands it out as stale afterwards.\<close>

theorem cache_set_get:
  assumes "cache_live c"
  shows "\<exists>c'. cache_set now k v c = Inr c' \<and> int (cache_len c') \<le> tc_max_entries c \<and>
    (\<forall>t. fst (cache_get t k c') = (if t < rnd (now + tc_ttl c) then Some v else None)) \<and>
    cache_get_stale k c' = Some v"
proof -
  obtain c' where c': "cache_set now k v c = Inr c'"
    using cache_set_total[of c now k v] assms by (auto simp: cache_live_def)
  then have put: "cache_put now k v c = c'" by (simp add: cache_put_def)
  have "int (cache_len c') \<le> tc_max_entries c"
    using cache_set_entry(3,5)[OF _ _ _ c'] assms
    by (auto simp: cache_len_def cache_live_def cache_wf_def)
  moreover have "fst (cache_get t k c') = (if t < rnd (now + tc_ttl c) then Some v else None)" for t
    using ttl.fetch_put[OF assms, of t now k v] ttl.fetch_put_expired[OF assms, of now t k v]
    by (auto simp: put not_less)
  moreover have "cache_get_stale k c' = Some v"
    using ttl.stale_put[OF assms, of k now v] by (simp add: put)
  ultimately show ?thesis using c' by blast
qed

theorem cache_set_get_witness:
  "\<exists>c'. cache_set 5 ''ip'' (7::nat) (ttl_cache_init 60 1) = Inr c' \<and> int (cache_len c') \<le> 1 \<and>
    (\<forall>t. fst (cache_get t ''ip'' c') = (if t < 65 then Some 7 else None)) \<and>
    cache_get_stale ''ip'' c' = Some 7"
  using cache_set_get[of "ttl_cache_init 60 1" 5 "''ip''" "7::nat"]
  by (simp add: ttl_cache_init_def cache_live_def cache_wf_def fl_simps)

end
