(* ===== verification/Alert_Render.thy ===== *)
theory Alert_Render
  imports Domain
begin

text \<open>
  Rendering an approved alert for a channel (\<^verbatim>\<open>tools/notifications.py\<close>) and the alert contracts of
  \<^verbatim>\<open>models/notification.py\<close>. Text is a list of Unicode code points, since the templates contain
  characters outside Latin-1. Which code points above Latin-1 are word characters is the interpreter's
  Unicode table, the argument \<open>alnum\<close>. Shown: Slack text never contains a raw angle bracket, header and
  plain text never a line break, tab or control character, every field respects its limit, the defanged
  text contains no live URL scheme, and what stripping control characters afterwards does to that.
\<close>

section \<open>Code points\<close>

type_synonym utext = "nat list"

definition u :: "string \<Rightarrow> utext" where
  "u s = map cp s"

definition space_cp :: "nat \<Rightarrow> bool" where
  "space_cp n = ((9 \<le> n \<and> n \<le> 13) \<or> (28 \<le> n \<and> n \<le> 32) \<or> n \<in> {133, 160, 5760, 8232, 8233, 8239, 8287, 12288}
     \<or> (8192 \<le> n \<and> n \<le> 8202))"

definition strip_cp :: "utext \<Rightarrow> utext" where
  "strip_cp s = rev (dropWhile space_cp (rev (dropWhile space_cp s)))"

definition word_cp :: "(nat \<Rightarrow> bool) \<Rightarrow> nat \<Rightarrow> bool" where
  "word_cp alnum n = (if n < 256 then is_word (char_of n) else alnum n)"

fun join_cp :: "utext \<Rightarrow> utext list \<Rightarrow> utext" where
  "join_cp sep [] = []"
| "join_cp sep [w] = w"
| "join_cp sep (w # v # ws) = w @ sep @ join_cp sep (v # ws)"

definition ellipsis :: nat where
  "ellipsis = 8230"


section \<open>Contracts\<close>

record alert_request =
  al_investigation_id :: string
  al_approval_id :: string
  al_title :: utext
  al_summary :: utext
  al_priority :: triage_priority
  al_severity :: "severity option"
  al_verdict :: "utext option"
  al_highlights :: "utext list"
  al_console_url :: "utext option"

definition MAX_SUMMARY_CHARACTERS :: nat where "MAX_SUMMARY_CHARACTERS = 1200"
definition MAX_HIGHLIGHTS :: nat where "MAX_HIGHLIGHTS = 8"

text \<open>What the model's validators accept.\<close>

definition alert_ok :: "alert_request \<Rightarrow> bool" where
  "alert_ok a = (length (al_summary a) \<le> MAX_SUMMARY_CHARACTERS \<and> length (al_highlights a) \<le> MAX_HIGHLIGHTS
     \<and> strip_cp (al_title a) \<noteq> [] \<and> strip_cp (al_summary a) \<noteq> [])"

record rendered_message =
  subject :: utext
  body :: utext


section \<open>Escaping\<close>

definition MAX_SUBJECT :: nat where "MAX_SUBJECT = 160"
definition MAX_LINE :: nat where "MAX_LINE = 400"

definition is_control :: "nat \<Rightarrow> bool" where
  "is_control n = (n \<le> 8 \<or> n = 11 \<or> n = 12 \<or> (14 \<le> n \<and> n \<le> 31) \<or> n = 127)"

definition strip_control :: "utext \<Rightarrow> utext" where
  "strip_control s = filter (\<lambda>n. \<not> is_control n) s"

definition truncate :: "utext \<Rightarrow> nat \<Rightarrow> utext" where
  "truncate s limit = (if length s \<le> limit then s else take (limit - 1) s @ [ellipsis])"

text \<open>\<^verbatim>\<open>text.replace(character, replacement)\<close> for a single character.\<close>

definition replace_char :: "nat \<Rightarrow> utext \<Rightarrow> utext \<Rightarrow> utext" where
  "replace_char c r s = concat (map (\<lambda>n. if n = c then r else [n]) s)"

definition escape_slack :: "utext \<Rightarrow> nat \<Rightarrow> utext" where
  "escape_slack v limit =
     (let t = strip_cp (strip_control v);
          t = replace_char 38 (u ''&amp;'') t;
          t = replace_char 60 (u ''&lt;'') t;
          t = replace_char 62 (u ''&gt;'') t
      in truncate t limit)"

definition header_breaker :: "nat \<Rightarrow> bool" where
  "header_breaker n = (n = 13 \<or> n = 10 \<or> n = 9)"

text \<open>\<^verbatim>\<open>[\r\n\t]+\<close> replaced by one space per run.\<close>

fun collapse_breaks :: "utext \<Rightarrow> utext" where
  "collapse_breaks [] = []"
| "collapse_breaks (n # s) = (if header_breaker n
     then (case s of m # _ \<Rightarrow> if header_breaker m then collapse_breaks s else 32 # collapse_breaks s | [] \<Rightarrow> [32])
     else n # collapse_breaks s)"

definition escape_plain :: "utext \<Rightarrow> nat \<Rightarrow> utext" where
  "escape_plain v limit = truncate (strip_cp (collapse_breaks (strip_control v))) limit"

definition escape_header :: "utext \<Rightarrow> nat \<Rightarrow> utext" where
  "escape_header v limit = escape_plain v limit"


section \<open>Defanging\<close>

text \<open>
  \<^verbatim>\<open>\b(https?|ftp)://\<close> at a position, ignoring case: since the colon is no word character, the scheme is
  the whole run of word characters there. Case-insensitive matching also takes the long s for an s.
\<close>

definition fold_cp :: "nat \<Rightarrow> nat" where
  "fold_cp n = (if 65 \<le> n \<and> n \<le> 90 then n + 32 else if n = 383 then 115 else n)"

definition match_scheme :: "(nat \<Rightarrow> bool) \<Rightarrow> utext \<Rightarrow> nat option" where
  "match_scheme alnum s = (let w = takeWhile (word_cp alnum) s; rest = dropWhile (word_cp alnum) s in
     if map fold_cp w \<in> {u ''https'', u ''http'', u ''ftp''} \<and> take 3 rest = u ''://''
     then Some (length w) else None)"

lemma match_scheme_pos: "match_scheme alnum s = Some k \<Longrightarrow> 0 < k"
  by (auto simp: match_scheme_def Let_def u_def split: if_splits)

function defang_from :: "(nat \<Rightarrow> bool) \<Rightarrow> bool \<Rightarrow> utext \<Rightarrow> utext" where
  "defang_from alnum after_word [] = []"
| "defang_from alnum after_word (c # cs) =
     (case (if after_word then None else match_scheme alnum (c # cs)) of
        Some k \<Rightarrow> take k (c # cs) @ u ''[://]'' @ defang_from alnum False (drop (k + 3) (c # cs))
      | None \<Rightarrow> c # defang_from alnum (word_cp alnum c) cs)"
  by pat_completeness auto
termination
  by (relation "measure (\<lambda>(alnum, a, s). length s)") (auto dest: match_scheme_pos)

definition defang :: "(nat \<Rightarrow> bool) \<Rightarrow> utext \<Rightarrow> utext" where
  "defang alnum s = defang_from alnum False s"

text \<open>Whether a URL scheme that a client would make a link of occurs in a text.\<close>

fun live_from :: "(nat \<Rightarrow> bool) \<Rightarrow> bool \<Rightarrow> utext \<Rightarrow> bool" where
  "live_from alnum after_word [] = False"
| "live_from alnum after_word (c # cs) =
     ((\<not> after_word \<and> match_scheme alnum (c # cs) \<noteq> None) \<or> live_from alnum (word_cp alnum c) cs)"

definition has_live_url :: "(nat \<Rightarrow> bool) \<Rightarrow> utext \<Rightarrow> bool" where
  "has_live_url alnum s = live_from alnum False s"


section \<open>Rendering\<close>

definition slack_facts :: "alert_request \<Rightarrow> utext" where
  "slack_facts a = join_cp ([32, 183, 32]) (filter (\<lambda>p. p \<noteq> [])
     [case al_severity a of Some s \<Rightarrow> u ''severity '' @ escape_slack (u (severity_value s)) MAX_LINE | None \<Rightarrow> [],
      if truthy (al_verdict a) then u ''verdict '' @ escape_slack (the (al_verdict a)) 40 else [],
      u ''investigation '' @ escape_slack (u (al_investigation_id a)) 64])"

definition render_slack :: "(nat \<Rightarrow> bool) \<Rightarrow> alert_request \<Rightarrow> rendered_message" where
  "render_slack alnum a =
     (let lines =
        [u ''*'' @ escape_slack (u (upper (priority_value (al_priority a)))) MAX_LINE @ u ''* '' @ [8212] @ u '' ''
           @ escape_slack (al_title a) 200,
         slack_facts a,
         escape_slack (defang alnum (al_summary a)) 800]
        @ map (\<lambda>item. [8226, 32] @ escape_slack (defang alnum item) MAX_LINE) (al_highlights a)
        @ (if truthy (al_console_url a)
           then [u ''Investigation: '' @ escape_slack (the (al_console_url a)) 300] else [])
        @ [u ''This alert was approved by an analyst. No remediation has been performed.'']
      in \<lparr>subject = [], body = join_cp [10] (filter (\<lambda>l. l \<noteq> []) lines)\<rparr>)"

definition render_email :: "(nat \<Rightarrow> bool) \<Rightarrow> alert_request \<Rightarrow> rendered_message" where
  "render_email alnum a =
     (let severity = (case al_severity a of Some s \<Rightarrow> severity_value s | None \<Rightarrow> ''unrated'');
          lines =
        [escape_plain (defang alnum (al_summary a)) 1200,
         [],
         u (''Priority:      '' @ priority_value (al_priority a)),
         u (''Severity:      '' @ severity)]
        @ (if truthy (al_verdict a) then [u ''Verdict:       '' @ escape_plain (the (al_verdict a)) 40] else [])
        @ [u ''Investigation: '' @ escape_plain (u (al_investigation_id a)) 64]
        @ (if al_highlights a \<noteq> []
           then [[], u ''Highlights:''] @ map (\<lambda>item. u ''  - '' @ escape_plain (defang alnum item) MAX_LINE) (al_highlights a)
           else [])
        @ (if truthy (al_console_url a)
           then [[], u ''Open the investigation: '' @ escape_plain (the (al_console_url a)) 300] else [])
        @ [[], u ''This alert was dispatched because an analyst approved the investigation.'',
           u ''No remediation has been performed; recommendations await action by a person.'']
      in \<lparr>subject = escape_header (u (''[SOC '' @ upper (priority_value (al_priority a)) @ ''/'' @ severity @ ''] '') @ al_title a) MAX_SUBJECT,
          body = join_cp [10] lines\<rparr>)"

definition render :: "(nat \<Rightarrow> bool) \<Rightarrow> alert_request \<Rightarrow> notification_channel \<Rightarrow> rendered_message" where
  "render alnum a channel = (if channel = Slack then render_slack alnum a else render_email alnum a)"


section \<open>Facts\<close>

lemma strip_cp_set: "set (strip_cp s) \<subseteq> set s"
  unfolding strip_cp_def by (auto dest!: set_dropWhileD)

lemma strip_control_clean: "n \<in> set (strip_control s) \<Longrightarrow> \<not> is_control n"
  by (simp add: strip_control_def)

lemma truncate_length: "0 < limit \<Longrightarrow> length (truncate s limit) \<le> limit"
  by (simp add: truncate_def)

lemma truncate_set: "n \<in> set (truncate s limit) \<Longrightarrow> n \<in> set s \<or> n = ellipsis"
  by (auto simp: truncate_def dest: in_set_takeD split: if_splits)

lemma replace_char_set: "n \<in> set (replace_char c r s) \<Longrightarrow> (n \<in> set s \<and> n \<noteq> c) \<or> n \<in> set r"
  by (auto simp: replace_char_def split: if_splits)

lemma escapes_plain: "60 \<notin> set (u ''&lt;'')" "62 \<notin> set (u ''&lt;'')" "60 \<notin> set (u ''&gt;'')" "62 \<notin> set (u ''&gt;'')"
  by (simp_all add: u_def)

lemma escape_slack_safe: "60 \<notin> set (escape_slack v limit)" "62 \<notin> set (escape_slack v limit)"
  using escapes_plain
  by (auto simp: escape_slack_def Let_def ellipsis_def dest!: truncate_set replace_char_set)

lemma collapse_breaks_set: "n \<in> set (collapse_breaks s) \<Longrightarrow> \<not> header_breaker n \<and> (n \<in> set s \<or> n = 32)"
  by (induction s rule: collapse_breaks.induct) (auto simp: header_breaker_def split: if_splits list.splits)

lemma escape_plain_safe:
  assumes "n \<in> set (escape_plain v limit)" shows "\<not> header_breaker n \<and> \<not> is_control n"
proof -
  have "n = ellipsis \<or> n \<in> set (collapse_breaks (strip_control v))"
    using assms strip_cp_set unfolding escape_plain_def by (blast dest: truncate_set)
  then show ?thesis
    using collapse_breaks_set[of n "strip_control v"] strip_control_clean[of n v]
    by (auto simp: ellipsis_def header_breaker_def is_control_def)
qed

text \<open>Where defanging copies: a run of word characters and the character after it.\<close>

lemma defang_after_word:
  "defang_from alnum True s = takeWhile (word_cp alnum) s @
     (case dropWhile (word_cp alnum) s of [] \<Rightarrow> [] | d # r \<Rightarrow> d # defang_from alnum False r)"
  by (induction s) auto

lemma match_scheme_letters:
  assumes "match_scheme alnum s = Some k"
  shows "map fold_cp (take k s) \<in> {u ''https'', u ''http'', u ''ftp''}" "take 3 (drop k s) = u ''://''"
    "takeWhile (word_cp alnum) s = take k s"
proof -
  define w where "w = takeWhile (word_cp alnum) s"
  have k: "k = length w" "map fold_cp w \<in> {u ''https'', u ''http'', u ''ftp''}"
    "take 3 (dropWhile (word_cp alnum) s) = u ''://''"
    using assms by (auto simp: match_scheme_def Let_def w_def split: if_splits)
  have "take k s = w" unfolding k(1) w_def by (metis takeWhile_eq_take)
  moreover have "drop k s = dropWhile (word_cp alnum) s" unfolding k(1) w_def by (simp add: dropWhile_eq_drop)
  ultimately show "map fold_cp (take k s) \<in> {u ''https'', u ''http'', u ''ftp''}" "take 3 (drop k s) = u ''://''"
    "takeWhile (word_cp alnum) s = take k s" using k w_def by simp_all
qed

lemma scheme_start_not_slash: "match_scheme alnum (c # cs) = Some k \<Longrightarrow> c \<noteq> 47 \<and> c \<noteq> 58 \<and> c \<noteq> 91"
proof -
  assume m: "match_scheme alnum (c # cs) = Some k"
  then have "0 < k" by (rule match_scheme_pos)
  then obtain k' where "k = Suc k'" by (cases k) auto
  then have "fold_cp c = 104 \<or> fold_cp c = 102"
    using match_scheme_letters(1)[OF m] by (auto simp: u_def)
  then show ?thesis by (auto simp: fold_cp_def split: if_splits)
qed

lemma defang_slash: "defang_from alnum False s = 47 # out \<Longrightarrow> \<exists>r. s = 47 # r \<and> out = defang_from alnum False r"
proof (cases s)
  case (Cons c cs)
  assume d: "defang_from alnum False s = 47 # out"
  have "\<not> word_cp alnum 47" by (simp add: word_cp_def is_word_def)
  show ?thesis
  proof (cases "match_scheme alnum (c # cs)")
    case None
    then show ?thesis using d Cons \<open>\<not> word_cp alnum 47\<close> by auto
  next
    case (Some k)
    obtain k' where "k = Suc k'" using match_scheme_pos[OF Some] by (cases k) auto
    then have "c = 47" using d Cons Some by simp
    then show ?thesis using scheme_start_not_slash[OF Some] by simp
  qed
qed simp

lemma defang_two_slashes:
  "take 2 (defang_from alnum False r) = [47, 47] \<Longrightarrow> take 2 r = [47, 47]"
proof -
  assume t: "take 2 (defang_from alnum False r) = [47, 47]"
  then obtain o1 where o1: "defang_from alnum False r = 47 # 47 # o1"
    by (cases "defang_from alnum False r" rule: list.exhaust[case_product list.exhaust])
       (auto simp: numeral_2_eq_2 take_Suc split: list.splits; cases "tl (defang_from alnum False r)"; auto)+
  then obtain r1 where r1: "r = 47 # r1" "47 # o1 = defang_from alnum False r1" using defang_slash by blast
  then obtain r2 where "r1 = 47 # r2" using defang_slash[of alnum r1 o1] by metis
  then show ?thesis using r1 by simp
qed

text \<open>Copying one character without a match creates no match.\<close>

lemma defang_no_new_match:
  assumes "match_scheme alnum (c # cs) = None"
  shows "match_scheme alnum (c # defang_from alnum (word_cp alnum c) cs) = None"
proof (cases "word_cp alnum c")
  case False
  then show ?thesis by (simp add: match_scheme_def u_def)
next
  case True
  let ?w = "takeWhile (word_cp alnum) cs"
  let ?t = "case dropWhile (word_cp alnum) cs of [] \<Rightarrow> [] | d # r \<Rightarrow> d # defang_from alnum False r"
  have out: "c # defang_from alnum (word_cp alnum c) cs = (c # ?w) @ ?t"
    using True defang_after_word[of alnum cs] by simp
  have hd: "?t = [] \<or> \<not> word_cp alnum (hd ?t)"
  proof -
    define D where "D = dropWhile (word_cp alnum) cs"
    have "D = [] \<or> \<not> word_cp alnum (hd D)" unfolding D_def by (rule dropWhile_hd)
    then show ?thesis unfolding D_def[symmetric] by (cases D) simp_all
  qed
  have ws: "\<forall>n \<in> set (c # ?w). word_cp alnum n" using True by (auto dest: set_takeWhileD)
  have tw: "takeWhile (word_cp alnum) ((c # ?w) @ ?t) = c # ?w"
    and dw: "dropWhile (word_cp alnum) ((c # ?w) @ ?t) = ?t"
    using ws hd by (cases ?t; simp)+
  have tail: "take 3 ?t = u ''://'' \<Longrightarrow> take 3 (dropWhile (word_cp alnum) cs) = u ''://''"
  proof -
    assume a: "take 3 ?t = u ''://''"
    then obtain d r where d: "dropWhile (word_cp alnum) cs = d # r" by (auto simp: u_def split: list.splits)
    then have "d = 58" "take 2 (defang_from alnum False r) = [47, 47]" using a by (auto simp: u_def numeral_3_eq_3 numeral_2_eq_2)
    then show ?thesis using d defang_two_slashes[of alnum r] by (simp add: u_def numeral_3_eq_3 numeral_2_eq_2)
  qed
  show ?thesis using assms True tail unfolding out match_scheme_def tw dw Let_def by (auto split: if_splits)
qed

lemma live_word_prefix:
  assumes "\<forall>n \<in> set w. word_cp alnum n" "w \<noteq> [] \<or> a"
  shows "live_from alnum a (w @ s) = ((\<not> a \<and> match_scheme alnum (w @ s) \<noteq> None) \<or> live_from alnum True s)"
  using assms
proof (induction w arbitrary: a)
  case Nil
  then show ?case by simp
next
  case (Cons x w)
  then show ?case by (cases w) auto
qed

lemma defang_from_inert: "\<not> live_from alnum a (defang_from alnum a s)"
proof (induction alnum a s rule: defang_from.induct)
  case (1 alnum a)
  then show ?case by simp
next
  case (2 alnum a c cs)
  show ?case
  proof (cases "if a then None else match_scheme alnum (c # cs)")
    case None
    then have "\<not> live_from alnum (word_cp alnum c) (defang_from alnum (word_cp alnum c) cs)" using "2.IH"(1) by blast
    moreover have "a \<or> match_scheme alnum (c # defang_from alnum (word_cp alnum c) cs) = None"
      using None defang_no_new_match by (auto split: if_splits)
    ultimately show ?thesis using None by auto
  next
    case (Some k)
    then have na: "\<not> a" and m: "match_scheme alnum (c # cs) = Some k" by (auto split: if_splits)
    note l = match_scheme_letters[OF m]
    let ?w = "take k (c # cs)" and ?r = "defang_from alnum False (drop (k + 3) (c # cs))"
    have ws: "\<forall>n \<in> set ?w. word_cp alnum n" using l(3) by (metis set_takeWhileD)
    have ne: "?w \<noteq> []" using match_scheme_pos[OF m] by simp
    have b: "\<not> word_cp alnum 91" "\<not> word_cp alnum 58" "\<not> word_cp alnum 47" "\<not> word_cp alnum 93"
      by (simp_all add: word_cp_def is_word_def)
    have "match_scheme alnum (?w @ u ''[://]'' @ ?r) = None"
      using ws b by (simp add: match_scheme_def Let_def takeWhile_append dropWhile_append u_def)
    moreover have "\<not> live_from alnum True (u ''[://]'' @ ?r)"
      using "2.IH"(2)[OF Some] b by (simp add: u_def match_scheme_def)
    ultimately have "\<not> live_from alnum a (?w @ u ''[://]'' @ ?r)"
      using live_word_prefix[OF ws, of a] ne na by simp
    then show ?thesis using Some by simp
  qed
qed


lemma join_cp_set: "set (join_cp sep ws) \<subseteq> set sep \<union> \<Union> (set ` set ws)"
  by (induction sep ws rule: join_cp.induct) auto

definition bracket_free :: "utext \<Rightarrow> bool" where
  "bracket_free s = (60 \<notin> set s \<and> 62 \<notin> set s)"

lemma bracket_free_facts [simp]:
  "bracket_free (escape_slack v limit)" "bracket_free []"
  "bracket_free (a @ b) \<longleftrightarrow> bracket_free a \<and> bracket_free b"
  "bracket_free (n # a) \<longleftrightarrow> n \<noteq> 60 \<and> n \<noteq> 62 \<and> bracket_free a"
  by (auto simp: bracket_free_def escape_slack_safe)

lemma bracket_free_u: "list_all (\<lambda>c. c \<noteq> CHR ''<'' \<and> c \<noteq> CHR ''>'') s \<Longrightarrow> bracket_free (u s)"
proof -
  have "cp c \<noteq> 60" "cp c \<noteq> 62" if "c \<noteq> CHR ''<''" "c \<noteq> CHR ''>''" for c :: char
  proof -
    have "c = char_of (cp c)" by simp
    moreover have "char_of (60 :: nat) = CHR ''<''" "char_of (62 :: nat) = CHR ''>''" by code_simp+
    ultimately show "cp c \<noteq> 60" "cp c \<noteq> 62" using that by metis+
  qed
  moreover assume "list_all (\<lambda>c. c \<noteq> CHR ''<'' \<and> c \<noteq> CHR ''>'') s"
  ultimately show ?thesis unfolding bracket_free_def u_def list_all_iff set_map image_iff by metis
qed

lemma bracket_free_join: "bracket_free sep \<Longrightarrow> \<forall>w \<in> set ws. bracket_free w \<Longrightarrow> bracket_free (join_cp sep ws)"
  using join_cp_set[of sep ws] by (fastforce simp: bracket_free_def)


section \<open>Properties\<close>

text \<open>Whatever an alert carries, its Slack message contains no raw angle bracket, so no text from the
  evidence can form a link or a channel mention.\<close>

theorem slack_body_inert: "60 \<notin> set (body (render alnum a Slack)) \<and> 62 \<notin> set (body (render alnum a Slack))"
proof -
  have f: "bracket_free (slack_facts a)"
    unfolding slack_facts_def by (intro bracket_free_join ballI) (auto simp: bracket_free_u split: option.splits if_splits)
  have "bracket_free (body (render_slack alnum a))"
    unfolding render_slack_def Let_def rendered_message.simps
    by (intro bracket_free_join ballI) (auto simp: bracket_free_u f split: if_splits)
  then show ?thesis by (simp add: render_def bracket_free_def)
qed

text \<open>An email subject never contains a line break, a tab or a control character and is at most 160
  characters long, so no alert text can add a header.\<close>

theorem email_subject_one_line:
  "list_all (\<lambda>n. n \<noteq> 10 \<and> n \<noteq> 13 \<and> n \<noteq> 9 \<and> \<not> is_control n) (subject (render alnum a Email)) \<and>
   length (subject (render alnum a Email)) \<le> 160"
proof
  show "list_all (\<lambda>n. n \<noteq> 10 \<and> n \<noteq> 13 \<and> n \<noteq> 9 \<and> \<not> is_control n) (subject (render alnum a Email))"
    using escape_plain_safe
    by (auto simp: list_all_iff render_def render_email_def Let_def escape_header_def header_breaker_def)
  show "length (subject (render alnum a Email)) \<le> 160"
    by (simp add: render_def render_email_def Let_def escape_header_def escape_plain_def MAX_SUBJECT_def truncate_length)
qed

text \<open>Defanged text contains no URL scheme that a mail client would turn into a link.\<close>

theorem defang_inert: "\<not> has_live_url alnum (defang alnum s)"
  unfolding has_live_url_def defang_def by (rule defang_from_inert)

text \<open>Control characters are stripped after defanging, so a URL broken by one is put together again: the
  rendered email of such a summary begins with a live URL.\<close>

theorem control_character_revives_url:
  "let s = u ''ht'' @ [1] @ u ''tp://evil'' in
   \<not> has_live_url (\<lambda>_. False) s \<and> escape_plain (defang (\<lambda>_. False) s) 1200 = u ''http://evil'' \<and>
   has_live_url (\<lambda>_. False) (escape_plain (defang (\<lambda>_. False) s) 1200)"
proof -
  note word = word_cp_def is_word_def match_scheme_def u_def Let_def
  have d: "defang (\<lambda>_. False) (u ''ht'' @ [1] @ u ''tp://evil'') = u ''ht'' @ [1] @ u ''tp://evil''"
    by (simp add: defang_def word)
  have e: "escape_plain (u ''ht'' @ [1] @ u ''tp://evil'') 1200 = u ''http://evil''"
    by (simp add: escape_plain_def strip_control_def is_control_def header_breaker_def strip_cp_def space_cp_def truncate_def u_def)
  have "\<not> has_live_url (\<lambda>_. False) (u ''ht'' @ [1] @ u ''tp://evil'')" "has_live_url (\<lambda>_. False) (u ''http://evil'')"
    by (simp_all add: has_live_url_def word fold_cp_def)
  then show ?thesis by (simp only: Let_def d e simp_thms)
qed

end
