(* ===== verification/Channels.thy ===== *)
theory Channels
  imports Resilience Alert_Render
begin

text \<open>
  The outbound channel adapters (\<^verbatim>\<open>integrations/notifications.py\<close>): rate limiting and circuit breaking
  shared by the Slack and SMTP channels. What the network did is an argument (\<open>slack_reply\<close>,
  \<open>smtp_reply\<close>), the clock readings of one send another. Shown: a channel reports delivery only when it
  let the message through and the transport accepted it, a refusal is never counted as a failure, and a
  half-open circuit whose probe is refused by the rate limiter refuses every later message.
\<close>

section \<open>Results\<close>

record send_result =
  sr_delivered :: bool
  sr_detail :: string
  sr_refused :: bool

definition send_ok :: "string \<Rightarrow> send_result" where
  "send_ok detail = \<lparr>sr_delivered = True, sr_detail = detail, sr_refused = False\<rparr>"

definition send_failed :: "string \<Rightarrow> send_result" where
  "send_failed detail = \<lparr>sr_delivered = False, sr_detail = detail, sr_refused = False\<rparr>"

definition send_refuse :: "string \<Rightarrow> send_result" where
  "send_refuse detail = \<lparr>sr_delivered = False, sr_detail = detail, sr_refused = True\<rparr>"


section \<open>The resilient channel\<close>

record resilient_channel =
  rc_channel :: notification_channel
  rc_limiter :: rate_limiter
  rc_breaker :: circuit_breaker

definition resilient_channel_init ::
  "notification_channel \<Rightarrow> int \<Rightarrow> int \<Rightarrow> pyfloat \<Rightarrow> pyfloat \<Rightarrow> resilient_channel option" where
  "resilient_channel_init channel rate_limit_per_minute threshold reset now =
     (case (rate_limiter_init rate_limit_per_minute (rnd (of_int rate_limit_per_minute / 60)) now,
            circuit_breaker_init threshold reset) of
        (Inr l, Inr b) \<Rightarrow> Some \<lparr>rc_channel = channel, rc_limiter = l, rc_breaker = b\<rparr>
      | _ \<Rightarrow> None)"

definition is_available :: "pyfloat \<Rightarrow> resilient_channel \<Rightarrow> bool" where
  "is_available now c = (breaker_state now (rc_breaker c) \<noteq> Open)"

text \<open>The clock readings of one send: by the breaker, by the limiter, when the result is recorded.\<close>

record readings =
  at_allow :: pyfloat
  at_acquire :: pyfloat
  at_record :: pyfloat

definition guard :: "readings \<Rightarrow> resilient_channel \<Rightarrow> send_result option \<times> resilient_channel" where
  "guard t c =
     (let (allowed, b) = breaker_allow (at_allow t) (rc_breaker c); c1 = c\<lparr>rc_breaker := b\<rparr> in
      if \<not> allowed then (Some (send_refuse (channel_value (rc_channel c) @ '' circuit is open'')), c1)
      else let (acquired, l) = try_acquire (at_acquire t) 1 (rc_limiter c1); c2 = c1\<lparr>rc_limiter := l\<rparr> in
        if \<not> acquired then (Some (send_refuse (channel_value (rc_channel c) @ '' rate limit exhausted'')), c2)
        else (None, c2))"

definition record_result :: "readings \<Rightarrow> send_result \<Rightarrow> resilient_channel \<Rightarrow> send_result \<times> resilient_channel" where
  "record_result t r c =
     (r, if sr_delivered r then c\<lparr>rc_breaker := record_success (rc_breaker c)\<rparr>
         else if \<not> sr_refused r then c\<lparr>rc_breaker := record_failure (at_record t) (rc_breaker c)\<rparr>
         else c)"

datatype slack_reply = Slack_Http_Error string | Slack_Response int string

definition slack_send :: "readings \<Rightarrow> slack_reply \<Rightarrow> resilient_channel \<Rightarrow> send_result \<times> resilient_channel" where
  "slack_send t reply c = (case guard t c of
     (Some refusal, c1) \<Rightarrow> (refusal, c1)
   | (None, c1) \<Rightarrow>
     (case reply of
        Slack_Http_Error name \<Rightarrow> record_result t (send_failed (''slack transport error: '' @ name)) c1
      | Slack_Response status text \<Rightarrow>
          if status \<ge> 400
          then record_result t (send_failed (''slack rejected the message: '' @ show_int status @ '' '' @ take 120 text)) c1
          else record_result t (send_ok ''slack accepted the message'') c1))"

datatype smtp_reply = Smtp_Error string string | Smtp_Accepted

definition email_send :: "readings \<Rightarrow> smtp_reply \<Rightarrow> string \<Rightarrow> resilient_channel \<Rightarrow> send_result \<times> resilient_channel" where
  "email_send t reply recipient c = (case guard t c of
     (Some refusal, c1) \<Rightarrow> (refusal, c1)
   | (None, c1) \<Rightarrow>
     (case reply of
        Smtp_Error name text \<Rightarrow> record_result t (send_failed (take 200 (''smtp error: '' @ name @ '': '' @ text))) c1
      | Smtp_Accepted \<Rightarrow> record_result t (send_ok (''smtp accepted the message for '' @ recipient)) c1))"

definition unconfigured_send :: "notification_channel \<Rightarrow> send_result" where
  "unconfigured_send channel = send_refuse (channel_value channel @ '' is not configured'')"


section \<open>Facts\<close>

lemmas send_defs = send_ok_def send_failed_def send_refuse_def

lemma guard_refusal:
  assumes "guard t c = (Some r, c1)"
  shows "sr_refused r" "\<not> sr_delivered r" "rc_channel c1 = rc_channel c"
    "rc_breaker c1 = snd (breaker_allow (at_allow t) (rc_breaker c))"
  using assms by (auto simp: guard_def send_refuse_def Let_def split: prod.splits if_splits)

text \<open>A probing breaker refuses the send and nothing of it changes.\<close>

lemma guard_probing:
  assumes "breaker_wf (rc_breaker c)" "cb_half_open (rc_breaker c)"
  shows "guard t c = (Some (send_refuse (channel_value (rc_channel c) @ '' circuit is open'')), c)"
  using breaker_allow_probing[OF assms] by (simp add: guard_def Let_def)

lemma slack_send_probing:
  assumes "breaker_wf (rc_breaker c)" "cb_half_open (rc_breaker c)"
  shows "slack_send t reply c = (send_refuse (channel_value (rc_channel c) @ '' circuit is open''), c)"
  using guard_probing[OF assms] by (simp add: slack_send_def)

text \<open>A sequence of sends on one channel.\<close>

fun slack_sends :: "(readings \<times> slack_reply) list \<Rightarrow> resilient_channel \<Rightarrow> send_result list \<times> resilient_channel" where
  "slack_sends [] c = ([], c)"
| "slack_sends ((t, reply) # rest) c =
     (let (r, c1) = slack_send t reply c; (rs, c2) = slack_sends rest c1 in (r # rs, c2))"

lemma slack_sends_probing:
  assumes "breaker_wf (rc_breaker c)" "cb_half_open (rc_breaker c)"
  shows "slack_sends sends c = (replicate (length sends) (send_refuse (channel_value (rc_channel c) @ '' circuit is open'')), c)"
  using slack_send_probing[OF assms] by (induction sends) auto


section \<open>Properties\<close>

text \<open>A channel reports a message as delivered only if its circuit allowed it, its rate limit had a token and
  the transport accepted it; a delivery closes the circuit, and a refusal changes neither the failure count nor
  the opening time of the breaker.\<close>

theorem slack_send_sound:
  "case slack_send t reply c of (r, c1) \<Rightarrow>
     sr_delivered r = (fst (breaker_allow (at_allow t) (rc_breaker c)) \<and> fst (try_acquire (at_acquire t) 1 (rc_limiter c))
        \<and> (case reply of Slack_Response status _ \<Rightarrow> status < 400 | _ \<Rightarrow> False)) \<and>
     (if sr_delivered r then cb_opened_at (rc_breaker c1) = None \<and> cb_failures (rc_breaker c1) = 0
      else if sr_refused r then cb_failures (rc_breaker c1) = cb_failures (rc_breaker c)
        \<and> cb_opened_at (rc_breaker c1) = cb_opened_at (rc_breaker c)
      else rc_breaker c1 = record_failure (at_record t) (snd (breaker_allow (at_allow t) (rc_breaker c))))"
  by (cases "breaker_allow (at_allow t) (rc_breaker c)"; cases "try_acquire (at_acquire t) 1 (rc_limiter c)"; cases reply)
     (use breaker_allow_fields[of "at_allow t" "rc_breaker c"] in
      \<open>auto simp: slack_send_def guard_def record_result_def record_success_def send_defs Let_def\<close>)

text \<open>When the circuit is half open and the rate limit is exhausted, the refused message has used up the only
  probe, and no later message is ever sent: every one is refused as long as the process lives, whatever the clock
  says and whatever the transport would answer.\<close>

theorem lost_probe_blocks_channel:
  assumes "breaker_wf (rc_breaker c)" "breaker_state (at_allow t) (rc_breaker c) = Half_Open"
    "\<not> cb_half_open (rc_breaker c)" "\<not> fst (try_acquire (at_acquire t) 1 (rc_limiter c))"
  shows "case slack_send t reply c of (r, c1) \<Rightarrow> r = send_refuse (channel_value (rc_channel c) @ '' rate limit exhausted'')
    \<and> list_all (\<lambda>x. sr_refused x \<and> \<not> sr_delivered x) (fst (slack_sends sends c1))"
proof -
  obtain ok l where l: "try_acquire (at_acquire t) 1 (rc_limiter c) = (ok, l)" by force
  let ?b = "(rc_breaker c)\<lparr>cb_half_open := True\<rparr>"
  let ?c = "c\<lparr>rc_breaker := ?b, rc_limiter := l\<rparr>"
  have allow: "breaker_allow (at_allow t) (rc_breaker c) = (True, ?b)"
    using assms(2,3) by (simp add: breaker_allow_def)
  have "slack_send t reply c = (send_refuse (channel_value (rc_channel c) @ '' rate limit exhausted''), ?c)"
    using allow l assms(4) by (simp add: slack_send_def guard_def Let_def)
  moreover have "breaker_wf ?b"
    using breaker_step_wf[OF assms(1), of "Allow (at_allow t)"] allow by simp
  ultimately show ?thesis
    using slack_sends_probing[of ?c sends] by (simp add: list_all_iff send_refuse_def)
qed

theorem lost_probe_blocks_channel_witness:
  "let b = \<lparr>cb_failure_threshold = 1, cb_reset_seconds = 60, cb_failures = 1, cb_opened_at = Some 0, cb_half_open = False\<rparr>;
       l = \<lparr>rl_capacity = 1, rl_per_second = 0, rl_tokens = 0, rl_updated_at = 0\<rparr>;
       c = \<lparr>rc_channel = Slack, rc_limiter = l, rc_breaker = b\<rparr>;
       t = (\<lambda>x. \<lparr>at_allow = x, at_acquire = x, at_record = x\<rparr>);
       c1 = snd (slack_send (t 60) (Slack_Response 200 []) c)
   in list_all sr_refused (fst (slack_sends [(t 600, Slack_Response 200 [])] c1))"
proof -
  define b where "b = \<lparr>cb_failure_threshold = 1, cb_reset_seconds = 60, cb_failures = 1, cb_opened_at = Some 0, cb_half_open = False\<rparr>"
  define l where "l = \<lparr>rl_capacity = 1, rl_per_second = 0, rl_tokens = 0, rl_updated_at = 0\<rparr>"
  define c where "c = \<lparr>rc_channel = Slack, rc_limiter = l, rc_breaker = b\<rparr>"
  define t where "t = (\<lambda>x::rat. \<lparr>at_allow = x, at_acquire = x, at_record = x\<rparr>)"
  have h: "breaker_wf (rc_breaker c)" "breaker_state (at_allow (t 60)) (rc_breaker c) = Half_Open"
    "\<not> cb_half_open (rc_breaker c)" "\<not> fst (try_acquire (at_acquire (t 60)) 1 (rc_limiter c))"
    by (simp_all add: c_def b_def l_def t_def breaker_wf_def breaker_state_def try_acquire_def refill_def Let_def fl_simps)
  show ?thesis
    using lost_probe_blocks_channel[OF h, where reply = "Slack_Response 200 []" and sends = "[(t 600, Slack_Response 200 [])]"]
    unfolding Let_def b_def[symmetric] l_def[symmetric] c_def[symmetric] t_def[symmetric] case_prod_beta list_all_iff
    by blast
qed

end
