(* ===== verification/Py_Value.thy ===== *)
theory Py_Value
  imports Py_Format
begin

text \<open>
  JSON-like Python values and the ways the code reads untrusted ones: attribute access, subscripts and iteration
  with the exception each raises on a value of the wrong shape. A computation that may raise is a sum with the
  exception on the left.
\<close>

section \<open>Python values\<close>

datatype pyval = PNone | PBool bool | PInt int | PFloat pyfloat | PStr string
  | PList "pyval list" | PDict "(string \<times> pyval) list"

type_synonym mapping = "(string, pyval) dict"

text \<open>\<^verbatim>\<open>bool(value)\<close>.\<close>

fun truth :: "pyval \<Rightarrow> bool" where
  "truth PNone = False"
| "truth (PBool b) = b"
| "truth (PInt i) = (i \<noteq> 0)"
| "truth (PFloat x) = (x \<noteq> 0)"
| "truth (PStr s) = (s \<noteq> [])"
| "truth (PList xs) = (xs \<noteq> [])"
| "truth (PDict d) = (d \<noteq> [])"

text \<open>\<^verbatim>\<open>d.get(key)\<close> and \<^verbatim>\<open>d.get(key, default)\<close>.\<close>

definition pget :: "mapping \<Rightarrow> string \<Rightarrow> pyval" where
  "pget d k = (case map_of d k of Some v \<Rightarrow> v | None \<Rightarrow> PNone)"

definition pget_or :: "mapping \<Rightarrow> string \<Rightarrow> pyval \<Rightarrow> pyval" where
  "pget_or d k dflt = (case map_of d k of Some v \<Rightarrow> v | None \<Rightarrow> dflt)"

text \<open>
  A value used as a mapping (\<^verbatim>\<open>v or {}\<close>) or as a list. The fields read this way are typed as optional
  mappings and as lists by the state schema; other values count as empty.
\<close>

fun as_dict :: "pyval \<Rightarrow> mapping" where
  "as_dict (PDict d) = d"
| "as_dict _ = []"

fun as_list :: "pyval \<Rightarrow> pyval list" where
  "as_list (PList xs) = xs"
| "as_list _ = []"

text \<open>\<^verbatim>\<open>repr(value)\<close> and \<^verbatim>\<open>str(value)\<close>.\<close>

fun repr_val :: "pyval \<Rightarrow> string" where
  "repr_val PNone = ''None''"
| "repr_val (PBool b) = (if b then ''True'' else ''False'')"
| "repr_val (PInt i) = show_int i"
| "repr_val (PFloat x) = float_str x"
| "repr_val (PStr s) = repr_str s"
| "repr_val (PList xs) = ''['' @ join '', '' (map repr_val xs) @ '']''"
| "repr_val (PDict d) = ''{'' @ join '', '' (map (\<lambda>(k, v). repr_str k @ '': '' @ repr_val v) d) @ ''}''"

definition str_val :: "pyval \<Rightarrow> string" where
  "str_val v = (case v of PStr s \<Rightarrow> s | _ \<Rightarrow> repr_val v)"

section \<open>Reading values of unknown shape\<close>

datatype py_error = Value_Error | Key_Error | Type_Error | Attribute_Error

fun and_then :: "'e + 'a \<Rightarrow> ('a \<Rightarrow> 'e + 'b) \<Rightarrow> 'e + 'b" where
  "and_then (Inl e) f = Inl e"
| "and_then (Inr a) f = f a"

text \<open>A loop that stops at the first exception.\<close>

fun traverse :: "('a \<Rightarrow> 'e + 'b) \<Rightarrow> 'a list \<Rightarrow> 'e + 'b list" where
  "traverse f [] = Inr []"
| "traverse f (x # xs) = and_then (f x) (\<lambda>y. and_then (traverse f xs) (\<lambda>ys. Inr (y # ys)))"

text \<open>\<^verbatim>\<open>value.get(key, default)\<close>, \<^verbatim>\<open>value[key]\<close> and \<^verbatim>\<open>for x in value\<close> on a value of any shape.\<close>

fun try_get :: "pyval \<Rightarrow> string \<Rightarrow> pyval \<Rightarrow> py_error + pyval" where
  "try_get (PDict d) k dflt = Inr (pget_or d k dflt)"
| "try_get _ k dflt = Inl Attribute_Error"

fun try_index :: "pyval \<Rightarrow> string \<Rightarrow> py_error + pyval" where
  "try_index (PDict d) k = (case map_of d k of Some v \<Rightarrow> Inr v | None \<Rightarrow> Inl Key_Error)"
| "try_index _ k = Inl Type_Error"

fun try_iter :: "pyval \<Rightarrow> py_error + pyval list" where
  "try_iter (PList xs) = Inr xs"
| "try_iter (PDict d) = Inr (map (\<lambda>(k, _). PStr k) d)"
| "try_iter (PStr s) = Inr (map (\<lambda>c. PStr [c]) s)"
| "try_iter _ = Inl Type_Error"

text \<open>\<^verbatim>\<open>a or b\<close> on values.\<close>

definition or_val :: "pyval \<Rightarrow> pyval \<Rightarrow> pyval" where
  "or_val a b = (if truth a then a else b)"

text \<open>\<^verbatim>\<open>value or {}\<close>.\<close>

definition or_dict :: "pyval \<Rightarrow> pyval" where
  "or_dict v = (if truth v then v else PDict [])"

text \<open>\<^verbatim>\<open>str(value).strip() or None\<close>, with \<^verbatim>\<open>None\<close> for \<^verbatim>\<open>None\<close>: the helper \<^verbatim>\<open>_optional\<close> of the feed parsers.\<close>

definition optional_text :: "pyval \<Rightarrow> string option" where
  "optional_text v = (case v of PNone \<Rightarrow> None | _ \<Rightarrow> let s = strip (str_val v) in if s = [] then None else Some s)"

lemma and_then_Inr: "and_then m f = Inr b \<longleftrightarrow> (\<exists>a. m = Inr a \<and> f a = Inr b)"
  by (cases m) auto

lemma traverse_length: "traverse f xs = Inr ys \<Longrightarrow> length ys = length xs"
  by (induction xs arbitrary: ys) (auto simp: and_then_Inr)

lemma traverse_mem: "traverse f xs = Inr ys \<Longrightarrow> y \<in> set ys \<Longrightarrow> \<exists>x \<in> set xs. f x = Inr y"
  by (induction xs arbitrary: ys) (auto simp: and_then_Inr)

end
