(* ===== verification/Versions.thy ===== *)
theory Versions
  imports Domain "HOL-Library.List_Lexorder" "HOL-Library.Product_Lexorder"
begin

text \<open>
  Version parsing, product matching and CVE applicability (\<^verbatim>\<open>tools/versions.py\<close>), with the records
  of \<^verbatim>\<open>models/vulnerability.py\<close> it works on. Shown: dotted versions read back exactly, every
  pre-release sorts below its release, a range contains a version exactly when every published bound
  parses and is met, \<^verbatim>\<open>CONFIRMED\<close> needs the full host-product-version-range chain, \<^verbatim>\<open>NOT_APPLICABLE\<close>
  needs every match to be decided and outside, and confirmed evidence passes the contract's validator.
  Digit runs beyond CPython's 4300-digit conversion limit are read as numbers here.
\<close>

section \<open>Records\<close>

datatype applicability_reason = Version_In_Vulnerable_Range | Version_Not_In_Vulnerable_Range
  | Version_Unknown | Version_Unparseable | No_Affected_Range_Published
  | Product_Not_In_Inventory | Technique_Match_Only

record asset_software =
  sw_product :: string
  sw_version :: "string option"

record asset_context =
  hostname :: string
  operating_system :: "string option"
  software :: "asset_software list"
  environment :: "string option"

record affected_range =
  ar_product :: string
  ar_vendor :: "string option"
  version_start_including :: "string option"
  version_start_excluding :: "string option"
  version_end_including :: "string option"
  version_end_excluding :: "string option"

definition is_unbounded :: "affected_range \<Rightarrow> bool" where
  "is_unbounded r = (\<not> (truthy (version_start_including r) \<or> truthy (version_start_excluding r)
     \<or> truthy (version_end_including r) \<or> truthy (version_end_excluding r)))"

text \<open>The fields of \<^verbatim>\<open>CveRecord\<close> that the applicability decision reads.\<close>

record cve_record =
  cve_id :: string
  affected :: "affected_range list"

record applicability_evidence =
  ae_reason :: applicability_reason
  ae_hostname :: "string option"
  ae_product :: "string option"
  ae_installed_version :: "string option"
  ae_matched_range :: "affected_range option"
  ae_detail :: string


section \<open>Parsing a version\<close>

text \<open>\<^verbatim>\<open>sort_key\<close>: the release numbers, 1 for a final release and 0 for a pre-release, the pre-release numbers.\<close>

type_synonym version_key = "int list \<times> int \<times> int list"

record version =
  version_sort_key :: version_key
  version_text :: string

definition release :: "version \<Rightarrow> int list" where
  "release v = fst (version_sort_key v)"

definition is_prerelease :: "version \<Rightarrow> bool" where
  "is_prerelease v = (fst (snd (version_sort_key v)) = 0)"

definition release_words :: "string list" where
  "release_words = [''release'', ''final'', ''ga'', ''stable'']"

definition prerelease_rank :: "(string, int) dict" where
  "prerelease_rank = [(''dev'', 0), (''alpha'', 1), (''a'', 1), (''beta'', 2), (''b'', 2),
     (''milestone'', 3), (''m'', 3), (''rc'', 4), (''cr'', 4), (''preview'', 4), (''pre'', 4)]"

definition is_separator :: "char \<Rightarrow> bool" where
  "is_separator c = (c \<in> set ''.-_+~'')"

text \<open>A regular expression's \<^verbatim>\<open>$\<close> also matches before one final line break.\<close>

definition chomp :: "string \<Rightarrow> string" where
  "chomp s = (if s \<noteq> [] \<and> cp (last s) = 10 then butlast s else s)"

definition is_numeric :: "string \<Rightarrow> bool" where
  "is_numeric token = (chomp token \<noteq> [] \<and> list_all is_digit (chomp token))"

text \<open>\<^verbatim>\<open>^([a-z]+)(\d*)$\<close> and its two groups.\<close>

definition alphanum :: "string \<Rightarrow> (string \<times> string) option" where
  "alphanum token = (let t = chomp token; word = takeWhile is_lower_az t; digits = dropWhile is_lower_az t in
     if word \<noteq> [] \<and> list_all is_digit digits then Some (word, digits) else None)"

fun read_tokens :: "string list \<Rightarrow> int list \<Rightarrow> int list \<Rightarrow> bool \<Rightarrow> (int list \<times> int list \<times> bool) option" where
  "read_tokens [] rel pre seen = Some (rel, pre, seen)"
| "read_tokens (token # tokens) rel pre seen =
     (if token = [] then read_tokens tokens rel pre seen
      else if is_numeric token then
        (let n = int_of_digits (chomp token) in
         if seen then read_tokens tokens rel (pre @ [n]) seen
         else read_tokens tokens (rel @ [n]) pre seen)
      else if token \<in> set release_words then read_tokens tokens rel pre seen
      else case alphanum token of
        None \<Rightarrow> None
      | Some (word, digits) \<Rightarrow>
        (case map_of prerelease_rank word of
           None \<Rightarrow> None
         | Some rank \<Rightarrow>
             read_tokens tokens rel
               (pre @ [rank] @ (if digits \<noteq> [] then [int_of_digits digits] else [])) True))"

definition drop_leading_v :: "string \<Rightarrow> string" where
  "drop_leading_v s = (case s of
     c # d # rest \<Rightarrow> if (c = CHR ''v'' \<or> c = CHR ''V'') \<and> is_digit d then d # rest else s
   | _ \<Rightarrow> s)"

definition parse_version :: "string option \<Rightarrow> version option" where
  "parse_version raw = (case raw of
     None \<Rightarrow> None
   | Some t \<Rightarrow>
     (let cleaned = drop_leading_v (strip t) in
      if t = [] \<or> cleaned = [] then None
      else case read_tokens (split_at is_separator (lower cleaned)) [] [] False of
        None \<Rightarrow> None
      | Some (rel, pre, seen) \<Rightarrow>
          if rel = [] then None
          else Some \<lparr>version_sort_key = (rel, if seen then 0 else 1, pre), version_text = t\<rparr>))"


section \<open>Matching products\<close>

definition is_noise :: "char \<Rightarrow> bool" where
  "is_noise c = (\<not> (is_lower_az c \<or> is_digit c))"

definition generic_tokens :: "string list" where
  "generic_tokens = [''apache'', ''client'', ''community'', ''corp'', ''corporation'', ''edition'',
     ''enterprise'', ''foundation'', ''framework'', ''free'', ''gnu'', ''google'', ''hat'', ''inc'',
     ''library'', ''microsoft'', ''open'', ''oracle'', ''project'', ''red'', ''redhat'', ''server'',
     ''software'', ''source'', ''standard'', ''the'']"

definition normalize_product :: "string \<Rightarrow> string" where
  "normalize_product name = filter (\<lambda>c. \<not> is_noise c) (lower name)"

definition distinctive_tokens :: "string \<Rightarrow> string set" where
  "distinctive_tokens name =
     set (filter (\<lambda>token. token \<noteq> []) (split_at is_noise (lower name))) - set generic_tokens"

definition product_match_score :: "string \<Rightarrow> string \<Rightarrow> nat" where
  "product_match_score installed affected_name =
     (let left = normalize_product installed; right = normalize_product affected_name in
      if left = [] \<or> right = [] then 0
      else if left = right then 100
      else
        let shared = Set.filter (\<lambda>token. length token \<ge> 3)
                       (distinctive_tokens installed \<inter> distinctive_tokens affected_name) in
        if shared \<noteq> {} then card shared
        else if min (length left) (length right) < 4 then 0
        else if py_in left right \<or> py_in right left then 1 else 0)"

definition products_match :: "string \<Rightarrow> string \<Rightarrow> bool" where
  "products_match installed affected_name = (product_match_score installed affected_name > 0)"


section \<open>Ranges and applicability\<close>

text \<open>The four bounds in the order they are checked, each with the comparison that keeps the version inside.\<close>

definition range_bounds :: "affected_range \<Rightarrow> (string option \<times> (version_key \<Rightarrow> version_key \<Rightarrow> bool)) list" where
  "range_bounds r = [(version_start_including r, (\<ge>)), (version_start_excluding r, (>)),
     (version_end_including r, (\<le>)), (version_end_excluding r, (<))]"

fun check_bounds :: "version \<Rightarrow> (string option \<times> (version_key \<Rightarrow> version_key \<Rightarrow> bool)) list \<Rightarrow> bool option" where
  "check_bounds v [] = Some True"
| "check_bounds v ((raw, satisfies) # bounds) =
     (if raw = None then check_bounds v bounds
      else case parse_version raw of
        None \<Rightarrow> None
      | Some bound \<Rightarrow>
          if \<not> satisfies (version_sort_key v) (version_sort_key bound) then Some False else check_bounds v bounds)"

definition in_vulnerable_range :: "version \<Rightarrow> affected_range \<Rightarrow> bool option" where
  "in_vulnerable_range v r = (if is_unbounded r then Some True else check_bounds v (range_bounds r))"

definition assess_one :: "asset_context \<Rightarrow> string \<Rightarrow> string option \<Rightarrow> affected_range \<Rightarrow> applicability_evidence" where
  "assess_one asset product installed_version r =
     (let evidence = (\<lambda>reason iv detail. \<lparr>ae_reason = reason, ae_hostname = Some (hostname asset),
            ae_product = Some product, ae_installed_version = iv, ae_matched_range = Some r, ae_detail = detail\<rparr>);
          runs = hostname asset @ '' runs '' @ product in
      if \<not> truthy installed_version then
        evidence Version_Unknown None (runs @ '' but the inventory records no version'')
      else case parse_version installed_version of
        None \<Rightarrow> evidence Version_Unparseable installed_version
                 (''version '' @ repr_str (the installed_version) @ '' on '' @ hostname asset @ '' could not be parsed'')
      | Some parsed \<Rightarrow>
        (case in_vulnerable_range parsed r of
           None \<Rightarrow> evidence Version_Unparseable installed_version
                    ''the published range contains a bound that could not be parsed''
         | Some True \<Rightarrow> evidence Version_In_Vulnerable_Range installed_version
                    (runs @ '' '' @ the installed_version @ '', which falls inside the published vulnerable range'')
         | Some False \<Rightarrow> evidence Version_Not_In_Vulnerable_Range installed_version
                    (runs @ '' '' @ the installed_version @ '', which is outside the published vulnerable range'')))"

definition bare_evidence :: "applicability_reason \<Rightarrow> string \<Rightarrow> applicability_evidence" where
  "bare_evidence reason detail = \<lparr>ae_reason = reason, ae_hostname = None, ae_product = None,
     ae_installed_version = None, ae_matched_range = None, ae_detail = detail\<rparr>"

definition gather_evidence :: "cve_record \<Rightarrow> asset_context list \<Rightarrow> applicability_evidence list" where
  "gather_evidence rec assets =
     [assess_one asset (sw_product installed) (sw_version installed) r.
        asset \<leftarrow> assets, installed \<leftarrow> software asset, r \<leftarrow> affected rec,
        products_match (sw_product installed) (ar_product r)]"

definition assess_applicability ::
  "cve_record \<Rightarrow> asset_context list \<Rightarrow> cve_applicability \<times> applicability_evidence list" where
  "assess_applicability rec assets =
     (if affected rec = [] then
        (Candidate, [bare_evidence No_Affected_Range_Published
           (cve_id rec @ '' publishes no affected version range, so applicability cannot be confirmed against the inventory'')])
      else let evidence = gather_evidence rec assets in
        if evidence = [] then
          (Candidate, [bare_evidence Product_Not_In_Inventory
             (if assets \<noteq> [] then ''no asset inventory entry matches the products '' @ cve_id rec @ '' affects''
              else ''no asset inventory was supplied, so applicability cannot be assessed'')])
        else let reasons = ae_reason ` set evidence in
          if Version_In_Vulnerable_Range \<in> reasons then (Confirmed, evidence)
          else if reasons - {Version_Not_In_Vulnerable_Range} \<noteq> {} then (Candidate, evidence)
          else (Not_Applicable, evidence))"

text \<open>
  \<^verbatim>\<open>CveAssessment._confirmed_requires_asset_and_version\<close>: whether the contract accepts an assessment
  with this applicability and evidence.
\<close>

definition confirmed_requires_asset_and_version ::
  "cve_applicability \<Rightarrow> applicability_evidence list \<Rightarrow> bool" where
  "confirmed_requires_asset_and_version app evidence =
     (app \<noteq> Confirmed \<or> list_ex (\<lambda>item. ae_reason item = Version_In_Vulnerable_Range
        \<and> truthy (ae_hostname item) \<and> truthy (ae_product item) \<and> truthy (ae_installed_version item)) evidence)"


section \<open>Facts\<close>

lemma digit_facts:
  assumes "is_digit c"
  shows "lower_char c = c" "\<not> is_separator c" "\<not> is_space c" "\<not> is_lower_az c" "cp c \<noteq> 10"
    "c \<noteq> CHR ''v''" "c \<noteq> CHR ''V''"
  using assms
  by (auto simp: is_digit_def lower_char_def is_separator_def is_space_def is_lower_az_def Let_def)

lemma az_facts:
  assumes "is_lower_az c"
  shows "lower_char c = c" "\<not> is_separator c" "\<not> is_space c" "\<not> is_digit c" "cp c \<noteq> 10"
  using assms
  by (auto simp: is_digit_def lower_char_def is_separator_def is_space_def is_lower_az_def Let_def)

lemma separators: "is_separator (CHR ''.'')" "is_separator (CHR ''-'')"
  by (simp_all add: is_separator_def)

lemma chomp_id: "\<forall>c \<in> set s. cp c \<noteq> 10 \<Longrightarrow> chomp s = s"
  by (auto simp: chomp_def)

lemma numeric_show_nat: "is_numeric (show_nat n)" "chomp (show_nat n) = show_nat n"
proof -
  show *: "chomp (show_nat n) = show_nat n"
    using show_nat_digits[of n] by (intro chomp_id) (auto dest: digit_facts)
  show "is_numeric (show_nat n)"
    using show_nat_digits[of n] by (simp add: is_numeric_def * list_all_iff)
qed

lemma read_numbers:
  "read_tokens (map show_nat ns @ rest) rel pre False = read_tokens rest (rel @ map int ns) pre False"
  by (induction ns arbitrary: rel) (simp_all add: numeric_show_nat int_of_show_nat Let_def)

text \<open>Text that starts with a digit and has no separators, spaces or capitals inside its pieces is read as it stands.\<close>

definition plain_piece :: "string \<Rightarrow> bool" where
  "plain_piece w = (\<forall>c \<in> set w. is_digit c \<or> is_lower_az c)"

lemma plain_show_nat: "plain_piece (show_nat n)"
  using show_nat_digits[of n] by (auto simp: plain_piece_def)

lemma lower_plain: "\<forall>c \<in> set s. is_digit c \<or> is_lower_az c \<or> c = CHR ''.'' \<or> c = CHR ''-'' \<Longrightarrow> lower s = s"
  by (auto simp: lower_def map_idI digit_facts az_facts lower_char_def Let_def
      intro!: map_idI dest: digit_facts(1) az_facts(1))

lemma strip_id:
  assumes "\<forall>c \<in> set s. \<not> is_space c" shows "strip s = s"
proof -
  have "dropWhile is_space s = s" using assms by (intro dropWhile_id) (cases s; simp)
  moreover have "dropWhile is_space (rev s) = rev s"
    using assms by (intro dropWhile_id) (metis hd_in_set set_rev)
  ultimately show ?thesis by (simp add: strip_by_def)
qed

lemma split_append:
  assumes "\<forall>c \<in> set w. \<not> p c" "p d"
  shows "split_at p (w @ d # r) = w # split_at p r"
  using assms by (induction w) auto

lemma split_plain: "\<forall>c \<in> set w. \<not> p c \<Longrightarrow> split_at p w = [w]"
  by (induction w) auto

definition dotted :: "nat list \<Rightarrow> string" where
  "dotted ns = join ''.'' (map show_nat ns)"

lemma dotted_chars: "c \<in> set (dotted ns) \<Longrightarrow> is_digit c \<or> c = CHR ''.''"
  using join_set[of "''.''" "map show_nat ns"] show_nat_digits unfolding dotted_def by fastforce

lemma dotted_starts: "ns \<noteq> [] \<Longrightarrow> \<exists>c cs. dotted ns = c # cs \<and> is_digit c"
proof -
  assume "ns \<noteq> []"
  then obtain n ms where ns: "ns = n # ms" by (cases ns) auto
  obtain c cs where c: "show_nat n = c # cs" by (cases "show_nat n") auto
  then have "is_digit c" using show_nat_digits[of n] by simp
  then show ?thesis using c ns by (cases ms) (simp_all add: dotted_def)
qed

text \<open>What reading does with a dotted release, alone or followed by a dashed word.\<close>

lemma split_dotted_dash:
  assumes "ns \<noteq> []"
  shows "split_at is_separator (dotted ns @ CHR ''-'' # w) = map show_nat ns @ split_at is_separator w"
  using assms unfolding dotted_def
proof (induction ns rule: list_nonempty_induct)
  case (single n)
  have "\<forall>c \<in> set (show_nat n). \<not> is_separator c" using show_nat_digits[of n] by (auto dest: digit_facts)
  then show ?case
    using split_append[of "show_nat n" is_separator "CHR ''-''" w] separators by simp
next
  case (cons n ns)
  have d: "\<forall>c \<in> set (show_nat n). \<not> is_separator c" using show_nat_digits[of n] by (auto dest: digit_facts)
  have "join ''.'' (map show_nat (n # ns)) = show_nat n @ CHR ''.'' # join ''.'' (map show_nat ns)"
    using cons.hyps by (cases ns) auto
  then show ?case using cons.IH split_append[OF d separators(1)] by simp
qed

lemma split_dotted: "ns \<noteq> [] \<Longrightarrow> split_at is_separator (dotted ns) = map show_nat ns"
proof -
  assume ne: "ns \<noteq> []"
  have "\<forall>w \<in> set (map show_nat ns). \<forall>c \<in> set w. \<not> is_separator c"
    using show_nat_digits by (auto dest: digit_facts)
  then show ?thesis unfolding dotted_def using split_join[of "map show_nat ns" is_separator "CHR ''.''"] ne separators by simp
qed

lemma parse_plain:
  assumes "c # cs = s" "is_digit c" "\<forall>c \<in> set s. is_digit c \<or> is_lower_az c \<or> c = CHR ''.'' \<or> c = CHR ''-''"
  shows "parse_version (Some s) = (case read_tokens (split_at is_separator s) [] [] False of
       None \<Rightarrow> None
     | Some (rel, pre, seen) \<Rightarrow>
         if rel = [] then None
         else Some \<lparr>version_sort_key = (rel, if seen then 0 else 1, pre), version_text = s\<rparr>)"
proof -
  have "\<not> is_space (CHR ''.'')" "\<not> is_space (CHR ''-'')" by code_simp+
  then have "strip s = s" using assms(3) by (intro strip_id) (auto dest: digit_facts az_facts)
  moreover have "drop_leading_v s = s"
    using assms(1,2) by (auto simp: drop_leading_v_def dest: digit_facts split: list.splits)
  ultimately show ?thesis
    using assms(1) lower_plain[OF assms(3)] by (auto simp: parse_version_def Let_def)
qed

text \<open>Each word of the pre-release table is one token of letters.\<close>

lemma prerelease_word_plain:
  assumes "map_of prerelease_rank w = Some rank"
  shows "w \<noteq> []" "\<forall>c \<in> set w. is_lower_az c" "w \<notin> set release_words"
proof -
  have "w \<in> set (map fst prerelease_rank)"
    using assms by (metis domI dom_map_of_conv_image_fst list.set_map)
  then have "list_all (\<lambda>w. w \<noteq> [] \<and> list_all is_lower_az w \<and> w \<notin> set release_words) (map fst prerelease_rank)
    \<Longrightarrow> w \<noteq> [] \<and> list_all is_lower_az w \<and> w \<notin> set release_words" by (auto simp: list_all_iff)
  moreover have "list_all (\<lambda>w. w \<noteq> [] \<and> list_all is_lower_az w \<and> w \<notin> set release_words) (map fst prerelease_rank)"
    by code_simp
  ultimately show "w \<noteq> []" "\<forall>c \<in> set w. is_lower_az c" "w \<notin> set release_words"
    by (auto simp: list_all_iff)
qed

lemma read_prerelease_word:
  assumes "map_of prerelease_rank w = Some rank" "\<forall>c \<in> set ds. is_digit c"
  shows "read_tokens [w @ ds] rel pre seen = Some (rel, pre @ [rank] @ (if ds \<noteq> [] then [int_of_digits ds] else []), True)"
proof -
  note w = prerelease_word_plain[OF assms(1)]
  have ch: "chomp (w @ ds) = w @ ds"
    using w(2) assms(2) by (intro chomp_id) (auto dest: digit_facts az_facts)
  have "takeWhile is_lower_az (w @ ds) = w" "dropWhile is_lower_az (w @ ds) = ds"
    using w(2) assms(2) by (cases ds; auto simp: takeWhile_append dropWhile_append dest: digit_facts)+
  then have a: "alphanum (w @ ds) = Some (w, ds)"
    using w(1) assms(2) by (simp add: alphanum_def ch Let_def list_all_iff)
  have num: "\<not> is_numeric (w @ ds)"
    using w(1,2) unfolding is_numeric_def ch by (cases w) (auto simp: list_all_iff dest: az_facts)
  have "w @ ds \<notin> set release_words"
  proof
    assume m: "w @ ds \<in> set release_words"
    have "list_all (list_all is_lower_az) release_words" by code_simp
    then have "\<forall>c \<in> set (w @ ds). is_lower_az c" using m by (auto simp: list_all_iff)
    then have "ds = []" using assms(2) by (cases ds) (auto dest: digit_facts)
    then show False using m w(3) by simp
  qed
  then show ?thesis using w(1) a num assms(1) by simp
qed

lemma check_bounds_True:
  "check_bounds v bs = Some True \<longleftrightarrow>
   (\<forall>(raw, satisfies) \<in> set bs. raw = None \<or>
      (\<exists>b. parse_version raw = Some b \<and> satisfies (version_sort_key v) (version_sort_key b)))"
  by (induction v bs rule: check_bounds.induct) (auto split: option.splits)

lemma check_bounds_None:
  "check_bounds v bs = None \<Longrightarrow> \<exists>(raw, satisfies) \<in> set bs. raw \<noteq> None \<and> parse_version raw = None"
  by (induction v bs rule: check_bounds.induct) (auto split: option.splits if_splits)

lemma check_bounds_False:
  "check_bounds v bs = Some False \<Longrightarrow>
   \<exists>(raw, satisfies) \<in> set bs. \<exists>b. parse_version raw = Some b \<and> \<not> satisfies (version_sort_key v) (version_sort_key b)"
  by (induction v bs rule: check_bounds.induct) (auto split: option.splits if_splits)

text \<open>Where one installed product is decided against one range.\<close>

definition range_verdict :: "string option \<Rightarrow> affected_range \<Rightarrow> bool option" where
  "range_verdict installed_version r = (if \<not> truthy installed_version then None
     else Option.bind (parse_version installed_version) (\<lambda>v. in_vulnerable_range v r))"

lemma assess_one_reason:
  "ae_reason (assess_one asset p iv r) = Version_In_Vulnerable_Range \<longleftrightarrow> range_verdict iv r = Some True"
  "ae_reason (assess_one asset p iv r) = Version_Not_In_Vulnerable_Range \<longleftrightarrow> range_verdict iv r = Some False"
  by (auto simp: assess_one_def range_verdict_def Let_def split: option.splits bool.splits)

lemma assess_one_reasons:
  "ae_reason (assess_one asset p iv r) \<in>
     {Version_In_Vulnerable_Range, Version_Not_In_Vulnerable_Range, Version_Unknown, Version_Unparseable}"
  by (simp add: assess_one_def Let_def split: option.split bool.split)

lemma assess_one_names:
  "ae_hostname (assess_one asset p iv r) = Some (hostname asset)"
  "ae_product (assess_one asset p iv r) = Some p"
  "ae_matched_range (assess_one asset p iv r) = Some r"
  "range_verdict iv r = Some b \<Longrightarrow> ae_installed_version (assess_one asset p iv r) = iv"
  by (auto simp: assess_one_def range_verdict_def Let_def split: option.splits bool.splits if_splits)

text \<open>A host, an installed product and a published range that match.\<close>

definition matching :: "cve_record \<Rightarrow> asset_context list \<Rightarrow> asset_context \<Rightarrow> asset_software \<Rightarrow> affected_range \<Rightarrow> bool" where
  "matching rec assets asset sw r = (asset \<in> set assets \<and> sw \<in> set (software asset) \<and> r \<in> set (affected rec)
     \<and> products_match (sw_product sw) (ar_product r))"

lemma gather_evidence_iff:
  "e \<in> set (gather_evidence rec assets) \<longleftrightarrow>
   (\<exists>asset sw r. matching rec assets asset sw r \<and> e = assess_one asset (sw_product sw) (sw_version sw) r)"
  unfolding gather_evidence_def matching_def by auto

lemma assess_applicability_cases:
  "fst (assess_applicability rec assets) = Confirmed \<longleftrightarrow>
     Version_In_Vulnerable_Range \<in> ae_reason ` set (gather_evidence rec assets)"
  "fst (assess_applicability rec assets) = Not_Applicable \<longleftrightarrow>
     gather_evidence rec assets \<noteq> [] \<and>
     ae_reason ` set (gather_evidence rec assets) \<subseteq> {Version_Not_In_Vulnerable_Range}"
  "gather_evidence rec assets \<noteq> [] \<Longrightarrow> snd (assess_applicability rec assets) = gather_evidence rec assets"
proof -
  have none: "affected rec = [] \<Longrightarrow> gather_evidence rec assets = []"
    by (simp add: gather_evidence_def)
  show "fst (assess_applicability rec assets) = Confirmed \<longleftrightarrow>
     Version_In_Vulnerable_Range \<in> ae_reason ` set (gather_evidence rec assets)"
    using none by (auto simp: assess_applicability_def Let_def)
  show "fst (assess_applicability rec assets) = Not_Applicable \<longleftrightarrow>
     gather_evidence rec assets \<noteq> [] \<and>
     ae_reason ` set (gather_evidence rec assets) \<subseteq> {Version_Not_In_Vulnerable_Range}"
    using none by (auto simp: assess_applicability_def Let_def)
  show "gather_evidence rec assets \<noteq> [] \<Longrightarrow> snd (assess_applicability rec assets) = gather_evidence rec assets"
    using none by (auto simp: assess_applicability_def Let_def)
qed

lemma match_score_named: "products_match a b \<Longrightarrow> a \<noteq> []"
  by (auto simp: products_match_def product_match_score_def normalize_product_def Let_def lower_def split: if_splits)


lemma parse_dotted:
  assumes "ns \<noteq> []"
  shows "parse_version (Some (dotted ns)) = Some \<lparr>version_sort_key = (map int ns, 1, []), version_text = dotted ns\<rparr>"
proof -
  obtain c cs where c: "dotted ns = c # cs" "is_digit c" using dotted_starts[OF assms] by blast
  have "read_tokens (map show_nat ns) [] [] False = Some (map int ns, [], False)"
    using read_numbers[of ns "[]" "[]" "[]"] by simp
  then show ?thesis
    using assms by (subst parse_plain[OF c(1)[symmetric] c(2)]) (auto simp: split_dotted dest: dotted_chars)
qed

lemma parse_prerelease:
  assumes "ns \<noteq> []" "map_of prerelease_rank w = Some rank" "\<forall>c \<in> set ds. is_digit c"
  shows "\<exists>t pre. parse_version (Some (dotted ns @ ''-'' @ w @ ds)) =
    Some \<lparr>version_sort_key = (map int ns, 0, rank # pre), version_text = t\<rparr>"
proof -
  let ?s = "dotted ns @ CHR ''-'' # (w @ ds)"
  note w = prerelease_word_plain[OF assms(2)]
  obtain c cs where c: "c # (cs @ CHR ''-'' # (w @ ds)) = ?s" "is_digit c" using dotted_starts[OF assms(1)] by auto
  have chars: "\<forall>c \<in> set ?s. is_digit c \<or> is_lower_az c \<or> c = CHR ''.'' \<or> c = CHR ''-''"
    using w(2) assms(3) by (auto dest: dotted_chars)
  have "\<forall>c \<in> set (w @ ds). \<not> is_separator c" using w(2) assms(3) by (auto dest: digit_facts az_facts)
  then have "split_at is_separator ?s = map show_nat ns @ [w @ ds]"
    using split_dotted_dash[OF assms(1)] split_plain by simp
  then have "read_tokens (split_at is_separator ?s) [] [] False =
      Some (map int ns, [rank] @ (if ds \<noteq> [] then [int_of_digits ds] else []), True)"
    using read_prerelease_word[OF assms(2,3)] by (simp only: read_numbers append_Nil)
  then show ?thesis using parse_plain[OF c chars] assms(1) by simp
qed


section \<open>Properties\<close>

text \<open>
  When one version comes before another, said without the sort key: its release numbers come first in lexicographic order, or the
  releases are the same and it is a pre-release of what the other finally is, or both are pre-releases (or both final) and its
  pre-release numbers come first. A shorter list that is an initial part of the other comes first.
\<close>

fun numbers_before :: "int list \<Rightarrow> int list \<Rightarrow> bool" where
  "numbers_before _ [] = False"
| "numbers_before [] (_ # _) = True"
| "numbers_before (m # ms) (n # ns) = (m < n \<or> m = n \<and> numbers_before ms ns)"

definition version_before :: "version \<Rightarrow> version \<Rightarrow> bool" where
  "version_before a b = (numbers_before (release a) (release b) \<or> release a = release b \<and>
     (if is_prerelease a = is_prerelease b then numbers_before (snd (snd (version_sort_key a))) (snd (snd (version_sort_key b)))
      else is_prerelease a))"

text \<open>
  A version lies inside a published range: the range publishes no bound at all, or every bound it publishes can be read and the version
  is on the right side of it, where including and excluding bounds differ on the bound itself.
\<close>

definition inside_range :: "affected_range \<Rightarrow> version \<Rightarrow> bool" where
  "inside_range r v =
     (let holds = (\<lambda>raw side. case raw of None \<Rightarrow> True | Some t \<Rightarrow> (case parse_version (Some t) of None \<Rightarrow> False | Some b \<Rightarrow> side b)) in
      list_all (\<lambda>raw. raw = None \<or> raw = Some []) [version_start_including r, version_start_excluding r, version_end_including r, version_end_excluding r] \<or>
      holds (version_start_including r) (\<lambda>b. \<not> version_before v b) \<and> holds (version_start_excluding r) (\<lambda>b. version_before b v) \<and>
      holds (version_end_including r) (\<lambda>b. \<not> version_before b v) \<and> holds (version_end_excluding r) (\<lambda>b. version_before v b))"

lemma numbers_before_less: "numbers_before xs ys \<longleftrightarrow> xs < ys"
  by (induction xs ys rule: numbers_before.induct) auto

lemma parsed_kind: "parse_version raw = Some v \<Longrightarrow> fst (snd (version_sort_key v)) = 0 \<or> fst (snd (version_sort_key v)) = 1"
  by (auto simp: parse_version_def Let_def split: option.splits if_splits)

lemma version_before_less:
  assumes "parse_version x = Some a" "parse_version y = Some b"
  shows "version_before a b \<longleftrightarrow> version_sort_key a < version_sort_key b"
  using parsed_kind[OF assms(1)] parsed_kind[OF assms(2)]
  by (cases "version_sort_key a"; cases "version_sort_key b")
     (auto simp: version_before_def numbers_before_less release_def is_prerelease_def less_prod_def)

lemma inside_range_iff:
  assumes "parse_version x = Some v"
  shows "in_vulnerable_range v r = Some True \<longleftrightarrow> inside_range r v"
proof -
  have lt: "version_sort_key v < version_sort_key b \<longleftrightarrow> version_before v b" "version_sort_key b < version_sort_key v \<longleftrightarrow> version_before b v"
    if "parse_version (Some t) = Some b" for t b
    using version_before_less[OF assms that] version_before_less[OF that assms] by simp_all
  have le: "version_sort_key b \<le> version_sort_key v \<longleftrightarrow> \<not> version_before v b" "version_sort_key v \<le> version_sort_key b \<longleftrightarrow> \<not> version_before b v"
    if "parse_version (Some t) = Some b" for t b
    using lt[OF that] by (simp_all add: not_less[symmetric])
  have holds: "raw = None \<or> (\<exists>b. parse_version raw = Some b \<and> P b) \<longleftrightarrow>
      (case raw of None \<Rightarrow> True | Some t \<Rightarrow> (case parse_version (Some t) of None \<Rightarrow> False | Some b \<Rightarrow> P b))" for raw P
    by (cases raw) (auto split: option.splits)
  have same: "(case raw of None \<Rightarrow> True | Some t \<Rightarrow> (case parse_version (Some t) of None \<Rightarrow> False | Some b \<Rightarrow> P b)) \<longleftrightarrow>
      (case raw of None \<Rightarrow> True | Some t \<Rightarrow> (case parse_version (Some t) of None \<Rightarrow> False | Some b \<Rightarrow> Q b))"
    if "\<And>t b. parse_version (Some t) = Some b \<Longrightarrow> P b = Q b" for raw P Q
    using that by (auto split: option.splits)
  have blank: "is_unbounded r \<longleftrightarrow> list_all (\<lambda>raw. raw = None \<or> raw = Some [])
      [version_start_including r, version_start_excluding r, version_end_including r, version_end_excluding r]"
  proof -
    have "\<not> truthy raw \<longleftrightarrow> raw = None \<or> raw = Some []" for raw :: "string option"
      by (cases raw) (simp_all add: truthy_iff neq_Nil_conv[symmetric])
    then show ?thesis by (simp add: is_unbounded_def)
  qed
  have bounds: "check_bounds v (range_bounds r) = Some True \<longleftrightarrow>
      (case version_start_including r of None \<Rightarrow> True | Some t \<Rightarrow> (case parse_version (Some t) of None \<Rightarrow> False | Some b \<Rightarrow> \<not> version_before v b)) \<and>
      (case version_start_excluding r of None \<Rightarrow> True | Some t \<Rightarrow> (case parse_version (Some t) of None \<Rightarrow> False | Some b \<Rightarrow> version_before b v)) \<and>
      (case version_end_including r of None \<Rightarrow> True | Some t \<Rightarrow> (case parse_version (Some t) of None \<Rightarrow> False | Some b \<Rightarrow> \<not> version_before b v)) \<and>
      (case version_end_excluding r of None \<Rightarrow> True | Some t \<Rightarrow> (case parse_version (Some t) of None \<Rightarrow> False | Some b \<Rightarrow> version_before v b))"
    unfolding check_bounds_True range_bounds_def
    by (simp only: list.set ball_simps prod.case holds same[OF le(1)] same[OF le(2)] same[OF lt(1)] same[OF lt(2)] HOL.simp_thms)
  have "in_vulnerable_range v r = Some True \<longleftrightarrow> is_unbounded r \<or> check_bounds v (range_bounds r) = Some True"
    by (simp add: in_vulnerable_range_def)
  then show ?thesis unfolding inside_range_def Let_def bounds blank .
qed

text \<open>C5: A CVE is reported as confirmed exactly when some asset has an installed product that matches an
  affected product, with a version that can be read and lies inside that published range: on the right side of every
  bound the range publishes, each of which can be read too, where versions are ordered number by number and a
  pre-release comes before its release.\<close>

theorem confirmed_iff_full_chain:
  "fst (assess_applicability rec assets) = Confirmed \<longleftrightarrow>
   (\<exists>asset sw r v. asset \<in> set assets \<and> sw \<in> set (software asset) \<and> r \<in> set (affected rec)
      \<and> products_match (sw_product sw) (ar_product r)
      \<and> parse_version (sw_version sw) = Some v \<and> inside_range r v)"
proof -
  have "range_verdict iv r = Some True \<longleftrightarrow> (\<exists>v. parse_version iv = Some v \<and> in_vulnerable_range v r = Some True)" for iv r
    by (cases iv) (auto simp: range_verdict_def parse_version_def Option.bind_eq_Some_conv)
  then have verdict: "range_verdict iv r = Some True \<longleftrightarrow> (\<exists>v. parse_version iv = Some v \<and> inside_range r v)" for iv r
    using inside_range_iff by blast
  have "fst (assess_applicability rec assets) = Confirmed \<longleftrightarrow>
     (\<exists>asset sw r. matching rec assets asset sw r \<and> range_verdict (sw_version sw) r = Some True)"
    unfolding assess_applicability_cases(1) image_iff Bex_def gather_evidence_iff
    using assess_one_reason(1) by metis
  then show ?thesis unfolding matching_def verdict by blast
qed

text \<open>A CVE is ruled out exactly when some installed product matches an affected one and every match has a
  version that was read and found outside its range: an unknown or unreadable version never clears a host.\<close>

theorem ruled_out_iff_all_decided_outside:
  "fst (assess_applicability rec assets) = Not_Applicable \<longleftrightarrow>
   (\<exists>asset sw r. matching rec assets asset sw r) \<and>
   (\<forall>asset sw r. matching rec assets asset sw r \<longrightarrow>
      (\<exists>v. parse_version (sw_version sw) = Some v \<and> in_vulnerable_range v r = Some False))"
proof -
  have verdict: "range_verdict iv r = Some False \<longleftrightarrow> (\<exists>v. parse_version iv = Some v \<and> in_vulnerable_range v r = Some False)" for iv r
    by (cases iv) (auto simp: range_verdict_def parse_version_def Option.bind_eq_Some_conv)
  have ne: "gather_evidence rec assets \<noteq> [] \<longleftrightarrow> (\<exists>asset sw r. matching rec assets asset sw r)"
    using gather_evidence_iff[of _ rec assets] by (metis list.set_intros(1) neq_Nil_conv set_empty empty_iff)
  have "ae_reason ` set (gather_evidence rec assets) \<subseteq> {Version_Not_In_Vulnerable_Range} \<longleftrightarrow>
     (\<forall>asset sw r. matching rec assets asset sw r \<longrightarrow> range_verdict (sw_version sw) r = Some False)"
    unfolding image_subset_iff Ball_def gather_evidence_iff singleton_iff
    using assess_one_reason(2) by metis
  then show ?thesis unfolding assess_applicability_cases(2) ne verdict by blast
qed

theorem ruled_out_iff_all_decided_outside_witness:
  "let r = \<lparr>ar_product = ''log4j'', ar_vendor = None, version_start_including = None,
            version_start_excluding = None, version_end_including = None, version_end_excluding = Some ''2.15''\<rparr>
   in \<exists>v. parse_version (Some ''2.17.1'') = Some v \<and> in_vulnerable_range v r = Some False"
proof -
  define r where "r = \<lparr>ar_product = ''log4j'', ar_vendor = None, version_start_including = None,
            version_start_excluding = None, version_end_including = None, version_end_excluding = Some ''2.15''\<rparr>"
  define sw where "sw = \<lparr>sw_product = ''log4j'', sw_version = Some ''2.17.1''\<rparr>"
  define asset where "asset = \<lparr>hostname = ''web-1'', operating_system = None, software = [sw], environment = None\<rparr>"
  define rec where "rec = \<lparr>cve_id = ''CVE-2021-44228'', affected = [r]\<rparr>"
  have "fst (assess_applicability rec [asset]) = Not_Applicable"
    unfolding rec_def asset_def sw_def r_def by code_simp
  moreover have "matching rec [asset] asset sw r"
  proof -
    have "products_match ''log4j'' ''log4j''" by code_simp
    then show ?thesis by (simp add: matching_def rec_def asset_def sw_def r_def)
  qed
  ultimately have "\<exists>v. parse_version (sw_version sw) = Some v \<and> in_vulnerable_range v r = Some False"
    using ruled_out_iff_all_decided_outside[of rec "[asset]"] by blast
  then show ?thesis by (simp add: sw_def r_def)
qed

text \<open>Whatever the decision, evidence is given; a candidate always names a piece of missing evidence.\<close>

theorem candidate_names_the_gap:
  "case assess_applicability rec assets of (app, evidence) \<Rightarrow>
     evidence \<noteq> [] \<and> (app = Candidate) = (list_all (\<lambda>e. ae_reason e \<noteq> Version_In_Vulnerable_Range) evidence
       \<and> list_ex (\<lambda>e. ae_reason e \<in> {Version_Unknown, Version_Unparseable, No_Affected_Range_Published,
            Product_Not_In_Inventory}) evidence)"
proof -
  have reasons: "ae_reason e \<in> {Version_In_Vulnerable_Range, Version_Not_In_Vulnerable_Range, Version_Unknown, Version_Unparseable}"
    if "e \<in> set (gather_evidence rec assets)" for e
    using that assess_one_reasons unfolding gather_evidence_iff by metis
  define ev where "ev = gather_evidence rec assets"
  show ?thesis
  proof (cases "affected rec = [] \<or> ev = []")
    case True
    then show ?thesis by (auto simp: assess_applicability_def bare_evidence_def Let_def simp flip: ev_def)
  next
    case False
    let ?R = "ae_reason ` set ev"
    have "assess_applicability rec assets =
        (if Version_In_Vulnerable_Range \<in> ?R then Confirmed
         else if ?R - {Version_Not_In_Vulnerable_Range} \<noteq> {} then Candidate else Not_Applicable, ev)"
      using False by (simp add: assess_applicability_def Let_def flip: ev_def)
    moreover have "?R \<subseteq> {Version_In_Vulnerable_Range, Version_Not_In_Vulnerable_Range, Version_Unknown, Version_Unparseable}"
      using reasons unfolding ev_def by blast
    moreover have "(\<exists>e \<in> set ev. ae_reason e \<in> S) \<longleftrightarrow> ?R \<inter> S \<noteq> {}" for S by blast
    moreover have "(\<forall>e \<in> set ev. ae_reason e \<noteq> x) \<longleftrightarrow> x \<notin> ?R" for x by auto
    ultimately show ?thesis using False by (auto simp only: prod.case list_all_iff list_ex_iff split: if_split)
  qed
qed

text \<open>A dotted release number parses to exactly its numbers, as a final release, and every pre-release of
  it written with a known word (with or without a number) parses and compares strictly below it.\<close>

theorem prerelease_below_release:
  assumes "ns \<noteq> []" "map_of prerelease_rank w = Some rank" "list_all is_digit ds"
  shows "\<exists>rel pre. parse_version (Some (dotted ns)) = Some rel \<and>
    parse_version (Some (dotted ns @ ''-'' @ w @ ds)) = Some pre \<and>
    release rel = map int ns \<and> \<not> is_prerelease rel \<and> is_prerelease pre \<and>
    version_sort_key pre < version_sort_key rel"
proof -
  obtain t p where "parse_version (Some (dotted ns @ ''-'' @ w @ ds)) =
      Some \<lparr>version_sort_key = (map int ns, 0, rank # p), version_text = t\<rparr>"
    using parse_prerelease[OF assms(1,2), of ds] assms(3) by (auto simp: list_all_iff)
  then show ?thesis using parse_dotted[OF assms(1)] by (simp add: release_def is_prerelease_def)
qed

theorem prerelease_below_release_witness:
  "\<exists>rel pre. parse_version (Some ''2.0'') = Some rel \<and> parse_version (Some ''2.0-rc1'') = Some pre
     \<and> version_sort_key pre < version_sort_key rel"
proof -
  have "map_of prerelease_rank ''rc'' = Some 4" by code_simp
  moreover have "list_all is_digit ''1''" by code_simp
  moreover have "dotted [2, 0] = ''2.0''" by code_simp
  ultimately show ?thesis
    using prerelease_below_release[of "[2, 0]" "''rc''" 4 "''1''"] by auto
qed

text \<open>A version is inside a range exactly when the range names no bound, or every bound it names parses and
  is met; the undecided answer is given only when some named bound cannot be parsed, and the negative one only
  when some bound that parses is violated.\<close>

theorem in_vulnerable_range_correct:
  "case in_vulnerable_range v r of
     Some True \<Rightarrow> is_unbounded r \<or> list_all (\<lambda>(raw, satisfies). raw = None \<or>
        (case parse_version raw of None \<Rightarrow> False | Some b \<Rightarrow> satisfies (version_sort_key v) (version_sort_key b))) (range_bounds r)
   | Some False \<Rightarrow> \<not> is_unbounded r \<and> list_ex (\<lambda>(raw, satisfies).
        case parse_version raw of None \<Rightarrow> False | Some b \<Rightarrow> \<not> satisfies (version_sort_key v) (version_sort_key b)) (range_bounds r)
   | None \<Rightarrow> \<not> is_unbounded r \<and> list_ex (\<lambda>(raw, satisfies). raw \<noteq> None \<and> parse_version raw = None) (range_bounds r)"
proof (cases "is_unbounded r")
  case True
  then show ?thesis by (simp add: in_vulnerable_range_def)
next
  case False
  then have "in_vulnerable_range v r = check_bounds v (range_bounds r)" by (simp add: in_vulnerable_range_def)
  moreover note check_bounds_True[of v "range_bounds r"] check_bounds_False[of v "range_bounds r"]
    check_bounds_None[of v "range_bounds r"]
  ultimately show ?thesis using False
    by (cases "check_bounds v (range_bounds r)" rule: option.exhaust[case_product bool.exhaust])
       (force simp: list_all_iff list_ex_iff split: option.splits bool.splits)+
qed

text \<open>The evidence behind a confirmation always satisfies the contract's validator, provided the inventory
  names its hosts.\<close>

theorem confirmed_passes_contract:
  assumes "\<forall>asset \<in> set assets. hostname asset \<noteq> []"
  shows "case assess_applicability rec assets of (app, evidence) \<Rightarrow> confirmed_requires_asset_and_version app evidence"
proof (cases "fst (assess_applicability rec assets) = Confirmed")
  case False
  then show ?thesis by (auto simp: confirmed_requires_asset_and_version_def split: prod.splits)
next
  case True
  then obtain asset sw r where m: "matching rec assets asset sw r"
    and v: "ae_reason (assess_one asset (sw_product sw) (sw_version sw) r) = Version_In_Vulnerable_Range"
    unfolding assess_applicability_cases(1) image_iff Bex_def gather_evidence_iff by metis
  let ?e = "assess_one asset (sw_product sw) (sw_version sw) r"
  have e: "?e \<in> set (gather_evidence rec assets)" using m gather_evidence_iff by blast
  then have "snd (assess_applicability rec assets) = gather_evidence rec assets"
    by (intro assess_applicability_cases(3)) auto
  moreover have "truthy (ae_hostname ?e)" "truthy (ae_product ?e)"
    using assms m by (auto simp: matching_def assess_one_names dest: match_score_named)
  moreover have "truthy (ae_installed_version ?e)"
  proof -
    have "range_verdict (sw_version sw) r = Some True" using v by (simp add: assess_one_reason)
    then show ?thesis by (auto simp: assess_one_names range_verdict_def split: if_splits)
  qed
  ultimately show ?thesis using e v
    by (auto simp: confirmed_requires_asset_and_version_def list_ex_iff split: prod.splits)
qed

theorem confirmed_passes_contract_witness:
  "let r = \<lparr>ar_product = ''log4j'', ar_vendor = None, version_start_including = Some ''2.0'',
            version_start_excluding = None, version_end_including = None, version_end_excluding = Some ''2.15''\<rparr>;
       rec = \<lparr>cve_id = ''CVE-2021-44228'', affected = [r]\<rparr>;
       asset = \<lparr>hostname = ''web-1'', operating_system = None,
            software = [\<lparr>sw_product = ''Apache Log4j'', sw_version = Some ''v2.14.1''\<rparr>], environment = None\<rparr>
   in confirmed_requires_asset_and_version Confirmed (snd (assess_applicability rec [asset]))"
proof -
  define r where "r = \<lparr>ar_product = ''log4j'', ar_vendor = None, version_start_including = Some ''2.0'',
            version_start_excluding = None, version_end_including = None, version_end_excluding = Some ''2.15''\<rparr>"
  define rec where "rec = \<lparr>cve_id = ''CVE-2021-44228'', affected = [r]\<rparr>"
  define asset where "asset = \<lparr>hostname = ''web-1'', operating_system = None,
            software = [\<lparr>sw_product = ''Apache Log4j'', sw_version = Some ''v2.14.1''\<rparr>], environment = None\<rparr>"
  have "fst (assess_applicability rec [asset]) = Confirmed"
    unfolding rec_def asset_def r_def by code_simp
  moreover have "\<forall>a \<in> set [asset]. hostname a \<noteq> []" by (simp add: asset_def)
  ultimately show ?thesis
    using confirmed_passes_contract[of "[asset]" rec]
    unfolding Let_def r_def[symmetric] rec_def[symmetric] asset_def[symmetric]
    by (simp add: case_prod_beta)
qed

text \<open>Matching two product names is symmetric, and a name matches itself exactly when it has a letter or a digit.\<close>

theorem product_match_symmetric:
  "product_match_score a b = product_match_score b a \<and>
   products_match a a = (normalize_product a \<noteq> [])"
  by (auto simp: product_match_score_def products_match_def Let_def Int_commute min.commute)

text \<open>Versions that differ by a trailing zero are ordered apart, so a host whose inventory spells \<^verbatim>\<open>2.0\<close> is
  ruled out of a range that starts at \<^verbatim>\<open>2.0.0\<close> (inclusive), while \<^verbatim>\<open>2.0.0\<close> itself is confirmed.\<close>

theorem trailing_zero_rules_out:
  "let r = \<lparr>ar_product = ''log4j'', ar_vendor = None, version_start_including = Some ''2.0.0'',
            version_start_excluding = None, version_end_including = None, version_end_excluding = None\<rparr>;
       rec = \<lparr>cve_id = ''CVE-2021-44228'', affected = [r]\<rparr>;
       asset = (\<lambda>v. \<lparr>hostname = ''web-1'', operating_system = None,
            software = [\<lparr>sw_product = ''log4j'', sw_version = Some v\<rparr>], environment = None\<rparr>)
   in fst (assess_applicability rec [asset ''2.0'']) = Not_Applicable
    \<and> fst (assess_applicability rec [asset ''2.0.0'']) = Confirmed"
  by code_simp

end
