(* ===== verification/Cvss.thy ===== *)
theory Cvss
  imports Severity
begin

text \<open>
  CVSS v3.x vector parsing, base scoring and interpretation (\<^verbatim>\<open>tools/cvss.py\<close>). The score is the
  code's float computation; its only library call, \<^verbatim>\<open>x ** 15\<close> (the platform's \<^verbatim>\<open>pow\<close>, whose last
  bit no standard fixes), is the argument \<open>fpow\<close>. Shown: the parser accepts exactly the complete
  vectors, every accepted vector is scored, the score is one of the tenths from 0.0 to 10.0, and a
  published one-decimal score never displaces the computed one.
\<close>

section \<open>Tables of the specification\<close>

type_synonym metrics = "(string, string) dict"

definition required_metrics :: "string list" where
  "required_metrics = [''AV'', ''AC'', ''PR'', ''UI'', ''S'', ''C'', ''I'', ''A'']"

definition impact_names :: "(string, string) dict" where
  "impact_names = [(''H'', ''HIGH''), (''L'', ''LOW''), (''N'', ''NONE'')]"

definition metric_names :: "(string, (string, string) dict) dict" where
  "metric_names =
     [(''AV'', [(''N'', ''NETWORK''), (''A'', ''ADJACENT_NETWORK''), (''L'', ''LOCAL''), (''P'', ''PHYSICAL'')]),
      (''AC'', [(''L'', ''LOW''), (''H'', ''HIGH'')]),
      (''PR'', [(''N'', ''NONE''), (''L'', ''LOW''), (''H'', ''HIGH'')]),
      (''UI'', [(''N'', ''NONE''), (''R'', ''REQUIRED'')]),
      (''S'', [(''U'', ''UNCHANGED''), (''C'', ''CHANGED'')]),
      (''C'', impact_names), (''I'', impact_names), (''A'', impact_names)]"

definition impact_weights :: "(string, pyfloat) dict" where
  "impact_weights = [(''H'', rnd (56/100)), (''L'', rnd (22/100)), (''N'', 0)]"

definition weights :: "(string, (string, pyfloat) dict) dict" where
  "weights =
     [(''AV'', [(''N'', rnd (85/100)), (''A'', rnd (62/100)), (''L'', rnd (55/100)), (''P'', rnd (2/10))]),
      (''AC'', [(''L'', rnd (77/100)), (''H'', rnd (44/100))]),
      (''UI'', [(''N'', rnd (85/100)), (''R'', rnd (62/100))]),
      (''C'', impact_weights), (''I'', impact_weights), (''A'', impact_weights)]"

definition privileges_required_weights :: "(string, (string, pyfloat) dict) dict" where
  "privileges_required_weights =
     [(''U'', [(''N'', rnd (85/100)), (''L'', rnd (62/100)), (''H'', rnd (27/100))]),
      (''C'', [(''N'', rnd (85/100)), (''L'', rnd (68/100)), (''H'', rnd (50/100))])]"

text \<open>\<^verbatim>\<open>table[k][v]\<close>; a missing key raises.\<close>

definition lookup2 :: "(string, (string, 'a) dict) dict \<Rightarrow> string \<Rightarrow> string \<Rightarrow> 'a option" where
  "lookup2 table k v = Option.bind (map_of table k) (\<lambda>row. map_of row v)"


section \<open>Parsing\<close>

text \<open>One \<^verbatim>\<open>[A-Z]{1,2}:[A-Z]\<close> part of the body, as its key and value.\<close>

fun vector_part :: "string \<Rightarrow> (string \<times> string) option" where
  "vector_part [a, b, c] =
     (if is_upper_az a \<and> b = CHR '':'' \<and> is_upper_az c then Some ([a], [c]) else None)"
| "vector_part [a, b, c, d] =
     (if is_upper_az a \<and> is_upper_az b \<and> c = CHR '':'' \<and> is_upper_az d
      then Some ([a, b], [d]) else None)"
| "vector_part _ = None"

fun all_parts :: "string list \<Rightarrow> (string, string) dict option" where
  "all_parts [] = Some []"
| "all_parts (w # ws) = (case (vector_part w, all_parts ws) of
     (Some kv, Some kvs) \<Rightarrow> Some (kv # kvs) | _ \<Rightarrow> None)"

text \<open>The regular expression \<^verbatim>\<open>_VECTOR\<close> on stripped text: the parsed key-value parts of the body.\<close>

definition match_vector :: "string \<Rightarrow> (string, string) dict option" where
  "match_vector text =
     (if prefix ''CVSS:3.0/'' text \<or> prefix ''CVSS:3.1/'' text
      then all_parts (split_at (\<lambda>c. c = CHR ''/'') (drop 9 text)) else None)"

text \<open>\<^verbatim>\<open>raw[key] = value\<close> in order: the last binding of a key wins.\<close>

definition raw_metric :: "(string, string) dict \<Rightarrow> string \<Rightarrow> string option" where
  "raw_metric parts k = map_of (rev parts) k"

fun read_metrics :: "(string, string) dict \<Rightarrow> string list \<Rightarrow> metrics option" where
  "read_metrics parts [] = Some []"
| "read_metrics parts (metric # rest) = (case raw_metric parts metric of
     None \<Rightarrow> None
   | Some v \<Rightarrow> (case lookup2 metric_names metric v of
       None \<Rightarrow> None
     | Some name \<Rightarrow> map_option (\<lambda>ms. (metric, name) # ms) (read_metrics parts rest)))"

definition parse_vector :: "string \<Rightarrow> metrics option" where
  "parse_vector vector = (case match_vector (strip vector) of
     None \<Rightarrow> None | Some parts \<Rightarrow> read_metrics parts required_metrics)"


section \<open>Scoring\<close>

definition roundup :: "pyfloat \<Rightarrow> pyfloat" where
  "roundup v = (let scaled = rhe (rnd (v * 100000)) in
     if scaled mod 10000 = 0 then rnd (of_int scaled / 100000)
     else rnd (of_int (\<lfloor>rnd (of_int scaled / 10000)\<rfloor> + 1) / 10))"

definition impact_sub_score :: "pyfloat \<Rightarrow> pyfloat \<Rightarrow> pyfloat \<Rightarrow> pyfloat" where
  "impact_sub_score c i a =
     rnd (1 - rnd (rnd (rnd (1 - c) * rnd (1 - i)) * rnd (1 - a)))"

definition impact_score :: "(pyfloat \<Rightarrow> nat \<Rightarrow> pyfloat) \<Rightarrow> bool \<Rightarrow> pyfloat \<Rightarrow> pyfloat" where
  "impact_score fpow changed impact_sub =
     (if \<not> changed then rnd (rnd (642/100) * impact_sub)
      else rnd (rnd (rnd (752/100) * rnd (impact_sub - rnd (29/1000)))
                - rnd (rnd (325/100) * fpow (rnd (impact_sub - rnd (2/100))) 15)))"

definition exploitability :: "pyfloat \<Rightarrow> pyfloat \<Rightarrow> pyfloat \<Rightarrow> pyfloat \<Rightarrow> pyfloat" where
  "exploitability av ac pr ui = rnd (rnd (rnd (rnd (rnd (822/100) * av) * ac) * pr) * ui)"

definition final_score :: "bool \<Rightarrow> pyfloat \<Rightarrow> pyfloat \<Rightarrow> pyfloat" where
  "final_score changed impact expl =
     (if impact \<le> 0 then 0
      else let combined = rnd (impact + expl);
               combined' = (if changed then rnd (combined * rnd (108/100)) else combined)
           in roundup (min combined' 10))"

text \<open>The weights of the eight metrics of a parsed body, in the order AV, AC, PR, UI, C, I, A.\<close>

definition metric_weights :: "(string, string) dict \<Rightarrow> (bool \<times> pyfloat list) option" where
  "metric_weights parts =
     (let w = (\<lambda>m. Option.bind (raw_metric parts m) (lookup2 weights m)) in
      case raw_metric parts ''S'' of
        None \<Rightarrow> None
      | Some scope \<Rightarrow>
        (if scope \<notin> {''U'', ''C''} then None
         else case (w ''AV'', w ''AC'',
                    Option.bind (raw_metric parts ''PR'') (lookup2 privileges_required_weights scope),
                    w ''UI'', w ''C'', w ''I'', w ''A'') of
           (Some av, Some ac, Some pr, Some ui, Some c, Some i, Some a) \<Rightarrow>
             Some (scope = ''C'', [av, ac, pr, ui, c, i, a])
         | _ \<Rightarrow> None))"

definition base_score :: "(pyfloat \<Rightarrow> nat \<Rightarrow> pyfloat) \<Rightarrow> string \<Rightarrow> pyfloat option" where
  "base_score fpow vector = (case match_vector (strip vector) of
     None \<Rightarrow> None
   | Some parts \<Rightarrow>
     (if parse_vector vector = None then None
      else case metric_weights parts of
        Some (changed, [av, ac, pr, ui, c, i, a]) \<Rightarrow>
          Some (final_score changed (impact_score fpow changed (impact_sub_score c i a))
                  (exploitability av ac pr ui))
      | _ \<Rightarrow> None))"


section \<open>Interpretation\<close>

record cvss_metrics =
  cm_version :: string
  cm_vector :: string
  cm_base_score :: pyfloat
  cm_severity :: severity
  cm_attack_vector :: string
  cm_attack_complexity :: string
  cm_privileges_required :: string
  cm_user_interaction :: string
  cm_scope :: string
  cm_confidentiality :: string
  cm_integrity :: string
  cm_availability :: string
  cm_narrative :: string

definition metric :: "metrics \<Rightarrow> string \<Rightarrow> string" where
  "metric ms k = (case map_of ms k of Some v \<Rightarrow> v | None \<Rightarrow> [])"

definition reach_phrase :: "string \<Rightarrow> string" where
  "reach_phrase v = (case map_of [(''NETWORK'', ''over the network''),
      (''ADJACENT_NETWORK'', ''from an adjacent network''),
      (''LOCAL'', ''with local access to the host''),
      (''PHYSICAL'', ''with physical access to the device'')] v of
      Some s \<Rightarrow> s | None \<Rightarrow> ''by an unspecified route'')"

definition privilege_phrase :: "string \<Rightarrow> string" where
  "privilege_phrase v = (case map_of [(''NONE'', ''without any credentials''),
      (''LOW'', ''with ordinary user credentials''),
      (''HIGH'', ''with administrative credentials'')] v of
      Some s \<Rightarrow> s | None \<Rightarrow> ''with unspecified privileges'')"

definition impact_phrase :: "metrics \<Rightarrow> string" where
  "impact_phrase ms =
     (let affected = [label @ '' ('' @ lower (metric ms m) @ '')''.
            (m, label) \<leftarrow> [(''C'', ''confidentiality''), (''I'', ''integrity''), (''A'', ''availability'')],
            metric ms m \<noteq> ''NONE'']
      in if affected \<noteq> [] then join '', '' affected
         else ''no direct impact on the affected component'')"

definition narrate :: "metrics \<Rightarrow> pyfloat \<Rightarrow> string" where
  "narrate ms score = strip (
     ''Scored '' @ float_str score @ ''/10 ('' @ severity_value (severity_level score) @ ''). ''
     @ ''Exploitable '' @ reach_phrase (metric ms ''AV'') @ '' '' @ privilege_phrase (metric ms ''PR'')
     @ (if metric ms ''UI'' = ''REQUIRED'' then '' and only if a user is tricked into acting''
        else '' and without any user interaction'')
     @ ''. Impact: '' @ impact_phrase ms @ ''.''
     @ (if metric ms ''AC'' = ''HIGH''
        then '' Exploitation depends on conditions outside the attacker'' @ [CHR 0x27] @ ''s control.''
        else [])
     @ (if metric ms ''S'' = ''CHANGED''
        then '' A successful attack reaches beyond the vulnerable component into other systems.''
        else []))"

definition interpret_score :: "pyfloat \<Rightarrow> pyfloat option \<Rightarrow> pyfloat" where
  "interpret_score computed reported = (case reported of
     None \<Rightarrow> computed
   | Some r \<Rightarrow> if \<bar>rnd (r - computed)\<bar> < rnd (5/100) then py_round 1 r else computed)"

definition cvss_interpret ::
  "(pyfloat \<Rightarrow> nat \<Rightarrow> pyfloat) \<Rightarrow> string \<Rightarrow> pyfloat option \<Rightarrow> cvss_metrics option" where
  "cvss_interpret fpow vector reported = (case (parse_vector vector, base_score fpow vector) of
     (Some ms, Some computed) \<Rightarrow>
       (let score = interpret_score computed reported in
        Some \<lparr>cm_version = removeprefix ''CVSS:'' (hd (split_at (\<lambda>c. c = CHR ''/'') (strip vector))),
              cm_vector = strip vector,
              cm_base_score = score,
              cm_severity = severity_level score,
              cm_attack_vector = metric ms ''AV'',
              cm_attack_complexity = metric ms ''AC'',
              cm_privileges_required = metric ms ''PR'',
              cm_user_interaction = metric ms ''UI'',
              cm_scope = metric ms ''S'',
              cm_confidentiality = metric ms ''C'',
              cm_integrity = metric ms ''I'',
              cm_availability = metric ms ''A'',
              cm_narrative = narrate ms score\<rparr>)
   | _ \<Rightarrow> None)"

definition remotely_exploitable_without_credentials :: "cvss_metrics \<Rightarrow> bool" where
  "remotely_exploitable_without_credentials m = (cm_attack_vector m = ''NETWORK''
     \<and> cm_privileges_required m = ''NONE'' \<and> cm_user_interaction m = ''NONE'')"


section \<open>Facts\<close>

text \<open>On the scores' range the specification's rounding is an exact ceiling in tenths.\<close>

lemma roundup_tenth:
  assumes "0 \<le> v" "v \<le> 10"
  shows "roundup v = rnd (of_int (- ((- rhe (rnd (v * 100000))) div 10000)) / 10)"
    and "0 \<le> - ((- rhe (rnd (v * 100000))) div 10000)"
    and "- ((- rhe (rnd (v * 100000))) div 10000) \<le> 100"
proof -
  define s where "s = rhe (rnd (v * 100000))"
  have "rnd (v * 100000) \<le> 1000000" "0 \<le> rnd (v * 100000)"
    using assms rnd_le_int[of "v * 100000" 1000000] by (auto intro: rnd_nonneg)
  then have s: "0 \<le> s" "s \<le> 1000000"
    unfolding s_def using rhe_le_int[of _ 1000000] by (auto intro: rhe_nonneg)
  define n where "n = - ((- s) div 10000)"
  show "0 \<le> - ((- rhe (rnd (v * 100000))) div 10000)"
    and "- ((- rhe (rnd (v * 100000))) div 10000) \<le> 100"
    using s by (simp_all flip: s_def)
  have "roundup v = rnd (of_int n / 10)"
  proof (cases "s mod 10000 = 0")
    case True
    then have "(- s) mod 10000 = 0" by (simp add: mod_eq_0_iff_dvd)
    then have "s = 10000 * n" unfolding n_def using mult_div_mod_eq[of 10000 "- s"] by linarith
    then have "(of_int s / 100000 :: rat) = of_int n / 10" by simp
    with True show ?thesis by (simp add: roundup_def Let_def flip: s_def)
  next
    case False
    define k where "k = s div 10000"
    have k: "0 \<le> k" "k < 100" "n = k + 1" "10000 * k \<le> s" "s \<le> 10000 * k + 9999"
    proof -
      define r where "r = s mod 10000"
      have e: "s = 10000 * k + r" by (simp add: k_def r_def)
      have r: "0 < r" "r < 10000" using False by (auto simp: le_less r_def)
      show "0 \<le> k" "k < 100" "10000 * k \<le> s" "s \<le> 10000 * k + 9999" using e r s by linarith+
      have "- s = 10000 * (- k - 1) + (10000 - r)" using e by simp
      then have "(- s) div 10000 = - k - 1"
        by (rule int_div_pos_eq) (use r in auto)
      then show "n = k + 1" by (simp add: n_def)
    qed
    let ?x = "of_int s / 10000 :: rat"
    have lo: "of_int k \<le> ?x"
      using k(4) by (simp add: field_simps)
    have up: "?x \<le> of_int k + 9999 / 10000"
    proof -
      have "(of_int s :: rat) \<le> of_int (10000 * k + 9999)" using k(5) by (simp only: of_int_le_iff)
      then show ?thesis by (simp add: field_simps)
    qed
    have "of_int k \<le> rnd ?x" using lo k by (intro rnd_ge_int) auto
    moreover have "rnd ?x < of_int k + 1"
    proof -
      have "?x < 2 ^ 7" using s by (simp add: field_simps)
      then have "\<bar>rnd ?x - ?x\<bar> \<le> 1 / 2 ^ 47"
        using rnd_error_below[of ?x 7] s by simp
      then have "rnd ?x \<le> ?x + 1 / 2 ^ 47" by linarith
      with up show ?thesis by simp
    qed
    ultimately have "\<lfloor>rnd ?x\<rfloor> = k" by (simp add: floor_eq_iff)
    with False k(3) show ?thesis by (simp add: roundup_def Let_def flip: s_def)
  qed
  then show "roundup v = rnd (of_int (- ((- rhe (rnd (v * 100000))) div 10000)) / 10)"
    by (simp add: n_def s_def)
qed

lemma weight_of_name:
  assumes "lookup2 metric_names m v = Some nm" "m \<in> {''AV'', ''AC'', ''UI'', ''C'', ''I'', ''A''}"
  shows "\<exists>w. lookup2 weights m v = Some w \<and> 0 \<le> w"
  using assms
  by (auto simp: lookup2_def metric_names_def weights_def impact_names_def impact_weights_def
      intro: rnd_nonneg split: if_splits)

lemma privilege_weight_of_name:
  assumes "lookup2 metric_names ''PR'' v = Some nm" "scope \<in> {''U'', ''C''}"
  shows "\<exists>w. lookup2 privileges_required_weights scope v = Some w \<and> 0 \<le> w"
  using assms
  by (auto simp: lookup2_def metric_names_def privileges_required_weights_def
      intro: rnd_nonneg split: if_splits)

lemma scope_of_name: "lookup2 metric_names ''S'' v = Some nm \<Longrightarrow> v \<in> {''U'', ''C''}"
  by (auto simp: lookup2_def metric_names_def split: if_splits)

lemma read_metrics_raw:
  "read_metrics parts ms = Some out \<Longrightarrow> m \<in> set ms \<Longrightarrow>
   \<exists>v nm. raw_metric parts m = Some v \<and> lookup2 metric_names m v = Some nm"
  by (induction parts ms arbitrary: out rule: read_metrics.induct) (auto split: option.splits)

text \<open>A completely parsed vector has all its weights, and they are non-negative.\<close>

lemma metric_weights_total:
  assumes "read_metrics parts required_metrics = Some ms"
  shows "\<exists>changed av ac pr ui c i a.
    metric_weights parts = Some (changed, [av, ac, pr, ui, c, i, a]) \<and> 0 \<le> av \<and> 0 \<le> ac \<and> 0 \<le> pr \<and> 0 \<le> ui"
proof -
  have raw: "m \<in> set required_metrics \<Longrightarrow>
      \<exists>v nm. raw_metric parts m = Some v \<and> lookup2 metric_names m v = Some nm" for m
    by (rule read_metrics_raw[OF assms])
  have w: "m \<in> {''AV'', ''AC'', ''UI'', ''C'', ''I'', ''A''} \<Longrightarrow>
      \<exists>w. Option.bind (raw_metric parts m) (lookup2 weights m) = Some w \<and> 0 \<le> w" for m
  proof -
    assume m: "m \<in> {''AV'', ''AC'', ''UI'', ''C'', ''I'', ''A''}"
    then have "m \<in> set required_metrics" unfolding required_metrics_def by auto
    then obtain v nm where "raw_metric parts m = Some v" "lookup2 metric_names m v = Some nm"
      using raw by blast
    with weight_of_name[OF _ m] show ?thesis by auto
  qed
  obtain scope nm where scope: "raw_metric parts ''S'' = Some scope" "lookup2 metric_names ''S'' scope = Some nm"
    using raw[of "''S''"] by (auto simp: required_metrics_def)
  have pr: "\<exists>w. Option.bind (raw_metric parts ''PR'') (lookup2 privileges_required_weights scope) = Some w \<and> 0 \<le> w"
  proof -
    have "''PR'' \<in> set required_metrics" unfolding required_metrics_def by simp
    then obtain v nm where "raw_metric parts ''PR'' = Some v" "lookup2 metric_names ''PR'' v = Some nm"
      using raw by blast
    with privilege_weight_of_name[OF _ scope_of_name[OF scope(2)]] show ?thesis by auto
  qed
  show ?thesis
    using w[of "''AV''"] w[of "''AC''"] w[of "''UI''"] w[of "''C''"] w[of "''I''"] w[of "''A''"] pr
      scope(1) scope_of_name[OF scope(2)]
    by (auto simp: metric_weights_def)
qed

lemma base_score_cases:
  assumes "parse_vector vector = Some ms"
  shows "\<exists>changed impact expl. base_score fpow vector = Some (final_score changed impact expl) \<and> 0 \<le> expl"
proof -
  obtain parts where parts: "match_vector (strip vector) = Some parts"
    and read: "read_metrics parts required_metrics = Some ms"
    using assms by (auto simp: parse_vector_def split: option.splits)
  obtain changed av ac pr ui c i a where mw:
    "metric_weights parts = Some (changed, [av, ac, pr, ui, c, i, a])" "0 \<le> av" "0 \<le> ac" "0 \<le> pr" "0 \<le> ui"
    using metric_weights_total[OF read] by blast
  have "0 \<le> exploitability av ac pr ui"
    unfolding exploitability_def using mw(2-5) by (intro rnd_nonneg mult_nonneg_nonneg) auto
  then show ?thesis using parts mw(1) assms by (auto simp: base_score_def)
qed

lemma final_score_tenth:
  assumes "0 \<le> expl"
  shows "\<exists>n. 0 \<le> n \<and> n \<le> 100 \<and> final_score changed impact expl = rnd (of_int n / 10)"
proof (cases "impact \<le> 0")
  case True
  then show ?thesis by (intro exI[of _ 0]) (simp add: final_score_def)
next
  case False
  define c where "c = (if changed then rnd (rnd (impact + expl) * rnd (108/100)) else rnd (impact + expl))"
  have "0 \<le> rnd (impact + expl)" using False assms by (intro rnd_nonneg) auto
  moreover have "0 \<le> rnd (108/100)" by (rule rnd_nonneg) simp
  ultimately have "0 \<le> c" unfolding c_def by (simp add: rnd_nonneg)
  then have "0 \<le> min c 10" "min c 10 \<le> 10" by auto
  moreover have "final_score changed impact expl = roundup (min c 10)"
    using False by (simp add: final_score_def c_def Let_def)
  ultimately show ?thesis
    using roundup_tenth[of "min c 10"]
    by (intro exI[of _ "- ((- rhe (rnd (min c 10 * 100000))) div 10000)"] conjI) simp_all
qed

text \<open>Tenths up to ten are far apart after rounding.\<close>

lemma tenth_error:
  assumes "0 \<le> n" "n \<le> 100" shows "\<bar>rnd (of_int n / 10) - of_int n / 10\<bar> \<le> (1 / 2 ^ 47 :: rat)"
proof -
  have "(of_int n :: rat) \<le> 100" using assms(2) by simp
  then have "(of_int n / 10 :: rat) < 2 ^ 7" by simp
  then show ?thesis using rnd_error_below[of "of_int n / 10" 7] assms(1) by simp
qed

lemma tenths_apart:
  assumes "0 \<le> m" "m < n" "n \<le> 100"
  shows "1 / 16 \<le> rnd (of_int n / 10) - (rnd (of_int m / 10) :: rat)"
proof -
  have "(of_int m :: rat) + 1 \<le> of_int n" using assms(2) by (metis of_int_1 of_int_add of_int_le_iff zless_imp_add1_zle)
  then have "(of_int n / 10 :: rat) - of_int m / 10 \<ge> 1 / 10" by simp
  moreover have "\<bar>rnd (of_int n / 10) - of_int n / 10\<bar> \<le> (1 / 2 ^ 47 :: rat)"
    and "\<bar>rnd (of_int m / 10) - of_int m / 10\<bar> \<le> (1 / 2 ^ 47 :: rat)"
    using tenth_error[of n] tenth_error[of m] assms by linarith+
  ultimately show ?thesis unfolding abs_le_iff by (simp add: field_simps)
qed

lemma agreement_threshold: "rnd (5/100) < 1 / 16"
  by code_simp

lemma rnd_sixteenth: "rnd (1 / 16) = 1 / 16"
  by code_simp

lemma interpret_score_tenth:
  assumes "0 \<le> m" "m \<le> 100" "0 \<le> n" "n \<le> 100"
  shows "interpret_score (rnd (of_int n / 10)) (Some (rnd (of_int m / 10))) = rnd (of_int n / 10)"
proof (cases "m = n")
  case True
  have "\<bar>rnd (of_int n / 10) * 10 - of_int n\<bar> \<le> (1 / 2 ^ 43 :: rat)"
    using tenth_error[OF assms(3,4)] unfolding abs_le_iff by (simp add: field_simps)
  then have e: "rnd (of_int n / 10) * 10 < of_int n + 1 / 2" "of_int n - 1 / 2 < rnd (of_int n / 10) * 10"
    unfolding abs_le_iff by (simp_all add: field_simps)
  have "\<bar>of_int (rhe (rnd (of_int n / 10) * 10)) - rnd (of_int n / 10) * 10\<bar> \<le> 1 / 2"
    by (rule rhe_error)
  with e have "\<bar>of_int (rhe (rnd (of_int n / 10) * 10)) - of_int n\<bar> < (1 :: rat)"
    unfolding abs_le_iff by (simp add: abs_less_iff)
  then have "\<bar>rhe (rnd (of_int n / 10) * 10) - n\<bar> < 1" by (simp flip: of_int_diff of_int_abs)
  then show ?thesis using True by (simp add: interpret_score_def py_round_def)
next
  case False
  have "1 / 16 \<le> \<bar>rnd (rnd (of_int m / 10) - rnd (of_int n / 10))\<bar>"
  proof (cases "m < n")
    case True
    then have "1 / 16 \<le> rnd (rnd (of_int n / 10) - rnd (of_int m / 10))"
      using tenths_apart[of m n] assms by (intro rnd_ge_float[OF _ rnd_sixteenth]) auto
    then show ?thesis
      using rnd_minus[of "rnd (of_int n / 10) - rnd (of_int m / 10)"] by simp
  next
    case nle: False
    then have "1 / 16 \<le> rnd (rnd (of_int m / 10) - rnd (of_int n / 10))"
      using tenths_apart[of n m] assms False by (intro rnd_ge_float[OF _ rnd_sixteenth]) auto
    then show ?thesis by simp
  qed
  then show ?thesis using agreement_threshold by (simp add: interpret_score_def)
qed


section \<open>Properties\<close>

text \<open>C36: A vector is scored exactly when it parses, and the score is then one of the 101 tenths from 0.0 to 10.0
  (the float nearest to it), whatever the platform's power function returns.\<close>

theorem base_score_total_tenths:
  "case base_score fpow vector of
     None \<Rightarrow> parse_vector vector = None
   | Some s \<Rightarrow> parse_vector vector \<noteq> None \<and> (\<exists>n. n \<in> {0..100} \<and> s = rnd (of_int n / 10))"
proof (cases "parse_vector vector")
  case None
  then have "base_score fpow vector = None" by (simp add: base_score_def split: option.splits)
  then show ?thesis using None by auto
next
  case (Some ms)
  then obtain changed impact expl where b: "base_score fpow vector = Some (final_score changed impact expl)" "0 \<le> expl"
    using base_score_cases[OF Some] by blast
  with final_score_tenth[OF b(2)] obtain n where
    "0 \<le> n" "n \<le> 100" "final_score changed impact expl = rnd (of_int n / 10)" by blast
  then show ?thesis using Some b(1) by (auto intro!: exI[of _ n])
qed

text \<open>A published score with one decimal between 0.0 and 10.0 never displaces the computed one: the
  interpreted metrics carry the score computed from the vector, its severity band, and the vector text stripped.\<close>

theorem interpret_keeps_computed_score:
  assumes "cvss_interpret fpow vector (Some (rnd (of_int m / 10))) = Some out" "0 \<le> m" "m \<le> 100"
  shows "base_score fpow vector = Some (cm_base_score out) \<and>
    cm_severity out = severity_level (cm_base_score out) \<and> cm_vector out = strip vector"
proof -
  obtain ms computed where p: "parse_vector vector = Some ms" "base_score fpow vector = Some computed"
    using assms(1) by (auto simp: cvss_interpret_def split: option.splits)
  obtain changed impact expl where b: "computed = final_score changed impact expl" "0 \<le> expl"
    using base_score_cases[OF p(1)] p(2) by (metis option.inject)
  then obtain n where "0 \<le> n" "n \<le> 100" "computed = rnd (of_int n / 10)"
    using final_score_tenth by blast
  then have "interpret_score computed (Some (rnd (of_int m / 10))) = computed"
    using interpret_score_tenth[of m n] assms(2,3) by simp
  then show ?thesis using assms(1) p by (auto simp: cvss_interpret_def Let_def)
qed


theorem interpret_keeps_computed_score_witness:
  "\<exists>out. cvss_interpret (\<lambda>x n. rnd (x ^ n)) ''CVSS:3.1/AV:N/AC:L/PR:N/UI:N/S:U/C:H/I:H/A:H'' (Some (rnd (of_int 75 / 10))) = Some out
     \<and> Some (cm_base_score out) = Some (rnd (98 / 10))"
proof -
  let ?v = "''CVSS:3.1/AV:N/AC:L/PR:N/UI:N/S:U/C:H/I:H/A:H''"
  let ?f = "\<lambda>(x::rat) n. rnd (x ^ n)"
  have score: "base_score ?f ?v = Some (rnd (98 / 10))" by code_simp
  have "parse_vector ?v \<noteq> None" by code_simp
  then obtain out where out: "cvss_interpret ?f ?v (Some (rnd (of_int 75 / 10))) = Some out"
    using score by (auto simp: cvss_interpret_def Let_def)
  show ?thesis using interpret_keeps_computed_score[OF out] score out by auto
qed

end
