(* ===== verification/Feeds.thy ===== *)
theory Feeds
  imports Channels Py_Value Versions Cvss Iocs
begin

text \<open>
  The read-only feed adapters: vulnerability records (\<^verbatim>\<open>integrations/nvd.py\<close>), security advisories
  (\<^verbatim>\<open>integrations/advisories.py\<close>) and reputations (\<^verbatim>\<open>integrations/threat_intel.py\<close>). The three clients follow one
  sequence (cache, breaker, limiter, call, parse, record, store, degrade), which is \<open>resilient_fetch\<close>; each adapter
  supplies its texts, its reading of a reply and its way to degrade. What the network answers is an argument
  (\<open>http_reply\<close>, a body being parsed JSON or not JSON at all), and so are the clock readings, the text of an
  exception and \<^verbatim>\<open>datetime.fromisoformat\<close>.
\<close>

section \<open>The shared client\<close>

datatype http_reply = Http_Error string | Http_Response int "pyval option"

record 'v feed =
  fd_cache :: "'v ttl_cache"
  fd_limiter :: rate_limiter
  fd_breaker :: circuit_breaker

record feed_readings = readings +
  at_get :: pyfloat
  at_set :: pyfloat

datatype admission = Circuit_Open | Rate_Limited | Admitted

definition admit :: "feed_readings \<Rightarrow> 'v feed \<Rightarrow> admission \<times> 'v feed" where
  "admit t f =
     (let (allowed, b) = breaker_allow (at_allow t) (fd_breaker f); f1 = f\<lparr>fd_breaker := b\<rparr> in
      if \<not> allowed then (Circuit_Open, f1)
      else let (acquired, l) = try_acquire (at_acquire t) 1 (fd_limiter f1); f2 = f1\<lparr>fd_limiter := l\<rparr> in
        (if acquired then Admitted else Rate_Limited, f2))"

definition note_failure :: "feed_readings \<Rightarrow> 'v feed \<Rightarrow> 'v feed" where
  "note_failure t f = f\<lparr>fd_breaker := record_failure (at_record t) (fd_breaker f)\<rparr>"

definition note_success :: "'v feed \<Rightarrow> 'v feed" where
  "note_success f = f\<lparr>fd_breaker := record_success (fd_breaker f)\<rparr>"

text \<open>How a reply is read: a status that is not an answer, or the outcome of parsing.\<close>

datatype 'v reading = Bad_Status | Parsed "py_error + 'v"

definition json_of :: "pyval option \<Rightarrow> py_error + pyval" where
  "json_of doc = (case doc of Some v \<Rightarrow> Inr v | None \<Rightarrow> Inl Value_Error)"

record lookup_failure =
  lf_query :: string
  lf_reason :: string
  lf_detail :: string

record 'v client_texts =
  open_text :: string
  limit_text :: string
  http_text :: "int \<Rightarrow> string"
  as_stale :: "string \<Rightarrow> 'v \<Rightarrow> 'v"

text \<open>\<^verbatim>\<open>_degrade\<close>: the last known answer, marked the adapter's way, or a typed failure.\<close>

definition degrade_to_stale ::
  "'v client_texts \<Rightarrow> string \<Rightarrow> string \<Rightarrow> string \<Rightarrow> string \<Rightarrow> 'v feed \<Rightarrow> lookup_failure + 'v" where
  "degrade_to_stale tx key label reason detail f = (case cache_get_stale key (fd_cache f) of
     Some v \<Rightarrow> Inr (as_stale tx detail v)
   | None \<Rightarrow> Inl \<lparr>lf_query = label, lf_reason = reason, lf_detail = detail\<rparr>)"

text \<open>
  The outcome is an exception that escapes the client, a typed failure, or an answer. The handlers catch
  \<^verbatim>\<open>ValueError\<close>, \<^verbatim>\<open>KeyError\<close> and \<^verbatim>\<open>TypeError\<close> of the parser, not \<^verbatim>\<open>AttributeError\<close>.
\<close>

definition resilient_fetch ::
  "'v client_texts \<Rightarrow> (int \<Rightarrow> pyval option \<Rightarrow> 'v reading) \<Rightarrow> (py_error \<Rightarrow> string) \<Rightarrow> feed_readings \<Rightarrow> http_reply
   \<Rightarrow> string \<Rightarrow> string \<Rightarrow> 'v feed \<Rightarrow> (py_error + lookup_failure + 'v) \<times> 'v feed" where
  "resilient_fetch tx read exc_text t reply key label f =
     (let (cached, c) = cache_get (at_get t) key (fd_cache f); f0 = f\<lparr>fd_cache := c\<rparr>;
          degraded = (\<lambda>reason detail g. (Inr (degrade_to_stale tx key label reason detail g), g)) in
      case cached of Some v \<Rightarrow> (Inr (Inr v), f0)
      | None \<Rightarrow> (case admit t f0 of
          (Circuit_Open, f1) \<Rightarrow> degraded ''circuit_open'' (open_text tx) f1
        | (Rate_Limited, f1) \<Rightarrow> degraded ''rate_limited'' (limit_text tx) f1
        | (Admitted, f1) \<Rightarrow> (case reply of
            Http_Error text \<Rightarrow> degraded ''unreachable'' text (note_failure t f1)
          | Http_Response status doc \<Rightarrow> (case read status doc of
              Bad_Status \<Rightarrow> degraded ''http_error'' (http_text tx status) (note_failure t f1)
            | Parsed (Inl e) \<Rightarrow>
                (if e = Attribute_Error then (Inl e, f1)
                 else degraded ''malformed_response'' (exc_text e) (note_failure t f1))
            | Parsed (Inr v) \<Rightarrow> let f2 = note_success f1 in
                (case cache_set (at_set t) key v (fd_cache f2) of
                   Inl _ \<Rightarrow> (Inl Key_Error, f2)
                 | Inr c' \<Rightarrow> (Inr (Inr v), f2\<lparr>fd_cache := c'\<rparr>))))))"

definition feed_available :: "pyfloat \<Rightarrow> 'v feed \<Rightarrow> bool" where
  "feed_available now f = (breaker_state now (fd_breaker f) \<noteq> Open)"


section \<open>Vulnerability records\<close>

datatype cve_data_source = Nvd | Knowledge_Corpus

record cve_feed_record = cve_record +
  cr_title :: string
  cr_summary :: string
  cr_cvss :: "cvss_metrics option"
  cr_cwe_ids :: "string list"
  cr_references :: "string list"
  cr_published_at :: "time option"
  cr_modified_at :: "time option"
  cr_source :: cve_data_source
  cr_stale :: bool

fun english_description_of :: "pyval list \<Rightarrow> string" where
  "english_description_of [] = []"
| "english_description_of (PDict d # es) =
     (if pget d ''lang'' = PStr ''en'' then strip (str_val (pget_or d ''value'' (PStr []))) else english_description_of es)"
| "english_description_of (_ # es) = english_description_of es"

definition english_description :: "pyval \<Rightarrow> string" where
  "english_description v = (case v of PList es \<Rightarrow> english_description_of es | _ \<Rightarrow> [])"

text \<open>The text before the first occurrence of a separator, as \<^verbatim>\<open>split(sep)[0]\<close> gives it.\<close>

fun before :: "string \<Rightarrow> string \<Rightarrow> string" where
  "before sep [] = []"
| "before sep (c # cs) = (if prefix sep (c # cs) then [] else c # before sep cs)"

definition cve_title :: "string \<Rightarrow> string \<Rightarrow> string" where
  "cve_title i digest =
     (if digest = [] then i
      else let first = strip (before ''. '' digest) in
        if length first \<le> 160 then first else take 157 first @ ''...'')"

definition reported_score :: "pyval \<Rightarrow> pyfloat option" where
  "reported_score v = (case v of PInt i \<Rightarrow> Some (rnd (of_int i)) | PFloat x \<Rightarrow> Some x
     | PBool b \<Rightarrow> Some (if b then 1 else 0) | _ \<Rightarrow> None)"

fun first_cvss :: "(pyfloat \<Rightarrow> nat \<Rightarrow> pyfloat) \<Rightarrow> mapping \<Rightarrow> string list \<Rightarrow> py_error + cvss_metrics option" where
  "first_cvss fpow m [] = Inr None"
| "first_cvss fpow m (key # keys) = (case pget m key of
     PList (e # _) \<Rightarrow> and_then (try_get (or_dict e) ''cvssData'' PNone) (\<lambda>data. case data of
         PDict d \<Rightarrow> (case cvss_interpret fpow (str_val (pget_or d ''vectorString'' (PStr []))) (reported_score (pget d ''baseScore'')) of
                       Some c \<Rightarrow> Inr (Some c) | None \<Rightarrow> first_cvss fpow m keys)
       | _ \<Rightarrow> first_cvss fpow m keys)
   | _ \<Rightarrow> first_cvss fpow m keys)"

definition CVSS_KEYS :: "string list" where
  "CVSS_KEYS = [''cvssMetricV31'', ''cvssMetricV30'']"

definition parse_cvss :: "(pyfloat \<Rightarrow> nat \<Rightarrow> pyfloat) \<Rightarrow> pyval \<Rightarrow> py_error + cvss_metrics option" where
  "parse_cvss fpow v = (case v of PDict m \<Rightarrow> first_cvss fpow m CVSS_KEYS | _ \<Rightarrow> Inr None)"

text \<open>\<^verbatim>\<open>str((x or {}).get(key, "")).strip()\<close>.\<close>

definition text_field :: "string \<Rightarrow> pyval \<Rightarrow> py_error + string" where
  "text_field key x = and_then (try_get (or_dict x) key (PStr [])) (\<lambda>v. Inr (strip (str_val v)))"

definition parse_weaknesses :: "pyval \<Rightarrow> py_error + string list" where
  "parse_weaknesses v = (case v of
     PList es \<Rightarrow> and_then (traverse (\<lambda>e. and_then (try_get (or_dict e) ''description'' (PList []))
        (\<lambda>ds. and_then (try_iter ds) (traverse (text_field ''value'')))) es)
        (\<lambda>xss. Inr (unique (filter (\<lambda>s. s \<noteq> []) (concat xss))))
   | _ \<Rightarrow> Inr [])"

definition parse_references :: "pyval \<Rightarrow> py_error + string list" where
  "parse_references v = (case v of
     PList es \<Rightarrow> and_then (traverse (text_field ''url'') es) (\<lambda>xs. Inr (unique (filter (\<lambda>s. s \<noteq> []) xs)))
   | _ \<Rightarrow> Inr [])"

definition underscores_to_spaces :: "string \<Rightarrow> string" where
  "underscores_to_spaces = map (\<lambda>c. if c = CHR ''_'' then CHR '' '' else c)"

definition parse_cpe_match :: "mapping \<Rightarrow> affected_range option" where
  "parse_cpe_match m =
     (let parts = split_at (\<lambda>c. c = CHR '':'') (str_val (pget_or m ''criteria'' (PStr []))) in
      if length parts \<le> 4 then None
      else let product = strip (underscores_to_spaces (parts ! 4)); vendor = strip (underscores_to_spaces (parts ! 3)) in
        if product = [] \<or> product = ''*'' then None
        else Some \<lparr>ar_product = product, ar_vendor = (if vendor = [] \<or> vendor = ''*'' then None else Some vendor),
          version_start_including = optional_text (pget m ''versionStartIncluding''),
          version_start_excluding = optional_text (pget m ''versionStartExcluding''),
          version_end_including = optional_text (pget m ''versionEndIncluding''),
          version_end_excluding = optional_text (pget m ''versionEndExcluding'')\<rparr>)"

text \<open>One \<^verbatim>\<open>cpeMatch\<close> entry: collected only when it is an object marked vulnerable.\<close>

definition vulnerable_range :: "pyval \<Rightarrow> affected_range option" where
  "vulnerable_range v = (case v of PDict m \<Rightarrow> if truth (pget m ''vulnerable'') then parse_cpe_match m else None | _ \<Rightarrow> None)"

definition parse_configurations :: "pyval \<Rightarrow> py_error + affected_range list" where
  "parse_configurations v = (case v of
     PList cs \<Rightarrow> and_then (traverse (\<lambda>c. and_then (try_get (or_dict c) ''nodes'' (PList [])) (\<lambda>ns.
        and_then (try_iter ns) (traverse (\<lambda>n. and_then (try_get (or_dict n) ''cpeMatch'' (PList []))
          (\<lambda>ms. and_then (try_iter ms) (\<lambda>xs. Inr (List.map_filter vulnerable_range xs))))))) cs)
        (\<lambda>rsss. Inr (concat (concat rsss)))
   | _ \<Rightarrow> Inr [])"

text \<open>\<open>fromiso\<close> reads a time stamp, taking UTC where it names no zone.\<close>

definition parse_timestamp :: "(string \<Rightarrow> time option) \<Rightarrow> pyval \<Rightarrow> time option" where
  "parse_timestamp fromiso v = (if truth v then fromiso (str_val v) else None)"

definition parse_cve :: "(pyfloat \<Rightarrow> nat \<Rightarrow> pyfloat) \<Rightarrow> (string \<Rightarrow> time option) \<Rightarrow> mapping \<Rightarrow> py_error + cve_feed_record" where
  "parse_cve fpow fromiso cve =
     (let i = str_val (pget cve ''id''); digest = english_description (pget cve ''descriptions'') in
      and_then (parse_cvss fpow (pget cve ''metrics'')) (\<lambda>cvss.
      and_then (parse_weaknesses (pget cve ''weaknesses'')) (\<lambda>cwes.
      and_then (parse_configurations (pget cve ''configurations'')) (\<lambda>rs.
      and_then (parse_references (pget cve ''references'')) (\<lambda>refs.
        Inr \<lparr>cve_id = i, affected = rs, cr_title = cve_title i digest, cr_summary = digest, cr_cvss = cvss,
             cr_cwe_ids = cwes, cr_references = refs, cr_published_at = parse_timestamp fromiso (pget cve ''published''),
             cr_modified_at = parse_timestamp fromiso (pget cve ''lastModified''), cr_source = Nvd, cr_stale = False\<rparr>)))))"

definition parse_nvd_response ::
  "(pyfloat \<Rightarrow> nat \<Rightarrow> pyfloat) \<Rightarrow> (string \<Rightarrow> time option) \<Rightarrow> pyval \<Rightarrow> py_error + cve_feed_record list" where
  "parse_nvd_response fpow fromiso payload =
     and_then (try_get payload ''vulnerabilities'' PNone) (\<lambda>vs. case vs of
       PList items \<Rightarrow> and_then (traverse (\<lambda>item. and_then (try_get (or_dict item) ''cve'' PNone) (\<lambda>cve. case cve of
           PDict d \<Rightarrow> if truth (pget d ''id'') then and_then (parse_cve fpow fromiso d) (\<lambda>r. Inr [r]) else Inr []
         | _ \<Rightarrow> Inr [])) items) (\<lambda>rss. Inr (concat rss))
     | _ \<Rightarrow> Inl Type_Error)"

definition nvd_texts :: "cve_feed_record list client_texts" where
  "nvd_texts = \<lparr>open_text = ''the NVD circuit is open'', limit_text = ''local NVD rate limit reached'',
     http_text = (\<lambda>s. ''NVD returned '' @ show_int s), as_stale = (\<lambda>_. map (\<lambda>r. r\<lparr>cr_stale := True\<rparr>))\<rparr>"

definition nvd_reading ::
  "(pyfloat \<Rightarrow> nat \<Rightarrow> pyfloat) \<Rightarrow> (string \<Rightarrow> time option) \<Rightarrow> int \<Rightarrow> pyval option \<Rightarrow> cve_feed_record list reading" where
  "nvd_reading fpow fromiso status doc =
     (if status \<noteq> 200 then Bad_Status else Parsed (and_then (json_of doc) (parse_nvd_response fpow fromiso)))"

definition nvd_fetch where
  "nvd_fetch fpow fromiso exc_text t reply i f =
     resilient_fetch nvd_texts (nvd_reading fpow fromiso) exc_text t reply (''id:'' @ upper i) i f"

definition nvd_search where
  "nvd_search fpow fromiso exc_text t reply keyword budget f =
     resilient_fetch nvd_texts (nvd_reading fpow fromiso) exc_text t reply
       (''kw:'' @ lower keyword @ '':'' @ show_nat budget) keyword f"



section \<open>Advisories\<close>

record advisory_fix =
  af_package :: string
  af_ecosystem :: "string option"
  af_vulnerable_range :: "string option"
  af_fixed_version :: "string option"

record advisory =
  ad_id :: string
  ad_cve_id :: "string option"
  ad_summary :: string
  ad_severity :: "string option"
  ad_url :: "string option"
  ad_published_at :: "time option"
  ad_fixes :: "advisory_fix list"
  ad_source :: string

definition advisory_citation :: "advisory \<Rightarrow> citation" where
  "advisory_citation a = \<lparr>cit_source_id = ''vendor_advisories'', cit_source = ''GitHub Security Advisories'', cit_url = ad_url a,
     cit_chunk_id = None, cit_title = Some (ad_id a), cit_trust_tier = Some Vendor, cit_published_at = ad_published_at a\<rparr>"

definition fix_for :: "advisory \<Rightarrow> string option \<Rightarrow> advisory_fix option" where
  "fix_for a product = (case filter (\<lambda>x. truthy (af_fixed_version x)) (ad_fixes a) of
     [] \<Rightarrow> None
   | c # cs \<Rightarrow>
       if truthy product then
         let best = max_by (\<lambda>x. product_match_score (the product) (af_package x)) c cs in
         if product_match_score (the product) (af_package best) > 0 then Some best else Some c
       else Some c)"

definition parse_fixed_version :: "pyval \<Rightarrow> string option" where
  "parse_fixed_version v = (case v of
     PStr s \<Rightarrow> (let r = strip s in if r = [] then None else Some r)
   | PDict d \<Rightarrow> optional_text (pget d ''identifier'')
   | _ \<Rightarrow> None)"

definition parse_fix :: "pyval \<Rightarrow> advisory_fix option" where
  "parse_fix v = (case v of
     PDict e \<Rightarrow> (case or_dict (pget e ''package'') of
        PDict p \<Rightarrow> (let name = strip (str_val (pget_or p ''name'' (PStr []))) in
          if name = [] then None
          else Some \<lparr>af_package = name, af_ecosystem = optional_text (pget p ''ecosystem''),
            af_vulnerable_range = optional_text (pget e ''vulnerable_version_range''),
            af_fixed_version = parse_fixed_version (pget e ''first_patched_version'')\<rparr>)
      | _ \<Rightarrow> None)
   | _ \<Rightarrow> None)"

definition parse_fixes :: "pyval \<Rightarrow> advisory_fix list" where
  "parse_fixes v = (case v of PList es \<Rightarrow> List.map_filter parse_fix es | _ \<Rightarrow> [])"

text \<open>The trailing \<^verbatim>\<open>Z\<close> (every \<^verbatim>\<open>Z\<close>, in fact) is spelled \<^verbatim>\<open>+00:00\<close> before the stamp is read.\<close>

definition parse_advisory_timestamp :: "(string \<Rightarrow> time option) \<Rightarrow> pyval \<Rightarrow> time option" where
  "parse_advisory_timestamp fromiso v =
     (if truth v then fromiso (py_replace ''Z'' ''+00:00'' (str_val v)) else None)"

definition parse_advisory :: "(string \<Rightarrow> time option) \<Rightarrow> pyval \<Rightarrow> advisory option" where
  "parse_advisory fromiso v = (case v of
     PDict d \<Rightarrow> if truth (pget d ''ghsa_id'') then
         Some \<lparr>ad_id = str_val (pget d ''ghsa_id''), ad_cve_id = optional_text (pget d ''cve_id''),
           ad_summary = strip (str_val (pget_or d ''summary'' (PStr []))), ad_severity = optional_text (pget d ''severity''),
           ad_url = optional_text (pget d ''html_url''),
           ad_published_at = parse_advisory_timestamp fromiso (pget d ''published_at''),
           ad_fixes = parse_fixes (pget d ''vulnerabilities''), ad_source = ''github''\<rparr>
       else None
   | _ \<Rightarrow> None)"

definition parse_github_advisories :: "(string \<Rightarrow> time option) \<Rightarrow> pyval \<Rightarrow> py_error + advisory list" where
  "parse_github_advisories fromiso payload = (case payload of
     PList items \<Rightarrow> Inr (List.map_filter (parse_advisory fromiso) items) | _ \<Rightarrow> Inl Type_Error)"

definition advisory_texts :: "advisory list client_texts" where
  "advisory_texts = \<lparr>open_text = ''the advisory circuit is open'', limit_text = ''local advisory rate limit reached'',
     http_text = (\<lambda>s. ''advisory source returned '' @ show_int s), as_stale = (\<lambda>_ v. v)\<rparr>"

definition advisory_reading :: "(string \<Rightarrow> time option) \<Rightarrow> int \<Rightarrow> pyval option \<Rightarrow> advisory list reading" where
  "advisory_reading fromiso status doc =
     (if status \<noteq> 200 then Bad_Status else Parsed (and_then (json_of doc) (parse_github_advisories fromiso)))"

definition advisory_fetch where
  "advisory_fetch fromiso exc_text t reply i f =
     resilient_fetch advisory_texts (advisory_reading fromiso) exc_text t reply (upper i) i f"


section \<open>Reputation\<close>

record reputation_verdict =
  rv_value :: string
  rv_reputation :: ioc_reputation
  rv_source :: string
  rv_detail :: string
  rv_checked_at :: "time option"
  rv_stale :: bool

definition stat :: "(string, int) dict \<Rightarrow> string \<Rightarrow> int" where
  "stat stats k = (case map_of stats k of Some n \<Rightarrow> n | None \<Rightarrow> 0)"

definition classify_analysis_stats :: "(string, int) dict \<Rightarrow> ioc_reputation" where
  "classify_analysis_stats stats =
     (let malicious = stat stats ''malicious''; suspicious = stat stats ''suspicious''; harmless = stat stats ''harmless'' in
      if malicious \<ge> 3 then Rep_Malicious
      else if malicious \<ge> 1 \<or> suspicious \<ge> 3 then Rep_Suspicious
      else if harmless > 0 then Rep_Harmless else Rep_Unknown)"

text \<open>The integer votes of an object, \<^verbatim>\<open>True\<close> and \<^verbatim>\<open>False\<close> counting as integers.\<close>

fun vote :: "string \<times> pyval \<Rightarrow> (string \<times> int) option" where
  "vote (k, PInt n) = Some (k, n)"
| "vote (k, PBool b) = Some (k, if b then 1 else 0)"
| "vote _ = None"

definition analysis_stats :: "pyval \<Rightarrow> py_error + (string, int) dict" where
  "analysis_stats payload =
     and_then (try_index payload ''data'') (\<lambda>d. and_then (try_index d ''attributes'') (\<lambda>a.
     and_then (try_get a ''last_analysis_stats'' PNone) (\<lambda>stats. case or_dict stats of
       PDict m \<Rightarrow> Inr (List.map_filter vote m) | _ \<Rightarrow> Inl Type_Error)))"

definition vt_texts :: "reputation_verdict client_texts" where
  "vt_texts = \<lparr>open_text = ''VirusTotal circuit is open'', limit_text = ''local VirusTotal rate limit reached'',
     http_text = (\<lambda>s. ''VirusTotal returned '' @ show_int s),
     as_stale = (\<lambda>detail v. v\<lparr>rv_detail := rv_detail v @ '' (stale: '' @ detail @ '')'', rv_stale := True\<rparr>)\<rparr>"

definition vt_verdict :: "time \<Rightarrow> string \<Rightarrow> (string, int) dict \<Rightarrow> reputation_verdict" where
  "vt_verdict now v stats = \<lparr>rv_value = v, rv_reputation = classify_analysis_stats stats, rv_source = ''virustotal'',
     rv_detail = show_int (stat stats ''malicious'') @ '' malicious / '' @ show_int (stat stats ''suspicious'')
       @ '' suspicious of '' @ show_int (sum_list (map snd stats)) @ '' engines'',
     rv_checked_at = Some now, rv_stale = False\<rparr>"

definition vt_reading :: "time \<Rightarrow> string \<Rightarrow> int \<Rightarrow> pyval option \<Rightarrow> reputation_verdict reading" where
  "vt_reading now v status doc =
     (if status = 404 then Parsed (Inr \<lparr>rv_value = v, rv_reputation = Rep_Unknown, rv_source = ''virustotal'',
          rv_detail = ''no record in VirusTotal'', rv_checked_at = Some now, rv_stale = False\<rparr>)
      else if status \<noteq> 200 then Bad_Status
      else Parsed (and_then (json_of doc) (\<lambda>p. and_then (analysis_stats p) (\<lambda>stats. Inr (vt_verdict now v stats)))))"

text \<open>Only kinds with a resource path are looked up.\<close>

definition vt_supported :: "ioc_type \<Rightarrow> bool" where
  "vt_supported ty = (ty \<in> {Ioc_Ip, Ioc_Domain, Ioc_File_Hash, Ioc_Url})"

definition vt_lookup ::
  "string \<Rightarrow> (py_error \<Rightarrow> string) \<Rightarrow> time \<Rightarrow> feed_readings \<Rightarrow> http_reply \<Rightarrow> ioc_indicator \<Rightarrow> reputation_verdict feed
   \<Rightarrow> (py_error + lookup_failure + reputation_verdict) \<times> reputation_verdict feed" where
  "vt_lookup api_key exc_text now t reply i f =
     (if api_key = [] then (Inr (Inl \<lparr>lf_query = ioc_value i, lf_reason = ''not_configured'', lf_detail = ''no VirusTotal API key''\<rparr>), f)
      else if \<not> vt_supported (ioc_kind i) then
        (Inr (Inl \<lparr>lf_query = ioc_value i, lf_reason = ''unsupported'',
           lf_detail = ioc_type_value (ioc_kind i) @ '' is not looked up by VirusTotal''\<rparr>), f)
      else resilient_fetch vt_texts (vt_reading now (ioc_value i)) exc_text t reply
        (ioc_type_value (ioc_kind i) @ '':'' @ lower (ioc_value i)) (ioc_value i) f)"

text \<open>A reputation provider, over whatever state it keeps: its name, whether it can be used now, and a lookup.\<close>

record 's provider =
  pv_name :: string
  pv_available :: "'s \<Rightarrow> bool"
  pv_lookup :: "ioc_indicator \<Rightarrow> 's \<Rightarrow> (py_error + lookup_failure + reputation_verdict) \<times> 's"

definition unavailable_provider :: "'s provider" where
  "unavailable_provider = \<lparr>pv_name = ''none'', pv_available = (\<lambda>_. False), pv_lookup = (\<lambda>i s.
     (Inr (Inl \<lparr>lf_query = ioc_value i, lf_reason = ''not_configured'',
        lf_detail = ''no threat-intelligence provider is configured''\<rparr>), s))\<rparr>"

datatype enrichment_status = Enrichment_Complete | Enrichment_Degraded | Enrichment_Unavailable

definition eligible_indices :: "ioc_indicator list \<Rightarrow> nat list" where
  "eligible_indices iocs = filter (\<lambda>k. ioc_kind (iocs ! k) \<in> set ENRICHABLE_TYPES \<and> \<not> ioc_internal (iocs ! k)) [0..<length iocs]"

definition attach :: "reputation_verdict \<Rightarrow> ioc_indicator \<Rightarrow> ioc_indicator" where
  "attach v i = i\<lparr>reputation := rv_reputation v, reputation_source := Some (rv_source v),
     reputation_detail := Some (rv_detail v), enriched := True\<rparr>"

text \<open>The lookup loop: the indicators, the number of answers, the notes and the provider's state; an exception of a
  lookup ends it.\<close>

fun enrich_loop ::
  "'s provider \<Rightarrow> nat list \<Rightarrow> ioc_indicator list \<Rightarrow> nat \<Rightarrow> string list \<Rightarrow> 's
   \<Rightarrow> (py_error + ioc_indicator list \<times> nat \<times> string list) \<times> 's" where
  "enrich_loop p [] iocs n notes s = (Inr (iocs, n, notes), s)"
| "enrich_loop p (k # ks) iocs n notes s = (case pv_lookup p (iocs ! k) s of
     (Inl e, s') \<Rightarrow> (Inl e, s')
   | (Inr (Inl failure), s') \<Rightarrow>
       enrich_loop p ks iocs n (notes @ [''lookup failed for '' @ ioc_defanged (iocs ! k) @ '': '' @ lf_reason failure]) s'
   | (Inr (Inr v), s') \<Rightarrow>
       enrich_loop p ks (iocs[k := attach v (iocs ! k)]) (n + 1)
         (notes @ (if rv_stale v then [ioc_defanged (iocs ! k) @ '' served from stale cache''] else [])) s')"

definition budget_notes :: "nat \<Rightarrow> nat list \<Rightarrow> string list" where
  "budget_notes budget deferred = (if deferred = [] then [] else [show_nat (length deferred)
     @ '' indicator(s) exceeded the enrichment budget of '' @ show_nat budget @ '' and were not looked up''])"

definition enrich_indicators ::
  "'s provider \<Rightarrow> nat \<Rightarrow> ioc_indicator list \<Rightarrow> 's
   \<Rightarrow> (py_error + ioc_indicator list \<times> enrichment_status \<times> string list) \<times> 's" where
  "enrich_indicators p budget iocs s =
     (if \<not> pv_available p s then
        (Inr (iocs, Enrichment_Unavailable, [''threat-intelligence provider '' @ repr_str (pv_name p) @ '' is unavailable'']), s)
      else let eligible = eligible_indices iocs; budgeted = take budget eligible; deferred = drop budget eligible;
               notes0 = budget_notes budget deferred in
        if eligible = [] then (Inr (iocs, Enrichment_Complete, []), s)
        else case enrich_loop p budgeted iocs 0 notes0 s of
          (Inl e, s') \<Rightarrow> (Inl e, s')
        | (Inr (iocs', n, notes), s') \<Rightarrow>
            (Inr (iocs',
              if n = 0 then Enrichment_Unavailable
              else if n < length budgeted \<or> deferred \<noteq> [] \<or> list_ex (py_in ''stale'') notes then Enrichment_Degraded
              else Enrichment_Complete, notes), s'))"



section \<open>Facts about the shared client\<close>

definition upstream :: "(int \<Rightarrow> pyval option \<Rightarrow> 'v reading) \<Rightarrow> feed_readings \<Rightarrow> http_reply \<Rightarrow> 'v feed \<Rightarrow> 'v option" where
  "upstream read t reply f =
     (if fst (admit t f) = Admitted then
        (case reply of Http_Error _ \<Rightarrow> None
         | Http_Response status doc \<Rightarrow> (case read status doc of Parsed (Inr v) \<Rightarrow> Some v | _ \<Rightarrow> None))
      else None)"

lemma admit_cache:
  "admit t (f\<lparr>fd_cache := c\<rparr>) = (fst (admit t f), (snd (admit t f))\<lparr>fd_cache := c\<rparr>)" "fd_cache (snd (admit t f)) = fd_cache f"
  by (simp_all add: admit_def Let_def split: prod.splits)

lemma cache_get_keeps_stale: "cache_get_stale k (snd (cache_get now key c)) = cache_get_stale k c"
  by (auto simp: cache_get_def cache_get_stale_def move_to_end_lookup split: option.splits)

lemma note_cache [simp]: "fd_cache (note_failure t f) = fd_cache f" "fd_cache (note_success f) = fd_cache f"
  by (simp_all add: note_failure_def note_success_def)

lemma fetch_cached:
  "fst (cache_get (at_get t) key (fd_cache f)) = Some v \<Longrightarrow> fst (resilient_fetch tx read exc_text t reply key label f) = Inr (Inr v)"
  by (simp add: resilient_fetch_def Let_def split_beta)

text \<open>Without a live entry the call goes through admission.\<close>

lemma fetch_uncached:
  assumes "fst (cache_get (at_get t) key (fd_cache f)) = None"
  obtains f1 where "admit t (f\<lparr>fd_cache := snd (cache_get (at_get t) key (fd_cache f))\<rparr>) = (fst (admit t f), f1)"
    "cache_get_stale key (fd_cache f1) = cache_get_stale key (fd_cache f)"
    "tc_ttl (fd_cache f1) = tc_ttl (fd_cache f)"
proof -
  let ?f1 = "(snd (admit t f))\<lparr>fd_cache := snd (cache_get (at_get t) key (fd_cache f))\<rparr>"
  have "tc_ttl (snd (cache_get (at_get t) key (fd_cache f))) = tc_ttl (fd_cache f)"
    by (auto simp: cache_get_def split: option.splits)
  then show ?thesis using that[of ?f1] by (simp add: admit_cache(1) cache_get_keeps_stale)
qed

text \<open>What a fetch answers, by the three sources an answer can have.\<close>

lemma fetch_answer:
  assumes "fst (resilient_fetch tx read exc_text t reply key label f) = Inr r"
  shows "case fst (cache_get (at_get t) key (fd_cache f)) of
      Some v \<Rightarrow> r = Inr v
    | None \<Rightarrow> (case upstream read t reply f of
        Some v \<Rightarrow> r = Inr v
      | None \<Rightarrow> (\<exists>reason detail. r = degrade_to_stale tx key label reason detail f))"
proof (cases "fst (cache_get (at_get t) key (fd_cache f))")
  case (Some v)
  then show ?thesis using assms fetch_cached[OF Some] by simp
next
  case None
  obtain f1 where f1: "admit t (f\<lparr>fd_cache := snd (cache_get (at_get t) key (fd_cache f))\<rparr>) = (fst (admit t f), f1)"
    "cache_get_stale key (fd_cache f1) = cache_get_stale key (fd_cache f)" using fetch_uncached[OF None] by metis
  have same: "degrade_to_stale tx key label reason detail g = degrade_to_stale tx key label reason detail f"
    if "fd_cache g = fd_cache f1" for reason detail g using that f1(2) by (simp add: degrade_to_stale_def)
  show ?thesis
    using assms None f1(1) unfolding resilient_fetch_def upstream_def
    by (auto simp: Let_def split_beta same split: admission.splits http_reply.splits reading.splits sum.splits if_splits)
qed


definition feed_ok :: "'v feed \<Rightarrow> bool" where
  "feed_ok f \<longleftrightarrow> cache_live (fd_cache f) \<and> limiter_wf (fd_limiter f) \<and> breaker_wf (fd_breaker f)"

lemma admit_ok: "feed_ok f \<Longrightarrow> feed_ok (snd (admit t f))"
  using breaker_step_wf[of "fd_breaker f" "Allow (at_allow t)"] try_acquire_wf[of "fd_limiter f" 1 "at_acquire t"]
  by (auto simp: feed_ok_def admit_def Let_def split: prod.splits)

lemma note_ok: "feed_ok f \<Longrightarrow> feed_ok (note_failure t f)" "feed_ok f \<Longrightarrow> feed_ok (note_success f)"
  using breaker_step_wf[of "fd_breaker f" "Failure (at_record t)"] breaker_step_wf[of "fd_breaker f" Success]
  by (simp_all add: feed_ok_def note_failure_def note_success_def)

lemma cache_get_live: "cache_live c \<Longrightarrow> cache_live (snd (cache_get now k c))"
  using cache_get_wf[of c now k] by (auto simp: cache_live_def cache_get_def split: option.splits)

lemma cache_set_live:
  assumes "cache_live c"
  obtains c' where "cache_set now k v c = Inr c'" "cache_live c'"
proof -
  obtain c' where c': "cache_set now k v c = Inr c'" using assms cache_set_total[of c now k v] by (auto simp: cache_live_def)
  have "cache_put now k v c = c'" using c' by (simp add: cache_put_def)
  then show ?thesis using that[OF c'] cache_put_entry(2)[OF assms, of now k v] by simp
qed

lemma fetch_ok:
  assumes "feed_ok f"
  shows "feed_ok (snd (resilient_fetch tx read exc_text t reply key label f))"
    "fst (resilient_fetch tx read exc_text t reply key label f) \<noteq> Inl Key_Error"
proof -
  let ?f0 = "f\<lparr>fd_cache := snd (cache_get (at_get t) key (fd_cache f))\<rparr>"
  have f0: "feed_ok ?f0" using assms by (auto simp: feed_ok_def intro: cache_get_live)
  have f1: "feed_ok (snd (admit t ?f0))" by (rule admit_ok[OF f0])
  have set: "(\<exists>c'. cache_set now key v (fd_cache (note_success (snd (admit t ?f0)))) = Inr c' \<and>
      feed_ok ((note_success (snd (admit t ?f0)))\<lparr>fd_cache := c'\<rparr>))" for now v
  proof -
    have "cache_live (fd_cache (snd (admit t ?f0)))" using f1 by (simp add: feed_ok_def)
    from cache_set_live[OF this] obtain c' where "cache_set now key v (fd_cache (snd (admit t ?f0))) = Inr c'" "cache_live c'" by blast
    then show ?thesis using note_ok(2)[OF f1] by (auto simp: feed_ok_def)
  qed
  have set1: "cache_set now key v (fd_cache (snd (admit t ?f0))) \<noteq> Inl e" for now v e using set[of now v] by auto
  have set2: "feed_ok ((note_success (snd (admit t ?f0)))\<lparr>fd_cache := c'\<rparr>)"
    if "cache_set now key v (fd_cache (snd (admit t ?f0))) = Inr c'" for now v c' using set[of now v] that by auto
  have "feed_ok (snd (resilient_fetch tx read exc_text t reply key label f)) \<and>
      fst (resilient_fetch tx read exc_text t reply key label f) \<noteq> Inl Key_Error"
    unfolding resilient_fetch_def Let_def split_beta
    using f0 f1 note_ok[OF f1]
    by (auto simp: set1 set2 split: option.splits admission.splits http_reply.splits reading.splits sum.splits)
  then show "feed_ok (snd (resilient_fetch tx read exc_text t reply key label f))"
    "fst (resilient_fetch tx read exc_text t reply key label f) \<noteq> Inl Key_Error" by blast+
qed


text \<open>A breaker with its probe out refuses every call and stays as it is.\<close>

lemma admit_probing:
  assumes "breaker_wf (fd_breaker f)" "cb_half_open (fd_breaker f)"
  shows "admit t f = (Circuit_Open, f)"
  using breaker_allow_probing[OF assms] by (simp add: admit_def Let_def)

lemma fetch_probing:
  assumes "breaker_wf (fd_breaker f)" "cb_half_open (fd_breaker f)"
  shows "resilient_fetch tx read exc_text t reply key label f =
      (Inr (case fst (cache_get (at_get t) key (fd_cache f)) of Some v \<Rightarrow> Inr v
        | None \<Rightarrow> degrade_to_stale tx key label ''circuit_open'' (open_text tx) f),
       f\<lparr>fd_cache := snd (cache_get (at_get t) key (fd_cache f))\<rparr>)"
proof -
  let ?f0 = "f\<lparr>fd_cache := snd (cache_get (at_get t) key (fd_cache f))\<rparr>"
  have "admit t ?f0 = (Circuit_Open, ?f0)" using assms by (intro admit_probing) simp_all
  moreover have "degrade_to_stale tx key label r d ?f0 = degrade_to_stale tx key label r d f" for r d
    by (simp add: degrade_to_stale_def cache_get_keeps_stale)
  ultimately show ?thesis by (simp add: resilient_fetch_def Let_def split_beta split: option.splits)
qed

text \<open>A sequence of fetches, each with its readings, the reply the network would give, its key and its label.\<close>

fun fetches where
  "fetches tx read exc_text [] f = ([], f)"
| "fetches tx read exc_text ((t, reply, key, label) # rest) f =
     (let (r, f1) = resilient_fetch tx read exc_text t reply key label f; (rs, f2) = fetches tx read exc_text rest f1 in
      (r # rs, f2))"

lemma fetches_probing:
  assumes "breaker_wf (fd_breaker f)" "cb_half_open (fd_breaker f)"
    "map (\<lambda>(t, _, key, label). (t, key, label)) xs = map (\<lambda>(t, _, key, label). (t, key, label)) ys"
  shows "fetches tx read exc_text xs f = fetches tx read exc_text ys f"
  using assms
proof (induction xs arbitrary: ys f)
  case (Cons x xs)
  obtain t r key label where x: "x = (t, r, key, label)" by (cases x)
  obtain r' zs where y: "ys = (t, r', key, label) # zs" "map (\<lambda>(t, _, key, label). (t, key, label)) xs = map (\<lambda>(t, _, key, label). (t, key, label)) zs"
    using Cons.prems(3) by (cases ys) (auto simp: x)
  let ?f = "f\<lparr>fd_cache := snd (cache_get (at_get t) key (fd_cache f))\<rparr>"
  have "fetches tx read exc_text xs ?f = fetches tx read exc_text zs ?f"
    by (rule Cons.IH) (use Cons.prems y(2) in simp_all)
  then show ?case unfolding x y(1) by (simp add: fetch_probing[OF Cons.prems(1,2)])
qed simp


section \<open>Properties of the clients\<close>

text \<open>The client refines the degradation ladder: a live cached answer first, then what the network answered, then
  the last known answer the way the adapter hands it out (\<open>as_stale\<close>, which marks records and verdicts but not advisories), and a typed
  failure naming the query only when there is none of these.\<close>

theorem fetch_refines_ladder:
  assumes "fst (resilient_fetch tx read exc_text t reply key label f) = Inr r"
  shows "case fst (ttl.degrade (at_get t) key (upstream read t reply f) (fd_cache f)) of
      Some (v, False) \<Rightarrow> r = Inr v
    | Some (v, True) \<Rightarrow> \<exists>detail. r = Inr (as_stale tx detail v)
    | None \<Rightarrow> \<exists>e. r = Inl e \<and> lf_query e = label"
  using fetch_answer[OF assms]
  by (auto simp: ttl.degrade_def degrade_to_stale_def split: option.splits)

text \<open>A reply that cannot be used: no connection, a status other than 200, or a body that is not JSON.\<close>

definition unusable :: "http_reply \<Rightarrow> bool" where
  "unusable reply = (case reply of Http_Error _ \<Rightarrow> True | Http_Response status doc \<Rightarrow> status \<noteq> 200 \<or> doc = None)"

lemma unusable_reading:
  "unusable (Http_Response status doc) \<Longrightarrow>
     nvd_reading fpow fromiso status doc = Bad_Status \<or> nvd_reading fpow fromiso status doc = Parsed (Inl Value_Error)"
  by (auto simp: unusable_def nvd_reading_def json_of_def)

lemma cache_get_entries: "map_of (tc_entries (snd (cache_get now key c))) = map_of (tc_entries c)"
  by (auto simp: cache_get_def fun_eq_iff move_to_end_lookup split: option.splits)

text \<open>C29: An NVD outage is visible. When the feed cannot be used, by lack of a connection, a bad status or a body that is not JSON, and
  whatever the circuit breaker and the rate limiter decide, looking a CVE up gives the cached records while they are fresh, the same records
  each marked stale once they have expired, and a failure that names the CVE and one of five reasons when none are cached; it never raises
  and loses or overwrites no cached answer.\<close>

theorem nvd_outage_is_visible:
  assumes "unusable reply"
  shows "case nvd_fetch fpow fromiso exc_text t reply i f of (out, f') \<Rightarrow>
    (case map_of (tc_entries (fd_cache f)) (''id:'' @ upper i) of
       None \<Rightarrow> (\<exists>e. out = Inr (Inl e) \<and> lf_query e = i \<and>
         lf_reason e \<in> {''circuit_open'', ''rate_limited'', ''unreachable'', ''http_error'', ''malformed_response''})
     | Some entry \<Rightarrow> out = Inr (Inr (if at_get t < ce_expires_at entry then ce_value entry else map (\<lambda>r. r\<lparr>cr_stale := True\<rparr>) (ce_value entry)))) \<and>
    map_of (tc_entries (fd_cache f')) = map_of (tc_entries (fd_cache f))"
proof -
  define key where "key = ''id:'' @ upper i"
  let ?f0 = "f\<lparr>fd_cache := snd (cache_get (at_get t) key (fd_cache f))\<rparr>"
  obtain v f1 where adm: "admit t ?f0 = (v, f1)" by fastforce
  then have "fd_cache f1 = fd_cache ?f0" using admit_cache(2) by (metis snd_conv)
  then have same: "cache_get_stale key (fd_cache f1) = cache_get_stale key (fd_cache f)" "map_of (tc_entries (fd_cache f1)) = map_of (tc_entries (fd_cache f))"
    by (simp_all add: cache_get_keeps_stale cache_get_entries)
  define degraded where "degraded = (\<lambda>reason detail. degrade_to_stale nvd_texts key i reason detail f)"
  have down: "degrade_to_stale nvd_texts key i reason detail g = degraded reason detail" if "fd_cache g = fd_cache f1" for reason detail g
    using that same(1) by (simp add: degrade_to_stale_def degraded_def)
  have noted: "fd_cache (note_failure t f1) = fd_cache f1" by (simp add: note_failure_def)
  have out: "(case fst (cache_get (at_get t) key (fd_cache f)) of Some x \<Rightarrow> fst (nvd_fetch fpow fromiso exc_text t reply i f) = Inr (Inr x)
     | None \<Rightarrow> \<exists>reason detail. fst (nvd_fetch fpow fromiso exc_text t reply i f) = Inr (degraded reason detail) \<and>
         reason \<in> {''circuit_open'', ''rate_limited'', ''unreachable'', ''http_error'', ''malformed_response''}) \<and>
     map_of (tc_entries (fd_cache (snd (nvd_fetch fpow fromiso exc_text t reply i f)))) = map_of (tc_entries (fd_cache f))"
  proof (cases "fst (cache_get (at_get t) key (fd_cache f))")
    case (Some x)
    then show ?thesis
      unfolding nvd_fetch_def key_def[symmetric] resilient_fetch_def Let_def split_beta by (simp add: cache_get_entries)
  next
    case None
    have e: "nvd_fetch fpow fromiso exc_text t reply i f = (case v of
          Circuit_Open \<Rightarrow> (Inr (degraded ''circuit_open'' (open_text nvd_texts)), f1)
        | Rate_Limited \<Rightarrow> (Inr (degraded ''rate_limited'' (limit_text nvd_texts)), f1)
        | Admitted \<Rightarrow> (case reply of
            Http_Error txt \<Rightarrow> (Inr (degraded ''unreachable'' txt), note_failure t f1)
          | Http_Response status doc \<Rightarrow>
              if nvd_reading fpow fromiso status doc = Bad_Status then (Inr (degraded ''http_error'' (http_text nvd_texts status)), note_failure t f1)
              else (Inr (degraded ''malformed_response'' (exc_text Value_Error)), note_failure t f1)))"
    proof (cases reply)
      case (Http_Error why)
      then show ?thesis using None adm unfolding nvd_fetch_def key_def[symmetric] resilient_fetch_def Let_def split_beta
        by (auto simp: down noted split: admission.split)
    next
      case (Http_Response status doc)
      then consider "nvd_reading fpow fromiso status doc = Bad_Status" | "nvd_reading fpow fromiso status doc = Parsed (Inl Value_Error)"
        using assms unusable_reading by blast
      then show ?thesis using None adm Http_Response unfolding nvd_fetch_def key_def[symmetric] resilient_fetch_def Let_def split_beta
        by cases (auto simp: down noted split: admission.split)
    qed
    obtain reason detail g where r: "nvd_fetch fpow fromiso exc_text t reply i f = (Inr (degraded reason detail), g)" "fd_cache g = fd_cache f1"
      "reason \<in> {''circuit_open'', ''rate_limited'', ''unreachable'', ''http_error'', ''malformed_response''}"
    proof (cases v)
      case Circuit_Open
      then show thesis using e by (intro that[of "''circuit_open''" "open_text nvd_texts" f1]) simp_all
    next
      case Rate_Limited
      then show thesis using e by (intro that[of "''rate_limited''" "limit_text nvd_texts" f1]) simp_all
    next
      case Admitted
      show thesis
      proof (cases reply)
        case (Http_Error why)
        then show thesis using e Admitted noted by (intro that[of "''unreachable''" why "note_failure t f1"]) simp_all
      next
        case (Http_Response status doc)
        show thesis
        proof (cases "nvd_reading fpow fromiso status doc = Bad_Status")
          case True
          then show thesis using e Admitted Http_Response noted by (intro that[of "''http_error''" "http_text nvd_texts status" "note_failure t f1"]) simp_all
        next
          case False
          then show thesis using e Admitted Http_Response noted by (intro that[of "''malformed_response''" "exc_text Value_Error" "note_failure t f1"]) simp_all
        qed
      qed
    qed
    show ?thesis unfolding None option.case r(1) fst_conv snd_conv r(2) same(2)
      by (intro conjI exI[of _ reason] exI[of _ detail] refl r(3))
  qed
  show ?thesis
  proof (cases "map_of (tc_entries (fd_cache f)) key")
    case None
    then have gone: "fst (cache_get (at_get t) key (fd_cache f)) = None" "degraded reason detail = Inl \<lparr>lf_query = i, lf_reason = reason, lf_detail = detail\<rparr>" for reason detail
      by (simp_all add: degraded_def degrade_to_stale_def cache_get_stale_def cache_get_def)
    have "\<exists>e. fst (nvd_fetch fpow fromiso exc_text t reply i f) = Inr (Inl e) \<and> lf_query e = i \<and>
        lf_reason e \<in> {''circuit_open'', ''rate_limited'', ''unreachable'', ''http_error'', ''malformed_response''}"
      using conjunct1[OF out] unfolding gone option.case by (metis lookup_failure.select_convs(1,2))
    then show ?thesis using conjunct2[OF out] unfolding key_def[symmetric] None option.case split_beta by (rule conjI)
  next
    case (Some entry)
    have old: "degraded reason detail = Inr (map (\<lambda>r. r\<lparr>cr_stale := True\<rparr>) (ce_value entry))" for reason detail
      using Some by (simp add: degraded_def degrade_to_stale_def cache_get_stale_def nvd_texts_def)
    have "fst (nvd_fetch fpow fromiso exc_text t reply i f) =
        Inr (Inr (if at_get t < ce_expires_at entry then ce_value entry else map (\<lambda>r. r\<lparr>cr_stale := True\<rparr>) (ce_value entry)))"
    proof (cases "at_get t < ce_expires_at entry")
      case True
      then have "fst (cache_get (at_get t) key (fd_cache f)) = Some (ce_value entry)" using Some by (simp add: cache_get_def)
      then show ?thesis using conjunct1[OF out] True by simp
    next
      case False
      then have "fst (cache_get (at_get t) key (fd_cache f)) = None" using Some by (simp add: cache_get_def not_less)
      with conjunct1[OF out] obtain reason detail where "fst (nvd_fetch fpow fromiso exc_text t reply i f) = Inr (degraded reason detail)" by auto
      then show ?thesis using False by (simp add: old)
    qed
    then show ?thesis using conjunct2[OF out] unfolding key_def[symmetric] Some option.case split_beta by (rule conjI)
  qed
qed

text \<open>A feed stays well formed through any fetch, whatever the network answers; with a usable cache, storing an
  answer never fails.\<close>

theorem fetch_keeps_feed_ok:
  assumes "feed_ok f"
  shows "feed_ok (snd (resilient_fetch tx read exc_text t reply key label f)) \<and>
    fst (resilient_fetch tx read exc_text t reply key label f) \<noteq> Inl Key_Error"
  using fetch_ok[OF assms] by blast

text \<open>When the recovery probe of a feed meets an exhausted rate limit, the feed never consults the network again:
  every later sequence of fetches gives the same results whatever the network would have answered.\<close>

theorem lost_probe_blocks_feed:
  assumes "breaker_wf (fd_breaker f)" "breaker_state (at_allow t) (fd_breaker f) = Half_Open" "\<not> cb_half_open (fd_breaker f)"
    "\<not> fst (try_acquire (at_acquire t) 1 (fd_limiter f))" "fst (cache_get (at_get t) key (fd_cache f)) = None"
    "map (\<lambda>(t, _, key, label). (t, key, label)) xs = map (\<lambda>(t, _, key, label). (t, key, label)) ys"
  shows "case resilient_fetch tx read exc_text t reply key label f of (_, f1) \<Rightarrow>
    fetches tx read exc_text xs f1 = fetches tx read exc_text ys f1"
proof -
  let ?f0 = "f\<lparr>fd_cache := snd (cache_get (at_get t) key (fd_cache f))\<rparr>"
  obtain l where l: "try_acquire (at_acquire t) 1 (fd_limiter f) = (False, l)"
    using assms(4) by (cases "try_acquire (at_acquire t) 1 (fd_limiter f)") auto
  let ?b = "(fd_breaker f)\<lparr>cb_half_open := True\<rparr>"
  have allow: "breaker_allow (at_allow t) (fd_breaker f) = (True, ?b)" using assms(2,3) by (simp add: breaker_allow_def)
  have wf: "breaker_wf ?b" using breaker_step_wf[OF assms(1), of "Allow (at_allow t)"] allow by simp
  have "admit t ?f0 = (Rate_Limited, ?f0\<lparr>fd_breaker := ?b, fd_limiter := l\<rparr>)" using allow l by (simp add: admit_def Let_def)
  then have "snd (resilient_fetch tx read exc_text t reply key label f) = ?f0\<lparr>fd_breaker := ?b, fd_limiter := l\<rparr>"
    using assms(5) by (simp add: resilient_fetch_def Let_def split_beta)
  then show ?thesis using fetches_probing[OF _ _ assms(6), of "?f0\<lparr>fd_breaker := ?b, fd_limiter := l\<rparr>"] wf
    by (simp add: split_beta)
qed

text \<open>The parsers of NVD and VirusTotal do not confine malformed payloads: a payload of the wrong shape raises
  \<^verbatim>\<open>AttributeError\<close>, which the clients do not catch, so an admitted call ends in an exception with its outcome
  unrecorded (its breaker left as admission made it). The advisory parser never raises it.\<close>

theorem malformed_payload_escapes:
  "parse_nvd_response fpow fromiso (PList xs) = Inl Attribute_Error \<and>
   analysis_stats (PDict [(''data'', PDict [(''attributes'', PList xs)])]) = Inl Attribute_Error \<and>
   parse_github_advisories fromiso payload \<in> insert (Inl Type_Error) (range Inr) \<and>
   (case (fst (cache_get (at_get t) (''id:'' @ upper i) (fd_cache f)), admit t (f\<lparr>fd_cache := snd (cache_get (at_get t) (''id:'' @ upper i) (fd_cache f))\<rparr>)) of
      (None, (Admitted, f1)) \<Rightarrow> nvd_fetch fpow fromiso exc_text t (Http_Response 200 (Some (PList xs))) i f = (Inl Attribute_Error, f1)
    | _ \<Rightarrow> True)"
  by (auto simp: parse_nvd_response_def analysis_stats_def pget_or_def parse_github_advisories_def nvd_fetch_def
      resilient_fetch_def nvd_reading_def json_of_def Let_def split_beta split: option.splits admission.splits pyval.splits)



section \<open>Enrichment\<close>

lemma enrich_loop_facts:
  assumes "enrich_loop p ks iocs n nts s = (Inr (iocs', n', nts'), s')" "distinct ks" "\<forall>k \<in> set ks. k < length iocs"
  shows "length iocs' = length iocs \<and> prefix nts nts' \<and> n' \<le> n + length ks \<and>
    (\<forall>k < length iocs. iocs' ! k = iocs ! k \<or> k \<in> set ks \<and> (\<exists>v. iocs' ! k = attach v (iocs ! k))) \<and>
    (n' = n + length ks \<longrightarrow> (\<forall>k \<in> set ks. \<exists>v. iocs' ! k = attach v (iocs ! k) \<and>
       (rv_stale v \<longrightarrow> list_ex (py_in ''stale'') nts')))"
  using assms
proof (induction ks arbitrary: iocs n nts s)
  case (Cons k ks)
  obtain r s1 where r: "pv_lookup p (iocs ! k) s = (r, s1)" by (cases "pv_lookup p (iocs ! k) s")
  consider (fail) e where "r = Inr (Inl e)" | (ok) v where "r = Inr (Inr v)"
    using Cons.prems(1) r by (cases r) (auto split: sum.splits)
  then show ?case
  proof cases
    case fail
    let ?n = "nts @ [''lookup failed for '' @ ioc_defanged (iocs ! k) @ '': '' @ lf_reason e]"
    have "enrich_loop p ks iocs n ?n s1 = (Inr (iocs', n', nts'), s')" using Cons.prems(1) r fail by simp
    from Cons.IH[OF this] Cons.prems(2,3)
    have "length iocs' = length iocs" "prefix ?n nts'" "n' \<le> n + length ks"
      "\<forall>j < length iocs. iocs' ! j = iocs ! j \<or> j \<in> set ks \<and> (\<exists>v. iocs' ! j = attach v (iocs ! j))" by auto
    then show ?thesis by (auto simp: prefix_def)
  next
    case ok
    let ?n = "nts @ (if rv_stale v then [ioc_defanged (iocs ! k) @ '' served from stale cache''] else [])"
    let ?i = "iocs[k := attach v (iocs ! k)]"
    have run: "enrich_loop p ks ?i (n + 1) ?n s1 = (Inr (iocs', n', nts'), s')" using Cons.prems(1) r ok by simp
    have d: "distinct ks" "k \<notin> set ks" "\<forall>j \<in> set ks. j < length ?i" "k < length iocs" using Cons.prems(2,3) by auto
    note IH = Cons.IH[OF run d(1,3)]
    have k: "iocs' ! k = attach v (iocs ! k)" using IH d(2,4) by auto
    have stale: "rv_stale v \<Longrightarrow> list_ex (py_in ''stale'') nts'"
    proof -
      assume "rv_stale v"
      then have "ioc_defanged (iocs ! k) @ '' served from stale cache'' \<in> set nts'"
        using IH by (auto simp: prefix_def)
      moreover have "sublist ''stale'' (ioc_defanged (iocs ! k) @ '' served from stale cache'')"
        unfolding sublist_def by (rule exI[of _ "ioc_defanged (iocs ! k) @ '' served from ''"]) auto
      ultimately show ?thesis unfolding list_ex_iff py_in_sublist by blast
    qed
    have upd: "j \<noteq> k \<Longrightarrow> ?i ! j = iocs ! j" for j by simp
    have "\<forall>j < length iocs. iocs' ! j = ?i ! j \<or> j \<in> set ks \<and> (\<exists>v. iocs' ! j = attach v (?i ! j))" using IH by simp
    then have rest: "j < length iocs \<Longrightarrow> j \<noteq> k \<Longrightarrow> iocs' ! j = iocs ! j \<or> j \<in> set ks \<and> (\<exists>v. iocs' ! j = attach v (iocs ! j))" for j
      using upd[of j] by metis
    have fin: "\<exists>v. iocs' ! j = attach v (iocs ! j) \<and> (rv_stale v \<longrightarrow> list_ex (py_in ''stale'') nts')"
      if "n' = n + Suc (length ks)" "j \<in> set ks" for j
    proof -
      have "\<exists>v. iocs' ! j = attach v (?i ! j) \<and> (rv_stale v \<longrightarrow> list_ex (py_in ''stale'') nts')" using IH that by simp
      moreover have "j \<noteq> k" using that(2) d(2) by blast
      ultimately show ?thesis using upd[of j] by metis
    qed
    show ?thesis
      using IH k stale rest fin by (auto simp: prefix_def)
  qed
qed auto

definition logging :: "'s provider \<Rightarrow> ('s \<times> ioc_indicator list) provider" where
  "logging p = \<lparr>pv_name = pv_name p, pv_available = pv_available p \<circ> fst,
     pv_lookup = (\<lambda>i (s, lg). let (r, s') = pv_lookup p i s in (r, s', lg @ [i]))\<rparr>"

lemma enrich_loop_log:
  assumes "distinct ks" "\<forall>k \<in> set ks. k < length iocs"
  shows "set (snd (snd (enrich_loop (logging p) ks iocs n nts (s, lg)))) \<subseteq> set lg \<union> (!) iocs ` set ks"
  using assms
proof (induction ks arbitrary: iocs n nts s lg)
  case (Cons k ks)
  obtain r s1 where r: "pv_lookup p (iocs ! k) s = (r, s1)" by (cases "pv_lookup p (iocs ! k) s")
  then have l: "pv_lookup (logging p) (iocs ! k) (s, lg) = (r, s1, lg @ [iocs ! k])" by (simp add: logging_def)
  have "k \<notin> set ks" using Cons.prems(1) by simp
  then have same: "(!) (iocs[k := x]) ` set ks = (!) iocs ` set ks" for x by (intro image_cong refl nth_list_update_neq) blast
  have IH: "set (snd (snd (enrich_loop (logging p) ks iocs' n' nts' (s1, lg @ [iocs ! k])))) \<subseteq>
      set lg \<union> {iocs ! k} \<union> (!) iocs ` set ks"
    if "iocs' = iocs \<or> (\<exists>x. iocs' = iocs[k := x])" for iocs' n' nts'
  proof -
    have "\<forall>j \<in> set ks. j < length iocs'" "(!) iocs' ` set ks = (!) iocs ` set ks" using that Cons.prems same by auto
    then show ?thesis using Cons.IH[of iocs' n' nts' s1 "lg @ [iocs ! k]"] Cons.prems(1) by simp
  qed
  show ?case using l by (cases r) (auto split: sum.splits dest!: subsetD[OF IH, rotated])
qed simp


lemma enrich_state:
  "snd (enrich_indicators p budget iocs s) = s \<or>
   (\<exists>nts. snd (enrich_indicators p budget iocs s) = snd (enrich_loop p (take budget (eligible_indices iocs)) iocs 0 nts s))"
proof (cases "pv_available p s \<and> eligible_indices iocs \<noteq> []")
  case True
  let ?nts = "budget_notes budget (drop budget (eligible_indices iocs))"
  have "snd (enrich_indicators p budget iocs s) = snd (enrich_loop p (take budget (eligible_indices iocs)) iocs 0 ?nts s)"
    using True by (cases "enrich_loop p (take budget (eligible_indices iocs)) iocs 0 ?nts s")
      (auto simp: enrich_indicators_def Let_def split: sum.splits)
  then show ?thesis by blast
qed (auto simp: enrich_indicators_def Let_def)

lemma eligible_facts:
  "distinct (eligible_indices iocs)" "\<forall>k \<in> set (eligible_indices iocs). k < length iocs"
  "distinct (take b (eligible_indices iocs))" "\<forall>k \<in> set (take b (eligible_indices iocs)). k < length iocs"
  by (auto simp: eligible_indices_def dest: in_set_takeD)

lemma enrich_places:
  assumes "enrich_indicators p budget iocs s = (Inr (iocs', st, nts), s')"
  shows "length iocs' = length iocs \<and>
    (\<forall>k < length iocs. iocs' ! k = iocs ! k \<or>
       ioc_kind (iocs ! k) \<in> set ENRICHABLE_TYPES \<and> \<not> ioc_internal (iocs ! k) \<and> (\<exists>v. iocs' ! k = attach v (iocs ! k))) \<and>
    (st = Enrichment_Complete \<longrightarrow> (\<forall>k \<in> set (eligible_indices iocs). \<exists>v. iocs' ! k = attach v (iocs ! k) \<and> \<not> rv_stale v))"
proof (cases "pv_available p s \<and> eligible_indices iocs \<noteq> []")
  case False
  then show ?thesis using assms by (auto simp: enrich_indicators_def Let_def split: if_splits)
next
  case True
  let ?e = "eligible_indices iocs"
  obtain n nts0 where run: "enrich_loop p (take budget ?e) iocs 0 nts0 s = (Inr (iocs', n, nts), s')"
    and st: "st = (if n = 0 then Enrichment_Unavailable
              else if n < length (take budget ?e) \<or> drop budget ?e \<noteq> [] \<or> list_ex (py_in ''stale'') nts then Enrichment_Degraded
              else Enrichment_Complete)"
    using assms True by (auto simp: enrich_indicators_def Let_def simp del: drop_eq_Nil drop_eq_Nil2 split: prod.splits sum.splits)
  note f = enrich_loop_facts[OF run eligible_facts(3,4)]
  have "k \<in> set (take budget ?e) \<Longrightarrow> ioc_kind (iocs ! k) \<in> set ENRICHABLE_TYPES \<and> \<not> ioc_internal (iocs ! k)" for k
    by (auto simp: eligible_indices_def dest!: in_set_takeD)
  moreover have "\<exists>v. iocs' ! k = attach v (iocs ! k) \<and> \<not> rv_stale v" if "st = Enrichment_Complete" "k \<in> set ?e" for k
  proof -
    have all: "n = length (take budget ?e)" "drop budget ?e = []" "\<not> list_ex (py_in ''stale'') nts"
      using that(1) st f by (auto split: if_splits)
    then have "take budget ?e = ?e" by simp
    then show ?thesis using f all(1,3) that(2) by auto
  qed
  ultimately show ?thesis using f by blast
qed

text \<open>Enrichment attaches and never invents. Every indicator comes back in its place, either exactly as it went in
  or, if it is external and of a permitted kind, with a reputation together with the source that asserted it. When
  the outcome is complete, every eligible indicator was answered for, freshly.\<close>

theorem enrichment_attaches_only:
  assumes "enrich_indicators p budget iocs s = (Inr (iocs', st, nts), s')"
  shows "length iocs' = length iocs \<and>
    (\<forall>k < length iocs. iocs' ! k = iocs ! k \<or>
       ioc_kind (iocs ! k) \<in> set ENRICHABLE_TYPES \<and> \<not> ioc_internal (iocs ! k) \<and> (\<exists>v. iocs' ! k = attach v (iocs ! k))) \<and>
    (st = Enrichment_Complete \<longrightarrow> (\<forall>k \<in> set (eligible_indices iocs). \<exists>v. iocs' ! k = attach v (iocs ! k) \<and> \<not> rv_stale v))"
  by (rule enrich_places[OF assms])

lemma enrichment_log:
  "set (snd (snd (enrich_indicators (logging p) budget iocs (s, [])))) \<subseteq>
     {i \<in> set iocs. ioc_kind i \<in> set ENRICHABLE_TYPES \<and> \<not> ioc_internal i} \<and>
   card (set (snd (snd (enrich_indicators (logging p) budget iocs (s, []))))) \<le> budget"
proof -
  let ?ks = "take budget (eligible_indices iocs)"
  let ?L = "set (snd (snd (enrich_indicators (logging p) budget iocs (s, []))))"
  have loop: "set (snd (snd (enrich_loop (logging p) ?ks iocs 0 nts (s, [])))) \<subseteq> (!) iocs ` set ?ks" for nts
  proof -
    have "set (snd (snd (enrich_loop (logging p) ?ks iocs 0 nts (s, [])))) \<subseteq> set [] \<union> (!) iocs ` set ?ks"
      by (rule enrich_loop_log[OF eligible_facts(3,4)])
    then show ?thesis by simp
  qed
  have "?L = {} \<or> (\<exists>nts. ?L = set (snd (snd (enrich_loop (logging p) ?ks iocs 0 nts (s, [])))))"
    using enrich_state[of "logging p" budget iocs "(s, [])"] by auto
  then have sub: "?L \<subseteq> (!) iocs ` set ?ks"
  proof (elim disjE exE)
    fix nts assume "?L = set (snd (snd (enrich_loop (logging p) ?ks iocs 0 nts (s, []))))"
    then show ?thesis using loop[of nts] by (simp only:)
  qed simp
  have "(!) iocs ` set ?ks \<subseteq> {i \<in> set iocs. ioc_kind i \<in> set ENRICHABLE_TYPES \<and> \<not> ioc_internal i}"
    by (auto simp: eligible_indices_def dest!: in_set_takeD)
  moreover have "card ?L \<le> card (set ?ks)" using sub by (meson List.finite_set card_image_le card_mono finite_imageI le_trans)
  moreover have "card (set ?ks) \<le> budget" using card_length[of ?ks] by simp
  ultimately show ?thesis using sub by auto
qed

lemma enrich_loop_calls: "length (snd (snd (enrich_loop (logging p) ks iocs n nts (s, lg)))) \<le> length lg + length ks"
proof (induction ks arbitrary: iocs n nts s lg)
  case (Cons k ks)
  obtain r s1 where r: "pv_lookup p (iocs ! k) s = (r, s1)" by (cases "pv_lookup p (iocs ! k) s")
  then have l: "pv_lookup (logging p) (iocs ! k) (s, lg) = (r, s1, lg @ [iocs ! k])" by (simp add: logging_def)
  have "length (snd (snd (enrich_loop (logging p) ks iocs' n' nts' (s1, lg @ [iocs ! k])))) \<le> Suc (length lg + length ks)" for iocs' n' nts'
    using Cons.IH[of iocs' n' nts' s1 "lg @ [iocs ! k]"] by simp
  then show ?case using l by (cases r) (auto split: sum.splits)
qed simp

lemma enrichment_calls: "length (snd (snd (enrich_indicators (logging p) budget iocs (s, [])))) \<le> budget"
proof -
  let ?ks = "take budget (eligible_indices iocs)"
  have "length (snd (snd (enrich_loop (logging p) ?ks iocs 0 nts (s, [])))) \<le> budget" for nts
    using enrich_loop_calls[of p ?ks iocs 0 nts s "[]"] by (rule order_trans) simp
  then show ?thesis using enrich_state[of "logging p" budget iocs "(s, [])"] by auto
qed

text \<open>C14: What the estate tells a reputation provider. The indicators submitted are at most as many as the budget, each one seen in the
  events, and each an address, a domain, a URL or a file hash, never a file path or a process name. A submitted address or domain does not
  end in one of the suffixes of private naming, and when it is a dotted IPv4 address it lies in none of the loopback, link-local, RFC 1918 and
  carrier-grade NAT ranges and in no network the deployment names as its own. (The host inside a URL and the IPv6-mapped spelling of an
  address are not looked at, which is a finding of its own.)\<close>

theorem enrichment_submits_external_only:
  assumes "i \<in> set (snd (snd (enrich_indicators (logging p) budget (extract_iocs nets events) (s, []))))"
  shows "length (snd (snd (enrich_indicators (logging p) budget (extract_iocs nets events) (s, [])))) \<le> budget \<and>
    (\<exists>e \<in> set events. \<exists>x \<in> set (entities e). en_value x = ioc_value i \<and> entity_to_ioc (en_type x) = Some (ioc_kind i)) \<and>
    ioc_kind i \<in> {Ioc_Ip, Ioc_Domain, Ioc_Url, Ioc_File_Hash} \<and>
    (if ioc_kind i = Ioc_Ip \<or> ioc_kind i = Ioc_Domain then
       \<not> list_ex (\<lambda>ending. suffix ending (lower (ioc_value i))) [''.local'', ''.internal'', ''.lan'', ''.corp'', ''.home.arpa''] \<and>
       (\<forall>a b c d. a < 256 \<and> b < 256 \<and> c < 256 \<and> d < 256 \<and> ioc_value i = join ''.'' [show_nat a, show_nat b, show_nat c, show_nat d] \<longrightarrow>
          \<not> (a = 127 \<or> a = 169 \<and> b = 254 \<or> a = 10 \<or> a = 172 \<and> 16 \<le> b \<and> b < 32 \<or> a = 192 \<and> b = 168 \<or> a = 100 \<and> 64 \<le> b \<and> b < 128) \<and>
          \<not> list_ex (in_network (V4, ((a * 256 + b) * 256 + c) * 256 + d)) (parse_networks nets))
     else True)"
proof -
  have "i \<in> {i \<in> set (extract_iocs nets events). ioc_kind i \<in> set ENRICHABLE_TYPES \<and> \<not> ioc_internal i}"
    by (rule subsetD[OF conjunct1[OF enrichment_log] assms])
  then have i: "i \<in> set (extract_iocs nets events)" "ioc_kind i \<in> set ENRICHABLE_TYPES" "\<not> ioc_internal i" by simp_all
  obtain k where "summary nets (fst k) (hits k (sightings events)) = Some i" using i(1) extract_iff by blast
  then have flag: "\<not> is_internal_ioc (ioc_kind i) (ioc_value i) nets" using i(3) summary_facts(9) by metis
  have kinds: "ioc_kind i \<in> {Ioc_Ip, Ioc_Domain, Ioc_Url, Ioc_File_Hash}" using i(2) by (simp add: ENRICHABLE_TYPES_def)
  show ?thesis
  proof (intro conjI enrichment_calls extracted_from[OF i(1)] kinds)
    show "if ioc_kind i = Ioc_Ip \<or> ioc_kind i = Ioc_Domain then
       \<not> list_ex (\<lambda>ending. suffix ending (lower (ioc_value i))) [''.local'', ''.internal'', ''.lan'', ''.corp'', ''.home.arpa''] \<and>
       (\<forall>a b c d. a < 256 \<and> b < 256 \<and> c < 256 \<and> d < 256 \<and> ioc_value i = join ''.'' [show_nat a, show_nat b, show_nat c, show_nat d] \<longrightarrow>
          \<not> (a = 127 \<or> a = 169 \<and> b = 254 \<or> a = 10 \<or> a = 172 \<and> 16 \<le> b \<and> b < 32 \<or> a = 192 \<and> b = 168 \<or> a = 100 \<and> 64 \<le> b \<and> b < 128) \<and>
          \<not> list_ex (in_network (V4, ((a * 256 + b) * 256 + c) * 256 + d)) (parse_networks nets))
     else True" (is "if ?host then ?named \<and> ?numbered else True")
    proof (cases ?host)
      case True
      then have ext: "\<not> is_internal_address (ioc_value i) nets" using flag by (auto simp: is_internal_ioc_def)
      have ?named
      proof
        assume "list_ex (\<lambda>ending. suffix ending (lower (ioc_value i))) [''.local'', ''.internal'', ''.lan'', ''.corp'', ''.home.arpa'']"
        then have "list_ex (\<lambda>ending. suffix ending (lower (ioc_value i))) internal_suffixes" by (simp only: internal_suffixes_def)
        then show False using ext by (simp add: is_internal_address_def)
      qed
      moreover have ?numbered
      proof (intro allI impI)
        fix a b c d :: nat
        assume q: "a < 256 \<and> b < 256 \<and> c < 256 \<and> d < 256 \<and> ioc_value i = join ''.'' [show_nat a, show_nat b, show_nat c, show_nat d]"
        then have "\<not> is_internal_address (join ''.'' [show_nat a, show_nat b, show_nat c, show_nat d]) nets" using ext by metis
        then show "\<not> (a = 127 \<or> a = 169 \<and> b = 254 \<or> a = 10 \<or> a = 172 \<and> 16 \<le> b \<and> b < 32 \<or> a = 192 \<and> b = 168 \<or> a = 100 \<and> 64 \<le> b \<and> b < 128) \<and>
            \<not> list_ex (in_network (V4, ((a * 256 + b) * 256 + c) * 256 + d)) (parse_networks nets)"
          using internal_v4_exact[of a b c d nets] q by blast
      qed
      ultimately show ?thesis unfolding if_P[OF True] by (rule conjI)
    qed simp
  qed
qed


section \<open>Properties of the parsers\<close>

text \<open>A CPE name reads back: from a criteria string with vendor and product in their places, the range names
  exactly them, underscores as spaces, with the published bounds as they are.\<close>

theorem cpe_round_trip:
  assumes "list_all (\<lambda>w. CHR '':'' \<notin> set w) ([a, b, c, vendor, product] @ rest)"
    "strip (underscores_to_spaces product) \<notin> {[], ''*''}" "strip (underscores_to_spaces vendor) \<notin> {[], ''*''}"
  shows "parse_cpe_match ((''criteria'', PStr (join '':'' ([a, b, c, vendor, product] @ rest))) # bounds) =
     Some \<lparr>ar_product = strip (underscores_to_spaces product), ar_vendor = Some (strip (underscores_to_spaces vendor)),
       version_start_including = optional_text (pget bounds ''versionStartIncluding''),
       version_start_excluding = optional_text (pget bounds ''versionStartExcluding''),
       version_end_including = optional_text (pget bounds ''versionEndIncluding''),
       version_end_excluding = optional_text (pget bounds ''versionEndExcluding'')\<rparr>"
proof -
  let ?ws = "[a, b, c, vendor, product] @ rest"
  have "split_at (\<lambda>x. x = CHR '':'') (join '':'' ?ws) = ?ws"
    by (rule split_join) (use assms(1) in \<open>auto simp: list_all_iff\<close>)
  moreover have "str_val (pget_or ((''criteria'', PStr (join '':'' ?ws)) # bounds) ''criteria'' (PStr [])) = join '':'' ?ws"
    by (simp add: pget_or_def str_val_def)
  moreover have "pget ((''criteria'', x) # bounds) k = pget bounds k" if "k \<noteq> ''criteria''" for x k
    using that by (simp add: pget_def)
  ultimately show ?thesis using assms(2,3) by (simp add: parse_cpe_match_def Let_def)
qed

text \<open>Only vulnerable matches become affected ranges: every range read from a configuration comes from a match
  entry marked vulnerable, so platforms a product merely runs on are never reported as affected.\<close>

theorem only_vulnerable_matches:
  assumes "parse_configurations v = Inr rs" "r \<in> set rs"
  shows "\<exists>m. truth (pget m ''vulnerable'') \<and> parse_cpe_match m = Some r"
proof -
  have vr: "vulnerable_range x = Some r \<Longrightarrow> \<exists>m. truth (pget m ''vulnerable'') \<and> parse_cpe_match m = Some r" for x
    by (auto simp: vulnerable_range_def split: pyval.splits if_splits)
  have mf: "r \<in> set (List.map_filter vulnerable_range xs) \<Longrightarrow> \<exists>x. vulnerable_range x = Some r" for xs
    by (auto simp: List.map_filter_def)
  obtain cs rsss where v: "v = PList cs" "rs = concat (concat rsss)"
    and run: "traverse (\<lambda>c. and_then (try_get (or_dict c) ''nodes'' (PList [])) (\<lambda>ns. and_then (try_iter ns)
      (traverse (\<lambda>n. and_then (try_get (or_dict n) ''cpeMatch'' (PList []))
          (\<lambda>ms. and_then (try_iter ms) (\<lambda>xs. Inr (List.map_filter vulnerable_range xs))))))) cs = Inr rsss"
    using assms by (auto simp: parse_configurations_def and_then_Inr split: pyval.splits)
  obtain rss ys where r: "rss \<in> set rsss" "ys \<in> set rss" "r \<in> set ys" using assms(2) v(2) by auto
  obtain ns where ns: "traverse (\<lambda>n. and_then (try_get (or_dict n) ''cpeMatch'' (PList []))
      (\<lambda>ms. and_then (try_iter ms) (\<lambda>xs. Inr (List.map_filter vulnerable_range xs)))) ns = Inr rss"
    using traverse_mem[OF run r(1)] by (auto simp: and_then_Inr)
  obtain xs where "ys = List.map_filter vulnerable_range xs" using traverse_mem[OF ns r(2)] by (auto simp: and_then_Inr)
  then show ?thesis using mf r(3) vr by blast
qed

text \<open>The fix offered for a product names a version and is among the best matches of the advisory: no other fix
  that names a version matches the product better. None is offered exactly when no fix names one.\<close>

theorem fix_for_best:
  "case fix_for a (Some product) of
     None \<Rightarrow> list_all (\<lambda>x. \<not> truthy (af_fixed_version x)) (ad_fixes a)
   | Some best \<Rightarrow> best \<in> set (ad_fixes a) \<and> truthy (af_fixed_version best) \<and>
       (product = [] \<or> list_all (\<lambda>x. product_match_score product (af_package x) \<le> product_match_score product (af_package best))
          (filter (\<lambda>x. truthy (af_fixed_version x)) (ad_fixes a)))"
proof (cases "filter (\<lambda>x. truthy (af_fixed_version x)) (ad_fixes a)")
  case Nil
  then show ?thesis by (auto simp: fix_for_def filter_empty_conv list_all_iff)
next
  case (Cons c cs)
  let ?f = "\<lambda>x. product_match_score product (af_package x)"
  let ?best = "max_by ?f c cs"
  have mem: "set (c # cs) \<subseteq> {x \<in> set (ad_fixes a). truthy (af_fixed_version x)}" by (simp only: Cons[symmetric] set_filter subset_refl)
  have best: "?best \<in> set (c # cs)" by (rule max_by_mem)
  have top: "\<forall>x \<in> set (c # cs). ?f x \<le> ?f ?best" using max_by_ge[of _ c cs ?f] by blast
  show ?thesis
  proof (cases "product \<noteq> [] \<and> ?f ?best > 0")
    case True
    then have "fix_for a (Some product) = Some ?best" by (simp add: fix_for_def Cons)
    moreover have "?best \<in> set (ad_fixes a) \<and> truthy (af_fixed_version ?best)" using mem best by blast
    ultimately show ?thesis using top by (simp only: option.case Cons list_all_iff) blast
  next
    case False
    then have "fix_for a (Some product) = Some c" by (auto simp: fix_for_def Cons Let_def)
    moreover have "c \<in> set (ad_fixes a) \<and> truthy (af_fixed_version c)" using mem by auto
    moreover have "product = [] \<or> (\<forall>x \<in> set (c # cs). ?f x \<le> ?f c)" 
    proof (cases "product = []")
      case False
      with \<open>\<not> (product \<noteq> [] \<and> ?f ?best > 0)\<close> have "?f ?best = 0" by simp
      then show ?thesis using top by (metis le_zero_eq le0)
    qed simp
    ultimately show ?thesis by (simp only: option.case Cons list_all_iff)
  qed
qed



section \<open>Witnesses\<close>

definition sample_feed :: "pyfloat \<Rightarrow> pyfloat option \<Rightarrow> 'v feed" where
  "sample_feed tokens opened = \<lparr>fd_cache = \<lparr>tc_ttl = 60, tc_max_entries = 8, tc_entries = []\<rparr>,
     fd_limiter = \<lparr>rl_capacity = 1, rl_per_second = 0, rl_tokens = tokens, rl_updated_at = 0\<rparr>,
     fd_breaker = \<lparr>cb_failure_threshold = 1, cb_reset_seconds = 60, cb_failures = (if opened = None then 0 else 1),
       cb_opened_at = opened, cb_half_open = False\<rparr>\<rparr>"

definition sample_readings :: "pyfloat \<Rightarrow> feed_readings" where
  "sample_readings x = \<lparr>at_allow = x, at_acquire = x, at_record = x, at_get = x, at_set = x\<rparr>"

lemma sample_feed_ok: "feed_ok (sample_feed 1 None)"
  by (simp add: feed_ok_def sample_feed_def cache_live_def cache_wf_def limiter_wf_def breaker_wf_def fl_simps)

theorem fetch_keeps_feed_ok_witness:
  "feed_ok (snd (nvd_fetch (\<lambda>x n. x ^ n) (\<lambda>_. None) (\<lambda>_. []) (sample_readings 0) (Http_Error ''down'') ''CVE-1'' (sample_feed 1 None)))"
  unfolding nvd_fetch_def using fetch_keeps_feed_ok[OF sample_feed_ok] by blast

theorem fetch_refines_ladder_witness:
  "\<exists>e. fst (nvd_fetch (\<lambda>x n. x ^ n) (\<lambda>_. None) (\<lambda>_. []) (sample_readings 0) (Http_Error ''down'') ''CVE-1'' (sample_feed 1 None)) =
     Inr (Inl e) \<and> lf_query e = ''CVE-1''"
proof -
  let ?x = "resilient_fetch nvd_texts (nvd_reading (\<lambda>x n. x ^ n) (\<lambda>_. None)) (\<lambda>_. []) (sample_readings 0) (Http_Error ''down'')
    (''id:'' @ upper ''CVE-1'') ''CVE-1'' (sample_feed 1 None)"
  have "\<exists>r. fst ?x = Inr r"
    by (simp add: resilient_fetch_def Let_def cache_get_def sample_feed_def split: prod.splits admission.splits)
  then obtain r where r: "fst ?x = Inr r" by blast
  have "fst (ttl.degrade (at_get (sample_readings 0)) (''id:'' @ upper ''CVE-1'')
      (upstream (nvd_reading (\<lambda>x n. x ^ n) (\<lambda>_. None)) (sample_readings 0) (Http_Error ''down'') (sample_feed 1 None :: cve_feed_record list feed))
      (fd_cache (sample_feed 1 None :: cve_feed_record list feed))) = None"
    unfolding ttl.degrade_def by (simp add: upstream_def sample_feed_def cache_get_def cache_get_stale_def)
  then show ?thesis unfolding nvd_fetch_def using fetch_refines_ladder[OF r] r by auto
qed

theorem nvd_outage_is_visible_witness:
  "case nvd_fetch (\<lambda>x n. x ^ n) (\<lambda>_. None) (\<lambda>_. []) (sample_readings 0) (Http_Error ''down'') ''CVE-1'' (sample_feed 1 None) of (out, f') \<Rightarrow>
     \<exists>e. out = Inr (Inl e) \<and> lf_query e = ''CVE-1''"
  using nvd_outage_is_visible[where reply = "Http_Error ''down''" and fpow = "\<lambda>x n. x ^ n" and fromiso = "\<lambda>_. None" and exc_text = "\<lambda>_. []"
      and t = "sample_readings 0" and i = "''CVE-1''" and f = "sample_feed 1 None"]
  by (auto simp: unusable_def sample_feed_def split: prod.splits)

theorem lost_probe_blocks_feed_witness:
  "case nvd_fetch (\<lambda>x n. x ^ n) (\<lambda>_. None) (\<lambda>_. []) (sample_readings 60) (Http_Error ''down'') ''CVE-1'' (sample_feed 0 (Some 0)) of (_, f1) \<Rightarrow>
     fetches nvd_texts (nvd_reading (\<lambda>x n. x ^ n) (\<lambda>_. None)) (\<lambda>_. []) [(sample_readings 900, Http_Response 200 (Some (PDict [(''vulnerabilities'', PList [])])), ''k'', ''k'')] f1 =
     fetches nvd_texts (nvd_reading (\<lambda>x n. x ^ n) (\<lambda>_. None)) (\<lambda>_. []) [(sample_readings 900, Http_Error ''down'', ''k'', ''k'')] f1"
  unfolding nvd_fetch_def
  by (rule lost_probe_blocks_feed)
     (simp_all add: sample_feed_def sample_readings_def breaker_wf_def breaker_state_def try_acquire_def refill_def Let_def cache_get_def fl_simps)

definition sample_indicator :: ioc_indicator where
  "sample_indicator = \<lparr>ioc_kind = Ioc_File_Hash, ioc_value = ''ab'', ioc_defanged = ''ab'', ioc_event_ids = [], first_seen = None,
     last_seen = None, observation_count = 1, ioc_internal = False, reputation = Rep_Unknown, reputation_source = None,
     reputation_detail = None, enriched = False\<rparr>"

definition sample_answer :: reputation_verdict where
  "sample_answer = \<lparr>rv_value = ''ab'', rv_reputation = Rep_Malicious, rv_source = ''intel'', rv_detail = ''d'', rv_checked_at = None, rv_stale = False\<rparr>"

definition sample_provider :: "unit provider" where
  "sample_provider = \<lparr>pv_name = ''intel'', pv_available = (\<lambda>_. True), pv_lookup = (\<lambda>_ s. (Inr (Inr sample_answer), s))\<rparr>"

definition sample_connection :: normalized_event where
  "sample_connection = (sample_sighting ''e1'' 5)\<lparr>ev_type := Network_Connection, entities := [\<lparr>en_type = En_Ip, en_value = ''203.0.113.7''\<rparr>]\<rparr>"

theorem enrichment_submits_external_only_witness:
  "\<exists>i \<in> set (snd (snd (enrich_indicators (logging sample_provider) 5 (extract_iocs [] [sample_connection]) ((), [])))). ioc_kind i = Ioc_Ip \<and> ioc_value i = ''203.0.113.7''
     \<and> \<not> list_ex (\<lambda>ending. suffix ending (lower (ioc_value i))) [''.local'', ''.internal'', ''.lan'', ''.corp'', ''.home.arpa'']"
proof -
  let ?i = "new_ioc [] Ioc_Ip \<lparr>en_type = En_Ip, en_value = ''203.0.113.7''\<rparr> sample_connection"
  have "join ''.'' [show_nat 203, show_nat 0, show_nat 113, show_nat 7] = ''203.0.113.7''" by code_simp
  then have ext: "\<not> is_internal_address ''203.0.113.7'' []"
    using internal_v4_exact[of 203 0 113 7 "[]"] by (simp add: parse_networks_def List.map_filter_def)
  have one: "extract_iocs [] [sample_connection] = [?i]"
    by (simp add: extract_iocs_def sightings_def sample_connection_def collect_ioc_def)
  have fields: "ioc_kind ?i = Ioc_Ip" "ioc_value ?i = ''203.0.113.7''" "\<not> ioc_internal ?i"
    using ext by (simp_all add: new_ioc_def is_internal_ioc_def)
  have "eligible_indices [?i] = [0]" using fields by (simp add: eligible_indices_def ENRICHABLE_TYPES_def)
  then have log: "snd (snd (enrich_indicators (logging sample_provider) 5 [?i] ((), []))) = [?i]"
    by (simp add: enrich_indicators_def logging_def sample_provider_def Let_def)
  then have i: "?i \<in> set (snd (snd (enrich_indicators (logging sample_provider) 5 (extract_iocs [] [sample_connection]) ((), []))))"
    unfolding one by simp
  show ?thesis using enrichment_submits_external_only[OF i] fields i by (intro bexI[of _ ?i]) auto
qed

theorem enrichment_attaches_only_witness:
  "\<exists>iocs' nts. enrich_indicators sample_provider 5 [sample_indicator] () = (Inr (iocs', Enrichment_Complete, nts), ()) \<and>
     length iocs' = 1 \<and> (\<exists>v. iocs' ! 0 = attach v sample_indicator)"
proof -
  have run: "enrich_indicators sample_provider 5 [sample_indicator] () = (Inr ([attach sample_answer sample_indicator], Enrichment_Complete, []), ())"
    by (simp add: enrich_indicators_def sample_provider_def eligible_indices_def sample_indicator_def sample_answer_def
        ENRICHABLE_TYPES_def budget_notes_def Let_def upt_rec)
  have "0 \<in> set (eligible_indices [sample_indicator])" by (simp add: eligible_indices_def sample_indicator_def ENRICHABLE_TYPES_def)
  then show ?thesis using enrichment_attaches_only[OF run] run by auto
qed

theorem cpe_round_trip_witness:
  "\<exists>r. parse_cpe_match [(''criteria'', PStr ''cpe:2.3:a:apache:http_server:*''), (''versionEndExcluding'', PStr ''2.4.51'')] = Some r
     \<and> ar_product r = ''http server'' \<and> version_end_excluding r = Some ''2.4.51''"
proof -
  have s: "strip (underscores_to_spaces ''http_server'') = ''http server''" "strip (underscores_to_spaces ''apache'') = ''apache''"
    "optional_text (PStr ''2.4.51'') = Some ''2.4.51''" "join '':'' ([''cpe'', ''2.3'', ''a'', ''apache'', ''http_server''] @ [''*'']) = ''cpe:2.3:a:apache:http_server:*''"
    by code_simp+
  show ?thesis
    using cpe_round_trip[of "''cpe''" "''2.3''" "''a''" "''apache''" "''http_server''" "[''*'']" "[(''versionEndExcluding'', PStr ''2.4.51'')]"]
    unfolding s by (simp add: pget_def s)
qed

theorem only_vulnerable_matches_witness:
  "\<exists>rs r. parse_configurations (PList [PDict [(''nodes'', PList [PDict [(''cpeMatch'', PList
       [PDict [(''vulnerable'', PBool True), (''criteria'', PStr ''cpe:2.3:a:v:p:*'')]])]])]]) = Inr rs \<and> r \<in> set rs \<and>
     (\<exists>m. truth (pget m ''vulnerable'') \<and> parse_cpe_match m = Some r)"
proof -
  let ?m = "[(''vulnerable'', PBool True), (''criteria'', PStr ''cpe:2.3:a:v:p:*'')]"
  have "parse_cpe_match ?m \<noteq> None" by code_simp
  then obtain r where r: "parse_cpe_match ?m = Some r" by blast
  have run: "parse_configurations (PList [PDict [(''nodes'', PList [PDict [(''cpeMatch'', PList [PDict ?m])]])]]) = Inr [r]"
    by (simp add: parse_configurations_def or_dict_def pget_or_def vulnerable_range_def pget_def r List.map_filter_def)
  show ?thesis using only_vulnerable_matches[OF run, of r] run by auto
qed

end
