(* ===== verification/Agents.thy ===== *)
theory Agents
  imports Domain
begin

text \<open>
  What the agents share (\<^verbatim>\<open>agents/shared/contracts.py\<close>): the envelope every agent returns, and the knowledge tier it may
  search (\<^verbatim>\<open>memory/knowledge.py\<close>), an interface with two implementations in the repository. Knowledge is read-only
  to agents: the only write an agent can name is refused.
\<close>

section \<open>The envelope\<close>

record agent_degradation =
  ag_reason :: string
  ag_detail :: string

definition degradation :: "string \<Rightarrow> string \<Rightarrow> agent_degradation" where
  "degradation reason detail = \<lparr>ag_reason = reason, ag_detail = detail\<rparr>"

record 'o agent_outcome =
  ao_agent :: string
  ao_output :: 'o
  ao_confidence :: pyfloat
  ao_prompt_version :: "string option"
  ao_tool_calls :: "(string \<times> nat) list"
  ao_degradations :: "agent_degradation list"

definition degraded :: "'o agent_outcome \<Rightarrow> bool" where
  "degraded oc = (ao_degradations oc \<noteq> [])"


section \<open>The knowledge tier\<close>

record knowledge_chunk =
  kc_chunk_id :: string
  kc_content :: string
  kc_source :: string
  kc_score :: "pyfloat option"
  kc_index_version :: "string option"

record knowledge =
  kn_available :: bool
  kn_search :: "string \<Rightarrow> nat \<Rightarrow> knowledge_chunk list"

datatype memory_error = Memory_Access_Error

definition knowledge_write :: "knowledge \<Rightarrow> 'a \<Rightarrow> memory_error + knowledge" where
  "knowledge_write k x = Inl Memory_Access_Error"

definition unavailable_knowledge :: knowledge where
  "unavailable_knowledge = \<lparr>kn_available = False, kn_search = (\<lambda>query n. [])\<rparr>"

definition in_memory_knowledge :: "knowledge_chunk list \<Rightarrow> knowledge" where
  "in_memory_knowledge chunks = \<lparr>kn_available = True,
     kn_search = (\<lambda>query n. take n (filter (\<lambda>c. py_in (lower query) (lower (kc_content c))) chunks))\<rparr>"

text \<open>What an agent relies on: a search returns at most the passages asked for.\<close>

locale knowledge_tier =
  fixes k :: knowledge
  assumes search_bounded: "length (kn_search k query n) \<le> n"

interpretation unavailable: knowledge_tier unavailable_knowledge
  by unfold_locales (simp add: unavailable_knowledge_def)

interpretation in_memory: knowledge_tier "in_memory_knowledge chunks" for chunks
  by unfold_locales (simp add: in_memory_knowledge_def)

end
