(* ===== verification/Threat_Detector.thy ===== *)
theory Threat_Detector
  imports Attack Severity Feeds Agents
begin

text \<open>
  The Threat Detector agent (\<^verbatim>\<open>agents/threat_detector/detector.py\<close>): extract, enrich, detect, map, score, decide.
  Arguments stand for what it is given: \<open>validate\<close> for the model's reading of an event (\<^verbatim>\<open>NormalizedEvent.model_validate\<close>),
  the reputation provider, and the knowledge tier's search. Shown: every event an assessment cites is one of the given
  events; the claims separate observation from inference; without an intelligence source nothing is ever called
  hostile; and confidence lies in the unit interval and only falls with blind spots.
\<close>

section \<open>Definitions\<close>

datatype claim_kind = Observation | Inference

record assessment_claim =
  cl_kind :: claim_kind
  cl_statement :: string
  cl_event_ids :: "string list"
  cl_citations :: "citation list"

record 's threat_detector =
  td_reputation :: "'s provider"
  td_knowledge :: "knowledge option"
  td_window :: duration
  td_max_indicators :: nat

record detection_request =
  rq_id :: string
  rq_events :: "pyval list"
  rq_coverage_gaps :: "string list"
  rq_internal_networks :: "string list"
  rq_critical :: "string list"

record detection_result =
  dt_investigation_id :: string
  dt_verdict :: verdict
  dt_severity :: severity_assessment
  dt_priority :: triage_priority
  dt_iocs :: "ioc_indicator list"
  dt_techniques :: "technique_mapping list"
  dt_signals :: "detection_signal list"
  dt_claims :: "assessment_claim list"
  dt_enrichment_status :: enrichment_status
  dt_escalation_required :: bool
  dt_escalation_reason :: "string option"
  dt_knowledge_grounded :: bool
  dt_citations :: "citation list"
  dt_confidence :: pyfloat

definition DEFAULT_DETECTION_WINDOW :: duration where
  "DEFAULT_DETECTION_WINDOW = 30 * 60 * 1000000"

fun ENRICHMENT_CONFIDENCE :: "enrichment_status \<Rightarrow> pyfloat" where
  "ENRICHMENT_CONFIDENCE Enrichment_Complete = 1"
| "ENRICHMENT_CONFIDENCE Enrichment_Degraded = rnd (85/100)"
| "ENRICHMENT_CONFIDENCE Enrichment_Unavailable = rnd (7/10)"

fun enrichment_value :: "enrichment_status \<Rightarrow> string" where
  "enrichment_value Enrichment_Complete = ''complete''"
| "enrichment_value Enrichment_Degraded = ''degraded''"
| "enrichment_value Enrichment_Unavailable = ''unavailable''"

fun reputation_value :: "ioc_reputation \<Rightarrow> string" where
  "reputation_value Rep_Malicious = ''malicious''"
| "reputation_value Rep_Suspicious = ''suspicious''"
| "reputation_value Rep_Harmless = ''harmless''"
| "reputation_value Rep_Unknown = ''unknown''"

definition parse_events :: "(pyval \<Rightarrow> normalized_event option) \<Rightarrow> pyval list \<Rightarrow> normalized_event list \<times> nat" where
  "parse_events validate payload =
     (List.map_filter validate payload, length (filter (\<lambda>x. validate x = None) payload))"

definition critical_assets_involved :: "normalized_event list \<Rightarrow> string list \<Rightarrow> string list" where
  "critical_assets_involved events critical_assets =
     (if critical_assets = [] then []
      else let hosts = [lower (the (host e)). e \<leftarrow> events, truthy (host e)] in
        sorted_set (filter (\<lambda>a. lower a \<in> set hosts) critical_assets))"

definition knowledge_query :: "technique_mapping list \<Rightarrow> detection_signal list \<Rightarrow> string" where
  "knowledge_query techniques signals =
     (let q = join ''; '' (map (\<lambda>t. tm_technique_id t @ '' '' @ tm_name t) (take 3 techniques) @ map sig_name (take 3 signals)) in
      if q = [] then ''security detection guidance'' else q)"

definition dedupe_citations :: "citation list \<Rightarrow> citation list" where
  "dedupe_citations cs = dedup_by (\<lambda>c. (cit_source_id c, or_else (cit_chunk_id c) (cit_url c))) [] cs"

definition chunk_citation :: "knowledge_chunk \<Rightarrow> citation" where
  "chunk_citation x = \<lparr>cit_source_id = kc_source x, cit_source = kc_source x, cit_url = None, cit_chunk_id = Some (kc_chunk_id x), cit_title = None,
     cit_trust_tier = None, cit_published_at = None\<rparr>"

definition ground :: "knowledge option \<Rightarrow> technique_mapping list \<Rightarrow> detection_signal list \<Rightarrow> citation list \<times> bool" where
  "ground kn techniques signals =
     (let citations = concat (map tm_citations techniques) in
      case kn of None \<Rightarrow> (dedupe_citations citations, False)
      | Some k \<Rightarrow>
        if \<not> kn_available k \<or> signals = [] then (dedupe_citations citations, False)
        else let chunks = kn_search k (knowledge_query techniques signals) 4 in
          (dedupe_citations (citations @ map chunk_citation chunks), chunks \<noteq> []))"

definition corroboration_factor :: "detection_signal list \<Rightarrow> pyfloat" where
  "corroboration_factor signals =
     (let corroborating = corroborating_rules signals in
      if signals = [] then rnd (8/10)
      else if corroborating = [] then 1/2
      else min 1 (rnd (1/2 + rnd (1/4 * of_nat (length corroborating - 1)))))"

definition gap_factor :: "nat \<Rightarrow> pyfloat" where
  "gap_factor n = max (rnd (6/10)) (rnd (1 - rnd (rnd (1/10) * of_nat n)))"

definition detector_confidence ::
  "normalized_event list \<Rightarrow> detection_signal list \<Rightarrow> enrichment_status \<Rightarrow> string list \<Rightarrow> pyfloat" where
  "detector_confidence events signals status gaps =
     (if events = [] then 0
      else let quality = rnd (py_sum (map confidence events) / of_nat (length events));
               score = rnd (rnd (rnd (quality * corroboration_factor signals) * ENRICHMENT_CONFIDENCE status) * gap_factor (length gaps)) in
        unit_round 4 score)"

definition claim :: "claim_kind \<Rightarrow> string \<Rightarrow> string list \<Rightarrow> citation list \<Rightarrow> assessment_claim" where
  "claim k s es cs = \<lparr>cl_kind = k, cl_statement = s, cl_event_ids = es, cl_citations = cs\<rparr>"

text \<open>A missing source or detail prints as \<^verbatim>\<open>None\<close>.\<close>

definition none_text :: "string option \<Rightarrow> string" where
  "none_text x = (case x of Some s \<Rightarrow> s | None \<Rightarrow> ''None'')"

definition build_claims ::
  "detection_signal list \<Rightarrow> ioc_indicator list \<Rightarrow> technique_mapping list \<Rightarrow> verdict \<Rightarrow> severity_assessment \<Rightarrow> enrichment_status
   \<Rightarrow> assessment_claim list" where
  "build_claims signals iocs techniques v sev status =
     map (\<lambda>s. claim Observation (sig_name s @ '': '' @ sig_detail s) (sig_event_ids s) []) signals
     @ map (\<lambda>i. claim Observation (none_text (reputation_source i) @ '' reported '' @ ioc_defanged i @ '' as ''
         @ reputation_value (reputation i) @ '' ('' @ none_text (reputation_detail i) @ '')'') (ioc_event_ids i) []) (filter enriched iocs)
     @ (if status = Enrichment_Complete then [] else [claim Observation (''Indicator reputation was '' @ enrichment_value status
         @ ''; indicators without a named source remain unknown rather than assumed clean.'') [] []])
     @ map (\<lambda>t. claim Inference (''The observed activity is consistent with '' @ tm_technique_id t @ '' ('' @ tm_name t @ ''); ''
         @ tm_rationale t) (tm_event_ids t) (tm_citations t)) techniques
     @ [claim Inference (''Verdict '' @ verdict_value v @ '': '' @ sa_rationale sev) [] []]"

definition all_signals :: "(time \<Rightarrow> string) \<Rightarrow> detection_context \<Rightarrow> ioc_indicator list \<Rightarrow> detection_signal list" where
  "all_signals isoformat ctx iocs =
     (let signals = evaluate_rules (DEFAULT_RULES isoformat) ctx in
      case signal_from_hostile_indicators iocs of None \<Rightarrow> signals
      | Some hostile \<Rightarrow> sort_key (\<lambda>s. (- weight s, rule_id s)) (signals @ [hostile]))"

text \<open>The assessment, or the exception of a reputation lookup that escapes it, and the provider's state after it.\<close>

definition assess ::
  "(time \<Rightarrow> string) \<Rightarrow> (pyval \<Rightarrow> normalized_event option) \<Rightarrow> 's threat_detector \<Rightarrow> detection_request \<Rightarrow> 's
   \<Rightarrow> (py_error + detection_result agent_outcome) \<times> 's" where
  "assess isoformat validate d rq s =
     (let (events, unreadable) = parse_events validate (rq_events rq);
          d0 = (if unreadable = 0 then [] else [degradation ''unreadable_events''
                 (show_nat unreadable @ '' event(s) did not match the normalized contract'')]) in
      case enrich_indicators (td_reputation d) (td_max_indicators d) (extract_iocs (rq_internal_networks rq) events) s of
        (Inl e, s') \<Rightarrow> (Inl e, s')
      | (Inr (iocs, status, nts), s') \<Rightarrow>
        let d1 = map (degradation ''enrichment'') nts;
            signals = all_signals isoformat \<lparr>dc_events = events, dc_window = td_window d, dc_internal_networks = rq_internal_networks rq\<rparr> iocs;
            techniques = map_techniques signals;
            (citations, grounded) = ground (td_knowledge d) techniques signals;
            d2 = (if td_knowledge d \<noteq> None \<and> \<not> grounded then [degradation ''knowledge_unavailable''
                    ''no detection knowledge was retrieved to ground the assessment''] else []);
            critical = critical_assets_involved events (rq_critical rq);
            sev = score_severity signals critical;
            v = derive_verdict sev signals iocs;
            conf = detector_confidence events signals status (rq_coverage_gaps rq);
            (escalate, reason) = assess_escalation v sev conf (critical \<noteq> []) (rq_coverage_gaps rq)
        in (Inr \<lparr>ao_agent = ''threat_detector'', ao_output = \<lparr>dt_investigation_id = rq_id rq, dt_verdict = v, dt_severity = sev,
              dt_priority = derive_priority v sev (critical \<noteq> []), dt_iocs = iocs, dt_techniques = techniques, dt_signals = signals,
              dt_claims = build_claims signals iocs techniques v sev status, dt_enrichment_status = status,
              dt_escalation_required = escalate, dt_escalation_reason = reason, dt_knowledge_grounded = grounded,
              dt_citations = citations, dt_confidence = conf\<rparr>,
              ao_confidence = conf, ao_prompt_version = Some ''1.0.0'',
              ao_tool_calls = [(''extract_iocs'', length iocs), (''evaluate_rules'', length signals), (''map_techniques'', length techniques),
                (''lookup_reputation'', length (filter enriched iocs)), (''retrieve_knowledge'', length citations)],
              ao_degradations = d0 @ d1 @ d2\<rparr>, s'))"



section \<open>Every citation is evidence\<close>

definition cites :: "string set \<Rightarrow> (detection_context \<Rightarrow> rule_match list) \<Rightarrow> detection_context \<Rightarrow> bool" where
  "cites ids f ctx \<longleftrightarrow> (\<forall>m \<in> set (f ctx). set (rm_event_ids m) \<subseteq> ids)"

lemma single_match_cites: "m \<in> set (single_match es) \<Longrightarrow> set (rm_event_ids m) = event_id ` set es"
  by (auto simp: single_match_def split: if_splits)

lemma pattern_cites: "cites (event_id ` set (dc_events ctx)) (pattern_rule p ts) ctx"
  by (auto simp: cites_def pattern_rule_def dest!: single_match_cites)

lemma type_cites: "cites (event_id ` set (dc_events ctx)) (type_rule ts) ctx"
  by (auto simp: cites_def type_rule_def dest!: single_match_cites)

lemma brute_force_cites: "cites (event_id ` set (dc_events ctx)) (detect_brute_force isoformat) ctx"
proof -
  have "set (rm_event_ids m) \<subseteq> event_id ` set (dc_events ctx)" if "m \<in> set (detect_brute_force isoformat ctx)" for m
  proof -
    obtain p es b where d: "(p, es) \<in> set (group_by_principal (dc_events ctx) [Auth_Failure])" "b \<in> set (bursts es (dc_window ctx))"
      "m = brute_force_match isoformat p b" using \<open>m \<in> _\<close> unfolding brute_force_iff by blast
    show ?thesis using burst_facts(3)[OF d(1,2)] group_member(1)[OF d(1)] d(3) by (auto simp: brute_force_match_def)
  qed
  then show ?thesis by (simp add: cites_def)
qed

lemma breakthrough_cites: "cites (event_id ` set (dc_events ctx)) (detect_breakthrough isoformat) ctx"
proof -
  have "set (rm_event_ids m) \<subseteq> event_id ` set (dc_events ctx)" if "m \<in> set (detect_breakthrough isoformat ctx)" for m
  proof -
    obtain q es where q: "(q, es) \<in> set (group_by_principal (dc_events ctx) [Auth_Failure, Auth_Success])"
      "m \<in> set (breakthroughs isoformat (dc_window ctx) q [] es)" using \<open>m \<in> _\<close> unfolding breakthrough_iff by blast
    obtain pre r e post where "es = pre @ r @ e # post" "m = breakthrough_match isoformat q r e"
      using breakthroughs_sound[OF q(2)] by auto
    then show ?thesis using group_member(1)[OF q(1)] by (auto simp: breakthrough_match_def)
  qed
  then show ?thesis by (simp add: cites_def)
qed

lemma beaconing_cites: "cites (event_id ` set (dc_events ctx)) detect_beaconing ctx"
proof -
  have "set es \<subseteq> set (dc_events ctx)" if "(d, es) \<in> set (beacon_destinations ctx)" for d es
    using that unfolding beacon_destinations_def dict_group_member by (auto simp: values_for_set)
  then show ?thesis by (fastforce simp: cites_def detect_beaconing_def)
qed

lemma default_rules_cite:
  "r \<in> set (DEFAULT_RULES isoformat) \<Longrightarrow> cites (event_id ` set (dc_events ctx)) (dr_evaluate r) ctx"
proof -
  have "list_all (\<lambda>r. cites (event_id ` set (dc_events ctx)) (dr_evaluate r) ctx) (DEFAULT_RULES isoformat)"
    by (simp add: DEFAULT_RULES_def rule_def pattern_cites type_cites brute_force_cites breakthrough_cites beaconing_cites)
  then show "r \<in> set (DEFAULT_RULES isoformat) \<Longrightarrow> ?thesis" by (simp add: list_all_iff)
qed

lemma evaluated_signal_cites:
  "s \<in> set (evaluate_rules (DEFAULT_RULES isoformat) ctx) \<Longrightarrow> set (sig_event_ids s) \<subseteq> event_id ` set (dc_events ctx)"
  using default_rules_cite by (fastforce simp: evaluate_rules_def signal_of_def cites_def)

lemma hostile_signal_cites:
  "signal_from_hostile_indicators iocs = Some s \<Longrightarrow> x \<in> set (sig_event_ids s) \<Longrightarrow> \<exists>i \<in> set iocs. x \<in> set (ioc_event_ids i)"
  by (auto simp: signal_from_hostile_indicators_def Let_def split: if_splits)

lemma signals_cite:
  assumes "\<forall>i \<in> set iocs. set (ioc_event_ids i) \<subseteq> event_id ` set (dc_events ctx)" "s \<in> set (all_signals isoformat ctx iocs)"
  shows "set (sig_event_ids s) \<subseteq> event_id ` set (dc_events ctx)"
proof -
  have "s \<in> set (evaluate_rules (DEFAULT_RULES isoformat) ctx) \<or> signal_from_hostile_indicators iocs = Some s"
    using assms(2) by (auto simp: all_signals_def Let_def split: option.splits)
  then show ?thesis
  proof
    assume "signal_from_hostile_indicators iocs = Some s"
    then show ?thesis using hostile_signal_cites[of iocs s] assms(1) by blast
  qed (rule evaluated_signal_cites)
qed

lemma techniques_cite:
  assumes "\<forall>s \<in> set signals. set (sig_event_ids s) \<subseteq> ids" "m \<in> set (map_techniques signals)"
  shows "set (tm_event_ids m) \<subseteq> ids"
proof -
  obtain k ss where g: "(k, ss) \<in> set (grouped_techniques signals)" and m: "m = make_mapping k ss"
    using assms(2) map_techniques_iff by blast
  have "set ss \<subseteq> set signals" using grouped_set(1)[OF g] by blast
  then show ?thesis using assms(1) by (auto simp: m make_mapping_def Let_def attack_event_ids_def)
qed

lemma extracted_cite: "i \<in> set (extract_iocs nets events) \<Longrightarrow> set (ioc_event_ids i) \<subseteq> event_id ` set events"
proof -
  assume "i \<in> set (extract_iocs nets events)"
  then obtain k where k: "summary nets (fst k) (hits k (sightings events)) = Some i" using extract_iff by blast
  have "set (hits k (sightings events)) \<subseteq> set (sightings events)" by (auto simp: hits_def)
  then show ?thesis using summary_facts(5)[OF k] by (auto simp: sightings_def)
qed

text \<open>Enrichment leaves an indicator's own fields alone.\<close>

lemma enriched_from:
  assumes "enrich_indicators p b iocs s = (Inr (iocs', st, nts), s')" "i' \<in> set iocs'"
  shows "\<exists>i \<in> set iocs. i' = i \<or> (\<exists>v. i' = attach v i)"
proof -
  have "length iocs' = length iocs \<and> (\<forall>k < length iocs. iocs' ! k = iocs ! k \<or> (\<exists>v. iocs' ! k = attach v (iocs ! k)))"
    using enrich_places[OF assms(1)] by blast
  then show ?thesis using assms(2) by (metis in_set_conv_nth)
qed

lemma enriched_cite:
  assumes "enrich_indicators p b (extract_iocs nets events) s = (Inr (iocs, st, nts), s')" "i \<in> set iocs"
  shows "set (ioc_event_ids i) \<subseteq> event_id ` set events"
  using enriched_from[OF assms] extracted_cite by (fastforce simp: attach_def)

lemma claim_fields [simp]: "cl_kind (claim k x es cs) = k" "cl_event_ids (claim k x es cs) = es" "cl_citations (claim k x es cs) = cs"
  by (simp_all add: claim_def)

lemma claims_cite:
  assumes "\<forall>x \<in> set signals. set (sig_event_ids x) \<subseteq> ids" "\<forall>i \<in> set iocs. set (ioc_event_ids i) \<subseteq> ids"
    "\<forall>t \<in> set techniques. set (tm_event_ids t) \<subseteq> ids"
  shows "\<forall>cl \<in> set (build_claims signals iocs techniques v sev status). set (cl_event_ids cl) \<subseteq> ids"
  unfolding build_claims_def set_append set_map ball_Un using assms by simp

text \<open>The fields of a returned assessment.\<close>

lemma assess_fields:
  assumes "assess isoformat validate d rq s = (Inr oc, s')" and r: "r = ao_output oc"
  shows "\<exists>nts. enrich_indicators (td_reputation d) (td_max_indicators d)
      (extract_iocs (rq_internal_networks rq) (fst (parse_events validate (rq_events rq)))) s = (Inr (dt_iocs r, dt_enrichment_status r, nts), s')"
    "dt_signals r = all_signals isoformat \<lparr>dc_events = fst (parse_events validate (rq_events rq)), dc_window = td_window d,
       dc_internal_networks = rq_internal_networks rq\<rparr> (dt_iocs r)"
    "dt_techniques r = map_techniques (dt_signals r)"
    "dt_claims r = build_claims (dt_signals r) (dt_iocs r) (dt_techniques r) (dt_verdict r) (dt_severity r) (dt_enrichment_status r)"
    "dt_verdict r = derive_verdict (dt_severity r) (dt_signals r) (dt_iocs r)"
  using assms by (auto simp: assess_def Let_def split: prod.splits sum.splits)

lemma assess_returns:
  assumes "enrich_indicators (td_reputation d) (td_max_indicators d)
      (extract_iocs (rq_internal_networks rq) (fst (parse_events validate (rq_events rq)))) s = (Inr (iocs, st, nts), s')"
  shows "\<exists>oc. assess isoformat validate d rq s = (Inr oc, s') \<and> dt_iocs (ao_output oc) = iocs \<and>
    dt_enrichment_status (ao_output oc) = st \<and> (\<forall>x \<in> set nts. degradation ''enrichment'' x \<in> set (ao_degradations oc))"
  unfolding assess_def Let_def case_prod_beta assms
  by (simp only: sum.case prod.case fst_conv snd_conv) auto

text \<open>C7: Every assertion of an assessment is anchored in evidence: each event that a returned indicator, signal, mapped
  technique or claim cites is one of the request's events that the event contract accepted.\<close>

theorem assessment_cites_evidence:
  assumes "assess isoformat validate d rq s = (Inr oc, s')" and r: "r = ao_output oc"
  shows "\<Union> (set ` ioc_event_ids ` set (dt_iocs r)) \<union> \<Union> (set ` sig_event_ids ` set (dt_signals r)) \<union>
         \<Union> (set ` tm_event_ids ` set (dt_techniques r)) \<union> \<Union> (set ` cl_event_ids ` set (dt_claims r))
       \<subseteq> event_id ` {e. \<exists>x \<in> set (rq_events rq). validate x = Some e}"
proof -
  let ?events = "fst (parse_events validate (rq_events rq))"
  let ?ids = "event_id ` set ?events"
  have ids: "?ids = event_id ` {e. \<exists>x \<in> set (rq_events rq). validate x = Some e}"
    by (force simp: parse_events_def List.map_filter_def)
  note f = assess_fields[OF assms(1) r]
  have i: "\<forall>i \<in> set (dt_iocs r). set (ioc_event_ids i) \<subseteq> ?ids" using f(1) by (elim exE) (blast dest: enriched_cite)
  have sg: "\<forall>x \<in> set (dt_signals r). set (sig_event_ids x) \<subseteq> ?ids"
    unfolding f(2) using signals_cite[of "dt_iocs r"
      "\<lparr>dc_events = ?events, dc_window = td_window d, dc_internal_networks = rq_internal_networks rq\<rparr>"] i by simp
  have t: "\<forall>x \<in> set (dt_techniques r). set (tm_event_ids x) \<subseteq> ?ids"
    unfolding f(3) using techniques_cite[OF sg] by blast
  have c: "\<forall>x \<in> set (dt_claims r). set (cl_event_ids x) \<subseteq> ?ids"
    unfolding f(4) by (rule claims_cite[OF sg i t])
  show ?thesis unfolding ids[symmetric] using i sg t c by blast
qed

text \<open>Observation is kept apart from inference. The claims of an assessment are its observations (one for every
  signal, one for every enriched indicator, one when reputation was incomplete) followed by its inferences (one for every
  mapped technique, then the verdict), so no inference is ever presented among the observations.\<close>

theorem claims_separate_kinds:
  "map cl_kind (build_claims signals iocs techniques v sev status) =
     replicate (length signals + length (filter enriched iocs) + (if status = Enrichment_Complete then 0 else 1)) Observation
     @ replicate (length techniques + 1) Inference \<and>
   list_all (\<lambda>c. cl_kind c = Inference \<or> cl_citations c = []) (build_claims signals iocs techniques v sev status)"
  by (simp add: build_claims_def comp_def map_replicate_const replicate_add replicate_append_same list_all_iff ball_Un)

text \<open>A knowledge tier that honours the search limit adds at most four references.\<close>

context knowledge_tier
begin

lemma ground_bounded: "length (fst (ground (Some k) techniques signals)) \<le> length (concat (map tm_citations techniques)) + 4"
proof -
  let ?c = "concat (map tm_citations techniques)" and ?found = "kn_search k (knowledge_query techniques signals) 4"
  have d: "length (dedupe_citations xs) \<le> length xs" for xs by (simp add: dedupe_citations_def dedup_by_length)
  have "fst (ground (Some k) techniques signals) \<in> {dedupe_citations ?c, dedupe_citations (?c @ map chunk_citation ?found)}"
    by (simp add: ground_def Let_def)
  moreover have "length (dedupe_citations ?c) \<le> length ?c + 4" using d[of ?c] by linarith
  moreover have "length (dedupe_citations (?c @ map chunk_citation ?found)) \<le> length ?c + 4"
    using d[of "?c @ map chunk_citation ?found"] search_bounded[of "knowledge_query techniques signals" 4] by simp
  ultimately show ?thesis by fastforce
qed

end

section \<open>Blind spots\<close>

lemma extracted_unknown: "i \<in> set (extract_iocs nets events) \<Longrightarrow> reputation i = Rep_Unknown \<and> \<not> enriched i"
  using extract_iff summary_facts by metis

lemma no_hostile: "\<forall>i \<in> set iocs. reputation i = Rep_Unknown \<Longrightarrow> signal_from_hostile_indicators iocs = None"
  by (auto simp: signal_from_hostile_indicators_def is_hostile_def Let_def filter_empty_conv)

text \<open>Without an intelligence source nothing is called hostile by assumption. When the provider is unavailable the
  assessment is still returned; it says that reputation was unavailable, records the degradation, leaves every indicator
  unenriched and of unknown reputation, carries only signals of the deterministic rules, and reaches a malicious verdict
  only through the score and corroboration those rules earn.\<close>

theorem blind_assessment:
  assumes "\<not> pv_available (td_reputation d) s"
  shows "\<exists>oc r. assess isoformat validate d rq s = (Inr oc, s) \<and> r = ao_output oc \<and> dt_enrichment_status r = Enrichment_Unavailable \<and>
    ''enrichment'' \<in> ag_reason ` set (ao_degradations oc) \<and> (\<forall>i \<in> set (dt_iocs r). reputation i = Rep_Unknown \<and> \<not> enriched i) \<and>
    dt_signals r = evaluate_rules (DEFAULT_RULES isoformat) \<lparr>dc_events = fst (parse_events validate (rq_events rq)),
      dc_window = td_window d, dc_internal_networks = rq_internal_networks rq\<rparr> \<and>
    (dt_verdict r = Malicious \<longleftrightarrow> dt_signals r \<noteq> [] \<and> MALICIOUS_SCORE \<le> sa_score (dt_severity r) \<and>
       MALICIOUS_RULE_COUNT \<le> length (corroborating_rules (dt_signals r)))"
proof -
  let ?iocs = "extract_iocs (rq_internal_networks rq) (fst (parse_events validate (rq_events rq)))"
  have en: "enrich_indicators (td_reputation d) (td_max_indicators d) ?iocs s = (Inr (?iocs, Enrichment_Unavailable,
      [''threat-intelligence provider '' @ repr_str (pv_name (td_reputation d)) @ '' is unavailable'']), s)"
    using assms by (simp add: enrich_indicators_def)
  obtain oc where run: "assess isoformat validate d rq s = (Inr oc, s)" and r0: "dt_iocs (ao_output oc) = ?iocs"
      "dt_enrichment_status (ao_output oc) = Enrichment_Unavailable"
    and x: "degradation ''enrichment'' (''threat-intelligence provider '' @ repr_str (pv_name (td_reputation d)) @ '' is unavailable'')
      \<in> set (ao_degradations oc)"
    using assess_returns[OF en, of isoformat] unfolding list.set by blast
  define r where "r = ao_output oc"
  note r = r0[folded r_def]
  have ds: "''enrichment'' \<in> ag_reason ` set (ao_degradations oc)" by (rule image_eqI[OF _ x]) (simp add: degradation_def)
  have unk: "\<forall>i \<in> set (dt_iocs r). reputation i = Rep_Unknown \<and> \<not> enriched i" using extracted_unknown r(1) by simp
  note f = assess_fields[OF run r_def]
  have "dt_signals r = evaluate_rules (DEFAULT_RULES isoformat) \<lparr>dc_events = fst (parse_events validate (rq_events rq)),
      dc_window = td_window d, dc_internal_networks = rq_internal_networks rq\<rparr>"
    unfolding f(2) using no_hostile unk by (simp add: all_signals_def)
  moreover have "dt_verdict r = Malicious \<longleftrightarrow> dt_signals r \<noteq> [] \<and> MALICIOUS_SCORE \<le> sa_score (dt_severity r) \<and>
       MALICIOUS_RULE_COUNT \<le> length (corroborating_rules (dt_signals r))"
    using unk by (auto simp: f(5) derive_verdict_def list_ex_iff is_hostile_def)
  ultimately show ?thesis using run r_def r(2) ds unk by blast
qed

fun enrichment_rank :: "enrichment_status \<Rightarrow> nat" where
  "enrichment_rank Enrichment_Complete = 0"
| "enrichment_rank Enrichment_Degraded = 1"
| "enrichment_rank Enrichment_Unavailable = 2"

lemma enrichment_confidence_facts:
  "0 \<le> ENRICHMENT_CONFIDENCE st" "enrichment_rank st \<le> enrichment_rank st' \<Longrightarrow> ENRICHMENT_CONFIDENCE st' \<le> ENRICHMENT_CONFIDENCE st"
proof -
  have "rnd (7/10) \<le> rnd (85/100)" by (rule rnd_mono) simp
  moreover have "0 \<le> rnd (7/10)" "rnd (85/100) \<le> 1" "rnd (7/10) \<le> 1" by (simp_all add: rnd_nonneg rnd_le_1)
  ultimately show "0 \<le> ENRICHMENT_CONFIDENCE st" "enrichment_rank st \<le> enrichment_rank st' \<Longrightarrow> ENRICHMENT_CONFIDENCE st' \<le> ENRICHMENT_CONFIDENCE st"
    by (cases st; cases st'; simp)+
qed

lemma gap_factor_facts: "0 \<le> gap_factor n" "m \<le> n \<Longrightarrow> gap_factor n \<le> gap_factor m"
proof -
  have n: "0 \<le> rnd (6/10)" "0 \<le> rnd (1/10)" by (simp_all add: rnd_nonneg)
  show "0 \<le> gap_factor n" using n(1) by (simp add: gap_factor_def le_max_iff_disj)
  assume "m \<le> n"
  then have "rnd (1/10) * of_nat m \<le> rnd (1/10) * of_nat n" using n(2) by (intro mult_left_mono) simp_all
  then have "rnd (1 - rnd (rnd (1/10) * of_nat n)) \<le> rnd (1 - rnd (rnd (1/10) * of_nat m))"
    by (intro rnd_mono) (simp add: rnd_mono)
  then show "gap_factor n \<le> gap_factor m" unfolding gap_factor_def by (rule max.mono[OF order_refl])
qed

lemma corroboration_nonneg: "0 \<le> corroboration_factor signals"
proof -
  have "0 \<le> rnd (1/2 + rnd (1/4 * of_nat n))" for n by (intro rnd_nonneg add_nonneg_nonneg) simp_all
  then show ?thesis by (simp add: corroboration_factor_def Let_def rnd_nonneg)
qed

lemma quality_nonneg:
  "\<forall>x \<in> set xs. 0 \<le> x \<Longrightarrow> 0 \<le> rnd (rnd (py_sum xs / of_nat n) * corroboration_factor signals)"
  by (intro rnd_nonneg mult_nonneg_nonneg divide_nonneg_nonneg corroboration_nonneg py_sum_nonneg) simp_all

text \<open>Confidence is a probability that blind spots only lower. It always lies in the unit interval, it is zero without
  events, and for events of non-negative confidence a worse enrichment status or more coverage gaps never raise it.\<close>

theorem confidence_falls_with_gaps:
  assumes "\<forall>e \<in> set events. 0 \<le> confidence e" "enrichment_rank st \<le> enrichment_rank st'" "length gaps \<le> length gaps'"
  shows "0 \<le> detector_confidence events signals st' gaps' \<and>
    detector_confidence events signals st' gaps' \<le> detector_confidence events signals st gaps \<and>
    detector_confidence events signals st gaps \<le> 1 \<and> detector_confidence [] signals st gaps = 0"
proof (intro conjI)
  define b where "b = rnd (rnd (py_sum (map confidence events) / of_nat (length events)) * corroboration_factor signals)"
  have b: "0 \<le> b" unfolding b_def using assms(1) by (intro quality_nonneg) simp
  have e: "rnd (b * ENRICHMENT_CONFIDENCE st') \<le> rnd (b * ENRICHMENT_CONFIDENCE st)"
    by (rule rnd_mult_mono[OF b order_refl enrichment_confidence_facts(1) enrichment_confidence_facts(2)[OF assms(2)]])
  have "0 \<le> rnd (b * ENRICHMENT_CONFIDENCE st')" using b enrichment_confidence_facts(1) by (intro rnd_nonneg mult_nonneg_nonneg)
  then have "rnd (rnd (b * ENRICHMENT_CONFIDENCE st') * gap_factor (length gaps')) \<le> rnd (rnd (b * ENRICHMENT_CONFIDENCE st) * gap_factor (length gaps))"
    by (rule rnd_mult_mono[OF _ e gap_factor_facts(1) gap_factor_facts(2)[OF assms(3)]])
  then show "detector_confidence events signals st' gaps' \<le> detector_confidence events signals st gaps"
    by (auto simp: detector_confidence_def Let_def b_def intro: unit_round_mono)
  show "0 \<le> detector_confidence events signals st' gaps'" "detector_confidence events signals st gaps \<le> 1"
    by (simp_all add: detector_confidence_def Let_def unit_round_bounds)
qed (simp add: detector_confidence_def)

section \<open>Witnesses\<close>

definition sample_detector :: "unit threat_detector" where
  "sample_detector = \<lparr>td_reputation = \<lparr>pv_name = ''intel'', pv_available = (\<lambda>_. False), pv_lookup = (\<lambda>_ s. (Inl Key_Error, s))\<rparr>,
     td_knowledge = None, td_window = DEFAULT_DETECTION_WINDOW, td_max_indicators = 5\<rparr>"

definition sample_request :: detection_request where
  "sample_request = \<lparr>rq_id = ''inv'', rq_events = [], rq_coverage_gaps = [], rq_internal_networks = [], rq_critical = []\<rparr>"

theorem blind_assessment_witness:
  "\<exists>oc. assess (\<lambda>_. []) (\<lambda>_. None) sample_detector sample_request () = (Inr oc, ()) \<and>
     dt_enrichment_status (ao_output oc) = Enrichment_Unavailable"
  using blind_assessment[of sample_detector "()" "\<lambda>_. []" "\<lambda>_. None" sample_request]
  by (auto simp: sample_detector_def)

definition sample_login :: normalized_event where
  "sample_login = \<lparr>event_id = ''e1'', record_id = ''r1'', source_id = ''src'', ev_source_kind = Kind_File, ev_log_format = Json, event_time = 0, ev_type = Auth_Failure, host = Some ''web'', actor = None,
     action = None, outcome = None, message = '''', entities = [], ev_fields = [], raw_ref = None, notability = 0, confidence = 1\<rparr>"

theorem assessment_cites_evidence_witness:
  "\<exists>oc. assess (\<lambda>_. []) (\<lambda>_. Some sample_login) sample_detector (sample_request\<lparr>rq_events := [PNone]\<rparr>) () = (Inr oc, ()) \<and>
     \<Union> (set ` cl_event_ids ` set (dt_claims (ao_output oc))) \<subseteq> {''e1''}"
proof -
  let ?rq = "sample_request\<lparr>rq_events := [PNone]\<rparr>" and ?v = "\<lambda>_. Some sample_login"
  let ?i = "extract_iocs (rq_internal_networks ?rq) (fst (parse_events ?v (rq_events ?rq)))"
  obtain nts where en: "enrich_indicators (td_reputation sample_detector) (td_max_indicators sample_detector) ?i () =
      (Inr (?i, Enrichment_Unavailable, nts), ())" by (simp add: enrich_indicators_def sample_detector_def)
  obtain oc where run: "assess (\<lambda>_. []) ?v sample_detector ?rq () = (Inr oc, ())"
    using assess_returns[OF en, of "\<lambda>_. []"] by blast
  have "event_id ` {e. \<exists>x \<in> set (rq_events ?rq). ?v x = Some e} = {''e1''}" by (simp add: sample_login_def sample_request_def)
  then show ?thesis using assessment_cites_evidence[OF run refl] run by (intro exI conjI) auto
qed

theorem confidence_falls_with_gaps_witness:
  "detector_confidence [sample_login] [] Enrichment_Unavailable [''no dns'']
     \<le> detector_confidence [sample_login] [] Enrichment_Complete []"
  using confidence_falls_with_gaps[of "[sample_login]" Enrichment_Complete Enrichment_Unavailable "[]" "[''no dns'']" "[]"]
  by (simp add: sample_login_def)

end
