(* ===== verification/Cwe.thy ===== *)
theory Cwe
  imports Versions
begin

text \<open>
  The weakness catalogue (\<^verbatim>\<open>tools/cwe.py\<close>). Shown: an identifier is recognised exactly when it is spelt as one, and
  a lookup or explanation answers from the pinned table alone. The dash in a citation's title is written \<open>--\<close>.
\<close>

section \<open>Definitions\<close>

record weakness_definition =
  wd_cwe_id :: string
  wd_name :: string
  wd_explanation :: string

definition weakness_url :: "weakness_definition \<Rightarrow> string" where
  "weakness_url w = ''https://cwe.mitre.org/data/definitions/'' @ removeprefix ''CWE-'' (wd_cwe_id w) @ ''.html''"

definition weakness_citation :: "weakness_definition \<Rightarrow> citation" where
  "weakness_citation w = \<lparr>cit_source_id = ''mitre_cwe'', cit_source = ''MITRE CWE'', cit_url = Some (weakness_url w),
     cit_chunk_id = None, cit_title = Some (wd_cwe_id w @ '' -- '' @ wd_name w), cit_trust_tier = Some Authoritative,
     cit_published_at = None\<rparr>"

definition CWE_CATALOGUE :: "weakness_definition list" where
  "CWE_CATALOGUE = map (\<lambda>(i, n, x). \<lparr>wd_cwe_id = i, wd_name = n, wd_explanation = x\<rparr>)
     [(''CWE-20'', ''Improper Input Validation'',
        ''The product accepts input without checking it is well-formed, so malformed input reaches logic that assumed it was valid.''),
      (''CWE-22'', ''Path Traversal'',
        ''A filename supplied by the caller is used without restriction, letting an attacker read or write files outside the intended directory.''),
      (''CWE-77'', ''Command Injection'',
        ''Caller-supplied text is embedded in a command the product then executes, so an attacker can append commands of their own.''),
      (''CWE-78'', ''OS Command Injection'',
        ''Caller-supplied text reaches an operating-system shell, letting an attacker run arbitrary commands on the host.''),
      (''CWE-79'', ''Cross-site Scripting'',
        ''Untrusted input is rendered into a web page without escaping, so an attacker can run script in another user's browser session.''),
      (''CWE-89'', ''SQL Injection'',
        ''Untrusted input is concatenated into a database query, letting an attacker read, alter, or destroy data the query was never meant to touch.''),
      (''CWE-94'', ''Code Injection'',
        ''Untrusted input is evaluated as program code, giving an attacker execution inside the product's own process.''),
      (''CWE-119'', ''Improper Restriction of Operations within the Bounds of a Memory Buffer'',
        ''The product reads or writes outside a buffer's bounds, which can crash it or let an attacker control execution.''),
      (''CWE-125'', ''Out-of-bounds Read'',
        ''The product reads past the end of a buffer, leaking adjacent memory that may contain secrets.''),
      (''CWE-190'', ''Integer Overflow or Wraparound'',
        ''An arithmetic result exceeds its type and wraps around, producing a size or index the surrounding code treats as valid.''),
      (''CWE-200'', ''Exposure of Sensitive Information to an Unauthorized Actor'',
        ''The product discloses information to someone who should not be able to see it.''),
      (''CWE-269'', ''Improper Privilege Management'',
        ''Privileges are assigned, dropped, or checked incorrectly, so an actor ends up with more authority than intended.''),
      (''CWE-287'', ''Improper Authentication'',
        ''The product does not correctly prove who a caller is, so an attacker can act as someone else.''),
      (''CWE-306'', ''Missing Authentication for Critical Function'',
        ''A sensitive operation can be invoked without authenticating at all.''),
      (''CWE-352'', ''Cross-Site Request Forgery'',
        ''The product accepts a state-changing request without confirming the user intended it, so another site can act on their behalf.''),
      (''CWE-362'', ''Race Condition'',
        ''Two operations that assume exclusive access can interleave, leaving the product in a state neither expected.''),
      (''CWE-400'', ''Uncontrolled Resource Consumption'',
        ''An attacker can make the product consume unbounded memory, CPU, or disk, denying service to everyone else.''),
      (''CWE-416'', ''Use After Free'',
        ''Memory is used after it has been released, which can crash the product or let an attacker control what runs.''),
      (''CWE-434'', ''Unrestricted Upload of File with Dangerous Type'',
        ''The product accepts uploaded files without restricting their type, so an attacker can upload something the server will execute.''),
      (''CWE-502'', ''Deserialization of Untrusted Data'',
        ''The product reconstructs objects from attacker-controlled data, which can trigger code execution during deserialization itself.''),
      (''CWE-522'', ''Insufficiently Protected Credentials'',
        ''Credentials are stored or transmitted in a way that lets an attacker recover them.''),
      (''CWE-611'', ''Improper Restriction of XML External Entity Reference'',
        ''The XML parser resolves external references, letting an attacker read local files or reach internal services.''),
      (''CWE-732'', ''Incorrect Permission Assignment for Critical Resource'',
        ''A sensitive file or object is left readable or writable by actors who should not have access.''),
      (''CWE-787'', ''Out-of-bounds Write'',
        ''The product writes past the end of a buffer, corrupting adjacent memory and often enabling code execution.''),
      (''CWE-798'', ''Use of Hard-coded Credentials'',
        ''A password or key is embedded in the product, so it is the same everywhere it is installed and cannot be rotated.''),
      (''CWE-862'', ''Missing Authorization'',
        ''The product authenticates the caller but never checks whether they are allowed to perform the action.''),
      (''CWE-863'', ''Incorrect Authorization'',
        ''An authorization check exists but reaches the wrong answer, granting access it should refuse.''),
      (''CWE-918'', ''Server-Side Request Forgery'',
        ''The product fetches a URL the caller controls, letting an attacker reach internal services from the server's own network position.''),
      (''CWE-1321'', ''Prototype Pollution'',
        ''Attacker-controlled keys modify a shared object prototype, changing behavior across unrelated parts of the application.'')]"

definition WEAKNESSES :: "(string, weakness_definition) dict" where
  "WEAKNESSES = map (\<lambda>w. (wd_cwe_id w, w)) CWE_CATALOGUE"

definition UNCLASSIFIED :: "(string, string) dict" where
  "UNCLASSIFIED = [(''NVD-CWE-NOINFO'', ''The vulnerability record carries no weakness classification.''),
     (''NVD-CWE-OTHER'', ''The weakness does not fit an existing CWE category.'')]"

text \<open>\<^verbatim>\<open>^CWE-(\d+)$\<close>, any case, after stripping.\<close>

definition normalize_cwe_id :: "string \<Rightarrow> string option" where
  "normalize_cwe_id s = (let t = chomp (strip s); ds = drop 4 t in
     if upper (take 4 t) = ''CWE-'' \<and> ds \<noteq> [] \<and> list_all is_digit ds then Some (''CWE-'' @ ds) else None)"

definition known_weakness :: "string \<Rightarrow> weakness_definition option" where
  "known_weakness s = (case normalize_cwe_id s of Some i \<Rightarrow> map_of WEAKNESSES i | None \<Rightarrow> None)"

definition explain :: "string \<Rightarrow> string option" where
  "explain s = (case map_of UNCLASSIFIED (upper (strip s)) of
     Some x \<Rightarrow> Some x
   | None \<Rightarrow> map_option wd_explanation (known_weakness s))"


section \<open>Facts\<close>

lemma digits_plain: "list_all is_digit ds \<Longrightarrow> list_all (\<lambda>c. \<not> is_space c \<and> cp c \<noteq> 10) ds"
  by (auto simp: list_all_iff digit_facts)

lemma normalized_fixed:
  assumes "ds \<noteq> []" "list_all is_digit ds"
  shows "normalize_cwe_id (''CWE-'' @ ds) = Some (''CWE-'' @ ds)"
proof -
  have l: "\<not> is_space (last ds)" "cp (last ds) \<noteq> 10" using assms digits_plain by (auto simp: list_all_iff)
  have c: "\<not> is_space (CHR ''C'')" by code_simp
  have "strip (''CWE-'' @ ds) = ''CWE-'' @ ds"
    using l(1) c assms(1) by (simp add: strip_by_def) (cases ds rule: rev_cases; simp)
  moreover have "chomp (''CWE-'' @ ds) = ''CWE-'' @ ds" using l(2) assms(1) by (simp add: chomp_def)
  moreover have "upper ''CWE-'' = ''CWE-''" by code_simp
  ultimately show ?thesis using assms by (simp add: normalize_cwe_id_def Let_def)
qed

lemma normalized_form: "normalize_cwe_id s = Some i \<Longrightarrow> \<exists>ds. i = ''CWE-'' @ ds \<and> ds \<noteq> [] \<and> list_all is_digit ds"
  unfolding normalize_cwe_id_def Let_def by (metis option.distinct(1) option.inject)

lemma catalogue_ids: "map wd_cwe_id CWE_CATALOGUE =
    [''CWE-20'', ''CWE-22'', ''CWE-77'', ''CWE-78'', ''CWE-79'', ''CWE-89'', ''CWE-94'', ''CWE-119'', ''CWE-125'',
     ''CWE-190'', ''CWE-200'', ''CWE-269'', ''CWE-287'', ''CWE-306'', ''CWE-352'', ''CWE-362'', ''CWE-400'', ''CWE-416'',
     ''CWE-434'', ''CWE-502'', ''CWE-522'', ''CWE-611'', ''CWE-732'', ''CWE-787'', ''CWE-798'', ''CWE-862'', ''CWE-863'',
     ''CWE-918'', ''CWE-1321'']"
  by (simp add: CWE_CATALOGUE_def)

lemma catalogue_id_facts:
  "distinct (map wd_cwe_id CWE_CATALOGUE)"
  "list_all (\<lambda>i. normalize_cwe_id i = Some i \<and> map_of UNCLASSIFIED (upper (strip i)) = None) (map wd_cwe_id CWE_CATALOGUE)"
  unfolding catalogue_ids by code_simp+

lemma catalogued_found:
  assumes "w \<in> set CWE_CATALOGUE"
  shows "known_weakness (wd_cwe_id w) = Some w" "explain (wd_cwe_id w) = Some (wd_explanation w)"
proof -
  have n: "normalize_cwe_id (wd_cwe_id w) = Some (wd_cwe_id w)" "map_of UNCLASSIFIED (upper (strip (wd_cwe_id w))) = None"
    using catalogue_id_facts(2) assms by (auto simp: list_all_iff)
  have "map_of WEAKNESSES (wd_cwe_id w) = Some w"
    using assms catalogue_id_facts(1) by (intro map_of_is_SomeI) (auto simp: WEAKNESSES_def comp_def)
  then show k: "known_weakness (wd_cwe_id w) = Some w" by (simp add: known_weakness_def n(1))
  show "explain (wd_cwe_id w) = Some (wd_explanation w)" by (simp add: explain_def n(2) k)
qed

text \<open>Weakness identifiers have one canonical spelling, and the catalogue answers for it: a recognised identifier is
  \<open>CWE-\<close> followed by digits and is its own normal form; a lookup answers only from the pinned table, under the
  canonical identifier; and every catalogued class is found under its own identifier and explained by its own entry.\<close>

theorem weakness_lookup_canonical:
  "(case normalize_cwe_id s of None \<Rightarrow> known_weakness s = None
    | Some i \<Rightarrow> normalize_cwe_id i = Some i \<and>
       (case known_weakness s of None \<Rightarrow> i \<notin> wd_cwe_id ` set CWE_CATALOGUE
        | Some w \<Rightarrow> w \<in> set CWE_CATALOGUE \<and> wd_cwe_id w = i)) \<and>
   list_all (\<lambda>w. known_weakness (wd_cwe_id w) = Some w \<and> explain (wd_cwe_id w) = Some (wd_explanation w)) CWE_CATALOGUE"
proof
  have idem: "normalize_cwe_id i = Some i" if "normalize_cwe_id s = Some i" for i
    using normalized_form[OF that] normalized_fixed by blast
  have "wd_cwe_id w = i \<and> w \<in> set CWE_CATALOGUE" if "map_of WEAKNESSES i = Some w" for w i
    using map_of_SomeD[OF that] by (auto simp: WEAKNESSES_def)
  moreover have "i \<notin> wd_cwe_id ` set CWE_CATALOGUE" if "map_of WEAKNESSES i = None" for i
    using that by (auto simp: WEAKNESSES_def map_of_eq_None_iff image_image)
  ultimately show "case normalize_cwe_id s of None \<Rightarrow> known_weakness s = None
    | Some i \<Rightarrow> normalize_cwe_id i = Some i \<and>
       (case known_weakness s of None \<Rightarrow> i \<notin> wd_cwe_id ` set CWE_CATALOGUE
        | Some w \<Rightarrow> w \<in> set CWE_CATALOGUE \<and> wd_cwe_id w = i)"
    using idem by (auto simp: known_weakness_def split: option.splits)
  show "list_all (\<lambda>w. known_weakness (wd_cwe_id w) = Some w \<and> explain (wd_cwe_id w) = Some (wd_explanation w)) CWE_CATALOGUE"
    using catalogued_found by (simp add: list_all_iff)
qed

end
