(* ===== verification/Cve_Text.thy ===== *)
theory Cve_Text
  imports Py_Text Prelude
begin

text \<open>
  Vulnerability identifiers in free text, as \<^verbatim>\<open>agents/cve_research/researcher.py\<close> reads them out of log lines and corpus
  passages: \<^verbatim>\<open>_CVE_ID\<close>, \<^verbatim>\<open>_CVSS_VECTOR\<close> and \<^verbatim>\<open>_CWE_IN_TEXT\<close>.
\<close>

text \<open>\<^verbatim>\<open>find_cve_ids\<close>: the matches of \<^verbatim>\<open>\bCVE-\d{4}-\d{4,7}\b\<close> (any case) from left to right, upper-cased,
  first occurrences only.\<close>

definition match_cve :: "string \<Rightarrow> nat option" where
  "match_cve s = (let year = take 4 (drop 4 s); ds = takeWhile is_digit (drop 9 s); rest = drop (9 + length ds) s in
     if upper (take 4 s) = ''CVE-'' \<and> length year = 4 \<and> list_all is_digit year \<and> take 1 (drop 8 s) = ''-''
        \<and> 4 \<le> length ds \<and> length ds \<le> 7 \<and> (rest = [] \<or> \<not> is_word (hd rest))
     then Some (9 + length ds) else None)"

function scan_cves :: "bool \<Rightarrow> string \<Rightarrow> string list" where
  "scan_cves after_word [] = []"
| "scan_cves after_word (c # cs) = (case (if after_word then None else match_cve (c # cs)) of
     Some n \<Rightarrow> take n (c # cs) # scan_cves True (drop (n - 1) cs)
   | None \<Rightarrow> scan_cves (is_word c) cs)"
  by pat_completeness auto
termination
  by (relation "measure (length \<circ> snd)") auto

definition find_cve_ids :: "string \<Rightarrow> string list" where
  "find_cve_ids s = unique (map upper (scan_cves False s))"

text \<open>\<^verbatim>\<open>\bCWE-\d+\b\<close>, any case: the digits are taken greedily and a word character after them rules the match out.\<close>

definition match_cwe :: "string \<Rightarrow> nat option" where
  "match_cwe s = (let ds = takeWhile is_digit (drop 4 s); rest = drop (4 + length ds) s in
     if upper (take 4 s) = ''CWE-'' \<and> ds \<noteq> [] \<and> (rest = [] \<or> \<not> is_word (hd rest)) then Some (4 + length ds) else None)"

function scan_cwes :: "bool \<Rightarrow> string \<Rightarrow> string list" where
  "scan_cwes after_word [] = []"
| "scan_cwes after_word (c # cs) = (case (if after_word then None else match_cwe (c # cs)) of
     Some n \<Rightarrow> take n (c # cs) # scan_cwes True (drop (n - 1) cs)
   | None \<Rightarrow> scan_cwes (is_word c) cs)"
  by pat_completeness auto
termination
  by (relation "measure (length \<circ> snd)") auto

text \<open>\<^verbatim>\<open>CVSS:3\.[01]/[A-Z:/]+\<close>: the leftmost match, as long as it goes.\<close>

definition vector_tail :: "char \<Rightarrow> bool" where
  "vector_tail c = (is_upper_az c \<or> c = CHR '':'' \<or> c = CHR ''/'')"

definition match_cvss :: "string \<Rightarrow> string option" where
  "match_cvss s = (let tail = takeWhile vector_tail (drop 9 s) in
     if (take 9 s = ''CVSS:3.0/'' \<or> take 9 s = ''CVSS:3.1/'') \<and> tail \<noteq> [] then Some (take 9 s @ tail) else None)"

fun find_cvss :: "string \<Rightarrow> string option" where
  "find_cvss [] = None"
| "find_cvss (c # cs) = (case match_cvss (c # cs) of Some v \<Rightarrow> Some v | None \<Rightarrow> find_cvss cs)"

end
