(* ===== verification/Cve_Researcher.thy ===== *)
theory Cve_Researcher
  imports Cwe Feeds Agents Cve_Text "HOL-Library.Multiset"
begin

text \<open>
  The CVE Research agent (\<^verbatim>\<open>agents/cve_research/researcher.py\<close>). Arguments stand for what it is given: the live feed (an
  interface over whatever state it keeps; \<^verbatim>\<open>NvdCveSource\<close> of theory \<open>Feeds\<close> is one), the knowledge tier, \<open>fpow\<close> for the
  floating-point power the CVSS arithmetic uses, and \<open>set_order\<close> for the order in which Python iterates over a set of
  strings. Dashes outside Latin-1 are written \<open>--\<close>. Shown: the dossier files every record found exactly once, worst
  first; nothing read from the corpus is ever confirmed; a dossier that is not stale rests on live answers alone; live
  records displace cached ones and are never displaced; and a confirmation always outweighs a candidate.
\<close>

section \<open>Definitions\<close>

subsection \<open>Reading the threat assessment\<close>

record threat_context =
  tc_technique_ids :: "string list"
  tc_signal_rule_ids :: "string list"
  tc_event_ids :: "string list"
  tc_terms :: "string list"

fun dict_item :: "pyval \<Rightarrow> mapping option" where
  "dict_item (PDict d) = Some d"
| "dict_item _ = None"

definition as_dicts :: "pyval \<Rightarrow> mapping list" where
  "as_dicts v = (case v of PList xs \<Rightarrow> List.map_filter dict_item xs | _ \<Rightarrow> [])"

fun str_item :: "pyval \<Rightarrow> string option" where
  "str_item (PStr s) = Some s"
| "str_item _ = None"

definition texts_of :: "string \<Rightarrow> mapping list \<Rightarrow> string list" where
  "texts_of key ds = [str_val (pget d key). d \<leftarrow> ds, truth (pget d key)]"

definition threat_context_of :: "(string list \<Rightarrow> string list) \<Rightarrow> mapping \<Rightarrow> py_error + threat_context" where
  "threat_context_of set_order data =
     (let signals = as_dicts (pget data ''signals'');
          terms = map lower (texts_of ''value'' (as_dicts (pget data ''iocs'')))
                  @ map (\<lambda>s. lower (str_val (pget_or s ''detail'' (PStr [])))) signals in
      and_then (traverse (\<lambda>s. try_iter (pget_or s ''event_ids'' (PList []))) signals) (\<lambda>idss.
        Inr \<lparr>tc_technique_ids = texts_of ''technique_id'' (as_dicts (pget data ''attack_techniques'')),
             tc_signal_rule_ids = texts_of ''rule_id'' signals,
             tc_event_ids = List.map_filter str_item (concat idss),
             tc_terms = set_order (filter (\<lambda>t. t \<noteq> []) (unique terms))\<rparr>))"

record exploit_mapping =
  em_technique_ids :: "string list"
  em_signal_rule_ids :: "string list"
  em_event_ids :: "string list"
  em_rationale :: string

definition mapping_is_empty :: "exploit_mapping \<Rightarrow> bool" where
  "mapping_is_empty m = (em_technique_ids m = [] \<and> em_signal_rule_ids m = [])"

definition empty_mapping :: exploit_mapping where
  "empty_mapping = \<lparr>em_technique_ids = [], em_signal_rule_ids = [], em_event_ids = [], em_rationale = []\<rparr>"

definition map_to_observed :: "cve_feed_record \<Rightarrow> threat_context \<Rightarrow> exploit_mapping" where
  "map_to_observed r ctx =
     (let named = py_in (lower (cve_id r)) (join '' '' (tc_terms ctx));
          product_seen = list_ex (\<lambda>a. list_ex (\<lambda>t. 4 \<le> length t \<and> products_match (ar_product a) t) (tc_terms ctx)) (affected r) in
      if \<not> (named \<or> product_seen) then empty_mapping
      else \<lparr>em_technique_ids = tc_technique_ids ctx, em_signal_rule_ids = tc_signal_rule_ids ctx, em_event_ids = tc_event_ids ctx,
            em_rationale = (if named then cve_id r @ '' is named in the observed evidence''
                            else ''an affected product appears in the observed indicators'')\<rparr>)"

subsection \<open>Collecting records\<close>

text \<open>A live feed: whether it can be used now, a lookup by identifier and a search.\<close>

record 's cve_source =
  cs_available :: "'s \<Rightarrow> bool"
  cs_fetch :: "string \<Rightarrow> 's \<Rightarrow> (py_error + lookup_failure + cve_feed_record list) \<times> 's"
  cs_search :: "string \<Rightarrow> nat \<Rightarrow> 's \<Rightarrow> (py_error + lookup_failure + cve_feed_record list) \<times> 's"

definition unavailable_source :: "'s cve_source" where
  "unavailable_source = (let refuse = (\<lambda>q. Inr (Inl \<lparr>lf_query = q, lf_reason = ''not_configured'',
       lf_detail = ''no live CVE feed is configured''\<rparr>)) in
     \<lparr>cs_available = (\<lambda>_. False), cs_fetch = (\<lambda>q s. (refuse q, s)), cs_search = (\<lambda>q n s. (refuse q, s))\<rparr>)"

definition merge_one :: "cve_feed_record \<Rightarrow> (string, cve_feed_record) dict \<Rightarrow> (string, cve_feed_record) dict" where
  "merge_one r records = (case map_of records (cve_id r) of
     None \<Rightarrow> dict_set (cve_id r) r records
   | Some existing \<Rightarrow> if cr_stale existing \<and> \<not> cr_stale r then dict_set (cve_id r) r records else records)"

definition merge_records :: "cve_feed_record list \<Rightarrow> (string, cve_feed_record) dict \<Rightarrow> (string, cve_feed_record) dict" where
  "merge_records found records = fold merge_one found records"

definition records_from_chunk :: "(pyfloat \<Rightarrow> nat \<Rightarrow> pyfloat) \<Rightarrow> knowledge_chunk \<Rightarrow> cve_feed_record list" where
  "records_from_chunk fpow chunk =
     (let text = kc_content chunk; identifiers = sorted_set (map upper (scan_cves False text));
          cvss = (case find_cvss text of Some v \<Rightarrow> cvss_interpret fpow v None | None \<Rightarrow> None);
          cwes = sorted_set (map upper (scan_cwes False text)) in
      map (\<lambda>i. \<lparr>cve_id = i, affected = [], cr_title = i, cr_summary = strip text, cr_cvss = cvss, cr_cwe_ids = cwes,
        cr_references = [], cr_published_at = None, cr_modified_at = None, cr_source = Knowledge_Corpus, cr_stale = True\<rparr>) identifiers)"

definition from_corpus :: "(pyfloat \<Rightarrow> nat \<Rightarrow> pyfloat) \<Rightarrow> knowledge option \<Rightarrow> string \<Rightarrow> cve_feed_record list" where
  "from_corpus fpow kn query = (case kn of
     None \<Rightarrow> []
   | Some k \<Rightarrow> if kn_available k then concat (map (records_from_chunk fpow) (kn_search k query 5)) else [])"

record collection =
  gc_records :: "(string, cve_feed_record) dict"
  gc_fell_back :: "string list"
  gc_reasons :: "string list"

definition fall_back :: "(pyfloat \<Rightarrow> nat \<Rightarrow> pyfloat) \<Rightarrow> knowledge option \<Rightarrow> string \<Rightarrow> string \<Rightarrow> collection \<Rightarrow> collection" where
  "fall_back fpow kn query reason c =
     \<lparr>gc_records = merge_records (from_corpus fpow kn query) (gc_records c), gc_fell_back = gc_fell_back c @ [query],
      gc_reasons = gc_reasons c @ [reason]\<rparr>"

record 's cve_researcher =
  cv_source :: "'s cve_source"
  cv_knowledge :: "knowledge option"
  cv_max_products :: nat
  cv_results_per_product :: nat

text \<open>One query, by identifier or by product, against the live feed, degrading to the corpus.\<close>

definition cve_lookup ::
  "(pyfloat \<Rightarrow> nat \<Rightarrow> pyfloat) \<Rightarrow> 's cve_researcher \<Rightarrow> bool \<times> string \<Rightarrow> collection \<Rightarrow> 's \<Rightarrow> (py_error + collection) \<times> 's" where
  "cve_lookup fpow a q c s =
     (let (by_id, query) = q; kn = cv_knowledge a; src = cv_source a in
      if cs_available src s then
        (case (if by_id then cs_fetch src query s else cs_search src query (cv_results_per_product a) s) of
           (Inl e, s') \<Rightarrow> (Inl e, s')
         | (Inr (Inr found), s') \<Rightarrow> (Inr (c\<lparr>gc_records := merge_records found (gc_records c)\<rparr>), s')
         | (Inr (Inl failure), s') \<Rightarrow> (Inr (fall_back fpow kn query (lf_reason failure) c), s'))
      else (Inr (fall_back fpow kn query ''not_configured'' c), s))"

fun lookups ::
  "(pyfloat \<Rightarrow> nat \<Rightarrow> pyfloat) \<Rightarrow> 's cve_researcher \<Rightarrow> (bool \<times> string) list \<Rightarrow> collection \<Rightarrow> 's \<Rightarrow> (py_error + collection) \<times> 's" where
  "lookups fpow a [] c s = (Inr c, s)"
| "lookups fpow a (q # qs) c s = (case cve_lookup fpow a q c s of
     (Inl e, s') \<Rightarrow> (Inl e, s') | (Inr c', s') \<Rightarrow> lookups fpow a qs c' s')"

definition empty_collection :: collection where
  "empty_collection = \<lparr>gc_records = [], gc_fell_back = [], gc_reasons = []\<rparr>"

definition shortfall_note :: "collection \<Rightarrow> nat \<Rightarrow> agent_degradation" where
  "shortfall_note c n = degradation ''live_feed_unavailable''
     (''the live CVE feed was unavailable ('' @ join '', '' (sorted_set (gc_reasons c)) @ '') for ''
      @ show_nat (length (gc_fell_back c)) @ '' of '' @ show_nat n @ '' lookup(s) -- ''
      @ join '', '' (take 5 (gc_fell_back c)) @ ''; ''
      @ show_nat (length (filter cr_stale (map snd (gc_records c)))) @ '' record(s) recovered from the indexed corpus'')"

definition collect ::
  "(pyfloat \<Rightarrow> nat \<Rightarrow> pyfloat) \<Rightarrow> 's cve_researcher \<Rightarrow> string list \<Rightarrow> string list \<Rightarrow> 's
   \<Rightarrow> (py_error + cve_feed_record list \<times> agent_degradation list \<times> nat) \<times> 's" where
  "collect fpow a ids products s =
     (case lookups fpow a (map (Pair True) ids @ map (Pair False) products) empty_collection s of
        (Inl e, s') \<Rightarrow> (Inl e, s')
      | (Inr c, s') \<Rightarrow> (Inr (map snd (gc_records c),
          if gc_fell_back c = [] then [] else [shortfall_note c (length ids + length products)], length (gc_fell_back c)), s'))"

definition products_to_search :: "nat \<Rightarrow> asset_context list \<Rightarrow> string list \<times> nat" where
  "products_to_search max_products assets =
     (let seen = unique (filter (\<lambda>p. p \<noteq> []) (concat (map (map sw_product \<circ> software) assets))) in
      (take max_products seen, length seen - max_products))"

subsection \<open>Assessing a record\<close>

record cve_assessment =
  va_record :: cve_feed_record
  va_applicability :: cve_applicability
  va_evidence :: "applicability_evidence list"
  va_mapping :: exploit_mapping
  va_citations :: "citation list"
  va_confidence :: pyfloat

definition citations_for :: "cve_feed_record \<Rightarrow> citation list" where
  "citations_for r =
     (if cr_source r = Nvd then
        \<lparr>cit_source_id = ''nvd'', cit_source = ''NVD'', cit_url = Some (''https://nvd.nist.gov/vuln/detail/'' @ cve_id r),
         cit_chunk_id = None, cit_title = Some (cve_id r), cit_trust_tier = Some Authoritative, cit_published_at = cr_published_at r\<rparr>
      else \<lparr>cit_source_id = ''knowledge_corpus'', cit_source = ''Indexed CVE corpus'', cit_url = None, cit_chunk_id = None,
         cit_title = Some (cve_id r), cit_trust_tier = None, cit_published_at = cr_published_at r\<rparr>)
     # map weakness_citation (List.map_filter (\<lambda>i. Option.bind (normalize_cwe_id i) known_weakness) (cr_cwe_ids r))"

definition base_confidence :: "cve_applicability \<Rightarrow> applicability_reason set \<Rightarrow> pyfloat" where
  "base_confidence app reasons = (case app of
     Confirmed \<Rightarrow> rnd (9/10)
   | Not_Applicable \<Rightarrow> rnd (8/10)
   | Candidate \<Rightarrow>
       if Version_Unknown \<in> reasons then 1/2
       else if Version_Unparseable \<in> reasons then rnd (45/100)
       else if No_Affected_Range_Published \<in> reasons then rnd (35/100) else rnd (3/10))"

definition STALE_CONFIDENCE :: pyfloat where "STALE_CONFIDENCE = rnd (7/10)"

definition adjusted_confidence :: "bool \<Rightarrow> bool \<Rightarrow> bool \<Rightarrow> pyfloat \<Rightarrow> pyfloat" where
  "adjusted_confidence stale unscored mapped score =
     (let s1 = (if stale then rnd (score * STALE_CONFIDENCE) else score);
          s2 = (if unscored then rnd (s1 * rnd (9/10)) else s1);
          s3 = (if mapped then min 1 (rnd (s2 + rnd (5/100))) else s2) in unit_round 4 s3)"

definition assessment_confidence ::
  "cve_feed_record \<Rightarrow> cve_applicability \<Rightarrow> applicability_evidence list \<Rightarrow> exploit_mapping \<Rightarrow> pyfloat" where
  "assessment_confidence r app evidence m =
     adjusted_confidence (cr_stale r) (cr_cvss r = None) (\<not> mapping_is_empty m) (base_confidence app (ae_reason ` set evidence))"

text \<open>The contract refuses a confirmation that no evidence supports.\<close>

definition assess_record :: "asset_context list \<Rightarrow> threat_context \<Rightarrow> cve_feed_record \<Rightarrow> py_error + cve_assessment" where
  "assess_record assets ctx r =
     (let (app, evidence) = assess_applicability (cve_record.truncate r) assets; m = map_to_observed r ctx in
      if confirmed_requires_asset_and_version app evidence then
        Inr \<lparr>va_record = r, va_applicability = app, va_evidence = evidence, va_mapping = m, va_citations = citations_for r,
             va_confidence = assessment_confidence r app evidence m\<rparr>
      else Inl Value_Error)"

subsection \<open>The dossier\<close>

definition cvss_score_of :: "cve_assessment \<Rightarrow> pyfloat" where
  "cvss_score_of a = (case cr_cvss (va_record a) of Some c \<Rightarrow> cm_base_score c | None \<Rightarrow> 0)"

definition by_severity :: "cve_assessment \<Rightarrow> pyfloat \<times> string" where
  "by_severity a = (- cvss_score_of a, cve_id (va_record a))"

definition oldest_modification :: "cve_feed_record list \<Rightarrow> time option" where
  "oldest_modification rs = (case List.map_filter cr_modified_at rs of [] \<Rightarrow> None | t # ts \<Rightarrow> Some (fold min ts t))"

definition dossier_confidence :: "cve_assessment list \<Rightarrow> bool \<Rightarrow> bool \<Rightarrow> pyfloat" where
  "dossier_confidence items has_inventory stale =
     (if items = [] then 0
      else let mean = rnd (py_sum (map va_confidence items) / of_nat (length items));
               m1 = (if has_inventory then mean else rnd (mean * (1/2)));
               m2 = (if stale then rnd (m1 * STALE_CONFIDENCE) else m1) in unit_round 4 m2)"

record research_request =
  vq_investigation_id :: string
  vq_threat_assessment :: "mapping option"
  vq_assets :: "asset_context list"
  vq_referenced_cve_ids :: "string list"

record research_result =
  vr_investigation_id :: string
  vr_cves :: "cve_assessment list"
  vr_candidates :: "cve_assessment list"
  vr_ruled_out :: "cve_assessment list"
  vr_source_freshness :: "time option"
  vr_stale :: bool
  vr_searched_products :: "string list"
  vr_confidence :: pyfloat

definition highest_severity :: "research_result \<Rightarrow> severity option" where
  "highest_severity d = (case List.map_filter (cr_cvss \<circ> va_record) (vr_cves d) of
     [] \<Rightarrow> None | c # cs \<Rightarrow> Some (cm_severity (max_by cm_base_score c cs)))"

definition all_assessments :: "research_result \<Rightarrow> cve_assessment list" where
  "all_assessments d = vr_cves d @ vr_candidates d @ vr_ruled_out d"

definition dossier :: "research_request \<Rightarrow> string list \<Rightarrow> cve_feed_record list \<Rightarrow> bool \<Rightarrow> cve_assessment list \<Rightarrow> research_result" where
  "dossier rq products records stale items =
     (let of_kind = (\<lambda>k. sort_key by_severity (filter (\<lambda>i. va_applicability i = k) items)) in
      \<lparr>vr_investigation_id = vq_investigation_id rq, vr_cves = of_kind Confirmed, vr_candidates = of_kind Candidate,
       vr_ruled_out = of_kind Not_Applicable, vr_source_freshness = oldest_modification records, vr_stale = stale,
       vr_searched_products = products, vr_confidence = dossier_confidence items (vq_assets rq \<noteq> []) stale\<rparr>)"

definition research ::
  "(pyfloat \<Rightarrow> nat \<Rightarrow> pyfloat) \<Rightarrow> (string list \<Rightarrow> string list) \<Rightarrow> 's cve_researcher \<Rightarrow> research_request \<Rightarrow> 's
   \<Rightarrow> (py_error + research_result agent_outcome) \<times> 's" where
  "research fpow set_order a rq s =
     (case threat_context_of set_order (case vq_threat_assessment rq of Some d \<Rightarrow> d | None \<Rightarrow> []) of
        Inl e \<Rightarrow> (Inl e, s)
      | Inr ctx \<Rightarrow>
        let (products, skipped) = products_to_search (cv_max_products a) (vq_assets rq);
            d0 = (if skipped = 0 then [] else [degradation ''search_budget''
                   (show_nat skipped @ '' inventory product(s) exceeded the research budget'')]);
            d1 = (if vq_assets rq \<noteq> [] then [] else [degradation ''no_asset_inventory''
                   ''no asset inventory was supplied, so no CVE can be confirmed applicable -- every finding stays a candidate'']) in
        case collect fpow a (vq_referenced_cve_ids rq) products s of
          (Inl e, s') \<Rightarrow> (Inl e, s')
        | (Inr (records, nts, degraded_lookups), s') \<Rightarrow>
          (and_then (traverse (assess_record (vq_assets rq) ctx) records) (\<lambda>items.
             let stale = (0 < degraded_lookups \<or> list_ex cr_stale records); d = dossier rq products records stale items in
             Inr \<lparr>ao_agent = ''cve_research'', ao_output = d, ao_confidence = vr_confidence d, ao_prompt_version = Some ''1.0.0'',
               ao_tool_calls = [(''fetch_cve'', length (vq_referenced_cve_ids rq)), (''search_cve'', length products),
                 (''assess_applicability'', length items), (''interpret_cvss'', length (filter (\<lambda>r. cr_cvss r \<noteq> None) records))],
               ao_degradations = d0 @ d1 @ nts\<rparr>), s'))"



section \<open>Collecting\<close>

text \<open>What the merged records hold for an identifier: the first live record found, else the first cached one.\<close>

definition preferred :: "cve_feed_record list \<Rightarrow> cve_feed_record option" where
  "preferred rs = (case filter (\<lambda>r. \<not> cr_stale r) rs of r # _ \<Rightarrow> Some r | [] \<Rightarrow> (case rs of [] \<Rightarrow> None | r # _ \<Rightarrow> Some r))"

lemma preferred_snoc:
  "preferred (rs @ [r]) = (case preferred rs of None \<Rightarrow> Some r | Some e \<Rightarrow> if cr_stale e \<and> \<not> cr_stale r then Some r else Some e)"
proof (cases "filter (\<lambda>r. \<not> cr_stale r) rs")
  case Nil
  then have "\<forall>x \<in> set rs. cr_stale x" by (auto simp: filter_empty_conv)
  then show ?thesis using Nil by (cases rs) (auto simp: preferred_def)
next
  case (Cons x xs)
  then have "\<not> cr_stale x" by (metis filter_eq_ConsD)
  then show ?thesis using Cons by (simp add: preferred_def)
qed

text \<open>Live data displaces cached data and is never displaced. After any sequence of finds, the record kept under an
  identifier is the first live record found for it, or the first cached one when none was live; and no identifier is
  kept twice.\<close>

theorem merge_prefers_live:
  "map_of (merge_records found []) i = preferred (filter (\<lambda>r. cve_id r = i) found) \<and>
   distinct (map fst (merge_records found []))"
proof (induction found rule: rev_induct)
  case Nil
  then show ?case by (simp add: merge_records_def preferred_def)
next
  case (snoc r found)
  let ?m = "merge_records found []"
  have m: "merge_records (found @ [r]) [] = merge_one r ?m" by (simp add: merge_records_def)
  have "distinct (map fst (merge_one r ?m))" using snoc by (auto simp: merge_one_def dict_set_distinct split: option.splits)
  moreover have "map_of (merge_one r ?m) i = preferred (filter (\<lambda>r. cve_id r = i) (found @ [r]))"
    using snoc by (auto simp: merge_one_def dict_set_lookup preferred_snoc split: option.splits)
  ultimately show ?case by (simp add: m)
qed

text \<open>The answers a feed may give in any state, and what the corpus yields.\<close>

definition answers :: "'s cve_source \<Rightarrow> cve_feed_record set" where
  "answers src = {r. \<exists>q n s found s'. r \<in> set found \<and>
     (cs_fetch src q s = (Inr (Inr found), s') \<or> cs_search src q n s = (Inr (Inr found), s'))}"

lemma answers_intro:
  "cs_fetch src q s = (Inr (Inr found), s') \<Longrightarrow> r \<in> set found \<Longrightarrow> r \<in> answers src"
  "cs_search src q n s = (Inr (Inr found), s') \<Longrightarrow> r \<in> set found \<Longrightarrow> r \<in> answers src"
  unfolding answers_def by blast+

definition cached_only :: "cve_feed_record \<Rightarrow> bool" where
  "cached_only r = (affected r = [] \<and> cr_source r = Knowledge_Corpus \<and> cr_stale r)"

lemma corpus_record: "r \<in> set (from_corpus fpow kn q) \<Longrightarrow> cached_only r"
  by (auto simp: cached_only_def from_corpus_def records_from_chunk_def Let_def split: option.splits if_splits)

text \<open>What holds of a collection throughout: a record is filed under its identifier; it is an answer of the feed or, if
  some lookup fell back, one from the corpus; and no lookup fell back unless the records say so.\<close>

definition filed :: "cve_feed_record set \<Rightarrow> (string, cve_feed_record) dict \<Rightarrow> bool" where
  "filed R d \<longleftrightarrow> distinct (map fst d) \<and> (\<forall>(k, r) \<in> set d. k = cve_id r \<and> r \<in> R)"

lemma dict_set_entries: "set (dict_set k v d) \<subseteq> insert (k, v) (set d)"
  by (induction k v d rule: dict_set.induct) auto

lemma merge_one_filed: "filed R d \<Longrightarrow> r \<in> R \<Longrightarrow> filed R (merge_one r d)"
  using dict_set_entries[of "cve_id r" r d] by (fastforce simp: filed_def merge_one_def dict_set_distinct split: option.splits)

lemma merge_filed: "filed R d \<Longrightarrow> set found \<subseteq> R \<Longrightarrow> filed R (merge_records found d)"
  unfolding merge_records_def by (induction found arbitrary: d) (simp_all add: merge_one_filed)

lemma filed_mono: "filed R d \<Longrightarrow> R \<subseteq> R' \<Longrightarrow> filed R' d"
  by (auto simp: filed_def)

definition sound_collection :: "'s cve_source \<Rightarrow> collection \<Rightarrow> bool" where
  "sound_collection src c \<longleftrightarrow> filed (answers src \<union> (if gc_fell_back c = [] then {} else Collect cached_only)) (gc_records c)"

lemma fall_back_sound: "sound_collection src c \<Longrightarrow> sound_collection src (fall_back fpow kn q reason c)"
  unfolding sound_collection_def fall_back_def
  by (simp, rule merge_filed, erule filed_mono) (auto dest: corpus_record)

lemma live_sound:
  "sound_collection src c \<Longrightarrow> set found \<subseteq> answers src \<Longrightarrow> sound_collection src (c\<lparr>gc_records := merge_records found (gc_records c)\<rparr>)"
  unfolding sound_collection_def by (simp, intro conjI impI; rule merge_filed) auto

lemma cve_lookup_cases:
  assumes "cve_lookup fpow a q c s = (Inr c', s')"
  shows "(\<exists>found. set found \<subseteq> answers (cv_source a) \<and> c' = c\<lparr>gc_records := merge_records found (gc_records c)\<rparr>) \<or>
    (\<exists>reason. c' = fall_back fpow (cv_knowledge a) (snd q) reason c)"
proof -
  have "(\<exists>found. (cs_fetch (cv_source a) (snd q) s = (Inr (Inr found), s') \<or>
        cs_search (cv_source a) (snd q) (cv_results_per_product a) s = (Inr (Inr found), s')) \<and>
        c' = c\<lparr>gc_records := merge_records found (gc_records c)\<rparr>) \<or> (\<exists>reason. c' = fall_back fpow (cv_knowledge a) (snd q) reason c)"
    using assms by (auto simp: cve_lookup_def Let_def split: prod.splits if_splits sum.splits)
  then show ?thesis using answers_intro by (metis subsetI)
qed

lemma lookup_sound:
  assumes "cve_lookup fpow a q c s = (Inr c', s')" "sound_collection (cv_source a) c"
  shows "sound_collection (cv_source a) c' \<and> length (gc_fell_back c) \<le> length (gc_fell_back c')"
  using cve_lookup_cases[OF assms(1)]
proof (elim disjE exE conjE)
  fix reason assume "c' = fall_back fpow (cv_knowledge a) (snd q) reason c"
  then show ?thesis using fall_back_sound[OF assms(2)] by (simp add: fall_back_def)
next
  fix found assume "set found \<subseteq> answers (cv_source a)" "c' = c\<lparr>gc_records := merge_records found (gc_records c)\<rparr>"
  then show ?thesis using live_sound[OF assms(2)] by simp
qed

lemma lookups_sound:
  assumes "lookups fpow a qs c s = (Inr c', s')" "sound_collection (cv_source a) c"
  shows "sound_collection (cv_source a) c' \<and> length (gc_fell_back c) \<le> length (gc_fell_back c')"
  using assms
proof (induction fpow a qs c s rule: lookups.induct)
  case (2 fpow a q qs c s)
  obtain c1 s1 where l: "cve_lookup fpow a q c s = (Inr c1, s1)" "lookups fpow a qs c1 s1 = (Inr c', s')"
    using 2(2) by (auto split: prod.splits sum.splits)
  then show ?case using lookup_sound[OF l(1) 2(3)] "2.IH"[of "Inr c1" s1] by fastforce
qed simp

lemma collect_sound:
  assumes "collect fpow a ids products s = (Inr (records, nts, n), s')"
  shows "distinct (map cve_id records) \<and> set records \<subseteq> answers (cv_source a) \<union> (if n = 0 then {} else Collect cached_only)"
proof -
  obtain c where c: "lookups fpow a (map (Pair True) ids @ map (Pair False) products) empty_collection s = (Inr c, s')"
      "records = map snd (gc_records c)" "n = length (gc_fell_back c)"
    using assms by (auto simp: collect_def split: prod.splits sum.splits)
  have "sound_collection (cv_source a) empty_collection" by (simp add: sound_collection_def filed_def empty_collection_def)
  then have f: "filed (answers (cv_source a) \<union> (if n = 0 then {} else Collect cached_only)) (gc_records c)"
    using lookups_sound[OF c(1)] c(3) by (simp add: sound_collection_def)
  then have "map cve_id records = map fst (gc_records c)" using c(2) by (auto simp: filed_def)
  then have "distinct (map cve_id records)" using f by (simp only: filed_def)
  then show ?thesis using f unfolding c(2) filed_def by auto
qed

lemma research_fields:
  assumes "research fpow set_order a rq s = (Inr oc, s')" and d: "d = ao_output oc"
  shows "\<exists>ctx records nts n items.
    collect fpow a (vq_referenced_cve_ids rq) (fst (products_to_search (cv_max_products a) (vq_assets rq))) s = (Inr (records, nts, n), s') \<and>
    traverse (assess_record (vq_assets rq) ctx) records = Inr items \<and>
    d = dossier rq (fst (products_to_search (cv_max_products a) (vq_assets rq))) records (0 < n \<or> list_ex cr_stale records) items"
proof -
  obtain ctx where ctx: "threat_context_of set_order (case vq_threat_assessment rq of Some d \<Rightarrow> d | None \<Rightarrow> []) = Inr ctx"
    using assms by (auto simp: research_def split: sum.splits)
  obtain ps sk where ps: "products_to_search (cv_max_products a) (vq_assets rq) = (ps, sk)" by fastforce
  obtain records nts n where c: "collect fpow a (vq_referenced_cve_ids rq) ps s = (Inr (records, nts, n), s')"
    using assms by (auto simp: research_def ctx ps split: prod.splits sum.splits)
  have "\<exists>items. traverse (assess_record (vq_assets rq) ctx) records = Inr items \<and>
      d = dossier rq ps records (0 < n \<or> list_ex cr_stale records) items"
    using assms by (auto simp: research_def ctx ps c and_then_Inr Let_def)
  then show ?thesis unfolding ps fst_conv using c by blast
qed

section \<open>What a dossier claims\<close>

lemma mset_by_kind:
  "mset (filter (\<lambda>i. va_applicability i = Confirmed) xs @ filter (\<lambda>i. va_applicability i = Candidate) xs
     @ filter (\<lambda>i. va_applicability i = Not_Applicable) xs) = mset xs"
proof (induction xs)
  case (Cons x xs)
  then show ?case by (cases "va_applicability x") auto
qed simp

lemma assess_record_facts:
  assumes "assess_record assets ctx r = Inr i"
  shows "va_record i = r" "assess_applicability (cve_record.truncate r) assets = (va_applicability i, va_evidence i)"
    "confirmed_requires_asset_and_version (va_applicability i) (va_evidence i)"
  using assms by (auto simp: assess_record_def Let_def split: prod.splits if_splits)

lemma assessed_records: "traverse (assess_record assets ctx) records = Inr items \<Longrightarrow> map va_record items = records"
  by (induction records arbitrary: items) (auto simp: and_then_Inr assess_record_facts(1))

text \<open>A dossier accounts for every record exactly once. Its three lists together hold one assessment for each record
  collected, in the list its applicability names, each list worst first with identifiers breaking ties; and no
  vulnerability appears twice.\<close>

theorem dossier_files_every_record:
  assumes "research fpow set_order a rq s = (Inr oc, s')" and d: "d = ao_output oc"
  shows "\<exists>records nts n. collect fpow a (vq_referenced_cve_ids rq) (vr_searched_products d) s = (Inr (records, nts, n), s') \<and>
    mset (map va_record (all_assessments d)) = mset records \<and> distinct (map (cve_id \<circ> va_record) (all_assessments d)) \<and>
    (\<forall>(k, xs) \<in> {(Confirmed, vr_cves d), (Candidate, vr_candidates d), (Not_Applicable, vr_ruled_out d)}.
       sorted (map by_severity xs) \<and>
       (\<forall>i \<in> set xs. va_applicability i = k \<and> fst (assess_applicability (cve_record.truncate (va_record i)) (vq_assets rq)) = k))"
proof -
  obtain ctx records nts n items where
    c: "collect fpow a (vq_referenced_cve_ids rq) (fst (products_to_search (cv_max_products a) (vq_assets rq))) s = (Inr (records, nts, n), s')"
    and t: "traverse (assess_record (vq_assets rq) ctx) records = Inr items"
    and d': "d = dossier rq (fst (products_to_search (cv_max_products a) (vq_assets rq))) records (0 < n \<or> list_ex cr_stale records) items"
    using research_fields[OF assms] by blast
  have "mset (all_assessments d) = mset items" using mset_by_kind[of items] by (simp add: d' all_assessments_def dossier_def Let_def)
  then have m: "mset (map va_record (all_assessments d)) = mset records" using assessed_records[OF t] by (metis mset_map)
  then have "mset (map (cve_id \<circ> va_record) (all_assessments d)) = mset (map cve_id records)"
    by (metis list.map_comp mset_map)
  then have "distinct (map (cve_id \<circ> va_record) (all_assessments d))"
    using collect_sound[OF c] by (metis mset_eq_imp_distinct_iff)
  moreover have "fst (assess_applicability (cve_record.truncate (va_record i)) (vq_assets rq)) = va_applicability i" if "i \<in> set items" for i
    using traverse_mem[OF t that] assess_record_facts by (metis fst_conv)
  ultimately show ?thesis using c m unfolding d' by (auto simp: dossier_def Let_def)
qed

text \<open>C6: A confirmation is live and evidenced. Every vulnerability a dossier confirms is a record the feed itself returned,
  never one recovered from the corpus, and carries evidence naming a host, a product and an installed version that lies
  inside a published range; and a dossier that is not marked stale holds nothing but live, current records.\<close>

theorem confirmed_is_live_and_evidenced:
  assumes "research fpow set_order a rq s = (Inr oc, s')" and d: "d = ao_output oc"
  shows "(\<forall>i \<in> set (vr_cves d). va_record i \<in> answers (cv_source a) \<and>
      (\<exists>e \<in> set (va_evidence i). ae_reason e = Version_In_Vulnerable_Range \<and> truthy (ae_hostname e) \<and> truthy (ae_product e)
         \<and> truthy (ae_installed_version e))) \<and>
    (vr_stale d \<or> (\<forall>i \<in> set (all_assessments d). va_record i \<in> answers (cv_source a) \<and> \<not> cr_stale (va_record i)))"
proof -
  obtain ctx records nts n items where
    c: "collect fpow a (vq_referenced_cve_ids rq) (fst (products_to_search (cv_max_products a) (vq_assets rq))) s = (Inr (records, nts, n), s')"
    and t: "traverse (assess_record (vq_assets rq) ctx) records = Inr items"
    and d': "d = dossier rq (fst (products_to_search (cv_max_products a) (vq_assets rq))) records (0 < n \<or> list_ex cr_stale records) items"
    using research_fields[OF assms] by blast
  have known: "va_record i \<in> set records" if "i \<in> set items" for i using that assessed_records[OF t] by (metis image_eqI set_map)
  have origin: "r \<in> answers (cv_source a) \<or> cached_only r" "n = 0 \<Longrightarrow> r \<in> answers (cv_source a)" if "r \<in> set records" for r
    using collect_sound[OF c] that by (auto split: if_splits)
  have "va_record i \<in> answers (cv_source a) \<and> confirmed_requires_asset_and_version Confirmed (va_evidence i)" if "i \<in> set (vr_cves d)" for i
  proof -
    have i: "i \<in> set items" "va_applicability i = Confirmed" using that by (simp_all add: d' dossier_def Let_def)
    obtain r where r: "assess_record (vq_assets rq) ctx r = Inr i" using traverse_mem[OF t i(1)] by blast
    have "affected r \<noteq> []" using assess_record_facts(2)[OF r] i(2) by (auto simp: assess_applicability_def cve_record.truncate_def)
    then have "\<not> cached_only (va_record i)" using assess_record_facts(1)[OF r] by (simp add: cached_only_def)
    then show ?thesis using origin(1)[OF known[OF i(1)]] assess_record_facts(3)[OF r] i(2) by simp
  qed
  moreover have "vr_stale d \<or> (\<forall>i \<in> set items. va_record i \<in> answers (cv_source a) \<and> \<not> cr_stale (va_record i))"
    using known origin(2) by (auto simp: d' dossier_def list_ex_iff)
  moreover have "set (all_assessments d) \<subseteq> set items" by (auto simp: d' all_assessments_def dossier_def Let_def)
  ultimately show ?thesis by (auto simp: confirmed_requires_asset_and_version_def list_ex_iff)
qed

lemma blind_lookups:
  assumes "\<forall>s. \<not> cs_available (cv_source a) s" "gc_fell_back c = pre" "filed (Collect cached_only) (gc_records c)"
  shows "\<exists>c'. lookups fpow a qs c s = (Inr c', s) \<and> gc_fell_back c' = pre @ map snd qs \<and> filed (Collect cached_only) (gc_records c')"
  using assms(2,3)
proof (induction qs arbitrary: c pre)
  case (Cons q qs)
  let ?c1 = "fall_back fpow (cv_knowledge a) (snd q) ''not_configured'' c"
  have l: "cve_lookup fpow a q c s = (Inr ?c1, s)" using assms(1) by (simp add: cve_lookup_def Let_def case_prod_beta)
  have "filed (Collect cached_only) (gc_records ?c1)" using Cons(3) corpus_record by (auto simp: fall_back_def intro!: merge_filed)
  then show ?case using Cons(1)[of ?c1 "pre @ [snd q]"] Cons(2) l by (simp add: fall_back_def)
qed simp

text \<open>C31: Not being able to look never reads as having looked. When the feed is unavailable throughout, a returned dossier
  confirms nothing and rules nothing out; if anything was to be looked up it is marked stale, and the shortfall is
  recorded among the degradations, even when the corpus recovered nothing.\<close>

theorem blind_research:
  assumes "\<forall>s. \<not> cs_available (cv_source a) s" "research fpow set_order a rq s = (Inr oc, s')" and d: "d = ao_output oc"
  shows "vr_cves d = [] \<and> vr_ruled_out d = [] \<and>
    (vq_referenced_cve_ids rq = [] \<and> vr_searched_products d = [] \<or>
     vr_stale d \<and> ''live_feed_unavailable'' \<in> ag_reason ` set (ao_degradations oc))"
proof -
  let ?ps = "fst (products_to_search (cv_max_products a) (vq_assets rq))"
  obtain ctx records nts n items where
    c: "collect fpow a (vq_referenced_cve_ids rq) ?ps s = (Inr (records, nts, n), s')"
    and t: "traverse (assess_record (vq_assets rq) ctx) records = Inr items"
    and d': "d = dossier rq ?ps records (0 < n \<or> list_ex cr_stale records) items"
    using research_fields[OF assms(2,3)] by blast
  let ?qs = "map (Pair True) (vq_referenced_cve_ids rq) @ map (Pair False) ?ps"
  obtain c' where c': "lookups fpow a ?qs empty_collection s = (Inr c', s)" "gc_fell_back c' = map snd ?qs" "filed (Collect cached_only) (gc_records c')"
    using blind_lookups[OF assms(1), of empty_collection "[]" fpow ?qs s] by (auto simp: empty_collection_def filed_def)
  have col: "records = map snd (gc_records c')" "n = length ?qs"
      "nts = (if ?qs = [] then [] else [shortfall_note c' (length (vq_referenced_cve_ids rq) + length ?ps)])"
    using c c' by (auto simp: collect_def split: if_splits)
  have "va_applicability i = Candidate" if i: "i \<in> set items" for i
  proof -
    obtain r where r: "r \<in> set records" "assess_record (vq_assets rq) ctx r = Inr i" using traverse_mem[OF t i] by blast
    have "affected r = []" using r(1) c'(3) by (auto simp: col filed_def cached_only_def)
    then show ?thesis using assess_record_facts(2)[OF r(2)] by (simp add: assess_applicability_def cve_record.truncate_def)
  qed
  then have "vr_cves d = []" "vr_ruled_out d = []" by (auto simp: d' dossier_def Let_def filter_empty_conv)
  moreover have "set nts \<subseteq> set (ao_degradations oc)"
    using assms(2) c by (auto simp: research_def and_then_Inr Let_def split: prod.splits sum.splits)
  moreover have "?qs \<noteq> [] \<Longrightarrow> ''live_feed_unavailable'' \<in> ag_reason ` set nts"
    by (simp add: col(3) shortfall_note_def degradation_def)
  moreover have "?qs \<noteq> [] \<Longrightarrow> vr_stale d" by (auto simp: d' dossier_def Let_def col(2))
  moreover have "vr_searched_products d = ?ps" by (simp add: d' dossier_def Let_def)
  ultimately show ?thesis by (cases "?qs = []") auto
qed

section \<open>Confidence\<close>

lemma adjusted_mono: "0 \<le> x \<Longrightarrow> x \<le> y \<Longrightarrow> adjusted_confidence st un mp x \<le> adjusted_confidence st un mp y"
proof -
  assume xy: "0 \<le> x" "x \<le> y"
  have f: "0 \<le> STALE_CONFIDENCE" "0 \<le> rnd (9/10)" by (simp_all add: STALE_CONFIDENCE_def rnd_nonneg)
  let ?s = "\<lambda>z. if st then rnd (z * STALE_CONFIDENCE) else z"
  let ?u = "\<lambda>z. if un then rnd (?s z * rnd (9/10)) else ?s z"
  have s: "0 \<le> ?s x" "?s x \<le> ?s y" using xy f by (auto intro!: rnd_nonneg rnd_mult_mono)
  have u: "?u x \<le> ?u y" using s f rnd_mult_mono[OF s(1,2) f(2) order_refl] by auto
  have "(if mp then min 1 (rnd (?u x + rnd (5/100))) else ?u x) \<le> (if mp then min 1 (rnd (?u y + rnd (5/100))) else ?u y)"
    using min.mono[OF order_refl[of 1] rnd_mono[OF add_right_mono[OF u]], of "rnd (5/100)"] u by (cases mp) (simp_all only: if_True if_False)
  then show ?thesis unfolding adjusted_confidence_def Let_def by (rule unit_round_mono)
qed

lemma candidate_at_most: "0 \<le> base_confidence Candidate R \<and> base_confidence Candidate R \<le> 1/2"
proof -
  have "rnd (1/2) = 1/2" by code_simp
  then have "rnd x \<le> 1/2" if "x \<le> 1/2" for x using rnd_mono[OF that] by simp
  then show ?thesis by (simp add: base_confidence_def rnd_nonneg)
qed

text \<open>Confirmed applicability dominates. However stale, unscored or unrelated to the observed activity a confirmed
  vulnerability is, and however well supported a candidate is, the confirmation carries the higher confidence; and every
  confidence is a probability.\<close>

theorem confirmation_outweighs_candidate:
  "assessment_confidence r' Candidate evidence' m' < assessment_confidence r Confirmed evidence m \<and>
   0 \<le> assessment_confidence r app evidence m \<and> assessment_confidence r app evidence m \<le> 1"
proof -
  have low: "adjusted_confidence st un mp (1/2) \<le> adjusted_confidence False False True (1/2)" for st un mp
    by (cases st; cases un; cases mp; simp; code_simp)
  have high: "adjusted_confidence True True False (rnd (9/10)) \<le> adjusted_confidence st un mp (rnd (9/10))" for st un mp
    by (cases st; cases un; cases mp; simp; code_simp)
  have gap: "adjusted_confidence False False True (1/2) < adjusted_confidence True True False (rnd (9/10))" by code_simp
  have "assessment_confidence r' Candidate evidence' m' \<le>
      adjusted_confidence (cr_stale r') (cr_cvss r' = None) (\<not> mapping_is_empty m') (1/2)"
    unfolding assessment_confidence_def by (rule adjusted_mono[OF conjunct1[OF candidate_at_most] conjunct2[OF candidate_at_most]])
  also note low
  also note gap
  also note high
  finally have "assessment_confidence r' Candidate evidence' m' < assessment_confidence r Confirmed evidence m"
    unfolding assessment_confidence_def base_confidence_def cve_applicability.case .
  then show ?thesis by (simp add: assessment_confidence_def adjusted_confidence_def Let_def unit_round_bounds)
qed

section \<open>Witnesses\<close>

definition sample_cve :: cve_feed_record where
  "sample_cve = \<lparr>cve_id = ''CVE-2021-44228'', affected = [\<lparr>ar_product = ''log4j'', ar_vendor = None, version_start_including = None,
     version_start_excluding = None, version_end_including = None, version_end_excluding = Some ''2.15.0''\<rparr>], cr_title = [],
     cr_summary = [], cr_cvss = None, cr_cwe_ids = [], cr_references = [], cr_published_at = None, cr_modified_at = None,
     cr_source = Nvd, cr_stale = False\<rparr>"

definition sample_source :: "unit cve_source" where
  "sample_source = \<lparr>cs_available = (\<lambda>_. True), cs_fetch = (\<lambda>q s. (Inr (Inr []), s)), cs_search = (\<lambda>q n s. (Inr (Inr [sample_cve]), s))\<rparr>"

definition sample_researcher :: "unit cve_source \<Rightarrow> unit cve_researcher" where
  "sample_researcher src = \<lparr>cv_source = src, cv_knowledge = None, cv_max_products = 12, cv_results_per_product = 10\<rparr>"

definition sample_research :: research_request where
  "sample_research = \<lparr>vq_investigation_id = ''inv'', vq_threat_assessment = None,
     vq_assets = [\<lparr>hostname = ''web01'', operating_system = None, software = [\<lparr>sw_product = ''log4j'', sw_version = Some ''2.14.1''\<rparr>],
       environment = None\<rparr>], vq_referenced_cve_ids = []\<rparr>"

definition sample_dossier :: "research_result agent_outcome" where
  "sample_dossier = (case research (\<lambda>x n. x) (\<lambda>xs. xs) (sample_researcher sample_source) sample_research () of (Inr oc, _) \<Rightarrow> oc)"

lemma sample_applies:
  "case assess_applicability (cve_record.truncate sample_cve) (vq_assets sample_research) of (app, evidence) \<Rightarrow>
     app = Confirmed \<and> confirmed_requires_asset_and_version app evidence"
  by code_simp

lemma sample_run:
  "research (\<lambda>x n. x) (\<lambda>xs. xs) (sample_researcher sample_source) sample_research () = (Inr sample_dossier, ()) \<and>
   map (cve_id \<circ> va_record) (vr_cves (ao_output sample_dossier)) = [''CVE-2021-44228'']"
proof -
  obtain ctx where ctx: "threat_context_of (\<lambda>xs. xs) (case vq_threat_assessment sample_research of Some d \<Rightarrow> d | None \<Rightarrow> []) = Inr ctx"
    by (simp add: sample_research_def threat_context_of_def pget_def as_dicts_def Let_def)
  obtain i where i: "assess_record (vq_assets sample_research) ctx sample_cve = Inr i" "va_applicability i = Confirmed" "va_record i = sample_cve"
    using sample_applies by (auto simp: assess_record_def Let_def split: prod.splits)
  have p: "products_to_search (cv_max_products (sample_researcher sample_source)) (vq_assets sample_research) = ([''log4j''], 0)" by code_simp
  have "case collect (\<lambda>x n. x) (sample_researcher sample_source) (vq_referenced_cve_ids sample_research) [''log4j''] () of
     (Inr (records, _), _) \<Rightarrow> records = [sample_cve] | _ \<Rightarrow> False"
    by (simp add: collect_def sample_research_def sample_researcher_def sample_source_def cve_lookup_def empty_collection_def
        merge_records_def merge_one_def Let_def)
  then obtain nts n where c: "collect (\<lambda>x n. x) (sample_researcher sample_source) (vq_referenced_cve_ids sample_research) [''log4j''] ()
      = (Inr ([sample_cve], nts, n), ())" by (auto split: prod.splits sum.splits)
  show ?thesis unfolding sample_dossier_def using i
    by (simp add: research_def ctx p c dossier_def Let_def) (simp add: sample_cve_def)
qed

theorem dossier_files_every_record_witness:
  "\<exists>oc records. research (\<lambda>x n. x) (\<lambda>xs. xs) (sample_researcher sample_source) sample_research () = (Inr oc, ()) \<and>
     mset (map va_record (all_assessments (ao_output oc))) = mset records \<and> length (vr_cves (ao_output oc)) = 1"
proof -
  have "length (vr_cves (ao_output sample_dossier)) = 1" using sample_run by (metis length_map length_Cons list.size(3) One_nat_def)
  then show ?thesis using dossier_files_every_record[OF conjunct1[OF sample_run] refl] sample_run by blast
qed

theorem confirmed_is_live_and_evidenced_witness:
  "\<exists>oc i. research (\<lambda>x n. x) (\<lambda>xs. xs) (sample_researcher sample_source) sample_research () = (Inr oc, ()) \<and>
     i \<in> set (vr_cves (ao_output oc)) \<and> va_record i \<in> answers sample_source"
proof -
  obtain i where "i \<in> set (vr_cves (ao_output sample_dossier))" using sample_run by (cases "vr_cves (ao_output sample_dossier)") auto
  then show ?thesis using confirmed_is_live_and_evidenced[OF conjunct1[OF sample_run] refl] sample_run
    by (auto simp: sample_researcher_def)
qed

definition blind_dossier :: "research_result agent_outcome" where
  "blind_dossier = (case research (\<lambda>x n. x) (\<lambda>xs. xs) (sample_researcher unavailable_source) sample_research () of (Inr oc, _) \<Rightarrow> oc)"

theorem blind_research_witness:
  "research (\<lambda>x n. x) (\<lambda>xs. xs) (sample_researcher unavailable_source) sample_research () = (Inr blind_dossier, ()) \<and>
   vr_cves (ao_output blind_dossier) = [] \<and> vr_stale (ao_output blind_dossier)"
proof -
  have "case research (\<lambda>x n. x) (\<lambda>xs. xs) (sample_researcher unavailable_source) sample_research () of
     (Inl _, _) \<Rightarrow> False | (Inr oc, _) \<Rightarrow> vr_searched_products (ao_output oc) = [''log4j'']" by code_simp
  then have r: "research (\<lambda>x n. x) (\<lambda>xs. xs) (sample_researcher unavailable_source) sample_research () = (Inr blind_dossier, ())"
      "vr_searched_products (ao_output blind_dossier) = [''log4j'']"
    unfolding blind_dossier_def by (auto split: prod.splits sum.splits)
  have "\<forall>s. \<not> cs_available (cv_source (sample_researcher unavailable_source)) s"
    by (simp add: sample_researcher_def unavailable_source_def Let_def)
  then show ?thesis using blind_research[OF _ r(1) refl] r by simp
qed

end
