(* ===== verification/Graph_State.thy ===== *)
theory Graph_State
  imports Domain Py_Value
begin

text \<open>
  The investigation graph's shared state and its reducers (\<^verbatim>\<open>graph/state.py\<close>). A checkpointed value is
  a JSON-like Python value (\<open>pyval\<close> of \<open>Py_Value\<close>); a sub-state is an insertion-ordered dictionary of such values.
  Shown here: the history reducer numbers transitions consecutively, a sub-state merge appends lists,
  merges mappings and overwrites scalars key by key, and updates to different keys commute.
\<close>

section \<open>Reducers\<close>

record node_transition =
  sequence :: nat
  tr_node :: string
  tr_owner :: string
  tr_status :: string
  tr_detail :: string

record graph_error_record =
  err_node :: string
  err_error :: string
  err_message :: string

definition extend_history :: "node_transition list \<Rightarrow> node_transition list \<Rightarrow> node_transition list" where
  "extend_history current incoming =
     current @ map (\<lambda>(index, tr). tr\<lparr>sequence := length current + index\<rparr>) (enumerate 0 incoming)"

definition append_list :: "'a list \<Rightarrow> 'a list \<Rightarrow> 'a list" where
  "append_list current incoming = current @ incoming"

function merge_value :: "pyval \<Rightarrow> pyval \<Rightarrow> pyval" and merge_mapping :: "mapping \<Rightarrow> mapping \<Rightarrow> mapping" where
  "merge_value current incoming = (case (current, incoming) of
     (PList xs, PList ys) \<Rightarrow> PList (xs @ ys)
   | (PDict c, PDict i) \<Rightarrow> PDict (merge_mapping c i)
   | _ \<Rightarrow> incoming)"
| "merge_mapping result incoming = (case incoming of
     [] \<Rightarrow> result
   | (key, value) # rest \<Rightarrow>
       merge_mapping
         (dict_set key (case map_of result key of Some old \<Rightarrow> merge_value old value | None \<Rightarrow> value) result)
         rest)"
  by pat_completeness auto
termination
  by (relation "measure (case_sum (\<lambda>(c, i). 2 * size i) (\<lambda>(c, i). 2 * size_list (size_prod (\<lambda>_. 0) size) i + 1))") auto

declare merge_value.simps [simp del] merge_mapping.simps [simp del]

definition merge_substate :: "mapping \<Rightarrow> mapping \<Rightarrow> mapping" where
  "merge_substate current incoming = merge_mapping current incoming"


section \<open>The composed state\<close>

record graph_state =
  schema_version :: int
  investigation_id :: string
  trigger_source :: string
  g_status :: string
  current_node :: string
  config_snapshot :: mapping
  created_at :: string
  updated_at :: string
  node_history :: "node_transition list"
  errors :: "graph_error_record list"
  shared :: mapping
  agents :: mapping
  evidence :: mapping
  investigation :: mapping
  report_state :: mapping
  notification :: mapping
  conversation :: mapping

definition STATE_SCHEMA_VERSION :: int where
  "STATE_SCHEMA_VERSION = 2"

definition setdefault :: "string \<Rightarrow> pyval \<Rightarrow> mapping \<Rightarrow> mapping" where
  "setdefault k v d = (if map_of d k = None then dict_set k v d else d)"

definition new_state :: "string \<Rightarrow> string \<Rightarrow> mapping \<Rightarrow> string \<Rightarrow> mapping option \<Rightarrow> mapping list option \<Rightarrow> graph_state" where
  "new_state inv_id trigger snapshot created ev assets =
     (let e = (case ev of Some d \<Rightarrow> d | None \<Rightarrow> []);
          listed = (\<lambda>k. PList (as_list (pget_or e k (PList []))))
      in \<lparr>schema_version = STATE_SCHEMA_VERSION,
          investigation_id = inv_id,
          trigger_source = trigger,
          g_status = status_value St_Open,
          current_node = [],
          config_snapshot = setdefault ''schema_version'' (PInt STATE_SCHEMA_VERSION) snapshot,
          created_at = created,
          updated_at = created,
          node_history = [],
          errors = [],
          shared = [(''retrieved_context'', PList []), (''entities'', PList []),
                    (''assets'', PList (map PDict (case assets of Some xs \<Rightarrow> xs | None \<Rightarrow> []))),
                    (''working_notes'', PList [])],
          agents = [],
          evidence = [(''raw_records'', listed ''raw_records''),
                      (''requested_sources'', listed ''requested_sources''),
                      (''source_failures'', listed ''source_failures''),
                      (''time_window'', pget e ''time_window'')],
          investigation = [(''normalized_events'', PList []), (''timeline'', PList []),
                           (''threat_assessment'', PNone), (''vulnerability_dossier'', PNone),
                           (''remediation_plan'', PNone), (''coverage_gaps'', PList [])],
          report_state = [(''executive_summary'', PNone), (''technical_report'', PNone),
                    (''citations'', PList []), (''report_status'', PNone)],
          notification = [(''pending'', PList []), (''sent'', PList []), (''channel_results'', PList [])],
          conversation = [(''messages'', PList []), (''human_decisions'', PList []), (''open_questions'', PList [])]\<rparr>)"

text \<open>
  A node's returned update: the channels it names. Each is folded into the state by its channel's
  annotation: the reducer for history, errors and sub-states, the last value for the rest.
\<close>

record node_update =
  u_status :: "string option"
  u_current_node :: string
  u_updated_at :: string
  u_investigation :: mapping
  u_report :: mapping
  u_agents :: mapping
  u_notification :: mapping
  u_conversation :: mapping
  u_node_history :: "node_transition list"

definition apply_update :: "graph_state \<Rightarrow> node_update \<Rightarrow> graph_state" where
  "apply_update s u = s\<lparr>
     g_status := (case u_status u of Some st \<Rightarrow> st | None \<Rightarrow> g_status s),
     current_node := u_current_node u,
     updated_at := u_updated_at u,
     node_history := extend_history (node_history s) (u_node_history u),
     investigation := merge_substate (investigation s) (u_investigation u),
     report_state := merge_substate (report_state s) (u_report u),
     agents := merge_substate (agents s) (u_agents u),
     notification := merge_substate (notification s) (u_notification u),
     conversation := merge_substate (conversation s) (u_conversation u)\<rparr>"


section \<open>Facts\<close>

lemma enumerate_shift_seq:
  "map (\<lambda>x. n + fst x) (enumerate k xs) = [n + k ..< n + k + length xs]"
  by (induction xs arbitrary: k) (auto simp: upt_rec)

lemma extend_history_numbered [simp]:
  "map sequence current = [0..<length current] \<Longrightarrow>
   map sequence (extend_history current incoming) = [0..<length (extend_history current incoming)]"
proof -
  assume "map sequence current = [0..<length current]"
  moreover have "map (sequence \<circ> (\<lambda>(i, tr). tr\<lparr>sequence := length current + i\<rparr>)) (enumerate 0 incoming)
      = [length current ..< length current + length incoming]"
    using enumerate_shift_seq[of "length current" 0 incoming] by (simp add: comp_def case_prod_beta)
  ultimately show ?thesis
    by (simp add: extend_history_def upt_add_eq_append[of 0 "length current"])
qed

lemma length_extend_history [simp]: "length (extend_history c i) = length c + length i"
  by (simp add: extend_history_def)

lemma extend_history_nodes [simp]: "map tr_node (extend_history c i) = map tr_node c @ map tr_node i"
proof -
  have "map (\<lambda>x. tr_node (snd x)) (enumerate k xs) = map tr_node xs" for k xs
    by (induction xs arbitrary: k) auto
  then show ?thesis by (simp add: extend_history_def comp_def case_prod_beta)
qed

lemma merge_mapping_Nil [simp]: "merge_mapping r [] = r"
  by (simp add: merge_mapping.simps)

lemma merge_mapping_Cons: "merge_mapping r ((k, v) # rest) =
    merge_mapping (dict_set k (case map_of r k of Some old \<Rightarrow> merge_value old v | None \<Rightarrow> v) r) rest"
  by (subst merge_mapping.simps) simp

text \<open>What a merge leaves under a key, for an update with distinct keys.\<close>

lemma merge_mapping_lookup:
  "distinct (map fst inc) \<Longrightarrow> map_of (merge_mapping cur inc) k = (case map_of inc k of
     None \<Rightarrow> map_of cur k
   | Some v \<Rightarrow> Some (case map_of cur k of Some old \<Rightarrow> merge_value old v | None \<Rightarrow> v))"
proof (induction inc arbitrary: cur)
  case Nil
  then show ?case by simp
next
  case (Cons a inc)
  obtain k' v where a: "a = (k', v)" by force
  have "k' = k \<Longrightarrow> map_of inc k = None" using Cons.prems a by (auto simp: map_of_eq_None_iff)
  then show ?case using Cons a by (auto simp: merge_mapping_Cons dict_set_lookup split: option.splits)
qed

lemma merge_substate_lookup:
  "distinct (map fst inc) \<Longrightarrow> map_of (merge_substate cur inc) k = (case map_of inc k of
     None \<Rightarrow> map_of cur k
   | Some v \<Rightarrow> Some (case map_of cur k of Some old \<Rightarrow> merge_value old v | None \<Rightarrow> v))"
  unfolding merge_substate_def by (rule merge_mapping_lookup)

lemma merge_substate_other:
  "k \<notin> fst ` set inc \<Longrightarrow> map_of (merge_substate cur inc) k = map_of cur k"
  unfolding merge_substate_def
  by (induction inc arbitrary: cur) (auto simp: merge_mapping_Cons dict_set_lookup)

lemma merge_lists [simp]: "merge_value (PList xs) (PList ys) = PList (xs @ ys)"
  and merge_scalar_PNone [simp]: "merge_value PNone v = v"
  by (simp_all add: merge_value.simps split: pyval.splits)

lemma merge_substate_Nil [simp]: "merge_substate c [] = c"
  by (simp add: merge_substate_def)


section \<open>Properties\<close>

text \<open>Merging an update into a sub-state: a key the update does not name keeps its value; a named list is
  appended to the list already there, a named mapping is merged into the mapping already there, and any other
  value replaces it.\<close>

theorem merge_substate_per_key:
  assumes "distinct (map fst inc)"
  shows "map_of (merge_substate cur inc) k = (case (map_of cur k, map_of inc k) of
     (old, None) \<Rightarrow> old
   | (Some (PList xs), Some (PList ys)) \<Rightarrow> Some (PList (xs @ ys))
   | (Some (PDict c), Some (PDict i)) \<Rightarrow> Some (PDict (merge_substate c i))
   | (_, Some v) \<Rightarrow> Some v)"
  unfolding merge_substate_lookup[OF assms] merge_value.simps
  by (auto simp: merge_substate_def split: option.split pyval.split)

theorem merge_substate_per_key_witness:
  "map_of (merge_substate [(''gaps'', PList [PInt 1]), (''plan'', PNone)]
     [(''gaps'', PList [PInt 2]), (''plan'', PStr ''p'')]) ''gaps'' = Some (PList [PInt 1, PInt 2])"
  using merge_substate_per_key[of "[(''gaps'', PList [PInt 2]), (''plan'', PStr ''p'')]"
      "[(''gaps'', PList [PInt 1]), (''plan'', PNone)]" "''gaps''"] by simp

text \<open>Writer isolation: two updates that name different keys give the same sub-state in either order.\<close>

theorem merge_disjoint_commutes:
  assumes "distinct (map fst a)" "distinct (map fst b)" "fst ` set a \<inter> fst ` set b = {}"
  shows "map_of (merge_substate (merge_substate cur a) b) = map_of (merge_substate (merge_substate cur b) a)"
proof
  fix k
  have "map_of a k = None \<or> map_of b k = None"
    using assms(3) by (auto simp: map_of_eq_None_iff)
  then show "map_of (merge_substate (merge_substate cur a) b) k = map_of (merge_substate (merge_substate cur b) a) k"
    by (cases "map_of a k"; cases "map_of b k")
       (simp_all add: merge_substate_lookup[OF assms(1)] merge_substate_lookup[OF assms(2)])
qed

theorem merge_disjoint_commutes_witness:
  "map_of (merge_substate (merge_substate [] [(''log_analyzer'', PInt 1)]) [(''threat_detector'', PInt 2)]) =
   map_of (merge_substate (merge_substate [] [(''threat_detector'', PInt 2)]) [(''log_analyzer'', PInt 1)])"
  using merge_disjoint_commutes[of "[(''log_analyzer'', PInt 1)]" "[(''threat_detector'', PInt 2)]" "[]"] by simp

end
