(* ===== verification/Graph_Nodes.thy ===== *)
theory Graph_Nodes
  imports Graph_State Cve_Text
begin

text \<open>
  The nodes of the investigation graph (\<^verbatim>\<open>graph/nodes.py\<close>) with their registry
  (\<^verbatim>\<open>graph/registry.py\<close>). A node reads the state and returns the update it writes. The five agents are
  the fields of \<open>agent_suite\<close>: each takes the request its node builds and returns an outcome or an
  error, so what is proved of the graph holds whatever the agents answer. Wall-clock stamps are the
  argument \<open>now\<close>.
\<close>

section \<open>Node identifiers\<close>

datatype node = Ingest_Seed | Log_Analysis | Threat_Detection | Cve_Research | Report
  | Remediation | Triage | Human_Gate | Notify | Close

fun node_name :: "node \<Rightarrow> string" where
  "node_name Ingest_Seed = ''ingest_seed''"
| "node_name Log_Analysis = ''log_analysis''"
| "node_name Threat_Detection = ''threat_detection''"
| "node_name Cve_Research = ''cve_research''"
| "node_name Report = ''report''"
| "node_name Remediation = ''remediation''"
| "node_name Triage = ''triage''"
| "node_name Human_Gate = ''human_gate''"
| "node_name Notify = ''notify''"
| "node_name Close = ''close''"

text \<open>The registry's rows: owner and participation in the retry policy.\<close>

record node_spec =
  spec_node :: node
  spec_owner :: string
  retriable :: bool

definition node_registry :: "node_spec list" where
  "node_registry = map (\<lambda>(n, owner, r). \<lparr>spec_node = n, spec_owner = owner, retriable = r\<rparr>)
     [(Ingest_Seed, ''graph-runtime'', True), (Log_Analysis, ''log-analyzer'', True),
      (Threat_Detection, ''threat-detector'', True), (Cve_Research, ''cve-research'', True),
      (Report, ''incident-reporter'', True), (Remediation, ''patch-recommender'', True),
      (Triage, ''graph-runtime'', True), (Human_Gate, ''human-review'', False),
      (Notify, ''graph-runtime'', True), (Close, ''graph-runtime'', True)]"

datatype node_error = Transient_Node_Error string | Node_Failed string

definition transition :: "node \<Rightarrow> string \<Rightarrow> string \<Rightarrow> string \<Rightarrow> node_transition" where
  "transition n owner status detail =
     \<lparr>sequence = 0, tr_node = node_name n, tr_owner = owner, tr_status = status, tr_detail = detail\<rparr>"

text \<open>An update that names only the channels every node writes.\<close>

definition base_update :: "node \<Rightarrow> string \<Rightarrow> string \<Rightarrow> string \<Rightarrow> node_update" where
  "base_update n owner now detail =
     \<lparr>u_status = None, u_current_node = node_name n, u_updated_at = now, u_investigation = [],
      u_report = [], u_agents = [], u_notification = [], u_conversation = [],
      u_node_history = [transition n owner ''completed'' detail]\<rparr>"

definition ingest_seed :: "string \<Rightarrow> graph_state \<Rightarrow> node_update" where
  "ingest_seed now s = (base_update Ingest_Seed ''graph-runtime'' now ''investigation seeded'')
     \<lparr>u_status := Some (status_value St_In_Progress)\<rparr>"


section \<open>Agent nodes\<close>

text \<open>Each request is the fields its node passes; each outcome the fields its node reads back.\<close>

record log_request =
  lr_investigation_id :: string
  lr_records :: "pyval list"
  lr_requested_sources :: "pyval list"
  lr_time_window :: "pyval option"
  lr_failures :: "(string \<times> string \<times> string) list"

record log_outcome =
  lo_events :: "pyval list"
  lo_timeline :: "pyval list"
  lo_gaps :: "(string \<times> string) list"
  lo_correlations :: nat
  lo_quarantined :: nat
  lo_source_coverage :: pyval
  lo_parse_failure_rate :: pyval

record threat_request =
  tq_investigation_id :: string
  tq_events :: "pyval list"
  tq_timeline :: "pyval list"
  tq_coverage_gaps :: "pyval list"
  tq_internal_networks :: "pyval list"
  tq_critical_assets :: "pyval list"

record threat_outcome =
  to_dump :: mapping
  to_verdict :: verdict
  to_severity :: severity
  to_severity_score :: pyfloat
  to_priority :: triage_priority
  to_signals :: nat
  to_iocs :: nat
  to_techniques :: "string list"
  to_enrichment_status :: string
  to_escalation_required :: bool

record cve_request =
  cq_investigation_id :: string
  cq_threat_assessment :: pyval
  cq_assets :: "pyval list"
  cq_referenced_cve_ids :: "string list"

record cve_outcome =
  co_dump :: mapping
  co_confirmed :: nat
  co_candidates :: nat
  co_searched_products :: "string list"
  co_highest_severity :: "severity option"
  co_stale :: bool

record report_request =
  rq_investigation_id :: string
  rq_trigger_source :: string
  rq_log_analysis :: "(pyval list \<times> pyval list \<times> pyval list) option"
  rq_threat_assessment :: pyval
  rq_vulnerability_dossier :: pyval
  rq_critical_assets :: "pyval list"

record report_outcome =
  ro_executive_summary :: pyval
  ro_technical_body :: pyval
  ro_citations :: "pyval list"
  ro_status :: string
  ro_findings :: nat
  ro_timeline :: nat
  ro_affected_assets :: "string list"
  ro_caveats :: "string list"
  ro_complete :: bool

record plan_request =
  pq_investigation_id :: string
  pq_threat_assessment :: pyval
  pq_vulnerability_dossier :: pyval
  pq_assets :: "pyval list"
  pq_critical_assets :: "pyval list"

record plan_outcome =
  po_dump :: mapping
  po_recommendations :: nat
  po_highest_priority :: "triage_priority option"
  po_overall_risk :: "pyfloat option"
  po_knowledge_limited :: bool
  po_requires_human_approval :: bool

text \<open>What every agent's outcome carries beside its output.\<close>

record outcome_envelope =
  oe_prompt_version :: pyval
  oe_confidence :: pyval
  oe_tool_calls :: "pyval list"

record agent_suite =
  log_analyzer :: "log_request \<Rightarrow> node_error + log_outcome \<times> outcome_envelope"
  threat_detector :: "threat_request \<Rightarrow> node_error + threat_outcome \<times> outcome_envelope"
  readable_asset :: "pyval \<Rightarrow> bool"
  cve_researcher :: "cve_request \<Rightarrow> node_error + cve_outcome \<times> outcome_envelope"
  incident_reporter :: "report_request \<Rightarrow> node_error + report_outcome \<times> outcome_envelope"
  patch_recommender :: "plan_request \<Rightarrow> node_error + plan_outcome \<times> outcome_envelope"

definition agent_record :: "string \<Rightarrow> mapping \<Rightarrow> outcome_envelope \<Rightarrow> mapping" where
  "agent_record name last_output e =
     [(name, PDict [(''agent_name'', PStr name),
        (''last_output'', PDict (last_output @ [(''prompt_version'', oe_prompt_version e)])),
        (''confidence'', oe_confidence e), (''retry_count'', PInt 0), (''tool_calls'', PList (oe_tool_calls e))])]"

definition num :: "nat \<Rightarrow> pyval" where
  "num n = PInt (int n)"

definition gap_line :: "string \<times> string \<Rightarrow> pyval" where
  "gap_line g = PStr (strip_by (\<lambda>c. c = CHR '':'' \<or> c = CHR '' '') (fst g @ '': '' @ snd g))"

definition log_analysis :: "agent_suite \<Rightarrow> string \<Rightarrow> graph_state \<Rightarrow> node_error + node_update" where
  "log_analysis ag now s =
     (let ev = evidence s; window = pget ev ''time_window'';
          request = \<lparr>lr_investigation_id = investigation_id s,
             lr_records = as_list (pget_or ev ''raw_records'' (PList [])),
             lr_requested_sources = as_list (pget_or ev ''requested_sources'' (PList [])),
             lr_time_window = (if truth window then Some window else None),
             lr_failures = map (\<lambda>item. let d = as_dict item in
                 (str_val (pget_or d ''source_id'' (PStr [])), str_val (pget_or d ''reason'' (PStr ''unknown'')),
                  str_val (pget_or d ''detail'' (PStr []))))
               (as_list (pget_or ev ''source_failures'' (PList [])))\<rparr>
      in case log_analyzer ag request of
        Inl e \<Rightarrow> Inl e
      | Inr (result, env) \<Rightarrow> Inr ((base_update Log_Analysis ''log-analyzer'' now
            (show_nat (length (lo_events result)) @ '' events, '' @ show_nat (lo_correlations result)
             @ '' correlations, '' @ show_nat (length (lo_gaps result)) @ '' gaps''))
          \<lparr>u_investigation := [(''normalized_events'', PList (lo_events result)),
              (''timeline'', PList (lo_timeline result)),
              (''coverage_gaps'', PList (map gap_line (lo_gaps result)))],
           u_agents := agent_record ''log_analyzer''
              [(''events'', num (length (lo_events result))), (''correlations'', num (lo_correlations result)),
               (''quarantined'', num (lo_quarantined result)), (''source_coverage'', lo_source_coverage result),
               (''parse_failure_rate'', lo_parse_failure_rate result)] env\<rparr>))"

definition threat_detection :: "agent_suite \<Rightarrow> string \<Rightarrow> graph_state \<Rightarrow> node_error + node_update" where
  "threat_detection ag now s =
     (let findings = investigation s; snapshot = config_snapshot s;
          listed = (\<lambda>d k. as_list (pget_or d k (PList [])));
          request = \<lparr>tq_investigation_id = investigation_id s, tq_events = listed findings ''normalized_events'',
             tq_timeline = listed findings ''timeline'', tq_coverage_gaps = listed findings ''coverage_gaps'',
             tq_internal_networks = listed snapshot ''internal_networks'',
             tq_critical_assets = listed snapshot ''critical_assets''\<rparr>
      in case threat_detector ag request of
        Inl e \<Rightarrow> Inl e
      | Inr (result, env) \<Rightarrow> Inr ((base_update Threat_Detection ''threat-detector'' now
            (''verdict='' @ verdict_value (to_verdict result) @ '', severity='' @ severity_value (to_severity result)
             @ '', '' @ show_nat (to_signals result) @ '' signal(s), ''
             @ show_nat (length (to_techniques result)) @ '' technique(s)''))
          \<lparr>u_investigation := [(''threat_assessment'', PDict (to_dump result))],
           u_agents := agent_record ''threat_detector''
              [(''verdict'', PStr (verdict_value (to_verdict result))),
               (''severity'', PStr (severity_value (to_severity result))),
               (''severity_score'', PFloat (to_severity_score result)),
               (''triage_priority'', PStr (priority_value (to_priority result))),
               (''signals'', num (to_signals result)), (''iocs'', num (to_iocs result)),
               (''attack_techniques'', PList (map PStr (to_techniques result))),
               (''enrichment_status'', PStr (to_enrichment_status result)),
               (''escalation_required'', PBool (to_escalation_required result))] env\<rparr>))"

text \<open>\<^verbatim>\<open>_asset_contexts\<close>: the readable asset records, and how many were not.\<close>

definition asset_contexts :: "(pyval \<Rightarrow> bool) \<Rightarrow> pyval list \<Rightarrow> pyval list \<times> nat" where
  "asset_contexts readable payload = (filter readable payload, length (filter (\<lambda>item. \<not> readable item) payload))"

definition cve_research :: "agent_suite \<Rightarrow> string \<Rightarrow> graph_state \<Rightarrow> node_error + node_update" where
  "cve_research ag now s =
     (let findings = investigation s;
          (assets, unreadable) = asset_contexts (readable_asset ag) (as_list (pget_or (shared s) ''assets'' (PList [])));
          request = \<lparr>cq_investigation_id = investigation_id s,
             cq_threat_assessment = pget findings ''threat_assessment'',
             cq_assets = assets,
             cq_referenced_cve_ids = find_cve_ids (join '' ''
               (map (\<lambda>event. str_val (pget_or (as_dict event) ''message'' (PStr [])))
                 (as_list (pget_or findings ''normalized_events'' (PList [])))))\<rparr>
      in case cve_researcher ag request of
        Inl e \<Rightarrow> Inl e
      | Inr (result, env) \<Rightarrow> Inr ((base_update Cve_Research ''cve-research'' now
            (show_nat (co_confirmed result) @ '' confirmed, '' @ show_nat (co_candidates result)
             @ '' candidate(s) across '' @ show_nat (length (co_searched_products result)) @ '' product(s)''
             @ (if unreadable \<noteq> 0 then ''; '' @ show_nat unreadable @ '' asset record(s) unreadable'' else [])))
          \<lparr>u_investigation := [(''vulnerability_dossier'', PDict (co_dump result))],
           u_agents := agent_record ''cve_research''
              [(''confirmed'', num (co_confirmed result)), (''candidates'', num (co_candidates result)),
               (''searched_products'', PList (map PStr (co_searched_products result))),
               (''highest_severity'', case co_highest_severity result of Some v \<Rightarrow> PStr (severity_value v) | None \<Rightarrow> PNone),
               (''stale'', PBool (co_stale result))] env\<rparr>))"

definition report :: "agent_suite \<Rightarrow> string \<Rightarrow> graph_state \<Rightarrow> node_error + node_update" where
  "report ag now s =
     (let findings = investigation s; listed = (\<lambda>d k. as_list (pget_or d k (PList [])));
          request = \<lparr>rq_investigation_id = investigation_id s, rq_trigger_source = trigger_source s,
             rq_log_analysis = (if truth (pget findings ''normalized_events'')
               then Some (listed findings ''normalized_events'', listed findings ''timeline'', listed findings ''coverage_gaps'')
               else None),
             rq_threat_assessment = pget findings ''threat_assessment'',
             rq_vulnerability_dossier = pget findings ''vulnerability_dossier'',
             rq_critical_assets = listed (config_snapshot s) ''critical_assets''\<rparr>
      in case incident_reporter ag request of
        Inl e \<Rightarrow> Inl e
      | Inr (result, env) \<Rightarrow> Inr ((base_update Report ''incident-reporter'' now
            (show_nat (ro_findings result) @ '' finding(s), '' @ show_nat (length (ro_caveats result))
             @ '' caveat(s), '' @ show_nat (length (ro_citations result)) @ '' citation(s)''))
          \<lparr>u_report := [(''executive_summary'', ro_executive_summary result),
              (''technical_report'', ro_technical_body result), (''citations'', PList (ro_citations result)),
              (''report_status'', PStr (ro_status result))],
           u_agents := agent_record ''incident_reporter''
              [(''findings'', num (ro_findings result)), (''timeline_entries'', num (ro_timeline result)),
               (''affected_assets'', PList (map PStr (ro_affected_assets result))),
               (''caveats'', PList (map PStr (ro_caveats result))),
               (''complete'', PBool (ro_complete result))] env\<rparr>))"

definition remediation :: "agent_suite \<Rightarrow> string \<Rightarrow> graph_state \<Rightarrow> node_error + node_update" where
  "remediation ag now s =
     (let findings = investigation s;
          request = \<lparr>pq_investigation_id = investigation_id s,
             pq_threat_assessment = pget findings ''threat_assessment'',
             pq_vulnerability_dossier = pget findings ''vulnerability_dossier'',
             pq_assets = as_list (pget_or (shared s) ''assets'' (PList [])),
             pq_critical_assets = as_list (pget_or (config_snapshot s) ''critical_assets'' (PList []))\<rparr>
      in case patch_recommender ag request of
        Inl e \<Rightarrow> Inl e
      | Inr (plan, env) \<Rightarrow> Inr ((base_update Remediation ''patch-recommender'' now
            (show_nat (po_recommendations plan) @ '' recommendation(s), all pending human approval''))
          \<lparr>u_investigation := [(''remediation_plan'', PDict (po_dump plan))],
           u_agents := agent_record ''patch_recommender''
              [(''recommendations'', num (po_recommendations plan)),
               (''highest_priority'', case po_highest_priority plan of Some p \<Rightarrow> PStr (priority_value p) | None \<Rightarrow> PNone),
               (''overall_risk'', PFloat (case po_overall_risk plan of Some r \<Rightarrow> r | None \<Rightarrow> 0)),
               (''knowledge_limited'', PBool (po_knowledge_limited plan)),
               (''requires_human_approval'', PBool (po_requires_human_approval plan))] env\<rparr>))"


section \<open>Control nodes\<close>

definition threat_assessment_of :: "graph_state \<Rightarrow> mapping" where
  "threat_assessment_of s = as_dict (pget (investigation s) ''threat_assessment'')"

definition route_after_threat :: "graph_state \<Rightarrow> node" where
  "route_after_threat s =
     (if pget (threat_assessment_of s) ''verdict'' = PStr (verdict_value Benign) then Report else Cve_Research)"

definition or_text :: "string \<Rightarrow> string \<Rightarrow> string" where
  "or_text s t = (if s = [] then t else s)"

definition triage_detail :: "graph_state \<Rightarrow> string" where
  "triage_detail s =
     (let findings = investigation s; assessment = threat_assessment_of s;
          verdict = or_text (str_val (pget_or assessment ''verdict'' (PStr []))) ''not assessed'';
          priority = or_text (str_val (pget_or assessment ''triage_priority'' (PStr []))) ''unset'';
          dossier = pget findings ''vulnerability_dossier''; plan = pget findings ''remediation_plan'';
          size_of = (\<lambda>v k. show_nat (length (as_list (pget_or (as_dict v) k (PList [])))))
      in ''advanced to gate (verdict='' @ verdict @ '', priority='' @ priority
         @ (if truth dossier then '', '' @ size_of dossier ''cves'' @ '' confirmed CVE(s)'' else '', no CVE research'')
         @ (if truth (pget (report_state s) ''technical_report'') then '', report drafted'' else '', no report'')
         @ (if truth plan then '', '' @ size_of plan ''recommendations'' @ '' recommendation(s)'' else [])
         @ '')'')"

definition triage :: "string \<Rightarrow> graph_state \<Rightarrow> node_update" where
  "triage now s = (base_update Triage ''graph-runtime'' now (triage_detail s))
     \<lparr>u_status := Some (status_value St_Awaiting_Approval)\<rparr>"

text \<open>\<^verbatim>\<open>_remediation_summary\<close> and \<^verbatim>\<open>_gate_summary\<close>: what the analyst is asked to weigh.\<close>

definition remediation_summary :: "graph_state \<Rightarrow> mapping" where
  "remediation_summary s =
     (let plan = pget (investigation s) ''remediation_plan'' in
      if \<not> truth plan then [(''recommendation_count'', PInt 0), (''recommendations_pending_approval'', PBool False)]
      else let recs = as_list (pget_or (as_dict plan) ''recommendations'' (PList [])) in
        [(''recommendation_count'', num (length recs)),
         (''highest_recommendation_priority'',
            case filter (\<lambda>p. list_ex (\<lambda>item. pget (as_dict item) ''priority'' = PStr p) recs)
                   [''urgent'', ''high'', ''medium'', ''low''] of p # _ \<Rightarrow> PStr p | [] \<Rightarrow> PNone),
         (''overall_risk'', pget (as_dict (pget (as_dict plan) ''overall_risk'')) ''score''),
         (''recommendations_pending_approval'', PBool (recs \<noteq> []))])"

definition confirmed_cves :: "mapping \<Rightarrow> pyval list" where
  "confirmed_cves dossier = map (\<lambda>item. pget (as_dict (pget (as_dict item) ''record'')) ''cve_id'')
     (as_list (pget_or dossier ''cves'' (PList [])))"

definition gate_summary :: "graph_state \<Rightarrow> mapping" where
  "gate_summary s =
     (if \<not> truth (pget (investigation s) ''threat_assessment'') then [(''assessed'', PBool False)]
      else let assessment = threat_assessment_of s; severity = as_dict (pget assessment ''severity'');
               dossier = as_dict (pget (investigation s) ''vulnerability_dossier'') in
        [(''assessed'', PBool True),
         (''verdict'', pget assessment ''verdict''),
         (''severity'', pget severity ''level''),
         (''severity_score'', pget severity ''score''),
         (''triage_priority'', pget assessment ''triage_priority''),
         (''confidence'', pget assessment ''confidence''),
         (''enrichment_status'', pget assessment ''enrichment_status''),
         (''escalation_required'', PBool (truth (pget assessment ''escalation_required''))),
         (''escalation_reason'', pget assessment ''escalation_reason''),
         (''confirmed_cves'', PList (confirmed_cves dossier)),
         (''candidate_cve_count'', num (length (as_list (pget_or dossier ''candidates'' (PList []))))),
         (''cve_research_stale'', if dossier \<noteq> [] then PBool (truth (pget dossier ''stale'')) else PNone),
         (''executive_summary'', pget (report_state s) ''executive_summary''),
         (''report_status'', pget (report_state s) ''report_status'')]
        @ remediation_summary s)"

text \<open>The gate's interrupt payload, and the update it writes once a decision is supplied.\<close>

definition gate_payload :: "graph_state \<Rightarrow> mapping" where
  "gate_payload s = [(''kind'', PStr ''human_approval''), (''investigation_id'', PStr (investigation_id s)),
     (''reason'', PStr ''awaiting analyst approval before any consequential action'')] @ gate_summary s"

definition human_gate :: "string \<Rightarrow> mapping \<Rightarrow> graph_state \<Rightarrow> node_error + node_update" where
  "human_gate now decision s = (case map_of decision ''decision'' of
     None \<Rightarrow> Inl (Node_Failed ''KeyError'')
   | Some d \<Rightarrow> Inr ((base_update Human_Gate ''human-review'' now (''decision='' @ str_val d))
        \<lparr>u_conversation := [(''human_decisions'', PList [PDict decision])]\<rparr>))"

definition highlights :: "graph_state \<Rightarrow> string list" where
  "highlights s =
     (let findings = investigation s;
          hosts = map (\<lambda>asset. str_val (pget (as_dict asset) ''hostname''))
            (filter (\<lambda>asset. truth (pget (as_dict asset) ''hostname'')) (as_list (pget_or (shared s) ''assets'' (PList []))));
          confirmed = map str_val (confirmed_cves (as_dict (pget findings ''vulnerability_dossier'')));
          recs = as_list (pget_or (as_dict (pget findings ''remediation_plan'')) ''recommendations'' (PList []));
          gaps = as_list (pget_or findings ''coverage_gaps'' (PList []))
      in (if hosts \<noteq> [] then [''Affected hosts: '' @ join '', '' (take 5 hosts)] else [])
       @ (if confirmed \<noteq> [] then [''Confirmed CVEs: '' @ join '', '' (take 5 confirmed)] else [])
       @ (if recs \<noteq> [] then [show_nat (length recs) @ '' remediation recommendation(s) await human action''] else [])
       @ (if gaps \<noteq> [] then [show_nat (length gaps) @ '' coverage gap(s) recorded on this investigation''] else []))"

definition alert_of :: "graph_state \<Rightarrow> mapping" where
  "alert_of s =
     (let assessment = threat_assessment_of s; severity = as_dict (pget assessment ''severity'') in
      [(''investigation_id'', PStr (investigation_id s)),
       (''title'', PStr (''Investigation '' @ investigation_id s @ '' approved for notification'')),
       (''summary'', or_val (pget (report_state s) ''executive_summary'')
          (PStr ''An analyst approved this investigation; see the console for detail.'')),
       (''priority'', or_val (pget assessment ''triage_priority'') (PStr (priority_value Prio_High))),
       (''severity'', pget severity ''level''),
       (''verdict'', pget assessment ''verdict''),
       (''highlights'', PList (map PStr (highlights s)))])"

definition notify :: "string \<Rightarrow> graph_state \<Rightarrow> node_update" where
  "notify now s = (base_update Notify ''graph-runtime'' now
       (''alert prepared at '' @ str_val (pget (alert_of s) ''priority'') @ '' priority, pending dispatch''))
     \<lparr>u_notification := [(''pending'', PList [PDict (alert_of s)])]\<rparr>"

definition close :: "string \<Rightarrow> graph_state \<Rightarrow> node_update" where
  "close now s = (base_update Close ''graph-runtime'' now ''investigation closed'')
     \<lparr>u_status := Some (status_value St_Closed)\<rparr>"

definition human_decisions :: "graph_state \<Rightarrow> pyval list" where
  "human_decisions s = as_list (pget (conversation s) ''human_decisions'')"

definition last_decision :: "graph_state \<Rightarrow> pyval" where
  "last_decision s = (let ds = human_decisions s in
     if ds = [] then PNone else pget (as_dict (last ds)) ''decision'')"

definition route_after_gate :: "graph_state \<Rightarrow> node" where
  "route_after_gate s =
     (if last_decision s = PStr (decision_value Redirect) then Triage
      else if last_decision s = PStr (decision_value Approve) then Notify
      else Close)"

end
