(* ===== verification/Graph_Runtime.thy ===== *)
theory Graph_Runtime
  imports Graph_Nodes
begin

text \<open>
  The compiled graph (\<^verbatim>\<open>graph/builder.py\<close>) and the runtime service over it (\<^verbatim>\<open>graph/runtime.py\<close>). The
  builder's edges are data. LangGraph's execution of a compiled graph is the step relation
  \<open>graph_step\<close> (run the node, fold its update into the state, follow its edge; the gate waits for a
  decision) and, as a function, \<open>advance\<close>. Shown: the state's invariants in every reachable
  configuration (no alert without an approval, no close without a decision, untouched evidence, a
  numbered history), that a start with working agents reaches the gate through the expected nodes,
  and what each decision leads to.
\<close>

section \<open>The builder's edges\<close>

datatype endpoint = START | At node | END

definition static_edges :: "(endpoint \<times> endpoint) list" where
  "static_edges = [(START, At Ingest_Seed), (At Ingest_Seed, At Log_Analysis), (At Log_Analysis, At Threat_Detection),
     (At Cve_Research, At Report), (At Report, At Remediation), (At Remediation, At Triage),
     (At Triage, At Human_Gate), (At Notify, At Close), (At Close, END)]"

definition conditional_edges :: "(node \<times> (graph_state \<Rightarrow> node) \<times> node list) list" where
  "conditional_edges = [(Threat_Detection, route_after_threat, [Cve_Research, Report]),
     (Human_Gate, route_after_gate, [Close, Triage, Notify])]"

text \<open>Where execution goes after a node; a route outside its path map has no target.\<close>

definition successor :: "node \<Rightarrow> graph_state \<Rightarrow> endpoint option" where
  "successor n s = (case map_of conditional_edges n of
     Some (route, targets) \<Rightarrow> if route s \<in> set targets then Some (At (route s)) else None
   | None \<Rightarrow> map_of static_edges (At n))"

text \<open>The action registered for a node. The gate runs only with a decision.\<close>

fun run_node :: "agent_suite \<Rightarrow> string \<Rightarrow> mapping option \<Rightarrow> node \<Rightarrow> graph_state \<Rightarrow> (node_error + node_update) option" where
  "run_node ag now d Ingest_Seed s = Some (Inr (ingest_seed now s))"
| "run_node ag now d Log_Analysis s = Some (log_analysis ag now s)"
| "run_node ag now d Threat_Detection s = Some (threat_detection ag now s)"
| "run_node ag now d Cve_Research s = Some (cve_research ag now s)"
| "run_node ag now d Report s = Some (report ag now s)"
| "run_node ag now d Remediation s = Some (remediation ag now s)"
| "run_node ag now d Triage s = Some (Inr (triage now s))"
| "run_node ag now d Human_Gate s = map_option (\<lambda>decision. human_gate now decision s) d"
| "run_node ag now d Notify s = Some (Inr (notify now s))"
| "run_node ag now d Close s = Some (Inr (close now s))"


section \<open>Decisions\<close>

datatype graph_error = Investigation_Not_Found string | Invalid_Resume string

definition valid_decisions :: "string list" where
  "valid_decisions = map decision_value [Approve, Edit, Reject, Redirect]"

datatype decision_input = Decision_Text string | Decision_Mapping mapping

definition coerce_decision :: "decision_input \<Rightarrow> graph_error + mapping" where
  "coerce_decision inp =
     (let data = (case inp of Decision_Text t \<Rightarrow> [(''decision'', PStr t)] | Decision_Mapping d \<Rightarrow> d);
          value = lower (str_val (pget_or data ''decision'' (PStr [])))
      in if value \<notin> set valid_decisions then Inl (Invalid_Resume (''invalid decision: '' @ repr_str value))
         else Inr (dict_set ''decision'' (PStr value) data))"


section \<open>Execution\<close>

inductive graph_step :: "agent_suite \<Rightarrow> endpoint \<times> graph_state \<Rightarrow> endpoint \<times> graph_state \<Rightarrow> bool"
  for ag :: agent_suite where
  automatic: "n \<noteq> Human_Gate \<Longrightarrow> run_node ag now None n s = Some (Inr u) \<Longrightarrow>
     successor n (apply_update s u) = Some q \<Longrightarrow> graph_step ag (At n, s) (q, apply_update s u)"
| decided: "coerce_decision inp = Inr decision \<Longrightarrow> run_node ag now (Some decision) Human_Gate s = Some (Inr u) \<Longrightarrow>
     successor Human_Gate (apply_update s u) = Some q \<Longrightarrow> graph_step ag (At Human_Gate, s) (q, apply_update s u)"

inductive reachable :: "agent_suite \<Rightarrow> graph_state \<Rightarrow> endpoint \<times> graph_state \<Rightarrow> bool"
  for ag :: agent_suite and s0 :: graph_state where
  seeded: "map_of static_edges START = Some q \<Longrightarrow> reachable ag s0 (q, s0)"
| stepped: "reachable ag s0 c \<Longrightarrow> graph_step ag c c' \<Longrightarrow> reachable ag s0 c'"

fun node_rank :: "node \<Rightarrow> nat" where
  "node_rank Ingest_Seed = 9"
| "node_rank Log_Analysis = 8"
| "node_rank Threat_Detection = 7"
| "node_rank Cve_Research = 6"
| "node_rank Report = 5"
| "node_rank Remediation = 4"
| "node_rank Triage = 3"
| "node_rank Human_Gate = 0"
| "node_rank Notify = 2"
| "node_rank Close = 1"

text \<open>
  One run: the checkpoints written from a node on, oldest first, and the error that stopped it, if
  any. It stops at the gate, at the end, or before a node that failed. \<open>clock k\<close> is the time stamp of
  the transition with sequence number \<open>k\<close>.
\<close>

type_synonym checkpoint = "endpoint \<times> graph_state"

lemma successor_simps [simp]:
  "successor Ingest_Seed s = Some (At Log_Analysis)"
  "successor Log_Analysis s = Some (At Threat_Detection)"
  "successor Threat_Detection s = Some (At (route_after_threat s))"
  "successor Cve_Research s = Some (At Report)"
  "successor Report s = Some (At Remediation)"
  "successor Remediation s = Some (At Triage)"
  "successor Triage s = Some (At Human_Gate)"
  "successor Human_Gate s = Some (At (route_after_gate s))"
  "successor Notify s = Some (At Close)"
  "successor Close s = Some END"
  by (simp_all add: successor_def conditional_edges_def static_edges_def route_after_threat_def route_after_gate_def)

lemma successor_rank: "n \<noteq> Human_Gate \<Longrightarrow> successor n s = Some (At m) \<Longrightarrow> node_rank m < node_rank n"
  by (cases n) (auto simp: route_after_threat_def)

function advance :: "agent_suite \<Rightarrow> (nat \<Rightarrow> string) \<Rightarrow> node \<Rightarrow> graph_state \<Rightarrow> checkpoint list \<times> node_error option" where
  "advance ag clock n s =
     (if n = Human_Gate then ([], None)
      else case run_node ag (clock (length (node_history s))) None n s of
        Some (Inr u) \<Rightarrow>
          (let s' = apply_update s u in
           case successor n s' of
             Some (At m) \<Rightarrow> (let (cps, err) = advance ag clock m s' in ((At m, s') # cps, err))
           | Some q \<Rightarrow> ([(q, s')], None)
           | None \<Rightarrow> ([], None))
      | Some (Inl e) \<Rightarrow> ([], Some e)
      | None \<Rightarrow> ([], None))"
  by pat_completeness auto
termination
  by (relation "measure (\<lambda>(ag, clock, n, s). node_rank n)") (auto dest: successor_rank)

declare advance.simps [simp del]


section \<open>The runtime service\<close>

text \<open>The checkpoints of each thread, newest first.\<close>

type_synonym store = "(string, checkpoint list) dict"

definition thread :: "store \<Rightarrow> string \<Rightarrow> checkpoint list" where
  "thread st tid = (case map_of st tid of Some cps \<Rightarrow> cps | None \<Rightarrow> [])"

record graph_run_result =
  rr_investigation_id :: string
  rr_status :: string
  rr_current_node :: string
  awaiting_human :: bool
  pending_interrupt :: "mapping option"
  rr_node_history :: "node_transition list"
  rr_created_at :: string
  rr_updated_at :: string

definition pending_interrupt_of :: "checkpoint \<Rightarrow> mapping option" where
  "pending_interrupt_of c = (case c of (At Human_Gate, s) \<Rightarrow> Some (gate_payload s) | _ \<Rightarrow> None)"

definition result :: "store \<Rightarrow> string \<Rightarrow> graph_error + graph_run_result" where
  "result st tid = (case thread st tid of
     [] \<Rightarrow> Inl (Investigation_Not_Found tid)
   | (q, s) # _ \<Rightarrow>
       (let pending = pending_interrupt_of (q, s) in
        Inr \<lparr>rr_investigation_id = tid, rr_status = g_status s, rr_current_node = current_node s,
             awaiting_human = (pending \<noteq> None), pending_interrupt = pending, rr_node_history = node_history s,
             rr_created_at = created_at s, rr_updated_at = updated_at s\<rparr>))"

text \<open>
  The input of a start passes through the same channels as an update: on a thread that already has
  state the reducers merge it and the other fields are replaced.
\<close>

definition apply_input :: "graph_state option \<Rightarrow> graph_state \<Rightarrow> graph_state" where
  "apply_input old s = (case old of
     None \<Rightarrow> s
   | Some o' \<Rightarrow> s\<lparr>node_history := extend_history (node_history o') (node_history s),
        errors := append_list (errors o') (errors s),
        shared := merge_substate (shared o') (shared s),
        agents := merge_substate (agents o') (agents s),
        evidence := merge_substate (evidence o') (evidence s),
        investigation := merge_substate (investigation o') (investigation s),
        report_state := merge_substate (report_state o') (report_state s),
        notification := merge_substate (notification o') (notification s),
        conversation := merge_substate (conversation o') (conversation s)\<rparr>)"

text \<open>The nodes reported to \<^verbatim>\<open>on_node\<close> are those of the checkpoints; a raising callback changes nothing.\<close>

definition start ::
  "agent_suite \<Rightarrow> (nat \<Rightarrow> string) \<Rightarrow> store \<Rightarrow> string \<Rightarrow> string \<Rightarrow> mapping \<Rightarrow> string \<Rightarrow> mapping option \<Rightarrow> mapping list option
   \<Rightarrow> store \<times> node_error option" where
  "start ag clock st tid trigger snapshot created ev assets =
     (let s0 = apply_input (case thread st tid of [] \<Rightarrow> None | c # _ \<Rightarrow> Some (snd c))
                 (new_state tid trigger snapshot created ev assets);
          (cps, err) = advance ag clock Ingest_Seed s0
      in (dict_set tid (rev ((At Ingest_Seed, s0) # cps) @ thread st tid) st, err))"

definition resume ::
  "agent_suite \<Rightarrow> (nat \<Rightarrow> string) \<Rightarrow> store \<Rightarrow> string \<Rightarrow> decision_input
   \<Rightarrow> graph_error + store \<times> node_error option" where
  "resume ag clock st tid inp = (case thread st tid of
     (At n, s) # _ \<Rightarrow>
       (case coerce_decision inp of
          Inl e \<Rightarrow> Inl e
        | Inr decision \<Rightarrow>
          (case run_node ag (clock (length (node_history s))) (Some decision) n s of
             Some (Inr u) \<Rightarrow>
               (let s' = apply_update s u in
                case successor n s' of
                  Some (At m) \<Rightarrow> (let (cps, err) = advance ag clock m s' in
                     Inr (dict_set tid (rev ((At m, s') # cps) @ thread st tid) st, err))
                | Some q \<Rightarrow> Inr (dict_set tid ((q, s') # thread st tid) st, None)
                | None \<Rightarrow> Inr (st, None))
           | Some (Inl e) \<Rightarrow> Inr (st, Some e)
           | None \<Rightarrow> Inr (st, None)))
   | _ \<Rightarrow> Inl (Invalid_Resume ''investigation is not awaiting a human decision''))"

text \<open>\<^verbatim>\<open>history\<close>: the thread's checkpoints, newest first, with where each would continue.\<close>

definition history :: "store \<Rightarrow> string \<Rightarrow> graph_error + (nat \<times> endpoint \<times> bool) list" where
  "history st tid = (let cps = thread st tid in
     if cps = [] then Inl (Investigation_Not_Found tid)
     else Inr (map (\<lambda>(i, (q, s)). (length cps - 1 - i, q, q \<noteq> END)) (enumerate 0 cps)))"

definition raw_state :: "store \<Rightarrow> string \<Rightarrow> graph_error + graph_state" where
  "raw_state st tid = (case thread st tid of [] \<Rightarrow> Inl (Investigation_Not_Found tid) | (q, s) # _ \<Rightarrow> Inr s)"


text \<open>
  \<^verbatim>\<open>rollback\<close>: the checkpoint must be one of the thread's; running forward from it is the engine's
  (\<open>invoke\<close>).
\<close>

definition rollback ::
  "(store \<Rightarrow> string \<Rightarrow> nat \<Rightarrow> store) \<Rightarrow> store \<Rightarrow> string \<Rightarrow> nat \<Rightarrow> graph_error + store" where
  "rollback invoke st tid cid = (case history st tid of
     Inl e \<Rightarrow> Inl e
   | Inr refs \<Rightarrow> if cid \<notin> fst ` set refs then Inl (Invalid_Resume (''unknown checkpoint: '' @ show_nat cid))
                else Inr (invoke st tid cid))"


section \<open>Facts\<close>

definition alerts :: "graph_state \<Rightarrow> pyval list" where
  "alerts s = as_list (pget (notification s) ''pending'')"

definition node_status :: "node \<Rightarrow> string option" where
  "node_status n = (case n of Ingest_Seed \<Rightarrow> Some ''in_progress'' | Triage \<Rightarrow> Some ''awaiting_approval''
     | Close \<Rightarrow> Some ''closed'' | _ \<Rightarrow> None)"

text \<open>What the nodes other than the gate can write, whatever the agents return.\<close>

lemma run_node_writes:
  assumes "n \<noteq> Human_Gate" "run_node ag now d n s = Some (Inr u)"
  shows "u_conversation u = []"
    and "u_notification u = (if n = Notify then [(''pending'', PList [PDict (alert_of s)])] else [])"
    and "u_status u = node_status n"
    and "map tr_node (u_node_history u) = [node_name n]"
    and "u_current_node u = node_name n"
  using assms
  by (cases n; auto simp: ingest_seed_def triage_def notify_def close_def base_update_def transition_def
      log_analysis_def threat_detection_def cve_research_def report_def remediation_def node_status_def Let_def
      split: sum.splits prod.splits)+

lemma gate_writes:
  assumes "human_gate now decision s = Inr u"
  shows "u_conversation u = [(''human_decisions'', PList [PDict decision])]" "u_notification u = []"
    "u_status u = None" "map tr_node (u_node_history u) = [''human_gate'']" "u_investigation u = []"
    "u_report u = []"
  using assms by (auto simp: human_gate_def base_update_def transition_def split: option.splits)

lemma apply_update_keeps [simp]:
  "evidence (apply_update s u) = evidence s" "investigation_id (apply_update s u) = investigation_id s"
  "config_snapshot (apply_update s u) = config_snapshot s" "created_at (apply_update s u) = created_at s"
  "trigger_source (apply_update s u) = trigger_source s" "shared (apply_update s u) = shared s"
  "schema_version (apply_update s u) = schema_version s" "errors (apply_update s u) = errors s"
  by (simp_all add: apply_update_def)

lemma coerced_decision:
  assumes "coerce_decision inp = Inr d"
  shows "\<exists>dec. map_of d ''decision'' = Some (PStr (decision_value dec))"
proof -
  obtain v data where v: "v \<in> set valid_decisions" and d: "d = dict_set ''decision'' (PStr v) data"
    using assms by (auto simp: coerce_decision_def Let_def split: if_splits)
  from v obtain dec where "v = decision_value dec" unfolding valid_decisions_def by (simp only: set_map) blast
  then show ?thesis using d by (auto simp: dict_set_lookup)
qed

text \<open>The shape of the conversation and notification sub-states, with what they hold.\<close>

definition channels :: "graph_state \<Rightarrow> pyval list \<Rightarrow> pyval list \<Rightarrow> bool" where
  "channels s ds ps = (map_of (conversation s) ''human_decisions'' = Some (PList ds)
     \<and> map_of (notification s) ''pending'' = Some (PList ps))"

lemma channels_read:
  assumes "channels s ds ps"
  shows "human_decisions s = ds" "alerts s = ps"
    "last_decision s = (if ds = [] then PNone else pget (as_dict (last ds)) ''decision'')"
  using assms by (simp_all add: channels_def human_decisions_def alerts_def pget_def last_decision_def)

lemma channels_new_state: "channels (new_state tid trigger snapshot created ev assets) [] []"
  by (simp add: channels_def new_state_def Let_def)

lemma channels_automatic:
  assumes "channels s ds ps" "n \<noteq> Human_Gate" "run_node ag now d n s = Some (Inr u)"
  shows "channels (apply_update s u) ds (if n = Notify then ps @ [PDict (alert_of s)] else ps)"
  using assms run_node_writes[OF assms(2,3)]
  by (simp add: channels_def apply_update_def merge_substate_lookup)

lemma channels_gate:
  assumes "channels s ds ps" "human_gate now decision s = Inr u"
  shows "channels (apply_update s u) (ds @ [PDict decision]) ps"
  using assms gate_writes[OF assms(2)]
  by (simp add: channels_def apply_update_def merge_substate_lookup)

definition decision_ok :: "pyval \<Rightarrow> bool" where
  "decision_ok v = (\<exists>m dec. v = PDict m \<and> map_of m ''decision'' = Some (PStr (decision_value dec)))"

text \<open>The invariant of every reachable configuration.\<close>

definition graph_inv :: "graph_state \<Rightarrow> endpoint \<times> graph_state \<Rightarrow> bool" where
  "graph_inv s0 c = (case c of (q, s) \<Rightarrow>
     evidence s = evidence s0 \<and> shared s = shared s0 \<and> config_snapshot s = config_snapshot s0
     \<and> investigation_id s = investigation_id s0 \<and> created_at s = created_at s0
     \<and> map sequence (node_history s) = [0..<length (node_history s)]
     \<and> (\<exists>ds ps. channels s ds ps \<and> list_all decision_ok ds
        \<and> (q \<in> {At Notify, At Close, END} \<longrightarrow> ds \<noteq> [])
        \<and> (q = At Notify \<longrightarrow> last_decision s = PStr ''approve'')
        \<and> (ps = [] \<or> (q \<in> {At Close, END} \<and> length ps = 1 \<and> last_decision s = PStr ''approve''))
        \<and> (g_status s = ''closed'' \<longleftrightarrow> q = END)))"

lemma graph_invI:
  assumes "graph_inv s0 (q', s')"
    and "evidence s = evidence s'" "shared s = shared s'" "config_snapshot s = config_snapshot s'"
    and "investigation_id s = investigation_id s'" "created_at s = created_at s'"
    and "map sequence (node_history s) = [0..<length (node_history s)]"
    and "channels s ds ps" "list_all decision_ok ds"
    and "(q \<in> {At Notify, At Close, END} \<longrightarrow> ds \<noteq> []) \<and> (q = At Notify \<longrightarrow> last_decision s = PStr ''approve'')
        \<and> (ps = [] \<or> (q \<in> {At Close, END} \<and> length ps = 1 \<and> last_decision s = PStr ''approve''))"
    and "g_status s = ''closed'' \<longleftrightarrow> q = END"
  shows "graph_inv s0 (q, s)"
proof -
  have "\<exists>ds ps. channels s ds ps \<and> list_all decision_ok ds
        \<and> (q \<in> {At Notify, At Close, END} \<longrightarrow> ds \<noteq> [])
        \<and> (q = At Notify \<longrightarrow> last_decision s = PStr ''approve'')
        \<and> (ps = [] \<or> (q \<in> {At Close, END} \<and> length ps = 1 \<and> last_decision s = PStr ''approve''))
        \<and> (g_status s = ''closed'' \<longleftrightarrow> q = END)"
    by (intro exI[of _ ds] exI[of _ ps] conjI assms(8,9,11) assms(10)[THEN conjunct1]
        assms(10)[THEN conjunct2, THEN conjunct1] assms(10)[THEN conjunct2, THEN conjunct2])
  then show ?thesis using assms(1-7) unfolding graph_inv_def by simp
qed

lemma graph_inv_numbered: "graph_inv s0 (q, s) \<Longrightarrow> map sequence (node_history s) = [0..<length (node_history s)]"
  by (simp add: graph_inv_def)

lemma status_apply: "g_status (apply_update s u) = (case u_status u of Some st \<Rightarrow> st | None \<Rightarrow> g_status s)"
  by (simp add: apply_update_def)

lemma history_apply: "node_history (apply_update s u) = extend_history (node_history s) (u_node_history u)"
  by (simp add: apply_update_def)

lemma graph_inv_automatic:
  assumes inv: "graph_inv s0 (At n, s)" and n: "n \<noteq> Human_Gate"
    and run: "run_node ag now None n s = Some (Inr u)" and q: "successor n (apply_update s u) = Some q"
  shows "graph_inv s0 (q, apply_update s u)"
proof -
  obtain ds ps where ch: "channels s ds ps" and ds: "list_all decision_ok ds"
    and gate: "At n \<in> {At Notify, At Close, END} \<longrightarrow> ds \<noteq> []"
    and nt: "At n = At Notify \<longrightarrow> last_decision s = PStr ''approve''"
    and ps: "ps = [] \<or> (At n \<in> {At Close, END} \<and> length ps = 1 \<and> last_decision s = PStr ''approve'')"
    and st: "g_status s \<noteq> ''closed''"
    using inv unfolding graph_inv_def by auto
  let ?s = "apply_update s u" and ?ps = "if n = Notify then ps @ [PDict (alert_of s)] else ps"
  have ch': "channels ?s ds ?ps" by (rule channels_automatic[OF ch n run])
  have last: "last_decision ?s = last_decision s" using channels_read(3)[OF ch] channels_read(3)[OF ch'] by simp
  have status: "g_status ?s = ''closed'' \<longleftrightarrow> q = END"
    using st q n unfolding status_apply run_node_writes(3)[OF n run] node_status_def
    by (cases n) auto
  have rest: "(q \<in> {At Notify, At Close, END} \<longrightarrow> ds \<noteq> []) \<and> (q = At Notify \<longrightarrow> last_decision ?s = PStr ''approve'')
     \<and> (?ps = [] \<or> (q \<in> {At Close, END} \<and> length ?ps = 1 \<and> last_decision ?s = PStr ''approve''))"
    using gate nt ps q n unfolding last by (cases n) (auto simp: route_after_threat_def split: if_splits)
  show ?thesis
    by (rule graph_invI[OF inv, of _ ds ?ps])
      (use ch' ds rest status graph_inv_numbered[OF inv] in \<open>simp_all add: history_apply\<close>)
qed

lemma graph_inv_decided:
  assumes inv: "graph_inv s0 (At Human_Gate, s)" and d: "coerce_decision inp = Inr decision"
    and run: "human_gate now decision s = Inr u"
  shows "graph_inv s0 (At (route_after_gate (apply_update s u)), apply_update s u)"
proof -
  obtain ds where ch: "channels s ds []" and ds: "list_all decision_ok ds" and st: "g_status s \<noteq> ''closed''"
    using inv unfolding graph_inv_def by auto
  let ?s = "apply_update s u"
  have ch': "channels ?s (ds @ [PDict decision]) []" by (rule channels_gate[OF ch run])
  have ok: "decision_ok (PDict decision)" using coerced_decision[OF d] by (auto simp: decision_ok_def)
  have "g_status ?s \<noteq> ''closed''" using st unfolding status_apply gate_writes(3)[OF run] by simp
  moreover have "route_after_gate ?s = Notify \<longrightarrow> last_decision ?s = PStr ''approve''"
    by (auto simp: route_after_gate_def split: if_splits)
  ultimately show ?thesis
    by (intro graph_invI[OF inv, of _ "ds @ [PDict decision]" "[]"])
      (use ch' ds ok graph_inv_numbered[OF inv] in \<open>simp_all add: history_apply\<close>)
qed

lemma graph_inv_reachable:
  assumes "reachable ag s0 c" "s0 = new_state tid trigger snapshot created ev assets"
  shows "graph_inv s0 c"
  using assms
proof (induction rule: reachable.induct)
  case (seeded q)
  have "node_history s0 = []" "g_status s0 = ''open''" using seeded(2) by (simp_all add: new_state_def Let_def)
  moreover have "channels s0 [] []" using channels_new_state seeded(2) by simp
  ultimately show ?case
    using seeded(1) by (auto simp: graph_inv_def static_edges_def intro!: exI[of _ "[]"])
next
  case (stepped c c')
  then have inv: "graph_inv s0 c" by simp
  from stepped.hyps(2) show ?case
  proof (cases rule: graph_step.cases)
    case (automatic n now s u q)
    then show ?thesis using graph_inv_automatic inv by blast
  next
    case (decided inp decision now s u q)
    then show ?thesis using graph_inv_decided[of s0 s inp decision now u] inv by auto
  qed
qed


text \<open>A run's checkpoints are reachable.\<close>

lemma advance_reachable:
  "reachable ag s0 (At n, s) \<Longrightarrow> c \<in> set (fst (advance ag clock n s)) \<Longrightarrow> reachable ag s0 c"
proof (induction ag clock n s rule: advance.induct)
  case (1 ag clock n s)
  show ?case
  proof (cases "n = Human_Gate")
    case True
    then show ?thesis using "1.prems" by (simp add: advance.simps)
  next
    case False
    obtain u where u: "run_node ag (clock (length (node_history s))) None n s = Some (Inr u)"
      using "1.prems"(2) False by (subst (asm) advance.simps) (auto split: option.splits sum.splits)
    let ?s = "apply_update s u"
    obtain q where q: "successor n ?s = Some q" by (cases n) auto
    have r: "reachable ag s0 (q, ?s)"
      using "1.prems"(1) graph_step.automatic[OF False u q] reachable.stepped by blast
    show ?thesis
    proof (cases q)
      case (At m)
      have "fst (advance ag clock n s) = (At m, ?s) # fst (advance ag clock m ?s)"
        using False u q At by (subst advance.simps) (simp add: Let_def case_prod_beta)
      then have "c = (At m, ?s) \<or> c \<in> set (fst (advance ag clock m ?s))" using "1.prems"(2) by simp
      then show ?thesis using "1.IH"[OF False u refl refl q[unfolded At]] r At by auto
    next
      case START
      then show ?thesis using q False by (cases n) auto
    next
      case END
      have "fst (advance ag clock n s) = [(END, ?s)]"
        using False u q END by (subst advance.simps) (simp add: Let_def)
      then show ?thesis using "1.prems"(2) r END by simp
    qed
  qed
qed


text \<open>Runs that reach the gate: the nodes visited, and what is left alone on the way.\<close>

definition node_runs :: "agent_suite \<Rightarrow> (nat \<Rightarrow> string) \<Rightarrow> node \<Rightarrow> graph_state \<Rightarrow> node_update \<Rightarrow> bool" where
  "node_runs ag clock n s u = (run_node ag (clock (length (node_history s))) None n s = Some (Inr u))"

lemmas node_runsD = node_runs_def[THEN iffD1]

definition gate_run :: "agent_suite \<Rightarrow> (nat \<Rightarrow> string) \<Rightarrow> node \<Rightarrow> graph_state \<Rightarrow> node list \<Rightarrow> graph_state \<Rightarrow> bool" where
  "gate_run ag clock n s path s' = ((\<exists>cps. advance ag clock n s = (cps @ [(At Human_Gate, s')], None))
     \<and> map tr_node (node_history s') = map tr_node (node_history s) @ map node_name path
     \<and> g_status s' = ''awaiting_approval'' \<and> conversation s' = conversation s \<and> notification s' = notification s)"

lemma advance_step:
  assumes "n \<noteq> Human_Gate" "node_runs ag clock n s u"
    "successor n (apply_update s u) = Some (At m)"
  shows "advance ag clock n s =
    ((At m, apply_update s u) # fst (advance ag clock m (apply_update s u)), snd (advance ag clock m (apply_update s u)))"
  using assms unfolding node_runs_def by (subst advance.simps) (simp add: Let_def case_prod_beta)

lemma advance_gate: "advance ag clock Human_Gate s = ([], None)"
  by (simp add: advance.simps)

lemma nodes_apply:
  assumes "n \<noteq> Human_Gate" "run_node ag now d n s = Some (Inr u)"
  shows "map tr_node (node_history (apply_update s u)) = map tr_node (node_history s) @ [node_name n]"
  using run_node_writes(4)[OF assms] by (simp add: history_apply)

lemma quiet_apply:
  assumes "n \<noteq> Human_Gate" "n \<noteq> Notify" "run_node ag now d n s = Some (Inr u)"
  shows "conversation (apply_update s u) = conversation s" "notification (apply_update s u) = notification s"
  using run_node_writes(1,2)[OF assms(1,3)] assms(2) by (simp_all add: apply_update_def)

lemma gate_run_triage: "\<exists>s'. gate_run ag clock Triage s [Triage] s' \<and> investigation s' = investigation s"
proof -
  let ?u = "triage (clock (length (node_history s))) s"
  have run: "node_runs ag clock Triage s ?u" by (simp add: node_runs_def)
  have "u_investigation ?u = []" by (simp add: triage_def base_update_def)
  then have "investigation (apply_update s ?u) = investigation s" by (simp add: apply_update_def)
  moreover have "g_status (apply_update s ?u) = ''awaiting_approval''"
    unfolding status_apply by (simp add: triage_def)
  ultimately show ?thesis
    using nodes_apply[OF _ node_runsD[OF run]] quiet_apply[OF _ _ node_runsD[OF run]] advance_step[OF _ run]
    by (intro exI[of _ "apply_update s ?u"]) (simp add: gate_run_def advance_gate)
qed

lemma gate_run_step:
  assumes "n \<noteq> Human_Gate" "n \<noteq> Notify" "node_runs ag clock n s u"
    "successor n (apply_update s u) = Some (At m)" "gate_run ag clock m (apply_update s u) path s'"
  shows "gate_run ag clock n s (n # path) s'"
  using assms(5) advance_step[OF assms(1,3,4)] nodes_apply[OF assms(1) node_runsD[OF assms(3)]] quiet_apply[OF assms(1,2) node_runsD[OF assms(3)]]
  by (auto simp: gate_run_def)

definition verdict_of :: "graph_state \<Rightarrow> pyval" where
  "verdict_of s = pget (threat_assessment_of s) ''verdict''"

lemma verdict_kept:
  assumes "n \<in> {Cve_Research, Report, Remediation}" "run_node ag now d n s = Some (Inr u)"
  shows "verdict_of (apply_update s u) = verdict_of s"
proof -
  have "''threat_assessment'' \<notin> fst ` set (u_investigation u)"
    using assms by (auto simp: cve_research_def report_def remediation_def base_update_def Let_def
        split: sum.splits prod.splits)
  then have "map_of (investigation (apply_update s u)) ''threat_assessment'' = map_of (investigation s) ''threat_assessment''"
    by (simp add: apply_update_def merge_substate_other)
  then show ?thesis by (simp add: verdict_of_def threat_assessment_of_def pget_def)
qed

text \<open>Agents that answer every request.\<close>

definition agents_work :: "agent_suite \<Rightarrow> bool" where
  "agents_work ag = ((\<forall>r. \<not> isl (log_analyzer ag r)) \<and> (\<forall>r. \<not> isl (threat_detector ag r)) \<and>
     (\<forall>r. \<not> isl (cve_researcher ag r)) \<and> (\<forall>r. \<not> isl (incident_reporter ag r)) \<and> (\<forall>r. \<not> isl (patch_recommender ag r)))"

lemma agents_work_run:
  assumes w: "agents_work ag" and "n \<noteq> Human_Gate"
  obtains u where "node_runs ag clock n s u"
proof -
  have "\<exists>u. run_node ag now None n s = Some (Inr u)" for now
  proof (cases n)
    case Log_Analysis
    then show ?thesis using w unfolding agents_work_def
      by (auto simp: log_analysis_def Let_def isl_def split: sum.split)
  next
    case Threat_Detection
    then show ?thesis using w unfolding agents_work_def
      by (auto simp: threat_detection_def Let_def isl_def split: sum.split)
  next
    case Cve_Research
    then show ?thesis using w unfolding agents_work_def
      by (auto simp: cve_research_def Let_def isl_def case_prod_beta split: sum.split)
  next
    case Report
    then show ?thesis using w unfolding agents_work_def
      by (auto simp: report_def Let_def isl_def split: sum.split)
  next
    case Remediation
    then show ?thesis using w unfolding agents_work_def
      by (auto simp: remediation_def Let_def isl_def split: sum.split)
  qed (use assms(2) in simp_all)
  then show ?thesis using that by (auto simp: node_runs_def)
qed

lemma gate_run_from_report:
  assumes "agents_work ag"
  shows "\<exists>s'. gate_run ag clock Report s [Report, Remediation, Triage] s' \<and> verdict_of s' = verdict_of s"
proof -
  obtain u where u: "node_runs ag clock Report s u"
    using agents_work_run[OF assms, of Report] by blast
  let ?s1 = "apply_update s u"
  obtain v where v: "node_runs ag clock Remediation ?s1 v"
    using agents_work_run[OF assms, of Remediation] by blast
  let ?s2 = "apply_update ?s1 v"
  obtain s' where s': "gate_run ag clock Triage ?s2 [Triage] s'" "investigation s' = investigation ?s2"
    using gate_run_triage by blast
  have "gate_run ag clock Report s [Report, Remediation, Triage] s'"
    by (rule gate_run_step[OF _ _ u], simp, simp, simp) (rule gate_run_step[OF _ _ v _ s'(1)], simp_all)
  moreover have "verdict_of s' = verdict_of ?s2" using s'(2) by (simp add: verdict_of_def threat_assessment_of_def)
  ultimately show ?thesis using verdict_kept[OF _ node_runsD[OF u]] verdict_kept[OF _ node_runsD[OF v]] by auto
qed

lemma gate_run_from_threat:
  assumes "agents_work ag"
  shows "\<exists>s'. gate_run ag clock Threat_Detection s
    (Threat_Detection # (if verdict_of s' = PStr ''benign'' then [] else [Cve_Research]) @ [Report, Remediation, Triage]) s'"
proof -
  obtain u where u: "node_runs ag clock Threat_Detection s u"
    using agents_work_run[OF assms, of Threat_Detection] by blast
  let ?s1 = "apply_update s u"
  show ?thesis
  proof (cases "verdict_of ?s1 = PStr ''benign''")
    case True
    then have "successor Threat_Detection ?s1 = Some (At Report)" by (simp add: route_after_threat_def verdict_of_def)
    moreover obtain s' where s': "gate_run ag clock Report ?s1 [Report, Remediation, Triage] s'" "verdict_of s' = verdict_of ?s1"
      using gate_run_from_report[OF assms] by blast
    ultimately have "gate_run ag clock Threat_Detection s (Threat_Detection # [Report, Remediation, Triage]) s'"
      using gate_run_step[OF _ _ u] by simp
    then show ?thesis using True s'(2) by (intro exI[of _ s']) simp
  next
    case False
    then have q: "successor Threat_Detection ?s1 = Some (At Cve_Research)" by (simp add: route_after_threat_def verdict_of_def)
    obtain v where v: "node_runs ag clock Cve_Research ?s1 v"
      using agents_work_run[OF assms, of Cve_Research] by blast
    let ?s2 = "apply_update ?s1 v"
    obtain s' where s': "gate_run ag clock Report ?s2 [Report, Remediation, Triage] s'" "verdict_of s' = verdict_of ?s2"
      using gate_run_from_report[OF assms] by blast
    have "gate_run ag clock Threat_Detection s (Threat_Detection # Cve_Research # [Report, Remediation, Triage]) s'"
      by (rule gate_run_step[OF _ _ u q], simp, simp) (rule gate_run_step[OF _ _ v _ s'(1)], simp_all)
    then show ?thesis using False s'(2) verdict_kept[OF _ node_runsD[OF v]] by (intro exI[of _ s']) simp
  qed
qed

lemma gate_run_from_seed:
  assumes "agents_work ag"
  shows "\<exists>s'. gate_run ag clock Ingest_Seed s ([Ingest_Seed, Log_Analysis, Threat_Detection]
    @ (if verdict_of s' = PStr ''benign'' then [] else [Cve_Research]) @ [Report, Remediation, Triage]) s'"
proof -
  let ?u = "ingest_seed (clock (length (node_history s))) s"
  have u: "node_runs ag clock Ingest_Seed s ?u" by (simp add: node_runs_def)
  let ?s1 = "apply_update s ?u"
  obtain v where v: "node_runs ag clock Log_Analysis ?s1 v"
    using agents_work_run[OF assms, of Log_Analysis] by blast
  obtain s' where s': "gate_run ag clock Threat_Detection (apply_update ?s1 v)
    (Threat_Detection # (if verdict_of s' = PStr ''benign'' then [] else [Cve_Research]) @ [Report, Remediation, Triage]) s'"
    using gate_run_from_threat[OF assms] by blast
  have "gate_run ag clock Log_Analysis ?s1 (Log_Analysis # Threat_Detection #
      (if verdict_of s' = PStr ''benign'' then [] else [Cve_Research]) @ [Report, Remediation, Triage]) s'"
    by (rule gate_run_step[OF _ _ v _ s']) simp_all
  then have "gate_run ag clock Ingest_Seed s (Ingest_Seed # Log_Analysis # Threat_Detection #
      (if verdict_of s' = PStr ''benign'' then [] else [Cve_Research]) @ [Report, Remediation, Triage]) s'"
    by (intro gate_run_step[OF _ _ u]) simp_all
  then show ?thesis by (intro exI[of _ s']) (simp only: append_Cons append_Nil)
qed


text \<open>What a decision at the gate leads to.\<close>

lemma gate_decided:
  assumes "channels s ds []" "map_of d ''decision'' = Some (PStr (decision_value dec))"
  obtains u where "human_gate now d s = Inr u" "channels (apply_update s u) (ds @ [PDict d]) []"
    "last_decision (apply_update s u) = PStr (decision_value dec)"
    "map tr_node (node_history (apply_update s u)) = map tr_node (node_history s) @ [''human_gate'']"
    "investigation (apply_update s u) = investigation s"
proof -
  obtain u where u: "human_gate now d s = Inr u" using assms(2) by (simp add: human_gate_def)
  have ch: "channels (apply_update s u) (ds @ [PDict d]) []" by (rule channels_gate[OF assms(1) u])
  have "last_decision (apply_update s u) = PStr (decision_value dec)"
    using channels_read(3)[OF ch] assms(2) by (simp add: pget_def)
  moreover have "map tr_node (node_history (apply_update s u)) = map tr_node (node_history s) @ [''human_gate'']"
    using gate_writes(4)[OF u] by (simp add: history_apply)
  moreover have "investigation (apply_update s u) = investigation s"
    using gate_writes(5)[OF u] by (simp add: apply_update_def)
  ultimately show ?thesis using that u ch by blast
qed

lemma route_decided:
  assumes "last_decision s = PStr (decision_value dec)"
  shows "route_after_gate s = (case dec of Approve \<Rightarrow> Notify | Redirect \<Rightarrow> Triage | _ \<Rightarrow> Close)"
  using assms by (cases dec) (simp_all add: route_after_gate_def)

lemma run_close:
  assumes "channels s ds ps"
  obtains s' where "advance ag clock Close s = ([(END, s')], None)" "g_status s' = ''closed''" "channels s' ds ps"
    "map tr_node (node_history s') = map tr_node (node_history s) @ [''close'']" "investigation s' = investigation s"
proof -
  let ?now = "clock (length (node_history s))"
  have run: "run_node ag ?now None Close s = Some (Inr (close ?now s))" by simp
  have inv: "investigation (apply_update s (close ?now s)) = investigation s"
    by (simp add: apply_update_def close_def base_update_def)
  have "advance ag clock Close s = ([(END, apply_update s (close ?now s))], None)"
    by (subst advance.simps) (simp add: Let_def)
  then show ?thesis
    using that channels_automatic[OF assms _ run] nodes_apply[OF _ run] run_node_writes(3)[OF _ run] inv
    by (simp add: status_apply node_status_def)
qed

lemma run_notify:
  assumes "channels s ds []"
  obtains s' c where "advance ag clock Notify s = ([c, (END, s')], None)" "g_status s' = ''closed''"
    "channels s' ds [PDict (alert_of s)]" "investigation s' = investigation s"
    "map tr_node (node_history s') = map tr_node (node_history s) @ [''notify'', ''close'']"
proof -
  let ?now = "clock (length (node_history s))"
  let ?s1 = "apply_update s (notify ?now s)"
  have run: "run_node ag ?now None Notify s = Some (Inr (notify ?now s))" by simp
  have inv: "investigation ?s1 = investigation s"
    by (simp add: apply_update_def notify_def base_update_def)
  have ch: "channels ?s1 ds [PDict (alert_of s)]" using channels_automatic[OF assms _ run] by simp
  obtain s' where s': "advance ag clock Close ?s1 = ([(END, s')], None)" "g_status s' = ''closed''"
    "channels s' ds [PDict (alert_of s)]" "investigation s' = investigation ?s1"
    "map tr_node (node_history s') = map tr_node (node_history ?s1) @ [''close'']"
    using run_close[OF ch] by blast
  have "node_runs ag clock Notify s (notify ?now s)" by (simp add: node_runs_def)
  then have "advance ag clock Notify s = ([(At Close, ?s1), (END, s')], None)"
    using advance_step[of Notify ag clock s "notify ?now s" Close] s'(1) by simp
  then show ?thesis using that s' nodes_apply[OF _ run] inv by simp
qed

lemma run_redirect:
  assumes "channels s ds ps"
  obtains s' where "advance ag clock Triage s = ([(At Human_Gate, s')], None)" "g_status s' = ''awaiting_approval''"
    "channels s' ds ps" "investigation s' = investigation s"
    "map tr_node (node_history s') = map tr_node (node_history s) @ [''triage'']"
proof -
  let ?now = "clock (length (node_history s))"
  let ?s1 = "apply_update s (triage ?now s)"
  have run: "run_node ag ?now None Triage s = Some (Inr (triage ?now s))" by simp
  have "node_runs ag clock Triage s (triage ?now s)" by (simp add: node_runs_def)
  then have "advance ag clock Triage s = ([(At Human_Gate, ?s1)], None)"
    using advance_step[of Triage ag clock s "triage ?now s" Human_Gate] by (simp add: advance_gate)
  moreover have "investigation ?s1 = investigation s" by (simp add: apply_update_def triage_def base_update_def)
  ultimately show ?thesis
    using that channels_automatic[OF assms _ run] nodes_apply[OF _ run] run_node_writes(3)[OF _ run]
    by (simp add: status_apply node_status_def)
qed

lemma resume_at_gate:
  assumes "thread st tid = (At Human_Gate, s) # rest" "coerce_decision inp = Inr d"
    "human_gate (clock (length (node_history s))) d s = Inr u"
    "advance ag clock (route_after_gate (apply_update s u)) (apply_update s u) = (cps, None)"
  shows "\<exists>st'. resume ag clock st tid inp = Inr (st', None) \<and>
    thread st' tid = rev ((At (route_after_gate (apply_update s u)), apply_update s u) # cps) @ thread st tid"
  using assms by (auto simp: resume_def Let_def thread_def dict_set_lookup)

lemma reachable_gate_channels:
  assumes "reachable ag (new_state tid trigger snapshot created ev assets) (At Human_Gate, s)"
  shows "\<exists>ds. channels s ds []"
  using graph_inv_reachable[OF assms refl] unfolding graph_inv_def by auto


section \<open>Properties\<close>

text \<open>C1: In every reachable configuration, whatever the agents return, an alert is pending only after a recorded
  approval: the last human decision is an approval, there is exactly one alert, and the notify node itself is
  entered only under an approval.\<close>

theorem no_alert_without_approval:
  assumes "reachable ag (new_state tid trigger snapshot created ev assets) (q, s)"
  shows "(alerts s \<noteq> [] \<longrightarrow> last_decision s = PStr ''approve'' \<and> length (alerts s) = 1) \<and>
    (q = At Notify \<longrightarrow> last_decision s = PStr ''approve'' \<and> alerts s = [])"
proof -
  obtain ds ps where ch: "channels s ds ps"
    and nt: "q = At Notify \<longrightarrow> last_decision s = PStr ''approve''"
    and ps: "ps = [] \<or> (q \<in> {At Close, END} \<and> length ps = 1 \<and> last_decision s = PStr ''approve'')"
    using graph_inv_reachable[OF assms refl] unfolding graph_inv_def by auto
  have "alerts s = ps" by (rule channels_read(2)[OF ch])
  then show ?thesis using nt ps by auto
qed

text \<open>In every reachable configuration an investigation is closed exactly when the run has ended, and then a
  human decision is on record; every recorded decision is one of the four valid ones.\<close>

theorem closed_needs_decision:
  assumes "reachable ag (new_state tid trigger snapshot created ev assets) (q, s)"
  shows "(g_status s = ''closed'' \<longleftrightarrow> q = END) \<and> (q = END \<longrightarrow> human_decisions s \<noteq> []) \<and>
    list_all decision_ok (human_decisions s)"
proof -
  obtain ds ps where ch: "channels s ds ps" and ok: "list_all decision_ok ds"
    and e: "q \<in> {At Notify, At Close, END} \<longrightarrow> ds \<noteq> []" and c: "g_status s = ''closed'' \<longleftrightarrow> q = END"
    using graph_inv_reachable[OF assms refl] unfolding graph_inv_def by auto
  have "human_decisions s = ds" by (rule channels_read(1)[OF ch])
  then show ?thesis using ok e c by auto
qed

text \<open>No run touches its inputs: evidence, shared assets, pinned configuration and identity are those the
  investigation was started with, and the transition log is numbered 0, 1, 2, ... without gaps.\<close>

theorem inputs_untouched_history_numbered:
  assumes "reachable ag (new_state tid trigger snapshot created ev assets) (q, s)"
  shows "evidence s = evidence (new_state tid trigger snapshot created ev assets) \<and>
    shared s = shared (new_state tid trigger snapshot created ev assets) \<and>
    config_snapshot s = setdefault ''schema_version'' (PInt 2) snapshot \<and> investigation_id s = tid \<and>
    map sequence (node_history s) = [0..<length (node_history s)]"
  using graph_inv_reachable[OF assms refl]
  by (simp add: graph_inv_def new_state_def Let_def STATE_SCHEMA_VERSION_def)


text \<open>C20: Starting a fresh investigation whose agents all answer ends at the human gate: the run visits exactly
  ingest, log analysis, threat detection, CVE research unless the verdict is benign, report, remediation and
  triage, in this order, and stops awaiting approval with no alert and no decision.\<close>

theorem start_reaches_gate:
  assumes "agents_work ag" "thread st tid = []"
  shows "case start ag clock st tid trigger snapshot created ev assets of (st', err) \<Rightarrow>
    err = None \<and> (\<exists>s rest. thread st' tid = (At Human_Gate, s) # rest \<and>
      g_status s = ''awaiting_approval'' \<and> human_decisions s = [] \<and> alerts s = [] \<and>
      map tr_node (node_history s) = map node_name ([Ingest_Seed, Log_Analysis, Threat_Detection]
        @ (if verdict_of s = PStr ''benign'' then [] else [Cve_Research]) @ [Report, Remediation, Triage]))"
proof -
  let ?s0 = "new_state tid trigger snapshot created ev assets"
  obtain s where g: "gate_run ag clock Ingest_Seed ?s0 ([Ingest_Seed, Log_Analysis, Threat_Detection]
      @ (if verdict_of s = PStr ''benign'' then [] else [Cve_Research]) @ [Report, Remediation, Triage]) s"
    using gate_run_from_seed[OF assms(1)] by blast
  then obtain cps where adv: "advance ag clock Ingest_Seed ?s0 = (cps @ [(At Human_Gate, s)], None)"
    by (auto simp: gate_run_def)
  have "node_history ?s0 = []" by (simp add: new_state_def Let_def)
  then have hist: "map tr_node (node_history s) = map node_name ([Ingest_Seed, Log_Analysis, Threat_Detection]
      @ (if verdict_of s = PStr ''benign'' then [] else [Cve_Research]) @ [Report, Remediation, Triage])"
    and st: "g_status s = ''awaiting_approval''" and c: "conversation s = conversation ?s0" "notification s = notification ?s0"
    using g by (simp_all only: gate_run_def list.map append_Nil) 
  have "channels s [] []" using channels_new_state c by (simp add: channels_def)
  then have d: "human_decisions s = []" "alerts s = []" using channels_read by auto
  obtain st' where eq: "start ag clock st tid trigger snapshot created ev assets = (st', None)"
    and th: "thread st' tid = (At Human_Gate, s) # rev cps @ [(At Ingest_Seed, ?s0)]"
    using adv assms(2) by (auto simp: start_def apply_input_def Let_def thread_def dict_set_lookup)
  show ?thesis unfolding eq prod.case using th hist st d by blast
qed

text \<open>At the gate of a reachable configuration every valid decision is carried out: an approval prepares one
  alert and closes, an edit or a rejection closes without any alert, a redirect returns to the gate after triage
  alone; earlier checkpoints are kept and the findings are left as they were.\<close>

theorem decision_outcomes:
  assumes "thread st tid = (At Human_Gate, s) # rest"
    and "reachable ag (new_state i trigger snapshot created ev assets) (At Human_Gate, s)"
    and "coerce_decision inp = Inr d" "map_of d ''decision'' = Some (PStr (decision_value dec))"
  shows "\<exists>st' q s' new. resume ag clock st tid inp = Inr (st', None) \<and>
    thread st' tid = ((q, s') # new) @ thread st tid \<and> investigation s' = investigation s \<and>
    human_decisions s' = human_decisions s @ [PDict d] \<and>
    map tr_node (node_history s') = map tr_node (node_history s) @ ''human_gate'' #
      (case dec of Approve \<Rightarrow> [''notify'', ''close''] | Redirect \<Rightarrow> [''triage''] | _ \<Rightarrow> [''close'']) \<and>
    length (alerts s') = (if dec = Approve then 1 else 0) \<and>
    (q, g_status s') = (if dec = Redirect then (At Human_Gate, ''awaiting_approval'') else (END, ''closed''))"
proof -
  obtain ds where ch: "channels s ds []" using reachable_gate_channels[OF assms(2)] by blast
  obtain u where u: "human_gate (clock (length (node_history s))) d s = Inr u"
    and ch1: "channels (apply_update s u) (ds @ [PDict d]) []"
    and l1: "last_decision (apply_update s u) = PStr (decision_value dec)"
    and h1: "map tr_node (node_history (apply_update s u)) = map tr_node (node_history s) @ [''human_gate'']"
    and i1: "investigation (apply_update s u) = investigation s"
    using gate_decided[OF ch assms(4)] by blast
  note r = route_decided[OF l1] and at = resume_at_gate[where clock = clock, OF assms(1,3) u]
  have ds: "human_decisions s = ds" by (rule channels_read(1)[OF ch])
  show ?thesis
  proof (cases dec)
    case Approve
    obtain s' c where s': "advance ag clock Notify (apply_update s u) = ([c, (END, s')], None)" "g_status s' = ''closed''"
      "channels s' (ds @ [PDict d]) [PDict (alert_of (apply_update s u))]" "investigation s' = investigation (apply_update s u)"
      "map tr_node (node_history s') = map tr_node (node_history (apply_update s u)) @ [''notify'', ''close'']"
      using run_notify[OF ch1] by blast
    then show ?thesis
      using Approve at[of ag "[c, (END, s')]"] r h1 i1 ds channels_read(1,2)[OF s'(3)] by auto
  next
    case Redirect
    obtain s' where s': "advance ag clock Triage (apply_update s u) = ([(At Human_Gate, s')], None)"
      "g_status s' = ''awaiting_approval''" "channels s' (ds @ [PDict d]) []"
      "investigation s' = investigation (apply_update s u)"
      "map tr_node (node_history s') = map tr_node (node_history (apply_update s u)) @ [''triage'']"
      using run_redirect[OF ch1] by blast
    then show ?thesis
      using Redirect at[of ag "[(At Human_Gate, s')]"] r h1 i1 ds channels_read(1,2)[OF s'(3)] by auto
  next
    case Edit
    obtain s' where s': "advance ag clock Close (apply_update s u) = ([(END, s')], None)" "g_status s' = ''closed''"
      "channels s' (ds @ [PDict d]) []" "map tr_node (node_history s') = map tr_node (node_history (apply_update s u)) @ [''close'']"
      "investigation s' = investigation (apply_update s u)"
      using run_close[OF ch1] by blast
    then show ?thesis
      using Edit at[of ag "[(END, s')]"] r h1 i1 ds channels_read(1,2)[OF s'(3)] by auto
  next
    case Reject
    obtain s' where s': "advance ag clock Close (apply_update s u) = ([(END, s')], None)" "g_status s' = ''closed''"
      "channels s' (ds @ [PDict d]) []" "map tr_node (node_history s') = map tr_node (node_history (apply_update s u)) @ [''close'']"
      "investigation s' = investigation (apply_update s u)"
      using run_close[OF ch1] by blast
    then show ?thesis
      using Reject at[of ag "[(END, s')]"] r h1 i1 ds channels_read(1,2)[OF s'(3)] by auto
  qed
qed

text \<open>A resume is accepted exactly when the thread has a node left to run and the decision is one of the
  four words in any letter case. In particular a thread stopped before a failed node, where no gate is pending,
  is not refused.\<close>

theorem resume_accepted_iff:
  "isl (resume ag clock st tid inp) =
     (\<not> ((\<exists>n s rest. thread st tid = (At n, s) # rest) \<and>
     lower (str_val (case inp of Decision_Text w \<Rightarrow> PStr w | Decision_Mapping m \<Rightarrow> pget_or m ''decision'' (PStr [])))
       \<in> {''approve'', ''edit'', ''reject'', ''redirect''}))"
proof -
  have c: "isl (coerce_decision inp) \<longleftrightarrow>
     lower (str_val (case inp of Decision_Text w \<Rightarrow> PStr w | Decision_Mapping m \<Rightarrow> pget_or m ''decision'' (PStr [])))
       \<notin> {''approve'', ''edit'', ''reject'', ''redirect''}"
    unfolding coerce_decision_def valid_decisions_def Let_def
    by (cases inp) (simp_all add: pget_or_def)
  have "isl (resume ag clock st tid inp) = (\<not> ((\<exists>n s rest. thread st tid = (At n, s) # rest) \<and> \<not> isl (coerce_decision inp)))"
    unfolding resume_def
    by (auto simp: Let_def case_prod_beta split: list.splits prod.splits endpoint.splits sum.splits option.splits)
  then show ?thesis unfolding c not_not .
qed


section \<open>Witnesses\<close>

text \<open>A suite of agents that answer every request: one event, a malicious verdict, nothing else found.\<close>

definition sample_envelope :: outcome_envelope where
  "sample_envelope = \<lparr>oe_prompt_version = PStr ''1'', oe_confidence = PFloat 1, oe_tool_calls = []\<rparr>"

definition sample_agents :: agent_suite where
  "sample_agents = \<lparr>
     log_analyzer = (\<lambda>r. Inr (\<lparr>lo_events = [PDict [(''message'', PStr ''failed login'')]], lo_timeline = [], lo_gaps = [],
        lo_correlations = 0, lo_quarantined = 0, lo_source_coverage = PFloat 1, lo_parse_failure_rate = PFloat 0\<rparr>, sample_envelope)),
     threat_detector = (\<lambda>r. Inr (\<lparr>to_dump = [(''verdict'', PStr ''malicious'')], to_verdict = Malicious, to_severity = Sev_High,
        to_severity_score = 8, to_priority = Prio_High, to_signals = 1, to_iocs = 0, to_techniques = [],
        to_enrichment_status = ''complete'', to_escalation_required = False\<rparr>, sample_envelope)),
     readable_asset = (\<lambda>_. True),
     cve_researcher = (\<lambda>r. Inr (\<lparr>co_dump = [], co_confirmed = 0, co_candidates = 0, co_searched_products = [],
        co_highest_severity = None, co_stale = False\<rparr>, sample_envelope)),
     incident_reporter = (\<lambda>r. Inr (\<lparr>ro_executive_summary = PStr ''summary'', ro_technical_body = PStr ''body'', ro_citations = [],
        ro_status = ''draft'', ro_findings = 0, ro_timeline = 0, ro_affected_assets = [], ro_caveats = [], ro_complete = True\<rparr>, sample_envelope)),
     patch_recommender = (\<lambda>r. Inr (\<lparr>po_dump = [], po_recommendations = 0, po_highest_priority = None, po_overall_risk = None,
        po_knowledge_limited = False, po_requires_human_approval = True\<rparr>, sample_envelope))\<rparr>"

definition sample_state :: graph_state where
  "sample_state = new_state ''inv-1'' ''manual'' [] ''t0'' None None"

lemma sample_agents_work: "agents_work sample_agents"
  by (simp add: agents_work_def sample_agents_def)

text \<open>The sample reaches the gate, and an approval there takes it to the end with an alert.\<close>

lemma sample_gate: "\<exists>s. reachable sample_agents sample_state (At Human_Gate, s)"
proof -
  obtain s cps where "advance sample_agents (\<lambda>_. []) Ingest_Seed sample_state = (cps @ [(At Human_Gate, s)], None)"
    using gate_run_from_seed[OF sample_agents_work] unfolding gate_run_def by blast
  then have "(At Human_Gate, s) \<in> set (fst (advance sample_agents (\<lambda>_. []) Ingest_Seed sample_state))" by simp
  moreover have "reachable sample_agents sample_state (At Ingest_Seed, sample_state)"
    by (rule reachable.seeded) (simp add: static_edges_def)
  ultimately show ?thesis using advance_reachable by blast
qed

lemma sample_approved: "\<exists>s. reachable sample_agents sample_state (END, s) \<and> alerts s \<noteq> []"
proof -
  obtain s where s: "reachable sample_agents sample_state (At Human_Gate, s)" using sample_gate by blast
  obtain ds where ch: "channels s ds []" using reachable_gate_channels[OF s[unfolded sample_state_def]] by blast
  define d where "d = [(''decision'', PStr ''approve'')]"
  have cd: "coerce_decision (Decision_Text ''approve'') = Inr d" unfolding d_def by code_simp
  have "map_of d ''decision'' = Some (PStr (decision_value Approve))" by (simp add: d_def)
  then obtain u where u: "human_gate [] d s = Inr u" and ch1: "channels (apply_update s u) (ds @ [PDict d]) []"
    and l1: "last_decision (apply_update s u) = PStr (decision_value Approve)"
    using gate_decided[OF ch] by blast
  have "graph_step sample_agents (At Human_Gate, s) (At Notify, apply_update s u)"
    using graph_step.decided[OF cd, where now = "[]"] u route_decided[OF l1] by simp
  then have "reachable sample_agents sample_state (At Notify, apply_update s u)"
    using s reachable.stepped by blast
  moreover obtain s' c where "advance sample_agents (\<lambda>_. []) Notify (apply_update s u) = ([c, (END, s')], None)"
    "channels s' (ds @ [PDict d]) [PDict (alert_of (apply_update s u))]"
    using run_notify[OF ch1] by blast
  moreover from this(2) have "alerts s' = [PDict (alert_of (apply_update s u))]" by (rule channels_read(2))
  ultimately show ?thesis
    using advance_reachable[of sample_agents sample_state Notify "apply_update s u" "(END, s')" "\<lambda>_. []"]
    by (intro exI[of _ s']) simp
qed

theorem no_alert_without_approval_witness:
  "\<exists>s. reachable sample_agents sample_state (END, s) \<and> alerts s \<noteq> [] \<and> last_decision s = PStr ''approve''"
proof -
  obtain s where s: "reachable sample_agents sample_state (END, s)" "alerts s \<noteq> []" using sample_approved by blast
  then show ?thesis using no_alert_without_approval[OF s(1)[unfolded sample_state_def]] by blast
qed

theorem closed_needs_decision_witness:
  "\<exists>s. reachable sample_agents sample_state (END, s) \<and> g_status s = ''closed'' \<and> human_decisions s \<noteq> []"
proof -
  obtain s where s: "reachable sample_agents sample_state (END, s)" using sample_approved by blast
  then show ?thesis using closed_needs_decision[OF s[unfolded sample_state_def]] by blast
qed

theorem inputs_untouched_history_numbered_witness:
  "\<exists>s. reachable sample_agents sample_state (At Human_Gate, s) \<and> evidence s = evidence sample_state
     \<and> map sequence (node_history s) = [0..<length (node_history s)]"
proof -
  obtain s where s: "reachable sample_agents sample_state (At Human_Gate, s)" using sample_gate by blast
  then show ?thesis
    using inputs_untouched_history_numbered[OF s[unfolded sample_state_def]] unfolding sample_state_def by blast
qed

theorem start_reaches_gate_witness:
  "snd (start sample_agents (\<lambda>_. ''t'') [] ''inv-1'' ''manual'' [] ''t0'' None None) = None"
  using start_reaches_gate[OF sample_agents_work, of "[]" "''inv-1''" "\<lambda>_. ''t''" "''manual''" "[]" "''t0''" None None]
  by (simp add: thread_def case_prod_beta)

theorem decision_outcomes_witness:
  "\<exists>s st'. resume sample_agents (\<lambda>_. ''t'') [(''inv-1'', [(At Human_Gate, s)])] ''inv-1'' (Decision_Text ''Reject'') = Inr (st', None)"
proof -
  obtain s where s: "reachable sample_agents sample_state (At Human_Gate, s)" using sample_gate by blast
  have cd: "coerce_decision (Decision_Text ''Reject'') = Inr [(''decision'', PStr ''reject'')]" by code_simp
  have th: "thread [(''inv-1'', [(At Human_Gate, s)])] ''inv-1'' = (At Human_Gate, s) # []" by (simp add: thread_def)
  show ?thesis
    using decision_outcomes[OF th s[unfolded sample_state_def] cd, of Reject "\<lambda>_. ''t''"] by auto
qed

end
