(* ===== verification/Dispatch.thy ===== *)
theory Dispatch
  imports Channels
begin

text \<open>
  Who is told, where and in what order (\<^verbatim>\<open>services/notifications.py\<close>), and the dispatch of approved alerts
  (\<^verbatim>\<open>backend/services/notifications.py\<close>). The database session is a record of the rows the service reads
  and writes; identifiers are their text. A channel adapter is a function that also threads the state
  of the outside world (type \<open>'w\<close>). The hash behind the dedupe key is the argument \<open>sha256\<close>. Shown: nothing
  is sent without a matching approval, suppression changes nothing, a channel after one that delivered
  is never used, a dead letter is recorded exactly when every attempted delivery failed, a delivered
  target is never attempted again, and what a repeated dispatch does.
\<close>

section \<open>Policy\<close>

record alert_settings =
  notification_channel_order :: "notification_channel list"
  slack_channel :: string
  email_recipients :: "string list"
  notification_min_priority :: triage_priority
  notification_max_attempts :: nat

fun priority_rank :: "triage_priority \<Rightarrow> int" where
  "priority_rank Prio_Low = 0"
| "priority_rank Prio_Medium = 1"
| "priority_rank Prio_High = 2"
| "priority_rank Prio_Urgent = 3"

definition is_worth_alerting :: "triage_priority \<Rightarrow> triage_priority \<Rightarrow> bool" where
  "is_worth_alerting priority minimum = (priority_rank priority \<ge> priority_rank minimum)"

definition dedupe_material :: "string \<Rightarrow> string \<Rightarrow> notification_channel \<Rightarrow> string \<Rightarrow> string" where
  "dedupe_material inv_id approval channel recipient =
     join ''|'' [inv_id, approval, channel_value channel, lower (strip recipient)]"

definition dedupe_key ::
  "(string \<Rightarrow> string) \<Rightarrow> string \<Rightarrow> string \<Rightarrow> notification_channel \<Rightarrow> string \<Rightarrow> string" where
  "dedupe_key sha256 inv_id approval channel recipient = sha256 (dedupe_material inv_id approval channel recipient)"

record alert_target =
  at_channel :: notification_channel
  at_recipient :: string

definition target :: "notification_channel \<Rightarrow> string \<Rightarrow> alert_target" where
  "target c r = \<lparr>at_channel = c, at_recipient = r\<rparr>"

fun channel_targets :: "alert_settings \<Rightarrow> notification_channel \<Rightarrow> alert_target list" where
  "channel_targets s Slack = [target Slack (if slack_channel s \<noteq> [] then slack_channel s else ''slack-webhook'')]"
| "channel_targets s Email = map (target Email) (email_recipients s)"
| "channel_targets s Webhook = []"

definition resolve_targets :: "alert_settings \<Rightarrow> alert_target list" where
  "resolve_targets s = concat (map (channel_targets s) (notification_channel_order s))"

text \<open>\<^verbatim>\<open>failover_plan\<close>, with the tiers built so far.\<close>

fun plan_tiers :: "alert_target list list \<Rightarrow> alert_target list \<Rightarrow> alert_target list list" where
  "plan_tiers tiers [] = tiers"
| "plan_tiers tiers (t # ts) =
     (if tiers \<noteq> [] \<and> at_channel (hd (last tiers)) = at_channel t
      then plan_tiers (butlast tiers @ [last tiers @ [t]]) ts
      else plan_tiers (tiers @ [[t]]) ts)"

definition failover_plan :: "alert_target list \<Rightarrow> alert_target list list" where
  "failover_plan targets = plan_tiers [] targets"


section \<open>The session\<close>

record human_decision =
  hd_id :: string
  hd_conversation_id :: string
  hd_decision :: decision_type

record conversation_row =
  cv_id :: string
  cv_investigation_id :: string

record notification_row =
  nr_investigation_id :: string
  nr_approval_id :: string
  nr_channel :: notification_channel
  nr_recipient :: string
  nr_dedupe_key :: string
  nr_priority :: triage_priority
  nr_status :: notification_status
  nr_delivery_attempts :: nat
  nr_failure_reason :: "string option"
  nr_sent_at :: "time option"

record audit_entry =
  au_action :: string
  au_entity_type :: string
  au_entity_id :: string
  au_actor_id :: "string option"
  au_after_ref :: string

record 'w session =
  decisions :: "human_decision list"
  conversations :: "conversation_row list"
  notifications :: "notification_row list"
  audit :: "audit_entry list"
  world :: 'w

type_synonym 'w adapter = "'w \<Rightarrow> string \<Rightarrow> rendered_message \<Rightarrow> send_result \<times> 'w"

datatype unapproved_dispatch_error = No_Human_Decision string | Foreign_Decision string string
  | Not_An_Approval string decision_type | No_Notification nat | Already_Delivered

definition verify_approval :: "'w session \<Rightarrow> string \<Rightarrow> string \<Rightarrow> unapproved_dispatch_error + human_decision" where
  "verify_approval s inv_id approval = (case find (\<lambda>d. hd_id d = approval) (decisions s) of
     None \<Rightarrow> Inl (No_Human_Decision approval)
   | Some d \<Rightarrow>
     (case find (\<lambda>c. cv_id c = hd_conversation_id d) (conversations s) of
        None \<Rightarrow> Inl (Foreign_Decision approval inv_id)
      | Some c \<Rightarrow>
          if cv_investigation_id c \<noteq> inv_id then Inl (Foreign_Decision approval inv_id)
          else if hd_decision d \<noteq> Approve then Inl (Not_An_Approval approval (hd_decision d))
          else Inr d))"


section \<open>Delivery\<close>

record delivery_outcome =
  do_channel :: notification_channel
  do_recipient :: string
  delivered :: bool
  attempts :: nat
  do_detail :: string
  refused :: bool

text \<open>The attempt loop: stops at a delivery or a refusal, or when the attempts are used up.\<close>

fun try_attempts :: "'w adapter \<Rightarrow> string \<Rightarrow> rendered_message \<Rightarrow> nat \<Rightarrow> nat \<Rightarrow> send_result \<Rightarrow> 'w \<Rightarrow> send_result \<times> nat \<times> 'w" where
  "try_attempts send recipient msg 0 done r w = (r, done, w)"
| "try_attempts send recipient msg (Suc left) done r w =
     (let (r', w') = send w recipient msg in
      if sr_delivered r' \<or> sr_refused r' then (r', done + 1, w')
      else try_attempts send recipient msg left (done + 1) r' w')"

definition send_to ::
  "alert_settings \<Rightarrow> 'w adapter option \<Rightarrow> notification_channel \<Rightarrow> string \<Rightarrow> rendered_message \<Rightarrow> 'w \<Rightarrow> send_result \<times> nat \<times> 'w" where
  "send_to settings adapter channel recipient msg w =
     (let r0 = send_refuse (channel_value channel @ '' has no adapter configured'') in
      case adapter of None \<Rightarrow> (r0, 0, w)
      | Some send \<Rightarrow> try_attempts send recipient msg (notification_max_attempts settings) 0 r0 w)"

fun row_index :: "string \<Rightarrow> notification_row list \<Rightarrow> nat option" where
  "row_index key [] = None"
| "row_index key (r # rs) = (if nr_dedupe_key r = key then Some 0 else map_option Suc (row_index key rs))"

text \<open>The row after an attempt; \<open>failed\<close> is the status of a delivery that did not get through.\<close>

definition settle_row :: "time \<Rightarrow> notification_status \<Rightarrow> send_result \<Rightarrow> nat \<Rightarrow> notification_row \<Rightarrow> notification_row" where
  "settle_row now failed r n row =
     (let row = row\<lparr>nr_delivery_attempts := nr_delivery_attempts row + n\<rparr> in
      if sr_delivered r then row\<lparr>nr_status := Ns_Sent, nr_sent_at := Some now, nr_failure_reason := None\<rparr>
      else row\<lparr>nr_status := failed, nr_failure_reason := Some (take 500 (sr_detail r))\<rparr>)"

definition outcome_of :: "notification_channel \<Rightarrow> string \<Rightarrow> send_result \<Rightarrow> nat \<Rightarrow> delivery_outcome" where
  "outcome_of channel recipient r n = \<lparr>do_channel = channel, do_recipient = recipient, delivered = sr_delivered r,
     attempts = n, do_detail = sr_detail r, refused = sr_refused r\<rparr>"

record 'w dispatcher =
  dp_settings :: alert_settings
  dp_channels :: "notification_channel \<Rightarrow> 'w adapter option"
  dp_sha256 :: "string \<Rightarrow> string"
  dp_alnum :: "nat \<Rightarrow> bool"
  dp_now :: time

definition target_key :: "'w dispatcher \<Rightarrow> alert_request \<Rightarrow> alert_target \<Rightarrow> string" where
  "target_key dp a t = dedupe_key (dp_sha256 dp) (al_investigation_id a) (al_approval_id a) (at_channel t) (at_recipient t)"

definition new_row :: "'w dispatcher \<Rightarrow> alert_request \<Rightarrow> alert_target \<Rightarrow> notification_row" where
  "new_row dp a t = \<lparr>nr_investigation_id = al_investigation_id a, nr_approval_id = al_approval_id a,
     nr_channel = at_channel t, nr_recipient = at_recipient t, nr_dedupe_key = target_key dp a t,
     nr_priority = al_priority a, nr_status = Ns_Pending, nr_delivery_attempts = 0,
     nr_failure_reason = None, nr_sent_at = None\<rparr>"

definition deliver ::
  "'w dispatcher \<Rightarrow> alert_request \<Rightarrow> alert_target \<Rightarrow> 'w session \<Rightarrow> delivery_outcome option \<times> 'w session" where
  "deliver dp a t s =
     (let key = target_key dp a t; found = row_index key (notifications s) in
      if (case found of Some i \<Rightarrow> nr_status (notifications s ! i) = Ns_Sent | None \<Rightarrow> False) then (None, s)
      else
        let rows = (case found of Some _ \<Rightarrow> notifications s | None \<Rightarrow> notifications s @ [new_row dp a t]);
            i = (case found of Some i \<Rightarrow> i | None \<Rightarrow> length (notifications s));
            (r, n, w) = send_to (dp_settings dp) (dp_channels dp (at_channel t)) (at_channel t) (at_recipient t)
                          (render (dp_alnum dp) a (at_channel t)) (world s)
        in (Some (outcome_of (at_channel t) (at_recipient t) r n),
            s\<lparr>notifications := rows[i := settle_row (dp_now dp) Ns_Failed r n (rows ! i)], world := w\<rparr>))"

fun deliver_tier ::
  "'w dispatcher \<Rightarrow> alert_request \<Rightarrow> alert_target list \<Rightarrow> 'w session
   \<Rightarrow> delivery_outcome list \<times> alert_target list \<times> 'w session" where
  "deliver_tier dp a [] s = ([], [], s)"
| "deliver_tier dp a (t # ts) s =
     (let (o', s1) = deliver dp a t s; (os, dd, s2) = deliver_tier dp a ts s1 in
      case o' of None \<Rightarrow> (os, t # dd, s2) | Some x \<Rightarrow> (x # os, dd, s2))"

fun deliver_tiers ::
  "'w dispatcher \<Rightarrow> alert_request \<Rightarrow> alert_target list list \<Rightarrow> 'w session
   \<Rightarrow> delivery_outcome list \<times> alert_target list \<times> 'w session" where
  "deliver_tiers dp a [] s = ([], [], s)"
| "deliver_tiers dp a (tier # tiers) s =
     (let (os, dd, s1) = deliver_tier dp a tier s in
      if list_ex delivered os then (os, dd, s1)
      else let (os', dd', s2) = deliver_tiers dp a tiers s1 in (os @ os', dd @ dd', s2))"

definition dead_letter :: "alert_request \<Rightarrow> delivery_outcome list \<Rightarrow> string option \<Rightarrow> 'w session \<Rightarrow> 'w session" where
  "dead_letter a os actor_id s =
     (let reasons = join ''; '' (map (\<lambda>x. channel_value (do_channel x) @ '': '' @ do_detail x)
                      (filter (\<lambda>x. do_detail x \<noteq> []) os));
          ref = take 1024 reasons in
      s\<lparr>notifications := map (\<lambda>r. if nr_approval_id r = al_approval_id a \<and> nr_status r = Ns_Failed
                               then r\<lparr>nr_status := Ns_Dead_Letter\<rparr> else r) (notifications s),
        audit := audit s @ [\<lparr>au_action = ''notification.dead_letter'', au_entity_type = ''investigation'',
          au_entity_id = al_investigation_id a, au_actor_id = actor_id,
          au_after_ref = (if ref = [] then ''every configured channel failed'' else ref)\<rparr>]\<rparr>)"

record dispatch_result =
  outcomes :: "delivery_outcome list"
  deduplicated :: "alert_target list"
  dead_lettered :: bool
  no_channel_configured :: bool

definition any_delivered :: "dispatch_result \<Rightarrow> bool" where
  "any_delivered r = list_ex delivered (outcomes r)"

definition attempted :: "dispatch_result \<Rightarrow> bool" where
  "attempted r = (outcomes r \<noteq> [])"

definition failed_over :: "dispatch_result \<Rightarrow> bool" where
  "failed_over r = (any_delivered r \<and> list_ex (\<lambda>x. \<not> delivered x) (outcomes r))"

text \<open>\<^verbatim>\<open>DispatchResult._dead_letter_means_nothing_got_through\<close>.\<close>

definition dispatch_result_ok :: "dispatch_result \<Rightarrow> bool" where
  "dispatch_result_ok r = (\<not> (dead_lettered r \<and> any_delivered r))"

definition empty_result :: dispatch_result where
  "empty_result = \<lparr>outcomes = [], deduplicated = [], dead_lettered = False, no_channel_configured = False\<rparr>"

definition dispatch_alert ::
  "'w dispatcher \<Rightarrow> alert_request \<Rightarrow> string option \<Rightarrow> 'w session
   \<Rightarrow> (unapproved_dispatch_error + dispatch_result) \<times> 'w session" where
  "dispatch_alert dp a actor_id s = (case verify_approval s (al_investigation_id a) (al_approval_id a) of
     Inl e \<Rightarrow> (Inl e, s)
   | Inr _ \<Rightarrow>
     (if \<not> is_worth_alerting (al_priority a) (notification_min_priority (dp_settings dp)) then (Inr empty_result, s)
      else let targets = resolve_targets (dp_settings dp) in
        if targets = [] then (Inr (empty_result\<lparr>no_channel_configured := True\<rparr>), s)
        else let (os, dd, s1) = deliver_tiers dp a (failover_plan targets) s;
                 r = empty_result\<lparr>outcomes := os, deduplicated := dd\<rparr> in
          if os \<noteq> [] \<and> \<not> list_ex delivered os
          then (Inr (r\<lparr>dead_lettered := True\<rparr>), dead_letter a os actor_id s1)
          else (Inr r, s1)))"

text \<open>\<^verbatim>\<open>retry_delivery\<close>: one failed delivery again, by the number of its row.\<close>

definition retry_delivery ::
  "'w dispatcher \<Rightarrow> nat \<Rightarrow> alert_request \<Rightarrow> string option \<Rightarrow> 'w session
   \<Rightarrow> unapproved_dispatch_error + delivery_outcome \<times> 'w session" where
  "retry_delivery dp i a actor_id s =
     (if i \<ge> length (notifications s) then Inl (No_Notification i)
      else let row = notifications s ! i in
        if nr_status row = Ns_Sent then Inl Already_Delivered
        else case verify_approval s (nr_investigation_id row) (nr_approval_id row) of
          Inl e \<Rightarrow> Inl e
        | Inr _ \<Rightarrow>
          (let (r, n, w) = send_to (dp_settings dp) (dp_channels dp (nr_channel row)) (nr_channel row) (nr_recipient row)
                             (render (dp_alnum dp) a (nr_channel row)) (world s);
               failed = (if nr_status row = Ns_Dead_Letter then Ns_Dead_Letter else Ns_Failed)
           in Inr (outcome_of (nr_channel row) (nr_recipient row) r n,
                   s\<lparr>notifications := (notifications s)[i := settle_row (dp_now dp) failed r n row], world := w,
                     audit := audit s @ [\<lparr>au_action = ''notification.retried'', au_entity_type = ''notification'',
                       au_entity_id = show_nat i, au_actor_id = actor_id,
                       au_after_ref = ''delivered='' @ (if sr_delivered r then ''True'' else ''False'')\<rparr>]\<rparr>)))"


section \<open>Facts\<close>

text \<open>The failover plan groups the targets without losing or reordering any.\<close>

definition same_channel :: "alert_target list \<Rightarrow> bool" where
  "same_channel tier = (tier \<noteq> [] \<and> list_all (\<lambda>t. at_channel t = at_channel (hd tier)) tier)"

lemma plan_tiers_concat: "concat (plan_tiers tiers ts) = concat tiers @ ts"
proof (induction tiers ts rule: plan_tiers.induct)
  case (1 tiers)
  then show ?case by simp
next
  case (2 tiers t ts)
  have "concat (butlast tiers @ [last tiers @ [t]]) = concat tiers @ [t]" if "tiers \<noteq> []"
  proof -
    have "concat tiers = concat (butlast tiers @ [last tiers])" using that by simp
    then show ?thesis by simp
  qed
  then show ?case using 2 by auto
qed

lemma plan_tiers_same: "list_all same_channel tiers \<Longrightarrow> list_all same_channel (plan_tiers tiers ts)"
proof (induction tiers ts rule: plan_tiers.induct)
  case (1 tiers)
  then show ?case by simp
next
  case (2 tiers t ts)
  have ext: "list_all same_channel (butlast tiers @ [last tiers @ [t]])"
    if ne: "tiers \<noteq> []" and ch: "at_channel (hd (last tiers)) = at_channel t"
  proof -
    have "same_channel (last tiers)" using 2(3) ne by (auto simp: list_all_iff)
    then have "same_channel (last tiers @ [t])" using ch by (auto simp: same_channel_def list_all_iff)
    moreover have "list_all same_channel (butlast tiers)"
      using 2(3) by (auto simp: list_all_iff dest: in_set_butlastD)
    ultimately show ?thesis by simp
  qed
  moreover have "list_all same_channel (tiers @ [[t]])"
  proof -
    have "same_channel [t]" by (simp add: same_channel_def)
    then show ?thesis using 2(3) by simp
  qed
  ultimately show ?case using 2(1,2) by simp
qed

lemma plan_tiers_alternate:
  "successively (\<lambda>x y. at_channel (hd x) \<noteq> at_channel (hd y)) tiers \<Longrightarrow> list_all (\<lambda>x. x \<noteq> []) tiers \<Longrightarrow>
   successively (\<lambda>x y. at_channel (hd x) \<noteq> at_channel (hd y)) (plan_tiers tiers ts)"
proof (induction tiers ts rule: plan_tiers.induct)
  case (1 tiers)
  then show ?case by simp
next
  case (2 tiers t ts)
  let ?R = "\<lambda>x y. at_channel (hd x) \<noteq> at_channel (hd y)"
  show ?case
  proof (cases "tiers \<noteq> [] \<and> at_channel (hd (last tiers)) = at_channel t")
    case True
    then obtain xs x where xs: "tiers = xs @ [x]" by (metis append_butlast_last_id)
    have x: "x \<noteq> []" using 2(4) xs by simp
    have "successively ?R (xs @ [x @ [t]])" using 2(3) x unfolding xs
      by (auto simp: successively_append_iff)
    moreover have "list_all (\<lambda>x. x \<noteq> []) (xs @ [x @ [t]])" using 2(4) xs by simp
    ultimately show ?thesis using 2(1)[OF True] True xs by simp
  next
    case False
    have "successively ?R (tiers @ [[t]])" using 2(3) False by (auto simp: successively_append_iff)
    moreover have "list_all (\<lambda>x. x \<noteq> []) (tiers @ [[t]])" using 2(4) by simp
    ultimately show ?thesis using 2(2)[OF False] by (simp only: plan_tiers.simps(2) if_not_P[OF False])
  qed
qed

text \<open>The attempts of one delivery.\<close>

lemma try_attempts_bound:
  "try_attempts send rcpt msg left n r w = (r', n', w') \<Longrightarrow> n' \<le> n + left \<and> n \<le> n'"
  by (induction send rcpt msg left n r w rule: try_attempts.induct)
     (fastforce split: prod.splits if_splits simp: Let_def)+

lemma try_attempts_last:
  "try_attempts send rcpt msg left n r w = (r', n', w') \<Longrightarrow> \<not> sr_delivered r \<Longrightarrow> sr_delivered r' \<Longrightarrow> n < n'"
  by (induction send rcpt msg left n r w rule: try_attempts.induct)
     (fastforce split: prod.splits if_splits simp: Let_def)+

lemma send_to_bound:
  assumes "send_to settings adapter c rcpt msg w = (r, n, w')"
  shows "n \<le> notification_max_attempts settings" "sr_delivered r \<Longrightarrow> 0 < n" "adapter = None \<Longrightarrow> sr_refused r \<and> w' = w"
  using assms try_attempts_bound[of _ rcpt msg "notification_max_attempts settings" 0] try_attempts_last[of _ rcpt msg "notification_max_attempts settings" 0]
  by (fastforce simp: send_to_def Let_def send_refuse_def split: option.splits)+

lemma row_index_Some: "row_index key rows = Some i \<Longrightarrow> i < length rows \<and> nr_dedupe_key (rows ! i) = key"
  by (induction rows arbitrary: i) (auto split: if_splits)

text \<open>What a delivery leaves alone: the authority, the audit trail, every row that was already sent.\<close>

definition keeps_sent :: "'w session \<Rightarrow> 'w session \<Rightarrow> bool" where
  "keeps_sent s s' = (decisions s' = decisions s \<and> conversations s' = conversations s
     \<and> length (notifications s) \<le> length (notifications s')
     \<and> (\<forall>i < length (notifications s). nr_status (notifications s ! i) = Ns_Sent \<longrightarrow> notifications s' ! i = notifications s ! i))"

lemma keeps_sent_refl [simp]: "keeps_sent s s"
  by (simp add: keeps_sent_def)

lemma keeps_sent_trans: "keeps_sent s s1 \<Longrightarrow> keeps_sent s1 s2 \<Longrightarrow> keeps_sent s s2"
  unfolding keeps_sent_def by (metis order_less_le_trans order_trans)

lemma deliver_keeps: "keeps_sent s (snd (deliver dp a t s))" "audit (snd (deliver dp a t s)) = audit s"
proof -
  obtain r n w where send: "send_to (dp_settings dp) (dp_channels dp (at_channel t)) (at_channel t) (at_recipient t)
      (render (dp_alnum dp) a (at_channel t)) (world s) = (r, n, w)" using prod_cases3 by blast
  show "audit (snd (deliver dp a t s)) = audit s" by (simp add: deliver_def Let_def send)
  show "keeps_sent s (snd (deliver dp a t s))"
  proof (cases "row_index (target_key dp a t) (notifications s)")
    case None
    then show ?thesis by (auto simp: keeps_sent_def deliver_def Let_def send nth_append)
  next
    case (Some i)
    show ?thesis
    proof (cases "nr_status (notifications s ! i) = Ns_Sent")
      case True
      then show ?thesis using Some by (simp add: deliver_def Let_def)
    next
      case False
      have "(notifications s)[i := y] ! j = notifications s ! j"
        if "nr_status (notifications s ! j) = Ns_Sent" for j y
        using that False by (cases "i = j") auto
      then show ?thesis using Some False by (simp add: keeps_sent_def deliver_def Let_def send)
    qed
  qed
qed

lemma deliver_outcome:
  assumes "fst (deliver dp a t s) = Some x"
  shows "do_channel x = at_channel t" "do_recipient x = at_recipient t" "attempts x \<le> notification_max_attempts (dp_settings dp)"
    "delivered x \<Longrightarrow> 0 < attempts x"
proof -
  obtain r n w where send: "send_to (dp_settings dp) (dp_channels dp (at_channel t)) (at_channel t) (at_recipient t)
      (render (dp_alnum dp) a (at_channel t)) (world s) = (r, n, w)" using prod_cases3 by blast
  have "x = outcome_of (at_channel t) (at_recipient t) r n"
    using assms by (auto simp: deliver_def Let_def send split: if_splits)
  then show "do_channel x = at_channel t" "do_recipient x = at_recipient t"
    "attempts x \<le> notification_max_attempts (dp_settings dp)" "delivered x \<Longrightarrow> 0 < attempts x"
    using send_to_bound[OF send] by (auto simp: outcome_of_def)
qed

lemma deliver_tier_facts:
  "deliver_tier dp a tier s = (os, dd, s') \<Longrightarrow> keeps_sent s s' \<and> audit s' = audit s \<and> set dd \<subseteq> set tier \<and>
   length os + length dd = length tier \<and>
   (\<forall>x \<in> set os. attempts x \<le> notification_max_attempts (dp_settings dp) \<and> (delivered x \<longrightarrow> 0 < attempts x) \<and>
      (\<exists>t \<in> set tier. do_channel x = at_channel t \<and> do_recipient x = at_recipient t))"
proof (induction dp a tier s arbitrary: os dd s' rule: deliver_tier.induct)
  case (1 dp a s)
  then show ?case by simp
next
  case (2 dp a t ts s)
  obtain o' s1 where d: "deliver dp a t s = (o', s1)" by force
  obtain os1 dd1 s2 where r: "deliver_tier dp a ts s1 = (os1, dd1, s2)" using prod_cases3 by blast
  have eq: "s' = s2" "(os, dd) = (case o' of None \<Rightarrow> (os1, t # dd1) | Some x \<Rightarrow> (x # os1, dd1))"
    using 2(2) by (auto simp: d r split: option.splits)
  note ih = 2(1)[OF d[symmetric] refl r]
  have k: "keeps_sent s s1" "audit s1 = audit s" using deliver_keeps(1)[of s dp a t] deliver_keeps(2)[of dp a t s] d by auto
  have "keeps_sent s s2" using keeps_sent_trans[OF k(1)] ih by blast
  then show ?case
    using ih k(2) eq deliver_outcome[of dp a t s] by (cases o') (auto simp: d)
qed

lemma deliver_tiers_facts:
  "deliver_tiers dp a tiers s = (os, dd, s') \<Longrightarrow> keeps_sent s s' \<and> audit s' = audit s \<and>
   (\<forall>x \<in> set os. attempts x \<le> notification_max_attempts (dp_settings dp) \<and> (delivered x \<longrightarrow> 0 < attempts x) \<and>
      (\<exists>t \<in> set (concat tiers). do_channel x = at_channel t \<and> do_recipient x = at_recipient t))"
proof (induction dp a tiers s arbitrary: os dd s' rule: deliver_tiers.induct)
  case (1 dp a s)
  then show ?case by simp
next
  case (2 dp a tier tiers s)
  obtain os1 dd1 s1 where t: "deliver_tier dp a tier s = (os1, dd1, s1)" using prod_cases3 by blast
  obtain os2 dd2 s2 where r: "deliver_tiers dp a tiers s1 = (os2, dd2, s2)" using prod_cases3 by blast
  note f = deliver_tier_facts[OF t]
  show ?case
  proof (cases "list_ex delivered os1")
    case True
    then show ?thesis using 2(2) f by (auto simp: t)
  next
    case False
    then have eq: "os = os1 @ os2" "s' = s2" using 2(2) by (auto simp: t r)
    note ih = 2(1)[OF t[symmetric] refl refl False r]
    have "keeps_sent s s2" using keeps_sent_trans f ih by blast
    moreover have "\<forall>x \<in> set os. attempts x \<le> notification_max_attempts (dp_settings dp) \<and> (delivered x \<longrightarrow> 0 < attempts x) \<and>
      (\<exists>t \<in> set (concat (tier # tiers)). do_channel x = at_channel t \<and> do_recipient x = at_recipient t)"
      using f ih unfolding eq(1) set_append concat.simps by blast
    ultimately show ?thesis using f ih eq(2) by simp
  qed
qed

text \<open>Once something was delivered, only its own channel is used.\<close>

lemma deliver_tiers_stop:
  "list_all same_channel tiers \<Longrightarrow> deliver_tiers dp a tiers s = (os, dd, s') \<Longrightarrow>
   sorted_wrt (\<lambda>x y. delivered x \<longrightarrow> do_channel y = do_channel x) os"
proof (induction dp a tiers s arbitrary: os dd s' rule: deliver_tiers.induct)
  case (1 dp a s)
  then show ?case by simp
next
  case (2 dp a tier tiers s)
  let ?R = "\<lambda>x y. delivered x \<longrightarrow> do_channel y = do_channel x"
  obtain os1 dd1 s1 where t: "deliver_tier dp a tier s = (os1, dd1, s1)" using prod_cases3 by blast
  have "same_channel tier" using 2(2) by simp
  then have tier: "\<forall>t \<in> set tier. at_channel t = at_channel (hd tier)"
    unfolding same_channel_def list_all_iff by blast
  have "\<forall>x \<in> set os1. \<exists>t \<in> set tier. do_channel x = at_channel t" using deliver_tier_facts[OF t] by blast
  then have same: "\<forall>x \<in> set os1. do_channel x = at_channel (hd tier)" using tier by fastforce
  have s1: "sorted_wrt ?R os1" using same by (simp add: sorted_wrt_iff_nth_less)
  show ?case
  proof (cases "list_ex delivered os1")
    case True
    then show ?thesis using 2(3) s1 by (auto simp: t)
  next
    case False
    obtain os2 dd2 s2 where r: "deliver_tiers dp a tiers s1 = (os2, dd2, s2)" using prod_cases3 by blast
    have "sorted_wrt ?R os2" using 2(1)[OF t[symmetric] refl refl False] 2(2) r by auto
    moreover have "os = os1 @ os2" using 2(3) False by (auto simp: t r)
    ultimately show ?thesis using s1 False by (auto simp: sorted_wrt_append list_ex_iff)
  qed
qed

lemma dispatch_cases:
  assumes "dispatch_alert dp a actor_id s = (Inr r, s')"
  obtains (quiet) "outcomes r = []" "\<not> dead_lettered r" "s' = s" "deduplicated r = []"
      "\<not> is_worth_alerting (al_priority a) (notification_min_priority (dp_settings dp)) \<or> resolve_targets (dp_settings dp) = []"
  | (sent) os dd s1 where "deliver_tiers dp a (failover_plan (resolve_targets (dp_settings dp))) s = (os, dd, s1)"
      "outcomes r = os" "deduplicated r = dd" "dead_lettered r = (os \<noteq> [] \<and> \<not> list_ex delivered os)"
      "s' = (if dead_lettered r then dead_letter a os actor_id s1 else s1)"
  using assms
  by (auto simp: dispatch_alert_def empty_result_def Let_def split: sum.splits if_splits prod.splits)

lemma dead_letter_keeps: "keeps_sent s (dead_letter a os actor_id s)"
  by (simp add: keeps_sent_def dead_letter_def Let_def)


lemma verified:
  assumes "verify_approval s inv_id approval = Inr d"
  shows "d \<in> set (decisions s)" "hd_id d = approval" "hd_decision d = Approve"
    "\<exists>c \<in> set (conversations s). cv_id c = hd_conversation_id d \<and> cv_investigation_id c = inv_id"
  using assms
  by (auto simp: verify_approval_def find_Some_iff split: option.splits if_splits)

lemma target_eta: "target (at_channel t) (at_recipient t) = t"
  by (simp add: target_def)

lemma dispatch_verified: "dispatch_alert dp a actor_id s = (Inr r, s') \<Longrightarrow>
    \<exists>d. verify_approval s (al_investigation_id a) (al_approval_id a) = Inr d"
  by (auto simp: dispatch_alert_def split: sum.splits)


section \<open>Properties\<close>

lemma refused:
  assumes "verify_approval s inv_id approval = Inl e"
  shows "case e of
      No_Human_Decision _ \<Rightarrow> list_all (\<lambda>d. hd_id d \<noteq> approval) (decisions s)
    | Foreign_Decision _ _ \<Rightarrow> list_ex (\<lambda>d. hd_id d = approval \<and>
        (if list_ex (\<lambda>c. cv_id c = hd_conversation_id d) (conversations s)
         then list_ex (\<lambda>c. cv_id c = hd_conversation_id d \<and> cv_investigation_id c \<noteq> inv_id) (conversations s) else True)) (decisions s)
    | Not_An_Approval _ decision \<Rightarrow> decision \<noteq> Approve \<and> list_ex (\<lambda>d. hd_id d = approval \<and> hd_decision d = decision) (decisions s)"
proof (cases "find (\<lambda>d. hd_id d = approval) (decisions s)")
  case None
  then have "e = No_Human_Decision approval" using assms by (simp add: verify_approval_def)
  then show ?thesis using None by (simp add: find_None_iff list_all_iff)
next
  case (Some d)
  then have d: "d \<in> set (decisions s)" "hd_id d = approval" by (auto simp: find_Some_iff)
  show ?thesis
  proof (cases "find (\<lambda>c. cv_id c = hd_conversation_id d) (conversations s)")
    case None
    then have "\<not> list_ex (\<lambda>c. cv_id c = hd_conversation_id d) (conversations s)" by (auto simp: find_None_iff list_ex_iff)
    then show ?thesis using assms Some None d by (auto simp: verify_approval_def list_ex_iff intro!: bexI[of _ d])
  next
    case (Some c)
    then have "c \<in> set (conversations s)" "cv_id c = hd_conversation_id d" by (auto simp: find_Some_iff)
    then show ?thesis using assms Some \<open>find (\<lambda>d. hd_id d = approval) (decisions s) = Some d\<close> d
      by (auto simp: verify_approval_def list_ex_iff split: if_splits intro!: bexI[of _ d])
  qed
qed

text \<open>C2: An alert is dispatched only on the authority of a recorded decision with the alert's approval id that
  belongs to the alert's own investigation and is an approval. In every other case the dispatch is refused before
  anything happens: no channel is used, no row is written and no audit entry made, and the error says what was wrong
  (no such decision, a decision on another investigation, or one that is not an approval).\<close>

theorem dispatch_needs_approval:
  "case dispatch_alert dp a actor_id s of
     (Inr r, s') \<Rightarrow> \<exists>d c. d \<in> set (decisions s) \<and> hd_id d = al_approval_id a \<and> hd_decision d = Approve \<and>
       c \<in> set (conversations s) \<and> cv_id c = hd_conversation_id d \<and> cv_investigation_id c = al_investigation_id a
   | (Inl e, s') \<Rightarrow> s' = s \<and> (case e of
        No_Human_Decision _ \<Rightarrow> list_all (\<lambda>d. hd_id d \<noteq> al_approval_id a) (decisions s)
      | Foreign_Decision _ _ \<Rightarrow> list_ex (\<lambda>d. hd_id d = al_approval_id a \<and>
          (if list_ex (\<lambda>c. cv_id c = hd_conversation_id d) (conversations s)
           then list_ex (\<lambda>c. cv_id c = hd_conversation_id d \<and> cv_investigation_id c \<noteq> al_investigation_id a) (conversations s) else True)) (decisions s)
      | Not_An_Approval _ decision \<Rightarrow> decision \<noteq> Approve \<and>
          list_ex (\<lambda>d. hd_id d = al_approval_id a \<and> hd_decision d = decision) (decisions s))"
proof (cases "verify_approval s (al_investigation_id a) (al_approval_id a)")
  case (Inl e)
  then have "dispatch_alert dp a actor_id s = (Inl e, s)" by (simp add: dispatch_alert_def)
  then show ?thesis using refused[OF Inl] by simp
next
  case (Inr d)
  then have "\<exists>r s'. dispatch_alert dp a actor_id s = (Inr r, s')" by (auto simp: dispatch_alert_def Let_def split: prod.split)
  then obtain r s' where "dispatch_alert dp a actor_id s = (Inr r, s')" by blast
  then show ?thesis using verified[OF Inr] by auto
qed

text \<open>C15: Failover is between channels: once some delivery succeeded, every later attempt of the dispatch is on
  the same channel; each attempt is for a configured target, on at most the configured number of tries, and a
  success takes at least one.\<close>

theorem failover_stops_at_success:
  assumes "dispatch_alert dp a actor_id s = (Inr r, s')"
  shows "sorted_wrt (\<lambda>x y. delivered x \<longrightarrow> do_channel y = do_channel x) (outcomes r) \<and>
    list_all (\<lambda>x. attempts x \<le> notification_max_attempts (dp_settings dp) \<and> (delivered x \<longrightarrow> 0 < attempts x) \<and>
      target (do_channel x) (do_recipient x) \<in> set (resolve_targets (dp_settings dp))) (outcomes r)"
  using assms
proof (cases rule: dispatch_cases)
  case quiet
  then show ?thesis by simp
next
  case (sent os dd s1)
  have "list_all same_channel (failover_plan (resolve_targets (dp_settings dp)))"
    unfolding failover_plan_def by (rule plan_tiers_same) simp
  moreover have "set (concat (failover_plan (resolve_targets (dp_settings dp)))) = set (resolve_targets (dp_settings dp))"
    unfolding failover_plan_def plan_tiers_concat by simp
  ultimately have facts: "sorted_wrt (\<lambda>x y. delivered x \<longrightarrow> do_channel y = do_channel x) os"
    "\<forall>x \<in> set os. attempts x \<le> notification_max_attempts (dp_settings dp) \<and> (delivered x \<longrightarrow> 0 < attempts x) \<and>
      (\<exists>t \<in> set (resolve_targets (dp_settings dp)). do_channel x = at_channel t \<and> do_recipient x = at_recipient t)"
    using deliver_tiers_stop[OF _ sent(1)] deliver_tiers_facts[OF sent(1)] by simp_all
  then have "\<forall>x \<in> set os. target (do_channel x) (do_recipient x) \<in> set (resolve_targets (dp_settings dp))"
    by (auto simp: target_eta)
  then show ?thesis using facts sent(2) unfolding list_all_iff by simp
qed

text \<open>A dispatch is dead-lettered exactly when something was attempted and nothing was delivered. Then one
  dead-letter entry for the investigation is added to the audit trail and no delivery of this approval is left
  merely failed; otherwise the audit trail is unchanged. The result always satisfies its contract's validator.\<close>

theorem dead_letter_exact:
  assumes "dispatch_alert dp a actor_id s = (Inr r, s')"
  shows "dispatch_result_ok r \<and> dead_lettered r = (attempted r \<and> \<not> any_delivered r) \<and>
    (if dead_lettered r
     then (\<exists>e. audit s' = audit s @ [e] \<and> au_action e = ''notification.dead_letter'' \<and> au_entity_id e = al_investigation_id a)
       \<and> list_all (\<lambda>row. \<not> (nr_approval_id row = al_approval_id a \<and> nr_status row = Ns_Failed)) (notifications s')
     else audit s' = audit s)"
  using assms
proof (cases rule: dispatch_cases)
  case quiet
  then show ?thesis by (simp add: dispatch_result_ok_def attempted_def)
next
  case (sent os dd s1)
  have a: "audit s1 = audit s" using deliver_tiers_facts[OF sent(1)] by blast
  have d: "dead_lettered r = (attempted r \<and> \<not> any_delivered r)" using sent by (simp add: attempted_def any_delivered_def)
  show ?thesis
  proof (cases "dead_lettered r")
    case True
    then have "s' = dead_letter a os actor_id s1" using sent by simp
    then show ?thesis using True d a by (auto simp: dispatch_result_ok_def dead_letter_def Let_def list_all_iff)
  next
    case False
    then show ?thesis using sent a d by (auto simp: dispatch_result_ok_def)
  qed
qed

text \<open>A delivery that was already made for this approval and target is never attempted again: the target is
  skipped with the session, the outside world included, unchanged. And no dispatch alters a row that was sent.\<close>

theorem delivered_target_is_skipped:
  assumes "row_index (target_key dp a t) (notifications s) = Some i" "nr_status (notifications s ! i) = Ns_Sent"
    "dispatch_alert dp a actor_id s = (Inr r, s')"
  shows "deliver dp a t s = (None, s) \<and> notifications s' ! i = notifications s ! i"
proof
  show "deliver dp a t s = (None, s)" using assms(1,2) by (simp add: deliver_def Let_def)
  have i: "i < length (notifications s)" using row_index_Some[OF assms(1)] by blast
  have "keeps_sent s s'" using assms(3)
  proof (cases rule: dispatch_cases)
    case quiet
    then show ?thesis by simp
  next
    case (sent os dd s1)
    then show ?thesis
      using deliver_tiers_facts[OF sent(1)] keeps_sent_trans[OF _ dead_letter_keeps] by (auto split: if_splits)
  qed
  then show "notifications s' ! i = notifications s ! i" using i assms(2) by (simp add: keeps_sent_def)
qed

text \<open>Below the alerting floor, or with no channel configured, an approved dispatch attempts nothing and
  changes nothing, and it is not reported as a failure.\<close>

theorem suppression_changes_nothing:
  assumes "verify_approval s (al_investigation_id a) (al_approval_id a) = Inr d"
    "priority_rank (al_priority a) < priority_rank (notification_min_priority (dp_settings dp)) \<or>
     resolve_targets (dp_settings dp) = []"
  shows "\<exists>r. dispatch_alert dp a actor_id s = (Inr r, s) \<and> \<not> attempted r \<and> \<not> dead_lettered r"
  using assms
  by (auto simp: dispatch_alert_def is_worth_alerting_def empty_result_def attempted_def)

text \<open>A repeated dispatch is not a no-op. When the first channel already delivered, its target is skipped
  without counting as reached, so the fallback channel is used as well: with two single-target tiers, the first
  sent and the second not yet tried, the second target gets the alert.\<close>

theorem redispatch_pages_fallback:
  assumes "verify_approval s (al_investigation_id a) (al_approval_id a) = Inr d"
    "is_worth_alerting (al_priority a) (notification_min_priority (dp_settings dp))"
    "failover_plan (resolve_targets (dp_settings dp)) = [[t1], [t2]]"
    "row_index (target_key dp a t1) (notifications s) = Some i" "nr_status (notifications s ! i) = Ns_Sent"
    "row_index (target_key dp a t2) (notifications s) = None"
    "dp_channels dp (at_channel t2) = Some send" "0 < notification_max_attempts (dp_settings dp)"
    "send (world s) (at_recipient t2) (render (dp_alnum dp) a (at_channel t2)) = (send_ok detail, w)"
  shows "\<exists>r s' x. dispatch_alert dp a actor_id s = (Inr r, s') \<and> deduplicated r = [t1] \<and> outcomes r = [x] \<and>
    delivered x \<and> do_channel x = at_channel t2 \<and> do_recipient x = at_recipient t2 \<and> world s' = w"
proof -
  have skip: "deliver dp a t1 s = (None, s)" using assms(4,5) by (simp add: deliver_def Let_def)
  obtain m where m: "notification_max_attempts (dp_settings dp) = Suc m" using assms(8) by (cases "notification_max_attempts (dp_settings dp)") auto
  have "send_to (dp_settings dp) (dp_channels dp (at_channel t2)) (at_channel t2) (at_recipient t2)
      (render (dp_alnum dp) a (at_channel t2)) (world s) = (send_ok detail, 1, w)"
    using assms(7,9) m by (simp add: send_to_def Let_def send_ok_def)
  then obtain s1 where s1: "deliver dp a t2 s = (Some (outcome_of (at_channel t2) (at_recipient t2) (send_ok detail) 1), s1)" "world s1 = w"
    using assms(6) by (auto simp: deliver_def Let_def)
  have "resolve_targets (dp_settings dp) \<noteq> []" using assms(3) by (auto simp: failover_plan_def)
  then show ?thesis
    using assms(1-3) skip s1 by (simp add: dispatch_alert_def Let_def empty_result_def outcome_of_def send_ok_def)
qed



section \<open>Witnesses\<close>

text \<open>A deployment with Slack before one email address; the outside world counts what was sent.\<close>

definition sample_send :: "nat adapter" where
  "sample_send w rcpt msg = (send_ok ''accepted'', w + 1)"

definition sample_dispatcher :: "nat dispatcher" where
  "sample_dispatcher = \<lparr>dp_settings = \<lparr>notification_channel_order = [Slack, Email], slack_channel = ''soc'',
       email_recipients = [''oncall@example.org''], notification_min_priority = Prio_High, notification_max_attempts = 3\<rparr>,
     dp_channels = (\<lambda>c. Some sample_send), dp_sha256 = (\<lambda>m. m), dp_alnum = (\<lambda>_. False), dp_now = 0\<rparr>"

definition sample_alert :: "triage_priority \<Rightarrow> alert_request" where
  "sample_alert p = \<lparr>al_investigation_id = ''inv-1'', al_approval_id = ''dec-1'', al_title = u ''title'', al_summary = u ''summary'',
     al_priority = p, al_severity = None, al_verdict = None, al_highlights = [], al_console_url = None\<rparr>"

definition sample_row :: notification_row where
  "sample_row = \<lparr>nr_investigation_id = ''inv-1'', nr_approval_id = ''dec-1'', nr_channel = Slack, nr_recipient = ''soc'',
     nr_dedupe_key = dedupe_material ''inv-1'' ''dec-1'' Slack ''soc'', nr_priority = Prio_High, nr_status = Ns_Sent,
     nr_delivery_attempts = 1, nr_failure_reason = None, nr_sent_at = Some 0\<rparr>"

definition sample_session :: "notification_row list \<Rightarrow> nat session" where
  "sample_session rows = \<lparr>decisions = [\<lparr>hd_id = ''dec-1'', hd_conversation_id = ''c-1'', hd_decision = Approve\<rparr>],
     conversations = [\<lparr>cv_id = ''c-1'', cv_investigation_id = ''inv-1''\<rparr>], notifications = rows, audit = [], world = 0\<rparr>"

lemma sample_verified: "\<exists>d. verify_approval (sample_session rows) (al_investigation_id (sample_alert p)) (al_approval_id (sample_alert p)) = Inr d"
  by (simp add: verify_approval_def sample_session_def sample_alert_def)

lemma sample_plan: "failover_plan (resolve_targets (dp_settings sample_dispatcher)) = [[target Slack ''soc''], [target Email ''oncall@example.org'']]"
  by (simp add: failover_plan_def resolve_targets_def sample_dispatcher_def target_def)

lemma sample_keys:
  "target_key sample_dispatcher (sample_alert p) (target Slack ''soc'') = ''inv-1|dec-1|slack|soc''"
  "target_key sample_dispatcher (sample_alert p) (target Email ''oncall@example.org'') = ''inv-1|dec-1|email|oncall@example.org''"
  "nr_dedupe_key sample_row = ''inv-1|dec-1|slack|soc''"
  unfolding target_key_def sample_dispatcher_def sample_alert_def target_def sample_row_def dedupe_key_def dedupe_material_def
  by code_simp+

lemma sample_dispatch: "\<exists>r s'. dispatch_alert sample_dispatcher (sample_alert Prio_Urgent) None (sample_session rows) = (Inr r, s')"
proof -
  obtain d where "verify_approval (sample_session rows) (al_investigation_id (sample_alert Prio_Urgent)) (al_approval_id (sample_alert Prio_Urgent)) = Inr d"
    using sample_verified by blast
  then show ?thesis by (auto simp: dispatch_alert_def Let_def split: prod.split)
qed

theorem failover_stops_at_success_witness:
  "\<exists>r s'. dispatch_alert sample_dispatcher (sample_alert Prio_Urgent) None (sample_session []) = (Inr r, s') \<and>
     sorted_wrt (\<lambda>x y. delivered x \<longrightarrow> do_channel y = do_channel x) (outcomes r)"
  using sample_dispatch[of "[]"] failover_stops_at_success[of sample_dispatcher "sample_alert Prio_Urgent" None "sample_session []"] by blast

theorem dead_letter_exact_witness:
  "\<exists>r s'. dispatch_alert sample_dispatcher (sample_alert Prio_Urgent) None (sample_session []) = (Inr r, s') \<and> dispatch_result_ok r"
  using sample_dispatch[of "[]"] dead_letter_exact[of sample_dispatcher "sample_alert Prio_Urgent" None "sample_session []"] by blast

theorem delivered_target_is_skipped_witness:
  "deliver sample_dispatcher (sample_alert Prio_Urgent) (target Slack ''soc'') (sample_session [sample_row]) = (None, sample_session [sample_row])"
proof -
  have "row_index (target_key sample_dispatcher (sample_alert Prio_Urgent) (target Slack ''soc'')) (notifications (sample_session [sample_row])) = Some 0"
    by (simp add: sample_keys sample_session_def)
  moreover have "nr_status (notifications (sample_session [sample_row]) ! 0) = Ns_Sent"
    by (simp add: sample_session_def sample_row_def)
  ultimately show ?thesis
    using delivered_target_is_skipped[of sample_dispatcher "sample_alert Prio_Urgent" "target Slack ''soc''" "sample_session [sample_row]" 0]
      sample_dispatch[of "[sample_row]"] by blast
qed

theorem suppression_changes_nothing_witness:
  "\<exists>r. dispatch_alert sample_dispatcher (sample_alert Prio_Low) None (sample_session []) = (Inr r, sample_session []) \<and> \<not> dead_lettered r"
proof -
  obtain d where d: "verify_approval (sample_session []) (al_investigation_id (sample_alert Prio_Low)) (al_approval_id (sample_alert Prio_Low)) = Inr d"
    using sample_verified by blast
  show ?thesis using suppression_changes_nothing[OF d, of sample_dispatcher None]
    by (auto simp: sample_alert_def sample_dispatcher_def)
qed

theorem redispatch_pages_fallback_witness:
  "\<exists>r s'. dispatch_alert sample_dispatcher (sample_alert Prio_Urgent) None (sample_session [sample_row]) = (Inr r, s') \<and> world s' = 1"
proof -
  obtain d where d: "verify_approval (sample_session [sample_row]) (al_investigation_id (sample_alert Prio_Urgent)) (al_approval_id (sample_alert Prio_Urgent)) = Inr d"
    using sample_verified by blast
  have "is_worth_alerting (al_priority (sample_alert Prio_Urgent)) (notification_min_priority (dp_settings sample_dispatcher))"
    by (simp add: is_worth_alerting_def sample_alert_def sample_dispatcher_def)
  moreover have "row_index (target_key sample_dispatcher (sample_alert Prio_Urgent) (target Slack ''soc'')) (notifications (sample_session [sample_row])) = Some 0"
    "row_index (target_key sample_dispatcher (sample_alert Prio_Urgent) (target Email ''oncall@example.org'')) (notifications (sample_session [sample_row])) = None"
    by (simp_all add: sample_keys sample_session_def)
  moreover have "nr_status (notifications (sample_session [sample_row]) ! 0) = Ns_Sent"
    by (simp add: sample_session_def sample_row_def)
  moreover have "dp_channels sample_dispatcher (at_channel (target Email ''oncall@example.org'')) = Some sample_send"
    "0 < notification_max_attempts (dp_settings sample_dispatcher)" "sample_send (world (sample_session [sample_row])) rcpt msg = (send_ok ''accepted'', 1)" for rcpt msg
    by (simp_all add: sample_dispatcher_def sample_send_def sample_session_def)
  ultimately show ?thesis
    using redispatch_pages_fallback[OF d _ sample_plan, of 0 sample_send "''accepted''" 1 None] by auto
qed

end
