(* ===== verification/Access.thy ===== *)
theory Access
  imports Domain
begin

text \<open>
  Access control: server-side sessions with rotating refresh tokens (\<^verbatim>\<open>backend/auth/sessions.py\<close>), roles and
  capabilities (\<^verbatim>\<open>backend/auth/rbac.py\<close>) and the request rate limit (\<^verbatim>\<open>backend/middleware/rate_limit.py\<close>). The
  session service works on any store that keeps the laws of the locale \<open>session_store\<close>; the in-memory store
  is its instance. Random tokens and session identifiers are arguments, the token hash is the argument \<open>h\<close>.
  Shown: a refresh token works once, presenting it again revokes its session and the token that replaced it,
  a session never has two unused tokens, and a client is served at most the configured number of requests
  in a window.
\<close>

section \<open>Records\<close>

record session_record =
  session_id :: string
  user_id :: string
  ss_created_at :: time
  ss_expires_at :: time

record refresh_record =
  token_hash :: string
  rf_session_id :: string
  rf_user_id :: string
  rf_expires_at :: time
  used :: bool

record login_transaction =
  lt_state :: string
  lt_nonce :: string
  lt_code_verifier :: string
  lt_expires_at :: time

datatype auth_error = Invalid_Token string | Refresh_Reuse string


section \<open>The store interface\<close>

text \<open>The operations of the protocol \<^verbatim>\<open>SessionStore\<close>, over the store's state type.\<close>

record 's store_ops =
  save_session :: "session_record \<Rightarrow> 's \<Rightarrow> 's"
  load_session :: "string \<Rightarrow> 's \<Rightarrow> session_record option"
  delete_session :: "string \<Rightarrow> 's \<Rightarrow> 's"
  save_refresh :: "refresh_record \<Rightarrow> 's \<Rightarrow> 's"
  load_refresh :: "string \<Rightarrow> 's \<Rightarrow> refresh_record option"
  delete_refreshes_for_session :: "string \<Rightarrow> 's \<Rightarrow> 's"
  save_login :: "login_transaction \<Rightarrow> 's \<Rightarrow> 's"
  pop_login :: "string \<Rightarrow> 's \<Rightarrow> login_transaction option \<times> 's"

record memory_store =
  ms_sessions :: "(string, session_record) dict"
  ms_refresh :: "(string, refresh_record) dict"
  ms_logins :: "(string, login_transaction) dict"

definition memory_store_init :: memory_store where
  "memory_store_init = \<lparr>ms_sessions = [], ms_refresh = [], ms_logins = []\<rparr>"

definition memory_ops :: "memory_store store_ops" where
  "memory_ops = \<lparr>
     save_session = (\<lambda>r m. m\<lparr>ms_sessions := dict_set (session_id r) r (ms_sessions m)\<rparr>),
     load_session = (\<lambda>i m. map_of (ms_sessions m) i),
     delete_session = (\<lambda>i m. m\<lparr>ms_sessions := dict_del i (ms_sessions m)\<rparr>),
     save_refresh = (\<lambda>r m. m\<lparr>ms_refresh := dict_set (token_hash r) r (ms_refresh m)\<rparr>),
     load_refresh = (\<lambda>k m. map_of (ms_refresh m) k),
     delete_refreshes_for_session = (\<lambda>i m. m\<lparr>ms_refresh := filter (\<lambda>(_, r). rf_session_id r \<noteq> i) (ms_refresh m)\<rparr>),
     save_login = (\<lambda>t m. m\<lparr>ms_logins := dict_set (lt_state t) t (ms_logins m)\<rparr>),
     pop_login = (\<lambda>k m. (map_of (ms_logins m) k, m\<lparr>ms_logins := dict_del k (ms_logins m)\<rparr>))\<rparr>"


section \<open>The session service\<close>

definition issue_refresh :: "'s store_ops \<Rightarrow> (string \<Rightarrow> string) \<Rightarrow> string \<Rightarrow> session_record \<Rightarrow> 's \<Rightarrow> 's" where
  "issue_refresh ops h plaintext session s = save_refresh ops
     \<lparr>token_hash = h plaintext, rf_session_id = session_id session, rf_user_id = user_id session,
      rf_expires_at = ss_expires_at session, used = False\<rparr> s"

definition start_session ::
  "'s store_ops \<Rightarrow> (string \<Rightarrow> string) \<Rightarrow> int \<Rightarrow> time \<Rightarrow> string \<Rightarrow> string \<Rightarrow> string \<Rightarrow> 's \<Rightarrow> session_record \<times> 's" where
  "start_session ops h ttl now sid plaintext uid s =
     (let session = \<lparr>session_id = sid, user_id = uid, ss_created_at = now, ss_expires_at = now + ttl * 1000000\<rparr> in
      (session, issue_refresh ops h plaintext session (save_session ops session s)))"

definition revoke :: "'s store_ops \<Rightarrow> string \<Rightarrow> 's \<Rightarrow> 's" where
  "revoke ops sid s = delete_refreshes_for_session ops sid (delete_session ops sid s)"

definition rotate ::
  "'s store_ops \<Rightarrow> (string \<Rightarrow> string) \<Rightarrow> time \<Rightarrow> string \<Rightarrow> string \<Rightarrow> 's \<Rightarrow> (auth_error + session_record) \<times> 's" where
  "rotate ops h now refresh_token plaintext s = (case load_refresh ops (h refresh_token) s of
     None \<Rightarrow> (Inl (Invalid_Token ''invalid refresh token''), s)
   | Some r \<Rightarrow>
     if rf_expires_at r \<le> now then (Inl (Invalid_Token ''invalid refresh token''), s)
     else if used r then
       (Inl (Refresh_Reuse ''refresh token reuse detected''),
        delete_refreshes_for_session ops (rf_session_id r) (delete_session ops (rf_session_id r) s))
     else case load_session ops (rf_session_id r) s of
       None \<Rightarrow> (Inl (Invalid_Token ''session expired''), s)
     | Some session \<Rightarrow>
         if ss_expires_at session \<le> now then (Inl (Invalid_Token ''session expired''), s)
         else (Inr session, issue_refresh ops h plaintext session (save_refresh ops (r\<lparr>used := True\<rparr>) s)))"


section \<open>Roles\<close>

datatype capability = View_Investigations | Run_Investigations | Approve_Actions | View_Audit | Manage_Users | Configure

definition role_capabilities :: "(user_role \<times> capability list) list" where
  "role_capabilities =
     [(Analyst, [View_Investigations, Run_Investigations]),
      (Senior_Analyst, [View_Investigations, Run_Investigations, Approve_Actions]),
      (Manager, [View_Investigations, Run_Investigations, Approve_Actions, View_Audit]),
      (Admin, [View_Investigations, Run_Investigations, Approve_Actions, View_Audit, Manage_Users, Configure]),
      (Auditor, [View_Investigations, View_Audit])]"

definition capabilities_for :: "user_role \<Rightarrow> capability set" where
  "capabilities_for role = set (case map_of role_capabilities role of Some cs \<Rightarrow> cs | None \<Rightarrow> [])"

definition has_capability :: "user_role \<Rightarrow> capability \<Rightarrow> bool" where
  "has_capability role c = (c \<in> capabilities_for role)"


section \<open>The request rate limit\<close>

record rate_limit =
  rm_max :: int
  rm_window :: int
  rm_hits :: "(string \<times> int, int) dict"

definition evict_old_buckets :: "int \<Rightarrow> (string \<times> int, int) dict \<Rightarrow> (string \<times> int, int) dict" where
  "evict_old_buckets current hits = filter (\<lambda>((_, b), _). \<not> b < current) hits"

definition client_of :: "string option \<Rightarrow> string" where
  "client_of client_host = (case client_host of Some x \<Rightarrow> x | None \<Rightarrow> ''unknown'')"

text \<open>One request at whole second \<open>now\<close>: whether it is passed on, and the counters after it.\<close>

definition rate_dispatch :: "string option \<Rightarrow> int \<Rightarrow> rate_limit \<Rightarrow> bool \<times> rate_limit" where
  "rate_dispatch client_host now m =
     (let client = client_of client_host;
          bucket = now div rm_window m;
          key = (client, bucket);
          count = (case map_of (rm_hits m) key of Some n \<Rightarrow> n | None \<Rightarrow> 0) + 1;
          hits = dict_set key count (rm_hits m);
          hits = (if count = 1 then evict_old_buckets bucket hits else hits)
      in (\<not> count > rm_max m, m\<lparr>rm_hits := hits\<rparr>))"


section \<open>The contract of a session store\<close>

locale session_store =
  fixes ops :: "'s store_ops" and ok :: "'s \<Rightarrow> bool"
  assumes session_after_save: "ok s \<Longrightarrow>
      load_session ops i (save_session ops r s) = (if i = session_id r then Some r else load_session ops i s)"
    and session_after_delete: "ok s \<Longrightarrow>
      load_session ops i (delete_session ops j s) = (if i = j then None else load_session ops i s)"
    and refresh_after_save: "ok s \<Longrightarrow>
      load_refresh ops k (save_refresh ops r' s) = (if k = token_hash r' then Some r' else load_refresh ops k s)"
    and refresh_after_delete: "ok s \<Longrightarrow> load_refresh ops k (delete_refreshes_for_session ops j s) =
      (case load_refresh ops k s of Some x \<Rightarrow> if rf_session_id x = j then None else Some x | None \<Rightarrow> None)"
    and refresh_frame: "ok s \<Longrightarrow> load_refresh ops k (save_session ops r s) = load_refresh ops k s"
      "ok s \<Longrightarrow> load_refresh ops k (delete_session ops j s) = load_refresh ops k s"
    and session_frame: "ok s \<Longrightarrow> load_session ops i (save_refresh ops r' s) = load_session ops i s"
      "ok s \<Longrightarrow> load_session ops i (delete_refreshes_for_session ops j s) = load_session ops i s"
    and ok_kept: "ok s \<Longrightarrow> ok (save_session ops r s)" "ok s \<Longrightarrow> ok (delete_session ops j s)"
      "ok s \<Longrightarrow> ok (save_refresh ops r' s)" "ok s \<Longrightarrow> ok (delete_refreshes_for_session ops j s)"
    and session_key: "ok s \<Longrightarrow> load_session ops i s = Some r \<Longrightarrow> session_id r = i"
    and refresh_key: "ok s \<Longrightarrow> load_refresh ops k s = Some r' \<Longrightarrow> token_hash r' = k"
begin

lemmas store_laws = session_after_save session_after_delete refresh_after_save refresh_after_delete
  refresh_frame session_frame ok_kept

lemma rotate_success:
  assumes "ok s" "rotate ops h now t p s = (Inr session, s1)"
  obtains r where "load_refresh ops (h t) s = Some r" "\<not> used r" "now < rf_expires_at r"
    "load_session ops (rf_session_id r) s = Some session" "session_id session = rf_session_id r" "now < ss_expires_at session"
    "s1 = issue_refresh ops h p session (save_refresh ops (r\<lparr>used := True\<rparr>) s)"
proof -
  obtain r where r: "load_refresh ops (h t) s = Some r" "\<not> used r" "now < rf_expires_at r"
    "load_session ops (rf_session_id r) s = Some session" "now < ss_expires_at session"
    "s1 = issue_refresh ops h p session (save_refresh ops (r\<lparr>used := True\<rparr>) s)"
    using assms(2) by (auto simp: rotate_def split: option.splits if_splits)
  with session_key[OF assms(1) r(4)] that show ?thesis by blast
qed

lemma rotated_token_is_spent:
  assumes "ok s" "rotate ops h now t p s = (Inr session, s1)" "h p \<noteq> h t"
    and "load_refresh ops (h t) s = Some r" "later < rf_expires_at r"
  shows "\<exists>e s2. rotate ops h later t p2 s1 = (Inl (Refresh_Reuse e), s2) \<and>
    load_session ops (session_id session) s2 = None \<and> load_refresh ops (h p) s2 = None \<and> load_refresh ops (h t) s2 = None"
proof -
  obtain r' where r': "load_refresh ops (h t) s = Some r'" "session_id session = rf_session_id r'"
    "s1 = issue_refresh ops h p session (save_refresh ops (r'\<lparr>used := True\<rparr>) s)"
    using rotate_success[OF assms(1,2)] by blast
  then have [simp]: "r' = r" using assms(4) by simp
  have k: "token_hash r = h t" by (rule refresh_key[OF assms(1,4)])
  have ok1: "ok s1" using r'(3) assms(1) by (simp add: issue_refresh_def ok_kept)
  have old: "load_refresh ops (h t) s1 = Some (r\<lparr>used := True\<rparr>)"
    using assms(1,3) k r'(3) by (simp add: issue_refresh_def store_laws)
  have new: "load_refresh ops (h p) s1 = Some \<lparr>token_hash = h p, rf_session_id = session_id session,
      rf_user_id = user_id session, rf_expires_at = ss_expires_at session, used = False\<rparr>"
    using assms(1) r'(3) by (simp add: issue_refresh_def store_laws)
  show ?thesis
    using old new assms(5) ok1 r'(2) by (simp add: rotate_def store_laws)
qed

lemma spent_token_revokes:
  assumes "ok s" "load_refresh ops (h t) s = Some r" "used r" "now < rf_expires_at r"
  shows "\<exists>e s2. rotate ops h now t p s = (Inl (Refresh_Reuse e), s2) \<and> load_session ops (rf_session_id r) s2 = None \<and>
    (\<forall>k x. load_refresh ops k s2 = Some x \<longrightarrow> rf_session_id x \<noteq> rf_session_id r)"
  using assms by (auto simp: rotate_def store_laws split: option.splits)

text \<open>At most one unused token per session.\<close>

definition single_unused :: "'s \<Rightarrow> bool" where
  "single_unused s = (\<forall>k k' x x'. load_refresh ops k s = Some x \<longrightarrow> load_refresh ops k' s = Some x' \<longrightarrow>
     rf_session_id x = rf_session_id x' \<longrightarrow> \<not> used x \<longrightarrow> \<not> used x' \<longrightarrow> k = k')"

lemma single_unused_start:
  assumes "ok s" "single_unused s" "\<forall>k x. load_refresh ops k s = Some x \<longrightarrow> rf_session_id x \<noteq> sid"
  shows "single_unused (snd (start_session ops h ttl now sid p uid s))"
  using assms(2,3)
  by (auto simp: single_unused_def start_session_def issue_refresh_def store_laws assms(1) Let_def split: if_splits)

lemma single_unused_rotate:
  assumes "ok s" "single_unused s" "load_refresh ops (h p) s = None"
  shows "single_unused (snd (rotate ops h now t p s))"
proof (cases "rotate ops h now t p s")
  case (Pair res s1)
  show ?thesis
  proof (cases res)
    case (Inl e)
    then have "s1 = s \<or> (\<exists>j. s1 = delete_refreshes_for_session ops j (delete_session ops j s))"
      using Pair by (auto simp: rotate_def split: option.splits if_splits)
    then show ?thesis
      using assms(2) Pair by (fastforce simp: single_unused_def store_laws assms(1) split: option.splits if_splits)
  next
    case (Inr session)
    then obtain r where r: "load_refresh ops (h t) s = Some r" "\<not> used r" "session_id session = rf_session_id r"
      "s1 = issue_refresh ops h p session (save_refresh ops (r\<lparr>used := True\<rparr>) s)"
      using rotate_success[OF assms(1)] Pair by blast
    have k: "token_hash r = h t" by (rule refresh_key[OF assms(1) r(1)])
    have look: "load_refresh ops k s1 = (if k = h p then Some \<lparr>token_hash = h p, rf_session_id = rf_session_id r,
        rf_user_id = user_id session, rf_expires_at = ss_expires_at session, used = False\<rparr>
        else if k = h t then Some (r\<lparr>used := True\<rparr>) else load_refresh ops k s)" for k
      using r(3,4) k assms(1) by (simp add: issue_refresh_def store_laws)
    have other: "k = h t" if "load_refresh ops k s = Some x" "rf_session_id x = rf_session_id r" "\<not> used x" for k x
      using assms(2) that r(1,2) unfolding single_unused_def by blast
    have both: "k = k'" if "load_refresh ops k s = Some x" "load_refresh ops k' s = Some x'"
      "rf_session_id x = rf_session_id x'" "\<not> used x" "\<not> used x'" for k k' x x'
      using assms(2) that unfolding single_unused_def by blast
    have un: "(k = h p \<and> rf_session_id x = rf_session_id r) \<or> (k \<noteq> h t \<and> load_refresh ops k s = Some x)"
      if "load_refresh ops k s1 = Some x" "\<not> used x" for k x
      using that unfolding look by (auto split: if_splits)
    have "single_unused s1"
      unfolding single_unused_def using un other both by metis
    then show ?thesis using Pair by simp
  qed
qed

lemma single_unused_revoke: "ok s \<Longrightarrow> single_unused s \<Longrightarrow> single_unused (revoke ops sid s)"
  by (fastforce simp: single_unused_def revoke_def store_laws split: option.splits if_splits)

lemma ok_start: "ok s \<Longrightarrow> ok (snd (start_session ops h ttl now sid p uid s))"
  by (simp add: start_session_def issue_refresh_def ok_kept Let_def)

lemma ok_rotate: "ok s \<Longrightarrow> ok (snd (rotate ops h now t p s))"
  by (auto simp: rotate_def issue_refresh_def ok_kept split: option.split)

lemma ok_revoke: "ok s \<Longrightarrow> ok (revoke ops sid s)"
  by (simp add: revoke_def ok_kept)

end


section \<open>The in-memory store keeps the contract\<close>

definition memory_ok :: "memory_store \<Rightarrow> bool" where
  "memory_ok m = (distinct (map fst (ms_sessions m)) \<and> distinct (map fst (ms_refresh m))
     \<and> list_all (\<lambda>(k, r). session_id r = k) (ms_sessions m) \<and> list_all (\<lambda>(k, r). token_hash r = k) (ms_refresh m))"

lemma list_all_dict_set: "list_all P d \<Longrightarrow> P (k, v) \<Longrightarrow> list_all P (dict_set k v d)"
  by (induction k v d rule: dict_set.induct) auto

lemma list_all_filter: "list_all P d \<Longrightarrow> list_all P (filter q d)"
  by (auto simp: list_all_iff)

lemma lookup_filter_value:
  "distinct (map fst d) \<Longrightarrow>
   map_of (filter (\<lambda>(k, r). q r) d) k = (case map_of d k of Some x \<Rightarrow> if q x then Some x else None | None \<Rightarrow> None)"
proof (induction d)
  case Nil
  then show ?case by simp
next
  case (Cons a d)
  have "fst a = k \<Longrightarrow> map_of d k = None" using Cons.prems by (auto simp: map_of_eq_None_iff)
  then show ?case using Cons by (cases a) (auto split: option.splits)
qed

interpretation mem: session_store memory_ops memory_ok
proof
  fix s k r and r' :: refresh_record and i j
  assume ok: "memory_ok s"
  show "load_refresh memory_ops k (delete_refreshes_for_session memory_ops j s) =
      (case load_refresh memory_ops k s of Some x \<Rightarrow> if rf_session_id x = j then None else Some x | None \<Rightarrow> None)"
    using ok lookup_filter_value[of "ms_refresh s" "\<lambda>r. rf_session_id r \<noteq> j" k]
    by (auto simp: memory_ops_def memory_ok_def split: option.splits)
  show "memory_ok (save_session memory_ops r s)" "memory_ok (delete_session memory_ops j s)"
    "memory_ok (save_refresh memory_ops r' s)" "memory_ok (delete_refreshes_for_session memory_ops j s)"
    using ok by (auto simp: memory_ok_def memory_ops_def dict_set_distinct dict_del_distinct dict_del_def
        list_all_dict_set list_all_filter distinct_map_filter)
  show "load_session memory_ops i s = Some r \<Longrightarrow> session_id r = i"
    using ok by (auto simp: memory_ok_def memory_ops_def list_all_iff dest: map_of_SomeD)
  show "load_refresh memory_ops k s = Some r' \<Longrightarrow> token_hash r' = k"
    using ok by (auto simp: memory_ok_def memory_ops_def list_all_iff dest: map_of_SomeD)
qed (auto simp: memory_ops_def dict_set_lookup dict_del_lookup)

text \<open>The states a process can reach, when tokens and session identifiers are fresh as they are drawn.\<close>

inductive session_reach :: "(string \<Rightarrow> string) \<Rightarrow> int \<Rightarrow> memory_store \<Rightarrow> bool" for h :: "string \<Rightarrow> string" and ttl :: int where
  initial: "session_reach h ttl memory_store_init"
| started: "session_reach h ttl s \<Longrightarrow> load_refresh memory_ops (h p) s = None \<Longrightarrow>
     \<forall>k x. load_refresh memory_ops k s = Some x \<longrightarrow> rf_session_id x \<noteq> sid \<Longrightarrow>
     session_reach h ttl (snd (start_session memory_ops h ttl now sid p uid s))"
| rotated: "session_reach h ttl s \<Longrightarrow> load_refresh memory_ops (h p) s = None \<Longrightarrow>
     session_reach h ttl (snd (rotate memory_ops h now t p s))"
| revoked: "session_reach h ttl s \<Longrightarrow> session_reach h ttl (revoke memory_ops sid s)"

lemma session_reach_inv: "session_reach h ttl s \<Longrightarrow> memory_ok s \<and> mem.single_unused s"
proof (induction rule: session_reach.induct)
  case initial
  show ?case unfolding mem.single_unused_def by (simp add: memory_ok_def memory_store_init_def memory_ops_def)
qed (auto simp: mem.ok_start mem.ok_rotate mem.ok_revoke mem.single_unused_start mem.single_unused_rotate mem.single_unused_revoke)

text \<open>The counters of the rate limit after a sequence of requests.\<close>

fun rate_run :: "(string option \<times> int) list \<Rightarrow> rate_limit \<Rightarrow> bool list \<times> rate_limit" where
  "rate_run [] m = ([], m)"
| "rate_run ((c, now) # reqs) m = (let (b, m1) = rate_dispatch c now m; (bs, m2) = rate_run reqs m1 in (b # bs, m2))"

definition hit_count :: "rate_limit \<Rightarrow> string \<Rightarrow> int \<Rightarrow> int" where
  "hit_count m client bucket = (case map_of (rm_hits m) (client, bucket) of Some n \<Rightarrow> n | None \<Rightarrow> 0)"

lemma evict_lookup: "map_of (evict_old_buckets b hits) (c, b') = (if b' < b then None else map_of hits (c, b'))"
  by (induction hits) (auto simp: evict_old_buckets_def)

lemma rate_dispatch_count:
  assumes "bucket \<le> b'" "bucket = now div rm_window m"
  shows "hit_count (snd (rate_dispatch c now m)) c' b' =
    hit_count m c' b' + (if client_of c = c' \<and> bucket = b' then 1 else 0)"
  using assms by (auto simp: rate_dispatch_def hit_count_def Let_def evict_lookup dict_set_lookup split: option.splits)

lemma rate_dispatch_fields [simp]:
  "rm_max (snd (rate_dispatch c now m)) = rm_max m" "rm_window (snd (rate_dispatch c now m)) = rm_window m"
  by (simp_all add: rate_dispatch_def Let_def)

lemma rate_dispatch_result:
  "fst (rate_dispatch c now m) = (hit_count m (client_of c) (now div rm_window m) < rm_max m)"
  by (auto simp: rate_dispatch_def hit_count_def Let_def split: option.splits)


section \<open>Properties\<close>

text \<open>C13: A refresh token works once. After it was rotated, presenting it again before it expires is detected as
  reuse and revokes its session: the session is gone and so are the token and the one issued in its place.\<close>

theorem refresh_token_single_use:
  assumes "session_reach h ttl s" "rotate memory_ops h now t p s = (Inr session, s1)" "h p \<noteq> h t"
    "load_refresh memory_ops (h t) s = Some r" "later < rf_expires_at r"
  shows "\<exists>e s2. rotate memory_ops h later t p2 s1 = (Inl (Refresh_Reuse e), s2) \<and>
    load_session memory_ops (session_id session) s2 = None \<and>
    load_refresh memory_ops (h p) s2 = None \<and> load_refresh memory_ops (h t) s2 = None"
  using mem.rotated_token_is_spent[OF _ assms(2-5)] session_reach_inv[OF assms(1)] by blast

text \<open>In every state a process can reach, a session has at most one unused refresh token.\<close>

theorem one_unused_token_per_session:
  assumes "session_reach h ttl s"
  shows "length [e \<leftarrow> ms_refresh s. rf_session_id (snd e) = sid \<and> \<not> used (snd e)] \<le> 1"
proof (rule ccontr)
  let ?xs = "[e \<leftarrow> ms_refresh s. rf_session_id (snd e) = sid \<and> \<not> used (snd e)]"
  have d: "distinct (map fst (ms_refresh s))" and one: "mem.single_unused s"
    using session_reach_inv[OF assms] by (auto simp: memory_ok_def)
  assume "\<not> length ?xs \<le> 1"
  then have len: "0 < length ?xs" "1 < length ?xs" by auto
  define a b where "a = ?xs ! 0" and "b = ?xs ! 1"
  have ab: "a \<in> set ?xs" "b \<in> set ?xs" unfolding a_def b_def using len nth_mem by blast+
  have "load_refresh memory_ops (fst e) s = Some (snd e)" if "e \<in> set ?xs" for e
    using that d by (simp add: memory_ops_def)
  then have "load_refresh memory_ops (fst a) s = Some (snd a)" "load_refresh memory_ops (fst b) s = Some (snd b)" using ab by blast+
  moreover have "rf_session_id (snd a) = rf_session_id (snd b)" "\<not> used (snd a)" "\<not> used (snd b)" using ab by auto
  ultimately have "fst a = fst b" using one unfolding mem.single_unused_def by blast
  moreover have "distinct (map fst ?xs)" using d by (rule distinct_map_filter)
  then have "map fst ?xs ! 0 \<noteq> map fst ?xs ! 1"
    using nth_eq_iff_index_eq[of "map fst ?xs" 0 1] len by (simp only: length_map)
  then have "fst a \<noteq> fst b" unfolding a_def b_def nth_map[OF len(1)] nth_map[OF len(2)] .
  ultimately show False by contradiction
qed

text \<open>Only senior analysts, managers and administrators may approve actions; auditors can neither run nor
  approve; only administrators manage users or configure.\<close>

theorem approval_roles:
  "has_capability role Approve_Actions = (role \<in> {Senior_Analyst, Manager, Admin}) \<and>
   has_capability role Run_Investigations = (role \<noteq> Auditor) \<and>
   has_capability role Manage_Users = (role = Admin) \<and> has_capability role Configure = (role = Admin) \<and>
   has_capability role View_Audit = (role \<in> {Manager, Admin, Auditor}) \<and> has_capability role View_Investigations"
  by (cases role) (simp_all add: has_capability_def capabilities_for_def role_capabilities_def)

text \<open>When requests arrive in order of time, a client is served in one window exactly while it has made fewer
  requests in that window than the limit: of its requests there, the first \<open>rm_max\<close> pass and the rest do not.\<close>

theorem rate_limit_exact:
  assumes "sorted (map snd (reqs @ [(c, now)]))" "0 < rm_window m" "rm_hits m = []"
  shows "last (fst (rate_run (reqs @ [(c, now)]) m)) =
    (int (length [q \<leftarrow> reqs. client_of (fst q) = client_of c \<and> snd q div rm_window m = now div rm_window m]) < rm_max m)"
proof -
  have gen: "last (fst (rate_run (reqs @ [(c, now)]) m)) =
      (hit_count m (client_of c) (now div rm_window m)
       + int (length [q \<leftarrow> reqs. client_of (fst q) = client_of c \<and> snd q div rm_window m = now div rm_window m]) < rm_max m)"
    if "sorted (map snd (reqs @ [(c, now)]))" "0 < rm_window m" for m
    using that
  proof (induction reqs arbitrary: m)
    case Nil
    have "fst (rate_run ([] @ [(c, now)]) m) = [fst (rate_dispatch c now m)]" by (simp add: case_prod_beta)
    then show ?case by (simp add: rate_dispatch_result)
  next
    case (Cons q reqs)
    obtain d n where q: "q = (d, n)" by force
    let ?m = "snd (rate_dispatch d n m)"
    have le: "n div rm_window m \<le> now div rm_window m" using Cons.prems(1,2) q by (simp add: zdiv_mono1)
    have ne: "fst (rate_run (reqs @ [(c, now)]) ?m) \<noteq> []"
      by (cases reqs) (auto split: prod.splits)
    have step: "last (fst (rate_run ((q # reqs) @ [(c, now)]) m)) = last (fst (rate_run (reqs @ [(c, now)]) ?m))"
      using ne q by (simp add: case_prod_beta Let_def)
    show ?case
      unfolding step using Cons.IH[of ?m] Cons.prems rate_dispatch_count[OF le refl, of d "client_of c"] q by auto
  qed
  show ?thesis using gen[OF assms(1,2)] assms(3) by (simp add: hit_count_def)
qed

theorem rate_limit_exact_witness:
  "fst (rate_run ([(Some ''a'', 0), (Some ''b'', 1), (Some ''a'', 2)] @ [(Some ''a'', 3)]) \<lparr>rm_max = 2, rm_window = 60, rm_hits = []\<rparr>) ! 3 = False"
  using rate_limit_exact[of "[(Some ''a'', 0), (Some ''b'', 1), (Some ''a'', 2)]" "Some ''a''" 3 "\<lparr>rm_max = 2, rm_window = 60, rm_hits = []\<rparr>"]
  by (simp add: client_of_def case_prod_beta Let_def)

text \<open>A session started at time 0 and rotated once.\<close>

definition sample_store :: memory_store where
  "sample_store = snd (start_session memory_ops (\<lambda>x. x) 3600 0 ''sid'' ''tok-1'' ''user'' memory_store_init)"

lemma sample_reach: "session_reach (\<lambda>x. x) 3600 sample_store"
  unfolding sample_store_def
  by (intro session_reach.started session_reach.initial) (simp_all add: memory_ops_def memory_store_init_def)

theorem refresh_token_single_use_witness:
  "\<exists>s1 s2 e. rotate memory_ops (\<lambda>x. x) 5 ''tok-1'' ''tok-2'' sample_store = (Inr \<lparr>session_id = ''sid'', user_id = ''user'',
       ss_created_at = 0, ss_expires_at = 3600000000\<rparr>, s1) \<and>
     rotate memory_ops (\<lambda>x. x) 9 ''tok-1'' ''tok-3'' s1 = (Inl (Refresh_Reuse e), s2) \<and> load_session memory_ops ''sid'' s2 = None"
proof -
  let ?session = "\<lparr>session_id = ''sid'', user_id = ''user'', ss_created_at = 0, ss_expires_at = 3600000000\<rparr>"
  let ?r = "\<lparr>token_hash = ''tok-1'', rf_session_id = ''sid'', rf_user_id = ''user'', rf_expires_at = 3600000000, used = False\<rparr>"
  have load: "load_refresh memory_ops ''tok-1'' sample_store = Some ?r" "load_session memory_ops ''sid'' sample_store = Some ?session"
    by (simp_all add: sample_store_def start_session_def issue_refresh_def memory_ops_def memory_store_init_def Let_def)
  then obtain s1 where s1: "rotate memory_ops (\<lambda>x. x) 5 ''tok-1'' ''tok-2'' sample_store = (Inr ?session, s1)"
    by (simp add: rotate_def)
  show ?thesis
    using refresh_token_single_use[OF sample_reach s1 _ load(1), of 9 "''tok-3''"] s1 by auto
qed

theorem one_unused_token_per_session_witness:
  "length [e \<leftarrow> ms_refresh sample_store. rf_session_id (snd e) = ''sid'' \<and> \<not> used (snd e)] \<le> 1"
  by (rule one_unused_token_per_session[OF sample_reach])

end
