(* ===== verification/Session_Memory.thy ===== *)
theory Session_Memory
  imports Py_Value "HOL-Library.Multiset"
begin

text \<open>
  Session memory (\<^verbatim>\<open>memory/session.py\<close>) over its hot tier (\<^verbatim>\<open>memory/hot.py\<close>) and its durable tier (\<^verbatim>\<open>memory/durable.py\<close>, with the
  queries of \<^verbatim>\<open>backend/db/repositories/memory.py\<close>). The two tiers are interfaces: locale \<open>hot_tier\<close> for the cache,
  locale \<open>durable_tier\<close> for the append-only store, the latter with two implementations, one in process and one as
  rows of a table. Shown, for any tiers that keep their contract: what is remembered is recalled, reads agree with the
  durable store as long as no cache write fails, revisions are numbered and never rewritten. Shown too: a failed cache
  write leaves an outdated entry that later reads return, and a half-filled cache hides the rest of the working set.
\<close>

section \<open>Entries and tiers\<close>

record memory_entry =
  me_key :: string
  me_value :: mapping
  me_source :: string
  me_revision :: nat
  me_created_at :: "time option"

record memory_stats =
  hits :: nat
  misses :: nat
  evictions :: nat
  recoveries :: nat

definition no_stats :: memory_stats where
  "no_stats = \<lparr>hits = 0, misses = 0, evictions = 0, recoveries = 0\<rparr>"

definition hit_ratio :: "memory_stats \<Rightarrow> pyfloat" where
  "hit_ratio st = (let n = hits st + misses st in if n = 0 then 0 else rnd (of_nat (hits st) / of_nat n))"

record 'h hot_ops =
  h_get :: "string \<Rightarrow> string \<Rightarrow> 'h \<Rightarrow> memory_entry option"
  h_set :: "string \<Rightarrow> memory_entry \<Rightarrow> 'h \<Rightarrow> 'h"
  h_get_all :: "string \<Rightarrow> 'h \<Rightarrow> memory_entry list"
  h_clear :: "string \<Rightarrow> 'h \<Rightarrow> 'h"

record 'd durable_ops =
  d_append :: "string \<Rightarrow> string \<Rightarrow> mapping \<Rightarrow> string \<Rightarrow> 'd \<Rightarrow> memory_entry \<times> 'd"
  d_latest :: "string \<Rightarrow> string \<Rightarrow> 'd \<Rightarrow> memory_entry option"
  d_latest_all :: "string \<Rightarrow> 'd \<Rightarrow> memory_entry list"
  d_history :: "string \<Rightarrow> string \<Rightarrow> 'd \<Rightarrow> memory_entry list"

text \<open>A dictionary's value, or an empty one.\<close>

definition at_key :: "'k \<Rightarrow> ('k, 'v list) dict \<Rightarrow> 'v list" where
  "at_key k d = (case map_of d k of Some xs \<Rightarrow> xs | None \<Rightarrow> [])"

subsection \<open>The in-process hot store\<close>

type_synonym memory_hot = "(string, (string, memory_entry) dict) dict"

definition memory_hot_ops :: "memory_hot hot_ops" where
  "memory_hot_ops = \<lparr>
     h_get = (\<lambda>i k h. map_of (at_key i h) k),
     h_set = (\<lambda>i e h. dict_set i (dict_set (me_key e) e (at_key i h)) h),
     h_get_all = (\<lambda>i h. map snd (at_key i h)),
     h_clear = dict_del\<rparr>"

subsection \<open>The in-process durable store\<close>

type_synonym memory_durable = "(string, (string, memory_entry list) dict) dict"

definition memory_durable_ops :: "memory_durable durable_ops" where
  "memory_durable_ops = \<lparr>
     d_append = (\<lambda>i k v src d. let revisions = at_key k (at_key i d);
        e = \<lparr>me_key = k, me_value = v, me_source = src, me_revision = length revisions + 1, me_created_at = None\<rparr> in
        (e, dict_set i (dict_set k (revisions @ [e]) (at_key i d)) d)),
     d_latest = (\<lambda>i k d. let revisions = at_key k (at_key i d) in if revisions = [] then None else Some (last revisions)),
     d_latest_all = (\<lambda>i d. map (\<lambda>(_, revisions). last revisions) (filter (\<lambda>(_, revisions). revisions \<noteq> []) (sort_key fst (at_key i d)))),
     d_history = (\<lambda>i k d. at_key k (at_key i d))\<rparr>"

subsection \<open>The table\<close>

text \<open>Rows in insertion order, with the investigation each belongs to; \<open>now\<close> is the database's clock.\<close>

record table =
  tb_rows :: "(string \<times> memory_entry) list"
  tb_now :: time

definition rows_of :: "string \<Rightarrow> string \<Rightarrow> table \<Rightarrow> memory_entry list" where
  "rows_of i k t = map snd (filter (\<lambda>(j, e). j = i \<and> me_key e = k) (tb_rows t))"

definition next_revision :: "string \<Rightarrow> string \<Rightarrow> table \<Rightarrow> nat" where
  "next_revision i k t = foldr max (map me_revision (rows_of i k t)) 0 + 1"

definition newest :: "memory_entry list \<Rightarrow> memory_entry option" where
  "newest rows = (case sort_key (\<lambda>e. - int (me_revision e)) rows of [] \<Rightarrow> None | e # _ \<Rightarrow> Some e)"

definition table_ops :: "table durable_ops" where
  "table_ops = \<lparr>
     d_append = (\<lambda>i k v src t. let e = \<lparr>me_key = k, me_value = v, me_source = src, me_revision = next_revision i k t,
          me_created_at = Some (tb_now t)\<rparr> in (e, t\<lparr>tb_rows := tb_rows t @ [(i, e)]\<rparr>)),
     d_latest = (\<lambda>i k t. newest (rows_of i k t)),
     d_latest_all = (\<lambda>i t. sort_key me_key (filter (\<lambda>e. me_revision e = foldr max (map me_revision (rows_of i (me_key e) t)) 0)
        (map snd (filter (\<lambda>(j, _). j = i) (tb_rows t))))),
     d_history = (\<lambda>i k t. sort_key me_revision (rows_of i k t))\<rparr>"


section \<open>Session memory\<close>

record ('h, 'd) session_memory =
  sm_hot :: 'h
  sm_durable :: 'd
  sm_stats :: memory_stats

text \<open>\<open>hot_fails\<close> says whether the cache write raises; the durable write has then already happened.\<close>

definition session_write ::
  "'h hot_ops \<Rightarrow> 'd durable_ops \<Rightarrow> bool \<Rightarrow> string \<Rightarrow> string \<Rightarrow> mapping \<Rightarrow> string \<Rightarrow> ('h, 'd) session_memory
   \<Rightarrow> memory_entry \<times> ('h, 'd) session_memory" where
  "session_write H D hot_fails i k v src s =
     (let (e, d) = d_append D i k v src (sm_durable s); s1 = s\<lparr>sm_durable := d\<rparr> in
      (e, if hot_fails then s1 else s1\<lparr>sm_hot := h_set H i e (sm_hot s1)\<rparr>))"

definition session_read ::
  "'h hot_ops \<Rightarrow> 'd durable_ops \<Rightarrow> string \<Rightarrow> string \<Rightarrow> ('h, 'd) session_memory \<Rightarrow> memory_entry option \<times> ('h, 'd) session_memory" where
  "session_read H D i k s = (case h_get H i k (sm_hot s) of
     Some e \<Rightarrow> (Some e, s\<lparr>sm_stats := (sm_stats s)\<lparr>hits := hits (sm_stats s) + 1\<rparr>\<rparr>)
   | None \<Rightarrow> let s1 = s\<lparr>sm_stats := (sm_stats s)\<lparr>misses := misses (sm_stats s) + 1\<rparr>\<rparr> in
       (case d_latest D i k (sm_durable s1) of
          None \<Rightarrow> (None, s1)
        | Some e \<Rightarrow> (Some e, s1\<lparr>sm_hot := h_set H i e (sm_hot s1)\<rparr>)))"

definition rebuild ::
  "'h hot_ops \<Rightarrow> 'd durable_ops \<Rightarrow> string \<Rightarrow> ('h, 'd) session_memory \<Rightarrow> memory_entry list \<times> ('h, 'd) session_memory" where
  "rebuild H D i s =
     (let entries = d_latest_all D i (sm_durable s) in
      (sort_key me_key entries, s\<lparr>sm_hot := fold (h_set H i) entries (sm_hot s),
         sm_stats := (sm_stats s)\<lparr>recoveries := recoveries (sm_stats s) + 1\<rparr>\<rparr>))"

definition read_all ::
  "'h hot_ops \<Rightarrow> 'd durable_ops \<Rightarrow> string \<Rightarrow> ('h, 'd) session_memory \<Rightarrow> memory_entry list \<times> ('h, 'd) session_memory" where
  "read_all H D i s = (case h_get_all H i (sm_hot s) of
     [] \<Rightarrow> rebuild H D i (s\<lparr>sm_stats := (sm_stats s)\<lparr>misses := misses (sm_stats s) + 1\<rparr>\<rparr>)
   | cached \<Rightarrow> (sort_key me_key cached, s\<lparr>sm_stats := (sm_stats s)\<lparr>hits := hits (sm_stats s) + 1\<rparr>\<rparr>))"

definition session_history :: "'d durable_ops \<Rightarrow> string \<Rightarrow> string \<Rightarrow> ('h, 'd) session_memory \<Rightarrow> memory_entry list" where
  "session_history D i k s = d_history D i k (sm_durable s)"

definition evict_hot :: "'h hot_ops \<Rightarrow> string \<Rightarrow> ('h, 'd) session_memory \<Rightarrow> ('h, 'd) session_memory" where
  "evict_hot H i s = s\<lparr>sm_hot := h_clear H i (sm_hot s), sm_stats := (sm_stats s)\<lparr>evictions := evictions (sm_stats s) + 1\<rparr>\<rparr>"


section \<open>What a tier promises\<close>

locale hot_tier =
  fixes H :: "'h hot_ops" and hot_ok :: "'h \<Rightarrow> bool"
  assumes get_set: "hot_ok h \<Longrightarrow> h_get H i k (h_set H j e h) = (if i = j \<and> k = me_key e then Some e else h_get H i k h)"
    and get_clear: "hot_ok h \<Longrightarrow> h_get H i k (h_clear H j h) = (if i = j then None else h_get H i k h)"
    and get_all: "hot_ok h \<Longrightarrow> set (h_get_all H i h) = {e. h_get H i (me_key e) h = Some e} \<and> distinct (map me_key (h_get_all H i h))"
    and get_key: "hot_ok h \<Longrightarrow> h_get H i k h = Some e \<Longrightarrow> me_key e = k"
    and hot_kept: "hot_ok h \<Longrightarrow> hot_ok (h_set H i e h)" "hot_ok h \<Longrightarrow> hot_ok (h_clear H i h)"

locale durable_tier =
  fixes D :: "'d durable_ops" and dur_ok :: "'d \<Rightarrow> bool"
  assumes append_entry: "dur_ok d \<Longrightarrow> d_append D i k v src d = (e, d') \<Longrightarrow>
      me_key e = k \<and> me_value e = v \<and> me_source e = src \<and> me_revision e = length (d_history D i k d) + 1"
    and append_history: "dur_ok d \<Longrightarrow> d_append D i k v src d = (e, d') \<Longrightarrow>
      d_history D j l d' = (if j = i \<and> l = k then d_history D i k d @ [e] else d_history D j l d)"
    and latest: "dur_ok d \<Longrightarrow> d_latest D i k d = (if d_history D i k d = [] then None else Some (last (d_history D i k d)))"
    and latest_all: "dur_ok d \<Longrightarrow> set (d_latest_all D i d) = {e. d_latest D i (me_key e) d = Some e} \<and> distinct (map me_key (d_latest_all D i d))"
    and history_facts: "dur_ok d \<Longrightarrow> e \<in> set (d_history D i k d) \<Longrightarrow> me_key e = k"
      "dur_ok d \<Longrightarrow> map me_revision (d_history D i k d) = [1..<length (d_history D i k d) + 1]"
    and dur_kept: "dur_ok d \<Longrightarrow> d_append D i k v src d = (e, d') \<Longrightarrow> dur_ok d'"

text \<open>The cache is coherent when whatever it holds is the newest revision.\<close>

definition coherent :: "'h hot_ops \<Rightarrow> ('h \<Rightarrow> bool) \<Rightarrow> 'd durable_ops \<Rightarrow> ('d \<Rightarrow> bool) \<Rightarrow> ('h, 'd) session_memory \<Rightarrow> bool" where
  "coherent H hot_ok D dur_ok s \<longleftrightarrow> hot_ok (sm_hot s) \<and> dur_ok (sm_durable s) \<and>
     (\<forall>i k e. h_get H i k (sm_hot s) = Some e \<longrightarrow> d_latest D i k (sm_durable s) = Some e)"

text \<open>
  What can happen to a session memory: its operations, and the cache losing entries on its own (expiry, a restart).
  With \<open>faulty\<close> a cache write may fail.
\<close>

inductive session_step :: "'h hot_ops \<Rightarrow> ('h \<Rightarrow> bool) \<Rightarrow> 'd durable_ops \<Rightarrow> bool \<Rightarrow> ('h, 'd) session_memory \<Rightarrow> ('h, 'd) session_memory \<Rightarrow> bool"
  for H hot_ok D faulty where
  step_write: "session_write H D hot_fails i k v src s = (e, s') \<Longrightarrow> hot_fails \<longrightarrow> faulty \<Longrightarrow> session_step H hot_ok D faulty s s'"
| step_read: "session_step H hot_ok D faulty s (snd (session_read H D i k s))"
| step_read_all: "session_step H hot_ok D faulty s (snd (read_all H D i s))"
| step_rebuild: "session_step H hot_ok D faulty s (snd (rebuild H D i s))"
| step_evict: "session_step H hot_ok D faulty s (evict_hot H i s)"
| step_loss: "hot_ok h \<Longrightarrow> \<forall>i k e. h_get H i k h = Some e \<longrightarrow> h_get H i k (sm_hot s) = Some e \<Longrightarrow>
    session_step H hot_ok D faulty s (s\<lparr>sm_hot := h\<rparr>)"

text \<open>Both together carry the session memory.\<close>

locale session_tiers = hot_tier H hot_ok + durable_tier D dur_ok
  for H :: "'h hot_ops" and hot_ok :: "'h \<Rightarrow> bool" and D :: "'d durable_ops" and dur_ok :: "'d \<Rightarrow> bool"
begin

abbreviation ok :: "('h, 'd) session_memory \<Rightarrow> bool" where
  "ok \<equiv> coherent H hot_ok D dur_ok"

lemma latest_key: "dur_ok d \<Longrightarrow> d_latest D i k d = Some e \<Longrightarrow> me_key e = k"
  using history_facts(1)[of d "last (d_history D i k d)" i k] by (auto simp: latest split: if_splits)

lemma append_latest:
  assumes "dur_ok d" "d_append D i k v src d = (e, d')"
  shows "d_latest D j l d' = (if j = i \<and> l = k then Some e else d_latest D j l d)"
  using append_history[OF assms] dur_kept[OF assms] assms(1) by (simp add: latest)

lemma write_coherent:
  assumes "ok s" "session_write H D False i k v src s = (e, s')"
  shows "ok s' \<and> d_latest D j l (sm_durable s') = (if j = i \<and> l = k then Some e else d_latest D j l (sm_durable s))"
proof -
  obtain d where a: "d_append D i k v src (sm_durable s) = (e, d)" and
      s': "s' = s\<lparr>sm_durable := d, sm_hot := h_set H i e (sm_hot s)\<rparr>"
    using assms(2) by (auto simp: session_write_def split: prod.splits)
  have ok: "hot_ok (sm_hot s)" "dur_ok (sm_durable s)" using assms(1) by (simp_all add: coherent_def)
  have k: "me_key e = k" using append_entry[OF ok(2) a] by simp
  show ?thesis using assms(1) append_latest[OF ok(2) a] dur_kept[OF ok(2) a] hot_kept(1)[OF ok(1)] get_set[OF ok(1)] k
    by (auto simp: coherent_def s')
qed

lemma read_coherent:
  assumes "ok s"
  shows "fst (session_read H D i k s) = d_latest D i k (sm_durable s)" "ok (snd (session_read H D i k s))"
    "sm_durable (snd (session_read H D i k s)) = sm_durable s"
proof -
  have ok: "hot_ok (sm_hot s)" "dur_ok (sm_durable s)" using assms by (simp_all add: coherent_def)
  show "fst (session_read H D i k s) = d_latest D i k (sm_durable s)"
    using assms by (auto simp: session_read_def coherent_def Let_def split: option.splits)
  show "ok (snd (session_read H D i k s))"
    using assms latest_key[OF ok(2)] hot_kept(1)[OF ok(1)] get_set[OF ok(1)]
    by (auto simp: session_read_def coherent_def Let_def split: option.splits)
  show "sm_durable (snd (session_read H D i k s)) = sm_durable s" by (auto simp: session_read_def Let_def split: option.splits)
qed

lemma evict_coherent:
  assumes "ok s"
  shows "ok (evict_hot H i s)" "sm_durable (evict_hot H i s) = sm_durable s"
  using assms hot_kept(2) get_clear by (auto simp: coherent_def evict_hot_def split: if_splits)

lemma fold_set:
  assumes "hot_ok h" "distinct (map me_key es)"
  shows "hot_ok (fold (h_set H i) es h) \<and>
    h_get H j k (fold (h_set H i) es h) = (if j = i then (case find (\<lambda>e. me_key e = k) es of Some e \<Rightarrow> Some e | None \<Rightarrow> h_get H j k h) else h_get H j k h)"
  using assms
proof (induction es arbitrary: h)
  case (Cons e es)
  have "\<forall>x \<in> set es. me_key x \<noteq> me_key e" using Cons(3) by (metis distinct.simps(2) image_eqI list.simps(9) set_map)
  then have "find (\<lambda>x. me_key x = me_key e) es = None" by (simp add: find_None_iff)
  then show ?case using Cons.IH[OF hot_kept(1)[OF Cons(2)]] Cons(3) get_set[OF Cons(2)] by (auto split: option.splits)
qed simp

lemma find_latest:
  assumes "dur_ok d"
  shows "find (\<lambda>e. me_key e = k) (d_latest_all D i d) = d_latest D i k d"
proof (cases "find (\<lambda>e. me_key e = k) (d_latest_all D i d)")
  case None
  then have n: "\<forall>e \<in> set (d_latest_all D i d). me_key e \<noteq> k" by (auto simp: find_None_iff)
  have "d_latest D i k d \<noteq> Some e" for e
  proof
    assume e: "d_latest D i k d = Some e"
    then have "me_key e = k" by (rule latest_key[OF assms])
    then show False using n latest_all[OF assms, of i] e by auto
  qed
  then show ?thesis using None by (cases "d_latest D i k d") auto
next
  case (Some e)
  then have "e \<in> set (d_latest_all D i d)" "me_key e = k" by (auto simp: find_Some_iff)
  then show ?thesis using latest_all[OF assms, of i] Some by auto
qed

lemma rebuild_complete:
  assumes "ok s"
  shows "ok (snd (rebuild H D i s))" "set (fst (rebuild H D i s)) = {e. d_latest D i (me_key e) (sm_durable s) = Some e}"
    "h_get H i k (sm_hot (snd (rebuild H D i s))) = d_latest D i k (sm_durable s)"
    "sm_durable (snd (rebuild H D i s)) = sm_durable s"
proof -
  have ok: "hot_ok (sm_hot s)" "dur_ok (sm_durable s)" using assms by (simp_all add: coherent_def)
  note f = fold_set[OF ok(1) conjunct2[OF latest_all[OF ok(2)]], unfolded find_latest[OF ok(2)]]
  have gone: "d_latest D j k (sm_durable s) = None \<Longrightarrow> h_get H j k (sm_hot s) = None" for j k
    using assms by (metis coherent_def not_None_eq)
  show "ok (snd (rebuild H D i s))" using f assms ok gone by (auto simp: coherent_def rebuild_def Let_def split: if_splits option.splits)
  show "set (fst (rebuild H D i s)) = {e. d_latest D i (me_key e) (sm_durable s) = Some e}" using latest_all[OF ok(2)] by (simp add: rebuild_def Let_def)
  show "h_get H i k (sm_hot (snd (rebuild H D i s))) = d_latest D i k (sm_durable s)"
    using f[of i i i k] gone[of i k] by (auto simp: rebuild_def Let_def split: option.splits)
  show "sm_durable (snd (rebuild H D i s)) = sm_durable s" by (simp add: rebuild_def Let_def)
qed

lemma read_all_coherent:
  assumes "ok s"
  shows "ok (snd (read_all H D i s))" "sm_durable (snd (read_all H D i s)) = sm_durable s"
    "set (fst (read_all H D i s)) \<subseteq> {e. d_latest D i (me_key e) (sm_durable s) = Some e}"
proof -
  let ?miss = "s\<lparr>sm_stats := (sm_stats s)\<lparr>misses := misses (sm_stats s) + 1\<rparr>\<rparr>"
  have "ok ?miss" using assms by (simp add: coherent_def)
  note r = rebuild_complete[OF this]
  have c: "set (h_get_all H i (sm_hot s)) \<subseteq> {e. d_latest D i (me_key e) (sm_durable s) = Some e}"
    using assms get_all by (fastforce simp: coherent_def)
  show "ok (snd (read_all H D i s))" using r(1) assms by (auto simp: read_all_def coherent_def split: list.splits)
  show "sm_durable (snd (read_all H D i s)) = sm_durable s" using r(4) by (auto simp: read_all_def split: list.splits)
  show "set (fst (read_all H D i s)) \<subseteq> {e. d_latest D i (me_key e) (sm_durable s) = Some e}"
    using r(2) c by (auto simp: read_all_def set_insort_key split: list.splits)
qed

text \<open>Once the cache of an investigation is dropped, the whole-set read lists the newest revision of every key ever written.\<close>

lemma read_all_dropped:
  assumes "ok s"
  shows "sorted (map me_key (fst (read_all H D i (evict_hot H i s))))" "distinct (map me_key (fst (read_all H D i (evict_hot H i s))))"
    "set (fst (read_all H D i (evict_hot H i s))) = {e. fst (session_read H D i (me_key e) s) = Some e}"
proof -
  let ?s = "evict_hot H i s"
  let ?miss = "?s\<lparr>sm_stats := (sm_stats ?s)\<lparr>misses := misses (sm_stats ?s) + 1\<rparr>\<rparr>"
  note e = evict_coherent[OF assms, of i]
  have ok: "hot_ok (sm_hot s)" "hot_ok (sm_hot ?s)" "dur_ok (sm_durable s)" using assms e by (simp_all add: coherent_def)
  have "set (h_get_all H i (sm_hot ?s)) = {}" using get_all[OF ok(2)] get_clear[OF ok(1), of i _ i] by (simp add: evict_hot_def)
  then have "h_get_all H i (sm_hot ?s) = []" by simp
  then have r: "fst (read_all H D i ?s) = sort_key me_key (d_latest_all D i (sm_durable s))"
    using e(2) by (simp add: read_all_def rebuild_def Let_def)
  show "sorted (map me_key (fst (read_all H D i ?s)))" unfolding r by (rule sorted_sort_key)
  show "distinct (map me_key (fst (read_all H D i ?s)))" unfolding r using conjunct2[OF latest_all[OF ok(3), of i]] by (simp add: distinct_map)
  show "set (fst (read_all H D i ?s)) = {e. fst (session_read H D i (me_key e) s) = Some e}"
    unfolding r using latest_all[OF ok(3), of i] read_coherent(1)[OF assms] by simp
qed

lemma step_coherent: "session_step H hot_ok D False s s' \<Longrightarrow> ok s \<Longrightarrow> ok s'"
proof (induction rule: session_step.induct)
  case (step_loss h s)
  then show ?case by (simp add: coherent_def)
qed (auto simp: write_coherent read_coherent read_all_coherent rebuild_complete evict_coherent)

lemma steps_coherent: "(session_step H hot_ok D False)\<^sup>*\<^sup>* s s' \<Longrightarrow> ok s \<Longrightarrow> ok s'"
  by (induction rule: rtranclp_induct) (auto intro: step_coherent)

lemma read_newest: "ok s \<Longrightarrow> fst (session_read H D i k s) = (case session_history D i k s of [] \<Rightarrow> None | es \<Rightarrow> Some (last es))"
  using read_coherent(1)[of s i k] latest[of "sm_durable s" i k] by (auto simp: coherent_def session_history_def split: list.splits)

lemma remember_recall:
  assumes "ok s" "session_write H D False i k v src s = (e, s')"
  shows "fst (session_read H D i k s') = Some e" "me_value e = v" "me_source e = src"
    "me_revision e = length (session_history D i k s) + 1"
    "session_history D j l s' = (if j = i \<and> l = k then session_history D i k s @ [e] else session_history D j l s)"
proof -
  obtain d where a: "d_append D i k v src (sm_durable s) = (e, d)" "sm_durable s' = d"
    using assms(2) by (auto simp: session_write_def split: prod.splits)
  have d: "dur_ok (sm_durable s)" using assms(1) by (simp add: coherent_def)
  show "me_value e = v" "me_source e = src" "me_revision e = length (session_history D i k s) + 1"
    using append_entry[OF d a(1)] by (simp_all add: session_history_def)
  show "session_history D j l s' = (if j = i \<and> l = k then session_history D i k s @ [e] else session_history D j l s)"
    using append_history[OF d a(1)] a(2) by (simp add: session_history_def)
  show "fst (session_read H D i k s') = Some e"
    using write_coherent[OF assms] read_coherent(1) by simp
qed

text \<open>The durable side is append-only under every step, failed cache writes included.\<close>

lemma step_history:
  assumes "session_step H hot_ok D faulty s s'" "dur_ok (sm_durable s)"
  shows "dur_ok (sm_durable s') \<and> prefix (session_history D i k s) (session_history D i k s')"
  using assms
proof (induction rule: session_step.induct)
  case (step_write hot_fails j l v src s e s')
  obtain d where a: "d_append D j l v src (sm_durable s) = (e, d)" "sm_durable s' = d"
    using step_write(1) by (auto simp: session_write_def Let_def split: prod.splits if_splits)
  then show ?case using append_history[OF step_write(3) a(1)] dur_kept[OF step_write(3) a(1)]
    by (auto simp: session_history_def)
qed (auto simp: session_read_def read_all_def rebuild_def evict_hot_def session_history_def Let_def split: option.splits list.splits)

lemma steps_history:
  assumes "(session_step H hot_ok D faulty)\<^sup>*\<^sup>* s s'" "dur_ok (sm_durable s)"
  shows "dur_ok (sm_durable s') \<and> prefix (session_history D i k s) (session_history D i k s') \<and>
    map me_revision (session_history D i k s') = [1..<length (session_history D i k s') + 1]"
  using assms
proof (induction rule: rtranclp_induct)
  case base
  then show ?case using history_facts(2)[of "sm_durable s" i k] by (simp add: session_history_def)
next
  case (step y z)
  then show ?case using step_history[OF step(2), of i k] history_facts(2)[of "sm_durable z" i k]
    by (auto simp: session_history_def intro: prefix_order.trans)
qed

end

section \<open>The implementations keep the contracts\<close>

lemma at_key_set: "at_key k (dict_set l xs d) = (if k = l then xs else at_key k d)"
  by (simp add: at_key_def dict_set_lookup)

lemma at_key_del: "at_key k (dict_del l d) = (if k = l then [] else at_key k d)"
  by (simp add: at_key_def dict_del_lookup)

definition memory_hot_ok :: "memory_hot \<Rightarrow> bool" where
  "memory_hot_ok h \<longleftrightarrow> (\<forall>i. distinct (map fst (at_key i h)) \<and> (\<forall>(k, e) \<in> set (at_key i h). me_key e = k))"

lemma dict_set_members: "(k', v') \<in> set (dict_set k v d) \<Longrightarrow> (k', v') = (k, v) \<or> (k', v') \<in> set d"
  by (induction k v d rule: dict_set.induct) (auto split: if_splits)

interpretation hot_mem: hot_tier memory_hot_ops memory_hot_ok
proof
  fix h i k j e
  assume ok: "memory_hot_ok h"
  have d: "distinct (map fst (at_key i h))" "\<forall>(k, e) \<in> set (at_key i h). me_key e = k" for i
    using ok by (simp_all add: memory_hot_ok_def)
  show "h_get memory_hot_ops i k (h_set memory_hot_ops j e h) = (if i = j \<and> k = me_key e then Some e else h_get memory_hot_ops i k h)"
    by (simp add: memory_hot_ops_def at_key_set dict_set_lookup)
  show "h_get memory_hot_ops i k (h_clear memory_hot_ops j h) = (if i = j then None else h_get memory_hot_ops i k h)"
    by (simp add: memory_hot_ops_def at_key_del)
  have keys: "map me_key (h_get_all memory_hot_ops i h) = map fst (at_key i h)" using d(2)[of i] by (auto simp: memory_hot_ops_def)
  have "distinct (map me_key (h_get_all memory_hot_ops i h))" unfolding keys by (rule d(1))
  moreover have "e \<in> set (h_get_all memory_hot_ops i h) \<longleftrightarrow> h_get memory_hot_ops i (me_key e) h = Some e" for e
    using d(2)[of i] map_of_eq_Some_iff[OF d(1), of i "me_key e" e] by (force simp: memory_hot_ops_def)
  ultimately show "set (h_get_all memory_hot_ops i h) = {e. h_get memory_hot_ops i (me_key e) h = Some e} \<and>
      distinct (map me_key (h_get_all memory_hot_ops i h))" by blast
  show "memory_hot_ok (h_clear memory_hot_ops i h)" using ok by (simp add: memory_hot_ops_def memory_hot_ok_def at_key_del)
  show "memory_hot_ok (h_set memory_hot_ops i e h)"
    using ok dict_set_distinct dict_set_members by (fastforce simp: memory_hot_ops_def memory_hot_ok_def at_key_set)
  show "h_get memory_hot_ops i k h = Some e \<Longrightarrow> me_key e = k"
    using d(2)[of i] by (auto simp: memory_hot_ops_def dest!: map_of_SomeD)
qed

definition memory_durable_ok :: "memory_durable \<Rightarrow> bool" where
  "memory_durable_ok d \<longleftrightarrow> (\<forall>i. distinct (map fst (at_key i d)) \<and> (\<forall>(k, es) \<in> set (at_key i d). es \<noteq> []) \<and>
     (\<forall>k. (\<forall>e \<in> set (at_key k (at_key i d)). me_key e = k) \<and>
          map me_revision (at_key k (at_key i d)) = [1..<length (at_key k (at_key i d)) + 1]))"

lemma at_key_member: "distinct (map fst d) \<Longrightarrow> (k, xs) \<in> set d \<Longrightarrow> at_key k d = xs"
  by (simp add: at_key_def)

lemma at_key_nonempty: "at_key k d \<noteq> [] \<Longrightarrow> (k, at_key k d) \<in> set d"
  by (auto simp: at_key_def split: option.splits dest: map_of_SomeD)

interpretation dur_mem: durable_tier memory_durable_ops memory_durable_ok
proof
  fix d i k v src e d' j l
  assume ok: "memory_durable_ok d"
  have m: "distinct (map fst (at_key i d))" "\<forall>(k, es) \<in> set (at_key i d). es \<noteq> []"
      "\<forall>e \<in> set (at_key k (at_key i d)). me_key e = k" "map me_revision (at_key k (at_key i d)) = [1..<length (at_key k (at_key i d)) + 1]" for i k
    using ok by (simp_all add: memory_durable_ok_def)
  show "d_latest memory_durable_ops i k d =
      (if d_history memory_durable_ops i k d = [] then None else Some (last (d_history memory_durable_ops i k d)))"
    by (simp add: memory_durable_ops_def Let_def)
  show "e \<in> set (d_history memory_durable_ops i k d) \<Longrightarrow> me_key e = k" using m(3) by (simp add: memory_durable_ops_def)
  show "map me_revision (d_history memory_durable_ops i k d) = [1..<length (d_history memory_durable_ops i k d) + 1]"
    using m(4) by (simp add: memory_durable_ops_def)
  have "filter (\<lambda>(_, revisions). revisions \<noteq> []) (sort_key fst (at_key i d)) = sort_key fst (at_key i d)"
    using m(2)[of i] by (intro filter_True) simp
  then have all: "d_latest_all memory_durable_ops i d = map (last \<circ> snd) (sort_key fst (at_key i d))"
    by (simp add: memory_durable_ops_def case_prod_beta comp_def)
  have keys: "me_key (last es) = k" if "(k, es) \<in> set (at_key i d)" for k es
    using m(2)[of i] m(3)[of k i] at_key_member[OF m(1) that] that by fastforce
  then have "map me_key (d_latest_all memory_durable_ops i d) = map fst (sort_key fst (at_key i d))" by (auto simp: all)
  then have dist: "distinct (map me_key (d_latest_all memory_durable_ops i d))" using m(1)[of i] by (simp add: distinct_map)
  have "e \<in> set (d_latest_all memory_durable_ops i d) \<longleftrightarrow> d_latest memory_durable_ops i (me_key e) d = Some e" for e
  proof
    assume "e \<in> set (d_latest_all memory_durable_ops i d)"
    then obtain k es where "(k, es) \<in> set (at_key i d)" "e = last es" by (auto simp: all)
    then show "d_latest memory_durable_ops i (me_key e) d = Some e"
      using keys at_key_member[OF m(1)] m(2)[of i] by (fastforce simp: memory_durable_ops_def Let_def)
  next
    assume "d_latest memory_durable_ops i (me_key e) d = Some e"
    then show "e \<in> set (d_latest_all memory_durable_ops i d)"
      using at_key_nonempty[of "me_key e" "at_key i d"] by (force simp: memory_durable_ops_def Let_def all split: if_splits)
  qed
  then show "set (d_latest_all memory_durable_ops i d) = {e. d_latest memory_durable_ops i (me_key e) d = Some e} \<and>
      distinct (map me_key (d_latest_all memory_durable_ops i d))" using dist by blast
  assume a: "d_append memory_durable_ops i k v src d = (e, d')"
  then have e: "e = \<lparr>me_key = k, me_value = v, me_source = src, me_revision = length (at_key k (at_key i d)) + 1, me_created_at = None\<rparr>"
    "d' = dict_set i (dict_set k (at_key k (at_key i d) @ [e]) (at_key i d)) d" by (auto simp: memory_durable_ops_def Let_def)
  show "me_key e = k \<and> me_value e = v \<and> me_source e = src \<and> me_revision e = length (d_history memory_durable_ops i k d) + 1"
    by (simp add: e(1) memory_durable_ops_def)
  have h: "at_key l (at_key j d') = (if j = i \<and> l = k then at_key k (at_key i d) @ [e] else at_key l (at_key j d))" for j l
    by (simp add: e(2) at_key_set)
  then show "d_history memory_durable_ops j l d' =
      (if j = i \<and> l = k then d_history memory_durable_ops i k d @ [e] else d_history memory_durable_ops j l d)"
    by (simp add: memory_durable_ops_def)
  have dj: "distinct (map fst (at_key j d')) \<and> (\<forall>(k, es) \<in> set (at_key j d'). es \<noteq> [])" for j
  proof (cases "j = i")
    case True
    then have "at_key j d' = dict_set k (at_key k (at_key i d) @ [e]) (at_key i d)" by (simp add: e(2) at_key_set)
    then show ?thesis using dict_set_distinct[OF m(1)] m(2)[of i] dict_set_members by fastforce
  next
    case False
    then have "at_key j d' = at_key j d" by (simp add: e(2) at_key_set)
    then show ?thesis using m(1,2) by simp
  qed
  have "(\<forall>x \<in> set (at_key l (at_key j d')). me_key x = l) \<and>
      map me_revision (at_key l (at_key j d')) = [1..<length (at_key l (at_key j d')) + 1]" for j l
    using m(3)[of l j] m(4)[of l j] by (cases "j = i \<and> l = k") (auto simp: h e(1))
  then show "memory_durable_ok d'" using dj by (simp add: memory_durable_ok_def)
qed

definition table_ok :: "table \<Rightarrow> bool" where
  "table_ok t \<longleftrightarrow> (\<forall>i k. map me_revision (rows_of i k t) = [1..<length (rows_of i k t) + 1])"

lemma foldr_max: "foldr max xs a = max (foldr max xs 0) (a :: nat)"
  by (induction xs) (auto simp: max.assoc)

lemma greatest: "foldr max [1..<n + 1] 0 = (n :: nat)"
  by (induction n) (simp, simp add: foldr_max[of _ "Suc _"])

lemma newest_last:
  assumes r: "map me_revision rows = [1..<length rows + 1]"
  shows "newest rows = (if rows = [] then None else Some (last rows))"
proof -
  let ?f = "\<lambda>e. - int (me_revision e)"
  have "distinct (map me_revision rows)" unfolding r by (rule distinct_upt)
  then have inj: "inj_on ?f (set rows)" by (simp add: distinct_map inj_on_def)
  have "map ?f (rev rows) = rev (map (\<lambda>n. - int n) (map me_revision rows))" by (simp add: rev_map)
  also have "sorted \<dots>" unfolding r sorted_wrt_rev sorted_wrt_map by (rule sorted_wrt_mono_rel[OF _ sorted_upt]) simp
  finally have "sort_key ?f rows = rev rows" by (intro sort_key_inj_key_eq[OF _ inj]) simp_all
  then show ?thesis by (cases rows rule: rev_cases) (simp_all add: newest_def)
qed

lemma at_most_one: "distinct (map f xs) \<Longrightarrow> length (filter (\<lambda>x. f x = n) xs) \<le> 1"
proof (induction xs)
  case (Cons x xs)
  then have "f y \<noteq> f x" if "y \<in> set xs" for y using that by (metis distinct.simps(2) image_eqI list.simps(9) set_map)
  then have "f x = n \<Longrightarrow> filter (\<lambda>y. f y = n) xs = []" by (auto simp: filter_empty_conv)
  with Cons show ?case by auto
qed simp

lemma distinct_by_count: "(\<And>k. length (filter (\<lambda>x. f x = k) xs) \<le> 1) \<Longrightarrow> distinct (map f xs)"
proof (induction xs)
  case (Cons x xs)
  have "length (filter (\<lambda>y. f y = k) xs) \<le> 1" for k using Cons.prems[of k] by (auto split: if_splits)
  moreover have "filter (\<lambda>y. f y = f x) xs = []" using Cons.prems[of "f x"] by simp
  ultimately show ?case using Cons.IH by (auto simp: filter_empty_conv)
qed simp

lemma rows_of_set: "set (rows_of i k t) = {e. (i, e) \<in> set (tb_rows t) \<and> me_key e = k}"
  by (auto simp: rows_of_def image_iff)

lemma rows_of_append: "rows_of j l (t\<lparr>tb_rows := tb_rows t @ [(i, e)]\<rparr>) = rows_of j l t @ (if j = i \<and> l = me_key e then [e] else [])"
  by (auto simp: rows_of_def)

interpretation dur_table: durable_tier table_ops table_ok
proof
  fix t i k v src e t' j l
  assume ok: "table_ok t"
  have r: "map me_revision (rows_of i k t) = [1..<length (rows_of i k t) + 1]" for i k using ok by (simp add: table_ok_def)
  have top: "foldr max (map me_revision (rows_of i k t)) 0 = length (rows_of i k t)" for i k unfolding r by (rule greatest)
  have hist: "d_history table_ops i k t = rows_of i k t" for i k
  proof -
    have "sorted (map me_revision (rows_of i k t))" unfolding r by (rule sorted_upt)
    then show ?thesis by (simp add: table_ops_def sort_key_id_if_sorted)
  qed
  have lat: "d_latest table_ops i k t = (if rows_of i k t = [] then None else Some (last (rows_of i k t)))" for i k
    by (simp add: table_ops_def newest_last[OF r])
  then show "d_latest table_ops i k t = (if d_history table_ops i k t = [] then None else Some (last (d_history table_ops i k t)))"
    by (simp add: hist)
  show "e \<in> set (d_history table_ops i k t) \<Longrightarrow> me_key e = k" by (auto simp: hist rows_of_def)
  show "map me_revision (d_history table_ops i k t) = [1..<length (d_history table_ops i k t) + 1]" unfolding hist by (rule r)
  have last_iff: "e \<in> set (rows_of i k t) \<and> me_revision e = length (rows_of i k t) \<longleftrightarrow> rows_of i k t \<noteq> [] \<and> e = last (rows_of i k t)" for e k
  proof -
    let ?R = "rows_of i k t"
    have n: "me_revision (?R ! m) = m + 1" if "m < length ?R" for m using arg_cong[OF r[of i k], of "\<lambda>xs. xs ! m"] that by (simp del: upt_Suc)
    show ?thesis
    proof
      assume "e \<in> set ?R \<and> me_revision e = length ?R"
      then obtain m where "m < length ?R" "e = ?R ! m" "m + 1 = length ?R" using n by (metis in_set_conv_nth)
      then show "?R \<noteq> [] \<and> e = last ?R" by (cases ?R rule: rev_cases) (auto simp: nth_append)
    next
      assume "?R \<noteq> [] \<and> e = last ?R"
      then show "e \<in> set ?R \<and> me_revision e = length ?R" using n[of "length ?R - 1"] by (simp add: last_conv_nth)
    qed
  qed
  have mem: "e \<in> set (d_latest_all table_ops i t) \<longleftrightarrow> e \<in> set (rows_of i (me_key e) t) \<and> me_revision e = length (rows_of i (me_key e) t)" for e
  proof -
    have "e \<in> set (map snd (filter (\<lambda>(j, _). j = i) (tb_rows t))) \<longleftrightarrow> (i, e) \<in> set (tb_rows t)" by (auto simp: image_iff)
    then show ?thesis by (simp add: table_ops_def top rows_of_set conj_commute)
  qed
  have "length (filter (\<lambda>e. me_key e = k) (filter (\<lambda>e. me_revision e = length (rows_of i (me_key e) t))
      (map snd (filter (\<lambda>(j, _). j = i) (tb_rows t))))) \<le> 1" for k
  proof -
    let ?R = "rows_of i k t"
    have "filter (\<lambda>e. me_key e = k) (filter (\<lambda>e. me_revision e = length (rows_of i (me_key e) t)) (map snd (filter (\<lambda>(j, _). j = i) (tb_rows t))))
        = filter (\<lambda>e. me_revision e = length ?R) ?R"
      by (auto simp: rows_of_def filter_map comp_def case_prod_beta intro!: arg_cong[of _ _ "map snd"] filter_cong)
    moreover have "distinct (map me_revision ?R)" unfolding r by (rule distinct_upt)
    ultimately show ?thesis using at_most_one by metis
  qed
  then have "distinct (map me_key (filter (\<lambda>e. me_revision e = length (rows_of i (me_key e) t)) (map snd (filter (\<lambda>(j, _). j = i) (tb_rows t)))))"
    by (rule distinct_by_count)
  then have "distinct (map me_key (d_latest_all table_ops i t))" by (simp add: table_ops_def top distinct_map)
  then show "set (d_latest_all table_ops i t) = {e. d_latest table_ops i (me_key e) t = Some e} \<and> distinct (map me_key (d_latest_all table_ops i t))"
    using mem last_iff lat by auto
  assume a: "d_append table_ops i k v src t = (e, t')"
  then have e: "e = \<lparr>me_key = k, me_value = v, me_source = src, me_revision = length (rows_of i k t) + 1, me_created_at = Some (tb_now t)\<rparr>"
    "t' = t\<lparr>tb_rows := tb_rows t @ [(i, e)]\<rparr>" by (auto simp: table_ops_def Let_def next_revision_def top)
  show "me_key e = k \<and> me_value e = v \<and> me_source e = src \<and> me_revision e = length (d_history table_ops i k t) + 1" by (simp add: e(1) hist)
  have rt: "map me_revision (rows_of j l t') = [1..<length (rows_of j l t') + 1]" for j l
    using r[of j l] by (cases "j = i \<and> l = k") (auto simp: e(1) e(2) rows_of_append)
  then show tk: "table_ok t'" by (simp add: table_ok_def del: upt_Suc)
  have "sorted (map me_revision (rows_of j l t'))" for j l unfolding rt by (rule sorted_upt)
  then have "d_history table_ops j l t' = rows_of j l t'" for j l by (simp add: table_ops_def sort_key_id_if_sorted)
  then show "d_history table_ops j l t' = (if j = i \<and> l = k then d_history table_ops i k t @ [e] else d_history table_ops j l t)"
    by (auto simp: hist e(1) e(2) rows_of_append)
qed

interpretation in_process: session_tiers memory_hot_ops memory_hot_ok memory_durable_ops memory_durable_ok
  by unfold_locales

interpretation with_table: session_tiers memory_hot_ops memory_hot_ok table_ops table_ok
  by unfold_locales


section \<open>Properties\<close>

definition fresh_session :: "'d \<Rightarrow> (memory_hot, 'd) session_memory" where
  "fresh_session d = \<lparr>sm_hot = [], sm_durable = d, sm_stats = no_stats\<rparr>"

definition empty_table :: "time \<Rightarrow> table" where
  "empty_table now = \<lparr>tb_rows = [], tb_now = now\<rparr>"

lemma fresh_coherent:
  "coherent memory_hot_ops memory_hot_ok memory_durable_ops memory_durable_ok (fresh_session [])"
  "coherent memory_hot_ops memory_hot_ok table_ops table_ok (fresh_session (empty_table now))"
  by (simp_all add: coherent_def fresh_session_def empty_table_def memory_hot_ok_def memory_durable_ok_def table_ok_def at_key_def
      rows_of_def memory_hot_ops_def)

abbreviation table_steps :: "bool \<Rightarrow> (memory_hot, table) session_memory \<Rightarrow> (memory_hot, table) session_memory \<Rightarrow> bool" where
  "table_steps faulty \<equiv> (session_step memory_hot_ops memory_hot_ok table_ops faulty)\<^sup>*\<^sup>*"

text \<open>C16: What is remembered is recalled. After any sequence of writes, reads, rebuilds, evictions and spontaneous losses of
  cached entries in which no cache write failed, reading a key returns exactly the last entry of its durable history, or nothing
  when it has none. Writing a value then appends to the history of that key, and to no other, an entry with the value, its source and
  the next revision number; reading the key returns that entry, reading any other key returns what it did before; and once the cache
  of an investigation is dropped, its whole working set lists, sorted by key, exactly what reading each key returns.\<close>

theorem memory_recalls:
  assumes "table_steps False (fresh_session (empty_table now)) s"
    and "session_write memory_hot_ops table_ops False i k v src s = (e, s')"
  shows "me_key e = k \<and> me_value e = v \<and> me_source e = src \<and> me_revision e = length (session_history table_ops i k s) + 1 \<and>
    session_history table_ops j l s' =
      (if j = i \<and> l = k then session_history table_ops i k s @ [e] else session_history table_ops j l s) \<and>
    fst (session_read memory_hot_ops table_ops j l s) = (case session_history table_ops j l s of [] \<Rightarrow> None | es \<Rightarrow> Some (last es)) \<and>
    fst (session_read memory_hot_ops table_ops j l s') =
      (if j = i \<and> l = k then Some e else fst (session_read memory_hot_ops table_ops j l s)) \<and>
    (let all = fst (read_all memory_hot_ops table_ops j (evict_hot memory_hot_ops j s')) in
     sorted (map me_key all) \<and> distinct (map me_key all) \<and>
     set all = {x. fst (session_read memory_hot_ops table_ops j (me_key x) s') = Some x})"
proof -
  have ok: "coherent memory_hot_ops memory_hot_ok table_ops table_ok s" by (rule with_table.steps_coherent[OF assms(1) fresh_coherent(2)])
  note w = with_table.write_coherent[OF ok assms(2)]
  have ok': "coherent memory_hot_ops memory_hot_ok table_ops table_ok s'" using w by blast
  note r = with_table.remember_recall[OF ok assms(2)]
  have "me_key e = k" using assms(2) by (auto simp: session_write_def table_ops_def Let_def)
  moreover have "fst (session_read memory_hot_ops table_ops j l s') =
      (if j = i \<and> l = k then Some e else fst (session_read memory_hot_ops table_ops j l s))"
    using w with_table.read_coherent(1)[OF ok] with_table.read_coherent(1)[OF ok'] by simp
  ultimately show ?thesis unfolding Let_def using r with_table.read_newest[OF ok] with_table.read_all_dropped[OF ok'] by blast
qed

text \<open>Memory is append-only. Whatever happens to a session memory, cache failures included, the history of a key at any
  moment is an initial part of its history at any later moment, and its revisions are numbered from one without gaps.\<close>

theorem history_append_only:
  assumes "table_steps faulty (fresh_session (empty_table now)) s" "table_steps faulty s s'"
  shows "prefix (session_history table_ops i k s) (session_history table_ops i k s') \<and>
    map me_revision (session_history table_ops i k s') = [1..<length (session_history table_ops i k s') + 1]"
proof -
  have "table_ok (sm_durable (fresh_session (empty_table now)))" using fresh_coherent(2) by (simp add: coherent_def)
  then have "table_ok (sm_durable s)" using with_table.steps_history[OF assms(1), of i k] by blast
  then show ?thesis using with_table.steps_history[OF assms(2), of i k] by blast
qed

fun run_writes :: "'d durable_ops \<Rightarrow> (string \<times> string \<times> mapping \<times> string) list \<Rightarrow> 'd \<Rightarrow> 'd" where
  "run_writes D [] d = d"
| "run_writes D ((i, k, v, src) # ws) d = run_writes D ws (snd (d_append D i k v src d))"

definition unstamped :: "memory_entry \<Rightarrow> memory_entry" where
  "unstamped e = e\<lparr>me_created_at := None\<rparr>"

lemma entries_agree:
  "me_key a = me_key b \<Longrightarrow> me_value a = me_value b \<Longrightarrow> me_source a = me_source b \<Longrightarrow> me_revision a = me_revision b \<Longrightarrow> unstamped a = unstamped b"
  by (cases a; cases b) (simp add: unstamped_def)

lemma writes_agree:
  assumes "memory_durable_ok d" "table_ok t"
    "\<And>i k. map unstamped (d_history memory_durable_ops i k d) = map unstamped (d_history table_ops i k t)"
  shows "map unstamped (d_history memory_durable_ops i k (run_writes memory_durable_ops ws d)) =
    map unstamped (d_history table_ops i k (run_writes table_ops ws t))"
  using assms
proof (induction ws arbitrary: d t)
  case (Cons w ws)
  obtain j l v src where w: "w = (j, l, v, src)" by (cases w) auto
  obtain a d' where a: "d_append memory_durable_ops j l v src d = (a, d')" by fastforce
  obtain b t' where b: "d_append table_ops j l v src t = (b, t')" by fastforce
  have "length (d_history memory_durable_ops j l d) = length (d_history table_ops j l t)" using Cons.prems(3) by (metis length_map)
  then have "unstamped a = unstamped b"
    using dur_mem.append_entry[OF Cons.prems(1) a] dur_table.append_entry[OF Cons.prems(2) b] by (intro entries_agree) simp_all
  then have "map unstamped (d_history memory_durable_ops i k d') = map unstamped (d_history table_ops i k t')" for i k
    using Cons.prems(3) dur_mem.append_history[OF Cons.prems(1) a] dur_table.append_history[OF Cons.prems(2) b] by simp
  then show ?case
    using Cons.IH[OF dur_mem.dur_kept[OF Cons.prems(1) a] dur_table.dur_kept[OF Cons.prems(2) b]] by (simp add: w a b)
qed simp

text \<open>Both durable stores are interchangeable: fed the same writes, the in-process store and the table keep the same
  history of every key and name the same newest revision, time stamps aside.\<close>

theorem durable_stores_agree:
  "map unstamped (d_history memory_durable_ops i k (run_writes memory_durable_ops ws [])) =
     map unstamped (d_history table_ops i k (run_writes table_ops ws (empty_table now)))"
  using fresh_coherent by (intro writes_agree) (auto simp: coherent_def fresh_session_def memory_durable_ops_def table_ops_def at_key_def
      empty_table_def rows_of_def)

section \<open>Where the cache does lie\<close>

text \<open>A failed cache write is not a cache miss. If a key is cached and the cache write of its next revision fails, the
  outdated value stays cached and the next read returns it, although the durable store holds the new one.\<close>

theorem failed_hot_write_serves_stale:
  "let s1 = snd (session_write memory_hot_ops memory_durable_ops False i k old src (fresh_session []));
       s2 = snd (session_write memory_hot_ops memory_durable_ops True i k new src s1) in
   map_option me_value (fst (session_read memory_hot_ops memory_durable_ops i k s2)) = Some old \<and>
   map me_value (session_history memory_durable_ops i k s2) = [old, new]"
  by (simp add: session_write_def session_read_def session_history_def fresh_session_def memory_hot_ops_def memory_durable_ops_def
      at_key_def Let_def)

text \<open>A half-filled cache hides the rest. After the cache is dropped, reading one key fills it with that key only, and
  the whole-set read then answers from the cache with one entry where the durable store has two.\<close>

theorem partial_cache_hides_entries:
  "let s0 = fresh_session [];
       s1 = snd (session_write memory_hot_ops memory_durable_ops False i ''alpha'' v src s0);
       s2 = snd (session_write memory_hot_ops memory_durable_ops False i ''beta'' w src s1);
       s3 = snd (session_read memory_hot_ops memory_durable_ops i ''alpha'' (evict_hot memory_hot_ops i s2)) in
   map me_key (fst (read_all memory_hot_ops memory_durable_ops i s3)) = [''alpha''] \<and>
   map me_key (d_latest_all memory_durable_ops i (sm_durable s3)) = [''alpha'', ''beta'']"
proof -
  define a where "a = \<lparr>me_key = ''alpha'', me_value = v, me_source = src, me_revision = 1, me_created_at = None\<rparr>"
  define b where "b = \<lparr>me_key = ''beta'', me_value = w, me_source = src, me_revision = 1, me_created_at = None\<rparr>"
  define d where "d = [(i, [(''alpha'', [a]), (''beta'', [b])])]"
  have order: "sort_key fst [(''alpha'', [a]), (''beta'', [b])] = [(''alpha'', [a]), (''beta'', [b])]"
    by (rule sort_key_id_if_sorted) simp
  have w: "snd (session_write memory_hot_ops memory_durable_ops False i ''beta'' w src
      (snd (session_write memory_hot_ops memory_durable_ops False i ''alpha'' v src (fresh_session [])))) =
      \<lparr>sm_hot = [(i, [(''alpha'', a), (''beta'', b)])], sm_durable = d, sm_stats = no_stats\<rparr>"
    by (simp add: session_write_def fresh_session_def memory_hot_ops_def memory_durable_ops_def at_key_def a_def b_def d_def Let_def)
  have r: "session_read memory_hot_ops memory_durable_ops i ''alpha'' (evict_hot memory_hot_ops i
      \<lparr>sm_hot = [(i, [(''alpha'', a), (''beta'', b)])], sm_durable = d, sm_stats = no_stats\<rparr>) =
      (Some a, \<lparr>sm_hot = [(i, [(''alpha'', a)])], sm_durable = d, sm_stats = \<lparr>hits = 0, misses = 1, evictions = 1, recoveries = 0\<rparr>\<rparr>)"
    by (simp add: session_read_def evict_hot_def memory_hot_ops_def memory_durable_ops_def at_key_def dict_del_def no_stats_def a_def d_def Let_def)
  show ?thesis unfolding Let_def w r
    by (simp add: read_all_def memory_hot_ops_def memory_durable_ops_def at_key_def d_def order) (simp add: a_def b_def)
qed

section \<open>Witnesses\<close>

definition sample_written :: "(memory_hot, table) session_memory" where
  "sample_written = snd (session_write memory_hot_ops table_ops False ''inv'' ''k'' [] ''node'' (fresh_session (empty_table 0)))"

lemma sample_steps: "table_steps False (fresh_session (empty_table 0)) sample_written"
  unfolding sample_written_def
  by (intro r_into_rtranclp session_step.step_write[where hot_fails = False and i = "''inv''" and k = "''k''" and v = "[]" and src = "''node''"])
     (simp_all add: prod_eq_iff)

lemma sample_history: "length (session_history table_ops ''inv'' ''k'' sample_written) = 1"
  by (simp add: sample_written_def session_history_def session_write_def table_ops_def fresh_session_def empty_table_def rows_of_def Let_def)

theorem memory_recalls_witness:
  "map_option me_revision (fst (session_read memory_hot_ops table_ops ''inv'' ''k''
     (snd (session_write memory_hot_ops table_ops False ''inv'' ''k'' [] ''node'' sample_written)))) = Some 2"
  using memory_recalls[OF sample_steps surjective_pairing, of "''inv''" "''k''" "[]" "''node''" "''inv''" "''k''"] sample_history by simp

theorem history_append_only_witness:
  "map me_revision (session_history table_ops ''inv'' ''k'' sample_written) = [1]"
  using history_append_only[OF rtranclp.rtrancl_refl sample_steps, of "''inv''" "''k''"] sample_history by simp

end
