(* ===== verification/Working_Memory.thy ===== *)
theory Working_Memory
  imports Session_Memory
begin

text \<open>
  Working memory (\<^verbatim>\<open>memory/working.py\<close>) and the summarizer that makes its eviction lossless (\<^verbatim>\<open>memory/summarization.py\<close>).
  The summarizer is an interface, locale \<open>reference_keeping\<close>; the repository's \<^verbatim>\<open>ReferenceSummarizer\<close> implements it.
  Shown: the entry cap always holds, eviction takes the oldest first and stops as soon as both limits are met or one entry
  is left, every entry ever written is either retained or named in a summary, and the note written for evicted
  entries is not itself counted against the token budget.
\<close>

section \<open>Definitions\<close>

definition estimate_tokens :: "string \<Rightarrow> nat" where
  "estimate_tokens text = (if text = [] then 0 else max 1 ((length text + 3) div 4))"

definition estimate_entry_tokens :: "memory_entry \<Rightarrow> nat" where
  "estimate_entry_tokens e = estimate_tokens (me_key e @ '':'' @ repr_val (PDict (me_value e)))"

definition reference :: "memory_entry \<Rightarrow> string" where
  "reference e = me_key e @ ''@'' @ me_source e"

definition reference_summarizer :: "memory_entry list \<Rightarrow> string" where
  "reference_summarizer entries =
     (if entries = [] then []
      else ''[summarized '' @ show_nat (length entries) @ '' entr'' @ (if length entries = 1 then ''y'' else ''ies'')
        @ ''; full values retained in durable session memory] '' @ join '', '' (map reference entries))"

record working_memory =
  wm_token_budget :: int
  wm_max_entries :: nat
  wm_entries :: "(string, memory_entry) dict"
  wm_summaries :: "string list"
  wm_stats :: memory_stats

definition new_working :: "int \<Rightarrow> nat \<Rightarrow> working_memory" where
  "new_working budget max_entries = \<lparr>wm_token_budget = budget, wm_max_entries = max_entries, wm_entries = [], wm_summaries = [], wm_stats = no_stats\<rparr>"

definition entries_tokens :: "memory_entry list \<Rightarrow> nat" where
  "entries_tokens es = sum_list (map estimate_entry_tokens es)"

definition estimated_tokens :: "working_memory \<Rightarrow> nat" where
  "estimated_tokens w = entries_tokens (map snd (wm_entries w)) + sum_list (map estimate_tokens (wm_summaries w))"

text \<open>\<^verbatim>\<open>while too_big(entries): evicted.append(pop_oldest())\<close>: the evicted entries and the rest.\<close>

fun evict_while :: "((string, memory_entry) dict \<Rightarrow> bool) \<Rightarrow> (string, memory_entry) dict \<Rightarrow> memory_entry list \<times> (string, memory_entry) dict" where
  "evict_while too_big [] = ([], [])"
| "evict_while too_big ((k, e) # es) =
     (if too_big ((k, e) # es) then (let (gone, rest) = evict_while too_big es in (e # gone, rest)) else ([], (k, e) # es))"

definition over_cap :: "working_memory \<Rightarrow> (string, memory_entry) dict \<Rightarrow> bool" where
  "over_cap w es = (wm_max_entries w < length es)"

definition over_budget :: "working_memory \<Rightarrow> (string, memory_entry) dict \<Rightarrow> bool" where
  "over_budget w es = (wm_token_budget w < int (estimated_tokens (w\<lparr>wm_entries := es\<rparr>)) \<and> 1 < length es)"

definition enforce_budget :: "(memory_entry list \<Rightarrow> string) \<Rightarrow> working_memory \<Rightarrow> working_memory" where
  "enforce_budget summarize w =
     (let (over, es1) = evict_while (over_cap w) (wm_entries w);
          (big, es2) = evict_while (over_budget w) es1;
          evicted = over @ big; w1 = w\<lparr>wm_entries := es2\<rparr> in
      if evicted = [] then w1
      else let text = summarize evicted in
        w1\<lparr>wm_stats := (wm_stats w)\<lparr>evictions := evictions (wm_stats w) + length evicted\<rparr>,
           wm_summaries := wm_summaries w @ (if text = [] then [] else [text])\<rparr>)"

definition working_write ::
  "(memory_entry list \<Rightarrow> string) \<Rightarrow> string \<Rightarrow> mapping \<Rightarrow> string \<Rightarrow> working_memory \<Rightarrow> memory_entry \<times> working_memory" where
  "working_write summarize k v src w =
     (let e = \<lparr>me_key = k, me_value = v, me_source = src, me_revision = 1, me_created_at = None\<rparr> in
      (e, enforce_budget summarize (w\<lparr>wm_entries := dict_set k e (wm_entries w)\<rparr>)))"

definition working_read :: "string \<Rightarrow> working_memory \<Rightarrow> memory_entry option \<times> working_memory" where
  "working_read k w = (case map_of (wm_entries w) k of
     None \<Rightarrow> (None, w\<lparr>wm_stats := (wm_stats w)\<lparr>misses := misses (wm_stats w) + 1\<rparr>\<rparr>)
   | Some e \<Rightarrow> (Some e, w\<lparr>wm_stats := (wm_stats w)\<lparr>hits := hits (wm_stats w) + 1\<rparr>\<rparr>))"

definition working_load :: "(memory_entry list \<Rightarrow> string) \<Rightarrow> memory_entry list \<Rightarrow> working_memory \<Rightarrow> working_memory" where
  "working_load summarize es w = enforce_budget summarize
     (w\<lparr>wm_entries := fold (\<lambda>e. dict_set (me_key e) e) es (wm_entries w),
        wm_stats := (wm_stats w)\<lparr>recoveries := recoveries (wm_stats w) + 1\<rparr>\<rparr>)"

definition working_clear :: "working_memory \<Rightarrow> working_memory" where
  "working_clear w = w\<lparr>wm_entries := [], wm_summaries := []\<rparr>"


section \<open>Eviction\<close>

lemma evict_while_parts: "evict_while p es = (gone, rest) \<Longrightarrow> map snd es = gone @ map snd rest \<and> suffix rest es"
  by (induction p es arbitrary: gone rest rule: evict_while.induct) (auto simp: suffix_Cons split: if_splits prod.splits)

lemma evict_while_stops: "evict_while p es = (gone, rest) \<Longrightarrow> rest = [] \<or> \<not> p rest"
  by (induction p es arbitrary: gone rest rule: evict_while.induct) (auto split: if_splits prod.splits)

text \<open>Nothing is evicted before it has to be: at every eviction the limit was exceeded.\<close>

lemma evict_while_needed:
  "evict_while p es = (gone, rest) \<Longrightarrow> suffix rest' es \<Longrightarrow> length rest < length rest' \<Longrightarrow> p rest'"
proof (induction p es arbitrary: gone rest rule: evict_while.induct)
  case (2 p k e es)
  show ?case
  proof (cases "p ((k, e) # es)")
    case True
    then obtain g where g: "evict_while p es = (g, rest)" using 2(2) by (auto split: prod.splits)
    show ?thesis using 2(1)[OF True g _ 2(4)] 2(3) True by (auto simp: suffix_Cons)
  next
    case False
    then have "rest = (k, e) # es" using 2(2) by simp
    then show ?thesis using 2(3,4) suffix_length_le by fastforce
  qed
qed auto

text \<open>What a summarizer promises: every entry it is given can be found again in what it writes.\<close>

locale reference_keeping =
  fixes summarize :: "memory_entry list \<Rightarrow> string"
  assumes keeps: "e \<in> set es \<Longrightarrow> py_in (reference e) (summarize es)"
    and empty_note: "summarize [] = []"
begin

lemma nonempty_note: "e \<in> set es \<Longrightarrow> summarize es \<noteq> []"
  using keeps[of e es] by (auto simp: py_in_sublist reference_def)

end

lemma join_member: "x \<in> set xs \<Longrightarrow> sublist x (join sep xs)"
proof (induction sep xs rule: join.induct)
  case (3 sep w v vs)
  show ?case
  proof (cases "x = w")
    case True
    then show ?thesis by (simp add: sublist_appendI)
  next
    case False
    then have "sublist x (join sep (v # vs))" using 3 by simp
    then show ?thesis by (metis append.assoc join.simps(3) sublist_append_leftI sublist_order.order.trans)
  qed
qed auto

interpretation by_reference: reference_keeping reference_summarizer
proof
  fix e :: memory_entry and es
  assume e: "e \<in> set es"
  then have "sublist (reference e) (join '', '' (map reference es))" by (intro join_member) simp
  then show "py_in (reference e) (reference_summarizer es)"
    using e unfolding py_in_sublist reference_summarizer_def
    by (auto intro: sublist_order.order.trans[OF _ sublist_append_leftI] simp: sublist_Cons_right)
qed (simp add: reference_summarizer_def)

section \<open>Limits\<close>

abbreviation note_tokens :: "working_memory \<Rightarrow> nat" where
  "note_tokens w \<equiv> sum_list (map estimate_tokens (wm_summaries w))"

text \<open>What one enforcement does: the retained entries are the newest, the others were evicted and noted.\<close>

lemma enforce_facts:
  assumes "w' = enforce_budget summarize w"
  shows "\<exists>gone. map snd (wm_entries w) = gone @ map snd (wm_entries w') \<and> suffix (wm_entries w') (wm_entries w) \<and>
    length (wm_entries w') \<le> wm_max_entries w \<and>
    (length (wm_entries w') \<le> 1 \<or> int (entries_tokens (map snd (wm_entries w')) + note_tokens w) \<le> wm_token_budget w) \<and>
    wm_summaries w' = wm_summaries w @ (if gone = [] \<or> summarize gone = [] then [] else [summarize gone])"
proof -
  obtain over es1 where e1: "evict_while (over_cap w) (wm_entries w) = (over, es1)" by fastforce
  obtain big es2 where e2: "evict_while (over_budget w) es1 = (big, es2)" by fastforce
  have w': "wm_entries w' = es2" "wm_summaries w' = wm_summaries w @ (if over @ big = [] \<or> summarize (over @ big) = [] then [] else [summarize (over @ big)])"
    using assms by (simp_all add: enforce_budget_def e1 e2 Let_def)
  note p = evict_while_parts[OF e1] evict_while_parts[OF e2]
  have "length es2 \<le> length es1" using p(2) suffix_length_le by blast
  moreover have "length es1 \<le> wm_max_entries w" using evict_while_stops[OF e1] by (auto simp: over_cap_def)
  moreover have "length es2 \<le> 1 \<or> int (entries_tokens (map snd es2) + note_tokens w) \<le> wm_token_budget w"
    using evict_while_stops[OF e2] by (auto simp: over_budget_def estimated_tokens_def)
  moreover have "map snd (wm_entries w) = (over @ big) @ map snd es2" "suffix es2 (wm_entries w)"
    using p suffix_order.trans by auto
  ultimately show ?thesis using w' by (intro exI[of _ "over @ big"]) simp
qed

text \<open>The scratchpad keeps its limits. After every write the number of entries is within the cap; what is retained, counted
  with the notes written before, fits the token budget unless a single entry is left; and what was evicted is the
  oldest part, the retained entries being an unbroken run up to the newest.\<close>

theorem write_keeps_limits:
  "case working_write summarize k v src w of (e, w') \<Rightarrow>
     length (wm_entries w') \<le> wm_max_entries w \<and>
     (length (wm_entries w') \<le> 1 \<or> int (entries_tokens (map snd (wm_entries w')) + note_tokens w) \<le> wm_token_budget w) \<and>
     suffix (wm_entries w') (dict_set k e (wm_entries w))"
proof -
  define w1 where "w1 = w\<lparr>wm_entries := dict_set k \<lparr>me_key = k, me_value = v, me_source = src, me_revision = 1, me_created_at = None\<rparr> (wm_entries w)\<rparr>"
  show ?thesis using enforce_facts[OF refl, where summarize = summarize and w = w1] by (auto simp: working_write_def Let_def w1_def)
qed

section \<open>Nothing is forgotten\<close>

datatype working_op = Write string mapping string | Load "memory_entry list" | Read string

fun perform :: "(memory_entry list \<Rightarrow> string) \<Rightarrow> working_op \<Rightarrow> working_memory \<Rightarrow> working_memory" where
  "perform summarize (Write k v src) w = snd (working_write summarize k v src w)"
| "perform summarize (Load es) w = working_load summarize es w"
| "perform summarize (Read k) w = snd (working_read k w)"

fun keys_written :: "working_op \<Rightarrow> string set" where
  "keys_written (Write k v src) = {k}"
| "keys_written (Load es) = me_key ` set es"
| "keys_written (Read k) = {}"

definition known_to :: "working_memory \<Rightarrow> string \<Rightarrow> bool" where
  "known_to w k \<longleftrightarrow> k \<in> fst ` set (wm_entries w) \<or> (\<exists>t \<in> set (wm_summaries w). \<exists>src. py_in (k @ ''@'' @ src) t)"

definition keyed :: "working_memory \<Rightarrow> bool" where
  "keyed w \<longleftrightarrow> (\<forall>(k, e) \<in> set (wm_entries w). me_key e = k)"

lemma dict_set_keyed: "\<forall>(k, e) \<in> set d. me_key e = k \<Longrightarrow> \<forall>(k, e) \<in> set (dict_set (me_key x) x d). me_key e = k"
  using dict_set_members by fastforce

lemma fold_set_keyed:
  "\<forall>(k, e) \<in> set d. me_key e = k \<Longrightarrow> (\<forall>(k, e) \<in> set (fold (\<lambda>e. dict_set (me_key e) e) es d). me_key e = k) \<and>
     fst ` set (fold (\<lambda>e. dict_set (me_key e) e) es d) = fst ` set d \<union> me_key ` set es"
proof (induction es arbitrary: d)
  case (Cons x es)
  then show ?case using Cons.IH[OF dict_set_keyed[OF Cons.prems]] by (auto simp: dict_set_keys)
qed simp

context reference_keeping
begin

lemma enforce_known:
  assumes "keyed w"
  shows "keyed (enforce_budget summarize w)" "known_to w k \<Longrightarrow> known_to (enforce_budget summarize w) k"
proof -
  let ?w = "enforce_budget summarize w"
  obtain gone where g: "map snd (wm_entries w) = gone @ map snd (wm_entries ?w)" "suffix (wm_entries ?w) (wm_entries w)"
      "wm_summaries ?w = wm_summaries w @ (if gone = [] \<or> summarize gone = [] then [] else [summarize gone])"
    using enforce_facts[OF refl, where summarize = summarize and w = w] by blast
  show kept: "keyed ?w" using assms(1) set_mono_suffix[OF g(2)] by (auto simp: keyed_def)
  have held: "known_to ?w k" if "k \<in> fst ` set (wm_entries w)"
  proof -
    obtain e where e: "(k, e) \<in> set (wm_entries w)" "me_key e = k" using \<open>k \<in> _\<close> assms(1) by (fastforce simp: keyed_def)
    have "e \<in> set (gone @ map snd (wm_entries ?w))" using e(1) unfolding g(1)[symmetric] by force
    then show ?thesis
    proof (cases "e \<in> set gone")
      case True
      then show ?thesis using keeps[OF True] nonempty_note[OF True] e(2) g(3) by (auto simp: known_to_def reference_def)
    next
      case False
      then obtain k' where "(k', e) \<in> set (wm_entries ?w)" using \<open>e \<in> set (gone @ _)\<close> by auto
      moreover from this have "k' = k" using kept e(2) by (auto simp: keyed_def)
      ultimately show ?thesis by (force simp: known_to_def)
    qed
  qed
  assume "known_to w k"
  then consider "k \<in> fst ` set (wm_entries w)" | t src where "t \<in> set (wm_summaries w)" "py_in (k @ ''@'' @ src) t"
    by (auto simp: known_to_def)
  then show "known_to ?w k"
  proof cases
    case 2
    then have "t \<in> set (wm_summaries ?w)" using g(3) by simp
    then show ?thesis using 2(2) unfolding known_to_def by blast
  qed (rule held)
qed

lemma perform_known:
  assumes "keyed w"
  shows "keyed (perform summarize op w) \<and> (\<forall>k. known_to w k \<or> k \<in> keys_written op \<longrightarrow> known_to (perform summarize op w) k)"
proof (cases op)
  case (Write k v src)
  let ?e = "\<lparr>me_key = k, me_value = v, me_source = src, me_revision = 1, me_created_at = None\<rparr>"
  let ?w = "w\<lparr>wm_entries := dict_set k ?e (wm_entries w)\<rparr>"
  have k: "keyed ?w" using dict_set_keyed[of "wm_entries w" ?e] assms by (simp add: keyed_def)
  have "known_to ?w l" if "known_to w l \<or> l = k" for l using that by (auto simp: known_to_def dict_set_keys)
  moreover have "known_to ?w k" by (simp add: known_to_def dict_set_keys)
  ultimately show ?thesis using enforce_known[OF k] Write by (auto simp: working_write_def Let_def)
next
  case (Load es)
  let ?w = "w\<lparr>wm_entries := fold (\<lambda>e. dict_set (me_key e) e) es (wm_entries w), wm_stats := (wm_stats w)\<lparr>recoveries := recoveries (wm_stats w) + 1\<rparr>\<rparr>"
  have f: "keyed ?w" "fst ` set (wm_entries ?w) = fst ` set (wm_entries w) \<union> me_key ` set es"
    using fold_set_keyed[of "wm_entries w" es] assms by (simp_all add: keyed_def)
  have "known_to ?w l" if "known_to w l \<or> l \<in> me_key ` set es" for l using that f(2) by (auto simp: known_to_def)
  then show ?thesis using enforce_known[OF f(1)] Load by (auto simp: working_load_def)
next
  case (Read k)
  then show ?thesis using assms by (auto simp: working_read_def keyed_def known_to_def split: option.splits)
qed

lemma run_known:
  "keyed w \<Longrightarrow> k \<in> \<Union> (keys_written ` set ops) \<or> known_to w k \<Longrightarrow> known_to (fold (perform summarize) ops w) k"
proof (induction ops arbitrary: w)
  case (Cons op ops)
  then show ?case using perform_known[OF Cons(2), of op] by auto
qed simp

end

text \<open>Eviction forgets nothing. After any sequence of writes, loads and reads on a fresh scratchpad, every key ever written
  is either still held or named, with its source, in one of the summaries.\<close>

theorem nothing_forgotten:
  "\<Union> (keys_written ` set ops) \<subseteq> {k. known_to (fold (perform reference_summarizer) ops (new_working budget cap)) k}"
proof -
  have "keyed (new_working budget cap)" by (simp add: keyed_def new_working_def)
  then show ?thesis using by_reference.run_known by blast
qed

text \<open>Notes crowd out the entries. Summaries are never dropped within a turn and count against the budget, so once they
  alone exceed it every later write leaves exactly one entry, the one just written or, when the key was held before, the
  newest; and the budget stays exceeded.\<close>

theorem summaries_crowd_out:
  assumes "wm_token_budget w < int (note_tokens w)" "1 \<le> wm_max_entries w" "working_write summarize k v src w = (e, w')"
  shows "length (wm_entries w') = 1 \<and> wm_token_budget w < int (estimated_tokens w')"
proof -
  let ?w1 = "w\<lparr>wm_entries := dict_set k e (wm_entries w)\<rparr>"
  have e: "w' = enforce_budget summarize ?w1" using assms(3) by (auto simp: working_write_def Let_def)
  have ne: "dict_set k e (wm_entries w) \<noteq> []" using dict_set_keys[of k e "wm_entries w"] by auto
  have evict_ne: "es \<noteq> [] \<Longrightarrow> (\<And>x. p x \<Longrightarrow> 1 < length x) \<Longrightarrow> snd (evict_while p es) \<noteq> []" for p es
    by (induction p es rule: evict_while.induct) (auto split: prod.splits, fastforce)
  have "wm_entries w' \<noteq> []"
  proof -
    obtain over es1 where e1: "evict_while (over_cap ?w1) (wm_entries ?w1) = (over, es1)" by fastforce
    obtain big es2 where e2: "evict_while (over_budget ?w1) es1 = (big, es2)" by fastforce
    have "es1 \<noteq> []" using evict_ne[OF _ _, of "wm_entries ?w1" "over_cap ?w1"] ne assms(2) e1 by (auto simp: over_cap_def)
    then have "es2 \<noteq> []" using evict_ne[OF _ _, of es1 "over_budget ?w1"] e2 by (auto simp: over_budget_def)
    moreover have "wm_entries w' = es2" by (simp add: e enforce_budget_def e1[simplified] e2 Let_def)
    ultimately show ?thesis by simp
  qed
  moreover have "length (wm_entries w') \<le> 1" "note_tokens w \<le> note_tokens w'"
    using enforce_facts[OF e] assms(1) by auto
  ultimately show ?thesis using assms(1) by (cases "wm_entries w'") (auto simp: estimated_tokens_def)
qed

theorem summaries_crowd_out_witness:
  "length (wm_entries (snd (working_write reference_summarizer ''c'' [] ''node''
     \<lparr>wm_token_budget = 1, wm_max_entries = 5, wm_entries = [], wm_summaries = [''a note of the past''], wm_stats = no_stats\<rparr>))) = 1"
  using summaries_crowd_out[of "\<lparr>wm_token_budget = 1, wm_max_entries = 5, wm_entries = [], wm_summaries = [''a note of the past''],
      wm_stats = no_stats\<rparr>" reference_summarizer "''c''" "[]" "''node''", OF _ _ surjective_pairing]
  by (simp add: estimate_tokens_def)

end
