(* ===== verification/Memory_Service.thy ===== *)
theory Memory_Service
  imports Working_Memory Agents
begin

text \<open>
  The memory layer's face (\<^verbatim>\<open>memory/service.py\<close>) with the in-process conversation, history and long-term tiers
  (\<^verbatim>\<open>memory/conversation.py\<close>, \<^verbatim>\<open>memory/history.py\<close>, \<^verbatim>\<open>memory/long_term.py\<close>). \<open>down t\<close> says that reading tier \<open>t\<close> raises.
  Shown: a context is always assembled and names exactly the tiers that could not be read; trimming keeps the budget or
  empties the session part, names what it trimmed and reports the tokens the bundle really holds; indexing a closed
  investigation twice changes nothing.
\<close>

section \<open>Definitions\<close>

datatype memory_tier = Tier_Working | Tier_Session | Tier_Conversation | Tier_Long_Term | Tier_Knowledge | Tier_Investigation_History

datatype memory_index_kind = Index_Asset | Index_Ioc | Index_Technique | Index_Cve

record conversation_turn =
  ct_author_type :: string
  ct_content :: string
  ct_created_at :: "time option"

record related_investigation =
  ri_investigation_id :: string
  ri_kind :: memory_index_kind
  ri_value :: string

record investigation_outcome =
  io_investigation_id :: string
  io_status :: string
  io_severity :: "string option"
  io_verdict :: "string option"
  io_title :: "string option"
  io_closed_at :: "time option"

subsection \<open>The in-process tiers\<close>

type_synonym conversation_memory = "(string, conversation_turn list) dict"

text \<open>\<^verbatim>\<open>turns[-limit:]\<close>, which is everything when the limit is zero.\<close>

definition recent_turns :: "string \<Rightarrow> nat \<Rightarrow> conversation_memory \<Rightarrow> conversation_turn list" where
  "recent_turns i n c = (let turns = at_key i c in if n = 0 then turns else drop (length turns - n) turns)"

definition add_turn :: "string \<Rightarrow> conversation_turn \<Rightarrow> conversation_memory \<Rightarrow> conversation_memory" where
  "add_turn i t c = dict_append i t c"

type_synonym history_index = "(memory_index_kind \<times> string, string list) dict"

definition index_one :: "string \<Rightarrow> memory_index_kind \<times> string \<Rightarrow> history_index \<Rightarrow> history_index" where
  "index_one i key ix = (let bucket = at_key key ix in dict_set key (if i \<in> set bucket then bucket else bucket @ [i]) ix)"

definition index_keys :: "(memory_index_kind \<times> string list) list \<Rightarrow> (memory_index_kind \<times> string) list" where
  "index_keys vals = [(kind, v). (kind, vs) \<leftarrow> vals, v \<leftarrow> vs]"

definition index_investigation :: "string \<Rightarrow> (memory_index_kind \<times> string list) list \<Rightarrow> history_index \<Rightarrow> nat \<times> history_index" where
  "index_investigation i vals ix = (length (index_keys vals), fold (index_one i) (index_keys vals) ix)"

definition find_related :: "memory_index_kind \<Rightarrow> string \<Rightarrow> nat \<Rightarrow> history_index \<Rightarrow> related_investigation list" where
  "find_related kind v n ix = map (\<lambda>i. \<lparr>ri_investigation_id = i, ri_kind = kind, ri_value = v\<rparr>) (take n (at_key (kind, v) ix))"

type_synonym outcomes = "(string, investigation_outcome) dict"

definition record_outcome :: "investigation_outcome \<Rightarrow> outcomes \<Rightarrow> outcomes" where
  "record_outcome x os = dict_set (io_investigation_id x) x os"

definition outcome_for :: "string \<Rightarrow> outcomes \<Rightarrow> investigation_outcome option" where
  "outcome_for i os = map_of os i"

definition recent_outcomes :: "nat \<Rightarrow> outcomes \<Rightarrow> investigation_outcome list" where
  "recent_outcomes n os = take n (map snd os)"

subsection \<open>The service\<close>

record ('h, 'd) memory_service =
  mv_session :: "('h, 'd) session_memory"
  mv_conversation :: conversation_memory
  mv_long_term :: outcomes
  mv_knowledge :: knowledge
  mv_history :: history_index
  mv_token_budget :: int
  mv_max_entries :: nat

record context_bundle =
  cb_investigation_id :: string
  cb_working :: "memory_entry list"
  cb_session :: "memory_entry list"
  cb_conversation :: "conversation_turn list"
  cb_knowledge :: "knowledge_chunk list"
  cb_related :: "related_investigation list"
  cb_summaries :: "string list"
  cb_estimated_tokens :: nat
  cb_degraded_tiers :: "memory_tier list"

definition is_degraded :: "context_bundle \<Rightarrow> bool" where
  "is_degraded b = (cb_degraded_tiers b \<noteq> [])"

definition new_working_memory :: "('h, 'd) memory_service \<Rightarrow> working_memory" where
  "new_working_memory ms = new_working (mv_token_budget ms) (mv_max_entries ms)"

definition remember ::
  "'h hot_ops \<Rightarrow> 'd durable_ops \<Rightarrow> bool \<Rightarrow> string \<Rightarrow> string \<Rightarrow> mapping \<Rightarrow> string \<Rightarrow> ('h, 'd) memory_service
   \<Rightarrow> memory_entry \<times> ('h, 'd) memory_service" where
  "remember H D hot_fails i k v src ms =
     (let (e, s) = session_write H D hot_fails i k v src (mv_session ms) in (e, ms\<lparr>mv_session := s\<rparr>))"

definition recall ::
  "'h hot_ops \<Rightarrow> 'd durable_ops \<Rightarrow> string \<Rightarrow> string \<Rightarrow> ('h, 'd) memory_service \<Rightarrow> memory_entry option \<times> ('h, 'd) memory_service" where
  "recall H D i k ms = (let (e, s) = session_read H D i k (mv_session ms) in (e, ms\<lparr>mv_session := s\<rparr>))"

definition close_investigation ::
  "'h hot_ops \<Rightarrow> string \<Rightarrow> (memory_index_kind \<times> string list) list \<Rightarrow> ('h, 'd) memory_service
   \<Rightarrow> investigation_outcome option \<times> ('h, 'd) memory_service" where
  "close_investigation H i index_values ms =
     (let ms1 = (if index_values = [] then ms else ms\<lparr>mv_history := snd (index_investigation i index_values (mv_history ms))\<rparr>);
          ms2 = ms1\<lparr>mv_session := evict_hot H i (mv_session ms1)\<rparr> in
      (outcome_for i (mv_long_term ms2), ms2))"

text \<open>One tier read defensively: what was read, or nothing and the tier's name recorded once.\<close>

definition read_tier :: "(memory_tier \<Rightarrow> bool) \<Rightarrow> memory_tier \<Rightarrow> 'a list \<Rightarrow> memory_tier list \<Rightarrow> 'a list \<times> memory_tier list" where
  "read_tier down t found degr = (if down t then ([], if t \<in> set degr then degr else degr @ [t]) else (found, degr))"

fun read_related ::
  "(memory_tier \<Rightarrow> bool) \<Rightarrow> history_index \<Rightarrow> (memory_index_kind \<times> string) list \<Rightarrow> memory_tier list
   \<Rightarrow> related_investigation list \<times> memory_tier list" where
  "read_related down ix [] degr = ([], degr)"
| "read_related down ix ((kind, v) # keys) degr =
     (let (found, d1) = read_tier down Tier_Investigation_History (find_related kind v 20 ix) degr;
          (more, d2) = read_related down ix keys d1 in (found @ more, d2))"

definition fixed_tokens :: "context_bundle \<Rightarrow> nat" where
  "fixed_tokens b = sum_list (map (estimate_tokens \<circ> ct_content) (cb_conversation b))
     + sum_list (map (estimate_tokens \<circ> kc_content) (cb_knowledge b)) + entries_tokens (cb_working b)
     + sum_list (map estimate_tokens (cb_summaries b))"

fun trim :: "nat \<Rightarrow> int \<Rightarrow> memory_entry list \<Rightarrow> memory_entry list \<times> memory_entry list" where
  "trim fixed budget [] = ([], [])"
| "trim fixed budget (e # es) =
     (if budget < int (fixed + entries_tokens (e # es)) then (let (gone, rest) = trim fixed budget es in (e # gone, rest))
      else ([], e # es))"

definition fit_to_budget :: "(memory_entry list \<Rightarrow> string) \<Rightarrow> int \<Rightarrow> context_bundle \<Rightarrow> context_bundle" where
  "fit_to_budget summarize budget b =
     (let fixed = fixed_tokens b; (trimmed, retained) = trim fixed budget (cb_session b);
          added = (if trimmed = [] \<or> summarize trimmed = [] then [] else [summarize trimmed]) in
      b\<lparr>cb_session := retained, cb_summaries := cb_summaries b @ added,
        cb_estimated_tokens := fixed + entries_tokens retained + sum_list (map estimate_tokens added)\<rparr>)"

record context_request =
  xq_query :: "string option"
  xq_working :: "working_memory option"
  xq_conversation_limit :: nat
  xq_knowledge_limit :: nat
  xq_related :: "(memory_index_kind \<times> string list) list"
  xq_token_budget :: "int option"

definition materialize_context ::
  "'h hot_ops \<Rightarrow> 'd durable_ops \<Rightarrow> (memory_entry list \<Rightarrow> string) \<Rightarrow> (memory_tier \<Rightarrow> bool) \<Rightarrow> string \<Rightarrow> context_request
   \<Rightarrow> ('h, 'd) memory_service \<Rightarrow> context_bundle \<times> ('h, 'd) memory_service" where
  "materialize_context H D summarize down i rq ms =
     (let budget = (case xq_token_budget rq of Some b \<Rightarrow> if b = 0 then mv_token_budget ms else b | None \<Rightarrow> mv_token_budget ms);
          (all, s) = read_all H D i (mv_session ms);
          ms1 = (if down Tier_Session then ms else ms\<lparr>mv_session := s\<rparr>);
          (session, d1) = read_tier down Tier_Session all [];
          (turns, d2) = read_tier down Tier_Conversation (recent_turns i (xq_conversation_limit rq) (mv_conversation ms)) d1;
          (chunks, d3) = (if truthy (xq_query rq) then
              if kn_available (mv_knowledge ms)
              then read_tier down Tier_Knowledge (kn_search (mv_knowledge ms) (the (xq_query rq)) (xq_knowledge_limit rq)) d2
              else ([], d2 @ [Tier_Knowledge])
            else ([], d2));
          (related, d4) = read_related down (mv_history ms) (index_keys (xq_related rq)) d3;
          bundle = \<lparr>cb_investigation_id = i,
            cb_working = (case xq_working rq of Some w \<Rightarrow> map snd (wm_entries w) | None \<Rightarrow> []),
            cb_session = session, cb_conversation = turns, cb_knowledge = chunks, cb_related = related,
            cb_summaries = (case xq_working rq of Some w \<Rightarrow> wm_summaries w | None \<Rightarrow> []),
            cb_estimated_tokens = 0, cb_degraded_tiers = d4\<rparr> in
      (fit_to_budget summarize budget bundle, ms1))"


section \<open>Trimming\<close>

lemma trim_parts:
  "trim fixed budget es = (gone, rest) \<Longrightarrow> es = gone @ rest \<and> (rest = [] \<or> int (fixed + entries_tokens rest) \<le> budget)"
  by (induction fixed budget es arbitrary: gone rest rule: trim.induct) (auto split: if_splits prod.splits)

lemma trim_needed: "trim fixed budget es = (gone, rest) \<Longrightarrow> gone = [] \<or> budget < int (fixed + entries_tokens (last gone # rest))"
  by (induction fixed budget es arbitrary: gone rest rule: trim.induct) (auto split: if_splits prod.splits dest: trim_parts)

definition bundle_tokens :: "context_bundle \<Rightarrow> nat" where
  "bundle_tokens b = fixed_tokens b + entries_tokens (cb_session b)"

text \<open>Trimming a context is honest. The session part keeps its later entries, either within the budget or not at all, and
  no entry is trimmed that would have fitted; each trimmed entry is named with its source in the summaries; nothing
  else changes; and the reported estimate is the cost of what the bundle then holds.\<close>

theorem fit_to_budget_honest:
  "let b' = fit_to_budget reference_summarizer budget b; gone = take (length (cb_session b) - length (cb_session b')) (cb_session b) in
   cb_session b = gone @ cb_session b' \<and>
   (cb_session b' = [] \<or> int (fixed_tokens b + entries_tokens (cb_session b')) \<le> budget) \<and>
   (gone = [] \<or> budget < int (fixed_tokens b + entries_tokens (last gone # cb_session b'))) \<and>
   list_all (\<lambda>e. list_ex (py_in (reference e)) (cb_summaries b')) gone \<and>
   cb_conversation b' = cb_conversation b \<and> cb_knowledge b' = cb_knowledge b \<and> cb_working b' = cb_working b \<and>
   cb_degraded_tiers b' = cb_degraded_tiers b \<and> cb_estimated_tokens b' = bundle_tokens b'"
proof -
  obtain gone rest where t: "trim (fixed_tokens b) budget (cb_session b) = (gone, rest)" by fastforce
  define added where "added = (if gone = [] \<or> reference_summarizer gone = [] then [] else [reference_summarizer gone])"
  have b': "fit_to_budget reference_summarizer budget b = b\<lparr>cb_session := rest, cb_summaries := cb_summaries b @ added,
      cb_estimated_tokens := fixed_tokens b + entries_tokens rest + sum_list (map estimate_tokens added)\<rparr>"
    by (simp add: fit_to_budget_def t added_def Let_def)
  note p = trim_parts[OF t] trim_needed[OF t]
  have named: "list_all (\<lambda>e. list_ex (py_in (reference e)) (cb_summaries b @ added)) gone"
    using by_reference.keeps by_reference.nonempty_note by (auto simp: list_all_iff list_ex_iff added_def)
  show ?thesis using p named unfolding b' Let_def by (simp add: bundle_tokens_def fixed_tokens_def)
qed

section \<open>Degradation\<close>

lemma read_tier_set: "set (snd (read_tier down t found degr)) = set degr \<union> (if down t then {t} else {})"
  by (auto simp: read_tier_def)

lemma read_related_set:
  "set (snd (read_related down ix keys degr)) = set degr \<union> (if down Tier_Investigation_History \<and> keys \<noteq> [] then {Tier_Investigation_History} else {})"
proof (induction keys arbitrary: degr)
  case (Cons key keys)
  obtain kind v where "key = (kind, v)" by (cases key)
  then show ?case using Cons[of "snd (read_tier down Tier_Investigation_History (find_related kind v 20 ix) degr)"]
    by (auto simp: case_prod_beta Let_def read_tier_set)
qed simp

text \<open>A context is always assembled, and says what it lacks. Whatever tiers cannot be read, the bundle is returned with
  their part empty, and the tiers it names as degraded are exactly those that were needed and could not be read: the
  session, the conversation, the knowledge tier when a query was given and it is absent or failing, and the history
  when related investigations were asked for.\<close>

theorem degraded_exactly:
  "case materialize_context H D summarize down i rq ms of (b, ms') \<Rightarrow>
     set (cb_degraded_tiers b) =
       {t. t = Tier_Session \<and> down t \<or> t = Tier_Conversation \<and> down t \<or>
           t = Tier_Knowledge \<and> truthy (xq_query rq) \<and> (down t \<or> \<not> kn_available (mv_knowledge ms)) \<or>
           t = Tier_Investigation_History \<and> down t \<and> index_keys (xq_related rq) \<noteq> []} \<and>
     cb_session b = (if down Tier_Session then [] else cb_session b) \<and>
     cb_conversation b = (if down Tier_Conversation then [] else cb_conversation b)"
proof -
  have f: "cb_degraded_tiers (fit_to_budget summarize budget b) = cb_degraded_tiers b"
      "cb_conversation (fit_to_budget summarize budget b) = cb_conversation b"
      "cb_session b = [] \<Longrightarrow> cb_session (fit_to_budget summarize budget b) = []" for budget b
    by (simp_all add: fit_to_budget_def Let_def case_prod_beta)
  show ?thesis
    by (auto simp: materialize_context_def Let_def case_prod_beta f read_related_set read_tier_set)
       (simp_all add: f read_tier_def)
qed

section \<open>Recall\<close>

lemma index_one_lookup: "at_key key' (index_one i key ix) = (if key' = key \<and> i \<notin> set (at_key key ix) then at_key key ix @ [i] else at_key key' ix)"
  by (auto simp: index_one_def at_key_set Let_def)

lemma index_lookup:
  "at_key key (fold (index_one i) keys ix) = (if key \<in> set keys \<and> i \<notin> set (at_key key ix) then at_key key ix @ [i] else at_key key ix)"
  by (induction keys arbitrary: ix) (auto simp: index_one_lookup)

text \<open>Closing an investigation makes it findable, once. After indexing, the investigation is related exactly under the values
  given, where it stands once; other investigations keep their places; and indexing it again changes no answer.\<close>

theorem indexing_is_idempotent:
  "let ix' = snd (index_investigation i vals ix) in
   find_related kind v n (snd (index_investigation i vals ix')) = find_related kind v n ix' \<and>
   (i \<in> set (at_key (kind, v) ix') \<longleftrightarrow> i \<in> set (at_key (kind, v) ix) \<or> (kind, v) \<in> set (index_keys vals)) \<and>
   filter (\<lambda>j. j \<noteq> i) (at_key (kind, v) ix') = filter (\<lambda>j. j \<noteq> i) (at_key (kind, v) ix) \<and>
   (distinct (at_key (kind, v) ix) \<longleftrightarrow> distinct (at_key (kind, v) ix'))"
  by (auto simp: index_investigation_def index_lookup find_related_def Let_def)

end
