(* ===== verification/Reporting.thy ===== *)
theory Reporting
  imports Cve_Researcher
begin

text \<open>
  Arranging an investigation for the report (\<^verbatim>\<open>tools/reporting.py\<close>): the bounded timeline, the affected assets and the reference
  list. What is shown is that nothing is added and nothing disappears unreported.
\<close>

section \<open>Timeline\<close>

record timeline_entry =
  tl_event_id :: string
  tl_event_time :: time
  tl_source_id :: string
  tl_summary :: string
  tl_notability :: pyfloat

record report_entry =
  re_event_id :: string
  re_occurred_at :: time
  re_source_id :: string
  re_summary :: string
  re_notability :: pyfloat
  re_raw_ref :: "string option"

definition chronological :: "timeline_entry \<Rightarrow> time \<times> string" where
  "chronological e = (tl_event_time e, tl_event_id e)"

definition most_notable :: "timeline_entry \<Rightarrow> pyfloat \<times> time \<times> string" where
  "most_notable e = (- tl_notability e, tl_event_time e, tl_event_id e)"

text \<open>\<^verbatim>\<open>{event.event_id: event.raw_ref for event in events}\<close>: the last event with an identifier counts.\<close>

definition raw_refs :: "normalized_event list \<Rightarrow> string \<Rightarrow> string option" where
  "raw_refs events i = (case map_of (rev (map (\<lambda>e. (event_id e, raw_ref e)) events)) i of Some r \<Rightarrow> r | None \<Rightarrow> None)"

definition report_entry_of :: "normalized_event list \<Rightarrow> timeline_entry \<Rightarrow> report_entry" where
  "report_entry_of events e = \<lparr>re_event_id = tl_event_id e, re_occurred_at = tl_event_time e, re_source_id = tl_source_id e,
     re_summary = tl_summary e, re_notability = tl_notability e, re_raw_ref = raw_refs events (tl_event_id e)\<rparr>"

definition kept_entries :: "timeline_entry list \<Rightarrow> nat \<Rightarrow> timeline_entry list" where
  "kept_entries entries limit =
     (let ordered = sort_key chronological (dedup_by tl_event_id [] entries) in
      if limit < length ordered then sort_key chronological (take limit (sort_key most_notable ordered)) else ordered)"

definition assemble_timeline :: "timeline_entry list \<Rightarrow> nat \<Rightarrow> normalized_event list \<Rightarrow> report_entry list \<times> nat" where
  "assemble_timeline entries limit events =
     (map (report_entry_of events) (kept_entries entries limit), length (dedup_by tl_event_id [] entries) - limit)"


section \<open>Affected assets\<close>

record affected_asset =
  aa_hostname :: string
  aa_event_count :: nat
  aa_first_seen :: "time option"
  aa_last_seen :: "time option"
  aa_confirmed_cve_ids :: "string list"
  aa_critical :: bool

definition seen_time :: "time option \<Rightarrow> time \<Rightarrow> time" where
  "seen_time t dflt = (case t of Some x \<Rightarrow> x | None \<Rightarrow> dflt)"

definition count_event :: "string list \<Rightarrow> string \<times> time \<Rightarrow> (string, affected_asset) dict \<Rightarrow> (string, affected_asset) dict" where
  "count_event critical ht d = (let (h, t) = ht; key = lower h in
     case map_of d key of
       None \<Rightarrow> dict_set key \<lparr>aa_hostname = h, aa_event_count = 1, aa_first_seen = Some t, aa_last_seen = Some t,
         aa_confirmed_cve_ids = [], aa_critical = (key \<in> set critical)\<rparr> d
     | Some x \<Rightarrow> dict_set key (x\<lparr>aa_event_count := aa_event_count x + 1,
         aa_first_seen := Some (min (seen_time (aa_first_seen x) t) t), aa_last_seen := Some (max (seen_time (aa_last_seen x) t) t)\<rparr>) d)"

definition name_cve :: "string list \<Rightarrow> string \<times> string \<Rightarrow> (string, affected_asset) dict \<Rightarrow> (string, affected_asset) dict" where
  "name_cve critical hc d = (let (h, cve) = hc; key = lower h;
     x = (case map_of d key of Some x \<Rightarrow> x
       | None \<Rightarrow> \<lparr>aa_hostname = h, aa_event_count = 0, aa_first_seen = None, aa_last_seen = None, aa_confirmed_cve_ids = [],
           aa_critical = (key \<in> set critical)\<rparr>) in
     dict_set key (if cve \<in> set (aa_confirmed_cve_ids x) then x
       else x\<lparr>aa_confirmed_cve_ids := aa_confirmed_cve_ids x @ [cve]\<rparr>) d)"

text \<open>What the two loops visit: the host and time of each event that names a host, and the host and CVE of each item of evidence that does.\<close>

definition host_times :: "normalized_event list \<Rightarrow> (string \<times> time) list" where
  "host_times events = map (\<lambda>e. (the (host e), event_time e)) (filter (\<lambda>e. truthy (host e)) events)"

definition host_cves :: "cve_assessment list \<Rightarrow> (string \<times> string) list" where
  "host_cves confirmed = concat (map (\<lambda>v. map (\<lambda>i. (the (ae_hostname i), cve_id (va_record v)))
     (filter (\<lambda>i. truthy (ae_hostname i)) (va_evidence v))) confirmed)"

definition assets_by_host :: "normalized_event list \<Rightarrow> cve_assessment list \<Rightarrow> string list \<Rightarrow> (string, affected_asset) dict" where
  "assets_by_host events confirmed critical = fold (name_cve critical) (host_cves confirmed) (fold (count_event critical) (host_times events) [])"

definition asset_order :: "affected_asset \<Rightarrow> bool \<times> int \<times> string" where
  "asset_order a = (\<not> aa_critical a, - int (aa_event_count a), lower (aa_hostname a))"

definition collect_affected_assets :: "normalized_event list \<Rightarrow> cve_assessment list \<Rightarrow> string list \<Rightarrow> affected_asset list" where
  "collect_affected_assets events confirmed critical_assets =
     sort_key asset_order (map snd (assets_by_host events confirmed (map lower critical_assets)))"


section \<open>References\<close>

type_synonym source_key = "string \<times> string"

definition report_citation_key :: "citation \<Rightarrow> source_key" where
  "report_citation_key c = (cit_source_id c, or_empty (or_else (cit_chunk_id c) (or_else (cit_url c) (or_else (cit_title c) (Some [])))))"

definition compile_citations :: "citation list list \<Rightarrow> citation list" where
  "compile_citations groups = dedup_by report_citation_key [] (concat groups)"

text \<open>\<^verbatim>\<open>{citation_key(citation): index ...}\<close>, numbered from one; a repeated key keeps its last number.\<close>

definition citation_numbers :: "citation list \<Rightarrow> source_key \<Rightarrow> nat option" where
  "citation_numbers cs = map_of (rev (zip (map report_citation_key cs) [1..<Suc (length cs)]))"

definition mark_numbers :: "citation list \<Rightarrow> (source_key \<Rightarrow> nat option) \<Rightarrow> nat list" where
  "mark_numbers cs numbers = sorted_set (List.map_filter (\<lambda>c. numbers (report_citation_key c)) cs)"

definition reference_marks :: "citation list \<Rightarrow> (source_key \<Rightarrow> nat option) \<Rightarrow> string" where
  "reference_marks cs numbers = concat (map (\<lambda>n. ''['' @ show_nat n @ '']'') (mark_numbers cs numbers))"


section \<open>The timeline is bounded honestly\<close>

lemma kept_entries_mem: "set (kept_entries entries limit) \<subseteq> set (dedup_by tl_event_id [] entries)"
  by (auto simp: kept_entries_def Let_def dest: in_set_takeD)

lemma kept_entries_sorted: "sorted (map chronological (kept_entries entries limit))"
  by (simp add: kept_entries_def Let_def)

lemma kept_entries_distinct: "distinct (map tl_event_id (kept_entries entries limit))"
proof -
  have d: "distinct (map tl_event_id (dedup_by tl_event_id [] entries))" by (rule dedup_by_distinct)
  then have s: "distinct (map tl_event_id (sort_key f (dedup_by tl_event_id [] entries)))" for f :: "timeline_entry \<Rightarrow> 'k::linorder"
    by (simp add: distinct_map)
  have "distinct (map tl_event_id (sort_key most_notable (sort_key chronological (dedup_by tl_event_id [] entries))))"
    using d by (simp add: distinct_map)
  then have "distinct (map tl_event_id (take limit (sort_key most_notable (sort_key chronological (dedup_by tl_event_id [] entries)))))"
    by (metis distinct_take take_map)
  then show ?thesis using s by (simp add: kept_entries_def Let_def distinct_map)
qed

lemma kept_entries_length: "length (kept_entries entries limit) = min limit (length (dedup_by tl_event_id [] entries))"
  by (simp add: kept_entries_def Let_def min_def)

lemma dropped_less_notable:
  assumes "x \<in> set (dedup_by tl_event_id [] entries)" "x \<notin> set (kept_entries entries limit)" "k \<in> set (kept_entries entries limit)"
  shows "tl_notability x \<le> tl_notability k"
proof -
  let ?all = "sort_key most_notable (sort_key chronological (dedup_by tl_event_id [] entries))"
  have cut: "limit < length (dedup_by tl_event_id [] entries)"
    using assms(1,2) by (auto simp: kept_entries_def Let_def split: if_splits)
  then have kept: "set (kept_entries entries limit) = set (take limit ?all)" by (simp add: kept_entries_def Let_def)
  have "x \<in> set ?all" using assms(1) by simp
  then have "x \<in> set (drop limit ?all)" using assms(2) kept by (metis append_take_drop_id Un_iff set_append)
  moreover have "k \<in> set (take limit ?all)" using assms(3) kept by simp
  ultimately have "most_notable k \<le> most_notable x" using take_sorted_le[of most_notable ?all k limit x] by simp
  then show ?thesis by (auto simp: most_notable_def less_eq_prod_def)
qed

text \<open>
  The report's timeline is bounded and says so: it reads forwards in time, lists each event once, carries at most the limit, the
  count of omitted entries together with the entries kept is the number of distinct events, and no omitted event is
  more notable than a kept one.
\<close>
theorem timeline_bounded_honestly:
  "let (timeline, omitted) = assemble_timeline entries limit events in
   sorted (map (\<lambda>e. (re_occurred_at e, re_event_id e)) timeline) \<and> distinct (map re_event_id timeline)
   \<and> length timeline \<le> limit \<and> length timeline + omitted = card (tl_event_id ` set entries)
   \<and> set (map re_event_id timeline) \<subseteq> tl_event_id ` set entries
   \<and> list_all (\<lambda>x. tl_event_id x \<in> set (map re_event_id timeline) \<or> list_all (\<lambda>k. tl_notability x \<le> re_notability k) timeline)
       (dedup_by tl_event_id [] entries)"
proof -
  let ?k = "kept_entries entries limit" and ?d = "dedup_by tl_event_id [] entries"
  have keys: "map re_event_id (map (report_entry_of events) ?k) = map tl_event_id ?k" by (simp add: report_entry_of_def o_def)
  have ord: "map (\<lambda>e. (re_occurred_at e, re_event_id e)) (map (report_entry_of events) ?k) = map chronological ?k"
    by (simp add: report_entry_of_def chronological_def o_def)
  have card: "length ?d = card (tl_event_id ` set entries)"
    using dedup_by_keys[of tl_event_id "[]" entries] dedup_by_distinct[of tl_event_id "[]" entries]
    by (metis Diff_empty distinct_card length_map list.set(1) list.set_map)
  have less: "tl_event_id x \<in> set (map tl_event_id ?k) \<or> (\<forall>e \<in> set ?k. tl_notability x \<le> tl_notability e)" if "x \<in> set ?d" for x
    using dropped_less_notable[OF that] by force
  have sub: "tl_event_id ` set ?k \<subseteq> tl_event_id ` set entries"
    using kept_entries_mem[of entries limit] dedup_by_subset[of tl_event_id "[]" entries] by blast
  have notab: "(\<forall>r \<in> set (map (report_entry_of events) ?k). n \<le> re_notability r) \<longleftrightarrow> (\<forall>e \<in> set ?k. n \<le> tl_notability e)" for n
    by (simp add: report_entry_of_def)
  show ?thesis
    unfolding assemble_timeline_def Let_def prod.case keys ord list_all_iff notab
    using kept_entries_sorted kept_entries_distinct kept_entries_length[of entries limit] card less sub by auto
qed


section \<open>The asset list is what the evidence says\<close>

abbreviation for_host :: "string \<Rightarrow> (string \<times> 'a) list \<Rightarrow> (string \<times> 'a) list" where
  "for_host k xs \<equiv> filter (\<lambda>(h, _). lower h = k) xs"

definition asset_of_events :: "string list \<Rightarrow> string \<Rightarrow> (string \<times> time) list \<Rightarrow> affected_asset option" where
  "asset_of_events critical k hts = (case for_host k hts of [] \<Rightarrow> None
   | (h, t) # r \<Rightarrow> Some \<lparr>aa_hostname = h, aa_event_count = Suc (length r), aa_first_seen = Some (Min (set (t # map snd r))),
       aa_last_seen = Some (Max (set (t # map snd r))), aa_confirmed_cve_ids = [], aa_critical = (k \<in> set critical)\<rparr>)"

lemma count_event_at: "map_of (count_event critical (h, t) d) k = (if k = lower h then Some (case map_of d k of
     None \<Rightarrow> \<lparr>aa_hostname = h, aa_event_count = 1, aa_first_seen = Some t, aa_last_seen = Some t, aa_confirmed_cve_ids = [],
       aa_critical = (k \<in> set critical)\<rparr>
   | Some x \<Rightarrow> x\<lparr>aa_event_count := aa_event_count x + 1, aa_first_seen := Some (min (seen_time (aa_first_seen x) t) t),
       aa_last_seen := Some (max (seen_time (aa_last_seen x) t) t)\<rparr>) else map_of d k)"
  by (simp add: count_event_def Let_def dict_facts split: option.splits)

lemma name_cve_at: "map_of (name_cve critical (h, c) d) k = (if k = lower h then Some (let
     x = (case map_of d (lower h) of Some x \<Rightarrow> x | None \<Rightarrow> \<lparr>aa_hostname = h, aa_event_count = 0, aa_first_seen = None, aa_last_seen = None,
       aa_confirmed_cve_ids = [], aa_critical = (lower h \<in> set critical)\<rparr>) in
     if c \<in> set (aa_confirmed_cve_ids x) then x else x\<lparr>aa_confirmed_cve_ids := aa_confirmed_cve_ids x @ [c]\<rparr>) else map_of d k)"
  by (simp add: name_cve_def Let_def dict_set_lookup)

lemma count_lookup: "map_of (fold (count_event critical) hts []) k = asset_of_events critical k hts"
proof (induction hts rule: rev_induct)
  case Nil
  then show ?case by (simp add: asset_of_events_def)
next
  case (snoc ht hts)
  obtain h t where ht: "ht = (h, t)" by (cases ht)
  show ?case
  proof (cases "lower h = k")
    case False
    then show ?thesis using snoc.IH by (simp add: ht count_event_at asset_of_events_def)
  next
    case True
    show ?thesis
    proof (cases "for_host k hts")
      case Nil
      then have "map_of (fold (count_event critical) hts []) k = None" using snoc.IH by (simp add: asset_of_events_def)
      with True Nil show ?thesis by (simp add: ht count_event_at asset_of_events_def)
    next
      case (Cons g gs)
      obtain h0 t0 where g: "g = (h0, t0)" by (cases g)
      have "map_of (fold (count_event critical) hts []) k = Some \<lparr>aa_hostname = h0, aa_event_count = Suc (length gs),
          aa_first_seen = Some (Min (set (t0 # map snd gs))), aa_last_seen = Some (Max (set (t0 # map snd gs))),
          aa_confirmed_cve_ids = [], aa_critical = (k \<in> set critical)\<rparr>"
        using snoc.IH Cons g by (simp add: asset_of_events_def)
      moreover have "Min (set (t0 # map snd gs @ [t])) = min (Min (set (t0 # map snd gs))) t"
        "Max (set (t0 # map snd gs @ [t])) = max (Max (set (t0 # map snd gs))) t"
      proof -
        have "set (t0 # map snd gs @ [t]) = insert t (set (t0 # map snd gs))" by auto
        then show "Min (set (t0 # map snd gs @ [t])) = min (Min (set (t0 # map snd gs))) t"
          "Max (set (t0 # map snd gs @ [t])) = max (Max (set (t0 # map snd gs))) t"
          using Min_insert[of "set (t0 # map snd gs)" t] Max_insert[of "set (t0 # map snd gs)" t] by (simp_all only: finite_set) (simp_all add: min.commute max.commute)
      qed
      ultimately show ?thesis using True Cons g
        by (simp add: ht count_event_at asset_of_events_def seen_time_def)
    qed
  qed
qed

lemma dedup_by_snoc: "dedup_by key seen (xs @ [x]) =
    (if key x \<in> set seen \<union> key ` set xs then dedup_by key seen xs else dedup_by key seen xs @ [x])"
  by (induction xs arbitrary: seen) auto

definition asset_of_evidence :: "string list \<Rightarrow> string \<Rightarrow> (string \<times> time) list \<Rightarrow> (string \<times> string) list \<Rightarrow> affected_asset option" where
  "asset_of_evidence critical k hts hcs = (case asset_of_events critical k hts of
     Some x \<Rightarrow> Some (x\<lparr>aa_confirmed_cve_ids := unique (map snd (for_host k hcs))\<rparr>)
   | None \<Rightarrow> (case for_host k hcs of [] \<Rightarrow> None
       | (h, c) # r \<Rightarrow> Some \<lparr>aa_hostname = h, aa_event_count = 0, aa_first_seen = None, aa_last_seen = None,
           aa_confirmed_cve_ids = unique (c # map snd r), aa_critical = (k \<in> set critical)\<rparr>))"

lemma cve_lookup_host:
  "map_of (fold (name_cve critical) hcs (fold (count_event critical) hts [])) k = asset_of_evidence critical k hts hcs"
proof (induction hcs rule: rev_induct)
  case Nil
  have "x\<lparr>aa_confirmed_cve_ids := []\<rparr> = x" if "asset_of_events critical k hts = Some x" for x
    using that by (auto simp: asset_of_events_def split: list.splits)
  then show ?case by (auto simp: count_lookup asset_of_evidence_def split: option.splits)
next
  case (snoc hc hcs)
  obtain h c where hc: "hc = (h, c)" by (cases hc)
  show ?case
  proof (cases "lower h = k")
    case False
    then have same: "for_host k (hcs @ [hc]) = for_host k hcs" by (simp add: hc)
    have "asset_of_evidence critical k hts (hcs @ [hc]) = asset_of_evidence critical k hts hcs" unfolding asset_of_evidence_def same by (rule refl)
    with False show ?thesis using snoc.IH by (simp add: hc name_cve_at)
  next
    case True
    show ?thesis
    proof (cases "asset_of_evidence critical k hts hcs")
      case None
      then have "for_host k hcs = []" "asset_of_events critical k hts = None" by (auto simp: asset_of_evidence_def split: option.splits list.splits)
      with True None show ?thesis using snoc.IH by (simp add: hc name_cve_at asset_of_evidence_def)
    next
      case (Some x)
      have cves: "aa_confirmed_cve_ids x = unique (map snd (for_host k hcs))"
        using Some by (auto simp: asset_of_evidence_def split: option.splits list.splits)
      have "asset_of_evidence critical k hts (hcs @ [hc]) = Some (x\<lparr>aa_confirmed_cve_ids := unique (map snd (for_host k hcs) @ [c])\<rparr>)"
        using Some True by (auto simp: asset_of_evidence_def hc split: option.splits list.splits)
      also have "\<dots> = Some (if c \<in> set (aa_confirmed_cve_ids x) then x else x\<lparr>aa_confirmed_cve_ids := aa_confirmed_cve_ids x @ [c]\<rparr>)"
      proof -
        have "c \<in> set (aa_confirmed_cve_ids x) \<longleftrightarrow> c \<in> set (map snd (for_host k hcs))" unfolding cves by (simp only: set_unique)
        moreover have "x\<lparr>aa_confirmed_cve_ids := unique (map snd (for_host k hcs))\<rparr> = x" unfolding cves[symmetric] by simp
        ultimately show ?thesis unfolding dedup_by_snoc by (simp add: cves)
      qed
      finally show ?thesis using True snoc.IH Some by (simp add: hc name_cve_at Let_def)
    qed
  qed
qed

lemma fold_keeps_distinct:
  "(\<And>x d. distinct (map fst d) \<Longrightarrow> distinct (map fst (f x d))) \<Longrightarrow> distinct (map fst d) \<Longrightarrow> distinct (map fst (fold f xs d))"
  by (induction xs arbitrary: d) auto

lemma assets_by_host_distinct: "distinct (map fst (assets_by_host events confirmed critical))"
  unfolding assets_by_host_def
  by (intro fold_keeps_distinct) (auto simp: name_cve_def count_event_def Let_def dict_set_distinct split: option.splits prod.splits)

lemma assets_by_host_lookup:
  "(k, x) \<in> set (assets_by_host events confirmed critical) \<longleftrightarrow>
     asset_of_evidence critical k (host_times events) (host_cves confirmed) = Some x"
  using map_of_eq_Some_iff[OF assets_by_host_distinct[of events confirmed critical], of k x]
  by (simp add: assets_by_host_def cve_lookup_host)

definition times_of :: "string \<Rightarrow> normalized_event list \<Rightarrow> time list" where
  "times_of k events = map event_time (filter (\<lambda>e. truthy (host e) \<and> lower (the (host e)) = k) events)"

lemma times_of_for_host: "map snd (for_host k (host_times events)) = times_of k events"
  by (induction events) (auto simp: host_times_def times_of_def)

text \<open>What an asset of the list says of its host.\<close>

definition asset_exact :: "normalized_event list \<Rightarrow> cve_assessment list \<Rightarrow> string list \<Rightarrow> affected_asset \<Rightarrow> bool" where
  "asset_exact events confirmed critical a = (let k = lower (aa_hostname a); ts = times_of k events in
     aa_event_count a = length ts \<and>
     aa_first_seen a = (if ts = [] then None else Some (Min (set ts))) \<and> aa_last_seen a = (if ts = [] then None else Some (Max (set ts))) \<and>
     set (aa_confirmed_cve_ids a) = {c. \<exists>h. (h, c) \<in> set (host_cves confirmed) \<and> lower h = k} \<and>
     aa_critical a = (k \<in> set critical))"

lemma for_host_mem: "for_host k xs = (h, y) # r \<Longrightarrow> lower h = k"
  by (auto dest!: filter_eq_ConsD)

lemma asset_of_evidence_exact:
  assumes "asset_of_evidence critical k (host_times events) (host_cves confirmed) = Some x"
  shows "lower (aa_hostname x) = k \<and> asset_exact events confirmed critical x"
proof -
  let ?hts = "host_times events" and ?hcs = "host_cves confirmed"
  have cves: "set (map snd (for_host k ?hcs)) = {c. \<exists>h. (h, c) \<in> set ?hcs \<and> lower h = k}" by force
  show ?thesis
  proof (cases "asset_of_events critical k ?hts")
    case (Some y)
    then obtain h t r where hts: "for_host k ?hts = (h, t) # r"
      and y: "y = \<lparr>aa_hostname = h, aa_event_count = Suc (length r), aa_first_seen = Some (Min (set (t # map snd r))),
         aa_last_seen = Some (Max (set (t # map snd r))), aa_confirmed_cve_ids = [], aa_critical = (k \<in> set critical)\<rparr>"
      by (auto simp: asset_of_events_def split: list.splits)
    have ts: "times_of k events = t # map snd r" using times_of_for_host[of k events] hts by simp
    have x: "x = y\<lparr>aa_confirmed_cve_ids := unique (map snd (for_host k ?hcs))\<rparr>" using assms Some by (simp add: asset_of_evidence_def)
    have "lower h = k" by (rule for_host_mem[OF hts])
    then show ?thesis unfolding asset_exact_def Let_def using cves by (simp add: x y ts)
  next
    case None
    then have "for_host k ?hts = []" by (auto simp: asset_of_events_def split: list.splits)
    then have ts: "times_of k events = []" using times_of_for_host[of k events] by simp
    from None assms obtain h c r where hcs: "for_host k ?hcs = (h, c) # r"
      and x: "x = \<lparr>aa_hostname = h, aa_event_count = 0, aa_first_seen = None, aa_last_seen = None,
           aa_confirmed_cve_ids = unique (c # map snd r), aa_critical = (k \<in> set critical)\<rparr>"
      by (auto simp: asset_of_evidence_def split: list.splits)
    have "lower h = k" by (rule for_host_mem[OF hcs])
    moreover have "set (aa_confirmed_cve_ids x) = set (map snd (for_host k ?hcs))" unfolding x hcs by (simp only: affected_asset.simps set_unique list.map snd_conv)
    ultimately show ?thesis unfolding asset_exact_def Let_def using cves by (simp add: x ts)
  qed
qed

text \<open>
  The affected-asset list is exactly what the evidence says: one entry per host named by an event or by confirmed
  applicability evidence, whatever the spelling's case; its event count, first and last time seen and confirmed CVEs are those
  of the events and assessments that name it; and business-critical and busiest hosts come first.
\<close>
theorem affected_assets_exact:
  "let assets = collect_affected_assets events confirmed critical_assets in
   sorted (map asset_order assets) \<and> distinct (map (lower \<circ> aa_hostname) assets)
   \<and> set (map (lower \<circ> aa_hostname) assets) = lower ` (fst ` set (host_times events) \<union> fst ` set (host_cves confirmed))
   \<and> list_all (asset_exact events confirmed (map lower critical_assets)) assets"
proof -
  let ?c = "map lower critical_assets" and ?hts = "host_times events" and ?hcs = "host_cves confirmed"
  let ?d = "assets_by_host events confirmed ?c"
  have key: "lower (aa_hostname x) = k \<and> asset_exact events confirmed ?c x" if "(k, x) \<in> set ?d" for k x
    using that asset_of_evidence_exact by (simp add: assets_by_host_lookup)
  then have keys: "map (lower \<circ> aa_hostname \<circ> snd) ?d = map fst ?d" by (intro map_cong) auto
  have dist: "distinct (map (lower \<circ> aa_hostname) (map snd ?d))" 
    using assets_by_host_distinct[of events confirmed ?c] unfolding map_map o_assoc keys .
  have dom: "fst ` set ?d = lower ` (fst ` set ?hts \<union> fst ` set ?hcs)"
  proof (intro equalityI subsetI)
    fix k assume "k \<in> fst ` set ?d"
    then obtain x where "asset_of_evidence ?c k ?hts ?hcs = Some x" by (auto simp: assets_by_host_lookup)
    then have "for_host k ?hts \<noteq> [] \<or> for_host k ?hcs \<noteq> []" by (auto simp: asset_of_evidence_def asset_of_events_def split: list.splits option.splits)
    then show "k \<in> lower ` (fst ` set ?hts \<union> fst ` set ?hcs)" by (force simp: filter_empty_conv)
  next
    fix k assume "k \<in> lower ` (fst ` set ?hts \<union> fst ` set ?hcs)"
    then have "for_host k ?hts \<noteq> [] \<or> for_host k ?hcs \<noteq> []" by (force simp: filter_empty_conv)
    then obtain x where "asset_of_evidence ?c k ?hts ?hcs = Some x"
      by (cases "for_host k ?hts"; cases "for_host k ?hcs") (auto simp: asset_of_evidence_def asset_of_events_def)
    then show "k \<in> fst ` set ?d" by (force simp: assets_by_host_lookup[symmetric])
  qed
  have same: "set (collect_affected_assets events confirmed critical_assets) = snd ` set ?d" by (simp add: collect_affected_assets_def)
  have "distinct (map (lower \<circ> aa_hostname) (collect_affected_assets events confirmed critical_assets))"
  proof -
    have "distinct (map snd ?d)" "inj_on (lower \<circ> aa_hostname) (set (map snd ?d))" using dist unfolding distinct_map by blast+
    then show ?thesis unfolding collect_affected_assets_def by (simp only: distinct_map[of _ "sort_key _ _"] distinct_sort set_sort)
  qed
  moreover have "(lower \<circ> aa_hostname) ` snd ` set ?d = fst ` set ?d" using keys by (metis image_comp list.set_map o_assoc)
  ultimately show ?thesis unfolding Let_def using key same dom
    by (auto simp: list_all_iff collect_affected_assets_def)
qed


section \<open>References resolve\<close>

lemma compile_citations_distinct: "distinct (map report_citation_key (compile_citations groups))"
  unfolding compile_citations_def by (rule dedup_by_distinct)

lemma compile_citations_keys: "report_citation_key ` set (compile_citations groups) = report_citation_key ` set (concat groups)"
  unfolding compile_citations_def using dedup_by_keys[of report_citation_key "[]" "concat groups"] by simp

lemma citation_numbers_at:
  assumes "distinct (map report_citation_key cs)"
  shows "citation_numbers cs key = Some n \<longleftrightarrow> 1 \<le> n \<and> n \<le> length cs \<and> report_citation_key (cs ! (n - 1)) = key"
proof -
  let ?z = "zip (map report_citation_key cs) [1..<Suc (length cs)]"
  have fst_z: "map fst ?z = map report_citation_key cs" by (subst map_fst_zip) (simp_all del: upt_Suc)
  then have "distinct (map fst (rev ?z))" using assms by (metis distinct_rev rev_map)
  then have "citation_numbers cs key = Some n \<longleftrightarrow> (key, n) \<in> set ?z" unfolding citation_numbers_def by simp
  also have "\<dots> \<longleftrightarrow> (\<exists>i < length cs. report_citation_key (cs ! i) = key \<and> Suc i = n)"
  proof -
    have "(key, n) \<in> set ?z \<longleftrightarrow> (\<exists>i < length ?z. ?z ! i = (key, n))" by (auto simp: in_set_conv_nth simp del: upt_Suc)
    moreover have "?z ! i = (report_citation_key (cs ! i), Suc i)" if "i < length cs" for i using that by (simp del: upt_Suc)
    moreover have "length ?z = length cs" by (simp del: upt_Suc)
    ultimately show ?thesis by (metis prod.inject)
  qed
  also have "\<dots> \<longleftrightarrow> 1 \<le> n \<and> n \<le> length cs \<and> report_citation_key (cs ! (n - 1)) = key"
    by (cases n) auto
  finally show ?thesis .
qed

text \<open>
  The report's references are stable and resolve: the compiled list holds every cited source once, in first-seen order; the number
  of a source is its position in that list; and the marks of any claim whose sources were compiled are ascending, name only
  entries of the list, and between them name every one of its sources.
\<close>
theorem references_resolve:
  assumes "report_citation_key ` set cited \<subseteq> report_citation_key ` set (concat groups)"
  shows "let refs = compile_citations groups; marks = mark_numbers cited (citation_numbers refs) in
    distinct (map report_citation_key refs) \<and> subseq refs (concat groups)
    \<and> report_citation_key ` set refs = report_citation_key ` set (concat groups)
    \<and> sorted marks \<and> distinct marks \<and> list_all (\<lambda>n. 1 \<le> n \<and> n \<le> length refs) marks
    \<and> (\<lambda>n. report_citation_key (refs ! (n - 1))) ` set marks = report_citation_key ` set cited"
proof -
  let ?refs = "compile_citations groups"
  let ?num = "citation_numbers ?refs"
  note at = citation_numbers_at[OF compile_citations_distinct[of groups]]
  have marks: "set (mark_numbers cited ?num) = {n. \<exists>c \<in> set cited. ?num (report_citation_key c) = Some n}"
    by (force simp: mark_numbers_def List.map_filter_def image_iff)
  have total: "\<exists>n. ?num (report_citation_key c) = Some n" if "c \<in> set cited" for c
  proof -
    have "report_citation_key c \<in> report_citation_key ` set ?refs" using that assms compile_citations_keys by blast
    then obtain i where "i < length ?refs" "report_citation_key (?refs ! i) = report_citation_key c" by (auto simp: in_set_conv_nth)
    then have "?num (report_citation_key c) = Some (Suc i)" unfolding at by simp
    then show ?thesis by blast
  qed
  have "(\<lambda>n. report_citation_key (?refs ! (n - 1))) ` set (mark_numbers cited ?num) = report_citation_key ` set cited"
    using total unfolding marks by (auto simp: at image_iff) metis
  moreover have "list_all (\<lambda>n. 1 \<le> n \<and> n \<le> length ?refs) (mark_numbers cited ?num)" unfolding list_all_iff marks by (auto simp: at)
  moreover have "sorted (mark_numbers cited ?num)" "distinct (mark_numbers cited ?num)" by (simp_all add: mark_numbers_def)
  moreover have "subseq ?refs (concat groups)" unfolding compile_citations_def by (rule dedup_by_subseq)
  ultimately show ?thesis unfolding Let_def using compile_citations_distinct compile_citations_keys by blast
qed

definition sample_source :: "string \<Rightarrow> citation" where
  "sample_source i = \<lparr>cit_source_id = i, cit_source = i, cit_url = None, cit_chunk_id = None, cit_title = None, cit_trust_tier = None, cit_published_at = None\<rparr>"

theorem references_resolve_witness:
  "let refs = compile_citations [[sample_source ''a''], [sample_source ''b'', sample_source ''a'']] in
   (\<lambda>n. report_citation_key (refs ! (n - 1))) ` set (mark_numbers [sample_source ''b''] (citation_numbers refs)) = {report_citation_key (sample_source ''b'')}"
  using references_resolve[of "[sample_source ''b'']" "[[sample_source ''a''], [sample_source ''b'', sample_source ''a'']]"]
  by (simp add: Let_def)

end
