(* ===== verification/Report_Render.thy ===== *)
theory Report_Render
  imports Reporting Alert_Render
begin

text \<open>
  The incident report's contract (\<^verbatim>\<open>models/report.py\<close>) and its Markdown rendering (\<^verbatim>\<open>tools/rendering.py\<close>). Rendered text is a list of code
  points. Which code points above Latin-1 are decimal digits is the interpreter's Unicode table, the argument \<open>decimal\<close>; how
  a time is printed is the argument \<open>isoformat\<close>. Shown: an escaped value cannot break out of its table cell, so the shape of every
  table depends on the number of its rows only; and what escaping does not neutralise.
\<close>

section \<open>Contracts\<close>

datatype report_section = Sec_Evidence | Sec_Threat | Sec_Vulnerability | Sec_Overall

fun section_value :: "report_section \<Rightarrow> string" where
  "section_value Sec_Evidence = ''evidence''"
| "section_value Sec_Threat = ''threat''"
| "section_value Sec_Vulnerability = ''vulnerability''"
| "section_value Sec_Overall = ''overall''"

datatype caveat_kind = Missing_Section | Caveat_Coverage_Gap | Timeline_Truncated | Low_Confidence | Degraded_Enrichment | Stale_Research
  | Unconfirmed_Applicability | Escalation_Required

fun caveat_value :: "caveat_kind \<Rightarrow> string" where
  "caveat_value Missing_Section = ''missing_section''"
| "caveat_value Caveat_Coverage_Gap = ''coverage_gap''"
| "caveat_value Timeline_Truncated = ''timeline_truncated''"
| "caveat_value Low_Confidence = ''low_confidence''"
| "caveat_value Degraded_Enrichment = ''degraded_enrichment''"
| "caveat_value Stale_Research = ''stale_research''"
| "caveat_value Unconfirmed_Applicability = ''unconfirmed_applicability''"
| "caveat_value Escalation_Required = ''escalation_required''"

datatype report_status = Report_Draft | Report_Final

fun report_status_value :: "report_status \<Rightarrow> string" where
  "report_status_value Report_Draft = ''draft''"
| "report_status_value Report_Final = ''final''"

record finding_support =
  fs_event_ids :: "string list"
  fs_signal_rule_ids :: "string list"
  fs_technique_ids :: "string list"
  fs_cve_ids :: "string list"
  fs_indicator_values :: "string list"

definition no_finding_support :: finding_support where
  "no_finding_support = \<lparr>fs_event_ids = [], fs_signal_rule_ids = [], fs_technique_ids = [], fs_cve_ids = [], fs_indicator_values = []\<rparr>"

definition finding_support_empty :: "finding_support \<Rightarrow> bool" where
  "finding_support_empty s = (\<not> (fs_event_ids s \<noteq> [] \<or> fs_signal_rule_ids s \<noteq> [] \<or> fs_technique_ids s \<noteq> [] \<or> fs_cve_ids s \<noteq> []
     \<or> fs_indicator_values s \<noteq> []))"

record report_finding =
  fi_section :: report_section
  fi_title :: string
  fi_detail :: string
  fi_support :: finding_support
  fi_confidence :: pyfloat
  fi_citations :: "citation list"

record report_caveat =
  cv_kind :: caveat_kind
  cv_section :: report_section
  cv_detail :: string

record incident_report =
  ir_investigation_id :: string
  ir_title :: string
  ir_status :: report_status
  ir_executive_summary :: utext
  ir_technical_body :: utext
  ir_verdict :: "verdict option"
  ir_severity :: "severity option"
  ir_timeline :: "report_entry list"
  ir_findings :: "report_finding list"
  ir_affected_assets :: "affected_asset list"
  ir_indicators :: "mapping list"
  ir_techniques :: "mapping list"
  ir_cves :: "mapping list"
  ir_caveats :: "report_caveat list"
  ir_citations :: "citation list"
  ir_confidence :: pyfloat
  ir_version :: nat
  ir_generated_from :: "report_section list"

definition is_complete :: "incident_report \<Rightarrow> bool" where
  "is_complete r = (\<not> list_ex (\<lambda>c. cv_kind c = Missing_Section) (ir_caveats r))"

definition findings_in :: "report_section \<Rightarrow> incident_report \<Rightarrow> report_finding list" where
  "findings_in s r = filter (\<lambda>f. fi_section f = s) (ir_findings r)"


section \<open>Escaping\<close>

abbreviation em_dash :: utext where
  "em_dash \<equiv> [8212]"

definition cell_breaker :: "nat \<Rightarrow> bool" where
  "cell_breaker n = (n = 124 \<or> n = 13 \<or> n = 10)"

text \<open>\<^verbatim>\<open>[|\r\n]+\<close> replaced by one space per run.\<close>

fun collapse_cells :: "utext \<Rightarrow> utext" where
  "collapse_cells [] = []"
| "collapse_cells (n # s) = (if cell_breaker n
     then (case s of m # _ \<Rightarrow> if cell_breaker m then collapse_cells s else 32 # collapse_cells s | [] \<Rightarrow> [32])
     else n # collapse_cells s)"

text \<open>A decimal digit is never white space.\<close>

definition digit_cp :: "(nat \<Rightarrow> bool) \<Rightarrow> nat \<Rightarrow> bool" where
  "digit_cp decimal n = (if n < 256 then 48 \<le> n \<and> n \<le> 57 else decimal n \<and> \<not> space_cp n)"

text \<open>\<^verbatim>\<open>[#>\-*+]|\d+\.\<close>: the length of the marker, zero when there is none.\<close>

definition marker_length :: "(nat \<Rightarrow> bool) \<Rightarrow> utext \<Rightarrow> nat" where
  "marker_length decimal r = (case r of [] \<Rightarrow> 0 | c # _ \<Rightarrow>
     if c \<in> {35, 62, 45, 42, 43} then 1
     else let ds = takeWhile (digit_cp decimal) r in
       if ds \<noteq> [] \<and> take 1 (drop (length ds) r) = [46] then length ds + 1 else 0)"

definition structural :: "(nat \<Rightarrow> bool) \<Rightarrow> utext \<Rightarrow> bool" where
  "structural decimal s = (let r = dropWhile space_cp s; k = marker_length decimal r in
     0 < k \<and> (case drop k r of [] \<Rightarrow> False | c # _ \<Rightarrow> space_cp c))"

text \<open>\<^verbatim>\<open>_LINE_STRUCTURE.sub(r"\1\\\2\3", text)\<close>.\<close>

definition escape_structure :: "(nat \<Rightarrow> bool) \<Rightarrow> utext \<Rightarrow> utext" where
  "escape_structure decimal s = (if structural decimal s then takeWhile space_cp s @ [92] @ dropWhile space_cp s else s)"

definition escape_text :: "(nat \<Rightarrow> bool) \<Rightarrow> utext \<Rightarrow> nat \<Rightarrow> utext" where
  "escape_text decimal t limit =
     (let t = escape_structure decimal (strip_cp (collapse_cells t));
          t = (if limit < length t then take (limit - 1) t @ [ellipsis] else t) in
      if t = [] then em_dash else t)"

definition escape_cell :: "(nat \<Rightarrow> bool) \<Rightarrow> pyval \<Rightarrow> nat \<Rightarrow> utext" where
  "escape_cell decimal v limit = (if v = PNone then em_dash else escape_text decimal (u (str_val v)) limit)"

text \<open>\<^verbatim>\<open>content.replace(3 backticks, 3 apostrophes)\<close>, left to right.\<close>

fun replace_fences :: "utext \<Rightarrow> utext" where
  "replace_fences (a # b # c # s) =
     (if a = 96 \<and> b = 96 \<and> c = 96 then 39 # 39 # 39 # replace_fences s else a # replace_fences (b # c # s))"
| "replace_fences s = s"

definition fence_mark :: utext where
  "fence_mark = [96, 96, 96]"

definition fence :: "utext \<Rightarrow> utext \<Rightarrow> utext" where
  "fence content language = fence_mark @ language @ [10] @ replace_fences content @ [10] @ fence_mark"

text \<open>\<^verbatim>\<open>f"{x:.0%}"\<close> for a value that is not negative.\<close>

definition percent :: "pyfloat \<Rightarrow> string" where
  "percent x = show_nat (nat (rhe (rnd (x * 100)))) @ ''%''"


section \<open>Sections\<close>

abbreviation lf :: utext where
  "lf \<equiv> [10]"

text \<open>A line \<^verbatim>\<open>| a | b |\<close> of a table.\<close>

definition table_row :: "utext list \<Rightarrow> utext" where
  "table_row cells = [124, 32] @ join_cp [32, 124, 32] cells @ [32, 124]"

definition ticked :: "utext \<Rightarrow> utext" where
  "ticked t = [96] @ t @ [96]"

definition render_metadata :: "(nat \<Rightarrow> bool) \<Rightarrow> incident_report \<Rightarrow> utext" where
  "render_metadata decimal r =
     (let rows = [(''Investigation'', ir_investigation_id r),
        (''Verdict'', case ir_verdict r of Some v \<Rightarrow> verdict_value v | None \<Rightarrow> ''not assessed''),
        (''Severity'', case ir_severity r of Some s \<Rightarrow> severity_value s | None \<Rightarrow> ''unrated''),
        (''Confidence'', percent (ir_confidence r)), (''Report version'', show_nat (ir_version r)),
        (''Status'', report_status_value (ir_status r)),
        (''Assembled from'', let t = join '', '' (map section_value (ir_generated_from r)) in if t = [] then ''nothing'' else t)] in
      u ''## Overview'' @ lf @ lf @ u ''| Field | Value |'' @ lf @ u ''|---|---|'' @ lf
      @ join_cp lf (map (\<lambda>(label, v). table_row [u label, escape_text decimal (u v) 200]) rows) @ lf)"

definition timeline_row :: "(nat \<Rightarrow> bool) \<Rightarrow> (time \<Rightarrow> string) \<Rightarrow> report_entry \<Rightarrow> utext" where
  "timeline_row decimal isoformat e = table_row [u (isoformat (re_occurred_at e)), escape_text decimal (u (re_source_id e)) 40,
     escape_text decimal (u (re_summary e)) 200, ticked (escape_text decimal (u (re_event_id e)) 40),
     escape_text decimal (if truthy (re_raw_ref e) then u (the (re_raw_ref e)) else em_dash) 80]"

definition render_timeline :: "(nat \<Rightarrow> bool) \<Rightarrow> (time \<Rightarrow> string) \<Rightarrow> incident_report \<Rightarrow> utext" where
  "render_timeline decimal isoformat r =
     (if ir_timeline r = [] then u ''## Timeline'' @ lf @ lf @ u ''No timeline could be reconstructed from the available evidence.'' @ lf
      else u ''## Timeline'' @ lf @ lf @ u ''| Time (UTC) | Source | Event | Event ID | Raw record |'' @ lf
        @ u ''|---|---|---|---|---|'' @ lf @ join_cp lf (map (timeline_row decimal isoformat) (ir_timeline r)) @ lf)"

definition support_part :: "(nat \<Rightarrow> bool) \<Rightarrow> string \<times> string list \<Rightarrow> utext list" where
  "support_part decimal lv = (let (label, vs) = lv in if vs = [] then [] else
     [u label @ [32] @ join_cp (u '', '') (map (\<lambda>v. ticked (escape_text decimal (u v) 60)) (take 8 vs))
      @ (if 8 < length vs then u ('' (+'' @ show_nat (length vs - 8) @ '' more)'') else [])])"

definition render_support :: "(nat \<Rightarrow> bool) \<Rightarrow> report_finding \<Rightarrow> utext" where
  "render_support decimal f =
     (let s = fi_support f;
          parts = concat (map (support_part decimal) [(''events'', fs_event_ids s), (''detections'', fs_signal_rule_ids s),
            (''techniques'', fs_technique_ids s), (''CVEs'', fs_cve_ids s), (''indicators'', fs_indicator_values s)]) in
      if parts = [] then em_dash else join_cp (u ''; '') parts)"

definition finding_blocks :: "(nat \<Rightarrow> bool) \<Rightarrow> (source_key \<Rightarrow> nat option) \<Rightarrow> report_finding \<Rightarrow> utext list" where
  "finding_blocks decimal numbers f =
     [u ''### '' @ escape_text decimal (u (fi_title f)) 120 @ u ('' ('' @ section_value (fi_section f) @ '', confidence ''
        @ percent (fi_confidence f) @ '')'' @ reference_marks (fi_citations f) numbers),
      [], escape_text decimal (u (fi_detail f)) 2000, [], u ''*Supported by:* '' @ render_support decimal f, []]"

definition render_findings :: "(nat \<Rightarrow> bool) \<Rightarrow> incident_report \<Rightarrow> (source_key \<Rightarrow> nat option) \<Rightarrow> utext" where
  "render_findings decimal r numbers =
     (if ir_findings r = [] then u ''## Findings'' @ lf @ lf @ u ''No findings were produced by the investigation.'' @ lf
      else join_cp lf ([u ''## Findings'', []] @ concat (map (finding_blocks decimal numbers) (ir_findings r))))"

definition asset_row :: "(nat \<Rightarrow> bool) \<Rightarrow> affected_asset \<Rightarrow> utext" where
  "asset_row decimal a = table_row [escape_text decimal (u (aa_hostname a)) 80, u (if aa_critical a then ''yes'' else ''no''),
     u (show_nat (aa_event_count a)),
     escape_text decimal (if aa_confirmed_cve_ids a = [] \<or> join '', '' (aa_confirmed_cve_ids a) = [] then em_dash
       else u (join '', '' (aa_confirmed_cve_ids a))) 120]"

definition render_assets :: "(nat \<Rightarrow> bool) \<Rightarrow> incident_report \<Rightarrow> utext" where
  "render_assets decimal r =
     (if ir_affected_assets r = [] then u ''## Affected assets'' @ lf @ lf @ u ''No asset could be attributed from the evidence.'' @ lf
      else u ''## Affected assets'' @ lf @ lf @ u ''| Host | Business-critical | Events | Confirmed CVEs |'' @ lf
        @ u ''|---|---|---|---|'' @ lf @ join_cp lf (map (asset_row decimal) (ir_affected_assets r)) @ lf)"

definition indicator_row :: "(nat \<Rightarrow> bool) \<Rightarrow> mapping \<Rightarrow> utext" where
  "indicator_row decimal i = table_row [escape_cell decimal (pget i ''type'') 20,
     ticked (escape_cell decimal (or_val (pget i ''defanged'') (pget i ''value'')) 120), escape_cell decimal (pget i ''reputation'') 20,
     escape_cell decimal (or_val (pget i ''source'') (PStr ''not checked'')) 40]"

definition render_indicators :: "(nat \<Rightarrow> bool) \<Rightarrow> incident_report \<Rightarrow> utext" where
  "render_indicators decimal r =
     (if ir_indicators r = [] then u ''## Indicators of compromise'' @ lf @ lf @ u ''No indicators were extracted.'' @ lf
      else u ''## Indicators of compromise'' @ lf @ lf @ u ''Values are defanged for safe handling.'' @ lf @ lf
        @ u ''| Type | Indicator | Reputation | Asserted by |'' @ lf @ u ''|---|---|---|---|'' @ lf
        @ join_cp lf (map (indicator_row decimal) (ir_indicators r)) @ lf)"

definition join_list :: "pyval \<Rightarrow> string" where
  "join_list v = (case v of PList xs \<Rightarrow> join '', '' (map str_val xs) | _ \<Rightarrow> [])"

definition technique_row :: "(nat \<Rightarrow> bool) \<Rightarrow> mapping \<Rightarrow> utext" where
  "technique_row decimal i = table_row [escape_cell decimal (pget i ''technique_id'') 20, escape_cell decimal (pget i ''name'') 80,
     escape_text decimal (u (join_list (pget i ''tactics''))) 80, escape_cell decimal (pget i ''rationale'') 160]"

definition render_techniques :: "(nat \<Rightarrow> bool) \<Rightarrow> incident_report \<Rightarrow> utext" where
  "render_techniques decimal r =
     (if ir_techniques r = [] then u ''## Adversary techniques'' @ lf @ lf @ u ''No ATT&CK technique was mapped.'' @ lf
      else u ''## Adversary techniques'' @ lf @ lf @ u ''| ID | Name | Tactics | Why |'' @ lf @ u ''|---|---|---|---|'' @ lf
        @ join_cp lf (map (technique_row decimal) (ir_techniques r)) @ lf)"

definition vulnerability_row :: "(nat \<Rightarrow> bool) \<Rightarrow> mapping \<Rightarrow> utext" where
  "vulnerability_row decimal i = table_row [escape_cell decimal (pget i ''cve_id'') 24, escape_cell decimal (pget i ''cvss_score'') 8,
     escape_cell decimal (pget i ''applicability'') 24, escape_cell decimal (pget i ''summary'') 200]"

definition render_vulnerabilities :: "(nat \<Rightarrow> bool) \<Rightarrow> incident_report \<Rightarrow> utext" where
  "render_vulnerabilities decimal r =
     (if ir_cves r = [] then u ''## Vulnerabilities'' @ lf @ lf @ u ''No vulnerability was confirmed applicable to the affected assets.'' @ lf
      else u ''## Vulnerabilities'' @ lf @ lf @ u ''| CVE | CVSS | Applicability | Summary |'' @ lf @ u ''|---|---|---|---|'' @ lf
        @ join_cp lf (map (vulnerability_row decimal) (ir_cves r)) @ lf)"

definition caveat_line :: "(nat \<Rightarrow> bool) \<Rightarrow> report_caveat \<Rightarrow> utext" where
  "caveat_line decimal c = u ''- **'' @ escape_text decimal (u (caveat_value (cv_kind c))) 40 @ u ''** (''
     @ escape_text decimal (u (section_value (cv_section c))) 20 @ u ''): '' @ escape_text decimal (u (cv_detail c)) 400"

definition render_caveats :: "(nat \<Rightarrow> bool) \<Rightarrow> incident_report \<Rightarrow> utext" where
  "render_caveats decimal r = (if ir_caveats r = [] then u ''## Caveats'' @ lf @ lf @ u ''None recorded.'' @ lf
     else u ''## Caveats'' @ lf @ lf @ join_cp lf (map (caveat_line decimal) (ir_caveats r)) @ lf)"

definition reference_row :: "(nat \<Rightarrow> bool) \<Rightarrow> nat \<times> citation \<Rightarrow> utext" where
  "reference_row decimal ic = (let (i, c) = ic;
      label = escape_text decimal (u (or_empty (or_else (cit_title c) (Some (cit_source c))))) 120;
      target = or_else (cit_url c) (cit_chunk_id c) in
     u (show_nat i) @ u ''. '' @ label @ u '' ('' @ escape_text decimal (u (cit_source c)) 60 @ u '')''
     @ (if truthy target then u '' '' @ em_dash @ u '' '' @ escape_text decimal (u (the target)) 200 else []))"

definition render_references :: "(nat \<Rightarrow> bool) \<Rightarrow> citation list \<Rightarrow> utext" where
  "render_references decimal cs = (if cs = [] then u ''## References'' @ lf @ lf @ u ''No external source was cited.'' @ lf
     else u ''## References'' @ lf @ lf @ join_cp lf (map (reference_row decimal) (zip [1..<Suc (length cs)] cs)) @ lf)"


section \<open>The document\<close>

definition render_executive_summary :: "(nat \<Rightarrow> bool) \<Rightarrow> incident_report \<Rightarrow> utext" where
  "render_executive_summary decimal r =
     (let hosts = map aa_hostname (ir_affected_assets r) in
      u (''Investigation '' @ ir_investigation_id r @ '' was assessed as **''
         @ (case ir_verdict r of Some v \<Rightarrow> verdict_value v | None \<Rightarrow> ''not assessed'') @ ''** with **''
         @ (case ir_severity r of Some s \<Rightarrow> severity_value s | None \<Rightarrow> ''unrated'') @ ''** severity.'')
      @ (if hosts = [] then u '' No affected asset could be identified from the available evidence.''
         else u ('' Activity was observed across '' @ show_nat (length hosts) @ '' asset(s): '')
           @ join_cp (u '', '') (map (\<lambda>h. escape_text decimal (u h) 60) (take 5 hosts))
           @ (if length hosts \<le> 5 then u ''.'' else u ('', and '' @ show_nat (length hosts - 5) @ '' more.'')))
      @ (if ir_cves r = [] then u '' No vulnerability was confirmed against these assets.''
         else u ('' '' @ show_nat (length (ir_cves r)) @ '' vulnerability finding(s) were confirmed against these assets.''))
      @ (if ir_caveats r = [] then u '' No limitations were recorded on the evidence supporting this report.''
         else u ('' This report carries '' @ show_nat (length (ir_caveats r)) @ '' stated limitation(s); see Caveats before acting on it.''))
      @ u ('' Overall confidence in these findings is '' @ percent (ir_confidence r)
         @ ''. All conclusions are analytical recommendations for human review; no action has been taken.''))"

definition rstrip_cp :: "utext \<Rightarrow> utext" where
  "rstrip_cp s = rev (dropWhile space_cp (rev s))"

definition render_technical_body :: "(nat \<Rightarrow> bool) \<Rightarrow> (time \<Rightarrow> string) \<Rightarrow> incident_report \<Rightarrow> utext" where
  "render_technical_body decimal isoformat r =
     (let numbers = citation_numbers (ir_citations r);
          parts = [u ''# '' @ escape_text decimal (u (ir_title r)) 120 @ lf, render_metadata decimal r, render_timeline decimal isoformat r,
            render_findings decimal r numbers, render_assets decimal r, render_indicators decimal r, render_techniques decimal r,
            render_vulnerabilities decimal r, render_caveats decimal r, render_references decimal (ir_citations r)] in
      rstrip_cp (join_cp lf (filter (\<lambda>p. p \<noteq> []) parts)) @ lf)"


section \<open>An escaped value stays in its cell\<close>

lemma collapse_cells_clean: "n \<in> set (collapse_cells s) \<Longrightarrow> \<not> cell_breaker n"
  by (induction s rule: collapse_cells.induct) (auto simp: cell_breaker_def split: if_splits list.splits)

lemma escape_structure_set: "n \<in> set (escape_structure decimal s) \<Longrightarrow> n \<in> set s \<or> n = 92"
  by (auto simp: escape_structure_def split: if_splits dest: set_takeWhileD set_dropWhileD)

lemma escape_text_clean: "n \<in> set (escape_text decimal t limit) \<Longrightarrow> \<not> cell_breaker n"
proof -
  assume "n \<in> set (escape_text decimal t limit)"
  then have "n \<in> set (escape_structure decimal (strip_cp (collapse_cells t))) \<or> n = ellipsis \<or> n = 8212"
    by (auto simp: escape_text_def Let_def split: if_splits dest: in_set_takeD)
  then have "n \<in> set (collapse_cells t) \<or> n = 92 \<or> n = ellipsis \<or> n = 8212"
    using escape_structure_set strip_cp_set by blast
  then show ?thesis using collapse_cells_clean[of n t] by (auto simp: cell_breaker_def ellipsis_def)
qed

lemma escape_cell_clean: "n \<in> set (escape_cell decimal v limit) \<Longrightarrow> \<not> cell_breaker n"
  by (auto simp: escape_cell_def cell_breaker_def split: if_splits dest: escape_text_clean[unfolded cell_breaker_def])

text \<open>What the pattern of a structural marker matches.\<close>

definition marker :: "(nat \<Rightarrow> bool) \<Rightarrow> utext \<Rightarrow> bool" where
  "marker decimal m = (m \<in> {[35], [62], [45], [42], [43]} \<or> (\<exists>ds. ds \<noteq> [] \<and> list_all (digit_cp decimal) ds \<and> m = ds @ [46]))"

lemma digit_not_special: "digit_cp decimal c \<Longrightarrow> \<not> space_cp c \<and> c \<notin> {35, 62, 45, 42, 43, 46, 92}"
  by (auto simp: digit_cp_def space_cp_def split: if_splits)

lemma marker_head: "marker decimal m \<Longrightarrow> \<exists>c m'. m = c # m' \<and> \<not> space_cp c \<and> c \<noteq> 92"
proof -
  assume "marker decimal m"
  then consider "m \<in> {[35], [62], [45], [42], [43]}" | ds where "ds \<noteq> []" "list_all (digit_cp decimal) ds" "m = ds @ [46]"
    unfolding marker_def by blast
  then show ?thesis
  proof cases
    case 1
    then show ?thesis by (auto simp: space_cp_def)
  next
    case 2
    then show ?thesis using digit_not_special by (cases ds) auto
  qed
qed

lemma marker_length_app: "marker decimal m \<Longrightarrow> marker_length decimal (m @ r) = length m"
proof -
  assume "marker decimal m"
  then consider "m \<in> {[35], [62], [45], [42], [43]}" | ds where "ds \<noteq> []" "list_all (digit_cp decimal) ds" "m = ds @ [46]"
    unfolding marker_def by blast
  then show ?thesis
  proof cases
    case 1
    then show ?thesis by (auto simp: marker_length_def)
  next
    case 2
    then obtain d ds' where ds: "ds = d # ds'" by (cases ds) auto
    have "\<not> digit_cp decimal 46" by (simp add: digit_cp_def)
    then have tw: "takeWhile (digit_cp decimal) (ds @ 46 # r) = ds" using 2(2) by (induction ds) auto
    have "d \<notin> {35, 62, 45, 42, 43}" using 2(2) ds digit_not_special[of decimal d] by auto
    with tw show ?thesis using 2(3) ds by (simp add: marker_length_def Let_def)
  qed
qed

lemma marker_length_pos: "0 < marker_length decimal r \<Longrightarrow> marker decimal (take (marker_length decimal r) r)"
proof (cases r)
  case (Cons c r')
  assume pos: "0 < marker_length decimal r"
  show ?thesis
  proof (cases "c \<in> {35, 62, 45, 42, 43}")
    case True
    then show ?thesis by (auto simp: marker_length_def marker_def Cons)
  next
    case False
    let ?ds = "takeWhile (digit_cp decimal) r"
    have k: "?ds \<noteq> []" "take 1 (drop (length ?ds) r) = [46]" "marker_length decimal r = length ?ds + 1"
      using pos False by (auto simp: marker_length_def Let_def Cons split: if_splits)
    have "take (length ?ds + 1) r = ?ds @ [46]" using k(2) by (metis take_add takeWhile_eq_take)
    moreover have "list_all (digit_cp decimal) ?ds" by (auto simp: list_all_iff dest: set_takeWhileD)
    ultimately show ?thesis using k by (auto simp: marker_def)
  qed
qed (simp add: marker_length_def)

lemma structural_iff: "structural decimal s \<longleftrightarrow> (\<exists>sp m c r. s = sp @ m @ c # r \<and> list_all space_cp sp \<and> marker decimal m \<and> space_cp c)"
proof
  assume a: "structural decimal s"
  let ?r = "dropWhile space_cp s" and ?sp = "takeWhile space_cp s"
  let ?k = "marker_length decimal ?r"
  from a obtain c r' where k: "0 < ?k" "drop ?k ?r = c # r'" "space_cp c" by (auto simp: structural_def Let_def split: list.splits)
  have "s = ?sp @ take ?k ?r @ c # r'" using k(2) by (metis append_take_drop_id takeWhile_dropWhile_id)
  moreover have "list_all space_cp ?sp" by (auto simp: list_all_iff dest: set_takeWhileD)
  ultimately show "\<exists>sp m c r. s = sp @ m @ c # r \<and> list_all space_cp sp \<and> marker decimal m \<and> space_cp c"
    using marker_length_pos[OF k(1)] k(3) by blast
next
  assume "\<exists>sp m c r. s = sp @ m @ c # r \<and> list_all space_cp sp \<and> marker decimal m \<and> space_cp c"
  then obtain sp m c r where s: "s = sp @ m @ c # r" "list_all space_cp sp" and m: "marker decimal m" and c: "space_cp c" by blast
  obtain d m' where d: "m = d # m'" "\<not> space_cp d" using marker_head[OF m] by blast
  have "dropWhile space_cp s = m @ c # r" using s(2) unfolding s(1) by (induction sp) (auto simp: d)
  then show "structural decimal s" using marker_length_app[OF m, of "c # r"] d c by (simp add: structural_def Let_def)
qed

lemma escape_structure_inert: "\<not> structural decimal (escape_structure decimal s)"
proof (cases "structural decimal s")
  case True
  have "\<not> space_cp 92" by (simp add: space_cp_def)
  then have "dropWhile space_cp (takeWhile space_cp s @ 92 # x) = 92 # x" for x by (induction s) auto
  moreover have "marker_length decimal (92 # x) = 0" for x by (simp add: marker_length_def digit_cp_def)
  ultimately show ?thesis using True by (simp add: escape_structure_def structural_def)
qed (simp add: escape_structure_def)

lemma truncated_inert:
  assumes "\<not> structural decimal t" shows "\<not> structural decimal (take n t @ [ellipsis])"
proof
  assume "structural decimal (take n t @ [ellipsis])"
  then obtain sp m c r where e: "take n t @ [ellipsis] = sp @ m @ c # r" and m: "list_all space_cp sp" "marker decimal m" "space_cp c"
    unfolding structural_iff by blast
  have "r \<noteq> []" using e m(3) by (auto simp: ellipsis_def space_cp_def)
  then obtain r' x where "r = r' @ [x]" by (cases r rule: rev_cases) auto
  with e have "take n t = sp @ m @ c # r'" by simp
  then have "t = sp @ m @ c # (r' @ drop n t)" by (metis append.assoc append_Cons append_take_drop_id)
  with m have "structural decimal t" unfolding structural_iff by blast
  with assms show False by simp
qed

text \<open>
  An escaped value stays in its cell: whatever text it is given, escaping yields at least one and at most the allowed number
  of characters, none of them a cell separator or a line break, and the text does not begin with a heading, quote or list marker.
\<close>
theorem escaped_cell_inert:
  "let t = escape_cell decimal v (Suc n) in
   t \<noteq> [] \<and> length t \<le> Suc n \<and> list_all (\<lambda>c. c \<notin> {124, 13, 10}) t \<and> \<not> structural decimal t"
proof -
  have dash: "\<not> structural decimal em_dash" by (simp add: structural_def marker_length_def space_cp_def Let_def digit_cp_def)
  have esc: "escape_text decimal x (Suc n) \<noteq> [] \<and> length (escape_text decimal x (Suc n)) \<le> Suc n \<and> \<not> structural decimal (escape_text decimal x (Suc n))" for x
  proof -
    let ?t = "escape_structure decimal (strip_cp (collapse_cells x))"
    have "\<not> structural decimal ?t" by (rule escape_structure_inert)
    then show ?thesis using truncated_inert[of decimal ?t n] dash by (auto simp: escape_text_def Let_def)
  qed
  show ?thesis using esc dash escape_cell_clean[of _ decimal v "Suc n"]
    by (auto simp: escape_cell_def cell_breaker_def list_all_iff Let_def)
qed


section \<open>The shape of a table depends on its rows only\<close>

definition count_cp :: "nat \<Rightarrow> utext \<Rightarrow> nat" where
  "count_cp n t = length (filter (\<lambda>c. c = n) t)"

lemma count_cp_append [simp]: "count_cp n (a @ b) = count_cp n a + count_cp n b"
  by (simp add: count_cp_def)

lemma count_cp_simps [simp]: "count_cp n [] = 0" "count_cp n (c # s) = of_bool (c = n) + count_cp n s"
  by (simp_all add: count_cp_def)

lemma count_cp_0: "n \<notin> set t \<Longrightarrow> count_cp n t = 0"
  by (auto simp: count_cp_def filter_empty_conv)

lemma count_cp_join: "count_cp n (join_cp sep ws) = sum_list (map (count_cp n) ws) + (length ws - 1) * count_cp n sep"
  by (induction sep ws rule: join_cp.induct) (simp_all add: algebra_simps)

definition cell_ok :: "utext \<Rightarrow> bool" where
  "cell_ok t = (count_cp 124 t = 0 \<and> count_cp 10 t = 0)"

lemma cell_ok_intros [simp]:
  "cell_ok (escape_text decimal t n)" "cell_ok (escape_cell decimal v n)" "cell_ok (ticked t) = cell_ok t"
  using escape_text_clean[of _ decimal t n] escape_cell_clean[of _ decimal v n]
  by (auto simp: cell_ok_def cell_breaker_def ticked_def intro!: count_cp_0)

lemma sum_zero: "(\<And>x. x \<in> set xs \<Longrightarrow> f x = (0 :: nat)) \<Longrightarrow> sum_list (map f xs) = 0"
  by (induction xs) auto

lemma table_row_shape:
  assumes "list_all cell_ok cells" "cells \<noteq> []"
  shows "count_cp 124 (table_row cells) = length cells + 1" "count_cp 10 (table_row cells) = 0"
  using assms sum_zero[of cells "count_cp 124"] sum_zero[of cells "count_cp 10"]
  by (auto simp: table_row_def count_cp_join cell_ok_def list_all_iff neq_Nil_conv)

lemma rows_shape:
  assumes "\<And>x. x \<in> set xs \<Longrightarrow> count_cp 124 (row x) = k \<and> count_cp 10 (row x) = 0" "xs \<noteq> []"
  shows "count_cp 124 (join_cp lf (map row xs)) = k * length xs" "count_cp 10 (join_cp lf (map row xs)) = length xs - 1"
proof -
  have "sum_list (map (count_cp 124) (map row xs)) = k * length xs" using assms(1) by (induction xs) auto
  then show "count_cp 124 (join_cp lf (map row xs)) = k * length xs" by (simp add: count_cp_join)
  have "sum_list (map (count_cp 10) (map row xs)) = 0" using assms(1) by (induction xs) auto
  then show "count_cp 10 (join_cp lf (map row xs)) = length xs - 1" by (simp add: count_cp_join)
qed

lemma count_u: "count_cp n (u s) = length (filter (\<lambda>c. cp c = n) s)"
  by (simp add: count_cp_def u_def filter_map o_def)

lemma digits_cell_ok: "cell_ok (u (show_nat n))"
  using show_nat_digits[of n] by (force simp: cell_ok_def count_u filter_empty_conv is_digit_def)

lemma table_shape:
  assumes "\<And>x. count_cp 124 (row x) = k \<and> count_cp 10 (row x) = 0" "xs \<noteq> []"
    and "count_cp 124 ttl = 0" "count_cp 124 h1 = k" "count_cp 10 h1 = 0" "count_cp 124 h2 = k" "count_cp 10 h2 = 0"
  shows "count_cp 124 (ttl @ lf @ lf @ h1 @ lf @ h2 @ lf @ join_cp lf (map row xs) @ lf) = k * (length xs + 2) \<and>
    count_cp 10 (ttl @ lf @ lf @ h1 @ lf @ h2 @ lf @ join_cp lf (map row xs) @ lf) = count_cp 10 ttl + length xs + 4"
proof -
  have "Suc (length xs - 1) = length xs" using assms(2) by (cases xs) auto
  then show ?thesis using assms rows_shape[of xs row k] by (simp add: algebra_simps)
qed

text \<open>C38: 
  Untrusted content cannot reshape the report's tables: in the timeline, asset, indicator, technique and vulnerability tables the number of
  lines and of cell separators is fixed by the number of rows, whatever the log messages, indicator values and CVE summaries
  contain. (The printed form of a time contains neither.)
\<close>
theorem tables_keep_their_shape:
  assumes "\<And>t. cell_ok (u (isoformat t))"
  shows "(ir_timeline r = [] \<or> (count_cp 124 (render_timeline decimal isoformat r) = 6 * (length (ir_timeline r) + 2)
        \<and> count_cp 10 (render_timeline decimal isoformat r) = length (ir_timeline r) + 4))
    \<and> (ir_affected_assets r = [] \<or> (count_cp 124 (render_assets decimal r) = 5 * (length (ir_affected_assets r) + 2)
        \<and> count_cp 10 (render_assets decimal r) = length (ir_affected_assets r) + 4))
    \<and> (ir_indicators r = [] \<or> (count_cp 124 (render_indicators decimal r) = 5 * (length (ir_indicators r) + 2)
        \<and> count_cp 10 (render_indicators decimal r) = length (ir_indicators r) + 6))
    \<and> (ir_techniques r = [] \<or> (count_cp 124 (render_techniques decimal r) = 5 * (length (ir_techniques r) + 2)
        \<and> count_cp 10 (render_techniques decimal r) = length (ir_techniques r) + 4))
    \<and> (ir_cves r = [] \<or> (count_cp 124 (render_vulnerabilities decimal r) = 5 * (length (ir_cves r) + 2)
        \<and> count_cp 10 (render_vulnerabilities decimal r) = length (ir_cves r) + 4))"
proof -
  have yes_no: "cell_ok (u (if b then ''yes'' else ''no''))" for b by (simp add: cell_ok_def count_u)
  have t: "count_cp 124 (timeline_row decimal isoformat e) = 6 \<and> count_cp 10 (timeline_row decimal isoformat e) = 0" for e
    unfolding timeline_row_def using assms by (simp add: table_row_shape)
  have a: "count_cp 124 (asset_row decimal e) = 5 \<and> count_cp 10 (asset_row decimal e) = 0" for e
    unfolding asset_row_def using yes_no digits_cell_ok by (simp add: table_row_shape)
  have i: "count_cp 124 (indicator_row decimal e) = 5 \<and> count_cp 10 (indicator_row decimal e) = 0" for e
    unfolding indicator_row_def by (simp add: table_row_shape)
  have q: "count_cp 124 (technique_row decimal e) = 5 \<and> count_cp 10 (technique_row decimal e) = 0" for e
    unfolding technique_row_def by (simp add: table_row_shape)
  have v: "count_cp 124 (vulnerability_row decimal e) = 5 \<and> count_cp 10 (vulnerability_row decimal e) = 0" for e
    unfolding vulnerability_row_def by (simp add: table_row_shape)
  have h: "count_cp 124 (u ''## Timeline'') = 0" "count_cp 10 (u ''## Timeline'') = 0"
    "count_cp 124 (u ''| Time (UTC) | Source | Event | Event ID | Raw record |'') = 6" "count_cp 10 (u ''| Time (UTC) | Source | Event | Event ID | Raw record |'') = 0"
    "count_cp 124 (u ''|---|---|---|---|---|'') = 6" "count_cp 10 (u ''|---|---|---|---|---|'') = 0"
    "count_cp 124 (u ''|---|---|---|---|'') = 5" "count_cp 10 (u ''|---|---|---|---|'') = 0"
    "count_cp 124 (u ''## Affected assets'') = 0" "count_cp 10 (u ''## Affected assets'') = 0"
    "count_cp 124 (u ''| Host | Business-critical | Events | Confirmed CVEs |'') = 5" "count_cp 10 (u ''| Host | Business-critical | Events | Confirmed CVEs |'') = 0"
    "count_cp 124 (u ''## Indicators of compromise'' @ lf @ lf @ u ''Values are defanged for safe handling.'') = 0"
    "count_cp 10 (u ''## Indicators of compromise'' @ lf @ lf @ u ''Values are defanged for safe handling.'') = 2"
    "count_cp 124 (u ''| Type | Indicator | Reputation | Asserted by |'') = 5" "count_cp 10 (u ''| Type | Indicator | Reputation | Asserted by |'') = 0"
    "count_cp 124 (u ''## Adversary techniques'') = 0" "count_cp 10 (u ''## Adversary techniques'') = 0"
    "count_cp 124 (u ''| ID | Name | Tactics | Why |'') = 5" "count_cp 10 (u ''| ID | Name | Tactics | Why |'') = 0"
    "count_cp 124 (u ''## Vulnerabilities'') = 0" "count_cp 10 (u ''## Vulnerabilities'') = 0"
    "count_cp 124 (u ''| CVE | CVSS | Applicability | Summary |'') = 5" "count_cp 10 (u ''| CVE | CVSS | Applicability | Summary |'') = 0"
    by (simp_all add: count_u)
  note ts = table_shape[of "timeline_row decimal isoformat" 6 "ir_timeline r", OF t _ h(1,3,4,5,6)]
    and as = table_shape[of "asset_row decimal" 5 "ir_affected_assets r", OF a _ h(9,11,12,7,8)]
    and inds = table_shape[of "indicator_row decimal" 5 "ir_indicators r", OF i _ h(13,15,16,7,8)]
    and qs = table_shape[of "technique_row decimal" 5 "ir_techniques r", OF q _ h(17,19,20,7,8)]
    and vs = table_shape[of "vulnerability_row decimal" 5 "ir_cves r", OF v _ h(21,23,24,7,8)]
  show ?thesis
    unfolding render_timeline_def render_assets_def render_indicators_def render_techniques_def render_vulnerabilities_def
    using ts as inds qs vs by (simp only: h append.assoc if_False split: if_split) auto
qed

definition sample_report :: incident_report where
  "sample_report = \<lparr>ir_investigation_id = ''i'', ir_title = ''t'', ir_status = Report_Draft, ir_executive_summary = [], ir_technical_body = [],
     ir_verdict = None, ir_severity = None,
     ir_timeline = [\<lparr>re_event_id = ''e'', re_occurred_at = 0, re_source_id = ''s'', re_summary = ''a | b'', re_notability = 1, re_raw_ref = None\<rparr>],
     ir_findings = [], ir_affected_assets = [], ir_indicators = [], ir_techniques = [], ir_cves = [], ir_caveats = [], ir_citations = [],
     ir_confidence = 0, ir_version = 1, ir_generated_from = []\<rparr>"

theorem tables_keep_their_shape_witness:
  "count_cp 124 (render_timeline (\<lambda>_. False) (\<lambda>_. ''now'') sample_report) = 18"
proof -
  have "cell_ok (u ''now'')" by (simp add: cell_ok_def count_u)
  then show ?thesis using tables_keep_their_shape[of "\<lambda>_. ''now''" sample_report "\<lambda>_. False"] by (simp add: sample_report_def)
qed

text \<open>Inside a fenced block no three backticks remain, so the block ends where the renderer ends it.\<close>

lemma replace_fences_head: "replace_fences s = 96 # y \<Longrightarrow> \<exists>s'. s = 96 # s'"
  by (cases s rule: replace_fences.cases) (auto split: if_splits)

lemma replace_fences_clean: "\<not> prefix fence_mark (drop k (replace_fences s))"
proof (induction s arbitrary: k rule: replace_fences.induct)
  case (1 a b c s)
  show ?case
  proof (cases "a = 96 \<and> b = 96 \<and> c = 96")
    case True
    have "k = 0 \<or> k = 1 \<or> k = 2 \<or> (\<exists>j. k = Suc (Suc (Suc j)))" by arith
    with True 1(1)[OF True] show ?thesis by (auto simp: fence_mark_def numeral_2_eq_2)
  next
    case False
    show ?thesis
    proof (cases k)
      case (Suc j)
      have "replace_fences (a # b # c # s) = a # replace_fences (b # c # s)" using False by auto
      then show ?thesis using 1(2)[OF False, of j] Suc by simp
    next
      case 0
      show ?thesis
      proof
        assume "prefix fence_mark (drop k (replace_fences (a # b # c # s)))"
        then obtain y where a: "a = 96" and y: "replace_fences (b # c # s) = 96 # 96 # y"
          using False 0 by (auto simp: fence_mark_def prefix_def)
        then have b: "b = 96" using replace_fences_head[of "b # c # s"] by blast
        then have "c \<noteq> 96" using a False by simp
        with y b have "replace_fences (c # s) = 96 # y" by (cases s) (auto simp del: replace_fences.simps(1) simp: replace_fences.simps(1)[of 96 c])
        with \<open>c \<noteq> 96\<close> show False using replace_fences_head[of "c # s"] by blast
      qed
    qed
  qed
qed (auto simp: fence_mark_def prefix_def drop_Cons')

text \<open>
  A finding's detail can open a code fence: escaping leaves backticks alone, and the detail stands at the beginning of a line of its own,
  so a CVE summary that begins with three backticks is rendered as the start of a fence, and everything after it,
  the caveats included, becomes part of the code block.
\<close>
theorem detail_opens_fence:
  "sublist (lf @ fence_mark) (render_findings decimal (sample_report\<lparr>ir_findings := [\<lparr>fi_section = Sec_Vulnerability, fi_title = ''C1 confirmed applicable'',
      fi_detail = map char_of [96, 96, 96 :: nat], fi_support = no_finding_support\<lparr>fs_cve_ids := [''C1'']\<rparr>, fi_confidence = 1, fi_citations = []\<rparr>]\<rparr>) (\<lambda>_. None))"
proof -
  let ?f = "\<lparr>fi_section = Sec_Vulnerability, fi_title = ''C1 confirmed applicable'',
      fi_detail = map char_of [96, 96, 96 :: nat], fi_support = no_finding_support\<lparr>fs_cve_ids := [''C1'']\<rparr>, fi_confidence = 1, fi_citations = []\<rparr>"
  have esc: "escape_text decimal (u (map char_of [96, 96, 96 :: nat])) 2000 = fence_mark"
    by (simp add: escape_text_def Let_def u_def cell_breaker_def strip_cp_def space_cp_def escape_structure_def structural_def marker_length_def digit_cp_def fence_mark_def)
  obtain a b where "finding_blocks decimal (\<lambda>_. None) ?f = [a, [], fence_mark, [], b, []]"
    unfolding finding_blocks_def report_finding.simps esc by blast
  then have "render_findings decimal (sample_report\<lparr>ir_findings := [?f]\<rparr>) (\<lambda>_. None) =
      (u ''## Findings'' @ lf @ lf @ a @ lf) @ (lf @ fence_mark) @ (lf @ lf @ b @ lf)"
    by (simp add: render_findings_def)
  then show ?thesis unfolding sublist_def by blast
qed

end
