(* ===== verification/Remediation.thy ===== *)
theory Remediation
  imports Feeds Severity Attack
begin

text \<open>
  The remediation catalogue (\<^verbatim>\<open>tools/remediation.py\<close>) and the remediation contracts it shares with the Patch
  Recommender (\<^verbatim>\<open>models/remediation.py\<close>). The catalogue is pinned: mitigations, templates and the two tables that
  take an observed technique or a weakness class to a template. What is shown is that the tables are closed (every
  entry resolves, to guidance of the promised grounding with sources to cite) and what each builder can return.
\<close>

section \<open>Contracts\<close>

datatype recommendation_type = Rt_Patch | Rt_Configuration | Rt_Mitigation | Rt_Other

datatype approval_status = Ap_Pending | Ap_Approved | Ap_Rejected | Ap_Edited

datatype remediation_confidence = Vendor_Specific | Class_Specific | Generic

record remediation_support =
  su_cve_ids :: "string list"
  su_technique_ids :: "string list"
  su_signal_rule_ids :: "string list"
  su_cwe_ids :: "string list"

definition no_support :: remediation_support where
  "no_support = \<lparr>su_cve_ids = [], su_technique_ids = [], su_signal_rule_ids = [], su_cwe_ids = []\<rparr>"

definition support_is_empty :: "remediation_support \<Rightarrow> bool" where
  "support_is_empty s = (\<not> (su_cve_ids s \<noteq> [] \<or> su_technique_ids s \<noteq> [] \<or> su_signal_rule_ids s \<noteq> [] \<or> su_cwe_ids s \<noteq> []))"

record recommendation =
  rc_action :: string
  rc_type :: recommendation_type
  rc_priority :: triage_priority
  rc_risk :: risk_score
  rc_rationale :: string
  rc_expected_impact :: "string option"
  rc_steps :: "string list"
  rc_verification :: "string option"
  rc_targets :: "string list"
  rc_support :: remediation_support
  rc_grounding :: remediation_confidence
  rc_citations :: "citation list"
  rc_requires_human_approval :: bool
  rc_approval_status :: approval_status

text \<open>The two validators of \<^verbatim>\<open>RemediationRecommendation\<close>, with the \<^verbatim>\<open>Literal[True]\<close> field: a record that fails one raises.\<close>

definition contract_ok :: "recommendation \<Rightarrow> bool" where
  "contract_ok r = (strip (rc_rationale r) \<noteq> [] \<and> rc_citations r \<noteq> [] \<and> rc_requires_human_approval r
     \<and> rc_approval_status r = Ap_Pending)"

definition checked :: "recommendation \<Rightarrow> py_error + recommendation" where
  "checked r = (if contract_ok r then Inr r else Inl Value_Error)"


section \<open>Mitigations\<close>

record mitigation =
  mi_id :: string
  mi_name :: string

definition mitigation_url :: "mitigation \<Rightarrow> string" where
  "mitigation_url m = ''https://attack.mitre.org/mitigations/'' @ mi_id m @ ''/''"

definition mitigation_citation :: "mitigation \<Rightarrow> citation" where
  "mitigation_citation m = \<lparr>cit_source_id = ''mitre_attack'', cit_source = ''MITRE ATT&CK'', cit_url = Some (mitigation_url m),
     cit_chunk_id = None, cit_title = Some (mi_id m @ '' -- '' @ mi_name m), cit_trust_tier = Some Authoritative,
     cit_published_at = None\<rparr>"

definition mitigation_names :: "(string \<times> string) list" where
  "mitigation_names = [(''M1013'', ''Application Developer Guidance''), (''M1018'', ''User Account Management''),
     (''M1022'', ''Restrict File and Directory Permissions''), (''M1026'', ''Privileged Account Management''),
     (''M1027'', ''Password Policies''), (''M1029'', ''Remote Data Storage''),
     (''M1030'', ''Network Segmentation''), (''M1032'', ''Multi-factor Authentication''),
     (''M1037'', ''Filter Network Traffic''), (''M1038'', ''Execution Prevention''),
     (''M1042'', ''Disable or Remove Feature or Program''), (''M1047'', ''Audit''),
     (''M1049'', ''Antivirus/Antimalware''), (''M1051'', ''Update Software''),
     (''M1054'', ''Software Configuration'')]"


definition MITIGATIONS :: "(string, mitigation) dict" where
  "MITIGATIONS = map (\<lambda>(i, n). (i, \<lparr>mi_id = i, mi_name = n\<rparr>)) mitigation_names"


section \<open>Templates\<close>

record remediation_template =
  rt_id :: string
  rt_action :: string
  rt_type :: recommendation_type
  rt_rationale :: string
  rt_expected_impact :: string
  rt_steps :: "string list"
  rt_verification :: string
  rt_grounding :: remediation_confidence
  rt_mitigation_ids :: "string list"
  rt_extra_citations :: "citation list"

definition baseline_citation :: citation where
  "baseline_citation = \<lparr>cit_source_id = ''internal_baseline'', cit_source = ''Internal remediation baseline'', cit_url = None,
     cit_chunk_id = None, cit_title = Some ''Conservative hardening guidance (no product-specific advisory available)'',
     cit_trust_tier = Some Internal, cit_published_at = None\<rparr>"

text \<open>\<^verbatim>\<open>citation.url or citation.title or citation.source_id\<close>.\<close>

definition citation_key :: "citation \<Rightarrow> string" where
  "citation_key c = or_empty (or_else (cit_url c) (or_else (cit_title c) (Some (cit_source_id c))))"

definition unique_citations :: "citation list \<Rightarrow> citation list" where
  "unique_citations cs = dedup_by citation_key [] cs"

definition template_citations :: "remediation_template \<Rightarrow> citation list" where
  "template_citations t =
     (let found = map mitigation_citation (List.map_filter (map_of MITIGATIONS) (rt_mitigation_ids t)) @ rt_extra_citations t in
      unique_citations (if found = [] then [baseline_citation] else found))"

definition credential_attack_controls :: remediation_template where
  "credential_attack_controls = \<lparr>rt_id = ''credential_attack_controls'',
     rt_action = ''Harden authentication on the affected accounts and hosts'',
     rt_type = Rt_Configuration,
     rt_rationale = ''Repeated authentication attempts against a single principal indicate credential guessing; rate limiting and a second factor remove the attacker's ability to keep trying.'',
     rt_expected_impact = ''Guessing attacks fail before they succeed. Users without an enrolled second factor will be interrupted at next sign-in.'',
     rt_steps = [''Reset the credentials of every account named in the timeline.'',
       ''Require multi-factor authentication for those accounts.'',
       ''Enable account lockout or progressive delay on repeated failures.'',
       ''Review whether the source addresses should reach this service at all.''],
     rt_verification = ''Confirm authentication failures for the named principals stop, and that a test sign-in is challenged for a second factor.'',
     rt_grounding = Class_Specific, rt_mitigation_ids = [''M1032'', ''M1027'', ''M1018''], rt_extra_citations = []\<rparr>"

definition account_privilege_review :: remediation_template where
  "account_privilege_review = \<lparr>rt_id = ''account_privilege_review'',
     rt_action = ''Review the account and privilege changes observed'',
     rt_type = Rt_Mitigation,
     rt_rationale = ''Accounts created or elevated during an incident are a common persistence route, and one that survives the original entry point being closed.'',
     rt_expected_impact = ''Attacker-created access is removed. Legitimate changes made in the same window will need re-approving.'',
     rt_steps = [''List accounts created or modified in the incident window and confirm each with its owner.'',
       ''Remove group memberships that were not requested through change control.'',
       ''Rotate credentials for any privileged account involved.''],
     rt_verification = ''Confirm the privileged group membership matches the approved baseline.'',
     rt_grounding = Class_Specific, rt_mitigation_ids = [''M1026'', ''M1018''], rt_extra_citations = []\<rparr>"

definition script_execution_controls :: remediation_template where
  "script_execution_controls = \<lparr>rt_id = ''script_execution_controls'',
     rt_action = ''Constrain script and interpreter execution on the affected hosts'',
     rt_type = Rt_Configuration,
     rt_rationale = ''Obfuscated or hidden interpreter invocations are deliberate concealment; execution policy and script logging remove both the capability and the attacker's ability to work unobserved.'',
     rt_expected_impact = ''Unsigned and encoded scripts stop running. Administrative automation that relies on unsigned scripts will need signing or an explicit exemption.'',
     rt_steps = [''Enable script block and module logging so future invocations are recorded in full.'',
       ''Apply an execution policy or allow-list that blocks unsigned scripts.'',
       ''Review scheduled tasks and services for the same command line.''],
     rt_verification = ''Confirm a test encoded invocation is blocked and appears in the script log.'',
     rt_grounding = Class_Specific, rt_mitigation_ids = [''M1038'', ''M1042'', ''M1047''], rt_extra_citations = []\<rparr>"

definition persistence_review :: remediation_template where
  "persistence_review = \<lparr>rt_id = ''persistence_review'',
     rt_action = ''Review services, scheduled tasks, and startup entries on the affected hosts'',
     rt_type = Rt_Mitigation,
     rt_rationale = ''Services and scheduled jobs created during an incident survive reboots and credential resets, so closing the entry point alone does not end the access.'',
     rt_expected_impact = ''Attacker persistence is removed. Legitimate jobs created in the same window will need confirming with their owners.'',
     rt_steps = [''Compare installed services and scheduled tasks against a known-good baseline.'',
       ''Remove entries that cannot be attributed to an approved change.'',
       ''Re-check after reboot, since some persistence re-creates itself.''],
     rt_verification = ''Confirm the service and task inventory matches the baseline after a reboot.'',
     rt_grounding = Class_Specific, rt_mitigation_ids = [''M1047'', ''M1022''], rt_extra_citations = []\<rparr>"

definition log_integrity :: remediation_template where
  "log_integrity = \<lparr>rt_id = ''log_integrity'',
     rt_action = ''Restore and protect the audit trail'',
     rt_type = Rt_Configuration,
     rt_rationale = ''Cleared logs destroy the record this and every future investigation depends on. Forwarding logs off-host puts them beyond the reach of whoever holds the host.'',
     rt_expected_impact = ''Future activity remains reconstructable even if a host is fully compromised. Log storage and forwarding volume will increase.'',
     rt_steps = [''Forward security logs to a remote collector the host cannot modify.'',
       ''Restrict log-clearing rights to a small, audited set of accounts.'',
       ''Alert on log-clearing events themselves.''],
     rt_verification = ''Confirm a test log-clearing event is alerted on and the remote copy survives.'',
     rt_grounding = Class_Specific, rt_mitigation_ids = [''M1029'', ''M1047'', ''M1022''], rt_extra_citations = []\<rparr>"

definition restore_security_tooling :: remediation_template where
  "restore_security_tooling = \<lparr>rt_id = ''restore_security_tooling'',
     rt_action = ''Restore the disabled security tooling and alert on future changes'',
     rt_type = Rt_Configuration,
     rt_rationale = ''Endpoint protection and auditing were turned off. Until they are restored the host is both undefended and unobserved.'',
     rt_expected_impact = ''Detection coverage returns on the affected host.'',
     rt_steps = [''Re-enable endpoint protection, auditing, and the host firewall.'',
       ''Confirm the tooling reports healthy to its management console.'',
       ''Alert on future attempts to disable it.''],
     rt_verification = ''Confirm the management console shows the agent healthy and reporting.'',
     rt_grounding = Class_Specific, rt_mitigation_ids = [''M1049'', ''M1047''], rt_extra_citations = []\<rparr>"

definition egress_controls :: remediation_template where
  "egress_controls = \<lparr>rt_id = ''egress_controls'',
     rt_action = ''Review and restrict outbound access from the affected hosts'',
     rt_type = Rt_Configuration,
     rt_rationale = ''Repeated contact with an external destination is the shape of command and control as well as of ordinary polling; egress filtering makes the difference visible and cuts the channel if it is the former.'',
     rt_expected_impact = ''Unapproved outbound destinations become unreachable. Legitimate integrations must be allow-listed first, so this needs a change window.'',
     rt_steps = [''Confirm with the service owner whether the destination is expected.'',
       ''If it is not, block it at the egress point and hunt for the same destination elsewhere.'',
       ''Move toward a default-deny egress policy for this network segment.''],
     rt_verification = ''Confirm the destination is unreachable from the segment and no service broke.'',
     rt_grounding = Class_Specific, rt_mitigation_ids = [''M1037'', ''M1030''], rt_extra_citations = []\<rparr>"

definition remote_access_review :: remediation_template where
  "remote_access_review = \<lparr>rt_id = ''remote_access_review'',
     rt_action = ''Review remote administration access to the affected hosts'',
     rt_type = Rt_Configuration,
     rt_rationale = ''Remote execution and remote desktop are how lateral movement happens once a single host is held; limiting who may reach them limits how far an intrusion travels.'',
     rt_expected_impact = ''Remote administration is reachable only from approved sources. Ad-hoc administrative access from arbitrary hosts will stop working.'',
     rt_steps = [''Restrict remote administration ports to a jump host or management network.'',
       ''Require multi-factor authentication for remote administrative sessions.'',
       ''Review which accounts hold remote logon rights.''],
     rt_verification = ''Confirm remote administration is refused from a non-management address.'',
     rt_grounding = Class_Specific, rt_mitigation_ids = [''M1030'', ''M1032'', ''M1026''], rt_extra_citations = []\<rparr>"

definition untrusted_input_handling :: remediation_template where
  "untrusted_input_handling = \<lparr>rt_id = ''untrusted_input_handling'',
     rt_action = ''Fix the unsafe handling of untrusted input in the affected component'',
     rt_type = Rt_Patch,
     rt_rationale = ''The weakness class behind this vulnerability is untrusted input reaching an interpreter, a parser, or a deserializer. Until that path is closed, the same class of bug recurs with each new payload.'',
     rt_expected_impact = ''The vulnerable input path is closed. Application changes require testing before release.'',
     rt_steps = [''Apply the vendor fix if one exists; otherwise disable the affected feature.'',
       ''Validate and constrain the input at the boundary rather than deep in the call stack.'',
       ''Add a regression test reproducing the original payload.''],
     rt_verification = ''Confirm the original payload no longer reaches the vulnerable code path.'',
     rt_grounding = Class_Specific, rt_mitigation_ids = [''M1051'', ''M1013''], rt_extra_citations = []\<rparr>"

definition access_control_fix :: remediation_template where
  "access_control_fix = \<lparr>rt_id = ''access_control_fix'',
     rt_action = ''Correct the access control on the affected component'',
     rt_type = Rt_Configuration,
     rt_rationale = ''The weakness class behind this vulnerability is a missing or incorrect authorization check, so the exposure is not limited to the path that was found.'',
     rt_expected_impact = ''Unauthorized access is refused. Callers relying on the gap will start failing, which is the intended outcome but needs communicating.'',
     rt_steps = [''Apply the vendor fix if one exists.'',
       ''Audit the surrounding endpoints or objects for the same missing check.'',
       ''Restrict permissions on the affected resource to the roles that need it.''],
     rt_verification = ''Confirm an unauthorized caller is refused on the affected path.'',
     rt_grounding = Class_Specific, rt_mitigation_ids = [''M1022'', ''M1026'', ''M1051''], rt_extra_citations = []\<rparr>"

definition generic_hardening :: remediation_template where
  "generic_hardening = \<lparr>rt_id = ''generic_hardening'',
     rt_action = ''Apply conservative hardening to the affected assets'',
     rt_type = Rt_Mitigation,
     rt_rationale = ''No product-specific remediation was available for this finding, so this is general hardening rather than a fix. It reduces exposure while the specific remediation is identified.'',
     rt_expected_impact = ''Reduced exposure without addressing the underlying cause. The specific fix is still required.'',
     rt_steps = [''Confirm the affected software is on a supported, fully patched release.'',
       ''Restrict network reachability of the affected service to what it needs.'',
       ''Increase logging on the affected hosts until the specific remediation is applied.'',
       ''Track this item until product-specific guidance is available.''],
     rt_verification = ''Confirm patch level and reachability match the intended baseline.'',
     rt_grounding = Generic, rt_mitigation_ids = [], rt_extra_citations = []\<rparr>"


definition catalogued :: "remediation_template list" where
  "catalogued = [credential_attack_controls, account_privilege_review, script_execution_controls, persistence_review,
     log_integrity, restore_security_tooling, egress_controls, remote_access_review,
     untrusted_input_handling, access_control_fix, generic_hardening]"

definition TEMPLATES :: "(string, remediation_template) dict" where
  "TEMPLATES = map (\<lambda>t. (rt_id t, t)) catalogued"

definition TECHNIQUE_TEMPLATES :: "(string, string) dict" where
  "TECHNIQUE_TEMPLATES = [(''T1021'', ''remote_access_review''), (''T1027'', ''script_execution_controls''), (''T1041'', ''egress_controls''),
     (''T1053'', ''persistence_review''), (''T1059'', ''script_execution_controls''), (''T1059.001'', ''script_execution_controls''),
     (''T1068'', ''account_privilege_review''), (''T1070'', ''log_integrity''), (''T1070.001'', ''log_integrity''),
     (''T1071'', ''egress_controls''), (''T1078'', ''credential_attack_controls''), (''T1098'', ''account_privilege_review''),
     (''T1105'', ''egress_controls''), (''T1110'', ''credential_attack_controls''), (''T1136'', ''account_privilege_review''),
     (''T1218'', ''script_execution_controls''), (''T1543'', ''persistence_review''), (''T1548'', ''account_privilege_review''),
     (''T1562'', ''restore_security_tooling''), (''T1569'', ''persistence_review'')]"

definition WEAKNESS_TEMPLATES :: "(string, string) dict" where
  "WEAKNESS_TEMPLATES = [(''CWE-20'', ''untrusted_input_handling''), (''CWE-22'', ''untrusted_input_handling''), (''CWE-77'', ''untrusted_input_handling''),
     (''CWE-78'', ''untrusted_input_handling''), (''CWE-79'', ''untrusted_input_handling''), (''CWE-89'', ''untrusted_input_handling''),
     (''CWE-94'', ''untrusted_input_handling''), (''CWE-502'', ''untrusted_input_handling''), (''CWE-611'', ''untrusted_input_handling''),
     (''CWE-918'', ''untrusted_input_handling''), (''CWE-1321'', ''untrusted_input_handling''), (''CWE-269'', ''access_control_fix''),
     (''CWE-287'', ''access_control_fix''), (''CWE-306'', ''access_control_fix''), (''CWE-732'', ''access_control_fix''),
     (''CWE-798'', ''access_control_fix''), (''CWE-862'', ''access_control_fix''), (''CWE-863'', ''access_control_fix'')]"

section \<open>Choosing guidance\<close>

definition by_table :: "(string, string) dict \<Rightarrow> string \<Rightarrow> remediation_template option" where
  "by_table tab i = (case map_of tab (upper i) of None \<Rightarrow> None | Some t \<Rightarrow> map_of TEMPLATES t)"

definition for_technique :: "string \<Rightarrow> remediation_template option" where
  "for_technique i = by_table TECHNIQUE_TEMPLATES i"

definition for_weakness :: "string \<Rightarrow> remediation_template option" where
  "for_weakness i = by_table WEAKNESS_TEMPLATES i"

definition generic_guidance :: remediation_template where
  "generic_guidance = the (map_of TEMPLATES ''generic_hardening'')"

text \<open>The arguments \<^verbatim>\<open>product\<close> and \<^verbatim>\<open>fixed_version\<close> are tested for truth, so an empty text counts as absent.\<close>

definition patch_guidance ::
  "string \<Rightarrow> string option \<Rightarrow> string option \<Rightarrow> string list \<Rightarrow> citation option \<Rightarrow> remediation_template" where
  "patch_guidance cve product fixed_version references advisory_cit =
     (let subject = or_empty (or_else product (Some ''the affected component''));
          fixed = truthy fixed_version;
          version = or_empty fixed_version;
          target = (if fixed then '' to '' @ version @ '' or later'' else []) in
      \<lparr>rt_id = ''patch:'' @ cve,
       rt_action = ''Patch '' @ cve @ '' on '' @ subject @ target,
       rt_type = Rt_Patch,
       rt_rationale = cve @ '' was confirmed applicable to assets in this investigation. ''
         @ (if fixed then ''The vendor has published a fixed release ('' @ version @ ''), so the exposure can be removed rather than only reduced.''
            else ''No fixed release was identified, so the advisory must be consulted for the current remediation.''),
       rt_expected_impact = ''The vulnerability is removed from the upgraded hosts. Upgrading requires a service restart and a change window.'',
       rt_steps = [''Identify every host running '' @ subject @ '' and record its current version.'',
         (if fixed then ''Upgrade '' @ subject @ target @ '' in a change window, starting with internet-facing hosts.''
          else ''Consult the referenced advisory for the fixed release of '' @ subject @ ''.''),
         ''Restart the affected services so the new version is actually loaded.'']
         @ (if fixed then [] else [''If no fixed release exists yet, apply the vendor's interim mitigation and track the advisory for updates.'']),
       rt_verification = ''Confirm the deployed version of '' @ subject @ '' is'' @ (if target = [] then '' the fixed release'' else target)
         @ '' on every affected host.'',
       rt_grounding = (if fixed then Vendor_Specific else Class_Specific),
       rt_mitigation_ids = [''M1051''],
       rt_extra_citations = (case advisory_cit of None \<Rightarrow> [] | Some c \<Rightarrow> [c])
         @ map (\<lambda>u. \<lparr>cit_source_id = ''vendor_advisories'', cit_source = ''Vendor advisory'', cit_url = Some u, cit_chunk_id = None,
             cit_title = None, cit_trust_tier = None, cit_published_at = None\<rparr>) (take 3 references)\<rparr>)"


section \<open>What the catalogue can return\<close>

lemma strip_by_Nil_iff: "strip_by p s = [] \<longleftrightarrow> list_all p s"
proof -
  have "strip_by p s = [] \<longleftrightarrow> list_all p (dropWhile p s)" by (simp add: strip_by_def list_all_iff)
  also have "\<dots> \<longleftrightarrow> list_all p s"
    by (induction s) auto
  finally show ?thesis .
qed

lemma unique_citations_facts:
  "set (unique_citations cs) \<subseteq> set cs" "unique_citations cs = [] \<longleftrightarrow> cs = []"
  "citation_key ` set (unique_citations cs) = citation_key ` set cs"
proof -
  show keys: "citation_key ` set (unique_citations cs) = citation_key ` set cs"
    using dedup_by_keys[of citation_key "[]" cs] by (simp add: unique_citations_def)
  show "set (unique_citations cs) \<subseteq> set cs" by (simp add: unique_citations_def dedup_by_subset)
  show "unique_citations cs = [] \<longleftrightarrow> cs = []" using keys by (metis image_is_empty set_empty)
qed

lemma template_citations_nonempty [simp]: "template_citations t \<noteq> []"
  by (simp add: template_citations_def Let_def unique_citations_facts)

text \<open>The properties of a template that the agent relies on, over the catalogue.\<close>

definition catalogue_entry_ok :: "remediation_template \<Rightarrow> bool" where
  "catalogue_entry_ok t = (\<not> list_all is_space (rt_rationale t) \<and> rt_action t \<noteq> [] \<and> rt_steps t \<noteq> []
     \<and> list_all (\<lambda>m. map_of MITIGATIONS m \<noteq> None) (rt_mitigation_ids t)
     \<and> (rt_grounding t = Generic) = (rt_mitigation_ids t = []))"


lemmas template_defs = credential_attack_controls_def account_privilege_review_def script_execution_controls_def persistence_review_def
  log_integrity_def restore_security_tooling_def egress_controls_def remote_access_review_def untrusted_input_handling_def
  access_control_fix_def generic_hardening_def

lemma not_blank: "c \<in> set s \<Longrightarrow> \<not> is_space c \<Longrightarrow> \<not> list_all is_space s"
  by (auto simp: list_all_iff)

lemma mitigations_known:
  "list_all (\<lambda>m. map_of MITIGATIONS m \<noteq> None)
     [''M1013'', ''M1018'', ''M1022'', ''M1026'', ''M1027'', ''M1029'', ''M1030'', ''M1032'', ''M1037'', ''M1038'', ''M1042'', ''M1047'', ''M1049'', ''M1051'']"
  by (simp add: MITIGATIONS_def mitigation_names_def)

lemma TEMPLATES_at:
  "map_of TEMPLATES ''credential_attack_controls'' = Some credential_attack_controls"
  "map_of TEMPLATES ''account_privilege_review'' = Some account_privilege_review"
  "map_of TEMPLATES ''script_execution_controls'' = Some script_execution_controls"
  "map_of TEMPLATES ''persistence_review'' = Some persistence_review"
  "map_of TEMPLATES ''log_integrity'' = Some log_integrity"
  "map_of TEMPLATES ''restore_security_tooling'' = Some restore_security_tooling"
  "map_of TEMPLATES ''egress_controls'' = Some egress_controls"
  "map_of TEMPLATES ''remote_access_review'' = Some remote_access_review"
  "map_of TEMPLATES ''untrusted_input_handling'' = Some untrusted_input_handling"
  "map_of TEMPLATES ''access_control_fix'' = Some access_control_fix"
  "map_of TEMPLATES ''generic_hardening'' = Some generic_hardening"
  by (simp_all add: TEMPLATES_def catalogued_def template_defs)

lemma generic_guidance_is: "generic_guidance = generic_hardening"
  by (simp add: generic_guidance_def TEMPLATES_at)

lemma catalogue_ok: "list_all catalogue_entry_ok catalogued"
  by (simp add: catalogued_def catalogue_entry_ok_def template_defs is_space_def MITIGATIONS_def mitigation_names_def)

text \<open>The two tables are closed: a listed identifier always resolves, to guidance of its class.\<close>

lemma by_table_image:
  assumes "by_table tab i = Some t" shows "t \<in> {t. \<exists>n \<in> set (map snd tab). map_of TEMPLATES n = Some t}"
proof -
  from assms obtain n where "map_of tab (upper i) = Some n" "map_of TEMPLATES n = Some t"
    by (auto simp: by_table_def split: option.splits)
  then show ?thesis by (auto dest!: map_of_SomeD[of tab] intro: bexI[of _ "(upper i, n)"])
qed

lemma technique_targets: "set (map snd TECHNIQUE_TEMPLATES) =
    {''remote_access_review'', ''script_execution_controls'', ''egress_controls'', ''persistence_review'',
     ''account_privilege_review'', ''log_integrity'', ''credential_attack_controls'', ''restore_security_tooling''}"
  unfolding TECHNIQUE_TEMPLATES_def by (simp add: insert_commute) 

lemma weakness_targets: "set (map snd WEAKNESS_TEMPLATES) = {''untrusted_input_handling'', ''access_control_fix''}"
  unfolding WEAKNESS_TEMPLATES_def by simp

lemma for_technique_cases:
  assumes "for_technique i = Some t"
  shows "t \<in> {remote_access_review, script_execution_controls, egress_controls, persistence_review,
     account_privilege_review, log_integrity, credential_attack_controls, restore_security_tooling}"
  using by_table_image[OF assms[unfolded for_technique_def]]
  unfolding mem_Collect_eq technique_targets by (auto simp: TEMPLATES_at)

lemma for_weakness_cases:
  assumes "for_weakness i = Some t" shows "t \<in> {untrusted_input_handling, access_control_fix}"
  using by_table_image[OF assms[unfolded for_weakness_def]]
  unfolding mem_Collect_eq weakness_targets by (auto simp: TEMPLATES_at)

text \<open>Technique guidance is class-specific and never a patch; the generic template is the only one labelled generic.\<close>

lemma for_technique_guidance:
  assumes "for_technique i = Some t"
  shows "rt_grounding t = Class_Specific" "rt_type t \<noteq> Rt_Patch" "\<not> list_all is_space (rt_rationale t)"
proof -
  note t = for_technique_cases[OF assms]
  show "rt_grounding t = Class_Specific" "rt_type t \<noteq> Rt_Patch" using t by (auto simp: template_defs)
  have "set [remote_access_review, script_execution_controls, egress_controls, persistence_review,
     account_privilege_review, log_integrity, credential_attack_controls, restore_security_tooling] \<subseteq> set catalogued"
    by (simp add: catalogued_def)
  with t have "t \<in> set catalogued" by auto
  then show "\<not> list_all is_space (rt_rationale t)" using catalogue_ok by (auto simp: list_all_iff catalogue_entry_ok_def)
qed

lemma generic_guidance_facts:
  "rt_grounding generic_guidance = Generic" "rt_type generic_guidance = Rt_Mitigation"
  "\<not> list_all is_space (rt_rationale generic_guidance)"
  "template_citations generic_guidance = [baseline_citation]"
proof -
  show "rt_grounding generic_guidance = Generic" "rt_type generic_guidance = Rt_Mitigation"
    by (simp_all add: generic_guidance_is generic_hardening_def)
  have "generic_guidance \<in> set catalogued" by (simp add: generic_guidance_is catalogued_def)
  then show "\<not> list_all is_space (rt_rationale generic_guidance)" using catalogue_ok by (auto simp: list_all_iff catalogue_entry_ok_def)
  show "template_citations generic_guidance = [baseline_citation]"
    by (simp add: generic_guidance_is generic_hardening_def template_citations_def unique_citations_def List.map_filter_simps)
qed

text \<open>Patch guidance names a version exactly when it was given one, and is vendor-specific exactly then.\<close>

lemma patch_guidance_facts:
  "rt_type (patch_guidance cve p v refs c) = Rt_Patch"
  "rt_grounding (patch_guidance cve p v refs c) = (if truthy v then Vendor_Specific else Class_Specific)"
  "\<not> list_all is_space (rt_rationale (patch_guidance cve p v refs c))"
  "prefix (''Patch '' @ cve @ '' on '') (rt_action (patch_guidance cve p v refs c))"
  by (simp_all add: patch_guidance_def Let_def is_space_def)

lemma technique_keys: "set (map fst TECHNIQUE_TEMPLATES) = td_id ` set CATALOGUE"
  by (simp add: TECHNIQUE_TEMPLATES_def CATALOGUE_def insert_commute)

lemma table_complete:
  assumes "list_all (\<lambda>(i, n). map_of TEMPLATES n \<noteq> None) tab"
  shows "by_table tab i \<noteq> None \<longleftrightarrow> upper i \<in> set (map fst tab)"
proof (cases "map_of tab (upper i)")
  case None
  then have "upper i \<notin> set (map fst tab)" by (simp add: map_of_eq_None_iff)
  with None show ?thesis by (simp add: by_table_def)
next
  case (Some n)
  then have mem: "(upper i, n) \<in> set tab" by (rule map_of_SomeD)
  with assms have "map_of TEMPLATES n \<noteq> None" by (auto simp: list_all_iff)
  with Some mem show ?thesis by (force simp: by_table_def)
qed

lemma technique_table_resolves: "list_all (\<lambda>(i, n). map_of TEMPLATES n \<noteq> None) TECHNIQUE_TEMPLATES"
  by (simp add: TECHNIQUE_TEMPLATES_def TEMPLATES_at)

lemma weakness_table_resolves: "list_all (\<lambda>(i, n). map_of TEMPLATES n \<noteq> None) WEAKNESS_TEMPLATES"
  by (simp add: WEAKNESS_TEMPLATES_def TEMPLATES_at)

lemma for_technique_iff_known: "for_technique i \<noteq> None \<longleftrightarrow> known_technique i \<noteq> None"
proof -
  have "known_technique i \<noteq> None \<longleftrightarrow> upper i \<in> set (map fst TECHNIQUES)"
    by (auto simp: known_technique_def map_of_eq_None_iff)
  also have "set (map fst TECHNIQUES) = td_id ` set CATALOGUE" by (simp add: TECHNIQUES_def image_comp)
  finally show ?thesis
    using table_complete[OF technique_table_resolves, of i] unfolding technique_keys for_technique_def by simp
qed

text \<open>
  The remediation catalogue and the ATT\&CK catalogue agree: a technique has catalogued guidance exactly when the
  detector can map it, so no observed technique falls through to generic hardening; weakness guidance exists exactly
  for the weakness classes listed; and every catalogued template has a rationale, steps and only known mitigations,
  being labelled generic exactly when it rests on none.
\<close>
theorem remediation_tables_closed:
  "(for_technique i = None) = (known_technique i = None)
   \<and> (for_weakness w \<noteq> None) = (upper w \<in> set (map fst WEAKNESS_TEMPLATES))
   \<and> list_all catalogue_entry_ok catalogued"
  using for_technique_iff_known[of i] table_complete[OF weakness_table_resolves, of w] catalogue_ok
  by (auto simp: for_weakness_def)

end
