(* ===== verification/Patch_Recommender.thy ===== *)
theory Patch_Recommender
  imports Remediation Threat_Detector Cve_Researcher Cwe
begin

text \<open>
  The Patch Recommender (\<^verbatim>\<open>agents/patch_recommender/recommender.py\<close>): from a threat assessment and a vulnerability
  dossier to a prioritised plan for a person to approve. The two upstream sections arrive serialised, so their contract
  (\<^verbatim>\<open>model_validate\<close>) is an argument; the advisory source is an argument with its own state.
\<close>

section \<open>Inputs and outputs\<close>

record 's advisory_source =
  as_available :: "'s \<Rightarrow> bool"
  as_fetch :: "string \<Rightarrow> 's \<Rightarrow> (py_error + lookup_failure + advisory list) \<times> 's"

definition unavailable_advisories :: "'s advisory_source" where
  "unavailable_advisories = \<lparr>as_available = (\<lambda>_. False),
     as_fetch = (\<lambda>i s. (Inr (Inl \<lparr>lf_query = i, lf_reason = ''not_configured'', lf_detail = ''no advisory source is configured''\<rparr>), s))\<rparr>"

text \<open>\<^verbatim>\<open>InMemoryAdvisorySource\<close>: the advisories and the identifiers whose lookup fails.\<close>

definition in_memory_advisories :: "bool \<Rightarrow> advisory list \<Rightarrow> string list \<Rightarrow> 's advisory_source" where
  "in_memory_advisories available advisories failures = \<lparr>as_available = (\<lambda>_. available),
     as_fetch = (\<lambda>i s. (if upper i \<in> set (map upper failures)
       then Inr (Inl \<lparr>lf_query = i, lf_reason = ''unreachable'', lf_detail = []\<rparr>)
       else Inr (Inr (filter (\<lambda>a. truthy (ad_cve_id a) \<and> upper (the (ad_cve_id a)) = upper i) advisories)), s))\<rparr>"

record 's patch_recommender =
  pr_advisories :: "'s advisory_source"
  pr_max_recommendations :: nat

record plan_request =
  pq_investigation_id :: string
  pq_threat_assessment :: "mapping option"
  pq_vulnerability_dossier :: "mapping option"
  pq_assets :: "mapping list"
  pq_critical_assets :: "string list"
  pq_max_recommendations :: nat

record remediation_plan =
  pl_investigation_id :: string
  pl_recommendations :: "recommendation list"
  pl_overall_risk :: risk_score
  pl_knowledge_limited :: bool
  pl_notes :: "string list"
  pl_confidence :: pyfloat

definition highest_priority :: "remediation_plan \<Rightarrow> triage_priority option" where
  "highest_priority p =
     List.find (\<lambda>q. q \<in> set (map rc_priority (pl_recommendations p))) [Prio_Urgent, Prio_High, Prio_Medium, Prio_Low]"


section \<open>Helpers\<close>

text \<open>\<^verbatim>\<open>_read\<close>: an absent, empty or unreadable section is \<^verbatim>\<open>None\<close>.\<close>

definition read_section :: "(mapping \<Rightarrow> 'r option) \<Rightarrow> mapping option \<Rightarrow> 'r option" where
  "read_section validate payload = (case payload of None \<Rightarrow> None | Some d \<Rightarrow> if d = [] then None else validate d)"

definition inventory_hosts :: "mapping list \<Rightarrow> string list" where
  "inventory_hosts assets = sorted_set (map (\<lambda>d. str_val (pget d ''hostname'')) (filter (\<lambda>d. truth (pget d ''hostname'')) assets))"

definition evidence_hosts :: "applicability_evidence list \<Rightarrow> string list" where
  "evidence_hosts es = map (the \<circ> ae_hostname) (filter (truthy \<circ> ae_hostname) es)"

definition affected_hosts :: "research_result option \<Rightarrow> string list \<Rightarrow> string list" where
  "affected_hosts d inventory =
     (let hosts = (case d of None \<Rightarrow> [] | Some r \<Rightarrow> concat (map (evidence_hosts \<circ> va_evidence) (vr_cves r))) in
      sorted_set (if hosts \<noteq> [] then hosts else inventory))"

definition touches :: "string list \<Rightarrow> string list \<Rightarrow> bool" where
  "touches critical hosts = list_ex (\<lambda>h. lower h \<in> set critical) hosts"

definition union_of :: "string list \<Rightarrow> string list \<Rightarrow> string list" where
  "union_of left right = sorted_set (left @ right)"

definition merge_support :: "remediation_support \<Rightarrow> remediation_support \<Rightarrow> remediation_support" where
  "merge_support a b = \<lparr>su_cve_ids = union_of (su_cve_ids a) (su_cve_ids b),
     su_technique_ids = union_of (su_technique_ids a) (su_technique_ids b),
     su_signal_rule_ids = union_of (su_signal_rule_ids a) (su_signal_rule_ids b),
     su_cwe_ids = union_of (su_cwe_ids a) (su_cwe_ids b)\<rparr>"

definition merge_items :: "recommendation \<Rightarrow> recommendation \<Rightarrow> recommendation" where
  "merge_items existing item = existing\<lparr>
     rc_support := merge_support (rc_support existing) (rc_support item),
     rc_targets := union_of (rc_targets existing) (rc_targets item),
     rc_risk := (if rs_score (rc_risk item) \<le> rs_score (rc_risk existing) then rc_risk existing else rc_risk item),
     rc_citations := unique_citations (rc_citations existing @ rc_citations item)\<rparr>"

definition add_item :: "recommendation \<Rightarrow> (string, recommendation) dict \<Rightarrow> (string, recommendation) dict" where
  "add_item item merged = (case map_of merged (rc_action item) of
     None \<Rightarrow> dict_set (rc_action item) item merged
   | Some existing \<Rightarrow> dict_set (rc_action item) (merge_items existing item) merged)"

definition deduplicate :: "recommendation list \<Rightarrow> recommendation list" where
  "deduplicate recs = map snd (fold add_item recs [])"

fun priority_order :: "triage_priority \<Rightarrow> nat" where
  "priority_order Prio_Urgent = 0"
| "priority_order Prio_High = 1"
| "priority_order Prio_Medium = 2"
| "priority_order Prio_Low = 3"

definition by_priority :: "recommendation \<Rightarrow> nat \<times> pyfloat \<times> string" where
  "by_priority r = (priority_order (rc_priority r), - rs_score (rc_risk r), rc_action r)"

fun grounding_weight :: "remediation_confidence \<Rightarrow> pyfloat" where
  "grounding_weight Vendor_Specific = 1"
| "grounding_weight Class_Specific = rnd (85 / 100)"
| "grounding_weight Generic = rnd (6 / 10)"

definition upstream_confidence :: "detection_result option \<Rightarrow> research_result option \<Rightarrow> recommendation \<Rightarrow> pyfloat" where
  "upstream_confidence threat d r =
     (if su_cve_ids (rc_support r) \<noteq> [] \<and> d \<noteq> None then vr_confidence (the d)
      else case threat of Some t \<Rightarrow> dt_confidence t | None \<Rightarrow> 1 / 2)"

definition plan_confidence :: "recommendation list \<Rightarrow> detection_result option \<Rightarrow> research_result option \<Rightarrow> pyfloat" where
  "plan_confidence recs threat d =
     (if recs = [] then 0
      else unit_round 4 (rnd (py_sum (map (\<lambda>r. rnd (upstream_confidence threat d r * grounding_weight (rc_grounding r))) recs)
             / of_nat (length recs))))"

text \<open>The guidance for a CVE that stayed a candidate: a check, typed as neither patch nor change.\<close>

definition lower_first :: "string \<Rightarrow> string" where
  "lower_first s = lower (take 1 s) @ drop 1 s"

definition verification_template :: "cve_assessment \<Rightarrow> remediation_template" where
  "verification_template v =
     (let cve = cve_id (va_record v);
          reasons = join ''; '' (filter (\<lambda>x. x \<noteq> []) (map ae_detail (va_evidence v)));
          follow_up = (case List.map_filter for_weakness (cr_cwe_ids (va_record v)) of
             [] \<Rightarrow> [] | w # _ \<Rightarrow> '' If it applies, '' @ lower_first (rt_action w) @ ''.'') in
      \<lparr>rt_id = ''verify:'' @ cve,
       rt_action = ''Establish whether '' @ cve @ '' applies to the affected assets'',
       rt_type = Rt_Other,
       rt_rationale = cve @ '' could not be confirmed against the asset inventory. ''
         @ (if reasons = [] then ''The evidence needed to decide is missing.'' else reasons)
         @ '' Leaving an unchecked candidate open leaves a possible exposure unattended.'',
       rt_expected_impact = ''The candidate is resolved into a confirmed finding or ruled out. No production change is made by this step.'',
       rt_steps = [''Record the installed version of the affected product on each candidate host.'',
         ''Compare it against the published vulnerable range for this CVE.'',
         ''Re-run the investigation once the inventory is complete.'' @ follow_up],
       rt_verification = ''Confirm the asset inventory now records a version for the affected product.'',
       rt_grounding = Class_Specific, rt_mitigation_ids = [], rt_extra_citations = va_citations v\<rparr>)"


section \<open>Building recommendations\<close>

definition remotely_exploitable :: "cvss_metrics \<Rightarrow> bool" where
  "remotely_exploitable c = (cm_attack_vector c = ''NETWORK'' \<and> cm_privileges_required c = ''NONE'' \<and> cm_user_interaction c = ''NONE'')"

definition of_template :: "remediation_template \<Rightarrow> triage_priority \<Rightarrow> risk_score \<Rightarrow> string \<Rightarrow> string list \<Rightarrow> remediation_support
    \<Rightarrow> citation list \<Rightarrow> recommendation" where
  "of_template t prio risk rationale targets support citations =
     \<lparr>rc_action = rt_action t, rc_type = rt_type t, rc_priority = prio, rc_risk = risk, rc_rationale = rationale,
      rc_expected_impact = Some (rt_expected_impact t), rc_steps = rt_steps t, rc_verification = Some (rt_verification t),
      rc_targets = targets, rc_support = support, rc_grounding = rt_grounding t, rc_citations = citations,
      rc_requires_human_approval = True, rc_approval_status = Ap_Pending\<rparr>"

definition cve_risk :: "cve_assessment \<Rightarrow> string list \<Rightarrow> bool \<Rightarrow> risk_score" where
  "cve_risk v critical confirmed = score_risk
     \<lparr>ri_severity_score = (case cr_cvss (va_record v) of Some c \<Rightarrow> cm_base_score c | None \<Rightarrow> 5),
      ri_applicability_confirmed = confirmed,
      ri_exploitation_observed = (\<not> mapping_is_empty (va_mapping v)),
      ri_internet_reachable = (case cr_cvss (va_record v) of Some c \<Rightarrow> remotely_exploitable c | None \<Rightarrow> False),
      ri_asset_critical = touches critical (sorted_set (evidence_hosts (va_evidence v))),
      ri_subject = cve_id (va_record v)\<rparr>"

definition build :: "remediation_template \<Rightarrow> cve_assessment \<Rightarrow> string list \<Rightarrow> bool \<Rightarrow> py_error + recommendation" where
  "build t v critical confirmed =
     (let risk = cve_risk v critical confirmed in
      checked (of_template t (derive_risk_priority risk (\<not> mapping_is_empty (va_mapping v))) risk (rt_rationale t)
        (sorted_set (evidence_hosts (va_evidence v)))
        \<lparr>su_cve_ids = [cve_id (va_record v)], su_technique_ids = em_technique_ids (va_mapping v), su_signal_rule_ids = [],
         su_cwe_ids = List.map_filter normalize_cwe_id (cr_cwe_ids (va_record v))\<rparr>
        (template_citations t @ va_citations v)))"

definition cve_product :: "cve_assessment \<Rightarrow> string option" where
  "cve_product v = (case filter (truthy \<circ> ae_product) (va_evidence v) of
     e # _ \<Rightarrow> ae_product e
   | [] \<Rightarrow> (case affected (va_record v) of r # _ \<Rightarrow> Some (ar_product r) | [] \<Rightarrow> None))"

text \<open>\<^verbatim>\<open>_patch_template\<close>: the guidance and whether a fixed version is missing.\<close>

definition patch_template :: "'s advisory_source \<Rightarrow> cve_assessment \<Rightarrow> 's \<Rightarrow> (py_error + remediation_template \<times> bool) \<times> 's" where
  "patch_template src v s =
     (let cve = cve_id (va_record v); product = cve_product v; refs = cr_references (va_record v);
          plain = (patch_guidance cve product None refs None, True) in
      if \<not> as_available src s then (Inr plain, s)
      else case as_fetch src cve s of
        (Inl e, s') \<Rightarrow> (Inl e, s')
      | (Inr (Inl _), s') \<Rightarrow> (Inr plain, s')
      | (Inr (Inr []), s') \<Rightarrow> (Inr plain, s')
      | (Inr (Inr (a # _)), s') \<Rightarrow>
          (Inr (case fix_for a product of
             None \<Rightarrow> (patch_guidance cve product None refs (Some (advisory_citation a)), True)
           | Some fx \<Rightarrow> (patch_guidance cve (Some (af_package fx)) (af_fixed_version fx) refs (Some (advisory_citation a)),
                af_fixed_version fx = None)), s'))"

text \<open>The loop over the confirmed CVEs: the recommendations, and how many have no fixed version.\<close>

fun confirmed_items :: "'s advisory_source \<Rightarrow> string list \<Rightarrow> cve_assessment list \<Rightarrow> 's \<Rightarrow> (py_error + recommendation list \<times> nat) \<times> 's" where
  "confirmed_items src critical [] s = (Inr ([], 0), s)"
| "confirmed_items src critical (v # vs) s =
     (case patch_template src v s of
        (Inl e, s1) \<Rightarrow> (Inl e, s1)
      | (Inr (t, missing), s1) \<Rightarrow>
          (case build t v critical True of
             Inl e \<Rightarrow> (Inl e, s1)
           | Inr r \<Rightarrow>
               (case confirmed_items src critical vs s1 of
                  (Inl e, s2) \<Rightarrow> (Inl e, s2)
                | (Inr (rs, n), s2) \<Rightarrow> (Inr (r # rs, of_bool missing + n), s2))))"

definition from_cves :: "'s advisory_source \<Rightarrow> research_result option \<Rightarrow> string list \<Rightarrow> 's
    \<Rightarrow> (py_error + recommendation list \<times> agent_degradation list) \<times> 's" where
  "from_cves src d critical s = (case d of
     None \<Rightarrow> (Inr ([], []), s)
   | Some r \<Rightarrow>
       (case confirmed_items src critical (vr_cves r) s of
          (Inl e, s') \<Rightarrow> (Inl e, s')
        | (Inr (rs, failures), s') \<Rightarrow>
            (case traverse (\<lambda>v. build (verification_template v) v critical False) (vr_candidates r) of
               Inl e \<Rightarrow> (Inl e, s')
             | Inr cs \<Rightarrow> (Inr (rs @ cs,
                 if failures = 0 then []
                 else [degradation ''advisory_unavailable''
                   (''no fixed version could be resolved for '' @ show_nat failures
                    @ '' confirmed CVE(s); the guidance names the advisory instead'')]), s'))))"

definition technique_risk :: "detection_result \<Rightarrow> bool \<Rightarrow> detection_signal list \<Rightarrow> risk_score" where
  "technique_risk threat touches_critical signals =
     (let strongest = (case map weight signals of [] \<Rightarrow> sa_score (dt_severity threat) | w # ws \<Rightarrow> fold max ws w) in
      score_risk \<lparr>ri_severity_score = max strongest (verdict_severity_floor (dt_verdict threat)),
        ri_applicability_confirmed = True, ri_exploitation_observed = True, ri_internet_reachable = False,
        ri_asset_critical = touches_critical,
        ri_subject = (case signals of [] \<Rightarrow> ''the observed activity'' | g # _ \<Rightarrow> lower (sig_name g))\<rparr>)"

definition technique_item :: "detection_result \<Rightarrow> string list \<Rightarrow> bool \<Rightarrow> technique_mapping \<times> remediation_template \<Rightarrow> py_error + recommendation" where
  "technique_item threat targets touches_critical mt =
     (let (m, t) = mt;
          signals = filter (\<lambda>g. tm_technique_id m \<in> set (sig_technique_ids g)) (dt_signals threat);
          risk = technique_risk threat touches_critical signals in
      checked (of_template t (derive_risk_priority risk True) risk (strip (rt_rationale t @ '' '' @ tm_rationale m)) targets
        \<lparr>su_cve_ids = [], su_technique_ids = [tm_technique_id m], su_signal_rule_ids = map rule_id signals, su_cwe_ids = []\<rparr>
        (template_citations t @ tm_citations m)))"

definition guided :: "technique_mapping list \<Rightarrow> (technique_mapping \<times> remediation_template) list" where
  "guided ms = List.map_filter (\<lambda>m. map_option (Pair m) (for_technique (tm_technique_id m))) ms"

definition from_techniques :: "detection_result option \<Rightarrow> research_result option \<Rightarrow> string list \<Rightarrow> string list \<Rightarrow> py_error + recommendation list" where
  "from_techniques threat d critical inventory = (case threat of
     None \<Rightarrow> Inr []
   | Some t \<Rightarrow> (let targets = affected_hosts d inventory in
       traverse (technique_item t targets (touches critical targets)) (guided (dt_techniques t))))"

definition generic_item :: "detection_result \<Rightarrow> string list \<Rightarrow> string list \<Rightarrow> py_error + recommendation" where
  "generic_item threat critical inventory =
     (let t = generic_guidance; targets = affected_hosts None inventory;
          risk = technique_risk threat (touches critical targets) [];
          rules = map rule_id (dt_signals threat) in
      checked (of_template t (derive_risk_priority risk False) risk (strip (rt_rationale t @ '' '' @ sa_rationale (dt_severity threat))) targets
        (no_support\<lparr>su_signal_rule_ids := (if rules = [] then [''verdict_only''] else rules)\<rparr>) (template_citations t)))"


section \<open>The agent\<close>

definition empty_plan :: "string option \<Rightarrow> plan_request \<Rightarrow> agent_degradation list \<Rightarrow> string \<Rightarrow> remediation_plan agent_outcome" where
  "empty_plan version rq degradations reason =
     \<lparr>ao_agent = ''patch_recommender'',
      ao_output = \<lparr>pl_investigation_id = pq_investigation_id rq, pl_recommendations = [],
        pl_overall_risk = combine_risk [] (''investigation '' @ pq_investigation_id rq), pl_knowledge_limited = False,
        pl_notes = [reason], pl_confidence = 0\<rparr>,
      ao_confidence = 0, ao_prompt_version = version, ao_tool_calls = [], ao_degradations = degradations\<rparr>"

definition generic_note :: string where
  "generic_note = ''No specific remediation target was identified, so the plan gives conservative hardening for the affected assets.''"

definition nothing_note :: string where
  "nothing_note = ''The investigation surfaced no confirmed vulnerability and no adversary technique with catalogued remediation, so there is nothing to remediate.''"

text \<open>Sorting, holding back, and the envelope: everything \<^verbatim>\<open>recommend\<close> does once the recommendations are known.\<close>

definition finish_plan :: "string option \<Rightarrow> nat \<Rightarrow> plan_request \<Rightarrow> detection_result option \<Rightarrow> research_result option
    \<Rightarrow> agent_degradation list \<Rightarrow> string list \<Rightarrow> recommendation list \<Rightarrow> remediation_plan agent_outcome" where
  "finish_plan version limit rq threat d degradations nts recs =
     (let ordered = sort_key by_priority recs;
          held = (if limit < length ordered
            then [show_nat (length ordered - limit) @ '' lower-priority recommendation(s) were held back to keep the plan actionable; re-run to see the full list.'']
            else []);
          kept = take limit ordered;
          limited = (kept \<noteq> [] \<and> list_all (\<lambda>r. rc_grounding r = Generic) kept);
          conf = plan_confidence kept threat d in
      \<lparr>ao_agent = ''patch_recommender'',
       ao_output = \<lparr>pl_investigation_id = pq_investigation_id rq, pl_recommendations = kept,
         pl_overall_risk = combine_risk (map rc_risk kept) (''investigation '' @ pq_investigation_id rq),
         pl_knowledge_limited = limited, pl_notes = nts @ held, pl_confidence = conf\<rparr>,
       ao_confidence = conf, ao_prompt_version = version,
       ao_tool_calls = [(''lookup_advisory'', case d of None \<Rightarrow> 0 | Some r \<Rightarrow> length (vr_cves r)),
         (''remediation_guidance'', length kept), (''score_risk'', length kept)],
       ao_degradations = degradations @ (if limited then [degradation ''thin_remediation_knowledge''
         ''no product- or class-specific guidance was available; the plan is conservative general hardening''] else [])\<rparr>)"

definition non_benign :: "detection_result option \<Rightarrow> bool" where
  "non_benign threat = (case threat of None \<Rightarrow> False | Some t \<Rightarrow> dt_verdict t \<noteq> Benign)"

definition recommend :: "string option \<Rightarrow> (mapping \<Rightarrow> detection_result option) \<Rightarrow> (mapping \<Rightarrow> research_result option)
    \<Rightarrow> 's patch_recommender \<Rightarrow> plan_request \<Rightarrow> 's \<Rightarrow> (py_error + remediation_plan agent_outcome) \<times> 's" where
  "recommend version read_threat read_dossier a rq s =
     (let threat = read_section read_threat (pq_threat_assessment rq);
          d = read_section read_dossier (pq_vulnerability_dossier rq) in
      if threat = None \<and> d = None then (Inr (empty_plan version rq [] ''no upstream findings to remediate''), s)
      else
        let critical = map lower (pq_critical_assets rq); inventory = inventory_hosts (pq_assets rq) in
        case from_cves (pr_advisories a) d critical s of
          (Inl e, s') \<Rightarrow> (Inl e, s')
        | (Inr (cs, degradations), s') \<Rightarrow>
          (case from_techniques threat d critical inventory of
             Inl e \<Rightarrow> (Inl e, s')
           | Inr ts \<Rightarrow>
             (let recs = deduplicate (cs @ ts); limit = pr_max_recommendations a in
              if recs = [] \<and> non_benign threat then
                (case generic_item (the threat) critical inventory of
                   Inl e \<Rightarrow> (Inl e, s')
                 | Inr g \<Rightarrow> (Inr (finish_plan version limit rq threat d degradations [generic_note] [g]), s'))
              else (Inr (finish_plan version limit rq threat d degradations (if recs = [] then [nothing_note] else []) recs), s'))))"


section \<open>One finding, one recommendation\<close>

lemma checked_Inr: "checked r = Inr r' \<longleftrightarrow> r' = r \<and> contract_ok r"
  by (auto simp: checked_def)

lemma of_template_ok [simp]: "contract_ok (of_template t p k ra tg su cs) \<longleftrightarrow> strip ra \<noteq> [] \<and> cs \<noteq> []"
  by (simp add: contract_ok_def of_template_def)

text \<open>What a recommendation built for an assessment records of it.\<close>

definition answers_cve :: "string list \<Rightarrow> bool \<Rightarrow> cve_assessment \<Rightarrow> recommendation \<Rightarrow> bool" where
  "answers_cve critical confirmed v r = (contract_ok r \<and> su_cve_ids (rc_support r) = [cve_id (va_record v)]
     \<and> (rc_type r = Rt_Patch) = confirmed \<and> rc_grounding r \<noteq> Generic \<and> rc_risk r = cve_risk v critical confirmed
     \<and> prefix ((if confirmed then ''Patch '' else ''Establish whether '') @ cve_id (va_record v)) (rc_action r))"

lemma build_Inr:
  assumes "\<not> list_all is_space (rt_rationale t)"
  shows "\<exists>r. build t v critical confirmed = Inr r \<and> contract_ok r \<and> su_cve_ids (rc_support r) = [cve_id (va_record v)]
    \<and> rc_type r = rt_type t \<and> rc_grounding r = rt_grounding t \<and> rc_risk r = cve_risk v critical confirmed \<and> rc_action r = rt_action t"
  using assms by (simp add: build_def Let_def checked_Inr strip_by_Nil_iff) (simp add: of_template_def)

lemma patch_template_facts:
  assumes "patch_template src v s = (Inr (t, missing), s')"
  shows "rt_type t = Rt_Patch" "rt_grounding t \<noteq> Generic" "\<not> list_all is_space (rt_rationale t)"
    "prefix (''Patch '' @ cve_id (va_record v)) (rt_action t)"
proof -
  have "\<exists>p fv refs c. t = patch_guidance (cve_id (va_record v)) p fv refs c"
    using assms by (auto simp: patch_template_def Let_def split: if_splits prod.splits sum.splits list.splits option.splits)
  then obtain p fv refs c where t: "t = patch_guidance (cve_id (va_record v)) p fv refs c" by blast
  show "rt_type t = Rt_Patch" "rt_grounding t \<noteq> Generic" "\<not> list_all is_space (rt_rationale t)"
    unfolding t by (simp_all add: patch_guidance_facts)
  show "prefix (''Patch '' @ cve_id (va_record v)) (rt_action t)"
    unfolding t using patch_guidance_facts(4)[of "cve_id (va_record v)" p fv refs c] by (metis append_prefixD append.assoc)
qed

lemma verification_template_facts:
  "rt_type (verification_template v) = Rt_Other" "rt_grounding (verification_template v) = Class_Specific"
  "\<not> list_all is_space (rt_rationale (verification_template v))"
  "prefix (''Establish whether '' @ cve_id (va_record v)) (rt_action (verification_template v))"
  by (simp_all add: verification_template_def Let_def is_space_def)

lemma confirmed_items_answer:
  "confirmed_items src critical vs s = (Inr (rs, n), s') \<Longrightarrow> list_all2 (answers_cve critical True) vs rs \<and> n \<le> length vs"
proof (induction vs arbitrary: s rs n s')
  case Nil
  then show ?case by simp
next
  case (Cons v vs)
  from Cons.prems obtain t missing s1 r rs1 m s2 where
    t: "patch_template src v s = (Inr (t, missing), s1)" and b: "build t v critical True = Inr r"
    and c: "confirmed_items src critical vs s1 = (Inr (rs1, m), s2)" and rs: "rs = r # rs1" "n = of_bool missing + m"
    by (auto split: prod.splits sum.splits)
  have "answers_cve critical True v r"
    using build_Inr[OF patch_template_facts(3)[OF t], of v critical True] patch_template_facts[OF t] b
    by (auto simp: answers_cve_def)
  with Cons.IH[OF c] rs show ?case by simp
qed

lemma confirmed_items_returns:
  assumes "\<And>q s. \<exists>x s'. as_fetch src q s = (Inr x, s')"
  shows "\<exists>rs n s'. confirmed_items src critical vs s = (Inr (rs, n), s')"
proof (induction vs arbitrary: s)
  case Nil
  then show ?case by simp
next
  case (Cons v vs)
  obtain x s1 where x: "as_fetch src (cve_id (va_record v)) s = (Inr x, s1)" using assms by blast
  have "\<exists>t missing s1. patch_template src v s = (Inr (t, missing), s1)"
    using x by (auto simp: patch_template_def Let_def split: sum.splits list.splits option.splits)
  then obtain t missing s1 where t: "patch_template src v s = (Inr (t, missing), s1)" by blast
  obtain r where r: "build t v critical True = Inr r" using build_Inr[OF patch_template_facts(3)[OF t]] by blast
  obtain rs n s2 where c: "confirmed_items src critical vs s1 = (Inr (rs, n), s2)" using Cons.IH by blast
  show ?case by (simp add: t r c)
qed

lemma traverse_total:
  assumes "\<And>x. x \<in> set xs \<Longrightarrow> \<exists>y. f x = Inr y" shows "\<exists>ys. traverse f xs = Inr ys"
  using assms
proof (induction xs)
  case Nil
  then show ?case by simp
next
  case (Cons x xs)
  from Cons.prems obtain y where "f x = Inr y" by auto
  moreover from Cons obtain ys where "traverse f xs = Inr ys" by auto
  ultimately show ?case by simp
qed

lemma traverse_all2: "traverse f xs = Inr ys \<Longrightarrow> list_all2 (\<lambda>x y. f x = Inr y) xs ys"
  by (induction xs arbitrary: ys) (auto simp: and_then_Inr)

lemma all2_right: "list_all2 P xs ys \<Longrightarrow> y \<in> set ys \<Longrightarrow> \<exists>x \<in> set xs. P x y"
  by (induction rule: list_all2_induct) auto

lemma all2_left: "list_all2 P xs ys \<Longrightarrow> x \<in> set xs \<Longrightarrow> \<exists>y \<in> set ys. P x y"
  by (induction rule: list_all2_induct) auto

lemma candidates_answer:
  assumes "traverse (\<lambda>v. build (verification_template v) v critical False) vs = Inr rs"
  shows "list_all2 (answers_cve critical False) vs rs"
  using traverse_all2[OF assms]
proof (rule list_all2_mono)
  fix v r assume b: "build (verification_template v) v critical False = Inr r"
  show "answers_cve critical False v r"
    using build_Inr[OF verification_template_facts(3), of v v critical False] verification_template_facts[of v] b
    by (auto simp: answers_cve_def)
qed

text \<open>The same for a behavioural finding.\<close>

definition answers_technique :: "technique_mapping \<Rightarrow> recommendation \<Rightarrow> bool" where
  "answers_technique m r = (contract_ok r \<and> su_cve_ids (rc_support r) = [] \<and> tm_technique_id m \<in> set (su_technique_ids (rc_support r))
     \<and> rc_type r \<noteq> Rt_Patch \<and> rc_grounding r = Class_Specific \<and> rc_priority r = Prio_Urgent
     \<and> (\<exists>t. for_technique (tm_technique_id m) = Some t \<and> rc_action r = rt_action t))"

lemma not_blank_append: "\<not> list_all is_space s \<Longrightarrow> strip (strip (s @ t)) \<noteq> []"
  by (simp add: strip_by_Nil_iff)

lemma technique_item_Inr:
  assumes "for_technique (tm_technique_id m) = Some t"
  shows "\<exists>r. technique_item threat targets b (m, t) = Inr r \<and> answers_technique m r"
  using for_technique_guidance[OF assms] assms not_blank_append[of "rt_rationale t" "'' '' @ tm_rationale m"]
  by (simp add: technique_item_def Let_def checked_Inr answers_technique_def)
     (simp add: of_template_def derive_risk_priority_def)

lemma guided_set: "set (guided ms) = {(m, t). m \<in> set ms \<and> for_technique (tm_technique_id m) = Some t}"
  by (force simp: guided_def List.map_filter_def image_iff)

lemma from_techniques_returns: "\<exists>ts. from_techniques threat d critical inventory = Inr ts"
proof (cases threat)
  case (Some t)
  have "\<exists>ts. traverse (technique_item t hosts b) (guided (dt_techniques t)) = Inr ts" for hosts b
    by (rule traverse_total) (use technique_item_Inr[of _ _ t hosts b] in \<open>fastforce simp: guided_set\<close>)
  then show ?thesis using Some by (simp add: from_techniques_def Let_def)
qed (simp add: from_techniques_def)

lemma from_techniques_answers:
  assumes "from_techniques (Some t) d critical inventory = Inr ts"
  shows "\<forall>r \<in> set ts. \<exists>m \<in> set (dt_techniques t). answers_technique m r"
    "\<forall>m \<in> set (dt_techniques t). for_technique (tm_technique_id m) \<noteq> None \<longrightarrow> (\<exists>r \<in> set ts. answers_technique m r)"
proof -
  obtain hosts b where tr: "traverse (technique_item t hosts b) (guided (dt_techniques t)) = Inr ts"
    using assms by (auto simp: from_techniques_def Let_def)
  note all2 = traverse_all2[OF tr]
  show "\<forall>r \<in> set ts. \<exists>m \<in> set (dt_techniques t). answers_technique m r"
  proof
    fix r assume "r \<in> set ts"
    from all2_right[OF all2 this] obtain m k where "(m, k) \<in> set (guided (dt_techniques t))" "technique_item t hosts b (m, k) = Inr r"
      by fastforce
    then show "\<exists>m \<in> set (dt_techniques t). answers_technique m r"
      using technique_item_Inr[of m k t hosts b] by (auto simp: guided_set)
  qed
  show "\<forall>m \<in> set (dt_techniques t). for_technique (tm_technique_id m) \<noteq> None \<longrightarrow> (\<exists>r \<in> set ts. answers_technique m r)"
  proof (intro ballI impI)
    fix m assume "m \<in> set (dt_techniques t)" "for_technique (tm_technique_id m) \<noteq> None"
    then obtain k where k: "for_technique (tm_technique_id m) = Some k" "(m, k) \<in> set (guided (dt_techniques t))"
      by (auto simp: guided_set)
    from all2_left[OF all2 k(2)] obtain r where "r \<in> set ts" "technique_item t hosts b (m, k) = Inr r" by blast
    then show "\<exists>r \<in> set ts. answers_technique m r" using technique_item_Inr[OF k(1), of t hosts b] by auto
  qed
qed

lemma generic_item_Inr:
  "\<exists>r. generic_item t critical inventory = Inr r \<and> contract_ok r \<and> rc_grounding r = Generic \<and> rc_type r = Rt_Mitigation"
  using generic_guidance_facts not_blank_append[of "rt_rationale generic_guidance" "'' '' @ sa_rationale (dt_severity t)"]
  by (simp add: generic_item_def Let_def checked_Inr) (simp add: of_template_def)


section \<open>Merging\<close>

definition merge_group :: "recommendation \<Rightarrow> recommendation list \<Rightarrow> recommendation" where
  "merge_group g gs = foldl merge_items g gs"

abbreviation same_action :: "string \<Rightarrow> recommendation list \<Rightarrow> recommendation list" where
  "same_action a recs \<equiv> filter (\<lambda>r. rc_action r = a) recs"

lemma union_of_set [simp]: "set (union_of a b) = set a \<union> set b"
  by (simp add: union_of_def)

lemma merge_items_keeps [simp]:
  "rc_action (merge_items e i) = rc_action e" "rc_type (merge_items e i) = rc_type e"
  "rc_priority (merge_items e i) = rc_priority e" "rc_grounding (merge_items e i) = rc_grounding e"
  by (simp_all add: merge_items_def)

lemma merge_group_keeps [simp]:
  "rc_action (merge_group g gs) = rc_action g" "rc_type (merge_group g gs) = rc_type g"
  "rc_priority (merge_group g gs) = rc_priority g" "rc_grounding (merge_group g gs) = rc_grounding g"
  unfolding merge_group_def by (induction gs arbitrary: g) simp_all

lemma merge_contract: "contract_ok e \<Longrightarrow> contract_ok (merge_items e i)"
  by (simp add: contract_ok_def merge_items_def unique_citations_facts)

lemma merge_group_contract: "contract_ok g \<Longrightarrow> contract_ok (merge_group g gs)"
  unfolding merge_group_def by (induction gs arbitrary: g) (simp_all add: merge_contract)

text \<open>A merged recommendation carries the support, targets and sources of all, and the worst risk.\<close>

lemma merge_group_support:
  "set (su_cve_ids (rc_support (merge_group g gs))) = (\<Union>r \<in> set (g # gs). set (su_cve_ids (rc_support r)))"
  "set (su_technique_ids (rc_support (merge_group g gs))) = (\<Union>r \<in> set (g # gs). set (su_technique_ids (rc_support r)))"
  "set (su_signal_rule_ids (rc_support (merge_group g gs))) = (\<Union>r \<in> set (g # gs). set (su_signal_rule_ids (rc_support r)))"
  "set (su_cwe_ids (rc_support (merge_group g gs))) = (\<Union>r \<in> set (g # gs). set (su_cwe_ids (rc_support r)))"
  "set (rc_targets (merge_group g gs)) = (\<Union>r \<in> set (g # gs). set (rc_targets r))"
  unfolding merge_group_def
  by (induction gs arbitrary: g; auto simp: merge_items_def merge_support_def)+

lemma merge_group_risk:
  "rc_risk (merge_group g gs) \<in> rc_risk ` set (g # gs) \<and> (\<forall>r \<in> set (g # gs). rs_score (rc_risk r) \<le> rs_score (rc_risk (merge_group g gs)))"
  unfolding merge_group_def
proof (induction gs arbitrary: g)
  case Nil
  then show ?case by simp
next
  case (Cons r gs)
  let ?m = "merge_items g r"
  have m: "rc_risk ?m \<in> {rc_risk g, rc_risk r}" "rs_score (rc_risk g) \<le> rs_score (rc_risk ?m)" "rs_score (rc_risk r) \<le> rs_score (rc_risk ?m)"
    by (auto simp: merge_items_def)
  from Cons.IH[of ?m] m show ?case by (auto intro: order_trans)
qed

lemma merge_group_citations:
  "citation_key ` set (rc_citations (merge_group g gs)) = (\<Union>r \<in> set (g # gs). citation_key ` set (rc_citations r))"
  unfolding merge_group_def
proof (induction gs arbitrary: g)
  case Nil
  then show ?case by simp
next
  case (Cons r gs)
  have "citation_key ` set (rc_citations (merge_items g r)) = citation_key ` set (rc_citations g) \<union> citation_key ` set (rc_citations r)"
    by (simp add: merge_items_def unique_citations_facts image_Un)
  with Cons.IH[of "merge_items g r"] show ?case by auto
qed

lemma fold_add_lookup:
  "map_of (fold add_item recs d) a = (case map_of d a of
     Some e \<Rightarrow> Some (merge_group e (same_action a recs))
   | None \<Rightarrow> (case same_action a recs of [] \<Rightarrow> None | g # gs \<Rightarrow> Some (merge_group g gs)))"
proof (induction recs arbitrary: d)
  case Nil
  then show ?case by (simp add: merge_group_def split: option.splits)
next
  case (Cons r recs)
  show ?case
    by (simp add: Cons.IH)
       (auto simp: add_item_def dict_facts merge_group_def split: option.splits list.splits)
qed

lemma fold_add_distinct: "distinct (map fst d) \<Longrightarrow> distinct (map fst (fold add_item recs d))"
  by (induction recs arbitrary: d) (auto simp: add_item_def dict_facts split: option.splits)

lemma fold_add_keyed:
  "\<forall>(k, r) \<in> set d. rc_action r = k \<Longrightarrow> distinct (map fst d) \<Longrightarrow> (k, r) \<in> set (fold add_item recs d) \<Longrightarrow> rc_action r = k"
proof -
  assume d: "\<forall>(k, r) \<in> set d. rc_action r = k" "distinct (map fst d)" and "(k, r) \<in> set (fold add_item recs d)"
  then have "map_of (fold add_item recs d) k = Some r" using fold_add_distinct[OF d(2)] by simp
  then show ?thesis using d(1) filter_set[of "\<lambda>r. rc_action r = k" recs]
    by (auto simp: fold_add_lookup split: option.splits list.splits dest!: map_of_SomeD filter_eq_ConsD)
qed

lemma deduplicate_mem:
  "r \<in> set (deduplicate recs) \<longleftrightarrow> (\<exists>g gs. same_action (rc_action r) recs = g # gs \<and> r = merge_group g gs)"
proof -
  let ?acc = "fold add_item recs []"
  have keyed: "(k, r) \<in> set ?acc \<Longrightarrow> rc_action r = k" for k by (rule fold_add_keyed[of "[]"]) simp_all
  have "r \<in> set (deduplicate recs) \<longleftrightarrow> (\<exists>k. (k, r) \<in> set ?acc)" unfolding deduplicate_def by force
  also have "\<dots> \<longleftrightarrow> (rc_action r, r) \<in> set ?acc" using keyed by blast
  also have "\<dots> \<longleftrightarrow> map_of ?acc (rc_action r) = Some r"
    using fold_add_distinct[of "[]" recs] by simp
  finally show ?thesis by (auto simp: fold_add_lookup split: list.splits)
qed

lemma deduplicate_actions: "distinct (map rc_action (deduplicate recs))" "rc_action ` set (deduplicate recs) = rc_action ` set recs"
proof -
  have "map rc_action (deduplicate recs) = map fst (fold add_item recs [])"
    using fold_add_keyed[of "[]" _ _ recs] by (auto simp: deduplicate_def)
  then show "distinct (map rc_action (deduplicate recs))" using fold_add_distinct[of "[]" recs] by simp
  show "rc_action ` set (deduplicate recs) = rc_action ` set recs"
  proof (intro equalityI subsetI)
    fix a assume "a \<in> rc_action ` set (deduplicate recs)"
    then obtain g gs where "same_action a recs = g # gs" by (auto simp: deduplicate_mem)
    then show "a \<in> rc_action ` set recs" by (auto dest!: filter_eq_ConsD)
  next
    fix a assume "a \<in> rc_action ` set recs"
    then have "same_action a recs \<noteq> []" by (auto simp: filter_empty_conv)
    then obtain g gs where g: "same_action a recs = g # gs" by (cases "same_action a recs") auto
    then have "rc_action g = a" by (auto dest!: filter_eq_ConsD)
    with g have "merge_group g gs \<in> set (deduplicate recs)" by (auto simp: deduplicate_mem)
    then have "rc_action (merge_group g gs) \<in> rc_action ` set (deduplicate recs)" by (rule imageI)
    then show "a \<in> rc_action ` set (deduplicate recs)" using \<open>rc_action g = a\<close> by simp
  qed
qed

text \<open>What the one recommendation left for a group carries of it.\<close>

definition carries :: "recommendation set \<Rightarrow> recommendation \<Rightarrow> bool" where
  "carries items r = (let s = rc_support r in
     set (su_cve_ids s) = (\<Union>x \<in> items. set (su_cve_ids (rc_support x))) \<and>
     set (su_technique_ids s) = (\<Union>x \<in> items. set (su_technique_ids (rc_support x))) \<and>
     set (su_signal_rule_ids s) = (\<Union>x \<in> items. set (su_signal_rule_ids (rc_support x))) \<and>
     set (su_cwe_ids s) = (\<Union>x \<in> items. set (su_cwe_ids (rc_support x))) \<and>
     set (rc_targets r) = (\<Union>x \<in> items. set (rc_targets x)) \<and>
     citation_key ` set (rc_citations r) = (\<Union>x \<in> items. citation_key ` set (rc_citations x)) \<and>
     rs_score (rc_risk r) = Max ((\<lambda>x. rs_score (rc_risk x)) ` items))"

lemma merge_group_carries: "carries (set (g # gs)) (merge_group g gs)"
proof -
  have "rs_score (rc_risk (merge_group g gs)) = Max ((\<lambda>x. rs_score (rc_risk x)) ` set (g # gs))"
    using merge_group_risk[of g gs] by (intro Max_eqI[symmetric]) auto
  then show ?thesis unfolding carries_def Let_def by (intro conjI merge_group_support merge_group_citations)
qed

text \<open>
  Deduplication keeps the work and all of its reasons: exactly one recommendation remains per action, and it
  carries the union of the CVEs, techniques, rules, weaknesses and targets of all the recommendations with that
  action, every source of theirs, and the highest of their risks.
\<close>
theorem deduplicate_merges:
  "distinct (map rc_action (deduplicate recs)) \<and> rc_action ` set (deduplicate recs) = rc_action ` set recs \<and>
   list_all (\<lambda>r. carries {x \<in> set recs. rc_action x = rc_action r} r) (deduplicate recs)"
proof (intro conjI deduplicate_actions)
  show "list_all (\<lambda>r. carries {x \<in> set recs. rc_action x = rc_action r} r) (deduplicate recs)"
    unfolding list_all_iff
  proof
    fix r assume "r \<in> set (deduplicate recs)"
    then obtain g gs where g: "same_action (rc_action r) recs = g # gs" and r: "r = merge_group g gs" by (auto simp: deduplicate_mem)
    have "{x \<in> set recs. rc_action x = rc_action r} = set (g # gs)" unfolding g[symmetric] by simp
    with merge_group_carries[of g gs] show "carries {x \<in> set recs. rc_action x = rc_action r} r" unfolding r[symmetric] by simp
  qed
qed


section \<open>The plan\<close>

abbreviation critical_of :: "plan_request \<Rightarrow> string list" where
  "critical_of rq \<equiv> map lower (pq_critical_assets rq)"

lemma from_cves_cases:
  assumes "from_cves src d critical s = (Inr (cs, degs), s')"
  shows "(d = None \<and> cs = []) \<or> (\<exists>r rs ks. d = Some r \<and> cs = rs @ ks \<and>
    list_all2 (answers_cve critical True) (vr_cves r) rs \<and> list_all2 (answers_cve critical False) (vr_candidates r) ks)"
proof (cases d)
  case None
  with assms show ?thesis by (simp add: from_cves_def)
next
  case (Some r)
  with assms obtain rs n ks s1 where c: "confirmed_items src critical (vr_cves r) s = (Inr (rs, n), s1)"
    and k: "traverse (\<lambda>v. build (verification_template v) v critical False) (vr_candidates r) = Inr ks" and cs: "cs = rs @ ks"
    by (auto simp: from_cves_def split: prod.splits sum.splits)
  show ?thesis using Some cs conjunct1[OF confirmed_items_answer[OF c]] candidates_answer[OF k] by auto
qed

text \<open>Every recommendation drawn from a finding, before merging.\<close>

definition specific :: "research_result option \<Rightarrow> recommendation \<Rightarrow> bool" where
  "specific d r = (contract_ok r \<and> rc_grounding r \<noteq> Generic \<and>
     (rc_type r = Rt_Patch \<longrightarrow> (\<exists>v \<in> (case d of None \<Rightarrow> {} | Some x \<Rightarrow> set (vr_cves x)). cve_id (va_record v) \<in> set (su_cve_ids (rc_support r)))))"

lemma from_cves_specific:
  assumes "from_cves src d critical s = (Inr (cs, degs), s')" and "r \<in> set cs" shows "specific d r"
  using from_cves_cases[OF assms(1)]
proof (elim disjE exE conjE)
  fix x rs ks
  assume x: "d = Some x" "cs = rs @ ks" and two: "list_all2 (answers_cve critical True) (vr_cves x) rs"
    "list_all2 (answers_cve critical False) (vr_candidates x) ks"
  show "specific d r"
  proof (cases "r \<in> set rs")
    case True
    from all2_right[OF two(1) this] x show ?thesis by (auto simp: specific_def answers_cve_def)
  next
    case False
    with x assms(2) have "r \<in> set ks" by simp
    from all2_right[OF two(2) this] show ?thesis by (auto simp: specific_def answers_cve_def)
  qed
qed (use assms(2) in simp)

lemma from_techniques_specific:
  assumes "from_techniques threat d critical inventory = Inr ts" and "r \<in> set ts" shows "specific d' r"
proof (cases threat)
  case None
  with assms show ?thesis by (simp add: from_techniques_def)
next
  case (Some t)
  with from_techniques_answers(1)[of t d critical inventory ts] assms show ?thesis by (auto simp: specific_def answers_technique_def)
qed

lemma deduplicate_specific:
  assumes "\<And>x. x \<in> set recs \<Longrightarrow> specific d x" and "r \<in> set (deduplicate recs)" shows "specific d r"
proof -
  from assms(2) obtain g gs where g: "same_action (rc_action r) recs = g # gs" and r: "r = merge_group g gs" by (auto simp: deduplicate_mem)
  have "g \<in> set (same_action (rc_action r) recs)" unfolding g by simp
  then have "g \<in> set recs" by simp
  then have sp: "specific d g" by (rule assms(1))
  have "set (su_cve_ids (rc_support g)) \<subseteq> set (su_cve_ids (rc_support r))" unfolding r merge_group_support by auto
  with sp merge_group_contract[of g gs] r show ?thesis by (auto simp: specific_def)
qed

text \<open>How a run that returns got its plan.\<close>

lemma recommend_cases:
  assumes "recommend version rt rd a rq s = (Inr oc, s')"
  obtains (nothing) "read_section rt (pq_threat_assessment rq) = None" "read_section rd (pq_vulnerability_dossier rq) = None"
      "oc = empty_plan version rq [] ''no upstream findings to remediate''"
  | (plan) cs degs ts nts recs where
      "from_cves (pr_advisories a) (read_section rd (pq_vulnerability_dossier rq)) (critical_of rq) s = (Inr (cs, degs), s')"
      "from_techniques (read_section rt (pq_threat_assessment rq)) (read_section rd (pq_vulnerability_dossier rq)) (critical_of rq)
         (inventory_hosts (pq_assets rq)) = Inr ts"
      "oc = finish_plan version (pr_max_recommendations a) rq (read_section rt (pq_threat_assessment rq))
         (read_section rd (pq_vulnerability_dossier rq)) degs nts recs"
      "(deduplicate (cs @ ts) = [] \<and> non_benign (read_section rt (pq_threat_assessment rq)) \<and>
          (\<exists>g. generic_item (the (read_section rt (pq_threat_assessment rq))) (critical_of rq) (inventory_hosts (pq_assets rq)) = Inr g \<and> recs = [g]))
       \<or> (\<not> (deduplicate (cs @ ts) = [] \<and> non_benign (read_section rt (pq_threat_assessment rq))) \<and> recs = deduplicate (cs @ ts))"
      "nts \<in> {[], [generic_note], [nothing_note]}"
proof -
  let ?t = "read_section rt (pq_threat_assessment rq)" and ?d = "read_section rd (pq_vulnerability_dossier rq)"
  show thesis
  proof (cases "?t = None \<and> ?d = None")
    case True
    then have "?t = None" "?d = None" by auto
    moreover have "oc = empty_plan version rq [] ''no upstream findings to remediate''" using True assms by (simp add: recommend_def)
    ultimately show thesis by (rule nothing)
  next
    case False
    with assms obtain cs degs ts s1 where c: "from_cves (pr_advisories a) ?d (critical_of rq) s = (Inr (cs, degs), s1)"
      and t: "from_techniques ?t ?d (critical_of rq) (inventory_hosts (pq_assets rq)) = Inr ts"
      by (auto simp: recommend_def Let_def split: prod.splits sum.splits)
    have "\<not> (?t = None \<and> ?d = None)" by (rule False)
    note run = assms[unfolded recommend_def Let_def if_not_P[OF this] c t prod.case sum.case]
    show ?thesis
    proof (cases "deduplicate (cs @ ts) = [] \<and> non_benign ?t")
      case True
      with run obtain g where "generic_item (the ?t) (critical_of rq) (inventory_hosts (pq_assets rq)) = Inr g"
        and oc: "oc = finish_plan version (pr_max_recommendations a) rq ?t ?d degs [generic_note] [g]" and s1: "s1 = s'"
        by (auto split: sum.splits)
      with True have "(deduplicate (cs @ ts) = [] \<and> non_benign ?t \<and>
          (\<exists>g'. generic_item (the ?t) (critical_of rq) (inventory_hosts (pq_assets rq)) = Inr g' \<and> [g] = [g']))" by blast
      then show thesis using plan[OF c[unfolded s1] t oc] by simp
    next
      case False
      with run have "oc = finish_plan version (pr_max_recommendations a) rq ?t ?d degs
          (if deduplicate (cs @ ts) = [] then [nothing_note] else []) (deduplicate (cs @ ts))" and s1: "s1 = s'" by auto
      then show thesis using plan[OF c[unfolded s1] t] False by (cases "deduplicate (cs @ ts) = []") auto
    qed
  qed
qed

lemma finish_plan_mem: "set (pl_recommendations (ao_output (finish_plan version n rq t d degs nts recs))) \<subseteq> set recs"
  by (auto simp: finish_plan_def Let_def dest: in_set_takeD)

lemma finish_plan_recs: "pl_recommendations (ao_output (finish_plan version n rq t d degs nts recs)) = take n (sort_key by_priority recs)"
  by (simp add: finish_plan_def Let_def)

lemma recommended:
  assumes "recommend version rt rd a rq s = (Inr oc, s')" and "r \<in> set (pl_recommendations (ao_output oc))"
  shows "specific (read_section rd (pq_vulnerability_dossier rq)) r \<or> (contract_ok r \<and> rc_grounding r = Generic \<and> rc_type r = Rt_Mitigation)"
  using assms(1)
proof (cases rule: recommend_cases)
  case nothing
  with assms(2) show ?thesis by (simp add: empty_plan_def)
next
  case (plan cs degs ts nts recs)
  have r: "r \<in> set recs" using finish_plan_mem assms(2) plan(3) by blast
  from plan(4) show ?thesis
  proof (elim disjE conjE exE)
    fix g assume g: "generic_item (the (read_section rt (pq_threat_assessment rq))) (critical_of rq) (inventory_hosts (pq_assets rq)) = Inr g" "recs = [g]"
    with generic_item_Inr[of "the (read_section rt (pq_threat_assessment rq))" "critical_of rq" "inventory_hosts (pq_assets rq)"] r
    show ?thesis by auto
  next
    assume "recs = deduplicate (cs @ ts)"
    then show ?thesis
      using deduplicate_specific[of "cs @ ts" _ r] from_cves_specific[OF plan(1)] from_techniques_specific[OF plan(2)] r by auto
  qed
qed

text \<open>The interface to the advisory source: a lookup answers, with advisories or with a typed failure.\<close>

locale advisory_feed =
  fixes src :: "'s advisory_source"
  assumes answers: "\<exists>x s'. as_fetch src q s = (Inr x, s')"
begin

lemma from_cves_returns: "\<exists>cs degs s'. from_cves src d critical s = (Inr (cs, degs), s')"
proof (cases d)
  case None
  then show ?thesis by (simp add: from_cves_def)
next
  case (Some r)
  obtain rs n s' where c: "confirmed_items src critical (vr_cves r) s = (Inr (rs, n), s')"
    using confirmed_items_returns[of src critical "vr_cves r" s] answers by blast
  have "\<exists>ks. traverse (\<lambda>v. build (verification_template v) v critical False) (vr_candidates r) = Inr ks"
    by (rule traverse_total) (use build_Inr[OF verification_template_facts(3)] in blast)
  then obtain ks where k: "traverse (\<lambda>v. build (verification_template v) v critical False) (vr_candidates r) = Inr ks" by blast
  show ?thesis by (simp add: from_cves_def Some c k)
qed

lemma recommend_returns:
  assumes "pr_advisories a = src" shows "\<exists>oc s'. recommend version rt rd a rq s = (Inr oc, s')"
proof -
  let ?t = "read_section rt (pq_threat_assessment rq)" and ?d = "read_section rd (pq_vulnerability_dossier rq)"
  obtain cs degs s' where c: "from_cves (pr_advisories a) ?d (critical_of rq) s = (Inr (cs, degs), s')"
    using from_cves_returns assms by blast
  obtain ts where t: "from_techniques ?t ?d (critical_of rq) (inventory_hosts (pq_assets rq)) = Inr ts"
    using from_techniques_returns by blast
  obtain g where g: "generic_item (the ?t) (critical_of rq) (inventory_hosts (pq_assets rq)) = Inr g"
    using generic_item_Inr by blast
  show ?thesis by (simp add: recommend_def Let_def c t g)
qed

end

interpretation unavailable_advisory: advisory_feed unavailable_advisories
  by unfold_locales (simp add: unavailable_advisories_def)

interpretation in_memory_advisory: advisory_feed "in_memory_advisories available advisories failures" for available advisories failures
  by unfold_locales (simp add: in_memory_advisories_def)


section \<open>What the plan promises\<close>

text \<open>Sample data for the witnesses: a confirmed CVE on one host, a candidate, and a mapped technique.\<close>

definition sample_record :: "string \<Rightarrow> cve_feed_record" where
  "sample_record i = \<lparr>cve_id = i, affected = [], cr_title = [], cr_summary = [], cr_cvss = None, cr_cwe_ids = [], cr_references = [],
     cr_published_at = None, cr_modified_at = None, cr_source = Nvd, cr_stale = False\<rparr>"

definition sample_assessment :: "string \<Rightarrow> cve_applicability \<Rightarrow> cve_assessment" where
  "sample_assessment i ap = \<lparr>va_record = sample_record i, va_applicability = ap,
     va_evidence = [\<lparr>ae_reason = Version_In_Vulnerable_Range, ae_hostname = Some ''h'', ae_product = Some ''p'',
       ae_installed_version = Some ''1'', ae_matched_range = None, ae_detail = []\<rparr>],
     va_mapping = empty_mapping, va_citations = [], va_confidence = 1\<rparr>"

definition sample_dossier :: research_result where
  "sample_dossier = \<lparr>vr_investigation_id = ''i'', vr_cves = [sample_assessment ''C1'' Confirmed], vr_candidates = [sample_assessment ''C2'' Candidate],
     vr_ruled_out = [], vr_source_freshness = None, vr_stale = False, vr_searched_products = [], vr_confidence = 1\<rparr>"

definition sample_request :: plan_request where
  "sample_request = \<lparr>pq_investigation_id = ''i'', pq_threat_assessment = None, pq_vulnerability_dossier = Some [(''cves'', PNone)],
     pq_assets = [], pq_critical_assets = [], pq_max_recommendations = 20\<rparr>"

definition sample_agent :: "unit patch_recommender" where
  "sample_agent = \<lparr>pr_advisories = unavailable_advisories, pr_max_recommendations = 20\<rparr>"

abbreviation sample_run :: "(py_error + remediation_plan agent_outcome) \<times> unit" where
  "sample_run \<equiv> recommend None (\<lambda>_. None) (\<lambda>_. Some sample_dossier) sample_agent sample_request ()"

lemma sample_returns: "\<exists>oc s'. sample_run = (Inr oc, s')"
  by (rule unavailable_advisory.recommend_returns) (simp add: sample_agent_def)

text \<open>C23: 
  The agent returns a plan whenever its advisory source answers: no upstream finding, however incomplete, makes it
  build a recommendation that its own contract refuses, and every recommendation of the plan gives a reason, cites a
  source, requires human approval and is pending.
\<close>
theorem plan_returned_and_pending:
  assumes "\<And>q s. \<exists>x s'. as_fetch (pr_advisories a) q s = (Inr x, s')"
  shows "\<exists>oc s'. recommend version rt rd a rq s = (Inr oc, s') \<and>
    list_all (\<lambda>r. strip (rc_rationale r) \<noteq> [] \<and> rc_citations r \<noteq> [] \<and> rc_requires_human_approval r \<and> rc_approval_status r = Ap_Pending)
      (pl_recommendations (ao_output oc))"
proof -
  have "advisory_feed (pr_advisories a)" using assms by unfold_locales
  from advisory_feed.recommend_returns[OF this refl, of version rt rd rq s]
  obtain oc s' where run: "recommend version rt rd a rq s = (Inr oc, s')" by blast
  have "contract_ok r" if "r \<in> set (pl_recommendations (ao_output oc))" for r
    using recommended[OF run that] by (auto simp: specific_def)
  with run show ?thesis by (auto simp: list_all_iff contract_ok_def)
qed

theorem plan_returned_and_pending_witness:
  "\<exists>oc s'. sample_run = (Inr oc, s') \<and>
    list_all (\<lambda>r. strip (rc_rationale r) \<noteq> [] \<and> rc_citations r \<noteq> [] \<and> rc_requires_human_approval r \<and> rc_approval_status r = Ap_Pending)
      (pl_recommendations (ao_output oc))"
  by (rule plan_returned_and_pending) (simp add: sample_agent_def unavailable_advisories_def)

text \<open>
  A patch is recommended only for a CVE that was confirmed: every recommendation typed as a patch answers an
  assessment among the dossier's confirmed CVEs, so a candidate or an observed technique never enters the
  change-management queue as a patch.
\<close>
theorem patches_answer_confirmed_cves:
  assumes "recommend version rt rd a rq s = (Inr oc, s')"
  shows "list_all (\<lambda>r. rc_type r \<noteq> Rt_Patch \<or> (case read_section rd (pq_vulnerability_dossier rq) of
      None \<Rightarrow> False
    | Some d \<Rightarrow> list_ex (\<lambda>v. cve_id (va_record v) \<in> set (su_cve_ids (rc_support r))) (vr_cves d))) (pl_recommendations (ao_output oc))"
  unfolding list_all_iff
proof
  fix r assume "r \<in> set (pl_recommendations (ao_output oc))"
  from recommended[OF assms this]
  show "rc_type r \<noteq> Rt_Patch \<or> (case read_section rd (pq_vulnerability_dossier rq) of
      None \<Rightarrow> False
    | Some d \<Rightarrow> list_ex (\<lambda>v. cve_id (va_record v) \<in> set (su_cve_ids (rc_support r))) (vr_cves d))"
    by (auto simp: specific_def list_ex_iff split: option.splits)
qed

theorem patches_answer_confirmed_cves_witness:
  "\<exists>oc s'. sample_run = (Inr oc, s') \<and>
    list_all (\<lambda>r. rc_type r \<noteq> Rt_Patch \<or> ''C1'' \<in> set (su_cve_ids (rc_support r))) (pl_recommendations (ao_output oc))"
proof -
  obtain oc s' where run: "sample_run = (Inr oc, s')" using sample_returns by blast
  show ?thesis using run patches_answer_confirmed_cves[OF run]
    by (auto simp: read_section_def sample_request_def sample_dossier_def sample_assessment_def sample_record_def)
qed

text \<open>Every finding reaches the recommendations before any is held back.\<close>

lemma finding_in_recs:
  assumes "x \<in> set items"
  shows "\<exists>r \<in> set (deduplicate items). set (su_cve_ids (rc_support x)) \<subseteq> set (su_cve_ids (rc_support r)) \<and>
    set (su_technique_ids (rc_support x)) \<subseteq> set (su_technique_ids (rc_support r))"
proof -
  have "rc_action x \<in> rc_action ` set (deduplicate items)" using assms by (simp add: deduplicate_actions)
  then obtain r where r: "r \<in> set (deduplicate items)" "rc_action r = rc_action x" by auto
  from r(1) obtain g gs where g: "same_action (rc_action r) items = g # gs" "r = merge_group g gs" unfolding deduplicate_mem by blast
  have "x \<in> set (same_action (rc_action r) items)" using assms r by simp
  then have "x \<in> set (g # gs)" by (simp only: g(1))
  then show ?thesis using r(1) unfolding g(2) by (intro bexI[of _ "merge_group g gs"]) (auto simp only: merge_group_support)
qed

text \<open>A plan that leaves something out says so in its notes.\<close>

definition says_held_back :: "remediation_plan \<Rightarrow> bool" where
  "says_held_back plan = list_ex (py_in ''were held back'') (pl_notes plan)"

lemma held_note: "py_in ''were held back'' (show_nat k @ '' lower-priority recommendation(s) were held back to keep the plan actionable; re-run to see the full list.'')"
proof -
  have "py_in ''were held back'' '' lower-priority recommendation(s) were held back to keep the plan actionable; re-run to see the full list.''" by code_simp
  then show ?thesis unfolding py_in_sublist by (rule sublist_order.order_trans) (rule sublist_append_leftI)
qed

lemma unheld:
  assumes "\<not> says_held_back (ao_output (finish_plan version n rq t d degs nts recs))"
  shows "set (pl_recommendations (ao_output (finish_plan version n rq t d degs nts recs))) = set recs"
proof -
  let ?o = "finish_plan version n rq t d degs nts recs"
  have "\<not> n < length recs"
  proof
    assume "n < length recs"
    then have "show_nat (length recs - n) @ '' lower-priority recommendation(s) were held back to keep the plan actionable; re-run to see the full list.''
        \<in> set (pl_notes (ao_output ?o))" by (simp add: finish_plan_def Let_def)
    then show False using assms held_note unfolding says_held_back_def list_ex_iff by blast
  qed
  then show ?thesis unfolding finish_plan_recs by simp
qed

lemma plan_has_recs:
  assumes "recommend version rt rd a rq s = (Inr oc, s')" and "\<not> says_held_back (ao_output oc)"
    and "\<not> (read_section rt (pq_threat_assessment rq) = None \<and> read_section rd (pq_vulnerability_dossier rq) = None)"
  obtains cs degs ts where
    "from_cves (pr_advisories a) (read_section rd (pq_vulnerability_dossier rq)) (critical_of rq) s = (Inr (cs, degs), s')"
    "from_techniques (read_section rt (pq_threat_assessment rq)) (read_section rd (pq_vulnerability_dossier rq)) (critical_of rq)
         (inventory_hosts (pq_assets rq)) = Inr ts"
    "set (deduplicate (cs @ ts)) \<subseteq> set (pl_recommendations (ao_output oc))"
  using assms(1)
proof (cases rule: recommend_cases)
  case nothing
  with assms(3) show ?thesis by simp
next
  case (plan cs degs ts nts recs)
  have "set (pl_recommendations (ao_output oc)) = set recs" using unheld assms(2) unfolding plan(3) by blast
  moreover have "set (deduplicate (cs @ ts)) \<subseteq> set recs" using plan(4) by auto
  ultimately show ?thesis using that[OF plan(1,2)] by simp
qed

text \<open>C22: 
  The plan answers every finding: unless a note of the plan says that recommendations were held back, each confirmed CVE and each candidate of the
  dossier is named in the support of some recommendation, and so is each technique of the threat assessment that is in
  the ATT\&CK catalogue.
\<close>
theorem plan_answers_every_finding:
  assumes "recommend version rt rd a rq s = (Inr oc, s')"
    and "\<not> says_held_back (ao_output oc)"
  shows "(case read_section rd (pq_vulnerability_dossier rq) of None \<Rightarrow> True | Some d \<Rightarrow>
      list_all (\<lambda>v. list_ex (\<lambda>r. cve_id (va_record v) \<in> set (su_cve_ids (rc_support r))) (pl_recommendations (ao_output oc)))
        (vr_cves d @ vr_candidates d))
    \<and> (case read_section rt (pq_threat_assessment rq) of None \<Rightarrow> True | Some t \<Rightarrow>
      list_all (\<lambda>m. list_ex (\<lambda>r. tm_technique_id m \<in> set (su_technique_ids (rc_support r))) (pl_recommendations (ao_output oc)))
        (filter (\<lambda>m. known_technique (tm_technique_id m) \<noteq> None) (dt_techniques t)))"
proof (cases "read_section rt (pq_threat_assessment rq) = None \<and> read_section rd (pq_vulnerability_dossier rq) = None")
  case False
  let ?t = "read_section rt (pq_threat_assessment rq)" and ?d = "read_section rd (pq_vulnerability_dossier rq)"
  let ?plan = "pl_recommendations (ao_output oc)"
  obtain cs degs ts where c: "from_cves (pr_advisories a) ?d (critical_of rq) s = (Inr (cs, degs), s')"
    and t: "from_techniques ?t ?d (critical_of rq) (inventory_hosts (pq_assets rq)) = Inr ts"
    and sub: "set (deduplicate (cs @ ts)) \<subseteq> set ?plan"
    using plan_has_recs[OF assms False] .
  have carried: "\<exists>r \<in> set ?plan. set (su_cve_ids (rc_support x)) \<subseteq> set (su_cve_ids (rc_support r)) \<and>
      set (su_technique_ids (rc_support x)) \<subseteq> set (su_technique_ids (rc_support r))" if "x \<in> set (cs @ ts)" for x
    using finding_in_recs[OF that] sub by blast
  have cve: "\<exists>r \<in> set ?plan. cve_id (va_record v) \<in> set (su_cve_ids (rc_support r))"
    if d: "?d = Some d" and v: "v \<in> set (vr_cves d @ vr_candidates d)" for d v
  proof -
    obtain rs ks where "cs = rs @ ks" "list_all2 (answers_cve (critical_of rq) True) (vr_cves d) rs"
      "list_all2 (answers_cve (critical_of rq) False) (vr_candidates d) ks"
      using from_cves_cases[OF c] d by auto
    then obtain x where "x \<in> set cs" "su_cve_ids (rc_support x) = [cve_id (va_record v)]"
      using v all2_left[of _ "vr_cves d" rs v] all2_left[of _ "vr_candidates d" ks v] by (fastforce simp: answers_cve_def)
    then show ?thesis using carried[of x] by auto
  qed
  have tech: "\<exists>r \<in> set ?plan. tm_technique_id m \<in> set (su_technique_ids (rc_support r))"
    if th: "?t = Some th" and m: "m \<in> set (dt_techniques th)" "known_technique (tm_technique_id m) \<noteq> None" for th m
  proof -
    have "for_technique (tm_technique_id m) \<noteq> None" using m(2) by (simp only: for_technique_iff_known simp_thms)
    then obtain x where "x \<in> set ts" "tm_technique_id m \<in> set (su_technique_ids (rc_support x))"
      using from_techniques_answers(2)[OF t[unfolded th]] m(1) by (auto simp: answers_technique_def)
    then show ?thesis using carried[of x] by auto
  qed
  show ?thesis using cve tech by (simp only: list_all_iff list_ex_iff set_filter split: option.splits) blast
qed simp


text \<open>
  A witness that a run of the sample holds nothing back: two findings, at most twenty recommendations.
\<close>

lemma dedup_length: "length (deduplicate items) \<le> length items"
proof -
  have "length (deduplicate items) = card (rc_action ` set (deduplicate items))"
    using deduplicate_actions(1)[of items] by (metis distinct_card length_map set_map)
  also have "\<dots> \<le> card (set items)" by (simp add: deduplicate_actions card_image_le)
  finally show ?thesis using card_length[of items] by linarith
qed

lemma sample_room:
  assumes "sample_run = (Inr oc, s')"
  shows "\<not> says_held_back (ao_output oc)"
  using assms
proof (cases rule: recommend_cases)
  case nothing
  then show ?thesis by (simp add: read_section_def sample_request_def)
next
  case (plan cs degs ts nts recs)
  have d: "read_section (\<lambda>_. Some sample_dossier) (pq_vulnerability_dossier sample_request) = Some sample_dossier"
    and t: "read_section (\<lambda>_. None) (pq_threat_assessment sample_request) = (None :: detection_result option)"
    by (simp_all add: read_section_def sample_request_def)
  obtain rs ks where cs: "cs = rs @ ks" "list_all2 (answers_cve (critical_of sample_request) True) (vr_cves sample_dossier) rs"
    "list_all2 (answers_cve (critical_of sample_request) False) (vr_candidates sample_dossier) ks"
    using from_cves_cases[OF plan(1)] d by auto
  have "length cs = 2" using cs list_all2_lengthD[OF cs(2)] list_all2_lengthD[OF cs(3)] by (simp add: sample_dossier_def)
  moreover have "ts = []" using plan(2) t by (simp add: from_techniques_def)
  moreover have "recs = deduplicate (cs @ ts)" using plan(4) t by (auto simp: non_benign_def)
  ultimately have "length recs \<le> 2" using dedup_length[of cs] by simp
  then have "pl_notes (ao_output oc) = nts" unfolding plan(3) by (simp add: finish_plan_def Let_def sample_agent_def)
  moreover have "\<not> py_in ''were held back'' generic_note" "\<not> py_in ''were held back'' nothing_note" unfolding generic_note_def nothing_note_def by code_simp+
  ultimately show ?thesis using plan(5) by (auto simp: says_held_back_def)
qed

theorem plan_answers_every_finding_witness:
  "\<exists>oc s'. sample_run = (Inr oc, s') \<and>
    list_all (\<lambda>v. list_ex (\<lambda>r. cve_id (va_record v) \<in> set (su_cve_ids (rc_support r))) (pl_recommendations (ao_output oc)))
      [sample_assessment ''C1'' Confirmed, sample_assessment ''C2'' Candidate]"
proof -
  obtain oc s' where run: "sample_run = (Inr oc, s')" using sample_returns by blast
  show ?thesis using run plan_answers_every_finding[OF run sample_room[OF run]]
    by (auto simp: read_section_def sample_request_def sample_dossier_def)
qed

lemma finish_plan_risk: "pl_overall_risk (ao_output (finish_plan version n rq t d degs nts recs)) =
    combine_risk (map rc_risk (take n (sort_key by_priority recs))) (''investigation '' @ pq_investigation_id rq)"
  by (simp add: finish_plan_def Let_def)

lemma finish_plan_notes: "length (pl_notes (ao_output (finish_plan version n rq t d degs nts recs))) =
    length nts + (if drop n (sort_key by_priority recs) = [] then 0 else 1)"
  by (simp add: finish_plan_def Let_def)

text \<open>
  The plan is in order of urgency and holds back only what is less urgent: it lists the most urgent first (by priority,
  then by risk, then by action), keeps as many as the limit allows, drops none of the others outright but holds them
  back behind every kept one, says in its notes that it did, and reports as overall risk the highest risk kept.
\<close>
theorem plan_in_order_of_urgency:
  "let plan = ao_output (finish_plan version limit rq threat d degs nts recs); kept = pl_recommendations plan;
       held = drop limit (sort_key by_priority recs) in
   sorted (map by_priority kept) \<and> mset (kept @ held) = mset recs
   \<and> list_all (\<lambda>k. list_all (\<lambda>h. by_priority k \<le> by_priority h) held) kept
   \<and> (length (pl_notes plan) = length nts + (if held = [] then 0 else 1))
   \<and> (case kept of [] \<Rightarrow> rs_score (pl_overall_risk plan) = 0
      | _ \<Rightarrow> rs_score (pl_overall_risk plan) = Max ((rs_score \<circ> rc_risk) ` set kept))"
proof -
  let ?all = "sort_key by_priority recs"
  have srt: "sorted (map by_priority ?all)" by simp
  have risk: "rs_score (combine_risk (map rc_risk (k # ks)) subj) = Max ((rs_score \<circ> rc_risk) ` set (k # ks))" for k ks subj
  proof -
    have mem: "max_by rs_score (rc_risk k) (map rc_risk ks) \<in> rc_risk ` set (k # ks)"
      using max_by_mem[of rs_score "rc_risk k" "map rc_risk ks"] by auto
    have "\<forall>x \<in> set (k # ks). rs_score (rc_risk x) \<le> rs_score (max_by rs_score (rc_risk k) (map rc_risk ks))"
      by (auto intro!: max_by_ge)
    with mem show ?thesis by (intro Max_eqI[symmetric]) (auto simp: combine_risk_def Let_def)
  qed
  have worst: "case kept of [] \<Rightarrow> rs_score (combine_risk (map rc_risk kept) subj) = 0
      | _ \<Rightarrow> rs_score (combine_risk (map rc_risk kept) subj) = Max ((rs_score \<circ> rc_risk) ` set kept)" for kept subj
    using risk by (cases kept) (simp add: combine_risk_def, simp only: list.case)
  have ord: "sorted (map by_priority (take limit ?all))" by (simp add: take_map[symmetric] sorted_wrt_take)
  have all: "mset (take limit ?all @ drop limit ?all) = mset recs" by (simp only: append_take_drop_id mset_sort)
  have held: "list_all (\<lambda>k. list_all (\<lambda>h. by_priority k \<le> by_priority h) (drop limit ?all)) (take limit ?all)"
    using take_sorted_le[OF srt] by (simp add: list_all_iff)
  show ?thesis
    unfolding Let_def finish_plan_recs finish_plan_risk finish_plan_notes by (intro conjI ord all held worst refl)
qed

lemma finish_plan_limited: "pl_knowledge_limited (ao_output (finish_plan version n rq t d degs nts recs)) \<longleftrightarrow>
    take n (sort_key by_priority recs) \<noteq> [] \<and> list_all (\<lambda>r. rc_grounding r = Generic) (take n (sort_key by_priority recs))"
  by (simp add: finish_plan_def Let_def)

lemma deduplicate_Nil_iff: "deduplicate items = [] \<longleftrightarrow> items = []"
  using deduplicate_actions(2)[of items] by (metis image_is_empty set_empty)

lemma from_cves_Nil_iff:
  assumes "from_cves src d critical s = (Inr (cs, degs), s')"
  shows "cs = [] \<longleftrightarrow> (case d of None \<Rightarrow> True | Some r \<Rightarrow> vr_cves r = [] \<and> vr_candidates r = [])"
  using from_cves_cases[OF assms] by (fastforce dest: list_all2_lengthD)

lemma from_techniques_Nil_iff:
  assumes "from_techniques (Some t) d critical inventory = Inr ts"
  shows "ts = [] \<longleftrightarrow> list_all (\<lambda>m. known_technique (tm_technique_id m) = None) (dt_techniques t)"
proof -
  have "ts = [] \<longleftrightarrow> guided (dt_techniques t) = []"
    using assms traverse_length by (fastforce simp: from_techniques_def Let_def)
  also have "\<dots> \<longleftrightarrow> set (guided (dt_techniques t)) = {}" by simp
  also have "\<dots> \<longleftrightarrow> (\<forall>m \<in> set (dt_techniques t). for_technique (tm_technique_id m) = None)" unfolding guided_set by auto
  also have "\<dots> \<longleftrightarrow> (\<forall>m \<in> set (dt_techniques t). known_technique (tm_technique_id m) = None)"
    using for_technique_iff_known by blast
  finally show ?thesis by (simp only: list_all_iff)
qed

text \<open>
  Generic advice is labelled exactly when it is all there is: with a threat assessment at hand, the plan is marked as
  knowledge-limited exactly when the verdict is not benign, the dossier names neither a confirmed CVE nor a
  candidate, and no observed technique is in the catalogue. No specific recommendation is ever hidden behind
  the label, and no generic one appears without it.
\<close>
theorem knowledge_limited_exactly:
  assumes run: "recommend version rt rd a rq s = (Inr oc, s')" and t: "read_section rt (pq_threat_assessment rq) = Some t"
    and limit: "0 < pr_max_recommendations a"
  shows "pl_knowledge_limited (ao_output oc) = (dt_verdict t \<noteq> Benign \<and>
      (case read_section rd (pq_vulnerability_dossier rq) of None \<Rightarrow> True | Some d \<Rightarrow> vr_cves d = [] \<and> vr_candidates d = []) \<and>
      list_all (\<lambda>m. known_technique (tm_technique_id m) = None) (dt_techniques t))"
  using run
proof (cases rule: recommend_cases)
  case nothing
  with t show ?thesis by simp
next
  case (plan cs degs ts nts recs)
  let ?none = "deduplicate (cs @ ts) = []"
  have none: "?none \<longleftrightarrow> (case read_section rd (pq_vulnerability_dossier rq) of None \<Rightarrow> True | Some d \<Rightarrow> vr_cves d = [] \<and> vr_candidates d = []) \<and>
      list_all (\<lambda>m. known_technique (tm_technique_id m) = None) (dt_techniques t)"
    using from_cves_Nil_iff[OF plan(1)] from_techniques_Nil_iff[OF plan(2)[unfolded t]] by (simp add: deduplicate_Nil_iff)
  have nb: "non_benign (read_section rt (pq_threat_assessment rq)) \<longleftrightarrow> dt_verdict t \<noteq> Benign" by (simp add: t non_benign_def)
  have spec: "specific (read_section rd (pq_vulnerability_dossier rq)) r" if "r \<in> set (deduplicate (cs @ ts))" for r
    by (rule deduplicate_specific[OF _ that]) (use from_cves_specific[OF plan(1)] from_techniques_specific[OF plan(2)] in auto)
  have "pl_knowledge_limited (ao_output oc) \<longleftrightarrow> ?none \<and> dt_verdict t \<noteq> Benign"
  proof (cases "?none \<and> dt_verdict t \<noteq> Benign")
    case True
    with plan(4) nb obtain g where "generic_item t (critical_of rq) (inventory_hosts (pq_assets rq)) = Inr g" "recs = [g]"
      by (auto simp: t)
    then have "rc_grounding g = Generic" "recs = [g]"
      using generic_item_Inr[of t "critical_of rq" "inventory_hosts (pq_assets rq)"] by auto
    then show ?thesis using True limit unfolding plan(3) finish_plan_limited by simp
  next
    case False
    then have "recs = deduplicate (cs @ ts)" using plan(4) nb by auto
    then have "r \<in> set (take (pr_max_recommendations a) (sort_key by_priority recs)) \<Longrightarrow> rc_grounding r \<noteq> Generic" for r
      using spec[of r] by (auto simp: specific_def dest: in_set_takeD)
    then have "\<not> (take (pr_max_recommendations a) (sort_key by_priority recs) \<noteq> [] \<and>
        list_all (\<lambda>r. rc_grounding r = Generic) (take (pr_max_recommendations a) (sort_key by_priority recs)))"
      by (cases "take (pr_max_recommendations a) (sort_key by_priority recs)") auto
    with False show ?thesis unfolding plan(3) finish_plan_limited by blast
  qed
  with none show ?thesis by blast
qed

definition sample_threat :: detection_result where
  "sample_threat = \<lparr>dt_investigation_id = ''i'', dt_verdict = Suspicious,
     dt_severity = \<lparr>sa_score = 5, sa_level = Sev_Medium, sa_rationale = [], sa_factors = []\<rparr>, dt_priority = Prio_Medium,
     dt_iocs = [], dt_techniques = [], dt_signals = [], dt_claims = [], dt_enrichment_status = Enrichment_Unavailable,
     dt_escalation_required = False, dt_escalation_reason = None, dt_knowledge_grounded = False, dt_citations = [], dt_confidence = 1\<rparr>"

theorem knowledge_limited_exactly_witness:
  "\<exists>oc s'. recommend None (\<lambda>_. Some sample_threat) (\<lambda>_. None) sample_agent
      (sample_request\<lparr>pq_threat_assessment := Some [(''x'', PNone)]\<rparr>) () = (Inr oc, s') \<and> pl_knowledge_limited (ao_output oc)"
proof -
  let ?rq = "sample_request\<lparr>pq_threat_assessment := Some [(''x'', PNone)]\<rparr>"
  obtain oc s' where run: "recommend None (\<lambda>_. Some sample_threat) (\<lambda>_. None) sample_agent ?rq () = (Inr oc, s')"
    using unavailable_advisory.recommend_returns[of sample_agent None "\<lambda>_. Some sample_threat" "\<lambda>_. None" ?rq "()"]
    by (auto simp: sample_agent_def)
  have t: "read_section (\<lambda>_. Some sample_threat) (pq_threat_assessment ?rq) = Some sample_threat" by (simp add: read_section_def)
  show ?thesis using run knowledge_limited_exactly[OF run t]
    by (simp add: sample_agent_def read_section_def sample_request_def sample_threat_def)
qed

text \<open>
  Every behavioural recommendation is urgent, whatever its risk score: exploitation counts as observed for each, and that forces
  the top priority. The priority therefore does not separate one behavioural mitigation from another; only the risk score does.
\<close>
theorem technique_items_all_urgent:
  "case from_techniques threat d critical inventory of Inl _ \<Rightarrow> False | Inr ts \<Rightarrow> list_all (\<lambda>r. rc_priority r = Prio_Urgent) ts"
proof -
  obtain ts where ts: "from_techniques threat d critical inventory = Inr ts" using from_techniques_returns by blast
  show ?thesis
  proof (cases threat)
    case None
    with ts show ?thesis by (auto simp: from_techniques_def)
  next
    case (Some t)
    show ?thesis using from_techniques_answers(1)[OF ts[unfolded Some]] ts by (auto simp: list_all_iff answers_technique_def)
  qed
qed

text \<open>The limit a request carries is never read: only the agent's own limit bounds the plan.\<close>

lemma request_limit_ignored:
  "recommend version rt rd a (rq\<lparr>pq_max_recommendations := n\<rparr>) s = recommend version rt rd a rq s"
proof -
  let ?rq = "rq\<lparr>pq_max_recommendations := n\<rparr>"
  have "finish_plan version k ?rq t d g nts recs = finish_plan version k rq t d g nts recs" for k t d g nts recs
    by (simp add: finish_plan_def)
  moreover have "empty_plan version ?rq g x = empty_plan version rq g x" for g x by (simp add: empty_plan_def)
  moreover have "pq_threat_assessment ?rq = pq_threat_assessment rq" "pq_vulnerability_dossier ?rq = pq_vulnerability_dossier rq"
    "pq_critical_assets ?rq = pq_critical_assets rq" "pq_assets ?rq = pq_assets rq" by simp_all
  ultimately show ?thesis by (simp only: recommend_def)
qed

end
