(* ===== verification/Incident_Reporter.thy ===== *)
theory Incident_Reporter
  imports Report_Render Threat_Detector Patch_Recommender
begin

text \<open>
  The Incident Reporter (\<^verbatim>\<open>agents/incident_reporter/reporter.py\<close>): assemble, restate, caveat, render. The upstream sections arrive
  serialised and their contracts are arguments, as in the other agents. Shown: every finding rests on identifiers that an
  upstream section produced, every missing section is stated, candidates never appear as findings, and the report is
  always built.
\<close>

section \<open>The request\<close>

record report_request =
  iq_investigation_id :: string
  iq_title :: "string option"
  iq_log_analysis :: "mapping option"
  iq_threat_assessment :: "mapping option"
  iq_vulnerability_dossier :: "mapping option"
  iq_critical_assets :: "string list"
  iq_max_timeline_entries :: nat

definition LOW_CONFIDENCE_THRESHOLD :: pyfloat where
  "LOW_CONFIDENCE_THRESHOLD = rnd (6 / 10)"


section \<open>Reading upstream state\<close>

definition validate_each :: "(pyval \<Rightarrow> 'r option) \<Rightarrow> pyval \<Rightarrow> 'r list" where
  "validate_each validate payload = (case payload of PList xs \<Rightarrow> List.map_filter validate xs | _ \<Rightarrow> [])"

definition read_log_analysis :: "(pyval \<Rightarrow> normalized_event option) \<Rightarrow> (pyval \<Rightarrow> timeline_entry option) \<Rightarrow> mapping option
    \<Rightarrow> py_error + normalized_event list \<times> timeline_entry list \<times> string list" where
  "read_log_analysis read_event read_entry payload =
     (let d = (case payload of None \<Rightarrow> [] | Some d \<Rightarrow> d) in
      and_then (try_iter (or_val (pget_or d ''coverage_gaps'' (PList [])) (PList [])))
        (\<lambda>xs. Inr (validate_each read_event (pget d ''events''), validate_each read_entry (pget d ''timeline''), map str_val (filter truth xs))))"

definition sections_present :: "report_request \<Rightarrow> detection_result option \<Rightarrow> research_result option \<Rightarrow> report_section list" where
  "sections_present rq threat d =
     (if truthy (iq_log_analysis rq) then [Sec_Evidence] else []) @ (if threat \<noteq> None then [Sec_Threat] else [])
     @ (if d \<noteq> None then [Sec_Vulnerability] else [])"

definition sections_expected :: "detection_result option \<Rightarrow> report_section list" where
  "sections_expected threat = [Sec_Evidence, Sec_Threat] @ (if non_benign threat then [Sec_Vulnerability] else [])"

text \<open>\<^verbatim>\<open>expected - sections\<close>, in the order of the section names, which is the order of the lists above.\<close>

definition missing_sections :: "detection_result option \<Rightarrow> report_section list \<Rightarrow> report_section list" where
  "missing_sections threat present = filter (\<lambda>s. s \<notin> set present) (sections_expected threat)"

definition missing_section_caveat :: "report_section \<Rightarrow> report_caveat" where
  "missing_section_caveat s = \<lparr>cv_kind = Missing_Section, cv_section = s,
     cv_detail = ''the '' @ section_value s @ '' section is missing from this report; the upstream stage produced nothing readable, so the report is assembled without it''\<rparr>"

definition truncation_caveats :: "nat \<Rightarrow> nat \<Rightarrow> report_caveat list" where
  "truncation_caveats omitted kept = (if omitted = 0 then [] else [\<lparr>cv_kind = Timeline_Truncated, cv_section = Sec_Evidence,
     cv_detail = show_nat omitted @ '' of '' @ show_nat (omitted + kept)
       @ '' timeline entries were omitted; the most notable were retained and the full sequence remains in the investigation record''\<rparr>])"

definition evidence_caveats :: "string list \<Rightarrow> report_caveat list" where
  "evidence_caveats gaps = map (\<lambda>g. \<lparr>cv_kind = Caveat_Coverage_Gap, cv_section = Sec_Evidence, cv_detail = g\<rparr>) gaps"

definition threat_caveats :: "pyfloat \<Rightarrow> detection_result option \<Rightarrow> report_caveat list" where
  "threat_caveats low threat = (case threat of None \<Rightarrow> [] | Some t \<Rightarrow>
     (if dt_confidence t < low then [\<lparr>cv_kind = Low_Confidence, cv_section = Sec_Threat,
        cv_detail = ''the threat assessment was reached with '' @ percent (dt_confidence t) @ '' confidence; treat the verdict as provisional''\<rparr>] else [])
     @ (if dt_enrichment_status t \<noteq> Enrichment_Complete then [\<lparr>cv_kind = Degraded_Enrichment, cv_section = Sec_Threat,
        cv_detail = ''indicator reputation was '' @ enrichment_value (dt_enrichment_status t)
          @ ''; indicators without a named source are unchecked, not clean''\<rparr>] else [])
     @ (if dt_escalation_required t \<and> truthy (dt_escalation_reason t) then [\<lparr>cv_kind = Escalation_Required, cv_section = Sec_Threat,
        cv_detail = the (dt_escalation_reason t)\<rparr>] else []))"

definition vulnerability_caveats :: "research_result option \<Rightarrow> report_caveat list" where
  "vulnerability_caveats d = (case d of None \<Rightarrow> [] | Some r \<Rightarrow>
     (if vr_stale r then [\<lparr>cv_kind = Stale_Research, cv_section = Sec_Vulnerability,
        cv_detail = ''vulnerability research did not rest on the live feed; some or all records came from the indexed corpus and may be out of date''\<rparr>] else [])
     @ (if vr_candidates r \<noteq> [] then [\<lparr>cv_kind = Unconfirmed_Applicability, cv_section = Sec_Vulnerability,
        cv_detail = show_nat (length (vr_candidates r))
          @ '' vulnerability candidate(s) could not be confirmed against the asset inventory and require manual checking''\<rparr>] else []))"

definition report_confidence :: "detection_result option \<Rightarrow> research_result option \<Rightarrow> report_section list \<Rightarrow> report_section list \<Rightarrow> pyfloat" where
  "report_confidence threat d expected present =
     (let upstream = (case threat of None \<Rightarrow> [] | Some t \<Rightarrow> [dt_confidence t]) @ (case d of None \<Rightarrow> [] | Some r \<Rightarrow> [vr_confidence r]) in
      if upstream = [] \<or> expected = [] then 0
      else let completeness = rnd (of_nat (length (filter (\<lambda>s. s \<in> set present) expected)) / of_nat (length expected)) in
        unit_round 4 (rnd (rnd (py_sum upstream / of_nat (length upstream)) * completeness)))"


section \<open>Findings\<close>

text \<open>The validator of \<^verbatim>\<open>ReportFinding\<close> and the range of its confidence: a finding that fails one raises.\<close>

definition finding_ok :: "report_finding \<Rightarrow> bool" where
  "finding_ok f = (\<not> finding_support_empty (fi_support f) \<and> 0 \<le> fi_confidence f \<and> fi_confidence f \<le> 1)"

definition checked_finding :: "report_finding \<Rightarrow> py_error + report_finding" where
  "checked_finding f = (if finding_ok f then Inr f else Inl Value_Error)"

definition evidence_findings :: "normalized_event list \<Rightarrow> timeline_entry list \<Rightarrow> report_finding list" where
  "evidence_findings events entries = (if events = [] then [] else
     let sources = sorted_set (map source_id events); hosts = sorted_set (map (the \<circ> host) (filter (truthy \<circ> host) events)) in
     [\<lparr>fi_section = Sec_Evidence, fi_title = show_nat (length events) @ '' security-relevant events normalized'',
       fi_detail = ''Evidence was collected from '' @ show_nat (length sources) @ '' source(s) ('' @ join '', '' sources @ '') and normalized into ''
         @ show_nat (length entries) @ '' timeline entries across '' @ (if hosts = [] then ''no identified'' else show_nat (length hosts)) @ '' host(s)''
         @ (if hosts = [] then ''.'' else '': '' @ join '', '' hosts @ ''.''),
       fi_support = no_finding_support\<lparr>fs_event_ids := map event_id events\<rparr>,
       fi_confidence = py_round 4 (rnd (py_sum (map confidence events) / of_nat (length events))), fi_citations = []\<rparr>])"

definition signal_finding :: "detection_result \<Rightarrow> detection_signal \<Rightarrow> report_finding" where
  "signal_finding t g = \<lparr>fi_section = Sec_Threat, fi_title = sig_name g, fi_detail = sig_description g @ '' Observed: '' @ sig_detail g,
     fi_support = no_finding_support\<lparr>fs_event_ids := sig_event_ids g, fs_signal_rule_ids := [rule_id g], fs_technique_ids := sig_technique_ids g\<rparr>,
     fi_confidence = dt_confidence t, fi_citations = []\<rparr>"

definition indicator_finding :: "detection_result \<Rightarrow> ioc_indicator \<Rightarrow> report_finding" where
  "indicator_finding t i = \<lparr>fi_section = Sec_Threat, fi_title = ''Indicator reported as '' @ reputation_value (reputation i),
     fi_detail = none_text (reputation_source i) @ '' reported '' @ ioc_defanged i @ '' as '' @ reputation_value (reputation i)
       @ '' ('' @ none_text (reputation_detail i) @ '').'',
     fi_support = no_finding_support\<lparr>fs_event_ids := ioc_event_ids i, fs_indicator_values := [ioc_defanged i]\<rparr>,
     fi_confidence = dt_confidence t, fi_citations = []\<rparr>"

definition threat_findings :: "detection_result option \<Rightarrow> report_finding list" where
  "threat_findings threat = (case threat of None \<Rightarrow> [] | Some t \<Rightarrow>
     map (signal_finding t) (dt_signals t) @ map (indicator_finding t) (filter is_hostile (dt_iocs t)))"

definition vulnerability_finding :: "cve_assessment \<Rightarrow> report_finding" where
  "vulnerability_finding v =
     (let r = va_record v;
          score = (case cr_cvss r of Some c \<Rightarrow> '' CVSS '' @ float_str (cm_base_score c) @ ''/10.'' | None \<Rightarrow> []);
          evidence = join '' '' (filter (\<lambda>x. x \<noteq> []) (map ae_detail (va_evidence v))) in
      \<lparr>fi_section = Sec_Vulnerability, fi_title = cve_id r @ '' confirmed applicable'',
       fi_detail = strip (cr_summary r @ score @ '' '' @ evidence),
       fi_support = no_finding_support\<lparr>fs_cve_ids := [cve_id r], fs_event_ids := em_event_ids (va_mapping v),
         fs_technique_ids := em_technique_ids (va_mapping v)\<rparr>,
       fi_confidence = va_confidence v, fi_citations = va_citations v\<rparr>)"

definition vulnerability_findings :: "research_result option \<Rightarrow> report_finding list" where
  "vulnerability_findings d = (case d of None \<Rightarrow> [] | Some r \<Rightarrow> map vulnerability_finding (vr_cves r))"


section \<open>Tables\<close>

definition opt_val :: "string option \<Rightarrow> pyval" where
  "opt_val x = (case x of None \<Rightarrow> PNone | Some s \<Rightarrow> PStr s)"

fun applicability_value :: "cve_applicability \<Rightarrow> string" where
  "applicability_value Confirmed = ''confirmed''"
| "applicability_value Candidate = ''candidate''"
| "applicability_value Not_Applicable = ''not_applicable''"

definition indicator_rows :: "detection_result option \<Rightarrow> mapping list" where
  "indicator_rows threat = (case threat of None \<Rightarrow> [] | Some t \<Rightarrow> map (\<lambda>i.
     [(''type'', PStr (ioc_type_value (ioc_kind i))), (''value'', PStr (ioc_value i)), (''defanged'', PStr (ioc_defanged i)),
      (''reputation'', PStr (reputation_value (reputation i))), (''source'', opt_val (reputation_source i)), (''internal'', PBool (ioc_internal i))])
     (dt_iocs t))"

definition technique_rows :: "detection_result option \<Rightarrow> mapping list" where
  "technique_rows threat = (case threat of None \<Rightarrow> [] | Some t \<Rightarrow> map (\<lambda>m.
     [(''technique_id'', PStr (tm_technique_id m)), (''name'', PStr (tm_name m)), (''tactics'', PList (map PStr (tm_tactics m))),
      (''rationale'', PStr (tm_rationale m)), (''confidence'', PFloat (tm_confidence m))]) (dt_techniques t))"

definition cve_row :: "cve_assessment \<Rightarrow> mapping" where
  "cve_row v = [(''cve_id'', PStr (cve_id (va_record v))),
     (''cvss_score'', case cr_cvss (va_record v) of Some c \<Rightarrow> PFloat (cm_base_score c) | None \<Rightarrow> PNone),
     (''severity'', case cr_cvss (va_record v) of Some c \<Rightarrow> PStr (severity_value (cm_severity c)) | None \<Rightarrow> PNone),
     (''applicability'', PStr (applicability_value (va_applicability v))), (''summary'', PStr (cr_summary (va_record v)))]"

definition cve_rows :: "research_result option \<Rightarrow> mapping list" where
  "cve_rows d = (case d of None \<Rightarrow> [] | Some r \<Rightarrow> map cve_row (vr_cves r))"

definition citation_groups :: "detection_result option \<Rightarrow> research_result option \<Rightarrow> citation list list" where
  "citation_groups threat d = (case threat of None \<Rightarrow> [] | Some t \<Rightarrow> [dt_citations t])
     @ (case d of None \<Rightarrow> [] | Some r \<Rightarrow> [concat (map va_citations (all_assessments r))])"


section \<open>The agent\<close>

definition draft_report :: "pyfloat \<Rightarrow> report_request \<Rightarrow> normalized_event list \<Rightarrow> timeline_entry list \<Rightarrow> string list
    \<Rightarrow> detection_result option \<Rightarrow> research_result option \<Rightarrow> report_finding list \<Rightarrow> incident_report" where
  "draft_report low rq events entries gaps threat d findings =
     (let present = sections_present rq threat d; missing = missing_sections threat present;
          (timeline, omitted) = assemble_timeline entries (iq_max_timeline_entries rq) events in
      \<lparr>ir_investigation_id = iq_investigation_id rq,
       ir_title = or_empty (or_else (iq_title rq) (Some (''Incident report -- investigation '' @ iq_investigation_id rq))),
       ir_status = Report_Draft, ir_executive_summary = [], ir_technical_body = [],
       ir_verdict = map_option dt_verdict threat, ir_severity = map_option (sa_level \<circ> dt_severity) threat,
       ir_timeline = timeline, ir_findings = findings,
       ir_affected_assets = collect_affected_assets events (case d of None \<Rightarrow> [] | Some r \<Rightarrow> vr_cves r) (iq_critical_assets rq),
       ir_indicators = indicator_rows threat, ir_techniques = technique_rows threat, ir_cves = cve_rows d,
       ir_caveats = map missing_section_caveat missing @ truncation_caveats omitted (length timeline) @ evidence_caveats gaps
         @ threat_caveats low threat @ vulnerability_caveats d,
       ir_citations = compile_citations (citation_groups threat d),
       ir_confidence = report_confidence threat d (sections_expected threat) present, ir_version = 1, ir_generated_from = present\<rparr>)"

definition report :: "(nat \<Rightarrow> bool) \<Rightarrow> (time \<Rightarrow> string) \<Rightarrow> string option \<Rightarrow> (pyval \<Rightarrow> normalized_event option) \<Rightarrow> (pyval \<Rightarrow> timeline_entry option)
    \<Rightarrow> (mapping \<Rightarrow> detection_result option) \<Rightarrow> (mapping \<Rightarrow> research_result option) \<Rightarrow> pyfloat \<Rightarrow> report_request
    \<Rightarrow> py_error + incident_report agent_outcome" where
  "report decimal isoformat version read_event read_entry read_threat read_dossier low rq =
     and_then (read_log_analysis read_event read_entry (iq_log_analysis rq)) (\<lambda>(events, entries, gaps).
     let threat = read_section read_threat (iq_threat_assessment rq); d = read_section read_dossier (iq_vulnerability_dossier rq) in
     and_then (traverse checked_finding (evidence_findings events entries @ threat_findings threat @ vulnerability_findings d)) (\<lambda>findings.
     let r = draft_report low rq events entries gaps threat d findings;
         r' = r\<lparr>ir_executive_summary := render_executive_summary decimal r, ir_technical_body := render_technical_body decimal isoformat r\<rparr> in
     Inr \<lparr>ao_agent = ''incident_reporter'', ao_output = r', ao_confidence = ir_confidence r, ao_prompt_version = version,
       ao_tool_calls = [(''assemble_timeline'', length (ir_timeline r)), (''collect_affected_assets'', length (ir_affected_assets r)),
         (''compile_citations'', length (ir_citations r)), (''render_report'', 1)],
       ao_degradations = map (\<lambda>s. degradation ''missing_section'' (section_value s)) (missing_sections threat (sections_present rq threat d))\<rparr>))"


section \<open>How a report comes about\<close>

lemma checked_finding_Inr: "checked_finding f = Inr g \<longleftrightarrow> g = f \<and> finding_ok f"
  by (auto simp: checked_finding_def)

lemma checked_findings: "traverse checked_finding fs = Inr gs \<longleftrightarrow> gs = fs \<and> list_all finding_ok fs"
  by (induction fs arbitrary: gs) (auto simp: and_then_Inr checked_finding_Inr)

text \<open>The sections a report is drawn from, when it is built.\<close>

definition drawn_from :: "(mapping \<Rightarrow> detection_result option) \<Rightarrow> (mapping \<Rightarrow> research_result option) \<Rightarrow> pyfloat \<Rightarrow> report_request
    \<Rightarrow> normalized_event list \<Rightarrow> timeline_entry list \<Rightarrow> string list \<Rightarrow> incident_report" where
  "drawn_from read_threat read_dossier low rq events entries gaps =
     (let threat = read_section read_threat (iq_threat_assessment rq); d = read_section read_dossier (iq_vulnerability_dossier rq) in
      draft_report low rq events entries gaps threat d (evidence_findings events entries @ threat_findings threat @ vulnerability_findings d))"

lemma report_cases:
  assumes "report decimal isoformat version read_event read_entry read_threat read_dossier low rq = Inr oc"
  obtains events entries gaps where "read_log_analysis read_event read_entry (iq_log_analysis rq) = Inr (events, entries, gaps)"
    "ao_output oc = (let r = drawn_from read_threat read_dossier low rq events entries gaps in
       r\<lparr>ir_executive_summary := render_executive_summary decimal r, ir_technical_body := render_technical_body decimal isoformat r\<rparr>)"
    "list_all finding_ok (ir_findings (drawn_from read_threat read_dossier low rq events entries gaps))"
    "ao_degradations oc = map (\<lambda>s. degradation ''missing_section'' (section_value s))
       (missing_sections (read_section read_threat (iq_threat_assessment rq))
         (sections_present rq (read_section read_threat (iq_threat_assessment rq)) (read_section read_dossier (iq_vulnerability_dossier rq))))"
proof -
  from assms obtain events entries gaps where l: "read_log_analysis read_event read_entry (iq_log_analysis rq) = Inr (events, entries, gaps)"
    by (auto simp: report_def and_then_Inr)
  show thesis
    by (rule that[OF l]) (use assms in \<open>auto simp: report_def l Let_def and_then_Inr checked_findings drawn_from_def draft_report_def split: prod.splits\<close>)
qed

lemma drawn_findings:
  "ir_findings (drawn_from rt rd low rq events entries gaps) = evidence_findings events entries
     @ threat_findings (read_section rt (iq_threat_assessment rq)) @ vulnerability_findings (read_section rd (iq_vulnerability_dossier rq))"
  by (simp add: drawn_from_def draft_report_def Let_def split: prod.splits)

lemma drawn_fields:
  "ir_cves (drawn_from rt rd low rq events entries gaps) = cve_rows (read_section rd (iq_vulnerability_dossier rq))"
  "ir_citations (drawn_from rt rd low rq events entries gaps) =
     compile_citations (citation_groups (read_section rt (iq_threat_assessment rq)) (read_section rd (iq_vulnerability_dossier rq)))"
  by (simp_all add: drawn_from_def draft_report_def Let_def split: prod.splits)

lemma drawn_caveats:
  "ir_caveats (drawn_from rt rd low rq events entries gaps) =
     (let threat = read_section rt (iq_threat_assessment rq); d = read_section rd (iq_vulnerability_dossier rq);
          (timeline, omitted) = assemble_timeline entries (iq_max_timeline_entries rq) events in
      map missing_section_caveat (missing_sections threat (sections_present rq threat d)) @ truncation_caveats omitted (length timeline)
        @ evidence_caveats gaps @ threat_caveats low threat @ vulnerability_caveats d)"
  by (simp add: drawn_from_def draft_report_def Let_def split: prod.splits)


section \<open>Every finding restates an upstream one\<close>

text \<open>The identifiers the upstream sections produced.\<close>

definition upstream_ok :: "normalized_event list \<Rightarrow> detection_result option \<Rightarrow> research_result option \<Rightarrow> finding_support \<Rightarrow> bool" where
  "upstream_ok events threat d s =
     (let signals = (case threat of None \<Rightarrow> [] | Some t \<Rightarrow> dt_signals t); iocs = (case threat of None \<Rightarrow> [] | Some t \<Rightarrow> dt_iocs t);
          cves = (case d of None \<Rightarrow> [] | Some r \<Rightarrow> vr_cves r) in
      set (fs_event_ids s) \<subseteq> event_id ` set events \<union> (\<Union>g \<in> set signals. set (sig_event_ids g)) \<union> (\<Union>i \<in> set iocs. set (ioc_event_ids i))
        \<union> (\<Union>v \<in> set cves. set (em_event_ids (va_mapping v)))
      \<and> set (fs_signal_rule_ids s) \<subseteq> rule_id ` set signals
      \<and> set (fs_technique_ids s) \<subseteq> (\<Union>g \<in> set signals. set (sig_technique_ids g)) \<union> (\<Union>v \<in> set cves. set (em_technique_ids (va_mapping v)))
      \<and> set (fs_cve_ids s) \<subseteq> (cve_id \<circ> va_record) ` set cves
      \<and> set (fs_indicator_values s) \<subseteq> ioc_defanged ` {i \<in> set iocs. is_hostile i})"

lemma findings_upstream:
  "f \<in> set (evidence_findings events entries) \<Longrightarrow> upstream_ok events threat d (fi_support f)"
  "f \<in> set (threat_findings threat) \<Longrightarrow> upstream_ok events threat d (fi_support f)"
  "f \<in> set (vulnerability_findings d) \<Longrightarrow> upstream_ok events threat d (fi_support f)"
proof -
  show "f \<in> set (evidence_findings events entries) \<Longrightarrow> upstream_ok events threat d (fi_support f)"
    by (auto simp: evidence_findings_def upstream_ok_def no_finding_support_def Let_def split: if_splits)
  show "f \<in> set (threat_findings threat) \<Longrightarrow> upstream_ok events threat d (fi_support f)"
    by (fastforce simp: threat_findings_def signal_finding_def indicator_finding_def upstream_ok_def no_finding_support_def split: option.splits)
  show "f \<in> set (vulnerability_findings d) \<Longrightarrow> upstream_ok events threat d (fi_support f)"
    by (fastforce simp: vulnerability_findings_def vulnerability_finding_def upstream_ok_def no_finding_support_def Let_def split: option.splits)
qed

text \<open>C8: 
  The report adds no finding of its own: every finding rests on at least one identifier, every identifier it names was produced upstream
  (an event that was read, a detection that fired, an indicator a source flagged, a confirmed CVE), and the vulnerability table lists exactly the
  confirmed CVEs, so a candidate is never presented as one.
\<close>
theorem findings_restate_upstream:
  assumes "report decimal isoformat version read_event read_entry read_threat read_dossier low rq = Inr oc"
  shows "\<exists>events entries gaps. read_log_analysis read_event read_entry (iq_log_analysis rq) = Inr (events, entries, gaps) \<and>
    list_all (\<lambda>f. \<not> finding_support_empty (fi_support f) \<and>
        upstream_ok events (read_section read_threat (iq_threat_assessment rq)) (read_section read_dossier (iq_vulnerability_dossier rq)) (fi_support f))
      (ir_findings (ao_output oc)) \<and>
    map (\<lambda>row. pget row ''cve_id'') (ir_cves (ao_output oc)) =
      (case read_section read_dossier (iq_vulnerability_dossier rq) of None \<Rightarrow> [] | Some r \<Rightarrow> map (PStr \<circ> cve_id \<circ> va_record) (vr_cves r))"
proof -
  obtain events entries gaps where l: "read_log_analysis read_event read_entry (iq_log_analysis rq) = Inr (events, entries, gaps)"
    and out: "ao_output oc = (let r = drawn_from read_threat read_dossier low rq events entries gaps in
       r\<lparr>ir_executive_summary := render_executive_summary decimal r, ir_technical_body := render_technical_body decimal isoformat r\<rparr>)"
    and ok: "list_all finding_ok (ir_findings (drawn_from read_threat read_dossier low rq events entries gaps))"
    using report_cases[OF assms] by metis
  have f: "ir_findings (ao_output oc) = ir_findings (drawn_from read_threat read_dossier low rq events entries gaps)"
    and c: "ir_cves (ao_output oc) = cve_rows (read_section read_dossier (iq_vulnerability_dossier rq))"
    unfolding out Let_def by (simp_all add: drawn_fields)
  have "list_all (\<lambda>f. \<not> finding_support_empty (fi_support f) \<and>
        upstream_ok events (read_section read_threat (iq_threat_assessment rq)) (read_section read_dossier (iq_vulnerability_dossier rq)) (fi_support f))
      (ir_findings (ao_output oc))"
    using ok unfolding f list_all_iff drawn_findings using findings_upstream by (auto simp: finding_ok_def)
  moreover have "map (\<lambda>row. pget row ''cve_id'') (ir_cves (ao_output oc)) =
      (case read_section read_dossier (iq_vulnerability_dossier rq) of None \<Rightarrow> [] | Some r \<Rightarrow> map (PStr \<circ> cve_id \<circ> va_record) (vr_cves r))"
    unfolding c cve_rows_def by (simp add: cve_row_def pget_def o_def split: option.splits)
  ultimately show ?thesis using l by blast
qed


section \<open>Every limitation is stated\<close>

definition states :: "caveat_kind \<Rightarrow> incident_report \<Rightarrow> bool" where
  "states k r = list_ex (\<lambda>c. cv_kind c = k) (ir_caveats r)"

definition threat_kinds :: "pyfloat \<Rightarrow> detection_result option \<Rightarrow> caveat_kind set" where
  "threat_kinds low threat = (case threat of None \<Rightarrow> {} | Some t \<Rightarrow> (if dt_confidence t < low then {Low_Confidence} else {})
     \<union> (if dt_enrichment_status t \<noteq> Enrichment_Complete then {Degraded_Enrichment} else {})
     \<union> (if dt_escalation_required t \<and> truthy (dt_escalation_reason t) then {Escalation_Required} else {}))"

definition vulnerability_kinds :: "research_result option \<Rightarrow> caveat_kind set" where
  "vulnerability_kinds d = (case d of None \<Rightarrow> {} | Some r \<Rightarrow> (if vr_stale r then {Stale_Research} else {})
     \<union> (if vr_candidates r \<noteq> [] then {Unconfirmed_Applicability} else {}))"

lemma caveat_kinds:
  "set (map cv_kind (map missing_section_caveat ms)) = (if ms = [] then {} else {Missing_Section})"
  "set (map cv_kind (truncation_caveats omitted kept)) = (if omitted = 0 then {} else {Timeline_Truncated})"
  "set (map cv_kind (evidence_caveats gaps)) = (if gaps = [] then {} else {Caveat_Coverage_Gap})"
  "set (map cv_kind (threat_caveats low threat)) = threat_kinds low threat"
  "set (map cv_kind (vulnerability_caveats d)) = vulnerability_kinds d"
proof -
  show "set (map cv_kind (map missing_section_caveat ms)) = (if ms = [] then {} else {Missing_Section})"
    by (cases ms) (auto simp: missing_section_caveat_def)
  show "set (map cv_kind (truncation_caveats omitted kept)) = (if omitted = 0 then {} else {Timeline_Truncated})"
    by (simp add: truncation_caveats_def)
  show "set (map cv_kind (evidence_caveats gaps)) = (if gaps = [] then {} else {Caveat_Coverage_Gap})"
    by (cases gaps) (auto simp: evidence_caveats_def)
  show "set (map cv_kind (threat_caveats low threat)) = threat_kinds low threat"
    unfolding threat_caveats_def threat_kinds_def
    by (cases threat) (simp_all only: option.case map_append set_append if_distrib[of "map cv_kind"] if_distrib[of set] list.map list.set report_caveat.simps Un_assoc)
  show "set (map cv_kind (vulnerability_caveats d)) = vulnerability_kinds d"
    unfolding vulnerability_caveats_def vulnerability_kinds_def
    by (cases d) (simp_all only: option.case map_append set_append if_distrib[of "map cv_kind"] if_distrib[of set] list.map list.set report_caveat.simps)
qed

lemma not_missing:
  assumes "c \<in> set (truncation_caveats omitted kept) \<union> set (evidence_caveats gaps) \<union> set (threat_caveats low threat) \<union> set (vulnerability_caveats d)"
  shows "cv_kind c \<noteq> Missing_Section"
proof -
  have "cv_kind c \<in> set (map cv_kind (truncation_caveats omitted kept)) \<union> set (map cv_kind (evidence_caveats gaps))
      \<union> set (map cv_kind (threat_caveats low threat)) \<union> set (map cv_kind (vulnerability_caveats d))" using assms by auto
  then show ?thesis unfolding caveat_kinds by (auto simp: threat_kinds_def vulnerability_kinds_def split: option.splits if_splits)
qed

text \<open>C26: 
  Every limitation is stated, and none is invented: the sections reported missing are exactly the expected ones that are absent (vulnerability
  research is expected only when the verdict is not benign), they are recorded as degradations too, and the report carries a caveat about
  truncation, a coverage gap, low confidence, incomplete enrichment, escalation, stale research or unconfirmed
  candidates exactly when there is cause for it.
\<close>
theorem limitations_stated_exactly:
  assumes "report decimal isoformat version read_event read_entry read_threat read_dossier low rq = Inr oc"
  shows "\<exists>events entries gaps. read_log_analysis read_event read_entry (iq_log_analysis rq) = Inr (events, entries, gaps) \<and>
    (let r = ao_output oc; threat = read_section read_threat (iq_threat_assessment rq); d = read_section read_dossier (iq_vulnerability_dossier rq);
         missing = {s. s \<in> {Sec_Evidence, Sec_Threat} \<or> s = Sec_Vulnerability \<and> non_benign threat}
           - ({s. s = Sec_Evidence \<and> truthy (iq_log_analysis rq)} \<union> {s. s = Sec_Threat \<and> threat \<noteq> None} \<union> {s. s = Sec_Vulnerability \<and> d \<noteq> None}) in
     {cv_section c | c. c \<in> set (ir_caveats r) \<and> cv_kind c = Missing_Section} = missing
     \<and> is_complete r = (missing = {}) \<and> ag_detail ` set (ao_degradations oc) = section_value ` missing
     \<and> states Timeline_Truncated r = (iq_max_timeline_entries rq < card (tl_event_id ` set entries))
     \<and> states Caveat_Coverage_Gap r = (gaps \<noteq> [])
     \<and> states Low_Confidence r = (case threat of None \<Rightarrow> False | Some t \<Rightarrow> dt_confidence t < low)
     \<and> states Degraded_Enrichment r = (case threat of None \<Rightarrow> False | Some t \<Rightarrow> dt_enrichment_status t \<noteq> Enrichment_Complete)
     \<and> states Escalation_Required r = (case threat of None \<Rightarrow> False | Some t \<Rightarrow> dt_escalation_required t \<and> truthy (dt_escalation_reason t))
     \<and> states Stale_Research r = (case d of None \<Rightarrow> False | Some x \<Rightarrow> vr_stale x)
     \<and> states Unconfirmed_Applicability r = (case d of None \<Rightarrow> False | Some x \<Rightarrow> vr_candidates x \<noteq> []))"
proof -
  obtain events entries gaps where l: "read_log_analysis read_event read_entry (iq_log_analysis rq) = Inr (events, entries, gaps)"
    and out: "ao_output oc = (let r = drawn_from read_threat read_dossier low rq events entries gaps in
       r\<lparr>ir_executive_summary := render_executive_summary decimal r, ir_technical_body := render_technical_body decimal isoformat r\<rparr>)"
    and deg: "ao_degradations oc = map (\<lambda>s. degradation ''missing_section'' (section_value s))
       (missing_sections (read_section read_threat (iq_threat_assessment rq))
         (sections_present rq (read_section read_threat (iq_threat_assessment rq)) (read_section read_dossier (iq_vulnerability_dossier rq))))"
    using report_cases[OF assms] by metis
  define threat where "threat = read_section read_threat (iq_threat_assessment rq)"
  define d where "d = read_section read_dossier (iq_vulnerability_dossier rq)"
  define ms where "ms = missing_sections threat (sections_present rq threat d)"
  define kept where "kept = length (fst (assemble_timeline entries (iq_max_timeline_entries rq) events))"
  define omitted where "omitted = snd (assemble_timeline entries (iq_max_timeline_entries rq) events)"
  have cav: "ir_caveats (ao_output oc) = map missing_section_caveat ms @ truncation_caveats omitted kept
      @ evidence_caveats gaps @ threat_caveats low threat @ vulnerability_caveats d"
    unfolding out Let_def by (simp add: drawn_caveats Let_def threat_def d_def ms_def kept_def omitted_def split: prod.splits)
  have miss: "set ms = {s. s \<in> {Sec_Evidence, Sec_Threat} \<or> s = Sec_Vulnerability \<and> non_benign threat}
      - ({s. s = Sec_Evidence \<and> truthy (iq_log_analysis rq)} \<union> {s. s = Sec_Threat \<and> threat \<noteq> None} \<union> {s. s = Sec_Vulnerability \<and> d \<noteq> None})"
    by (auto simp: ms_def missing_sections_def sections_expected_def sections_present_def)
  have om: "omitted = 0 \<longleftrightarrow> \<not> iq_max_timeline_entries rq < card (tl_event_id ` set entries)"
  proof -
    have "length (dedup_by tl_event_id [] entries) = card (tl_event_id ` set entries)"
      using dedup_by_keys[of tl_event_id "[]" entries] dedup_by_distinct[of tl_event_id "[]" entries]
      by (metis Diff_empty distinct_card length_map list.set(1) list.set_map)
    then show ?thesis by (auto simp: omitted_def assemble_timeline_def)
  qed
  have st: "states k (ao_output oc) \<longleftrightarrow> k \<in> set (map cv_kind (ir_caveats (ao_output oc)))" for k
    by (auto simp: states_def list_ex_iff)
  have kinds: "set (map cv_kind (ir_caveats (ao_output oc))) =
      (if ms = [] then {} else {Missing_Section}) \<union> (if omitted = 0 then {} else {Timeline_Truncated}) \<union> (if gaps = [] then {} else {Caveat_Coverage_Gap})
      \<union> threat_kinds low threat \<union> vulnerability_kinds d"
    unfolding cav map_append set_append caveat_kinds by (simp only: Un_assoc)
  have m: "{cv_section c | c. c \<in> set (ir_caveats (ao_output oc)) \<and> cv_kind c = Missing_Section} = set ms"
  proof -
    have sub: "{c \<in> set (ir_caveats (ao_output oc)). cv_kind c = Missing_Section} = set (map missing_section_caveat ms)"
      unfolding cav set_append using not_missing[of _ omitted kept gaps low threat d] by (auto simp: missing_section_caveat_def)
    have "{cv_section c | c. c \<in> set (ir_caveats (ao_output oc)) \<and> cv_kind c = Missing_Section}
        = cv_section ` {c \<in> set (ir_caveats (ao_output oc)). cv_kind c = Missing_Section}" by blast
    also have "\<dots> = set ms" unfolding sub by (simp add: image_comp missing_section_caveat_def)
    finally show ?thesis .
  qed
  have complete: "is_complete (ao_output oc) \<longleftrightarrow> set ms = {}"
    unfolding m[symmetric] is_complete_def by (auto simp: list_ex_iff)
  have trunc: "states Timeline_Truncated (ao_output oc) \<longleftrightarrow> omitted \<noteq> 0" and gap: "states Caveat_Coverage_Gap (ao_output oc) \<longleftrightarrow> gaps \<noteq> []"
    unfolding st kinds by (auto simp: threat_kinds_def vulnerability_kinds_def split: option.splits if_splits)
  have degs: "ag_detail ` set (ao_degradations oc) = section_value ` set ms"
    unfolding deg threat_def[symmetric] d_def[symmetric] ms_def[symmetric] by (simp add: image_comp degradation_def)
  have th: "states Low_Confidence (ao_output oc) = (case threat of None \<Rightarrow> False | Some t \<Rightarrow> dt_confidence t < low)"
    "states Degraded_Enrichment (ao_output oc) = (case threat of None \<Rightarrow> False | Some t \<Rightarrow> dt_enrichment_status t \<noteq> Enrichment_Complete)"
    "states Escalation_Required (ao_output oc) = (case threat of None \<Rightarrow> False | Some t \<Rightarrow> dt_escalation_required t \<and> truthy (dt_escalation_reason t))"
    "states Stale_Research (ao_output oc) = (case d of None \<Rightarrow> False | Some x \<Rightarrow> vr_stale x)"
    "states Unconfirmed_Applicability (ao_output oc) = (case d of None \<Rightarrow> False | Some x \<Rightarrow> vr_candidates x \<noteq> [])"
    unfolding st kinds by (auto simp: threat_kinds_def vulnerability_kinds_def split: option.splits if_splits)
  show ?thesis
    by (intro exI[of _ events] exI[of _ entries] exI[of _ gaps])
       (simp only: l Let_def threat_def[symmetric] d_def[symmetric] miss[symmetric] m complete trunc om gap degs th not_not simp_thms)
qed


section \<open>The report is always built\<close>

lemma py_sum_units:
  "\<forall>x \<in> set xs. x \<le> 1 \<Longrightarrow> length xs < 2 ^ 53 \<Longrightarrow> py_sum xs \<le> of_nat (length xs)"
proof (induction xs rule: rev_induct)
  case Nil
  then show ?case by (simp add: py_sum_def)
next
  case (snoc x xs)
  have "py_sum xs + x \<le> of_int (int (Suc (length xs)))" using snoc by simp
  then have "rnd (py_sum xs + x) \<le> of_int (int (Suc (length xs)))"
    by (rule rnd_le_int) (use snoc.prems(2) in simp)
  then show ?case by (simp add: py_sum_def)
qed

lemma mean_of_units:
  assumes "\<forall>x \<in> set xs. 0 \<le> x \<and> x \<le> 1" "length xs < 2 ^ 53" "xs \<noteq> []"
  shows "0 \<le> py_round k (rnd (py_sum xs / of_nat (length xs)))" "py_round k (rnd (py_sum xs / of_nat (length xs))) \<le> 1"
proof -
  have len: "(0 :: rat) < of_nat (length xs)" using assms(3) by simp
  have "0 \<le> py_sum xs" "py_sum xs \<le> of_nat (length xs)" using assms py_sum_nonneg[of xs] py_sum_units[of xs] by auto
  then have "0 \<le> py_sum xs / of_nat (length xs)" "py_sum xs / of_nat (length xs) \<le> 1" using len by simp_all
  then show "0 \<le> py_round k (rnd (py_sum xs / of_nat (length xs)))" and "py_round k (rnd (py_sum xs / of_nat (length xs))) \<le> 1"
    using py_round_nonneg rnd_nonneg py_round_le_1 rnd_le_1 by blast+
qed

text \<open>What the graph promises of the evidence section: coverage gaps are a list, and there are fewer events than floats can count.\<close>

definition log_section_ok :: "mapping option \<Rightarrow> bool" where
  "log_section_ok payload = (case payload of None \<Rightarrow> True | Some d \<Rightarrow>
     (case pget_or d ''coverage_gaps'' (PList []) of PList _ \<Rightarrow> True | _ \<Rightarrow> False)
     \<and> (case pget d ''events'' of PList xs \<Rightarrow> length xs < 2 ^ 53 | _ \<Rightarrow> True))"

lemma map_filter_mem: "y \<in> set (List.map_filter f xs) \<Longrightarrow> \<exists>x \<in> set xs. f x = Some y"
  by (auto simp: List.map_filter_def)

lemma map_filter_length: "length (List.map_filter f xs) \<le> length xs"
  by (simp add: List.map_filter_def)

lemma read_log_ok:
  assumes "log_section_ok payload"
  obtains events entries gaps where "read_log_analysis read_event read_entry payload = Inr (events, entries, gaps)"
    "\<forall>e \<in> set events. \<exists>x. read_event x = Some e" "length events < 2 ^ 53"
proof -
  let ?d = "case payload of None \<Rightarrow> [] | Some d \<Rightarrow> d"
  have "\<exists>xs. try_iter (or_val (pget_or ?d ''coverage_gaps'' (PList [])) (PList [])) = Inr xs"
    using assms by (auto simp: log_section_ok_def or_val_def pget_or_def split: option.splits pyval.splits)
  then obtain xs where xs: "try_iter (or_val (pget_or ?d ''coverage_gaps'' (PList [])) (PList [])) = Inr xs" by blast
  let ?events = "validate_each read_event (pget ?d ''events'')"
  have mem: "\<forall>e \<in> set ?events. \<exists>x. read_event x = Some e"
    by (auto simp: validate_each_def split: pyval.splits dest: map_filter_mem)
  have "length ?events < 2 ^ 53"
  proof (cases "pget ?d ''events''")
    case (PList ys)
    then have "length ys < 2 ^ 53" using assms by (auto simp: log_section_ok_def pget_def split: option.splits)
    then show ?thesis using map_filter_length[of read_event ys] by (simp add: validate_each_def PList)
  qed (simp_all add: validate_each_def)
  moreover have "read_log_analysis read_event read_entry payload
      = Inr (?events, validate_each read_entry (pget ?d ''timeline''), map str_val (filter truth xs))"
    unfolding read_log_analysis_def Let_def xs by simp
  ultimately show thesis using mem that by blast
qed

lemma vulnerability_finding_fields [simp]:
  "fi_citations (vulnerability_finding v) = va_citations v" "fi_confidence (vulnerability_finding v) = va_confidence v"
  "fs_cve_ids (fi_support (vulnerability_finding v)) = [cve_id (va_record v)]"
  by (simp_all only: vulnerability_finding_def Let_def report_finding.simps no_finding_support_def finding_support.simps)

lemma threat_finding_fields [simp]:
  "fi_confidence (signal_finding t g) = dt_confidence t" "fs_signal_rule_ids (fi_support (signal_finding t g)) = [rule_id g]"
  "fi_confidence (indicator_finding t i) = dt_confidence t" "fs_indicator_values (fi_support (indicator_finding t i)) = [ioc_defanged i]"
  "fi_citations (signal_finding t g) = []" "fi_citations (indicator_finding t i) = []"
  by (simp_all only: signal_finding_def indicator_finding_def report_finding.simps no_finding_support_def finding_support.simps)

lemma read_section_Some: "read_section rd payload = Some r \<Longrightarrow> \<exists>m. rd m = Some r"
  by (auto simp: read_section_def split: option.splits if_splits)

text \<open>The contracts of the upstream sections: every confidence lies between zero and one.\<close>

definition upstream_contracts :: "(pyval \<Rightarrow> normalized_event option) \<Rightarrow> (mapping \<Rightarrow> detection_result option) \<Rightarrow> (mapping \<Rightarrow> research_result option) \<Rightarrow> bool" where
  "upstream_contracts read_event read_threat read_dossier \<longleftrightarrow>
     (\<forall>x e. read_event x = Some e \<longrightarrow> 0 \<le> confidence e \<and> confidence e \<le> 1) \<and>
     (\<forall>m t. read_threat m = Some t \<longrightarrow> 0 \<le> dt_confidence t \<and> dt_confidence t \<le> 1) \<and>
     (\<forall>m d v. read_dossier m = Some d \<longrightarrow> v \<in> set (vr_cves d) \<longrightarrow> 0 \<le> va_confidence v \<and> va_confidence v \<le> 1)"

lemma composed_findings_ok:
  assumes "upstream_contracts read_event read_threat read_dossier" "\<forall>e \<in> set events. \<exists>x. read_event x = Some e" "length events < 2 ^ 53"
  shows "list_all finding_ok (evidence_findings events entries @ threat_findings (read_section read_threat t) @ vulnerability_findings (read_section read_dossier d))"
proof -
  have "list_all finding_ok (evidence_findings events entries)"
  proof (cases "events = []")
    case False
    have "\<forall>x \<in> set (map confidence events). 0 \<le> x \<and> x \<le> 1" using assms by (auto simp: upstream_contracts_def)
    moreover have "length (map confidence events) < 2 ^ 53" "map confidence events \<noteq> []" using assms(3) False by simp_all
    ultimately have "0 \<le> py_round 4 (rnd (py_sum (map confidence events) / of_nat (length events)))"
      "py_round 4 (rnd (py_sum (map confidence events) / of_nat (length events))) \<le> 1"
      using mean_of_units[of "map confidence events" 4] unfolding length_map by blast+
    with False show ?thesis
      by (simp only: evidence_findings_def if_False Let_def list.pred_inject finding_ok_def finding_support_empty_def no_finding_support_def
        report_finding.simps finding_support.simps map_is_Nil_conv simp_thms)
  qed (simp add: evidence_findings_def)
  moreover have "list_all finding_ok (threat_findings (read_section read_threat t))"
  proof (cases "read_section read_threat t")
    case (Some a)
    then have "0 \<le> dt_confidence a" "dt_confidence a \<le> 1" using assms(1) by (auto simp: upstream_contracts_def dest!: read_section_Some)
    then show ?thesis
      by (auto simp: Some threat_findings_def list_all_iff finding_ok_def finding_support_empty_def)
  qed (simp add: threat_findings_def)
  moreover have "list_all finding_ok (vulnerability_findings (read_section read_dossier d))"
  proof (cases "read_section read_dossier d")
    case (Some r)
    then obtain m where "read_dossier m = Some r" using read_section_Some[of read_dossier d r] by auto
    then have "\<forall>v \<in> set (vr_cves r). 0 \<le> va_confidence v \<and> va_confidence v \<le> 1" using assms(1) by (auto simp: upstream_contracts_def)
    then show ?thesis by (simp add: Some vulnerability_findings_def list_all_iff finding_ok_def finding_support_empty_def)
  qed (simp add: vulnerability_findings_def)
  ultimately show ?thesis by simp
qed

lemma report_returns:
  assumes "upstream_contracts read_event read_threat read_dossier" "log_section_ok (iq_log_analysis rq)"
  obtains oc where "report decimal isoformat version read_event read_entry read_threat read_dossier low rq = Inr oc"
    "ir_status (ao_output oc) = Report_Draft" "0 \<le> ao_confidence oc" "ao_confidence oc \<le> 1"
proof -
  obtain events entries gaps where l: "read_log_analysis read_event read_entry (iq_log_analysis rq) = Inr (events, entries, gaps)"
    and ev: "\<forall>e \<in> set events. \<exists>x. read_event x = Some e" "length events < 2 ^ 53" using read_log_ok[OF assms(2)] by blast
  let ?fs = "evidence_findings events entries @ threat_findings (read_section read_threat (iq_threat_assessment rq))
    @ vulnerability_findings (read_section read_dossier (iq_vulnerability_dossier rq))"
  have tr: "traverse checked_finding ?fs = Inr ?fs" using composed_findings_ok[OF assms(1) ev] unfolding checked_findings by simp
  have conf: "0 \<le> report_confidence t d e p \<and> report_confidence t d e p \<le> 1" for t d e p
    by (simp add: report_confidence_def Let_def unit_round_bounds)
  have "\<exists>oc. report decimal isoformat version read_event read_entry read_threat read_dossier low rq = Inr oc
    \<and> ir_status (ao_output oc) = Report_Draft \<and> 0 \<le> ao_confidence oc \<and> ao_confidence oc \<le> 1"
    unfolding report_def l and_then.simps prod.case Let_def tr
    using conf by (simp add: draft_report_def Let_def split: prod.split)
  then show thesis using that by blast
qed

text \<open>
  The report is always built: when the upstream contracts hold (confidences between zero and one) and coverage gaps are a list, no combination of
  missing, empty or partial sections makes the reporter raise, no finding it composes is refused by its own contract, and the
  report comes out as a draft with a confidence between zero and one.
\<close>
theorem report_always_built:
  assumes "upstream_contracts read_event read_threat read_dossier" "log_section_ok (iq_log_analysis rq)"
  shows "\<exists>oc. report decimal isoformat version read_event read_entry read_threat read_dossier low rq = Inr oc
    \<and> ir_status (ao_output oc) = Report_Draft \<and> 0 \<le> ao_confidence oc \<and> ao_confidence oc \<le> 1"
  using report_returns[OF assms] by metis

text \<open>
  Every reference mark in the report resolves: the marks printed beside a finding are positions of the report's own reference list, and
  between them they name exactly the sources that finding cites.
\<close>
theorem finding_marks_resolve:
  assumes "report decimal isoformat version read_event read_entry read_threat read_dossier low rq = Inr oc"
  shows "let refs = ir_citations (ao_output oc) in
    list_all (\<lambda>f. let marks = mark_numbers (fi_citations f) (citation_numbers refs) in
      list_all (\<lambda>n. 1 \<le> n \<and> n \<le> length refs) marks \<and>
      (\<lambda>n. report_citation_key (refs ! (n - 1))) ` set marks = report_citation_key ` set (fi_citations f)) (ir_findings (ao_output oc))"
proof -
  let ?t = "read_section read_threat (iq_threat_assessment rq)" and ?d = "read_section read_dossier (iq_vulnerability_dossier rq)"
  obtain events entries gaps where out: "ao_output oc = (let r = drawn_from read_threat read_dossier low rq events entries gaps in
       r\<lparr>ir_executive_summary := render_executive_summary decimal r, ir_technical_body := render_technical_body decimal isoformat r\<rparr>)"
    using report_cases[OF assms] by metis
  have refs: "ir_citations (ao_output oc) = compile_citations (citation_groups ?t ?d)" unfolding out Let_def by (simp add: drawn_fields)
  have fs: "ir_findings (ao_output oc) = evidence_findings events entries @ threat_findings ?t @ vulnerability_findings ?d"
    unfolding out Let_def by (simp add: drawn_findings)
  have none: "fi_citations f = []" if "f \<in> set (evidence_findings events entries) \<union> set (threat_findings ?t)" for f
    using that by (auto simp: evidence_findings_def threat_findings_def Let_def split: if_splits option.splits)
  have some: "set (fi_citations f) \<subseteq> set (concat (citation_groups ?t ?d))" if "f \<in> set (vulnerability_findings ?d)" for f
    using that by (cases ?d) (auto simp: vulnerability_findings_def citation_groups_def all_assessments_def)
  have sub: "report_citation_key ` set (fi_citations f) \<subseteq> report_citation_key ` set (concat (citation_groups ?t ?d))" if "f \<in> set (ir_findings (ao_output oc))" for f
    using that none[of f] some[of f] unfolding fs by (cases "f \<in> set (vulnerability_findings ?d)") auto
  show ?thesis unfolding Let_def list_all_iff refs
    using references_resolve[OF sub] by (simp add: Let_def list_all_iff)
qed

section \<open>Witnesses\<close>

text \<open>One event, no threat assessment, and a dossier with one confirmed CVE and one candidate.\<close>

definition sample_report :: report_request where
  "sample_report = \<lparr>iq_investigation_id = ''i'', iq_title = None, iq_log_analysis = Some [(''events'', PList [PNone]), (''coverage_gaps'', PList [PStr ''g''])],
     iq_threat_assessment = None, iq_vulnerability_dossier = Some [(''cves'', PNone)], iq_critical_assets = [], iq_max_timeline_entries = 5\<rparr>"

abbreviation run_sample :: "py_error + incident_report agent_outcome" where
  "run_sample \<equiv> report (\<lambda>_. False) (\<lambda>_. []) None (\<lambda>_. Some sample_login) (\<lambda>_. None) (\<lambda>_. None) (\<lambda>_. Some Patch_Recommender.sample_dossier)
     LOW_CONFIDENCE_THRESHOLD sample_report"

lemma sample_ok:
  "upstream_contracts (\<lambda>_. Some sample_login) (\<lambda>_. None) (\<lambda>_. Some Patch_Recommender.sample_dossier)" "log_section_ok (iq_log_analysis sample_report)"
  by (simp_all add: upstream_contracts_def sample_login_def Patch_Recommender.sample_dossier_def sample_assessment_def log_section_ok_def sample_report_def
    pget_or_def pget_def)

theorem report_always_built_witness: "\<exists>oc. run_sample = Inr oc \<and> ir_status (ao_output oc) = Report_Draft"
  using report_always_built[OF sample_ok, of "\<lambda>_. False" "\<lambda>_. []" None "\<lambda>_. None" LOW_CONFIDENCE_THRESHOLD] by auto

lemma sample_sections:
  "read_section (\<lambda>_. None) (iq_threat_assessment sample_report) = (None :: detection_result option)"
  "read_section (\<lambda>_. Some Patch_Recommender.sample_dossier) (iq_vulnerability_dossier sample_report) = Some Patch_Recommender.sample_dossier"
  "read_log_analysis (\<lambda>_. Some sample_login) (\<lambda>_. None) (iq_log_analysis sample_report) = Inr ([sample_login], [], [''g''])"
  by (simp_all add: sample_report_def read_section_def read_log_analysis_def pget_or_def pget_def or_val_def validate_each_def List.map_filter_def str_val_def)

lemma sample_dossier_fields:
  "map (PStr \<circ> cve_id \<circ> va_record) (vr_cves Patch_Recommender.sample_dossier) = [PStr ''C1'']" "vr_candidates Patch_Recommender.sample_dossier \<noteq> []"
  by (simp_all add: Patch_Recommender.sample_dossier_def sample_assessment_def sample_record_def)

theorem findings_restate_upstream_witness:
  "\<exists>oc. run_sample = Inr oc \<and> map (\<lambda>row. pget row ''cve_id'') (ir_cves (ao_output oc)) = [PStr ''C1'']"
proof -
  obtain oc where run: "run_sample = Inr oc" using report_returns[OF sample_ok] by metis
  from findings_restate_upstream[OF run] have "map (\<lambda>row. pget row ''cve_id'') (ir_cves (ao_output oc)) = [PStr ''C1'']"
    unfolding sample_sections option.case sample_dossier_fields by (elim exE conjE)
  with run show ?thesis by (intro exI[of _ oc] conjI)
qed

theorem limitations_stated_exactly_witness:
  "\<exists>oc. run_sample = Inr oc \<and> states Unconfirmed_Applicability (ao_output oc) \<and> states Caveat_Coverage_Gap (ao_output oc) \<and> \<not> is_complete (ao_output oc)"
proof -
  obtain oc where run: "run_sample = Inr oc" using report_returns[OF sample_ok] by metis
  from limitations_stated_exactly[OF run] have "states Unconfirmed_Applicability (ao_output oc)" "states Caveat_Coverage_Gap (ao_output oc)" "\<not> is_complete (ao_output oc)"
    unfolding sample_sections option.case Let_def using sample_dossier_fields(2) by auto
  with run show ?thesis by blast
qed

theorem finding_marks_resolve_witness:
  "\<exists>oc. run_sample = Inr oc \<and> list_all (\<lambda>f. list_all (\<lambda>n. 1 \<le> n \<and> n \<le> length (ir_citations (ao_output oc)))
     (mark_numbers (fi_citations f) (citation_numbers (ir_citations (ao_output oc))))) (ir_findings (ao_output oc))"
proof -
  obtain oc where run: "run_sample = Inr oc" using report_returns[OF sample_ok] by metis
  from finding_marks_resolve[OF run] run show ?thesis by (auto simp: Let_def list_all_iff)
qed

end
