(* ===== verification/Entity_Extraction.thy ===== *)
theory Entity_Extraction
  imports Regex Ip_Address Domain
begin

text \<open>
  Entity extraction (\<^verbatim>\<open>tools/extraction.py\<close>): the patterns as regular expressions and \<^verbatim>\<open>extract_entities\<close>.
  Shown: extraction invents nothing (every entity is one of the structured values that were passed in, or text that stands
  literally in the log line), repeats nothing, and loses no structured value.
\<close>

section \<open>Patterns\<close>

text \<open>\<^verbatim>\<open>r{0,n}\<close> and \<^verbatim>\<open>r{m,n}\<close>, greedy.\<close>

fun upto_times :: "nat \<Rightarrow> rx \<Rightarrow> rx" where
  "upto_times 0 r = Eps"
| "upto_times (Suc n) r = opt (Cat r (upto_times n r))"

definition repeat :: "nat \<Rightarrow> nat \<Rightarrow> rx \<Rightarrow> rx" where
  "repeat m n r = seq (replicate m r @ [upto_times (n - m) r])"

abbreviation digit :: rx where "digit \<equiv> Cls is_digit"

abbreviation backslash :: char where "backslash \<equiv> CHR 0x5C"
abbreviation single_quote :: char where "single_quote \<equiv> CHR 0x27"
abbreviation double_quote :: char where "double_quote \<equiv> CHR 0x22"

definition is_hex :: "char \<Rightarrow> bool" where
  "is_hex c = (is_digit c \<or> lower_char c \<in> set ''abcdef'')"

definition is_alpha :: "char \<Rightarrow> bool" where
  "is_alpha c = (is_lower_az c \<or> is_upper_az c)"

definition is_alnum :: "char \<Rightarrow> bool" where
  "is_alnum c = (is_alpha c \<or> is_digit c)"

definition name_char :: "char \<Rightarrow> bool" where
  "name_char c = (is_word c \<or> c = CHR ''.'' \<or> c = CHR ''-'')"

definition url_char :: "char \<Rightarrow> bool" where
  "url_char c = (\<not> is_space c \<and> c \<notin> {double_quote, single_quote, CHR ''<'', CHR ''>'', backslash})"

definition path_char :: "char \<Rightarrow> bool" where
  "path_char c = (\<not> is_space c \<and> c \<notin> {backslash, double_quote, single_quote, CHR ''<'', CHR ''>'', CHR ''|''})"

definition URL :: rx where
  "URL = seq [Bound, lit ''http'', opt (lit ''s''), lit ''://'', plus (Cls url_char)]"

definition IPV4 :: rx where
  "IPV4 = seq [Bound, repeat 3 3 (seq [repeat 1 3 digit, lit ''.'']), repeat 1 3 digit, Bound]"

definition IPV6 :: rx where
  "IPV6 = seq [Bound, repeat 2 7 (seq [repeat 1 4 (Cls is_hex), lit '':'']), repeat 1 4 (Cls is_hex), Bound]"

definition HASH :: rx where
  "HASH = choice (map (\<lambda>n. seq [Bound, repeat n n (Cls is_hex), Bound]) [32, 40, 64])"

definition WINDOWS_PATH :: rx where
  "WINDOWS_PATH = seq [Bound, Cls is_alpha, lit '':'', lit [backslash], opt (lit [backslash]),
     Star (seq [plus (Cls path_char), lit [backslash], opt (lit [backslash])]), plus (Cls path_char)]"

text \<open>The group of \<^verbatim>\<open>_UNIX_PATH\<close> is its second piece; the first is the start of the text or white space.\<close>

definition UNIX_PATH :: "rx list" where
  "UNIX_PATH = [Alt (At (\<lambda>_ i. i = 0)) (Cls is_space), seq [lit ''/'', Star (seq [plus (Cls name_char), lit ''/'']), plus (Cls name_char)]]"

definition DOMAIN :: rx where
  "DOMAIN = seq [Bound, At (\<lambda>s i. ends (seq [plus digit, lit ''.'', plus digit]) s i = []),
     plus (seq [Cls is_alnum, opt (seq [upto_times 61 (Cls (\<lambda>c. is_alnum c \<or> c = CHR ''-'')), Cls is_alnum]), lit ''.'']),
     repeat 2 24 (Cls is_alpha), Bound]"

definition PROCESS :: rx where
  "PROCESS = seq [Bound, plus (Cls name_char), lit ''.'', choice (map lit [''exe'', ''dll'', ''ps1'', ''sh'', ''bat'', ''cmd'', ''py'', ''jar'']), Bound]"

definition DOMAIN_NOISE :: "string list" where
  "DOMAIN_NOISE = [''localhost.localdomain'']"


section \<open>Extraction\<close>

text \<open>\<^verbatim>\<open>pattern.findall\<close> of a pattern without groups, and \<^verbatim>\<open>pattern.fullmatch\<close>.\<close>

definition findall :: "rx \<Rightarrow> string \<Rightarrow> string list" where
  "findall r s = map (\<lambda>ps. piece s ps 0) (find_all [r] s)"

definition fullmatch :: "rx \<Rightarrow> string \<Rightarrow> bool" where
  "fullmatch r s = (length s \<in> set (ends r s 0))"

definition is_routable_ip :: "string \<Rightarrow> bool" where
  "is_routable_ip v = (ip_address v \<noteq> None)"

definition cleaned :: "string \<Rightarrow> string" where
  "cleaned v = strip_by (\<lambda>c. c \<in> set (''.,;:)]}'' @ [double_quote, single_quote])) (strip v)"

definition add_entity :: "entity_type \<times> string option \<Rightarrow> entity option" where
  "add_entity = (\<lambda>(t, v). if truthy v \<and> cleaned (the v) \<noteq> [] then Some \<lparr>en_type = t, en_value = cleaned (the v)\<rparr> else None)"

definition is_domain :: "string \<Rightarrow> bool" where
  "is_domain m = (\<not> (lower m \<in> set DOMAIN_NOISE \<or> is_routable_ip m) \<and> \<not> fullmatch PROCESS m)"

definition found_entities :: "string \<Rightarrow> (entity_type \<times> string option) list" where
  "found_entities text =
     (let remainder = re_sub [URL] '' '' text; found = (\<lambda>t. map (\<lambda>m. (t, Some m))) in
      found En_Url (findall URL text)
      @ found En_Ip (filter is_routable_ip (findall IPV4 remainder)) @ found En_Ip (filter is_routable_ip (findall IPV6 remainder))
      @ found En_File_Hash (findall HASH remainder) @ found En_Process (findall PROCESS remainder)
      @ found En_File_Path (findall WINDOWS_PATH remainder)
      @ found En_File_Path (map (\<lambda>ps. piece remainder ps 1) (find_all UNIX_PATH remainder))
      @ found En_Domain (map lower (filter is_domain (findall DOMAIN remainder))))"

definition entity_key :: "entity \<Rightarrow> string \<times> string" where
  "entity_key e = (entity_type_value (en_type e), lower (en_value e))"

definition extract_entities :: "string \<Rightarrow> (entity_type \<times> string option) list \<Rightarrow> entity list" where
  "extract_entities text extra = dedup_by entity_key [] (List.map_filter add_entity (extra @ found_entities text))"


section \<open>Extraction invents nothing\<close>

lemma upto_only [simp]: "only P (upto_times n r) \<longleftrightarrow> n = 0 \<or> only P r"
  by (induction n) auto

lemma repeat_only [simp]: "only P (repeat m n r) \<longleftrightarrow> m = 0 \<and> n = 0 \<or> only P r"
  by (auto simp: repeat_def list_all_iff)

lemma choice_only [simp]: "rs \<noteq> [] \<Longrightarrow> only P (choice rs) \<longleftrightarrow> list_all (only P) rs"
proof -
  have "only P (foldr Alt as b) \<longleftrightarrow> list_all (only P) as \<and> only P b" for as b by (induction as) auto
  then show "rs \<noteq> [] \<Longrightarrow> only P (choice rs) \<longleftrightarrow> list_all (only P) rs"
    unfolding choice_def by (cases rs rule: rev_cases) simp_all
qed

lemma lit_only: "list_all (\<lambda>c. \<forall>d. lower_char d = lower_char c \<longrightarrow> P d) s \<Longrightarrow> only P (lit s)"
  by (induction s) (simp_all add: lit_def ci_def)

lemma lower_char_space: "is_space (lower_char d) = is_space d"
  by (auto simp: is_space_def lower_char_def Let_def)

lemma lit_no_space: "list_all (\<lambda>c. \<not> is_space c) s \<Longrightarrow> only (\<lambda>c. \<not> is_space c) (lit s)"
  unfolding list_all_iff by (intro lit_only) (auto simp: list_all_iff, metis lower_char_space)

lemma classes_no_space:
  "is_digit c \<Longrightarrow> \<not> is_space c" "is_alpha c \<Longrightarrow> \<not> is_space c" "is_alnum c \<Longrightarrow> \<not> is_space c" "is_hex c \<Longrightarrow> \<not> is_space c" "name_char c \<Longrightarrow> \<not> is_space c"
  "url_char c \<Longrightarrow> \<not> is_space c" "path_char c \<Longrightarrow> \<not> is_space c"
proof -
  show "is_hex c \<Longrightarrow> \<not> is_space c"
    unfolding is_hex_def by (subst lower_char_space[symmetric]) (auto simp: is_digit_def is_space_def lower_char_def Let_def)
qed (auto simp: is_digit_def is_alpha_def is_alnum_def is_lower_az_def is_upper_az_def is_word_def name_char_def url_char_def path_char_def is_space_def Let_def)

lemma chars_no_space:
  "list_all (\<lambda>c. \<not> is_space c) (''abcdefghijklmnopqrstuvwxyz0123456789.:/-'' @ [backslash])"
  by (simp add: is_space_def)

lemmas chars_no_space_simps = chars_no_space[simplified]

lemma patterns_no_space:
  "only (\<lambda>c. \<not> is_space c) IPV4" "only (\<lambda>c. \<not> is_space c) IPV6" "only (\<lambda>c. \<not> is_space c) HASH" "only (\<lambda>c. \<not> is_space c) PROCESS"
  "only (\<lambda>c. \<not> is_space c) WINDOWS_PATH" "only (\<lambda>c. \<not> is_space c) (UNIX_PATH ! 1)" "only (\<lambda>c. \<not> is_space c) DOMAIN"
  by (simp_all add: IPV4_def IPV6_def HASH_def PROCESS_def WINDOWS_PATH_def UNIX_PATH_def DOMAIN_def classes_no_space lit_no_space chars_no_space_simps)

lemma sublist_split:
  assumes "sublist w (a @ c # b)" "c \<notin> set w"
  shows "sublist w a \<or> sublist w b"
proof -
  from assms(1) obtain x y where eq: "a @ c # b = x @ w @ y" unfolding sublist_def by blast
  then consider u where "x = a @ u" "c # b = u @ w @ y" | u where "a = x @ u" "u @ c # b = w @ y"
    by (auto simp: append_eq_append_conv2)
  then show ?thesis
  proof cases
    case (1 u)
    then show ?thesis using assms(2) by (cases u; cases w) (auto simp: sublist_def)
  next
    case (2 u)
    from 2(2) consider v where "u = w @ v" | v where "w = u @ v" "c # b = v @ y" by (auto simp: append_eq_append_conv2)
    then show ?thesis
    proof cases
      case 1
      then show ?thesis using 2(1) by (auto simp: sublist_def)
    next
      case (2 v)
      then have "v = []" using assms(2) by (cases v) auto
      then have "suffix w a" using 2(1) \<open>a = x @ u\<close> by (simp add: suffix_def)
      then show ?thesis by (simp add: suffix_imp_sublist)
    qed
  qed
qed

lemma splice_words: "sublist w (splice '' '' s i pss) \<Longrightarrow> \<forall>c \<in> set w. \<not> is_space c \<Longrightarrow> sublist w s"
proof (induction pss arbitrary: i)
  case Nil
  then show ?case by (auto simp: suffix_drop intro: sublist_order.order.trans suffix_imp_sublist)
next
  case (Cons ps pss)
  have "CHR '' '' \<notin> set w" using Cons.prems(2) by (auto simp: is_space_def)
  then have "sublist w (slice s i (hd ps)) \<or> sublist w (splice '' '' s (last ps) pss)"
    using Cons.prems(1) sublist_split by simp
  then show ?case using Cons.IH Cons.prems(2) sublist_slice sublist_order.order.trans by blast
qed

lemma piece_in_text:
  assumes "ps \<in> set (find_all rs (re_sub q '' '' s))" "k < length rs" "only (\<lambda>c. \<not> is_space c) (rs ! k)"
  shows "sublist (piece (re_sub q '' '' s) ps k) s"
proof -
  have "first_match rs (re_sub q '' '' s) (ps ! 0) = Some ps" using find_from_sound[OF assms(1)] by blast
  from piece_only[OF this assms(2,3)] have "\<forall>c \<in> set (piece (re_sub q '' '' s) ps k). \<not> is_space c" .
  moreover have "sublist (piece (re_sub q '' '' s) ps k) (re_sub q '' '' s)" unfolding piece_def by (rule sublist_slice)
  ultimately show ?thesis unfolding re_sub_def using splice_words by blast
qed

lemma findall_in_text: "m \<in> set (findall r (re_sub q '' '' s)) \<Longrightarrow> only (\<lambda>c. \<not> is_space c) r \<Longrightarrow> sublist m s"
  unfolding findall_def using piece_in_text[of _ "[r]" q s 0] by auto

lemma found_in_text:
  assumes "(t, Some v) \<in> set (found_entities s)"
  shows "sublist v s \<or> t = En_Domain \<and> (\<exists>w. sublist w s \<and> v = lower w)"
proof -
  have unix: "ps \<in> set (find_all UNIX_PATH (re_sub [URL] '' '' s)) \<Longrightarrow> sublist (piece (re_sub [URL] '' '' s) ps 1) s" for ps
    using piece_in_text[of ps UNIX_PATH "[URL]" s 1] patterns_no_space(6) by (simp add: UNIX_PATH_def)
  have url: "m \<in> set (findall URL s) \<Longrightarrow> sublist m s" for m by (auto simp: findall_def piece_def intro: sublist_slice)
  show ?thesis using assms
    by (auto simp: found_entities_def Let_def dest: url findall_in_text[OF _ patterns_no_space(1)] findall_in_text[OF _ patterns_no_space(2)]
      findall_in_text[OF _ patterns_no_space(3)] findall_in_text[OF _ patterns_no_space(4)] findall_in_text[OF _ patterns_no_space(5)]
      findall_in_text[OF _ patterns_no_space(7)] unix)
qed

lemma strip_by_sublist: "sublist (strip_by p s) s"
proof -
  have "suffix (dropWhile p t) t" for t by (simp add: suffix_dropWhile)
  then have "sublist (rev (dropWhile p (rev (dropWhile p s)))) (dropWhile p s)" "sublist (dropWhile p s) s"
    by (metis rev_rev_ident sublist_rev suffix_imp_sublist, simp add: suffix_imp_sublist suffix_dropWhile)
  then show ?thesis unfolding strip_by_def using sublist_order.order.trans by blast
qed

lemma set_map_filter: "set (List.map_filter f xs) = {y. \<exists>x \<in> set xs. f x = Some y}"
  by (force simp: List.map_filter_def)

lemma cleaned_sublist: "sublist (cleaned v) v"
  unfolding cleaned_def using strip_by_sublist sublist_order.order.trans by blast

text \<open>
  Extraction invents nothing, repeats nothing and loses no structured value: every entity is the cleaned form of a value that was passed in, or
  stands literally in the text (a domain, up to case), and is not empty; no two entities have the same type and the same value up to case;
  and every structured value with anything left after cleaning is among them, up to case.
\<close>
theorem extraction_faithful:
  "list_all (\<lambda>e. en_value e \<noteq> [] \<and> ((\<exists>v. (en_type e, Some v) \<in> set extra \<and> en_value e = cleaned v) \<or> sublist (en_value e) text
       \<or> en_type e = En_Domain \<and> (\<exists>w. sublist w text \<and> en_value e = lower w))) (extract_entities text extra)
   \<and> distinct (map (\<lambda>e. (en_type e, lower (en_value e))) (extract_entities text extra))
   \<and> {(t, lower (cleaned v)) | t v. (t, Some v) \<in> set extra \<and> cleaned v \<noteq> []}
       \<subseteq> (\<lambda>e. (en_type e, lower (en_value e))) ` set (extract_entities text extra)"
proof -
  let ?cs = "List.map_filter add_entity (extra @ found_entities text)"
  have mem: "e \<in> set ?cs \<longleftrightarrow> (\<exists>v. (en_type e, Some v) \<in> set (extra @ found_entities text) \<and> v \<noteq> [] \<and> cleaned v \<noteq> [] \<and> en_value e = cleaned v)" for e
  proof -
    have add: "add_entity x = Some e \<longleftrightarrow> (\<exists>v. x = (en_type e, Some v) \<and> v \<noteq> [] \<and> cleaned v \<noteq> [] \<and> en_value e = cleaned v)" for x
      by (cases x; cases "snd x"; cases e) (auto simp: add_entity_def)
    show ?thesis unfolding set_map_filter mem_Collect_eq add by blast
  qed
  have key: "entity_key a = entity_key b \<longleftrightarrow> (en_type a, lower (en_value a)) = (en_type b, lower (en_value b))" for a b
    by (auto simp: entity_key_def dest: entity_type_value_inj)
  have sound: "en_value e \<noteq> [] \<and> ((\<exists>v. (en_type e, Some v) \<in> set extra \<and> en_value e = cleaned v) \<or> sublist (en_value e) text
       \<or> en_type e = En_Domain \<and> (\<exists>w. sublist w text \<and> en_value e = lower w))" if "e \<in> set (extract_entities text extra)" for e
  proof -
    from that have "e \<in> set ?cs" unfolding extract_entities_def by (rule subsetD[OF dedup_by_subset])
    then obtain v where v: "(en_type e, Some v) \<in> set (extra @ found_entities text)" "cleaned v \<noteq> []" "en_value e = cleaned v" unfolding mem by blast
    have "sublist (cleaned v) text \<or> en_type e = En_Domain \<and> (\<exists>w. sublist w text \<and> cleaned v = lower w)" if f: "(en_type e, Some v) \<in> set (found_entities text)"
      using found_in_text[OF f]
    proof (elim disjE conjE exE)
      fix w assume w: "en_type e = En_Domain" "sublist w text" "v = lower w"
      have "sublist (cleaned v) (map lower_char w)" using cleaned_sublist[of v] w(3) by (simp add: lower_def)
      then obtain x z where "map lower_char w = x @ cleaned v @ z" by (auto simp: sublist_def)
      then obtain a r where "w = a @ r" "map lower_char r = cleaned v @ z" by (metis map_eq_append_conv)
      moreover then obtain b c where "r = b @ c" "map lower_char b = cleaned v" by (metis map_eq_append_conv)
      ultimately have "w = a @ b @ c" "map lower_char b = cleaned v" by simp_all
      then show ?thesis using w(1,2) by (metis lower_def sublist_appendI sublist_order.order.trans)
    qed (use cleaned_sublist sublist_order.order.trans in blast)
    with v show ?thesis by auto
  qed
  have keys: "entity_key ` set (extract_entities text extra) = entity_key ` set ?cs"
    unfolding extract_entities_def using dedup_by_keys[of entity_key "[]" ?cs] by simp
  have "distinct (map entity_key (extract_entities text extra))" unfolding extract_entities_def by (rule dedup_by_distinct)
  then have "distinct (map (\<lambda>e. (en_type e, lower (en_value e))) (extract_entities text extra))"
    using key by (simp add: distinct_map inj_on_def)
  moreover have "(t, lower (cleaned v)) \<in> (\<lambda>e. (en_type e, lower (en_value e))) ` set (extract_entities text extra)"
    if "(t, Some v) \<in> set extra" "cleaned v \<noteq> []" for t v
  proof -
    have "v \<noteq> []" using that(2) by (auto simp: cleaned_def strip_by_def)
    then have "\<lparr>en_type = t, en_value = cleaned v\<rparr> \<in> set ?cs" using that by (subst mem) auto
    then obtain e where "e \<in> set (extract_entities text extra)" "entity_key e = entity_key \<lparr>en_type = t, en_value = cleaned v\<rparr>"
      using keys by (metis (no_types, lifting) image_iff)
    then show ?thesis using key[of e "\<lparr>en_type = t, en_value = cleaned v\<rparr>"] by (auto intro: rev_image_eqI)
  qed
  ultimately show ?thesis using sound by (auto simp: list_all_iff)
qed

end
