(* ===== verification/Log_Parsers.thy ===== *)
theory Log_Parsers
  imports Entity_Extraction Py_Value
begin

text \<open>
  The log parsers (\<^verbatim>\<open>tools/parsers.py\<close>): time stamps, classification by identifier and by text, the six format parsers and
  \<^verbatim>\<open>parse_record\<close>. Decoding JSON, ISO 8601 stamps and POSIX times are functions of Python's library that are passed in as one
  record; the calendar that \<^verbatim>\<open>datetime(...)\<close> checks is defined here. An exception that the code lets through is a value on
  the left.
\<close>

section \<open>What the parsers use of the library\<close>

text \<open>
  \<^verbatim>\<open>json.loads\<close> (\<open>None\<close> when it raises), \<^verbatim>\<open>datetime.fromisoformat\<close> (\<open>None\<close> when it raises; a stamp without a zone is
  read as UTC), \<^verbatim>\<open>datetime.fromtimestamp\<close>, the year of a stamp, the current year and the hexadecimal SHA-256 digest.
\<close>

record py_lib =
  loads :: "string \<Rightarrow> pyval option"
  fromisoformat :: "string \<Rightarrow> time option"
  fromtimestamp :: "pyfloat \<Rightarrow> py_error + time"
  year_of :: "time \<Rightarrow> int"
  this_year :: int
  sha256 :: "string \<Rightarrow> string"

definition is_leap :: "int \<Rightarrow> bool" where
  "is_leap y = (y mod 4 = 0 \<and> (y mod 100 \<noteq> 0 \<or> y mod 400 = 0))"

definition month_lengths :: "int \<Rightarrow> int list" where
  "month_lengths y = [31, if is_leap y then 29 else 28, 31, 30, 31, 30, 31, 31, 30, 31, 30, 31]"

text \<open>\<^verbatim>\<open>datetime(year, month, day, hour, minute, second, tzinfo=UTC)\<close>, in microseconds since 1970.\<close>

definition days_before_year :: "int \<Rightarrow> int" where
  "days_before_year y = (y - 1) * 365 + (y - 1) div 4 - (y - 1) div 100 + (y - 1) div 400"

definition utc_datetime :: "int \<Rightarrow> int \<Rightarrow> int \<Rightarrow> int \<Rightarrow> int \<Rightarrow> int \<Rightarrow> py_error + time" where
  "utc_datetime y mo d h mi s =
     (if 1 \<le> y \<and> y \<le> 9999 \<and> 1 \<le> mo \<and> mo \<le> 12 \<and> 1 \<le> d \<and> d \<le> month_lengths y ! nat (mo - 1) \<and> 0 \<le> h \<and> h \<le> 23 \<and> 0 \<le> mi \<and> mi \<le> 59 \<and> 0 \<le> s \<and> s \<le> 59
      then Inr ((((days_before_year y + sum_list (take (nat (mo - 1)) (month_lengths y)) + d - 1 - days_before_year 1970) * 24 + h) * 60 + mi) * 60 * 1000000 + s * 1000000)
      else Inl Value_Error)"


section \<open>Shared vocabulary\<close>

definition HOST_KEYS :: "string list" where
  "HOST_KEYS = [''host'', ''hostname'', ''computer'', ''computer_name'', ''device'', ''src_host'', ''machine'']"
definition ACTOR_KEYS :: "string list" where
  "ACTOR_KEYS = [''user'', ''username'', ''account'', ''actor'', ''subject_user_name'', ''target_user_name'']"
definition ACTION_KEYS :: "string list" where
  "ACTION_KEYS = [''action'', ''event'', ''event_type'', ''activity'', ''operation'', ''task'']"
definition OUTCOME_KEYS :: "string list" where
  "OUTCOME_KEYS = [''outcome'', ''result'', ''status'', ''success'']"
definition MESSAGE_KEYS :: "string list" where
  "MESSAGE_KEYS = [''message'', ''msg'', ''description'', ''text'', ''event_data'', ''detail'']"
definition TIME_KEYS :: "string list" where
  "TIME_KEYS = [''timestamp'', ''time'', ''@timestamp'', ''event_time'', ''time_created'', ''date'']"

definition SYSLOG_MONTHS :: "(string, int) dict" where
  "SYSLOG_MONTHS = zip [''Jan'', ''Feb'', ''Mar'', ''Apr'', ''May'', ''Jun'', ''Jul'', ''Aug'', ''Sep'', ''Oct'', ''Nov'', ''Dec''] [1..12]"

text \<open>\<^verbatim>\<open>\w*\<close>, and words separated by white space.\<close>

abbreviation rest_of_word :: rx where "rest_of_word \<equiv> Star (Cls is_word)"
abbreviation word_end :: rx where "word_end \<equiv> plus (Cls is_word)"

definition words :: "rx list \<Rightarrow> rx" where
  "words ws = seq (case ws of [] \<Rightarrow> [] | r # rs \<Rightarrow> r # concat (map (\<lambda>x. [spaces1, x]) rs))"

abbreviation stem :: "string \<Rightarrow> rx" where "stem w \<equiv> Cat (lit w) rest_of_word"
abbreviation stem1 :: "string \<Rightarrow> rx" where "stem1 w \<equiv> Cat (lit w) word_end"

definition bounded :: "rx list \<Rightarrow> rx" where
  "bounded rs = seq [Bound, choice rs, Bound]"

definition EVENT_TYPE_PATTERNS :: "(event_type \<times> rx) list" where
  "EVENT_TYPE_PATTERNS =
    [(Auth_Failure, bounded [words [lit ''failed'', lit ''password''], words [lit ''authentication'', stem ''fail''], words [lit ''login'', stem ''fail''],
        words [lit ''invalid'', lit ''user''], words [lit ''failed'', lit ''login''], words [lit ''logon'', stem ''fail''], words [lit ''access'', lit ''denied'']]),
     (Auth_Success, bounded [words [lit ''accepted'', lit ''password''], words [lit ''authentication'', stem ''succe''], words [lit ''login'', stem ''succe''],
        words [lit ''successful'', lit ''logon''], words [lit ''session'', lit ''opened''], words [lit ''logged'', lit ''in'']]),
     (Privilege_Change, bounded [lit ''sudo'', lit ''privilege'', stem1 ''elevat'', words [lit ''special'', lit ''privileges''], lit ''runas'',
        words [lit ''administrator'', lit ''rights'']]),
     (Account_Change, bounded [words [lit ''user'', lit ''added''], words [lit ''account'', choice (map lit [''created'', ''deleted'', ''enabled'', ''disabled'', ''locked''])],
        words [lit ''password'', choice (map lit [''changed'', ''reset''])],
        words [lit ''group'', Cat (lit ''member'') (opt (lit ''ship'')), choice (map lit [''added'', ''removed''])]]),
     (Process_Start, bounded [words [lit ''process'', choice [stem1 ''creat'', stem1 ''start'', stem1 ''launch'']], words [lit ''new'', lit ''process''],
        words [lit ''command'', lit ''line''], stem ''exec'']),
     (Network_Connection, bounded [words [lit ''connection'', choice [lit ''from'', lit ''to'', stem1 ''establish'', lit ''accepted'']], lit ''outbound'', lit ''inbound'',
        words [lit ''network'', stem ''connect''], lit ''tcp'', lit ''udp'', words [lit ''dns'', stem1 ''quer'']]),
     (Service_Control, bounded [words [lit ''service'', choice [stem ''start'', stem ''stop'', stem ''install'', stem ''creat'']],
        words [lit ''daemon'', choice [stem ''start'', stem ''stop'']]]),
     (File_Access, bounded [words [lit ''file'', choice [lit ''read'', lit ''written'', lit ''created'', lit ''deleted'', stem ''access'']],
        words [lit ''object'', lit ''access''], words [lit ''directory'', lit ''access'']]),
     (Configuration_Change, bounded [words [stem ''config'', choice [stem1 ''chang'', stem1 ''modif'', stem1 ''updat'']],
        words [lit ''registry'', choice (map lit [''value'', ''key'']), choice [lit ''set'', stem1 ''modif'']], words [lit ''policy'', stem1 ''chang'']])]"

definition WINDOWS_EVENT_IDS :: "(int, event_type) dict" where
  "WINDOWS_EVENT_IDS = [(4624, Auth_Success), (4625, Auth_Failure), (4634, Auth_Success), (4648, Auth_Success), (4672, Privilege_Change),
     (4673, Privilege_Change), (4688, Process_Start), (4720, Account_Change), (4722, Account_Change), (4724, Account_Change), (4728, Account_Change),
     (4732, Account_Change), (4740, Account_Change), (7045, Service_Control)]"

record parsed_record =
  pd_log_format :: log_format
  pd_event_time :: "time option"
  pd_message :: string
  pd_host :: "string option"
  pd_actor :: "string option"
  pd_action :: "string option"
  pd_outcome :: "string option"
  pd_event_type :: event_type
  pd_fields :: mapping
  pd_confidence :: pyfloat

record log_parser =
  lp_log_format :: log_format
  can_parse :: "string \<Rightarrow> bool"
  parse :: "string \<Rightarrow> time option \<Rightarrow> py_error + parsed_record option"


section \<open>Helpers\<close>

definition normalize_key :: "string \<Rightarrow> string" where
  "normalize_key k = filter (\<lambda>c. is_lower_az c \<or> is_digit c) (lower k)"

text \<open>Fields whose folded names coincide: the last one counts.\<close>

definition folded :: "mapping \<Rightarrow> mapping" where
  "folded payload = rev (map (\<lambda>(k, v). (normalize_key k, v)) payload)"

definition absent :: "pyval \<Rightarrow> bool" where
  "absent v = (v = PNone \<or> v = PStr [])"

definition first_value :: "mapping \<Rightarrow> string list \<Rightarrow> pyval" where
  "first_value payload keys = (case filter (\<lambda>v. \<not> absent v) (map (\<lambda>k. pget (folded payload) (normalize_key k)) keys) of [] \<Rightarrow> PNone | v # _ \<Rightarrow> v)"

definition eos :: rx where
  "eos = At (\<lambda>s i. i = length s \<or> Suc i = length s \<and> s ! i = CHR 0x0A)"

definition SYSLOG_STAMP :: "rx list" where
  "SYSLOG_STAMP = [seq [Cls is_upper_az, repeat 2 2 (Cls is_lower_az)], spaces1, repeat 1 2 digit, spaces1, repeat 2 2 digit, lit '':'', repeat 2 2 digit, lit '':'',
     repeat 2 2 digit, eos]"

definition parse_syslog_stamp :: "py_lib \<Rightarrow> string \<Rightarrow> int option \<Rightarrow> py_error + time option" where
  "parse_syslog_stamp lib text reference_year = (case first_match SYSLOG_STAMP text 0 of None \<Rightarrow> Inr None
     | Some ps \<Rightarrow> (case map_of SYSLOG_MONTHS (piece text ps 0) of None \<Rightarrow> Inr None
       | Some month \<Rightarrow>
           (let number = (\<lambda>k. int_of_digits (piece text ps k)); year = (case reference_year of Some y \<Rightarrow> y | None \<Rightarrow> this_year lib) in
            and_then (utc_datetime year month (number 2) (number 4) (number 6) (number 8)) (\<lambda>t. Inr (Some t)))))"

definition posix_stamp :: "py_lib \<Rightarrow> pyfloat \<Rightarrow> bool \<Rightarrow> py_error + time option" where
  "posix_stamp lib x big = and_then (fromtimestamp lib (if big then rnd (x / 1000) else x)) (\<lambda>t. Inr (Some t))"

fun parse_timestamp :: "py_lib \<Rightarrow> pyval \<Rightarrow> int option \<Rightarrow> py_error + time option" where
  "parse_timestamp lib (PInt i) y = posix_stamp lib (rnd (of_int i)) (i > 100000000000)"
| "parse_timestamp lib (PBool b) y = posix_stamp lib (if b then 1 else 0) False"
| "parse_timestamp lib (PFloat x) y = posix_stamp lib x (x > 100000000000)"
| "parse_timestamp lib (PStr s) y =
     (let text = strip s in if text = [] then Inr None
      else case fromisoformat lib (concat (map (\<lambda>c. if c = CHR ''Z'' then ''+00:00'' else [c]) text)) of
        Some t \<Rightarrow> Inr (Some t) | None \<Rightarrow> parse_syslog_stamp lib text y)"
| "parse_timestamp lib _ y = Inr None"

text \<open>\<^verbatim>\<open>int(text)\<close>: white space around, a sign, and single underscores between the digits.\<close>

definition int_of_text :: "string \<Rightarrow> int option" where
  "int_of_text s =
     (let t = strip s; neg = prefix ''-'' t; digits = (if neg \<or> prefix ''+'' t then tl t else t); parts = split_at (\<lambda>c. c = CHR ''_'') digits in
      if list_all (\<lambda>w. w \<noteq> [] \<and> list_all is_digit w) parts then Some ((if neg then - 1 else 1) * int_of_digits (concat parts)) else None)"

definition event_id_of_fields :: "mapping \<Rightarrow> int" where
  "event_id_of_fields d = (case int_of_text (str_val (first_value d [''event_id'', ''eventid'', ''id''])) of Some n \<Rightarrow> n | None \<Rightarrow> 0)"

definition classify_text :: "string \<Rightarrow> event_type" where
  "classify_text text = (case filter (\<lambda>(_, r). search r text) EVENT_TYPE_PATTERNS of [] \<Rightarrow> Ev_Other | (t, _) # _ \<Rightarrow> t)"

definition classify_event_type :: "string \<Rightarrow> mapping \<Rightarrow> event_type" where
  "classify_event_type text d = (case (if d = [] then None else map_of WINDOWS_EVENT_IDS (event_id_of_fields d)) of
     Some t \<Rightarrow> t | None \<Rightarrow> classify_text text)"

definition FAILURE_WORDS :: rx where
  "FAILURE_WORDS = bounded [stem ''fail'', lit ''denied'', lit ''invalid'', lit ''error'', lit ''unauthorized'']"

definition SUCCESS_WORDS :: rx where
  "SUCCESS_WORDS = bounded [stem ''success'', lit ''accepted'', lit ''granted'', lit ''allowed'']"

definition outcome_from :: "string \<Rightarrow> pyval \<Rightarrow> string option" where
  "outcome_from text explicit = (if explicit \<noteq> PNone then Some (str_val explicit)
     else if search FAILURE_WORDS (lower text) then Some ''failure'' else if search SUCCESS_WORDS (lower text) then Some ''success'' else None)"

definition optional_str :: "pyval \<Rightarrow> string option" where
  "optional_str v = (if absent v then None else let text = strip (str_val v) in if text = [] then None else Some text)"

definition none_if_nil :: "string \<Rightarrow> string option" where
  "none_if_nil v = (if v = ''-'' then None else Some v)"

abbreviation user_char :: "char \<Rightarrow> bool" where
  "user_char c \<equiv> name_char c \<or> c = CHR ''$''"

definition FOR_USER :: "rx list" where
  "FOR_USER = [seq [Bound, lit ''for'', spaces1, opt (seq [lit ''invalid'', spaces1, lit ''user'', spaces1])], plus (Cls user_char), seq [spaces1, lit ''from'', Bound]]"

definition USER_FIELD :: "rx list" where
  "USER_FIELD = [seq [Bound, lit ''user'', plus (Cls (\<lambda>c. c = CHR ''='' \<or> is_space c))], plus (Cls user_char)]"

definition actor_from_message :: "string \<Rightarrow> string option" where
  "actor_from_message m = (case search_from FOR_USER m 0 of Some ps \<Rightarrow> Some (piece m ps 1)
     | None \<Rightarrow> map_option (\<lambda>ps. piece m ps 1) (search_from USER_FIELD m 0))"

definition KEY_VALUE :: "rx list" where
  "KEY_VALUE = [plus (Cls name_char), lit ''='',
     choice [seq [lit [double_quote], Star (Cls (\<lambda>c. c \<noteq> double_quote)), lit [double_quote]],
       seq [lit [single_quote], Star (Cls (\<lambda>c. c \<noteq> single_quote)), lit [single_quote]], Star (Cls (\<lambda>c. \<not> is_space c))]]"

definition parse_key_values :: "string \<Rightarrow> mapping" where
  "parse_key_values text = fold (\<lambda>ps. dict_set (lower (piece text ps 0)) (PStr (strip_by (\<lambda>c. c = double_quote \<or> c = single_quote) (piece text ps 2))))
     (find_all KEY_VALUE text) []"

text \<open>The index after the bracket that closes the first one.\<close>

fun closing :: "nat \<Rightarrow> string \<Rightarrow> nat option" where
  "closing depth [] = None"
| "closing depth (c # cs) =
     (if c = CHR ''['' then map_option Suc (closing (Suc depth) cs)
      else if c = CHR '']'' then (if depth - 1 = 0 then Some 1 else map_option Suc (closing (depth - 1) cs))
      else map_option Suc (closing depth cs))"

definition split_structured_data :: "string \<Rightarrow> string option \<times> string" where
  "split_structured_data rest =
     (if prefix ''-'' rest then (None, strip (tl rest)) else if \<not> prefix ''['' rest then (None, rest)
      else case closing 0 rest of Some n \<Rightarrow> (Some (take n rest), strip (drop n rest)) | None \<Rightarrow> (None, rest))"

text \<open>\<^verbatim>\<open>text.split(c, n)\<close>.\<close>

fun split_limit :: "nat \<Rightarrow> char \<Rightarrow> string \<Rightarrow> string list" where
  "split_limit 0 c s = [s]"
| "split_limit (Suc n) c s = (if c \<in> set s then takeWhile (\<lambda>d. d \<noteq> c) s # split_limit n c (tl (dropWhile (\<lambda>d. d \<noteq> c) s)) else [s])"


section \<open>The parsers\<close>

definition braced :: "string \<Rightarrow> bool" where
  "braced s = (prefix ''{'' (strip s) \<and> suffix ''}'' (strip s))"

text \<open>\<^verbatim>\<open>1.0 if event_time else 0.5\<close> and its like.\<close>

abbreviation when_dated :: "'a option \<Rightarrow> pyfloat \<Rightarrow> pyfloat \<Rightarrow> pyfloat" where
  "when_dated t a b \<equiv> (if t \<noteq> None then a else b)"

definition json_record :: "py_lib \<Rightarrow> string \<Rightarrow> mapping \<Rightarrow> py_error + parsed_record option" where
  "json_record lib content d =
     (let message = str_val (or_val (first_value d MESSAGE_KEYS) (PStr content)); action = first_value d ACTION_KEYS in
      and_then (parse_timestamp lib (first_value d TIME_KEYS) None) (\<lambda>event_time.
        Inr (Some \<lparr>pd_log_format = Json, pd_event_time = event_time, pd_message = message, pd_host = optional_str (first_value d HOST_KEYS),
          pd_actor = optional_str (first_value d ACTOR_KEYS), pd_action = optional_str action, pd_outcome = outcome_from message (first_value d OUTCOME_KEYS),
          pd_event_type = classify_event_type (message @ '' '' @ str_val (or_val action (PStr []))) d, pd_fields = d,
          pd_confidence = when_dated event_time 1 (1/2)\<rparr>)))"

definition JsonLogParser :: "py_lib \<Rightarrow> log_parser" where
  "JsonLogParser lib = \<lparr>lp_log_format = Json, can_parse = braced,
     parse = (\<lambda>content _. case loads lib content of Some (PDict d) \<Rightarrow> json_record lib content d | _ \<Rightarrow> Inr None)\<rparr>"

definition windows_envelope :: "mapping \<Rightarrow> bool" where
  "windows_envelope d = (let lowered = map (lower \<circ> fst) d in
     ''eventid'' \<in> set lowered \<and> list_ex (\<lambda>k. k \<in> set [''channel'', ''provider'', ''providername'']) lowered)"

definition windows_record :: "py_lib \<Rightarrow> mapping \<Rightarrow> py_error + parsed_record option" where
  "windows_record lib d =
     (let message = str_val (or_val (first_value d MESSAGE_KEYS) (PStr [])) in
      and_then (parse_timestamp lib (first_value d TIME_KEYS) None) (\<lambda>event_time.
        Inr (Some \<lparr>pd_log_format = Windows_Event, pd_event_time = event_time,
          pd_message = (if message \<noteq> [] then message else ''Windows event '' @ str_val (or_val (first_value d [''event_id'', ''eventid'']) (PStr ''?''))),
          pd_host = optional_str (first_value d HOST_KEYS), pd_actor = optional_str (first_value d ACTOR_KEYS),
          pd_action = optional_str (first_value d ([''task'', ''opcode''] @ ACTION_KEYS)), pd_outcome = outcome_from message (first_value d OUTCOME_KEYS),
          pd_event_type = classify_event_type message d, pd_fields = d, pd_confidence = when_dated event_time 1 (1/2)\<rparr>)))"

definition WindowsEventParser :: "py_lib \<Rightarrow> log_parser" where
  "WindowsEventParser lib = \<lparr>lp_log_format = Windows_Event,
     can_parse = (\<lambda>content. braced content \<and> (case loads lib (strip content) of Some (PDict d) \<Rightarrow> windows_envelope d | _ \<Rightarrow> False)),
     parse = (\<lambda>content _. case loads lib content of Some (PDict d) \<Rightarrow> windows_record lib d | _ \<Rightarrow> Inr None)\<rparr>"

abbreviation token :: rx where "token \<equiv> plus (Cls (\<lambda>c. \<not> is_space c))"
abbreviation rest_of_line :: rx where "rest_of_line \<equiv> Star (Cls (\<lambda>c. c \<noteq> CHR 0x0A))"

text \<open>The groups of the RFC 5424 pattern are the pieces 1 (priority), 3 (version), 5, 7, 9, 11 and 13 (the five tokens) and 15 (the rest).\<close>

definition RFC5424 :: "rx list" where
  "RFC5424 = [lit ''<'', repeat 1 3 digit, lit ''>'', digit, spaces1, token, spaces1, token, spaces1, token, spaces1, token, spaces1, token, spaces1, rest_of_line, eos]"

definition opt_str :: "string option \<Rightarrow> pyval" where
  "opt_str v = (case v of None \<Rightarrow> PNone | Some s \<Rightarrow> PStr s)"

definition rfc5424_record :: "py_lib \<Rightarrow> (nat \<Rightarrow> string) \<Rightarrow> py_error + parsed_record option" where
  "rfc5424_record lib part =
     (let (structured, message) = split_structured_data (strip (part 15)); app = none_if_nil (part 9) in
      and_then (parse_timestamp lib (PStr (part 5)) None) (\<lambda>event_time.
        Inr (Some \<lparr>pd_log_format = Syslog_Rfc5424, pd_event_time = event_time, pd_message = message, pd_host = none_if_nil (part 7),
          pd_actor = actor_from_message message, pd_action = app, pd_outcome = outcome_from message PNone, pd_event_type = classify_event_type message [],
          pd_fields = [(''priority'', PInt (int_of_digits (part 1))), (''version'', PStr (part 3)), (''app_name'', opt_str app),
             (''proc_id'', opt_str (none_if_nil (part 11))), (''msg_id'', opt_str (none_if_nil (part 13)))]
            @ (if truthy structured then [(''structured_data'', opt_str structured)] else []),
          pd_confidence = when_dated event_time 1 (1/2)\<rparr>)))"

definition SyslogRfc5424Parser :: "py_lib \<Rightarrow> log_parser" where
  "SyslogRfc5424Parser lib = \<lparr>lp_log_format = Syslog_Rfc5424, can_parse = (\<lambda>content. first_match RFC5424 (strip content) 0 \<noteq> None),
     parse = (\<lambda>content _. case first_match RFC5424 (strip content) 0 of None \<Rightarrow> Inr None | Some ps \<Rightarrow> rfc5424_record lib (piece (strip content) ps))\<rparr>"

text \<open>
  The pieces of the RFC 3164 pattern: the optional priority in angle brackets (0), the stamp (1), the host (3), the tag (5), the optional process
  number in square brackets (6) and the message (9). The group inside an optional piece is the piece without its brackets.
\<close>

definition RFC3164 :: "rx list" where
  "RFC3164 = [opt (seq [lit ''<'', repeat 1 3 digit, lit ''>'']),
     seq [Cls is_upper_az, repeat 2 2 (Cls is_lower_az), spaces1, repeat 1 2 digit, spaces1, repeat 2 2 digit, lit '':'', repeat 2 2 digit, lit '':'', repeat 2 2 digit],
     spaces1, token, spaces1, plus (Cls (\<lambda>c. c \<noteq> CHR '':'' \<and> c \<noteq> CHR ''['' \<and> \<not> is_space c)), opt (seq [lit ''['', plus digit, lit '']'']), lit '':'', spaces,
     rest_of_line, eos]"

definition unbracket :: "string \<Rightarrow> string" where
  "unbracket s = butlast (tl s)"

definition rfc3164_record :: "py_lib \<Rightarrow> time option \<Rightarrow> (nat \<Rightarrow> string) \<Rightarrow> py_error + parsed_record option" where
  "rfc3164_record lib reference_time part =
     (let message = part 9; pri = unbracket (part 0); pid = unbracket (part 6) in
      and_then (parse_timestamp lib (PStr (part 1)) (map_option (year_of lib) reference_time)) (\<lambda>event_time.
        Inr (Some \<lparr>pd_log_format = Syslog_Rfc3164, pd_event_time = event_time, pd_message = message, pd_host = Some (part 3),
          pd_actor = actor_from_message message, pd_action = Some (part 5), pd_outcome = outcome_from message PNone,
          pd_event_type = classify_event_type message [],
          pd_fields = [(''tag'', PStr (part 5))] @ (if pri \<noteq> [] then [(''priority'', PInt (int_of_digits pri))] else [])
            @ (if pid \<noteq> [] then [(''pid'', PInt (int_of_digits pid))] else []),
          pd_confidence = when_dated event_time (rnd (9/10)) (1/2)\<rparr>)))"

definition SyslogRfc3164Parser :: "py_lib \<Rightarrow> log_parser" where
  "SyslogRfc3164Parser lib = \<lparr>lp_log_format = Syslog_Rfc3164, can_parse = (\<lambda>content. first_match RFC3164 (strip content) 0 \<noteq> None),
     parse = (\<lambda>content reference_time. case first_match RFC3164 (strip content) 0 of None \<Rightarrow> Inr None
       | Some ps \<Rightarrow> rfc3164_record lib reference_time (piece (strip content) ps))\<rparr>"

definition CEF_PREFIX :: "rx list" where
  "CEF_PREFIX = [Cls (\<lambda>c. c = CHR ''C''), Cls (\<lambda>c. c = CHR ''E''), Cls (\<lambda>c. c = CHR ''F''), lit '':'', plus digit, lit ''|'']"

definition cef_fields :: "string list \<Rightarrow> mapping" where
  "cef_fields parts = fold (\<lambda>(k, v). dict_set k v) (parse_key_values (parts ! 7))
     (zip [''vendor'', ''product'', ''device_version'', ''signature_id'', ''name'', ''cef_severity''] (map PStr (take 6 (tl parts))))"

definition cef_record :: "py_lib \<Rightarrow> string list \<Rightarrow> py_error + parsed_record option" where
  "cef_record lib parts =
     (if length parts < 8 then Inr None
      else let name = parts ! 5; fields = cef_fields parts;
          message = str_val (or_val (pget fields ''msg'') (PStr name)); stamp = first_value fields (''rt'' # TIME_KEYS) in
        and_then (parse_timestamp lib stamp None) (\<lambda>event_time.
          Inr (Some \<lparr>pd_log_format = Cef, pd_event_time = event_time, pd_message = message,
            pd_host = optional_str (first_value fields ([''dvchost'', ''dhost'', ''shost''] @ HOST_KEYS)),
            pd_actor = optional_str (first_value fields ([''duser'', ''suser''] @ ACTOR_KEYS)), pd_action = Some name,
            pd_outcome = outcome_from (name @ '' '' @ message) (pget fields ''outcome''), pd_event_type = classify_event_type (name @ '' '' @ message) fields,
            pd_fields = fields, pd_confidence = (if truth stamp then 1 else 1/2)\<rparr>)))"

definition CefParser :: "py_lib \<Rightarrow> log_parser" where
  "CefParser lib = \<lparr>lp_log_format = Cef, can_parse = (\<lambda>content. first_match CEF_PREFIX (strip content) 0 \<noteq> None),
     parse = (\<lambda>content _. if first_match CEF_PREFIX (strip content) 0 = None then Inr None
       else cef_record lib (split_limit 7 (CHR ''|'') (strip content)))\<rparr>"

definition PAIR :: rx where
  "PAIR = seq [Bound, plus (Cls name_char), lit ''='']"

definition key_value_record :: "py_lib \<Rightarrow> string \<Rightarrow> mapping \<Rightarrow> py_error + parsed_record option" where
  "key_value_record lib content d =
     (if d = [] then Inr None
      else let message = str_val (or_val (first_value d MESSAGE_KEYS) (PStr (strip content))) in
        and_then (parse_timestamp lib (first_value d TIME_KEYS) None) (\<lambda>event_time.
          Inr (Some \<lparr>pd_log_format = Key_Value, pd_event_time = event_time, pd_message = message, pd_host = optional_str (first_value d HOST_KEYS),
            pd_actor = optional_str (first_value d ACTOR_KEYS), pd_action = optional_str (first_value d ACTION_KEYS),
            pd_outcome = outcome_from content (first_value d OUTCOME_KEYS), pd_event_type = classify_event_type content d, pd_fields = d,
            pd_confidence = when_dated event_time (rnd (8/10)) (rnd (4/10))\<rparr>)))"

definition KeyValueParser :: "py_lib \<Rightarrow> log_parser" where
  "KeyValueParser lib = \<lparr>lp_log_format = Key_Value, can_parse = (\<lambda>content. 2 \<le> length (findall PAIR content)),
     parse = (\<lambda>content _. key_value_record lib content (parse_key_values content))\<rparr>"

definition DEFAULT_PARSERS :: "py_lib \<Rightarrow> log_parser list" where
  "DEFAULT_PARSERS lib = map (\<lambda>p. p lib) [WindowsEventParser, JsonLogParser, SyslogRfc5424Parser, SyslogRfc3164Parser, CefParser, KeyValueParser]"


section \<open>Parsing a record\<close>

record raw_log_record =
  rl_record_id :: string
  rl_source_id :: string
  rl_source_kind :: log_source_kind
  rl_content :: string
  rl_raw_ref :: "string option"
  rl_received_at :: "time option"
  rl_declared_format :: "log_format option"

fun sniff :: "string \<Rightarrow> time option \<Rightarrow> log_parser list \<Rightarrow> py_error + parsed_record option" where
  "sniff content reference_time [] = Inr None"
| "sniff content reference_time (p # ps) =
     (if can_parse p content then and_then (parse p content reference_time) (\<lambda>parsed. if parsed \<noteq> None then Inr parsed else sniff content reference_time ps)
      else sniff content reference_time ps)"

text \<open>The parser of the declared format, when there is one.\<close>

definition declared_attempt :: "log_parser list \<Rightarrow> raw_log_record \<Rightarrow> py_error + parsed_record option" where
  "declared_attempt parsers r = (case rl_declared_format r of None \<Rightarrow> Inr None
     | Some f \<Rightarrow> (case find (\<lambda>p. lp_log_format p = f) parsers of None \<Rightarrow> Inr None | Some p \<Rightarrow> parse p (strip (rl_content r)) (rl_received_at r)))"

definition parse_record :: "log_parser list \<Rightarrow> raw_log_record \<Rightarrow> py_error + parsed_record option" where
  "parse_record parsers r =
     (let content = strip (rl_content r) in
      if content = [] then Inr None
      else and_then (declared_attempt parsers r)
        (\<lambda>parsed. if parsed \<noteq> None then Inr parsed else sniff content (rl_received_at r) parsers))"


section \<open>Which parser decides, and how sure it is\<close>

lemma dated_record: "and_then m (\<lambda>t. Inr (Some (f t))) = Inr (Some pd) \<Longrightarrow> (\<And>t. P (f t)) \<Longrightarrow> P pd"
  by (cases m) auto

lemma records_well_formed:
  "json_record lib content d = Inr (Some pd) \<Longrightarrow> pd_log_format pd = Json \<and> pd_confidence pd = when_dated (pd_event_time pd) 1 (1/2)"
  "windows_record lib d = Inr (Some pd) \<Longrightarrow> pd_log_format pd = Windows_Event \<and> pd_confidence pd = when_dated (pd_event_time pd) 1 (1/2)"
  "rfc5424_record lib part = Inr (Some pd) \<Longrightarrow> pd_log_format pd = Syslog_Rfc5424 \<and> pd_confidence pd = when_dated (pd_event_time pd) 1 (1/2)"
  "rfc3164_record lib ref part = Inr (Some pd) \<Longrightarrow> pd_log_format pd = Syslog_Rfc3164 \<and> pd_confidence pd = when_dated (pd_event_time pd) (rnd (9/10)) (1/2)"
  "cef_record lib parts = Inr (Some pd) \<Longrightarrow> pd_log_format pd = Cef \<and> pd_confidence pd \<in> {1, 1/2}"
  "key_value_record lib content d = Inr (Some pd) \<Longrightarrow> pd_log_format pd = Key_Value \<and> pd_confidence pd = when_dated (pd_event_time pd) (rnd (8/10)) (rnd (4/10))"
proof -
  show "json_record lib content d = Inr (Some pd) \<Longrightarrow> pd_log_format pd = Json \<and> pd_confidence pd = when_dated (pd_event_time pd) 1 (1/2)"
    unfolding json_record_def Let_def by (erule dated_record) (simp only: parsed_record.simps simp_thms)
  show "windows_record lib d = Inr (Some pd) \<Longrightarrow> pd_log_format pd = Windows_Event \<and> pd_confidence pd = when_dated (pd_event_time pd) 1 (1/2)"
    unfolding windows_record_def Let_def by (erule dated_record) (simp only: parsed_record.simps simp_thms)
  show "rfc5424_record lib part = Inr (Some pd) \<Longrightarrow> pd_log_format pd = Syslog_Rfc5424 \<and> pd_confidence pd = when_dated (pd_event_time pd) 1 (1/2)"
    unfolding rfc5424_record_def Let_def case_prod_beta by (erule dated_record) (simp only: parsed_record.simps simp_thms)
  show "rfc3164_record lib ref part = Inr (Some pd) \<Longrightarrow> pd_log_format pd = Syslog_Rfc3164 \<and> pd_confidence pd = when_dated (pd_event_time pd) (rnd (9/10)) (1/2)"
    unfolding rfc3164_record_def Let_def by (erule dated_record) (simp only: parsed_record.simps simp_thms)
  show "cef_record lib parts = Inr (Some pd) \<Longrightarrow> pd_log_format pd = Cef \<and> pd_confidence pd \<in> {1, 1/2}"
    unfolding cef_record_def Let_def by (split if_split_asm) (simp, erule dated_record, simp)
  show "key_value_record lib content d = Inr (Some pd) \<Longrightarrow> pd_log_format pd = Key_Value \<and> pd_confidence pd = when_dated (pd_event_time pd) (rnd (8/10)) (rnd (4/10))"
    unfolding key_value_record_def Let_def by (split if_split_asm) (simp, erule dated_record, simp only: parsed_record.simps simp_thms)
qed

lemma default_parser_sound:
  assumes "p \<in> set (DEFAULT_PARSERS lib)" "parse p content ref = Inr (Some pd)"
  shows "pd_log_format pd = lp_log_format p" "0 \<le> pd_confidence pd" "pd_confidence pd \<le> 1"
proof -
  have "pd_log_format pd = lp_log_format p \<and> pd_confidence pd \<in> {1, 1/2, rnd (9/10), rnd (8/10), rnd (4/10)}"
    using assms unfolding DEFAULT_PARSERS_def
    by (auto simp: WindowsEventParser_def JsonLogParser_def SyslogRfc5424Parser_def SyslogRfc3164Parser_def CefParser_def KeyValueParser_def
      split: option.splits pyval.splits if_splits dest!: records_well_formed)
  moreover have "0 \<le> rnd (9/10)" "rnd (9/10) \<le> 1" "0 \<le> rnd (8/10)" "rnd (8/10) \<le> 1" "0 \<le> rnd (4/10)" "rnd (4/10) \<le> 1"
    by (intro rnd_nonneg rnd_le_1; simp)+
  ultimately show "pd_log_format pd = lp_log_format p" "0 \<le> pd_confidence pd" "pd_confidence pd \<le> 1" by auto
qed

lemma sniff_cases:
  "sniff content ref ps = Inr (Some pd) \<Longrightarrow> \<exists>p \<in> set ps. can_parse p content \<and> parse p content ref = Inr (Some pd)"
  by (induction ps) (auto simp: and_then_Inr split: if_splits)

lemma sniff_None: "sniff content ref ps = Inr None \<longleftrightarrow> (\<forall>p \<in> set ps. can_parse p content \<longrightarrow> parse p content ref = Inr None)"
  by (induction ps) (auto simp: and_then_Inr split: if_splits)

lemma parse_record_cases:
  assumes "parse_record parsers r = Inr (Some pd)"
  shows "\<exists>p \<in> set parsers. parse p (strip (rl_content r)) (rl_received_at r) = Inr (Some pd)
    \<and> (rl_declared_format r = Some (lp_log_format p) \<or> can_parse p (strip (rl_content r)))"
proof -
  have ne: "strip (rl_content r) \<noteq> []" using assms by (auto simp: parse_record_def)
  then have run: "and_then (declared_attempt parsers r) (\<lambda>parsed. if parsed \<noteq> None then Inr parsed
      else sniff (strip (rl_content r)) (rl_received_at r) parsers) = Inr (Some pd)" using assms by (simp add: parse_record_def declared_attempt_def Let_def)
  then obtain first where f: "declared_attempt parsers r = Inr first" unfolding and_then_Inr by blast
  show ?thesis
  proof (cases first)
    case None
    then show ?thesis using run f sniff_cases by fastforce
  next
    case (Some q)
    then have "declared_attempt parsers r = Inr (Some pd)" using run f by simp
    then obtain g p where "rl_declared_format r = Some g" "find (\<lambda>p. lp_log_format p = g) parsers = Some p"
      "parse p (strip (rl_content r)) (rl_received_at r) = Inr (Some pd)" by (auto simp: declared_attempt_def split: option.splits)
    moreover then have "p \<in> set parsers" "lp_log_format p = g" by (auto simp: find_Some_iff)
    ultimately show ?thesis by blast
  qed
qed

text \<open>
  A record is quarantined only when nothing recognises it: \<^verbatim>\<open>parse_record\<close> gives no result exactly when the record is blank, or the parser of its
  declared format (if there is one) and every parser that recognises its shape all fail on it. What it does give comes from a parser that was
  declared or that recognises the text, is labelled with that parser's format, and carries a confidence between zero and one.
\<close>
theorem parse_record_exact:
  "let content = strip (rl_content r); parsers = DEFAULT_PARSERS lib; attempt = (\<lambda>p. parse p content (rl_received_at r)) in
   (parse_record parsers r = Inr None) = (content = [] \<or> list_all (\<lambda>p.
      if rl_declared_format r = Some (lp_log_format p) \<or> can_parse p content then attempt p = Inr None else True) parsers)
   \<and> (case parse_record parsers r of Inr (Some pd) \<Rightarrow> list_ex (\<lambda>p. attempt p = Inr (Some pd) \<and> pd_log_format pd = lp_log_format p
        \<and> (rl_declared_format r = Some (lp_log_format p) \<or> can_parse p content)) parsers \<and> 0 \<le> pd_confidence pd \<and> pd_confidence pd \<le> 1
      | _ \<Rightarrow> True)"
proof -
  let ?c = "strip (rl_content r)" and ?ps = "DEFAULT_PARSERS lib" and ?ref = "rl_received_at r"
  have uniq: "distinct (map lp_log_format ?ps)"
    by (simp add: DEFAULT_PARSERS_def WindowsEventParser_def JsonLogParser_def SyslogRfc5424Parser_def SyslogRfc3164Parser_def CefParser_def KeyValueParser_def)
  have declared: "declared_attempt ?ps r = Inr None \<longleftrightarrow> (\<forall>p \<in> set ?ps. rl_declared_format r = Some (lp_log_format p) \<longrightarrow> parse p ?c ?ref = Inr None)"
  proof (cases "rl_declared_format r")
    case (Some f)
    show ?thesis
    proof (cases "find (\<lambda>p. lp_log_format p = f) ?ps")
      case None
      then have "\<forall>p \<in> set ?ps. lp_log_format p \<noteq> f" by (simp add: find_None_iff)
      then show ?thesis unfolding declared_attempt_def Some option.case None by auto
    next
      case q: (Some q)
      then have q': "q \<in> set ?ps" "lp_log_format q = f" by (auto simp: find_Some_iff)
      then have only: "p = q" if "p \<in> set ?ps" "lp_log_format p = f" for p using that uniq unfolding distinct_map inj_on_def by blast
      have "(\<forall>p \<in> set ?ps. rl_declared_format r = Some (lp_log_format p) \<longrightarrow> parse p ?c ?ref = Inr None) \<longleftrightarrow> parse q ?c ?ref = Inr None"
      proof
        assume "parse q ?c ?ref = Inr None"
        then show "\<forall>p \<in> set ?ps. rl_declared_format r = Some (lp_log_format p) \<longrightarrow> parse p ?c ?ref = Inr None"
          using only unfolding Some option.inject by metis
      qed (use q' Some in blast)
      then show ?thesis by (simp only: declared_attempt_def Some option.case q)
    qed
  qed (simp add: declared_attempt_def)
  have "parse_record ?ps r = Inr None \<longleftrightarrow> ?c = [] \<or> (\<forall>p \<in> set ?ps. rl_declared_format r = Some (lp_log_format p) \<longrightarrow> parse p ?c ?ref = Inr None)
      \<and> sniff ?c ?ref ?ps = Inr None"
  proof (cases "?c = []")
    case False
    then show ?thesis unfolding parse_record_def Let_def declared[symmetric] by (auto simp: and_then_Inr)
  qed (simp add: parse_record_def)
  then have "(parse_record ?ps r = Inr None) = (?c = [] \<or> list_all (\<lambda>p.
      if rl_declared_format r = Some (lp_log_format p) \<or> can_parse p ?c then parse p ?c ?ref = Inr None else True) ?ps)"
    unfolding sniff_None list_all_iff by auto
  moreover have "case parse_record ?ps r of Inr (Some pd) \<Rightarrow> list_ex (\<lambda>p. parse p ?c ?ref = Inr (Some pd) \<and> pd_log_format pd = lp_log_format p
        \<and> (rl_declared_format r = Some (lp_log_format p) \<or> can_parse p ?c)) ?ps \<and> 0 \<le> pd_confidence pd \<and> pd_confidence pd \<le> 1
      | _ \<Rightarrow> True"
  proof (cases "parse_record ?ps r")
    case (Inr parsed)
    show ?thesis
    proof (cases parsed)
      case (Some pd)
      then obtain p where p: "p \<in> set ?ps" "parse p ?c ?ref = Inr (Some pd)" "rl_declared_format r = Some (lp_log_format p) \<or> can_parse p ?c"
        using parse_record_cases[of ?ps r pd] Inr by blast
      note ok = default_parser_sound[OF p(1,2)]
      show ?thesis unfolding Inr sum.case Some option.case list_ex_iff using p ok by blast
    qed (simp add: Inr)
  qed simp
  ultimately show ?thesis unfolding Let_def by blast
qed

end
