(* ===== verification/Log_Formats.thy ===== *)
theory Log_Formats
  imports Log_Parsers
begin

text \<open>
  Round trips of the wire formats: a syslog line (RFC 5424, RFC 3164) and a list of key-value pairs, written out from their parts, are read back as those
  parts. \<open>eats r w t\<close> says that, on text that continues with \<open>w @ t\<close>, the first attempt of the backtracking matcher for \<open>r\<close> consumes exactly \<open>w\<close>.
\<close>

section \<open>The first attempt of the matcher\<close>

definition eats :: "rx \<Rightarrow> string \<Rightarrow> string \<Rightarrow> bool" where
  "eats r w t \<longleftrightarrow> (\<forall>s i. i \<le> length s \<longrightarrow> drop i s = w @ t \<longrightarrow> (\<exists>js. ends r s i = (i + length w) # js))"

definition refuses :: "rx \<Rightarrow> string \<Rightarrow> bool" where
  "refuses r t \<longleftrightarrow> (\<forall>s i. i \<le> length s \<longrightarrow> drop i s = t \<longrightarrow> ends r s i = [])"

lemma eatsD: "eats r w t \<Longrightarrow> i \<le> length s \<Longrightarrow> drop i s = w @ t \<Longrightarrow> \<exists>js. ends r s i = (i + length w) # js"
  by (simp add: eats_def)

lemma drop_Cons: "drop i s = c # cs \<Longrightarrow> i < length s \<and> s ! i = c \<and> drop (Suc i) s = cs"
proof -
  assume d: "drop i s = c # cs"
  then have "i < length s" by (metis drop_all linorder_not_less list.distinct(1))
  with d show ?thesis by (metis Cons_nth_drop_Suc list.inject)
qed

lemma drop_step: "i \<le> length s \<Longrightarrow> drop i s = u @ t \<Longrightarrow> i + length u \<le> length s \<and> drop (i + length u) s = t"
  by (metis add.commute add_le_cancel_left append_eq_conv_conj drop_drop le_add1 le_add_diff_inverse length_append length_drop)

lemma eats_Eps [intro]: "eats Eps [] t"
  by (simp add: eats_def)

lemma eats_Cls [intro]: "p c \<Longrightarrow> eats (Cls p) [c] t"
  unfolding eats_def using drop_Cons by fastforce

lemma eats_Cat:
  assumes "eats a u (v @ t)" "eats b v t" "w = u @ v"
  shows "eats (Cat a b) w t"
  unfolding eats_def
proof (intro allI impI)
  fix s i assume s: "i \<le> length s" "drop i s = w @ t"
  then obtain js where a: "ends a s i = (i + length u) # js" using assms(1,3) unfolding eats_def by (metis append_assoc)
  have "i + length u \<le> length s" "drop (i + length u) s = v @ t" using drop_step[of i s u "v @ t"] s assms(3) by simp_all
  then obtain ks where "ends b s (i + length u) = (i + length u + length v) # ks" using assms(2) unfolding eats_def by blast
  with a show "\<exists>js. ends (Cat a b) s i = (i + length w) # js" by (simp add: assms(3) add.assoc)
qed

lemma eats_Alt1: "eats a w t \<Longrightarrow> eats (Alt a b) w t"
  unfolding eats_def by fastforce

lemma eats_Alt2: "refuses a (w @ t) \<Longrightarrow> eats b w t \<Longrightarrow> eats (Alt a b) w t"
  unfolding eats_def refuses_def by fastforce

lemma refuses_Cls: "t = [] \<or> \<not> p (hd t) \<Longrightarrow> refuses (Cls p) t"
  unfolding refuses_def by (cases t) (auto dest: drop_Cons)

lemma refuses_Cat: "refuses a t \<Longrightarrow> refuses (Cat a b) t"
  unfolding refuses_def by simp

lemma eats_opt: "eats r w t \<Longrightarrow> eats (opt r) w t" "refuses r t \<Longrightarrow> eats (opt r) [] t"
  unfolding opt_def using eats_Alt1 eats_Alt2 eats_Eps by auto

text \<open>A run of a class ends where the class does.\<close>

abbreviation stops :: "(char \<Rightarrow> bool) \<Rightarrow> string \<Rightarrow> bool" where
  "stops p t \<equiv> t = [] \<or> \<not> p (hd t)"

lemma star_run:
  "i \<le> length s \<Longrightarrow> drop i s = w @ t \<Longrightarrow> list_all p w \<Longrightarrow> stops p t \<Longrightarrow> length w \<le> n \<Longrightarrow> \<exists>js. star_ends n (ends (Cls p) s) i = (i + length w) # js"
proof (induction w arbitrary: i n)
  case Nil
  then have "ends (Cls p) s i = []" using refuses_Cls[of t p] unfolding refuses_def by simp
  then show ?case by (cases n) simp_all
next
  case (Cons c w)
  then obtain n' where n: "n = Suc n'" by (cases n) auto
  have d: "i < length s" "s ! i = c" "drop (Suc i) s = w @ t" using drop_Cons Cons.prems(2) by fastforce+
  have "list_all p w" "length w \<le> n'" "p c" using Cons.prems n by simp_all
  then obtain js where "star_ends n' (ends (Cls p) s) (Suc i) = (Suc i + length w) # js"
    using Cons.IH[of "Suc i" n'] d Cons.prems(4) by (metis Suc_leI)
  moreover have "ends (Cls p) s i = [Suc i]" using d \<open>p c\<close> by simp
  ultimately show ?case unfolding n by (simp del: ends.simps)
qed

lemma eats_Star: "list_all p w \<Longrightarrow> stops p t \<Longrightarrow> eats (Star (Cls p)) w t"
  unfolding eats_def
proof (intro allI impI)
  fix s i assume a: "list_all p w" "stops p t" and s: "i \<le> length s" "drop i s = w @ t"
  have "length w \<le> length s - i" using s by (metis le_add1 length_append length_drop)
  then show "\<exists>js. ends (Star (Cls p)) s i = (i + length w) # js" using star_run[OF s a] by simp
qed

lemma eats_plus: "w \<noteq> [] \<Longrightarrow> list_all p w \<Longrightarrow> stops p t \<Longrightarrow> eats (plus (Cls p)) w t"
  unfolding plus_def by (cases w) (auto intro!: eats_Cat[where u = "[hd w]" and v = "tl w"] eats_Star)

lemma eats_upto: "list_all p w \<Longrightarrow> length w \<le> n \<Longrightarrow> length w = n \<or> stops p t \<Longrightarrow> eats (upto_times n (Cls p)) w t"
proof (induction n arbitrary: w)
  case (Suc n)
  show ?case
  proof (cases w)
    case Nil
    then have "stops p t" using Suc.prems by simp
    then show ?thesis unfolding Nil upto_times.simps by (intro eats_opt(2) refuses_Cat refuses_Cls)
  next
    case (Cons c v)
    then show ?thesis using Suc unfolding upto_times.simps by (intro eats_opt(1) eats_Cat[where u = "[c]" and v = v]) auto
  qed
qed (simp add: eats_Eps)

lemma eats_seq_Nil: "eats (seq []) [] t"
  by (simp add: seq_def eats_Eps)

lemma eats_seq_Cons: "eats r u (v @ t) \<Longrightarrow> eats (seq rs) v t \<Longrightarrow> w = u @ v \<Longrightarrow> eats (seq (r # rs)) w t"
  by (simp add: seq_def eats_Cat)

lemma eats_repeat:
  assumes "list_all p w" "m \<le> length w" "length w \<le> n" "length w = n \<or> stops p t"
  shows "eats (repeat m n (Cls p)) w t"
proof -
  have "eats (seq (replicate m (Cls p) @ [r])) w t" if "list_all p w" "m \<le> length w" "eats r (drop m w) t" for m w r
    using that
  proof (induction m arbitrary: w)
    case 0
    then show ?case by (auto intro: eats_seq_Cons[where v = "[]"] eats_seq_Nil)
  next
    case (Suc m)
    then obtain c v where "w = c # v" by (cases w) auto
    then show ?case using Suc by (auto intro!: eats_seq_Cons[where u = "[c]" and v = v])
  qed
  moreover have "eats (upto_times (n - m) (Cls p)) (drop m w) t" using assms by (intro eats_upto) (auto simp: list_all_iff dest: in_set_dropD)
  ultimately show ?thesis unfolding repeat_def using assms by blast
qed

lemma eats_lit1: "eats (lit [c]) [c] t"
  by (auto simp: lit_def ci_def intro!: eats_Cat[where u = "[c]" and v = "[]"])

lemma refuses_lit1: "t = [] \<or> lower_char (hd t) \<noteq> lower_char c \<Longrightarrow> refuses (lit [c]) t"
  by (auto simp: lit_def ci_def intro!: refuses_Cat refuses_Cls)


section \<open>Matching a sequence piece by piece\<close>

fun eats_all :: "rx list \<Rightarrow> string list \<Rightarrow> string \<Rightarrow> bool" where
  "eats_all [] [] t = True"
| "eats_all (r # rs) (w # ws) t = (eats r w (concat ws @ t) \<and> eats_all rs ws t)"
| "eats_all _ _ t = False"

fun positions :: "nat \<Rightarrow> string list \<Rightarrow> nat list" where
  "positions i [] = [i]"
| "positions i (w # ws) = i # positions (i + length w) ws"

lemma first_match_eats: "eats_all rs ws t \<Longrightarrow> i \<le> length s \<Longrightarrow> drop i s = concat ws @ t \<Longrightarrow> first_match rs s i = Some (positions i ws)"
proof (induction rs ws t arbitrary: i rule: eats_all.induct)
  case (2 r rs w ws t)
  then have d: "drop i s = w @ concat ws @ t" by simp
  obtain js where "ends r s i = (i + length w) # js" using eatsD[of r w "concat ws @ t", OF _ 2(3) d] 2(2) by auto
  moreover have "first_match rs s (i + length w) = Some (positions (i + length w) ws)"
    using 2(1)[of "i + length w"] 2(2) drop_step[OF 2(3) d] by simp
  ultimately show ?case by simp
qed simp_all

lemma piece_positions: "i \<le> length s \<Longrightarrow> drop i s = concat ws @ t \<Longrightarrow> k < length ws \<Longrightarrow> piece s (positions i ws) k = ws ! k"
proof (induction ws arbitrary: i k)
  case (Cons w ws)
  then have d: "drop i s = w @ concat ws @ t" by simp
  show ?case
  proof (cases k)
    case 0
    have "positions (i + length w) ws ! 0 = i + length w" by (cases ws) simp_all
    with 0 d show ?thesis by (simp add: piece_def slice_def)
  next
    case (Suc l)
    then show ?thesis using Cons.IH[of "i + length w" l] drop_step[OF Cons.prems(1) d] Cons.prems by (simp add: piece_def)
  qed
qed simp


section \<open>RFC 5424\<close>

definition plain_token :: "string \<Rightarrow> bool" where
  "plain_token w = (w \<noteq> [] \<and> list_all (\<lambda>c. \<not> is_space c) w)"

text \<open>A message on one line, without white space around it.\<close>

definition one_line :: "string \<Rightarrow> bool" where
  "one_line m = (m \<noteq> [] \<and> CHR 0x0A \<notin> set m \<and> \<not> is_space (hd m) \<and> \<not> is_space (last m))"

lemma eats_token: "plain_token w \<Longrightarrow> stops (\<lambda>c. \<not> is_space c) t \<Longrightarrow> eats token w t"
  unfolding plain_token_def by (intro eats_plus) auto

lemma eats_space: "stops is_space t \<Longrightarrow> eats spaces1 '' '' t"
  by (intro eats_plus) (simp_all add: is_space_def)

lemma eats_line: "CHR 0x0A \<notin> set w \<Longrightarrow> eats rest_of_line w []"
  by (intro eats_Star) (auto simp: list_all_iff)

lemma eats_eos: "eats eos [] []"
  unfolding eats_def eos_def by auto

lemma token_hd: "plain_token w \<Longrightarrow> w @ t \<noteq> [] \<and> \<not> is_space (hd (w @ t))"
  by (cases w) (auto simp: plain_token_def)

lemma eats_space_token: "plain_token w \<Longrightarrow> eats spaces1 '' '' (w @ x)"
  using token_hd by (intro eats_space) blast

lemma eats_token_space: "plain_token w \<Longrightarrow> eats token w ('' '' @ x)"
  by (intro eats_token) (simp_all add: is_space_def)

lemma strip_solid: "s \<noteq> [] \<Longrightarrow> \<not> is_space (hd s) \<Longrightarrow> \<not> is_space (last s) \<Longrightarrow> strip s = s"
  by (simp add: strip_by_def dropWhile_id hd_rev)

lemma space_char [simp]: "is_space (CHR '' '')"
  by (simp add: is_space_def)

definition render_rfc5424 :: "string \<Rightarrow> char \<Rightarrow> string \<Rightarrow> string \<Rightarrow> string \<Rightarrow> string \<Rightarrow> string \<Rightarrow> string \<Rightarrow> string" where
  "render_rfc5424 pri version ts hst app procid msgid msg =
     ''<'' @ pri @ ''>'' @ [version] @ '' '' @ ts @ '' '' @ hst @ '' '' @ app @ '' '' @ procid @ '' '' @ msgid @ '' '' @ ''- '' @ msg"

lemma rfc5424_matches:
  assumes "list_all is_digit pri" "1 \<le> length pri" "length pri \<le> 3" "is_digit version" "list_all plain_token [ts, hst, app, procid, msgid]" "one_line msg"
  shows "eats_all RFC5424 [''<'', pri, ''>'', [version], '' '', ts, '' '', hst, '' '', app, '' '', procid, '' '', msgid, '' '', ''- '' @ msg, []] []"
proof -
  have t: "plain_token ts" "plain_token hst" "plain_token app" "plain_token procid" "plain_token msgid" using assms(5) by simp_all
  have m: "CHR 0x0A \<notin> set (''- '' @ msg)" using assms(6) by (simp add: one_line_def)
  have pri: "eats (repeat 1 3 digit) pri (''>'' @ x)" for x using assms(1-3) by (intro eats_repeat) (simp_all add: is_digit_def)
  have version: "eats digit [version] x" for x using assms(4) by (rule eats_Cls)
  have dash: "eats spaces1 '' '' (''- '' @ msg)" by (intro eats_space) (simp add: is_space_def)
  show ?thesis unfolding RFC5424_def
    by (simp only: eats_all.simps concat.simps append_assoc simp_thms eats_lit1 pri version eats_space_token[OF t(1)] eats_space_token[OF t(2)]
      eats_space_token[OF t(3)] eats_space_token[OF t(4)] eats_space_token[OF t(5)] eats_token_space[OF t(1)] eats_token_space[OF t(2)]
      eats_token_space[OF t(3)] eats_token_space[OF t(4)] eats_token_space[OF t(5)] dash eats_line[OF m] append_Nil2 eats_eos)
qed

text \<open>C30: 
  A syslog line of RFC 5424 reads back as its parts: with one to three digits of priority, a version digit, five tokens without white space, no structured data
  and a message on one line, the line is recognised, and parsing it gives the host and the application (absent when they are a dash), the message itself
  and the other parts as fields, dated by the stamp exactly when that can be read.
\<close>
theorem rfc5424_round_trip:
  assumes "list_all is_digit pri" "1 \<le> length pri" "length pri \<le> 3" "is_digit version" "list_all plain_token [ts, hst, app, procid, msgid]" "one_line msg"
  shows "let line = render_rfc5424 pri version ts hst app procid msgid msg in
    can_parse (SyslogRfc5424Parser lib) line \<and>
    parse (SyslogRfc5424Parser lib) line reference_time = and_then (parse_timestamp lib (PStr ts) None) (\<lambda>event_time.
      Inr (Some \<lparr>pd_log_format = Syslog_Rfc5424, pd_event_time = event_time, pd_message = msg, pd_host = none_if_nil hst,
        pd_actor = actor_from_message msg, pd_action = none_if_nil app, pd_outcome = outcome_from msg PNone, pd_event_type = classify_event_type msg [],
        pd_fields = [(''priority'', PInt (int_of_digits pri)), (''version'', PStr [version]), (''app_name'', opt_str (none_if_nil app)),
          (''proc_id'', opt_str (none_if_nil procid)), (''msg_id'', opt_str (none_if_nil msgid))],
        pd_confidence = (if event_time \<noteq> None then 1 else 1/2)\<rparr>))"
proof -
  let ?line = "render_rfc5424 pri version ts hst app procid msgid msg"
  let ?ws = "[''<'', pri, ''>'', [version], '' '', ts, '' '', hst, '' '', app, '' '', procid, '' '', msgid, '' '', ''- '' @ msg, []]"
  have line: "drop 0 ?line = concat ?ws @ []" by (simp add: render_rfc5424_def)
  have strip: "strip ?line = ?line"
    using assms(6) by (intro strip_solid) (auto simp: render_rfc5424_def one_line_def is_space_def[of "CHR ''<''"])
  have match: "first_match RFC5424 ?line 0 = Some (positions 0 ?ws)" using first_match_eats[OF rfc5424_matches[OF assms] _ line] by simp
  have parts: "k < 17 \<Longrightarrow> piece ?line (positions 0 ?ws) k = ?ws ! k" for k using piece_positions[OF _ line, of k] by simp
  have msg: "strip (''- '' @ msg) = ''- '' @ msg" "strip ('' '' @ msg) = msg"
  proof -
    show "strip (''- '' @ msg) = ''- '' @ msg" using assms(6) by (intro strip_solid) (auto simp: one_line_def is_space_def[of "CHR ''-''"])
    have "dropWhile is_space ('' '' @ msg) = msg" using assms(6) by (simp add: one_line_def dropWhile_id)
    then show "strip ('' '' @ msg) = msg" using assms(6) by (simp add: strip_by_def one_line_def dropWhile_id hd_rev)
  qed
  have sd: "split_structured_data (strip (''- '' @ msg)) = (None, msg)" unfolding msg(1) using msg(2) by (simp add: split_structured_data_def)
  have p: "piece ?line (positions 0 ?ws) 1 = pri" "piece ?line (positions 0 ?ws) 3 = [version]" "piece ?line (positions 0 ?ws) 5 = ts"
    "piece ?line (positions 0 ?ws) 7 = hst" "piece ?line (positions 0 ?ws) 9 = app" "piece ?line (positions 0 ?ws) 11 = procid"
    "piece ?line (positions 0 ?ws) 13 = msgid" "piece ?line (positions 0 ?ws) 15 = ''- '' @ msg"
    by (simp_all only: parts) simp_all
  show ?thesis unfolding Let_def SyslogRfc5424Parser_def log_parser.simps strip match option.case rfc5424_record_def p sd prod.case
    by simp
qed


section \<open>RFC 3164\<close>

lemma eats_all_seq: "eats_all rs ws t \<Longrightarrow> eats (seq rs) (concat ws) t"
  by (induction rs ws t rule: eats_all.induct) (auto intro: eats_seq_Nil eats_seq_Cons)

definition two_digits :: "string \<Rightarrow> bool" where
  "two_digits d = (length d = 2 \<and> list_all is_digit d)"

definition syslog_stamp :: "string \<Rightarrow> string \<Rightarrow> string \<Rightarrow> string \<Rightarrow> string \<Rightarrow> string" where
  "syslog_stamp mon dd hh mm ss = mon @ '' '' @ dd @ '' '' @ hh @ '':'' @ mm @ '':'' @ ss"

definition syslog_clock :: "string \<Rightarrow> string \<Rightarrow> string \<Rightarrow> string \<Rightarrow> bool" where
  "syslog_clock dd hh mm ss = (list_all is_digit dd \<and> 1 \<le> length dd \<and> length dd \<le> 2 \<and> list_all two_digits [hh, mm, ss])"

lemma month_letters:
  assumes "(mon, n) \<in> set SYSLOG_MONTHS"
  obtains a b where "mon = a # b" "is_upper_az a" "length b = 2" "list_all is_lower_az b"
proof -
  have "list_all (\<lambda>(m, _). is_upper_az (hd m) \<and> length m = 3 \<and> list_all is_lower_az (tl m)) SYSLOG_MONTHS" by code_simp
  then have "is_upper_az (hd mon)" "length mon = 3" "list_all is_lower_az (tl mon)" using assms by (auto simp: list_all_iff)
  then show thesis using that[of "hd mon" "tl mon"] by (cases mon) auto
qed

lemma eats_digits2: "two_digits d \<Longrightarrow> eats (repeat 2 2 digit) d t"
  by (intro eats_repeat) (simp_all add: two_digits_def)

lemma eats_space_digits: "list_all is_digit d \<Longrightarrow> d \<noteq> [] \<Longrightarrow> eats spaces1 '' '' (d @ x)"
  by (intro eats_space, cases d) (auto simp: is_digit_def is_space_def Let_def)

lemma eats_digits_space: "list_all is_digit d \<Longrightarrow> 1 \<le> length d \<Longrightarrow> length d \<le> 2 \<Longrightarrow> eats (repeat 1 2 digit) d ('' '' @ x)"
  by (intro eats_repeat) (simp_all add: is_digit_def)

lemma clock_matches:
  assumes "syslog_clock dd hh mm ss"
  shows "eats_all [spaces1, repeat 1 2 digit, spaces1, repeat 2 2 digit, lit '':'', repeat 2 2 digit, lit '':'', repeat 2 2 digit]
    ['' '', dd, '' '', hh, '':'', mm, '':'', ss] t"
proof -
  have d: "list_all is_digit dd" "1 \<le> length dd" "length dd \<le> 2" "dd \<noteq> []" "two_digits hh" "two_digits mm" "two_digits ss"
    using assms by (auto simp: syslog_clock_def)
  have h: "list_all is_digit hh" "hh \<noteq> []" using d(5) by (auto simp: two_digits_def)
  show ?thesis by (simp only: eats_all.simps concat.simps append_assoc simp_thms eats_lit1 eats_space_digits[OF d(1,4)] eats_digits_space[OF d(1-3)]
    eats_space_digits[OF h] eats_digits2[OF d(5)] eats_digits2[OF d(6)] eats_digits2[OF d(7)])
qed

lemma eats_month:
  assumes "(mon, n) \<in> set SYSLOG_MONTHS"
  shows "eats_all [Cls is_upper_az, repeat 2 2 (Cls is_lower_az)] [[hd mon], tl mon] t" "mon \<noteq> []" "is_upper_az (hd mon)"
proof -
  obtain a b where m: "mon = a # b" "is_upper_az a" "length b = 2" "list_all is_lower_az b" by (rule month_letters[OF assms])
  then show "eats_all [Cls is_upper_az, repeat 2 2 (Cls is_lower_az)] [[hd mon], tl mon] t" "mon \<noteq> []" "is_upper_az (hd mon)"
    by (auto intro!: eats_repeat)
qed

lemma eats_all_append: "eats_all rs ws (concat vs @ t) \<Longrightarrow> eats_all qs vs t \<Longrightarrow> eats_all (rs @ qs) (ws @ vs) t"
  by (induction rs ws "concat vs @ t" rule: eats_all.induct) simp_all

lemma stamp_eaten:
  assumes "(mon, n) \<in> set SYSLOG_MONTHS" "syslog_clock dd hh mm ss"
  shows "eats (seq [Cls is_upper_az, repeat 2 2 (Cls is_lower_az), spaces1, repeat 1 2 digit, spaces1, repeat 2 2 digit, lit '':'', repeat 2 2 digit, lit '':'',
      repeat 2 2 digit]) (syslog_stamp mon dd hh mm ss) t"
proof -
  from eats_all_seq[OF eats_all_append[OF eats_month(1)[OF assms(1)] clock_matches[OF assms(2)], of t]] eats_month(2)[OF assms(1)]
  show ?thesis by (cases mon) (simp_all add: syslog_stamp_def)
qed

lemma stamp_pieces:
  assumes "(mon, n) \<in> set SYSLOG_MONTHS" "syslog_clock dd hh mm ss"
  shows "eats_all SYSLOG_STAMP [mon, '' '', dd, '' '', hh, '':'', mm, '':'', ss, []] []"
proof -
  have "eats (seq [Cls is_upper_az, repeat 2 2 (Cls is_lower_az)]) mon x" for x
    using eats_all_seq[OF eats_month(1)[OF assms(1)], of x] eats_month(2)[OF assms(1)] by simp
  then show ?thesis unfolding SYSLOG_STAMP_def using eats_all_append[OF clock_matches[OF assms(2)], where vs = "[[]]" and t = "[]" and qs = "[eos]"] eats_eos by simp
qed

lemma replace_Z: "CHR ''Z'' \<notin> set w \<Longrightarrow> concat (map (\<lambda>c. if c = CHR ''Z'' then ''+00:00'' else [c]) w) = w"
  by (induction w) auto

lemma stamp_plain:
  assumes "(mon, n) \<in> set SYSLOG_MONTHS" "syslog_clock dd hh mm ss"
  shows "strip (syslog_stamp mon dd hh mm ss) = syslog_stamp mon dd hh mm ss" "syslog_stamp mon dd hh mm ss \<noteq> []" "CHR ''Z'' \<notin> set (syslog_stamp mon dd hh mm ss)"
proof -
  have "list_all (\<lambda>(m, _). CHR ''Z'' \<notin> set m) SYSLOG_MONTHS" by code_simp
  then have z: "CHR ''Z'' \<notin> set mon" using assms(1) by (auto simp: list_all_iff)
  have m: "mon \<noteq> []" "\<not> is_space (hd mon)" using eats_month(2,3)[OF assms(1)] by (auto simp: is_upper_az_def is_space_def Let_def)
  have s: "ss \<noteq> []" "\<forall>c \<in> set ss. is_digit c" using assms(2) by (auto simp: syslog_clock_def two_digits_def list_all_iff)
  then have "is_digit (last ss)" by simp
  then have "\<not> is_space (last ss)" by (auto simp: is_digit_def is_space_def Let_def)
  then show "strip (syslog_stamp mon dd hh mm ss) = syslog_stamp mon dd hh mm ss" using m s(1) by (intro strip_solid) (simp_all add: syslog_stamp_def)
  show "syslog_stamp mon dd hh mm ss \<noteq> []" using m by (simp add: syslog_stamp_def)
  have "\<not> is_digit (CHR ''Z'')" by (simp add: is_digit_def)
  then show "CHR ''Z'' \<notin> set (syslog_stamp mon dd hh mm ss)" using z assms(2)
    by (auto simp: syslog_stamp_def syslog_clock_def two_digits_def list_all_iff)
qed

lemma months_distinct: "distinct (map fst SYSLOG_MONTHS)"
  by code_simp

text \<open>A syslog stamp denotes the time that the calendar gives its parts in the year of reference, and raises when there is no such time.\<close>

lemma parse_syslog_stamp_eq:
  assumes "(mon, n) \<in> set SYSLOG_MONTHS" "syslog_clock dd hh mm ss"
  shows "parse_syslog_stamp lib (syslog_stamp mon dd hh mm ss) year = and_then
    (utc_datetime (case year of Some y \<Rightarrow> y | None \<Rightarrow> this_year lib) n (int_of_digits dd) (int_of_digits hh) (int_of_digits mm) (int_of_digits ss)) (\<lambda>t. Inr (Some t))"
proof -
  let ?t = "syslog_stamp mon dd hh mm ss" and ?ws = "[mon, '' '', dd, '' '', hh, '':'', mm, '':'', ss, []]"
  have t: "drop 0 ?t = concat ?ws @ []" by (simp add: syslog_stamp_def)
  have match: "first_match SYSLOG_STAMP ?t 0 = Some (positions 0 ?ws)" using first_match_eats[OF stamp_pieces[OF assms] _ t] by simp
  have parts: "k < 10 \<Longrightarrow> piece ?t (positions 0 ?ws) k = ?ws ! k" for k using piece_positions[OF _ t, of k] by simp
  have p: "piece ?t (positions 0 ?ws) 0 = mon" "piece ?t (positions 0 ?ws) 2 = dd" "piece ?t (positions 0 ?ws) 4 = hh"
    "piece ?t (positions 0 ?ws) 6 = mm" "piece ?t (positions 0 ?ws) 8 = ss" by (simp_all only: parts) simp_all
  have "map_of SYSLOG_MONTHS mon = Some n" using map_of_is_SomeI[OF months_distinct assms(1)] .
  then show ?thesis unfolding parse_syslog_stamp_def match option.case p Let_def by simp
qed

definition plain_tag :: "string \<Rightarrow> bool" where
  "plain_tag w = (w \<noteq> [] \<and> list_all (\<lambda>c. c \<noteq> CHR '':'' \<and> c \<noteq> CHR ''['' \<and> \<not> is_space c) w)"

definition render_rfc3164 :: "string \<Rightarrow> string \<Rightarrow> string \<Rightarrow> string \<Rightarrow> string" where
  "render_rfc3164 stamp hst tag msg = stamp @ '' '' @ hst @ '' '' @ tag @ '': '' @ msg"

lemma upper_not_bracket: "is_upper_az c \<Longrightarrow> lower_char c \<noteq> CHR ''<''"
proof
  assume c: "is_upper_az c" "lower_char c = CHR ''<''"
  have "of_char (lower_char c) = cp c + 32" using c(1) by (simp add: is_upper_az_def lower_char_def Let_def)
  with c show False by (simp add: is_upper_az_def)
qed

lemma rfc3164_matches:
  assumes "(mon, n) \<in> set SYSLOG_MONTHS" "syslog_clock dd hh mm ss" "plain_token hst" "plain_tag tag" "one_line msg"
  shows "eats_all RFC3164 [[], syslog_stamp mon dd hh mm ss, '' '', hst, '' '', tag, [], '':'', '' '', msg, []] []"
proof -
  let ?stamp = "syslog_stamp mon dd hh mm ss"
  have m: "CHR 0x0A \<notin> set msg" "stops is_space msg" using assms(5) by (auto simp: one_line_def)
  have st: "?stamp \<noteq> []" "is_upper_az (hd ?stamp)" using eats_month(2,3)[OF assms(1)] by (simp_all add: syslog_stamp_def)
  have lower_bracket: "lower_char (CHR ''<'') = CHR ''<''" by (simp add: lower_char_def)
  have pri: "eats (opt (seq [lit ''<'', repeat 1 3 digit, lit ''>''])) [] (?stamp @ x)" for x
    using st upper_not_bracket[OF st(2)] lower_bracket unfolding seq_def by (intro eats_opt(2)) (auto intro!: refuses_Cat refuses_lit1)
  have pid: "eats (opt (seq [lit ''['', plus digit, lit '']''])) [] ('':'' @ x)" for x
    by (intro eats_opt(2)) (auto simp: seq_def lower_char_def intro!: refuses_Cat refuses_lit1)
  have tag: "eats (plus (Cls (\<lambda>c. c \<noteq> CHR '':'' \<and> c \<noteq> CHR ''['' \<and> \<not> is_space c))) tag ('':'' @ x)" for x
    using assms(4) by (intro eats_plus) (simp_all add: plain_tag_def)
  have sp: "eats spaces1 '' '' (tag @ x)" for x using assms(4) by (intro eats_space, cases tag) (auto simp: plain_tag_def)
  have gap: "eats spaces '' '' msg" using m(2) by (intro eats_Star) simp_all
  show ?thesis unfolding RFC3164_def
    by (simp only: eats_all.simps concat.simps append_assoc append_Nil append_Nil2 simp_thms eats_lit1 pri pid tag sp gap stamp_eaten[OF assms(1,2)]
      eats_space_token[OF assms(3)] eats_token_space[OF assms(3)] eats_line[OF m(1)] eats_eos)
qed

lemma rfc3164_line:
  assumes "(mon, n) \<in> set SYSLOG_MONTHS" "syslog_clock dd hh mm ss" "plain_token hst" "plain_tag tag" "one_line msg"
  defines "line \<equiv> render_rfc3164 (syslog_stamp mon dd hh mm ss) hst tag msg"
  shows "strip line = line" "line \<noteq> []" "is_upper_az (hd line)"
    "\<exists>ps. first_match RFC3164 line 0 = Some ps \<and> piece line ps 0 = [] \<and> piece line ps 1 = syslog_stamp mon dd hh mm ss \<and> piece line ps 3 = hst
      \<and> piece line ps 5 = tag \<and> piece line ps 6 = [] \<and> piece line ps 9 = msg"
proof -
  let ?ws = "[[], syslog_stamp mon dd hh mm ss, '' '', hst, '' '', tag, [], '':'', '' '', msg, []]"
  show ne: "line \<noteq> []" and up: "is_upper_az (hd line)" using eats_month(2,3)[OF assms(1)] by (simp_all add: line_def render_rfc3164_def syslog_stamp_def)
  then have "\<not> is_space (hd line)" by (auto simp: is_upper_az_def is_space_def Let_def)
  then show "strip line = line" using assms(5) ne by (intro strip_solid) (auto simp: line_def render_rfc3164_def one_line_def)
  have l: "drop 0 line = concat ?ws @ []" by (simp add: line_def render_rfc3164_def)
  have parts: "k < 11 \<Longrightarrow> piece line (positions 0 ?ws) k = ?ws ! k" for k using piece_positions[OF _ l, of k] by simp
  have "first_match RFC3164 line 0 = Some (positions 0 ?ws)" using first_match_eats[OF rfc3164_matches[OF assms(1-5)] _ l] by simp
  then show "\<exists>ps. first_match RFC3164 line 0 = Some ps \<and> piece line ps 0 = [] \<and> piece line ps 1 = syslog_stamp mon dd hh mm ss \<and> piece line ps 3 = hst
      \<and> piece line ps 5 = tag \<and> piece line ps 6 = [] \<and> piece line ps 9 = msg"
    by (intro exI[of _ "positions 0 ?ws"]) (simp only: parts, simp)
qed

text \<open>
  A classic syslog line reads back as its parts: from a month, a day, a time of day, a host, a tag and a message on one line, the record gets that host, the tag
  as its action and the message, and is dated by the stamp in the year in which it was received.
\<close>
theorem rfc3164_round_trip:
  assumes "(mon, n) \<in> set SYSLOG_MONTHS" "syslog_clock dd hh mm ss" "plain_token hst" "plain_tag tag" "one_line msg"
  shows "let stamp = syslog_stamp mon dd hh mm ss; line = render_rfc3164 stamp hst tag msg in
    can_parse (SyslogRfc3164Parser lib) line \<and>
    parse (SyslogRfc3164Parser lib) line reference_time = and_then (parse_timestamp lib (PStr stamp) (map_option (year_of lib) reference_time)) (\<lambda>event_time.
      Inr (Some \<lparr>pd_log_format = Syslog_Rfc3164, pd_event_time = event_time, pd_message = msg, pd_host = Some hst, pd_actor = actor_from_message msg,
        pd_action = Some tag, pd_outcome = outcome_from msg PNone, pd_event_type = classify_event_type msg [], pd_fields = [(''tag'', PStr tag)],
        pd_confidence = (if event_time \<noteq> None then rnd (9/10) else 1/2)\<rparr>))"
proof -
  let ?line = "render_rfc3164 (syslog_stamp mon dd hh mm ss) hst tag msg"
  note l = rfc3164_line[OF assms]
  obtain ps where p: "first_match RFC3164 ?line 0 = Some ps" "piece ?line ps 0 = []" "piece ?line ps 1 = syslog_stamp mon dd hh mm ss" "piece ?line ps 3 = hst"
      "piece ?line ps 5 = tag" "piece ?line ps 6 = []" "piece ?line ps 9 = msg" using l(4) by blast
  show ?thesis unfolding Let_def SyslogRfc3164Parser_def log_parser.simps l(1) p(1) option.case rfc3164_record_def p(2-7) unbracket_def by simp
qed


section \<open>Impossible dates\<close>

lemma refuses_first: "refuses r t \<Longrightarrow> first_match (r # rs) t 0 = None"
  by (simp add: refuses_def)

text \<open>On a classic syslog line the structured parsers and the RFC 5424 parser pass, so that a date the calendar refuses is raised.\<close>

lemma impossible_date_raises:
  assumes "(mon, n) \<in> set SYSLOG_MONTHS" "syslog_clock dd hh mm ss" "plain_token hst" "plain_tag tag" "one_line msg"
    and "rl_content r = render_rfc3164 (syslog_stamp mon dd hh mm ss) hst tag msg" "rl_declared_format r = None"
    and "fromisoformat lib (syslog_stamp mon dd hh mm ss) = None"
    and "utc_datetime (case rl_received_at r of Some t \<Rightarrow> year_of lib t | None \<Rightarrow> this_year lib) n (int_of_digits dd) (int_of_digits hh) (int_of_digits mm)
      (int_of_digits ss) = Inl Value_Error"
  shows "parse_record (DEFAULT_PARSERS lib) r = Inl Value_Error"
proof -
  let ?stamp = "syslog_stamp mon dd hh mm ss" and ?line = "render_rfc3164 (syslog_stamp mon dd hh mm ss) hst tag msg"
  note l = rfc3164_line[OF assms(1-5)]
  obtain ps where p: "first_match RFC3164 ?line 0 = Some ps" "piece ?line ps 1 = ?stamp" using l(4) by blast
  have up: "is_upper_az (hd ?line)" by (rule l(3))
  have not_braced: "\<not> braced ?line" unfolding braced_def l(1) using up l(2) by (cases ?line) (auto simp: is_upper_az_def)
  have "refuses (lit ''<'') ?line" using upper_not_bracket[OF up] by (intro refuses_lit1) (simp add: lower_char_def)
  then have no5424: "first_match RFC5424 ?line 0 = None" unfolding RFC5424_def by (rule refuses_first)
  have stamp: "strip ?stamp = ?stamp" "?stamp \<noteq> []" "CHR ''Z'' \<notin> set ?stamp" using stamp_plain[OF assms(1,2)] by auto
  have "parse_timestamp lib (PStr ?stamp) (map_option (year_of lib) (rl_received_at r)) = Inl Value_Error"
    using assms(8,9) parse_syslog_stamp_eq[OF assms(1,2), of lib "map_option (year_of lib) (rl_received_at r)"] stamp(1,2) replace_Z[OF stamp(3)]
    by (auto simp: Let_def split: option.splits)
  then have "parse (SyslogRfc3164Parser lib) ?line (rl_received_at r) = Inl Value_Error"
    unfolding SyslogRfc3164Parser_def log_parser.simps l(1) p(1) option.case rfc3164_record_def Let_def p(2) by (simp only: and_then.simps)
  moreover have "can_parse (SyslogRfc3164Parser lib) ?line" by (simp add: SyslogRfc3164Parser_def l(1) p(1))
  ultimately show ?thesis
    by (simp add: parse_record_def declared_attempt_def assms(6,7) l(1,2) DEFAULT_PARSERS_def WindowsEventParser_def JsonLogParser_def SyslogRfc5424Parser_def not_braced no5424)
qed


section \<open>Key-value pairs\<close>

definition key_ok :: "string \<times> string \<Rightarrow> bool" where
  "key_ok = (\<lambda>(k, v). k \<noteq> [] \<and> list_all name_char k \<and> double_quote \<notin> set v \<and> single_quote \<notin> set v)"

definition render_pair :: "string \<times> string \<Rightarrow> string" where
  "render_pair = (\<lambda>(k, v). k @ ''='' @ [double_quote] @ v @ [double_quote])"

text \<open>The entry that one match of the pattern adds.\<close>

definition entry_at :: "string \<Rightarrow> nat list \<Rightarrow> string \<times> pyval" where
  "entry_at s ps = (lower (piece s ps 0), PStr (strip_by (\<lambda>c. c = double_quote \<or> c = single_quote) (piece s ps 2)))"

lemma pair_matches:
  assumes "key_ok (k, v)"
  shows "eats_all KEY_VALUE [k, ''='', [double_quote] @ v @ [double_quote]] t"
proof -
  have key: "eats (plus (Cls name_char)) k (''='' @ x)" for x
    using assms by (intro eats_plus) (simp_all add: key_ok_def name_char_def is_word_def)
  have "eats_all [lit [double_quote], Star (Cls (\<lambda>c. c \<noteq> double_quote)), lit [double_quote]] [[double_quote], v, [double_quote]] t"
    using assms by (auto simp: key_ok_def list_all_iff intro!: eats_lit1 eats_Star)
  from eats_all_seq[OF this] have "eats (seq [lit [double_quote], Star (Cls (\<lambda>c. c \<noteq> double_quote)), lit [double_quote]]) ([double_quote] @ v @ [double_quote]) t" by simp
  then show ?thesis unfolding KEY_VALUE_def choice_def
    by (simp only: eats_all.simps concat.simps append_assoc append_Nil simp_thms eats_lit1 key butlast.simps last.simps foldr.simps comp_apply if_False list.distinct eats_Alt1)
qed

lemma quotes_stripped:
  assumes "double_quote \<notin> set v" "single_quote \<notin> set v"
  shows "strip_by (\<lambda>c. c = double_quote \<or> c = single_quote) ([double_quote] @ v @ [double_quote]) = v"
proof -
  have "stops (\<lambda>c. c = double_quote \<or> c = single_quote) (rev v)" using assms by (metis hd_in_set set_rev)
  then have r: "dropWhile (\<lambda>c. c = double_quote \<or> c = single_quote) (double_quote # rev v) = rev v" by (simp add: dropWhile_id)
  show ?thesis
  proof (cases v)
    case (Cons c w)
    then have "dropWhile (\<lambda>c. c = double_quote \<or> c = single_quote) ([double_quote] @ v @ [double_quote]) = v @ [double_quote]" using assms by auto
    then show ?thesis using r by (simp add: strip_by_def)
  qed (simp add: strip_by_def)
qed

lemma pair_found:
  assumes "key_ok (k, v)" "i \<le> length s" "drop i s = render_pair (k, v) @ t"
  shows "\<exists>ps. first_match KEY_VALUE s i = Some ps \<and> entry_at s ps = (lower k, PStr v) \<and> ps ! length KEY_VALUE = i + length (render_pair (k, v))"
proof -
  let ?ws = "[k, ''='', [double_quote] @ v @ [double_quote]]"
  have d: "drop i s = concat ?ws @ t" using assms(3) by (simp add: render_pair_def)
  have "entry_at s (positions i ?ws) = (lower k, PStr v)"
    using piece_positions[OF assms(2) d, of 0] piece_positions[OF assms(2) d, of 2] quotes_stripped[of v] assms(1) by (simp add: entry_at_def key_ok_def)
  moreover have "positions i ?ws ! length KEY_VALUE = i + length (render_pair (k, v))" by (simp add: KEY_VALUE_def render_pair_def)
  ultimately show ?thesis using first_match_eats[OF pair_matches[OF assms(1)] assms(2) d] by blast
qed

lemma search_from_here: "i \<le> length s \<Longrightarrow> first_match rs s i = Some ps \<Longrightarrow> search_from rs s i = Some ps"
  unfolding search_from_def by (subst upt_conv_Cons) simp_all

lemma search_from_next: "i \<le> length s \<Longrightarrow> first_match rs s i = None \<Longrightarrow> search_from rs s i = search_from rs s (Suc i)"
  unfolding search_from_def by (subst upt_conv_Cons) simp_all

lemma no_pair: "i \<le> length s \<Longrightarrow> stops name_char (drop i s) \<Longrightarrow> first_match KEY_VALUE s i = None"
proof -
  assume "i \<le> length s" "stops name_char (drop i s)"
  then have "ends (plus (Cls name_char)) s i = []" using refuses_Cat[OF refuses_Cls, of "drop i s" name_char] unfolding plus_def refuses_def by blast
  then show ?thesis by (simp add: KEY_VALUE_def)
qed

lemma found_pairs:
  "list_all key_ok kvs \<Longrightarrow> i \<le> length s \<Longrightarrow> drop i s = concat (map (\<lambda>p. '' '' @ render_pair p) kvs)
    \<Longrightarrow> map (entry_at s) (find_from KEY_VALUE s i) = map (\<lambda>(k, v). (lower k, PStr v)) kvs"
proof (induction kvs arbitrary: i)
  case Nil
  then have "i = length s" by simp
  then have "search_from KEY_VALUE s i = None" using no_pair[of i s] by (simp add: search_from_def)
  then show ?case by (subst find_from.simps) simp
next
  case (Cons p kvs)
  obtain k v where p: "p = (k, v)" by (cases p)
  let ?rest = "concat (map (\<lambda>p. '' '' @ render_pair p) kvs)"
  have d: "drop i s = CHR '' '' # render_pair (k, v) @ ?rest" using Cons.prems(3) p by simp
  have i: "Suc i \<le> length s" "drop (Suc i) s = render_pair (k, v) @ ?rest" using drop_Cons[OF d] by auto
  obtain ps where ps: "first_match KEY_VALUE s (Suc i) = Some ps" "entry_at s ps = (lower k, PStr v)"
      "ps ! length KEY_VALUE = Suc i + length (render_pair (k, v))"
    using pair_found[OF _ i] Cons.prems(1) p by auto
  have "first_match KEY_VALUE s i = None" by (rule no_pair) (use Cons.prems(2) d in \<open>simp_all add: name_char_def is_word_def\<close>)
  then have "search_from KEY_VALUE s i = Some ps" using search_from_next[OF Cons.prems(2)] search_from_here[OF i(1) ps(1)] by simp
  moreover have "map (entry_at s) (find_from KEY_VALUE s (ps ! length KEY_VALUE)) = map (\<lambda>(k, v). (lower k, PStr v)) kvs"
    using Cons.IH[of "ps ! length KEY_VALUE"] Cons.prems(1) drop_step[OF i] ps(3) by simp
  ultimately show ?case by (subst find_from.simps) (simp add: ps(2,3) p)
qed

lemma join_pairs: "join '' '' (map render_pair (p # kvs)) = render_pair p @ concat (map (\<lambda>p. '' '' @ render_pair p) kvs)"
  by (induction kvs arbitrary: p) simp_all

lemma dict_set_fresh: "k \<notin> fst ` set d \<Longrightarrow> dict_set k v d = d @ [(k, v)]"
  by (induction d) auto

lemma fold_dict_set_fresh: "distinct (map fst xs) \<Longrightarrow> fst ` set d \<inter> fst ` set xs = {} \<Longrightarrow> fold (\<lambda>(k, v). dict_set k v) xs d = d @ xs"
proof (induction xs arbitrary: d)
  case (Cons x xs)
  obtain k v where x: "x = (k, v)" by (cases x)
  have "dict_set k v d = d @ [(k, v)]" using Cons.prems(2) x by (intro dict_set_fresh) auto
  then show ?case using Cons.IH[of "d @ [(k, v)]"] Cons.prems x by auto
qed simp

text \<open>C27: 
  Key-value pairs read back: pairs of a name and a quoted value without quotes, separated by blanks, are parsed into exactly those pairs, in order, with the names
  in lower case, provided that no two names differ only in case.
\<close>
theorem key_values_round_trip:
  assumes "list_all key_ok kvs" "distinct (map (lower \<circ> fst) kvs)"
  shows "parse_key_values (join '' '' (map render_pair kvs)) = map (\<lambda>(k, v). (lower k, PStr v)) kvs"
proof -
  let ?s = "join '' '' (map render_pair kvs)"
  have entries: "map (entry_at ?s) (find_all KEY_VALUE ?s) = map (\<lambda>(k, v). (lower k, PStr v)) kvs"
  proof (cases kvs)
    case Nil
    then show ?thesis using found_pairs[of "[]" 0 "[]"] by simp
  next
    case (Cons p qs)
    obtain k v where p: "p = (k, v)" by (cases p)
    let ?rest = "concat (map (\<lambda>p. '' '' @ render_pair p) qs)"
    have d: "drop 0 ?s = render_pair (k, v) @ ?rest" using join_pairs[of p qs] Cons p by simp
    obtain ps where ps: "first_match KEY_VALUE ?s 0 = Some ps" "entry_at ?s ps = (lower k, PStr v)" "ps ! length KEY_VALUE = length (render_pair (k, v))"
      using pair_found[OF _ _ d] assms(1) Cons p by auto
    moreover have "search_from KEY_VALUE ?s 0 = Some ps" using search_from_here[OF _ ps(1)] by simp
    moreover have "map (entry_at ?s) (find_from KEY_VALUE ?s (ps ! length KEY_VALUE)) = map (\<lambda>(k, v). (lower k, PStr v)) qs"
      using found_pairs[of qs "ps ! length KEY_VALUE" ?s] assms(1) Cons drop_step[OF _ d] ps(3) by simp
    moreover have "0 < length (render_pair (k, v))" by (simp add: render_pair_def)
    ultimately show ?thesis by (subst find_from.simps) (simp add: Cons p)
  qed
  have "parse_key_values ?s = fold (\<lambda>(k, v). dict_set k v) (map (entry_at ?s) (find_all KEY_VALUE ?s)) []"
    unfolding parse_key_values_def by (simp add: fold_map comp_def entry_at_def)
  also have "\<dots> = map (\<lambda>(k, v). (lower k, PStr v)) kvs"
    unfolding entries using assms(2) by (subst fold_dict_set_fresh) (auto simp: comp_def case_prod_beta)
  finally show ?thesis .
qed


section \<open>Undated CEF records\<close>

text \<open>
  A CEF record with a time field that cannot be read is as trusted as a dated one: the parser looks at whether the field is there, where the others look at whether it
  could be read.
\<close>

lemma unreadable_cef_time_is_trusted:
  assumes "8 \<le> length parts" "parse_timestamp lib (first_value (cef_fields parts) (''rt'' # TIME_KEYS)) None = Inr None"
    "truth (first_value (cef_fields parts) (''rt'' # TIME_KEYS))"
  shows "\<exists>pd. cef_record lib parts = Inr (Some pd) \<and> pd_event_time pd = None \<and> pd_confidence pd = 1"
  using assms unfolding cef_record_def Let_def by simp


section \<open>Witnesses\<close>

definition sample_lib :: py_lib where
  "sample_lib = \<lparr>loads = (\<lambda>_. None), fromisoformat = (\<lambda>_. None), fromtimestamp = (\<lambda>_. Inl Value_Error), year_of = (\<lambda>_. 2025), this_year = 2025, sha256 = id\<rparr>"

lemma sample_parts:
  "one_line ''up''" "plain_token ''h''" "plain_tag ''t''" "syslog_clock ''30'' ''00'' ''00'' ''00''" "(''Feb'', 2) \<in> set SYSLOG_MONTHS"
  by code_simp+

theorem rfc5424_round_trip_witness:
  "can_parse (SyslogRfc5424Parser sample_lib) (render_rfc5424 ''13'' (CHR ''1'') ''-'' ''h'' ''-'' ''-'' ''-'' ''up'')
   \<and> (\<exists>pd. parse (SyslogRfc5424Parser sample_lib) (render_rfc5424 ''13'' (CHR ''1'') ''-'' ''h'' ''-'' ''-'' ''-'' ''up'') None = Inr (Some pd) \<and> pd_message pd = ''up'')"
proof -
  have t: "list_all is_digit ''13''" "is_digit (CHR ''1'')" "list_all plain_token [''-'', ''h'', ''-'', ''-'', ''-'']" by code_simp+
  have "parse_timestamp sample_lib (PStr ''-'') None = Inr None" by code_simp
  with rfc5424_round_trip[OF t(1) _ _ t(2) t(3) sample_parts(1), of sample_lib None] show ?thesis by (simp add: Let_def)
qed

theorem rfc3164_round_trip_witness:
  "can_parse (SyslogRfc3164Parser sample_lib) (render_rfc3164 (syslog_stamp ''Feb'' ''30'' ''00'' ''00'' ''00'') ''h'' ''t'' ''up'')"
  using rfc3164_round_trip[OF sample_parts(5,4,2,3,1), of sample_lib None] by (simp add: Let_def)

theorem key_values_round_trip_witness:
  "parse_key_values (join '' '' (map render_pair [(''User'', ''eve''), (''act'', '''')])) = [(''user'', PStr ''eve''), (''act'', PStr '''')]"
proof -
  have "list_all key_ok [(''User'', ''eve''), (''act'', '''')]" "distinct (map (lower \<circ> fst) [(''User'', ''eve''), (''act'', '''')])" by code_simp+
  moreover have "lower ''User'' = ''user''" "lower ''act'' = ''act''" by code_simp+
  ultimately show ?thesis using key_values_round_trip[of "[(''User'', ''eve''), (''act'', '''')]"] by simp
qed

end
