(* ===== verification/Log_Analyzer.thy ===== *)
theory Log_Analyzer
  imports Log_Formats Correlation Reporting Prompts
begin

text \<open>
  The Log Analyzer (\<^verbatim>\<open>agents/log_analyzer/analyzer.py\<close>) and the log sources (\<^verbatim>\<open>integrations/log_sources.py\<close>). Shown: no record is
  dropped as long as no parser raises, what could not be seen is reported exactly, confidences are shares, and one source that fails costs only that source;
  and that a single impossible date makes the whole analysis raise.
\<close>

section \<open>Contracts\<close>

fun event_type_value :: "event_type \<Rightarrow> string" where
  "event_type_value Auth_Success = ''auth_success''"
| "event_type_value Auth_Failure = ''auth_failure''"
| "event_type_value Privilege_Change = ''privilege_change''"
| "event_type_value Process_Start = ''process_start''"
| "event_type_value Network_Connection = ''network_connection''"
| "event_type_value File_Access = ''file_access''"
| "event_type_value Service_Control = ''service_control''"
| "event_type_value Account_Change = ''account_change''"
| "event_type_value Configuration_Change = ''configuration_change''"
| "event_type_value Ev_Other = ''other''"

record time_window =
  tw_start :: time
  tw_end :: time

definition window_contains :: "time_window \<Rightarrow> time \<Rightarrow> bool" where
  "window_contains w t = (tw_start w \<le> t \<and> t \<le> tw_end w)"

datatype gap_kind = Source_Unavailable | Source_Empty | Parse_Failure | Window_Uncovered

fun gap_kind_value :: "gap_kind \<Rightarrow> string" where
  "gap_kind_value Source_Unavailable = ''source_unavailable''"
| "gap_kind_value Source_Empty = ''source_empty''"
| "gap_kind_value Parse_Failure = ''parse_failure''"
| "gap_kind_value Window_Uncovered = ''window_uncovered''"

record coverage_gap =
  cg_kind :: gap_kind
  cg_source_id :: "string option"
  cg_detail :: string
  cg_affected_records :: nat

record quarantined_record =
  qr_record_id :: string
  qr_source_id :: string
  qr_reason :: string
  qr_content :: string

record log_analysis_request =
  la_investigation_id :: string
  la_records :: "raw_log_record list"
  la_time_window :: "time_window option"
  la_requested_sources :: "string list"

record log_analysis_result =
  lr_investigation_id :: string
  lr_events :: "normalized_event list"
  lr_timeline :: "timeline_entry list"
  lr_correlations :: "correlation list"
  lr_coverage_gaps :: "coverage_gap list"
  lr_quarantined :: "quarantined_record list"
  lr_confidence :: pyfloat
  lr_source_coverage :: pyfloat
  lr_parse_failure_rate :: pyfloat

definition has_gaps :: "log_analysis_result \<Rightarrow> bool" where
  "has_gaps a = (lr_coverage_gaps a \<noteq> [])"

record log_fetch_failure =
  lf_source_id :: string
  lf_reason :: string
  lf_detail :: string


section \<open>Normalising one record\<close>

definition DEFAULT_CORRELATION_WINDOW :: duration where
  "DEFAULT_CORRELATION_WINDOW = 30 * 60 * 1000000"

definition event_id_for :: "py_lib \<Rightarrow> raw_log_record \<Rightarrow> string" where
  "event_id_for lib r = ''evt-'' @ take 16 (sha256 lib (rl_source_id r @ ''|'' @ rl_record_id r @ ''|'' @ rl_content r))"

definition looks_like_process :: "string option \<Rightarrow> bool" where
  "looks_like_process v = (truthy v \<and> CHR ''.'' \<in> set (the v))"

definition event_of :: "py_lib \<Rightarrow> raw_log_record \<Rightarrow> parsed_record \<Rightarrow> time \<Rightarrow> normalized_event" where
  "event_of lib r pd t =
     (let inferred = (pd_event_time pd = None);
          e = \<lparr>event_id = event_id_for lib r, record_id = rl_record_id r, source_id = rl_source_id r, ev_source_kind = rl_source_kind r,
            ev_log_format = pd_log_format pd, event_time = t, ev_type = pd_event_type pd, host = pd_host pd, actor = pd_actor pd, action = pd_action pd,
            outcome = pd_outcome pd, message = pd_message pd,
            entities = extract_entities (pd_message pd @ '' '' @ rl_content r)
              [(En_Host, pd_host pd), (En_User, pd_actor pd), (En_Process, if looks_like_process (pd_action pd) then pd_action pd else None)],
            ev_fields = map (\<lambda>(k, v). (k, str_val v)) (pd_fields pd), raw_ref = rl_raw_ref r, notability = 0,
            confidence = py_round 4 (rnd (pd_confidence pd * (if inferred then rnd (6/10) else 1)))\<rparr>
      in e\<lparr>notability := score_notability e\<rparr>)"

definition normalize :: "py_lib \<Rightarrow> log_parser list \<Rightarrow> raw_log_record \<Rightarrow> py_error + normalized_event option" where
  "normalize lib parsers r = and_then (parse_record parsers r) (\<lambda>parsed. Inr (case parsed of None \<Rightarrow> None
     | Some pd \<Rightarrow> map_option (event_of lib r pd) (case pd_event_time pd of Some t \<Rightarrow> Some t | None \<Rightarrow> rl_received_at r)))"

definition quarantine :: "raw_log_record \<Rightarrow> quarantined_record" where
  "quarantine r = \<lparr>qr_record_id = rl_record_id r, qr_source_id = rl_source_id r, qr_reason = ''unparseable'', qr_content = rl_content r\<rparr>"

definition summarize :: "normalized_event \<Rightarrow> string" where
  "summarize e = event_type_value (ev_type e) @ (if truthy (outcome e) then '' ('' @ the (outcome e) @ '')'' else [])
     @ '': '' @ or_empty (or_else (actor e) (Some ''unknown actor'')) @ '' on '' @ or_empty (or_else (host e) (Some ''unknown host''))"

definition timeline_of :: "normalized_event \<Rightarrow> timeline_entry" where
  "timeline_of e = \<lparr>tl_event_id = event_id e, tl_event_time = event_time e, tl_source_id = source_id e, tl_summary = summarize e, tl_notability = notability e\<rparr>"


section \<open>Coverage\<close>

definition failure_gap :: "log_fetch_failure \<Rightarrow> coverage_gap" where
  "failure_gap f = \<lparr>cg_kind = Source_Unavailable, cg_source_id = Some (lf_source_id f),
     cg_detail = strip_by (\<lambda>c. c \<in> set '': '') (lf_reason f @ '': '' @ lf_detail f), cg_affected_records = 0\<rparr>"

definition empty_gap :: "string \<Rightarrow> coverage_gap" where
  "empty_gap s = \<lparr>cg_kind = Source_Empty, cg_source_id = Some s, cg_detail = ''source returned no usable records'', cg_affected_records = 0\<rparr>"

definition parse_gap :: "quarantined_record list \<Rightarrow> string \<Rightarrow> coverage_gap" where
  "parse_gap qs s = (let count = length (filter (\<lambda>q. qr_source_id q = s) qs) in
     \<lparr>cg_kind = Parse_Failure, cg_source_id = Some s, cg_detail = show_nat count @ '' record(s) could not be parsed and were quarantined'',
      cg_affected_records = count\<rparr>)"

definition UNCOVERED_RATIO :: pyfloat where
  "UNCOVERED_RATIO = 1/2"

text \<open>\<^verbatim>\<open>timedelta.total_seconds\<close>.\<close>

definition total_seconds :: "duration \<Rightarrow> pyfloat" where
  "total_seconds d = rnd (of_int d / 1000000)"

definition window_gap :: "time_window option \<Rightarrow> normalized_event list \<Rightarrow> coverage_gap option" where
  "window_gap window events = (case window of None \<Rightarrow> None | Some w \<Rightarrow>
     (let covered = total_seconds (tw_end w - tw_start w); inside = map event_time (filter (\<lambda>e. window_contains w (event_time e)) events);
          gap = (\<lambda>detail. Some \<lparr>cg_kind = Window_Uncovered, cg_source_id = None, cg_detail = detail, cg_affected_records = 0\<rparr>) in
      if covered \<le> 0 then None
      else if inside = [] then gap ''no events fall within the requested time window''
      else let share = rnd (total_seconds (Max (set inside) - Min (set inside)) / covered) in
        if share < UNCOVERED_RATIO then gap (''evidence covers only '' @ float_str (py_round 1 (rnd (share * 100))) @ ''% of the requested window'') else None))"

definition coverage_gaps :: "log_analysis_request \<Rightarrow> normalized_event list \<Rightarrow> quarantined_record list \<Rightarrow> log_fetch_failure list \<Rightarrow> coverage_gap list" where
  "coverage_gaps rq events quarantined failures =
     (let seen = map source_id events; failed = map lf_source_id failures in
      map failure_gap failures
      @ map empty_gap (filter (\<lambda>s. s \<notin> set seen \<and> s \<notin> set failed) (la_requested_sources rq))
      @ map (parse_gap quarantined) (sorted_set (map qr_source_id quarantined))
      @ (case window_gap (la_time_window rq) events of None \<Rightarrow> [] | Some g \<Rightarrow> [g]))"

definition source_coverage :: "log_analysis_request \<Rightarrow> normalized_event list \<Rightarrow> pyfloat" where
  "source_coverage rq events =
     (let requested = (if la_requested_sources rq \<noteq> [] then unique (la_requested_sources rq) else unique (map rl_source_id (la_records rq))) in
      if requested = [] then 0
      else rnd (of_nat (length (filter (\<lambda>s. s \<in> source_id ` set events) requested)) / of_nat (length requested)))"

definition analysis_confidence :: "normalized_event list \<Rightarrow> pyfloat \<Rightarrow> pyfloat \<Rightarrow> pyfloat" where
  "analysis_confidence events coverage rate =
     (if events = [] then 0
      else let mean = rnd (py_sum (map confidence events) / of_nat (length events)) in
        unit_round 4 (rnd (rnd (mean * rnd (1/2 + rnd (1/2 * coverage))) * rnd (1 - rate))))"


section \<open>The agent\<close>

definition analyze :: "(time \<Rightarrow> string) \<Rightarrow> py_lib \<Rightarrow> log_parser list \<Rightarrow> duration \<Rightarrow> log_analysis_request \<Rightarrow> log_fetch_failure list
    \<Rightarrow> py_error + log_analysis_result agent_outcome" where
  "analyze isoformat lib parsers window rq failures =
     and_then (traverse (normalize lib parsers) (la_records rq)) (\<lambda>outs.
     let events = sort_key (\<lambda>e. (event_time e, event_id e)) (List.map_filter id outs);
         quarantined = map (quarantine \<circ> fst) (filter (\<lambda>(r, out). out = None) (zip (la_records rq) outs));
         correlations = correlate_events isoformat events window 2;
         gaps = coverage_gaps rq events quarantined failures;
         coverage = source_coverage rq events;
         rate = (if la_records rq = [] then 0 else rnd (of_nat (length quarantined) / of_nat (length (la_records rq))));
         conf = analysis_confidence events coverage rate in
     Inr \<lparr>ao_agent = ''log_analyzer'',
       ao_output = \<lparr>lr_investigation_id = la_investigation_id rq, lr_events = events, lr_timeline = map timeline_of events, lr_correlations = correlations,
         lr_coverage_gaps = gaps, lr_quarantined = quarantined, lr_confidence = conf, lr_source_coverage = py_round 4 coverage,
         lr_parse_failure_rate = py_round 4 rate\<rparr>,
       ao_confidence = conf, ao_prompt_version = Some (pa_version LOG_ANALYZER_PROMPT),
       ao_tool_calls = [(''parse_record'', length (la_records rq)), (''extract_entities'', length events), (''correlate_events'', length correlations)],
       ao_degradations = map (\<lambda>g. degradation (gap_kind_value (cg_kind g)) (cg_detail g)) gaps\<rparr>)"


section \<open>Log sources\<close>

record log_fetch_result =
  fr_source_id :: string
  fr_records :: "raw_log_record list"
  fr_failure :: "log_fetch_failure option"

definition fetch_ok :: "log_fetch_result \<Rightarrow> bool" where
  "fetch_ok r = (fr_failure r = None)"

text \<open>A source: what a fetch returns, or the text of the exception it raises.\<close>

record log_source =
  ls_source_id :: string
  ls_kind :: log_source_kind
  fetch :: "time_window option \<Rightarrow> string + log_fetch_result"

definition in_memory_source :: "string \<Rightarrow> log_source_kind \<Rightarrow> raw_log_record list \<Rightarrow> log_fetch_failure option \<Rightarrow> log_source" where
  "in_memory_source sid kind records failure = \<lparr>ls_source_id = sid, ls_kind = kind, fetch = (\<lambda>_. Inr (case failure of
     Some f \<Rightarrow> \<lparr>fr_source_id = sid, fr_records = [], fr_failure = Some f\<rparr> | None \<Rightarrow> \<lparr>fr_source_id = sid, fr_records = records, fr_failure = None\<rparr>))\<rparr>"

text \<open>\<^verbatim>\<open>str.splitlines\<close> on Latin-1 text.\<close>

definition line_break :: "char \<Rightarrow> bool" where
  "line_break c = (cp c \<in> {10, 11, 12, 13, 28, 29, 30, 133})"

fun lines_from :: "string \<Rightarrow> string \<Rightarrow> string list" where
  "lines_from line [] = (if line = [] then [] else [rev line])"
| "lines_from line (c # cs) = (if line_break c then rev line # (if c = CHR 0x0D \<and> prefix [CHR 0x0A] cs then lines_from [] (tl cs) else lines_from [] cs)
     else lines_from (c # line) cs)"

abbreviation splitlines :: "string \<Rightarrow> string list" where
  "splitlines s \<equiv> lines_from [] s"

definition non_empty_lines :: "string list \<Rightarrow> string list" where
  "non_empty_lines ls = filter (\<lambda>l. strip l \<noteq> []) ls"

text \<open>
  \<^verbatim>\<open>FileLogSource\<close>: the text of the file or the message of the error that reading it raised, the name of the file, the time of the
  fetch, and the limit on records.
\<close>

definition file_record :: "string \<Rightarrow> log_source_kind \<Rightarrow> log_format option \<Rightarrow> string \<Rightarrow> time \<Rightarrow> nat \<times> string \<Rightarrow> raw_log_record" where
  "file_record sid kind declared name now = (\<lambda>(number, line). \<lparr>rl_record_id = sid @ '':'' @ show_nat number, rl_source_id = sid, rl_source_kind = kind,
     rl_content = line, rl_raw_ref = Some (name @ ''#L'' @ show_nat number), rl_received_at = Some now, rl_declared_format = declared\<rparr>)"

definition file_source :: "string \<Rightarrow> log_source_kind \<Rightarrow> log_format option \<Rightarrow> nat \<Rightarrow> string \<Rightarrow> string + string \<Rightarrow> time \<Rightarrow> log_source" where
  "file_source sid kind declared max_records name contents now = \<lparr>ls_source_id = sid, ls_kind = kind, fetch = (\<lambda>_. Inr (case contents of
     Inl detail \<Rightarrow> \<lparr>fr_source_id = sid, fr_records = [], fr_failure = Some \<lparr>lf_source_id = sid, lf_reason = ''unreadable'', lf_detail = detail\<rparr>\<rparr>
   | Inr text \<Rightarrow> (let ls = non_empty_lines (splitlines text) in
       \<lparr>fr_source_id = sid, fr_records = take max_records (map (file_record sid kind declared name now) (zip [1..<Suc (length ls)] ls)), fr_failure = None\<rparr>)))\<rparr>"

fun collect_logs :: "time_window option \<Rightarrow> log_source list \<Rightarrow> raw_log_record list \<times> log_fetch_failure list" where
  "collect_logs window [] = ([], [])"
| "collect_logs window (s # ss) = (let (records, failures) = collect_logs window ss in
     case fetch s window of
       Inl detail \<Rightarrow> (records, \<lparr>lf_source_id = ls_source_id s, lf_reason = ''error'', lf_detail = detail\<rparr> # failures)
     | Inr r \<Rightarrow> (case fr_failure r of Some f \<Rightarrow> (records, f # failures) | None \<Rightarrow> (fr_records r @ records, failures)))"


section \<open>No record is dropped\<close>

lemma event_of_fields [simp]:
  "event_id (event_of lib r pd t) = event_id_for lib r" "record_id (event_of lib r pd t) = rl_record_id r" "source_id (event_of lib r pd t) = rl_source_id r"
  "raw_ref (event_of lib r pd t) = rl_raw_ref r" "event_time (event_of lib r pd t) = t"
  "confidence (event_of lib r pd t) = py_round 4 (rnd (pd_confidence pd * (if pd_event_time pd = None then rnd (6/10) else 1)))"
  by (simp_all add: event_of_def Let_def)

lemma normalize_Inr:
  assumes "normalize lib parsers r = Inr (Some e)"
  obtains pd t where "parse_record parsers r = Inr (Some pd)" "e = event_of lib r pd t"
    "pd_event_time pd = Some t \<or> pd_event_time pd = None \<and> rl_received_at r = Some t"
proof -
  from assms obtain parsed where p: "parse_record parsers r = Inr parsed" unfolding normalize_def and_then_Inr by blast
  then obtain pd where pd: "parsed = Some pd" using assms by (cases parsed) (simp_all add: normalize_def)
  show thesis
  proof (cases "pd_event_time pd")
    case (Some t)
    then show thesis using assms p pd that[of pd t] by (simp add: normalize_def)
  next
    case None
    then obtain t where "rl_received_at r = Some t" using assms p pd by (cases "rl_received_at r") (simp_all add: normalize_def)
    then show thesis using None assms p pd that[of pd t] by (simp add: normalize_def)
  qed
qed

lemma normalize_Some:
  assumes "normalize lib parsers r = Inr (Some e)"
  shows "record_id e = rl_record_id r" "source_id e = rl_source_id r" "raw_ref e = rl_raw_ref r" "event_id e = event_id_for lib r"
  using normalize_Inr[OF assms] by (metis event_of_fields)+

lemma outs_partition:
  assumes "traverse (normalize lib parsers) rs = Inr outs"
  shows "mset (map record_id (List.map_filter id outs)) + mset (map qr_record_id (map quarantine (filter (\<lambda>r. normalize lib parsers r = Inr None) rs)))
      = mset (map rl_record_id rs)"
    "map (quarantine \<circ> fst) (filter (\<lambda>(r, out). out = None) (zip rs outs)) = map quarantine (filter (\<lambda>r. normalize lib parsers r = Inr None) rs)"
    "set (List.map_filter id outs) = {e. \<exists>r \<in> set rs. normalize lib parsers r = Inr (Some e)}"
proof -
  have "mset (map record_id (List.map_filter id outs)) + mset (map qr_record_id (map quarantine (filter (\<lambda>r. normalize lib parsers r = Inr None) rs)))
      = mset (map rl_record_id rs)
    \<and> map (quarantine \<circ> fst) (filter (\<lambda>(r, out). out = None) (zip rs outs)) = map quarantine (filter (\<lambda>r. normalize lib parsers r = Inr None) rs)
    \<and> set (List.map_filter id outs) = {e. \<exists>r \<in> set rs. normalize lib parsers r = Inr (Some e)}"
    using assms
  proof (induction rs arbitrary: outs)
    case Nil
    then show ?case by (simp add: List.map_filter_def)
  next
    case (Cons r rs)
    then obtain out outs' where o: "normalize lib parsers r = Inr out" "traverse (normalize lib parsers) rs = Inr outs'" "outs = out # outs'"
      by (auto simp: and_then_Inr)
    note IH = Cons.IH[OF o(2)]
    show ?case
    proof (cases out)
      case None
      with IH o show ?thesis by (simp add: List.map_filter_simps quarantine_def)
    next
      case (Some e)
      have "record_id e = rl_record_id r" using normalize_Some(1) o(1) Some by simp
      with IH o Some show ?thesis by (auto simp: List.map_filter_simps)
    qed
  qed
  then show "mset (map record_id (List.map_filter id outs)) + mset (map qr_record_id (map quarantine (filter (\<lambda>r. normalize lib parsers r = Inr None) rs)))
      = mset (map rl_record_id rs)"
    "map (quarantine \<circ> fst) (filter (\<lambda>(r, out). out = None) (zip rs outs)) = map quarantine (filter (\<lambda>r. normalize lib parsers r = Inr None) rs)"
    "set (List.map_filter id outs) = {e. \<exists>r \<in> set rs. normalize lib parsers r = Inr (Some e)}" by simp_all
qed

lemma analyze_cases:
  assumes "analyze isoformat lib parsers window rq failures = Inr oc"
  obtains outs where "traverse (normalize lib parsers) (la_records rq) = Inr outs"
    "lr_events (ao_output oc) = sort_key (\<lambda>e. (event_time e, event_id e)) (List.map_filter id outs)"
    "lr_quarantined (ao_output oc) = map quarantine (filter (\<lambda>r. normalize lib parsers r = Inr None) (la_records rq))"
    "lr_timeline (ao_output oc) = map timeline_of (lr_events (ao_output oc))"
    "lr_coverage_gaps (ao_output oc) = coverage_gaps rq (lr_events (ao_output oc)) (lr_quarantined (ao_output oc)) failures"
    "ao_degradations oc = map (\<lambda>g. degradation (gap_kind_value (cg_kind g)) (cg_detail g)) (lr_coverage_gaps (ao_output oc))"
  using assms by (auto simp: analyze_def and_then_Inr Let_def outs_partition(2))

text \<open>
  What can be made of a record: the first parser's reading that succeeds and the time the event gets, the one the record states or, when it
  states none, the one at which it was received; nothing when no parser reads it or neither time is known.
\<close>

definition reading_of :: "log_parser list \<Rightarrow> raw_log_record \<Rightarrow> (parsed_record \<times> time) option" where
  "reading_of parsers r = (case parse_record parsers r of
     Inl _ \<Rightarrow> None
   | Inr None \<Rightarrow> None
   | Inr (Some pd) \<Rightarrow> (case (pd_event_time pd, rl_received_at r) of
       (Some t, _) \<Rightarrow> Some (pd, t) | (None, Some t) \<Rightarrow> Some (pd, t) | (None, None) \<Rightarrow> None))"

lemma normalize_reading:
  assumes "\<not> isl (parse_record parsers r)"
  shows "normalize lib parsers r = Inr (map_option (\<lambda>(pd, t). event_of lib r pd t) (reading_of parsers r))"
  using assms by (cases "parse_record parsers r") (auto simp: normalize_def reading_of_def split: option.splits)

lemma event_of_message: "message (event_of lib r pd t) = pd_message pd"
  by (simp add: event_of_def Let_def)

lemma traverse_all_Inr: "(\<And>x. x \<in> set xs \<Longrightarrow> f x = Inr (g x)) \<Longrightarrow> traverse f xs = Inr (map g xs)"
  by (induction xs) auto

lemma map_filter_id_map: "List.map_filter id (map g xs) = List.map_filter g xs"
  by (induction xs) (auto simp: List.map_filter_simps split: option.split)

lemma map_map_filter: "map f (List.map_filter g xs) = List.map_filter (map_option f \<circ> g) xs"
  by (induction xs) (auto simp: List.map_filter_simps split: option.split)

text \<open>C9: 
  No record is dropped. As long as no parser raises on a record of the request, the analysis returns; every record that can be read and placed in time becomes
  exactly one event, with the source, the pointer to the original, the time and the text of its own record; every other record is quarantined, once, in order, with its
  content kept verbatim; and the timeline lists all the events in order of time. (A record whose date does not exist makes its parser raise and the analysis with it,
  which is a finding of its own.)
\<close>
theorem no_record_dropped:
  assumes "list_all (\<lambda>r. \<not> isl (parse_record parsers r)) (la_records rq)"
  shows "\<exists>oc. analyze isoformat lib parsers window rq failures = Inr oc \<and> (let a = ao_output oc in
    mset (map (\<lambda>e. (record_id e, source_id e, raw_ref e, event_time e, message e)) (lr_events a))
      = mset (List.map_filter (\<lambda>r. map_option (\<lambda>(pd, t). (rl_record_id r, rl_source_id r, rl_raw_ref r, t, pd_message pd)) (reading_of parsers r)) (la_records rq))
    \<and> map (\<lambda>q. (qr_record_id q, qr_source_id q, qr_content q)) (lr_quarantined a)
      = map (\<lambda>r. (rl_record_id r, rl_source_id r, rl_content r)) (filter (\<lambda>r. reading_of parsers r = None) (la_records rq))
    \<and> map tl_event_id (lr_timeline a) = map event_id (lr_events a)
    \<and> sorted (map (\<lambda>t. (tl_event_time t, tl_event_id t)) (lr_timeline a)))"
proof -
  let ?g = "\<lambda>r. map_option (\<lambda>(pd, t). event_of lib r pd t) (reading_of parsers r)"
  let ?row = "\<lambda>e. (record_id e, source_id e, raw_ref e, event_time e, message e)"
  have norm: "normalize lib parsers r = Inr (?g r)" if "r \<in> set (la_records rq)" for r
    using assms that normalize_reading by (auto simp: list_all_iff)
  have tr: "traverse (normalize lib parsers) (la_records rq) = Inr (map ?g (la_records rq))" by (rule traverse_all_Inr[OF norm])
  have "\<exists>oc. analyze isoformat lib parsers window rq failures = Inr oc" by (simp add: analyze_def tr Let_def)
  then obtain oc where oc: "analyze isoformat lib parsers window rq failures = Inr oc" by blast
  obtain outs where outs: "traverse (normalize lib parsers) (la_records rq) = Inr outs"
    and ev: "lr_events (ao_output oc) = sort_key (\<lambda>e. (event_time e, event_id e)) (List.map_filter id outs)"
    and qu: "lr_quarantined (ao_output oc) = map quarantine (filter (\<lambda>r. normalize lib parsers r = Inr None) (la_records rq))"
    and tl: "lr_timeline (ao_output oc) = map timeline_of (lr_events (ao_output oc))"
    by (rule analyze_cases[OF oc])
  have out: "List.map_filter id outs = List.map_filter ?g (la_records rq)" using tr outs by (simp add: map_filter_id_map)
  have row: "map_option ?row (?g r) = map_option (\<lambda>(pd, t). (rl_record_id r, rl_source_id r, rl_raw_ref r, t, pd_message pd)) (reading_of parsers r)" for r
    by (cases "reading_of parsers r") (auto simp: event_of_message)
  have rows: "mset (map ?row (lr_events (ao_output oc))) = mset (List.map_filter (\<lambda>r.
      map_option (\<lambda>(pd, t). (rl_record_id r, rl_source_id r, rl_raw_ref r, t, pd_message pd)) (reading_of parsers r)) (la_records rq))"
    unfolding ev mset_map mset_sort out by (simp only: mset_map[symmetric] map_map_filter comp_def row)
  have "filter (\<lambda>r. normalize lib parsers r = Inr None) (la_records rq) = filter (\<lambda>r. reading_of parsers r = None) (la_records rq)"
    using norm by (intro filter_cong) auto
  then have kept: "map (\<lambda>q. (qr_record_id q, qr_source_id q, qr_content q)) (lr_quarantined (ao_output oc))
      = map (\<lambda>r. (rl_record_id r, rl_source_id r, rl_content r)) (filter (\<lambda>r. reading_of parsers r = None) (la_records rq))"
    unfolding qu by (simp add: quarantine_def)
  have "sorted (map (\<lambda>t. (tl_event_time t, tl_event_id t)) (lr_timeline (ao_output oc)))"
    unfolding tl ev by (simp add: timeline_of_def comp_def)
  moreover have "map tl_event_id (lr_timeline (ao_output oc)) = map event_id (lr_events (ao_output oc))"
    unfolding tl by (simp add: timeline_of_def comp_def)
  ultimately show ?thesis using oc rows kept unfolding Let_def by blast
qed


section \<open>What could not be seen is reported\<close>

definition gaps_of :: "gap_kind \<Rightarrow> log_analysis_result \<Rightarrow> coverage_gap list" where
  "gaps_of k a = filter (\<lambda>g. cg_kind g = k) (lr_coverage_gaps a)"

lemma gap_kinds [simp]:
  "cg_kind (failure_gap f) = Source_Unavailable" "cg_kind (empty_gap s) = Source_Empty" "cg_kind (parse_gap qs s) = Parse_Failure"
  "cg_source_id (failure_gap f) = Some (lf_source_id f)" "cg_source_id (empty_gap s) = Some s" "cg_source_id (parse_gap qs s) = Some s"
  "cg_affected_records (parse_gap qs s) = length (filter (\<lambda>q. qr_source_id q = s) qs)"
  by (simp_all add: failure_gap_def empty_gap_def parse_gap_def Let_def)

lemma window_gap_kind: "window_gap w events = Some g \<Longrightarrow> cg_kind g = Window_Uncovered"
  by (auto simp: window_gap_def Let_def split: option.splits if_splits)

text \<open>The requested window is largely devoid of evidence.\<close>

definition window_uncovered :: "time_window option \<Rightarrow> normalized_event list \<Rightarrow> bool" where
  "window_uncovered window events = (case window of None \<Rightarrow> False | Some w \<Rightarrow>
     let inside = {event_time e | e. e \<in> set events \<and> tw_start w \<le> event_time e \<and> event_time e \<le> tw_end w}; covered = total_seconds (tw_end w - tw_start w) in
     0 < covered \<and> (inside = {} \<or> rnd (total_seconds (Max inside - Min inside) / covered) < 1/2))"

lemma window_gap_iff: "window_gap w events \<noteq> None \<longleftrightarrow> window_uncovered w events"
proof (cases w)
  case (Some v)
  have inside: "{event_time e | e. e \<in> set events \<and> tw_start v \<le> event_time e \<and> event_time e \<le> tw_end v}
      = set (map event_time (filter (\<lambda>e. window_contains v (event_time e)) events))"
    by (auto simp: window_contains_def)
  show ?thesis unfolding window_gap_def window_uncovered_def Some option.case Let_def inside UNCOVERED_RATIO_def set_empty
    by (auto split: if_splits)
qed (simp add: window_gap_def window_uncovered_def)

lemma filter_kind: "list_all (\<lambda>g. cg_kind g = k') gs \<Longrightarrow> filter (\<lambda>g. cg_kind g = k) gs = (if k = k' then gs else [])"
  by (induction gs) auto

lemma gaps_by_kind:
  assumes "lr_coverage_gaps a = coverage_gaps rq events qs failures"
  shows "gaps_of Source_Unavailable a = map failure_gap failures"
    "gaps_of Source_Empty a = map empty_gap (filter (\<lambda>s. s \<notin> set (map source_id events) \<and> s \<notin> set (map lf_source_id failures)) (la_requested_sources rq))"
    "gaps_of Parse_Failure a = map (parse_gap qs) (sorted_set (map qr_source_id qs))"
    "gaps_of Window_Uncovered a = (case window_gap (la_time_window rq) events of None \<Rightarrow> [] | Some g \<Rightarrow> [g])"
proof -
  have parts: "list_all (\<lambda>g. cg_kind g = Source_Unavailable) (map failure_gap fs)" "list_all (\<lambda>g. cg_kind g = Source_Empty) (map empty_gap ss)"
    "list_all (\<lambda>g. cg_kind g = Parse_Failure) (map (parse_gap qs) ss)"
    "list_all (\<lambda>g. cg_kind g = Window_Uncovered) (case window_gap (la_time_window rq) events of None \<Rightarrow> [] | Some g \<Rightarrow> [g])" for fs ss
    by (auto simp: list_all_iff window_gap_kind split: option.splits)
  note all = gaps_of_def assms coverage_gaps_def Let_def filter_append filter_kind[OF parts(1)] filter_kind[OF parts(2)] filter_kind[OF parts(3)] filter_kind[OF parts(4)]
  show "gaps_of Source_Unavailable a = map failure_gap failures" unfolding all by simp
  show "gaps_of Source_Empty a = map empty_gap (filter (\<lambda>s. s \<notin> set (map source_id events) \<and> s \<notin> set (map lf_source_id failures)) (la_requested_sources rq))"
    unfolding all by simp
  show "gaps_of Parse_Failure a = map (parse_gap qs) (sorted_set (map qr_source_id qs))" unfolding all by simp
  show "gaps_of Window_Uncovered a = (case window_gap (la_time_window rq) events of None \<Rightarrow> [] | Some g \<Rightarrow> [g])" unfolding all by simp
qed

lemma counts_sum: "sum_list (map (\<lambda>s. length (filter (\<lambda>q. f q = s) qs)) (sorted_set (map f qs))) = length qs"
proof -
  have "sum_list (map (\<lambda>s. length (filter (\<lambda>q. f q = s) qs)) (sorted_set (map f qs))) = (\<Sum>s \<in> f ` set qs. length (filter (\<lambda>q. f q = s) qs))"
    by (subst sum_list_distinct_conv_sum_set) (simp_all add: sorted_set_def)
  also have "\<dots> = length qs"
  proof (induction qs)
    case (Cons q qs)
    let ?n = "\<lambda>s. length (filter (\<lambda>q. f q = s) qs)"
    have "(\<Sum>s \<in> f ` set (q # qs). length (filter (\<lambda>q. f q = s) (q # qs))) = (\<Sum>s \<in> insert (f q) (f ` set qs). ?n s + (if s = f q then 1 else 0))"
      by (intro sum.cong) auto
    also have "\<dots> = (\<Sum>s \<in> insert (f q) (f ` set qs). ?n s) + 1" by (simp add: sum.distrib)
    also have "(\<Sum>s \<in> insert (f q) (f ` set qs). ?n s) = (\<Sum>s \<in> f ` set qs. ?n s)"
    proof (cases "f q \<in> f ` set qs")
      case False
      then have "filter (\<lambda>p. f p = f q) qs = []" by (auto simp: filter_empty_conv image_iff)
      with False show ?thesis by simp
    qed (simp add: insert_absorb)
    finally show ?case using Cons by simp
  qed simp
  finally show ?thesis .
qed

text \<open>
  What could not be seen is reported, exactly: one gap for every source that failed, one for every requested source that neither failed nor
  produced an event, one for every source with quarantined records and its number of them, which add up to all that was quarantined, and one
  for the requested window exactly when it is largely devoid of evidence; and every gap is recorded as a degradation of the run.
\<close>
theorem gaps_reported_exactly:
  assumes "analyze isoformat lib parsers window rq failures = Inr oc"
  shows "let a = ao_output oc in
    map cg_source_id (gaps_of Source_Unavailable a) = map (Some \<circ> lf_source_id) failures
    \<and> cg_source_id ` set (gaps_of Source_Empty a) = Some ` (set (la_requested_sources rq) - source_id ` set (lr_events a) - lf_source_id ` set failures)
    \<and> map (\<lambda>g. (cg_source_id g, cg_affected_records g)) (gaps_of Parse_Failure a)
        = map (\<lambda>s. (Some s, length (filter (\<lambda>q. qr_source_id q = s) (lr_quarantined a)))) (sorted_set (map qr_source_id (lr_quarantined a)))
    \<and> sum_list (map cg_affected_records (gaps_of Parse_Failure a)) = length (lr_quarantined a)
    \<and> (gaps_of Window_Uncovered a \<noteq> []) = window_uncovered (la_time_window rq) (lr_events a)
    \<and> map ag_reason (ao_degradations oc) = map (gap_kind_value \<circ> cg_kind) (lr_coverage_gaps a)"
proof -
  obtain outs where gaps: "lr_coverage_gaps (ao_output oc) = coverage_gaps rq (lr_events (ao_output oc)) (lr_quarantined (ao_output oc)) failures"
    and deg: "ao_degradations oc = map (\<lambda>g. degradation (gap_kind_value (cg_kind g)) (cg_detail g)) (lr_coverage_gaps (ao_output oc))"
    by (rule analyze_cases[OF assms])
  note kinds = gaps_by_kind[OF gaps]
  have counts: "sum_list (map cg_affected_records (gaps_of Parse_Failure (ao_output oc))) = length (lr_quarantined (ao_output oc))"
    unfolding kinds(3) using counts_sum[of qr_source_id "lr_quarantined (ao_output oc)"] by (simp add: comp_def)
  have uncovered: "(gaps_of Window_Uncovered (ao_output oc) \<noteq> []) = window_uncovered (la_time_window rq) (lr_events (ao_output oc))"
    unfolding kinds(4) window_gap_iff[symmetric] by (cases "window_gap (la_time_window rq) (lr_events (ao_output oc))") simp_all
  show ?thesis unfolding Let_def kinds(1-3) deg using counts[unfolded kinds(3)] uncovered
    by (simp add: comp_def image_image degradation_def) blast
qed


section \<open>Confidence\<close>

lemma rounded_share: "0 \<le> x \<Longrightarrow> x \<le> 1 \<Longrightarrow> 0 \<le> py_round 4 (rnd x) \<and> py_round 4 (rnd x) \<le> 1"
  by (intro conjI py_round_nonneg rnd_nonneg py_round_le_1 rnd_le_1)

lemma rounded_ratio: "m \<le> n \<Longrightarrow> 0 \<le> py_round 4 (rnd (of_nat m / of_nat n)) \<and> py_round 4 (rnd (of_nat m / of_nat n)) \<le> 1"
  by (intro rounded_share; cases "n = 0") (simp_all add: divide_le_eq_1)

lemma default_event_confidence:
  assumes "normalize lib (DEFAULT_PARSERS lib) r = Inr (Some e)"
  shows "0 \<le> confidence e \<and> confidence e \<le> 1"
proof -
  obtain pd t where pd: "parse_record (DEFAULT_PARSERS lib) r = Inr (Some pd)" "e = event_of lib r pd t" using normalize_Inr[OF assms] by metis
  from parse_record_cases[OF pd(1)] obtain p where p: "p \<in> set (DEFAULT_PARSERS lib)" "parse p (strip (rl_content r)) (rl_received_at r) = Inr (Some pd)" by blast
  have sixty: "0 \<le> rnd (6/10)" "rnd (6/10) \<le> 1" by (intro rnd_nonneg rnd_le_1; simp)+
  show ?thesis unfolding pd(2) event_of_fields
    using default_parser_sound(2,3)[OF p] sixty by (intro rounded_share) (auto intro: mult_nonneg_nonneg mult_le_one)
qed

text \<open>
  Every confidence is a share: with the default parsers each event and the analysis as a whole carry a confidence between zero and one, the analysis
  has none at all when no record could be read, and its source coverage and parse failure rate lie between zero and one too.
\<close>
theorem analysis_confidence_is_share:
  assumes "analyze isoformat lib (DEFAULT_PARSERS lib) window rq failures = Inr oc"
  shows "let a = ao_output oc in list_all (\<lambda>e. 0 \<le> confidence e \<and> confidence e \<le> 1) (lr_events a)
    \<and> 0 \<le> lr_confidence a \<and> lr_confidence a \<le> 1 \<and> ao_confidence oc = lr_confidence a \<and> (if lr_events a = [] then lr_confidence a = 0 else True)
    \<and> 0 \<le> lr_source_coverage a \<and> lr_source_coverage a \<le> 1 \<and> 0 \<le> lr_parse_failure_rate a \<and> lr_parse_failure_rate a \<le> 1"
proof -
  obtain outs where tr: "traverse (normalize lib (DEFAULT_PARSERS lib)) (la_records rq) = Inr outs"
    and ev: "lr_events (ao_output oc) = sort_key (\<lambda>e. (event_time e, event_id e)) (List.map_filter id outs)"
    and qu: "lr_quarantined (ao_output oc) = map quarantine (filter (\<lambda>r. normalize lib (DEFAULT_PARSERS lib) r = Inr None) (la_records rq))"
    by (rule analyze_cases[OF assms])
  have "list_all (\<lambda>e. 0 \<le> confidence e \<and> confidence e \<le> 1) (lr_events (ao_output oc))"
    unfolding list_all_iff ev set_sort outs_partition(3)[OF tr] using default_event_confidence by blast
  moreover have conf: "0 \<le> analysis_confidence es c r \<and> analysis_confidence es c r \<le> 1" for es c r
    by (simp add: analysis_confidence_def Let_def unit_round_bounds)
  moreover have "0 \<le> py_round 4 (source_coverage rq es) \<and> py_round 4 (source_coverage rq es) \<le> 1" for es
    unfolding source_coverage_def Let_def using rounded_ratio length_filter_le[of "\<lambda>s. s \<in> source_id ` set es"]
    by (simp add: py_round_nonneg py_round_le_1)
  moreover have "0 \<le> py_round 4 (rnd (of_nat (length (lr_quarantined (ao_output oc))) / of_nat (length (la_records rq))))
      \<and> py_round 4 (rnd (of_nat (length (lr_quarantined (ao_output oc))) / of_nat (length (la_records rq)))) \<le> 1"
    unfolding qu length_map by (intro rounded_ratio length_filter_le)
  moreover have "lr_confidence (ao_output oc) = ao_confidence oc" "ao_confidence oc = analysis_confidence (lr_events (ao_output oc)) (source_coverage rq (lr_events (ao_output oc)))
        (if la_records rq = [] then 0 else rnd (of_nat (length (lr_quarantined (ao_output oc))) / of_nat (length (la_records rq))))"
    "lr_source_coverage (ao_output oc) = py_round 4 (source_coverage rq (lr_events (ao_output oc)))"
    "lr_parse_failure_rate (ao_output oc) = py_round 4 (if la_records rq = [] then 0
        else rnd (of_nat (length (lr_quarantined (ao_output oc))) / of_nat (length (la_records rq))))"
    using assms unfolding analyze_def Let_def tr and_then.simps by auto
  ultimately show ?thesis unfolding Let_def by (auto simp: py_round_nonneg py_round_le_1 analysis_confidence_def[of "[]"])
qed


section \<open>A source that fails costs only itself\<close>

definition failure_of :: "time_window option \<Rightarrow> log_source \<Rightarrow> log_fetch_failure option" where
  "failure_of window s = (case fetch s window of Inl detail \<Rightarrow> Some \<lparr>lf_source_id = ls_source_id s, lf_reason = ''error'', lf_detail = detail\<rparr> | Inr r \<Rightarrow> fr_failure r)"

definition records_of :: "time_window option \<Rightarrow> log_source \<Rightarrow> raw_log_record list" where
  "records_of window s = (case fetch s window of Inl _ \<Rightarrow> [] | Inr r \<Rightarrow> if fetch_ok r then fr_records r else [])"

text \<open>
  A source that fails costs only itself: collecting gives the records of all sources that can be read, in order, and one failure for each of the
  others, whether it reported the failure or raised.
\<close>
theorem collect_isolates_failures:
  "collect_logs window sources = (concat (map (records_of window) sources), List.map_filter (failure_of window) sources)"
proof (induction sources)
  case (Cons s ss)
  show ?case
  proof (cases "fetch s window")
    case (Inr r)
    then show ?thesis using Cons by (cases "fr_failure r") (simp_all add: records_of_def failure_of_def fetch_ok_def List.map_filter_simps)
  qed (simp add: Cons records_of_def failure_of_def List.map_filter_simps)
qed (simp add: List.map_filter_simps)


section \<open>Impossible dates, and line numbers\<close>

definition sample_raw :: "string \<Rightarrow> raw_log_record" where
  "sample_raw content = \<lparr>rl_record_id = ''r'', rl_source_id = ''s'', rl_source_kind = Kind_File, rl_content = content, rl_raw_ref = None,
     rl_received_at = Some 0, rl_declared_format = None\<rparr>"

lemma traverse_stops: "x \<in> set xs \<Longrightarrow> f x = Inl e \<Longrightarrow> \<exists>e'. traverse f xs = Inl e'"
proof (induction xs)
  case (Cons y ys)
  then show ?case by (cases "f y") auto
qed simp

text \<open>C28: 
  One line aborts the analysis: a request that contains, anywhere among its records, a classic syslog line dated with a day or a time that does not exist makes the
  whole analysis raise and lose every other record, although the agent promises to quarantine what it cannot parse.
\<close>
theorem impossible_date_aborts_analysis:
  assumes "r \<in> set (la_records rq)" "rl_content r = render_rfc3164 (syslog_stamp mon dd hh mm ss) hst tag msg" "rl_declared_format r = None"
    and "(mon, n) \<in> set SYSLOG_MONTHS" "syslog_clock dd hh mm ss" "plain_token hst" "plain_tag tag" "one_line msg"
    and "fromisoformat lib (syslog_stamp mon dd hh mm ss) = None"
    and "utc_datetime (case rl_received_at r of Some t \<Rightarrow> year_of lib t | None \<Rightarrow> this_year lib) n (int_of_digits dd) (int_of_digits hh) (int_of_digits mm)
      (int_of_digits ss) = Inl Value_Error"
  shows "\<exists>e. analyze isoformat lib (DEFAULT_PARSERS lib) window rq failures = Inl e"
proof -
  have "normalize lib (DEFAULT_PARSERS lib) r = Inl Value_Error"
    unfolding normalize_def impossible_date_raises[OF assms(4-8,2,3,9,10)] by simp
  from traverse_stops[where f = "normalize lib (DEFAULT_PARSERS lib)", OF assms(1) this] obtain e where "traverse (normalize lib (DEFAULT_PARSERS lib)) (la_records rq) = Inl e" by blast
  then show ?thesis by (simp add: analyze_def)
qed

text \<open>
  The reference of a record counts the lines that are not blank, so after a blank line it points at the wrong one: the third line of this file is
  recorded as its second.
\<close>

lemma blank_line_shifts_reference:
  "map (\<lambda>r. (rl_content r, rl_raw_ref r)) (case fetch (file_source ''s'' Kind_File None 10 ''f'' (Inr (''a'' @ [CHR 0x0A, CHR 0x0A] @ ''b'')) 0) None of
     Inr r \<Rightarrow> fr_records r | Inl _ \<Rightarrow> []) = [(''a'', Some ''f#L1''), (''b'', Some ''f#L2'')]"
  "splitlines (''a'' @ [CHR 0x0A, CHR 0x0A] @ ''b'') ! 2 = ''b''"
  by code_simp+


section \<open>Witnesses\<close>

definition sample_analysis :: log_analysis_request where
  "sample_analysis = \<lparr>la_investigation_id = ''i'', la_records = [sample_raw []], la_time_window = None, la_requested_sources = [''s'']\<rparr>"

lemma sample_normalized: "normalize lib parsers (sample_raw []) = Inr None"
  by (simp add: normalize_def parse_record_def sample_raw_def strip_by_def)

lemma sample_analyzed:
  obtains oc where "analyze show_int sample_lib (DEFAULT_PARSERS sample_lib) 10 sample_analysis [] = Inr oc"
    "length (lr_quarantined (ao_output oc)) = 1" "lr_events (ao_output oc) = []"
proof -
  have "\<exists>oc. analyze show_int sample_lib (DEFAULT_PARSERS sample_lib) 10 sample_analysis [] = Inr oc
      \<and> length (lr_quarantined (ao_output oc)) = 1 \<and> lr_events (ao_output oc) = []"
    unfolding analyze_def by (simp add: sample_analysis_def sample_normalized Let_def List.map_filter_simps)
  then show thesis using that by blast
qed

theorem impossible_date_aborts_analysis_witness:
  "\<exists>e. analyze show_int sample_lib (DEFAULT_PARSERS sample_lib) 10
     (sample_analysis\<lparr>la_records := [sample_raw [], sample_raw (render_rfc3164 (syslog_stamp ''Feb'' ''30'' ''00'' ''00'' ''00'') ''h'' ''t'' ''up'')]\<rparr>) [] = Inl e"
proof -
  let ?r = "sample_raw (render_rfc3164 (syslog_stamp ''Feb'' ''30'' ''00'' ''00'' ''00'') ''h'' ''t'' ''up'')"
  have "utc_datetime 2025 2 (int_of_digits ''30'') (int_of_digits ''00'') (int_of_digits ''00'') (int_of_digits ''00'') = Inl Value_Error" by code_simp
  then show ?thesis
    by (intro impossible_date_aborts_analysis[OF _ _ _ sample_parts(5,4,2,3,1), of ?r]) (simp_all add: sample_raw_def sample_lib_def)
qed

theorem no_record_dropped_witness:
  "\<exists>oc. analyze show_int sample_lib (DEFAULT_PARSERS sample_lib) 10 sample_analysis [] = Inr oc \<and>
     map (\<lambda>q. (qr_record_id q, qr_source_id q, qr_content q)) (lr_quarantined (ao_output oc)) =
     map (\<lambda>r. (rl_record_id r, rl_source_id r, rl_content r)) (filter (\<lambda>r. reading_of (DEFAULT_PARSERS sample_lib) r = None) (la_records sample_analysis))"
proof -
  have "\<not> isl (parse_record (DEFAULT_PARSERS sample_lib) r)" if "r \<in> set (la_records sample_analysis)" for r
  proof -
    have "normalize sample_lib (DEFAULT_PARSERS sample_lib) r = Inr None" using that sample_normalized by (simp add: sample_analysis_def)
    then obtain out where "parse_record (DEFAULT_PARSERS sample_lib) r = Inr out" unfolding normalize_def and_then_Inr by blast
    then show ?thesis by simp
  qed
  then have "list_all (\<lambda>r. \<not> isl (parse_record (DEFAULT_PARSERS sample_lib) r)) (la_records sample_analysis)" by (simp add: list_all_iff)
  from no_record_dropped[OF this, of show_int sample_lib 10 "[]"] show ?thesis unfolding Let_def by blast
qed

theorem gaps_reported_exactly_witness:
  "\<exists>oc. analyze show_int sample_lib (DEFAULT_PARSERS sample_lib) 10 sample_analysis [] = Inr oc \<and>
     sum_list (map cg_affected_records (gaps_of Parse_Failure (ao_output oc))) = 1"
proof -
  obtain oc where run: "analyze show_int sample_lib (DEFAULT_PARSERS sample_lib) 10 sample_analysis [] = Inr oc"
    and one: "length (lr_quarantined (ao_output oc)) = 1" by (rule sample_analyzed)
  from gaps_reported_exactly[OF run] run one show ?thesis unfolding Let_def by (metis (no_types, lifting))
qed

theorem analysis_confidence_is_share_witness:
  "\<exists>oc. analyze show_int sample_lib (DEFAULT_PARSERS sample_lib) 10 sample_analysis [] = Inr oc \<and> lr_confidence (ao_output oc) = 0"
proof -
  obtain oc where run: "analyze show_int sample_lib (DEFAULT_PARSERS sample_lib) 10 sample_analysis [] = Inr oc"
    and none: "lr_events (ao_output oc) = []" by (rule sample_analyzed)
  from analysis_confidence_is_share[OF run] run none show ?thesis by (simp add: Let_def)
qed

end
