(* ===== verification/Tool_Registry.thy ===== *)
theory Tool_Registry
  imports Py_Value
begin

text \<open>
  Tool results and the allow-listed tool registry (\<^verbatim>\<open>tools/base.py\<close>, \<^verbatim>\<open>tools/errors.py\<close>). The handler behind a tool is an
  opaque value here. An operation that raises leaves the registry as it was, because each check precedes the update.
  Shown: whatever was registered and granted before, an agent resolves exactly the tools of its last accepted grant.
\<close>

section \<open>Tool results\<close>

record tool_failure =
  tf_tool :: string
  tf_reason :: string
  tf_detail :: string

definition failure_text :: "tool_failure \<Rightarrow> string" where
  "failure_text f = tf_tool f @ '': '' @ tf_reason f @ (if tf_detail f = [] then [] else '' ('' @ tf_detail f @ '')'')"

record 'v tool_result =
  tr_value :: "'v option"
  tr_failure :: "tool_failure option"

definition tool_ok :: "'v tool_result \<Rightarrow> bool" where
  "tool_ok r = (tr_failure r = None)"

definition unwrap :: "'v tool_result \<Rightarrow> py_error + 'v" where
  "unwrap r = (if tr_failure r \<noteq> None \<or> tr_value r = None then Inl Value_Error else Inr (the (tr_value r)))"

text \<open>\<^verbatim>\<open>succeed\<close> takes whatever the tool returned, \<^verbatim>\<open>None\<close> included.\<close>

definition succeed :: "'v option \<Rightarrow> 'v tool_result" where
  "succeed v = \<lparr>tr_value = v, tr_failure = None\<rparr>"

definition fail :: "string \<Rightarrow> string \<Rightarrow> string \<Rightarrow> 'v tool_result" where
  "fail tool reason detail = \<lparr>tr_value = None, tr_failure = Some \<lparr>tf_tool = tool, tf_reason = reason, tf_detail = detail\<rparr>\<rparr>"


section \<open>The registry\<close>

record 'h tool_spec =
  ts_name :: string
  ts_description :: string
  ts_handler :: 'h

datatype tool_error = Tool_Already_Registered string | Tool_Not_Registered string | Tool_Not_Permitted string

record 'h tool_registry =
  rg_tools :: "(string, 'h tool_spec) dict"
  rg_allow_lists :: "(string, string list) dict"

definition empty_registry :: "'h tool_registry" where
  "empty_registry = \<lparr>rg_tools = [], rg_allow_lists = []\<rparr>"

definition register :: "'h tool_spec \<Rightarrow> 'h tool_registry \<Rightarrow> tool_error + 'h tool_registry" where
  "register spec r = (if map_of (rg_tools r) (ts_name spec) \<noteq> None
     then Inl (Tool_Already_Registered (''tool already registered: '' @ ts_name spec))
     else Inr (r\<lparr>rg_tools := dict_set (ts_name spec) spec (rg_tools r)\<rparr>))"

definition grant :: "string \<Rightarrow> string list \<Rightarrow> 'h tool_registry \<Rightarrow> tool_error + 'h tool_registry" where
  "grant agent tool_names r =
     (let missing = sorted_set (filter (\<lambda>n. map_of (rg_tools r) n = None) tool_names) in
      if missing \<noteq> [] then Inl (Tool_Not_Registered (''unknown tools for '' @ repr_str agent @ '': '' @ join '', '' missing))
      else Inr (r\<lparr>rg_allow_lists := dict_set agent (unique tool_names) (rg_allow_lists r)\<rparr>))"

definition allowed :: "string \<Rightarrow> 'h tool_registry \<Rightarrow> string set" where
  "allowed agent r = (case map_of (rg_allow_lists r) agent of None \<Rightarrow> {} | Some ns \<Rightarrow> set ns)"

definition get_tool :: "string \<Rightarrow> string \<Rightarrow> 'h tool_registry \<Rightarrow> tool_error + 'h tool_spec" where
  "get_tool agent name r = (case map_of (rg_tools r) name of
     None \<Rightarrow> Inl (Tool_Not_Registered (''unknown tool: '' @ name))
   | Some spec \<Rightarrow>
       if name \<in> allowed agent r then Inr spec
       else Inl (Tool_Not_Permitted (''agent '' @ repr_str agent @ '' may not invoke tool '' @ repr_str name)))"

definition tool_names :: "'h tool_registry \<Rightarrow> string list" where
  "tool_names r = sort (map fst (rg_tools r))"

record tool_call =
  tl_tool :: string
  tl_ok :: bool
  tl_detail :: string

definition record_call :: "string \<Rightarrow> bool \<Rightarrow> string \<Rightarrow> tool_call list \<Rightarrow> tool_call list" where
  "record_call tool ok detail calls = calls @ [\<lparr>tl_tool = tool, tl_ok = ok, tl_detail = detail\<rparr>]"

definition failed_calls :: "tool_call list \<Rightarrow> tool_call list" where
  "failed_calls calls = filter (\<lambda>c. \<not> tl_ok c) calls"


section \<open>Least privilege\<close>

text \<open>The registries a program can build: any sequence of the two operations, the refused ones changing nothing.\<close>

inductive built :: "'h tool_registry \<Rightarrow> bool" where
  empty: "built empty_registry"
| registered: "built r \<Longrightarrow> register spec r = Inr r' \<Longrightarrow> built r'"
| granted: "built r \<Longrightarrow> grant agent names r = Inr r' \<Longrightarrow> built r'"

definition registry_ok :: "'h tool_registry \<Rightarrow> bool" where
  "registry_ok r = ((\<forall>n spec. map_of (rg_tools r) n = Some spec \<longrightarrow> ts_name spec = n) \<and> distinct (map fst (rg_tools r)) \<and>
     (\<forall>agent. allowed agent r \<subseteq> dom (map_of (rg_tools r))))"

lemma grant_Inr: "grant agent names r = Inr r' \<longleftrightarrow>
    set names \<subseteq> dom (map_of (rg_tools r)) \<and> r' = r\<lparr>rg_allow_lists := dict_set agent (unique names) (rg_allow_lists r)\<rparr>"
proof -
  have empty: "sorted_set xs = [] \<longleftrightarrow> xs = []" for xs :: "string list"
    using sorted_set_facts(1)[of xs] by (metis set_empty)
  have "filter (\<lambda>n. map_of (rg_tools r) n = None) names = [] \<longleftrightarrow> set names \<subseteq> dom (map_of (rg_tools r))"
    unfolding filter_empty_conv by blast
  then have "sorted_set (filter (\<lambda>n. map_of (rg_tools r) n = None) names) = [] \<longleftrightarrow> set names \<subseteq> dom (map_of (rg_tools r))"
    unfolding empty .
  then show ?thesis by (auto simp: grant_def Let_def)
qed

lemma register_Inr: "register spec r = Inr r' \<longleftrightarrow>
    map_of (rg_tools r) (ts_name spec) = None \<and> r' = r\<lparr>rg_tools := dict_set (ts_name spec) spec (rg_tools r)\<rparr>"
  by (auto simp: register_def)

lemma allowed_grant: "grant agent names r = Inr r' \<Longrightarrow> allowed x r' = (if x = agent then set names else allowed x r)"
  by (simp add: grant_Inr allowed_def dict_facts)

lemma allowed_register: "register spec r = Inr r' \<Longrightarrow> allowed x r' = allowed x r"
  by (auto simp: register_Inr allowed_def)

lemma built_ok: "built r \<Longrightarrow> registry_ok r"
proof (induction rule: built.induct)
  case empty
  then show ?case by (simp add: registry_ok_def empty_registry_def allowed_def)
next
  case (registered r spec r')
  then have r': "r' = r\<lparr>rg_tools := dict_set (ts_name spec) spec (rg_tools r)\<rparr>" by (simp add: register_Inr)
  have "dom (map_of (rg_tools r)) \<subseteq> dom (map_of (rg_tools r'))" by (auto simp: r' dict_facts split: if_splits)
  then have "\<forall>agent. allowed agent r' \<subseteq> dom (map_of (rg_tools r'))"
    using registered.IH unfolding registry_ok_def allowed_register[OF registered(2)] by blast
  moreover have "\<forall>n x. map_of (rg_tools r') n = Some x \<longrightarrow> ts_name x = n" "distinct (map fst (rg_tools r'))"
    using registered.IH by (auto simp: registry_ok_def r' dict_facts dict_set_distinct)
  ultimately show ?case by (simp add: registry_ok_def)
next
  case (granted r agent names r')
  then have r': "rg_tools r' = rg_tools r" "set names \<subseteq> dom (map_of (rg_tools r))" by (simp_all add: grant_Inr)
  with granted allowed_grant[OF granted(2)] show ?case by (auto simp: registry_ok_def split: if_splits)
qed

section \<open>What an agent may invoke, read off the history\<close>

text \<open>The calls a program makes on its registry, the most recent first; a call that raises leaves the registry as it was.\<close>

datatype 'h registry_call = Register "'h tool_spec" | Grant string "string list"

definition apply_call :: "'h registry_call \<Rightarrow> 'h tool_registry \<Rightarrow> 'h tool_registry" where
  "apply_call call r = (case (case call of Register spec \<Rightarrow> register spec r | Grant agent names \<Rightarrow> grant agent names r) of
     Inl _ \<Rightarrow> r | Inr r' \<Rightarrow> r')"

fun registry_after :: "'h registry_call list \<Rightarrow> 'h tool_registry" where
  "registry_after [] = empty_registry"
| "registry_after (call # earlier) = apply_call call (registry_after earlier)"

text \<open>The tool a name stands for is the first one registered under it.\<close>

fun first_registered :: "'h registry_call list \<Rightarrow> string \<Rightarrow> 'h tool_spec option" where
  "first_registered [] name = None"
| "first_registered (call # earlier) name = (case first_registered earlier name of Some spec \<Rightarrow> Some spec
     | None \<Rightarrow> (case call of Register spec \<Rightarrow> if ts_name spec = name then Some spec else None | Grant _ _ \<Rightarrow> None))"

text \<open>The last grant made to an agent whose every name was registered by then; a grant that names an unknown tool does not count.\<close>

fun last_grant :: "'h registry_call list \<Rightarrow> string \<Rightarrow> string list" where
  "last_grant [] agent = []"
| "last_grant (Register _ # earlier) agent = last_grant earlier agent"
| "last_grant (Grant a names # earlier) agent =
     (if a = agent \<and> list_all (\<lambda>n. first_registered earlier n \<noteq> None) names then names else last_grant earlier agent)"

lemma built_after: "built (registry_after calls)"
  by (induction calls) (auto simp: apply_call_def built.empty split: registry_call.splits sum.splits intro: built.registered built.granted)

lemma tools_after: "map_of (rg_tools (registry_after calls)) = first_registered calls"
proof (induction calls)
  case (Cons call calls)
  then show ?case
    by (cases call) (auto simp: apply_call_def register_def grant_def Let_def dict_facts fun_eq_iff split: option.splits)
qed (simp add: empty_registry_def fun_eq_iff)

lemma allowed_after: "allowed agent (registry_after calls) = set (last_grant calls agent)"
proof (induction calls)
  case (Cons call calls)
  note tools = tools_after[of calls]
  show ?case
  proof (cases call)
    case (Register spec)
    then show ?thesis using Cons by (auto simp: apply_call_def allowed_register split: sum.split)
  next
    case (Grant a names)
    have known: "list_all (\<lambda>n. first_registered calls n \<noteq> None) names \<longleftrightarrow> set names \<subseteq> dom (map_of (rg_tools (registry_after calls)))"
      unfolding tools list_all_iff by blast
    show ?thesis
    proof (cases "grant a names (registry_after calls)")
      case (Inl e)
      then have "\<not> set names \<subseteq> dom (map_of (rg_tools (registry_after calls)))" by (metis Inl_Inr_False grant_Inr)
      then show ?thesis using Cons Grant Inl known by (simp add: apply_call_def)
    next
      case (Inr r')
      then have "set names \<subseteq> dom (map_of (rg_tools (registry_after calls)))" by (simp add: grant_Inr)
      then show ?thesis using Cons Grant Inr known allowed_grant[OF Inr] by (simp add: apply_call_def)
    qed
  qed
qed (simp add: empty_registry_def allowed_def)

text \<open>C39: 
  The registry denies by default. Whatever registrations and grants a program has made, refused ones included, an agent resolves a name exactly to the first tool
  registered under it, and only when the name is on the list last granted to that agent in a grant that was accepted; a name no tool has is refused as unknown, any other
  name, and every name for an agent never granted anything, as not permitted.
\<close>
theorem tool_denied_by_default:
  "get_tool agent name (registry_after calls) = (case first_registered calls name of
     None \<Rightarrow> Inl (Tool_Not_Registered (''unknown tool: '' @ name))
   | Some spec \<Rightarrow>
       if name \<in> set (last_grant calls agent) then Inr spec
       else Inl (Tool_Not_Permitted (''agent '' @ repr_str agent @ '' may not invoke tool '' @ repr_str name)))"
  unfolding get_tool_def tools_after allowed_after ..

text \<open>A tool is named as it is registered, and what is granted is registered.\<close>

lemma granted_tools_exist:
  "set (last_grant calls agent) \<subseteq> dom (first_registered calls)" "first_registered calls name = Some spec \<Longrightarrow> ts_name spec = name"
  using built_ok[OF built_after[of calls]] by (auto simp: registry_ok_def tools_after allowed_after)

text \<open>A result that says it is ok can still have no value: success with nothing raises when it is unwrapped.\<close>

lemma ok_without_value: "tool_ok (succeed None) \<and> unwrap (succeed None :: 'v tool_result) = Inl Value_Error"
  by (simp add: tool_ok_def succeed_def unwrap_def)

end
