(* ===== verification/Chunking.thy ===== *)
theory Chunking
  imports Domain Regex Py_Value
begin

text \<open>
  Chunking of knowledge documents (\<^verbatim>\<open>rag/chunking.py\<close>) and the contracts it works on (\<^verbatim>\<open>models/knowledge.py\<close>). The loop that splits an
  oversized section is a terminating recursion on positions. Shown: the loop makes progress in every round, its parts leave no gap and respect the
  size limit, and the chunks of a document are numbered consecutively and cover all of it.
\<close>

section \<open>Contracts\<close>

datatype knowledge_source_kind = Src_Nvd | Src_Mitre_Attack | Src_Advisory | Src_Internal_Runbook

record chunk_metadata =
  md_source_kind :: knowledge_source_kind
  md_source_id :: string
  md_source_name :: string
  md_trust_tier :: source_trust_tier
  md_source_version :: "string option"
  md_published_at :: "time option"
  md_updated_at :: "time option"
  md_cve_id :: "string option"
  md_cwe_id :: "string option"
  md_technique_id :: "string option"
  md_products :: "string list"
  md_url :: "string option"
  md_extra :: mapping

record source_document =
  sd_document_id :: string
  sd_title :: string
  sd_content :: string
  sd_metadata :: chunk_metadata

record knowledge_chunk_record =
  kr_chunk_id :: string
  kr_document_id :: string
  kr_title :: "string option"
  kr_content :: string
  kr_metadata :: chunk_metadata
  kr_ordinal :: nat
  kr_parent_chunk_id :: "string option"
  kr_index_version :: "string option"


section \<open>Cleaning and sections\<close>

abbreviation LF :: char where "LF \<equiv> CHR 0x0A"
abbreviation CR :: char where "CR \<equiv> CHR 0x0D"
abbreviation TAB :: char where "TAB \<equiv> CHR 0x09"

text \<open>\<^verbatim>\<open>text.replace("\r\n", "\n").replace("\r", "\n")\<close>.\<close>

fun unify_newlines :: "string \<Rightarrow> string" where
  "unify_newlines [] = []"
| "unify_newlines [c] = [if c = CR then LF else c]"
| "unify_newlines (c # d # cs) = (if c = CR \<and> d = LF then LF # unify_newlines cs else (if c = CR then LF else c) # unify_newlines (d # cs))"

lemma dropWhile_shorter [termination_simp]: "length (dropWhile p xs) < Suc (length xs)"
  by (simp add: length_dropWhile_le le_imp_less_Suc)

text \<open>A run of spaces and tabs becomes one space.\<close>

fun collapse_spaces :: "string \<Rightarrow> string" where
  "collapse_spaces [] = []"
| "collapse_spaces (c # cs) = (if c = CHR '' '' \<or> c = TAB then CHR '' '' # collapse_spaces (dropWhile (\<lambda>d. d = CHR '' '' \<or> d = TAB) cs) else c # collapse_spaces cs)"

text \<open>Three or more newlines become two.\<close>

fun collapse_blank_lines :: "string \<Rightarrow> string" where
  "collapse_blank_lines [] = []"
| "collapse_blank_lines (c # cs) =
     (if c = LF \<and> prefix [LF, LF] cs then [LF, LF] @ collapse_blank_lines (dropWhile (\<lambda>d. d = LF) cs) else c # collapse_blank_lines cs)"

definition rstrip :: "string \<Rightarrow> string" where
  "rstrip s = rev (dropWhile is_space (rev s))"

definition clean_text :: "string \<Rightarrow> string" where
  "clean_text text = strip (join [LF] (map rstrip (split_at (\<lambda>c. c = LF) (collapse_blank_lines (collapse_spaces (unify_newlines text))))))"

text \<open>\<^verbatim>\<open>^\s{0,3}#{1,6}\s+\S\<close> with \<^verbatim>\<open>^\<close> at the start of every line.\<close>

fun hashes :: "nat \<Rightarrow> rx" where
  "hashes 0 = Eps"
| "hashes (Suc n) = opt (Cat (Cls (\<lambda>c. c = CHR ''#'')) (hashes n))"

fun up_to_spaces :: "nat \<Rightarrow> rx" where
  "up_to_spaces 0 = Eps"
| "up_to_spaces (Suc n) = opt (Cat (Cls is_space) (up_to_spaces n))"

definition HEADING :: rx where
  "HEADING = seq [At (\<lambda>s i. i = 0 \<or> i \<le> length s \<and> s ! (i - 1) = LF), up_to_spaces 3, Cls (\<lambda>c. c = CHR ''#''), hashes 5, spaces1, Cls (\<lambda>c. \<not> is_space c)]"

text \<open>\<^verbatim>\<open>text.split("\n\n")\<close>.\<close>

fun split_blocks :: "string \<Rightarrow> string list" where
  "split_blocks [] = [[]]"
| "split_blocks [c] = [[c]]"
| "split_blocks (c # d # cs) = (if c = LF \<and> d = LF then [] # split_blocks cs else case split_blocks (d # cs) of [] \<Rightarrow> [[c]] | w # ws \<Rightarrow> (c # w) # ws)"

definition split_sections :: "string \<Rightarrow> string list" where
  "split_sections text =
     filter (\<lambda>s. s \<noteq> []) (case map (\<lambda>ps. ps ! 0) (find_all [HEADING] text) of
       [] \<Rightarrow> map strip (split_blocks text)
     | h # hs \<Rightarrow> let boundaries = (if h > 0 then [0] else []) @ h # hs in
         map (\<lambda>(start, stop). strip (slice text start stop)) (zip boundaries (tl boundaries @ [length text])))"


section \<open>The chunker\<close>

record chunker =
  max_characters :: nat
  overlap_characters :: nat

datatype chunk_error = Overlap_Too_Large

definition Chunker :: "nat \<Rightarrow> nat \<Rightarrow> chunk_error + chunker" where
  "Chunker m ov = (if m \<le> ov then Inl Overlap_Too_Large else Inr \<lparr>max_characters = m, overlap_characters = ov\<rparr>)"

definition chunker_ok :: "chunker \<Rightarrow> bool" where
  "chunker_ok c = (overlap_characters c < max_characters c)"

fun pack_from :: "nat \<Rightarrow> string \<Rightarrow> string list \<Rightarrow> string list" where
  "pack_from m buffer [] = (if buffer = [] then [] else [buffer])"
| "pack_from m buffer (section # sections) =
     (if buffer = [] then pack_from m section sections
      else if length buffer + length section + 2 \<le> m then pack_from m (buffer @ [LF, LF] @ section) sections
      else buffer # pack_from m section sections)"

abbreviation pack :: "chunker \<Rightarrow> string list \<Rightarrow> string list" where
  "pack c \<equiv> pack_from (max_characters c) []"

text \<open>\<^verbatim>\<open>section.rfind(" ", low, high)\<close>, where it finds one.\<close>

definition rfind_space :: "string \<Rightarrow> nat \<Rightarrow> nat \<Rightarrow> nat option" where
  "rfind_space s low high = (case filter (\<lambda>i. s ! i = CHR '' '') [low..<min high (length s)] of [] \<Rightarrow> None | ks \<Rightarrow> Some (last ks))"

definition part_end :: "chunker \<Rightarrow> string \<Rightarrow> nat \<Rightarrow> nat" where
  "part_end c section start =
     (let stop = min (start + max_characters c) (length section) in
      if stop < length section then
        (case rfind_space section (start + (max_characters c - overlap_characters c)) stop of Some b \<Rightarrow> if b > start then b else stop | None \<Rightarrow> stop)
      else stop)"

text \<open>The positions of the parts, in the order in which the loop cuts them.\<close>

function part_spans :: "chunker \<Rightarrow> string \<Rightarrow> nat \<Rightarrow> (nat \<times> nat) list" where
  "part_spans c section start = (if start < length section then
     (let stop = part_end c section start in
      (start, stop) # (if stop \<ge> length section then [] else part_spans c section (max (stop - overlap_characters c) (start + 1)))) else [])"
  by pat_completeness auto
termination
  by (relation "measure (\<lambda>(c, section, start). length section - start)") auto

declare part_spans.simps [simp del]

definition split_oversized :: "chunker \<Rightarrow> string \<Rightarrow> string list" where
  "split_oversized c section = filter (\<lambda>p. p \<noteq> []) (map (\<lambda>(start, stop). strip (slice section start stop)) (part_spans c section 0))"

definition chunk_record :: "source_document \<Rightarrow> string option \<Rightarrow> nat \<times> string \<Rightarrow> knowledge_chunk_record" where
  "chunk_record d parent = (\<lambda>(n, content). \<lparr>kr_chunk_id = sd_document_id d @ ''#'' @ show_nat n, kr_document_id = sd_document_id d, kr_title = Some (sd_title d),
     kr_content = content, kr_metadata = sd_metadata d, kr_ordinal = n, kr_parent_chunk_id = parent, kr_index_version = None\<rparr>)"

definition section_records :: "chunker \<Rightarrow> source_document \<Rightarrow> nat \<Rightarrow> string \<Rightarrow> knowledge_chunk_record list" where
  "section_records c d n section =
     (if length section \<le> max_characters c then [chunk_record d None (n, section)]
      else let parts = split_oversized c section in
        map (chunk_record d (Some (sd_document_id d @ ''#s'' @ show_nat n))) (zip [n..<n + length parts] parts))"

definition chunk :: "chunker \<Rightarrow> source_document \<Rightarrow> knowledge_chunk_record list" where
  "chunk c d = (let content = clean_text (sd_content d) in
     if content = [] then [] else fold (\<lambda>section records. records @ section_records c d (length records) section) (pack c (split_sections content)) [])"


section \<open>The splitting loop\<close>

lemma part_end_bounds:
  assumes "chunker_ok c" "start < length section"
  shows "start < part_end c section start" "part_end c section start \<le> length section" "part_end c section start \<le> start + max_characters c"
proof -
  let ?stop = "min (start + max_characters c) (length section)"
  have stop: "start < ?stop" using assms by (auto simp: chunker_ok_def)
  have found: "b < ?stop" if "rfind_space section low ?stop = Some b" for low b
  proof -
    let ?ks = "filter (\<lambda>i. section ! i = CHR '' '') [low..<min ?stop (length section)]"
    have "?ks \<noteq> []" "b = last ?ks" using that unfolding rfind_space_def by (auto split: list.splits)
    then have "b \<in> set ?ks" using last_in_set by metis
    then show ?thesis by simp
  qed
  have "start < part_end c section start \<and> part_end c section start \<le> ?stop"
  proof (cases "?stop < length section")
    case False
    then have "part_end c section start = ?stop" by (simp only: part_end_def Let_def if_False)
    then show ?thesis using stop by (simp only: order_refl)
  next
    case True
    show ?thesis
    proof (cases "rfind_space section (start + (max_characters c - overlap_characters c)) ?stop")
      case None
      then have "part_end c section start = ?stop" by (simp only: part_end_def Let_def if_True True option.case)
      then show ?thesis using stop by (simp only: order_refl)
    next
      case (Some b)
      then have "part_end c section start = (if b > start then b else ?stop)" by (simp only: part_end_def Let_def if_True True option.case)
      then show ?thesis using stop found[OF Some] by (cases "b > start") (simp_all only: if_True if_False order_refl less_imp_le)
    qed
  qed
  then show "start < part_end c section start" "part_end c section start \<le> length section" "part_end c section start \<le> start + max_characters c"
    by simp_all
qed

lemma part_spans_facts:
  assumes "chunker_ok c" "i < length section"
  shows "length (part_spans c section i) \<le> length section - i \<and> sorted_wrt (<) (map fst (part_spans c section i))
    \<and> list_all (\<lambda>(start, stop). i \<le> start \<and> start < stop \<and> stop \<le> length section \<and> stop - start \<le> max_characters c) (part_spans c section i)
    \<and> (\<Union>(start, stop) \<in> set (part_spans c section i). {start..<stop}) = {i..<length section} \<and> part_spans c section i \<noteq> []
    \<and> snd (last (part_spans c section i)) = length section"
  using assms(2)
  proof (induction "length section - i" arbitrary: i rule: less_induct)
    case less
    define stop where "stop = part_end c section i"
    note b = part_end_bounds[OF assms(1) less.prems, folded stop_def]
    show ?case
    proof (cases "length section \<le> stop")
      case True
      then have "part_spans c section i = [(i, stop)]" by (subst part_spans.simps) (simp add: less.prems stop_def[symmetric] Let_def)
      then show ?thesis using b True by auto
    next
      case False
      let ?next = "max (stop - overlap_characters c) (i + 1)"
      have spans: "part_spans c section i = (i, stop) # part_spans c section ?next"
        by (subst part_spans.simps) (use less.prems False in \<open>simp add: stop_def[symmetric] Let_def\<close>)
      have next_i: "i < ?next" "?next \<le> stop" "?next < length section" using b False by auto
      have IH: "length (part_spans c section ?next) \<le> length section - ?next \<and> sorted_wrt (<) (map fst (part_spans c section ?next))
        \<and> list_all (\<lambda>(start, stop). ?next \<le> start \<and> start < stop \<and> stop \<le> length section \<and> stop - start \<le> max_characters c) (part_spans c section ?next)
        \<and> (\<Union>(start, stop) \<in> set (part_spans c section ?next). {start..<stop}) = {?next..<length section} \<and> part_spans c section ?next \<noteq> []
        \<and> snd (last (part_spans c section ?next)) = length section"
        by (rule less.hyps[OF diff_less_mono2[OF next_i(1) less.prems] next_i(3)])
      define rest where "rest = part_spans c section ?next"
      have "{i..<stop} \<union> {?next..<length section} = {i..<length section}" using next_i b by auto
      moreover have "\<forall>p \<in> set rest. ?next \<le> fst p" using IH unfolding rest_def[symmetric] by (auto simp: list_all_iff)
      ultimately show ?thesis using IH next_i b unfolding spans rest_def[symmetric] by (auto simp: list_all_iff)
    qed
  qed

text \<open>C21: 
  The loop that splits an oversized section ends and loses nothing: it makes at most as many rounds as the section has characters, every part starts after the one
  before and is neither empty nor longer than the limit, every character of the section lies in a part, and the last part ends where the section does.
\<close>
theorem splitting_ends_and_covers:
  assumes "chunker_ok c" "section \<noteq> []"
  shows "let spans = part_spans c section 0 in
    length spans \<le> length section \<and> sorted_wrt (<) (map fst spans)
    \<and> list_all (\<lambda>(start, stop). start < stop \<and> stop \<le> length section \<and> stop - start \<le> max_characters c) spans
    \<and> (\<Union>(start, stop) \<in> set spans. {start..<stop}) = {..<length section} \<and> snd (last spans) = length section"
proof -
  from part_spans_facts[OF assms(1), of 0 "section"] assms(2) show ?thesis by (auto simp: Let_def list_all_iff)
qed

lemma splitting_ends_and_covers_witness:
  "let c = \<lparr>max_characters = 6, overlap_characters = 2\<rparr>; spans = part_spans c ''patch now, then scan'' 0 in
    length spans \<le> length ''patch now, then scan'' \<and> sorted_wrt (<) (map fst spans)
    \<and> list_all (\<lambda>(start, stop). start < stop \<and> stop \<le> length ''patch now, then scan'' \<and> stop - start \<le> max_characters c) spans
    \<and> (\<Union>(start, stop) \<in> set spans. {start..<stop}) = {..<length ''patch now, then scan''} \<and> snd (last spans) = length ''patch now, then scan''"
  using splitting_ends_and_covers[of "\<lparr>max_characters = 6, overlap_characters = 2\<rparr>" "''patch now, then scan''"]
  unfolding Let_def by (simp only: chunker_ok_def chunker.simps) simp


section \<open>The chunks of a document\<close>

lemma split_oversized_bounded:
  assumes "chunker_ok c" "p \<in> set (split_oversized c section)" shows "p \<noteq> [] \<and> length p \<le> max_characters c"
proof -
  from assms(2) obtain start stop where p: "p = strip (slice section start stop)" "p \<noteq> []" and span: "(start, stop) \<in> set (part_spans c section 0)"
    by (auto simp: split_oversized_def)
  have "section \<noteq> []" using span by (subst (asm) part_spans.simps) (auto split: if_splits)
  then have "stop - start \<le> max_characters c" using part_spans_facts[OF assms(1), of 0 "section"] span by (auto simp: list_all_iff)
  moreover have "length (slice section start stop) \<le> stop - start" by (simp add: slice_def)
  ultimately show ?thesis using p strip_by_length[of is_space "slice section start stop"] by simp
qed

lemma section_records_facts:
  assumes "chunker_ok c" "sec \<noteq> []"
  shows "map kr_ordinal (section_records c d n sec) = [n..<n + length (section_records c d n sec)]"
    and "list_all (\<lambda>r. kr_content r \<noteq> [] \<and> length (kr_content r) \<le> max_characters c \<and> kr_chunk_id r = sd_document_id d @ ''#'' @ show_nat (kr_ordinal r)
      \<and> kr_document_id r = sd_document_id d \<and> kr_metadata r = sd_metadata d) (section_records c d n sec)"
proof -
  have ords: "map kr_ordinal (map (chunk_record d parent) (zip [n..<n + length ps] ps)) = [n..<n + length ps]" for parent ps
    by (simp add: chunk_record_def case_prod_unfold comp_def)
  show "map kr_ordinal (section_records c d n sec) = [n..<n + length (section_records c d n sec)]"
    using ords by (simp add: section_records_def Let_def) (simp add: chunk_record_def)
  show "list_all (\<lambda>r. kr_content r \<noteq> [] \<and> length (kr_content r) \<le> max_characters c \<and> kr_chunk_id r = sd_document_id d @ ''#'' @ show_nat (kr_ordinal r)
      \<and> kr_document_id r = sd_document_id d \<and> kr_metadata r = sd_metadata d) (section_records c d n sec)"
  proof (cases "length sec \<le> max_characters c")
    case True
    then show ?thesis using assms(2) by (simp add: section_records_def chunk_record_def)
  next
    case False
    have "list_all (\<lambda>r. kr_content r \<in> set ps \<and> kr_chunk_id r = sd_document_id d @ ''#'' @ show_nat (kr_ordinal r) \<and> kr_document_id r = sd_document_id d
        \<and> kr_metadata r = sd_metadata d) (map (chunk_record d parent) (zip ns ps))" for parent ns ps
      by (auto simp: list_all_iff chunk_record_def dest: set_zip_rightD)
    note facts = this[of "split_oversized c sec"]
    show ?thesis unfolding section_records_def Let_def if_not_P[OF False]
    proof (rule list.pred_mono_strong[OF facts], goal_cases)
      case (1 r)
      then have "kr_content r \<in> set (split_oversized c sec)" by simp
      from split_oversized_bounded[OF assms(1) this] 1 show ?case by simp
    qed
  qed
qed

lemma pack_from_nonempty: "list_all (\<lambda>s. s \<noteq> []) ss \<Longrightarrow> list_all (\<lambda>s. s \<noteq> []) (pack_from m buffer ss)"
  by (induction m buffer ss rule: pack_from.induct) auto

lemma split_sections_nonempty: "list_all (\<lambda>s. s \<noteq> []) (split_sections text)"
  unfolding split_sections_def list_all_iff by (simp only: set_filter mem_Collect_eq) blast

lemma chunk_fold_facts:
  assumes "chunker_ok c" "list_all (\<lambda>s. s \<noteq> []) ss" "map kr_ordinal rs = [0..<length rs]" "list_all P rs"
    and P: "P = (\<lambda>r. kr_content r \<noteq> [] \<and> length (kr_content r) \<le> max_characters c \<and> kr_chunk_id r = sd_document_id d @ ''#'' @ show_nat (kr_ordinal r)
      \<and> kr_document_id r = sd_document_id d \<and> kr_metadata r = sd_metadata d)"
  shows "let out = fold (\<lambda>section records. records @ section_records c d (length records) section) ss rs in
    map kr_ordinal out = [0..<length out] \<and> list_all P out"
  using assms(2-4)
proof (induction ss arbitrary: rs)
  case (Cons sec ss)
  let ?new = "section_records c d (length rs) sec"
  have sec: "sec \<noteq> []" using Cons.prems(1) by simp
  note f = section_records_facts[OF assms(1), of sec d "length rs"]
  have "map kr_ordinal (rs @ ?new) = [0..<length (rs @ ?new)]" 
    by (simp only: map_append length_append Cons.prems(2) f(1)[OF sec] upt_add_eq_append[OF le0])
  moreover have "list_all P (rs @ ?new)" using Cons.prems(3) f(2)[OF sec] unfolding P by simp
  ultimately show ?case using Cons.IH[of "rs @ ?new"] Cons.prems(1) by simp
qed (simp add: Let_def)

text \<open>
  The chunks of a document are numbered consecutively from zero, each is addressed by the document and its own number (so no two share an identifier), none is
  empty or longer than the limit, and each carries the document's own metadata, which is what its citation is built from.
\<close>
theorem chunks_addressed_and_bounded:
  assumes "chunker_ok c"
  shows "let rs = chunk c d in map kr_ordinal rs = [0..<length rs] \<and> distinct (map kr_chunk_id rs)
    \<and> list_all (\<lambda>r. kr_content r \<noteq> [] \<and> length (kr_content r) \<le> max_characters c \<and> kr_chunk_id r = sd_document_id d @ ''#'' @ show_nat (kr_ordinal r)
        \<and> kr_document_id r = sd_document_id d \<and> kr_metadata r = sd_metadata d) rs"
proof -
  let ?P = "\<lambda>r. kr_content r \<noteq> [] \<and> length (kr_content r) \<le> max_characters c \<and> kr_chunk_id r = sd_document_id d @ ''#'' @ show_nat (kr_ordinal r)
      \<and> kr_document_id r = sd_document_id d \<and> kr_metadata r = sd_metadata d"
  have f: "map kr_ordinal (chunk c d) = [0..<length (chunk c d)] \<and> list_all ?P (chunk c d)"
  proof (cases "clean_text (sd_content d) = []")
    case True
    then show ?thesis by (simp add: chunk_def)
  next
    case False
    then have e: "chunk c d = fold (\<lambda>section records. records @ section_records c d (length records) section) (pack c (split_sections (clean_text (sd_content d)))) []"
      by (simp only: chunk_def Let_def if_False)
    show ?thesis using chunk_fold_facts[OF assms pack_from_nonempty[OF split_sections_nonempty], of "[]" ?P d] unfolding e Let_def by simp
  qed
  then have "map kr_chunk_id (chunk c d) = map ((\<lambda>n. sd_document_id d @ ''#'' @ show_nat n) \<circ> kr_ordinal) (chunk c d)" by (simp add: list_all_iff)
  also have "\<dots> = map (\<lambda>n. sd_document_id d @ ''#'' @ show_nat n) [0..<length (chunk c d)]" using f by (simp only: flip: map_map)
  finally have "distinct (map kr_chunk_id (chunk c d))" by (simp add: distinct_map inj_on_def show_nat_inj)
  with f show ?thesis by (simp only: Let_def)
qed

definition sample_chunk_metadata :: chunk_metadata where
  "sample_chunk_metadata = \<lparr>md_source_kind = Src_Internal_Runbook, md_source_id = ''internal_runbooks'', md_source_name = ''Internal Runbooks'',
     md_trust_tier = Internal, md_source_version = None, md_published_at = None, md_updated_at = None, md_cve_id = None, md_cwe_id = None,
     md_technique_id = None, md_products = [], md_url = None, md_extra = []\<rparr>"

definition sample_runbook :: source_document where
  "sample_runbook = \<lparr>sd_document_id = ''rb-1'', sd_title = ''Isolate a host'', sd_content = ''Disable the port, then collect memory.'', sd_metadata = sample_chunk_metadata\<rparr>"

lemma chunks_addressed_and_bounded_witness:
  "let c = \<lparr>max_characters = 20, overlap_characters = 4\<rparr>; rs = chunk c sample_runbook in map kr_ordinal rs = [0..<length rs] \<and> distinct (map kr_chunk_id rs)
    \<and> list_all (\<lambda>r. kr_content r \<noteq> [] \<and> length (kr_content r) \<le> max_characters c \<and> kr_chunk_id r = sd_document_id sample_runbook @ ''#'' @ show_nat (kr_ordinal r)
        \<and> kr_document_id r = sd_document_id sample_runbook \<and> kr_metadata r = sd_metadata sample_runbook) rs"
  using chunks_addressed_and_bounded[of "\<lparr>max_characters = 20, overlap_characters = 4\<rparr>" sample_runbook]
  unfolding Let_def by (simp add: chunker_ok_def)

end
