(* ===== verification/Retrieval.thy ===== *)
theory Retrieval
  imports Chunking Float64 Working_Memory "HOL-Library.Multiset" "HOL-Library.List_Lexorder" "HOL-Library.Char_ord" "HOL-Library.Product_Lexorder"
begin

text \<open>
  Hybrid retrieval over the knowledge index (\<^verbatim>\<open>rag/embeddings.py\<close>, \<^verbatim>\<open>rag/index.py\<close>, \<^verbatim>\<open>rag/ranking.py\<close>, \<^verbatim>\<open>rag/retriever.py\<close>,
  \<^verbatim>\<open>rag/citations.py\<close>). The functions of Python's \<^verbatim>\<open>math\<close> and \<^verbatim>\<open>hashlib\<close> modules that the code calls are one argument, the record \<open>libm\<close>.
  Shown: what the two paths find is live, passes every filter and is merged without loss; the ranking is a reordering by score with ties broken by
  identifier, its scores stay between 0 and 1 and age at most halves a score; the context handed out is the longest prefix that fits the budget.
\<close>

section \<open>Library functions\<close>

record libm =
  lm_sqrt :: "pyfloat \<Rightarrow> pyfloat"
  lm_log :: "pyfloat \<Rightarrow> pyfloat"
  lm_pow :: "pyfloat \<Rightarrow> pyfloat \<Rightarrow> pyfloat"
  lm_sha256 :: "string \<Rightarrow> nat list"

datatype rag_error = Embedding_Dimension_Error | Untrusted_Source_Error | Rag_Configuration_Error | Integrity_Error | Multiple_Results_Found | Index_Unavailable


section \<open>Embeddings\<close>

definition token_rx :: "rx list" where
  "token_rx = [Cat (Cls (\<lambda>c. is_lower_az c \<or> is_digit c)) (Star (Cls (\<lambda>c. is_lower_az c \<or> is_digit c \<or> c \<in> set ''._-'')))]"

definition tokenize :: "string \<Rightarrow> string list" where
  "tokenize text = (let s = lower text in map (\<lambda>ps. slice s (ps ! 0) (ps ! 1)) (find_all token_rx s))"

record embedding_provider =
  ep_model :: string
  ep_dimensions :: nat
  ep_embed :: "string \<Rightarrow> pyfloat list"

fun bump :: "string \<Rightarrow> (string, nat) dict \<Rightarrow> (string, nat) dict" where
  "bump t counts = dict_set t (case map_of counts t of None \<Rightarrow> 1 | Some n \<Rightarrow> n + 1) counts"

definition l2_norm :: "libm \<Rightarrow> pyfloat list \<Rightarrow> pyfloat" where
  "l2_norm m v = lm_sqrt m (py_sum (map (\<lambda>x. rnd (x * x)) v))"

definition normalize_vector :: "libm \<Rightarrow> pyfloat list \<Rightarrow> pyfloat list" where
  "normalize_vector m v = (let n = l2_norm m v in if n = 0 then v else map (\<lambda>x. rnd (x / n)) v)"

text \<open>\<^verbatim>\<open>int.from_bytes(digest[:4], "big")\<close>.\<close>

definition big_endian :: "nat list \<Rightarrow> nat" where
  "big_endian bs = foldl (\<lambda>n b. n * 256 + b) 0 bs"

definition add_token :: "libm \<Rightarrow> nat \<Rightarrow> string \<times> nat \<Rightarrow> pyfloat list \<Rightarrow> pyfloat list" where
  "add_token m dims = (\<lambda>(token, count) v.
     let digest = lm_sha256 m token; bucket = big_endian (take 4 digest) mod dims; sign = (if digest ! 4 mod 2 = 0 then 1 else -1) in
     v[bucket := rnd (v ! bucket + sign * rnd (1 + lm_log m (of_nat count)))])"

definition embed :: "libm \<Rightarrow> nat \<Rightarrow> string \<Rightarrow> pyfloat list" where
  "embed m dims text = normalize_vector m (fold (add_token m dims) (fold bump (tokenize text) []) (replicate dims 0))"

definition deterministic_provider :: "libm \<Rightarrow> string \<Rightarrow> int \<Rightarrow> rag_error + embedding_provider" where
  "deterministic_provider m model dims = (if dims \<le> 0 then Inl Embedding_Dimension_Error
     else Inr \<lparr>ep_model = model, ep_dimensions = nat dims, ep_embed = embed m (nat dims)\<rparr>)"

definition build_embedding_provider :: "libm \<Rightarrow> string \<Rightarrow> string \<Rightarrow> rag_error + embedding_provider" where
  "build_embedding_provider m provider model = (if provider = ''deterministic'' then deterministic_provider m model 384 else Inl Rag_Configuration_Error)"

definition cosine_similarity :: "libm \<Rightarrow> pyfloat list \<Rightarrow> pyfloat list \<Rightarrow> rag_error + pyfloat" where
  "cosine_similarity m left right =
     (if length left \<noteq> length right then Inl Embedding_Dimension_Error
      else let dot = py_sum (map (\<lambda>(a, b). rnd (a * b)) (zip left right)); ln = l2_norm m left; rn = l2_norm m right in
        if ln = 0 \<or> rn = 0 then Inr 0 else Inr (rnd (dot / rnd (ln * rn))))"


section \<open>Filters and lexical score\<close>

record retrieval_filters =
  rf_source_kinds :: "knowledge_source_kind list"
  rf_cve_ids :: "string list"
  rf_technique_ids :: "string list"
  rf_products :: "string list"
  rf_published_after :: "time option"
  rf_minimum_trust :: "source_trust_tier option"

definition no_filters :: retrieval_filters where
  "no_filters = \<lparr>rf_source_kinds = [], rf_cve_ids = [], rf_technique_ids = [], rf_products = [], rf_published_after = None, rf_minimum_trust = None\<rparr>"

definition filters_empty :: "retrieval_filters \<Rightarrow> bool" where
  "filters_empty f = (rf_source_kinds f = [] \<and> rf_cve_ids f = [] \<and> rf_technique_ids f = [] \<and> rf_products f = [] \<and> rf_published_after f = None \<and> rf_minimum_trust f = None)"

fun trust_rank :: "source_trust_tier \<Rightarrow> nat" where
  "trust_rank Authoritative = 0"
| "trust_rank Vendor = 1"
| "trust_rank Community = 2"
| "trust_rank Internal = 3"

definition matches_filters :: "'a knowledge_chunk_record_scheme \<Rightarrow> retrieval_filters \<Rightarrow> bool" where
  "matches_filters r f = (let md = kr_metadata r in
     if rf_source_kinds f \<noteq> [] \<and> md_source_kind md \<notin> set (rf_source_kinds f) then False
     else if rf_cve_ids f \<noteq> [] \<and> or_empty (md_cve_id md) \<notin> set (rf_cve_ids f) then False
     else if rf_technique_ids f \<noteq> [] \<and> or_empty (md_technique_id md) \<notin> set (rf_technique_ids f) then False
     else if rf_products f \<noteq> [] \<and> set (rf_products f) \<inter> set (md_products md) = {} then False
     else if (case rf_published_after f of None \<Rightarrow> False | Some after \<Rightarrow> case md_published_at md of None \<Rightarrow> True | Some p \<Rightarrow> p < after) then False
     else \<not> (case rf_minimum_trust f of None \<Rightarrow> False | Some t \<Rightarrow> trust_rank (md_trust_tier md) > trust_rank t))"

definition keyword_overlap_score :: "string \<Rightarrow> 'a knowledge_chunk_record_scheme \<Rightarrow> pyfloat" where
  "keyword_overlap_score query r = (let qs = set (tokenize query) in
     if qs = {} then 0
     else let found = set (tokenize (or_empty (kr_title r) @ '' '' @ kr_content r)); score = rnd (of_nat (card (qs \<inter> found)) / of_nat (card qs)); md = kr_metadata r;
              identifiers = set (map lower (filter (\<lambda>v. v \<noteq> []) (map or_empty [md_cve_id md, md_technique_id md, md_cwe_id md])) @ map lower (md_products md)) in
       if identifiers \<inter> qs \<noteq> {} then rnd (score + 1) else score)"


section \<open>The index in process\<close>

record embedded_chunk = knowledge_chunk_record +
  ec_embedding :: "pyfloat list"

record memory_index =
  mi_chunks :: "embedded_chunk list"
  mi_active :: "(string, string) dict"

definition empty_index :: memory_index where
  "empty_index = \<lparr>mi_chunks = [], mi_active = []\<rparr>"

definition mi_add_chunks :: "embedded_chunk list \<Rightarrow> string \<Rightarrow> memory_index \<Rightarrow> nat \<times> memory_index" where
  "mi_add_chunks chunks version ix = (length chunks, ix\<lparr>mi_chunks := mi_chunks ix @ map (kr_index_version_update (\<lambda>_. Some version)) chunks\<rparr>)"

definition mi_active_version :: "string \<Rightarrow> memory_index \<Rightarrow> string option" where
  "mi_active_version source ix = map_of (mi_active ix) source"

definition mi_activate_version :: "string \<Rightarrow> string \<Rightarrow> memory_index \<Rightarrow> nat \<times> memory_index" where
  "mi_activate_version source version ix =
     (case mi_active_version source ix of None \<Rightarrow> 0
      | Some previous \<Rightarrow> if previous = version then 0
          else length (filter (\<lambda>c. md_source_id (kr_metadata c) = source \<and> kr_index_version c = Some previous) (mi_chunks ix)),
      ix\<lparr>mi_active := dict_set source version (mi_active ix)\<rparr>)"

definition live_chunks :: "memory_index \<Rightarrow> embedded_chunk list" where
  "live_chunks ix = filter (\<lambda>c. mi_active_version (md_source_id (kr_metadata c)) ix = kr_index_version c) (mi_chunks ix)"

text \<open>Best score first, ties by chunk identifier.\<close>

definition by_score :: "'a knowledge_chunk_record_scheme \<times> pyfloat \<Rightarrow> pyfloat \<times> string" where
  "by_score = (\<lambda>(c, score). (- score, kr_chunk_id c))"

definition best :: "nat \<Rightarrow> ('a knowledge_chunk_record_scheme \<times> pyfloat) list \<Rightarrow> (knowledge_chunk_record \<times> pyfloat) list" where
  "best limit scored = [(knowledge_chunk_record.truncate c, score). (c, score) \<leftarrow> take limit (sort_key by_score scored), score > 0]"

definition mi_dense_search :: "libm \<Rightarrow> pyfloat list \<Rightarrow> retrieval_filters \<Rightarrow> nat \<Rightarrow> memory_index \<Rightarrow> rag_error + (knowledge_chunk_record \<times> pyfloat) list" where
  "mi_dense_search m v f limit ix =
     and_then (traverse (\<lambda>c. and_then (cosine_similarity m v (ec_embedding c)) (\<lambda>score. Inr (c, score))) (filter (\<lambda>c. matches_filters c f) (live_chunks ix)))
       (\<lambda>scored. Inr (best limit scored))"

definition mi_keyword_search :: "string \<Rightarrow> retrieval_filters \<Rightarrow> nat \<Rightarrow> memory_index \<Rightarrow> (knowledge_chunk_record \<times> pyfloat) list" where
  "mi_keyword_search query f limit ix = best limit (map (\<lambda>c. (c, keyword_overlap_score query c)) (filter (\<lambda>c. matches_filters c f) (live_chunks ix)))"

definition mi_get_chunk :: "string \<Rightarrow> memory_index \<Rightarrow> knowledge_chunk_record option" where
  "mi_get_chunk i ix = map_option knowledge_chunk_record.truncate (find (\<lambda>c. kr_chunk_id c = i) (mi_chunks ix))"


section \<open>Fusion and ranking\<close>

datatype retrieval_path = Dense_Path | Keyword_Path

record retrieved_chunk =
  rt_chunk :: knowledge_chunk_record
  rt_dense_score :: pyfloat
  rt_keyword_score :: pyfloat
  rt_freshness_weight :: pyfloat
  rt_trust_weight :: pyfloat
  rt_score :: pyfloat
  rt_matched_by :: "retrieval_path list"

abbreviation rt_id :: "retrieved_chunk \<Rightarrow> string" where "rt_id i \<equiv> kr_chunk_id (rt_chunk i)"

definition DENSE_WEIGHT :: pyfloat where "DENSE_WEIGHT = rnd (45 / 100)"
definition KEYWORD_WEIGHT :: pyfloat where "KEYWORD_WEIGHT = rnd (55 / 100)"
definition FRESHNESS_FLOOR :: pyfloat where "FRESHNESS_FLOOR = 1 / 2"

fun trust_weight :: "source_trust_tier \<Rightarrow> pyfloat" where
  "trust_weight Authoritative = 1"
| "trust_weight Vendor = rnd (9 / 10)"
| "trust_weight Community = 3 / 4"
| "trust_weight Internal = rnd (85 / 100)"

definition freshness_weight :: "libm \<Rightarrow> pyfloat \<Rightarrow> time \<Rightarrow> time option \<Rightarrow> pyfloat" where
  "freshness_weight m half_life now published =
     (case published of None \<Rightarrow> 1
      | Some p \<Rightarrow> let age_days = rnd (rnd (of_int (now - p) / 1000000) / 86400) in
          if age_days \<le> 0 then 1 else lm_pow m (1 / 2) (rnd (age_days / half_life)))"

definition found_by :: "retrieval_path \<Rightarrow> knowledge_chunk_record \<Rightarrow> pyfloat \<Rightarrow> retrieved_chunk" where
  "found_by path r score = \<lparr>rt_chunk = r, rt_dense_score = (if path = Dense_Path then score else 0), rt_keyword_score = (if path = Keyword_Path then score else 0),
     rt_freshness_weight = 1, rt_trust_weight = 1, rt_score = 0, rt_matched_by = [path]\<rparr>"

definition merge_dense :: "knowledge_chunk_record \<times> pyfloat \<Rightarrow> (string, retrieved_chunk) dict \<Rightarrow> (string, retrieved_chunk) dict" where
  "merge_dense = (\<lambda>(r, score) merged. dict_set (kr_chunk_id r) (found_by Dense_Path r score) merged)"

definition merge_keyword :: "knowledge_chunk_record \<times> pyfloat \<Rightarrow> (string, retrieved_chunk) dict \<Rightarrow> (string, retrieved_chunk) dict" where
  "merge_keyword = (\<lambda>(r, score) merged. dict_set (kr_chunk_id r)
     (case map_of merged (kr_chunk_id r) of None \<Rightarrow> found_by Keyword_Path r score
      | Some item \<Rightarrow> item\<lparr>rt_keyword_score := score, rt_matched_by := rt_matched_by item @ [Keyword_Path]\<rparr>) merged)"

definition fuse :: "(knowledge_chunk_record \<times> pyfloat) list \<Rightarrow> (knowledge_chunk_record \<times> pyfloat) list \<Rightarrow> retrieved_chunk list" where
  "fuse dense keyword = map snd (fold merge_keyword keyword (fold merge_dense dense []))"

definition normalize_scores :: "pyfloat list \<Rightarrow> pyfloat list" where
  "normalize_scores scores = (if scores = [] then []
     else let highest = Max (set scores) in if highest \<le> 0 then map (\<lambda>_. 0) scores else map (\<lambda>s. rnd (s / highest)) scores)"

definition rank_item :: "libm \<Rightarrow> pyfloat \<Rightarrow> time \<Rightarrow> pyfloat \<Rightarrow> pyfloat \<Rightarrow> retrieved_chunk \<Rightarrow> retrieved_chunk" where
  "rank_item m half_life now nd nk item =
     (let md = kr_metadata (rt_chunk item); fresh = freshness_weight m half_life now (md_published_at md); trust = trust_weight (md_trust_tier md);
          relevance = rnd (rnd (DENSE_WEIGHT * nd) + rnd (KEYWORD_WEIGHT * nk));
          applied = rnd (FRESHNESS_FLOOR + rnd (rnd (1 - FRESHNESS_FLOOR) * fresh)) in
      item\<lparr>rt_freshness_weight := fresh, rt_trust_weight := trust, rt_score := rnd (rnd (relevance * applied) * trust)\<rparr>)"

text \<open>The clock is read once per candidate, \<open>now n\<close> for the \<open>n\<close>-th, as \<^verbatim>\<open>freshness_weight\<close> does when it is given no time.\<close>

definition rank :: "libm \<Rightarrow> pyfloat \<Rightarrow> (nat \<Rightarrow> time) \<Rightarrow> retrieved_chunk list \<Rightarrow> retrieved_chunk list" where
  "rank m half_life now candidates =
     (let nd = normalize_scores (map rt_dense_score candidates); nk = normalize_scores (map rt_keyword_score candidates) in
      sort_key (\<lambda>i. (- rt_score i, rt_id i)) (map (\<lambda>(n, item). rank_item m half_life (now n) (nd ! n) (nk ! n) item) (enumerate 0 candidates)))"

fun take_from :: "nat \<Rightarrow> nat \<Rightarrow> bool \<Rightarrow> retrieved_chunk list \<Rightarrow> retrieved_chunk list" where
  "take_from budget used some_selected [] = []"
| "take_from budget used some_selected (i # is) =
     (let cost = estimate_tokens (kr_content (rt_chunk i)) in
      if some_selected \<and> used + cost > budget then [] else i # take_from budget (used + cost) True is)"

definition take_within_budget :: "nat \<Rightarrow> nat \<Rightarrow> retrieved_chunk list \<Rightarrow> retrieved_chunk list" where
  "take_within_budget top_k budget ranked = take_from budget 0 False (take top_k ranked)"

definition expand_query :: "string \<Rightarrow> string list \<Rightarrow> string list \<Rightarrow> string list \<Rightarrow> string list \<Rightarrow> string" where
  "expand_query query assets iocs techniques cves = join '' '' (filter (\<lambda>p. p \<noteq> []) (strip query # assets @ iocs @ techniques @ cves))"


section \<open>Citations\<close>

definition bind_citation :: "knowledge_chunk_record \<Rightarrow> citation" where
  "bind_citation r = (let md = kr_metadata r in
     \<lparr>cit_source_id = md_source_id md, cit_source = md_source_name md, cit_url = md_url md, cit_chunk_id = Some (kr_chunk_id r), cit_title = kr_title r,
      cit_trust_tier = Some (md_trust_tier md), cit_published_at = md_published_at md\<rparr>)"

definition cite_key :: "citation \<Rightarrow> string" where
  "cite_key c = (case cit_chunk_id c of Some (x # xs) \<Rightarrow> x # xs | _ \<Rightarrow> cit_source_id c)"

definition bind_citations :: "retrieved_chunk list \<Rightarrow> citation list" where
  "bind_citations chunks = dedup_by cite_key [] (map (bind_citation \<circ> rt_chunk) chunks)"

definition resolve :: "(string \<Rightarrow> knowledge_chunk_record option) \<Rightarrow> citation \<Rightarrow> knowledge_chunk_record option" where
  "resolve get c = (case cit_chunk_id c of Some (x # xs) \<Rightarrow> get (x # xs) | _ \<Rightarrow> None)"

definition is_resolvable :: "(string \<Rightarrow> knowledge_chunk_record option) \<Rightarrow> citation \<Rightarrow> bool" where
  "is_resolvable get c = (resolve get c \<noteq> None)"


section \<open>What the two paths find\<close>

lemma take_sort_le:
  assumes "x \<in> set (take n (sort_key f xs))" "y \<in> set (drop n (sort_key f xs))"
  shows "f x \<le> f y"
proof -
  have "sorted (map f (take n (sort_key f xs)) @ map f (drop n (sort_key f xs)))" by (simp flip: map_append)
  then show ?thesis using assms by (simp only: sorted_append set_map) blast
qed

lemma best_set: "set (best limit scored) = {(knowledge_chunk_record.truncate c, s) | c s. (c, s) \<in> set (take limit (sort_key by_score scored)) \<and> 0 < s}"
  unfolding best_def by (auto split: if_splits)

lemma best_sound:
  assumes "(r, s) \<in> set (best limit scored)"
  shows "\<exists>c. (c, s) \<in> set scored \<and> r = knowledge_chunk_record.truncate c \<and> 0 < s"
proof -
  from assms obtain c where c: "(c, s) \<in> set (take limit (sort_key by_score scored))" "r = knowledge_chunk_record.truncate c" "0 < s"
    by (auto simp: best_set)
  from set_take_subset c(1) have "(c, s) \<in> set (sort_key by_score scored)" by fast
  with c(2,3) show ?thesis by auto
qed

lemma best_alt: "best limit scored = map (\<lambda>(c, s). (knowledge_chunk_record.truncate c, s)) (filter (\<lambda>(c, s). 0 < s) (take limit (sort_key by_score scored)))"
proof -
  have "concat (map (\<lambda>(c, s). if 0 < s then [(knowledge_chunk_record.truncate c, s)] else []) xs)
    = map (\<lambda>(c, s). (knowledge_chunk_record.truncate c, s)) (filter (\<lambda>(c, s). 0 < s) xs)" for xs :: "('a knowledge_chunk_record_scheme \<times> pyfloat) list"
    by (induction xs) auto
  then show ?thesis unfolding best_def .
qed

lemma best_length: "length (best limit scored) \<le> limit"
  unfolding best_alt length_map using length_filter_le[of "\<lambda>(c, s). 0 < s" "take limit (sort_key by_score scored)"] by simp

lemma best_complete:
  assumes "(c, s) \<in> set scored" "0 < s"
  shows "(knowledge_chunk_record.truncate c, s) \<in> set (best limit scored) \<or> length (best limit scored) = limit \<and> (\<forall>(r, t) \<in> set (best limit scored). s \<le> t)"
proof (cases "(c, s) \<in> set (take limit (sort_key by_score scored))")
  case True
  then show ?thesis using assms(2) by (auto simp: best_set)
next
  case False
  let ?ys = "sort_key by_score scored"
  have "(c, s) \<in> set ?ys" using assms(1) by simp
  then have rest: "(c, s) \<in> set (drop limit ?ys)" using False by (metis Un_iff append_take_drop_id set_append)
  have ge: "s \<le> t" if "(d, t) \<in> set (take limit ?ys)" for d t
    using take_sort_le[OF that rest] by (auto simp: by_score_def less_eq_prod_def)
  then have "filter (\<lambda>(c, s). 0 < s) (take limit ?ys) = take limit ?ys"
    using assms(2) by (intro filter_True) force
  moreover have "length (take limit ?ys) = limit" using rest by (cases "limit \<le> length ?ys") auto
  ultimately have "length (best limit scored) = limit" by (simp only: best_alt length_map)
  moreover have "\<forall>(r, t) \<in> set (best limit scored). s \<le> t" using ge by (auto simp: best_set)
  ultimately show ?thesis by simp
qed

lemma best_sorted: "sorted (map (\<lambda>(r, s). (- s, kr_chunk_id r)) (best limit scored))"
proof -
  have key: "(\<lambda>(r, s). (- s, kr_chunk_id r)) \<circ> (\<lambda>(c, s). (knowledge_chunk_record.truncate c, s)) = by_score"
    by (rule ext) (simp add: by_score_def case_prod_unfold knowledge_chunk_record.truncate_def)
  have "sorted (map by_score (take limit (sort_key by_score scored)))" by (simp add: sorted_wrt_take flip: take_map)
  then have "sorted (map by_score (filter (\<lambda>(c, s). 0 < s) (take limit (sort_key by_score scored))))" by (rule sorted_filter)
  then show ?thesis unfolding best_alt map_map key .
qed

text \<open>
  The keyword path returns the best live matches and nothing else. Every hit is a chunk of an active index version that passes every metadata filter, with
  the score of the query against it, which is positive; found come best first, at most as many as asked for; and a live chunk that passes the filters and scores is
  left out only when the path is full with chunks that score at least as high.
\<close>
theorem keyword_search_exact:
  shows "let found = mi_keyword_search query f limit ix in
    list_all (\<lambda>(r, s). list_ex (\<lambda>c. r = knowledge_chunk_record.truncate c \<and> matches_filters c f \<and> s = keyword_overlap_score query c) (live_chunks ix) \<and> 0 < s) found
    \<and> sorted (map (\<lambda>(r, s). (- s, kr_chunk_id r)) found) \<and> length found \<le> limit
    \<and> list_all (\<lambda>c. (knowledge_chunk_record.truncate c, keyword_overlap_score query c) \<in> set found \<or> length found = limit \<and> list_all (\<lambda>(r, s). keyword_overlap_score query c \<le> s) found)
        (filter (\<lambda>c. matches_filters c f \<and> 0 < keyword_overlap_score query c) (live_chunks ix))"
proof -
  let ?scored = "map (\<lambda>c. (c, keyword_overlap_score query c)) (filter (\<lambda>c. matches_filters c f) (live_chunks ix))"
  let ?found = "best limit ?scored"
  have "list_ex (\<lambda>c. r = knowledge_chunk_record.truncate c \<and> matches_filters c f \<and> s = keyword_overlap_score query c) (live_chunks ix) \<and> 0 < s" if "(r, s) \<in> set ?found" for r s
    using best_sound[OF that] by (auto simp: list_ex_iff)
  then have sound: "list_all (\<lambda>(r, s). list_ex (\<lambda>c. r = knowledge_chunk_record.truncate c \<and> matches_filters c f \<and> s = keyword_overlap_score query c) (live_chunks ix) \<and> 0 < s) ?found"
    unfolding list_all_iff by blast
  have complete: "(knowledge_chunk_record.truncate c, keyword_overlap_score query c) \<in> set ?found \<or> length ?found = limit \<and> list_all (\<lambda>(r, s). keyword_overlap_score query c \<le> s) ?found"
    if "c \<in> set (live_chunks ix)" "matches_filters c f" "0 < keyword_overlap_score query c" for c
  proof -
    have "(c, keyword_overlap_score query c) \<in> set ?scored" using that by simp
    from best_complete[OF this that(3)] show ?thesis unfolding list_all_iff .
  qed
  show ?thesis unfolding Let_def mi_keyword_search_def
  proof (intro conjI)
    show "sorted (map (\<lambda>(r, s). (- s, kr_chunk_id r)) ?found)" by (rule best_sorted)
    show "length ?found \<le> limit" by (rule best_length)
    show "list_all (\<lambda>(r, s). list_ex (\<lambda>c. r = knowledge_chunk_record.truncate c \<and> matches_filters c f \<and> s = keyword_overlap_score query c) (live_chunks ix) \<and> 0 < s) ?found"
      by (rule sound)
    show "list_all (\<lambda>c. (knowledge_chunk_record.truncate c, keyword_overlap_score query c) \<in> set ?found
          \<or> length ?found = limit \<and> list_all (\<lambda>(r, s). keyword_overlap_score query c \<le> s) ?found)
        (filter (\<lambda>c. matches_filters c f \<and> 0 < keyword_overlap_score query c) (live_chunks ix))"
    proof (rule list_all_iff[THEN iffD2], rule ballI)
      fix c assume "c \<in> set (filter (\<lambda>c. matches_filters c f \<and> 0 < keyword_overlap_score query c) (live_chunks ix))"
      then have "c \<in> set (live_chunks ix)" "matches_filters c f" "0 < keyword_overlap_score query c" by simp_all
      then show "(knowledge_chunk_record.truncate c, keyword_overlap_score query c) \<in> set ?found
        \<or> length ?found = limit \<and> list_all (\<lambda>(r, s). keyword_overlap_score query c \<le> s) ?found" by (rule complete)
    qed
  qed
qed


section \<open>Fusion\<close>

lemma dedup_by_seen: "set a = set b \<Longrightarrow> dedup_by key a xs = dedup_by key b xs"
proof (induction xs arbitrary: a b)
  case (Cons x xs)
  have "dedup_by key (key x # a) xs = dedup_by key (key x # b) xs" by (rule Cons.IH) (simp add: Cons.prems)
  moreover have "dedup_by key a xs = dedup_by key b xs" by (rule Cons.IH) (rule Cons.prems)
  ultimately show ?case by (simp add: Cons.prems)
qed simp

lemma dict_set_keys_list: "map fst (dict_set k v d) = (if k \<in> set (map fst d) then map fst d else map fst d @ [k])"
  by (induction k v d rule: dict_set.induct) auto

lemma fold_dict_set_keys:
  "map fst (fold (\<lambda>x d. dict_set (key x) (val x d) d) xs d) = map fst d @ dedup_by (\<lambda>k. k) (map fst d) (map key xs)"
proof (induction xs arbitrary: d)
  case (Cons x xs)
  have "dedup_by (\<lambda>k. k) (map fst d @ [key x]) (map key xs) = dedup_by (\<lambda>k. k) (key x # map fst d) (map key xs)"
    by (rule dedup_by_seen) auto
  then show ?case using Cons.IH[of "dict_set (key x) (val x d) d"] by (simp add: dict_set_keys_list)
qed simp

fun last_score :: "(knowledge_chunk_record \<times> pyfloat) list \<Rightarrow> string \<Rightarrow> pyfloat" where
  "last_score [] i = 0"
| "last_score ((r, s) # found) i = (if i \<in> set (map (kr_chunk_id \<circ> fst) found) then last_score found i else if i = kr_chunk_id r then s else 0)"

lemma last_score_absent: "i \<notin> set (map (kr_chunk_id \<circ> fst) found) \<Longrightarrow> last_score found i = 0"
  by (induction found i rule: last_score.induct) auto

definition score_at :: "(retrieved_chunk \<Rightarrow> pyfloat) \<Rightarrow> (string, retrieved_chunk) dict \<Rightarrow> string \<Rightarrow> pyfloat" where
  "score_at g d i = (case map_of d i of None \<Rightarrow> 0 | Some item \<Rightarrow> g item)"

definition own_keys :: "(string, retrieved_chunk) dict \<Rightarrow> bool" where
  "own_keys d = (\<forall>i item. map_of d i = Some item \<longrightarrow> rt_id item = i)"

lemma merge_dense_step:
  "score_at rt_dense_score (merge_dense (r, s) d) i = (if i = kr_chunk_id r then s else score_at rt_dense_score d i)"
  "score_at rt_keyword_score (merge_dense (r, s) d) i = (if i = kr_chunk_id r then 0 else score_at rt_keyword_score d i)"
  "own_keys d \<Longrightarrow> own_keys (merge_dense (r, s) d)"
  by (auto simp: score_at_def merge_dense_def dict_set_lookup found_by_def own_keys_def)

lemma merge_keyword_step:
  "score_at rt_dense_score (merge_keyword (r, s) d) i = score_at rt_dense_score d i"
  "score_at rt_keyword_score (merge_keyword (r, s) d) i = (if i = kr_chunk_id r then s else score_at rt_keyword_score d i)"
  "own_keys d \<Longrightarrow> own_keys (merge_keyword (r, s) d)"
  by (auto simp: score_at_def merge_keyword_def dict_set_lookup found_by_def own_keys_def split: option.splits)

lemma fold_merge_dense:
  "score_at rt_dense_score (fold merge_dense found d) i = (if i \<in> set (map (kr_chunk_id \<circ> fst) found) then last_score found i else score_at rt_dense_score d i)
    \<and> score_at rt_keyword_score (fold merge_dense found d) i = (if i \<in> set (map (kr_chunk_id \<circ> fst) found) then 0 else score_at rt_keyword_score d i)
    \<and> (own_keys d \<longrightarrow> own_keys (fold merge_dense found d))"
proof (induction found arbitrary: d)
  case (Cons h found)
  obtain r s where h: "h = (r, s)" by (cases h)
  show ?case using Cons.IH[of "merge_dense (r, s) d"] by (auto simp: h merge_dense_step)
qed simp

lemma fold_merge_keyword:
  "score_at rt_keyword_score (fold merge_keyword found d) i = (if i \<in> set (map (kr_chunk_id \<circ> fst) found) then last_score found i else score_at rt_keyword_score d i)
    \<and> score_at rt_dense_score (fold merge_keyword found d) i = score_at rt_dense_score d i
    \<and> (own_keys d \<longrightarrow> own_keys (fold merge_keyword found d))"
proof (induction found arbitrary: d)
  case (Cons h found)
  obtain r s where h: "h = (r, s)" by (cases h)
  show ?case using Cons.IH[of "merge_keyword (r, s) d"] by (auto simp: h merge_keyword_step)
qed simp

lemma fuse_keys: "map fst (fold merge_keyword keyword (fold merge_dense dense [])) = unique (map (kr_chunk_id \<circ> fst) (dense @ keyword))"
proof -
  have d: "merge_dense = (\<lambda>x d. dict_set ((kr_chunk_id \<circ> fst) x) (found_by Dense_Path (fst x) (snd x)) d)"
    by (simp add: merge_dense_def fun_eq_iff)
  have k: "merge_keyword = (\<lambda>x d. dict_set ((kr_chunk_id \<circ> fst) x) (case map_of d (kr_chunk_id (fst x)) of None \<Rightarrow> found_by Keyword_Path (fst x) (snd x)
      | Some item \<Rightarrow> item\<lparr>rt_keyword_score := snd x, rt_matched_by := rt_matched_by item @ [Keyword_Path]\<rparr>) d)"
    by (intro ext) (simp add: merge_keyword_def case_prod_unfold)
  have app: "dedup_by (\<lambda>k. k) seen (xs @ ys) = dedup_by (\<lambda>k. k) seen xs @ dedup_by (\<lambda>k. k) (seen @ xs) ys" for seen xs ys :: "string list"
  proof (induction xs arbitrary: seen)
    case (Cons x xs)
    have "dedup_by (\<lambda>k. k) (x # seen @ xs) ys = dedup_by (\<lambda>k. k) (seen @ x # xs) ys"
      "x \<in> set seen \<Longrightarrow> dedup_by (\<lambda>k. k) (seen @ xs) ys = dedup_by (\<lambda>k. k) (seen @ x # xs) ys" by (rule dedup_by_seen, auto)+
    then show ?case using Cons.IH by simp
  qed simp
  have "map fst (fold merge_dense dense []) = unique (map (kr_chunk_id \<circ> fst) dense)" unfolding d fold_dict_set_keys by (simp add: comp_def)
  then have "map fst (fold merge_keyword keyword (fold merge_dense dense []))
      = unique (map (kr_chunk_id \<circ> fst) dense) @ dedup_by (\<lambda>k. k) (unique (map (kr_chunk_id \<circ> fst) dense)) (map (kr_chunk_id \<circ> fst) keyword)"
    unfolding k fold_dict_set_keys by (simp add: comp_def)
  also have "dedup_by (\<lambda>k. k) (unique (map (kr_chunk_id \<circ> fst) dense)) (map (kr_chunk_id \<circ> fst) keyword)
      = dedup_by (\<lambda>k. k) (map (kr_chunk_id \<circ> fst) dense) (map (kr_chunk_id \<circ> fst) keyword)" by (rule dedup_by_seen) simp
  finally show ?thesis by (simp add: app comp_def)
qed

text \<open>
  Merging the two retrieval paths loses no hit and invents none: the merged candidates are the chunks of both paths in the order in which they were first found,
  each once, and each candidate carries the score the dense path gave it and the score the keyword path gave it (zero where a path did not find it).
\<close>
theorem fuse_exact:
  shows "map rt_id (fuse dense keyword) = unique (map (kr_chunk_id \<circ> fst) (dense @ keyword))
    \<and> list_all (\<lambda>i. rt_dense_score i = last_score dense (rt_id i) \<and> rt_keyword_score i = last_score keyword (rt_id i)) (fuse dense keyword)"
proof -
  let ?d = "fold merge_dense dense []" and ?D = "fold merge_keyword keyword (fold merge_dense dense [])"
  have own0: "own_keys []" by (simp add: own_keys_def)
  then have own: "own_keys ?D" using fold_merge_dense[of dense "[]"] fold_merge_keyword[of keyword ?d] by blast
  have dist: "distinct (map fst ?D)" by (simp only: fuse_keys distinct_unique)
  have item: "map_of ?D k = Some i \<and> rt_id i = k" if "(k, i) \<in> set ?D" for k i
    using own that dist by (simp add: own_keys_def)
  have "map rt_id (fuse dense keyword) = map fst ?D" unfolding fuse_def using item by (auto simp: map_eq_conv)
  moreover have "rt_dense_score i = last_score dense (rt_id i) \<and> rt_keyword_score i = last_score keyword (rt_id i)" if "i \<in> set (fuse dense keyword)" for i
  proof -
    from that obtain k where k: "(k, i) \<in> set ?D" by (auto simp: fuse_def)
    note e = item[OF k]
    have "rt_dense_score i = score_at rt_dense_score ?D k" "rt_keyword_score i = score_at rt_keyword_score ?D k" using e by (simp_all add: score_at_def)
    moreover have "score_at rt_dense_score ?D k = last_score dense k"
      using fold_merge_keyword[of keyword ?d k] fold_merge_dense[of dense "[]" k] last_score_absent[of k dense] by (simp add: score_at_def split: if_splits)
    moreover have "score_at rt_keyword_score ?D k = last_score keyword k"
      using fold_merge_keyword[of keyword ?d k] fold_merge_dense[of dense "[]" k] last_score_absent[of k keyword] by (simp add: score_at_def split: if_splits)
    ultimately show ?thesis using e by simp
  qed
  ultimately show ?thesis by (simp only: fuse_keys list_all_iff) blast
qed



section \<open>Ranking\<close>

definition libm_ok :: "libm \<Rightarrow> bool" where
  "libm_ok m = (\<forall>x \<ge> 0. 0 \<le> lm_pow m (1 / 2) x \<and> lm_pow m (1 / 2) x \<le> 1)"

lemma weights: "0 \<le> DENSE_WEIGHT" "0 \<le> KEYWORD_WEIGHT" "rnd (DENSE_WEIGHT + KEYWORD_WEIGHT) = 1" "rnd DENSE_WEIGHT = DENSE_WEIGHT" "rnd KEYWORD_WEIGHT = KEYWORD_WEIGHT"
  unfolding DENSE_WEIGHT_def KEYWORD_WEIGHT_def by code_simp+

lemma trust_weight_unit: "0 \<le> trust_weight t" "trust_weight t \<le> 1"
  by (cases t; simp add: rnd_nonneg rnd_le_1)+

lemma normalize_scores_unit:
  assumes "\<forall>s \<in> set scores. 0 \<le> s" "n < length scores"
  shows "0 \<le> normalize_scores scores ! n \<and> normalize_scores scores ! n \<le> 1"
proof -
  let ?h = "Max (set scores)"
  have mem: "scores ! n \<in> set scores" using assms(2) by simp
  then have "scores \<noteq> []" "0 \<le> scores ! n" "scores ! n \<le> ?h" using assms(1) by auto
  then show ?thesis using assms(2)
  proof (cases "?h \<le> 0")
    case False
    then have "normalize_scores scores ! n = rnd (scores ! n / ?h)" using \<open>scores \<noteq> []\<close> assms(2)
      by (simp only: normalize_scores_def Let_def if_False nth_map)
    moreover have "0 \<le> scores ! n / ?h" "scores ! n / ?h \<le> 1" using False \<open>0 \<le> scores ! n\<close> \<open>scores ! n \<le> ?h\<close> by (simp_all add: divide_le_eq_1)
    ultimately show ?thesis by (simp add: rnd_nonneg rnd_le_1)
  next
    case True
    then have "normalize_scores scores ! n = 0" using \<open>scores \<noteq> []\<close> assms(2) by (simp only: normalize_scores_def Let_def if_True if_False nth_map)
    then show ?thesis by simp
  qed
qed

lemma normalize_scores_length [simp]: "length (normalize_scores scores) = length scores"
  by (simp add: normalize_scores_def Let_def)

lemma freshness_unit:
  assumes "libm_ok m" "0 < half_life"
  shows "0 \<le> freshness_weight m half_life now p \<and> freshness_weight m half_life now p \<le> 1"
proof (cases p)
  case (Some t)
  let ?age = "rnd (rnd (of_int (now - t) / 1000000) / 86400)"
  show ?thesis
  proof (cases "?age \<le> 0")
    case False
    then have "0 \<le> rnd (?age / half_life)" using assms(2) by (intro rnd_nonneg) simp
    then show ?thesis using assms(1) False Some by (simp add: freshness_weight_def libm_ok_def Let_def)
  qed (simp add: freshness_weight_def Some Let_def)
qed (simp add: freshness_weight_def)

definition relevance_of :: "pyfloat \<Rightarrow> pyfloat \<Rightarrow> pyfloat" where
  "relevance_of nd nk = rnd (rnd (DENSE_WEIGHT * nd) + rnd (KEYWORD_WEIGHT * nk))"

lemma relevance_unit:
  assumes "0 \<le> nd" "nd \<le> 1" "0 \<le> nk" "nk \<le> 1" shows "0 \<le> relevance_of nd nk \<and> relevance_of nd nk \<le> 1"
proof -
  have "rnd (DENSE_WEIGHT * nd) \<le> rnd DENSE_WEIGHT" "rnd (KEYWORD_WEIGHT * nk) \<le> rnd KEYWORD_WEIGHT"
    using assms weights by (intro rnd_mono mult_left_le; simp)+
  then have "rnd (DENSE_WEIGHT * nd) + rnd (KEYWORD_WEIGHT * nk) \<le> DENSE_WEIGHT + KEYWORD_WEIGHT" by (simp add: weights)
  then have "relevance_of nd nk \<le> 1" unfolding relevance_of_def weights(3)[symmetric] by (rule rnd_mono)
  moreover have "0 \<le> relevance_of nd nk" unfolding relevance_of_def using assms weights by (intro rnd_nonneg add_nonneg_nonneg) simp_all
  ultimately show ?thesis by simp
qed

lemma applied_unit:
  assumes "0 \<le> fresh" "fresh \<le> 1"
  shows "1 / 2 \<le> rnd (FRESHNESS_FLOOR + rnd (rnd (1 - FRESHNESS_FLOOR) * fresh)) \<and> rnd (FRESHNESS_FLOOR + rnd (rnd (1 - FRESHNESS_FLOOR) * fresh)) \<le> 1"
proof -
  have half: "rnd (1 / 2) = (1 / 2 :: rat)" using rnd_half[of 1] by simp
  have floor: "rnd (1 - FRESHNESS_FLOOR) = 1 / 2" unfolding FRESHNESS_FLOOR_def using half by simp
  let ?x = "rnd (1 / 2 * fresh)"
  have "rnd (1 / 2 * fresh) \<le> rnd (1 / 2)" using assms by (intro rnd_mono) simp
  moreover have "0 \<le> rnd (1 / 2 * fresh)" using assms by (intro rnd_nonneg) simp
  ultimately have "1 / 2 \<le> 1 / 2 + rnd (1 / 2 * fresh)" "1 / 2 + rnd (1 / 2 * fresh) \<le> 1" using half by linarith+
  then have "1 / 2 \<le> rnd (1 / 2 + ?x)" "rnd (1 / 2 + ?x) \<le> 1" by (blast intro: rnd_ge_float[OF _ half] rnd_le_1)+
  then show ?thesis unfolding floor by (simp only: FRESHNESS_FLOOR_def)
qed

lemma rank_item_facts:
  assumes "libm_ok m" "0 < half_life" "0 \<le> nd" "nd \<le> 1" "0 \<le> nk" "nk \<le> 1"
  shows "rt_score (rank_item m half_life now nd nk item) \<le> rnd (relevance_of nd nk * trust_weight (md_trust_tier (kr_metadata (rt_chunk item))))"
    and "rnd (rnd (relevance_of nd nk * (1 / 2)) * trust_weight (md_trust_tier (kr_metadata (rt_chunk item)))) \<le> rt_score (rank_item m half_life now nd nk item)"
    and "0 \<le> rt_score (rank_item m half_life now nd nk item)" "rt_score (rank_item m half_life now nd nk item) \<le> 1"
proof -
  let ?md = "kr_metadata (rt_chunk item)"
  let ?t = "trust_weight (md_trust_tier ?md)" and ?r = "relevance_of nd nk"
  let ?a = "rnd (FRESHNESS_FLOOR + rnd (rnd (1 - FRESHNESS_FLOOR) * freshness_weight m half_life now (md_published_at ?md)))"
  have s: "rt_score (rank_item m half_life now nd nk item) = rnd (rnd (?r * ?a) * ?t)" by (simp add: rank_item_def relevance_of_def Let_def)
  note r = relevance_unit[OF assms(3-6)] and t = trust_weight_unit[of "md_trust_tier ?md"]
  have a: "1 / 2 \<le> ?a \<and> ?a \<le> 1" using freshness_unit[OF assms(1,2)] by (intro applied_unit) auto
  have idr: "rnd ?r = ?r" by (simp add: relevance_of_def)
  have up: "rnd (?r * ?a) \<le> ?r" using rnd_mono[of "?r * ?a" ?r] idr r a by (simp add: mult_left_le)
  have lo: "rnd (?r * (1 / 2)) \<le> rnd (?r * ?a)" by (rule rnd_mono, rule mult_left_mono) (use r a in blast)+
  have nn: "0 \<le> rnd (?r * (1 / 2))" using r by (intro rnd_nonneg) simp
  show "rt_score (rank_item m half_life now nd nk item) \<le> rnd (?r * ?t)" unfolding s by (rule rnd_mono, rule mult_right_mono[OF up t(1)])
  show "rnd (rnd (?r * (1 / 2)) * ?t) \<le> rt_score (rank_item m half_life now nd nk item)" unfolding s by (rule rnd_mono, rule mult_right_mono[OF lo t(1)])
  show "0 \<le> rt_score (rank_item m half_life now nd nk item)" unfolding s by (rule rnd_nonneg, rule mult_nonneg_nonneg[OF order_trans[OF nn lo] t(1)])
  have "rnd (?r * ?a) \<le> 1" using up r by linarith
  from mult_mono[OF this t(2) zero_le_one t(1)] have "rnd (?r * ?a) * ?t \<le> 1 * 1" .
  then show "rt_score (rank_item m half_life now nd nk item) \<le> 1" unfolding s by (intro rnd_le_1) simp
qed

lemma rank_item_keeps [simp]: "rt_chunk (rank_item m half_life now nd nk item) = rt_chunk item" "rt_matched_by (rank_item m half_life now nd nk item) = rt_matched_by item"
  by (simp_all add: rank_item_def Let_def)

text \<open>
  Ranking reorders and never drops: the ranked chunks are the candidates' chunks, best score first with ties in the order of the chunk identifiers, and every score
  lies between 0 and 1 (for candidates with non-negative path scores and a decay function between 0 and 1).
\<close>
theorem rank_orders_and_bounds:
  assumes "libm_ok m" "0 < half_life" "list_all (\<lambda>i. 0 \<le> rt_dense_score i \<and> 0 \<le> rt_keyword_score i) candidates"
  shows "let ranked = rank m half_life now candidates in
    mset (map rt_chunk ranked) = mset (map rt_chunk candidates) \<and> sorted (map (\<lambda>i. (- rt_score i, rt_id i)) ranked)
    \<and> list_all (\<lambda>i. 0 \<le> rt_score i \<and> rt_score i \<le> 1) ranked"
proof -
  let ?nd = "normalize_scores (map rt_dense_score candidates)" and ?nk = "normalize_scores (map rt_keyword_score candidates)"
  let ?scored = "map (\<lambda>(n, item). rank_item m half_life (now n) (?nd ! n) (?nk ! n) item) (enumerate 0 candidates)"
  have r: "rank m half_life now candidates = sort_key (\<lambda>i. (- rt_score i, rt_id i)) ?scored" by (simp only: rank_def Let_def)
  have same: "map rt_chunk ?scored = map rt_chunk candidates"
    by (rule nth_equalityI) (simp_all add: nth_enumerate_eq)
  have "mset (map rt_chunk (sort_key f xs)) = mset (map rt_chunk xs)" for f :: "retrieved_chunk \<Rightarrow> pyfloat \<times> string" and xs
    by (simp only: mset_map mset_sort)
  then have chunks: "mset (map rt_chunk (rank m half_life now candidates)) = mset (map rt_chunk candidates)" unfolding r by (simp only: same)
  have "0 \<le> rt_score i \<and> rt_score i \<le> 1" if "i \<in> set ?scored" for i
  proof -
    from that obtain n where n: "n < length candidates" "i = rank_item m half_life (now n) (?nd ! n) (?nk ! n) (candidates ! n)"
      by (auto simp: in_set_enumerate_eq)
    have "0 \<le> ?nd ! n \<and> ?nd ! n \<le> 1" "0 \<le> ?nk ! n \<and> ?nk ! n \<le> 1" using assms(3) n(1) by (auto intro!: normalize_scores_unit simp: list_all_iff)
    then show ?thesis unfolding n(2) using rank_item_facts(3,4)[OF assms(1,2)] by blast
  qed
  then have "list_all (\<lambda>i. 0 \<le> rt_score i \<and> rt_score i \<le> 1) (rank m half_life now candidates)" unfolding r by (simp add: list_all_iff)
  with chunks show ?thesis unfolding Let_def by (simp add: r)
qed

text \<open>
  Age alone never hides a chunk: whatever the publication date, the score is at least what half the relevance earns and at most what the full relevance earns.
\<close>
theorem age_at_most_halves:
  assumes "libm_ok m" "0 < half_life" "0 \<le> nd" "nd \<le> 1" "0 \<le> nk" "nk \<le> 1"
  shows "let trust = trust_weight (md_trust_tier (kr_metadata (rt_chunk item))); relevance = rnd (rnd (DENSE_WEIGHT * nd) + rnd (KEYWORD_WEIGHT * nk)) in
    rnd (rnd (relevance * (1 / 2)) * trust) \<le> rt_score (rank_item m half_life now nd nk item) \<and> rt_score (rank_item m half_life now nd nk item) \<le> rnd (relevance * trust)"
  using rank_item_facts(1,2)[OF assms] unfolding relevance_of_def Let_def by blast


definition sample_libm :: libm where
  "sample_libm = \<lparr>lm_sqrt = (\<lambda>x. x), lm_log = (\<lambda>x. 0), lm_pow = (\<lambda>b x. 1 / 2), lm_sha256 = (\<lambda>t. replicate 32 7)\<rparr>"

definition sample_record :: knowledge_chunk_record where
  "sample_record = \<lparr>kr_chunk_id = ''rb-1#0'', kr_document_id = ''rb-1'', kr_title = Some ''Isolate a host'', kr_content = ''Disable the port'',
     kr_metadata = sample_chunk_metadata, kr_ordinal = 0, kr_parent_chunk_id = None, kr_index_version = Some ''v1''\<rparr>"

abbreviation sample_found :: retrieved_chunk where
  "sample_found \<equiv> found_by Keyword_Path sample_record (1 / 2)"

lemma rank_orders_and_bounds_witness:
  "let ranked = rank sample_libm 180 (\<lambda>n. 0) [sample_found] in
    mset (map rt_chunk ranked) = mset (map rt_chunk [sample_found]) \<and> sorted (map (\<lambda>i. (- rt_score i, rt_id i)) ranked)
    \<and> list_all (\<lambda>i. 0 \<le> rt_score i \<and> rt_score i \<le> 1) ranked"
  by (rule rank_orders_and_bounds) (simp_all add: libm_ok_def sample_libm_def found_by_def)

lemma age_at_most_halves_witness:
  "let trust = trust_weight (md_trust_tier (kr_metadata (rt_chunk sample_found))); relevance = rnd (rnd (DENSE_WEIGHT * 0) + rnd (KEYWORD_WEIGHT * 1)) in
    rnd (rnd (relevance * (1 / 2)) * trust) \<le> rt_score (rank_item sample_libm 180 0 0 1 sample_found) \<and> rt_score (rank_item sample_libm 180 0 0 1 sample_found) \<le> rnd (relevance * trust)"
  by (rule age_at_most_halves) (simp_all add: libm_ok_def sample_libm_def)


section \<open>The context budget\<close>

abbreviation tokens_of :: "retrieved_chunk list \<Rightarrow> nat" where
  "tokens_of is \<equiv> sum_list (map (\<lambda>i. estimate_tokens (kr_content (rt_chunk i))) is)"

lemma take_from_facts:
  "\<exists>rest. xs = take_from budget used True xs @ rest \<and> (take_from budget used True xs = [] \<or> used + tokens_of (take_from budget used True xs) \<le> budget)
    \<and> (rest = [] \<or> budget < used + tokens_of (take_from budget used True xs) + tokens_of [hd rest])"
proof (induction xs arbitrary: used)
  case (Cons i xs)
  let ?c = "estimate_tokens (kr_content (rt_chunk i))"
  show ?case
  proof (cases "used + ?c > budget")
    case False
    obtain rest where r: "xs = take_from budget (used + ?c) True xs @ rest"
      "take_from budget (used + ?c) True xs = [] \<or> used + ?c + tokens_of (take_from budget (used + ?c) True xs) \<le> budget"
      "rest = [] \<or> budget < used + ?c + tokens_of (take_from budget (used + ?c) True xs) + tokens_of [hd rest]"
      using Cons.IH[of "used + ?c"] by blast
    have e: "take_from budget used True (i # xs) = i # take_from budget (used + ?c) True xs" using False by (simp add: Let_def)
    show ?thesis unfolding e by (rule exI[of _ rest]) (use r False in auto)
  qed simp
qed simp

text \<open>C35: 
  The context handed to an agent is the longest run of the best-ranked chunks that fits: a prefix of the ranking, at most the number asked for, within the token
  budget unless it is a single chunk (the best one is never withheld), and stopping early only where the next chunk would break the budget.
\<close>
theorem context_fits_budget:
  shows "let picked = take_within_budget top_k budget ranked; left = drop (length picked) (take top_k ranked) in
    picked = take (length picked) ranked \<and> length picked \<le> top_k
    \<and> (if length picked \<le> 1 then True else tokens_of picked \<le> budget)
    \<and> (case left of [] \<Rightarrow> True | next # _ \<Rightarrow> picked \<noteq> [] \<and> budget < tokens_of picked + tokens_of [next])"
proof -
  let ?xs = "take top_k ranked" and ?p = "take_within_budget top_k budget ranked"
  have "\<exists>rest. ?xs = ?p @ rest \<and> (length ?p \<le> 1 \<or> tokens_of ?p \<le> budget) \<and> (rest = [] \<or> ?p \<noteq> [] \<and> budget < tokens_of ?p + tokens_of [hd rest])"
  proof (cases ?xs)
    case (Cons i xs)
    let ?c = "estimate_tokens (kr_content (rt_chunk i))"
    have p: "?p = i # take_from budget ?c True xs" by (simp add: take_within_budget_def Cons Let_def)
    obtain rest where r: "xs = take_from budget ?c True xs @ rest" "take_from budget ?c True xs = [] \<or> ?c + tokens_of (take_from budget ?c True xs) \<le> budget"
      "rest = [] \<or> budget < ?c + tokens_of (take_from budget ?c True xs) + tokens_of [hd rest]" using take_from_facts[of xs budget ?c] by blast
    show ?thesis unfolding p Cons by (rule exI[of _ rest]) (use r in auto)
  next
    case Nil
    then have p: "?p = []" by (simp only: take_within_budget_def take_from.simps)
    show ?thesis unfolding p Nil by simp
  qed
  then obtain rest where r: "?xs = ?p @ rest" "length ?p \<le> 1 \<or> tokens_of ?p \<le> budget" "rest = [] \<or> ?p \<noteq> [] \<and> budget < tokens_of ?p + tokens_of [hd rest]" by blast
  have "length ?p \<le> length ?xs" using arg_cong[OF r(1), of length] by simp
  then have len: "length ?p \<le> top_k" by simp
  have "take (length ?p) ?xs = ?p" using r(1) by (metis append_eq_conv_conj)
  then have pre: "?p = take (length ?p) ranked" using len by (simp add: min_def)
  have left: "drop (length ?p) ?xs = rest" using r(1) by (metis append_eq_conv_conj)
  show ?thesis unfolding Let_def left
  proof (intro conjI)
    show "case rest of [] \<Rightarrow> True | next # _ \<Rightarrow> ?p \<noteq> [] \<and> budget < tokens_of ?p + tokens_of [next]" using r(3) by (cases rest) simp_all
    show "if length ?p \<le> 1 then True else tokens_of ?p \<le> budget" using r(2) by auto
  qed (rule pre, rule len)
qed


section \<open>Exact identifiers\<close>

definition identifiers_of :: "'a knowledge_chunk_record_scheme \<Rightarrow> string set" where
  "identifiers_of r = (let md = kr_metadata r in
     set (map lower (filter (\<lambda>v. v \<noteq> []) (map or_empty [md_cve_id md, md_technique_id md, md_cwe_id md])) @ map lower (md_products md)))"

lemma coverage_unit:
  "0 \<le> rnd (of_nat (card (set xs \<inter> D)) / of_nat (card (set xs)) :: rat)" "rnd (of_nat (card (set xs \<inter> D)) / of_nat (card (set xs)) :: rat) \<le> 1"
proof -
  have "card (set xs \<inter> D) \<le> card (set xs)" by (rule card_mono) auto
  then have "(of_nat (card (set xs \<inter> D)) / of_nat (card (set xs)) :: rat) \<le> 1"
    by (cases "card (set xs) = 0") (simp_all add: divide_le_eq_1 card_gt_0_iff)
  then show "rnd (of_nat (card (set xs \<inter> D)) / of_nat (card (set xs)) :: rat) \<le> 1" by (rule rnd_le_1)
qed (simp add: rnd_nonneg)

text \<open>
  Naming an identifier beats mentioning words: a chunk whose CVE, technique, weakness or product is named by the query scores at least 1, every other chunk at
  most 1, so no amount of prose overlap outranks the record the query names.
\<close>
theorem identifier_hit_outranks:
  shows "if identifiers_of r \<inter> set (tokenize query) = {} then 0 \<le> keyword_overlap_score query r \<and> keyword_overlap_score query r \<le> 1
    else 1 \<le> keyword_overlap_score query r \<and> keyword_overlap_score query r \<le> 2"
proof (cases "set (tokenize query) = {}")
  case True
  then show ?thesis by (simp add: keyword_overlap_score_def)
next
  case False
  let ?c = "rnd (of_nat (card (set (tokenize query) \<inter> set (tokenize (or_empty (kr_title r) @ '' '' @ kr_content r)))) / of_nat (card (set (tokenize query)))) :: rat"
  note c = coverage_unit[of "tokenize query" "set (tokenize (or_empty (kr_title r) @ '' '' @ kr_content r))"]
  have e: "keyword_overlap_score query r = (if identifiers_of r \<inter> set (tokenize query) \<noteq> {} then rnd (?c + 1) else ?c)"
    unfolding keyword_overlap_score_def identifiers_of_def Let_def if_not_P[OF False] by (rule refl)
  have "of_int 1 \<le> rnd (?c + 1)" by (rule rnd_ge_int) (use c in simp_all)
  moreover have "rnd (?c + 1) \<le> of_int 2" by (rule rnd_le_int) (use c in simp_all)
  ultimately show ?thesis unfolding e using c by simp
qed

end
