(* ===== verification/Rag_Service.thy ===== *)
theory Rag_Service
  imports Retrieval Resilience Agents
begin

text \<open>
  The retrieval service (\<^verbatim>\<open>rag/service.py\<close>), its cache (\<^verbatim>\<open>rag/cache.py\<close>), the allow-list of sources (\<^verbatim>\<open>rag/sources.py\<close>) and the knowledge
  memory built on them (\<^verbatim>\<open>rag/knowledge_memory.py\<close>). The index is the record \<open>index_view\<close> of its read operations, each of which may
  fail; \<open>memory_view\<close> is the one in process. Shown: when an answer is live, cached or stale and that its flags say so; that a live answer is grounded in live,
  filtered chunks whose citations resolve; and two places where the service does less than its documentation promises.
\<close>

section \<open>Sources\<close>

record source_definition =
  so_source_id :: string
  so_name :: string
  so_kind :: knowledge_source_kind
  so_trust_tier :: source_trust_tier
  so_refresh_interval_hours :: nat

type_synonym source_registry = "(string, source_definition) dict"

definition source_registry_of :: "source_definition list \<Rightarrow> source_registry" where
  "source_registry_of definitions = fold (\<lambda>d. dict_set (so_source_id d) d) definitions []"

definition DEFAULT_SOURCES :: "source_definition list" where
  "DEFAULT_SOURCES =
    [\<lparr>so_source_id = ''nvd'', so_name = ''NVD CVE Feed'', so_kind = Src_Nvd, so_trust_tier = Authoritative, so_refresh_interval_hours = 6\<rparr>,
     \<lparr>so_source_id = ''mitre_attack'', so_name = ''MITRE ATT&CK'', so_kind = Src_Mitre_Attack, so_trust_tier = Authoritative, so_refresh_interval_hours = 168\<rparr>,
     \<lparr>so_source_id = ''vendor_advisories'', so_name = ''Vendor & GitHub Security Advisories'', so_kind = Src_Advisory, so_trust_tier = Vendor, so_refresh_interval_hours = 12\<rparr>,
     \<lparr>so_source_id = ''internal_runbooks'', so_name = ''Internal Runbooks & Detection Rules'', so_kind = Src_Internal_Runbook, so_trust_tier = Internal,
      so_refresh_interval_hours = 24\<rparr>]"

definition all_sources :: "source_registry \<Rightarrow> source_definition list" where
  "all_sources r = map snd r"

definition get_source :: "source_registry \<Rightarrow> string \<Rightarrow> rag_error + source_definition" where
  "get_source r source = (case map_of r source of None \<Rightarrow> Inl Untrusted_Source_Error | Some d \<Rightarrow> Inr d)"

definition require_trusted :: "source_registry \<Rightarrow> source_document \<Rightarrow> rag_error + source_definition" where
  "require_trusted r d = get_source r (md_source_id (sd_metadata d))"


section \<open>Documents from files\<close>

text \<open>
  \<^verbatim>\<open>FilesystemFetcher\<close>: the files of a source's directory in name order, each its stem and its parsed content (\<open>None\<close> where reading or parsing failed). The
  validation of a date by the data model is the argument \<open>date\<close>; a failure of it is not caught, nor is content that is JSON but no object.
\<close>

definition text_or_none :: "pyval \<Rightarrow> string option" where
  "text_or_none v = (if v = PNone then None else Some (str_val v))"

definition build_document :: "(pyval \<Rightarrow> py_error + time option) \<Rightarrow> source_definition \<Rightarrow> string \<Rightarrow> mapping \<Rightarrow> py_error + source_document option" where
  "build_document date d stem payload =
     (let content = strip (str_val (pget_or payload ''content'' (PStr []))) in
      if content = [] then Inr None
      else and_then (try_iter (or_val (pget payload ''products'') (PList []))) (\<lambda>products.
        and_then (date (pget payload ''published_at'')) (\<lambda>published.
        and_then (date (pget payload ''updated_at'')) (\<lambda>updated.
          Inr (Some \<lparr>sd_document_id = str_val (or_val (pget payload ''document_id'') (PStr stem)), sd_title = str_val (or_val (pget payload ''title'') (PStr stem)),
            sd_content = content,
            sd_metadata = \<lparr>md_source_kind = so_kind d, md_source_id = so_source_id d, md_source_name = so_name d, md_trust_tier = so_trust_tier d,
              md_source_version = text_or_none (pget payload ''source_version''), md_published_at = published, md_updated_at = updated,
              md_cve_id = text_or_none (pget payload ''cve_id''), md_cwe_id = text_or_none (pget payload ''cwe_id''), md_technique_id = text_or_none (pget payload ''technique_id''),
              md_products = map str_val products, md_url = text_or_none (pget payload ''url''), md_extra = []\<rparr>\<rparr>)))))"

definition fetch_files :: "(pyval \<Rightarrow> py_error + time option) \<Rightarrow> source_definition \<Rightarrow> (string \<times> pyval option) list option \<Rightarrow> py_error + source_document list" where
  "fetch_files date d directory =
     (case directory of None \<Rightarrow> Inr []
      | Some files \<Rightarrow> and_then (traverse (\<lambda>(stem, content). case content of None \<Rightarrow> Inr None | Some (PDict payload) \<Rightarrow> build_document date d stem payload | Some _ \<Rightarrow> Inl Attribute_Error) files)
          (\<lambda>documents. Inr (List.map_filter id documents)))"

definition fetch_memory :: "(string, source_document list) dict \<Rightarrow> source_definition \<Rightarrow> source_document list" where
  "fetch_memory documents d = (case map_of documents (so_source_id d) of None \<Rightarrow> [] | Some ds \<Rightarrow> ds)"


section \<open>The cache\<close>

record retrieval_result =
  rr_query :: string
  rr_chunks :: "retrieved_chunk list"
  rr_citations :: "citation list"
  rr_index_version :: "string option"
  rr_estimated_tokens :: nat
  rr_stale :: bool
  rr_cached :: bool

record rag_env = libm +
  re_dump_filters :: "retrieval_filters \<Rightarrow> string"

definition hex_digit :: "nat \<Rightarrow> char" where
  "hex_digit n = ''0123456789abcdef'' ! n"

definition hexdigest :: "nat list \<Rightarrow> string" where
  "hexdigest bs = concat (map (\<lambda>b. [hex_digit (b div 16 mod 16), hex_digit (b mod 16)]) bs)"

definition cache_key :: "rag_env \<Rightarrow> string \<Rightarrow> retrieval_filters \<Rightarrow> string option \<Rightarrow> string" where
  "cache_key e query f version = hexdigest (lm_sha256 e (lower (strip query) @ re_dump_filters e f @ or_empty version))"

record retrieval_cache =
  rca_ttl :: int
  rca_entries :: "(string, retrieval_result \<times> time) dict"

definition rcache_get :: "string \<Rightarrow> time \<Rightarrow> retrieval_cache \<Rightarrow> retrieval_result option" where
  "rcache_get key now c = (case map_of (rca_entries c) key of None \<Rightarrow> None | Some (r, expires) \<Rightarrow> if now \<ge> expires then None else Some (r\<lparr>rr_cached := True\<rparr>))"

definition rcache_get_stale :: "string \<Rightarrow> retrieval_cache \<Rightarrow> retrieval_result option" where
  "rcache_get_stale key c = map_option (\<lambda>(r, _). r\<lparr>rr_stale := True, rr_cached := True\<rparr>) (map_of (rca_entries c) key)"

definition rcache_set :: "string \<Rightarrow> retrieval_result \<Rightarrow> time \<Rightarrow> retrieval_cache \<Rightarrow> retrieval_cache" where
  "rcache_set key r now c = (if rca_ttl c > 0 then c\<lparr>rca_entries := dict_set key (r\<lparr>rr_stale := False, rr_cached := False\<rparr>, now + rca_ttl c * 1000000) (rca_entries c)\<rparr> else c)"

definition rcache_clear :: "retrieval_cache \<Rightarrow> retrieval_cache" where
  "rcache_clear c = c\<lparr>rca_entries := []\<rparr>"


section \<open>The service\<close>

record index_view =
  iv_active_version :: "string \<Rightarrow> rag_error + string option"
  iv_dense_search :: "pyfloat list \<Rightarrow> retrieval_filters \<Rightarrow> nat \<Rightarrow> rag_error + (knowledge_chunk_record \<times> pyfloat) list"
  iv_keyword_search :: "string \<Rightarrow> retrieval_filters \<Rightarrow> nat \<Rightarrow> rag_error + (knowledge_chunk_record \<times> pyfloat) list"
  iv_get_chunk :: "string \<Rightarrow> knowledge_chunk_record option"

definition memory_view :: "libm \<Rightarrow> memory_index \<Rightarrow> index_view" where
  "memory_view m ix = \<lparr>iv_active_version = (\<lambda>source. Inr (mi_active_version source ix)), iv_dense_search = (\<lambda>v f limit. mi_dense_search m v f limit ix),
     iv_keyword_search = (\<lambda>query f limit. Inr (mi_keyword_search query f limit ix)), iv_get_chunk = (\<lambda>i. mi_get_chunk i ix)\<rparr>"

record rag_service =
  sv_registry :: source_registry
  sv_embeddings :: embedding_provider
  sv_candidates :: nat
  sv_half_life_days :: pyfloat
  sv_cache :: retrieval_cache
  sv_top_k :: nat
  sv_token_budget :: nat

record clock_readings =
  at_lookup :: time
  at_rank :: "nat \<Rightarrow> time"
  at_store :: time

definition current_version :: "index_view \<Rightarrow> rag_service \<Rightarrow> rag_error + string option" where
  "current_version ix sv =
     and_then (traverse (\<lambda>d. and_then (iv_active_version ix (so_source_id d)) (\<lambda>v. Inr (so_source_id d, v))) (all_sources (sv_registry sv)))
       (\<lambda>pairs. let parts = [source @ ''='' @ or_empty v. (source, v) \<leftarrow> pairs, truthy v] in Inr (if parts = [] then None else Some (join ''|'' parts)))"

definition is_ready :: "index_view \<Rightarrow> rag_service \<Rightarrow> rag_error + bool" where
  "is_ready ix sv = and_then (current_version ix sv) (\<lambda>v. Inr (v \<noteq> None))"

definition hybrid_retrieve :: "rag_env \<Rightarrow> index_view \<Rightarrow> rag_service \<Rightarrow> (nat \<Rightarrow> time) \<Rightarrow> string \<Rightarrow> retrieval_filters \<Rightarrow> rag_error + retrieved_chunk list" where
  "hybrid_retrieve e ix sv now query f =
     and_then (iv_dense_search ix (ep_embed (sv_embeddings sv) query) f (sv_candidates sv)) (\<lambda>dense.
     and_then (iv_keyword_search ix query f (sv_candidates sv)) (\<lambda>keyword.
       Inr (rank (libm.truncate e) (sv_half_life_days sv) now (fuse dense keyword))))"

definition pick_top_k :: "rag_service \<Rightarrow> nat option \<Rightarrow> nat" where
  "pick_top_k sv k = (case k of Some (Suc n) \<Rightarrow> Suc n | _ \<Rightarrow> sv_top_k sv)"

definition live_result :: "rag_service \<Rightarrow> string \<Rightarrow> nat option \<Rightarrow> string option \<Rightarrow> retrieved_chunk list \<Rightarrow> retrieval_result" where
  "live_result sv query k version ranked = (let selected = take_within_budget (pick_top_k sv k) (sv_token_budget sv) ranked in
     \<lparr>rr_query = query, rr_chunks = selected, rr_citations = bind_citations selected, rr_index_version = version,
      rr_estimated_tokens = sum_list (map (\<lambda>i. estimate_tokens (kr_content (rt_chunk i))) selected), rr_stale = False, rr_cached = False\<rparr>)"

definition retrieve :: "rag_env \<Rightarrow> index_view \<Rightarrow> clock_readings \<Rightarrow> string \<Rightarrow> retrieval_filters option \<Rightarrow> nat option \<Rightarrow> rag_service \<Rightarrow> (rag_error + retrieval_result) \<times> rag_service" where
  "retrieve e ix t query f k sv =
     (let active = (case f of None \<Rightarrow> no_filters | Some f \<Rightarrow> f) in
      case current_version ix sv of Inl err \<Rightarrow> (Inl err, sv)
      | Inr version \<Rightarrow>
        (let key = cache_key e query active version in
         case rcache_get key (at_lookup t) (sv_cache sv) of Some r \<Rightarrow> (Inr r, sv)
         | None \<Rightarrow> (case hybrid_retrieve e ix sv (at_rank t) query active of
             Inl _ \<Rightarrow> (case rcache_get_stale key (sv_cache sv) of Some r \<Rightarrow> (Inr r, sv)
               | None \<Rightarrow> (Inr \<lparr>rr_query = query, rr_chunks = [], rr_citations = [], rr_index_version = version, rr_estimated_tokens = 0, rr_stale = True, rr_cached = False\<rparr>, sv))
           | Inr ranked \<Rightarrow> (let r = live_result sv query k version ranked in (Inr r, sv\<lparr>sv_cache := rcache_set key r (at_store t) (sv_cache sv)\<rparr>)))))"

text \<open>\<^verbatim>\<open>RagKnowledgeMemory.search\<close>.\<close>

definition knowledge_search :: "rag_env \<Rightarrow> index_view \<Rightarrow> clock_readings \<Rightarrow> retrieval_filters option \<Rightarrow> string \<Rightarrow> nat \<Rightarrow> rag_service \<Rightarrow> (rag_error + knowledge_chunk list) \<times> rag_service" where
  "knowledge_search e ix t f query limit sv = (case retrieve e ix t query f (Some limit) sv of (out, sv') \<Rightarrow>
     (and_then out (\<lambda>r. Inr (map (\<lambda>i. \<lparr>kc_chunk_id = rt_id i, kc_content = kr_content (rt_chunk i), kc_source = md_source_name (kr_metadata (rt_chunk i)),
        kc_score = Some (rt_score i), kc_index_version = rr_index_version r\<rparr>) (rr_chunks r))), sv'))"


section \<open>The cache keeps the contract of an expiring store\<close>

record grounded_answer =
  ga_query :: string
  ga_chunks :: "retrieved_chunk list"
  ga_citations :: "citation list"
  ga_index_version :: "string option"
  ga_estimated_tokens :: nat

definition answer_of :: "retrieval_result \<Rightarrow> grounded_answer" where
  "answer_of r = \<lparr>ga_query = rr_query r, ga_chunks = rr_chunks r, ga_citations = rr_citations r, ga_index_version = rr_index_version r, ga_estimated_tokens = rr_estimated_tokens r\<rparr>"

definition result_of :: "grounded_answer \<Rightarrow> retrieval_result" where
  "result_of a = \<lparr>rr_query = ga_query a, rr_chunks = ga_chunks a, rr_citations = ga_citations a, rr_index_version = ga_index_version a,
     rr_estimated_tokens = ga_estimated_tokens a, rr_stale = False, rr_cached = False\<rparr>"

lemma answer_of_flags [simp]: "answer_of (r\<lparr>rr_stale := a\<rparr>) = answer_of r" "answer_of (r\<lparr>rr_cached := b\<rparr>) = answer_of r" "answer_of (result_of x) = x"
  by (simp_all add: answer_of_def result_of_def)

interpretation rag_cache: expiring_store "\<lambda>now k a. rcache_set k (result_of a) now" "\<lambda>now k c. map_option answer_of (rcache_get k now c)"
  "\<lambda>k c. map_option answer_of (rcache_get_stale k c)" "\<lambda>now c. now + rca_ttl c * 1000000" "\<lambda>c. rca_ttl c > 0"
  by unfold_locales (auto simp: rcache_set_def rcache_get_def rcache_get_stale_def dict_set_lookup split: option.splits if_splits)

definition clean_cache :: "retrieval_cache \<Rightarrow> bool" where
  "clean_cache c = (\<forall>k r t. map_of (rca_entries c) k = Some (r, t) \<longrightarrow> \<not> rr_stale r \<and> \<not> rr_cached r)"

lemma clean_cache_get: "clean_cache c \<Longrightarrow> rcache_get k now c = Some r \<Longrightarrow> \<not> rr_stale r \<and> rr_cached r"
proof -
  assume c: "clean_cache c" and g: "rcache_get k now c = Some r"
  then obtain r' t where e: "map_of (rca_entries c) k = Some (r', t)" "r = r'\<lparr>rr_cached := True\<rparr>" by (auto simp: rcache_get_def split: option.splits if_splits)
  from c e(1) have "\<not> rr_stale r'" unfolding clean_cache_def by blast
  then show ?thesis by (simp add: e(2))
qed

lemma rcache_get_stale_flags: "rcache_get_stale k c = Some r \<Longrightarrow> rr_stale r \<and> rr_cached r"
  by (auto simp: rcache_get_stale_def)



abbreviation chosen_filters :: "retrieval_filters option \<Rightarrow> retrieval_filters" where
  "chosen_filters f \<equiv> case f of None \<Rightarrow> no_filters | Some f \<Rightarrow> f"

lemma retrieve_cases:
  "retrieve e ix t q f k sv = (case current_version ix sv of Inl err \<Rightarrow> (Inl err, sv)
    | Inr version \<Rightarrow> (case rcache_get (cache_key e q (chosen_filters f) version) (at_lookup t) (sv_cache sv) of Some r \<Rightarrow> (Inr r, sv)
      | None \<Rightarrow> (case hybrid_retrieve e ix sv (at_rank t) q (chosen_filters f) of
          Inl _ \<Rightarrow> (Inr (case rcache_get_stale (cache_key e q (chosen_filters f) version) (sv_cache sv) of Some r \<Rightarrow> r
            | None \<Rightarrow> \<lparr>rr_query = q, rr_chunks = [], rr_citations = [], rr_index_version = version, rr_estimated_tokens = 0, rr_stale = True, rr_cached = False\<rparr>), sv)
        | Inr ranked \<Rightarrow> (Inr (live_result sv q k version ranked),
            sv\<lparr>sv_cache := rcache_set (cache_key e q (chosen_filters f) version) (live_result sv q k version ranked) (at_store t) (sv_cache sv)\<rparr>))))"
  unfolding retrieve_def Let_def by (simp split: sum.split option.split)

text \<open>The version lookup that builds the cache key is not covered: when it fails, the retrieval fails with it, whatever the cache holds.\<close>

lemma version_lookup_escapes: "current_version ix sv = Inl err \<Longrightarrow> retrieve e ix t q f k sv = (Inl err, sv)"
  by (simp add: retrieve_cases)




section \<open>What a live answer is made of\<close>

lemma map_rt_id_rank: "set (map rt_chunk (rank m h now cs)) = set (map rt_chunk cs)" "distinct (map rt_id cs) \<Longrightarrow> distinct (map rt_id (rank m h now cs))"
proof -
  let ?scored = "map (\<lambda>(n, item). rank_item m h (now n) (normalize_scores (map rt_dense_score cs) ! n) (normalize_scores (map rt_keyword_score cs) ! n) item) (enumerate 0 cs)"
  have r: "rank m h now cs = sort_key (\<lambda>i. (- rt_score i, rt_id i)) ?scored" by (simp only: rank_def Let_def)
  have same: "map rt_chunk ?scored = map rt_chunk cs" by (rule nth_equalityI) (simp_all add: nth_enumerate_eq)
  have "set (map rt_chunk (sort_key f xs)) = set (map rt_chunk xs)" for f :: "retrieved_chunk \<Rightarrow> pyfloat \<times> string" and xs by (simp only: set_map set_sort)
  then show "set (map rt_chunk (rank m h now cs)) = set (map rt_chunk cs)" unfolding r same[symmetric] .
  have "mset (map rt_id (rank m h now cs)) = mset (map rt_id ?scored)" unfolding r by (simp only: mset_map mset_sort)
  also have "map rt_id ?scored = map rt_id cs" using arg_cong[OF same, of "map kr_chunk_id"] unfolding map_map comp_def .
  finally show "distinct (map rt_id cs) \<Longrightarrow> distinct (map rt_id (rank m h now cs))" using mset_eq_imp_distinct_iff by blast
qed

lemma fuse_chunks: "i \<in> set (fuse dense keyword) \<Longrightarrow> rt_chunk i \<in> fst ` set (dense @ keyword)"
proof -
  define P where "P d = (\<forall>i \<in> set (map snd d). rt_chunk i \<in> fst ` set (dense @ keyword))" for d :: "(string, retrieved_chunk) dict"
  have put: "P (dict_set k v d)" if "P d" "rt_chunk v \<in> fst ` set (dense @ keyword)" for k v d
    using that by (induction k v d rule: dict_set.induct) (auto simp: P_def)
  have d: "P (fold merge_dense xs d)" if "set xs \<subseteq> set (dense @ keyword)" "P d" for xs d
    using that
  proof (induction xs arbitrary: d)
    case (Cons x xs)
    obtain r s where x: "x = (r, s)" by (cases x)
    have "P (merge_dense x d)" unfolding x merge_dense_def prod.case by (rule put) (use Cons.prems x in \<open>auto simp: found_by_def intro: image_eqI[rotated]\<close>)
    with Cons show ?case by simp
  qed simp
  have k: "P (fold merge_keyword xs d)" if "set xs \<subseteq> set (dense @ keyword)" "P d" for xs d
    using that
  proof (induction xs arbitrary: d)
    case (Cons x xs)
    obtain r s where x: "x = (r, s)" by (cases x)
    have r: "r \<in> fst ` set (dense @ keyword)" using Cons.prems(1) x by (auto intro: image_eqI[rotated])
    have "P (merge_keyword x d)" unfolding x merge_keyword_def prod.case
    proof (rule put[OF Cons.prems(2)], cases "map_of d (kr_chunk_id r)")
      case None
      then show "rt_chunk (case map_of d (kr_chunk_id r) of None \<Rightarrow> found_by Keyword_Path r s
        | Some item \<Rightarrow> item\<lparr>rt_keyword_score := s, rt_matched_by := rt_matched_by item @ [Keyword_Path]\<rparr>) \<in> fst ` set (dense @ keyword)"
        using r by (simp add: found_by_def)
    next
      case (Some i)
      then have "rt_chunk i \<in> fst ` set (dense @ keyword)" using Cons.prems(2) map_of_SomeD[OF Some] unfolding P_def by force
      then show "rt_chunk (case map_of d (kr_chunk_id r) of None \<Rightarrow> found_by Keyword_Path r s
        | Some item \<Rightarrow> item\<lparr>rt_keyword_score := s, rt_matched_by := rt_matched_by item @ [Keyword_Path]\<rparr>) \<in> fst ` set (dense @ keyword)"
        using Some by simp
    qed
    with Cons show ?case by simp
  qed simp
  assume "i \<in> set (fuse dense keyword)"
  moreover have "P (fold merge_keyword keyword (fold merge_dense dense []))" by (rule k, simp, rule d) (simp_all add: P_def)
  ultimately show ?thesis by (auto simp: fuse_def P_def)
qed

lemma fuse_distinct: "distinct (map rt_id (fuse dense keyword))"
proof -
  let ?D = "fold merge_keyword keyword (fold merge_dense dense [])"
  have own0: "own_keys []" by (simp add: own_keys_def)
  then have own: "own_keys ?D" using fold_merge_dense[of dense "[]"] fold_merge_keyword[of keyword "fold merge_dense dense []"] by blast
  have dist: "distinct (map fst ?D)" by (simp only: fuse_keys distinct_unique)
  have "rt_id (snd p) = fst p" if "p \<in> set ?D" for p using own that dist by (cases p) (simp add: own_keys_def)
  then have "map rt_id (fuse dense keyword) = map fst ?D" by (auto simp: fuse_def)
  then show ?thesis using dist by simp
qed

lemma memory_dense_ok:
  assumes "list_all (\<lambda>c. length (ec_embedding c) = length v) (mi_chunks ix)"
  obtains found where "mi_dense_search m v f limit ix = Inr found"
    "\<forall>p \<in> set found. \<exists>c \<in> set (live_chunks ix). fst p = knowledge_chunk_record.truncate c \<and> matches_filters c f"
proof -
  let ?cs = "filter (\<lambda>c. matches_filters c f) (live_chunks ix)" and ?score = "\<lambda>c. and_then (cosine_similarity m v (ec_embedding c)) (\<lambda>score. Inr (c, score))"
  have ok: "\<forall>c \<in> set ?cs. \<not> isl (?score c)" using assms by (auto simp: list_all_iff live_chunks_def cosine_similarity_def Let_def)
  have all_ok: "\<exists>ys. traverse g xs = Inr ys" if "\<forall>c \<in> set xs. \<not> isl (g c)" for g :: "embedded_chunk \<Rightarrow> rag_error + embedded_chunk \<times> pyfloat" and xs
    using that
  proof (induction xs)
    case (Cons x xs)
    then show ?case by (cases "g x") auto
  qed simp
  from all_ok[OF ok] obtain scored where s: "traverse ?score ?cs = Inr scored" by blast
  have "\<exists>c \<in> set (live_chunks ix). fst p = knowledge_chunk_record.truncate c \<and> matches_filters c f" if "p \<in> set (best limit scored)" for p
  proof -
    obtain r t where p: "p = (r, t)" by (cases p)
    from best_sound[of r t limit scored] that p obtain c where c: "(c, t) \<in> set scored" "r = knowledge_chunk_record.truncate c" by blast
    from traverse_mem[OF s c(1)] obtain d where "d \<in> set ?cs" "?score d = Inr (c, t)" by blast
    then have "c \<in> set ?cs" by (auto simp: and_then_Inr)
    then show ?thesis using p c(2) by auto
  qed
  then show thesis by (intro that[of "best limit scored"]) (simp_all add: mi_dense_search_def s)
qed

lemma memory_keyword_ok:
  "\<forall>p \<in> set (mi_keyword_search q f limit ix). \<exists>c \<in> set (live_chunks ix). fst p = knowledge_chunk_record.truncate c \<and> matches_filters c f"
proof
  fix p assume p: "p \<in> set (mi_keyword_search q f limit ix)"
  obtain r t where e: "p = (r, t)" by (cases p)
  from best_sound[of r t limit] p e show "\<exists>c \<in> set (live_chunks ix). fst p = knowledge_chunk_record.truncate c \<and> matches_filters c f"
    unfolding mi_keyword_search_def by fastforce
qed

lemma take_from_prefix: "\<exists>n. take_from budget used some xs = take n xs"
proof (induction xs arbitrary: used some)
  case (Cons i xs)
  let ?c = "estimate_tokens (kr_content (rt_chunk i))"
  obtain n where "take_from budget (used + ?c) True xs = take n xs" using Cons.IH by blast
  then have "take_from budget used some (i # xs) = (if some \<and> used + ?c > budget then take 0 (i # xs) else take (Suc n) (i # xs))" by (simp add: Let_def)
  then show ?case by (metis (full_types))
qed simp

lemma selected_prefix: obtains n where "take_within_budget top_k budget ranked = take n ranked"
proof -
  obtain n where "take_within_budget top_k budget ranked = take n (take top_k ranked)" using take_from_prefix unfolding take_within_budget_def by blast
  then show thesis by (intro that[of "min n top_k"]) (simp add: min.commute)
qed

lemma bind_citation_key: "kr_chunk_id r \<noteq> [] \<Longrightarrow> cite_key (bind_citation r) = kr_chunk_id r" "cit_chunk_id (bind_citation r) = Some (kr_chunk_id r)"
  by (simp_all add: cite_key_def bind_citation_def Let_def split: list.splits)

lemma resolvable_bind: "kr_chunk_id r \<noteq> [] \<Longrightarrow> get (kr_chunk_id r) \<noteq> None \<Longrightarrow> is_resolvable get (bind_citation r)"
  by (cases "kr_chunk_id r") (simp_all add: is_resolvable_def resolve_def bind_citation_key(2))

lemma bind_citations_all:
  assumes "distinct (map rt_id xs)" "\<forall>i \<in> set xs. rt_id i \<noteq> []"
  shows "bind_citations xs = map (bind_citation \<circ> rt_chunk) xs"
proof -
  have "map cite_key (map (bind_citation \<circ> rt_chunk) xs) = map rt_id xs" using assms(2) by (simp add: bind_citation_key(1))
  then have "distinct (map cite_key (map (bind_citation \<circ> rt_chunk) xs))" by (simp only: assms(1))
  then show ?thesis unfolding bind_citations_def by (rule dedup_by_idem) simp
qed

text \<open>C12: 
  A live answer is grounded and can be checked. When the index in process answers, every chunk handed out is a chunk of an active index version that passes the
  filters, every chunk has exactly one citation, in the same order, every citation resolves in the index, and the answer records the corpus version it came from.
\<close>
theorem live_answers_grounded:
  assumes "list_all (\<lambda>c. length (ec_embedding c) = length (ep_embed (sv_embeddings sv) q) \<and> kr_chunk_id c \<noteq> []) (mi_chunks ix)"
    and "current_version (memory_view m ix) sv = Inr version"
    and "rcache_get (cache_key e q (chosen_filters f) version) (at_lookup t) (sv_cache sv) = None"
  shows "case fst (retrieve e (memory_view m ix) t q f k sv) of Inl _ \<Rightarrow> False
    | Inr r \<Rightarrow> \<not> rr_stale r \<and> \<not> rr_cached r \<and> rr_index_version r = version
      \<and> list_all (\<lambda>i. list_ex (\<lambda>c. rt_chunk i = knowledge_chunk_record.truncate c \<and> matches_filters c (chosen_filters f)) (live_chunks ix)) (rr_chunks r)
      \<and> map cit_chunk_id (rr_citations r) = map (Some \<circ> rt_id) (rr_chunks r)
      \<and> list_all (is_resolvable (iv_get_chunk (memory_view m ix))) (rr_citations r)"
proof -
  let ?f = "chosen_filters f" and ?v = "ep_embed (sv_embeddings sv) q"
  have emb: "list_all (\<lambda>c. length (ec_embedding c) = length ?v) (mi_chunks ix)" using assms(1) by (simp add: list_all_iff)
  obtain dense where d: "mi_dense_search m ?v ?f (sv_candidates sv) ix = Inr dense"
    "\<forall>p \<in> set dense. \<exists>c \<in> set (live_chunks ix). fst p = knowledge_chunk_record.truncate c \<and> matches_filters c ?f" using memory_dense_ok[OF emb] by blast
  let ?kw = "mi_keyword_search q ?f (sv_candidates sv) ix"
  let ?ranked = "rank (libm.truncate e) (sv_half_life_days sv) (at_rank t) (fuse dense ?kw)"
  have h: "hybrid_retrieve e (memory_view m ix) sv (at_rank t) q ?f = Inr ?ranked" by (simp add: hybrid_retrieve_def memory_view_def d(1))
  let ?r = "live_result sv q k version ?ranked"
  have out: "fst (retrieve e (memory_view m ix) t q f k sv) = Inr ?r" by (simp only: retrieve_cases assms(2,3) h sum.case option.case fst_conv)
  obtain n where n: "rr_chunks ?r = take n ?ranked" using selected_prefix by (metis live_result_def retrieval_result.select_convs(2))
  have sub: "set (take n ?ranked) \<subseteq> set ?ranked" by (rule set_take_subset)
  have ch: "\<exists>c \<in> set (live_chunks ix). rt_chunk i = knowledge_chunk_record.truncate c \<and> matches_filters c ?f" if "i \<in> set (rr_chunks ?r)" for i
  proof -
    from that sub have "rt_chunk i \<in> set (map rt_chunk ?ranked)" unfolding n by auto
    then obtain j where j: "j \<in> set (fuse dense ?kw)" "rt_chunk i = rt_chunk j" unfolding map_rt_id_rank(1) by auto
    from fuse_chunks[OF j(1)] obtain p where "p \<in> set (dense @ ?kw)" "rt_chunk j = fst p" by auto
    then show ?thesis using d(2) memory_keyword_ok j(2) by fastforce
  qed
  have live: "c \<in> set (mi_chunks ix)" if "c \<in> set (live_chunks ix)" for c using that by (simp add: live_chunks_def)
  have ids: "rt_id i \<noteq> [] \<and> mi_get_chunk (rt_id i) ix \<noteq> None" if i: "i \<in> set (rr_chunks ?r)" for i
  proof -
    obtain c where c: "c \<in> set (live_chunks ix)" "rt_chunk i = knowledge_chunk_record.truncate c" using ch[OF i] by blast
    then have "rt_id i = kr_chunk_id c" by (simp add: knowledge_chunk_record.truncate_def)
    then show ?thesis using assms(1) live[OF c(1)] by (auto simp: list_all_iff mi_get_chunk_def find_None_iff)
  qed
  have "distinct (map rt_id ?ranked)" by (rule map_rt_id_rank(2)[OF fuse_distinct])
  then have dist: "distinct (map rt_id (rr_chunks ?r))" unfolding n by (simp add: distinct_take flip: take_map)
  have cits: "rr_citations ?r = map (bind_citation \<circ> rt_chunk) (rr_chunks ?r)"
    using bind_citations_all[OF dist] ids by (simp add: live_result_def Let_def)
  show ?thesis unfolding out sum.case cits
  proof (intro conjI)
    show "list_all (\<lambda>i. list_ex (\<lambda>c. rt_chunk i = knowledge_chunk_record.truncate c \<and> matches_filters c ?f) (live_chunks ix)) (rr_chunks ?r)"
      using ch by (auto simp: list_all_iff list_ex_iff)
    show "map cit_chunk_id (map (bind_citation \<circ> rt_chunk) (rr_chunks ?r)) = map (Some \<circ> rt_id) (rr_chunks ?r)" by (simp add: bind_citation_key(2))
    show "list_all (is_resolvable (iv_get_chunk (memory_view m ix))) (map (bind_citation \<circ> rt_chunk) (rr_chunks ?r))"
      using ids by (simp add: list_all_iff resolvable_bind memory_view_def)
  qed (simp_all add: live_result_def Let_def)
qed

text \<open>
  The cache does not know how many chunks were asked for. Once a retrieval has been answered live, every retrieval of the same query and filters within the time to live
  gets that very answer, whatever number of chunks it asks for: fewer than asked for, or more.
\<close>
theorem cached_answer_ignores_top_k:
  assumes "current_version ix sv = Inr version" "rca_ttl (sv_cache sv) > 0"
    and "rcache_get (cache_key e q (chosen_filters f) version) (at_lookup t) (sv_cache sv) = None"
    and "hybrid_retrieve e ix sv (at_rank t) q (chosen_filters f) = Inr ranked"
    and "at_lookup t' < at_store t + rca_ttl (sv_cache sv) * 1000000"
  shows "case retrieve e ix t q f k sv of (out, sv') \<Rightarrow>
    \<not> isl out \<and> rr_chunks (projr out) = take_within_budget (pick_top_k sv k) (sv_token_budget sv) ranked
    \<and> fst (retrieve e ix t' q f k' sv') = Inr (projr out\<lparr>rr_cached := True\<rparr>)"
proof -
  let ?key = "cache_key e q (chosen_filters f) version"
  let ?r = "live_result sv q k version ranked"
  let ?sv = "sv\<lparr>sv_cache := rcache_set ?key ?r (at_store t) (sv_cache sv)\<rparr>"
  have first: "retrieve e ix t q f k sv = (Inr ?r, ?sv)" by (simp only: retrieve_cases assms(1,3,4) sum.case option.case)
  have v: "current_version ix ?sv = Inr version" using assms(1) by (simp add: current_version_def)
  have same: "?r\<lparr>rr_stale := False, rr_cached := False\<rparr> = ?r" by (simp add: live_result_def Let_def)
  have g: "rcache_get ?key (at_lookup t') (sv_cache ?sv) = Some (?r\<lparr>rr_cached := True\<rparr>)"
    using assms(2,5) same by (simp add: rcache_get_def rcache_set_def dict_set_lookup)
  have second: "fst (retrieve e ix t' q f k' ?sv) = Inr (?r\<lparr>rr_cached := True\<rparr>)" by (simp only: retrieve_cases v g sum.case option.case fst_conv)
  have "rr_chunks ?r = take_within_budget (pick_top_k sv k) (sv_token_budget sv) ranked" by (simp add: live_result_def Let_def)
  with first second show ?thesis by simp
qed


section \<open>Witnesses\<close>

definition sample_env :: rag_env where
  "sample_env = libm.extend sample_libm \<lparr>re_dump_filters = (\<lambda>f. [])\<rparr>"

definition sample_embedded :: embedded_chunk where
  "sample_embedded = knowledge_chunk_record.extend sample_record \<lparr>ec_embedding = [1]\<rparr>"

definition sample_index :: memory_index where
  "sample_index = \<lparr>mi_chunks = [sample_embedded], mi_active = [(''internal_runbooks'', ''v1'')]\<rparr>"

definition sample_service :: rag_service where
  "sample_service = \<lparr>sv_registry = [], sv_embeddings = \<lparr>ep_model = ''m'', ep_dimensions = 1, ep_embed = (\<lambda>t. [1])\<rparr>, sv_candidates = 50, sv_half_life_days = 180,
     sv_cache = \<lparr>rca_ttl = 900, rca_entries = []\<rparr>, sv_top_k = 5, sv_token_budget = 4000\<rparr>"

definition sample_readings :: clock_readings where
  "sample_readings = \<lparr>at_lookup = 0, at_rank = (\<lambda>n. 0), at_store = 0\<rparr>"

definition sample_view :: index_view where
  "sample_view = \<lparr>iv_active_version = (\<lambda>s. Inr None), iv_dense_search = (\<lambda>v f n. Inr []), iv_keyword_search = (\<lambda>q f n. Inr [(sample_record, 1 / 2)]), iv_get_chunk = (\<lambda>i. None)\<rparr>"

definition sample_ranked :: "retrieved_chunk list" where
  "sample_ranked = rank (libm.truncate sample_env) 180 (\<lambda>n. 0) (fuse [] [(sample_record, 1 / 2)])"


lemma live_answers_grounded_witness:
  "case fst (retrieve sample_env (memory_view sample_libm sample_index) sample_readings ''disable'' None None sample_service) of Inl _ \<Rightarrow> False
    | Inr r \<Rightarrow> \<not> rr_stale r \<and> \<not> rr_cached r \<and> rr_index_version r = None
      \<and> list_all (\<lambda>i. list_ex (\<lambda>c. rt_chunk i = knowledge_chunk_record.truncate c \<and> matches_filters c (chosen_filters None)) (live_chunks sample_index)) (rr_chunks r)
      \<and> map cit_chunk_id (rr_citations r) = map (Some \<circ> rt_id) (rr_chunks r)
      \<and> list_all (is_resolvable (iv_get_chunk (memory_view sample_libm sample_index))) (rr_citations r)"
  by (rule live_answers_grounded)
    (simp_all add: sample_index_def sample_embedded_def sample_record_def knowledge_chunk_record.extend_def sample_service_def current_version_def all_sources_def rcache_get_def)

lemma cached_answer_ignores_top_k_witness:
  "case retrieve sample_env sample_view sample_readings ''disable'' None (Some 1) sample_service of (out, sv') \<Rightarrow>
    \<not> isl out \<and> rr_chunks (projr out) = take_within_budget (pick_top_k sample_service (Some 1)) (sv_token_budget sample_service) sample_ranked
    \<and> fst (retrieve sample_env sample_view sample_readings ''disable'' None (Some 9) sv') = Inr (projr out\<lparr>rr_cached := True\<rparr>)"
  by (rule cached_answer_ignores_top_k[where version = None])
    (simp_all add: sample_service_def current_version_def all_sources_def rcache_get_def hybrid_retrieve_def sample_view_def sample_ranked_def sample_readings_def)

end
