(* ===== verification/Ingestion.thy ===== *)
theory Ingestion
  imports Rag_Service
begin

text \<open>
  Ingestion of knowledge sources (\<^verbatim>\<open>rag/ingestion.py\<close>) into the index in process and into the PostgreSQL index (\<^verbatim>\<open>PgVectorStore\<close> of
  \<^verbatim>\<open>rag/index.py\<close>, over the tables of \<^verbatim>\<open>backend/db/orm/knowledge.py\<close>). The pipeline is written over the record \<open>ingest_store\<close> of the writes it makes; what
  is shared by every index is the locale \<open>versioned_index\<close>, with both stores as interpretations. Shown: only allow-listed provenance enters, a refresh changes exactly
  one source and keeps everything addressable, and where the two stores part.
\<close>

section \<open>The store the pipeline writes to\<close>

record 's ingest_store =
  is_record_version :: "(string \<Rightarrow> string \<Rightarrow> string \<Rightarrow> nat \<Rightarrow> nat \<Rightarrow> nat \<Rightarrow> 's \<Rightarrow> rag_error + 's) option"
  is_add_chunks :: "embedded_chunk list \<Rightarrow> string \<Rightarrow> 's \<Rightarrow> rag_error + 's"
  is_activate_version :: "string \<Rightarrow> string \<Rightarrow> 's \<Rightarrow> rag_error + nat \<times> 's"
  is_active_version :: "string \<Rightarrow> 's \<Rightarrow> rag_error + string option"

definition in_process_store :: "memory_index ingest_store" where
  "in_process_store = \<lparr>is_record_version = None, is_add_chunks = (\<lambda>cs v ix. Inr (snd (mi_add_chunks cs v ix))),
     is_activate_version = (\<lambda>source v ix. Inr (mi_activate_version source v ix)), is_active_version = (\<lambda>source ix. Inr (mi_active_version source ix))\<rparr>"


section \<open>The PostgreSQL index\<close>

datatype index_status = Ix_Building | Ix_Active | Ix_Retired

record index_version_row =
  vr_source_id :: string
  vr_version :: string
  vr_embedding_model :: string
  vr_embedding_dimensions :: nat
  vr_status :: index_status
  vr_document_count :: nat
  vr_chunk_count :: nat
  vr_activated_at :: "time option"
  vr_retired_at :: "time option"

record chunk_row =
  cw_chunk :: embedded_chunk
  cw_created_at :: time
  cw_retired_at :: "time option"

record pg_index =
  pg_rows :: "chunk_row list"
  pg_versions :: "index_version_row list"

abbreviation row_key :: "chunk_row \<Rightarrow> string \<times> string option" where
  "row_key w \<equiv> (kr_chunk_id (cw_chunk w), kr_index_version (cw_chunk w))"

text \<open>The unique constraint on chunk identifier and version is checked when the session is flushed; a violation rolls the whole batch back.\<close>

definition pg_add_chunks :: "time \<Rightarrow> embedded_chunk list \<Rightarrow> string \<Rightarrow> pg_index \<Rightarrow> rag_error + pg_index" where
  "pg_add_chunks now chunks version ix =
     (let rows = map (\<lambda>c. \<lparr>cw_chunk = c\<lparr>kr_index_version := Some version\<rparr>, cw_created_at = now, cw_retired_at = None\<rparr>) chunks in
      if distinct (map row_key rows) \<and> set (map row_key rows) \<inter> set (map row_key (pg_rows ix)) = {} then Inr (ix\<lparr>pg_rows := pg_rows ix @ rows\<rparr>) else Inl Integrity_Error)"

text \<open>Likewise the unique constraint on source and version.\<close>

definition pg_record_version :: "string \<Rightarrow> string \<Rightarrow> string \<Rightarrow> nat \<Rightarrow> nat \<Rightarrow> nat \<Rightarrow> pg_index \<Rightarrow> rag_error + pg_index" where
  "pg_record_version source version model dims documents chunks ix =
     (if list_ex (\<lambda>r. vr_source_id r = source \<and> vr_version r = version) (pg_versions ix) then Inl Integrity_Error
      else Inr (ix\<lparr>pg_versions := pg_versions ix @ [\<lparr>vr_source_id = source, vr_version = version, vr_embedding_model = model, vr_embedding_dimensions = dims,
        vr_status = Ix_Building, vr_document_count = documents, vr_chunk_count = chunks, vr_activated_at = None, vr_retired_at = None\<rparr>]\<rparr>))"

definition retires :: "string \<Rightarrow> string \<Rightarrow> index_version_row \<Rightarrow> bool" where
  "retires source version r = (vr_source_id r = source \<and> vr_status r = Ix_Active \<and> vr_version r \<noteq> version)"

definition retire_chunks :: "time \<Rightarrow> string \<Rightarrow> index_version_row \<Rightarrow> nat \<times> chunk_row list \<Rightarrow> nat \<times> chunk_row list" where
  "retire_chunks now source r = (\<lambda>(n, rows).
     let hit = (\<lambda>w. md_source_id (kr_metadata (cw_chunk w)) = source \<and> kr_index_version (cw_chunk w) = Some (vr_version r) \<and> cw_retired_at w = None) in
     (n + length (filter hit rows), map (\<lambda>w. if hit w then w\<lparr>cw_retired_at := Some now\<rparr> else w) rows))"

definition pg_activate_version :: "time \<Rightarrow> string \<Rightarrow> string \<Rightarrow> pg_index \<Rightarrow> rag_error + nat \<times> pg_index" where
  "pg_activate_version now source version ix =
     (let previous = filter (retires source version) (pg_versions ix);
          (retired, rows) = fold (retire_chunks now source) previous (0, pg_rows ix);
          versions = map (\<lambda>r. if retires source version r then r\<lparr>vr_status := Ix_Retired, vr_retired_at := Some now\<rparr> else r) (pg_versions ix);
          current = (\<lambda>r. vr_source_id r = source \<and> vr_version r = version) in
      if length (filter current versions) > 1 then Inl Multiple_Results_Found
      else Inr (retired, ix\<lparr>pg_rows := rows, pg_versions := map (\<lambda>r. if current r then r\<lparr>vr_status := Ix_Active, vr_activated_at := Some now\<rparr> else r) versions\<rparr>))"

definition pg_active_version :: "string \<Rightarrow> pg_index \<Rightarrow> rag_error + string option" where
  "pg_active_version source ix = (case filter (\<lambda>r. vr_source_id r = source \<and> vr_status r = Ix_Active) (pg_versions ix) of
     [] \<Rightarrow> Inr None | [r] \<Rightarrow> Inr (Some (vr_version r)) | _ \<Rightarrow> Inl Multiple_Results_Found)"

definition pg_store :: "time \<Rightarrow> pg_index ingest_store" where
  "pg_store now = \<lparr>is_record_version = Some pg_record_version, is_add_chunks = pg_add_chunks now, is_activate_version = pg_activate_version now, is_active_version = pg_active_version\<rparr>"

text \<open>
  Searching. \<open>base_query\<close> is the \<^verbatim>\<open>where\<close> clause both searches start from, with SQL's treatment of missing values; the database's distance and its
  \<^verbatim>\<open>ilike\<close> are arguments, and rows come in the order the database holds them.
\<close>

definition base_query :: "retrieval_filters \<Rightarrow> chunk_row \<Rightarrow> bool" where
  "base_query f w = (let md = kr_metadata (cw_chunk w) in
     cw_retired_at w = None
     \<and> (rf_source_kinds f = [] \<or> md_source_kind md \<in> set (rf_source_kinds f))
     \<and> (rf_cve_ids f = [] \<or> (case md_cve_id md of None \<Rightarrow> False | Some c \<Rightarrow> c \<in> set (rf_cve_ids f)))
     \<and> (rf_technique_ids f = [] \<or> (case md_technique_id md of None \<Rightarrow> False | Some c \<Rightarrow> c \<in> set (rf_technique_ids f)))
     \<and> (case rf_published_after f of None \<Rightarrow> True | Some after \<Rightarrow> (case md_published_at md of None \<Rightarrow> False | Some p \<Rightarrow> p \<ge> after))
     \<and> (case rf_minimum_trust f of None \<Rightarrow> True | Some t \<Rightarrow> trust_rank (md_trust_tier md) \<le> trust_rank t))"

definition pg_dense_search :: "(pyfloat list \<Rightarrow> pyfloat list \<Rightarrow> pyfloat) \<Rightarrow> pyfloat list \<Rightarrow> retrieval_filters \<Rightarrow> nat \<Rightarrow> pg_index \<Rightarrow> (knowledge_chunk_record \<times> pyfloat) list" where
  "pg_dense_search distance v f limit ix =
     (let rows = take limit (sort_key (\<lambda>w. distance v (ec_embedding (cw_chunk w))) (filter (base_query f) (pg_rows ix)));
          results = [(knowledge_chunk_record.truncate (cw_chunk w), rnd (1 - distance v (ec_embedding (cw_chunk w)))). w \<leftarrow> rows, matches_filters (cw_chunk w) f] in
      filter (\<lambda>(r, score). score > 0) results)"

definition keyword_condition :: "(string \<Rightarrow> string \<Rightarrow> bool) \<Rightarrow> string \<Rightarrow> chunk_row \<Rightarrow> bool" where
  "keyword_condition ilike query w = (let tokens = tokenize query; md = kr_metadata (cw_chunk w); named = (\<lambda>i. case i of None \<Rightarrow> False | Some s \<Rightarrow> s \<in> set (map upper tokens)) in
     tokens = [] \<or> named (md_cve_id md) \<or> named (md_technique_id md) \<or> named (md_cwe_id md)
     \<or> list_ex (\<lambda>t. length t > 2 \<and> ilike (''%'' @ t @ ''%'') (kr_content (cw_chunk w))) tokens
     \<or> (case kr_title (cw_chunk w) of None \<Rightarrow> False | Some title \<Rightarrow> ilike (''%'' @ query @ ''%'') title))"

definition pg_keyword_search :: "(string \<Rightarrow> string \<Rightarrow> bool) \<Rightarrow> string \<Rightarrow> retrieval_filters \<Rightarrow> nat \<Rightarrow> pg_index \<Rightarrow> (knowledge_chunk_record \<times> pyfloat) list" where
  "pg_keyword_search ilike query f limit ix =
     (let rows = take limit (filter (\<lambda>w. base_query f w \<and> keyword_condition ilike query w) (pg_rows ix)) in
      best limit (map (\<lambda>w. (cw_chunk w, keyword_overlap_score query (cw_chunk w))) rows))"

text \<open>The newest row with the identifier.\<close>

fun newest_row :: "chunk_row option \<Rightarrow> chunk_row list \<Rightarrow> chunk_row option" where
  "newest_row w [] = w"
| "newest_row None (x # xs) = newest_row (Some x) xs"
| "newest_row (Some w) (x # xs) = newest_row (Some (if cw_created_at x > cw_created_at w then x else w)) xs"

definition pg_get_chunk :: "string \<Rightarrow> pg_index \<Rightarrow> knowledge_chunk_record option" where
  "pg_get_chunk i ix = map_option (\<lambda>w. knowledge_chunk_record.truncate (cw_chunk w)) (newest_row None (filter (\<lambda>w. kr_chunk_id (cw_chunk w) = i) (pg_rows ix)))"


section \<open>The pipeline\<close>

record ingestion_report =
  ig_source_id :: string
  ig_index_version :: string
  ig_documents_fetched :: nat
  ig_documents_ingested :: nat
  ig_duplicates_skipped :: nat
  ig_chunks_indexed :: nat
  ig_chunks_retired :: nat
  ig_failed :: bool
  ig_error :: "string option"

record pipeline =
  ing_registry :: source_registry
  ing_chunker :: chunker
  ing_embeddings :: embedding_provider

definition build_index_version :: "libm \<Rightarrow> string \<Rightarrow> string \<Rightarrow> string list \<Rightarrow> string" where
  "build_index_version m source model documents = source @ ''-'' @ take 16 (hexdigest (lm_sha256 m (model @ concat (sort documents))))"

definition content_digest :: "libm \<Rightarrow> source_document \<Rightarrow> string" where
  "content_digest m d = hexdigest (lm_sha256 m (clean_text (sd_content d)))"

fun dedupe_documents :: "libm \<Rightarrow> string \<Rightarrow> string list \<Rightarrow> source_document list \<Rightarrow> rag_error + source_document list \<times> nat" where
  "dedupe_documents m source seen [] = Inr ([], 0)"
| "dedupe_documents m source seen (d # ds) =
     (if md_source_id (sd_metadata d) \<noteq> source then Inl Untrusted_Source_Error
      else if content_digest m d \<in> set seen then and_then (dedupe_documents m source seen ds) (\<lambda>(us, n). Inr (us, Suc n))
      else and_then (dedupe_documents m source (content_digest m d # seen) ds) (\<lambda>(us, n). Inr (d # us, n)))"

definition embedded_chunks :: "pipeline \<Rightarrow> source_document list \<Rightarrow> embedded_chunk list" where
  "embedded_chunks pl documents = map (\<lambda>r. knowledge_chunk_record.extend r \<lparr>ec_embedding = ep_embed (ing_embeddings pl) (kr_content r)\<rparr>) (concat (map (chunk (ing_chunker pl)) documents))"

definition index_documents :: "'s ingest_store \<Rightarrow> libm \<Rightarrow> pipeline \<Rightarrow> string \<Rightarrow> nat \<Rightarrow> source_document list \<times> nat \<Rightarrow> 's \<Rightarrow> (rag_error + ingestion_report) \<times> 's" where
  "index_documents store m pl source fetched = (\<lambda>(documents, duplicates) ix.
     let emb = ing_embeddings pl; version = build_index_version m source (ep_model emb) (map sd_content documents); chunks = embedded_chunks pl documents in
     case (case is_record_version store of None \<Rightarrow> Inr ix | Some record_version \<Rightarrow> record_version source version (ep_model emb) (ep_dimensions emb) (length documents) (length chunks) ix) of
       Inl err \<Rightarrow> (Inl err, ix)
     | Inr ix1 \<Rightarrow> (case is_add_chunks store chunks version ix1 of
         Inl err \<Rightarrow> (Inl err, ix1)
       | Inr ix2 \<Rightarrow> (case is_activate_version store source version ix2 of
           Inl err \<Rightarrow> (Inl err, ix2)
         | Inr (retired, ix3) \<Rightarrow>
             (Inr \<lparr>ig_source_id = source, ig_index_version = version, ig_documents_fetched = fetched, ig_documents_ingested = length documents,
                ig_duplicates_skipped = duplicates, ig_chunks_indexed = length chunks, ig_chunks_retired = retired, ig_failed = False, ig_error = None\<rparr>, ix3))))"

text \<open>What the fetcher does is the argument \<open>fetch\<close>: the documents, or the text of the exception it raised.\<close>

definition ingest_source :: "'s ingest_store \<Rightarrow> libm \<Rightarrow> pipeline \<Rightarrow> (source_definition \<Rightarrow> string + source_document list) \<Rightarrow> string \<Rightarrow> 's \<Rightarrow> (rag_error + ingestion_report) \<times> 's" where
  "ingest_source store m pl fetch source ix =
     (case get_source (ing_registry pl) source of Inl err \<Rightarrow> (Inl err, ix)
      | Inr d \<Rightarrow> (case fetch d of
          Inl text \<Rightarrow> (and_then (is_active_version store source ix) (\<lambda>active.
            Inr \<lparr>ig_source_id = source, ig_index_version = or_empty active, ig_documents_fetched = 0, ig_documents_ingested = 0, ig_duplicates_skipped = 0,
              ig_chunks_indexed = 0, ig_chunks_retired = 0, ig_failed = True, ig_error = Some text\<rparr>), ix)
        | Inr documents \<Rightarrow> (case dedupe_documents m (so_source_id d) [] documents of
            Inl err \<Rightarrow> (Inl err, ix)
          | Inr unique_documents \<Rightarrow> index_documents store m pl source (length documents) unique_documents ix)))"

fun refresh :: "('s \<Rightarrow> string \<Rightarrow> (rag_error + ingestion_report) \<times> 's) \<Rightarrow> string list \<Rightarrow> 's \<Rightarrow> (rag_error + ingestion_report list) \<times> 's" where
  "refresh ingest [] ix = (Inr [], ix)"
| "refresh ingest (source # sources) ix = (case ingest ix source of (Inl err, ix') \<Rightarrow> (Inl err, ix')
     | (Inr report, ix') \<Rightarrow> (case refresh ingest sources ix' of (out, ix'') \<Rightarrow> (and_then out (\<lambda>rs. Inr (report # rs)), ix'')))"

definition refresh_all :: "'s ingest_store \<Rightarrow> libm \<Rightarrow> pipeline \<Rightarrow> (source_definition \<Rightarrow> string + source_document list) \<Rightarrow> 's \<Rightarrow> (rag_error + ingestion_report list) \<times> 's" where
  "refresh_all store m pl fetch = refresh (\<lambda>ix source. ingest_source store m pl fetch source ix) (map so_source_id (all_sources (ing_registry pl)))"

text \<open>\<^verbatim>\<open>RagService.ingest_source\<close> and \<^verbatim>\<open>refresh_all\<close>: the cache is cleared after a run that returned.\<close>

definition service_after :: "rag_error + 'a \<Rightarrow> rag_service \<Rightarrow> rag_service" where
  "service_after out sv = (case out of Inl _ \<Rightarrow> sv | Inr _ \<Rightarrow> sv\<lparr>sv_cache := rcache_clear (sv_cache sv)\<rparr>)"


text \<open>\<^verbatim>\<open>InMemoryFetcher.add\<close>.\<close>

definition add_document :: "string \<Rightarrow> source_document \<Rightarrow> (string, source_document list) dict \<Rightarrow> (string, source_document list) dict" where
  "add_document source d documents = dict_append source d documents"

text \<open>\<^verbatim>\<open>build_rag_service\<close>: the composition from the configuration; both the embedding provider and the chunker may refuse it.\<close>

record rag_settings =
  rs_embedding_provider :: string
  rs_embedding_model :: string
  rs_max_characters :: nat
  rs_overlap_characters :: nat
  rs_candidates :: nat
  rs_half_life_days :: pyfloat
  rs_top_k :: nat
  rs_token_budget :: nat
  rs_cache_ttl :: nat

definition build_rag_service :: "libm \<Rightarrow> rag_settings \<Rightarrow> source_registry option \<Rightarrow> (rag_error + chunk_error) + rag_service \<times> pipeline" where
  "build_rag_service m rs registry =
     (let active = (case registry of None \<Rightarrow> source_registry_of DEFAULT_SOURCES | Some r \<Rightarrow> r) in
      case build_embedding_provider m (rs_embedding_provider rs) (rs_embedding_model rs) of Inl e \<Rightarrow> Inl (Inl e)
      | Inr embeddings \<Rightarrow> (case Chunker (rs_max_characters rs) (rs_overlap_characters rs) of Inl e \<Rightarrow> Inl (Inr e)
        | Inr c \<Rightarrow> Inr (\<lparr>sv_registry = active, sv_embeddings = embeddings, sv_candidates = rs_candidates rs, sv_half_life_days = rs_half_life_days rs,
            sv_cache = \<lparr>rca_ttl = int (rs_cache_ttl rs), rca_entries = []\<rparr>, sv_top_k = rs_top_k rs, sv_token_budget = rs_token_budget rs\<rparr>,
            \<lparr>ing_registry = active, ing_chunker = c, ing_embeddings = embeddings\<rparr>)))"


section \<open>What every index promises\<close>

abbreviation source_of :: "embedded_chunk \<Rightarrow> string" where
  "source_of c \<equiv> md_source_id (kr_metadata c)"

text \<open>Flipping the live version of one source makes it the active one and touches no other source.\<close>

locale versioned_index =
  fixes active :: "string \<Rightarrow> 's \<Rightarrow> string option"
    and activate :: "string \<Rightarrow> string \<Rightarrow> 's \<Rightarrow> 's"
    and live :: "'s \<Rightarrow> embedded_chunk list"
    and ready :: "string \<Rightarrow> string \<Rightarrow> 's \<Rightarrow> bool"
    and ok :: "'s \<Rightarrow> bool"
  assumes activate_ok: "ok s \<Longrightarrow> ok (activate source v s)"
    and activated: "ok s \<Longrightarrow> ready source v s \<Longrightarrow> active source (activate source v s) = Some v"
    and others_active: "ok s \<Longrightarrow> other \<noteq> source \<Longrightarrow> active other (activate source v s) = active other s"
    and others_live: "ok s \<Longrightarrow> other \<noteq> source \<Longrightarrow> filter (\<lambda>c. source_of c = other) (live (activate source v s)) = filter (\<lambda>c. source_of c = other) (live s)"
begin

lemma swaps_are_isolated:
  "ok s \<Longrightarrow> other \<notin> fst ` set swaps \<Longrightarrow>
    (let s' = fold (\<lambda>(source, v). activate source v) swaps s in
     ok s' \<and> active other s' = active other s \<and> filter (\<lambda>c. source_of c = other) (live s') = filter (\<lambda>c. source_of c = other) (live s))"
proof (induction swaps arbitrary: s)
  case (Cons swap swaps)
  obtain source v where e: "swap = (source, v)" by (cases swap)
  from Cons.prems e have ne: "other \<noteq> source" "other \<notin> fst ` set swaps" by auto
  show ?case using Cons.IH[OF activate_ok[OF Cons.prems(1)] ne(2), of source v] others_active[OF Cons.prems(1) ne(1), of v] others_live[OF Cons.prems(1) ne(1), of v]
    by (simp add: e Let_def)
qed simp

end

lemma mi_active_after: "mi_active_version other (snd (mi_activate_version source v ix)) = (if other = source then Some v else mi_active_version other ix)"
  by (simp add: mi_active_version_def mi_activate_version_def dict_set_lookup)

lemma mi_chunks_after [simp]: "mi_chunks (snd (mi_activate_version source v ix)) = mi_chunks ix"
  by (simp add: mi_activate_version_def)

lemma live_chunks_of: "filter (\<lambda>c. source_of c = other) (live_chunks ix) = filter (\<lambda>c. source_of c = other \<and> mi_active_version other ix = kr_index_version c) (mi_chunks ix)"
  unfolding live_chunks_def filter_filter by (rule filter_cong) auto

interpretation memory_index: versioned_index mi_active_version "\<lambda>source v ix. snd (mi_activate_version source v ix)" live_chunks "\<lambda>source v ix. True" "\<lambda>ix. True"
  by unfold_locales (simp_all add: mi_active_after live_chunks_of)

definition pg_ok :: "pg_index \<Rightarrow> bool" where
  "pg_ok ix = (distinct (map (\<lambda>r. (vr_source_id r, vr_version r)) (pg_versions ix)))"

definition pg_live :: "pg_index \<Rightarrow> embedded_chunk list" where
  "pg_live ix = map cw_chunk (filter (base_query no_filters) (pg_rows ix))"

definition pg_active :: "string \<Rightarrow> pg_index \<Rightarrow> string option" where
  "pg_active source ix = (case pg_active_version source ix of Inl _ \<Rightarrow> None | Inr v \<Rightarrow> v)"

definition pg_activate :: "time \<Rightarrow> string \<Rightarrow> string \<Rightarrow> pg_index \<Rightarrow> pg_index" where
  "pg_activate now source v ix = (case pg_activate_version now source v ix of Inl _ \<Rightarrow> ix | Inr (_, ix') \<Rightarrow> ix')"

definition pg_ready :: "string \<Rightarrow> string \<Rightarrow> pg_index \<Rightarrow> bool" where
  "pg_ready source v ix = list_ex (\<lambda>r. vr_source_id r = source \<and> vr_version r = v) (pg_versions ix)"

definition flip_row :: "time \<Rightarrow> string \<Rightarrow> string \<Rightarrow> index_version_row \<Rightarrow> index_version_row" where
  "flip_row now source v r = (if vr_source_id r = source \<and> vr_version r = v then r\<lparr>vr_status := Ix_Active, vr_activated_at := Some now\<rparr>
     else if retires source v r then r\<lparr>vr_status := Ix_Retired, vr_retired_at := Some now\<rparr> else r)"

lemma flip_row_key [simp]: "vr_source_id (flip_row now source v r) = vr_source_id r" "vr_version (flip_row now source v r) = vr_version r"
  by (simp_all add: flip_row_def)

lemma filter_key_unique: "distinct (map key xs) \<Longrightarrow> length (filter (\<lambda>x. key x = k) xs) \<le> 1"
  by (induction xs) (auto simp: filter_empty_conv length_0_conv image_iff)

lemma pg_activate_rows:
  assumes "pg_ok ix"
  shows "pg_activate now source v ix = ix\<lparr>pg_rows := snd (fold (retire_chunks now source) (filter (retires source v) (pg_versions ix)) (0, pg_rows ix)),
    pg_versions := map (flip_row now source v) (pg_versions ix)\<rparr>"
proof -
  let ?ret = "\<lambda>r. if retires source v r then r\<lparr>vr_status := Ix_Retired, vr_retired_at := Some now\<rparr> else r"
  have "length (filter (\<lambda>r. (vr_source_id r, vr_version r) = (source, v)) (map ?ret (pg_versions ix))) \<le> 1"
    by (rule filter_key_unique) (use assms in \<open>simp add: pg_ok_def comp_def if_distrib cong: if_cong\<close>)
  then have one: "\<not> length (filter (\<lambda>r. vr_source_id r = source \<and> vr_version r = v) (map ?ret (pg_versions ix))) > 1" by simp
  have flip: "(\<lambda>r. if vr_source_id r = source \<and> vr_version r = v then r\<lparr>vr_status := Ix_Active, vr_activated_at := Some now\<rparr> else r) \<circ> ?ret = flip_row now source v"
    by (rule ext) (auto simp: flip_row_def retires_def)
  show ?thesis unfolding pg_activate_def pg_activate_version_def Let_def case_prod_unfold if_not_P[OF one] map_map flip by simp
qed

lemma retire_chunks_other:
  "filter (\<lambda>w. source_of (cw_chunk w) = other) (snd (retire_chunks now source r (n, rows))) = (if other = source then filter (\<lambda>w. source_of (cw_chunk w) = other) (snd (retire_chunks now source r (n, rows)))
    else filter (\<lambda>w. source_of (cw_chunk w) = other) rows)"
  by (induction rows) (auto simp: retire_chunks_def Let_def)

lemma fold_retire_other:
  assumes "other \<noteq> source"
  shows "filter (\<lambda>w. source_of (cw_chunk w) = other) (snd (fold (retire_chunks now source) rs (n, rows))) = filter (\<lambda>w. source_of (cw_chunk w) = other) rows"
proof (induction rs arbitrary: n rows)
  case (Cons r rs)
  obtain n' rows' where e: "retire_chunks now source r (n, rows) = (n', rows')" by (cases "retire_chunks now source r (n, rows)")
  have "filter (\<lambda>w. source_of (cw_chunk w) = other) rows' = filter (\<lambda>w. source_of (cw_chunk w) = other) rows"
    using retire_chunks_other[of other now source r n rows] assms e by simp
  then show ?case using Cons.IH[of n' rows'] by (simp add: e)
qed simp

lemma single: "x \<in> set xs \<Longrightarrow> length xs \<le> 1 \<Longrightarrow> xs = [x]"
  by (cases xs) auto

lemma pg_active_after:
  assumes "pg_ok ix" "pg_ready source v ix" shows "pg_active source (pg_activate now source v ix) = Some v"
proof -
  from assms(2) obtain r where r: "r \<in> set (pg_versions ix)" "vr_source_id r = source" "vr_version r = v" by (auto simp: pg_ready_def list_ex_iff)
  have "filter (\<lambda>r. vr_source_id r = source \<and> vr_status r = Ix_Active) (map (flip_row now source v) (pg_versions ix))
      = filter (\<lambda>r. (vr_source_id r, vr_version r) = (source, v)) (map (flip_row now source v) (pg_versions ix))"
    by (rule filter_cong[OF refl]) (auto simp: flip_row_def retires_def)
  moreover have "length (filter (\<lambda>r. (vr_source_id r, vr_version r) = (source, v)) (map (flip_row now source v) (pg_versions ix))) \<le> 1"
    by (rule filter_key_unique) (use assms(1) in \<open>simp add: pg_ok_def comp_def\<close>)
  moreover have "flip_row now source v r \<in> set (filter (\<lambda>r. (vr_source_id r, vr_version r) = (source, v)) (map (flip_row now source v) (pg_versions ix)))" using r by auto
  ultimately have "filter (\<lambda>r. vr_source_id r = source \<and> vr_status r = Ix_Active) (map (flip_row now source v) (pg_versions ix)) = [flip_row now source v r]"
    using single[of "flip_row now source v r"] by metis
  then show ?thesis by (simp add: pg_activate_rows[OF assms(1)] pg_active_def pg_active_version_def r(3))
qed

interpretation pg_index: versioned_index pg_active "pg_activate now" pg_live pg_ready pg_ok for now
proof
  show "pg_ok (pg_activate now source v s)" if "pg_ok s" for s source v
    using that by (simp add: pg_activate_rows[OF that]) (simp add: pg_ok_def comp_def)
  show "pg_active source (pg_activate now source v s) = Some v" if "pg_ok s" "pg_ready source v s" for s source v
    using that by (rule pg_active_after)
  show "pg_active other (pg_activate now source v s) = pg_active other s" if "pg_ok s" "other \<noteq> source" for s other source v
  proof -
    have "filter (\<lambda>r. vr_source_id r = other \<and> vr_status r = Ix_Active) (map (flip_row now source v) rs) = filter (\<lambda>r. vr_source_id r = other \<and> vr_status r = Ix_Active) rs" for rs
      using that(2) by (induction rs) (auto simp: flip_row_def retires_def)
    then show ?thesis by (simp add: pg_activate_rows[OF that(1)] pg_active_def pg_active_version_def)
  qed
  show "filter (\<lambda>c. source_of c = other) (pg_live (pg_activate now source v s)) = filter (\<lambda>c. source_of c = other) (pg_live s)" if "pg_ok s" "other \<noteq> source" for s other source v
  proof -
    have "filter (\<lambda>c. source_of c = other) (map cw_chunk (filter P rows)) = map cw_chunk (filter P (filter (\<lambda>w. source_of (cw_chunk w) = other) rows))" for P rows
      by (simp add: filter_map comp_def conj_commute)
    note e = this
    have rows: "pg_rows (pg_activate now source v s) = snd (fold (retire_chunks now source) (filter (retires source v) (pg_versions s)) (0, pg_rows s))"
      by (simp add: pg_activate_rows[OF that(1)])
    show ?thesis unfolding pg_live_def e rows fold_retire_other[OF that(2)] by (rule refl)
  qed
qed



section \<open>Refreshing the index in process\<close>

definition registry_ok :: "source_registry \<Rightarrow> bool" where
  "registry_ok r = (\<forall>k d. map_of r k = Some d \<longrightarrow> so_source_id d = k)"

lemma registry_of_ok: "registry_ok (source_registry_of definitions)"
proof -
  have "registry_ok r \<Longrightarrow> registry_ok (fold (\<lambda>d. dict_set (so_source_id d) d) definitions r)" for r
  proof (induction definitions arbitrary: r)
    case (Cons d ds)
    have "registry_ok (dict_set (so_source_id d) d r)" using Cons.prems by (auto simp: registry_ok_def dict_set_lookup split: if_splits)
    with Cons.IH show ?case by simp
  qed simp
  moreover have "registry_ok []" by (simp add: registry_ok_def)
  ultimately show ?thesis unfolding source_registry_of_def by blast
qed

lemma dedupe_documents_sources: "dedupe_documents m source seen ds = Inr (us, n) \<Longrightarrow> \<forall>u \<in> set us. md_source_id (sd_metadata u) = source"
proof (induction m source seen ds arbitrary: us n rule: dedupe_documents.induct)
  case (2 m source seen d ds)
  have src: "md_source_id (sd_metadata d) = source" using "2.prems" by (cases "md_source_id (sd_metadata d) = source") simp_all
  show ?case
  proof (cases "content_digest m d \<in> set seen")
    case True
    then obtain n' where "dedupe_documents m source seen ds = Inr (us, n')" using "2.prems" src by (auto simp: and_then_Inr)
    with "2.IH"(1) src True show ?thesis by blast
  next
    case False
    then obtain us' n' where u: "dedupe_documents m source (content_digest m d # seen) ds = Inr (us', n')" "us = d # us'" using "2.prems" src by (auto simp: and_then_Inr)
    with "2.IH"(2)[OF _ False u(1)] src show ?thesis by simp
  qed
qed simp

lemma chunk_record_metadata [simp]: "kr_metadata (chunk_record d parent x) = sd_metadata d"
  by (cases x) (simp add: chunk_record_def)

lemma section_records_metadata: "r \<in> set (section_records c d n sec) \<Longrightarrow> kr_metadata r = sd_metadata d"
  by (cases "length sec \<le> max_characters c") (auto simp: section_records_def Let_def)

lemma chunk_metadata_of: "r \<in> set (chunk c d) \<Longrightarrow> kr_metadata r = sd_metadata d"
proof -
  have "(\<forall>r \<in> set rs. kr_metadata r = sd_metadata d) \<Longrightarrow>
    \<forall>r \<in> set (fold (\<lambda>section records. records @ section_records c d (length records) section) ss rs). kr_metadata r = sd_metadata d" for ss rs
  proof (induction ss arbitrary: rs)
    case (Cons sec ss)
    show ?case unfolding fold_Cons comp_apply by (rule Cons.IH) (use Cons.prems section_records_metadata in auto)
  qed simp
  from this[of "[]"] show "r \<in> set (chunk c d) \<Longrightarrow> kr_metadata r = sd_metadata d" by (auto simp: chunk_def Let_def split: if_splits)
qed

lemma embedded_chunks_source: "\<forall>u \<in> set us. md_source_id (sd_metadata u) = source \<Longrightarrow> c \<in> set (embedded_chunks pl us) \<Longrightarrow> source_of c = source"
  by (auto simp: embedded_chunks_def knowledge_chunk_record.extend_def dest: chunk_metadata_of)

lemma dedupe_documents_fetched: "dedupe_documents m source seen ds = Inr (us, n) \<Longrightarrow> set us \<subseteq> set ds"
proof (induction m source seen ds arbitrary: us n rule: dedupe_documents.induct)
  case (2 m source seen d ds)
  have src: "md_source_id (sd_metadata d) = source" using "2.prems" by (cases "md_source_id (sd_metadata d) = source") simp_all
  show ?case
  proof (cases "content_digest m d \<in> set seen")
    case True
    then obtain n' where "dedupe_documents m source seen ds = Inr (us, n')" using "2.prems" src by (auto simp: and_then_Inr)
    with "2.IH"(1) src True have "set us \<subseteq> set ds" by blast
    then show ?thesis by auto
  next
    case False
    then obtain vs where "us = d # vs" "dedupe_documents m source (content_digest m d # seen) ds = Inr (vs, n)" using "2.prems" src by (auto simp: and_then_Inr)
    with "2.IH"(2) src False have "us = d # vs" "set vs \<subseteq> set ds" by blast+
    then show ?thesis by auto
  qed
qed simp

lemma embedded_chunks_metadata: "kr_metadata ` set (embedded_chunks pl us) \<subseteq> sd_metadata ` set us"
proof
  fix md assume "md \<in> kr_metadata ` set (embedded_chunks pl us)"
  then obtain u r where "u \<in> set us" "r \<in> set (chunk (ing_chunker pl) u)" "md = kr_metadata r"
    by (auto simp: embedded_chunks_def knowledge_chunk_record.extend_def)
  then show "md \<in> sd_metadata ` set us" using chunk_metadata_of by (intro image_eqI[where x = u]) simp_all
qed

text \<open>The three ways an ingestion into the index in process can go.\<close>

lemma ingest_memory_cases:
  assumes "registry_ok (ing_registry pl)"
  obtains (refused) "ingest_source in_process_store m pl fetch source ix = (Inl Untrusted_Source_Error, ix)"
  | (kept) rep where "ingest_source in_process_store m pl fetch source ix = (Inr rep, ix)" "ig_failed rep"
  | (swapped) rep chunks where "snd (ingest_source in_process_store m pl fetch source ix) = snd (mi_activate_version source (ig_index_version rep) (snd (mi_add_chunks chunks (ig_index_version rep) ix)))"
      "fst (ingest_source in_process_store m pl fetch source ix) = Inr rep" "\<not> ig_failed rep" "ig_chunks_indexed rep = length chunks" "\<forall>c \<in> set chunks. source_of c = source"
      "source \<in> fst ` set (ing_registry pl)" "length source < length (ig_index_version rep)"
      "\<exists>d documents. get_source (ing_registry pl) source = Inr d \<and> fetch d = Inr documents \<and> kr_metadata ` set chunks \<subseteq> sd_metadata ` set documents"
proof (cases "map_of (ing_registry pl) source")
  case None
  then show thesis by (intro refused) (simp add: ingest_source_def get_source_def)
next
  case (Some d)
  then have d: "so_source_id d = source" using assms by (simp add: registry_ok_def)
  show thesis
  proof (cases "fetch d")
    case (Inl problem)
    then show thesis using Some by (intro kept) (simp add: ingest_source_def get_source_def in_process_store_def, simp)
  next
    case (Inr documents)
    show thesis
    proof (cases "dedupe_documents m source [] documents")
      case (Inl err)
      have "dedupe_documents m source seen ds = Inl e \<Longrightarrow> e = Untrusted_Source_Error" for seen ds e
      proof (induction m source seen ds rule: dedupe_documents.induct)
        case (2 m source seen d ds)
        then show ?case by (cases "dedupe_documents m source seen ds"; cases "dedupe_documents m source (content_digest m d # seen) ds") (auto split: if_splits)
      qed simp
      with Inl show thesis using Some \<open>fetch d = Inr documents\<close> d by (intro refused) (simp add: ingest_source_def get_source_def)
    next
      case (Inr un)
      obtain us n where un: "un = (us, n)" by (cases un)
      have e: "ingest_source in_process_store m pl fetch source ix = index_documents in_process_store m pl source (length documents) (us, n) ix"
        using Some \<open>fetch d = Inr documents\<close> d Inr un by (simp add: ingest_source_def get_source_def)
      let ?v = "build_index_version m source (ep_model (ing_embeddings pl)) (map sd_content us)"
      obtain k ix3 where a: "mi_activate_version source ?v (snd (mi_add_chunks (embedded_chunks pl us) ?v ix)) = (k, ix3)" by fastforce
      have src: "\<forall>c \<in> set (embedded_chunks pl us). source_of c = source" using embedded_chunks_source dedupe_documents_sources Inr un by blast
      have reg: "source \<in> fst ` set (ing_registry pl)" using map_of_SomeD[OF Some] by force
      define rep where "rep = \<lparr>ig_source_id = source, ig_index_version = ?v, ig_documents_fetched = length documents, ig_documents_ingested = length us,
        ig_duplicates_skipped = n, ig_chunks_indexed = length (embedded_chunks pl us), ig_chunks_retired = k, ig_failed = False, ig_error = None\<rparr>"
      have full: "ingest_source in_process_store m pl fetch source ix = (Inr rep, ix3)"
        unfolding e rep_def by (simp add: index_documents_def in_process_store_def Let_def a)
      have fields: "ig_index_version rep = ?v" "\<not> ig_failed rep" "ig_chunks_indexed rep = length (embedded_chunks pl us)" by (simp_all add: rep_def)
      have long: "length source < length (ig_index_version rep)" by (simp add: fields(1) build_index_version_def)
      have "kr_metadata ` set (embedded_chunks pl us) \<subseteq> sd_metadata ` set documents"
        using embedded_chunks_metadata[of pl us] image_mono[OF dedupe_documents_fetched[OF Inr[unfolded un]], of sd_metadata] by (rule subset_trans)
      then have origin: "\<exists>d documents. get_source (ing_registry pl) source = Inr d \<and> fetch d = Inr documents \<and> kr_metadata ` set (embedded_chunks pl us) \<subseteq> sd_metadata ` set documents"
        using Some \<open>fetch d = Inr documents\<close> by (auto simp: get_source_def)
      show thesis by (rule swapped[OF _ _ fields(2,3) src reg long origin]) (simp_all add: full fields(1) a)
    qed
  qed
qed

text \<open>C24: 
  A refresh of the index in process is all or nothing, and touches one source. When it raises or its fetch fails, the index is what it was. Otherwise, when the
  corpus has changed, that is when no chunk of the source is stored under the version reported, the source serves exactly the chunks just built, every one of them from a
  document just fetched and stamped with that version, and none it served before; every other source serves the chunks and the version it served before; and no stored chunk
  is removed.
\<close>
theorem refresh_swaps_one_source:
  assumes "registry_ok (ing_registry pl)"
    and "case fst (ingest_source in_process_store m pl fetch source ix) of Inl _ \<Rightarrow> True
      | Inr rep \<Rightarrow> ig_failed rep \<or> (\<forall>c \<in> set (mi_chunks ix). \<not> (source_of c = source \<and> kr_index_version c = Some (ig_index_version rep)))"
  shows "case ingest_source in_process_store m pl fetch source ix of (out, ix') \<Rightarrow>
    (case out of Inl _ \<Rightarrow> ix' = ix
     | Inr rep \<Rightarrow> if ig_failed rep then ix' = ix
       else let new = drop (length (mi_chunks ix)) (mi_chunks ix'); v = ig_index_version rep in
         mi_chunks ix' = mi_chunks ix @ new \<and> length new = ig_chunks_indexed rep
         \<and> mi_active_version source ix' = Some v
         \<and> filter (\<lambda>c. source_of c = source) (live_chunks ix') = new
         \<and> (\<forall>c \<in> set new. kr_index_version c = Some v)
         \<and> (\<exists>d documents. get_source (ing_registry pl) source = Inr d \<and> fetch d = Inr documents \<and> kr_metadata ` set new \<subseteq> sd_metadata ` set documents)
         \<and> (\<forall>other. other = source \<or> mi_active_version other ix' = mi_active_version other ix
              \<and> filter (\<lambda>c. source_of c = other) (live_chunks ix') = filter (\<lambda>c. source_of c = other) (live_chunks ix)))"
proof (rule ingest_memory_cases[OF assms(1), of m fetch source ix], goal_cases refused kept swapped)
  case refused
  then show ?thesis by simp
next
  case (kept rep)
  then show ?thesis by simp
next
  case (swapped rep chunks)
  let ?v = "ig_index_version rep" and ?ix1 = "snd (mi_add_chunks chunks (ig_index_version rep) ix)"
  let ?new = "map (kr_index_version_update (\<lambda>_. Some ?v)) chunks"
  define ix' where "ix' = snd (ingest_source in_process_store m pl fetch source ix)"
  have e: "ingest_source in_process_store m pl fetch source ix = (Inr rep, ix')" using swapped(2) by (simp add: ix'_def prod_eq_iff)
  have ix': "ix' = snd (mi_activate_version source ?v ?ix1)" using swapped(1) by (simp add: ix'_def)
  have chunks: "mi_chunks ix' = mi_chunks ix @ ?new" by (simp add: ix' mi_add_chunks_def)
  have act: "mi_active_version other ix' = (if other = source then Some ?v else mi_active_version other ix)" for other
    unfolding ix' mi_active_after by (simp add: mi_active_version_def mi_add_chunks_def)
  have own: "filter (\<lambda>c. source_of c = source) (live_chunks ix') = filter (\<lambda>c. source_of c = source \<and> kr_index_version c = Some ?v) (mi_chunks ix) @ ?new"
    unfolding live_chunks_of chunks filter_append act using swapped(5) by (auto simp: filter_map comp_def intro!: filter_cong arg_cong2[of _ _ _ _ append])
  have "filter (\<lambda>c. source_of c = source \<and> kr_index_version c = Some ?v) (mi_chunks ix) = []"
    using assms(2) swapped(3) by (simp add: e filter_empty_conv)
  with own have only: "filter (\<lambda>c. source_of c = source) (live_chunks ix') = ?new" by simp
  have none: "filter (\<lambda>c. source_of c = other \<and> Q c) ?new = []" if "other \<noteq> source" for other Q
    using swapped(5) that by (auto simp: filter_empty_conv)
  have oth: "filter (\<lambda>c. source_of c = other) (live_chunks ix') = filter (\<lambda>c. source_of c = other) (live_chunks ix)" if "other \<noteq> source" for other
    unfolding live_chunks_of chunks filter_append act if_not_P[OF that] none[OF that] by simp
  show ?thesis unfolding e prod.case sum.case if_not_P[OF swapped(3)] Let_def
    using chunks only oth act swapped(4,8) by (auto simp: image_image)
qed


text \<open>The corpora an index in process can come to hold: ingestions of any sources with any outcome of the fetch, starting from nothing.\<close>

inductive corpus_reachable :: "libm \<Rightarrow> pipeline \<Rightarrow> memory_index \<Rightarrow> bool" for m pl where
  start: "corpus_reachable m pl empty_index"
| ingested: "corpus_reachable m pl ix \<Longrightarrow> corpus_reachable m pl (snd (ingest_source in_process_store m pl fetch source ix))"

inductive_cases corpus_reachable_step: "corpus_reachable m pl ix"

lemma refresh_reachable: "corpus_reachable m pl ix \<Longrightarrow> corpus_reachable m pl (snd (refresh (\<lambda>ix source. ingest_source in_process_store m pl fetch source ix) sources ix))"
proof (induction sources arbitrary: ix)
  case (Cons source sources)
  obtain out ix' where e: "ingest_source in_process_store m pl fetch source ix = (out, ix')" by (cases "ingest_source in_process_store m pl fetch source ix")
  have r: "corpus_reachable m pl ix'" using corpus_reachable.ingested[OF Cons.prems, of fetch source] by (simp add: e)
  show ?case using r Cons.IH[OF r] by (cases out) (simp_all add: e case_prod_unfold)
qed simp

text \<open>C10: 
  Untrusted provenance never enters the corpus. However the index in process was built, every chunk it holds is attributed to an allow-listed source and pinned to an
  index version, and only allow-listed sources have an active version.
\<close>
theorem corpus_is_allow_listed:
  assumes "corpus_reachable m pl ix" "registry_ok (ing_registry pl)"
  shows "list_all (\<lambda>c. source_of c \<in> fst ` set (ing_registry pl) \<and> kr_index_version c \<noteq> None) (mi_chunks ix)
    \<and> list_all (\<lambda>(source, v). source \<in> fst ` set (ing_registry pl)) (mi_active ix)"
  using assms(1)
proof (induction rule: corpus_reachable.induct)
  case start
  show ?case by (simp add: empty_index_def)
next
  case (ingested ix fetch source)
  show ?case
  proof (rule ingest_memory_cases[OF assms(2), of m fetch source ix], goal_cases refused kept swapped)
    case refused
    then show ?case using ingested.IH by simp
  next
    case (kept rep)
    then show ?case using ingested.IH by simp
  next
    case (swapped rep chunks)
    define S where "S = fst ` set (ing_registry pl)"
    have IH: "\<forall>c \<in> set (mi_chunks ix). source_of c \<in> S \<and> kr_index_version c \<noteq> None" "\<forall>s \<in> fst ` set (mi_active ix). s \<in> S" and src: "source \<in> S"
      using ingested.IH swapped(6) unfolding list_all_iff S_def[symmetric] by auto
    have "\<forall>c \<in> set (mi_chunks ix @ map (kr_index_version_update (\<lambda>_. Some (ig_index_version rep))) chunks). source_of c \<in> S \<and> kr_index_version c \<noteq> None"
      using IH(1) src swapped(5) by auto
    moreover have "\<forall>s \<in> fst ` set (dict_set source (ig_index_version rep) (mi_active ix)). s \<in> S" unfolding dict_set_keys using IH(2) src by blast
    ultimately show ?case unfolding swapped(1) list_all_iff S_def[symmetric] by (simp add: mi_add_chunks_def mi_activate_version_def case_prod_unfold)
  qed
qed

text \<open>C22: 
  Nothing cited is lost by a refresh of the index in process: a chunk that a citation resolves to before an ingestion is what it resolves to afterwards, whatever was
  ingested. (A citation of a new chunk that reuses the identifier therefore resolves to the old text.)
\<close>
theorem citations_keep_resolving:
  assumes "resolve (\<lambda>i. mi_get_chunk i ix) cit = Some r" "registry_ok (ing_registry pl)"
  shows "resolve (\<lambda>i. mi_get_chunk i (snd (ingest_source in_process_store m pl fetch source ix))) cit = Some r"
proof -
  obtain x xs where c: "cit_chunk_id cit = Some (x # xs)" "mi_get_chunk (x # xs) ix = Some r"
    using assms(1) by (auto simp: resolve_def split: option.splits list.splits)
  have app: "find P as = Some y \<Longrightarrow> find P (as @ bs) = Some y" for P :: "embedded_chunk \<Rightarrow> bool" and as y bs by (induction as) (auto split: if_splits)
  have "mi_get_chunk (x # xs) (snd (ingest_source in_process_store m pl fetch source ix)) = Some r"
  proof (rule ingest_memory_cases[OF assms(2), of m fetch source ix], goal_cases refused kept swapped)
    case (swapped rep chunks)
    from c(2) obtain y where "find (\<lambda>c. kr_chunk_id c = x # xs) (mi_chunks ix) = Some y" "r = knowledge_chunk_record.truncate y" by (auto simp: mi_get_chunk_def)
    then show ?case unfolding swapped(1) by (simp add: mi_get_chunk_def mi_add_chunks_def app)
  qed (simp_all add: c(2))
  then show ?thesis by (simp add: resolve_def c(1))
qed


section \<open>Where the PostgreSQL index differs\<close>

text \<open>C37: 
  The two stores agree on what the metadata filters mean: for a row that is not retired and a filter that names no product (and no empty identifier), the
  \<^verbatim>\<open>where\<close> clause of the PostgreSQL index selects exactly the chunks that \<^verbatim>\<open>matches_filters\<close> accepts.
\<close>
theorem stores_agree_on_filters:
  assumes "cw_retired_at w = None" "rf_products f = []" "[] \<notin> set (rf_cve_ids f)" "[] \<notin> set (rf_technique_ids f)"
  shows "base_query f w = matches_filters (cw_chunk w) f"
proof -
  let ?md = "kr_metadata (cw_chunk w)"
  have ids: "(case i of None \<Rightarrow> False | Some c \<Rightarrow> c \<in> set xs) = (or_empty i \<in> set xs)" if "[] \<notin> set xs" for i and xs :: "string list"
    using that by (cases i) (simp_all add: or_empty_def)
  have after: "(case rf_published_after f of None \<Rightarrow> True | Some after \<Rightarrow> case md_published_at ?md of None \<Rightarrow> False | Some p \<Rightarrow> p \<ge> after)
    = (\<not> (case rf_published_after f of None \<Rightarrow> False | Some after \<Rightarrow> case md_published_at ?md of None \<Rightarrow> True | Some p \<Rightarrow> p < after))"
    by (cases "rf_published_after f"; cases "md_published_at ?md") auto
  have trust: "(case rf_minimum_trust f of None \<Rightarrow> True | Some t \<Rightarrow> trust_rank (md_trust_tier ?md) \<le> trust_rank t)
    = (\<not> (case rf_minimum_trust f of None \<Rightarrow> False | Some t \<Rightarrow> trust_rank (md_trust_tier ?md) > trust_rank t))"
    by (cases "rf_minimum_trust f") auto
  show ?thesis unfolding base_query_def matches_filters_def Let_def ids[OF assms(3)] ids[OF assms(4)] after trust using assms(1,2) by simp
qed

text \<open>
  The keyword search of the PostgreSQL index ignores the product filter: its results do not depend on the products asked for.
\<close>
theorem pg_keyword_search_ignores_products:
  "pg_keyword_search ilike query (f\<lparr>rf_products := products\<rparr>) limit ix = pg_keyword_search ilike query f limit ix"
proof -
  have "base_query (f\<lparr>rf_products := products\<rparr>) = base_query f"
  proof (rule ext)
    fix w
    have "rf_source_kinds (f\<lparr>rf_products := products\<rparr>) = rf_source_kinds f" "rf_cve_ids (f\<lparr>rf_products := products\<rparr>) = rf_cve_ids f"
      "rf_technique_ids (f\<lparr>rf_products := products\<rparr>) = rf_technique_ids f" "rf_published_after (f\<lparr>rf_products := products\<rparr>) = rf_published_after f"
      "rf_minimum_trust (f\<lparr>rf_products := products\<rparr>) = rf_minimum_trust f" by simp_all
    then show "base_query (f\<lparr>rf_products := products\<rparr>) w = base_query f w" by (simp only: base_query_def)
  qed
  then show ?thesis by (simp only: pg_keyword_search_def)
qed

text \<open>
  The PostgreSQL index serves a version before it is activated: as soon as the chunks of a build are stored, and with the table of versions unchanged, every one of
  them is among the chunks that the searches read.
\<close>
theorem pg_serves_unactivated_chunks:
  "case pg_add_chunks now chunks version ix of Inl _ \<Rightarrow> True
   | Inr ix' \<Rightarrow> pg_versions ix' = pg_versions ix \<and> list_all (\<lambda>c. c\<lparr>kr_index_version := Some version\<rparr> \<in> set (pg_live ix')) chunks"
proof (cases "pg_add_chunks now chunks version ix")
  case (Inr ix')
  then have "ix' = ix\<lparr>pg_rows := pg_rows ix @ map (\<lambda>c. \<lparr>cw_chunk = c\<lparr>kr_index_version := Some version\<rparr>, cw_created_at = now, cw_retired_at = None\<rparr>) chunks\<rparr>"
    by (simp add: pg_add_chunks_def Let_def split: if_splits)
  then show ?thesis using Inr by (auto simp: list_all_iff pg_live_def base_query_def no_filters_def Let_def)
qed simp

lemma pg_activate_keys:
  assumes "pg_activate_version now source v ix = Inr (k, ix')"
  shows "map (\<lambda>r. (vr_source_id r, vr_version r)) (pg_versions ix') = map (\<lambda>r. (vr_source_id r, vr_version r)) (pg_versions ix)"
proof -
  have "pg_versions ix' = map (\<lambda>r. if vr_source_id r = source \<and> vr_version r = v then r\<lparr>vr_status := Ix_Active, vr_activated_at := Some now\<rparr> else r)
      (map (\<lambda>r. if retires source v r then r\<lparr>vr_status := Ix_Retired, vr_retired_at := Some now\<rparr> else r) (pg_versions ix))"
    using assms by (auto simp: pg_activate_version_def Let_def case_prod_unfold split: if_splits)
  note e = this
  show ?thesis unfolding e map_map by (rule map_cong[OF refl]) simp
qed

lemma pg_ready_key: "pg_ready source v ix = ((source, v) \<in> set (map (\<lambda>r. (vr_source_id r, vr_version r)) (pg_versions ix)))"
  by (auto simp: pg_ready_def list_ex_iff)

lemma pg_indexed_ready:
  assumes "index_documents (pg_store now) m pl source fetched (us, n) ix = (Inr rep, ix')"
  shows "pg_ready source (build_index_version m source (ep_model (ing_embeddings pl)) (map sd_content us)) ix'"
proof -
  let ?v = "build_index_version m source (ep_model (ing_embeddings pl)) (map sd_content us)" and ?e = "ing_embeddings pl" and ?cs = "embedded_chunks pl us"
  obtain ix1 where 1: "pg_record_version source ?v (ep_model ?e) (ep_dimensions ?e) (length us) (length ?cs) ix = Inr ix1"
    using assms by (cases "pg_record_version source ?v (ep_model ?e) (ep_dimensions ?e) (length us) (length ?cs) ix") (auto simp: index_documents_def pg_store_def Let_def)
  obtain ix2 where 2: "pg_add_chunks now ?cs ?v ix1 = Inr ix2"
    using assms 1 by (cases "pg_add_chunks now ?cs ?v ix1") (auto simp: index_documents_def pg_store_def Let_def)
  obtain k where 3: "pg_activate_version now source ?v ix2 = Inr (k, ix')"
    using assms 1 2 by (cases "pg_activate_version now source ?v ix2") (auto simp: index_documents_def pg_store_def Let_def)
  have "pg_versions ix2 = pg_versions ix1" using 2 by (auto simp: pg_add_chunks_def Let_def split: if_splits)
  moreover have "(source, ?v) \<in> set (map (\<lambda>r. (vr_source_id r, vr_version r)) (pg_versions ix1))" using 1 by (auto simp: pg_record_version_def split: if_splits)
  ultimately show ?thesis unfolding pg_ready_key pg_activate_keys[OF 3] by simp
qed

text \<open>
  A refresh of an unchanged source fails on the PostgreSQL index: after a successful ingestion, ingesting the same documents again raises (the version is already
  registered, and registering it again violates the unique constraint), where the report was to say that nothing changed.
\<close>
theorem pg_unchanged_refresh_fails:
  "case ingest_source (pg_store t) m pl fetch source ix of (out, ix') \<Rightarrow>
    (case out of Inl _ \<Rightarrow> True
     | Inr rep \<Rightarrow> if ig_failed rep then True else ingest_source (pg_store t') m pl fetch source ix' = (Inl Integrity_Error, ix'))"
proof -
  obtain out ix' where e: "ingest_source (pg_store t) m pl fetch source ix = (out, ix')" by (cases "ingest_source (pg_store t) m pl fetch source ix")
  have again: "ingest_source (pg_store t') m pl fetch source ix' = (Inl Integrity_Error, ix')" if out: "out = Inr rep" "\<not> ig_failed rep" for rep
  proof -
    obtain d where d: "map_of (ing_registry pl) source = Some d"
      using e out by (cases "map_of (ing_registry pl) source") (simp_all add: ingest_source_def get_source_def)
    obtain documents where docs: "fetch d = Inr documents"
    proof (cases "fetch d")
      case (Inl problem)
      with e d have e': "out = and_then (pg_active_version source ix) (\<lambda>active. Inr \<lparr>ig_source_id = source, ig_index_version = or_empty active, ig_documents_fetched = 0,
          ig_documents_ingested = 0, ig_duplicates_skipped = 0, ig_chunks_indexed = 0, ig_chunks_retired = 0, ig_failed = True, ig_error = Some problem\<rparr>)"
        by (auto simp: ingest_source_def get_source_def pg_store_def)
      from out(1) obtain active where "rep = \<lparr>ig_source_id = source, ig_index_version = or_empty active, ig_documents_fetched = 0, ig_documents_ingested = 0,
          ig_duplicates_skipped = 0, ig_chunks_indexed = 0, ig_chunks_retired = 0, ig_failed = True, ig_error = Some problem\<rparr>"
        unfolding e' and_then_Inr by blast
      with out(2) show thesis by simp
    qed
    obtain us n where dd: "dedupe_documents m (so_source_id d) [] documents = Inr (us, n)"
      using e out d docs by (cases "dedupe_documents m (so_source_id d) [] documents") (auto simp: ingest_source_def get_source_def)
    have run: "ingest_source (pg_store u) m pl fetch source i = index_documents (pg_store u) m pl source (length documents) (us, n) i" for u i
      using d docs dd by (simp add: ingest_source_def get_source_def)
    have "pg_ready source (build_index_version m source (ep_model (ing_embeddings pl)) (map sd_content us)) ix'"
      by (rule pg_indexed_ready[of t m pl source "length documents" us n ix rep]) (use e out run in simp)
    then show ?thesis unfolding run by (simp add: index_documents_def pg_store_def Let_def pg_record_version_def pg_ready_def)
  qed
  show ?thesis unfolding e prod.case using again by (cases out) simp_all
qed



section \<open>Witnesses\<close>

definition sample_pipeline :: pipeline where
  "sample_pipeline = \<lparr>ing_registry = source_registry_of DEFAULT_SOURCES, ing_chunker = \<lparr>max_characters = 1200, overlap_characters = 120\<rparr>,
     ing_embeddings = sv_embeddings sample_service\<rparr>"

abbreviation sample_fetch :: "source_definition \<Rightarrow> string + source_document list" where
  "sample_fetch \<equiv> \<lambda>d. Inr [sample_runbook]"

lemma sample_registry_ok: "registry_ok (ing_registry sample_pipeline)"
  by (simp add: sample_pipeline_def registry_of_ok)

lemma refresh_swaps_one_source_witness:
  "case ingest_source in_process_store sample_libm sample_pipeline sample_fetch ''internal_runbooks'' sample_index of (out, ix') \<Rightarrow>
    (case out of Inl _ \<Rightarrow> ix' = sample_index
     | Inr rep \<Rightarrow> if ig_failed rep then ix' = sample_index
       else let new = drop (length (mi_chunks sample_index)) (mi_chunks ix') in
         mi_chunks ix' = mi_chunks sample_index @ new \<and> filter (\<lambda>c. source_of c = ''internal_runbooks'') (live_chunks ix') = new)"
proof -
  have "case fst (ingest_source in_process_store sample_libm sample_pipeline sample_fetch ''internal_runbooks'' sample_index) of Inl _ \<Rightarrow> True
      | Inr rep \<Rightarrow> ig_failed rep \<or> (\<forall>c \<in> set (mi_chunks sample_index). \<not> (source_of c = ''internal_runbooks'' \<and> kr_index_version c = Some (ig_index_version rep)))"
  proof (rule ingest_memory_cases[OF sample_registry_ok, of sample_libm sample_fetch "''internal_runbooks''" sample_index], goal_cases refused kept swapped)
    case (swapped rep chunks)
    have "kr_index_version sample_embedded = Some ''v1''" by (simp add: sample_embedded_def sample_record_def knowledge_chunk_record.extend_def)
    moreover have "ig_index_version rep \<noteq> ''v1''" using swapped(7) by auto
    ultimately show ?case using swapped(2) by (simp add: sample_index_def)
  qed simp_all
  from refresh_swaps_one_source[OF sample_registry_ok this] show ?thesis by (auto simp: Let_def split: prod.splits sum.splits if_split_asm)
qed

lemma corpus_is_allow_listed_witness:
  "let ix = snd (ingest_source in_process_store sample_libm sample_pipeline sample_fetch ''internal_runbooks'' empty_index) in
    list_all (\<lambda>c. source_of c \<in> fst ` set (ing_registry sample_pipeline) \<and> kr_index_version c \<noteq> None) (mi_chunks ix)
    \<and> list_all (\<lambda>(source, v). source \<in> fst ` set (ing_registry sample_pipeline)) (mi_active ix)"
  using corpus_is_allow_listed[OF corpus_reachable.ingested[OF corpus_reachable.start] sample_registry_ok] by (simp only: Let_def)

lemma citations_keep_resolving_witness:
  "resolve (\<lambda>i. mi_get_chunk i (snd (ingest_source in_process_store sample_libm sample_pipeline sample_fetch ''internal_runbooks'' sample_index))) (bind_citation sample_record)
    = Some sample_record"
  by (rule citations_keep_resolving[OF _ sample_registry_ok])
    (simp add: resolve_def bind_citation_def sample_record_def mi_get_chunk_def sample_index_def sample_embedded_def knowledge_chunk_record.extend_def
      knowledge_chunk_record.truncate_def)

lemma stores_agree_on_filters_witness:
  "let w = \<lparr>cw_chunk = sample_embedded, cw_created_at = 0, cw_retired_at = None\<rparr>; f = no_filters\<lparr>rf_cve_ids := [''CVE-2021-44228'']\<rparr> in
    base_query f w = matches_filters (cw_chunk w) f"
  unfolding Let_def by (rule stores_agree_on_filters) (simp_all add: no_filters_def)

end
