(* ===== verification/Case_Store.thy ===== *)
theory Case_Store
  imports Dispatch Cve_Researcher Threat_Detector Patch_Recommender Report_Render Log_Analyzer
begin

text \<open>
  The case database and the services that write agent output to it (\<^verbatim>\<open>backend/db/orm\<close>, \<^verbatim>\<open>backend/db/repositories\<close>,
  \<^verbatim>\<open>backend/services/evidence.py\<close>, \<^verbatim>\<open>assessment.py\<close>, \<^verbatim>\<open>vulnerability.py\<close>, \<^verbatim>\<open>report.py\<close>, \<^verbatim>\<open>remediation.py\<close>).
  A table is a list of rows in insertion order; identifiers, citations as JSON, times as text and signatures are functions of the record \<open>case_env\<close>. Shown:
  writing never edits or removes a row, generations are numbered without gaps, only a decision moves an approval status, and how generations are really ordered.
\<close>

section \<open>Rows\<close>

datatype trigger_source = Tr_Analyst | Tr_Alert | Tr_Scheduled

fun trigger_value :: "trigger_source \<Rightarrow> string" where
  "trigger_value Tr_Analyst = ''analyst''"
| "trigger_value Tr_Alert = ''alert''"
| "trigger_value Tr_Scheduled = ''scheduled''"

record stage_entry =
  st_status :: string
  st_detail :: string
  st_at :: string

record investigation_row =
  in_id :: string
  in_trigger_source :: trigger_source
  in_status :: investigation_status
  in_severity :: "severity option"
  in_owner_id :: "string option"
  in_title :: "string option"
  in_summary :: "string option"
  in_config_snapshot :: mapping
  in_pipeline :: "(string, stage_entry) dict"
  in_created_at :: time
  in_updated_at :: time
  in_closed_at :: "time option"
  in_deleted_at :: "time option"

record log_event_row =
  le_id :: string
  le_investigation_id :: string
  le_source :: string
  le_event_time :: time
  le_actor :: "string option"
  le_event_type :: string
  le_raw_ref :: "string option"
  le_notability :: pyfloat
  le_provenance :: mapping

record assessment_row =
  ta_id :: string
  ta_investigation_id :: string
  ta_verdict :: verdict
  ta_severity :: severity
  ta_triage_priority :: triage_priority
  ta_enrichment_status :: enrichment_status
  ta_confidence :: pyfloat
  ta_rationale :: string
  ta_iocs :: "mapping list"
  ta_attack_techniques :: "mapping list"
  ta_version :: nat
  ta_created_at :: time

record finding_row =
  fr_id :: string
  fr_investigation_id :: string
  fr_cve_id :: string
  fr_cvss :: "mapping option"
  fr_summary :: string
  fr_applicability :: cve_applicability
  fr_exploit_mapping :: "mapping list"
  fr_citations :: "mapping list"
  fr_source_freshness :: "time option"
  fr_version :: nat

record report_row =
  rp_id :: string
  rp_investigation_id :: string
  rp_executive_summary :: string
  rp_technical_body :: string
  rp_citations :: "mapping list"
  rp_status :: report_status
  rp_version :: nat
  rp_created_at :: time

record recommendation_row =
  rm_id :: string
  rm_investigation_id :: string
  rm_action :: string
  rm_type :: recommendation_type
  rm_priority :: triage_priority
  rm_rationale :: string
  rm_expected_impact :: "string option"
  rm_citations :: "mapping list"
  rm_approval_status :: approval_status
  rm_requires_human_approval :: bool
  rm_version :: nat
  rm_created_at :: time

record decision_row = human_decision +
  dn_user_id :: string
  dn_target :: "string option"
  dn_rationale :: "string option"
  dn_created_at :: time

record audit_row =
  ad_id :: string
  ad_action :: string
  ad_entity_type :: string
  ad_entity_id :: "string option"
  ad_actor_id :: "string option"
  ad_before_ref :: "string option"
  ad_after_ref :: "string option"
  ad_ip_address :: "string option"
  ad_signature :: string

record case_db =
  db_next :: nat
  db_investigations :: "investigation_row list"
  db_log_events :: "log_event_row list"
  db_assessments :: "assessment_row list"
  db_findings :: "finding_row list"
  db_reports :: "report_row list"
  db_recommendations :: "recommendation_row list"
  db_conversations :: "conversation_row list"
  db_decisions :: "decision_row list"
  db_audit :: "audit_row list"

definition empty_db :: case_db where
  "empty_db = \<lparr>db_next = 0, db_investigations = [], db_log_events = [], db_assessments = [], db_findings = [], db_reports = [], db_recommendations = [],
     db_conversations = [], db_decisions = [], db_audit = []\<rparr>"

record case_env =
  en_uuid :: "nat \<Rightarrow> string"
  en_citation :: "citation \<Rightarrow> mapping"
  en_iso :: "time \<Rightarrow> string"
  en_canonical :: "(string \<times> string option) list \<Rightarrow> string"
  en_sha256 :: "string \<Rightarrow> string"

text \<open>\<^verbatim>\<open>uuid4\<close>: the \<open>n\<close>-th identifier the database ever hands out.\<close>

definition fresh :: "case_env \<Rightarrow> case_db \<Rightarrow> string" where
  "fresh e db = en_uuid e (db_next db)"

definition fresh_at :: "case_env \<Rightarrow> case_db \<Rightarrow> nat \<Rightarrow> string" where
  "fresh_at e db k = en_uuid e (db_next db + k)"


section \<open>Versioned access\<close>

text \<open>\<^verbatim>\<open>select max(version) ... or 0\<close> and one generation, over the columns of a table.\<close>

definition latest_version :: "('r \<Rightarrow> string) \<Rightarrow> ('r \<Rightarrow> nat) \<Rightarrow> string \<Rightarrow> 'r list \<Rightarrow> nat" where
  "latest_version own ver i rows = (let vs = map ver (filter (\<lambda>r. own r = i) rows) in if vs = [] then 0 else Max (set vs))"

definition generation :: "('r \<Rightarrow> string) \<Rightarrow> ('r \<Rightarrow> nat) \<Rightarrow> string \<Rightarrow> nat \<Rightarrow> 'r list \<Rightarrow> 'r list" where
  "generation own ver i v rows = filter (\<lambda>r. own r = i \<and> ver r = v) rows"

definition newest_by :: "('r \<Rightarrow> 'k::linorder) \<Rightarrow> 'r list \<Rightarrow> 'r option" where
  "newest_by key rows = (case rows of [] \<Rightarrow> None | r # rs \<Rightarrow> Some (max_by key r rs))"

abbreviation assessment_version :: "case_db \<Rightarrow> string \<Rightarrow> nat" where
  "assessment_version db i \<equiv> latest_version ta_investigation_id ta_version i (db_assessments db)"
abbreviation dossier_version :: "case_db \<Rightarrow> string \<Rightarrow> nat" where
  "dossier_version db i \<equiv> latest_version fr_investigation_id fr_version i (db_findings db)"
abbreviation report_version :: "case_db \<Rightarrow> string \<Rightarrow> nat" where
  "report_version db i \<equiv> latest_version rp_investigation_id rp_version i (db_reports db)"
abbreviation plan_version :: "case_db \<Rightarrow> string \<Rightarrow> nat" where
  "plan_version db i \<equiv> latest_version rm_investigation_id rm_version i (db_recommendations db)"

definition current_assessment :: "case_db \<Rightarrow> string \<Rightarrow> assessment_row option" where
  "current_assessment db i = newest_by (\<lambda>r. (ta_version r, ta_id r)) (filter (\<lambda>r. ta_investigation_id r = i) (db_assessments db))"

definition assessment_history :: "case_db \<Rightarrow> string \<Rightarrow> nat \<Rightarrow> assessment_row list" where
  "assessment_history db i limit = take limit (sort_key (\<lambda>r. (ta_version r, ta_id r)) (filter (\<lambda>r. ta_investigation_id r = i) (db_assessments db)))"

definition findings_of :: "case_db \<Rightarrow> string \<Rightarrow> nat \<Rightarrow> finding_row list" where
  "findings_of db i v = sort_key fr_cve_id (generation fr_investigation_id fr_version i v (db_findings db))"

definition current_findings :: "case_db \<Rightarrow> string \<Rightarrow> finding_row list" where
  "current_findings db i = (let v = dossier_version db i in if v = 0 then [] else findings_of db i v)"

definition current_report :: "case_db \<Rightarrow> string \<Rightarrow> report_row option" where
  "current_report db i = newest_by rp_version (filter (\<lambda>r. rp_investigation_id r = i) (db_reports db))"

definition report_of :: "case_db \<Rightarrow> string \<Rightarrow> nat \<Rightarrow> report_row option" where
  "report_of db i v = (case generation rp_investigation_id rp_version i v (db_reports db) of [] \<Rightarrow> None | r # _ \<Rightarrow> Some r)"

definition report_history :: "case_db \<Rightarrow> string \<Rightarrow> nat \<Rightarrow> report_row list" where
  "report_history db i limit = take limit (sort_key rp_version (filter (\<lambda>r. rp_investigation_id r = i) (db_reports db)))"

text \<open>The columns are stored as the text of the enumeration, so that is what the database orders by.\<close>

definition recommendations_of :: "case_db \<Rightarrow> string \<Rightarrow> nat \<Rightarrow> recommendation_row list" where
  "recommendations_of db i v = sort_key (\<lambda>r. (priority_value (rm_priority r), rm_action r)) (generation rm_investigation_id rm_version i v (db_recommendations db))"

definition current_recommendations :: "case_db \<Rightarrow> string \<Rightarrow> recommendation_row list" where
  "current_recommendations db i = (let v = plan_version db i in if v = 0 then [] else recommendations_of db i v)"

definition pending_approval :: "case_db \<Rightarrow> string \<Rightarrow> recommendation_row list" where
  "pending_approval db i = filter (\<lambda>r. rm_approval_status r = Ap_Pending) (current_recommendations db i)"

definition events_of :: "case_db \<Rightarrow> string \<Rightarrow> nat \<Rightarrow> log_event_row list" where
  "events_of db i limit = take limit (sort_key (\<lambda>r. (le_event_time r, le_id r)) (filter (\<lambda>r. le_investigation_id r = i) (db_log_events db)))"

definition count_for_investigation :: "case_db \<Rightarrow> string \<Rightarrow> nat" where
  "count_for_investigation db i = length (events_of db i 10000)"


section \<open>Writing evidence\<close>

fun source_kind_value :: "log_source_kind \<Rightarrow> string" where
  "source_kind_value Kind_File = ''file''"
| "source_kind_value Kind_Syslog = ''syslog''"
| "source_kind_value Kind_Windows_Event_Log = ''windows_event_log''"
| "source_kind_value Kind_Siem = ''siem''"

fun log_format_value :: "log_format \<Rightarrow> string" where
  "log_format_value Json = ''json''"
| "log_format_value Syslog_Rfc3164 = ''syslog_rfc3164''"
| "log_format_value Syslog_Rfc5424 = ''syslog_rfc5424''"
| "log_format_value Windows_Event = ''windows_event''"
| "log_format_value Cef = ''cef''"
| "log_format_value Key_Value = ''key_value''"
| "log_format_value Unknown_Format = ''unknown''"

abbreviation optional_value :: "string option \<Rightarrow> pyval" where
  "optional_value o' \<equiv> case o' of None \<Rightarrow> PNone | Some s \<Rightarrow> PStr s"

definition to_log_event :: "string \<Rightarrow> string \<Rightarrow> normalized_event \<Rightarrow> log_event_row" where
  "to_log_event i rid ev = \<lparr>le_id = rid, le_investigation_id = i, le_source = source_id ev, le_event_time = event_time ev, le_actor = actor ev,
     le_event_type = event_type_value (ev_type ev), le_raw_ref = raw_ref ev, le_notability = notability ev,
     le_provenance = [(''event_id'', PStr (event_id ev)), (''record_id'', PStr (record_id ev)), (''source_kind'', PStr (source_kind_value (ev_source_kind ev))),
       (''log_format'', PStr (log_format_value (ev_log_format ev))), (''host'', optional_value (host ev)), (''action'', optional_value (action ev)),
       (''outcome'', optional_value (outcome ev)), (''confidence'', PFloat (confidence ev)),
       (''entities'', PList (map (\<lambda>en. PDict [(''type'', PStr (entity_type_value (en_type en))), (''value'', PStr (en_value en))]) (entities ev)))]\<rparr>"

definition record_log_events :: "case_env \<Rightarrow> string \<Rightarrow> normalized_event list \<Rightarrow> case_db \<Rightarrow> nat \<times> case_db" where
  "record_log_events e i evs db =
     (if evs = [] then (0, db)
      else (length evs, db\<lparr>db_next := db_next db + length evs,
        db_log_events := db_log_events db @ map (\<lambda>(k, ev). to_log_event i (fresh_at e db k) ev) (enumerate 0 evs)\<rparr>))"


section \<open>Writing assessments, dossiers, reports and plans\<close>

definition spaced :: "string list \<Rightarrow> string" where
  "spaced parts = join '' '' (filter (\<lambda>p. p \<noteq> []) parts)"

definition assessment_rationale :: "detection_result \<Rightarrow> string" where
  "assessment_rationale r = spaced (sa_rationale (dt_severity r) #
     (if dt_escalation_required r \<and> truthy (dt_escalation_reason r) then [''Escalation required: '' @ the (dt_escalation_reason r)] else []))"

abbreviation text_list :: "string list \<Rightarrow> pyval" where
  "text_list xs \<equiv> PList (map PStr xs)"

definition ioc_payload :: "ioc_indicator \<Rightarrow> mapping" where
  "ioc_payload i = [(''type'', PStr (ioc_type_value (ioc_kind i))), (''value'', PStr (ioc_value i)), (''defanged'', PStr (ioc_defanged i)),
     (''reputation'', PStr (reputation_value (reputation i))), (''source'', optional_value (reputation_source i)), (''enriched'', PBool (enriched i)),
     (''internal'', PBool (ioc_internal i)), (''observation_count'', PInt (int (observation_count i))), (''event_ids'', text_list (ioc_event_ids i))]"

definition technique_payload :: "case_env \<Rightarrow> technique_mapping \<Rightarrow> mapping" where
  "technique_payload e t = [(''technique_id'', PStr (tm_technique_id t)), (''name'', PStr (tm_name t)), (''tactics'', text_list (tm_tactics t)),
     (''rationale'', PStr (tm_rationale t)), (''confidence'', PFloat (tm_confidence t)), (''event_ids'', text_list (tm_event_ids t)),
     (''citations'', PList (map (PDict \<circ> en_citation e) (tm_citations t)))]"

definition to_threat_assessment :: "case_env \<Rightarrow> time \<Rightarrow> string \<Rightarrow> string \<Rightarrow> nat \<Rightarrow> detection_result \<Rightarrow> assessment_row" where
  "to_threat_assessment e now rid i v r = \<lparr>ta_id = rid, ta_investigation_id = i, ta_verdict = dt_verdict r, ta_severity = sa_level (dt_severity r),
     ta_triage_priority = dt_priority r, ta_enrichment_status = dt_enrichment_status r, ta_confidence = dt_confidence r, ta_rationale = assessment_rationale r,
     ta_iocs = map ioc_payload (dt_iocs r), ta_attack_techniques = map (technique_payload e) (dt_techniques r), ta_version = v, ta_created_at = now\<rparr>"

definition record_threat_assessment :: "case_env \<Rightarrow> time \<Rightarrow> string \<Rightarrow> detection_result \<Rightarrow> case_db \<Rightarrow> assessment_row \<times> case_db" where
  "record_threat_assessment e now i r db = (let row = to_threat_assessment e now (fresh e db) i (assessment_version db i + 1) r in
     (row, db\<lparr>db_next := db_next db + 1, db_assessments := db_assessments db @ [row]\<rparr>))"

fun reason_value :: "applicability_reason \<Rightarrow> string" where
  "reason_value Version_In_Vulnerable_Range = ''version_in_vulnerable_range''"
| "reason_value Version_Not_In_Vulnerable_Range = ''version_not_in_vulnerable_range''"
| "reason_value Version_Unknown = ''version_unknown''"
| "reason_value Version_Unparseable = ''version_unparseable''"
| "reason_value No_Affected_Range_Published = ''no_affected_range_published''"
| "reason_value Product_Not_In_Inventory = ''product_not_in_inventory''"
| "reason_value Technique_Match_Only = ''technique_match_only''"

definition cvss_payload :: "cve_assessment \<Rightarrow> mapping option" where
  "cvss_payload v = map_option (\<lambda>m. [(''score'', PFloat (cm_base_score m)), (''vector'', PStr (cm_vector m)), (''severity'', PStr (severity_value (cm_severity m))),
     (''narrative'', PStr (cm_narrative m)), (''version'', PStr (cm_version m))]) (cr_cvss (va_record v))"

definition exploit_payload :: "cve_assessment \<Rightarrow> mapping list" where
  "exploit_payload v = (let m = va_mapping v in if mapping_is_empty m then []
     else [[(''technique_ids'', text_list (em_technique_ids m)), (''signal_rule_ids'', text_list (em_signal_rule_ids m)),
            (''event_ids'', text_list (em_event_ids m)), (''rationale'', PStr (em_rationale m))]])"

definition finding_summary :: "cve_assessment \<Rightarrow> string" where
  "finding_summary v = spaced (strip (cr_summary (va_record v))
     # map (\<lambda>x. ''['' @ reason_value (ae_reason x) @ ''] '' @ ae_detail x) (filter (\<lambda>x. ae_detail x \<noteq> []) (va_evidence v))
     @ (if cr_stale (va_record v) then [''Assembled from the indexed corpus because the live CVE feed was unavailable.''] else []))"

definition to_cve_finding :: "case_env \<Rightarrow> string \<Rightarrow> string \<Rightarrow> nat \<Rightarrow> cve_assessment \<Rightarrow> finding_row" where
  "to_cve_finding e rid i v a = \<lparr>fr_id = rid, fr_investigation_id = i, fr_cve_id = cve_id (va_record a), fr_cvss = cvss_payload a, fr_summary = finding_summary a,
     fr_applicability = va_applicability a, fr_exploit_mapping = exploit_payload a, fr_citations = map (en_citation e) (va_citations a),
     fr_source_freshness = (case cr_modified_at (va_record a) of Some t \<Rightarrow> Some t | None \<Rightarrow> cr_published_at (va_record a)), fr_version = v\<rparr>"

definition record_cve_findings :: "case_env \<Rightarrow> string \<Rightarrow> research_result \<Rightarrow> case_db \<Rightarrow> finding_row list \<times> case_db" where
  "record_cve_findings e i r db = (let v = dossier_version db i + 1;
       rows = map (\<lambda>(k, a). to_cve_finding e (fresh_at e db k) i v a) (enumerate 0 (all_assessments r)) in
     (rows, if rows = [] then db else db\<lparr>db_next := db_next db + length rows, db_findings := db_findings db @ rows\<rparr>))"

definition record_report_content :: "case_env \<Rightarrow> time \<Rightarrow> string \<Rightarrow> string \<Rightarrow> string \<Rightarrow> mapping list \<Rightarrow> case_db \<Rightarrow> report_row \<times> case_db" where
  "record_report_content e now i executive technical citations db =
     (let row = \<lparr>rp_id = fresh e db, rp_investigation_id = i, rp_executive_summary = executive, rp_technical_body = technical, rp_citations = citations,
        rp_status = Report_Draft, rp_version = report_version db i + 1, rp_created_at = now\<rparr> in
     (row, db\<lparr>db_next := db_next db + 1, db_reports := db_reports db @ [row]\<rparr>))"

definition finalize_report :: "string \<Rightarrow> nat option \<Rightarrow> case_db \<Rightarrow> string + report_row \<times> case_db" where
  "finalize_report i version db =
     (case (case version of Some v \<Rightarrow> report_of db i v | None \<Rightarrow> current_report db i) of
        None \<Rightarrow> Inl (''no report to finalize for investigation '' @ i)
      | Some row \<Rightarrow> Inr (row\<lparr>rp_status := Report_Final\<rparr>,
          db\<lparr>db_reports := map (\<lambda>r. if rp_id r = rp_id row then r\<lparr>rp_status := Report_Final\<rparr> else r) (db_reports db)\<rparr>))"

fun grounding_value :: "remediation_confidence \<Rightarrow> string" where
  "grounding_value Vendor_Specific = ''vendor_specific''"
| "grounding_value Class_Specific = ''class_specific''"
| "grounding_value Generic = ''generic''"

definition recommendation_rationale :: "recommendation \<Rightarrow> string" where
  "recommendation_rationale r = spaced (strip (rc_rationale r)
     # (if rc_steps r = [] then [] else [''Suggested steps for an analyst: ''
          @ join '' '' (map (\<lambda>(k, s). ''('' @ show_nat k @ '') '' @ s) (enumerate 1 (rc_steps r)))])
     @ (if truthy (rc_verification r) then [''Verification: '' @ the (rc_verification r)] else [])
     @ (if rc_targets r = [] then [] else [''Affected: '' @ join '', '' (rc_targets r) @ ''.''])
     @ [''Grounding: '' @ underscores_to_spaces (grounding_value (rc_grounding r)) @ ''.''])"

definition to_recommendation :: "case_env \<Rightarrow> time \<Rightarrow> string \<Rightarrow> string \<Rightarrow> nat \<Rightarrow> recommendation \<Rightarrow> recommendation_row" where
  "to_recommendation e now rid i v r = \<lparr>rm_id = rid, rm_investigation_id = i, rm_action = rc_action r, rm_type = rc_type r, rm_priority = rc_priority r,
     rm_rationale = recommendation_rationale r, rm_expected_impact = rc_expected_impact r, rm_citations = map (en_citation e) (rc_citations r),
     rm_approval_status = Ap_Pending, rm_requires_human_approval = True, rm_version = v, rm_created_at = now\<rparr>"

definition record_remediation_plan :: "case_env \<Rightarrow> time \<Rightarrow> string \<Rightarrow> remediation_plan \<Rightarrow> case_db \<Rightarrow> recommendation_row list \<times> case_db" where
  "record_remediation_plan e now i p db = (let v = plan_version db i + 1;
       rows = map (\<lambda>(k, r). to_recommendation e now (fresh_at e db k) i v r) (enumerate 0 (pl_recommendations p)) in
     (rows, if rows = [] then db else db\<lparr>db_next := db_next db + length rows, db_recommendations := db_recommendations db @ rows\<rparr>))"


section \<open>Deciding a recommendation\<close>

definition DECIDABLE :: "approval_status set" where
  "DECIDABLE = {Ap_Approved, Ap_Rejected, Ap_Edited}"

fun approval_value :: "approval_status \<Rightarrow> string" where
  "approval_value Ap_Pending = ''pending''"
| "approval_value Ap_Approved = ''approved''"
| "approval_value Ap_Rejected = ''rejected''"
| "approval_value Ap_Edited = ''edited''"

datatype decision_error = Not_A_Decision approval_status | No_Actor | No_Recommendation string | Already_Decided string approval_status

definition get_recommendation :: "case_db \<Rightarrow> string \<Rightarrow> recommendation_row option" where
  "get_recommendation db rid = find (\<lambda>r. rm_id r = rid) (db_recommendations db)"

definition decide_recommendation :: "string \<Rightarrow> approval_status \<Rightarrow> string \<Rightarrow> case_db \<Rightarrow> decision_error + recommendation_row \<times> case_db" where
  "decide_recommendation rid d who db =
     (if d \<notin> DECIDABLE then Inl (Not_A_Decision d)
      else if strip who = [] then Inl No_Actor
      else case get_recommendation db rid of
        None \<Rightarrow> Inl (No_Recommendation rid)
      | Some row \<Rightarrow>
          if rm_approval_status row \<noteq> Ap_Pending then Inl (Already_Decided rid (rm_approval_status row))
          else Inr (row\<lparr>rm_approval_status := d\<rparr>,
            db\<lparr>db_recommendations := map (\<lambda>r. if rm_id r = rid then r\<lparr>rm_approval_status := d\<rparr> else r) (db_recommendations db)\<rparr>))"

end
