(* ===== verification/Case_Runs.thy ===== *)
theory Case_Runs
  imports Case_Service Graph_Runtime Access
begin

text \<open>
  Running an investigation and persisting what each node produced (\<^verbatim>\<open>backend/workers/investigations.py\<close>), the routes that start and decide one
  (\<^verbatim>\<open>backend/api/routes/investigations.py\<close>) and the delivery that an approval may trigger (\<^verbatim>\<open>backend/workers/notifications.py\<close>). Reading a serialised section back
  (\<^verbatim>\<open>model_validate\<close>) is the record \<open>readers\<close>. Shown: nothing becomes final, approved or closed without a recorded decision of a person, whatever agents and nodes return;
  the record only grows; a queued alert is authorised by the decision just recorded; and what a failing persistence step leaves behind.
\<close>

section \<open>What a run reports\<close>

text \<open>
  The updates that \<^verbatim>\<open>graph.stream\<close> yields, node by node: the same recursion as \<open>advance\<close>, which keeps the states in between.
\<close>

function run_updates :: "agent_suite \<Rightarrow> (nat \<Rightarrow> string) \<Rightarrow> node \<Rightarrow> graph_state \<Rightarrow> (node \<times> node_update) list" where
  "run_updates ag clock n s =
     (if n = Human_Gate then []
      else case run_node ag (clock (length (node_history s))) None n s of
        Some (Inr upd) \<Rightarrow> (n, upd) # (case successor n (apply_update s upd) of Some (At m) \<Rightarrow> run_updates ag clock m (apply_update s upd) | _ \<Rightarrow> [])
      | _ \<Rightarrow> [])"
  by pat_completeness auto
termination
  by (relation "measure (\<lambda>(ag, clock, n, s). node_rank n)") (auto dest: successor_rank)

declare run_updates.simps [simp del]

definition resume_updates :: "agent_suite \<Rightarrow> (nat \<Rightarrow> string) \<Rightarrow> store \<Rightarrow> string \<Rightarrow> decision_input \<Rightarrow> (node \<times> node_update) list" where
  "resume_updates ag clock st tid inp = (case thread st tid of
     (At n, s) # _ \<Rightarrow> (case coerce_decision inp of
        Inl e \<Rightarrow> []
      | Inr d \<Rightarrow> (case run_node ag (clock (length (node_history s))) (Some d) n s of
          Some (Inr upd) \<Rightarrow> (n, upd) # (case successor n (apply_update s upd) of Some (At m) \<Rightarrow> run_updates ag clock m (apply_update s upd) | _ \<Rightarrow> [])
        | _ \<Rightarrow> []))
   | _ \<Rightarrow> [])"


section \<open>Persisting a node's output\<close>

record readers =
  rd_event :: "pyval \<Rightarrow> normalized_event option"
  rd_threat :: "pyval \<Rightarrow> detection_result option"
  rd_dossier :: "pyval \<Rightarrow> research_result option"
  rd_plan :: "pyval \<Rightarrow> remediation_plan option"

definition normalized_events :: "readers \<Rightarrow> pyval list \<Rightarrow> normalized_event list \<times> nat" where
  "normalized_events rd payload = (List.map_filter (rd_event rd) payload, length (filter (\<lambda>x. rd_event rd x = None) payload))"

definition read_finding :: "mapping \<Rightarrow> string \<Rightarrow> (pyval \<Rightarrow> 'r option) \<Rightarrow> py_error + 'r" where
  "read_finding findings k validate = (case map_of findings k of
     None \<Rightarrow> Inl Key_Error
   | Some v \<Rightarrow> (case validate v of None \<Rightarrow> Inl Value_Error | Some r \<Rightarrow> Inr r))"

text \<open>\<^verbatim>\<open>str(report.get(key) or "")\<close>, and \<^verbatim>\<open>dict(citation)\<close> on what the reporter stores (mappings).\<close>

definition report_text :: "mapping \<Rightarrow> string \<Rightarrow> string" where
  "report_text d k = (if truth (pget d k) then str_val (pget d k) else [])"

fun as_citation :: "pyval \<Rightarrow> py_error + mapping" where
  "as_citation (PDict d) = Inr d"
| "as_citation _ = Inl Type_Error"

definition persist :: "case_env \<Rightarrow> readers \<Rightarrow> time \<Rightarrow> string \<Rightarrow> node \<Rightarrow> node_update \<Rightarrow> case_db \<Rightarrow> py_error + case_db" where
  "persist e rd now i n upd db = (let findings = u_investigation upd in case n of
     Log_Analysis \<Rightarrow> and_then (try_iter (pget_or findings ''normalized_events'' (PList []))) (\<lambda>payload.
       let (events, unreadable) = normalized_events rd payload; (written, db) = record_log_events e i events db;
           detail = show_nat written @ '' event(s)'' @ (if unreadable = 0 then [] else '', '' @ show_nat unreadable @ '' unreadable'') in
       Inr (record_stage e now i (node_name Log_Analysis) STAGE_COMPLETE detail db))
   | Threat_Detection \<Rightarrow> and_then (read_finding findings ''threat_assessment'' (rd_threat rd)) (\<lambda>a.
       let (row, db) = record_threat_assessment e now i a db;
           db = set_headline now i (Some (sa_level (dt_severity a))) [] db;
           db = record_stage e now i (node_name Threat_Detection) STAGE_COMPLETE
             (verdict_value (dt_verdict a) @ '', '' @ severity_value (sa_level (dt_severity a))) db in
       Inr (if dt_verdict a = Benign
         then record_stage e now i (node_name Cve_Research) STAGE_SKIPPED ''benign verdict; vulnerability research not required'' db else db))
   | Cve_Research \<Rightarrow> and_then (read_finding findings ''vulnerability_dossier'' (rd_dossier rd)) (\<lambda>d.
       let (rows, db) = record_cve_findings e i d db;
           detail = show_nat (length (vr_cves d)) @ '' confirmed, '' @ show_nat (length (vr_candidates d)) @ '' candidate(s)''
             @ (if vr_stale d then ''; assembled from the indexed corpus'' else []) in
       Inr (record_stage e now i (node_name Cve_Research) STAGE_COMPLETE detail db))
   | Report \<Rightarrow> and_then (try_iter (or_val (pget (u_report upd) ''citations'') (PList []))) (\<lambda>cs. and_then (traverse as_citation cs) (\<lambda>citations.
       let (row, db) = record_report_content e now i (report_text (u_report upd) ''executive_summary'') (report_text (u_report upd) ''technical_report'') citations db;
           db = set_headline now i None (rp_executive_summary row) db in
       Inr (record_stage e now i (node_name Report) STAGE_COMPLETE
         (''v'' @ show_nat (rp_version row) @ '', '' @ show_nat (length (rp_citations row)) @ '' citation(s)'') db)))
   | Remediation \<Rightarrow> and_then (read_finding findings ''remediation_plan'' (rd_plan rd)) (\<lambda>p.
       let (rows, db) = record_remediation_plan e now i p db in
       Inr (record_stage e now i (node_name Remediation) STAGE_COMPLETE (show_nat (length rows) @ '' recommendation(s), all pending approval'') db))
   | Triage \<Rightarrow> Inr (mark_status now i St_Awaiting_Approval db)
   | Close \<Rightarrow> Inr (mark_status now i St_Closed db)
   | _ \<Rightarrow> Inr db)"

text \<open>Each step is a transaction of its own; one that raises is rolled back, and the graph's runtime logs the exception and goes on.\<close>

definition write_step :: "(case_db \<Rightarrow> 'e + case_db) \<Rightarrow> case_db \<Rightarrow> case_db" where
  "write_step operation db = (case operation db of Inl err \<Rightarrow> db | Inr db' \<Rightarrow> db')"

definition on_node :: "case_env \<Rightarrow> readers \<Rightarrow> time \<Rightarrow> string \<Rightarrow> node \<times> node_update \<Rightarrow> case_db \<Rightarrow> case_db" where
  "on_node e rd now i nu = write_step (persist e rd now i (fst nu) (snd nu))"

text \<open>\<^verbatim>\<open>type(exc).__name__\<close>; a failed node's error carries the name of what was raised.\<close>

fun node_error_name :: "node_error \<Rightarrow> string" where
  "node_error_name (Transient_Node_Error why) = ''TransientNodeError''"
| "node_error_name (Node_Failed what) = what"

definition failed_stage :: "case_db \<Rightarrow> string \<Rightarrow> string" where
  "failed_stage db i =
     (let recorded = (case get_investigation db i of None \<Rightarrow> [] | Some r \<Rightarrow> in_pipeline r);
          settled = (\<lambda>stage. case map_of recorded stage of None \<Rightarrow> False | Some s \<Rightarrow> st_status s \<in> {STAGE_COMPLETE, STAGE_SKIPPED}) in
      case find (\<lambda>stage. \<not> settled stage) (map fst STAGES) of Some stage \<Rightarrow> stage | None \<Rightarrow> node_name Remediation)"

definition started_state :: "store \<Rightarrow> string \<Rightarrow> string \<Rightarrow> create_request \<Rightarrow> graph_state" where
  "started_state st i created rq = apply_input (case thread st i of [] \<Rightarrow> None | c # _ \<Rightarrow> Some (snd c))
     (new_state i (trigger_value (cq_trigger rq)) (snapshot_config rq) created (Some (cq_evidence rq)) (Some (cq_assets rq)))"

definition report_nodes :: "case_env \<Rightarrow> readers \<Rightarrow> (nat \<Rightarrow> time) \<Rightarrow> string \<Rightarrow> (node \<times> node_update) list \<Rightarrow> case_db \<Rightarrow> case_db" where
  "report_nodes e rd tick i updates = fold (\<lambda>(k, nu). on_node e rd (tick (k + 1)) i nu) (enumerate 0 updates)"

definition run_investigation ::
  "case_env \<Rightarrow> readers \<Rightarrow> agent_suite \<Rightarrow> (nat \<Rightarrow> string) \<Rightarrow> (nat \<Rightarrow> time) \<Rightarrow> string \<Rightarrow> create_request \<Rightarrow> store \<times> case_db \<Rightarrow> store \<times> case_db" where
  "run_investigation e rd ag clock tick i rq sys =
     (let (st, db) = sys; created = en_iso e (tick 0); db = mark_status (tick 0) i St_In_Progress db;
          (st', err) = start ag clock st i (trigger_value (cq_trigger rq)) (snapshot_config rq) created (Some (cq_evidence rq)) (Some (cq_assets rq));
          updates = run_updates ag clock Ingest_Seed (started_state st i created rq);
          db = report_nodes e rd tick i updates db in
      (st', case err of None \<Rightarrow> db
        | Some x \<Rightarrow> record_stage e (tick (length updates + 1)) i (failed_stage db i) STAGE_FAILED (node_error_name x) db))"


section \<open>Routes that change something\<close>

datatype route_error = Forbidden | Not_Found string | Conflict string | Resume_Refused graph_error | Node_Failure node_error

definition load_case :: "case_db \<Rightarrow> string \<Rightarrow> route_error + investigation_row" where
  "load_case db i = (case get_investigation db i of
     None \<Rightarrow> Inl (Not_Found ''no such investigation'')
   | Some r \<Rightarrow> if in_deleted_at r = None then Inr r else Inl (Not_Found ''no such investigation''))"

record caller =
  ca_role :: user_role
  ca_user_id :: string
  ca_ip :: "string option"

definition create_route :: "case_env \<Rightarrow> time \<Rightarrow> caller \<Rightarrow> create_request \<Rightarrow> case_db \<Rightarrow> (route_error + queue_row) \<times> case_db" where
  "create_route e now c rq db =
     (if \<not> has_capability (ca_role c) Run_Investigations then (Inl Forbidden, db)
      else let (row, db) = create_investigation e now rq (Some (ca_user_id c)) db;
               db = audit_append e ''investigation.created'' ''investigation'' (Some (in_id row)) (Some (ca_user_id c)) None None (ca_ip c) db in
        (Inr (summary_of db row), db))"

record gate_request =
  gq_decision :: decision_type
  gq_rationale :: "string option"
  gq_target :: "string option"

record gate_response =
  gr_investigation_id :: string
  gr_decision :: decision_type
  gr_status :: investigation_status
  gr_awaiting_human :: bool
  gr_recorded_at :: time
  gr_executed :: bool
  gr_notification_queued :: bool
  gr_approval_id :: string
  gr_alerts :: "pyval list"

text \<open>The alerts of a resumed run; the last two fields of the response are what the route hands to the background task.\<close>

definition collected_alerts :: "(node \<times> node_update) list \<Rightarrow> pyval list" where
  "collected_alerts updates = concat (map (\<lambda>(n, upd). as_list (pget_or (u_notification upd) ''pending'' (PList []))) (filter (\<lambda>(n, upd). n = Notify) updates))"

definition decide_gate ::
  "case_env \<Rightarrow> agent_suite \<Rightarrow> (nat \<Rightarrow> string) \<Rightarrow> time \<Rightarrow> caller \<Rightarrow> string \<Rightarrow> gate_request \<Rightarrow> store \<times> case_db \<Rightarrow> (route_error + gate_response) \<times> store \<times> case_db" where
  "decide_gate e ag clock now c i rq sys = (let (st, db) = sys in
     if \<not> has_capability (ca_role c) Approve_Actions then (Inl Forbidden, st, db)
     else case load_case db i of
       Inl err \<Rightarrow> (Inl err, st, db)
     | Inr row \<Rightarrow>
       if in_status row \<noteq> St_Awaiting_Approval
       then (Inl (Conflict (''investigation is '' @ status_value (in_status row) @ ''; there is no open approval gate to decide'')), st, db)
       else let (d, db) = record_gate_decision e now i (ca_user_id c) (gq_decision rq) (gq_rationale rq) (gq_target rq) db;
                db = audit_append e (''investigation.decision.'' @ decision_value (gq_decision rq)) ''investigation'' (Some i) (Some (ca_user_id c)) None None (ca_ip c) db;
                inp = Decision_Text (decision_value (gq_decision rq)) in
         case resume ag clock st i inp of
           Inl err \<Rightarrow> (Inl (Resume_Refused err), st, db)
         | Inr (st', Some err) \<Rightarrow> (Inl (Node_Failure err), st', db)
         | Inr (st', None) \<Rightarrow>
           (case result st' i of
              Inl err \<Rightarrow> (Inl (Resume_Refused err), st', db)
            | Inr res \<Rightarrow>
              let committed = db; db = apply_gate_outcome now i (gq_decision rq) (awaiting_human res) db;
                  alerts = collected_alerts (resume_updates ag clock st i inp) in
              case load_case db i of
                Inl err \<Rightarrow> (Inl err, st', committed)
              | Inr updated \<Rightarrow> (Inr \<lparr>gr_investigation_id = i, gr_decision = gq_decision rq, gr_status = in_status updated, gr_awaiting_human = awaiting_human res,
                  gr_recorded_at = now, gr_executed = False, gr_notification_queued = (alerts \<noteq> []), gr_approval_id = hd_id d, gr_alerts = alerts\<rparr>, st', db)))"

fun decision_error_text :: "decision_error \<Rightarrow> string" where
  "decision_error_text (Not_A_Decision d) = repr_str (approval_value d) @ '' is not a decision a human can record; expected one of ''
     @ repr_val (PList (map (PStr \<circ> approval_value) [Ap_Approved, Ap_Edited, Ap_Rejected]))"
| "decision_error_text No_Actor = ''a recommendation decision must record who made it''"
| "decision_error_text (No_Recommendation rid) = ''no recommendation '' @ rid"
| "decision_error_text (Already_Decided rid d) = ''recommendation '' @ rid @ '' was already '' @ approval_value d @ ''; re-deciding would overwrite who authorized it''"

definition decide_on_recommendation ::
  "case_env \<Rightarrow> caller \<Rightarrow> string \<Rightarrow> string \<Rightarrow> approval_status \<Rightarrow> case_db \<Rightarrow> (route_error + recommendation_row) \<times> case_db" where
  "decide_on_recommendation e c i rid d db =
     (if \<not> has_capability (ca_role c) Approve_Actions then (Inl Forbidden, db)
      else case load_case db i of
        Inl err \<Rightarrow> (Inl err, db)
      | Inr row \<Rightarrow>
        (case get_recommendation db rid of
           None \<Rightarrow> (Inl (Not_Found ''no such recommendation on this investigation''), db)
         | Some r \<Rightarrow>
           if rm_investigation_id r \<noteq> i then (Inl (Not_Found ''no such recommendation on this investigation''), db)
           else case decide_recommendation rid d (ca_user_id c) db of
             Inl err \<Rightarrow> (Inl (Conflict (decision_error_text err)), db)
           | Inr (decided, db) \<Rightarrow> (Inr decided, audit_append e (''recommendation.decision.'' @ approval_value d) ''recommendation'' (Some rid)
               (Some (ca_user_id c)) None None (ca_ip c) db)))"


section \<open>Delivering an approved alert\<close>

definition console_url :: "string list \<Rightarrow> string \<Rightarrow> string option" where
  "console_url origins i = (case origins of [] \<Rightarrow> None
     | o' # _ \<Rightarrow> Some (rev (dropWhile (\<lambda>ch. ch = CHR ''/'') (rev o')) @ ''/investigations/'' @ i))"

text \<open>The approval and the link are set over whatever the payload says; the reading of the result is an argument.\<close>

definition deliver_alert ::
  "'w dispatcher \<Rightarrow> (mapping \<Rightarrow> alert_request option) \<Rightarrow> mapping \<Rightarrow> string \<Rightarrow> string option \<Rightarrow> string option \<Rightarrow> 'w session \<Rightarrow> 'w session" where
  "deliver_alert dp validate payload approval_id who url s =
     (case validate (dict_set ''console_url'' (optional_value url) (dict_set ''approval_id'' (PStr approval_id) payload)) of
        None \<Rightarrow> s
      | Some a \<Rightarrow> snd (dispatch_alert dp a who s))"

text \<open>The rows that dispatch reads, out of the case database.\<close>

definition dispatch_session :: "case_db \<Rightarrow> notification_row list \<Rightarrow> audit_entry list \<Rightarrow> 'w \<Rightarrow> 'w session" where
  "dispatch_session db ns au w = \<lparr>decisions = map human_decision.truncate (db_decisions db), conversations = db_conversations db, notifications = ns,
     audit = au, world = w\<rparr>"


section \<open>Routes that only read\<close>

definition viewing :: "caller \<Rightarrow> case_db \<Rightarrow> string \<Rightarrow> (investigation_row \<Rightarrow> route_error + 'a) \<Rightarrow> route_error + 'a" where
  "viewing c db i f = (if has_capability (ca_role c) View_Investigations then and_then (load_case db i) f else Inl Forbidden)"

definition TIMELINE_LIMIT :: nat where "TIMELINE_LIMIT = 500"

definition get_timeline :: "caller \<Rightarrow> case_db \<Rightarrow> string \<Rightarrow> route_error + log_event_row list \<times> bool" where
  "get_timeline c db i = viewing c db i (\<lambda>r. let rows = events_of db i TIMELINE_LIMIT in Inr (rows, TIMELINE_LIMIT \<le> length rows))"

definition page_size :: "nat \<Rightarrow> nat \<Rightarrow> nat option \<Rightarrow> nat" where
  "page_size dflt largest requested = min (case requested of None \<Rightarrow> dflt | Some n \<Rightarrow> if n = 0 then dflt else n) largest"

definition list_route :: "caller \<Rightarrow> nat \<times> nat \<Rightarrow> investigation_status option \<Rightarrow> severity option \<Rightarrow> bool \<Rightarrow> nat option \<Rightarrow> nat \<Rightarrow> case_db \<Rightarrow> route_error + queue_page" where
  "list_route c sizes status sev mine requested offset db =
     (if has_capability (ca_role c) View_Investigations
      then Inr (list_investigations (page_size (fst sizes) (snd sizes) requested) offset status sev (if mine then Some (ca_user_id c) else None) db)
      else Inl Forbidden)"

definition get_investigation_route :: "caller \<Rightarrow> case_db \<Rightarrow> string \<Rightarrow> route_error + investigation_detail" where
  "get_investigation_route c db i = viewing c db i (\<lambda>r. Inr (detail_of db r))"

definition get_threat :: "caller \<Rightarrow> case_db \<Rightarrow> string \<Rightarrow> route_error + assessment_row" where
  "get_threat c db i = viewing c db i (\<lambda>r. case current_assessment db i of
     None \<Rightarrow> Inl (Not_Found ''threat detection has not produced an assessment yet'') | Some a \<Rightarrow> Inr a)"

text \<open>\<^verbatim>\<open>_citations\<close>: what no longer satisfies the contract is dropped.\<close>

definition stored_citations :: "(mapping \<Rightarrow> citation option) \<Rightarrow> mapping list \<Rightarrow> citation list" where
  "stored_citations validate stored = List.map_filter validate stored"

record findings_view =
  fv_researched :: bool
  fv_findings :: "(finding_row \<times> citation list) list"
  fv_version :: nat

definition get_cves :: "(mapping \<Rightarrow> citation option) \<Rightarrow> caller \<Rightarrow> case_db \<Rightarrow> string \<Rightarrow> route_error + findings_view" where
  "get_cves validate c db i = viewing c db i (\<lambda>r. Inr \<lparr>fv_researched = cve_research_ran r,
     fv_findings = map (\<lambda>x. (x, stored_citations validate (fr_citations x))) (current_findings db i), fv_version = dossier_version db i\<rparr>)"

definition get_report :: "(mapping \<Rightarrow> citation option) \<Rightarrow> caller \<Rightarrow> nat option \<Rightarrow> case_db \<Rightarrow> string \<Rightarrow> route_error + report_row \<times> citation list" where
  "get_report validate c version db i = viewing c db i (\<lambda>r.
     case (case version of Some v \<Rightarrow> report_of db i v | None \<Rightarrow> current_report db i) of
       None \<Rightarrow> Inl (Not_Found ''no report has been generated for this investigation'')
     | Some p \<Rightarrow> Inr (p, stored_citations validate (rp_citations p)))"

definition get_report_history :: "caller \<Rightarrow> case_db \<Rightarrow> string \<Rightarrow> route_error + (string \<times> nat \<times> report_status \<times> time) list" where
  "get_report_history c db i = viewing c db i (\<lambda>r. Inr (map (\<lambda>p. (rp_id p, rp_version p, rp_status p, rp_created_at p)) (report_history db i 50)))"

definition get_recommendations ::
  "(mapping \<Rightarrow> citation option) \<Rightarrow> caller \<Rightarrow> case_db \<Rightarrow> string \<Rightarrow> route_error + (recommendation_row \<times> citation list) list \<times> nat" where
  "get_recommendations validate c db i = viewing c db i (\<lambda>r. let rows = current_recommendations db i in
     Inr (map (\<lambda>x. (x, stored_citations validate (rm_citations x))) rows, case rows of [] \<Rightarrow> 0 | x # _ \<Rightarrow> rm_version x))"

definition get_pending_approvals :: "caller \<Rightarrow> case_db \<Rightarrow> string \<Rightarrow> route_error + pending_approvals" where
  "get_pending_approvals c db i = viewing c db i (\<lambda>r. Inr (pending_approvals_of db r))"

end
