(* ===== verification/Case_Safety.thy ===== *)
theory Case_Safety
  imports Case_Runs
begin

text \<open>
  What holds of the case database in every state the platform can reach: the steps are the routes that change something and the single transactions of the
  background runs, in any order and for any agents. Shown: nothing becomes final, approved or closed without a recorded decision of a person; the record only grows;
  and how a decision at the gate is carried out from the route to the alert.
\<close>

section \<open>Steps\<close>

text \<open>
  The transactions of a run are separate steps, so every interleaving of runs and requests is a sequence of steps; the graph's own store may change in any way at any time.
\<close>

definition automatic_nodes :: "node set" where
  "automatic_nodes = {Ingest_Seed, Log_Analysis, Threat_Detection, Cve_Research, Report, Remediation, Triage}"

inductive case_step :: "case_env \<Rightarrow> store \<times> case_db \<Rightarrow> store \<times> case_db \<Rightarrow> bool" for e :: case_env where
  orchestrated: "case_step e (st, db) (st', db)"
| created: "case_step e (st, db) (st, snd (create_route e now c rq db))"
| begun: "case_step e (st, db) (st, mark_status now i St_In_Progress db)"
| persisted: "fst nu \<in> automatic_nodes \<Longrightarrow> case_step e (st, db) (st, on_node e rd now i nu db)"
| stopped: "case_step e (st, db) (st, record_stage e now i (failed_stage db i) STAGE_FAILED detail db)"
| decided: "case_step e sys (snd (decide_gate e ag clock now c i rq' sys))"
| recommended: "case_step e (st, db) (st, snd (decide_on_recommendation e c i rid d db))"

inductive case_reachable :: "case_env \<Rightarrow> store \<times> case_db \<Rightarrow> bool" for e :: case_env where
  empty: "case_reachable e ([], empty_db)"
| stepped: "case_reachable e sys \<Longrightarrow> case_step e sys sys' \<Longrightarrow> case_reachable e sys'"

inductive case_steps :: "case_env \<Rightarrow> store \<times> case_db \<Rightarrow> store \<times> case_db \<Rightarrow> bool" for e :: case_env where
  none: "case_steps e sys sys"
| more: "case_steps e sys sys' \<Longrightarrow> case_step e sys' sys'' \<Longrightarrow> case_steps e sys sys''"


section \<open>The invariant\<close>

definition fresh_ids :: "case_env \<Rightarrow> nat \<Rightarrow> string list \<Rightarrow> bool" where
  "fresh_ids e n ids = (distinct ids \<and> set ids \<subseteq> en_uuid e ` {..<n})"

definition ids_ok :: "case_env \<Rightarrow> case_db \<Rightarrow> bool" where
  "ids_ok e db = (fresh_ids e (db_next db) (map in_id (db_investigations db)) \<and> fresh_ids e (db_next db) (map rp_id (db_reports db))
     \<and> fresh_ids e (db_next db) (map rm_id (db_recommendations db)) \<and> fresh_ids e (db_next db) (map cv_id (db_conversations db))
     \<and> fresh_ids e (db_next db) (map hd_id (db_decisions db)))"

definition decided_by :: "decision_type set \<Rightarrow> decision_row list \<Rightarrow> conversation_row list \<Rightarrow> string \<Rightarrow> bool" where
  "decided_by D ds cs i = list_ex (\<lambda>d. hd_decision d \<in> D \<and> list_ex (\<lambda>c. cv_id c = hd_conversation_id d \<and> cv_investigation_id c = i) cs) ds"

definition report_ok :: "decision_row list \<Rightarrow> conversation_row list \<Rightarrow> report_row \<Rightarrow> bool" where
  "report_ok ds cs r = (rp_status r = Report_Draft \<or> decided_by {Approve} ds cs (rp_investigation_id r))"

definition recommendation_ok :: "audit_row list \<Rightarrow> recommendation_row \<Rightarrow> bool" where
  "recommendation_ok au r = (rm_approval_status r = Ap_Pending \<or>
     list_ex (\<lambda>a. ad_action a = ''recommendation.decision.'' @ approval_value (rm_approval_status r) \<and> ad_entity_id a = Some (rm_id r) \<and> ad_actor_id a \<noteq> None) au)"

definition case_ok :: "decision_row list \<Rightarrow> conversation_row list \<Rightarrow> investigation_row \<Rightarrow> bool" where
  "case_ok ds cs r = (in_status r \<noteq> St_Closed \<or> decided_by UNIV ds cs (in_id r))"

definition numbered :: "report_row list \<Rightarrow> bool" where
  "numbered rs = (\<forall>i. map rp_version (filter (\<lambda>r. rp_investigation_id r = i) rs) = [1..<length (filter (\<lambda>r. rp_investigation_id r = i) rs) + 1])"

definition case_inv :: "case_env \<Rightarrow> case_db \<Rightarrow> bool" where
  "case_inv e db = (ids_ok e db \<and> list_all (report_ok (db_decisions db) (db_conversations db)) (db_reports db)
     \<and> list_all (recommendation_ok (db_audit db)) (db_recommendations db)
     \<and> list_all (case_ok (db_decisions db) (db_conversations db)) (db_investigations db) \<and> numbered (db_reports db))"

lemma fresh_ids_later: "fresh_ids e n ids \<Longrightarrow> n \<le> m \<Longrightarrow> fresh_ids e m ids"
  by (auto simp: fresh_ids_def)

lemma fresh_ids_add:
  assumes "inj (en_uuid e)" "fresh_ids e n ids"
  shows "fresh_ids e (n + k) (ids @ map (\<lambda>j. en_uuid e (n + j)) [0..<k])"
proof -
  have "distinct (map (\<lambda>j. en_uuid e (n + j)) [0..<k])"
    by (auto simp: distinct_map inj_on_def inj_eq[OF assms(1)])
  moreover have "en_uuid e (n + j) \<notin> set ids" for j
  proof
    assume "en_uuid e (n + j) \<in> set ids"
    then obtain m where "m < n" "en_uuid e (n + j) = en_uuid e m" using assms(2) by (auto simp: fresh_ids_def)
    then show False by (simp add: inj_eq[OF assms(1)])
  qed
  ultimately show ?thesis using assms(2) by (auto simp: fresh_ids_def)
qed

lemma fresh_ids_one: "inj (en_uuid e) \<Longrightarrow> fresh_ids e n ids \<Longrightarrow> fresh_ids e (Suc n) (ids @ [en_uuid e n])"
  using fresh_ids_add[of e n ids 1] by simp

lemma map_enumerate_index: "map (\<lambda>p. f (fst p)) (enumerate n xs) = map f [n..<n + length xs]"
proof -
  have "map (\<lambda>p. f (fst p)) (enumerate n xs) = map f (map fst (enumerate n xs))" unfolding map_map by (simp add: comp_def)
  then show ?thesis by (simp only: map_fst_enumerate)
qed

lemma decided_by_mono: "decided_by D ds cs i \<Longrightarrow> set ds \<subseteq> set ds' \<Longrightarrow> set cs \<subseteq> set cs' \<Longrightarrow> D \<subseteq> D' \<Longrightarrow> decided_by D' ds' cs' i"
  unfolding decided_by_def list_ex_iff by blast

lemma ok_mono:
  assumes "set ds \<subseteq> set ds'" "set cs \<subseteq> set cs'"
  shows "report_ok ds cs r \<Longrightarrow> report_ok ds' cs' r" and "case_ok ds cs q \<Longrightarrow> case_ok ds' cs' q"
  using decided_by_mono[OF _ assms subset_refl] by (auto simp: report_ok_def case_ok_def)

lemma recommendation_ok_mono: "recommendation_ok au r \<Longrightarrow> set au \<subseteq> set au' \<Longrightarrow> recommendation_ok au' r"
  unfolding recommendation_ok_def list_ex_iff by blast


section \<open>Every primitive write keeps it\<close>

lemma case_invD:
  assumes "case_inv e db"
  shows "ids_ok e db" "list_all (report_ok (db_decisions db) (db_conversations db)) (db_reports db)"
    "list_all (recommendation_ok (db_audit db)) (db_recommendations db)" "list_all (case_ok (db_decisions db) (db_conversations db)) (db_investigations db)"
    "numbered (db_reports db)"
  using assms by (simp_all add: case_inv_def)

lemma ids_later: "ids_ok e db \<Longrightarrow> db_next db \<le> n \<Longrightarrow> ids_ok e (db\<lparr>db_next := n\<rparr>)"
  by (auto simp: ids_ok_def intro: fresh_ids_later)

lemma case_inv_next: "case_inv e db \<Longrightarrow> db_next db \<le> n \<Longrightarrow> case_inv e (db\<lparr>db_next := n\<rparr>)"
  using ids_later[of e db n] by (simp add: case_inv_def)

text \<open>Tables the invariant does not speak of.\<close>

lemma case_inv_other:
  "case_inv e (db\<lparr>db_log_events := a\<rparr>) = case_inv e db" "case_inv e (db\<lparr>db_assessments := b\<rparr>) = case_inv e db"
  "case_inv e (db\<lparr>db_findings := c\<rparr>) = case_inv e db"
  by (simp_all add: case_inv_def ids_ok_def)

lemma evidence_keeps: "case_inv e db \<Longrightarrow> case_inv e (snd (record_log_events e i evs db))"
  using case_inv_next[of e db "db_next db + length evs"] case_inv_other(1)
  by (auto simp: record_log_events_def)

lemma assessment_keeps: "case_inv e db \<Longrightarrow> case_inv e (snd (record_threat_assessment e now i r db))"
  using case_inv_next[of e db "Suc (db_next db)"] case_inv_other(2)
  by (auto simp: record_threat_assessment_def Let_def)

lemma findings_keep: "case_inv e db \<Longrightarrow> case_inv e (snd (record_cve_findings e i r db))"
  using case_inv_next[of e db "db_next db + length (all_assessments r)"] case_inv_other(3)
  by (auto simp: record_cve_findings_def Let_def)

lemma audit_keeps: "case_inv e db \<Longrightarrow> case_inv e (audit_append e act kind ent who b a ip db)"
proof -
  assume inv: "case_inv e db"
  let ?db = "audit_append e act kind ent who b a ip db"
  have "db_investigations ?db = db_investigations db" "db_reports ?db = db_reports db" "db_recommendations ?db = db_recommendations db"
    "db_conversations ?db = db_conversations db" "db_decisions ?db = db_decisions db" "db_next db \<le> db_next ?db" "set (db_audit db) \<subseteq> set (db_audit ?db)"
    by (auto simp: audit_append_def Let_def)
  note same = this
  have "ids_ok e ?db"
    using case_invD(1)[OF inv] unfolding ids_ok_def same(1-5) by (blast intro: fresh_ids_later[OF _ same(6)])
  moreover have "list_all (recommendation_ok (db_audit ?db)) (db_recommendations db)"
    using case_invD(3)[OF inv] unfolding list_all_iff by (blast intro: recommendation_ok_mono[OF _ same(7)])
  ultimately show ?thesis
    using case_invD[OF inv] unfolding case_inv_def same(1-5) by blast
qed

lemma report_version_numbered:
  assumes "numbered (db_reports db)"
  shows "report_version db i = length (filter (\<lambda>r. rp_investigation_id r = i) (db_reports db))"
proof -
  let ?rs = "filter (\<lambda>r. rp_investigation_id r = i) (db_reports db)"
  have "map rp_version ?rs = [1..<length ?rs + 1]" using assms by (simp add: numbered_def)
  moreover have "Max {Suc 0..length ?rs} = length ?rs" if "?rs \<noteq> []"
    using that by (intro Max_eqI) (auto simp: Suc_le_eq)
  ultimately show ?thesis by (cases "?rs = []") (simp_all add: latest_version_def Let_def atLeastLessThanSuc_atLeastAtMost del: upt_Suc)
qed

lemma numbered_add:
  assumes "numbered rs" "rp_version r = length (filter (\<lambda>x. rp_investigation_id x = rp_investigation_id r) rs) + 1"
  shows "numbered (rs @ [r])"
  using assms by (simp add: numbered_def)

lemma report_keeps:
  assumes "inj (en_uuid e)" "case_inv e db"
  shows "case_inv e (snd (record_report_content e now i x t cs db))"
proof -
  note inv = case_invD[OF assms(2)]
  have "ids_ok e (snd (record_report_content e now i x t cs db))"
    using inv(1) fresh_ids_one[OF assms(1)] by (auto simp: ids_ok_def record_report_content_def Let_def fresh_def intro: fresh_ids_later)
  moreover have "numbered (db_reports (snd (record_report_content e now i x t cs db)))"
    using numbered_add[OF inv(5)] report_version_numbered[OF inv(5)] by (simp add: record_report_content_def Let_def)
  ultimately show ?thesis
    using inv by (simp add: case_inv_def) (simp add: record_report_content_def Let_def report_ok_def)
qed

lemma plan_keeps:
  assumes "inj (en_uuid e)" "case_inv e db"
  shows "case_inv e (snd (record_remediation_plan e now i p db))"
proof -
  note inv = case_invD[OF assms(2)]
  let ?rows = "fst (record_remediation_plan e now i p db)"
  have ids: "map rm_id ?rows = map (\<lambda>j. en_uuid e (db_next db + j)) [0..<length ?rows]"
    using map_enumerate_index[of "\<lambda>j. en_uuid e (db_next db + j)" 0 "pl_recommendations p"]
    by (simp add: record_remediation_plan_def Let_def comp_def case_prod_beta to_recommendation_def fresh_at_def)
  have pending: "list_all (\<lambda>r. rm_approval_status r = Ap_Pending) ?rows"
    by (auto simp: record_remediation_plan_def Let_def to_recommendation_def list_all_iff)
  have out: "snd (record_remediation_plan e now i p db) =
      (if ?rows = [] then db else db\<lparr>db_next := db_next db + length ?rows, db_recommendations := db_recommendations db @ ?rows\<rparr>)"
    by (simp add: record_remediation_plan_def Let_def)
  have "fresh_ids e (db_next db + length ?rows) (map rm_id (db_recommendations db) @ map rm_id ?rows)"
    unfolding ids using inv(1) by (intro fresh_ids_add[OF assms(1)]) (simp add: ids_ok_def)
  then have "ids_ok e (db\<lparr>db_next := db_next db + length ?rows, db_recommendations := db_recommendations db @ ?rows\<rparr>)"
    using inv(1) by (auto simp: ids_ok_def intro: fresh_ids_later)
  moreover have "list_all (recommendation_ok (db_audit db)) ?rows"
    using pending by (simp add: list_all_iff recommendation_ok_def)
  ultimately show ?thesis unfolding out using assms(2) by (simp add: case_inv_def)
qed

lemma update_keeps:
  assumes inv: "case_inv e db" and ids: "\<And>r. in_id (f r) = in_id r"
    and closes: "\<And>r. in_id r = i \<Longrightarrow> in_status (f r) = St_Closed \<Longrightarrow> in_status r = St_Closed \<or> decided_by UNIV (db_decisions db) (db_conversations db) i"
  shows "case_inv e (update_investigation now i f db)"
proof -
  let ?g = "\<lambda>r. if in_id r = i then touch now r (f r) else r"
  have id: "in_id (?g r) = in_id r" for r by (simp add: touch_def ids)
  have st: "in_status (touch now r (f r)) = in_status (f r)" for r by (simp add: touch_def)
  have "case_ok (db_decisions db) (db_conversations db) (?g r)" if "case_ok (db_decisions db) (db_conversations db) r" for r
    using that closes[of r] ids[of r] id[of r] st[of r] by (auto simp: case_ok_def)
  then have "list_all (case_ok (db_decisions db) (db_conversations db)) (map ?g (db_investigations db))"
    using case_invD(4)[OF inv] unfolding list_all_iff set_map by blast
  moreover have "map in_id (map ?g (db_investigations db)) = map in_id (db_investigations db)" unfolding map_map comp_def id ..
  moreover obtain xs where xs: "map ?g (db_investigations db) = xs" by simp
  ultimately show ?thesis
    using case_invD[OF inv] unfolding case_inv_def ids_ok_def update_investigation_def xs by simp
qed

lemma stage_keeps: "case_inv e db \<Longrightarrow> case_inv e (record_stage e now i stage status detail db)"
  unfolding record_stage_def by (rule update_keeps) auto

lemma headline_keeps: "case_inv e db \<Longrightarrow> case_inv e (set_headline now i sev x db)"
  unfolding set_headline_def by (rule update_keeps) auto

lemma status_keeps:
  "case_inv e db \<Longrightarrow> st \<noteq> St_Closed \<or> decided_by UNIV (db_decisions db) (db_conversations db) i \<Longrightarrow> case_inv e (mark_status now i st db)"
  unfolding mark_status_def by (rule update_keeps) auto

lemma create_keeps:
  assumes "inj (en_uuid e)" "case_inv e db"
  shows "case_inv e (snd (create_investigation e now rq who db))"
proof -
  note inv = case_invD[OF assms(2)]
  have "ids_ok e (snd (create_investigation e now rq who db))"
    using inv(1) fresh_ids_one[OF assms(1)] by (auto simp: ids_ok_def create_investigation_def Let_def fresh_def intro: fresh_ids_later)
  then show ?thesis using inv by (simp add: case_inv_def) (simp add: create_investigation_def Let_def case_ok_def)
qed

lemma conversation_facts:
  assumes "inj (en_uuid e)" "case_inv e db"
  shows "case_inv e (snd (conversation_for e i db))" "fst (conversation_for e i db) \<in> set (db_conversations (snd (conversation_for e i db)))"
    "cv_investigation_id (fst (conversation_for e i db)) = i" "db_decisions (snd (conversation_for e i db)) = db_decisions db"
    "set (db_conversations db) \<subseteq> set (db_conversations (snd (conversation_for e i db)))" "db_reports (snd (conversation_for e i db)) = db_reports db"
    "db_investigations (snd (conversation_for e i db)) = db_investigations db" "db_recommendations (snd (conversation_for e i db)) = db_recommendations db"
    "db_audit (snd (conversation_for e i db)) = db_audit db"
proof -
  show ex: "set (db_conversations db) \<subseteq> set (db_conversations (snd (conversation_for e i db)))"
    by (auto simp: conversation_for_def Let_def split: option.splits)
  show keep: "db_decisions (snd (conversation_for e i db)) = db_decisions db" "db_reports (snd (conversation_for e i db)) = db_reports db"
    "db_investigations (snd (conversation_for e i db)) = db_investigations db" "db_recommendations (snd (conversation_for e i db)) = db_recommendations db"
    "db_audit (snd (conversation_for e i db)) = db_audit db"
    by (auto simp: conversation_for_def Let_def split: option.splits)
  show "fst (conversation_for e i db) \<in> set (db_conversations (snd (conversation_for e i db)))" "cv_investigation_id (fst (conversation_for e i db)) = i"
    by (auto simp: conversation_for_def Let_def find_Some_iff split: option.splits)
  note inv = case_invD[OF assms(2)]
  have "ids_ok e (snd (conversation_for e i db))"
    using inv(1) fresh_ids_one[OF assms(1)] by (auto simp: ids_ok_def conversation_for_def Let_def fresh_def split: option.splits intro: fresh_ids_later)
  then show "case_inv e (snd (conversation_for e i db))"
    using inv ok_mono[OF subset_refl ex] by (simp add: case_inv_def keep list_all_iff)
qed

lemma gate_decision_facts:
  assumes "inj (en_uuid e)" "case_inv e db" "record_gate_decision e now i who d why aim db = (row, db')"
  shows "case_inv e db'" "row \<in> set (db_decisions db')" "hd_decision row = d"
    "\<exists>c \<in> set (db_conversations db'). cv_id c = hd_conversation_id row \<and> cv_investigation_id c = i"
    "db_reports db' = db_reports db" "db_investigations db' = db_investigations db"
proof -
  obtain c db1 where c: "conversation_for e i db = (c, db1)" by fastforce
  note f = conversation_facts[OF assms(1,2), of i, unfolded c fst_conv snd_conv]
  have row: "row = \<lparr>hd_id = fresh e db1, hd_conversation_id = cv_id c, hd_decision = d, dn_user_id = who, dn_target = aim, dn_rationale = why, dn_created_at = now\<rparr>"
    and db': "db' = db1\<lparr>db_next := db_next db1 + 1, db_decisions := db_decisions db1 @ [row]\<rparr>"
    using assms(3) by (auto simp: record_gate_decision_def c Let_def)
  show "row \<in> set (db_decisions db')" "hd_decision row = d" "db_reports db' = db_reports db"
    "db_investigations db' = db_investigations db" using f by (simp_all add: row db')
  show "\<exists>c \<in> set (db_conversations db'). cv_id c = hd_conversation_id row \<and> cv_investigation_id c = i"
    using f(2,3) by (auto simp: db' row)
  note inv = case_invD[OF f(1)]
  have "hd_id row = en_uuid e (db_next db1)" by (simp add: row fresh_def)
  then have "ids_ok e db'"
    using inv(1) fresh_ids_one[OF assms(1)] by (auto simp: ids_ok_def db' intro: fresh_ids_later)
  moreover have "set (db_decisions db1) \<subseteq> set (db_decisions db')" by (auto simp: db')
  ultimately show "case_inv e db'"
    using inv ok_mono[of "db_decisions db1" "db_decisions db'" "db_conversations db1" "db_conversations db1"]
    by (simp add: case_inv_def list_all_iff db')
qed

lemma current_report_mem:
  assumes "current_report db i = Some r"
  shows "r \<in> set (db_reports db)" "rp_investigation_id r = i"
proof -
  let ?rs = "filter (\<lambda>r. rp_investigation_id r = i) (db_reports db)"
  obtain x xs where "?rs = x # xs" "r = max_by rp_version x xs"
    using assms by (auto simp: current_report_def newest_by_def split: list.splits)
  then have "r \<in> set ?rs" using max_by_mem[of rp_version x xs] by simp
  then show "r \<in> set (db_reports db)" "rp_investigation_id r = i" by auto
qed

lemma finalize_keeps:
  assumes inv: "case_inv e db" and out: "finalize_report i None db = Inr (row, db')"
    and approved: "decided_by {Approve} (db_decisions db) (db_conversations db) i"
  shows "case_inv e db'" "db_investigations db' = db_investigations db"
proof -
  obtain r where r: "current_report db i = Some r"
    and db': "db' = db\<lparr>db_reports := map (\<lambda>x. if rp_id x = rp_id r then x\<lparr>rp_status := Report_Final\<rparr> else x) (db_reports db)\<rparr>"
    using out by (auto simp: finalize_report_def split: option.splits)
  let ?g = "\<lambda>x. if rp_id x = rp_id r then x\<lparr>rp_status := Report_Final\<rparr> else x"
  have own: "rp_investigation_id x = i" if "x \<in> set (db_reports db)" "rp_id x = rp_id r" for x
  proof -
    have "distinct (map rp_id (db_reports db))" using case_invD(1)[OF inv] by (simp add: ids_ok_def fresh_ids_def)
    then have "x = r" using that current_report_mem(1)[OF r] by (auto simp: distinct_map inj_on_def)
    then show ?thesis using current_report_mem(2)[OF r] by simp
  qed
  have "report_ok (db_decisions db) (db_conversations db) (?g x)" if "x \<in> set (db_reports db)" for x
    using that own[OF that] approved case_invD(2)[OF inv] by (auto simp: report_ok_def list_all_iff)
  then have "list_all (report_ok (db_decisions db) (db_conversations db)) (map ?g (db_reports db))" unfolding list_all_iff set_map by blast
  moreover have "map rp_id (map ?g (db_reports db)) = map rp_id (db_reports db)" by simp
  moreover have "numbered (map ?g (db_reports db))"
  proof -
    have "map rp_version (filter (\<lambda>x. rp_investigation_id x = j) (map ?g rs)) = map rp_version (filter (\<lambda>x. rp_investigation_id x = j) rs)
        \<and> length (filter (\<lambda>x. rp_investigation_id x = j) (map ?g rs)) = length (filter (\<lambda>x. rp_investigation_id x = j) rs)" for j rs
      by (induction rs) auto
    then show ?thesis using case_invD(5)[OF inv] unfolding numbered_def by metis
  qed
  moreover obtain xs where xs: "map ?g (db_reports db) = xs" by simp
  ultimately show "case_inv e db'" using case_invD[OF inv] unfolding case_inv_def ids_ok_def db' xs by simp
  show "db_investigations db' = db_investigations db" by (simp add: db')
qed

lemma outcome_keeps:
  assumes "case_inv e db" "decided_by {d} (db_decisions db) (db_conversations db) i"
  shows "case_inv e (apply_gate_outcome now i d awaiting db)"
proof -
  let ?db = "mark_status now i (if awaiting then St_Awaiting_Approval else St_Closed) db"
  have same: "db_decisions ?db = db_decisions db" "db_conversations ?db = db_conversations db"
    by (simp_all add: mark_status_def update_investigation_def)
  have "decided_by UNIV (db_decisions db) (db_conversations db) i"
    by (rule decided_by_mono[OF assms(2) subset_refl subset_refl]) simp
  then have inv: "case_inv e ?db" by (intro status_keeps assms(1)) simp
  then show ?thesis
    using assms(2) finalize_keeps(1)[OF inv, of i] same
    by (auto simp: apply_gate_outcome_def Let_def ACCEPTING_DECISIONS_def split: sum.splits)
qed

text \<open>A decision on a recommendation, with the audit entry that the route writes after it.\<close>

lemma recommendation_keeps:
  assumes inv: "case_inv e db" and out: "decide_recommendation rid d who db = Inr (row, db')"
  shows "case_inv e (audit_append e (''recommendation.decision.'' @ approval_value d) ''recommendation'' (Some rid) (Some who) None None ip db')"
proof -
  let ?g = "\<lambda>r. if rm_id r = rid then r\<lparr>rm_approval_status := d\<rparr> else r"
  let ?db = "audit_append e (''recommendation.decision.'' @ approval_value d) ''recommendation'' (Some rid) (Some who) None None ip db'"
  have db': "db' = db\<lparr>db_recommendations := map ?g (db_recommendations db)\<rparr>"
    using out by (auto simp: decide_recommendation_def split: if_splits option.splits)
  have same: "db_investigations ?db = db_investigations db" "db_reports ?db = db_reports db" "db_recommendations ?db = map ?g (db_recommendations db)"
    "db_conversations ?db = db_conversations db" "db_decisions ?db = db_decisions db" "db_next db \<le> db_next ?db" "set (db_audit db) \<subseteq> set (db_audit ?db)"
    by (auto simp: audit_append_def Let_def db')
  have "list_ex (\<lambda>a. ad_action a = ''recommendation.decision.'' @ approval_value d \<and> ad_entity_id a = Some rid \<and> ad_actor_id a \<noteq> None) (db_audit ?db)"
    by (simp add: audit_append_def Let_def)
  then have "recommendation_ok (db_audit ?db) (?g r)" if "recommendation_ok (db_audit db) r" for r
    using recommendation_ok_mono[OF that same(7)] by (auto simp: recommendation_ok_def)
  then have recs: "list_all (recommendation_ok (db_audit ?db)) (map ?g (db_recommendations db))"
    using case_invD(3)[OF inv] unfolding list_all_iff set_map by blast
  have rm_ids: "map rm_id (map ?g (db_recommendations db)) = map rm_id (db_recommendations db)" by simp
  have "ids_ok e ?db"
    using case_invD(1)[OF inv] unfolding ids_ok_def same(1-5) rm_ids by (blast intro: fresh_ids_later[OF _ same(6)])
  then show ?thesis using case_invD[OF inv] recs unfolding case_inv_def same(1-5) by blast
qed


section \<open>Every step keeps it\<close>

lemma and_then_elim: "and_then x f = Inr y \<Longrightarrow> (\<And>a. x = Inr a \<Longrightarrow> f a = Inr y \<Longrightarrow> P) \<Longrightarrow> P"
  by (cases x) simp_all

lemma persist_keeps:
  assumes "inj (en_uuid e)" "case_inv e db" "n \<in> automatic_nodes" "persist e rd now i n upd db = Inr db'"
  shows "case_inv e db'"
proof -
  have parts: "record_log_events e i evs db = (w, db1) \<Longrightarrow> case_inv e db1" "record_threat_assessment e now i a db = (a', db1) \<Longrightarrow> case_inv e db1"
    "record_cve_findings e i d db = (fs, db1) \<Longrightarrow> case_inv e db1" "record_report_content e now i x t cs db = (r, db1) \<Longrightarrow> case_inv e db1"
    "record_remediation_plan e now i p db = (rs, db1) \<Longrightarrow> case_inv e db1" for evs w db1 a a' d fs x t cs r p rs
    using evidence_keeps[OF assms(2), of i evs] assessment_keeps[OF assms(2), of now i a] findings_keep[OF assms(2), of i d]
      report_keeps[OF assms(1,2), of now i x t cs] plan_keeps[OF assms(1,2), of now i p] by simp_all
  show ?thesis
    using assms(2,3,4) by (cases n)
      (auto simp: persist_def automatic_nodes_def Let_def split: prod.splits if_splits elim!: and_then_elim intro!: stage_keeps headline_keeps
        intro: parts assms(2) status_keeps[OF assms(2)])
qed

lemma on_node_keeps:
  "inj (en_uuid e) \<Longrightarrow> case_inv e db \<Longrightarrow> fst nu \<in> automatic_nodes \<Longrightarrow> case_inv e (on_node e rd now i nu db)"
  by (auto simp: on_node_def write_step_def split: sum.splits intro: persist_keeps)

lemma create_route_keeps:
  assumes "inj (en_uuid e)" "case_inv e db"
  shows "case_inv e (snd (create_route e now c rq db))"
  using create_keeps[OF assms, of now rq "Some (ca_user_id c)"]
  by (auto simp: create_route_def Let_def split: prod.splits intro: audit_keeps assms(2))

lemma decided_recorded:
  assumes "row \<in> set ds" "\<exists>c \<in> set cs. cv_id c = hd_conversation_id row \<and> cv_investigation_id c = i"
  shows "decided_by {hd_decision row} ds cs i"
  using assms by (auto simp: decided_by_def list_ex_iff)

lemma audit_tables [simp]:
  "db_decisions (audit_append e act kind ent who b a ip db) = db_decisions db" "db_conversations (audit_append e act kind ent who b a ip db) = db_conversations db"
  "db_reports (audit_append e act kind ent who b a ip db) = db_reports db" "db_investigations (audit_append e act kind ent who b a ip db) = db_investigations db"
  by (simp_all add: audit_append_def Let_def)

lemma decide_keeps:
  assumes "inj (en_uuid e)" "case_inv e (snd sys)"
  shows "case_inv e (snd (snd (decide_gate e ag clock now c i rq sys)))"
proof -
  obtain st db where sys: "sys = (st, db)" by fastforce
  obtain row db1 where row: "record_gate_decision e now i (ca_user_id c) (gq_decision rq) (gq_rationale rq) (gq_target rq) db = (row, db1)" by fastforce
  let ?db2 = "audit_append e (''investigation.decision.'' @ decision_value (gq_decision rq)) ''investigation'' (Some i) (Some (ca_user_id c)) None None (ca_ip c) db1"
  note f = gate_decision_facts[OF assms(1) assms(2)[unfolded sys snd_conv] row]
  have inv: "case_inv e ?db2" by (rule audit_keeps[OF f(1)])
  have "decided_by {gq_decision rq} (db_decisions ?db2) (db_conversations ?db2) i"
    using decided_recorded[OF f(2,4)] f(3) by simp
  then have "case_inv e (apply_gate_outcome now i (gq_decision rq) awaiting ?db2)" for awaiting
    by (rule outcome_keeps[OF inv])
  then show ?thesis
    using inv assms(2) by (auto simp: sys decide_gate_def row Let_def split: sum.splits option.splits prod.splits)
qed

lemma recommended_keeps:
  assumes "case_inv e db"
  shows "case_inv e (snd (decide_on_recommendation e c i rid d db))"
  using assms recommendation_keeps[OF assms]
  by (auto simp: decide_on_recommendation_def split: sum.splits option.splits prod.splits)

lemma step_keeps:
  assumes "inj (en_uuid e)" "case_step e sys sys'" "case_inv e (snd sys)"
  shows "case_inv e (snd sys')"
  using assms(2,3)
  by cases (auto intro: create_route_keeps[OF assms(1)] status_keeps on_node_keeps[OF assms(1)] stage_keeps recommended_keeps decide_keeps[OF assms(1)])

lemma reachable_inv:
  assumes "inj (en_uuid e)" "case_reachable e sys"
  shows "case_inv e (snd sys)"
  using assms(2)
proof induction
  case empty
  then show ?case by (simp add: case_inv_def ids_ok_def fresh_ids_def empty_db_def numbered_def)
next
  case (stepped sys sys')
  then show ?case using step_keeps[OF assms(1)] by blast
qed

lemma find_unique: "distinct (map f xs) \<Longrightarrow> y \<in> set xs \<Longrightarrow> find (\<lambda>x. f x = f y) xs = Some y"
  by (induction xs) auto

lemma verify_row:
  assumes "case_inv e db" "d \<in> set (db_decisions db)" "\<exists>c \<in> set (db_conversations db). cv_id c = hd_conversation_id d \<and> cv_investigation_id c = i"
  shows "verify_approval (dispatch_session db ns au w) i (hd_id d) =
    (if hd_decision d = Approve then Inr (human_decision.truncate d) else Inl (Not_An_Approval (hd_id d) (hd_decision d)))"
proof -
  obtain c where c: "c \<in> set (db_conversations db)" "cv_id c = hd_conversation_id d" "cv_investigation_id c = i" using assms(3) by blast
  have dist: "distinct (map hd_id (db_decisions db))" "distinct (map cv_id (db_conversations db))"
    using case_invD(1)[OF assms(1)] by (simp_all add: ids_ok_def fresh_ids_def)
  have t: "hd_id (human_decision.truncate x) = hd_id x" "hd_decision (human_decision.truncate x) = hd_decision x"
    "hd_conversation_id (human_decision.truncate x) = hd_conversation_id x" for x :: decision_row
    by (simp_all add: human_decision.truncate_def)
  have "find (\<lambda>x. hd_id x = hd_id d) (map human_decision.truncate (db_decisions db)) = Some (human_decision.truncate d)"
    using find_unique[of hd_id "map human_decision.truncate (db_decisions db)" "human_decision.truncate d"] dist(1) assms(2) by (simp add: comp_def t)
  moreover have "find (\<lambda>x. cv_id x = hd_conversation_id d) (db_conversations db) = Some c"
    using find_unique[of cv_id "db_conversations db" c] dist(2) c(1,2) by simp
  ultimately show ?thesis using c(3) by (simp add: verify_approval_def dispatch_session_def t)
qed

lemma verify_recorded:
  assumes "case_inv e db" "decided_by {Approve} (db_decisions db) (db_conversations db) i"
  shows "list_ex (\<lambda>d. \<not> isl (verify_approval (dispatch_session db ns au w) i (hd_id d))) (db_decisions db)"
proof -
  obtain d where d: "d \<in> set (db_decisions db)" "hd_decision d = Approve"
    "\<exists>c \<in> set (db_conversations db). cv_id c = hd_conversation_id d \<and> cv_investigation_id c = i"
    using assms(2) unfolding decided_by_def list_ex_iff by blast
  have "\<not> isl (verify_approval (dispatch_session db ns au w) i (hd_id d))" unfolding verify_row[OF assms(1) d(1,3)] by (simp add: d(2))
  then show ?thesis unfolding list_ex_iff using d(1) by blast
qed

text \<open>C3: 
  Nothing is final without a person. In every state the platform can reach, in any interleaving of runs and requests and whatever the agents return: a report is final
  only if a recorded decision on its investigation passes dispatch's own check of an approval; a recommendation has left pending only if the audit trail names who decided
  it, and how; and an investigation is closed only if a person's decision on it is on record.
\<close>
theorem nothing_final_without_a_person:
  assumes "inj (en_uuid e)" "case_reachable e (st, db)"
  shows "list_all (\<lambda>r. rp_status r = Report_Draft \<or>
        list_ex (\<lambda>d. \<not> isl (verify_approval (dispatch_session db [] [] ()) (rp_investigation_id r) (hd_id d))) (db_decisions db)) (db_reports db)
    \<and> list_all (\<lambda>r. rm_approval_status r = Ap_Pending \<or> list_ex (\<lambda>a. ad_action a = ''recommendation.decision.'' @ approval_value (rm_approval_status r)
        \<and> ad_entity_id a = Some (rm_id r) \<and> ad_actor_id a \<noteq> None) (db_audit db)) (db_recommendations db)
    \<and> list_all (\<lambda>r. in_status r \<noteq> St_Closed \<or>
        list_ex (\<lambda>d. list_ex (\<lambda>c. cv_id c = hd_conversation_id d \<and> cv_investigation_id c = in_id r) (db_conversations db)) (db_decisions db)) (db_investigations db)"
proof -
  have inv: "case_inv e db" using reachable_inv[OF assms] by simp
  note parts = case_invD[OF inv]
  have "list_all (\<lambda>r. rp_status r = Report_Draft \<or>
        list_ex (\<lambda>d. \<not> isl (verify_approval (dispatch_session db [] [] ()) (rp_investigation_id r) (hd_id d))) (db_decisions db)) (db_reports db)"
    unfolding list_all_iff
  proof
    fix r
    assume "r \<in> set (db_reports db)"
    then have "rp_status r = Report_Draft \<or> decided_by {Approve} (db_decisions db) (db_conversations db) (rp_investigation_id r)"
      using parts(2) by (simp add: list_all_iff report_ok_def)
    then show "rp_status r = Report_Draft \<or>
        list_ex (\<lambda>d. \<not> isl (verify_approval (dispatch_session db [] [] ()) (rp_investigation_id r) (hd_id d))) (db_decisions db)"
      by (rule disj_forward) (assumption, rule verify_recorded[OF inv])
  qed
  moreover have "list_all (\<lambda>r. rm_approval_status r = Ap_Pending \<or> list_ex (\<lambda>a. ad_action a = ''recommendation.decision.'' @ approval_value (rm_approval_status r)
        \<and> ad_entity_id a = Some (rm_id r) \<and> ad_actor_id a \<noteq> None) (db_audit db)) (db_recommendations db)"
    using parts(3) unfolding list_all_iff recommendation_ok_def .
  moreover have "list_all (\<lambda>r. in_status r \<noteq> St_Closed \<or>
        list_ex (\<lambda>d. list_ex (\<lambda>c. cv_id c = hd_conversation_id d \<and> cv_investigation_id c = in_id r) (db_conversations db)) (db_decisions db)) (db_investigations db)"
    using parts(4) unfolding list_all_iff case_ok_def decided_by_def by (simp only: UNIV_I simp_thms)
  ultimately show ?thesis by (intro conjI)
qed


section \<open>The record only grows\<close>

definition report_grows :: "report_row \<Rightarrow> report_row \<Rightarrow> bool" where
  "report_grows r r' = (r' = r \<or> r' = r\<lparr>rp_status := Report_Final\<rparr>)"

definition recommendation_grows :: "recommendation_row \<Rightarrow> recommendation_row \<Rightarrow> bool" where
  "recommendation_grows r r' = (r' = r \<or> rm_approval_status r = Ap_Pending \<and> r' = r\<lparr>rm_approval_status := rm_approval_status r'\<rparr>)"

definition table_grows :: "('r \<Rightarrow> 'r \<Rightarrow> bool) \<Rightarrow> 'r list \<Rightarrow> 'r list \<Rightarrow> bool" where
  "table_grows grows xs ys = (length xs \<le> length ys \<and> list_all2 grows xs (take (length xs) ys))"

definition record_grows :: "case_db \<Rightarrow> case_db \<Rightarrow> bool" where
  "record_grows db db' = (prefix (db_log_events db) (db_log_events db') \<and> prefix (db_assessments db) (db_assessments db') \<and> prefix (db_findings db) (db_findings db')
     \<and> prefix (db_decisions db) (db_decisions db') \<and> prefix (db_conversations db) (db_conversations db') \<and> prefix (db_audit db) (db_audit db')
     \<and> table_grows report_grows (db_reports db) (db_reports db') \<and> table_grows recommendation_grows (db_recommendations db) (db_recommendations db'))"

lemma table_grows_append: "(\<And>x. grows x x) \<Longrightarrow> table_grows grows xs (xs @ ys)"
  by (simp add: table_grows_def list_all2_refl)

lemma table_grows_map: "(\<And>x. x \<in> set xs \<Longrightarrow> grows x (g x)) \<Longrightarrow> table_grows grows xs (map g xs)"
  by (simp add: table_grows_def list_all2_map2 list_all2_same)

lemma table_grows_trans:
  assumes "table_grows grows xs ys" "table_grows grows ys zs" "\<And>x y z. grows x y \<Longrightarrow> grows y z \<Longrightarrow> grows x z"
  shows "table_grows grows xs zs"
proof -
  have n: "length xs \<le> length ys" "length ys \<le> length zs" using assms(1,2) by (simp_all add: table_grows_def)
  have "grows (xs ! k) (zs ! k)" if "k < length xs" for k
  proof -
    have "grows (xs ! k) (ys ! k)" using assms(1) that by (auto simp: table_grows_def dest: list_all2_nthD)
    moreover have "grows (ys ! k) (zs ! k)" using assms(2) that n by (auto simp: table_grows_def dest!: list_all2_nthD[where p = k])
    ultimately show ?thesis by (rule assms(3))
  qed
  then show ?thesis using n by (auto simp: table_grows_def list_all2_conv_all_nth)
qed

lemma grows_refl [simp]: "report_grows r r" "recommendation_grows q q" "record_grows db db" "table_grows report_grows rs rs"
    "table_grows recommendation_grows qs qs"
  by (simp_all add: report_grows_def recommendation_grows_def record_grows_def table_grows_def list_all2_refl)

lemma grows_trans:
  "report_grows r r' \<Longrightarrow> report_grows r' r'' \<Longrightarrow> report_grows r r''"
  "recommendation_grows q q' \<Longrightarrow> recommendation_grows q' q'' \<Longrightarrow> recommendation_grows q q''"
  unfolding report_grows_def recommendation_grows_def by auto

lemma table_trans:
  "table_grows report_grows rs rs' \<Longrightarrow> table_grows report_grows rs' rs'' \<Longrightarrow> table_grows report_grows rs rs''"
  "table_grows recommendation_grows qs qs' \<Longrightarrow> table_grows recommendation_grows qs' qs'' \<Longrightarrow> table_grows recommendation_grows qs qs''"
  by (rule table_grows_trans, assumption, assumption, erule grows_trans, assumption)+

lemma record_grows_trans: "record_grows a b \<Longrightarrow> record_grows b c \<Longrightarrow> record_grows a c"
  unfolding record_grows_def by (meson table_trans prefix_order.trans)

lemma primitive_grows:
  "record_grows db (snd (record_log_events e i evs db))" "record_grows db (snd (record_threat_assessment e now i a db))"
  "record_grows db (snd (record_cve_findings e i d db))" "record_grows db (snd (record_report_content e now i x t cs db))"
  "record_grows db (snd (record_remediation_plan e now i p db))" "record_grows db (update_investigation now i f db)"
  "record_grows db (snd (create_investigation e now rq who db))" "record_grows db (snd (conversation_for e i db))"
  "record_grows db (audit_append e act kind ent who b aft ip db)"
  by (simp_all add: record_grows_def record_log_events_def record_threat_assessment_def record_cve_findings_def record_report_content_def record_remediation_plan_def
      update_investigation_def create_investigation_def conversation_for_def audit_append_def Let_def table_grows_append split: option.splits)

lemma stage_grows [simp]: "record_grows db (record_stage e now i stage status detail db)"
  unfolding record_stage_def by (rule primitive_grows)

lemma headline_grows [simp]: "record_grows db (set_headline now i sev x db)"
  unfolding set_headline_def by (rule primitive_grows)

lemma status_grows [simp]: "record_grows db (mark_status now i st db)"
  unfolding mark_status_def by (rule primitive_grows)

lemma finalize_grows: "finalize_report i v db = Inr (row, db') \<Longrightarrow> record_grows db db'"
  by (auto simp: finalize_report_def record_grows_def report_grows_def intro!: table_grows_map split: option.splits)

lemma decide_recommendation_grows:
  assumes "case_inv e db" "decide_recommendation rid d who db = Inr (row, db')"
  shows "record_grows db db'"
proof -
  have row: "get_recommendation db rid = Some q" "rm_approval_status q = Ap_Pending"
    and db': "db' = db\<lparr>db_recommendations := map (\<lambda>r. if rm_id r = rid then r\<lparr>rm_approval_status := d\<rparr> else r) (db_recommendations db)\<rparr>"
    if "get_recommendation db rid = Some q" for q
    using assms(2) that by (auto simp: decide_recommendation_def split: if_splits)
  obtain q where q: "get_recommendation db rid = Some q"
    using assms(2) by (auto simp: decide_recommendation_def split: if_splits option.splits)
  have "distinct (map rm_id (db_recommendations db))" using case_invD(1)[OF assms(1)] by (simp add: ids_ok_def fresh_ids_def)
  moreover have "q \<in> set (db_recommendations db)" "rm_id q = rid" using q by (auto simp: get_recommendation_def find_Some_iff)
  ultimately have "x = q" if "x \<in> set (db_recommendations db)" "rm_id x = rid" for x
    using that by (auto simp: distinct_map inj_on_def)
  then show ?thesis
    using row(2)[OF q] by (auto simp: db'[OF q] record_grows_def recommendation_grows_def intro!: table_grows_map)
qed

lemma persist_grows:
  assumes "persist e rd now i n upd db = Inr db'"
  shows "record_grows db db'"
proof -
  have parts: "record_log_events e i evs db = (w, db1) \<Longrightarrow> record_grows db db1" "record_threat_assessment e now i a db = (a', db1) \<Longrightarrow> record_grows db db1"
    "record_cve_findings e i d db = (fs, db1) \<Longrightarrow> record_grows db db1" "record_report_content e now i x t cs db = (r, db1) \<Longrightarrow> record_grows db db1"
    "record_remediation_plan e now i p db = (rs, db1) \<Longrightarrow> record_grows db db1" for evs w db1 a a' d fs x t cs r p rs
    using primitive_grows(1)[of db e i evs] primitive_grows(2)[of db e now i a] primitive_grows(3)[of db e i d]
      primitive_grows(4)[of db e now i x t cs] primitive_grows(5)[of db e now i p] by simp_all
  have later: "record_grows db db1 \<Longrightarrow> record_grows db (record_stage e now i stage status detail db1)"
    "record_grows db db1 \<Longrightarrow> record_grows db (set_headline now i sev y db1)" for db1 stage status detail sev y
    using record_grows_trans stage_grows headline_grows by blast+
  show ?thesis
    using assms by (cases n)
      (auto simp: persist_def Let_def split: prod.splits if_splits elim!: and_then_elim intro!: later intro: parts)
qed

lemma gate_record_grows: "record_gate_decision e now i who d why aim db = (row, db') \<Longrightarrow> record_grows db db'"
proof -
  assume out: "record_gate_decision e now i who d why aim db = (row, db')"
  obtain c db1 where c: "conversation_for e i db = (c, db1)" by fastforce
  have "record_grows db db1" using primitive_grows(8)[of db e i] by (simp add: c)
  moreover have "record_grows db1 db'" using out by (auto simp: record_gate_decision_def c Let_def record_grows_def)
  ultimately show ?thesis by (rule record_grows_trans)
qed

lemma outcome_grows: "record_grows db (apply_gate_outcome now i d awaiting db)"
proof -
  let ?db = "mark_status now i (if awaiting then St_Awaiting_Approval else St_Closed) db"
  have "record_grows db ?db" by simp
  moreover have "record_grows ?db db'" if "finalize_report i None ?db = Inr (row, db')" for row db'
    by (rule finalize_grows[OF that])
  ultimately have "record_grows db db'" if "finalize_report i None ?db = Inr (row, db')" for row db'
    using that record_grows_trans by blast
  then show ?thesis by (simp add: apply_gate_outcome_def Let_def split: sum.splits)
qed

lemma step_grows:
  assumes "case_inv e (snd sys)" "case_step e sys sys'"
  shows "record_grows (snd sys) (snd sys')"
  using assms(2)
proof cases
  case (created st db now c rq)
  have "record_grows db (snd (create_investigation e now rq (Some (ca_user_id c)) db))" by (rule primitive_grows)
  then show ?thesis
    using created record_grows_trans[OF _ primitive_grows(9)] by (auto simp: create_route_def Let_def split: prod.splits)
next
  case (persisted nu st db rd now i)
  then show ?thesis using persist_grows by (auto simp: on_node_def write_step_def split: sum.splits)
next
  case (decided ag clock now c i rq')
  obtain st db where sys: "sys = (st, db)" by fastforce
  obtain row db1 where row: "record_gate_decision e now i (ca_user_id c) (gq_decision rq') (gq_rationale rq') (gq_target rq') db = (row, db1)" by fastforce
  let ?db2 = "audit_append e (''investigation.decision.'' @ decision_value (gq_decision rq')) ''investigation'' (Some i) (Some (ca_user_id c)) None None (ca_ip c) db1"
  have g: "record_grows db ?db2" by (rule record_grows_trans[OF gate_record_grows[OF row] primitive_grows(9)])
  have "record_grows db (apply_gate_outcome now i (gq_decision rq') awaiting ?db2)" for awaiting
    by (rule record_grows_trans[OF g outcome_grows])
  then show ?thesis
    using g by (auto simp: decided sys decide_gate_def row Let_def split: sum.splits option.splits prod.splits)
next
  case (recommended st db c i rid d)
  then show ?thesis
    using assms(1) record_grows_trans[OF decide_recommendation_grows primitive_grows(9)]
    by (auto simp: decide_on_recommendation_def split: sum.splits option.splits prod.splits)
qed auto

text \<open>C11: 
  The record only grows. From any reachable state, whatever happens next: evidence, assessments, findings, decisions and the audit trail keep every row as it was
  written; a report's text never changes and only a draft can become final; a recommendation's text never changes, and a decision on it, once taken, stands.
\<close>
theorem record_only_grows:
  assumes "inj (en_uuid e)" "case_reachable e sys" "case_steps e sys sys'"
  shows "record_grows (snd sys) (snd sys')"
proof -
  have "record_grows (snd sys) (snd sys') \<and> case_inv e (snd sys')"
    using assms(3,2)
  proof induction
    case (none sys)
    then show ?case using reachable_inv[OF assms(1)] by simp
  next
    case (more sys sys' sys'')
    then show ?case using step_grows[OF _ more.hyps(2)] step_keeps[OF assms(1) more.hyps(2)] record_grows_trans by blast
  qed
  then show ?thesis ..
qed

end
