(* ===== verification/Case_Gate.thy ===== *)
theory Case_Gate
  imports Case_Safety
begin

text \<open>
  Runs and gate decisions from end to end. Shown: a run is a sequence of the steps of \<open>Case_Safety\<close>, and reports the very updates that lead from checkpoint to checkpoint;
  it opens the approval gate at its end and not before, and only when no node fails; a decision is on record whatever becomes of the resumed graph; and at the gate of a reachable
  graph state it is carried out through the graph, the case, the report and the alert.
\<close>

section \<open>A run is a sequence of steps\<close>

fun states_after :: "graph_state \<Rightarrow> node_update list \<Rightarrow> graph_state list" where
  "states_after s [] = []"
| "states_after s (w # ws) = apply_update s w # states_after (apply_update s w) ws"

lemma updates_lead_to_checkpoints:
  "map snd (fst (advance ag clock n s)) = states_after s (map snd (run_updates ag clock n s))"
proof (induction ag clock n s rule: run_updates.induct)
  case (1 ag clock n s)
  show ?case
  proof (cases "n = Human_Gate")
    case True
    then show ?thesis by (simp add: advance.simps run_updates.simps)
  next
    case False
    then obtain r where r: "run_node ag (clock (length (node_history s))) None n s = Some r" by (cases n) auto
    show ?thesis
    proof (cases r)
      case (Inl x)
      then show ?thesis using False r by (subst advance.simps, subst run_updates.simps) simp
    next
      case (Inr w)
      obtain q where q: "successor n (apply_update s w) = Some q" by (cases n) auto
      note ih = 1[OF False r Inr]
      show ?thesis
        using False r Inr q ih by (subst advance.simps, subst run_updates.simps) (cases q; simp add: Let_def case_prod_beta)
    qed
  qed
qed

lemma automatic_successor:
  "n \<in> automatic_nodes \<Longrightarrow> successor n s = Some q \<Longrightarrow> \<exists>m. q = At m \<and> (m \<in> automatic_nodes \<or> m = Human_Gate \<and> n = Triage)"
  by (auto simp: automatic_nodes_def route_after_threat_def)

lemma automatic_run: "n \<in> automatic_nodes \<Longrightarrow> \<exists>r. run_node ag now None n s = Some r"
  by (auto simp: automatic_nodes_def)

text \<open>From an automatic node on: only automatic nodes run; without an error the last one, and no other, is triage and the graph stops at the gate; with one triage never runs.\<close>

lemma run_shape:
  assumes "n \<in> automatic_nodes"
  shows "fst ` set (run_updates ag clock n s) \<subseteq> automatic_nodes \<and>
    (case snd (advance ag clock n s) of
       None \<Rightarrow> (\<exists>before' w. run_updates ag clock n s = before' @ [(Triage, w)] \<and> Triage \<notin> fst ` set before') \<and>
         (\<exists>cps s'. fst (advance ag clock n s) = cps @ [(At Human_Gate, s')])
     | Some x \<Rightarrow> Triage \<notin> fst ` set (run_updates ag clock n s))"
  using assms
proof (induction ag clock n s rule: run_updates.induct)
  case (1 ag clock n s)
  have gate: "n \<noteq> Human_Gate" using 1(2) by (auto simp: automatic_nodes_def)
  obtain r where r: "run_node ag (clock (length (node_history s))) None n s = Some r" using automatic_run[OF 1(2)] by blast
  show ?case
  proof (cases r)
    case (Inl x)
    then show ?thesis using gate r by (subst advance.simps, subst (1 2 3) run_updates.simps) simp
  next
    case (Inr w)
    obtain q where q: "successor n (apply_update s w) = Some q" by (cases n) auto
    obtain m where m: "q = At m" "m \<in> automatic_nodes \<or> m = Human_Gate \<and> n = Triage" using automatic_successor[OF 1(2) q] by blast
    have ups: "run_updates ag clock n s = (n, w) # run_updates ag clock m (apply_update s w)"
      and adv: "snd (advance ag clock n s) = snd (advance ag clock m (apply_update s w))"
        "fst (advance ag clock n s) = (At m, apply_update s w) # fst (advance ag clock m (apply_update s w))"
      using gate r Inr q m(1) run_updates.simps[of ag clock n s] advance.simps[of ag clock n s] by (simp_all add: Let_def case_prod_beta)
    show ?thesis
    proof (cases "m = Human_Gate")
      case True
      then show ?thesis using m(2) 1(2) by (auto simp: ups adv run_updates.simps advance.simps automatic_nodes_def)
    next
      case False
      then have am: "m \<in> automatic_nodes" using m(2) by blast
      have "n \<noteq> Triage" using q m(1) False by auto
      then show ?thesis
        using 1(1)[OF gate r Inr q m(1) am] 1(2) unfolding ups adv
        by (auto split: option.splits intro: exI[of _ "(n, w) # bs" for bs] exI[of _ "(At m, apply_update s w) # cps" for cps])
    qed
  qed
qed

lemma start_alt:
  "start ag clock st i (trigger_value (cq_trigger rq)) (snapshot_config rq) created (Some (cq_evidence rq)) (Some (cq_assets rq)) =
    (let s0 = started_state st i created rq; (cps, err) = advance ag clock Ingest_Seed s0 in (dict_set i (rev ((At Ingest_Seed, s0) # cps) @ thread st i) st, err))"
  by (simp add: start_def started_state_def)

lemma steps_trans: "case_steps e b c \<Longrightarrow> case_steps e a b \<Longrightarrow> case_steps e a c"
  by (induction rule: case_steps.induct) (auto intro: case_steps.intros)

lemma report_nodes_steps:
  assumes "fst ` set ups \<subseteq> automatic_nodes"
  shows "case_steps e (st, db) (st, fold (\<lambda>(k, nu). on_node e rd (tick (k + 1)) i nu) (enumerate m ups) db)"
  using assms
proof (induction ups arbitrary: db m)
  case Nil
  then show ?case by (simp add: case_steps.none)
next
  case (Cons a ups)
  have "case_step e (st, db) (st, on_node e rd (tick (m + 1)) i a db)" by (rule case_step.persisted) (use Cons.prems in auto)
  then have "case_steps e (st, db) (st, on_node e rd (tick (m + 1)) i a db)" by (rule case_steps.more[OF case_steps.none])
  then show ?case using steps_trans[OF Cons.IH[of "on_node e rd (tick (m + 1)) i a db" "Suc m"]] Cons.prems by simp
qed

text \<open>C27: 
  A run is a sequence of steps: starting the graph, persisting what each node produced, and recording a failure are transitions of the step relation, whatever the
  agents and the readers do, so everything shown of reachable states holds of runs. The graph may meanwhile be driven by others.
\<close>
theorem run_is_steps:
  "case_steps e sys (run_investigation e rd ag clock tick i rq sys)"
proof -
  obtain st db where sys: "sys = (st, db)" by fastforce
  let ?s0 = "started_state st i (en_iso e (tick 0)) rq"
  let ?ups = "run_updates ag clock Ingest_Seed ?s0"
  let ?db1 = "mark_status (tick 0) i St_In_Progress db"
  let ?db2 = "report_nodes e rd tick i ?ups ?db1"
  obtain st' err where start: "start ag clock st i (trigger_value (cq_trigger rq)) (snapshot_config rq) (en_iso e (tick 0)) (Some (cq_evidence rq)) (Some (cq_assets rq)) = (st', err)"
    by fastforce
  have begun: "case_steps e (st, db) (st, ?db1)" by (rule case_steps.more[OF case_steps.none case_step.begun])
  have "fst ` set ?ups \<subseteq> automatic_nodes" using run_shape[of Ingest_Seed ag clock ?s0] by (simp add: automatic_nodes_def)
  then have "case_steps e (st, ?db1) (st, ?db2)" unfolding report_nodes_def by (rule report_nodes_steps)
  then have two: "case_steps e (st, db) (st, ?db2)" by (rule steps_trans) (rule begun)
  then have three: "case_steps e (st, db) (st', ?db2)" by (rule case_steps.more) (rule case_step.orchestrated)
  then have "case_steps e (st, db) (st', record_stage e now i (failed_stage ?db2 i) STAGE_FAILED detail ?db2)" for now detail
    by (rule case_steps.more) (rule case_step.stopped)
  then show ?thesis
    using three by (simp add: sys run_investigation_def Let_def start split: option.splits)
qed


section \<open>When the gate opens\<close>

definition status_of :: "case_db \<Rightarrow> string \<Rightarrow> investigation_status option" where
  "status_of db i = map_option in_status (get_investigation db i)"

lemma find_map: "find P (map g xs) = map_option g (find (\<lambda>x. P (g x)) xs)"
  by (induction xs) auto

lemma get_update:
  assumes "\<And>r. in_id (f r) = in_id r"
  shows "get_investigation (update_investigation now i f db) i = map_option (\<lambda>r. touch now r (f r)) (get_investigation db i)"
proof -
  have "in_id (if in_id r = i then touch now r (f r) else r) = in_id r" for r by (simp add: touch_def assms)
  then show ?thesis
    unfolding get_investigation_def update_investigation_def find_map
    by (auto simp: find_map find_Some_iff option.map_comp intro!: map_option_cong dest!: sym[of "Some _"]) 
qed

lemma touched_status: "in_status (touch now r q) = in_status q"
  by (simp add: touch_def)

lemma status_mark [simp]: "status_of (mark_status now i st db) i = map_option (\<lambda>_. st) (status_of db i)"
  unfolding status_of_def mark_status_def by (subst get_update) (simp_all add: option.map_comp comp_def touched_status)

lemma status_kept [simp]:
  "status_of (record_stage e now i stage status detail db) i = status_of db i" "status_of (set_headline now i sev x db) i = status_of db i"
  unfolding status_of_def record_stage_def set_headline_def
  by (subst get_update; simp add: option.map_comp comp_def touched_status)+

lemma status_tables: "db_investigations db' = db_investigations db \<Longrightarrow> status_of db' i = status_of db i"
  by (simp add: status_of_def get_investigation_def)

lemma persist_status:
  assumes "persist e rd now i n upd db = Inr db'" "n \<in> automatic_nodes - {Triage}"
  shows "status_of db' i = status_of db i"
proof -
  have parts: "record_log_events e i evs db = (w, db1) \<Longrightarrow> status_of db1 i = status_of db i" "record_threat_assessment e now i a db = (a', db1) \<Longrightarrow> status_of db1 i = status_of db i"
    "record_cve_findings e i d db = (fs, db1) \<Longrightarrow> status_of db1 i = status_of db i" "record_report_content e now i x t cs db = (r, db1) \<Longrightarrow> status_of db1 i = status_of db i"
    "record_remediation_plan e now i p db = (rs, db1) \<Longrightarrow> status_of db1 i = status_of db i" for evs w db1 a a' d fs x t cs r p rs
    by (auto simp: record_log_events_def record_threat_assessment_def record_cve_findings_def record_report_content_def record_remediation_plan_def Let_def
        split: if_splits intro!: status_tables)
  show ?thesis
    using assms by (cases n)
      (auto simp: persist_def automatic_nodes_def Let_def parts split: prod.splits if_splits elim!: and_then_elim)
qed

lemma on_node_status:
  "fst nu \<in> automatic_nodes \<Longrightarrow> status_of (on_node e rd now i nu db) i =
    (if fst nu = Triage then map_option (\<lambda>_. St_Awaiting_Approval) (status_of db i) else status_of db i)"
  using persist_status[of e rd now i "fst nu" "snd nu" db]
  by (cases "fst nu = Triage") (auto simp: on_node_def write_step_def persist_def[where n = Triage] split: sum.splits)

lemma fold_status:
  assumes "fst ` set ups \<subseteq> automatic_nodes"
  shows "status_of (fold (\<lambda>(k, nu). on_node e rd (tick (k + 1)) i nu) (enumerate m ups) db) i =
    (if Triage \<in> fst ` set ups then map_option (\<lambda>_. St_Awaiting_Approval) (status_of db i) else status_of db i)"
  using assms
proof (induction ups arbitrary: db m)
  case (Cons a ups)
  then show ?case using on_node_status[of a e rd "tick (m + 1)" i db] by (auto simp: option.map_comp comp_def)
qed simp

text \<open>C18: 
  The gate opens exactly when a run succeeds. After a run the case awaits approval if no node failed, whatever could not be persisted on the way; if a node failed it
  stays in progress, where a decision is refused and nothing restarts it.
\<close>
theorem gate_opens_iff_run_succeeds:
  "case run_investigation e rd ag clock tick i rq (st, db) of (st', db') \<Rightarrow>
    let failed = snd (start ag clock st i (trigger_value (cq_trigger rq)) (snapshot_config rq) (en_iso e (tick 0)) (Some (cq_evidence rq)) (Some (cq_assets rq))) \<noteq> None in
    status_of db' i = map_option (\<lambda>_. if failed then St_In_Progress else St_Awaiting_Approval) (status_of db i)
    \<and> (if failed then isl (fst (decide_gate e ag' clock' now c i body' (st', db'))) else True)"
proof -
  let ?s0 = "started_state st i (en_iso e (tick 0)) rq"
  let ?ups = "run_updates ag clock Ingest_Seed ?s0"
  let ?db1 = "mark_status (tick 0) i St_In_Progress db"
  let ?db2 = "report_nodes e rd tick i ?ups ?db1"
  obtain st' err where start: "start ag clock st i (trigger_value (cq_trigger rq)) (snapshot_config rq) (en_iso e (tick 0)) (Some (cq_evidence rq)) (Some (cq_assets rq)) = (st', err)"
    by fastforce
  have err: "snd (advance ag clock Ingest_Seed ?s0) = err" using start unfolding start_alt Let_def by (auto split: prod.splits)
  have shape: "fst ` set ?ups \<subseteq> automatic_nodes" "(Triage \<in> fst ` set ?ups) = (err = None)"
    using run_shape[of Ingest_Seed ag clock ?s0] unfolding err by (auto simp: automatic_nodes_def split: option.splits)
  have two: "status_of ?db2 i = map_option (\<lambda>_. if err = None then St_Awaiting_Approval else St_In_Progress) (status_of db i)"
    using fold_status[OF shape(1), of e rd tick i 0 ?db1] shape(2) by (simp add: report_nodes_def option.map_comp comp_def)
  have refused: "isl (fst (decide_gate e ag' clock' now c i body' (st', db')))" if "status_of db' i \<noteq> Some St_Awaiting_Approval" for db'
    using that by (auto simp: decide_gate_def load_case_def status_of_def split: option.splits if_splits)
  show ?thesis
  proof (cases err)
    case None
    then show ?thesis using two start by (simp add: run_investigation_def Let_def)
  next
    case (Some x)
    let ?db3 = "record_stage e (tick (length ?ups + 1)) i (failed_stage ?db2 i) STAGE_FAILED (node_error_name x) ?db2"
    have three: "status_of ?db3 i = map_option (\<lambda>_. St_In_Progress) (status_of db i)" using two Some by simp
    then have "isl (fst (decide_gate e ag' clock' now c i body' (st', ?db3)))" by (intro refused) (cases "status_of db i"; simp)
    then show ?thesis using three start Some by (simp add: run_investigation_def Let_def)
  qed
qed


text \<open>C18: 
  The gate opens at the end of a run and not before. When a run fails no node, the case awaits approval afterwards and the graph is stopped at its gate, whatever could
  not be persisted on the way; and at every earlier moment of the run, after the persistence of any of the nodes before the last, the case is still in progress and a
  decision is refused.
\<close>
theorem gate_opens_when_run_ends:
  assumes "snd (start ag clock st i (trigger_value (cq_trigger rq)) (snapshot_config rq) (en_iso e (tick 0)) (Some (cq_evidence rq)) (Some (cq_assets rq))) = None"
  shows "case run_investigation e rd ag clock tick i rq (st, db) of (st', db') \<Rightarrow>
    let ups = run_updates ag clock Ingest_Seed (started_state st i (en_iso e (tick 0)) rq); opened = mark_status (tick 0) i St_In_Progress db in
    status_of db' i = map_option (\<lambda>_. St_Awaiting_Approval) (status_of db i)
    \<and> (\<exists>s rest. thread st' i = (At Human_Gate, s) # rest)
    \<and> db' = report_nodes e rd tick i ups opened
    \<and> list_all (\<lambda>k. status_of (report_nodes e rd tick i (take k ups) opened) i = map_option (\<lambda>_. St_In_Progress) (status_of db i)
        \<and> isl (fst (decide_gate e ag' clock' now c i body' (st', report_nodes e rd tick i (take k ups) opened)))) [0..<length ups]"
proof -
  let ?s0 = "started_state st i (en_iso e (tick 0)) rq"
  let ?ups = "run_updates ag clock Ingest_Seed ?s0"
  let ?db1 = "mark_status (tick 0) i St_In_Progress db"
  obtain st' where start: "start ag clock st i (trigger_value (cq_trigger rq)) (snapshot_config rq) (en_iso e (tick 0)) (Some (cq_evidence rq)) (Some (cq_assets rq)) = (st', None)"
    using assms by (metis prod.collapse)
  have err: "snd (advance ag clock Ingest_Seed ?s0) = None" using start unfolding start_alt Let_def by (auto split: prod.splits)
  obtain bs w cps s where ups: "?ups = bs @ [(Triage, w)]" "Triage \<notin> fst ` set bs" and cps: "fst (advance ag clock Ingest_Seed ?s0) = cps @ [(At Human_Gate, s)]"
    using run_shape[of Ingest_Seed ag clock ?s0] unfolding err by (auto simp: automatic_nodes_def)
  have auto: "fst ` set ?ups \<subseteq> automatic_nodes" using run_shape[of Ingest_Seed ag clock ?s0] by (auto simp: automatic_nodes_def)
  have run: "run_investigation e rd ag clock tick i rq (st, db) = (st', report_nodes e rd tick i ?ups ?db1)"
    using start by (simp add: run_investigation_def Let_def)
  have th: "\<exists>s rest. thread st' i = (At Human_Gate, s) # rest"
    using start cps unfolding start_alt Let_def by (auto simp: thread_def dict_set_lookup split: prod.splits)
  have all: "status_of (report_nodes e rd tick i ?ups ?db1) i = map_option (\<lambda>_. St_Awaiting_Approval) (status_of db i)"
    using fold_status[OF auto, of e rd tick i 0 ?db1] ups(1) by (simp add: report_nodes_def option.map_comp comp_def)
  have refused: "isl (fst (decide_gate e ag' clock' now c i body' (st', db')))" if "status_of db' i \<noteq> Some St_Awaiting_Approval" for db'
    using that by (auto simp: decide_gate_def load_case_def status_of_def split: option.splits if_splits)
  have part: "status_of (report_nodes e rd tick i (take k ?ups) ?db1) i = map_option (\<lambda>_. St_In_Progress) (status_of db i)" if "k < length ?ups" for k
  proof -
    have "take k ?ups = take k bs" using that unfolding ups(1) by simp
    then have "fst ` set (take k ?ups) \<subseteq> automatic_nodes" "Triage \<notin> fst ` set (take k ?ups)"
      using auto ups by (auto dest: in_set_takeD)
    then show ?thesis using fold_status[of "take k ?ups" e rd tick i 0 ?db1] by (simp add: report_nodes_def)
  qed
  moreover have "isl (fst (decide_gate e ag' clock' now c i body' (st', report_nodes e rd tick i (take k ?ups) ?db1)))" if "k < length ?ups" for k
    by (intro refused) (use part[OF that] in \<open>cases "status_of db i"; simp\<close>)
  ultimately show ?thesis unfolding run prod.case Let_def using all th by (simp add: list_all_iff)
qed


section \<open>Deciding at the gate\<close>

text \<open>C28: 
  A decision is on record whatever becomes of it. A caller without the capability, or a case that does not await approval, changes nothing; otherwise exactly one
  decision with the caller's name, on this case's thread, and exactly one audit entry are added, whether the graph then resumes, refuses or fails.
\<close>
theorem decision_recorded_first:
  "case decide_gate e ag clock now c i rq (st, db) of (out, st', db') \<Rightarrow>
     if has_capability (ca_role c) Approve_Actions \<and> (case load_case db i of Inl _ \<Rightarrow> False | Inr row \<Rightarrow> in_status row = St_Awaiting_Approval)
     then (\<exists>d a. db_decisions db' = db_decisions db @ [d] \<and> dn_user_id d = ca_user_id c \<and> hd_decision d = gq_decision rq
        \<and> (\<exists>t \<in> set (db_conversations db'). cv_id t = hd_conversation_id d \<and> cv_investigation_id t = i)
        \<and> db_audit db' = db_audit db @ [a] \<and> ad_actor_id a = Some (ca_user_id c) \<and> ad_entity_id a = Some i)
     else isl out \<and> (st', db') = (st, db)"
proof -
  obtain row db1 where row: "record_gate_decision e now i (ca_user_id c) (gq_decision rq) (gq_rationale rq) (gq_target rq) db = (row, db1)" by fastforce
  let ?db2 = "audit_append e (''investigation.decision.'' @ decision_value (gq_decision rq)) ''investigation'' (Some i) (Some (ca_user_id c)) None None (ca_ip c) db1"
  let ?goal = "\<lambda>db'. \<exists>d a. db_decisions db' = db_decisions db @ [d] \<and> dn_user_id d = ca_user_id c \<and> hd_decision d = gq_decision rq
        \<and> (\<exists>t \<in> set (db_conversations db'). cv_id t = hd_conversation_id d \<and> cv_investigation_id t = i)
        \<and> db_audit db' = db_audit db @ [a] \<and> ad_actor_id a = Some (ca_user_id c) \<and> ad_entity_id a = Some i"
  obtain t db0 where t: "conversation_for e i db = (t, db0)" by fastforce
  have t0: "t \<in> set (db_conversations db0)" "cv_investigation_id t = i" "db_decisions db0 = db_decisions db" "db_audit db0 = db_audit db"
    using t by (auto simp: conversation_for_def Let_def find_Some_iff split: option.splits)
  have "?goal ?db2"
    using row t0 by (auto simp: record_gate_decision_def t Let_def audit_append_def)
  moreover have "db_decisions (apply_gate_outcome now i d w db') = db_decisions db' \<and> db_conversations (apply_gate_outcome now i d w db') = db_conversations db'
      \<and> db_audit (apply_gate_outcome now i d w db') = db_audit db'" for d w db'
    by (auto simp: apply_gate_outcome_def Let_def mark_status_def update_investigation_def finalize_report_def split: option.splits sum.splits)
  ultimately have "?goal (apply_gate_outcome now i (gq_decision rq) w ?db2)" for w by simp
  then show ?thesis
    using \<open>?goal ?db2\<close> by (auto simp: decide_gate_def row Let_def simp del: audit_tables split: sum.splits option.splits prod.splits)
qed

lemma coerce_text: "coerce_decision (Decision_Text (decision_value d)) = Inr [(''decision'', PStr (decision_value d))]"
proof -
  have "lower (decision_value d) = decision_value d" by (cases d; simp only: decision_value.simps; code_simp)
  moreover have "decision_value d \<in> set valid_decisions" by (cases d) (simp_all add: valid_decisions_def)
  ultimately show ?thesis by (simp add: coerce_decision_def pget_or_def str_val_def Let_def)
qed

lemma alerts_of_resume:
  assumes "thread st tid = (At Human_Gate, s) # rest" "channels s ds []"
  shows "length (collected_alerts (resume_updates ag clock st tid (Decision_Text (decision_value d)))) = (if d = Approve then 1 else 0)"
proof -
  obtain w where w: "human_gate (clock (length (node_history s))) [(''decision'', PStr (decision_value d))] s = Inr w"
    "last_decision (apply_update s w) = PStr (decision_value d)"
    using gate_decided[OF assms(2), of "[(''decision'', PStr (decision_value d))]" d] by auto
  have ups: "resume_updates ag clock st tid (Decision_Text (decision_value d)) =
      (Human_Gate, w) # run_updates ag clock (case d of Approve \<Rightarrow> Notify | Redirect \<Rightarrow> Triage | _ \<Rightarrow> Close) (apply_update s w)"
    using route_decided[OF w(2)] by (simp add: resume_updates_def assms(1) coerce_text w(1))
  show ?thesis
    unfolding ups by (cases d) (simp_all add: run_updates.simps collected_alerts_def notify_def pget_or_def)
qed

lemma current_report_map:
  assumes "\<And>x. rp_version (g x) = rp_version x" "\<And>x. rp_investigation_id (g x) = rp_investigation_id x"
    and "db_reports db' = map g (db_reports db)"
  shows "current_report db' i = map_option g (current_report db i)"
proof -
  have "max_by rp_version (g b) (map g xs) = g (max_by rp_version b xs)" for b xs
    by (induction xs arbitrary: b) (simp_all add: assms(1) if_distrib[of g])
  then have "newest_by rp_version (map g xs) = map_option g (newest_by rp_version xs)" for xs
    by (cases xs) (simp_all add: newest_by_def)
  moreover have "filter (\<lambda>x. rp_investigation_id x = i) (map g xs) = map g (filter (\<lambda>x. rp_investigation_id x = i) xs)" for xs
    by (induction xs) (simp_all add: assms(2))
  ultimately show ?thesis by (simp only: current_report_def assms(3))
qed

lemma current_report_final:
  assumes "finalize_report i None db = Inr (row, db')"
  shows "map_option rp_status (current_report db' i) = map_option (\<lambda>_. Report_Final) (current_report db i)"
proof -
  obtain r where r: "current_report db i = Some r"
    and db': "db_reports db' = map (\<lambda>x. if rp_id x = rp_id r then x\<lparr>rp_status := Report_Final\<rparr> else x) (db_reports db)"
    using assms by (auto simp: finalize_report_def split: option.splits)
  show ?thesis by (subst current_report_map[OF _ _ db']) (simp_all add: r)
qed

lemma load_after_outcome:
  assumes "load_case db i = Inr row"
  obtains r where "load_case (apply_gate_outcome now i d w db) i = Inr r" "in_status r = (if w then St_Awaiting_Approval else St_Closed)"
proof -
  let ?f = "\<lambda>r. r\<lparr>in_status := (if w then St_Awaiting_Approval else St_Closed),
    in_closed_at := (if (if w then St_Awaiting_Approval else St_Closed) = St_Closed \<and> in_closed_at r = None then Some now else in_closed_at r)\<rparr>"
  have live: "get_investigation db i = Some row" "in_deleted_at row = None"
    using assms by (auto simp: load_case_def split: option.splits if_splits)
  have "db_investigations (apply_gate_outcome now i d w db) = db_investigations (update_investigation now i ?f db)"
    by (auto simp: apply_gate_outcome_def Let_def mark_status_def finalize_report_def split: option.splits sum.splits)
  then have "get_investigation (apply_gate_outcome now i d w db) i = Some (touch now row (?f row))"
    using get_update[of ?f now i db] live(1) unfolding get_investigation_def by simp
  then have "load_case (apply_gate_outcome now i d w db) i = Inr (touch now row (?f row))"
    using live(2) by (simp add: load_case_def touch_def)
  then show ?thesis by (rule that) (simp add: touched_status)
qed

lemma report_after_outcome:
  "map_option rp_status (current_report (apply_gate_outcome now i d w db) i) =
    (if d = Approve then map_option (\<lambda>_. Report_Final) (current_report db i) else map_option rp_status (current_report db i))"
proof -
  obtain m where m: "mark_status now i (if w then St_Awaiting_Approval else St_Closed) db = m" by simp
  then have "db_reports m = db_reports db" by (auto simp: mark_status_def update_investigation_def)
  then have same: "current_report m i = current_report db i" by (simp add: current_report_def)
  have "map_option rp_status (current_report db' i) = map_option (\<lambda>_. Report_Final) (current_report db i)" if "finalize_report i None m = Inr (p, db')" for p db'
    using current_report_final[OF that] by (simp add: same)
  moreover have "finalize_report i None m = Inl x \<Longrightarrow> current_report db i = None" for x
    by (auto simp: finalize_report_def same split: option.splits)
  ultimately show ?thesis
    by (auto simp: apply_gate_outcome_def m Let_def ACCEPTING_DECISIONS_def has_report_def same split: sum.splits)
qed

lemma outcome_tables:
  "db_decisions (apply_gate_outcome now i d w db) = db_decisions db" "db_conversations (apply_gate_outcome now i d w db) = db_conversations db"
  by (auto simp: apply_gate_outcome_def Let_def mark_status_def update_investigation_def finalize_report_def split: option.splits sum.splits)

text \<open>C4: 
  A decision at the gate is carried out. For a case that awaits approval, with its graph at the gate, a caller who may approve always gets an answer: an approval or
  any other final decision closes the case, a redirect leaves it awaiting approval; exactly one alert is queued on an approval and none otherwise; the identifier handed on with
  it passes dispatch's check of an approval exactly when it is one; and the current report becomes final on an approval and keeps its status otherwise.
\<close>
theorem gate_decision_carried_out:
  assumes "inj (en_uuid e)" "case_reachable e (st, db)" "has_capability (ca_role c) Approve_Actions"
    and "load_case db i = Inr row" "in_status row = St_Awaiting_Approval"
    and "thread st i = (At Human_Gate, s) # rest" "reachable ag (new_state tid trigger snapshot created ev assets) (At Human_Gate, s)"
  shows "case decide_gate e ag clock now c i rq (st, db) of
      (Inl _, _, _) \<Rightarrow> False
    | (Inr r, st', db') \<Rightarrow> let d = gq_decision rq in
        gr_status r = (if d = Redirect then St_Awaiting_Approval else St_Closed) \<and> gr_awaiting_human r = (d = Redirect) \<and> \<not> gr_executed r
        \<and> length (gr_alerts r) = (if d = Approve then 1 else 0)
        \<and> isl (verify_approval (dispatch_session db' ns au w) i (gr_approval_id r)) = (d \<noteq> Approve)
        \<and> map_option rp_status (current_report db' i) =
            (if d = Approve then map_option (\<lambda>_. Report_Final) (current_report db i) else map_option rp_status (current_report db i))"
proof -
  let ?d = "gq_decision rq" and ?inp = "Decision_Text (decision_value (gq_decision rq))"
  obtain st' q s' new where res: "resume ag clock st i ?inp = Inr (st', None)" "thread st' i = ((q, s') # new) @ thread st i"
    and q: "(q, g_status s') = (if ?d = Redirect then (At Human_Gate, ''awaiting_approval'') else (END, ''closed''))"
    using decision_outcomes[OF assms(6,7) coerce_text[of ?d], where clock = clock and dec = ?d] by auto
  obtain gr where gr: "result st' i = Inr gr" "awaiting_human gr = (?d = Redirect)"
    using res(2) q by (auto simp: result_def pending_interrupt_of_def Let_def split: if_splits)
  obtain ds where ch: "channels s ds []" using reachable_gate_channels[OF assms(7)] by blast
  note al = alerts_of_resume[OF assms(6) ch, where ag = ag and clock = clock and d = ?d]
  obtain d db1 where dec: "record_gate_decision e now i (ca_user_id c) ?d (gq_rationale rq) (gq_target rq) db = (d, db1)" by fastforce
  have inv0: "case_inv e db" using reachable_inv[OF assms(1,2)] by simp
  note f = gate_decision_facts[OF assms(1) inv0 dec]
  let ?db2 = "audit_append e (''investigation.decision.'' @ decision_value ?d) ''investigation'' (Some i) (Some (ca_user_id c)) None None (ca_ip c) db1"
  let ?db3 = "apply_gate_outcome now i ?d (awaiting_human gr) ?db2"
  have taken: "decided_by {?d} (db_decisions ?db2) (db_conversations ?db2) i" using decided_recorded[OF f(2,4)] f(3) by simp
  have inv: "case_inv e ?db3" by (rule outcome_keeps[OF audit_keeps[OF f(1)] taken])
  have kept: "db_decisions ?db3 = db_decisions db1" "db_conversations ?db3 = db_conversations db1"
    by (simp_all only: outcome_tables audit_tables)
  have "load_case ?db2 i = Inr row" using assms(4) f(6) by (simp add: load_case_def get_investigation_def)
  then obtain updated where up: "load_case ?db3 i = Inr updated" "in_status updated = (if ?d = Redirect then St_Awaiting_Approval else St_Closed)"
    using load_after_outcome[of ?db2 i row now ?d "awaiting_human gr"] gr(2) by metis
  have verified: "isl (verify_approval (dispatch_session ?db3 ns au w) i (hd_id d)) = (?d \<noteq> Approve)"
  proof -
    have "d \<in> set (db_decisions ?db3)" unfolding kept by (rule f(2))
    moreover have "\<exists>c \<in> set (db_conversations ?db3). cv_id c = hd_conversation_id d \<and> cv_investigation_id c = i" unfolding kept by (rule f(4))
    ultimately show ?thesis by (simp only: verify_row[OF inv] f(3)) simp
  qed
  have "current_report ?db2 i = current_report db i" using f(5) by (simp add: current_report_def)
  then have reports: "map_option rp_status (current_report ?db3 i) =
      (if ?d = Approve then map_option (\<lambda>_. Report_Final) (current_report db i) else map_option rp_status (current_report db i))"
    by (simp only: report_after_outcome)
  show ?thesis
    using up gr(2) al verified reports
    by (simp add: decide_gate_def assms(3,4,5) dec res(1) gr(1) Let_def)
qed


lemma dict_set_again: "dict_set k v (dict_set k x d) = dict_set k v d"
  by (induction d) auto

text \<open>
  A payload cannot authorise itself. Whatever approval the alert that the graph produced claims, delivering it does the same: the approval that is verified is the one
  passed in by the route, so if that one does not hold up nothing is sent and no row is written.
\<close>
theorem payload_cannot_authorise:
  "deliver_alert dp validate (dict_set ''approval_id'' claimed payload) approval_id who url s = deliver_alert dp validate payload approval_id who url s
   \<and> (case validate (dict_set ''console_url'' (optional_value url) (dict_set ''approval_id'' (PStr approval_id) payload)) of
        None \<Rightarrow> deliver_alert dp validate payload approval_id who url s = s
      | Some a \<Rightarrow> if isl (verify_approval s (al_investigation_id a) (al_approval_id a)) then deliver_alert dp validate payload approval_id who url s = s else True)"
  by (auto simp: deliver_alert_def dict_set_again dispatch_alert_def split: option.splits sum.splits)

section \<open>What the views say, and what they do not\<close>

lemma sorted_text_order: "sorted (map f xs) \<Longrightarrow> sorted_wrt (\<lambda>a b. f a \<le> f b) xs"
  by (simp add: sorted_wrt_map)

text \<open>
  The plan is listed with the urgent items last: the priority column is ordered as text, so a high priority comes first and nothing but an urgent item follows an
  urgent one.
\<close>
theorem plan_lists_urgent_last:
  "sorted_wrt (\<lambda>a b. if rm_priority a = Prio_Urgent then rm_priority b = Prio_Urgent else True) (current_recommendations db i)
   \<and> sorted_wrt (\<lambda>a b. if rm_priority b = Prio_High then rm_priority a = Prio_High else True) (current_recommendations db i)"
proof -
  have ranks: "priority_value p \<le> priority_value q \<longleftrightarrow> p = q \<or> p = Prio_High \<or> q = Prio_Urgent \<or> (p = Prio_Low \<and> q = Prio_Medium)" for p q
    by (cases p; cases q; simp only: priority_value.simps; code_simp)
  have "sorted_wrt (\<lambda>a b. (priority_value (rm_priority a), rm_action a) \<le> (priority_value (rm_priority b), rm_action b)) (current_recommendations db i)"
  proof -
    have "sorted (map (\<lambda>r. (priority_value (rm_priority r), rm_action r)) (current_recommendations db i))"
      by (simp add: current_recommendations_def recommendations_of_def Let_def)
    then show ?thesis by (rule sorted_text_order)
  qed
  then have "sorted_wrt (\<lambda>a b. priority_value (rm_priority a) \<le> priority_value (rm_priority b)) (current_recommendations db i)"
    by (rule sorted_wrt_mono_rel[rotated]) (auto simp: less_eq_prod_def)
  then show ?thesis unfolding ranks by (auto elim!: sorted_wrt_mono_rel[rotated])
qed

text \<open>A rerun that recommends nothing, or finds no vulnerability, leaves the previous generation current.\<close>

lemma empty_rerun_keeps_generation:
  "current_recommendations (snd (record_remediation_plan e now i (p\<lparr>pl_recommendations := []\<rparr>) db)) i = current_recommendations db i"
  "current_findings (snd (record_cve_findings e i (d\<lparr>vr_cves := [], vr_candidates := [], vr_ruled_out := []\<rparr>) db)) i = current_findings db i"
  by (simp_all add: record_remediation_plan_def record_cve_findings_def all_assessments_def Let_def)

lemma unrecorded_stages_read_None: "in_pipeline r = [] \<Longrightarrow> map ps_detail (pipeline_of r) = replicate 5 (Some ''None'')"
  by (simp add: pipeline_of_def STAGES_def numeral_eq_Suc)

lemma unreadable_output_vanishes:
  "rd_threat rd v = None \<Longrightarrow> map_of (u_investigation upd) ''threat_assessment'' = Some v \<Longrightarrow> on_node e rd now i (Threat_Detection, upd) db = db"
  by (simp add: on_node_def write_step_def persist_def read_finding_def Let_def)

lemma full_timeline_reads_truncated:
  "has_capability (ca_role c) View_Investigations \<Longrightarrow> load_case db i = Inr row \<Longrightarrow> length (filter (\<lambda>r. le_investigation_id r = i) (db_log_events db)) = 500 \<Longrightarrow>
   \<exists>rows. get_timeline c db i = Inr (rows, True) \<and> mset rows = mset (filter (\<lambda>r. le_investigation_id r = i) (db_log_events db))"
  by (simp add: get_timeline_def viewing_def events_of_def TIMELINE_LIMIT_def Let_def)


section \<open>Witnesses\<close>

definition sample_env :: case_env where
  "sample_env = \<lparr>en_uuid = show_nat, en_citation = (\<lambda>_. []), en_iso = (\<lambda>_. []), en_canonical = (\<lambda>_. []), en_sha256 = (\<lambda>x. x)\<rparr>"

definition sample_readers :: readers where
  "sample_readers = \<lparr>rd_event = (\<lambda>_. None), rd_threat = (\<lambda>_. None), rd_dossier = (\<lambda>_. None), rd_plan = (\<lambda>_. None)\<rparr>"

definition sample_caller :: caller where
  "sample_caller = \<lparr>ca_role = Senior_Analyst, ca_user_id = ''ana'', ca_ip = None\<rparr>"

definition sample_request :: create_request where
  "sample_request = \<lparr>cq_title = Some ''beacon'', cq_trigger = Tr_Alert, cq_evidence = [], cq_assets = [], cq_critical = [], cq_internal = []\<rparr>"

definition sample_report_update :: node_update where
  "sample_report_update = (base_update Report ''incident-reporter'' [] [])\<lparr>u_report := [(''executive_summary'', PStr ''Beacon found'')]\<rparr>"

definition sample_created :: case_db where
  "sample_created = snd (create_route sample_env 0 sample_caller sample_request empty_db)"

definition sample_awaiting :: case_db where
  "sample_awaiting = on_node sample_env sample_readers 2 (show_nat 0) (Triage, base_update Triage ''graph-runtime'' [] [])
     (on_node sample_env sample_readers 1 (show_nat 0) (Report, sample_report_update) sample_created)"

lemma sample_inj: "inj (en_uuid sample_env)"
  by (simp add: sample_env_def inj_def show_nat_inj)

lemma sample_created_reachable: "case_reachable sample_env ([], sample_created)"
  unfolding sample_created_def by (rule case_reachable.stepped[OF case_reachable.empty case_step.created])

lemma sample_case_steps: "case_steps sample_env ([], sample_created) (st, sample_awaiting)"
  unfolding sample_awaiting_def
  by (rule case_steps.more[OF case_steps.more[OF case_steps.more[OF case_steps.none case_step.orchestrated] case_step.persisted] case_step.persisted])
    (simp_all add: automatic_nodes_def)

lemma steps_reachable: "case_steps e sys sys' \<Longrightarrow> case_reachable e sys \<Longrightarrow> case_reachable e sys'"
  by (induction rule: case_steps.induct) (auto intro: case_reachable.stepped)

lemma sample_awaiting_reachable: "case_reachable sample_env (st, sample_awaiting)"
  by (rule steps_reachable[OF sample_case_steps sample_created_reachable])

lemma sample_case: "\<exists>row. load_case sample_awaiting (show_nat 0) = Inr row \<and> in_status row = St_Awaiting_Approval"
proof -
  have "case load_case sample_awaiting (show_nat 0) of Inl _ \<Rightarrow> False | Inr row \<Rightarrow> in_status row = St_Awaiting_Approval" by code_simp
  then show ?thesis by (auto split: sum.splits)
qed

theorem nothing_final_without_a_person_witness:
  "\<exists>db. case_reachable sample_env ([], db) \<and> db_reports db \<noteq> [] \<and>
    list_all (\<lambda>r. rp_status r = Report_Draft \<or>
        list_ex (\<lambda>d. \<not> isl (verify_approval (dispatch_session db [] [] ()) (rp_investigation_id r) (hd_id d))) (db_decisions db)) (db_reports db)"
proof -
  have "db_reports sample_awaiting \<noteq> []"
    by (simp add: sample_awaiting_def on_node_def write_step_def persist_def sample_report_update_def base_update_def pget_def or_val_def record_report_content_def Let_def
        set_headline_def record_stage_def mark_status_def update_investigation_def)
  then show ?thesis
    using nothing_final_without_a_person[OF sample_inj sample_awaiting_reachable] sample_awaiting_reachable by blast
qed

theorem record_only_grows_witness: "record_grows sample_created sample_awaiting"
  using record_only_grows[OF sample_inj sample_created_reachable sample_case_steps] by simp

theorem gate_decision_carried_out_witness:
  "\<exists>s. case decide_gate sample_env sample_agents (\<lambda>_. []) 3 sample_caller (show_nat 0) \<lparr>gq_decision = Approve, gq_rationale = None, gq_target = None\<rparr>
      ([(show_nat 0, [(At Human_Gate, s)])], sample_awaiting) of
      (Inl _, _, _) \<Rightarrow> False
    | (Inr r, st', db') \<Rightarrow> gr_status r = St_Closed \<and> length (gr_alerts r) = 1"
proof -
  obtain s where s: "reachable sample_agents sample_state (At Human_Gate, s)" using sample_gate by blast
  obtain row where row: "load_case sample_awaiting (show_nat 0) = Inr row" "in_status row = St_Awaiting_Approval" using sample_case by blast
  have cap: "has_capability (ca_role sample_caller) Approve_Actions"
    by (simp add: sample_caller_def has_capability_def capabilities_for_def role_capabilities_def)
  have th: "thread [(show_nat 0, [(At Human_Gate, s)])] (show_nat 0) = (At Human_Gate, s) # []" by (simp add: thread_def)
  show ?thesis
    using gate_decision_carried_out[OF sample_inj sample_awaiting_reachable cap row th s[unfolded sample_state_def],
        where rq = "\<lparr>gq_decision = Approve, gq_rationale = None, gq_target = None\<rparr>" and now = 3 and clock = "\<lambda>_. []"
          and ns = "[]" and au = "[]" and w = "()"]
    by (intro exI[of _ s]) (auto simp: Let_def split: prod.splits sum.splits)
qed

theorem gate_opens_when_run_ends_witness:
  "case run_investigation sample_env sample_readers sample_agents (\<lambda>_. []) int (show_nat 0) sample_request ([], sample_created) of (st', db') \<Rightarrow>
     status_of db' (show_nat 0) = Some St_Awaiting_Approval \<and> (\<exists>s rest. thread st' (show_nat 0) = (At Human_Gate, s) # rest)"
proof -
  have ok: "snd (start sample_agents (\<lambda>_. []) [] (show_nat 0) (trigger_value (cq_trigger sample_request)) (snapshot_config sample_request)
      (en_iso sample_env (int 0)) (Some (cq_evidence sample_request)) (Some (cq_assets sample_request))) = None"
    using gate_run_from_seed[OF sample_agents_work, of "\<lambda>_. []" "started_state [] (show_nat 0) (en_iso sample_env (int 0)) sample_request"]
    unfolding start_alt Let_def gate_run_def by auto
  have known: "status_of sample_created (show_nat 0) \<noteq> None" by code_simp
  obtain st' db' where run: "run_investigation sample_env sample_readers sample_agents (\<lambda>_. []) int (show_nat 0) sample_request ([], sample_created) = (st', db')"
    by fastforce
  note opens = gate_opens_when_run_ends[where tick = int and st = "[]" and e = sample_env and rq = sample_request and rd = sample_readers and db = sample_created, OF ok,
      unfolded run prod.case Let_def]
  show ?thesis unfolding run prod.case using opens[THEN conjunct1] opens[THEN conjunct2, THEN conjunct1] known by auto
qed

end
