(* ===== verification/Spec2Isabelle.thy ===== *)
theory Spec2Isabelle
  imports Threat_Detector Cve_Researcher Severity Cvss Versions Correlation Attack Graph_Runtime Dispatch Access Memory_Service Session_Memory Incident_Reporter Log_Analyzer Prompts Tool_Registry Ingestion Case_Gate
begin

text \<open>
  A platform that assists security analysts: agents turn raw logs into events, assess them, research vulnerabilities,
  write a report and recommend remediation; a graph orders them and stops at a human gate; only an approval lets an
  alert out. This library models the deterministic core of that program, file by file, and proves what makes it
  trustworthy: nothing is announced without an approval, nothing is confirmed without evidence, nothing is invented
  when a source is missing, and every retry, limit and fallback does what it promises.

  \<^bold>\<open>How the parts fit.\<close> The graph (\<^verbatim>\<open>graph/\<close>) runs the agents (\<^verbatim>\<open>agents/\<close>) as nodes over one state; each agent calls the
  deterministic tools (\<^verbatim>\<open>tools/\<close>, \<^verbatim>\<open>services/\<close>) and, through resilient clients (\<^verbatim>\<open>integrations/\<close>), outside
  services. The backend (\<^verbatim>\<open>backend/services\<close>, \<^verbatim>\<open>backend/workers\<close>, \<^verbatim>\<open>backend/api\<close>) starts the graph, persists what every node produced, records what a person decides and
  resumes it. After an approval it dispatches the alert over the channels (\<^verbatim>\<open>backend/services/notifications.py\<close>). Access to all of it goes through sessions, roles and a request limiter (\<^verbatim>\<open>backend/auth\<close>, \<^verbatim>\<open>backend/middleware\<close>).

  \<^bold>\<open>Foundations.\<close>
  \<^item> \<open>Prelude\<close>: the Python idioms that recur (first-seen deduplication, splitting at gaps, insertion-ordered
    dictionaries, truthiness, \<^verbatim>\<open>max\<close> with a key). Times are integers of microseconds.
  \<^item> \<open>Float64\<close>: binary64 arithmetic as rationals with rounding after every operation, and \<^verbatim>\<open>round\<close>.
  \<^item> \<open>Py_Text\<close>, \<open>Py_Format\<close>, \<open>Py_Value\<close>, \<open>Regex\<close>, \<open>Ip_Address\<close>: strings over Latin-1, formatting, JSON-like values
    with the exceptions their misuse raises, regular expressions with a computed and a declared meaning, IP addresses.
  \<^item> \<open>Domain\<close>: enumerations and records of \<^verbatim>\<open>models/\<close>.

  \<^bold>\<open>Components.\<close> Each theory names its source file, has its definitions first and its properties after them.
  \<^item> \<open>Resilience\<close> (\<^verbatim>\<open>integrations/resilience.py\<close>): expiring LRU cache, token bucket, circuit breaker: one operation per method, the clock an argument; the breaker admits a single probe, the bucket never exceeds its capacity, a cached value is returned exactly until it expires.
  \<^item> \<open>Severity\<close> (\<^verbatim>\<open>tools/severity.py\<close>, \<^verbatim>\<open>services/risk.py\<close>): scores, verdict, priority, escalation and remediation risk in float arithmetic; bounds, monotonicity and the exact condition for a malicious verdict.
  \<^item> \<open>Cvss\<close> (\<^verbatim>\<open>tools/cvss.py\<close>): vector parser, base score, narrative; every accepted vector scores a tenth between 0.0 and 10.0.
  \<^item> \<open>Versions\<close> (\<^verbatim>\<open>tools/versions.py\<close>): version order, product match, ranges, applicability; a vulnerability is confirmed exactly by the full chain host, product, version, range.
  \<^item> \<open>Cwe, Cve_Text\<close> (\<^verbatim>\<open>tools/cwe.py\<close>, \<^verbatim>\<open>agents/cve_research/researcher.py\<close>): the weakness catalogue and identifiers in free text.
  \<^item> \<open>Iocs\<close> (\<^verbatim>\<open>tools/iocs.py\<close>): indicator extraction, refined from a declarative description of what one indicator records; internal addresses.
  \<^item> \<open>Detection, Attack, Correlation\<close> (\<^verbatim>\<open>tools/detection.py\<close>, \<^verbatim>\<open>tools/attack.py\<close>, \<^verbatim>\<open>tools/correlation.py\<close>): the rule engine and catalogue, the technique mapper and the grouping of events into episodes, each exact against the events it cites.
  \<^item> \<open>Entity_Extraction, Log_Parsers, Log_Formats, Log_Analyzer\<close> (\<^verbatim>\<open>tools/extraction.py\<close>, \<^verbatim>\<open>tools/parsers.py\<close>, \<^verbatim>\<open>integrations/log_sources.py\<close>, \<^verbatim>\<open>agents/log_analyzer/analyzer.py\<close>): from raw records to events: extraction, six parsers, sources, the agent; round trips of the wire formats, no record dropped, gaps reported exactly.
  \<^item> \<open>Agents, Feeds\<close> (\<^verbatim>\<open>agents/shared/contracts.py\<close>, \<^verbatim>\<open>memory/knowledge.py\<close>, \<^verbatim>\<open>integrations/nvd.py\<close>, \<^verbatim>\<open>integrations/advisories.py\<close>, \<^verbatim>\<open>integrations/threat_intel.py\<close>): the agents' envelope and the three feed clients, one resilient fetch refined from a ladder of four answers; indicator enrichment.
  \<^item> \<open>Threat_Detector, Cve_Researcher\<close> (\<^verbatim>\<open>agents/threat_detector/detector.py\<close>, \<^verbatim>\<open>agents/cve_research/researcher.py\<close>): the two assessing agents: every cited event exists, every confirmation is live and evidenced, no source means no claim.
  \<^item> \<open>Remediation, Patch_Recommender\<close> (\<^verbatim>\<open>tools/remediation.py\<close>, \<^verbatim>\<open>models/remediation.py\<close>, \<^verbatim>\<open>agents/patch_recommender/recommender.py\<close>): the remediation catalogue and the planning agent: every finding is answered, every recommendation is pending.
  \<^item> \<open>Reporting, Report_Render, Incident_Reporter\<close> (\<^verbatim>\<open>tools/reporting.py\<close>, \<^verbatim>\<open>tools/rendering.py\<close>, \<^verbatim>\<open>models/report.py\<close>, \<^verbatim>\<open>agents/incident_reporter/reporter.py\<close>): timeline, assets, references, Markdown and the reporting agent: findings restate upstream results, limitations are stated exactly, tables keep their shape.
  \<^item> \<open>Tool_Registry, Prompts\<close> (\<^verbatim>\<open>tools/base.py\<close>, \<^verbatim>\<open>tools/errors.py\<close>, \<^verbatim>\<open>prompts/assembly.py\<close>, \<^verbatim>\<open>prompts/preamble.py\<close>): deny-by-default tool resolution and the fencing of untrusted prompt sections.
  \<^item> \<open>Working_Memory, Session_Memory, Memory_Service\<close> (\<^verbatim>\<open>memory/\<close>, \<^verbatim>\<open>backend/db/repositories/memory.py\<close>): the memory tiers and the context assembled from them: lossless eviction, newest durable revision, honest degradation.
  \<^item> \<open>Chunking, Retrieval, Rag_Service, Ingestion\<close> (\<^verbatim>\<open>rag/\<close>, \<^verbatim>\<open>models/knowledge.py\<close>, \<^verbatim>\<open>backend/db/orm/knowledge.py\<close>): the knowledge base: chunks, both indexes, ranking, citations, the answer cache, allow-listed ingestion.
  \<^item> \<open>Graph_State, Graph_Nodes, Graph_Runtime\<close> (\<^verbatim>\<open>graph/\<close>): the investigation graph: reducers, node bodies and routers over arbitrary agents, the step relation \<open>graph_step\<close> with its reachable states, and start, resume, history and rollback over the list of checkpoints.
  \<^item> \<open>Alert_Render, Channels, Dispatch\<close> (\<^verbatim>\<open>tools/notifications.py\<close>, \<^verbatim>\<open>models/notification.py\<close>, \<^verbatim>\<open>integrations/notifications.py\<close>, \<^verbatim>\<open>services/notifications.py\<close>, \<^verbatim>\<open>backend/services/notifications.py\<close>): rendering an approved alert, the guarded channels, and approval check, failover, retry and dead letters over the database rows.
  \<^item> \<open>Access\<close> (\<^verbatim>\<open>backend/auth/sessions.py\<close>, \<^verbatim>\<open>backend/auth/rbac.py\<close>, \<^verbatim>\<open>backend/middleware/rate_limit.py\<close>): sessions with single-use refresh tokens, roles, the request limiter.
  \<^item> \<open>Case_Store, Case_Service\<close> (\<^verbatim>\<open>backend/db/orm\<close>, \<^verbatim>\<open>backend/db/repositories\<close>, \<^verbatim>\<open>backend/services\<close>): the case tables and every write and view over them: generations of assessments, dossiers, reports and plans, decisions and the audit trail.
  \<^item> \<open>Case_Runs, Case_Safety, Case_Gate\<close> (\<^verbatim>\<open>backend/workers/investigations.py\<close>, \<^verbatim>\<open>backend/workers/notifications.py\<close>, \<^verbatim>\<open>backend/api/routes/investigations.py\<close>): the worker that persists a run node by node, the routes and the delivery of alerts; the reachable states of the case database under any interleaving (nothing final, approved or closed without a person, the record only grows), runs as sequences of steps, and a gate decision from the route through graph, case, report and alert.

  \<^bold>\<open>Interfaces.\<close> What one part relies on in another is a locale, interpreted on the model of the code that provides it:
  \<^item> \<open>session_store (Access)\<close>: what the session service needs of a store; interpreted on the in-memory store.
  \<^item> \<open>expiring_store (Resilience)\<close>: a value stored is found until it expires and no longer; interpreted on the adapters' cache and on the retrieval cache.
  \<^item> \<open>knowledge_tier (Agents)\<close>: searching never fails and returns only stored chunks; interpreted on the unavailable and the in-memory tier.
  \<^item> \<open>advisory_feed (Patch_Recommender)\<close>: an advisory source always answers; interpreted on both sources of the repository.
  \<^item> \<open>hot_tier, durable_tier, session_tiers (Session_Memory)\<close>: a cache that may lose entries over an append-only store; interpreted in process and on the table.
  \<^item> \<open>reference_keeping (Working_Memory)\<close>: a summary names what it replaces; interpreted on the reference summarizer.
  \<^item> \<open>versioned_index (Ingestion)\<close>: activating one source's version leaves the others alone; interpreted on the in-process and the PostgreSQL index.

  \<^bold>\<open>Bounds and fuel.\<close> Machine floats keep their 53-bit significand and smallest exponent; the largest exponent is unbounded, which no value
  here approaches, and there is no NaN or infinity. \<open>advance\<close> of \<open>Graph_Runtime\<close> needs no fuel: outside the
  gate every edge of the graph lowers \<open>node_rank\<close>, which is its measure. All other loops are structural or have a measure
  (\<open>splitting_ends_and_covers\<close> bounds the rounds of the chunker's loop).
  Characters outside Latin-1 are not represented; the dashes and ellipses of fixed texts are written in ASCII.

  \<^bold>\<open>Arguments of the model.\<close> HTTP and SMTP replies, the contents of files, clock readings, digests, random tokens,
  floating-point power, square root and logarithm, JSON decoding, ISO and POSIX stamps and their printed form, the reading of a payload by a
  data-class library, and the database's vector distance and pattern match are arguments, with
  what the code relies on as named hypotheses where a property needs any.

  \<^bold>\<open>Small deviations.\<close> Where a gate summary or a list of confirmed identifiers is read from a malformed stage result, the code raises and the model
  reads a missing value as empty. \<^verbatim>\<open>AlertTarget\<close>'s refusal of a blank recipient, the graph library's retry of a node that raised a transient error, and
  a negative limit on recommendations (a Python slice from the end) are left out. The active version of a source is looked up once where the code looks it up
  twice in a row. \<open>lower_first\<close> answers on an empty text, which no catalogued action is. A pattern that ignores case does so on Latin-1.

  \<^bold>\<open>Not modelled.\<close>
  \<^item> \<^verbatim>\<open>the full contracts of models/\<close>: the classes of \<^verbatim>\<open>models/\<close> are modelled as far as the modelled code reads them; reading a serialised section back (\<^verbatim>\<open>model_validate\<close>) is an argument.
  \<^item> \<^verbatim>\<open>backend/auth/oidc.py, tokens.py, provisioning.py\<close>: signature and token verification by third-party libraries, provisioning queries.
  \<^item> \<^verbatim>\<open>Redis stores\<close>: server-side scripts and expiry of a service outside the repository.
  \<^item> \<^verbatim>\<open>frontend/\<close>: a browser client in another language; no decision is taken there.
  \<^item> \<^verbatim>\<open>config/, backend/app.py, backend/api/stream.py, the other routes\<close>: settings read from the environment, request plumbing over a web framework and the event stream.
  \<^item> \<^verbatim>\<open>backend/db/session.py, object_store.py, repositories/user.py, migrations\<close>: connections, files and schema; the rows that services decide from are modelled with them, text ordered by character code.
\<close>

end
